(* ===== verification/Prelude.thy ===== *)
theory Prelude
  imports Main "HOL-Library.Word"
begin

text \<open>
  Shared vocabulary of the development: the machine integer types, byte buffers with
  in-place writes (\<open>bytes_at\<close>, \<open>bytes_put\<close>), flat byte memory (\<open>mem_read\<close>, \<open>mem_write\<close>), the
  little-endian images of C integers, and the cyclic distance used by the open-addressing
  table and by the page ring. The collection \<open>layout\<close> holds the length facts of byte
  images, \<open>cyclic\<close> the facts about wrapped indices.
\<close>

unbundle bit_operations_syntax

named_theorems layout
named_theorems cyclic

type_synonym u8 = "8 word"
type_synonym u32 = "32 word"
type_synonym u64 = "64 word"

section \<open>Byte buffers\<close>

text \<open>\<open>bytes_at off n xs\<close> is the bytes a C call reads at \<open>xs + off\<close>; \<open>bytes_put off bs xs\<close> is
  the buffer after \<open>memcpy (xs + off, bs, length bs)\<close>.\<close>

definition bytes_at :: "nat \<Rightarrow> nat \<Rightarrow> 'a list \<Rightarrow> 'a list" where
  "bytes_at off n xs = take n (drop off xs)"

definition bytes_put :: "nat \<Rightarrow> 'a list \<Rightarrow> 'a list \<Rightarrow> 'a list" where
  "bytes_put off bs xs = take off xs @ bs @ drop (off + length bs) xs"

lemma length_bytes_at [simp]: "length (bytes_at off n xs) = min n (length xs - off)"
  by (simp add: bytes_at_def min.commute)

lemma length_bytes_put [simp, layout]:
  "off + length bs \<le> length xs \<Longrightarrow> length (bytes_put off bs xs) = length xs"
  by (simp add: bytes_put_def)

lemma bytes_at_0_all [simp]: "length xs \<le> n \<Longrightarrow> bytes_at 0 n xs = xs"
  by (simp add: bytes_at_def)

lemma bytes_at_zero [simp]: "bytes_at off 0 xs = []"
  by (simp add: bytes_at_def)

lemma bytes_put_nil [simp]: "bytes_put off [] xs = xs"
  by (simp add: bytes_put_def)

lemma nth_bytes_at: "i < n \<Longrightarrow> off + i < length xs \<Longrightarrow> bytes_at off n xs ! i = xs ! (off + i)"
  by (simp add: bytes_at_def)

lemma nth_bytes_put:
  "off + length bs \<le> length xs \<Longrightarrow> i < length xs \<Longrightarrow>
   bytes_put off bs xs ! i = (if off \<le> i \<and> i < off + length bs then bs ! (i - off) else xs ! i)"
  by (auto simp: bytes_put_def nth_append min_def)

lemma bytes_at_append:
  "bytes_at off n xs @ bytes_at (off + n) m xs = bytes_at off (n + m) xs"
  by (simp only: bytes_at_def take_add drop_drop add.commute [of m] add.commute [of off] )

lemma bytes_at_bytes_put_same:
  "off + length bs \<le> length xs \<Longrightarrow> bytes_at off (length bs) (bytes_put off bs xs) = bs"
  by (simp add: bytes_at_def bytes_put_def)

lemma bytes_at_bytes_put_before:
  "p + n \<le> off \<Longrightarrow> off + length bs \<le> length xs \<Longrightarrow> bytes_at p n (bytes_put off bs xs) = bytes_at p n xs"
  by (simp add: bytes_at_def bytes_put_def drop_take)

lemma bytes_at_bytes_put_after:
  assumes "off + length bs \<le> p" "off + length bs \<le> length xs"
  shows "bytes_at p n (bytes_put off bs xs) = bytes_at p n xs"
proof -
  have "drop p (bytes_put off bs xs) = drop p xs"
    using assms by (auto intro!: nth_equalityI simp: nth_bytes_put)
  then show ?thesis by (simp add: bytes_at_def)
qed

lemma bytes_put_at_prefix:
  "bytes_put (length ys) bs (ys @ zs) = ys @ bs @ drop (length bs) zs"
  by (simp add: bytes_put_def)

lemma bytes_put_whole: "length bs = length xs \<Longrightarrow> bytes_put 0 bs xs = bs"
  by (simp add: bytes_put_def)

lemma bytes_put_bytes_put_adjacent:
  "off + length as + length bs \<le> length xs \<Longrightarrow>
   bytes_put (off + length as) bs (bytes_put off as xs) = bytes_put off (as @ bs) xs"
  by (simp add: bytes_put_def add_ac)

lemma bytes_at_eq_all_nth:
  "off + n \<le> length xs \<Longrightarrow> length ys = n \<Longrightarrow>
   bytes_at off n xs = ys \<longleftrightarrow> (\<forall>i<n. xs ! (off + i) = ys ! i)"
  by (auto simp: list_eq_iff_nth_eq nth_bytes_at)

text \<open>Bytes taken from the front of a stream, and bytes received into the buffer they continue.\<close>

lemma stream_front:
  assumes "xs @ ys = bs @ zs" "length bs \<le> length xs"
  shows "bs = take (length bs) xs" "zs = drop (length bs) xs @ ys"
  using assms by (auto simp: append_eq_append_conv_if split: if_splits)

lemma take_bytes_put_continue:
  assumes "take off buf = take off img" "off \<le> length buf" "off \<le> length img"
    and "bs = take (length bs) (drop off img)"
  shows "take (off + length bs) (bytes_put off bs buf) = take (off + length bs) img"
proof -
  have "take (off + length bs) (bytes_put off bs buf) = take off buf @ bs"
    using assms(2) by (simp add: bytes_put_def)
  also have "\<dots> = take off img @ take (length bs) (drop off img)" using assms(1,4) by simp
  also have "\<dots> = take (off + length bs) img" by (simp add: take_add)
  finally show ?thesis .
qed

section \<open>Consecutive blocks\<close>

text \<open>\<open>offset_of sizes i\<close> is where block \<open>i\<close> starts when blocks of the given sizes are laid out
  one after the other.\<close>

definition offset_of :: "nat list \<Rightarrow> nat \<Rightarrow> nat" where
  "offset_of sizes i = sum_list (take i sizes)"

lemma offset_of_0 [simp]: "offset_of sizes 0 = 0"
  by (simp add: offset_of_def)

lemma offset_of_Suc:
  "i < length sizes \<Longrightarrow> offset_of sizes (Suc i) = offset_of sizes i + sizes ! i"
  by (simp add: offset_of_def take_Suc_conv_app_nth)

lemma offset_of_length: "offset_of sizes (length sizes) = sum_list sizes"
  by (simp add: offset_of_def)

lemma offset_of_le_sum: "offset_of sizes i \<le> sum_list sizes"
  by (metis offset_of_def append_take_drop_id le_add1 sum_list_append)

lemma offset_of_mono: "i \<le> j \<Longrightarrow> offset_of sizes i \<le> offset_of sizes j"
proof -
  assume "i \<le> j"
  then have "take i sizes = take i (take j sizes)" by (simp add: min_def)
  then show ?thesis unfolding offset_of_def by (metis offset_of_def offset_of_le_sum)
qed

lemma offset_of_block_le:
  "i < length sizes \<Longrightarrow> offset_of sizes i + sizes ! i \<le> sum_list sizes"
  by (metis offset_of_Suc offset_of_le_sum)

lemma offset_of_blocks_disjoint:
  "i < j \<Longrightarrow> j < length sizes \<Longrightarrow> offset_of sizes i + sizes ! i \<le> offset_of sizes j"
  by (metis Suc_leI less_trans offset_of_Suc offset_of_mono)

lemma block_of_position:
  assumes "p < sum_list sizes"
  obtains i where "i < length sizes" "offset_of sizes i \<le> p" "p < offset_of sizes i + sizes ! i"
  using assms
proof (induction sizes arbitrary: thesis rule: rev_induct)
  case Nil
  then show ?case by simp
next
  case (snoc s ss)
  show ?case
  proof (cases "p < sum_list ss")
    case True
    then obtain i where "i < length ss" "offset_of ss i \<le> p" "p < offset_of ss i + ss ! i"
      using snoc.IH by blast
    then show thesis
      by (intro snoc.prems(1) [of i]) (auto simp: offset_of_def nth_append)
  next
    case False
    with snoc.prems(2) show thesis
      by (intro snoc.prems(1) [of "length ss"]) (auto simp: offset_of_def)
  qed
qed

text \<open>A buffer cut into blocks of given sizes.\<close>

definition blocks_of :: "nat list \<Rightarrow> 'a list \<Rightarrow> 'a list list" where
  "blocks_of sizes xs = map (\<lambda>i. bytes_at (offset_of sizes i) (sizes ! i) xs) [0..<length sizes]"

lemma length_blocks_of [simp]: "length (blocks_of sizes xs) = length sizes"
  by (simp add: blocks_of_def)

lemma nth_blocks_of [simp]:
  "i < length sizes \<Longrightarrow> blocks_of sizes xs ! i = bytes_at (offset_of sizes i) (sizes ! i) xs"
  by (simp add: blocks_of_def)

lemma concat_blocks_prefix:
  "i \<le> length sizes \<Longrightarrow> concat (take i (blocks_of sizes xs)) = take (offset_of sizes i) xs"
proof (induction i)
  case 0
  then show ?case by simp
next
  case (Suc i)
  then have "concat (take (Suc i) (blocks_of sizes xs)) =
      bytes_at 0 (offset_of sizes i) xs @ bytes_at (0 + offset_of sizes i) (sizes ! i) xs"
    by (simp add: take_Suc_conv_app_nth bytes_at_def)
  also have "\<dots> = bytes_at 0 (offset_of sizes i + sizes ! i) xs" by (rule bytes_at_append)
  finally show ?case using Suc.prems by (simp add: offset_of_Suc bytes_at_def)
qed

lemma concat_blocks_of: "length xs \<le> sum_list sizes \<Longrightarrow> concat (blocks_of sizes xs) = xs"
  using concat_blocks_prefix [of "length sizes" sizes xs] by (simp add: offset_of_length)

lemma length_block:
  "i < length sizes \<Longrightarrow> sum_list sizes \<le> length xs \<Longrightarrow>
   length (bytes_at (offset_of sizes i) (sizes ! i) xs) = sizes ! i"
  using offset_of_block_le [of i sizes] by simp

lemma map_length_blocks: "sum_list sizes \<le> length xs \<Longrightarrow> map length (blocks_of sizes xs) = sizes"
  by (rule nth_equalityI) (simp_all add: length_block del: length_bytes_at)

text \<open>Reading a block back out of a concatenation.\<close>

lemma take_concat: "take (offset_of (map length bss) i) (concat bss) = concat (take i bss)"
proof (induction bss arbitrary: i)
  case (Cons bs bss)
  then show ?case by (cases i) (simp_all add: offset_of_def)
qed simp

lemma drop_concat: "drop (offset_of (map length bss) i) (concat bss) = concat (drop i bss)"
proof (induction bss arbitrary: i)
  case (Cons bs bss)
  then show ?case by (cases i) (simp_all add: offset_of_def)
qed simp

lemma bytes_at_concat:
  assumes "i < length bss"
  shows "bytes_at (offset_of (map length bss) i) (length (bss ! i)) (concat bss) = bss ! i"
  using assms by (simp add: bytes_at_def drop_concat Cons_nth_drop_Suc [symmetric])

lemma offset_of_const: "(\<And>x. x \<in> set xs \<Longrightarrow> f x = k) \<Longrightarrow> i \<le> length xs \<Longrightarrow> offset_of (map f xs) i = k * i"
proof (induction i)
  case (Suc i)
  then show ?case by (simp add: offset_of_Suc)
qed simp

lemma bytes_at_concat_const:
  assumes "\<And>x. x \<in> set xs \<Longrightarrow> length (f x) = k" "i < length xs"
  shows "bytes_at (k * i) k (concat (map f xs)) = f (xs ! i)"
  using bytes_at_concat [of i "map f xs"] offset_of_const [of xs "\<lambda>x. length (f x)" k i] assms
  by (simp add: comp_def)

lemma length_concat_const:
  assumes "\<And>x. x \<in> set xs \<Longrightarrow> length (f x) = k"
  shows "length (concat (map f xs)) = k * length xs"
  using assms by (induction xs) auto

lemma bytes_at_bytes_at:
  "a + n \<le> m \<Longrightarrow> bytes_at a n (bytes_at off m xs) = bytes_at (off + a) n xs"
  by (simp add: bytes_at_def take_drop add.commute min_def)

section \<open>Flat byte memory\<close>

definition mem_write :: "nat \<Rightarrow> 'a list \<Rightarrow> (nat \<Rightarrow> 'a) \<Rightarrow> (nat \<Rightarrow> 'a)" where
  "mem_write addr bs m = (\<lambda>a. if addr \<le> a \<and> a < addr + length bs then bs ! (a - addr) else m a)"

definition mem_read :: "(nat \<Rightarrow> 'a) \<Rightarrow> nat \<Rightarrow> nat \<Rightarrow> 'a list" where
  "mem_read m addr n = map m [addr..<addr + n]"

lemma length_mem_read [simp, layout]: "length (mem_read m addr n) = n"
  by (simp add: mem_read_def)

lemma nth_mem_read [simp]: "i < n \<Longrightarrow> mem_read m addr n ! i = m (addr + i)"
  by (simp add: mem_read_def)

lemma mem_read_write_same: "n = length bs \<Longrightarrow> mem_read (mem_write addr bs m) addr n = bs"
  by (rule nth_equalityI) (auto simp: mem_write_def)

lemma mem_read_write_disjoint:
  "addr + n \<le> w \<or> w + length bs \<le> addr \<Longrightarrow> mem_read (mem_write w bs m) addr n = mem_read m addr n"
  by (rule nth_equalityI) (auto simp: mem_write_def)

lemma mem_read_cong: "(\<And>a. addr \<le> a \<Longrightarrow> a < addr + n \<Longrightarrow> m a = m' a) \<Longrightarrow>
   mem_read m addr n = mem_read m' addr n"
  by (simp add: mem_read_def)

lemma mem_write_outside: "a < w \<or> w + length bs \<le> a \<Longrightarrow> mem_write w bs m a = m a"
  by (auto simp: mem_write_def)

section \<open>Little-endian images of C integers\<close>

fun le_bytes :: "nat \<Rightarrow> nat \<Rightarrow> u8 list" where
  "le_bytes 0 v = []"
| "le_bytes (Suc n) v = of_nat (v mod 256) # le_bytes n (v div 256)"

fun le_value :: "u8 list \<Rightarrow> nat" where
  "le_value [] = 0"
| "le_value (b # bs) = unat b + 256 * le_value bs"

lemma length_le_bytes [simp, layout]: "length (le_bytes n v) = n"
  by (induction n arbitrary: v) auto

lemma unat_of_nat_byte: "unat (of_nat (v mod 256) :: u8) = v mod 256"
  by (simp add: unat_of_nat)

lemma le_value_le_bytes: "le_value (le_bytes n v) = v mod 256 ^ n"
proof (induction n arbitrary: v)
  case 0
  then show ?case by simp
next
  case (Suc n)
  have "le_value (le_bytes (Suc n) v) = v mod 256 + 256 * ((v div 256) mod 256 ^ n)"
    by (simp add: Suc.IH unat_of_nat_byte)
  also have "\<dots> = v mod (256 * 256 ^ n)"
    by (simp add: mod_mult2_eq)
  finally show ?case by simp
qed

lemma le_value_le_bytes_id [simp]: "v < 256 ^ n \<Longrightarrow> le_value (le_bytes n v) = v"
  by (simp add: le_value_le_bytes)

lemma le_value_bound: "le_value bs < 256 ^ length bs"
proof (induction bs)
  case Nil
  then show ?case by simp
next
  case (Cons b bs)
  have "unat b < 256" using unsigned_less [of b] by simp
  moreover have "le_value bs + 1 \<le> 256 ^ length bs" using Cons.IH by simp
  then have "256 * (le_value bs + 1) \<le> 256 * 256 ^ length bs" by (rule mult_le_mono2)
  ultimately show ?case by simp
qed

lemma le_bytes_le_value: "length bs = n \<Longrightarrow> le_bytes n (le_value bs) = bs"
proof (induction bs arbitrary: n)
  case Nil
  then show ?case by simp
next
  case (Cons b bs)
  then obtain m where m: "n = Suc m" "length bs = m" by auto
  have b: "unat b < 256" using unsigned_less [of b] by simp
  then have "(unat b + 256 * le_value bs) mod 256 = unat b"
    "(unat b + 256 * le_value bs) div 256 = le_value bs" by auto
  with Cons.IH [OF m(2)] m(1) show ?case by simp
qed

section \<open>Cyclic indices\<close>

text \<open>\<open>cdist n a b\<close> is how many forward steps modulo \<open>n\<close> lead from \<open>a\<close> to \<open>b\<close>.\<close>

definition cdist :: "nat \<Rightarrow> nat \<Rightarrow> nat \<Rightarrow> nat" where
  "cdist n a b = (if a \<le> b then b - a else n - a + b)"

lemma cdist_less [cyclic]: "a < n \<Longrightarrow> b < n \<Longrightarrow> cdist n a b < n"
  by (auto simp: cdist_def)

lemma cdist_self [simp]: "cdist n a a = 0"
  by (simp add: cdist_def)

lemma cdist_0_iff [cyclic]: "a < n \<Longrightarrow> b < n \<Longrightarrow> cdist n a b = 0 \<longleftrightarrow> a = b"
  by (auto simp: cdist_def)

lemma add_cdist_mod [cyclic]: "a < n \<Longrightarrow> b < n \<Longrightarrow> (a + cdist n a b) mod n = b"
  by (auto simp: cdist_def)

lemma cdist_add_mod [cyclic]: "a < n \<Longrightarrow> d < n \<Longrightarrow> cdist n a ((a + d) mod n) = d"
  by (auto simp: cdist_def mod_if)

lemma mod_add_inj [cyclic]:
  "a < n \<Longrightarrow> d < n \<Longrightarrow> d' < n \<Longrightarrow> (a + d) mod n = (a + d') mod n \<Longrightarrow> d = (d' :: nat)"
  by (metis cdist_add_mod)

lemma cdist_split [cyclic]:
  assumes "a < n" "b < n" "c < n" "cdist n a b \<le> cdist n a c"
  shows "cdist n a c = cdist n a b + cdist n b c"
  using assms by (auto simp: cdist_def split: if_splits)

end
