(* ===== verification/Config.thy ===== *)
theory Config
  imports Prelude
begin

text \<open>
  The compile-time constants of \<^verbatim>\<open>config.h\<close> and \<^verbatim>\<open>common.h\<close>, the result codes of
  \<^verbatim>\<open>err.h\<close> and the macros the code computes with. The logging switches are all 0 or only
  guard log output, which the model leaves out.
\<close>

section \<open>Result codes (err.h)\<close>

datatype ncclResult_t =
    ncclSuccess
  | ncclUnhandledCudaError
  | ncclSystemError
  | ncclInternalError
  | ncclInvalidArgument
  | ncclInvalidUsage
  | ncclRemoteError

section \<open>Constants (config.h, common.h)\<close>

definition FINGERPRINT_NUM_BYTES :: nat where "FINGERPRINT_NUM_BYTES = 32"
definition MAX_NET_DEDUP_DEVS :: nat where "MAX_NET_DEDUP_DEVS = 16"
definition MAX_COMMS_NET_DEDUP_SOCKET_DEV :: nat where "MAX_COMMS_NET_DEDUP_SOCKET_DEV = 65536"
definition MAX_FINGERPRINTS_PER_REQ :: nat where "MAX_FINGERPRINTS_PER_REQ = 2 ^ 12"
definition MAX_FDS :: nat where "MAX_FDS = 1024"

definition FINGERPRINT_CACHE_NUM_BYTES :: nat where "FINGERPRINT_CACHE_NUM_BYTES = 30 * 2 ^ 30"
definition FINGERPRINT_CACHE_PAGE_SIZE :: nat where "FINGERPRINT_CACHE_PAGE_SIZE = 2 ^ 12"
definition FINGERPRINT_CACHE_NUM_PAGES :: nat where
  "FINGERPRINT_CACHE_NUM_PAGES = FINGERPRINT_CACHE_NUM_BYTES div FINGERPRINT_CACHE_PAGE_SIZE"
definition FINGERPRINT_TABLE_SIZE :: nat where "FINGERPRINT_TABLE_SIZE = 2 ^ 30"

definition RABIN_P :: u64 where "RABIN_P = 1048583"
definition RABIN_M_BITS :: nat where "RABIN_M_BITS = 60"
definition WINDOW_BYTES :: nat where "WINDOW_BYTES = 64"
definition LOWER_BITS :: nat where "LOWER_BITS = 13"
definition MAGIC_VAL :: u64 where "MAGIC_VAL = 0"
definition MIN_CHUNK_SIZE_BYTES :: nat where "MIN_CHUNK_SIZE_BYTES = 2 ^ 11"
definition MAX_CHUNK_SIZE_BYTES :: nat where "MAX_CHUNK_SIZE_BYTES = 2 ^ 16"

text \<open>The macro \<open>FINGERPRINT_CONTENT_MAX_PAGES\<close> is written without outer parentheses, but every
  use is a comparison or an array bound, where it means the sum below.\<close>

definition FINGERPRINT_CONTENT_MAX_PAGES :: nat where
  "FINGERPRINT_CONTENT_MAX_PAGES = MAX_CHUNK_SIZE_BYTES div FINGERPRINT_CACHE_PAGE_SIZE + 2"

definition FINGERPRINT_MSG_SIZE_THRESHOLD :: nat where
  "FINGERPRINT_MSG_SIZE_THRESHOLD = 5 * MIN_CHUNK_SIZE_BYTES"

text \<open>\<open>MY_CEIL(a, b)\<close> on \<open>uint64_t\<close> operands: the sum wraps at 64 bits.\<close>

definition MY_CEIL :: "nat \<Rightarrow> nat \<Rightarrow> nat" where
  "MY_CEIL a b = ((a + b - 1) mod 2 ^ 64) div b"

lemmas config_defs =
  FINGERPRINT_NUM_BYTES_def MAX_NET_DEDUP_DEVS_def MAX_FINGERPRINTS_PER_REQ_def MAX_FDS_def
  FINGERPRINT_CACHE_NUM_BYTES_def FINGERPRINT_CACHE_PAGE_SIZE_def FINGERPRINT_CACHE_NUM_PAGES_def
  FINGERPRINT_TABLE_SIZE_def MIN_CHUNK_SIZE_BYTES_def MAX_CHUNK_SIZE_BYTES_def
  FINGERPRINT_CONTENT_MAX_PAGES_def FINGERPRINT_MSG_SIZE_THRESHOLD_def WINDOW_BYTES_def
  LOWER_BITS_def RABIN_M_BITS_def

lemma FINGERPRINT_TABLE_SIZE_pos [simp]: "0 < FINGERPRINT_TABLE_SIZE"
  by (simp add: FINGERPRINT_TABLE_SIZE_def)

lemma FINGERPRINT_CACHE_NUM_PAGES_eq: "FINGERPRINT_CACHE_NUM_PAGES = 7864320"
  by (simp add: config_defs)

lemma FINGERPRINT_CACHE_NUM_PAGES_pos [simp]: "0 < FINGERPRINT_CACHE_NUM_PAGES"
  by (simp add: FINGERPRINT_CACHE_NUM_PAGES_eq)

lemma FINGERPRINT_CACHE_PAGE_SIZE_pos [simp]: "0 < FINGERPRINT_CACHE_PAGE_SIZE"
  by (simp add: FINGERPRINT_CACHE_PAGE_SIZE_def)

text \<open>The cache has fewer pages than the table has slots.\<close>

lemma pages_less_slots: "FINGERPRINT_CACHE_NUM_PAGES < FINGERPRINT_TABLE_SIZE"
  by (simp add: config_defs)

lemma MY_CEIL_no_wrap: "0 < b \<Longrightarrow> a + b \<le> 2 ^ 64 \<Longrightarrow> MY_CEIL a b = (a + b - 1) div b"
  by (simp add: MY_CEIL_def)

end
