(* ===== verification/Interfaces.thy ===== *)
theory Interfaces
  imports Prelude
begin

text \<open>
  The contracts between the components, as locales. Each is stated over the operations its client
  calls, its client lemmas are proved once here, and the theory of the component that provides the
  operations interprets it on the model of the code.
\<close>

section \<open>A key store\<close>

text \<open>What the fingerprint cache relies on of its index: as long as there is room, a lookup of a
  legal key agrees with the map the store stands for, and inserting an absent key updates the map
  at that key only and uses one unit of room.\<close>

locale key_store =
  fixes ok :: "'t \<Rightarrow> bool"
    and used :: "'t \<Rightarrow> nat"
    and limit :: nat
    and legal :: "'k \<Rightarrow> bool"
    and contents :: "'t \<Rightarrow> 'k \<rightharpoonup> 'v"
    and find :: "'t \<Rightarrow> 'k \<Rightarrow> 'v option"
    and ins :: "'t \<Rightarrow> 'k \<Rightarrow> 'v \<Rightarrow> 't"
  assumes find_contents: "ok t \<Longrightarrow> used t < limit \<Longrightarrow> legal k \<Longrightarrow> find t k = contents t k"
    and ins_ok: "ok t \<Longrightarrow> used t < limit \<Longrightarrow> legal k \<Longrightarrow> contents t k = None \<Longrightarrow> ok (ins t k v)"
    and ins_contents: "ok t \<Longrightarrow> used t < limit \<Longrightarrow> legal k \<Longrightarrow> contents t k = None \<Longrightarrow>
      contents (ins t k v) = (contents t)(k \<mapsto> v)"
    and ins_used: "ok t \<Longrightarrow> used t < limit \<Longrightarrow> legal k \<Longrightarrow> contents t k = None \<Longrightarrow>
      used (ins t k v) = used t + 1"
begin

text \<open>The client's idiom: look the key up, insert it only when it is absent.\<close>

definition add_new :: "'t \<Rightarrow> 'k \<Rightarrow> 'v \<Rightarrow> 't" where
  "add_new t k v = (case find t k of None \<Rightarrow> ins t k v | Some _ \<Rightarrow> t)"

lemma add_new_contents:
  assumes "ok t" "used t < limit" "legal k"
  shows "contents (add_new t k v) =
    (case contents t k of None \<Rightarrow> (contents t)(k \<mapsto> v) | Some _ \<Rightarrow> contents t)"
  using assms by (auto simp: add_new_def find_contents ins_contents split: option.splits)

lemma add_new_ok: "ok t \<Longrightarrow> used t < limit \<Longrightarrow> legal k \<Longrightarrow> ok (add_new t k v)"
  by (auto simp: add_new_def find_contents ins_ok split: option.splits)

lemma add_new_used: "ok t \<Longrightarrow> used t < limit \<Longrightarrow> legal k \<Longrightarrow> used (add_new t k v) \<le> used t + 1"
  by (auto simp: add_new_def find_contents ins_used split: option.splits)

lemma add_new_find:
  assumes "ok t" "used t + 1 < limit" "legal k"
  shows "find (add_new t k v) k = Some (case contents t k of None \<Rightarrow> v | Some w \<Rightarrow> w)"
proof -
  have "used (add_new t k v) < limit" using add_new_used [of t k v] assms by simp
  then show ?thesis
    using assms add_new_ok [of t k v] add_new_contents [of t k v]
    by (auto simp: find_contents split: option.splits)
qed

text \<open>A batch of keys, as one request inserts them: earlier entries win, nothing is lost.\<close>

lemma add_all_spec:
  assumes "ok t" "used t + length kvs < limit" "\<forall>kv\<in>set kvs. legal (fst kv)"
  shows "ok (fold (\<lambda>(k, v) t. add_new t k v) kvs t) \<and>
    contents (fold (\<lambda>(k, v) t. add_new t k v) kvs t) = map_of kvs ++ contents t"
  using assms
proof (induction kvs arbitrary: t)
  case Nil
  then show ?case by simp
next
  case (Cons kv kvs)
  obtain k v where kv: "kv = (k, v)" by (cases kv)
  have t: "ok t" "used t < limit" "legal k" using Cons.prems kv by auto
  have "used (add_new t k v) + length kvs < limit" using add_new_used [OF t, of v] Cons.prems(2) by simp
  moreover have "map_of kvs ++ contents (add_new t k v) = map_of (kv # kvs) ++ contents t"
    unfolding add_new_contents [OF t] kv
    by (cases "contents t k") (auto simp: map_add_def split: option.splits)
  ultimately show ?case
    using Cons.IH [of "add_new t k v"] Cons.prems t add_new_ok kv by (simp add: fun_upd_def)
qed

end

section \<open>A content store\<close>

text \<open>What the transport relies on of the shared cache: reading a key gives the content the store
  maps it to, storing keeps what is there, adds an absent key when there is room, and uses at most
  \<open>cost\<close> units of room whether or not the key was present.\<close>

locale content_store =
  fixes ok :: "'s \<Rightarrow> bool"
    and room :: "'s \<Rightarrow> nat"
    and cost :: "'v \<Rightarrow> nat"
    and legal :: "'k \<Rightarrow> 'v \<Rightarrow> bool"
    and legal_key :: "'k \<Rightarrow> bool"
    and contents :: "'s \<Rightarrow> 'k \<rightharpoonup> 'v"
    and fetch :: "'s \<Rightarrow> 'k \<Rightarrow> 'v option"
    and store :: "'s \<Rightarrow> 'k \<Rightarrow> 'v \<Rightarrow> 's"
  assumes legal_legal_key: "legal k v \<Longrightarrow> legal_key k"
    and fetch_contents: "ok s \<Longrightarrow> legal_key k \<Longrightarrow> fetch s k = contents s k"
    and store_ok: "ok s \<Longrightarrow> legal k v \<Longrightarrow> ok (store s k v)"
    and store_contents: "ok s \<Longrightarrow> legal k v \<Longrightarrow> contents (store s k v) =
      (if cost v \<le> room s \<and> contents s k = None then (contents s)(k \<mapsto> v) else contents s)"
    and store_room: "ok s \<Longrightarrow> legal k v \<Longrightarrow>
      room (store s k v) = (if cost v \<le> room s then room s - cost v else room s)"
begin

lemma store_mono: "ok s \<Longrightarrow> legal k v \<Longrightarrow> contents s \<subseteq>\<^sub>m contents (store s k v)"
  by (auto simp: store_contents map_le_def)

lemma store_present:
  "ok s \<Longrightarrow> legal k v \<Longrightarrow> cost v \<le> room s \<Longrightarrow> contents (store s k v) k \<noteq> None"
  by (auto simp: store_contents)

lemma store_digest:
  assumes "ok s" "legal (h v) v" "\<forall>k x. contents s k = Some x \<longrightarrow> h x = k"
  shows "\<forall>k x. contents (store s (h v) v) k = Some x \<longrightarrow> h x = k"
  using assms by (auto simp: store_contents split: if_splits)

definition store_all :: "('v \<Rightarrow> 'k) \<Rightarrow> 'v list \<Rightarrow> 's \<Rightarrow> 's" where
  "store_all h vs s = fold (\<lambda>v s. store s (h v) v) vs s"

text \<open>A batch of contents stored under their digests: the store stays well formed, keeps every
  content under its own digest and loses nothing.\<close>

lemma store_all_keeps:
  assumes "ok s" "\<forall>v\<in>set vs. legal (h v) v" "\<forall>k x. contents s k = Some x \<longrightarrow> h x = k"
  shows "ok (store_all h vs s) \<and> contents s \<subseteq>\<^sub>m contents (store_all h vs s) \<and>
    (\<forall>k x. contents (store_all h vs s) k = Some x \<longrightarrow> h x = k)"
  using assms
proof (induction vs arbitrary: s)
  case Nil
  then show ?case by (simp add: store_all_def)
next
  case (Cons v vs)
  let ?s = "store s (h v) v"
  have v: "legal (h v) v" using Cons.prems(2) by simp
  have "ok ?s" "contents s \<subseteq>\<^sub>m contents ?s" "\<forall>k x. contents ?s k = Some x \<longrightarrow> h x = k"
    by (rule store_ok [OF Cons.prems(1) v] store_mono [OF Cons.prems(1) v]
        store_digest [OF Cons.prems(1) v Cons.prems(3)])+
  moreover have "\<forall>v\<in>set vs. legal (h v) v" using Cons.prems(2) by simp
  ultimately have "ok (store_all h vs ?s) \<and> contents ?s \<subseteq>\<^sub>m contents (store_all h vs ?s) \<and>
      (\<forall>k x. contents (store_all h vs ?s) k = Some x \<longrightarrow> h x = k)"
    by (intro Cons.IH)
  moreover have "store_all h (v # vs) s = store_all h vs ?s" by (simp add: store_all_def)
  ultimately show ?case using \<open>contents s \<subseteq>\<^sub>m contents ?s\<close> by (metis map_le_trans)
qed

lemma store_all_present:
  assumes "ok s" "\<forall>v\<in>set vs. legal (h v) v" "(\<Sum>v\<leftarrow>vs. cost v) \<le> room s" "v \<in> set vs"
    and "\<forall>k x. contents s k = Some x \<longrightarrow> h x = k"
  shows "contents (store_all h vs s) (h v) \<noteq> None"
  using assms
proof (induction vs arbitrary: s)
  case Nil
  then show ?case by simp
next
  case (Cons w vs)
  let ?s = "store s (h w) w"
  have w: "legal (h w) w" using Cons.prems(2) by simp
  have s: "ok ?s" "\<forall>k x. contents ?s k = Some x \<longrightarrow> h x = k" "(\<Sum>v\<leftarrow>vs. cost v) \<le> room ?s"
    using store_ok [OF Cons.prems(1) w] store_digest [OF Cons.prems(1) w Cons.prems(5)]
      store_room [OF Cons.prems(1) w] Cons.prems(3) by auto
  have rest: "\<forall>v\<in>set vs. legal (h v) v" using Cons.prems(2) by simp
  have mono: "contents ?s \<subseteq>\<^sub>m contents (store_all h vs ?s)" using store_all_keeps [OF s(1) rest s(2)] by blast
  show ?case
  proof (cases "v \<in> set vs")
    case True
    then show ?thesis using Cons.IH [OF s(1) rest s(3) _ s(2)] by (simp add: store_all_def)
  next
    case False
    then have "v = w" using Cons.prems(4) by simp
    moreover have "contents ?s (h w) \<noteq> None" using Cons.prems(3) by (intro store_present [OF Cons.prems(1) w]) simp
    ultimately show ?thesis using mono by (auto simp: store_all_def map_le_def dom_def)
  qed
qed

lemma store_ran:
  "ok s \<Longrightarrow> legal k v \<Longrightarrow> ran (contents (store s k v)) \<subseteq> insert v (ran (contents s))"
  by (auto simp: store_contents ran_def split: if_splits)

lemma store_all_ran:
  assumes "ok s" "\<forall>v\<in>set vs. legal (h v) v"
  shows "ran (contents (store_all h vs s)) \<subseteq> set vs \<union> ran (contents s)"
  using assms
proof (induction vs arbitrary: s)
  case Nil
  then show ?case by (simp add: store_all_def)
next
  case (Cons v vs)
  have v: "legal (h v) v" using Cons.prems(2) by simp
  have "ran (contents (store_all h vs (store s (h v) v))) \<subseteq> set vs \<union> ran (contents (store s (h v) v))"
    using Cons.prems by (intro Cons.IH) (auto simp: store_ok)
  then show ?case using store_ran [OF Cons.prems(1) v] by (auto simp: store_all_def)
qed

text \<open>When the digest separates the contents concerned, every stored content is read back.\<close>

lemma store_all_fetch:
  assumes "ok s" "\<forall>v\<in>set vs. legal (h v) v" "(\<Sum>v\<leftarrow>vs. cost v) \<le> room s" "v \<in> set vs"
    and "\<forall>k x. contents s k = Some x \<longrightarrow> h x = k" and inj: "inj_on h (set vs \<union> ran (contents s))"
  shows "fetch (store_all h vs s) (h v) = Some v"
proof -
  have "legal_key (h v)" using assms(2,4) legal_legal_key by blast
  then have "fetch (store_all h vs s) (h v) = contents (store_all h vs s) (h v)"
    using store_all_keeps [OF assms(1,2,5)] by (simp add: fetch_contents)
  moreover obtain x where x: "contents (store_all h vs s) (h v) = Some x"
    using store_all_present [OF assms(1-5)] by blast
  moreover have "h x = h v" using x store_all_keeps [OF assms(1,2,5)] by blast
  moreover have "x \<in> set vs \<union> ran (contents s)"
    using store_all_ran [where h = h, OF assms(1,2)] x by (blast intro: ranI)
  ultimately show ?thesis using inj_onD [OF inj, of x v] assms(4) by simp
qed

end

section \<open>Endpoints of a byte stream\<close>

text \<open>An endpoint of a two-way stream that follows a script \<open>m\<close>: in state \<open>s\<close> it has \<open>inp s\<close> to read,
  has written \<open>outp s\<close> that the other side was not given yet, will read exactly \<open>expd m s\<close> from now
  on and will write exactly \<open>fut m s\<close> more. Bytes arrive with \<open>feed\<close> and leave with \<open>drain\<close>.\<close>

locale stream_endpoint =
  fixes inv :: "'m \<Rightarrow> 's \<Rightarrow> bool"
    and fut :: "'m \<Rightarrow> 's \<Rightarrow> 'b list"
    and expd :: "'m \<Rightarrow> 's \<Rightarrow> 'b list"
    and inp :: "'s \<Rightarrow> 'b list"
    and outp :: "'s \<Rightarrow> 'b list"
    and feed :: "'b list \<Rightarrow> 's \<Rightarrow> 's"
    and drain :: "nat \<Rightarrow> 's \<Rightarrow> 's"
  assumes inv_feed: "inv m (feed bs s) = inv m s"
    and fut_feed: "fut m (feed bs s) = fut m s"
    and expd_feed: "expd m (feed bs s) = expd m s"
    and inp_feed: "inp (feed bs s) = inp s @ bs"
    and outp_feed: "outp (feed bs s) = outp s"
    and inv_drain: "inv m (drain k s) = inv m s"
    and fut_drain: "fut m (drain k s) = fut m s"
    and expd_drain: "expd m (drain k s) = expd m s"
    and inp_drain: "inp (drain k s) = inp s"
    and outp_drain: "outp (drain k s) = drop k (outp s)"
begin

lemmas stream_laws = inv_feed fut_feed expd_feed inp_feed outp_feed
  inv_drain fut_drain expd_drain inp_drain outp_drain

text \<open>What a step must do to the two directions, when \<open>rest\<close> is what is still to arrive after \<open>inp\<close>.\<close>

definition follows :: "'m \<Rightarrow> 'b list \<Rightarrow> 's \<Rightarrow> 's \<Rightarrow> bool" where
  "follows m rest s s' \<longleftrightarrow>
     inv m s' \<and> expd m s' = inp s' @ rest \<and> outp s' @ fut m s' = outp s @ fut m s"

end

text \<open>An endpoint whose steps follow any script it is consistent with.\<close>

locale scripted_endpoint = stream_endpoint inv fut expd inp outp feed drain
  for inv :: "'m \<Rightarrow> 's \<Rightarrow> bool" and fut expd :: "'m \<Rightarrow> 's \<Rightarrow> 'b list"
    and inp outp :: "'s \<Rightarrow> 'b list" and feed :: "'b list \<Rightarrow> 's \<Rightarrow> 's" and drain :: "nat \<Rightarrow> 's \<Rightarrow> 's" +
  fixes poll :: "'s \<Rightarrow> 's \<Rightarrow> bool"
  assumes poll_follows:
    "poll s s' \<Longrightarrow> inv m s \<Longrightarrow> expd m s = inp s @ rest \<Longrightarrow> follows m rest s s'"

text \<open>An endpoint that is \<open>undecided\<close> between all the scripts of \<open>options\<close> until one of its steps
  picks one of them.\<close>

locale choosing_endpoint = stream_endpoint inv fut expd inp outp feed drain
  for inv :: "'m \<Rightarrow> 's \<Rightarrow> bool" and fut expd :: "'m \<Rightarrow> 's \<Rightarrow> 'b list"
    and inp outp :: "'s \<Rightarrow> 'b list" and feed :: "'b list \<Rightarrow> 's \<Rightarrow> 's" and drain :: "nat \<Rightarrow> 's \<Rightarrow> 's" +
  fixes poll :: "'s \<Rightarrow> 's \<Rightarrow> bool"
    and undecided :: "'s \<Rightarrow> bool"
    and options :: "'m set"
  assumes poll_decided:
    "poll s s' \<Longrightarrow> \<not> undecided s \<Longrightarrow> inv m s \<Longrightarrow> expd m s = inp s @ rest \<Longrightarrow>
     \<not> undecided s' \<and> follows m rest s s'"
    and poll_undecided:
    "poll s s' \<Longrightarrow> undecided s \<Longrightarrow> (\<And>m. m \<in> options \<Longrightarrow> inv m s \<and> expd m s = inp s @ rests m) \<Longrightarrow>
     (if undecided s' then \<forall>m\<in>options. follows m (rests m) s s'
      else \<exists>m\<in>options. follows m (rests m) s s')"
    and undecided_feed: "undecided (feed bs s) = undecided s"
    and undecided_drain: "undecided (drain k s) = undecided s"

text \<open>The two connected: in every state the pipes carry exactly what is needed to bring what one side
  still expects in line with what the other still writes.\<close>

locale stream_link =
  S: scripted_endpoint invS futS expdS inpS outpS feedS drainS pollS +
  R: choosing_endpoint invR futR expdR inpR outpR feedR drainR pollR undecided options
  for invS :: "'m \<Rightarrow> 's \<Rightarrow> bool" and futS expdS :: "'m \<Rightarrow> 's \<Rightarrow> 'b list" and inpS outpS :: "'s \<Rightarrow> 'b list"
    and feedS :: "'b list \<Rightarrow> 's \<Rightarrow> 's" and drainS :: "nat \<Rightarrow> 's \<Rightarrow> 's" and pollS :: "'s \<Rightarrow> 's \<Rightarrow> bool"
    and invR :: "'m \<Rightarrow> 'r \<Rightarrow> bool" and futR expdR :: "'m \<Rightarrow> 'r \<Rightarrow> 'b list" and inpR outpR :: "'r \<Rightarrow> 'b list"
    and feedR :: "'b list \<Rightarrow> 'r \<Rightarrow> 'r" and drainR :: "nat \<Rightarrow> 'r \<Rightarrow> 'r" and pollR :: "'r \<Rightarrow> 'r \<Rightarrow> bool"
    and undecided :: "'r \<Rightarrow> bool" and options :: "'m set"
begin

definition agree :: "'m \<Rightarrow> 's \<Rightarrow> 'r \<Rightarrow> bool" where
  "agree m s r \<longleftrightarrow> invS m s \<and> invR m r \<and>
     expdS m s = inpS s @ outpR r @ futR m r \<and> expdR m r = inpR r @ outpS s @ futS m s"

definition linked :: "'s \<Rightarrow> 'r \<Rightarrow> bool" where
  "linked s r \<longleftrightarrow> (if undecided r then \<forall>m\<in>options. agree m s r else \<exists>m\<in>options. agree m s r)"

lemma agree_poll_S: "agree m s r \<Longrightarrow> pollS s s' \<Longrightarrow> agree m s' r"
  using S.poll_follows [of s s' m "outpR r @ futR m r"] by (auto simp: agree_def S.follows_def)

lemma linked_poll_S: "linked s r \<Longrightarrow> pollS s s' \<Longrightarrow> linked s' r"
  unfolding linked_def using agree_poll_S by (cases "undecided r"; simp only: if_True if_False; blast)

lemma agree_follows_R:
  "agree m s r \<Longrightarrow> R.follows m (outpS s @ futS m s) r r' \<Longrightarrow> agree m s r'"
  by (auto simp: agree_def R.follows_def)

lemma linked_poll_R:
  assumes "linked s r" "pollR r r'"
  shows "linked s r'"
proof (cases "undecided r")
  case True
  then have all: "\<forall>m\<in>options. agree m s r" using assms(1) by (simp add: linked_def)
  then have "\<And>m. m \<in> options \<Longrightarrow> invR m r \<and> expdR m r = inpR r @ outpS s @ futS m s"
    by (auto simp: agree_def)
  from R.poll_undecided [OF assms(2) True this] show ?thesis
    using all agree_follows_R unfolding linked_def
    by (cases "undecided r'"; simp only: if_True if_False; blast)
next
  case False
  then obtain m where m: "m \<in> options" "agree m s r" using assms(1) by (auto simp: linked_def)
  then have "\<not> undecided r' \<and> R.follows m (outpS s @ futS m s) r r'"
    using R.poll_decided [OF assms(2) False] by (auto simp: agree_def)
  moreover from this have "agree m s r'" using agree_follows_R [OF m(2)] by blast
  ultimately show ?thesis using m(1) unfolding linked_def by auto
qed

lemma agree_deliver_SR: "agree m s r \<Longrightarrow> agree m (drainS k s) (feedR (take k (outpS s)) r)"
  by (simp add: agree_def S.stream_laws R.stream_laws)

lemma agree_deliver_RS: "agree m s r \<Longrightarrow> agree m (feedS (take k (outpR r)) s) (drainR k r)"
  by (simp add: agree_def S.stream_laws R.stream_laws)

lemma linked_deliver:
  "linked s r \<Longrightarrow> linked (drainS k s) (feedR (take k (outpS s)) r)"
  "linked s r \<Longrightarrow> linked (feedS (take k (outpR r)) s) (drainR k r)"
  unfolding linked_def R.undecided_feed R.undecided_drain
  using agree_deliver_SR agree_deliver_RS by (cases "undecided r"; simp only: if_True if_False; blast)+

text \<open>A change of the environment that the endpoint's invariant and streams do not notice.\<close>

lemma linked_env_S:
  "linked s r \<Longrightarrow> (\<And>m. invS m s \<Longrightarrow> invS m s') \<Longrightarrow> (\<And>m. futS m s' = futS m s) \<Longrightarrow>
   (\<And>m. expdS m s' = expdS m s) \<Longrightarrow> inpS s' = inpS s \<Longrightarrow> outpS s' = outpS s \<Longrightarrow> linked s' r"
  unfolding linked_def agree_def by (auto split: if_splits)

lemma linked_env_R:
  "linked s r \<Longrightarrow> (\<And>m. invR m r \<Longrightarrow> invR m r') \<Longrightarrow> (\<And>m. futR m r' = futR m r) \<Longrightarrow>
   (\<And>m. expdR m r' = expdR m r) \<Longrightarrow> inpR r' = inpR r \<Longrightarrow> outpR r' = outpR r \<Longrightarrow>
   undecided r' = undecided r \<Longrightarrow> linked s r'"
  unfolding linked_def agree_def by (auto split: if_splits)

end

end
