(* ===== verification/Fingerprint.thy ===== *)
theory Fingerprint
  imports Config
begin

text \<open>
  \<^verbatim>\<open>fingerprint.h\<close> and \<^verbatim>\<open>fingerprint.c\<close>: the Rabin table, the initial Rabin value of a
  window, the content-defined chunking loop \<open>do_fingerprinting\<close> and the digest dispatch.
  OpenSSL's digests are code outside the repository: they are the parameters \<open>sha256\<close>,
  \<open>sha512\<close>, \<open>sha1\<close> of the definitions that call them. Sizes and indices are \<open>nat\<close>: the
  loop subtracts a size only after it has compared it, so no subtraction wraps. The Rabin
  arithmetic is on 64-bit words.
\<close>

section \<open>Data\<close>

datatype FingerprintType =
  SHA256_HASH | SHA512_HASH | SHA1_HASH | MD5_HASH | BLAKE3_HASH

record Fingerprinting_Settings =
  fs_fingerprint_num_bytes :: nat
  fs_rabin_p :: u64
  fs_rabin_m_bits :: nat
  fs_window_bytes :: nat
  fs_lower_bits :: nat
  fs_min_chunk_size_bytes :: nat
  fs_max_chunk_size_bytes :: nat
  fs_magic_val :: u64
  fs_rabin_table :: "u64 list"

record Fingerprint =
  fp_content_size :: nat
  fp_fingerprint :: "u8 list"

section \<open>Rabin tables and settings\<close>

text \<open>The loop \<open>for (i = 1; i < window_bytes; i++) p_window_bytes *= rabin_p\<close>.\<close>

function p_window_loop :: "u64 \<Rightarrow> nat \<Rightarrow> nat \<Rightarrow> u64 \<Rightarrow> u64" where
  "p_window_loop p i w acc = (if i < w then p_window_loop p (Suc i) w (acc * p) else acc)"
  by pat_completeness auto
termination
  by (relation "measure (\<lambda>(p, i, w, acc). w - i)") auto

declare p_window_loop.simps [simp del]

definition gen_rabin_table :: "u64 \<Rightarrow> nat \<Rightarrow> u64 list" where
  "gen_rabin_table rabin_p window_bytes =
     (let p_window_bytes = p_window_loop rabin_p 1 window_bytes 1
      in map (\<lambda>i. of_nat i * p_window_bytes) [0..<256])"

text \<open>\<open>gen_rabin_table_alloc\<close> repeats the two loops into a buffer it allocates and returns.\<close>

definition gen_rabin_table_alloc :: "u64 \<Rightarrow> nat \<Rightarrow> u64 list" where
  "gen_rabin_table_alloc rabin_p window_bytes =
     (let p_window_bytes = p_window_loop rabin_p 1 window_bytes 1
      in map (\<lambda>i. of_nat i * p_window_bytes) [0..<256])"

definition save_fingerprinting_settings ::
  "nat \<Rightarrow> u64 \<Rightarrow> nat \<Rightarrow> nat \<Rightarrow> nat \<Rightarrow> nat \<Rightarrow> nat \<Rightarrow> u64 \<Rightarrow> Fingerprinting_Settings" where
  "save_fingerprinting_settings num_bytes rabin_p rabin_m_bits window_bytes lower_bits
     min_size max_size magic_val =
   \<lparr>fs_fingerprint_num_bytes = num_bytes, fs_rabin_p = rabin_p,
    fs_rabin_m_bits = rabin_m_bits, fs_window_bytes = window_bytes,
    fs_lower_bits = lower_bits, fs_min_chunk_size_bytes = min_size,
    fs_max_chunk_size_bytes = max_size, fs_magic_val = magic_val,
    fs_rabin_table = gen_rabin_table rabin_p window_bytes\<rparr>"

text \<open>\<open>(1UL << bits) - 1\<close>\<close>

definition low_mask :: "nat \<Rightarrow> u64" where
  "low_mask bits = push_bit bits 1 - 1"

text \<open>\<open>init_rabin\<close>: the loop runs \<open>i\<close> from \<open>window_bytes - 1\<close> down to 0; the argument
  \<open>Suc i\<close> stands for the loop about to run index \<open>i\<close>.\<close>

fun init_rabin_loop ::
  "u8 list \<Rightarrow> u64 \<Rightarrow> u64 \<Rightarrow> nat \<Rightarrow> u64 \<Rightarrow> u64 \<Rightarrow> u8 list \<Rightarrow> u64 \<times> u8 list" where
  "init_rabin_loop data_bytes p m 0 rabin rabin_pow win = (rabin, win)"
| "init_rabin_loop data_bytes p m (Suc i) rabin rabin_pow win =
     init_rabin_loop data_bytes p m i
       (rabin + ((ucast (data_bytes ! i) * rabin_pow) AND m)) (rabin_pow * p)
       (win[i := data_bytes ! i])"

definition init_rabin ::
  "u8 list \<Rightarrow> u64 \<Rightarrow> u64 \<Rightarrow> nat \<Rightarrow> u8 list \<Rightarrow> u64 \<times> u8 list" where
  "init_rabin data_bytes rabin_p rabin_mask window_bytes win =
     init_rabin_loop data_bytes rabin_p rabin_mask window_bytes 0 1 win"

section \<open>The chunking loop\<close>

text \<open>The locals of \<open>do_fingerprinting\<close>. \<open>out_fingerprints\<close> are the digests in the order in
  which the loop writes them (digest \<open>i\<close> at \<open>&fingerprints[i * FINGERPRINT_NUM_BYTES]\<close>),
  \<open>out_sizes\<close> is \<open>content_sizes\<close>; \<open>num_fingerprints\<close> is their common length.\<close>

record Chunk_State =
  cur_start_ind :: nat
  remain_bytes :: nat
  cur_size :: nat
  window_slot :: nat
  cur_rabin :: u64
  window :: "u8 list"
  out_fingerprints :: "u8 list list"
  out_sizes :: "nat list"

definition handle_sha :: "(u8 list \<Rightarrow> u8 list) \<Rightarrow> u8 list \<Rightarrow> nat \<Rightarrow> nat \<Rightarrow> u8 list" where
  "handle_sha sha256 data start_ind sz = sha256 (bytes_at start_ind sz data)"

definition fp_cut :: "Fingerprinting_Settings \<Rightarrow> Chunk_State \<Rightarrow> bool" where
  "fp_cut s st \<longleftrightarrow>
     cur_rabin st AND low_mask (fs_lower_bits s) = fs_magic_val s \<or>
     fs_max_chunk_size_bytes s \<le> cur_size st \<or> remain_bytes st \<le> cur_size st"

definition fp_window_at ::
  "Fingerprinting_Settings \<Rightarrow> u8 list \<Rightarrow> nat \<Rightarrow> u8 list \<Rightarrow> u64 \<times> u8 list" where
  "fp_window_at s data start win =
     init_rabin (drop (start + fs_min_chunk_size_bytes s - 1 - fs_window_bytes s) data)
       (fs_rabin_p s) (low_mask (fs_rabin_m_bits s)) (fs_window_bytes s) win"

definition fp_emit ::
  "(u8 list \<Rightarrow> u8 list) \<Rightarrow> Fingerprinting_Settings \<Rightarrow> u8 list \<Rightarrow> Chunk_State \<Rightarrow> Chunk_State" where
  "fp_emit sha256 s data st =
     (let sz = (if remain_bytes st \<le> cur_size st \<or>
                     remain_bytes st - cur_size st < fs_min_chunk_size_bytes s
                  then remain_bytes st else cur_size st);
          st' = st\<lparr>out_fingerprints :=
                     out_fingerprints st @ [handle_sha sha256 data (cur_start_ind st) sz],
                   out_sizes := out_sizes st @ [sz],
                   remain_bytes := remain_bytes st - sz,
                   cur_start_ind := cur_start_ind st + sz,
                   cur_size := sz\<rparr>
      in if 0 < remain_bytes st'
         then (let (r, win) = fp_window_at s data (cur_start_ind st') (window st')
               in st'\<lparr>cur_rabin := r, window := win, cur_size := fs_min_chunk_size_bytes s\<rparr>)
         else st')"

definition fp_roll :: "Fingerprinting_Settings \<Rightarrow> u8 list \<Rightarrow> Chunk_State \<Rightarrow> Chunk_State" where
  "fp_roll s data st =
     (let cur_data_byte = data ! (cur_start_ind st + cur_size st);
          rabin_diff = cur_rabin st - fs_rabin_table s ! unat (window st ! window_slot st)
      in st\<lparr>cur_rabin := (rabin_diff * fs_rabin_p s + ucast cur_data_byte)
                           AND low_mask (fs_rabin_m_bits s),
            window := (window st)[window_slot st := cur_data_byte],
            window_slot := ((window_slot st + 1) mod fs_window_bytes s) mod 256,
            cur_size := cur_size st + 1\<rparr>)"

text \<open>The loop may run forever (a minimum chunk size of 0 can emit empty chunks), so it is a
  partial function; \<open>None\<close> is "does not return".\<close>

partial_function (option) fp_loop ::
  "(u8 list \<Rightarrow> u8 list) \<Rightarrow> Fingerprinting_Settings \<Rightarrow> u8 list \<Rightarrow> Chunk_State \<Rightarrow>
   Chunk_State option" where
  "fp_loop sha256 s data st =
     (if 0 < remain_bytes st
      then fp_loop sha256 s data (if fp_cut s st then fp_emit sha256 s data st else fp_roll s data st)
      else Some st)"

definition fp_start :: "Fingerprinting_Settings \<Rightarrow> u8 list \<Rightarrow> Chunk_State" where
  "fp_start s data =
     (let (r, win) = fp_window_at s data 0 (replicate (fs_window_bytes s) 0)
      in \<lparr>cur_start_ind = 0, remain_bytes = length data,
          cur_size = fs_min_chunk_size_bytes s, window_slot = 0,
          cur_rabin = r AND low_mask (fs_rabin_m_bits s), window = win,
          out_fingerprints = [], out_sizes = []\<rparr>)"

text \<open>Returns the digests and the content sizes. \<open>num_bytes\<close> is the length of \<open>data\<close>; the
  caller passes the fields of the settings one by one.\<close>

definition do_fingerprinting ::
  "(u8 list \<Rightarrow> u8 list) \<Rightarrow> Fingerprinting_Settings \<Rightarrow> u8 list \<Rightarrow>
   (u8 list list \<times> nat list) option" where
  "do_fingerprinting sha256 s data =
     (if length data \<le> fs_min_chunk_size_bytes s
      then Some ([handle_sha sha256 data 0 (length data)], [length data])
      else map_option (\<lambda>st. (out_fingerprints st, out_sizes st))
             (fp_loop sha256 s data (fp_start s data)))"

section \<open>Digest dispatch\<close>

text \<open>\<open>fingerprint_to_least_sig64\<close>: the last eight bytes, most significant first.\<close>

definition fingerprint_to_least_sig64 :: "u8 list \<Rightarrow> nat \<Rightarrow> u64" where
  "fingerprint_to_least_sig64 fp num_bytes =
     fold (\<lambda>b result. (push_bit 8 result) OR ucast b) (bytes_at (num_bytes - 8) 8 fp) 0"

text \<open>\<open>do_fingerprinting_old\<close> calls the digest its case names; \<open>None\<close> stands for the cases that
  only print an error and leave the result buffer as it was. As in the source, the
  \<open>MD5_HASH\<close> case calls the SHA-1 function.\<close>

fun do_fingerprinting_old ::
  "(u8 list \<Rightarrow> u8 list) \<Rightarrow> (u8 list \<Rightarrow> u8 list) \<Rightarrow> (u8 list \<Rightarrow> u8 list) \<Rightarrow> (u8 list \<Rightarrow> u8 list) \<Rightarrow>
   u8 list \<Rightarrow> FingerprintType \<Rightarrow> u8 list option" where
  "do_fingerprinting_old sha256 sha512 sha1 md5 data SHA256_HASH = Some (sha256 data)"
| "do_fingerprinting_old sha256 sha512 sha1 md5 data SHA512_HASH = Some (sha512 data)"
| "do_fingerprinting_old sha256 sha512 sha1 md5 data SHA1_HASH = Some (sha1 data)"
| "do_fingerprinting_old sha256 sha512 sha1 md5 data MD5_HASH = Some (sha1 data)"
| "do_fingerprinting_old sha256 sha512 sha1 md5 data BLAKE3_HASH = None"

fun get_fingerprint_num_bytes :: "FingerprintType \<Rightarrow> nat" where
  "get_fingerprint_num_bytes SHA256_HASH = 32"
| "get_fingerprint_num_bytes SHA512_HASH = 64"
| "get_fingerprint_num_bytes SHA1_HASH = 20"
| "get_fingerprint_num_bytes MD5_HASH = 16"
| "get_fingerprint_num_bytes BLAKE3_HASH = 0"

fun get_fingerprint_type_name :: "FingerprintType \<Rightarrow> string" where
  "get_fingerprint_type_name SHA256_HASH = ''SHA256''"
| "get_fingerprint_type_name SHA512_HASH = ''SHA512''"
| "get_fingerprint_type_name SHA1_HASH = ''SHA1''"
| "get_fingerprint_type_name MD5_HASH = ''MD5''"
| "get_fingerprint_type_name BLAKE3_HASH = ''BLAKE3''"

section \<open>Facts about the loop\<close>

declare fp_loop.simps [simp del, code]

lemma fp_loop_done [simp]: "remain_bytes st = 0 \<Longrightarrow> fp_loop sha s data st = Some st"
  by (simp add: fp_loop.simps)

lemma fp_loop_step:
  "0 < remain_bytes st \<Longrightarrow>
   fp_loop sha s data st =
     fp_loop sha s data (if fp_cut s st then fp_emit sha s data st else fp_roll s data st)"
  by (subst fp_loop.simps) simp

definition chunk_bounds :: "Fingerprinting_Settings \<Rightarrow> bool" where
  "chunk_bounds s \<longleftrightarrow> 0 < fs_min_chunk_size_bytes s \<and>
     fs_min_chunk_size_bytes s \<le> fs_max_chunk_size_bytes s"

text \<open>The loop invariant: what has been cut is a partition of the data read so far, every chunk
  within its bounds, and at least a minimum chunk is left whenever anything is left.\<close>

definition chunk_inv ::
  "(u8 list \<Rightarrow> u8 list) \<Rightarrow> Fingerprinting_Settings \<Rightarrow> u8 list \<Rightarrow> Chunk_State \<Rightarrow> bool" where
  "chunk_inv sha s data st \<longleftrightarrow>
     cur_start_ind st + remain_bytes st = length data \<and>
     sum_list (out_sizes st) = cur_start_ind st \<and>
     out_fingerprints st =
       map (\<lambda>i. sha (bytes_at (offset_of (out_sizes st) i) (out_sizes st ! i) data))
         [0..<length (out_sizes st)] \<and>
     (\<forall>z\<in>set (out_sizes st). fs_min_chunk_size_bytes s \<le> z \<and>
        z < fs_max_chunk_size_bytes s + fs_min_chunk_size_bytes s) \<and>
     (0 < remain_bytes st \<longrightarrow>
        fs_min_chunk_size_bytes s \<le> remain_bytes st \<and>
        fs_min_chunk_size_bytes s \<le> cur_size st \<and> cur_size st \<le> fs_max_chunk_size_bytes s)"

lemma digest_list_snoc:
  "map (\<lambda>i. sha (bytes_at (offset_of (zs @ [z]) i) ((zs @ [z]) ! i) data)) [0..<length (zs @ [z])] =
   map (\<lambda>i. sha (bytes_at (offset_of zs i) (zs ! i) data)) [0..<length zs] @
     [sha (bytes_at (sum_list zs) z data)]"
  by (auto simp: offset_of_def nth_append intro!: map_cong)

lemma fp_roll_fields:
  "cur_start_ind (fp_roll s data st) = cur_start_ind st"
  "remain_bytes (fp_roll s data st) = remain_bytes st"
  "out_sizes (fp_roll s data st) = out_sizes st"
  "out_fingerprints (fp_roll s data st) = out_fingerprints st"
  "cur_size (fp_roll s data st) = cur_size st + 1"
  by (simp_all add: fp_roll_def Let_def)

definition emit_size :: "Fingerprinting_Settings \<Rightarrow> Chunk_State \<Rightarrow> nat" where
  "emit_size s st =
     (if remain_bytes st \<le> cur_size st \<or>
         remain_bytes st - cur_size st < fs_min_chunk_size_bytes s
      then remain_bytes st else cur_size st)"

lemma fp_emit_fields:
  "cur_start_ind (fp_emit sha s data st) = cur_start_ind st + emit_size s st"
  "remain_bytes (fp_emit sha s data st) = remain_bytes st - emit_size s st"
  "out_sizes (fp_emit sha s data st) = out_sizes st @ [emit_size s st]"
  "out_fingerprints (fp_emit sha s data st) =
     out_fingerprints st @ [sha (bytes_at (cur_start_ind st) (emit_size s st) data)]"
  "0 < remain_bytes (fp_emit sha s data st) \<Longrightarrow>
     cur_size (fp_emit sha s data st) = fs_min_chunk_size_bytes s"
  by (auto simp: fp_emit_def emit_size_def handle_sha_def Let_def split: prod.splits)

lemma fp_window_slot_emit: "window_slot (fp_emit sha s data st) = window_slot st"
  by (auto simp: fp_emit_def Let_def split: prod.splits)

lemma fp_emit_inv:
  assumes inv: "chunk_inv sha s data st" and b: "chunk_bounds s" and r: "0 < remain_bytes st"
  shows "chunk_inv sha s data (fp_emit sha s data st)"
proof -
  let ?z = "emit_size s st"
  have min: "fs_min_chunk_size_bytes s \<le> remain_bytes st"
    "fs_min_chunk_size_bytes s \<le> cur_size st" "cur_size st \<le> fs_max_chunk_size_bytes s"
    using inv r by (auto simp: chunk_inv_def)
  have z: "fs_min_chunk_size_bytes s \<le> ?z" "?z \<le> remain_bytes st"
    "?z < fs_max_chunk_size_bytes s + fs_min_chunk_size_bytes s"
    "remain_bytes st - ?z = 0 \<or> fs_min_chunk_size_bytes s \<le> remain_bytes st - ?z"
    using min b by (auto simp: emit_size_def chunk_bounds_def)
  show ?thesis
    unfolding chunk_inv_def fp_emit_fields(1-4) digest_list_snoc
    using inv z b fp_emit_fields(5) [of sha s data st]
    by (auto simp: chunk_inv_def chunk_bounds_def fp_emit_fields)
qed

lemma fp_roll_inv:
  assumes inv: "chunk_inv sha s data st" and r: "0 < remain_bytes st" and c: "\<not> fp_cut s st"
  shows "chunk_inv sha s data (fp_roll s data st)"
  using assms by (auto simp: chunk_inv_def fp_roll_fields fp_cut_def)

definition chunk_measure :: "Fingerprinting_Settings \<Rightarrow> Chunk_State \<Rightarrow> nat" where
  "chunk_measure s st =
     remain_bytes st * (fs_max_chunk_size_bytes s + 1) + (fs_max_chunk_size_bytes s - cur_size st)"

lemma fp_emit_measure:
  assumes inv: "chunk_inv sha s data st" and b: "chunk_bounds s" and r: "0 < remain_bytes st"
  shows "chunk_measure s (fp_emit sha s data st) < chunk_measure s st"
proof -
  let ?r' = "remain_bytes (fp_emit sha s data st)" and ?m = "fs_max_chunk_size_bytes s + 1"
  have "?r' < remain_bytes st"
    using inv b r by (auto simp: fp_emit_fields emit_size_def chunk_inv_def chunk_bounds_def)
  then have "?r' * ?m + ?m \<le> remain_bytes st * ?m"
    by (metis Suc_leI add.commute mult_Suc mult_le_mono1)
  then show ?thesis by (simp add: chunk_measure_def)
qed

lemma fp_roll_measure:
  "\<not> fp_cut s st \<Longrightarrow> chunk_measure s (fp_roll s data st) < chunk_measure s st"
  by (auto simp: chunk_measure_def fp_roll_fields fp_cut_def)

lemma fp_loop_total:
  assumes "chunk_inv sha s data st" "chunk_bounds s"
  shows "\<exists>st'. fp_loop sha s data st = Some st' \<and> chunk_inv sha s data st' \<and> remain_bytes st' = 0"
  using assms(1)
proof (induction "chunk_measure s st" arbitrary: st rule: less_induct)
  case less
  show ?case
  proof (cases "0 < remain_bytes st")
    case False
    with less.prems show ?thesis by simp
  next
    case True
    let ?n = "if fp_cut s st then fp_emit sha s data st else fp_roll s data st"
    have "chunk_measure s ?n < chunk_measure s st" "chunk_inv sha s data ?n"
      using fp_emit_measure fp_roll_measure fp_emit_inv fp_roll_inv less.prems assms(2) True
      by auto
    then show ?thesis
      using less.hyps True by (simp add: fp_loop_step)
  qed
qed

lemma fp_start_inv:
  assumes "chunk_bounds s" "fs_min_chunk_size_bytes s < length data"
  shows "chunk_inv sha s data (fp_start s data)"
  using assms by (auto simp: chunk_inv_def fp_start_def chunk_bounds_def split: prod.splits)

section \<open>The loop as a step relation\<close>

text \<open>The states the loop passes through, for properties of every iteration.\<close>

inductive fp_step ::
  "(u8 list \<Rightarrow> u8 list) \<Rightarrow> Fingerprinting_Settings \<Rightarrow> u8 list \<Rightarrow> Chunk_State \<Rightarrow> Chunk_State \<Rightarrow> bool"
  for sha s data where
  cut: "0 < remain_bytes st \<Longrightarrow> fp_cut s st \<Longrightarrow> fp_step sha s data st (fp_emit sha s data st)"
| roll: "0 < remain_bytes st \<Longrightarrow> \<not> fp_cut s st \<Longrightarrow> fp_step sha s data st (fp_roll s data st)"

inductive fp_reach ::
  "(u8 list \<Rightarrow> u8 list) \<Rightarrow> Fingerprinting_Settings \<Rightarrow> u8 list \<Rightarrow> Chunk_State \<Rightarrow> bool"
  for sha s data where
  start: "fp_reach sha s data (fp_start s data)"
| step: "fp_reach sha s data st \<Longrightarrow> fp_step sha s data st st' \<Longrightarrow> fp_reach sha s data st'"

inductive_cases fp_stepE: "fp_step sha s data st st'"

lemma fp_reach_inv:
  assumes "fp_reach sha s data st" "chunk_bounds s" "fs_min_chunk_size_bytes s < length data"
  shows "chunk_inv sha s data st"
  using assms
  by (induction rule: fp_reach.induct)
     (auto elim!: fp_stepE intro: fp_start_inv fp_emit_inv fp_roll_inv)

section \<open>The Rabin value as a polynomial of the window\<close>

definition poly_hash :: "u64 \<Rightarrow> u8 list \<Rightarrow> u64" where
  "poly_hash p ws = foldl (\<lambda>h b. h * p + ucast b) 0 ws"

lemma foldl_poly:
  "foldl (\<lambda>h b. h * p + ucast (b :: u8)) h ws =
     (h :: u64) * p ^ length ws + foldl (\<lambda>h b. h * p + ucast b) 0 ws"
proof (induction ws arbitrary: h)
  case Nil
  then show ?case by simp
next
  case (Cons b ws)
  show ?case
    by (simp only: foldl.simps Cons.IH [of "h * p + ucast b"] Cons.IH [of "0 * p + ucast b"])
       (simp add: algebra_simps)
qed

lemma poly_hash_Cons: "poly_hash p (b # ws) = ucast b * p ^ length ws + poly_hash p ws"
  unfolding poly_hash_def foldl.simps foldl_poly [of p "0 * p + ucast b"] by simp

lemma poly_hash_snoc: "poly_hash p (ws @ [b]) = poly_hash p ws * p + ucast b"
  by (simp add: poly_hash_def)

lemma poly_hash_shift:
  "(poly_hash p (b # ws) - ucast b * p ^ length ws) * p + ucast c = poly_hash p (ws @ [c])"
  by (simp add: poly_hash_Cons poly_hash_snoc)

lemma and_low_mask: "x AND low_mask m = take_bit m x"
  by (simp add: low_mask_def take_bit_eq_mask mask_eq_exp_minus_1 push_bit_eq_mult)

lemma take_bit_word_iff:
  "take_bit m a = take_bit m (b :: u64) \<longleftrightarrow>
   take_bit (min m 64) (uint a) = take_bit (min m 64) (uint b)"
proof -
  have u: "uint c = take_bit 64 (uint c)" for c :: "u64"
    using unsigned_less [of c, where ?'a = int] by (simp add: take_bit_int_eq_self)
  have "take_bit m a = take_bit m b \<longleftrightarrow> uint (take_bit m a) = uint (take_bit m b)"
    by (simp only: word_uint_eq_iff)
  also have "\<dots> \<longleftrightarrow> take_bit m (take_bit 64 (uint a)) = take_bit m (take_bit 64 (uint b))"
    by (simp only: unsigned_take_bit_eq flip: u)
  finally show ?thesis by simp
qed

lemma uint_add_take: "uint (a + b) = take_bit 64 (uint a + uint (b :: u64))"
  by (simp add: uint_word_arith_bintrs)

lemma uint_mult_take: "uint (a * b) = take_bit 64 (uint a * uint (b :: u64))"
  by (simp add: uint_word_arith_bintrs)

lemma take_bit_add_cong:
  assumes "take_bit m a = take_bit m (a' :: u64)" "take_bit m b = take_bit m b'"
  shows "take_bit m (a + b) = take_bit m (a' + b')"
  using assms unfolding take_bit_word_iff uint_add_take take_bit_take_bit 
  by (simp add: min.assoc) (metis take_bit_add)

lemma take_bit_mult_cong:
  assumes "take_bit m a = take_bit m (a' :: u64)"
  shows "take_bit m (a * b) = take_bit m (a' * b)"
  using assms unfolding take_bit_word_iff uint_mult_take take_bit_take_bit 
  by (simp add: min.assoc) (metis take_bit_mult)

lemma take_bit_roll:
  assumes "take_bit m r = take_bit m (r' :: u64)"
  shows "take_bit m ((r - x) * p + c) = take_bit m ((r' - x) * p + c)"
  using take_bit_add_cong [OF assms refl, of "- x"]
  by (intro take_bit_add_cong take_bit_mult_cong refl) simp

lemma p_window_loop_power: "p_window_loop p i w acc = acc * p ^ (w - i)"
proof (induction p i w acc rule: p_window_loop.induct)
  case (1 p i w acc)
  show ?case
  proof (cases "i < w")
    case True
    then have "w - i = Suc (w - Suc i)" by simp
    with 1 True show ?thesis
      by (simp add: p_window_loop.simps [of p i w acc] mult.assoc)
  next
    case False
    then show ?thesis by (simp add: p_window_loop.simps [of p i w acc])
  qed
qed

lemma gen_rabin_table_nth:
  fixes b :: u8
  shows "gen_rabin_table p w ! unat b = ucast b * p ^ (w - 1)"
proof -
  have "unat b < 256" using unsigned_less [of b] by simp
  then show ?thesis
    by (simp add: gen_rabin_table_def p_window_loop_power)
qed

lemma init_rabin_loop_poly:
  assumes "i \<le> length d" "rp = p ^ length X" "take_bit m r = take_bit m (poly_hash p X)"
  shows "take_bit m (fst (init_rabin_loop d p (low_mask m) i r rp win)) =
         take_bit m (poly_hash p (take i d @ X))"
  using assms
proof (induction i arbitrary: r rp win X)
  case 0
  then show ?case by simp
next
  case (Suc i)
  let ?r = "r + ((ucast (d ! i) * rp) AND low_mask m)"
  have "take_bit m ?r = take_bit m (poly_hash p (d ! i # X))"
    unfolding and_low_mask poly_hash_Cons
    using Suc.prems(2,3) take_bit_add_cong [of m "take_bit m (ucast (d ! i) * rp)" "ucast (d ! i) * rp"]
    by (simp add: add.commute)
  moreover have "take (Suc i) d @ X = take i d @ d ! i # X"
    using Suc.prems(1) by (simp add: take_Suc_conv_app_nth)
  ultimately show ?case
    using Suc.prems Suc.IH [of "rp * p" "d ! i # X" ?r] by (simp add: mult.commute)
qed

lemma init_rabin_loop_window:
  "i \<le> length d \<Longrightarrow> i \<le> length win \<Longrightarrow>
   snd (init_rabin_loop d p m i r rp win) = take i d @ drop i win"
proof (induction i arbitrary: r rp win)
  case 0
  then show ?case by simp
next
  case (Suc i)
  have "take i d @ drop i (win[i := d ! i]) = take (Suc i) d @ drop (Suc i) win"
    using Suc.prems
    by (simp add: take_Suc_conv_app_nth drop_update_swap Cons_nth_drop_Suc [symmetric])
  with Suc show ?case by simp
qed

lemma fp_window_at_poly:
  assumes "fs_window_bytes s < fs_min_chunk_size_bytes s"
    "start + fs_min_chunk_size_bytes s \<le> length data" "length win = fs_window_bytes s"
  shows "take_bit (fs_rabin_m_bits s) (fst (fp_window_at s data start win)) =
         take_bit (fs_rabin_m_bits s) (poly_hash (fs_rabin_p s)
           (bytes_at (start + fs_min_chunk_size_bytes s - 1 - fs_window_bytes s) (fs_window_bytes s) data))"
    "snd (fp_window_at s data start win) =
         bytes_at (start + fs_min_chunk_size_bytes s - 1 - fs_window_bytes s) (fs_window_bytes s) data"
  using assms
    init_rabin_loop_poly [of "fs_window_bytes s"
      "drop (start + fs_min_chunk_size_bytes s - 1 - fs_window_bytes s) data"
      1 "fs_rabin_p s" "[]" "fs_rabin_m_bits s" 0]
    init_rabin_loop_window [of "fs_window_bytes s"
      "drop (start + fs_min_chunk_size_bytes s - 1 - fs_window_bytes s) data" win]
  by (simp_all add: fp_window_at_def init_rabin_def bytes_at_def poly_hash_def)

lemma rotate_slot_update:
  assumes "slot < length win"
  shows "rotate ((slot + 1) mod length win) (win[slot := c]) = tl (rotate slot win) @ [c]"
proof -
  have "rotate slot win = win ! slot # drop (Suc slot) win @ take slot win"
    using assms by (simp add: rotate_drop_take Cons_nth_drop_Suc [symmetric])
  moreover have "rotate (slot + 1) (win[slot := c]) = drop (Suc slot) win @ take slot win @ [c]"
  proof (cases "Suc slot = length win")
    case True
    then have "win[slot := c] = take slot win @ [c]"
      using assms by (simp add: upd_conv_take_nth_drop)
    with True show ?thesis by (simp add: rotate_drop_take)
  next
    case False
    then show ?thesis using assms
      by (simp add: rotate_drop_take take_Suc_conv_app_nth)
  qed
  ultimately show ?thesis
    by (metis append_assoc length_list_update list.sel(3) rotate_conv_mod)
qed

lemma hd_rotate: "slot < length win \<Longrightarrow> hd (rotate slot win) = win ! slot"
  by (simp add: rotate_drop_take hd_append hd_drop_conv_nth)

lemma fp_roll_poly:
  assumes ok: "window_slot st < fs_window_bytes s" "length (window st) = fs_window_bytes s"
      "fs_window_bytes s \<le> 256"
    and tab: "fs_rabin_table s = gen_rabin_table (fs_rabin_p s) (fs_window_bytes s)"
    and h: "take_bit (fs_rabin_m_bits s) (cur_rabin st) = take_bit (fs_rabin_m_bits s)
        (poly_hash (fs_rabin_p s) (rotate (window_slot st) (window st)))"
  shows "cur_rabin (fp_roll s data st) = take_bit (fs_rabin_m_bits s)
           (poly_hash (fs_rabin_p s)
              (rotate (window_slot (fp_roll s data st)) (window (fp_roll s data st))))"
    "rotate (window_slot (fp_roll s data st)) (window (fp_roll s data st)) =
       tl (rotate (window_slot st) (window st)) @ [data ! (cur_start_ind st + cur_size st)]"
proof -
  let ?w = "fs_window_bytes s" and ?p = "fs_rabin_p s"
  let ?c = "data ! (cur_start_ind st + cur_size st)"
  let ?b = "window st ! window_slot st"
  have "(window_slot st + 1) mod ?w < ?w" using ok(1) by simp
  then have slot: "((window_slot st + 1) mod ?w) mod 256 = (window_slot st + 1) mod length (window st)"
    using ok(2,3) by (metis \<open>(window_slot st + 1) mod ?w < ?w\<close> mod_less order_less_le_trans)
  show rot: "rotate (window_slot (fp_roll s data st)) (window (fp_roll s data st)) =
       tl (rotate (window_slot st) (window st)) @ [?c]"
    using ok slot by (simp add: fp_roll_def Let_def rotate_slot_update [symmetric])
  have ne: "rotate (window_slot st) (window st) \<noteq> []" using ok by auto
  then have cons: "rotate (window_slot st) (window st) = ?b # tl (rotate (window_slot st) (window st))"
    using ok by (metis hd_rotate list.collapse)
  have len: "length (tl (rotate (window_slot st) (window st))) = ?w - 1"
    using ok by simp
  have "cur_rabin (fp_roll s data st) =
      take_bit (fs_rabin_m_bits s) ((cur_rabin st - ucast ?b * ?p ^ (?w - 1)) * ?p + ucast ?c)"
    by (simp add: fp_roll_def Let_def and_low_mask tab gen_rabin_table_nth)
  also have "\<dots> = take_bit (fs_rabin_m_bits s)
      ((poly_hash ?p (?b # tl (rotate (window_slot st) (window st))) - ucast ?b * ?p ^ (?w - 1)) * ?p
        + ucast ?c)"
    using h cons by (intro take_bit_roll) simp
  also have "\<dots> = take_bit (fs_rabin_m_bits s)
      (poly_hash ?p (tl (rotate (window_slot st) (window st)) @ [?c]))"
    unfolding len [symmetric] poly_hash_shift ..
  finally show "cur_rabin (fp_roll s data st) = take_bit (fs_rabin_m_bits s)
           (poly_hash (fs_rabin_p s)
              (rotate (window_slot (fp_roll s data st)) (window (fp_roll s data st))))"
    by (simp add: rot)
qed

section \<open>The rolling value along the first chunk\<close>

text \<open>The bytes hashed for the first candidate boundary are the \<open>window_bytes\<close> bytes that end
  two positions before the boundary (\<open>min_chunk_size_bytes - 1 - window_bytes\<close> is where the code
  starts reading); the bytes rolled in afterwards start at \<open>min_chunk_size_bytes\<close>.\<close>

definition hashed_stream :: "Fingerprinting_Settings \<Rightarrow> u8 list \<Rightarrow> nat \<Rightarrow> u8 list" where
  "hashed_stream s data k =
     bytes_at (fs_min_chunk_size_bytes s - 1 - fs_window_bytes s) (fs_window_bytes s) data @
     bytes_at (fs_min_chunk_size_bytes s) k data"

definition window_ok :: "Fingerprinting_Settings \<Rightarrow> bool" where
  "window_ok s \<longleftrightarrow> 0 < fs_window_bytes s \<and> fs_window_bytes s \<le> 256 \<and>
     fs_window_bytes s < fs_min_chunk_size_bytes s \<and>
     fs_rabin_table s = gen_rabin_table (fs_rabin_p s) (fs_window_bytes s)"

lemma init_rabin_loop_length:
  "length (snd (init_rabin_loop d p m i r rp win)) = length win"
  by (induction i arbitrary: r rp win) auto

lemma fp_window_at_length: "length (snd (fp_window_at s data start win)) = length win"
  by (simp add: fp_window_at_def init_rabin_def init_rabin_loop_length)

definition window_inv :: "Fingerprinting_Settings \<Rightarrow> Chunk_State \<Rightarrow> bool" where
  "window_inv s st \<longleftrightarrow> length (window st) = fs_window_bytes s \<and> window_slot st < fs_window_bytes s"

lemma fp_reach_window:
  assumes "fp_reach sha s data st" "window_ok s"
  shows "window_inv s st"
  using assms(1)
proof (induction rule: fp_reach.induct)
  case start
  show ?case
    using assms(2) fp_window_at_length [of s data 0 "replicate (fs_window_bytes s) 0"]
    by (auto simp: window_inv_def window_ok_def fp_start_def split: prod.splits)
next
  case (step st st')
  from step.hyps(2) show ?case
  proof (cases rule: fp_step.cases)
    case cut
    have "length (window st') = length (window st)"
      unfolding cut(1) fp_emit_def Let_def
      using fp_window_at_length [of s data] by (auto split: prod.splits) (metis snd_conv)
    then show ?thesis using step.IH cut
      by (simp add: window_inv_def fp_window_slot_emit)
  next
    case roll
    have "(window_slot st + 1) mod fs_window_bytes s mod 256 \<le> (window_slot st + 1) mod fs_window_bytes s"
      by simp
    also have "\<dots> < fs_window_bytes s" using assms(2) by (simp add: window_ok_def)
    finally show ?thesis using step.IH roll
      by (simp add: window_inv_def fp_roll_def Let_def)
  qed
qed

definition first_chunk_inv :: "Fingerprinting_Settings \<Rightarrow> u8 list \<Rightarrow> Chunk_State \<Rightarrow> bool" where
  "first_chunk_inv s data st \<longleftrightarrow>
     (let stream = hashed_stream s data (cur_size st - fs_min_chunk_size_bytes s);
          recent = drop (cur_size st - fs_min_chunk_size_bytes s) stream
      in cur_start_ind st = 0 \<and> rotate (window_slot st) (window st) = recent \<and>
         cur_rabin st = take_bit (fs_rabin_m_bits s) (poly_hash (fs_rabin_p s) recent))"

lemma hashed_stream_Suc:
  assumes "fs_min_chunk_size_bytes s + k < length data"
  shows "hashed_stream s data (Suc k) = hashed_stream s data k @ [data ! (fs_min_chunk_size_bytes s + k)]"
proof -
  have "bytes_at (fs_min_chunk_size_bytes s) (Suc k) data =
        bytes_at (fs_min_chunk_size_bytes s) k data @ [data ! (fs_min_chunk_size_bytes s + k)]"
    using assms by (simp add: bytes_at_def take_Suc_conv_app_nth)
  then show ?thesis by (simp add: hashed_stream_def)
qed

lemma length_hashed_stream:
  assumes "fs_window_bytes s < fs_min_chunk_size_bytes s" "fs_min_chunk_size_bytes s + k \<le> length data"
  shows "length (hashed_stream s data k) = fs_window_bytes s + k"
  using assms by (simp add: hashed_stream_def)

lemma fp_start_first_chunk:
  assumes "window_ok s" "fs_min_chunk_size_bytes s < length data"
  shows "first_chunk_inv s data (fp_start s data)"
  using assms fp_window_at_poly [of s 0 data "replicate (fs_window_bytes s) 0"]
  by (auto simp: first_chunk_inv_def fp_start_def hashed_stream_def window_ok_def and_low_mask
        split: prod.splits)

lemma fp_roll_first_chunk:
  assumes inv: "first_chunk_inv s data st" "window_inv s st" and w: "window_ok s"
    and sz: "fs_min_chunk_size_bytes s \<le> cur_size st" "cur_size st < length data"
  shows "first_chunk_inv s data (fp_roll s data st)"
proof -
  let ?k = "cur_size st - fs_min_chunk_size_bytes s"
  have k: "fs_min_chunk_size_bytes s + ?k = cur_size st" "Suc (cur_size st) - fs_min_chunk_size_bytes s = Suc ?k"
    using sz by auto
  have "length (hashed_stream s data ?k) = fs_window_bytes s + ?k"
    using w sz by (intro length_hashed_stream) (auto simp: window_ok_def)
  then have tl: "drop (Suc ?k) (hashed_stream s data (Suc ?k)) =
        tl (drop ?k (hashed_stream s data ?k)) @ [data ! cur_size st]"
    using w sz by (simp add: hashed_stream_Suc k window_ok_def drop_Suc tl_drop)
  show ?thesis
    using inv fp_roll_poly [of st s data] w tl
    by (simp add: first_chunk_inv_def window_inv_def window_ok_def Let_def fp_roll_fields k)
qed

lemma fp_emit_nonempty: "out_sizes (fp_emit sha s data st) \<noteq> []"
  by (simp add: fp_emit_fields)

lemma fp_step_outputs_grow:
  "fp_step sha s data st st' \<Longrightarrow> out_sizes st' = [] \<Longrightarrow>
   out_sizes st = [] \<and> 0 < remain_bytes st \<and> \<not> fp_cut s st \<and> st' = fp_roll s data st"
  by (auto elim!: fp_stepE simp: fp_emit_fields fp_roll_fields)

lemma fp_reach_first_chunk:
  assumes "fp_reach sha s data st" "out_sizes st = []" "window_ok s" "chunk_bounds s"
    "fs_min_chunk_size_bytes s < length data"
  shows "first_chunk_inv s data st"
  using assms(1,2)
proof (induction rule: fp_reach.induct)
  case start
  show ?case using assms by (intro fp_start_first_chunk)
next
  case (step st st')
  have st: "out_sizes st = []" "0 < remain_bytes st" "\<not> fp_cut s st" "st' = fp_roll s data st"
    using fp_step_outputs_grow [OF step.hyps(2) step.prems] by auto
  have inv: "chunk_inv sha s data st" "window_inv s st"
    using step.hyps(1) assms(3-5) fp_reach_inv fp_reach_window by blast+
  then have "cur_size st < length data" "fs_min_chunk_size_bytes s \<le> cur_size st"
    using st by (auto simp: chunk_inv_def fp_cut_def)
  with step.IH st inv assms(3) show ?case by (simp add: fp_roll_first_chunk)
qed

section \<open>All-zero data\<close>

lemma init_rabin_loop_zero:
  assumes "\<forall>j<i. d ! j = 0"
  shows "fst (init_rabin_loop d p m i 0 rp win) = 0"
  using assms by (induction i arbitrary: rp win) auto

lemma fp_window_at_zero:
  assumes "fs_window_bytes s < fs_min_chunk_size_bytes s" "start + fs_min_chunk_size_bytes s \<le> n"
  shows "fst (fp_window_at s (replicate n 0) start win) = 0"
  using assms by (simp add: fp_window_at_def init_rabin_def init_rabin_loop_zero)

definition zero_inv :: "Fingerprinting_Settings \<Rightarrow> nat \<Rightarrow> Chunk_State \<Rightarrow> bool" where
  "zero_inv s n st \<longleftrightarrow>
     (if 0 < remain_bytes st
      then cur_rabin st = 0 \<and> cur_size st = fs_min_chunk_size_bytes s \<and>
           fs_min_chunk_size_bytes s \<le> remain_bytes st \<and>
           cur_start_ind st + remain_bytes st = n \<and>
           n = length (out_sizes st) * fs_min_chunk_size_bytes s + remain_bytes st
      else length (out_sizes st) = n div fs_min_chunk_size_bytes s)"

lemma fp_cut_zero: "cur_rabin st = 0 \<Longrightarrow> fs_magic_val s = 0 \<Longrightarrow> fp_cut s st"
  by (simp add: fp_cut_def)

lemma fp_emit_zero:
  assumes inv: "zero_inv s n st" and r: "0 < remain_bytes st"
    and ok: "fs_window_bytes s < fs_min_chunk_size_bytes s" "fs_magic_val s = 0"
  shows "zero_inv s n (fp_emit sha s (replicate n 0) st)"
proof -
  let ?m = "fs_min_chunk_size_bytes s" and ?e = "fp_emit sha s (replicate n 0) st"
  have st: "cur_size st = ?m" "?m \<le> remain_bytes st" "cur_start_ind st + remain_bytes st = n"
    "n = length (out_sizes st) * ?m + remain_bytes st" "0 < ?m"
    using inv r ok by (auto simp: zero_inv_def)
  show ?thesis
  proof (cases "remain_bytes st - ?m < ?m")
    case True
    then have e: "emit_size s st = remain_bytes st" using st by (simp add: emit_size_def)
    have "n div ?m = length (out_sizes st) + remain_bytes st div ?m"
      using st(4,5) by (metis add.commute div_mult_self3 less_not_refl2)
    moreover have "remain_bytes st div ?m = 1"
      using st True by (intro div_nat_eqI) auto
    ultimately show ?thesis
      using e by (simp add: zero_inv_def fp_emit_fields)
  next
    case False
    then have e: "emit_size s st = ?m" using st by (simp add: emit_size_def)
    have "cur_rabin ?e = 0"
      using fp_window_at_zero [of s "cur_start_ind st + ?m" n "window st"] st e False ok
      by (auto simp: fp_emit_def Let_def emit_size_def handle_sha_def split: prod.splits)
    then show ?thesis
      using e st False fp_emit_fields(5) [of sha s "replicate n 0" st]
      by (auto simp: zero_inv_def fp_emit_fields)
  qed
qed

lemma fp_loop_zero:
  assumes "fp_loop sha s (replicate n 0) st = Some st'" "zero_inv s n st"
    "fs_window_bytes s < fs_min_chunk_size_bytes s" "fs_magic_val s = 0"
  shows "length (out_sizes st') = n div fs_min_chunk_size_bytes s"
  using assms(1,2)
proof (induction "remain_bytes st" arbitrary: st rule: less_induct)
  case less
  show ?case
  proof (cases "0 < remain_bytes st")
    case False
    with less.prems show ?thesis by (simp add: zero_inv_def)
  next
    case True
    let ?e = "fp_emit sha s (replicate n 0) st"
    have cut: "fp_cut s st" using less.prems True assms(4) by (simp add: zero_inv_def fp_cut_zero)
    have "0 < emit_size s st" using less.prems True assms(3) by (auto simp: zero_inv_def emit_size_def)
    then have "remain_bytes ?e < remain_bytes st" using True by (simp add: fp_emit_fields)
    moreover have "fp_loop sha s (replicate n 0) ?e = Some st'"
      using less.prems(1) True cut by (simp add: fp_loop_step)
    ultimately show ?thesis
      using less.hyps fp_emit_zero [OF less.prems(2) True assms(3,4)] by blast
  qed
qed

section \<open>The settings the cache is initialised with\<close>

definition fingerprint_cache_settings :: Fingerprinting_Settings where
  "fingerprint_cache_settings =
     save_fingerprinting_settings FINGERPRINT_NUM_BYTES RABIN_P RABIN_M_BITS WINDOW_BYTES LOWER_BITS
       MIN_CHUNK_SIZE_BYTES MAX_CHUNK_SIZE_BYTES MAGIC_VAL"

lemma fingerprint_cache_settings_ok:
  "chunk_bounds fingerprint_cache_settings" "window_ok fingerprint_cache_settings"
  "fs_window_bytes fingerprint_cache_settings < fs_min_chunk_size_bytes fingerprint_cache_settings"
  "fs_magic_val fingerprint_cache_settings = 0"
  "fs_min_chunk_size_bytes fingerprint_cache_settings = MIN_CHUNK_SIZE_BYTES"
  "fs_max_chunk_size_bytes fingerprint_cache_settings = MAX_CHUNK_SIZE_BYTES"
  by (simp_all add: fingerprint_cache_settings_def save_fingerprinting_settings_def chunk_bounds_def
      window_ok_def config_defs MAGIC_VAL_def)

text \<open>A small parameter set on which the loop can be run by the simplifier.\<close>

definition toy_settings :: Fingerprinting_Settings where
  "toy_settings = save_fingerprinting_settings 32 3 8 2 1 3 6 0"

lemma toy_settings_fields:
  "fs_rabin_p toy_settings = 3" "fs_rabin_m_bits toy_settings = 8" "fs_window_bytes toy_settings = 2"
  "fs_lower_bits toy_settings = 1" "fs_min_chunk_size_bytes toy_settings = 3"
  "fs_max_chunk_size_bytes toy_settings = 6" "fs_magic_val toy_settings = 0"
  "fs_rabin_table toy_settings = gen_rabin_table 3 2"
  by (simp_all add: toy_settings_def save_fingerprinting_settings_def)

lemma toy_settings_ok: "chunk_bounds toy_settings" "window_ok toy_settings"
  by (simp_all add: chunk_bounds_def window_ok_def toy_settings_fields)

text \<open>What a run of the chunking loop yields, for the theories that use it.\<close>

lemma do_fingerprinting_run:
  assumes "chunk_bounds s"
  obtains fps sizes where "do_fingerprinting sha s data = Some (fps, sizes)"
    "sum_list sizes = length data"
    "fps = map (\<lambda>i. sha (bytes_at (offset_of sizes i) (sizes ! i) data)) [0..<length sizes]"
    "fs_min_chunk_size_bytes s < length data \<Longrightarrow> \<forall>z\<in>set sizes. fs_min_chunk_size_bytes s \<le> z \<and>
       z < fs_max_chunk_size_bytes s + fs_min_chunk_size_bytes s"
    "length data \<le> fs_min_chunk_size_bytes s \<Longrightarrow> sizes = [length data]"
proof (cases "length data \<le> fs_min_chunk_size_bytes s")
  case True
  then show ?thesis
    by (intro that [of "[sha data]" "[length data]"]) (simp_all add: do_fingerprinting_def handle_sha_def)
next
  case False
  then obtain st where st: "fp_loop sha s data (fp_start s data) = Some st" "chunk_inv sha s data st"
    "remain_bytes st = 0"
    using fp_loop_total [OF fp_start_inv assms, of data] assms by (metis not_le)
  with False show ?thesis
    by (intro that [of "out_fingerprints st" "out_sizes st"])
      (simp_all add: do_fingerprinting_def chunk_inv_def)
qed

section \<open>Properties\<close>

text \<open>C3. Chunking returns, and it returns a partition: for every buffer the loop terminates, the
  content sizes add up to the buffer and digest \<open>i\<close> is the SHA-256 of the \<open>i\<close>-th block.\<close>

theorem do_fingerprinting_partition:
  assumes "chunk_bounds s"
  shows "\<exists>fps sizes. do_fingerprinting sha s data = Some (fps, sizes) \<and>
           sum_list sizes = length data \<and>
           fps = map (\<lambda>i. sha (bytes_at (offset_of sizes i) (sizes ! i) data)) [0..<length sizes]"
proof (cases "length data \<le> fs_min_chunk_size_bytes s")
  case True
  then show ?thesis by (simp add: do_fingerprinting_def handle_sha_def)
next
  case False
  then obtain st where "fp_loop sha s data (fp_start s data) = Some st" "chunk_inv sha s data st"
    "remain_bytes st = 0"
    using fp_loop_total [OF fp_start_inv assms, of data] assms by (metis not_le)
  with False show ?thesis by (simp add: do_fingerprinting_def chunk_inv_def)
qed

theorem do_fingerprinting_partition_witness:
  "\<exists>fps sizes. do_fingerprinting id toy_settings [2, 1, 3, 3, 2, 3, 2] = Some (fps, sizes) \<and>
     sum_list sizes = 7 \<and>
     fps = map (\<lambda>i. bytes_at (offset_of sizes i) (sizes ! i) [2, 1, 3, 3, 2, 3, 2]) [0..<length sizes]"
  using do_fingerprinting_partition [OF toy_settings_ok(1), of id "[2, 1, 3, 3, 2, 3, 2]"]
  by (simp add: eval_nat_numeral)

text \<open>C32. Chunk bounds: in a buffer longer than the minimum chunk every chunk is at least the
  minimum and less than maximum plus minimum, so there are at most \<open>num_bytes / min\<close> chunks and
  the buffers of \<open>num_bytes / min + 1\<close> digests that the caller allocates are large enough.\<close>

theorem do_fingerprinting_bounds:
  assumes "chunk_bounds s" "fs_min_chunk_size_bytes s < length data"
    and "do_fingerprinting sha s data = Some (fps, sizes)"
  shows "(\<forall>z\<in>set sizes. fs_min_chunk_size_bytes s \<le> z \<and>
            z < fs_max_chunk_size_bytes s + fs_min_chunk_size_bytes s) \<and>
         length fps = length sizes \<and>
         length sizes \<le> length data div fs_min_chunk_size_bytes s"
proof -
  let ?m = "fs_min_chunk_size_bytes s"
  obtain st where st: "fp_loop sha s data (fp_start s data) = Some st" "chunk_inv sha s data st"
    "remain_bytes st = 0"
    using fp_loop_total [OF fp_start_inv assms(1), of data] assms by metis
  then have out: "fps = out_fingerprints st" "sizes = out_sizes st"
    using assms(2,3) by (auto simp: do_fingerprinting_def)
  have "length zs * ?m \<le> sum_list zs" if "\<forall>z\<in>set zs. ?m \<le> z" for zs
    using that by (induction zs) auto
  then have "length sizes * ?m \<le> length data"
    using st(2,3) unfolding out chunk_inv_def by (metis add.right_neutral)
  then have "length sizes \<le> length data div ?m"
    using assms(1) by (simp add: less_eq_div_iff_mult_less_eq chunk_bounds_def)
  then show ?thesis using st out by (simp add: chunk_inv_def)
qed

theorem do_fingerprinting_bounds_witness:
  "\<exists>fps sizes. do_fingerprinting id toy_settings [2, 1, 3, 3, 2, 3, 2, 0, 2, 3, 0, 1, 1, 1] = Some (fps, sizes) \<and>
     sizes = [4, 4, 6] \<and> 3 \<le> sizes ! 0 \<and> sizes ! 2 < 6 + 3 \<and> length sizes \<le> 14 div 3"
proof -
  have run: "do_fingerprinting id toy_settings [2, 1, 3, 3, 2, 3, 2, 0, 2, 3, 0, 1, 1, 1] =
    Some ([[2, 1, 3, 3], [2, 3, 2, 0], [2, 3, 0, 1, 1, 1]], [4, 4, 6])"
    by code_simp
  show ?thesis
    using do_fingerprinting_bounds [OF toy_settings_ok(1) _ run] run by (simp add: toy_settings_fields)
qed

definition fp_reads_in_bounds ::
  "Fingerprinting_Settings \<Rightarrow> u8 list \<Rightarrow> Chunk_State \<Rightarrow> bool" where
  "fp_reads_in_bounds s data st \<longleftrightarrow>
     (0 < remain_bytes st \<longrightarrow>
        (if fp_cut s st
         then cur_start_ind st + emit_size s st \<le> length data \<and>
              (emit_size s st < remain_bytes st \<longrightarrow>
                 fs_window_bytes s + 1 \<le> cur_start_ind st + emit_size s st + fs_min_chunk_size_bytes s \<and>
                 cur_start_ind st + emit_size s st + fs_min_chunk_size_bytes s \<le> length data)
         else cur_start_ind st + cur_size st < length data \<and>
              window_slot st < length (window st)))"

text \<open>Memory safety of the chunking loop: in every state the loop reaches, the byte it rolls
  in and the window slot it replaces are inside their buffers, every block it hashes is inside the
  data, and every window it re-reads starts after the data begins and ends before it ends.\<close>

theorem fp_loop_reads_in_bounds:
  assumes "fp_reach sha s data st" "chunk_bounds s" "window_ok s"
    "fs_min_chunk_size_bytes s < length data"
  shows "fp_reads_in_bounds s data st"
  using fp_reach_inv [OF assms(1,2,4)] fp_reach_window [OF assms(1,3)] assms(3)
  by (auto simp: fp_reads_in_bounds_def chunk_inv_def window_inv_def window_ok_def fp_cut_def
      emit_size_def)

theorem fp_loop_reads_in_bounds_witness:
  "fp_reads_in_bounds toy_settings [2, 1, 3, 3, 2] (fp_start toy_settings [2, 1, 3, 3, 2])"
  using fp_loop_reads_in_bounds [OF fp_reach.start [of id toy_settings "[2, 1, 3, 3, 2]"] toy_settings_ok]
  by (simp add: toy_settings_fields)

text \<open>The rolling update is right in the first chunk: as long as no boundary has been cut, the
  incrementally maintained value is the polynomial hash of the most recent \<open>window_bytes\<close> bytes
  of the hashed stream, modulo \<open>2 ^ rabin_m_bits\<close>. The byte just before the minimum chunk size is
  not part of that stream.\<close>

theorem rolling_value_first_chunk:
  assumes "fp_reach sha s data st" "out_sizes st = []" "window_ok s" "chunk_bounds s"
    "fs_min_chunk_size_bytes s < length data"
  shows "cur_rabin st = take_bit (fs_rabin_m_bits s) (poly_hash (fs_rabin_p s)
           (drop (cur_size st - fs_min_chunk_size_bytes s)
              (hashed_stream s data (cur_size st - fs_min_chunk_size_bytes s))))"
  using fp_reach_first_chunk [OF assms] by (simp add: first_chunk_inv_def Let_def)

theorem rolling_value_first_chunk_witness:
  "cur_rabin (fp_start toy_settings [2, 1, 3, 3, 2]) =
   take_bit 8 (poly_hash 3 (drop 0 (hashed_stream toy_settings [2, 1, 3, 3, 2] 0)))"
proof -
  have "out_sizes (fp_start toy_settings [2, 1, 3, 3, 2]) = []"
    "cur_size (fp_start toy_settings [2, 1, 3, 3, 2]) = 3"
    by (simp_all add: fp_start_def toy_settings_fields split: prod.splits)
  then show ?thesis
    using rolling_value_first_chunk [OF fp_reach.start [of id toy_settings "[2, 1, 3, 3, 2]"] _ toy_settings_ok(2,1)]
    by (simp add: toy_settings_fields)
qed

text \<open>All-zero data hits the magic value at once: with the settings of the cache, a buffer of
  \<open>n\<close> zero bytes (more than one minimum chunk) is cut into \<open>n / 2048\<close> chunks, the largest number
  any buffer of that length can have.\<close>

theorem zero_data_chunk_count:
  assumes "MIN_CHUNK_SIZE_BYTES < n"
    and "do_fingerprinting sha fingerprint_cache_settings (replicate n 0) = Some (fps, sizes)"
  shows "length sizes = n div MIN_CHUNK_SIZE_BYTES"
proof -
  let ?s = fingerprint_cache_settings
  obtain st where st: "fp_loop sha ?s (replicate n 0) (fp_start ?s (replicate n 0)) = Some st"
    "sizes = out_sizes st"
    using assms fingerprint_cache_settings_ok by (auto simp: do_fingerprinting_def)
  have "zero_inv ?s n (fp_start ?s (replicate n 0))"
    using fp_window_at_zero [of ?s 0 n "replicate (fs_window_bytes ?s) 0"] assms(1)
      fingerprint_cache_settings_ok
    by (auto simp: zero_inv_def fp_start_def split: prod.splits)
  then show ?thesis
    using fp_loop_zero [OF st(1)] fingerprint_cache_settings_ok st(2) by simp
qed

theorem zero_data_chunk_count_witness:
  "\<exists>fps sizes. do_fingerprinting id fingerprint_cache_settings (replicate 8390656 0) =
     Some (fps, sizes) \<and> length sizes = 4097"
proof -
  obtain fps sizes where
    run: "do_fingerprinting id fingerprint_cache_settings (replicate 8390656 0) = Some (fps, sizes)"
    using do_fingerprinting_partition [OF fingerprint_cache_settings_ok(1)] by blast
  then show ?thesis
    using zero_data_chunk_count [OF _ run] by (simp add: MIN_CHUNK_SIZE_BYTES_def)
qed

text \<open>Boundaries are not a function of the content alone: the window slot survives a cut while
  the window is refilled from slot 0, so the bytes after a boundary are cut differently from the
  same bytes on their own. Here the first four bytes are one chunk, and the remaining ten bytes
  are cut into 4 and 6 after it but into 5 and 5 alone.\<close>

theorem boundaries_depend_on_history:
  "map_option snd (do_fingerprinting sha toy_settings
     ([2, 1, 3, 3] @ [2, 3, 2, 0, 2, 3, 0, 1, 1, 1])) = Some [4, 4, 6] \<and>
   map_option snd (do_fingerprinting sha toy_settings
     [2, 3, 2, 0, 2, 3, 0, 1, 1, 1]) = Some [5, 5]"
  by code_simp

text \<open>\<open>do_fingerprinting_old\<close> does not compute the digest it is asked for in one case: for
  \<open>MD5_HASH\<close> its result has the length of a SHA-1 digest, four bytes more than
  \<open>get_fingerprint_num_bytes\<close> announces, while the other supported types agree.\<close>

theorem fingerprint_old_length:
  assumes "\<And>d. length (sha256 d) = 32" "\<And>d. length (sha512 d) = 64" "\<And>d. length (sha1 d) = 20"
    "do_fingerprinting_old sha256 sha512 sha1 md5 data ty = Some fp"
  shows "length fp = (if ty = MD5_HASH then get_fingerprint_num_bytes ty + 4
                      else get_fingerprint_num_bytes ty)"
  using assms by (cases ty) auto

theorem fingerprint_old_length_witness:
  "length (replicate 20 (0 :: u8)) = get_fingerprint_num_bytes MD5_HASH + 4"
  using fingerprint_old_length [of "\<lambda>_. replicate 32 0" "\<lambda>_. replicate 64 0" "\<lambda>_. replicate 20 0"
      "\<lambda>_. replicate 16 0" "[]" MD5_HASH "replicate 20 0"]
  by simp

end
