(* ===== verification/FingerprintTable.thy ===== *)
theory FingerprintTable
  imports Config Interfaces
begin

text \<open>
  \<^verbatim>\<open>fingerprint_table.h\<close> and \<^verbatim>\<open>fingerprint_table.c\<close>: the open-addressing table from
  32-byte digests to cache entries, with its bit vector of empty slots. The arrays of the shared
  memory segment are functions from indices; that every access stays inside them is part of what
  is proved. Slots, counts and page numbers are \<open>nat\<close> (they stay below \<open>2 ^ 30\<close>), keys are hashed
  on 64-bit words. \<open>table_ok\<close> is the representation invariant, \<open>table_maps\<close> the finite map the
  table stands for; find, insert and remove are shown to implement lookup, update and deletion.
\<close>

section \<open>Data\<close>

record Fingerprint_Entry =
  entry_content_size :: nat
  content_page_nums :: "nat list"

record Fingerprint_Table =
  cnt :: nat
  table_size :: nat
  is_empty_bit_vector :: "nat \<Rightarrow> u64"
  items :: "nat \<Rightarrow> u8 list \<times> Fingerprint_Entry"

text \<open>The entry and the item that zero-filled memory represents.\<close>

definition zero_entry :: Fingerprint_Entry where
  "zero_entry = \<lparr>entry_content_size = 0,
     content_page_nums = replicate FINGERPRINT_CONTENT_MAX_PAGES 0\<rparr>"

definition zero_key :: "u8 list" where
  "zero_key = replicate FINGERPRINT_NUM_BYTES 0"

section \<open>Operations\<close>

text \<open>The shifts and sums are on \<open>uint64_t\<close>; \<open>push_bit\<close> is \<open><<\<close> and \<open>drop_bit\<close> is \<open>>>\<close>.\<close>

definition fingerprint_mix_64 :: "u64 \<Rightarrow> u64" where
  "fingerprint_mix_64 key0 =
     (let key1 = push_bit 21 key0 - key0 - 1;
          key2 = key1 XOR drop_bit 24 key1;
          key3 = (key2 + push_bit 3 key2) + push_bit 8 key2;
          key4 = key3 XOR drop_bit 14 key3;
          key5 = (key4 + push_bit 2 key4) + push_bit 4 key4;
          key6 = key5 XOR drop_bit 28 key5
      in key6 + push_bit 31 key6)"

definition fingerprint_hash_func_64 :: "u64 \<Rightarrow> nat" where
  "fingerprint_hash_func_64 key = unat (fingerprint_mix_64 key) mod FINGERPRINT_TABLE_SIZE"

definition inline_fingerprint_to_least_sig64 :: "u8 list \<Rightarrow> u64" where
  "inline_fingerprint_to_least_sig64 fp =
     fold (\<lambda>b result. push_bit 8 result OR ucast b) (bytes_at (FINGERPRINT_NUM_BYTES - 8) 8 fp) 0"

definition hash_ind :: "u8 list \<Rightarrow> nat" where
  "hash_ind fp = fingerprint_hash_func_64 (inline_fingerprint_to_least_sig64 fp)"

text \<open>\<open>init_fingerprint_table\<close>: every vector element up to the last is all ones; the last one is a
  mask of the left-over slots. The items are not written: the segment is fresh and zero-filled.\<close>

definition init_fingerprint_table :: "Fingerprint_Table \<Rightarrow> Fingerprint_Table" where
  "init_fingerprint_table t =
     (let bit_vector_els = MY_CEIL FINGERPRINT_TABLE_SIZE 64;
          last_vec_els = FINGERPRINT_TABLE_SIZE mod 64
      in t\<lparr>cnt := 0, table_size := FINGERPRINT_TABLE_SIZE,
           is_empty_bit_vector := (\<lambda>i.
             if i < bit_vector_els - 1 then - 1
             else if i = bit_vector_els - 1
                  then (if last_vec_els = 0 then - 1 else push_bit last_vec_els 1 - 1)
             else is_empty_bit_vector t i)\<rparr>)"

text \<open>\<open>__builtin_ctzll\<close>: the index of the least significant 1 bit.\<close>

definition ctzll :: "u64 \<Rightarrow> nat" where
  "ctzll x = length (takeWhile (\<lambda>i. \<not> bit x i) [0..<64])"

function next_ind_loop ::
  "(nat \<Rightarrow> u64) \<Rightarrow> nat \<Rightarrow> nat \<Rightarrow> nat \<Rightarrow> nat \<Rightarrow> u64 \<Rightarrow> nat" where
  "next_ind_loop vec tsize vec_size start_vec_ind cur_vec_ind search_vector =
     (if cur_vec_ind \<le> start_vec_ind + vec_size
      then if search_vector = 0
           then next_ind_loop vec tsize vec_size start_vec_ind (cur_vec_ind + 1)
                  (vec ((cur_vec_ind + 1) mod vec_size))
           else 64 * (cur_vec_ind mod vec_size) + ctzll search_vector
      else tsize)"
  by pat_completeness auto
termination
  by (relation "measure (\<lambda>(vec, tsize, n, s, c, v). s + n + 1 - c)") auto

declare next_ind_loop.simps [simp del]

definition get_next_ind_fingerprint_table :: "(nat \<Rightarrow> u64) \<Rightarrow> nat \<Rightarrow> nat \<Rightarrow> nat" where
  "get_next_ind_fingerprint_table vec tsize start_ind =
     (if tsize \<le> start_ind then tsize
      else let bit_vector_size = MY_CEIL FINGERPRINT_TABLE_SIZE 64;
               start_vec_ind = start_ind div 64;
               start_bit_ind = start_ind mod 64;
               search_vector = vec start_vec_ind AND push_bit start_bit_ind (- 1)
           in next_ind_loop vec tsize bit_vector_size start_vec_ind start_vec_ind search_vector)"

text \<open>Returns 0 with the new table, or -1 with the table unchanged.\<close>

definition insert_fingerprint_table ::
  "Fingerprint_Table \<Rightarrow> u8 list \<Rightarrow> Fingerprint_Entry \<Rightarrow> int \<times> Fingerprint_Table" where
  "insert_fingerprint_table t fp entry =
     (if cnt t = table_size t then (- 1, t)
      else let insert_ind = get_next_ind_fingerprint_table (is_empty_bit_vector t) (table_size t)
                              (hash_ind fp);
               vec_ind = insert_ind div 64
           in (0, t\<lparr>items := (items t)(insert_ind := (fp, entry)), cnt := cnt t + 1,
                    is_empty_bit_vector := (is_empty_bit_vector t)(vec_ind :=
                      is_empty_bit_vector t vec_ind AND NOT (push_bit (insert_ind mod 64) 1))\<rparr>))"

text \<open>The probe of \<open>find_fingerprint_table\<close>: at most \<open>n\<close> keys from \<open>cur_ind\<close> on.\<close>

fun find_loop ::
  "(nat \<Rightarrow> u8 list \<times> Fingerprint_Entry) \<Rightarrow> nat \<Rightarrow> u8 list \<Rightarrow> nat \<Rightarrow> nat \<Rightarrow> nat option" where
  "find_loop its tsize fp cur_ind 0 = None"
| "find_loop its tsize fp cur_ind (Suc n) =
     (if fst (its cur_ind) = fp then Some cur_ind
      else find_loop its tsize fp ((cur_ind + 1) mod tsize) n)"

definition find_items_to_check :: "Fingerprint_Table \<Rightarrow> nat \<Rightarrow> nat" where
  "find_items_to_check t cur_ind =
     (let next_empty = get_next_ind_fingerprint_table (is_empty_bit_vector t) (table_size t) cur_ind
      in if cur_ind \<le> next_empty then next_empty - cur_ind
         else (table_size t - cur_ind) + next_empty + 1)"

text \<open>Returns the index (\<open>FINGERPRINT_TABLE_SIZE\<close> when the key is not found) and the caller's entry
  buffer. \<open>items\<close> is an array member, so the null test of the source never succeeds.\<close>

definition find_fingerprint_table ::
  "Fingerprint_Table \<Rightarrow> u8 list \<Rightarrow> Fingerprint_Entry \<Rightarrow> nat \<times> Fingerprint_Entry" where
  "find_fingerprint_table t fp ret_entry =
     (case find_loop (items t) (table_size t) fp (hash_ind fp)
             (find_items_to_check t (hash_ind fp)) of
        Some i \<Rightarrow> (i, snd (items t i))
      | None \<Rightarrow> (FINGERPRINT_TABLE_SIZE, ret_entry))"

text \<open>The back-shifting loop of \<open>remvove_fingerprint_table\<close> (the name is spelt this way in the
  source); \<open>n\<close> iterations are left.\<close>

fun remove_loop ::
  "nat \<Rightarrow> (nat \<Rightarrow> u8 list \<times> Fingerprint_Entry) \<Rightarrow> nat \<Rightarrow> nat \<Rightarrow> nat \<Rightarrow>
   (nat \<Rightarrow> u8 list \<times> Fingerprint_Entry) \<times> nat" where
  "remove_loop tsize its empty_ind cur_ind 0 = (its, empty_ind)"
| "remove_loop tsize its empty_ind cur_ind (Suc n) =
     (let h = hash_ind (fst (its cur_ind));
          next_ind = (cur_ind + 1) mod tsize
      in if (empty_ind < cur_ind \<and> (h \<le> empty_ind \<or> cur_ind < h)) \<or>
            (cur_ind < empty_ind \<and> (h \<le> empty_ind \<and> cur_ind < h))
         then remove_loop tsize (its(empty_ind := its cur_ind)) cur_ind next_ind n
         else remove_loop tsize its empty_ind next_ind n)"

definition remove_items_to_check :: "Fingerprint_Table \<Rightarrow> nat \<Rightarrow> nat" where
  "remove_items_to_check t empty_ind =
     (let next_empty = get_next_ind_fingerprint_table (is_empty_bit_vector t) (table_size t) empty_ind
      in if empty_ind < next_empty then next_empty - empty_ind - 1
         else (table_size t - empty_ind - 1) + next_empty)"

definition remvove_fingerprint_table ::
  "Fingerprint_Table \<Rightarrow> u8 list \<Rightarrow> Fingerprint_Entry \<Rightarrow> int \<times> Fingerprint_Table \<times> Fingerprint_Entry" where
  "remvove_fingerprint_table t fp ret_entry =
     (let (empty_ind, ret_entry') = find_fingerprint_table t fp ret_entry
      in if empty_ind = FINGERPRINT_TABLE_SIZE then (- 1, t, ret_entry')
         else let (its, hole) = remove_loop (table_size t) (items t) empty_ind
                    ((empty_ind + 1) mod table_size t) (remove_items_to_check t empty_ind);
                  vec_ind = hole div 64
              in (0, t\<lparr>items := its(hole := (zero_key, zero_entry)), cnt := cnt t - 1,
                       is_empty_bit_vector := (is_empty_bit_vector t)(vec_ind :=
                         is_empty_bit_vector t vec_ind OR push_bit (hole mod 64) 1)\<rparr>,
                  ret_entry'))"

section \<open>The bit vector\<close>

lemma hash_ind_less [simp]: "hash_ind fp < FINGERPRINT_TABLE_SIZE"
  by (simp add: hash_ind_def fingerprint_hash_func_64_def Let_def)

definition bit_vector_els :: nat where
  "bit_vector_els = 2 ^ 24"

lemma MY_CEIL_table: "MY_CEIL FINGERPRINT_TABLE_SIZE 64 = bit_vector_els"
  by (simp add: MY_CEIL_def FINGERPRINT_TABLE_SIZE_def bit_vector_els_def)

lemma TABLE_SIZE_els: "FINGERPRINT_TABLE_SIZE = 64 * bit_vector_els"
  by (simp add: FINGERPRINT_TABLE_SIZE_def bit_vector_els_def)

lemma bit_vector_els_pos [simp]: "0 < bit_vector_els"
  by (simp add: bit_vector_els_def)

definition slot_empty :: "(nat \<Rightarrow> u64) \<Rightarrow> nat \<Rightarrow> bool" where
  "slot_empty vec i \<longleftrightarrow> bit (vec (i div 64)) (i mod 64)"

lemma ctzll_least:
  assumes "x \<noteq> 0"
  shows "ctzll x < 64" "bit x (ctzll x)" "\<And>j. j < ctzll x \<Longrightarrow> \<not> bit x j"
proof -
  obtain i where i: "bit x i" using assms bit_eqI [of x 0] by auto
  then have "i < 64" using bit_imp_le_length [OF i] by simp
  have "ctzll x < length [0..<64]"
  proof -
    have "\<not> (\<forall>i\<in>set [0..<64]. \<not> bit x i)" using i \<open>i < 64\<close> by auto
    then have "takeWhile (\<lambda>i. \<not> bit x i) [0..<64] \<noteq> [0..<64]" by (metis takeWhile_eq_all_conv)
    then show ?thesis
      unfolding ctzll_def
      by (metis le_neq_implies_less length_takeWhile_le takeWhile_eq_take take_all order_refl)
  qed
  then show lt: "ctzll x < 64" by simp
  show "bit x (ctzll x)"
    using nth_length_takeWhile [of "\<lambda>i. \<not> bit x i" "[0..<64]"] lt by (simp add: ctzll_def)
  show "\<not> bit x j" if "j < ctzll x" for j
  proof -
    have "[0..<64] ! j = j" using that lt by simp
    moreover have "takeWhile (\<lambda>i. \<not> bit x i) [0..<64] ! j \<in> set (takeWhile (\<lambda>i. \<not> bit x i) [0..<64])"
      using that by (intro nth_mem) (simp add: ctzll_def)
    ultimately show ?thesis
      using that takeWhile_nth [of j "\<lambda>i. \<not> bit x i" "[0..<64]"]
      by (auto simp: ctzll_def dest!: set_takeWhileD)
  qed
qed

text \<open>\<open>virt_empty\<close> reads the vector at an unwrapped position.\<close>

definition virt_empty :: "(nat \<Rightarrow> u64) \<Rightarrow> nat \<Rightarrow> bool" where
  "virt_empty vec p = slot_empty vec (p mod FINGERPRINT_TABLE_SIZE)"

lemma virt_empty_word:
  assumes "b < 64"
  shows "virt_empty vec (64 * c + b) = bit (vec (c mod bit_vector_els)) b"
    "(64 * c + b) mod FINGERPRINT_TABLE_SIZE = 64 * (c mod bit_vector_els) + b"
proof -
  have "(64 * c + b) mod (64 * bit_vector_els) = 64 * (((64 * c + b) div 64) mod bit_vector_els)
      + (64 * c + b) mod 64"
    by (rule mod_mult2_eq [THEN trans]) simp
  then show m: "(64 * c + b) mod FINGERPRINT_TABLE_SIZE = 64 * (c mod bit_vector_els) + b"
    using assms by (simp add: TABLE_SIZE_els)
  show "virt_empty vec (64 * c + b) = bit (vec (c mod bit_vector_els)) b"
    using assms by (simp add: virt_empty_def m slot_empty_def)
qed

lemma bit_masked_word:
  "b < 64 \<Longrightarrow> bit ((w :: u64) AND push_bit n (- 1)) b \<longleftrightarrow> bit w b \<and> n \<le> b"
  by (auto simp: bit_simps)

lemma next_ind_loop_spec:
  assumes "start div 64 \<le> c"
    and "\<forall>b<64. bit v b \<longleftrightarrow> virt_empty vec (64 * c + b) \<and> start \<le> 64 * c + b"
    and "\<forall>p. start \<le> p \<and> p < 64 * c \<longrightarrow> \<not> virt_empty vec p"
  shows "(\<exists>p. start \<le> p \<and> virt_empty vec p \<and> (\<forall>q. start \<le> q \<and> q < p \<longrightarrow> \<not> virt_empty vec q) \<and>
            next_ind_loop vec tsize bit_vector_els (start div 64) c v = p mod FINGERPRINT_TABLE_SIZE) \<or>
         ((\<forall>p. start \<le> p \<and> p < 64 * (start div 64 + bit_vector_els + 1) \<longrightarrow> \<not> virt_empty vec p) \<and>
            next_ind_loop vec tsize bit_vector_els (start div 64) c v = tsize)"
  using assms
proof (induction "start div 64 + bit_vector_els + 1 - c" arbitrary: c v rule: less_induct)
  case less
  note eq = next_ind_loop.simps [of vec tsize bit_vector_els "start div 64" c v]
  show ?case
  proof (cases "c \<le> start div 64 + bit_vector_els")
    case False
    then have "next_ind_loop vec tsize bit_vector_els (start div 64) c v = tsize" by (simp add: eq)
    moreover have "64 * (start div 64 + bit_vector_els + 1) \<le> 64 * c" using False by simp
    ultimately show ?thesis using less.prems(3) by (meson order_less_le_trans)
  next
    case True
    show ?thesis
    proof (cases "v = 0")
      case False
      let ?b = "ctzll v"
      have b: "?b < 64" "bit v ?b" "\<And>j. j < ?b \<Longrightarrow> \<not> bit v j"
        using ctzll_least [OF False] by auto
      have "next_ind_loop vec tsize bit_vector_els (start div 64) c v =
          (64 * c + ?b) mod FINGERPRINT_TABLE_SIZE"
        using True False b(1) by (simp add: eq virt_empty_word(2))
      moreover have "\<not> virt_empty vec q" if q: "start \<le> q" "q < 64 * c + ?b" for q
      proof (cases "q < 64 * c")
        case False
        then obtain j where "q = 64 * c + j" by (metis le_Suc_ex not_le)
        then show ?thesis using q b less.prems(2) by (metis add_less_cancel_left order_less_trans)
      qed (use q less.prems(3) in blast)
      ultimately show ?thesis using b less.prems(2) by blast
    next
      case v0: True
      let ?v = "vec ((c + 1) mod bit_vector_els)"
      have full: "\<not> virt_empty vec p" if "start \<le> p" "p < 64 * (c + 1)" for p
      proof (cases "p < 64 * c")
        case False
        then obtain b where b: "p = 64 * c + b" by (metis le_Suc_ex not_le)
        with that have "b < 64" by simp
        then show ?thesis using v0 that b less.prems(2) by auto
      qed (use that less.prems(3) in blast)
      have "start < 64 * (start div 64 + 1)" by presburger
      also have "\<dots> \<le> 64 * (c + 1)" using less.prems(1) by simp
      finally have st: "start \<le> 64 * (c + 1)" by simp
      have "next_ind_loop vec tsize bit_vector_els (start div 64) c v =
            next_ind_loop vec tsize bit_vector_els (start div 64) (c + 1) ?v"
        using True v0 by (subst eq) simp
      moreover have "\<forall>b<64. bit ?v b \<longleftrightarrow> virt_empty vec (64 * (c + 1) + b) \<and> start \<le> 64 * (c + 1) + b"
        using st virt_empty_word(1) [of _ vec "c + 1"] by (simp add: trans_le_add1)
      moreover have "start div 64 + bit_vector_els + 1 - (c + 1) < start div 64 + bit_vector_els + 1 - c"
        using True by simp
      ultimately show ?thesis
        using less.hyps [of "c + 1" ?v] less.prems(1) full by simp
    qed
  qed
qed

text \<open>The search result: the cyclically nearest empty slot, or the table size when there is none.\<close>

lemma get_next_ind_spec:
  assumes "start < FINGERPRINT_TABLE_SIZE"
  shows "(\<exists>d<FINGERPRINT_TABLE_SIZE.
            get_next_ind_fingerprint_table vec FINGERPRINT_TABLE_SIZE start =
              (start + d) mod FINGERPRINT_TABLE_SIZE \<and>
            slot_empty vec ((start + d) mod FINGERPRINT_TABLE_SIZE) \<and>
            (\<forall>d'<d. \<not> slot_empty vec ((start + d') mod FINGERPRINT_TABLE_SIZE))) \<or>
         ((\<forall>i<FINGERPRINT_TABLE_SIZE. \<not> slot_empty vec i) \<and>
            get_next_ind_fingerprint_table vec FINGERPRINT_TABLE_SIZE start = FINGERPRINT_TABLE_SIZE)"
proof -
  let ?N = FINGERPRINT_TABLE_SIZE and ?sv = "start div 64"
  let ?v = "vec ?sv AND push_bit (start mod 64) (- 1)"
  have "?sv < bit_vector_els" using assms by (simp add: TABLE_SIZE_els less_mult_imp_div_less mult.commute)
  then have sv: "?sv mod bit_vector_els = ?sv" by simp
  have "start = 64 * ?sv + start mod 64" by simp
  then have v: "\<forall>b<64. bit ?v b \<longleftrightarrow> virt_empty vec (64 * ?sv + b) \<and> start \<le> 64 * ?sv + b"
    using virt_empty_word(1) [of _ vec ?sv] sv
    by (metis bit_masked_word nat_add_left_cancel_le)
  have get: "get_next_ind_fingerprint_table vec ?N start = next_ind_loop vec ?N bit_vector_els ?sv ?sv ?v"
    using assms by (simp add: get_next_ind_fingerprint_table_def MY_CEIL_table Let_def)
  have "start \<le> p \<Longrightarrow> \<not> p < 64 * ?sv" for p using \<open>start = _\<close> by linarith
  then have pre: "\<forall>p. start \<le> p \<and> p < 64 * ?sv \<longrightarrow> \<not> virt_empty vec p" by blast
  have cover: "\<exists>p. start \<le> p \<and> p < start + ?N \<and> p mod ?N = i" if "i < ?N" for i
    using that assms add_cdist_mod [OF assms that] cdist_less [OF assms that]
    by (intro exI [of _ "start + cdist ?N start i"]) simp
  have le: "start + ?N \<le> 64 * (?sv + bit_vector_els + 1)"
    by (simp add: TABLE_SIZE_els)
  consider (found) p where "start \<le> p" "virt_empty vec p"
      "\<forall>q. start \<le> q \<and> q < p \<longrightarrow> \<not> virt_empty vec q" "get_next_ind_fingerprint_table vec ?N start = p mod ?N"
    | (none) "\<forall>p. start \<le> p \<and> p < 64 * (?sv + bit_vector_els + 1) \<longrightarrow> \<not> virt_empty vec p"
      "get_next_ind_fingerprint_table vec ?N start = ?N"
    using next_ind_loop_spec [OF order_refl v pre, of ?N] unfolding get by blast
  then show ?thesis
  proof cases
    case found
    have "p - start < ?N"
    proof (rule ccontr)
      assume "\<not> p - start < ?N"
      then have "start \<le> p - ?N" "p - ?N < p" "(p - ?N) mod ?N = p mod ?N"
        using found(1) FINGERPRINT_TABLE_SIZE_pos by (simp_all add: le_mod_geq [symmetric] del: FINGERPRINT_TABLE_SIZE_pos)
      then show False using found(2,3) by (metis virt_empty_def)
    qed
    then show ?thesis
      using found by (intro disjI1 exI [of _ "p - start"]) (auto simp: virt_empty_def)
  next
    case none
    then show ?thesis
      using cover le by (metis virt_empty_def order_less_le_trans)
  qed
qed

section \<open>The representation invariant and the map it represents\<close>

abbreviation N_slots :: nat where "N_slots \<equiv> FINGERPRINT_TABLE_SIZE"

definition slot_full :: "Fingerprint_Table \<Rightarrow> nat \<Rightarrow> bool" where
  "slot_full t i \<longleftrightarrow> \<not> slot_empty (is_empty_bit_vector t) i"

text \<open>Every slot between a key's hash index and the slot it occupies is full.\<close>

definition probe_ok :: "(nat \<Rightarrow> bool) \<Rightarrow> (nat \<Rightarrow> u8 list \<times> Fingerprint_Entry) \<Rightarrow> nat \<Rightarrow> bool" where
  "probe_ok full its i \<longleftrightarrow>
     (\<forall>d < cdist N_slots (hash_ind (fst (its i))) i.
        full ((hash_ind (fst (its i)) + d) mod N_slots))"

definition table_ok :: "Fingerprint_Table \<Rightarrow> bool" where
  "table_ok t \<longleftrightarrow>
     table_size t = N_slots \<and>
     cnt t = card {i. i < N_slots \<and> slot_full t i} \<and>
     (\<forall>i<N_slots. \<not> slot_full t i \<longrightarrow> fst (items t i) = zero_key) \<and>
     (\<forall>i<N_slots. slot_full t i \<longrightarrow>
        fst (items t i) \<noteq> zero_key \<and> probe_ok (slot_full t) (items t) i) \<and>
     (\<forall>i<N_slots. \<forall>j<N_slots. slot_full t i \<and> slot_full t j \<and>
        fst (items t i) = fst (items t j) \<longrightarrow> i = j)"

definition table_maps :: "Fingerprint_Table \<Rightarrow> u8 list \<Rightarrow> Fingerprint_Entry \<Rightarrow> bool" where
  "table_maps t k e \<longleftrightarrow> (\<exists>i<N_slots. slot_full t i \<and> items t i = (k, e))"

definition table_map :: "Fingerprint_Table \<Rightarrow> u8 list \<rightharpoonup> Fingerprint_Entry" where
  "table_map t k =
     (if \<exists>i<N_slots. slot_full t i \<and> fst (items t i) = k
      then Some (snd (items t (LEAST i. i < N_slots \<and> slot_full t i \<and> fst (items t i) = k)))
      else None)"

lemma table_okD:
  assumes "table_ok t"
  shows "table_size t = N_slots" "cnt t = card {i. i < N_slots \<and> slot_full t i}"
    "\<And>i. i < N_slots \<Longrightarrow> \<not> slot_full t i \<Longrightarrow> fst (items t i) = zero_key"
    "\<And>i. i < N_slots \<Longrightarrow> slot_full t i \<Longrightarrow> fst (items t i) \<noteq> zero_key"
    "\<And>i. i < N_slots \<Longrightarrow> slot_full t i \<Longrightarrow> probe_ok (slot_full t) (items t) i"
    "\<And>i j. i < N_slots \<Longrightarrow> j < N_slots \<Longrightarrow> slot_full t i \<Longrightarrow> slot_full t j \<Longrightarrow>
       fst (items t i) = fst (items t j) \<Longrightarrow> i = j"
  using assms by (auto simp: table_ok_def)

lemma table_map_at:
  assumes "table_ok t" "i < N_slots" "slot_full t i"
  shows "table_map t (fst (items t i)) = Some (snd (items t i))"
proof -
  have "(LEAST j. j < N_slots \<and> slot_full t j \<and> fst (items t j) = fst (items t i)) = i"
    using assms table_okD(6) [OF assms(1)] by (intro Least_equality) auto
  then show ?thesis using assms by (auto simp: table_map_def)
qed

lemma table_map_None_iff:
  "table_map t k = None \<longleftrightarrow> (\<forall>i<N_slots. slot_full t i \<longrightarrow> fst (items t i) \<noteq> k)"
  by (auto simp: table_map_def)

lemma table_map_Some_iff:
  assumes "table_ok t"
  shows "table_map t k = Some e \<longleftrightarrow> table_maps t k e"
proof
  assume l: "table_map t k = Some e"
  then obtain i where i: "i < N_slots" "slot_full t i" "fst (items t i) = k"
    by (auto simp: table_map_def split: if_splits)
  with table_map_at [OF assms i(1,2)] l show "table_maps t k e"
    by (auto simp: table_maps_def intro!: exI [of _ i] prod_eqI)
next
  assume "table_maps t k e"
  then show "table_map t k = Some e"
    using table_map_at [OF assms] by (metis fst_conv snd_conv table_maps_def)
qed

lemma table_map_eqI:
  assumes "table_ok t" "\<And>k e. table_maps t k e \<longleftrightarrow> m k = Some e"
  shows "table_map t = m"
proof
  fix k
  show "table_map t k = m k"
    using table_map_Some_iff [OF assms(1), of k] assms(2) by (metis option.exhaust)
qed

lemma table_map_zero_key: "table_ok t \<Longrightarrow> table_map t zero_key = None"
  by (auto simp: table_map_None_iff dest: table_okD(4))

lemma not_full_has_empty:
  assumes "table_ok t" "cnt t < N_slots"
  shows "\<exists>i<N_slots. \<not> slot_full t i"
proof (rule ccontr)
  assume "\<not> ?thesis"
  then have "{i. i < N_slots \<and> slot_full t i} = {..<N_slots}" by auto
  then have "cnt t = N_slots" using table_okD(2) [OF assms(1)] by simp
  with assms(2) show False by simp
qed

text \<open>The nearest empty slot of a table that is not full.\<close>

lemma next_empty:
  assumes "table_ok t" "cnt t < N_slots" "h < N_slots"
  obtains d where "d < N_slots"
    "get_next_ind_fingerprint_table (is_empty_bit_vector t) N_slots h = (h + d) mod N_slots"
    "\<not> slot_full t ((h + d) mod N_slots)" "\<forall>d'<d. slot_full t ((h + d') mod N_slots)"
  using get_next_ind_spec [OF assms(3), of "is_empty_bit_vector t"]
    not_full_has_empty [OF assms(1,2)]
  unfolding slot_full_def by blast

section \<open>Find\<close>

lemma find_loop_None:
  "c < N_slots \<Longrightarrow> find_loop its N_slots fp c n = None \<longleftrightarrow> (\<forall>d<n. fst (its ((c + d) mod N_slots)) \<noteq> fp)"
proof (induction n arbitrary: c)
  case 0
  then show ?case by simp
next
  case (Suc n)
  have "(\<forall>d<Suc n. fst (its ((c + d) mod N_slots)) \<noteq> fp) \<longleftrightarrow>
      fst (its c) \<noteq> fp \<and> (\<forall>d<n. fst (its ((c + Suc d) mod N_slots)) \<noteq> fp)"
    using Suc.prems by (auto simp: All_less_Suc2)
  then show ?case
    using Suc.IH [of "(c + 1) mod N_slots"] by (auto simp: mod_simps)
qed

lemma find_loop_SomeD:
  "find_loop its N_slots fp c n = Some i \<Longrightarrow> c < N_slots \<Longrightarrow>
   \<exists>d<n. i = (c + d) mod N_slots \<and> fst (its i) = fp"
proof (induction n arbitrary: c)
  case 0
  then show ?case by simp
next
  case (Suc n)
  show ?case
  proof (cases "fst (its c) = fp")
    case True
    with Suc.prems show ?thesis by (auto intro: exI [of _ 0])
  next
    case False
    with Suc.prems Suc.IH [of "(c + 1) mod N_slots"] obtain d where
      "d < n" "i = ((c + 1) mod N_slots + d) mod N_slots" "fst (its i) = fp" by auto
    then show ?thesis by (intro exI [of _ "Suc d"]) (simp add: mod_simps)
  qed
qed

lemma find_items_to_check_eq:
  assumes "table_size t = N_slots" "h < N_slots" "d < N_slots"
    "get_next_ind_fingerprint_table (is_empty_bit_vector t) N_slots h = (h + d) mod N_slots"
  shows "find_items_to_check t h = d \<or> find_items_to_check t h = Suc d"
  using assms by (auto simp: find_items_to_check_def Let_def mod_if)

text \<open>The probe reaches the key's slot before the nearest empty slot, and no key before it or in
  that empty slot matches.\<close>

lemma find_spec:
  assumes ok: "table_ok t" and free: "cnt t < N_slots" and nz: "k \<noteq> zero_key"
  shows "case table_map t k of
      None \<Rightarrow> find_fingerprint_table t k r = (N_slots, r)
    | Some e \<Rightarrow> \<exists>i<N_slots. find_fingerprint_table t k r = (i, e) \<and> slot_full t i \<and> items t i = (k, e)"
proof -
  let ?h = "hash_ind k"
  obtain d where d: "d < N_slots"
    "get_next_ind_fingerprint_table (is_empty_bit_vector t) N_slots ?h = (?h + d) mod N_slots"
    "\<not> slot_full t ((?h + d) mod N_slots)" "\<forall>d'<d. slot_full t ((?h + d') mod N_slots)"
    using next_empty [OF ok free hash_ind_less] by blast
  let ?n = "find_items_to_check t ?h"
  have n: "?n = d \<or> ?n = Suc d"
    using find_items_to_check_eq [OF table_okD(1) [OF ok] hash_ind_less d(1,2)] .
  have match: "slot_full t i" if "i = (?h + j) mod N_slots" "j < ?n" "fst (items t i) = k" for i j
  proof (cases "j < d")
    case False
    then have "j = d" using that(2) n by auto
    then show ?thesis
      using that nz table_okD(3) [OF ok, of i] d(3) by (metis mod_less_divisor FINGERPRINT_TABLE_SIZE_pos)
  qed (use d that in simp)
  show ?thesis
  proof (cases "find_loop (items t) N_slots k ?h ?n")
    case None
    have "fst (items t i) \<noteq> k" if i: "i < N_slots" "slot_full t i" for i
    proof
      assume k: "fst (items t i) = k"
      let ?j = "cdist N_slots ?h i"
      have j: "(?h + ?j) mod N_slots = i" by (simp add: add_cdist_mod i)
      have "?j < d"
      proof (rule ccontr)
        assume "\<not> ?j < d"
        then consider "d < ?j" | "?j = d" by linarith
        then show False
        proof cases
          case 1
          then show False
            using table_okD(5) [OF ok i] d(3) k by (auto simp: probe_ok_def)
        qed (use d(3) j i in simp)
      qed
      then show False
        using None find_loop_None [of ?h "items t" k ?n] n k j by (metis hash_ind_less less_SucI)
    qed
    then have "table_map t k = None" by (simp add: table_map_None_iff)
    then show ?thesis
      using None table_okD(1) [OF ok] by (simp add: find_fingerprint_table_def)
  next
    case (Some i)
    then obtain j where j: "j < ?n" "i = (?h + j) mod N_slots" "fst (items t i) = k"
      using find_loop_SomeD by (metis hash_ind_less)
    have full: "i < N_slots" "slot_full t i" using match j by simp_all
    show ?thesis
      using Some full table_map_at [OF ok full] j(3) table_okD(1) [OF ok]
      by (auto simp: find_fingerprint_table_def intro!: prod_eqI)
  qed
qed

section \<open>Insert\<close>

lemma div_mod_64_inj: "i div 64 = j div 64 \<Longrightarrow> i mod 64 = j mod 64 \<Longrightarrow> i = (j :: nat)"
  by (metis div_mult_mod_eq)

lemma slot_empty_clear:
  "slot_empty (vec(i div 64 := vec (i div 64) AND NOT (push_bit (i mod 64) 1))) j \<longleftrightarrow>
   slot_empty vec j \<and> j \<noteq> i"
proof -
  have "j mod 64 < LENGTH(64)" by simp
  then show ?thesis
    using div_mod_64_inj [of j i] by (auto simp: slot_empty_def bit_simps)
qed

lemma slot_empty_set:
  "slot_empty (vec(i div 64 := vec (i div 64) OR push_bit (i mod 64) 1)) j \<longleftrightarrow>
   slot_empty vec j \<or> j = i"
proof -
  have "j mod 64 < LENGTH(64)" "i mod 64 < LENGTH(64)" by simp_all
  then show ?thesis
    using div_mod_64_inj [of j i] by (auto simp: slot_empty_def bit_simps)
qed

text \<open>The table after \<open>(k, e)\<close> was written to slot \<open>i\<close>.\<close>

definition table_put :: "Fingerprint_Table \<Rightarrow> nat \<Rightarrow> u8 list \<Rightarrow> Fingerprint_Entry \<Rightarrow> Fingerprint_Table" where
  "table_put t i k e =
     t\<lparr>items := (items t)(i := (k, e)), cnt := cnt t + 1,
       is_empty_bit_vector := (is_empty_bit_vector t)(i div 64 :=
         is_empty_bit_vector t (i div 64) AND NOT (push_bit (i mod 64) 1))\<rparr>"

lemma table_put_fields [simp]:
  "items (table_put t i k e) = (items t)(i := (k, e))" "table_size (table_put t i k e) = table_size t"
  "cnt (table_put t i k e) = cnt t + 1"
  by (simp_all add: table_put_def)

lemma table_put_full [simp]: "slot_full (table_put t i k e) j \<longleftrightarrow> slot_full t j \<or> j = i"
  using slot_empty_clear [of "is_empty_bit_vector t" i j] by (auto simp: slot_full_def table_put_def)

text \<open>The slot is empty, and the probe for \<open>k\<close> reaches it through full slots only.\<close>

definition slot_for :: "Fingerprint_Table \<Rightarrow> u8 list \<Rightarrow> nat \<Rightarrow> bool" where
  "slot_for t k i \<longleftrightarrow> i < N_slots \<and> \<not> slot_full t i \<and>
     (\<forall>d < cdist N_slots (hash_ind k) i. slot_full t ((hash_ind k + d) mod N_slots))"

lemma table_put_ok:
  assumes ok: "table_ok t" and nz: "k \<noteq> zero_key" and new: "table_map t k = None" and i: "slot_for t k i"
  shows "table_ok (table_put t i k e)"
  unfolding table_ok_def
proof (intro conjI allI impI)
  note okD = table_okD [OF ok]
  let ?t = "table_put t i k e"
  have il: "i < N_slots" "\<not> slot_full t i" using i by (simp_all add: slot_for_def)
  have other: "fst (items t j) \<noteq> k" if "j < N_slots" "slot_full t j" for j
    using new that by (auto simp: table_map_None_iff)
  show "table_size ?t = N_slots" using okD(1) by simp
  have "{j. j < N_slots \<and> slot_full ?t j} = insert i {j. j < N_slots \<and> slot_full t j}" using il by auto
  then show "cnt ?t = card {j. j < N_slots \<and> slot_full ?t j}" using okD(2) il by simp
  show "fst (items ?t j) = zero_key" if "j < N_slots" "\<not> slot_full ?t j" for j
    using that okD(3) [of j] by auto
  show "fst (items ?t j) \<noteq> zero_key" if "j < N_slots" "slot_full ?t j" for j
    using that okD(4) [of j] nz by auto
  show "probe_ok (slot_full ?t) (items ?t) j" if "j < N_slots" "slot_full ?t j" for j
    using that okD(5) [of j] i by (cases "j = i") (simp_all add: probe_ok_def slot_for_def)
  show "j = l" if "j < N_slots" "l < N_slots"
    "slot_full ?t j \<and> slot_full ?t l \<and> fst (items ?t j) = fst (items ?t l)" for j l
    using that other [of j] other [of l] okD(6) [of j l] by (cases "j = i"; cases "l = i") simp_all
qed

lemma table_put_map:
  assumes ok: "table_ok t" "table_ok (table_put t i k e)" and new: "table_map t k = None" and i: "slot_for t k i"
  shows "table_map (table_put t i k e) = (table_map t)(k \<mapsto> e)"
proof -
  let ?t = "table_put t i k e"
  have il: "i < N_slots" "\<not> slot_full t i" using i by (simp_all add: slot_for_def)
  have other: "fst (items t j) \<noteq> k" if "j < N_slots" "slot_full t j" for j
    using new that by (auto simp: table_map_None_iff)
  have "table_maps ?t k' e' \<longleftrightarrow> ((table_map t)(k \<mapsto> e)) k' = Some e'" for k' e'
  proof (cases "k' = k")
    case True
    have "table_maps ?t k e' \<longleftrightarrow> e' = e"
      unfolding table_maps_def using il other by (auto split: if_splits) (metis fst_conv)
    then show ?thesis using True by auto
  next
    case False
    then have "table_maps ?t k' e' \<longleftrightarrow> table_maps t k' e'"
      unfolding table_maps_def using il by (auto split: if_splits)
    then show ?thesis using False table_map_Some_iff [OF ok(1)] by simp
  qed
  then show ?thesis using table_map_eqI [OF ok(2)] by blast
qed

lemma insert_spec:
  assumes ok: "table_ok t" and free: "cnt t < N_slots" and nz: "k \<noteq> zero_key"
    and new: "table_map t k = None"
  obtains t' where "insert_fingerprint_table t k e = (0, t')" "table_ok t'"
    "table_map t' = (table_map t)(k \<mapsto> e)" "cnt t' = cnt t + 1"
proof -
  let ?h = "hash_ind k"
  obtain d where d: "d < N_slots"
    "get_next_ind_fingerprint_table (is_empty_bit_vector t) N_slots ?h = (?h + d) mod N_slots"
    "\<not> slot_full t ((?h + d) mod N_slots)" "\<forall>d'<d. slot_full t ((?h + d') mod N_slots)"
    using next_empty [OF ok free hash_ind_less] by blast
  let ?i = "(?h + d) mod N_slots"
  have "cdist N_slots ?h ?i = d" by (rule cdist_add_mod) (simp_all add: d)
  then have i: "slot_for t k ?i" using d(3,4) by (simp add: slot_for_def)
  have run: "insert_fingerprint_table t k e = (0, table_put t ?i k e)"
    using free d(2) table_okD(1) [OF ok] by (simp add: insert_fingerprint_table_def table_put_def Let_def)
  note ok' = table_put_ok [OF ok nz new i]
  show thesis using that [OF run ok' table_put_map [OF ok ok' new i]] by simp
qed

lemma insert_full: "cnt t = table_size t \<Longrightarrow> insert_fingerprint_table t k e = (- 1, t)"
  by (simp add: insert_fingerprint_table_def)

section \<open>Initialisation\<close>

definition zero_items :: "nat \<Rightarrow> u8 list \<times> Fingerprint_Entry" where
  "zero_items = (\<lambda>_. (zero_key, zero_entry))"

lemma init_bit_vector:
  "i < N_slots \<Longrightarrow> \<not> slot_full (init_fingerprint_table t) i"
proof -
  assume "i < N_slots"
  then have "i div 64 < bit_vector_els" by (simp add: TABLE_SIZE_els less_mult_imp_div_less mult.commute)
  moreover have "N_slots mod 64 = 0" by (simp add: TABLE_SIZE_els)
  ultimately show ?thesis
    by (auto simp: slot_full_def slot_empty_def init_fingerprint_table_def MY_CEIL_table Let_def)
qed

lemma init_table_spec:
  assumes "items t = zero_items"
  shows "table_ok (init_fingerprint_table t)" "table_map (init_fingerprint_table t) = Map.empty"
    "cnt (init_fingerprint_table t) = 0"
proof -
  have it: "items (init_fingerprint_table t) = zero_items"
    "table_size (init_fingerprint_table t) = N_slots" "cnt (init_fingerprint_table t) = 0"
    using assms by (simp_all add: init_fingerprint_table_def Let_def)
  then show "table_ok (init_fingerprint_table t)"
    using init_bit_vector by (auto simp: table_ok_def zero_items_def)
  show "table_map (init_fingerprint_table t) = Map.empty"
    using init_bit_vector by (auto simp: table_map_None_iff)
  show "cnt (init_fingerprint_table t) = 0" by (rule it)
qed

section \<open>Remove\<close>

text \<open>Positions relative to the slot \<open>r\<close> of the removed key. The run of full slots from \<open>r\<close> ends
  at the empty position \<open>L\<close>; the loop has examined the positions below \<open>x\<close> and the hole is at
  position \<open>y\<close>.\<close>

definition rel_pos :: "nat \<Rightarrow> nat \<Rightarrow> nat" where
  "rel_pos r x = (r + x) mod N_slots"

lemma rel_pos_less [simp]: "rel_pos r x < N_slots"
  by (simp add: rel_pos_def)

lemma rel_pos_eq_iff: "r < N_slots \<Longrightarrow> x < N_slots \<Longrightarrow> y < N_slots \<Longrightarrow> rel_pos r x = rel_pos r y \<longleftrightarrow> x = y"
  unfolding rel_pos_def using mod_add_inj by blast

lemma rel_pos_Suc: "(rel_pos r x + 1) mod N_slots = rel_pos r (Suc x)"
  by (simp add: rel_pos_def mod_simps)

lemma rel_pos_add: "y \<le> x \<Longrightarrow> rel_pos r x = (rel_pos r y + (x - y)) mod N_slots"
  by (simp only: rel_pos_def mod_add_left_eq add.assoc le_add_diff_inverse)

lemma cdist_rel_pos:
  assumes "r < N_slots" "y \<le> x" "x < N_slots"
  shows "cdist N_slots (rel_pos r y) (rel_pos r x) = x - y"
proof -
  have "rel_pos r x = (rel_pos r y + (x - y)) mod N_slots"
    by (rule rel_pos_add [OF assms(2)])
  then show ?thesis using assms cdist_add_mod [of "rel_pos r y" N_slots "x - y"] by simp
qed

lemma move_condition:
  assumes "h < N_slots" "e < N_slots" "c < N_slots" "e \<noteq> c"
  shows "((e < c \<and> (h \<le> e \<or> c < h)) \<or> (c < e \<and> (h \<le> e \<and> c < h))) \<longleftrightarrow>
         cdist N_slots e c \<le> cdist N_slots h c"
  using assms by (auto simp: cdist_def)

lemma cdist_via:
  assumes "h < N_slots" "e < N_slots" "c < N_slots" "cdist N_slots e c \<le> cdist N_slots h c"
  shows "cdist N_slots h c = cdist N_slots h e + cdist N_slots e c"
  using assms by (auto simp: cdist_def split: if_splits)

lemma cdist_on_path:
  assumes "h < N_slots" "j < N_slots" "d < cdist N_slots h j"
  shows "cdist N_slots ((h + d) mod N_slots) j = cdist N_slots h j - d"
proof -
  have "cdist N_slots h j < N_slots" using assms by (simp add: cdist_less)
  then have d: "d < N_slots" using assms by simp
  have "cdist N_slots h ((h + d) mod N_slots) = d" using assms d by (simp add: cdist_add_mod)
  then have "cdist N_slots h j = d + cdist N_slots ((h + d) mod N_slots) j"
    using cdist_split [of h N_slots "(h + d) mod N_slots" j] assms by simp
  then show ?thesis by simp
qed

text \<open>A probe chain that passes a position of the run ends inside the run, behind that position.\<close>

lemma chain_in_run:
  assumes chain: "\<forall>d < cdist N_slots h j. full ((h + d) mod N_slots)" and j: "full j" "j < N_slots"
    and h: "h < N_slots" and r: "r < N_slots"
    and L: "L < N_slots" "\<not> full (rel_pos r L)" and x: "x < L"
    and pass: "d < cdist N_slots h j" "(h + d) mod N_slots = rel_pos r x"
  obtains z where "x < z" "z < L" "j = rel_pos r z"
proof -
  let ?c = "rel_pos r x"
  have jc: "cdist N_slots ?c j = cdist N_slots h j - d"
    using cdist_on_path [OF h j(2) pass(1)] pass(2) by simp
  have jpos: "j = rel_pos r (x + cdist N_slots ?c j)"
    using add_cdist_mod [of ?c N_slots j] j by (simp add: rel_pos_def mod_simps add.assoc)
  have "cdist N_slots ?c j < L - x"
  proof (rule ccontr)
    assume neg: "\<not> cdist N_slots ?c j < L - x"
    have "rel_pos r L = (h + (d + (L - x))) mod N_slots"
    proof -
      have "rel_pos r L = (rel_pos r x + (L - x)) mod N_slots"
        using x by (intro rel_pos_add) simp
      also have "\<dots> = (h + (d + (L - x))) mod N_slots"
        unfolding pass(2) [symmetric] by (simp add: mod_simps add.assoc)
      finally show ?thesis .
    qed
    moreover have "full ((h + (d + (L - x))) mod N_slots)"
    proof (cases "d + (L - x) < cdist N_slots h j")
      case False
      then have "d + (L - x) = cdist N_slots h j" using neg jc pass(1) by linarith
      then show ?thesis using add_cdist_mod [OF h j(2)] j(1) by simp
    qed (use chain in blast)
    ultimately show False using L(2) by simp
  qed
  then show thesis
    using that [of "x + cdist N_slots ?c j"] jpos jc pass(1) by simp
qed

definition remove_inv ::
  "Fingerprint_Table \<Rightarrow> nat \<Rightarrow> nat \<Rightarrow> (nat \<Rightarrow> u8 list \<times> Fingerprint_Entry) \<Rightarrow> nat \<Rightarrow> nat \<Rightarrow> bool" where
  "remove_inv t r L its y x \<longleftrightarrow>
     y < x \<and> x \<le> L \<and>
     (\<forall>z. x \<le> z \<and> z < L \<longrightarrow> its (rel_pos r z) = items t (rel_pos r z)) \<and>
     (\<forall>j<N_slots. \<not> slot_full t j \<longrightarrow> its j = items t j) \<and>
     its ` {j. j < N_slots \<and> slot_full t j \<and> j \<noteq> rel_pos r y} =
       items t ` {j. j < N_slots \<and> slot_full t j \<and> j \<noteq> r} \<and>
     inj_on (\<lambda>j. fst (its j)) {j. j < N_slots \<and> slot_full t j \<and> j \<noteq> rel_pos r y} \<and>
     (\<forall>j<N_slots. slot_full t j \<and> j \<noteq> rel_pos r y \<and> (\<forall>z. x \<le> z \<and> z < L \<longrightarrow> j \<noteq> rel_pos r z) \<longrightarrow>
        probe_ok (\<lambda>i. slot_full t i \<and> i \<noteq> rel_pos r y) its j)"

text \<open>The run of the removed slot \<open>r\<close>: full up to the empty position \<open>L\<close>.\<close>

definition run_of :: "Fingerprint_Table \<Rightarrow> nat \<Rightarrow> nat \<Rightarrow> bool" where
  "run_of t r L \<longleftrightarrow> r < N_slots \<and> 0 < L \<and> L < N_slots \<and> \<not> slot_full t (rel_pos r L) \<and>
     (\<forall>z<L. slot_full t (rel_pos r z))"

lemma remove_inv_start:
  assumes ok: "table_ok t" and run: "run_of t r L"
  shows "remove_inv t r L (items t) 0 1"
proof -
  have r0: "rel_pos r 0 = r" using run by (simp add: run_of_def rel_pos_def)
  have "probe_ok (\<lambda>i. slot_full t i \<and> i \<noteq> r) (items t) j"
    if j: "j < N_slots" "slot_full t j" "\<forall>z. 1 \<le> z \<and> z < L \<longrightarrow> j \<noteq> rel_pos r z" for j
  proof -
    have chain: "\<forall>d < cdist N_slots (hash_ind (fst (items t j))) j.
        slot_full t ((hash_ind (fst (items t j)) + d) mod N_slots)"
      using table_okD(5) [OF ok j(1,2)] by (simp add: probe_ok_def)
    have "(hash_ind (fst (items t j)) + d) mod N_slots \<noteq> r"
      if d: "d < cdist N_slots (hash_ind (fst (items t j))) j" for d
    proof
      assume "(hash_ind (fst (items t j)) + d) mod N_slots = r"
      then show False
        using chain_in_run [of "hash_ind (fst (items t j))" j "slot_full t" r L 0 d] chain j d run r0
        by (auto simp: run_of_def)
    qed
    then show ?thesis using chain by (simp add: probe_ok_def)
  qed
  moreover have "inj_on (\<lambda>j. fst (items t j)) {j. j < N_slots \<and> slot_full t j \<and> j \<noteq> r}"
    using table_okD(6) [OF ok] by (auto intro!: inj_onI)
  ultimately show ?thesis
    using run by (auto simp: remove_inv_def r0 run_of_def)
qed

lemma remove_inv_keep:
  assumes ok: "table_ok t" and run: "run_of t r L" and inv: "remove_inv t r L its y x" and x: "x < L"
    and keep: "cdist N_slots (hash_ind (fst (its (rel_pos r x)))) (rel_pos r x) < x - y"
  shows "remove_inv t r L its y (Suc x)"
proof -
  let ?c = "rel_pos r x" and ?e = "rel_pos r y" and ?h = "hash_ind (fst (its (rel_pos r x)))"
  have xy: "y < x" "r < N_slots" "x < N_slots" and same: "its ?c = items t ?c"
    using inv run x by (auto simp: remove_inv_def run_of_def)
  have "slot_full t ?c" using run x by (simp add: run_of_def)
  then have chain: "\<forall>d < cdist N_slots ?h ?c. slot_full t ((?h + d) mod N_slots)"
    using table_okD(5) [OF ok, of ?c] same by (simp add: probe_ok_def)
  have "(?h + d) mod N_slots \<noteq> ?e" if "d < cdist N_slots ?h ?c" for d
  proof
    assume "(?h + d) mod N_slots = ?e"
    then have "cdist N_slots ?e ?c = cdist N_slots ?h ?c - d"
      using cdist_on_path [of ?h ?c d] that by simp
    moreover have "cdist N_slots ?e ?c = x - y" using xy by (simp add: cdist_rel_pos)
    ultimately show False using keep by simp
  qed
  then have "probe_ok (\<lambda>i. slot_full t i \<and> i \<noteq> ?e) its ?c"
    using chain by (simp add: probe_ok_def)
  then have "probe_ok (\<lambda>i. slot_full t i \<and> i \<noteq> ?e) its j"
    if "j < N_slots" "slot_full t j" "j \<noteq> ?e" "\<forall>z. Suc x \<le> z \<and> z < L \<longrightarrow> j \<noteq> rel_pos r z" for j
    using that inv x unfolding remove_inv_def by (metis Suc_leI le_neq_implies_less)
  then show ?thesis using inv x by (auto simp: remove_inv_def)
qed

lemma image_move:
  assumes "c \<in> S" "e \<in> S" "c \<noteq> e"
  shows "(f(e := f c)) ` (S - {c}) = f ` (S - {e})"
  using assms by (auto simp: image_iff)

lemma inj_on_move:
  assumes "inj_on (\<lambda>j. g (f j)) (S - {e})" "c \<in> S" "c \<noteq> e"
  shows "inj_on (\<lambda>j. g ((f(e := f c)) j)) (S - {c})"
  using assms by (auto simp: inj_on_def split: if_splits)

lemma remove_inv_move:
  assumes ok: "table_ok t" and run: "run_of t r L" and inv: "remove_inv t r L its y x" and x: "x < L"
    and move: "x - y \<le> cdist N_slots (hash_ind (fst (its (rel_pos r x)))) (rel_pos r x)"
  shows "remove_inv t r L (its(rel_pos r y := its (rel_pos r x))) x (Suc x)"
proof -
  let ?c = "rel_pos r x" and ?e = "rel_pos r y" and ?h = "hash_ind (fst (its (rel_pos r x)))"
  let ?its = "its(?e := its ?c)"
  let ?S = "{j. j < N_slots \<and> slot_full t j}"
  have xy: "y < x" "r < N_slots" "x < N_slots" "y < N_slots" and same: "its ?c = items t ?c"
    using inv run x by (auto simp: remove_inv_def run_of_def)
  have ce: "?c \<in> ?S" "?e \<in> ?S" "?c \<noteq> ?e"
    using run x xy by (auto simp: run_of_def rel_pos_eq_iff)
  have ec: "cdist N_slots ?e ?c = x - y" using xy by (simp add: cdist_rel_pos)
  have chain: "\<forall>d < cdist N_slots ?h ?c. slot_full t ((?h + d) mod N_slots)"
    using table_okD(5) [OF ok, of ?c] same ce by (simp add: probe_ok_def)
  have probe: "probe_ok (\<lambda>i. slot_full t i \<and> i \<noteq> ?c) ?its j"
    if j: "j < N_slots" "slot_full t j" "j \<noteq> ?c" "\<forall>z. Suc x \<le> z \<and> z < L \<longrightarrow> j \<noteq> rel_pos r z" for j
  proof (cases "j = ?e")
    case True
    have "cdist N_slots ?h ?c = cdist N_slots ?h ?e + (x - y)"
      using cdist_via [of ?h ?e ?c] move ec by simp
    moreover have "(?h + d) mod N_slots \<noteq> ?c" if "d < cdist N_slots ?h ?c" for d
      using cdist_on_path [of ?h ?c d] that by auto
    ultimately show ?thesis using True chain by (simp add: probe_ok_def)
  next
    case False
    have jx: "\<forall>z. x \<le> z \<and> z < L \<longrightarrow> j \<noteq> rel_pos r z"
      using j by (metis Suc_leI le_neq_implies_less)
    then have old: "probe_ok (\<lambda>i. slot_full t i \<and> i \<noteq> ?e) its j"
      using inv j False by (simp add: remove_inv_def)
    have "(hash_ind (fst (its j)) + d) mod N_slots \<noteq> ?c"
      if d: "d < cdist N_slots (hash_ind (fst (its j))) j" for d
    proof
      assume "(hash_ind (fst (its j)) + d) mod N_slots = ?c"
      then obtain z where "x < z" "z < L" "j = rel_pos r z"
        using chain_in_run [of "hash_ind (fst (its j))" j "slot_full t" r L x d] old j d run x
        by (auto simp: run_of_def probe_ok_def)
      then show False using j(4) by auto
    qed
    then show ?thesis using old False by (simp add: probe_ok_def)
  qed
  have img: "?its ` (?S - {?c}) = items t ` {j. j < N_slots \<and> slot_full t j \<and> j \<noteq> r}"
    unfolding image_move [OF ce] using inv by (simp add: remove_inv_def Collect_conj_eq set_diff_eq conj_assoc)
  have inj: "inj_on (\<lambda>j. fst (?its j)) (?S - {?c})"
    using inv by (intro inj_on_move ce) (simp add: remove_inv_def set_diff_eq conj_assoc)
  have tail: "?its (rel_pos r z) = items t (rel_pos r z)" if "Suc x \<le> z" "z < L" for z
    using that inv xy run by (auto simp: remove_inv_def rel_pos_eq_iff run_of_def)
  have out: "?its j = items t j" if "j < N_slots" "\<not> slot_full t j" for j
    using that inv ce by (auto simp: remove_inv_def)
  have S: "?S - {?c} = {j. j < N_slots \<and> slot_full t j \<and> j \<noteq> ?c}" by auto
  show ?thesis
    unfolding remove_inv_def
  proof (intro conjI)
    show "Suc x \<le> L" using x by simp
  qed (use img inj tail out probe in \<open>unfold S; blast\<close>)+
qed

lemma remove_loop_inv:
  assumes ok: "table_ok t" and run: "run_of t r L"
  shows "remove_inv t r L its y x \<Longrightarrow> x + n = L \<Longrightarrow>
    \<exists>its' y'. remove_loop N_slots its (rel_pos r y) (rel_pos r x) n = (its', rel_pos r y') \<and>
      remove_inv t r L its' y' L"
proof (induction n arbitrary: its y x)
  case 0
  then show ?case by (auto intro!: exI [of _ its] exI [of _ y])
next
  case (Suc n)
  let ?c = "rel_pos r x" and ?e = "rel_pos r y"
  let ?h = "hash_ind (fst (its ?c))"
  have x: "x < L" using Suc.prems by simp
  have xy: "y < x" "r < N_slots" "x < N_slots" "y < N_slots"
    using Suc.prems run x by (auto simp: remove_inv_def run_of_def)
  then have ce: "?e \<noteq> ?c" by (simp add: rel_pos_eq_iff)
  have ec: "cdist N_slots ?e ?c = x - y" using xy by (simp add: cdist_rel_pos)
  have cond: "((?e < ?c \<and> (?h \<le> ?e \<or> ?c < ?h)) \<or> (?c < ?e \<and> (?h \<le> ?e \<and> ?c < ?h))) \<longleftrightarrow>
      x - y \<le> cdist N_slots ?h ?c"
    using move_condition [of ?h ?e ?c] ce ec by simp
  show ?case
  proof (cases "x - y \<le> cdist N_slots ?h ?c")
    case True
    have eq: "remove_loop N_slots its ?e ?c (Suc n) =
        remove_loop N_slots (its(?e := its ?c)) ?c (rel_pos r (Suc x)) n"
      using True by (simp only: remove_loop.simps Let_def cond rel_pos_Suc if_True)
    show ?thesis unfolding eq
      by (rule Suc.IH [OF remove_inv_move [OF ok run Suc.prems(1) x True]]) (use Suc.prems(2) in simp)
  next
    case False
    have eq: "remove_loop N_slots its ?e ?c (Suc n) = remove_loop N_slots its ?e (rel_pos r (Suc x)) n"
      using False by (simp only: remove_loop.simps Let_def cond rel_pos_Suc if_False)
    show ?thesis unfolding eq
      by (rule Suc.IH [OF remove_inv_keep [OF ok run Suc.prems(1) x]]) (use False Suc.prems(2) in simp_all)
  qed
qed

lemma remove_items_to_check_eq:
  assumes "table_size t = N_slots" "r < N_slots" "L < N_slots" "0 < L"
    "get_next_ind_fingerprint_table (is_empty_bit_vector t) N_slots r = rel_pos r L"
  shows "remove_items_to_check t r = L - 1"
  using assms by (auto simp: remove_items_to_check_def Let_def rel_pos_def mod_if)

lemma remove_absent:
  assumes "table_ok t" "cnt t < N_slots" "k \<noteq> zero_key" "table_map t k = None"
  shows "remvove_fingerprint_table t k r = (- 1, t, r)"
  using find_spec [OF assms(1-3), of r] assms(4) by (simp add: remvove_fingerprint_table_def)

text \<open>Every key but that of slot \<open>r\<close> is found in \<open>its\<close>, in which the slot \<open>g\<close> is free.\<close>

definition closed_up ::
  "Fingerprint_Table \<Rightarrow> nat \<Rightarrow> (nat \<Rightarrow> u8 list \<times> Fingerprint_Entry) \<Rightarrow> nat \<Rightarrow> bool" where
  "closed_up t r its g \<longleftrightarrow>
     (let S = {j. j < N_slots \<and> slot_full t j}
      in g \<in> S \<and> (\<forall>j<N_slots. \<not> slot_full t j \<longrightarrow> its j = items t j) \<and>
         its ` (S - {g}) = items t ` (S - {r}) \<and> inj_on (\<lambda>j. fst (its j)) (S - {g}) \<and>
         (\<forall>j\<in>S - {g}. probe_ok (\<lambda>i. slot_full t i \<and> i \<noteq> g) its j))"

lemma closed_upD:
  assumes "closed_up t r its g"
  shows "g < N_slots" "slot_full t g" "\<And>j. j < N_slots \<Longrightarrow> \<not> slot_full t j \<Longrightarrow> its j = items t j"
    "its ` ({j. j < N_slots \<and> slot_full t j} - {g}) = items t ` ({j. j < N_slots \<and> slot_full t j} - {r})"
    "inj_on (\<lambda>j. fst (its j)) ({j. j < N_slots \<and> slot_full t j} - {g})"
    "\<And>j. j < N_slots \<Longrightarrow> slot_full t j \<Longrightarrow> j \<noteq> g \<Longrightarrow> probe_ok (\<lambda>i. slot_full t i \<and> i \<noteq> g) its j"
  using assms by (simp_all add: closed_up_def Let_def)

text \<open>The table with the items \<open>its\<close> and the slot \<open>g\<close> cleared.\<close>

definition table_clear ::
  "Fingerprint_Table \<Rightarrow> (nat \<Rightarrow> u8 list \<times> Fingerprint_Entry) \<Rightarrow> nat \<Rightarrow> Fingerprint_Table" where
  "table_clear t its g =
     t\<lparr>items := its(g := (zero_key, zero_entry)), cnt := cnt t - 1,
       is_empty_bit_vector := (is_empty_bit_vector t)(g div 64 :=
         is_empty_bit_vector t (g div 64) OR push_bit (g mod 64) 1)\<rparr>"

lemma table_clear_fields [simp]:
  "items (table_clear t its g) = its(g := (zero_key, zero_entry))" "table_size (table_clear t its g) = table_size t"
  "cnt (table_clear t its g) = cnt t - 1"
  by (simp_all add: table_clear_def)

lemma table_clear_full [simp]: "slot_full (table_clear t its g) j \<longleftrightarrow> slot_full t j \<and> j \<noteq> g"
  using slot_empty_set [of "is_empty_bit_vector t" g j] by (auto simp: slot_full_def table_clear_def)

lemma table_clear_ok:
  assumes ok: "table_ok t" and cl: "closed_up t r its g"
  shows "table_ok (table_clear t its g)"
  unfolding table_ok_def
proof (intro conjI allI impI)
  note okD = table_okD [OF ok] and C = closed_upD [OF cl]
  let ?t = "table_clear t its g" and ?S = "{j. j < N_slots \<and> slot_full t j}"
  have S: "{j. j < N_slots \<and> slot_full ?t j} = ?S - {g}" by auto
  show "table_size ?t = N_slots" using okD(1) by simp
  show "cnt ?t = card {j. j < N_slots \<and> slot_full ?t j}"
    using okD(2) C(1,2) unfolding S by (simp add: card_Diff_singleton)
  show "fst (items ?t j) = zero_key" if "j < N_slots" "\<not> slot_full ?t j" for j
    using that okD(3) [of j] C(3) [of j] by (cases "j = g") simp_all
  fix j assume j: "j < N_slots" "slot_full ?t j"
  have "its j \<in> its ` (?S - {g})" using j by simp
  then obtain l where "l < N_slots" "slot_full t l" "its j = items t l" unfolding C(4) by auto
  then show "fst (items ?t j) \<noteq> zero_key" using okD(4) [of l] j by simp
  have "slot_full ?t = (\<lambda>i. slot_full t i \<and> i \<noteq> g)" by auto
  then show "probe_ok (slot_full ?t) (items ?t) j" using C(6) [of j] j by (simp add: probe_ok_def)
next
  let ?t = "table_clear t its g"
  show "i = j" if "i < N_slots" "j < N_slots"
    "slot_full ?t i \<and> slot_full ?t j \<and> fst (items ?t i) = fst (items ?t j)" for i j
    using that closed_upD(5) [OF cl] by (auto simp: inj_on_def)
qed

lemma table_clear_map:
  assumes ok: "table_ok t" and cl: "closed_up t r its g"
    and r: "r < N_slots" "slot_full t r" "fst (items t r) = k"
  shows "table_map (table_clear t its g) = (table_map t)(k := None)"
proof -
  let ?t = "table_clear t its g" and ?S = "{j. j < N_slots \<and> slot_full t j}"
  have S: "{j. j < N_slots \<and> slot_full ?t j} = ?S - {g}" by auto
  have moved: "(k', e') \<in> items t ` (?S - {r}) \<longleftrightarrow> table_maps t k' e' \<and> k' \<noteq> k" for k' e'
  proof
    assume "(k', e') \<in> items t ` (?S - {r})"
    then obtain j where "j \<in> ?S - {r}" "(k', e') = items t j" by (rule imageE)
    then have j: "j < N_slots" "slot_full t j" "j \<noteq> r" "items t j = (k', e')" by simp_all
    then have "k' \<noteq> k" using table_okD(6) [OF ok, of j r] r by auto
    then show "table_maps t k' e' \<and> k' \<noteq> k" using j by (auto simp: table_maps_def)
  next
    assume "table_maps t k' e' \<and> k' \<noteq> k"
    then obtain j where j: "j < N_slots" "slot_full t j" "items t j = (k', e')" "k' \<noteq> k"
      by (auto simp: table_maps_def)
    then have "j \<in> ?S - {r}" using r by auto
    then show "(k', e') \<in> items t ` (?S - {r})" using j(3) by (metis image_eqI)
  qed
  have "table_maps ?t k' e' \<longleftrightarrow> ((table_map t)(k := None)) k' = Some e'" for k' e'
  proof -
    have "table_maps ?t k' e' \<longleftrightarrow> (k', e') \<in> items ?t ` (?S - {g})"
      unfolding table_maps_def S [symmetric] by (simp add: image_iff) (metis prod.collapse)
    also have "items ?t ` (?S - {g}) = its ` (?S - {g})" by (intro image_cong refl) auto
    finally show ?thesis
      using moved unfolding closed_upD(4) [OF cl] by (simp add: table_map_Some_iff [OF ok])
  qed
  then show ?thesis using table_map_eqI [OF table_clear_ok [OF ok cl]] by blast
qed

lemma remove_closes_up:
  assumes ok: "table_ok t" and free: "cnt t < N_slots"
    and r: "r < N_slots" "find_fingerprint_table t k r0 = (r, e)" "slot_full t r"
  obtains its g where "remvove_fingerprint_table t k r0 = (0, table_clear t its g, e)" "closed_up t r its g"
proof -
  note okD = table_okD [OF ok]
  obtain L where L: "L < N_slots"
    "get_next_ind_fingerprint_table (is_empty_bit_vector t) N_slots r = rel_pos r L"
    "\<not> slot_full t (rel_pos r L)" "\<forall>d<L. slot_full t (rel_pos r d)"
    using next_empty [OF ok free r(1)] unfolding rel_pos_def by blast
  have r0: "rel_pos r 0 = r" using r(1) by (simp add: rel_pos_def)
  with L(3) r(3) have L0: "0 < L" by (cases L) auto
  have run: "run_of t r L" using r L L0 by (simp add: run_of_def)
  obtain its y where loop: "remove_loop N_slots (items t) r (rel_pos r 1) (L - 1) = (its, rel_pos r y)"
    and inv: "remove_inv t r L its y L"
    using remove_loop_inv [OF ok run remove_inv_start [OF ok run], of "L - 1"] L0 r0 by auto
  let ?g = "rel_pos r y"
  have S: "{j. j < N_slots \<and> slot_full t j \<and> j \<noteq> ?g} = {j. j < N_slots \<and> slot_full t j} - {?g}"
    "{j. j < N_slots \<and> slot_full t j \<and> j \<noteq> r} = {j. j < N_slots \<and> slot_full t j} - {r}" by auto
  have cl: "closed_up t r its ?g"
    using inv run unfolding remove_inv_def S closed_up_def Let_def by (auto simp: run_of_def)
  have "remvove_fingerprint_table t k r0 = (0, table_clear t its ?g, e)"
    using r loop okD(1) remove_items_to_check_eq [OF okD(1) r(1) L(1) L0 L(2)] rel_pos_Suc [of r 0] r0
    by (simp add: remvove_fingerprint_table_def table_clear_def Let_def)
  then show thesis using that cl by blast
qed

lemma remove_spec:
  assumes ok: "table_ok t" and free: "cnt t < N_slots" and nz: "k \<noteq> zero_key"
    and here: "table_map t k = Some e"
  obtains t' where "remvove_fingerprint_table t k r0 = (0, t', e)" "table_ok t'"
    "table_map t' = (table_map t)(k := None)" "cnt t' + 1 = cnt t"
proof -
  obtain r where r: "r < N_slots" "find_fingerprint_table t k r0 = (r, e)" "slot_full t r" "items t r = (k, e)"
    using find_spec [OF ok free nz, of r0] here by auto
  obtain its g where run: "remvove_fingerprint_table t k r0 = (0, table_clear t its g, e)" and cl: "closed_up t r its g"
    by (rule remove_closes_up [OF ok free r(1-3)])
  have "0 < cnt t" using table_okD(2) [OF ok] r(1,3) by (simp add: card_gt_0_iff) blast
  then show thesis
    using that [OF run table_clear_ok [OF ok cl] table_clear_map [OF ok cl r(1,3)]] r(4) by simp
qed

section \<open>The table as a key store\<close>

definition table_lookup :: "Fingerprint_Table \<Rightarrow> u8 list \<Rightarrow> Fingerprint_Entry option" where
  "table_lookup t k =
     (let (i, e) = find_fingerprint_table t k zero_entry
      in if i = FINGERPRINT_TABLE_SIZE then None else Some e)"

definition table_insert :: "Fingerprint_Table \<Rightarrow> u8 list \<Rightarrow> Fingerprint_Entry \<Rightarrow> Fingerprint_Table" where
  "table_insert t k e = snd (insert_fingerprint_table t k e)"

lemma table_lookup_eq:
  assumes "table_ok t" "cnt t < N_slots" "k \<noteq> zero_key"
  shows "table_lookup t k = table_map t k"
  using find_spec [OF assms, of zero_entry] by (auto simp: table_lookup_def split: option.splits)

interpretation tab: key_store table_ok cnt N_slots "\<lambda>k. k \<noteq> zero_key" table_map table_lookup table_insert
proof
  fix t k e
  assume t: "table_ok t" "cnt t < N_slots" "k \<noteq> zero_key"
  show "table_lookup t k = table_map t k" by (rule table_lookup_eq [OF t])
  assume "table_map t k = None"
  then obtain t' where "insert_fingerprint_table t k e = (0, t')" "table_ok t'"
    "table_map t' = (table_map t)(k \<mapsto> e)" "cnt t' = cnt t + 1"
    using insert_spec [OF t] by blast
  then show "table_ok (table_insert t k e)" "table_map (table_insert t k e) = (table_map t)(k \<mapsto> e)"
    "cnt (table_insert t k e) = cnt t + 1"
    by (simp_all add: table_insert_def)
qed

section \<open>Example tables\<close>

definition empty_table :: Fingerprint_Table where
  "empty_table = init_fingerprint_table
     \<lparr>cnt = 0, table_size = 0, is_empty_bit_vector = (\<lambda>_. 0), items = zero_items\<rparr>"

lemma empty_table_ok: "table_ok empty_table" "table_map empty_table = Map.empty" "cnt empty_table = 0"
  unfolding empty_table_def by (rule init_table_spec; simp)+

lemma le_bytes_key_nonzero: "0 < n \<Longrightarrow> n < 256 ^ 32 \<Longrightarrow> le_bytes FINGERPRINT_NUM_BYTES n \<noteq> zero_key"
proof
  assume n: "0 < n" "n < 256 ^ 32" and eq: "le_bytes FINGERPRINT_NUM_BYTES n = zero_key"
  have "le_value (replicate m 0) = 0" for m by (induction m) auto
  then have "le_value (le_bytes FINGERPRINT_NUM_BYTES n) = 0" by (simp add: eq zero_key_def)
  moreover have "le_value (le_bytes FINGERPRINT_NUM_BYTES n) = n"
    using n by (simp add: FINGERPRINT_NUM_BYTES_def)
  ultimately show False using n by simp
qed

text \<open>A table with a key in every slot: key \<open>i + 1\<close> in slot \<open>i\<close>.\<close>

definition full_table :: Fingerprint_Table where
  "full_table = \<lparr>cnt = N_slots, table_size = N_slots, is_empty_bit_vector = (\<lambda>_. 0),
     items = (\<lambda>i. (le_bytes FINGERPRINT_NUM_BYTES (i + 1), zero_entry))\<rparr>"

lemma le_bytes_key_inj:
  "m < 256 ^ 32 \<Longrightarrow> n < 256 ^ 32 \<Longrightarrow>
   le_bytes FINGERPRINT_NUM_BYTES m = le_bytes FINGERPRINT_NUM_BYTES n \<Longrightarrow> m = n"
  by (metis FINGERPRINT_NUM_BYTES_def le_value_le_bytes_id)

lemma slot_index_bound: "i < N_slots \<Longrightarrow> i + 1 < 256 ^ 32"
  by (simp add: FINGERPRINT_TABLE_SIZE_def)

lemma full_table_ok: "table_ok full_table"
  unfolding table_ok_def
proof (intro conjI allI impI)
  have full: "slot_full full_table i" for i by (simp add: slot_full_def slot_empty_def full_table_def)
  then have "{i. i < N_slots \<and> slot_full full_table i} = {..<N_slots}" by auto
  then show "cnt full_table = card {i. i < N_slots \<and> slot_full full_table i}"
    by (simp add: full_table_def)
  fix i assume i: "i < N_slots"
  show "\<not> slot_full full_table i \<Longrightarrow> fst (items full_table i) = zero_key" using full by simp
  show "fst (items full_table i) \<noteq> zero_key"
    using le_bytes_key_nonzero [of "i + 1"] slot_index_bound [OF i] by (simp add: full_table_def)
  show "probe_ok (slot_full full_table) (items full_table) i" by (simp add: probe_ok_def full)
  fix j assume j: "j < N_slots"
    "slot_full full_table i \<and> slot_full full_table j \<and> fst (items full_table i) = fst (items full_table j)"
  then show "i = j"
    using le_bytes_key_inj [OF slot_index_bound [OF i] slot_index_bound [OF j(1)]]
    by (simp add: full_table_def)
qed (simp add: full_table_def)

section \<open>Properties\<close>

text \<open>The search for a free slot: from a start index inside the table it returns the cyclically
  nearest empty slot, and the table size exactly when every slot is full.\<close>

theorem get_next_ind_nearest_empty:
  assumes "start < FINGERPRINT_TABLE_SIZE"
  shows "(\<exists>d<FINGERPRINT_TABLE_SIZE.
            get_next_ind_fingerprint_table vec FINGERPRINT_TABLE_SIZE start =
              (start + d) mod FINGERPRINT_TABLE_SIZE \<and>
            slot_empty vec ((start + d) mod FINGERPRINT_TABLE_SIZE) \<and>
            (\<forall>d'<d. \<not> slot_empty vec ((start + d') mod FINGERPRINT_TABLE_SIZE))) \<or>
         ((\<forall>i<FINGERPRINT_TABLE_SIZE. \<not> slot_empty vec i) \<and>
            get_next_ind_fingerprint_table vec FINGERPRINT_TABLE_SIZE start = FINGERPRINT_TABLE_SIZE)"
  by (rule get_next_ind_spec [OF assms])

theorem get_next_ind_nearest_empty_witness:
  "get_next_ind_fingerprint_table (\<lambda>_. 0) FINGERPRINT_TABLE_SIZE 5 = FINGERPRINT_TABLE_SIZE"
proof -
  have "(5 :: nat) < FINGERPRINT_TABLE_SIZE" by (simp add: FINGERPRINT_TABLE_SIZE_def)
  then show ?thesis
    using get_next_ind_nearest_empty [of 5 "\<lambda>_. 0"] by (simp add: slot_empty_def)
qed

text \<open>C11. Find implements lookup: in a well-formed table that is not full it returns the entry the
  table maps the key to, or the not-found index with the caller's buffer untouched, for every key
  but the all-zero one the code excludes.\<close>

theorem find_implements_lookup:
  assumes "table_ok t" "cnt t < FINGERPRINT_TABLE_SIZE" "k \<noteq> zero_key"
  shows "case table_map t k of
      None \<Rightarrow> find_fingerprint_table t k r = (FINGERPRINT_TABLE_SIZE, r)
    | Some e \<Rightarrow> \<exists>i<FINGERPRINT_TABLE_SIZE. find_fingerprint_table t k r = (i, e)"
  using find_spec [OF assms, of r] by (auto split: option.splits)

theorem find_implements_lookup_witness:
  "find_fingerprint_table empty_table (le_bytes FINGERPRINT_NUM_BYTES 7) zero_entry = (FINGERPRINT_TABLE_SIZE, zero_entry)"
  using find_implements_lookup [OF empty_table_ok(1) _ le_bytes_key_nonzero, of 7 zero_entry]
  by (simp add: empty_table_ok)

text \<open>C12. Insert implements update: inserting an absent key into a well-formed table that is not
  full succeeds, keeps the table well formed, adds exactly that binding and counts it.\<close>

theorem insert_implements_update:
  assumes "table_ok t" "cnt t < FINGERPRINT_TABLE_SIZE" "k \<noteq> zero_key" "table_map t k = None"
  shows "\<exists>t'. insert_fingerprint_table t k e = (0, t') \<and> table_ok t' \<and>
           table_map t' = (table_map t)(k \<mapsto> e) \<and> cnt t' = cnt t + 1"
  using insert_spec [OF assms] by metis

theorem insert_implements_update_witness:
  "\<exists>t'. insert_fingerprint_table empty_table (le_bytes FINGERPRINT_NUM_BYTES 7) zero_entry = (0, t') \<and>
     table_ok t' \<and> table_map t' = [le_bytes FINGERPRINT_NUM_BYTES 7 \<mapsto> zero_entry] \<and> cnt t' = 1"
  using insert_implements_update [OF empty_table_ok(1) _ le_bytes_key_nonzero, of 7 zero_entry]
  by (simp add: empty_table_ok)

text \<open>C10. Removal with back-shifting implements deletion: the removed key is gone, every other key is
  still found, the table stays well formed, and the removed entry is handed back.\<close>

theorem remove_implements_deletion:
  assumes "table_ok t" "cnt t < FINGERPRINT_TABLE_SIZE" "k \<noteq> zero_key"
  shows "case table_map t k of
      None \<Rightarrow> remvove_fingerprint_table t k r = (- 1, t, r)
    | Some e \<Rightarrow> \<exists>t'. remvove_fingerprint_table t k r = (0, t', e) \<and> table_ok t' \<and>
        table_map t' = (table_map t)(k := None) \<and> cnt t' + 1 = cnt t"
proof (cases "table_map t k")
  case None
  then show ?thesis using remove_absent [OF assms None] by simp
next
  case (Some e)
  then obtain t' where "remvove_fingerprint_table t k r = (0, t', e)" "table_ok t'"
    "table_map t' = (table_map t)(k := None)" "cnt t' + 1 = cnt t"
    using remove_spec [OF assms Some] by blast
  then show ?thesis using Some by simp
qed

theorem remove_implements_deletion_witness:
  "\<exists>t. table_map t (le_bytes FINGERPRINT_NUM_BYTES 7) = Some zero_entry \<and>
     (\<exists>t'. remvove_fingerprint_table t (le_bytes FINGERPRINT_NUM_BYTES 7) zero_entry = (0, t', zero_entry) \<and>
        table_map t' = Map.empty)"
proof -
  let ?k = "le_bytes FINGERPRINT_NUM_BYTES 7"
  have k: "?k \<noteq> zero_key" by (rule le_bytes_key_nonzero) simp_all
  obtain t where t: "table_ok t" "table_map t = [?k \<mapsto> zero_entry]" "cnt t = 1"
    using insert_spec [OF empty_table_ok(1) _ k, of zero_entry] empty_table_ok by auto
  have "cnt t < FINGERPRINT_TABLE_SIZE" using t by (simp add: FINGERPRINT_TABLE_SIZE_def)
  from remove_implements_deletion [OF t(1) this k, of zero_entry] t(2) show ?thesis
    by (intro exI [of _ t]) auto
qed

text \<open>A full table loses keys: when every slot is taken the search for an empty slot answers the
  table size, the probe then stops at the end of the array instead of wrapping around, and a key
  stored below its hash index is reported as absent.\<close>

theorem find_misses_in_full_table:
  assumes "table_ok t" "cnt t = FINGERPRINT_TABLE_SIZE" "i < hash_ind k" "fst (items t i) = k"
  shows "table_map t k \<noteq> None \<and> find_fingerprint_table t k r = (FINGERPRINT_TABLE_SIZE, r)"
proof -
  let ?h = "hash_ind k"
  have "card {j. j < N_slots \<and> slot_full t j} = card {..<N_slots}"
    using table_okD(2) [OF assms(1)] assms(2) by simp
  then have "{j. j < N_slots \<and> slot_full t j} = {..<N_slots}"
    by (intro card_subset_eq) auto
  then have full: "\<And>j. j < N_slots \<Longrightarrow> slot_full t j" by blast
  have i: "i < N_slots" using assms(3) hash_ind_less [of k] by linarith
  have "get_next_ind_fingerprint_table (is_empty_bit_vector t) N_slots ?h = N_slots"
    using get_next_ind_spec [OF hash_ind_less, of "is_empty_bit_vector t" k] full
    by (auto simp: slot_full_def)
  then have n: "find_items_to_check t ?h = N_slots - ?h"
    using hash_ind_less [of k] table_okD(1) [OF assms(1)]
    by (simp add: find_items_to_check_def Let_def less_imp_le)
  have "fst (items t ((?h + d) mod N_slots)) \<noteq> k" if "d < N_slots - ?h" for d
  proof
    assume k: "fst (items t ((?h + d) mod N_slots)) = k"
    have "(?h + d) mod N_slots = ?h + d" using that by simp
    then have "?h + d = i"
      using table_okD(6) [OF assms(1), of "?h + d" i] that full i k assms(4) by simp
    then show False using assms(3) by simp
  qed
  then have "find_loop (items t) N_slots k ?h (find_items_to_check t ?h) = None"
    using find_loop_None [OF hash_ind_less] n by metis
  then show ?thesis
    using full i assms(4) table_okD(1) [OF assms(1)]
    by (auto simp: find_fingerprint_table_def table_map_None_iff)
qed

theorem find_misses_in_full_table_witness:
  "table_map full_table (le_bytes FINGERPRINT_NUM_BYTES 1) \<noteq> None \<and>
   find_fingerprint_table full_table (le_bytes FINGERPRINT_NUM_BYTES 1) zero_entry = (FINGERPRINT_TABLE_SIZE, zero_entry)"
proof -
  have le0: "le_bytes n 0 = replicate n 0" for n by (induction n) auto
  have fold0: "fold (\<lambda>(b :: u8) result. push_bit 8 result OR (ucast b :: u64)) (replicate n 0) 0 = 0" for n
    by (induction n) auto
  have "le_bytes FINGERPRINT_NUM_BYTES 1 = 1 # replicate 31 0"
    using le_bytes.simps(2) [of 31 1] by (simp add: FINGERPRINT_NUM_BYTES_def le0)
  then have "bytes_at (FINGERPRINT_NUM_BYTES - 8) 8 (le_bytes FINGERPRINT_NUM_BYTES 1) = replicate 8 0"
    by (simp add: bytes_at_def FINGERPRINT_NUM_BYTES_def)
  then have "inline_fingerprint_to_least_sig64 (le_bytes FINGERPRINT_NUM_BYTES 1) = 0"
    by (simp only: inline_fingerprint_to_least_sig64_def fold0)
  moreover have "fingerprint_mix_64 0 = 8633297058295171728" by code_simp
  ultimately have "0 < hash_ind (le_bytes FINGERPRINT_NUM_BYTES 1)"
    by (simp add: hash_ind_def fingerprint_hash_func_64_def FINGERPRINT_TABLE_SIZE_def)
  then show ?thesis
    using find_misses_in_full_table [OF full_table_ok, of 0 "le_bytes FINGERPRINT_NUM_BYTES 1" zero_entry]
    by (simp add: full_table_def)
qed

end
