(* ===== verification/FingerprintCache.thy ===== *)
theory FingerprintCache
  imports Fingerprint FingerprintTable
begin

text \<open>
  \<^verbatim>\<open>fingerprint_cache.h\<close> and \<^verbatim>\<open>fingerprint_cache.c\<close>: the shared-memory cache of chunk
  contents. A content is stored in 4096-byte pages taken from a ring of free pages; the table maps
  its digest to the page numbers. The cache bytes are a flat memory. \<open>cache_ok\<close> is the invariant
  (the table is well formed and never full, every entry lies in allocated pages and holds a content
  with its own digest), \<open>cache_contents\<close> the map from digests to contents that the cache stands
  for. The mutex is the flag \<open>fc_cache_lock\<close>; the operations here do not touch it, as in the source
  (the locking calls in them are commented out), their callers do.
\<close>

section \<open>Data\<close>

record Fingerprint_Cache_Stats =
  total_recv_bytes :: nat
  populated_from_cache_bytes :: nat
  total_fingerprints :: nat
  total_found_fingerprints :: nat

record Fingerprint_Cache =
  fc_fingerprinting_settings :: Fingerprinting_Settings
  fc_stats :: Fingerprint_Cache_Stats
  fc_table :: Fingerprint_Table
  fc_capacity_bytes :: nat
  fc_cache :: "nat \<Rightarrow> u8"
  fc_num_free_pages :: nat
  fc_free_pages :: "nat \<Rightarrow> nat"
  fc_free_pages_read_ind :: nat
  fc_free_pages_write_ind :: nat
  fc_cache_lock :: bool

abbreviation page_size :: nat where "page_size \<equiv> FINGERPRINT_CACHE_PAGE_SIZE"
abbreviation num_pages_total :: nat where "num_pages_total \<equiv> FINGERPRINT_CACHE_NUM_PAGES"
abbreviation max_pages :: nat where "max_pages \<equiv> FINGERPRINT_CONTENT_MAX_PAGES"

section \<open>Operations\<close>

definition init_fingerprint_cache :: "Fingerprint_Cache \<Rightarrow> Fingerprint_Cache" where
  "init_fingerprint_cache c =
     c\<lparr>fc_fingerprinting_settings := fingerprint_cache_settings,
       fc_table := init_fingerprint_table (fc_table c),
       fc_capacity_bytes := FINGERPRINT_CACHE_NUM_BYTES,
       fc_num_free_pages := FINGERPRINT_CACHE_NUM_PAGES,
       fc_free_pages_read_ind := 0, fc_free_pages_write_ind := 0,
       fc_free_pages := (\<lambda>i. if i < FINGERPRINT_CACHE_NUM_PAGES then i else fc_free_pages c i),
       fc_cache_lock := False,
       fc_stats := \<lparr>total_recv_bytes = 0, populated_from_cache_bytes = 0,
                    total_fingerprints = 0, total_found_fingerprints = 0\<rparr>\<rparr>"

text \<open>The loop of \<open>get_free_cache_pages\<close>, with \<open>n\<close> pages still to take.\<close>

fun take_pages_loop :: "(nat \<Rightarrow> nat) \<Rightarrow> nat \<Rightarrow> nat \<Rightarrow> nat \<Rightarrow> nat list \<Rightarrow> nat \<times> nat list" where
  "take_pages_loop free cur_ind i 0 ret_pages = (cur_ind, ret_pages)"
| "take_pages_loop free cur_ind i (Suc n) ret_pages =
     take_pages_loop free ((cur_ind + 1) mod FINGERPRINT_CACHE_NUM_PAGES) (i + 1) n
       (ret_pages[i := free cur_ind])"

text \<open>\<open>num_pages\<close> is a C \<open>int\<close>; both comparisons convert it to \<open>uint64_t\<close>.\<close>

definition get_free_cache_pages ::
  "Fingerprint_Cache \<Rightarrow> int \<Rightarrow> nat list \<Rightarrow> int \<times> Fingerprint_Cache \<times> nat list" where
  "get_free_cache_pages c num_pages ret_pages =
     (let n = nat (num_pages mod 2 ^ 64)
      in if FINGERPRINT_CONTENT_MAX_PAGES < n \<or> fc_num_free_pages c < n then (- 1, c, ret_pages)
         else let (cur_ind, ret_pages') =
                    take_pages_loop (fc_free_pages c) (fc_free_pages_read_ind c) 0 n ret_pages
              in (0, c\<lparr>fc_num_free_pages := fc_num_free_pages c - n,
                       fc_free_pages_read_ind := cur_ind\<rparr>, ret_pages'))"

text \<open>Conversion of a \<open>uint64_t\<close> to \<open>int\<close> and the wrapping \<open>content_num_pages - 1\<close>.\<close>

definition to_int32 :: "nat \<Rightarrow> int" where
  "to_int32 n = sint (of_nat n :: u32)"

definition u64_pred :: "nat \<Rightarrow> nat" where
  "u64_pred n = (n + 2 ^ 64 - 1) mod 2 ^ 64"

definition last_page_bytes :: "nat \<Rightarrow> nat" where
  "last_page_bytes content_size =
     (if content_size mod FINGERPRINT_CACHE_PAGE_SIZE = 0 then FINGERPRINT_CACHE_PAGE_SIZE
      else content_size mod FINGERPRINT_CACHE_PAGE_SIZE)"

fun write_pages_loop ::
  "(nat \<Rightarrow> u8) \<Rightarrow> nat list \<Rightarrow> u8 list \<Rightarrow> nat \<Rightarrow> nat \<Rightarrow> (nat \<Rightarrow> u8)" where
  "write_pages_loop m pages content i 0 = m"
| "write_pages_loop m pages content i (Suc n) =
     write_pages_loop
       (mem_write (pages ! i * FINGERPRINT_CACHE_PAGE_SIZE)
          (bytes_at (i * FINGERPRINT_CACHE_PAGE_SIZE) FINGERPRINT_CACHE_PAGE_SIZE content) m)
       pages content (i + 1) n"

text \<open>\<open>content\<close> is the memory from the content pointer on.\<close>

definition insert_fingerprint_cache ::
  "Fingerprint_Cache \<Rightarrow> Fingerprint \<Rightarrow> u8 list \<Rightarrow> Fingerprint_Entry \<Rightarrow>
   int \<times> Fingerprint_Cache \<times> Fingerprint_Entry" where
  "insert_fingerprint_cache c new_fingerprint content ret_entry =
     (let sz = fp_content_size new_fingerprint;
          content_num_pages = MY_CEIL sz FINGERPRINT_CACHE_PAGE_SIZE;
          (ret, c1, pages) =
            get_free_cache_pages c (to_int32 content_num_pages) (content_page_nums ret_entry)
      in if ret \<noteq> 0 then (- 1, c1, ret_entry\<lparr>content_page_nums := pages\<rparr>)
         else let full = u64_pred content_num_pages;
                  m1 = write_pages_loop (fc_cache c1) pages content 0 full;
                  m2 = mem_write (pages ! full * FINGERPRINT_CACHE_PAGE_SIZE)
                         (bytes_at (full * FINGERPRINT_CACHE_PAGE_SIZE) (last_page_bytes sz) content) m1
              in (0, c1\<lparr>fc_cache := m2\<rparr>,
                  ret_entry\<lparr>content_page_nums := pages, entry_content_size := sz\<rparr>))"

text \<open>\<open>ret_entry\<close> is the entry the caller's pointer names, as it is before and after the call. A null
  pointer is outside the model: the source then keeps the address of a variable of an inner block and
  uses it after the block has ended (\<^verbatim>\<open>fingerprint_cache.c:111-118\<close>), which C leaves undefined; both callers pass the
  address of an entry of their own. The pages are taken and written before the digest is looked up, so
  a digest that is already there costs its pages again.\<close>

definition insert_fingerprint ::
  "Fingerprint_Cache \<Rightarrow> Fingerprint \<Rightarrow> u8 list \<Rightarrow> Fingerprint_Entry \<Rightarrow>
   int \<times> Fingerprint_Cache \<times> Fingerprint_Entry" where
  "insert_fingerprint c new_fingerprint content ret_entry =
     (let (ret, c1, entry1) = insert_fingerprint_cache c new_fingerprint content ret_entry
      in if ret \<noteq> 0 then (- 1, c1, entry1)
         else let (result, entry2) =
                    find_fingerprint_table (fc_table c1) (fp_fingerprint new_fingerprint) entry1
              in if result = FINGERPRINT_TABLE_SIZE
                 then let (ret2, t) =
                            insert_fingerprint_table (fc_table c1) (fp_fingerprint new_fingerprint) entry2
                      in if ret2 \<noteq> 0 then (- 1, c1\<lparr>fc_table := t\<rparr>, entry2)
                         else (0, c1\<lparr>fc_table := t\<rparr>, entry2)
                 else (0, c1, entry2))"

definition lookup_fingerprint ::
  "Fingerprint_Cache \<Rightarrow> u8 list \<Rightarrow> Fingerprint_Entry \<Rightarrow> bool \<times> Fingerprint_Entry" where
  "lookup_fingerprint c fp ret_entry =
     (let (ret, e) = find_fingerprint_table (fc_table c) fp ret_entry
      in (ret < FINGERPRINT_TABLE_SIZE, e))"

fun read_pages_loop ::
  "(nat \<Rightarrow> u8) \<Rightarrow> nat list \<Rightarrow> u8 list \<Rightarrow> nat \<Rightarrow> nat \<Rightarrow> nat \<Rightarrow> u8 list" where
  "read_pages_loop m pages buf dest i 0 = buf"
| "read_pages_loop m pages buf dest i (Suc n) =
     read_pages_loop m pages
       (bytes_put (dest + i * FINGERPRINT_CACHE_PAGE_SIZE)
          (mem_read m (pages ! i * FINGERPRINT_CACHE_PAGE_SIZE) FINGERPRINT_CACHE_PAGE_SIZE) buf)
       dest (i + 1) n"

text \<open>The destination is the position \<open>dest\<close> of the buffer \<open>buf\<close>.\<close>

definition copy_fingerprint_content ::
  "u8 list \<Rightarrow> nat \<Rightarrow> Fingerprint_Cache \<Rightarrow> Fingerprint_Entry \<Rightarrow> u8 list" where
  "copy_fingerprint_content buf dest c entry =
     (let sz = entry_content_size entry;
          content_num_pages = MY_CEIL sz FINGERPRINT_CACHE_PAGE_SIZE;
          full = u64_pred content_num_pages;
          buf1 = read_pages_loop (fc_cache c) (content_page_nums entry) buf dest 0 full
      in bytes_put (dest + full * FINGERPRINT_CACHE_PAGE_SIZE)
           (mem_read (fc_cache c) (content_page_nums entry ! full * FINGERPRINT_CACHE_PAGE_SIZE)
              (last_page_bytes sz)) buf1)"

section \<open>Page arithmetic\<close>

text \<open>The pages a content of a legal size needs.\<close>

definition pages_for :: "nat \<Rightarrow> nat" where
  "pages_for sz = (sz + page_size - 1) div page_size"

definition size_ok :: "nat \<Rightarrow> bool" where
  "size_ok sz \<longleftrightarrow> 0 < sz \<and> pages_for sz \<le> max_pages"

lemma pages_for_split:
  assumes "0 < sz"
  shows "sz = (pages_for sz - 1) * page_size + last_page_bytes sz" "0 < pages_for sz"
    "0 < last_page_bytes sz" "last_page_bytes sz \<le> page_size"
proof -
  let ?q = "sz div page_size" and ?r = "sz mod page_size"
  have sz: "sz = ?q * page_size + ?r" by simp
  show "sz = (pages_for sz - 1) * page_size + last_page_bytes sz"
  proof (cases "?r = 0")
    case True
    then have q: "sz = ?q * page_size" using sz by simp
    with assms have "0 < ?q" by (cases "?q") auto
    have "sz + page_size - 1 = ?q * page_size + (page_size - 1)"
      using q FINGERPRINT_CACHE_PAGE_SIZE_pos by linarith
    then have "pages_for sz = (?q * page_size + (page_size - 1)) div page_size"
      by (simp only: pages_for_def)
    also have "\<dots> = ?q" by simp
    finally have pq: "pages_for sz = ?q" .
    obtain k where k: "?q = Suc k" using \<open>0 < ?q\<close> by (cases "?q") auto
    have "sz = k * page_size + page_size" using q unfolding k by simp
    then show ?thesis using True pq k by (simp add: last_page_bytes_def)
  next
    case False
    have "pages_for sz = (?r - 1 + (?q + 1) * page_size) div page_size"
      using False sz by (simp add: pages_for_def)
    also have "\<dots> = ?q + 1"
      by (subst div_mult_self1) (use False in \<open>simp_all add: less_imp_diff_less\<close>)
    finally show ?thesis using False by (simp add: last_page_bytes_def)
  qed
  show "0 < last_page_bytes sz" "last_page_bytes sz \<le> page_size"
    by (auto simp: last_page_bytes_def less_imp_le)
  show "0 < pages_for sz"
    using assms by (simp add: pages_for_def div_greater_zero_iff)
qed

lemma size_ok_bound: "size_ok sz \<Longrightarrow> sz \<le> max_pages * page_size"
proof -
  assume ok: "size_ok sz"
  then have "sz \<le> (pages_for sz - 1) * page_size + page_size"
    using pages_for_split [of sz] by (simp add: size_ok_def)
  also have "\<dots> = pages_for sz * page_size"
    using pages_for_split(2) [of sz] ok by (simp add: size_ok_def diff_mult_distrib)
  also have "\<dots> \<le> max_pages * page_size" using ok by (simp add: size_ok_def)
  finally show ?thesis .
qed

lemma size_ok_pages:
  assumes "size_ok sz"
  shows "MY_CEIL sz page_size = pages_for sz" "to_int32 (pages_for sz) = int (pages_for sz)"
    "u64_pred (pages_for sz) = pages_for sz - 1"
    "nat (int (pages_for sz) mod 2 ^ 64) = pages_for sz"
proof -
  have sz: "sz \<le> 18 * 4096" using size_ok_bound [OF assms] by (simp add: config_defs)
  then show "MY_CEIL sz page_size = pages_for sz"
    by (simp add: MY_CEIL_def pages_for_def FINGERPRINT_CACHE_PAGE_SIZE_def)
  have n: "0 < pages_for sz" "pages_for sz \<le> 18"
    using assms pages_for_split(2) [of sz] by (auto simp: size_ok_def config_defs)
  then show "to_int32 (pages_for sz) = int (pages_for sz)"
    by (simp add: to_int32_def signed_of_nat signed_take_bit_int_eq_self)
  show "u64_pred (pages_for sz) = pages_for sz - 1"
    using n by (simp add: u64_pred_def mod_if)
  show "nat (int (pages_for sz) mod 2 ^ 64) = pages_for sz" using n by simp
qed

text \<open>Every chunk the chunking loop can cut with the settings of the cache has a legal size.\<close>

lemma chunk_size_ok:
  assumes "0 < sz" "sz < MAX_CHUNK_SIZE_BYTES + MIN_CHUNK_SIZE_BYTES"
  shows "size_ok sz"
  using assms by (auto simp: size_ok_def pages_for_def config_defs)

section \<open>Reading and writing pages\<close>

lemma page_write:
  assumes "length bs \<le> page_size"
  shows "mem_write (pg * page_size) bs m a =
    (if a div page_size = pg \<and> a mod page_size < length bs then bs ! (a mod page_size) else m a)"
proof (cases "a div page_size = pg")
  case True
  then have "a = pg * page_size + a mod page_size" by (metis div_mult_mod_eq)
  then have "a - pg * page_size = a mod page_size" "pg * page_size \<le> a"
    "a < pg * page_size + length bs \<longleftrightarrow> a mod page_size < length bs" by linarith+
  then show ?thesis using True by (simp add: mem_write_def)
next
  case False
  have "a < pg * page_size \<or> pg * page_size + page_size \<le> a"
  proof (rule ccontr)
    assume "\<not> ?thesis"
    then have "a div page_size = pg" by (intro div_nat_eqI) (auto simp: mult.commute)
    with False show False ..
  qed
  then show ?thesis using False assms by (auto simp: mem_write_def)
qed

text \<open>The memory after writing blocks \<open>i, \<dots>, i + n - 1\<close> of the content to their pages.\<close>

lemma write_pages_loop_spec:
  assumes "inj_on (\<lambda>j. pages ! j) {i..<i + n}" "(i + n) * page_size \<le> length content"
  shows "(\<forall>j a. i \<le> j \<and> j < i + n \<and> a < page_size \<longrightarrow>
            write_pages_loop m pages content i n (pages ! j * page_size + a) = content ! (j * page_size + a)) \<and>
         (\<forall>a. a div page_size \<notin> (\<lambda>j. pages ! j) ` {i..<i + n} \<longrightarrow>
            write_pages_loop m pages content i n a = m a)"
  using assms
proof (induction n arbitrary: i m)
  case 0
  then show ?case by auto
next
  case (Suc n)
  let ?b = "bytes_at (i * page_size) page_size content"
  let ?m = "mem_write (pages ! i * page_size) ?b m"
  have le: "i * page_size + page_size \<le> length content"
    using Suc.prems(2) by (simp add: algebra_simps)
  then have len: "length ?b = page_size" by simp
  have inj: "inj_on (\<lambda>j. pages ! j) {i + 1..<i + 1 + n}"
    using Suc.prems(1) by (rule inj_on_subset) auto
  have IH: "\<And>j a. i + 1 \<le> j \<Longrightarrow> j < i + 1 + n \<Longrightarrow> a < page_size \<Longrightarrow>
      write_pages_loop ?m pages content (i + 1) n (pages ! j * page_size + a) = content ! (j * page_size + a)"
    "\<And>a. a div page_size \<notin> (\<lambda>j. pages ! j) ` {i + 1..<i + 1 + n} \<Longrightarrow>
      write_pages_loop ?m pages content (i + 1) n a = ?m a"
    using Suc.IH [OF inj, of ?m] Suc.prems(2) by auto
  have i_fresh: "pages ! i \<notin> (\<lambda>j. pages ! j) ` {i + 1..<i + 1 + n}"
    using inj_onD [OF Suc.prems(1), of i] by fastforce
  have first: "write_pages_loop ?m pages content (i + 1) n (pages ! i * page_size + a) =
      content ! (i * page_size + a)" if a: "a < page_size" for a
  proof -
    have "write_pages_loop ?m pages content (i + 1) n (pages ! i * page_size + a) =
        ?m (pages ! i * page_size + a)"
      using i_fresh a by (intro IH(2)) simp
    also have "\<dots> = ?b ! a"
      unfolding page_write [OF eq_imp_le [OF len]] using a by (simp add: len del: length_bytes_at)
    also have "\<dots> = content ! (i * page_size + a)" using a le by (simp add: nth_bytes_at)
    finally show ?thesis .
  qed
  have "write_pages_loop m pages content i (Suc n) (pages ! j * page_size + a) = content ! (j * page_size + a)"
    if "i \<le> j" "j < i + Suc n" "a < page_size" for j a
    using that first IH(1) [of j a] by (cases "j = i") auto
  moreover have "write_pages_loop m pages content i (Suc n) a = m a"
    if "a div page_size \<notin> (\<lambda>j. pages ! j) ` {i..<i + Suc n}" for a
  proof -
    have "a div page_size \<notin> (\<lambda>j. pages ! j) ` {i + 1..<i + 1 + n}" "a div page_size \<noteq> pages ! i"
      using that by auto
    then show ?thesis using IH(2) [of a] page_write [of ?b "pages ! i" m a] len by simp
  qed
  ultimately show ?case by blast
qed

text \<open>The content an entry stands for.\<close>

definition entry_bytes :: "(nat \<Rightarrow> u8) \<Rightarrow> Fingerprint_Entry \<Rightarrow> u8 list" where
  "entry_bytes m e =
     map (\<lambda>p. m (content_page_nums e ! (p div page_size) * page_size + p mod page_size))
       [0..<entry_content_size e]"

lemma length_entry_bytes [simp]: "length (entry_bytes m e) = entry_content_size e"
  by (simp add: entry_bytes_def)

lemma entry_bytes_cong:
  assumes "\<And>p. p < entry_content_size e \<Longrightarrow>
    m (content_page_nums e ! (p div page_size) * page_size + p mod page_size) =
    m' (content_page_nums e ! (p div page_size) * page_size + p mod page_size)"
  shows "entry_bytes m e = entry_bytes m' e"
  using assms by (simp add: entry_bytes_def)

lemma block_index_less:
  assumes "0 < sz" "p < sz"
  shows "p div page_size < pages_for sz"
proof -
  have "p < pages_for sz * page_size"
  proof -
    have "sz \<le> (pages_for sz - 1) * page_size + page_size"
      using pages_for_split [OF assms(1)] by linarith
    also have "\<dots> = pages_for sz * page_size"
      using pages_for_split(2) [OF assms(1)] by (cases "pages_for sz") auto
    finally show ?thesis using assms(2) by simp
  qed
  then show ?thesis by (simp add: less_mult_imp_div_less)
qed

text \<open>The two writing phases of \<open>insert_fingerprint_cache\<close> together store the content.\<close>

lemma store_content:
  assumes sz: "0 < sz" and dist: "inj_on (\<lambda>j. pages ! j) {0..<pages_for sz}" and len: "sz \<le> length content"
    and m': "m' = mem_write (pages ! (pages_for sz - 1) * page_size)
      (bytes_at ((pages_for sz - 1) * page_size) (last_page_bytes sz) content)
      (write_pages_loop m pages content 0 (pages_for sz - 1))"
  shows "entry_bytes m' \<lparr>entry_content_size = sz, content_page_nums = pages\<rparr> = take sz content"
    "\<And>a. a div page_size \<notin> (\<lambda>j. pages ! j) ` {0..<pages_for sz} \<Longrightarrow> m' a = m a"
proof -
  let ?k = "pages_for sz - 1"
  let ?b = "bytes_at (?k * page_size) (last_page_bytes sz) content"
  let ?w = "write_pages_loop m pages content 0 ?k"
  note split = pages_for_split [OF sz]
  have bl: "length ?b = last_page_bytes sz" using split(1) len by simp
  have pw: "mem_write (pg * page_size) ?b w a =
      (if a div page_size = pg \<and> a mod page_size < last_page_bytes sz then ?b ! (a mod page_size) else w a)"
    for pg w a using split(4) by (simp only: page_write bl)
  have inj: "inj_on (\<lambda>j. pages ! j) {0..<0 + ?k}" using dist by (rule inj_on_subset) auto
  have "(0 + ?k) * page_size \<le> length content"
    using split(1) len by (metis add_0 le_add1 le_trans)
  note W = write_pages_loop_spec [OF inj this, of m]
  have fresh: "pages ! ?k \<notin> (\<lambda>j. pages ! j) ` {0..<0 + ?k}"
  proof
    assume "pages ! ?k \<in> (\<lambda>j. pages ! j) ` {0..<0 + ?k}"
    then obtain j where "j < ?k" "pages ! ?k = pages ! j" by auto
    moreover from this have "?k < pages_for sz" "j < pages_for sz" using split(2) by linarith+
    ultimately show False using inj_onD [OF dist, of ?k j] by simp
  qed
  have at: "m' (pages ! (p div page_size) * page_size + p mod page_size) = content ! p" if p: "p < sz" for p
  proof (cases "p div page_size = ?k")
    case True
    then have pp: "p = ?k * page_size + p mod page_size" by (metis div_mult_mod_eq)
    then have "p mod page_size < last_page_bytes sz" using p split(1) by linarith
    then have "m' (pages ! (p div page_size) * page_size + p mod page_size) = ?b ! (p mod page_size)"
      unfolding m' True pw by simp
    also have "\<dots> = content ! p"
      using \<open>p mod page_size < last_page_bytes sz\<close> pp p len
      by (subst nth_bytes_at) auto
    finally show ?thesis .
  next
    case False
    then have j: "p div page_size < ?k" using block_index_less [OF sz p] by simp
    have ne: "pages ! (p div page_size) \<noteq> pages ! ?k" using fresh j by (metis atLeast0LessThan imageI lessThan_iff add_0)
    have "m' (pages ! (p div page_size) * page_size + p mod page_size) =
        ?w (pages ! (p div page_size) * page_size + p mod page_size)"
      unfolding m' pw using ne by simp
    also have "\<dots> = content ! (p div page_size * page_size + p mod page_size)"
      using W j by simp
    finally show ?thesis by simp
  qed
  show "entry_bytes m' \<lparr>entry_content_size = sz, content_page_nums = pages\<rparr> = take sz content"
    using len by (intro nth_equalityI) (auto simp: entry_bytes_def at)
  show "m' a = m a" if a: "a div page_size \<notin> (\<lambda>j. pages ! j) ` {0..<pages_for sz}" for a
  proof -
    have "a div page_size \<noteq> pages ! ?k" "a div page_size \<notin> (\<lambda>j. pages ! j) ` {0..<0 + ?k}"
      using a split(2) by auto
    then show ?thesis unfolding m' pw using W by simp
  qed
qed

text \<open>Reading: the page loop writes the blocks one after the other.\<close>

lemma read_pages_loop_spec:
  assumes "dest + (i + n) * page_size \<le> length buf"
  shows "read_pages_loop m pages buf dest i n =
    bytes_put (dest + i * page_size)
      (concat (map (\<lambda>j. mem_read m (pages ! j * page_size) page_size) [i..<i + n])) buf"
  using assms
proof (induction n arbitrary: i buf)
  case 0
  then show ?case by simp
next
  case (Suc n)
  let ?b = "mem_read m (pages ! i * page_size) page_size"
  let ?rest = "concat (map (\<lambda>j. mem_read m (pages ! j * page_size) page_size) [i + 1..<i + 1 + n])"
  have lr: "length ?rest = n * page_size"
    by (simp add: length_concat comp_def sum_list_triv)
  have fits: "dest + i * page_size + length ?b + length ?rest \<le> length buf"
    using Suc.prems lr by (simp add: algebra_simps)
  then have "length (bytes_put (dest + i * page_size) ?b buf) = length buf" by simp
  then have "read_pages_loop m pages buf dest i (Suc n) =
      bytes_put (dest + i * page_size + length ?b) ?rest (bytes_put (dest + i * page_size) ?b buf)"
    using Suc.IH [of "i + 1" "bytes_put (dest + i * page_size) ?b buf"] Suc.prems
    by (simp add: algebra_simps)
  also have "\<dots> = bytes_put (dest + i * page_size) (?b @ ?rest) buf"
    by (rule bytes_put_bytes_put_adjacent [OF fits])
  also have "?b @ ?rest = concat (map (\<lambda>j. mem_read m (pages ! j * page_size) page_size) [i..<i + Suc n])"
    by (simp add: upt_conv_Cons del: upt_Suc)
  finally show ?case .
qed

lemma entry_bytes_blocks:
  assumes "0 < entry_content_size e"
  shows "entry_bytes m e =
    concat (map (\<lambda>j. mem_read m (content_page_nums e ! j * page_size) page_size)
      [0..<pages_for (entry_content_size e) - 1]) @
    mem_read m (content_page_nums e ! (pages_for (entry_content_size e) - 1) * page_size)
      (last_page_bytes (entry_content_size e))"
proof -
  let ?f = "\<lambda>p. m (content_page_nums e ! (p div page_size) * page_size + p mod page_size)"
  have block: "map ?f [j * page_size..<j * page_size + r] =
      mem_read m (content_page_nums e ! j * page_size) r" if "r \<le> page_size" for j r
  proof (rule nth_equalityI)
    fix q assume "q < length (map ?f [j * page_size..<j * page_size + r])"
    then have "q < r" by simp
    moreover from this have "(j * page_size + q) div page_size = j" "(j * page_size + q) mod page_size = q"
      using that by simp_all
    ultimately show "map ?f [j * page_size..<j * page_size + r] ! q =
        mem_read m (content_page_nums e ! j * page_size) r ! q"
      by simp
  qed simp
  have full: "map ?f [0..<n * page_size] =
      concat (map (\<lambda>j. mem_read m (content_page_nums e ! j * page_size) page_size) [0..<n])" for n
  proof (induction n)
    case (Suc n)
    have "map ?f [0..<Suc n * page_size] =
        map ?f [0..<n * page_size] @ map ?f [n * page_size..<n * page_size + page_size]"
      using upt_add_eq_append [of 0 "n * page_size" page_size] by (simp add: add.commute)
    then show ?case using Suc.IH block [of page_size n] by simp
  qed simp
  let ?k = "pages_for (entry_content_size e) - 1" and ?r = "last_page_bytes (entry_content_size e)"
  have "entry_bytes m e = map ?f [0..<?k * page_size + ?r]"
    using pages_for_split(1) [OF assms] by (simp add: entry_bytes_def)
  also have "\<dots> = map ?f [0..<?k * page_size] @ map ?f [?k * page_size..<?k * page_size + ?r]"
    using upt_add_eq_append [of 0 "?k * page_size" ?r] by simp
  finally show ?thesis using full [of ?k] block [of ?r ?k] pages_for_split(4) [OF assms] by simp
qed

lemma copy_spec:
  assumes ok: "size_ok (entry_content_size e)" and fits: "dest + entry_content_size e \<le> length buf"
  shows "copy_fingerprint_content buf dest c e = bytes_put dest (entry_bytes (fc_cache c) e) buf"
proof -
  let ?sz = "entry_content_size e"
  let ?k = "pages_for ?sz - 1" and ?m = "fc_cache c" and ?pages = "content_page_nums e"
  let ?full = "concat (map (\<lambda>j. mem_read ?m (?pages ! j * page_size) page_size) [0..<?k])"
  let ?last = "mem_read ?m (?pages ! ?k * page_size) (last_page_bytes ?sz)"
  have pos: "0 < ?sz" using ok by (simp add: size_ok_def)
  note split = pages_for_split [OF pos]
  have lf: "length ?full = ?k * page_size" by (simp add: length_concat comp_def sum_list_triv)
  have room: "dest + length ?full + length ?last \<le> length buf"
    using fits split(1) lf by simp
  then have "dest + (0 + ?k) * page_size \<le> length buf" using lf by simp
  then have "read_pages_loop ?m ?pages buf dest 0 ?k = bytes_put dest ?full buf"
    using read_pages_loop_spec [of dest 0 ?k buf ?m ?pages] by simp
  then have "copy_fingerprint_content buf dest c e =
      bytes_put (dest + length ?full) ?last (bytes_put dest ?full buf)"
    using lf by (simp add: copy_fingerprint_content_def size_ok_pages [OF ok] Let_def)
  also have "\<dots> = bytes_put dest (?full @ ?last) buf"
    by (rule bytes_put_bytes_put_adjacent [OF room])
  also have "?full @ ?last = entry_bytes ?m e" using entry_bytes_blocks [OF pos] by simp
  finally show ?thesis .
qed

section \<open>Taking pages\<close>

lemma take_pages_loop_spec:
  assumes "cur < num_pages_total" "i + n \<le> length ret"
  shows "take_pages_loop free cur i n ret =
    ((cur + n) mod num_pages_total,
     bytes_put i (map (\<lambda>j. free ((cur + j) mod num_pages_total)) [0..<n]) ret)"
  using assms
proof (induction n arbitrary: cur i ret)
  case 0
  then show ?case by simp
next
  case (Suc n)
  let ?f = "\<lambda>j. free ((cur + j) mod num_pages_total)"
  let ?rest = "map (\<lambda>j. free ((((cur + 1) mod num_pages_total) + j) mod num_pages_total)) [0..<n]"
  have rest: "?rest = map ?f [1..<Suc n]"
    by (rule nth_equalityI) (auto simp: mod_simps simp del: upt_Suc)
  have upd: "ret[i := free cur] = bytes_put i [free cur] ret"
    using Suc.prems(2) by (simp add: bytes_put_def upd_conv_take_nth_drop)
  have "take_pages_loop free cur i (Suc n) ret =
      (((cur + 1) mod num_pages_total + n) mod num_pages_total,
       bytes_put (i + 1) ?rest (ret[i := free cur]))"
    using Suc.IH [of "(cur + 1) mod num_pages_total" "i + 1" "ret[i := free cur]"] Suc.prems by simp
  also have "bytes_put (i + 1) ?rest (ret[i := free cur]) = bytes_put i (free cur # ?rest) ret"
    using bytes_put_bytes_put_adjacent [of i "[free cur]" ?rest ret] Suc.prems(2) upd by simp
  also have "free cur # ?rest = map ?f [0..<Suc n]"
    using Suc.prems(1) unfolding rest by (simp add: upt_conv_Cons del: upt_Suc)
  finally show ?case by (simp add: mod_simps)
qed

section \<open>The invariant of the cache\<close>

definition used_pages :: "Fingerprint_Cache \<Rightarrow> nat" where
  "used_pages c = num_pages_total - fc_num_free_pages c"

definition entry_ok :: "nat \<Rightarrow> Fingerprint_Entry \<Rightarrow> bool" where
  "entry_ok used e \<longleftrightarrow>
     size_ok (entry_content_size e) \<and> length (content_page_nums e) = max_pages \<and>
     inj_on (\<lambda>j. content_page_nums e ! j) {0..<pages_for (entry_content_size e)} \<and>
     (\<forall>j<pages_for (entry_content_size e). content_page_nums e ! j < used)"

definition cache_ok :: "Fingerprint_Cache \<Rightarrow> bool" where
  "cache_ok c \<longleftrightarrow>
     table_ok (fc_table c) \<and>
     fc_fingerprinting_settings c = fingerprint_cache_settings \<and>
     fc_num_free_pages c \<le> num_pages_total \<and>
     fc_free_pages_read_ind c = used_pages c mod num_pages_total \<and>
     (\<forall>i<num_pages_total. fc_free_pages c i = i) \<and>
     cnt (fc_table c) \<le> used_pages c \<and>
     (\<forall>k e. table_map (fc_table c) k = Some e \<longrightarrow> entry_ok (used_pages c) e)"

definition cache_contents :: "Fingerprint_Cache \<Rightarrow> u8 list \<rightharpoonup> u8 list" where
  "cache_contents c k = map_option (entry_bytes (fc_cache c)) (table_map (fc_table c) k)"

text \<open>Every content is stored under its own digest.\<close>

definition digests_ok :: "(u8 list \<Rightarrow> u8 list) \<Rightarrow> Fingerprint_Cache \<Rightarrow> bool" where
  "digests_ok sha c \<longleftrightarrow> (\<forall>k x. cache_contents c k = Some x \<longrightarrow> sha x = k)"

lemma cache_ok_not_full: "cache_ok c \<Longrightarrow> cnt (fc_table c) < N_slots"
  using pages_less_slots unfolding cache_ok_def used_pages_def by linarith

lemma entry_ok_mono: "entry_ok u e \<Longrightarrow> u \<le> u' \<Longrightarrow> entry_ok u' e"
  by (auto simp: entry_ok_def)

lemma entry_bytes_unused:
  assumes "entry_ok u e" "\<And>a. a div page_size < u \<Longrightarrow> m' a = m a"
  shows "entry_bytes m' e = entry_bytes m e"
proof (rule entry_bytes_cong)
  fix p assume p: "p < entry_content_size e"
  have "0 < entry_content_size e" using assms(1) by (simp add: entry_ok_def size_ok_def)
  then have "content_page_nums e ! (p div page_size) < u"
    using assms(1) block_index_less p by (simp add: entry_ok_def)
  then show "m' (content_page_nums e ! (p div page_size) * page_size + p mod page_size) =
      m (content_page_nums e ! (p div page_size) * page_size + p mod page_size)"
    by (intro assms(2)) simp
qed

lemma init_cache_ok:
  assumes "items (fc_table c) = zero_items"
  shows "cache_ok (init_fingerprint_cache c)" "cache_contents (init_fingerprint_cache c) = Map.empty"
    "used_pages (init_fingerprint_cache c) = 0"
  using init_table_spec [OF assms]
  by (auto simp: cache_ok_def init_fingerprint_cache_def used_pages_def cache_contents_def)

section \<open>Insertion\<close>

lemma get_pages_spec:
  assumes ok: "cache_ok c" and n: "0 < n" "n \<le> max_pages" "n \<le> fc_num_free_pages c"
    and len: "length ret = max_pages"
  shows "get_free_cache_pages c (int n) ret =
    (0, c\<lparr>fc_num_free_pages := fc_num_free_pages c - n,
          fc_free_pages_read_ind := (used_pages c + n) mod num_pages_total\<rparr>,
     bytes_put 0 [used_pages c..<used_pages c + n] ret)"
proof -
  have free: "fc_num_free_pages c \<le> num_pages_total" "\<And>i. i < num_pages_total \<Longrightarrow> fc_free_pages c i = i"
    "fc_free_pages_read_ind c = used_pages c mod num_pages_total"
    using ok by (auto simp: cache_ok_def)
  have u: "used_pages c + n \<le> num_pages_total" "used_pages c < num_pages_total"
    using n free(1) by (auto simp: used_pages_def)
  have nat: "nat (int n mod 2 ^ 64) = n" using n(2) by (simp add: config_defs)
  have pages: "map (\<lambda>j. fc_free_pages c ((used_pages c + j) mod num_pages_total)) [0..<n] =
      [used_pages c..<used_pages c + n]"
    using u free(2) by (intro nth_equalityI) auto
  have "take_pages_loop (fc_free_pages c) (used_pages c) 0 n ret =
      ((used_pages c + n) mod num_pages_total, bytes_put 0 [used_pages c..<used_pages c + n] ret)"
    using take_pages_loop_spec [of "used_pages c" 0 n ret "fc_free_pages c"] u n(2) len pages by simp
  then show ?thesis
    unfolding get_free_cache_pages_def Let_def nat free(3) using n(2,3) u by simp
qed

lemma get_pages_none:
  assumes "fc_num_free_pages c < n" "n \<le> max_pages"
  shows "get_free_cache_pages c (int n) ret = (- 1, c, ret)"
proof -
  have "nat (int n mod 2 ^ 64) = n" using assms(2) by (simp add: config_defs)
  then show ?thesis unfolding get_free_cache_pages_def Let_def using assms(1) by simp
qed

text \<open>The cache after the pages for a content of size \<open>sz\<close> were taken and written, and the entry
  that names them.\<close>

lemma insert_cache_spec:
  assumes ok: "cache_ok c" and sz: "size_ok sz" and len: "sz \<le> length content"
    and room: "pages_for sz \<le> fc_num_free_pages c" and pl: "length (content_page_nums r) = max_pages"
  obtains c' e where
    "insert_fingerprint_cache c \<lparr>fp_content_size = sz, fp_fingerprint = k\<rparr> content r = (0, c', e)"
    "cache_ok c'" "fc_table c' = fc_table c" "used_pages c' = used_pages c + pages_for sz"
    "entry_ok (used_pages c') e" "entry_bytes (fc_cache c') e = take sz content"
    "\<And>a. a div page_size < used_pages c \<Longrightarrow> fc_cache c' a = fc_cache c a"
proof -
  let ?n = "pages_for sz" and ?u = "used_pages c"
  let ?pages = "bytes_put 0 [?u..<?u + ?n] (content_page_nums r)"
  let ?m' = "mem_write (?pages ! (?n - 1) * page_size)
      (bytes_at ((?n - 1) * page_size) (last_page_bytes sz) content)
      (write_pages_loop (fc_cache c) ?pages content 0 (?n - 1))"
  let ?c' = "c\<lparr>fc_num_free_pages := fc_num_free_pages c - ?n,
      fc_free_pages_read_ind := (?u + ?n) mod num_pages_total, fc_cache := ?m'\<rparr>"
  let ?e = "r\<lparr>content_page_nums := ?pages, entry_content_size := sz\<rparr>"
  have pos: "0 < sz" "?n \<le> max_pages" "0 < ?n"
    using sz pages_for_split(2) by (auto simp: size_ok_def)
  have at: "?pages ! j = ?u + j" if "j < ?n" for j
    using that pos(2) pl by (simp add: nth_bytes_put)
  have plen: "length ?pages = max_pages" using pos(2) pl by simp
  have inj: "inj_on (\<lambda>j. ?pages ! j) {0..<?n}" using at by (auto simp: inj_on_def)
  note S = store_content [OF pos(1) inj len refl, where m = "fc_cache c"]
  have run: "insert_fingerprint_cache c \<lparr>fp_content_size = sz, fp_fingerprint = k\<rparr> content r = (0, ?c', ?e)"
    using get_pages_spec [OF ok pos(3,2) room pl]
    by (simp add: insert_fingerprint_cache_def size_ok_pages [OF sz] Let_def)
  have used: "used_pages ?c' = ?u + ?n"
    using room ok by (auto simp: used_pages_def cache_ok_def)
  have keep: "?m' a = fc_cache c a" if "a div page_size < ?u" for a
    using that at by (intro S(2)) auto
  have e: "entry_ok (used_pages ?c') ?e"
    using sz plen inj at unfolding used by (auto simp: entry_ok_def)
  have bytes: "entry_bytes ?m' ?e = take sz content"
    using S(1) by (simp add: entry_bytes_def)
  have "entry_ok (?u + ?n) e'" if "entry_ok ?u e'" for e' using that by (rule entry_ok_mono) simp
  then have "cache_ok ?c'"
    using ok used unfolding cache_ok_def by auto
  with run used keep e bytes show ?thesis by (intro that [of ?c' ?e]) simp_all
qed

lemma zero_entry_pages [simp]: "length (content_page_nums zero_entry) = max_pages"
  by (simp add: zero_entry_def)

lemma insert_spec_cache:
  assumes ok: "cache_ok c" and sz: "size_ok sz" and len: "sz \<le> length content"
    and room: "pages_for sz \<le> fc_num_free_pages c"
    and pl: "length (content_page_nums r) = max_pages"
    and nz: "k \<noteq> zero_key"
  obtains c' e where
    "insert_fingerprint c \<lparr>fp_content_size = sz, fp_fingerprint = k\<rparr> content r = (0, c', e)"
    "cache_ok c'" "used_pages c' = used_pages c + pages_for sz"
    "cache_contents c' = (case cache_contents c k of
       None \<Rightarrow> (cache_contents c)(k \<mapsto> take sz content) | Some _ \<Rightarrow> cache_contents c)"
    "length (content_page_nums e) = max_pages"
proof -
  let ?fp = "\<lparr>fp_content_size = sz, fp_fingerprint = k\<rparr>"
  obtain c1 e1 where I: "insert_fingerprint_cache c ?fp content r = (0, c1, e1)"
    and c1: "cache_ok c1" "fc_table c1 = fc_table c" "used_pages c1 = used_pages c + pages_for sz"
    and e1: "entry_ok (used_pages c1) e1" "entry_bytes (fc_cache c1) e1 = take sz content"
    and keep: "\<And>a. a div page_size < used_pages c \<Longrightarrow> fc_cache c1 a = fc_cache c a"
    using insert_cache_spec [OF ok sz len room pl] by blast
  have old: "cache_contents c1 = cache_contents c"
  proof
    fix k'
    show "cache_contents c1 k' = cache_contents c k'"
    proof (cases "table_map (fc_table c) k'")
      case (Some e)
      then have "entry_ok (used_pages c) e" using ok by (simp add: cache_ok_def)
      then have "entry_bytes (fc_cache c1) e = entry_bytes (fc_cache c) e"
        by (rule entry_bytes_unused) (rule keep)
      then show ?thesis using Some c1(2) by (simp add: cache_contents_def)
    qed (simp add: cache_contents_def c1(2))
  qed
  have nf: "cnt (fc_table c1) < N_slots" by (rule cache_ok_not_full [OF c1(1)])
  have t1: "table_ok (fc_table c1)" using c1(1) by (simp add: cache_ok_def)
  note find = find_spec [OF t1 nf nz, of e1]
  show ?thesis
  proof (cases "table_map (fc_table c1) k")
    case None
    then obtain t where t: "insert_fingerprint_table (fc_table c1) k e1 = (0, t)" "table_ok t"
      "table_map t = (table_map (fc_table c1))(k \<mapsto> e1)" "cnt t = cnt (fc_table c1) + 1"
      using insert_spec [OF t1 nf nz] by metis
    let ?c' = "c1\<lparr>fc_table := t\<rparr>"
    have "insert_fingerprint c ?fp content r = (0, ?c', e1)"
      using I find None t(1) by (simp add: insert_fingerprint_def Let_def)
    moreover have "cnt (fc_table c) \<le> used_pages c" "0 < pages_for sz"
      using ok sz pages_for_split(2) by (auto simp: cache_ok_def size_ok_def)
    then have "cnt t \<le> used_pages c1" using t(4) c1(2,3) by simp
    then have "cache_ok ?c'"
      using c1(1) t(2,3) e1(1) by (auto simp: cache_ok_def used_pages_def)
    moreover have "cache_contents ?c' = (cache_contents c)(k \<mapsto> take sz content)"
      using old e1(2) t(3) by (auto simp: cache_contents_def fun_eq_iff)
    moreover have "cache_contents c k = None"
      using None c1(2) by (simp add: cache_contents_def)
    moreover have "used_pages ?c' = used_pages c + pages_for sz" using c1(3) by (simp add: used_pages_def)
    moreover have "length (content_page_nums e1) = max_pages" using e1(1) by (simp add: entry_ok_def)
    ultimately show ?thesis by (intro that [of ?c' e1]) simp_all
  next
    case (Some e)
    then obtain i where i: "i < N_slots" "find_fingerprint_table (fc_table c1) k e1 = (i, e)"
      using find by auto
    then have "insert_fingerprint c ?fp content r = (0, c1, e)"
      using I by (simp add: insert_fingerprint_def Let_def)
    moreover have "\<exists>x. cache_contents c k = Some x"
      using Some c1(2) by (simp add: cache_contents_def)
    moreover have "length (content_page_nums e) = max_pages"
      using Some c1(1,2) by (auto simp: cache_ok_def entry_ok_def)
    ultimately show ?thesis using c1 old by (intro that [of c1 e]) auto
  qed
qed

lemma insert_no_room:
  assumes "size_ok sz" "fc_num_free_pages c < pages_for sz"
  shows "\<exists>e. insert_fingerprint c \<lparr>fp_content_size = sz, fp_fingerprint = k\<rparr> content r = (- 1, c, e)"
  using assms get_pages_none [of c "pages_for sz"] size_ok_pages(1,2) [OF assms(1)]
  by (simp add: insert_fingerprint_def insert_fingerprint_cache_def Let_def size_ok_def)

section \<open>Lookup\<close>

lemma lookup_spec:
  assumes ok: "cache_ok c" and nz: "k \<noteq> zero_key"
  shows "case table_map (fc_table c) k of
      None \<Rightarrow> lookup_fingerprint c k r = (False, r) | Some e \<Rightarrow> lookup_fingerprint c k r = (True, e)"
proof -
  have "table_ok (fc_table c)" using ok by (simp add: cache_ok_def)
  from find_spec [OF this cache_ok_not_full [OF ok] nz, of r] show ?thesis
    by (auto simp: lookup_fingerprint_def split: option.splits)
qed

lemma lookup_copy_spec:
  assumes ok: "cache_ok c" and nz: "k \<noteq> zero_key"
  shows "case cache_contents c k of
      None \<Rightarrow> lookup_fingerprint c k r = (False, r)
    | Some x \<Rightarrow> \<exists>e. lookup_fingerprint c k r = (True, e) \<and> entry_content_size e = length x \<and>
        size_ok (length x) \<and>
        (\<forall>buf dest. dest + length x \<le> length buf \<longrightarrow>
           copy_fingerprint_content buf dest c e = bytes_put dest x buf)"
proof (cases "table_map (fc_table c) k")
  case None
  then show ?thesis using lookup_spec [OF assms, of r] by (simp add: cache_contents_def)
next
  case (Some e)
  then have "size_ok (entry_content_size e)" using ok by (auto simp: cache_ok_def entry_ok_def)
  then show ?thesis using Some lookup_spec [OF assms, of r] copy_spec by (simp add: cache_contents_def)
qed

section \<open>The content store\<close>

text \<open>The two uses the transport makes of the cache: look a digest up and copy its content out, and
  store a content it received.\<close>

definition cache_fetch :: "Fingerprint_Cache \<Rightarrow> u8 list \<Rightarrow> u8 list option" where
  "cache_fetch c k =
     (let (found, e) = lookup_fingerprint c k zero_entry
      in if found then Some (copy_fingerprint_content (replicate (entry_content_size e) 0) 0 c e) else None)"

definition cache_store :: "Fingerprint_Cache \<Rightarrow> u8 list \<Rightarrow> u8 list \<Rightarrow> Fingerprint_Cache" where
  "cache_store c k x =
     fst (snd (insert_fingerprint c \<lparr>fp_content_size = length x, fp_fingerprint = k\<rparr> x zero_entry))"

lemma cache_fetch_contents:
  assumes "cache_ok c" "k \<noteq> zero_key"
  shows "cache_fetch c k = cache_contents c k"
proof (cases "cache_contents c k")
  case None
  then show ?thesis using lookup_copy_spec [OF assms, of zero_entry] by (simp add: cache_fetch_def)
next
  case (Some x)
  then obtain e where "lookup_fingerprint c k zero_entry = (True, e)" "entry_content_size e = length x"
    "copy_fingerprint_content (replicate (length x) 0) 0 c e = bytes_put 0 x (replicate (length x) 0)"
    using lookup_copy_spec [OF assms, of zero_entry] by fastforce
  then show ?thesis using Some by (simp add: cache_fetch_def bytes_put_whole)
qed

lemma cache_store_cases:
  assumes "cache_ok c" "k \<noteq> zero_key" "size_ok (length x)"
  shows "cache_ok (cache_store c k x)"
    "cache_contents (cache_store c k x) =
      (if pages_for (length x) \<le> fc_num_free_pages c \<and> cache_contents c k = None
       then (cache_contents c)(k \<mapsto> x) else cache_contents c)"
    "fc_num_free_pages (cache_store c k x) =
      (if pages_for (length x) \<le> fc_num_free_pages c then fc_num_free_pages c - pages_for (length x)
       else fc_num_free_pages c)"
proof -
  have "cache_ok (cache_store c k x) \<and> cache_contents (cache_store c k x) =
      (if pages_for (length x) \<le> fc_num_free_pages c \<and> cache_contents c k = None
       then (cache_contents c)(k \<mapsto> x) else cache_contents c) \<and>
    fc_num_free_pages (cache_store c k x) =
      (if pages_for (length x) \<le> fc_num_free_pages c then fc_num_free_pages c - pages_for (length x)
       else fc_num_free_pages c)"
  proof (cases "pages_for (length x) \<le> fc_num_free_pages c")
    case True
    then obtain c' e where c':
      "insert_fingerprint c \<lparr>fp_content_size = length x, fp_fingerprint = k\<rparr> x zero_entry = (0, c', e)"
      "cache_ok c'" "used_pages c' = used_pages c + pages_for (length x)"
      "cache_contents c' = (case cache_contents c k of
         None \<Rightarrow> (cache_contents c)(k \<mapsto> take (length x) x) | Some _ \<Rightarrow> cache_contents c)"
      by (rule insert_spec_cache [OF assms(1,3) order_refl, of zero_entry k]) (use assms(2) in simp_all)
    have "fc_num_free_pages c' \<le> num_pages_total" "fc_num_free_pages c \<le> num_pages_total"
      using c'(2) assms(1) by (simp_all add: cache_ok_def)
    then have "fc_num_free_pages c' = fc_num_free_pages c - pages_for (length x)"
      using c'(3) True unfolding used_pages_def by linarith
    with c' True show ?thesis by (simp add: cache_store_def split: option.splits)
  next
    case False
    then show ?thesis
      using insert_no_room [OF assms(3), of c k x zero_entry] assms(1) by (auto simp: cache_store_def)
  qed
  then show "cache_ok (cache_store c k x)"
    "cache_contents (cache_store c k x) =
      (if pages_for (length x) \<le> fc_num_free_pages c \<and> cache_contents c k = None
       then (cache_contents c)(k \<mapsto> x) else cache_contents c)"
    "fc_num_free_pages (cache_store c k x) =
      (if pages_for (length x) \<le> fc_num_free_pages c then fc_num_free_pages c - pages_for (length x)
       else fc_num_free_pages c)"
    by blast+
qed

interpretation cache: content_store cache_ok fc_num_free_pages "\<lambda>x. pages_for (length x)"
  "\<lambda>k x. k \<noteq> zero_key \<and> size_ok (length x)" "\<lambda>k. k \<noteq> zero_key"
  cache_contents cache_fetch cache_store
  by unfold_locales (auto simp: cache_fetch_contents cache_store_cases)

section \<open>Chunks in the cache\<close>

text \<open>A chunk of at least 2048 bytes needs at most one page per 2048 bytes.\<close>

lemma pages_for_chunk: "MIN_CHUNK_SIZE_BYTES \<le> z \<Longrightarrow> 2048 * pages_for z \<le> z"
proof -
  assume "MIN_CHUNK_SIZE_BYTES \<le> z"
  then have z: "2048 \<le> z" by (simp add: config_defs)
  have p: "pages_for z = (z + 4095) div 4096" by (simp add: pages_for_def config_defs)
  have "pages_for z * 4096 \<le> z + 4095" unfolding p by simp
  moreover have "pages_for z \<le> 1" if "z \<le> 4096"
    using div_le_mono [of "z + 4095" 8191 4096] that unfolding p by simp
  ultimately show ?thesis using z by (cases "z \<le> 4096") linarith+
qed

lemma pages_for_chunks:
  "\<forall>z\<in>set sizes. MIN_CHUNK_SIZE_BYTES \<le> z \<Longrightarrow> 2048 * (\<Sum>z\<leftarrow>sizes. pages_for z) \<le> sum_list sizes"
proof (induction sizes)
  case (Cons z zs)
  then show ?case using pages_for_chunk [of z] by simp
qed simp

text \<open>Chunking a long buffer with the settings of the cache.\<close>

lemma cache_chunking:
  assumes "MIN_CHUNK_SIZE_BYTES < length data"
  shows "\<exists>fps sizes. do_fingerprinting sha fingerprint_cache_settings data = Some (fps, sizes) \<and>
    sum_list sizes = length data \<and>
    fps = map (\<lambda>i. sha (bytes_at (offset_of sizes i) (sizes ! i) data)) [0..<length sizes] \<and>
    (\<forall>z\<in>set sizes. MIN_CHUNK_SIZE_BYTES \<le> z \<and> z < MAX_CHUNK_SIZE_BYTES + MIN_CHUNK_SIZE_BYTES)"
proof (rule do_fingerprinting_run [OF fingerprint_cache_settings_ok(1), of sha data])
  fix fps sizes
  assume "do_fingerprinting sha fingerprint_cache_settings data = Some (fps, sizes)"
    "sum_list sizes = length data"
    "fps = map (\<lambda>i. sha (bytes_at (offset_of sizes i) (sizes ! i) data)) [0..<length sizes]"
    "fs_min_chunk_size_bytes fingerprint_cache_settings < length data \<Longrightarrow>
      \<forall>z\<in>set sizes. fs_min_chunk_size_bytes fingerprint_cache_settings \<le> z \<and>
        z < fs_max_chunk_size_bytes fingerprint_cache_settings + fs_min_chunk_size_bytes fingerprint_cache_settings"
  then show ?thesis using assms unfolding fingerprint_cache_settings_ok(5,6) by blast
qed

text \<open>A freshly created shared-memory file: all zero.\<close>

definition zeroed_cache :: Fingerprint_Cache where
  "zeroed_cache =
     \<lparr>fc_fingerprinting_settings = fingerprint_cache_settings,
      fc_stats = \<lparr>total_recv_bytes = 0, populated_from_cache_bytes = 0,
                  total_fingerprints = 0, total_found_fingerprints = 0\<rparr>,
      fc_table = \<lparr>cnt = 0, table_size = 0, is_empty_bit_vector = (\<lambda>_. 0), items = zero_items\<rparr>,
      fc_capacity_bytes = 0, fc_cache = (\<lambda>_. 0), fc_num_free_pages = 0, fc_free_pages = (\<lambda>_. 0),
      fc_free_pages_read_ind = 0, fc_free_pages_write_ind = 0, fc_cache_lock = False\<rparr>"

definition example_cache :: Fingerprint_Cache where
  "example_cache = init_fingerprint_cache zeroed_cache"

lemma example_cache_ok: "cache_ok example_cache" "cache_contents example_cache = Map.empty"
  "fc_num_free_pages example_cache = FINGERPRINT_CACHE_NUM_PAGES"
  unfolding example_cache_def zeroed_cache_def
  by (rule init_cache_ok, simp, rule init_cache_ok, simp, simp add: init_fingerprint_cache_def)

section \<open>Properties\<close>

text \<open>Initialisation establishes the cache invariant over a zeroed item array: an empty cache with
  every page free.\<close>

theorem init_cache_empty:
  assumes "items (fc_table c) = zero_items"
  shows "cache_ok (init_fingerprint_cache c) \<and>
         cache_contents (init_fingerprint_cache c) = Map.empty \<and>
         fc_num_free_pages (init_fingerprint_cache c) = FINGERPRINT_CACHE_NUM_PAGES"
  using init_cache_ok [OF assms] by (simp add: init_fingerprint_cache_def)

theorem init_cache_empty_witness:
  "cache_ok (init_fingerprint_cache (example_cache\<lparr>fc_table := (fc_table example_cache)\<lparr>items := zero_items\<rparr>\<rparr>))"
  using init_cache_empty
    [of "example_cache\<lparr>fc_table := (fc_table example_cache)\<lparr>items := zero_items\<rparr>\<rparr>"]
  by simp

text \<open>C4. Insertion refines the abstract map, whatever entry the caller hands over: with enough free
  pages it succeeds, keeps the invariant, takes exactly the pages the content needs, binds the digest to
  the content if it was absent and changes no content otherwise; with too few pages it returns -1 and
  the cache is as before. The pages are taken for a digest that is already there too, although the
  comment in \<^verbatim>\<open>fingerprint_cache.h\<close> says that such a digest is not inserted.\<close>

theorem insert_fingerprint_refines:
  assumes "cache_ok c" "k \<noteq> zero_key" "size_ok sz" "sz \<le> length content"
    and "length (content_page_nums r) = FINGERPRINT_CONTENT_MAX_PAGES"
  shows "\<exists>ret c' e. insert_fingerprint c \<lparr>fp_content_size = sz, fp_fingerprint = k\<rparr> content r = (ret, c', e) \<and>
    (if pages_for sz \<le> fc_num_free_pages c
     then ret = 0 \<and> cache_ok c' \<and> fc_num_free_pages c' + pages_for sz = fc_num_free_pages c \<and>
          cache_contents c' = (case cache_contents c k of
             None \<Rightarrow> (cache_contents c)(k \<mapsto> take sz content) | Some _ \<Rightarrow> cache_contents c)
     else ret = - 1 \<and> c' = c)"
proof (cases "pages_for sz \<le> fc_num_free_pages c")
  case True
  then obtain c' e where c':
    "insert_fingerprint c \<lparr>fp_content_size = sz, fp_fingerprint = k\<rparr> content r = (0, c', e)"
    "cache_ok c'" "used_pages c' = used_pages c + pages_for sz"
    "cache_contents c' = (case cache_contents c k of
       None \<Rightarrow> (cache_contents c)(k \<mapsto> take sz content) | Some _ \<Rightarrow> cache_contents c)"
    by (rule insert_spec_cache [OF assms(1,3,4), of r k]) (use assms(2,5) in simp_all)
  moreover have "fc_num_free_pages c' + pages_for sz = fc_num_free_pages c"
    using c'(2,3) assms(1) True unfolding used_pages_def cache_ok_def by linarith
  ultimately show ?thesis using True by simp
next
  case False
  then show ?thesis using insert_no_room [OF assms(3), of c k content r] by auto
qed

theorem insert_fingerprint_refines_witness:
  "\<exists>c' e. insert_fingerprint example_cache
     \<lparr>fp_content_size = 2, fp_fingerprint = le_bytes FINGERPRINT_NUM_BYTES 7\<rparr> [5, 6, 9] zero_entry = (0, c', e) \<and>
     cache_contents c' = [le_bytes FINGERPRINT_NUM_BYTES 7 \<mapsto> [5, 6]]"
proof -
  have sz: "size_ok 2" "pages_for 2 \<le> fc_num_free_pages example_cache"
    by (simp_all add: example_cache_ok size_ok_def pages_for_def config_defs)
  have nz: "le_bytes FINGERPRINT_NUM_BYTES 7 \<noteq> zero_key" by (rule le_bytes_key_nonzero) simp_all
  show ?thesis
    using insert_fingerprint_refines [OF example_cache_ok(1) nz sz(1), of "[5, 6, 9]" zero_entry] sz(2)
    by (auto simp: example_cache_ok take_Cons')
qed

text \<open>Lookup followed by copy reads the abstract map: for a digest the cache holds, the copy puts
  exactly the stored content at the destination and changes no other byte; for any other digest the
  lookup reports absence and leaves the caller's entry alone.\<close>

theorem lookup_copy_reads_contents:
  assumes "cache_ok c" "k \<noteq> zero_key"
  shows "case cache_contents c k of
      None \<Rightarrow> lookup_fingerprint c k r = (False, r)
    | Some x \<Rightarrow> \<exists>e. lookup_fingerprint c k r = (True, e) \<and> entry_content_size e = length x \<and>
        (\<forall>buf dest. dest + length x \<le> length buf \<longrightarrow>
           copy_fingerprint_content buf dest c e = bytes_put dest x buf)"
  using lookup_copy_spec [OF assms, of r] by (auto split: option.splits)

theorem lookup_copy_reads_contents_witness:
  "lookup_fingerprint example_cache (le_bytes FINGERPRINT_NUM_BYTES 7) zero_entry = (False, zero_entry)"
  using lookup_copy_reads_contents
    [OF example_cache_ok(1) le_bytes_key_nonzero, of 7 zero_entry]
  by (simp add: example_cache_ok)

text \<open>C31. A buffer chunked with the settings of the cache and stored chunk by chunk comes back: every
  digest of the chunking is then in the cache, and the contents read for the digests, one after the
  other, are the buffer. It needs one free page per 2048 bytes and that the digest separates the
  blocks of the buffer from each other and from what the cache holds.\<close>

theorem chunks_stored_and_reassembled:
  assumes "cache_ok c" "digests_ok sha c" "MIN_CHUNK_SIZE_BYTES < length data"
    and "length data \<le> 2048 * fc_num_free_pages c"
    and "\<forall>off n. sha (bytes_at off n data) \<noteq> zero_key"
    and "inj_on sha ({bytes_at off n data |off n. True} \<union> ran (cache_contents c))"
  shows "\<exists>fps sizes. do_fingerprinting sha (fc_fingerprinting_settings c) data = Some (fps, sizes) \<and>
    concat (map (\<lambda>fp. the (cache_fetch (fold (\<lambda>x c. cache_store c (sha x) x) (blocks_of sizes data) c) fp)) fps)
      = data"
proof -
  have set: "fc_fingerprinting_settings c = fingerprint_cache_settings"
    using assms(1) by (simp add: cache_ok_def)
  obtain fps sizes where df: "do_fingerprinting sha (fc_fingerprinting_settings c) data = Some (fps, sizes)"
    and run: "sum_list sizes = length data"
    "fps = map (\<lambda>i. sha (bytes_at (offset_of sizes i) (sizes ! i) data)) [0..<length sizes]"
    and bounds: "\<forall>z\<in>set sizes. MIN_CHUNK_SIZE_BYTES \<le> z \<and> z < MAX_CHUNK_SIZE_BYTES + MIN_CHUNK_SIZE_BYTES"
    using cache_chunking [OF assms(3), of sha] unfolding set by blast
  let ?vs = "blocks_of sizes data"
  let ?c = "cache.store_all sha ?vs c"
  have lens: "map length ?vs = sizes" using run(1) by (simp add: map_length_blocks)
  have block: "v \<in> {bytes_at off n data |off n. True}" if "v \<in> set ?vs" for v
    using that by (auto simp: blocks_of_def)
  have sz: "length v \<in> set sizes" if "v \<in> set ?vs" for v
    using that lens by (metis image_eqI list.set_map)
  have legal: "\<forall>v\<in>set ?vs. sha v \<noteq> zero_key \<and> size_ok (length v)"
  proof
    fix v assume v: "v \<in> set ?vs"
    then have "MIN_CHUNK_SIZE_BYTES \<le> length v" "length v < MAX_CHUNK_SIZE_BYTES + MIN_CHUNK_SIZE_BYTES"
      using sz bounds by blast+
    then show "sha v \<noteq> zero_key \<and> size_ok (length v)"
      using block [OF v] assms(5) by (auto intro!: chunk_size_ok simp: MIN_CHUNK_SIZE_BYTES_def)
  qed
  have "(\<Sum>v\<leftarrow>?vs. pages_for (length v)) = (\<Sum>z\<leftarrow>map length ?vs. pages_for z)" by (simp add: comp_def)
  then have cost: "(\<Sum>v\<leftarrow>?vs. pages_for (length v)) \<le> fc_num_free_pages c"
    unfolding lens using pages_for_chunks [of sizes] run(1) bounds assms(4) by simp
  have inj: "inj_on sha (set ?vs \<union> ran (cache_contents c))"
    using assms(6) by (rule inj_on_subset) (use block in auto)
  have fetch: "cache_fetch ?c (sha v) = Some v" if "v \<in> set ?vs" for v
    using assms(2) by (intro cache.store_all_fetch [OF assms(1) legal cost that _ inj]) (simp add: digests_ok_def)
  have fps: "fps = map sha ?vs" unfolding run(2) blocks_of_def by simp
  have "map (\<lambda>fp. the (cache_fetch ?c fp)) fps = ?vs"
    unfolding fps map_map comp_def by (rule map_idI) (simp add: fetch)
  then have "concat (map (\<lambda>fp. the (cache_fetch ?c fp)) fps) = data"
    using run(1) by (simp add: concat_blocks_of)
  then show ?thesis using df unfolding cache.store_all_def by blast
qed

theorem chunks_stored_and_reassembled_witness:
  "\<exists>fps sizes. do_fingerprinting id (fc_fingerprinting_settings example_cache) (replicate 3000 1) = Some (fps, sizes) \<and>
    concat (map (\<lambda>fp. the (cache_fetch (fold (\<lambda>x c. cache_store c (id x) x)
      (blocks_of sizes (replicate 3000 1)) example_cache) fp)) fps) = replicate 3000 1"
proof -
  have "bytes_at off n (replicate 3000 1) \<noteq> zero_key" for off n
  proof
    assume z: "bytes_at off n (replicate 3000 1) = zero_key"
    have "(0 :: u8) \<in> set zero_key" by (simp add: zero_key_def FINGERPRINT_NUM_BYTES_def)
    moreover have "set (bytes_at off n (replicate 3000 (1 :: u8))) \<subseteq> {1}"
      by (auto simp: bytes_at_def dest!: in_set_takeD in_set_dropD)
    ultimately show False using z by auto
  qed
  then show ?thesis
    using chunks_stored_and_reassembled [OF example_cache_ok(1), of id "replicate 3000 1"]
    by (simp add: digests_ok_def example_cache_ok MIN_CHUNK_SIZE_BYTES_def FINGERPRINT_CACHE_NUM_PAGES_eq)
qed

text \<open>Storing a content the cache already holds leaks pages: \<open>n\<close> repetitions leave every
  content as it was and take \<open>n\<close> times the pages, which nothing ever returns.\<close>

theorem duplicate_insertions_leak_pages:
  assumes "cache_ok c" "k \<noteq> zero_key" "size_ok (length x)" "cache_contents c k \<noteq> None"
    and "n * pages_for (length x) \<le> fc_num_free_pages c"
  shows "cache_contents (((\<lambda>c. cache_store c k x) ^^ n) c) = cache_contents c \<and>
         fc_num_free_pages (((\<lambda>c. cache_store c k x) ^^ n) c) =
           fc_num_free_pages c - n * pages_for (length x)"
proof -
  have "cache_ok (((\<lambda>c. cache_store c k x) ^^ n) c) \<and>
      cache_contents (((\<lambda>c. cache_store c k x) ^^ n) c) = cache_contents c \<and>
      fc_num_free_pages (((\<lambda>c. cache_store c k x) ^^ n) c) = fc_num_free_pages c - n * pages_for (length x)"
    using assms(5)
  proof (induction n)
    case 0
    then show ?case using assms(1) by simp
  next
    case (Suc n)
    let ?c = "((\<lambda>c. cache_store c k x) ^^ n) c"
    have IH: "cache_ok ?c" "cache_contents ?c = cache_contents c"
      "fc_num_free_pages ?c = fc_num_free_pages c - n * pages_for (length x)"
      using Suc by simp_all
    note S = cache_store_cases [OF IH(1) assms(2,3)]
    have "pages_for (length x) \<le> fc_num_free_pages ?c" using Suc.prems IH(3) by simp
    then show ?case using S IH assms(4) by simp
  qed
  then show ?thesis by simp
qed

theorem duplicate_insertions_leak_pages_witness:
  "fc_num_free_pages (((\<lambda>c. cache_store c (le_bytes FINGERPRINT_NUM_BYTES 7) [5]) ^^ 3)
     (cache_store example_cache (le_bytes FINGERPRINT_NUM_BYTES 7) [5])) =
   FINGERPRINT_CACHE_NUM_PAGES - 4"
proof -
  let ?k = "le_bytes FINGERPRINT_NUM_BYTES 7"
  have nz: "?k \<noteq> zero_key" by (rule le_bytes_key_nonzero) simp_all
  have sz: "size_ok (length [5 :: u8])" "pages_for (length [5 :: u8]) = 1"
    by (simp_all add: size_ok_def pages_for_def config_defs)
  note S = cache_store_cases [OF example_cache_ok(1) nz sz(1)]
  show ?thesis
    using duplicate_insertions_leak_pages [OF S(1) nz sz(1), of 3] S(2,3) sz
    by (simp add: example_cache_ok FINGERPRINT_CACHE_NUM_PAGES_eq)
qed

text \<open>Memory safety of the cache: every page an indexed entry names lies inside the cache.\<close>

theorem cache_pages_in_bounds:
  assumes "cache_ok c" "table_map (fc_table c) k = Some e" "j < pages_for (entry_content_size e)"
  shows "j < length (content_page_nums e) \<and>
         content_page_nums e ! j * FINGERPRINT_CACHE_PAGE_SIZE + FINGERPRINT_CACHE_PAGE_SIZE
           \<le> FINGERPRINT_CACHE_NUM_BYTES"
proof -
  have e: "entry_ok (used_pages c) e" using assms(1,2) by (simp add: cache_ok_def)
  then have "content_page_nums e ! j < num_pages_total" "j < length (content_page_nums e)"
    using assms(3) by (auto simp: entry_ok_def used_pages_def size_ok_def dest: less_le_trans)
  then show ?thesis by (simp add: config_defs)
qed

theorem cache_pages_in_bounds_witness:
  "\<exists>e. table_map (fc_table (cache_store example_cache (le_bytes FINGERPRINT_NUM_BYTES 7) [5]))
         (le_bytes FINGERPRINT_NUM_BYTES 7) = Some e \<and>
       content_page_nums e ! 0 * FINGERPRINT_CACHE_PAGE_SIZE + FINGERPRINT_CACHE_PAGE_SIZE
         \<le> FINGERPRINT_CACHE_NUM_BYTES"
proof -
  let ?k = "le_bytes FINGERPRINT_NUM_BYTES 7"
  let ?c = "cache_store example_cache ?k [5]"
  have nz: "?k \<noteq> zero_key" by (rule le_bytes_key_nonzero) simp_all
  have sz: "size_ok (length [5 :: u8])" "pages_for (length [5 :: u8]) = 1"
    by (simp_all add: size_ok_def pages_for_def config_defs)
  note S = cache_store_cases [OF example_cache_ok(1) nz sz(1)]
  have "cache_contents ?c ?k = Some [5]"
    using S(2) sz by (simp add: example_cache_ok FINGERPRINT_CACHE_NUM_PAGES_eq)
  then obtain e where e: "table_map (fc_table ?c) ?k = Some e" "entry_bytes (fc_cache ?c) e = [5]"
    by (auto simp: cache_contents_def)
  have "entry_content_size e = 1" using arg_cong [OF e(2), of length] by simp
  then have "0 < pages_for (entry_content_size e)" using sz by simp
  with e show ?thesis using cache_pages_in_bounds [OF S(1) e(1)] by blast
qed

end
