(* ===== verification/NetDevice.thy ===== *)
theory NetDevice
  imports Config
begin

text \<open>
  \<^verbatim>\<open>net_device.h\<close> and \<^verbatim>\<open>net_device.c\<close>: the discovery of the network interfaces the plugin
  offers. What the kernel answers for an interface (\<open>getifaddrs\<close>, \<open>ioctl\<close>, \<open>close\<close>, \<open>realpath\<close>) is
  data of the model: one \<open>If_Answers\<close> per interface. C strings are character lists without the
  terminator, so \<open>strncpy (d, s, n)\<close> followed by a terminator is \<open>take n s\<close>.
\<close>

section \<open>Data\<close>

datatype NetDeviceType = SOCKET | IB

datatype SocketState =
    SOCKET_STATE_NONE
  | SOCKET_STATE_INTIALIZED
  | SOCKET_STATE_ACCEPTING
  | SOCKET_STATE_ACCEPTED
  | SOCKET_STATE_CONNECTING
  | SOCKET_STATE_CONNECTED
  | SOCKET_STATE_READY
  | SOCKET_STATE_CLOSED
  | SOCKET_STATE_ERROR

record NetDev_Interface =
  nif_index :: int
  nif_flags :: int
  nif_speed :: int
  nif_duplex :: int
  nif_name :: string

text \<open>\<open>struct sockaddr_in\<close>: address and port.\<close>

record Sockaddr =
  sin_addr :: nat
  sin_port :: nat

record Net_Socket_Dev =
  sa :: Sockaddr
  pciPath :: string
  if_name :: string
  if_index :: int
  if_flags :: int
  if_speed :: int
  plugin_dev_num :: nat
  dev_fd :: int
  dev_acceptFd :: int
  socket_state :: SocketState

text \<open>The kernel's answers for one interface; \<open>None\<close> is a failing call, and \<open>ans_close\<close> lists the
  results of successive \<open>close\<close> calls (0, or the error number).\<close>

record If_Answers =
  ans_socket :: "nat option"
  ans_ifname :: "string option"
  ans_ifindex :: "int option"
  ans_flags :: "int option"
  ans_ethtool :: "(int \<times> int) option"
  ans_close :: "nat list"

record If_Addr =
  ifa_family :: nat
  ifa_name :: string
  ifa_addr :: Sockaddr
  ifa_answers :: If_Answers
  ifa_realpath :: "string option"

definition EINTR :: nat where "EINTR = 4"
definition EINVAL :: nat where "EINVAL = 22"
definition ENOENT :: nat where "ENOENT = 2"
definition AF_INET :: nat where "AF_INET = 2"
definition IF_NAMESIZE :: nat where "IF_NAMESIZE = 16"
definition IFF_UP :: int where "IFF_UP = 1"
definition IFF_LOOPBACK :: int where "IFF_LOOPBACK = 8"
definition DUPLEX_UNKNOWN :: int where "DUPLEX_UNKNOWN = 255"

section \<open>Operations\<close>

text \<open>\<open>do result = close (fd); while (result == -1 && errno == EINTR)\<close>: the final error number, 0 for
  success. No further answer means success.\<close>

fun close_retry :: "nat list \<Rightarrow> nat" where
  "close_retry [] = 0"
| "close_retry (e # es) = (if e = EINTR then close_retry es else e)"

definition get_interface_common :: "If_Answers \<Rightarrow> NetDev_Interface \<Rightarrow> nat \<times> NetDev_Interface" where
  "get_interface_common a info =
     (let info1 = info\<lparr>nif_flags := (case ans_flags a of None \<Rightarrow> 0 | Some f \<Rightarrow> f)\<rparr>;
          info2 = (case ans_ethtool a of
                     None \<Rightarrow> info1\<lparr>nif_speed := - 1, nif_duplex := DUPLEX_UNKNOWN\<rparr>
                   | Some (speed, duplex) \<Rightarrow> info1\<lparr>nif_speed := speed, nif_duplex := duplex\<rparr>)
      in (close_retry (ans_close a), info2))"

text \<open>The two lookups return an error number; a NULL argument is \<open>None\<close>.\<close>

definition get_interface_by_index ::
  "If_Answers \<Rightarrow> int \<Rightarrow> NetDev_Interface option \<Rightarrow> nat \<times> NetDev_Interface option" where
  "get_interface_by_index a index info =
     (case info of
        None \<Rightarrow> (EINVAL, None)
      | Some i \<Rightarrow>
          if index < 1 then (EINVAL, Some i)
          else (case ans_socket a of
                  Some e \<Rightarrow> (e, Some i)
                | None \<Rightarrow>
                    (case ans_ifname a of
                       None \<Rightarrow> (ENOENT, Some i)
                     | Some nm \<Rightarrow>
                         let (r, i') = get_interface_common a
                               (i\<lparr>nif_index := index, nif_name := take IF_NAMESIZE nm\<rparr>)
                         in (r, Some i'))))"

definition get_interface_by_name ::
  "If_Answers \<Rightarrow> string option \<Rightarrow> NetDev_Interface option \<Rightarrow> nat \<times> NetDev_Interface option" where
  "get_interface_by_name a name info =
     (case (name, info) of
        (Some (c # cs), Some i) \<Rightarrow>
          (case ans_socket a of
             Some e \<Rightarrow> (e, Some i)
           | None \<Rightarrow>
               (case ans_ifindex a of
                  None \<Rightarrow> (ENOENT, Some i)
                | Some ind \<Rightarrow>
                    let (r, i') = get_interface_common a
                          (i\<lparr>nif_index := ind, nif_name := take IF_NAMESIZE (c # cs)\<rparr>)
                    in (r, Some i')))
      | _ \<Rightarrow> (EINVAL, info))"

text \<open>The loop of \<open>init_net_socket_devs\<close>: \<open>n\<close> devices are registered in \<open>devs\<close>; -1 is an error
  return. The interface record is reused from one iteration to the next.\<close>

definition skip_interface :: "If_Addr \<Rightarrow> bool" where
  "skip_interface a \<longleftrightarrow> ifa_family a \<noteq> AF_INET \<or> length (ifa_name a) < 3 \<or> take 3 (ifa_name a) \<noteq> ''eno''"

definition register_device :: "If_Addr \<Rightarrow> NetDev_Interface \<Rightarrow> nat \<Rightarrow> string \<Rightarrow> Net_Socket_Dev \<Rightarrow> Net_Socket_Dev" where
  "register_device a info n path d =
     d\<lparr>sa := ifa_addr a, if_name := take IF_NAMESIZE (ifa_name a), if_index := nif_index info,
       if_flags := nif_flags info, if_speed := nif_speed info, plugin_dev_num := n,
       socket_state := SOCKET_STATE_NONE, pciPath := path\<rparr>"

fun init_devs_loop ::
  "If_Addr list \<Rightarrow> Net_Socket_Dev list \<Rightarrow> NetDev_Interface \<Rightarrow> nat \<Rightarrow> int \<times> Net_Socket_Dev list" where
  "init_devs_loop [] devs cur_if n = (int n, devs)"
| "init_devs_loop (a # as) devs cur_if n =
     (if \<not> n < MAX_NET_DEDUP_DEVS then (int n, devs)
      else if skip_interface a then init_devs_loop as devs cur_if n
      else (case get_interface_by_name (ifa_answers a) (Some (ifa_name a)) (Some cur_if) of
              (0, Some info) \<Rightarrow>
                if nif_flags info AND IFF_UP \<noteq> 0 \<and> nif_flags info AND IFF_LOOPBACK = 0
                then (case ifa_realpath a of
                        None \<Rightarrow> (- 1, devs)
                      | Some path \<Rightarrow>
                          init_devs_loop as (devs[n := register_device a info n path (devs ! n)]) info (n + 1))
                else init_devs_loop as devs info n
            | _ \<Rightarrow> (- 1, devs)))"

text \<open>\<open>getifaddrs\<close> is \<open>None\<close> when it fails.\<close>

definition init_net_socket_devs ::
  "If_Addr list option \<Rightarrow> NetDev_Interface \<Rightarrow> Net_Socket_Dev list \<Rightarrow> int \<times> Net_Socket_Dev list" where
  "init_net_socket_devs ifap uninit net_devices =
     (case ifap of None \<Rightarrow> (- 1, net_devices) | Some as \<Rightarrow> init_devs_loop as net_devices uninit 0)"

section \<open>What discovery finds\<close>

text \<open>An interface the plugin offers: an IPv4 address on an interface whose name starts with
  \<open>eno\<close>, up and not a loopback.\<close>

definition usable :: "If_Addr \<Rightarrow> bool" where
  "usable a \<longleftrightarrow> \<not> skip_interface a \<and>
     (\<exists>f. ans_flags (ifa_answers a) = Some f \<and> f AND IFF_UP \<noteq> 0 \<and> f AND IFF_LOOPBACK = 0)"

text \<open>No call that discovery depends on fails for the interface.\<close>

definition queries_ok :: "If_Addr \<Rightarrow> bool" where
  "queries_ok a \<longleftrightarrow> ans_socket (ifa_answers a) = None \<and> ans_ifindex (ifa_answers a) \<noteq> None \<and>
     close_retry (ans_close (ifa_answers a)) = 0 \<and> (usable a \<longrightarrow> ifa_realpath a \<noteq> None)"

lemma interface_query:
  assumes "\<not> skip_interface a" "queries_ok a"
  obtains info where
    "get_interface_by_name (ifa_answers a) (Some (ifa_name a)) (Some cur) = (0, Some info)"
    "nif_flags info = (case ans_flags (ifa_answers a) of None \<Rightarrow> 0 | Some f \<Rightarrow> f)"
proof -
  obtain c cs where nm: "ifa_name a = c # cs"
    using assms(1) by (cases "ifa_name a") (auto simp: skip_interface_def)
  obtain ind where "ans_socket (ifa_answers a) = None" "ans_ifindex (ifa_answers a) = Some ind"
    "close_retry (ans_close (ifa_answers a)) = 0"
    using assms(2) by (auto simp: queries_ok_def)
  then show ?thesis
    using nm that [of "snd (get_interface_common (ifa_answers a)
        (cur\<lparr>nif_index := ind, nif_name := take IF_NAMESIZE (ifa_name a)\<rparr>))"]
    by (simp add: get_interface_by_name_def get_interface_common_def Let_def split: option.splits prod.splits)
qed

lemma usable_iff:
  assumes "nif_flags info = (case ans_flags (ifa_answers a) of None \<Rightarrow> 0 | Some f \<Rightarrow> f)" "\<not> skip_interface a"
  shows "usable a \<longleftrightarrow> nif_flags info AND IFF_UP \<noteq> 0 \<and> nif_flags info AND IFF_LOOPBACK = 0"
  using assms by (auto simp: usable_def split: option.splits)

definition dev_of :: "Net_Socket_Dev \<Rightarrow> Sockaddr \<times> string \<times> nat" where
  "dev_of d = (sa d, if_name d, plugin_dev_num d)"

definition expected_devs :: "If_Addr list \<Rightarrow> nat \<Rightarrow> (Sockaddr \<times> string \<times> nat) list" where
  "expected_devs as n =
     (let us = take (MAX_NET_DEDUP_DEVS - n) (filter usable as)
      in map (\<lambda>(i, a). (ifa_addr a, take IF_NAMESIZE (ifa_name a), n + i)) (zip [0..<length us] us))"

lemma expected_devs_simps:
  "expected_devs [] n = []"
  "\<not> n < MAX_NET_DEDUP_DEVS \<Longrightarrow> expected_devs as n = []"
  "\<not> usable a \<Longrightarrow> expected_devs (a # as) n = expected_devs as n"
  "usable a \<Longrightarrow> n < MAX_NET_DEDUP_DEVS \<Longrightarrow> expected_devs (a # as) n =
     (ifa_addr a, take IF_NAMESIZE (ifa_name a), n) # expected_devs as (n + 1)"
proof -
  assume u: "usable a" "n < MAX_NET_DEDUP_DEVS"
  let ?us = "take (MAX_NET_DEDUP_DEVS - (n + 1)) (filter usable as)"
  have "take (MAX_NET_DEDUP_DEVS - n) (filter usable (a # as)) = a # ?us"
    using u by (cases "MAX_NET_DEDUP_DEVS - n") (auto simp: Suc_diff_Suc[symmetric])
  moreover have "zip [0..<length (a # ?us)] (a # ?us) = (0, a) # map (\<lambda>(i, b). (i + 1, b)) (zip [0..<length ?us] ?us)"
    by (intro nth_equalityI) (auto simp: nth_Cons' nth_append simp del: upt_Suc length_take split: prod.splits)
  ultimately show "expected_devs (a # as) n =
     (ifa_addr a, take IF_NAMESIZE (ifa_name a), n) # expected_devs as (n + 1)"
    unfolding expected_devs_def Let_def by (simp add: case_prod_unfold comp_def del: upt_Suc)
qed (simp_all add: expected_devs_def)

lemma init_devs_loop_spec:
  assumes "length devs = MAX_NET_DEDUP_DEVS" "n \<le> MAX_NET_DEDUP_DEVS" "\<forall>a\<in>set as. skip_interface a \<or> queries_ok a"
  shows "\<exists>devs'. init_devs_loop as devs cur n = (int (n + length (expected_devs as n)), devs') \<and>
    length devs' = MAX_NET_DEDUP_DEVS \<and> take n devs' = take n devs \<and>
    map dev_of (take (length (expected_devs as n)) (drop n devs')) = expected_devs as n"
  using assms
proof (induction as arbitrary: devs cur n)
  case Nil
  then show ?case by (simp add: expected_devs_simps)
next
  case (Cons a as)
  show ?case
  proof (cases "n < MAX_NET_DEDUP_DEVS \<and> \<not> skip_interface a")
    case False
    then show ?thesis
      using Cons by (cases "n < MAX_NET_DEDUP_DEVS") (auto simp: expected_devs_simps usable_def)
  next
    case True
    then have "queries_ok a" using Cons.prems(3) by auto
    then obtain info where info:
      "get_interface_by_name (ifa_answers a) (Some (ifa_name a)) (Some cur) = (0, Some info)"
      "nif_flags info = (case ans_flags (ifa_answers a) of None \<Rightarrow> 0 | Some f \<Rightarrow> f)"
      using interface_query True by blast
    note us = usable_iff [OF info(2)]
    show ?thesis
    proof (cases "usable a")
      case False
      then have "init_devs_loop (a # as) devs cur n = init_devs_loop as devs info n"
        using True info us by auto
      then show ?thesis using Cons.IH [OF Cons.prems(1,2)] Cons.prems(3) False
        by (simp add: expected_devs_simps)
    next
      case usable: True
      then obtain path where path: "ifa_realpath a = Some path"
        using \<open>queries_ok a\<close> by (auto simp: queries_ok_def)
      let ?d = "register_device a info n path (devs ! n)"
      let ?devs = "devs[n := ?d]"
      have "init_devs_loop (a # as) devs cur n = init_devs_loop as ?devs info (n + 1)"
        using True info us usable path by auto
      moreover obtain devs' where IH:
        "init_devs_loop as ?devs info (n + 1) = (int (n + 1 + length (expected_devs as (n + 1))), devs')"
        "length devs' = MAX_NET_DEDUP_DEVS" "take (n + 1) devs' = take (n + 1) ?devs"
        "map dev_of (take (length (expected_devs as (n + 1))) (drop (n + 1) devs')) = expected_devs as (n + 1)"
        using Cons.IH [of ?devs "n + 1" info] Cons.prems True by auto
      moreover have "devs' ! n = ?d"
      proof -
        have "devs' ! n = take (n + 1) devs' ! n" by simp
        also have "\<dots> = ?d" unfolding IH(3) using True Cons.prems(1) by simp
        finally show ?thesis .
      qed
      moreover have "drop n devs' = devs' ! n # drop (n + 1) devs'"
        using True IH(2) by (simp add: Cons_nth_drop_Suc)
      moreover have "take n devs' = take n devs"
      proof -
        have "take n devs' = take n (take (n + 1) devs')" by simp
        also have "\<dots> = take n devs" unfolding IH(3) by simp
        finally show ?thesis .
      qed
      moreover have "dev_of ?d = (ifa_addr a, take IF_NAMESIZE (ifa_name a), n)"
        by (simp add: dev_of_def register_device_def)
      ultimately show ?thesis
        using expected_devs_simps(4) [OF usable] True by (intro exI [of _ devs']) simp
    qed
  qed
qed

lemma init_devs_loop_count: "n \<le> MAX_NET_DEDUP_DEVS \<Longrightarrow>
   - 1 \<le> fst (init_devs_loop as devs cur n) \<and> fst (init_devs_loop as devs cur n) \<le> int MAX_NET_DEDUP_DEVS"
  by (induction as devs cur n rule: init_devs_loop.induct)
    (simp, subst init_devs_loop.simps(2), simp split: option.split prod.split nat.split)

section \<open>Properties\<close>

text \<open>Discovery is the filter it means to be: when no query of a candidate interface fails, the
  devices registered are the first 16 usable interfaces, in the order of the kernel's list, numbered
  from 0, and their number is returned.\<close>

theorem init_net_socket_devs_filters:
  assumes "length net_devices = MAX_NET_DEDUP_DEVS" "\<forall>a\<in>set as. skip_interface a \<or> queries_ok a"
  shows "\<exists>devs. init_net_socket_devs (Some as) uninit net_devices =
           (int (min MAX_NET_DEDUP_DEVS (length (filter usable as))), devs) \<and>
         length devs = MAX_NET_DEDUP_DEVS \<and>
         (\<forall>i < min MAX_NET_DEDUP_DEVS (length (filter usable as)).
            sa (devs ! i) = ifa_addr (filter usable as ! i) \<and>
            if_name (devs ! i) = take IF_NAMESIZE (ifa_name (filter usable as ! i)) \<and>
            plugin_dev_num (devs ! i) = i)"
proof -
  let ?us = "take MAX_NET_DEDUP_DEVS (filter usable as)"
  obtain devs where d: "init_devs_loop as net_devices uninit 0 = (int (length (expected_devs as 0)), devs)"
    "length devs = MAX_NET_DEDUP_DEVS"
    "map dev_of (take (length (expected_devs as 0)) devs) = expected_devs as 0"
    using init_devs_loop_spec [OF assms(1) le0 assms(2), of uninit] by auto
  have len: "length (expected_devs as 0) = length ?us" by (simp add: expected_devs_def)
  have "dev_of (devs ! i) = (ifa_addr (?us ! i), take IF_NAMESIZE (ifa_name (?us ! i)), i)"
    if "i < length ?us" for i
  proof -
    have "dev_of (devs ! i) = map dev_of (take (length (expected_devs as 0)) devs) ! i"
      using that d(2) len by simp
    also have "\<dots> = expected_devs as 0 ! i" by (simp only: d(3))
    finally show ?thesis using that by (simp add: expected_devs_def)
  qed
  then show ?thesis using d(1,2) len
    by (intro exI [of _ devs]) (auto simp: init_net_socket_devs_def dev_of_def)
qed

definition example_if :: "string \<Rightarrow> int \<Rightarrow> If_Addr" where
  "example_if nm flags =
     \<lparr>ifa_family = AF_INET, ifa_name = nm, ifa_addr = \<lparr>sin_addr = 7, sin_port = 0\<rparr>,
      ifa_answers = \<lparr>ans_socket = None, ans_ifname = None, ans_ifindex = Some 3, ans_flags = Some flags,
                     ans_ethtool = None, ans_close = [EINTR]\<rparr>,
      ifa_realpath = Some ''/sys''\<rparr>"

definition blank_dev :: Net_Socket_Dev where
  "blank_dev = \<lparr>sa = \<lparr>sin_addr = 0, sin_port = 0\<rparr>, pciPath = [], if_name = [], if_index = 0,
     if_flags = 0, if_speed = 0, plugin_dev_num = 0, dev_fd = 0, dev_acceptFd = 0,
     socket_state = SOCKET_STATE_NONE\<rparr>"

definition blank_interface :: NetDev_Interface where
  "blank_interface = \<lparr>nif_index = 0, nif_flags = 0, nif_speed = 0, nif_duplex = 0, nif_name = []\<rparr>"

theorem init_net_socket_devs_filters_witness:
  "\<exists>devs. init_net_socket_devs
       (Some [example_if ''lo'' 9, example_if ''eno1'' 1, example_if ''eno2'' 0, example_if ''eno3'' 65])
       blank_interface (replicate MAX_NET_DEDUP_DEVS blank_dev) = (2, devs) \<and> if_name (devs ! 1) = ''eno3''"
proof -
  let ?as = "[example_if ''lo'' 9, example_if ''eno1'' 1, example_if ''eno2'' 0, example_if ''eno3'' 65]"
  have q: "queries_ok (example_if nm f)" for nm f
    by (simp add: queries_ok_def example_if_def EINTR_def)
  have "filter usable ?as = [example_if ''eno1'' 1, example_if ''eno3'' 65]"
    by (simp add: usable_def skip_interface_def example_if_def IFF_UP_def IFF_LOOPBACK_def)
  then show ?thesis
    using init_net_socket_devs_filters [of "replicate MAX_NET_DEDUP_DEVS blank_dev" ?as blank_interface] q
    by (force simp: MAX_NET_DEDUP_DEVS_def example_if_def IF_NAMESIZE_def)
qed

text \<open>Whatever the kernel answers, discovery returns -1 or a count that the array of 16 devices can hold.\<close>

lemma init_net_socket_devs_bound:
  "- 1 \<le> fst (init_net_socket_devs ifap uninit net_devices) \<and>
   fst (init_net_socket_devs ifap uninit net_devices) \<le> int MAX_NET_DEDUP_DEVS"
  using init_devs_loop_count [of 0]
  by (simp add: init_net_socket_devs_def MAX_NET_DEDUP_DEVS_def split: option.split)

end
