(* ===== verification/Transport.thy ===== *)
theory Transport
  imports FingerprintCache NetDevice
begin

text \<open>
  The data of \<^verbatim>\<open>net_dedup.h\<close> and the world the transport runs in. A socket is the bytes it
  has written that the peer has not been given yet (\<open>sk_out\<close>), the bytes that have arrived and were
  not read yet (\<open>sk_in\<close>) and the kernel's answers to the next calls (\<open>sk_answers\<close>): a call fails with
  an error number or moves some number of bytes, and with no answer left it would block. The rest of
  the world is the process state the functions share: the cache, the \<open>to_skip_insert_cache\<close> switch,
  \<open>active_fds\<close>, the dump files and \<open>errno\<close>.

  Sending uses a request record. The part of a receive request that socket reads write into, from
  its header to the end of the packaged fingerprints, is modelled as the bytes it occupies
  (\<open>rr_mem\<close>), because the source computes addresses inside it.
\<close>

section \<open>Sockets and shared state\<close>

datatype answer = Fails nat | Moves nat

record Sock =
  sk_answers :: "answer list"
  sk_out :: "u8 list"
  sk_in :: "u8 list"

record Net_Dedup_State =
  num_net_devices :: int
  net_devices :: "Net_Socket_Dev list"

record World =
  socks :: "int \<Rightarrow> Sock"
  errno :: nat
  global_fingerprint_cache :: Fingerprint_Cache
  to_skip_insert_cache :: bool
  active_fds :: "int \<Rightarrow> bool"
  max_requests_per_comm :: int
  net_dedup_state :: Net_Dedup_State
  dump_lock :: bool
  dump_bytes_file :: "u8 list"
  dump_sizes_file :: "int list"
  dump_bytes_room :: nat
  dump_sizes_room :: nat

definition EAGAIN :: nat where "EAGAIN = 11"
definition EWOULDBLOCK :: nat where "EWOULDBLOCK = 11"

text \<open>\<open>send (fd, bs, length bs, 0)\<close> and \<open>recv (fd, _, n, 0)\<close>; the latter also returns the bytes
  it put into the caller's buffer.\<close>

definition sock_send :: "int \<Rightarrow> u8 list \<Rightarrow> World \<Rightarrow> int \<times> World" where
  "sock_send fd bs w =
     (case sk_answers (socks w fd) of
        [] \<Rightarrow> (- 1, w\<lparr>errno := EAGAIN\<rparr>)
      | Fails e # as \<Rightarrow>
          (- 1, w\<lparr>errno := e, socks := (socks w)(fd := (socks w fd)\<lparr>sk_answers := as\<rparr>)\<rparr>)
      | Moves k # as \<Rightarrow>
          (int (min k (length bs)),
           w\<lparr>socks := (socks w)(fd := (socks w fd)
               \<lparr>sk_answers := as, sk_out := sk_out (socks w fd) @ take k bs\<rparr>)\<rparr>))"

definition sock_recv :: "int \<Rightarrow> nat \<Rightarrow> World \<Rightarrow> int \<times> u8 list \<times> World" where
  "sock_recv fd n w =
     (case sk_answers (socks w fd) of
        [] \<Rightarrow> (- 1, [], w\<lparr>errno := EAGAIN\<rparr>)
      | Fails e # as \<Rightarrow>
          (- 1, [], w\<lparr>errno := e, socks := (socks w)(fd := (socks w fd)\<lparr>sk_answers := as\<rparr>)\<rparr>)
      | Moves k # as \<Rightarrow>
          (let bs = take (min k n) (sk_in (socks w fd))
           in (int (length bs), bs,
               w\<lparr>socks := (socks w)(fd := (socks w fd)
                   \<lparr>sk_answers := as, sk_in := drop (length bs) (sk_in (socks w fd))\<rparr>)\<rparr>)))"

text \<open>\<open>if ((errno = EAGAIN) || (errno == EWOULDBLOCK)) return 0; ... return -1;\<close> as it stands after
  the failing calls of the protocol: the first operand is an assignment.\<close>

definition retry_on_error :: "World \<Rightarrow> int \<times> World" where
  "retry_on_error w =
     (let w1 = w\<lparr>errno := EAGAIN\<rparr>
      in if errno w1 \<noteq> 0 \<or> errno w1 = EWOULDBLOCK then (0, w1) else (- 1, w1))"

lemma retry_on_error_0: "retry_on_error w = (0, w\<lparr>errno := EAGAIN\<rparr>)"
  by (simp add: retry_on_error_def EAGAIN_def Let_def)

section \<open>Requests\<close>

datatype RecvReqStage =
    RECV_HEADER
  | RECV_REG_DATA
  | RECV_FINGERPRINT_HEADER
  | RECV_PACKAGED_FINGERPRINTS
  | POPULATE_FROM_NET_CACHE
  | SEND_MISSING_FINGERPRINT_HEADER
  | SEND_MISSING_FINGERPRINTS
  | RECV_MISSING_CONTENT
  | INSERT_INBOUND_FINGERPRINTS
  | RECV_COMPLETE

datatype SendReqStage =
    SEND_HEADER
  | SEND_REG_DATA
  | COMPUTE_FINGERPRINTS
  | INSERT_OUTBOUND_FINGERPRINTS
  | SEND_FINGERPRINT_HEADER
  | SEND_PACKAGED_FINGERPRINTS
  | RECV_MISSING_FINGERPRINT_HEADER
  | RECV_MISSING_FINGERPRINTS
  | SEND_MISSING_CONTENT
  | SEND_COMPLETE

text \<open>\<open>General_Header\<close> occupies 16 bytes: the flag, seven bytes of padding, the size.
  \<open>Fingerprint_Header\<close> and \<open>Missing_Fingerprint_Header\<close> are one \<open>uint64_t\<close> each.\<close>

record General_Header =
  is_fingerprint :: u8
  header_content_size :: nat

definition sizeof_General_Header :: nat where "sizeof_General_Header = 16"
definition sizeof_Fingerprint_Header :: nat where "sizeof_Fingerprint_Header = 8"
definition sizeof_Missing_Fingerprint_Header :: nat where "sizeof_Missing_Fingerprint_Header = 8"
definition sizeof_Fingerprint :: nat where "sizeof_Fingerprint = 40"

definition header_image :: "General_Header \<Rightarrow> u8 list" where
  "header_image h = is_fingerprint h # replicate 7 0 @ le_bytes 8 (header_content_size h)"

definition fingerprint_image :: "Fingerprint \<Rightarrow> u8 list" where
  "fingerprint_image fp = le_bytes 8 (fp_content_size fp) @ fp_fingerprint fp"

record Fingerprint_Send_State =
  ss_packaged_fingerprints :: "Fingerprint list"
  ss_fingerprint_offsets :: "nat list"
  ss_packaged_fingerprints_size_bytes :: nat
  ss_send_fingerprint_offset :: nat
  ss_missing_fingerprint_header :: "u8 list"
  ss_missing_fingerprint_header_offset :: nat
  ss_missing_fingerprint_inds :: "u8 list"
  ss_recv_missing_fingerprint_inds_offset :: nat
  ss_cur_reply_content_fingerprint_ind :: nat
  ss_cur_reply_content_fingerprint_offset :: nat

record Dedup_Send_Req =
  sr_sockfd :: int
  sr_stage :: SendReqStage
  sr_header :: General_Header
  sr_send_header_offset :: nat
  sr_num_fingerprints :: nat
  sr_send_fingerprint_header_offset :: nat
  sr_send_fingerprint_state :: Fingerprint_Send_State
  sr_size :: nat
  sr_data :: "u8 list"
  sr_offset :: nat

record Fingerprint_Recv_State =
  rs_packaged_fingerprints_size_bytes :: nat
  rs_recv_fingerprint_offset :: nat
  rs_missing_fingerprint_inds :: "nat list"
  rs_missing_fingerprint_slots :: "nat list"
  rs_num_missing_fingerprints :: nat
  rs_missing_fingerprint_header_offset :: nat
  rs_send_missing_fingerprint_inds_offset :: nat
  rs_cur_recv_content_ind :: nat
  rs_cur_recv_content_offset :: nat

text \<open>\<open>rr_mem\<close> is the bytes of a receive request from \<open>header\<close> on: the header (16), its offset
  (4, padded to 8), the fingerprint header (8), its offset (4, padded to 8), and the packaged
  fingerprints, 40 bytes each. A slot is a position in the application buffer.\<close>

record Dedup_Recv_Req =
  rr_sockfd :: int
  rr_stage :: RecvReqStage
  rr_mem :: "u8 list"
  rr_recv_fingerprint_state :: Fingerprint_Recv_State
  rr_size :: nat
  rr_app_buffer :: "u8 list"
  rr_app_offset :: nat
  rr_app_filled_size :: nat

datatype ReqType = SEND_REQ | RECV_REQ

section \<open>Facts about the socket calls\<close>

lemma sock_send_cases:
  obtains (fail) w' where "sock_send fd bs w = (- 1, w')"
      "\<And>x. socks w' x = (if x = fd then (socks w fd)\<lparr>sk_answers := sk_answers (socks w' fd)\<rparr> else socks w x)"
      "global_fingerprint_cache w' = global_fingerprint_cache w"
      "to_skip_insert_cache w' = to_skip_insert_cache w"
  | (move) k as where "sk_answers (socks w fd) = Moves k # as"
      "sock_send fd bs w = (int (length (take k bs)),
        w\<lparr>socks := (socks w)(fd := (socks w fd)
          \<lparr>sk_answers := as, sk_out := sk_out (socks w fd) @ take k bs\<rparr>)\<rparr>)"
proof (cases "sk_answers (socks w fd)")
  case Nil
  then show ?thesis
    by (intro fail [of "w\<lparr>errno := EAGAIN\<rparr>"]) (simp_all add: sock_send_def)
next
  case (Cons a as)
  then show ?thesis
  proof (cases a)
    case (Fails e)
    then show ?thesis using Cons
      by (intro fail [of "w\<lparr>errno := e, socks := (socks w)(fd := (socks w fd)\<lparr>sk_answers := as\<rparr>)\<rparr>"])
        (simp_all add: sock_send_def)
  next
    case (Moves k)
    then show ?thesis using Cons by (intro move [of k as]) (simp_all add: sock_send_def min.commute)
  qed
qed

lemma sock_recv_cases:
  obtains (fail) w' where "sock_recv fd n w = (- 1, [], w')"
      "\<And>x. socks w' x = (if x = fd then (socks w fd)\<lparr>sk_answers := sk_answers (socks w' fd)\<rparr> else socks w x)"
      "global_fingerprint_cache w' = global_fingerprint_cache w"
      "to_skip_insert_cache w' = to_skip_insert_cache w"
  | (move) k as bs where "sk_answers (socks w fd) = Moves k # as"
      "bs = take (min k n) (sk_in (socks w fd))" "length bs \<le> n"
      "sock_recv fd n w = (int (length bs), bs,
        w\<lparr>socks := (socks w)(fd := (socks w fd)
          \<lparr>sk_answers := as, sk_in := drop (length bs) (sk_in (socks w fd))\<rparr>)\<rparr>)"
      "sk_in (socks w fd) = bs @ drop (length bs) (sk_in (socks w fd))"
proof (cases "sk_answers (socks w fd)")
  case Nil
  then show ?thesis
    by (intro fail [of "w\<lparr>errno := EAGAIN\<rparr>"]) (simp_all add: sock_recv_def)
next
  case (Cons a as)
  then show ?thesis
  proof (cases a)
    case (Fails e)
    then show ?thesis using Cons
      by (intro fail [of "w\<lparr>errno := e, socks := (socks w)(fd := (socks w fd)\<lparr>sk_answers := as\<rparr>)\<rparr>"])
        (simp_all add: sock_recv_def)
  next
    case (Moves k)
    let ?bs = "take (min k n) (sk_in (socks w fd))"
    have "sk_in (socks w fd) = ?bs @ drop (length ?bs) (sk_in (socks w fd))"
      by (metis append_take_drop_id length_take take_all_iff linorder_le_cases min.absorb1 min.absorb2
          drop_all append_Nil2)
    then show ?thesis using Cons Moves
      by (intro move [of k as ?bs]) (simp_all add: sock_recv_def Let_def)
  qed
qed

lemma length_header_image [simp, layout]: "length (header_image h) = sizeof_General_Header"
  by (simp add: header_image_def sizeof_General_Header_def)

lemma length_fingerprint_image [layout]:
  "length (fp_fingerprint fp) = FINGERPRINT_NUM_BYTES \<Longrightarrow> length (fingerprint_image fp) = sizeof_Fingerprint"
  by (simp add: fingerprint_image_def sizeof_Fingerprint_def FINGERPRINT_NUM_BYTES_def)

end
