(* ===== verification/SendReq.thy ===== *)
theory SendReq
  imports Transport
begin

text \<open>
  The sending half of \<^verbatim>\<open>net_dedup.c\<close>: the stage handlers of a send request and the stage loop
  \<open>process_send\<close>. Every handler takes the request and the world and returns the C result (1 continue,
  0 try again later, -1 error) with the new request and world. The digest (OpenSSL's SHA-256) is the
  parameter \<open>sha\<close>. Chunking is a loop that a bad parameter set could keep from ending, so the
  handler that calls it, and with it the stage loop, returns an option: \<open>None\<close> is a call that never
  returns. Sizes and offsets are natural numbers; the products the source computes from numbers read
  off the wire are taken modulo 2 to the 64.
\<close>

section \<open>The memory of a send request\<close>

text \<open>The bytes from \<open>header\<close> on: header, its offset, fingerprint header, its offset, packaged
  fingerprints, with the padding the ABI puts between them (zeroed by \<open>isend\<close>).\<close>

definition send_req_image :: "Dedup_Send_Req \<Rightarrow> u8 list" where
  "send_req_image sr =
     header_image (sr_header sr) @ le_bytes 4 (sr_send_header_offset sr) @ replicate 4 0 @
     le_bytes 8 (sr_num_fingerprints sr) @ le_bytes 4 (sr_send_fingerprint_header_offset sr) @ replicate 4 0 @
     concat (map fingerprint_image (ss_packaged_fingerprints (sr_send_fingerprint_state sr)))"

abbreviation sr_state :: "Dedup_Send_Req \<Rightarrow> Fingerprint_Send_State" where
  "sr_state \<equiv> sr_send_fingerprint_state"

text \<open>Where \<open>fingerprint_header\<close> starts in it.\<close>

definition fingerprint_header_pos :: nat where "fingerprint_header_pos = 24"

section \<open>Headers and plain data\<close>

text \<open>\<open>&(send_req->header) + prev_sent\<close> advances by whole headers, 16 bytes each.\<close>

definition process_send_header :: "Dedup_Send_Req \<Rightarrow> World \<Rightarrow> int \<times> Dedup_Send_Req \<times> World" where
  "process_send_header sr w =
     (let prev_sent = sr_send_header_offset sr;
          remain_size = sizeof_General_Header - prev_sent;
          cur_header = bytes_at (sizeof_General_Header * prev_sent) remain_size (send_req_image sr);
          (sent_bytes, w1) = sock_send (sr_sockfd sr) cur_header w
      in if sent_bytes = - 1 then (case retry_on_error w1 of (r, w2) \<Rightarrow> (r, sr, w2))
         else if sent_bytes < int remain_size
         then (0, sr\<lparr>sr_send_header_offset := prev_sent + nat sent_bytes\<rparr>, w1)
         else (1, sr, w1))"

definition process_send_reg_data :: "Dedup_Send_Req \<Rightarrow> World \<Rightarrow> int \<times> Dedup_Send_Req \<times> World" where
  "process_send_reg_data sr w =
     (let remain_bytes = sr_size sr - sr_offset sr
      in if remain_bytes = 0 then (1, sr, w)
         else let (sent_bytes, w1) =
                    sock_send (sr_sockfd sr) (bytes_at (sr_offset sr) remain_bytes (sr_data sr)) w
              in if sent_bytes = - 1 then (case retry_on_error w1 of (r, w2) \<Rightarrow> (r, sr, w2))
                 else let sr1 = sr\<lparr>sr_offset := sr_offset sr + nat sent_bytes\<rparr>
                      in (if sr_offset sr1 < sr_size sr then 0 else 1, sr1, w1))"

section \<open>Computing and caching the fingerprints\<close>

text \<open>An array after its first \<open>length new\<close> elements were written; there is no bound check.\<close>

definition write_prefix :: "'a list \<Rightarrow> 'a list \<Rightarrow> 'a list" where
  "write_prefix new old = new @ drop (length new) old"

definition dedup_fingerprinting ::
  "(u8 list \<Rightarrow> u8 list) \<Rightarrow> World \<Rightarrow> u8 list \<Rightarrow> Fingerprint list \<Rightarrow> (nat \<times> Fingerprint list) option" where
  "dedup_fingerprinting sha w data packaged =
     map_option (\<lambda>(fps, sizes).
         (length sizes,
          write_prefix (map2 (\<lambda>fp z. \<lparr>fp_content_size = z, fp_fingerprint = bytes_at 0 FINGERPRINT_NUM_BYTES fp\<rparr>)
            fps sizes) packaged))
       (do_fingerprinting sha (fc_fingerprinting_settings (global_fingerprint_cache w)) data)"

fun fingerprint_offsets_loop :: "Fingerprint list \<Rightarrow> nat \<Rightarrow> nat list" where
  "fingerprint_offsets_loop [] cur_offset = []"
| "fingerprint_offsets_loop (fp # fps) cur_offset =
     cur_offset # fingerprint_offsets_loop fps (cur_offset + fp_content_size fp)"

definition process_compute_fingerprints ::
  "(u8 list \<Rightarrow> u8 list) \<Rightarrow> Dedup_Send_Req \<Rightarrow> World \<Rightarrow> (int \<times> Dedup_Send_Req \<times> World) option" where
  "process_compute_fingerprints sha sr w =
     map_option (\<lambda>(num, packaged).
         (1, sr\<lparr>sr_num_fingerprints := num,
              sr_send_fingerprint_state := (sr_state sr)
                \<lparr>ss_packaged_fingerprints := packaged,
                 ss_fingerprint_offsets :=
                   write_prefix (fingerprint_offsets_loop (take num packaged) 0)
                     (ss_fingerprint_offsets (sr_state sr)),
                 ss_send_fingerprint_offset := 0,
                 ss_packaged_fingerprints_size_bytes := num * sizeof_Fingerprint,
                 ss_missing_fingerprint_header := replicate sizeof_Missing_Fingerprint_Header 0,
                 ss_missing_fingerprint_header_offset := 0,
                 ss_recv_missing_fingerprint_inds_offset := 0,
                 ss_cur_reply_content_fingerprint_ind := 0,
                 ss_cur_reply_content_fingerprint_offset := 0\<rparr>\<rparr>, w))
       (dedup_fingerprinting sha w (bytes_at 0 (sr_size sr) (sr_data sr))
          (ss_packaged_fingerprints (sr_state sr)))"

definition my_breakpoint_func :: "nat \<Rightarrow> int" where
  "my_breakpoint_func num_fingerprints = to_int32 (num_fingerprints div 2 ^ 60)"

text \<open>The insertion loop; \<open>True\<close> when the cache ran out of pages. \<open>new_entry\<close> is a local the loop
  reuses, \<open>cur\<close> the position of \<open>cur_buffer\<close> in the data.\<close>

fun insert_outbound_loop ::
  "Fingerprint_Cache \<Rightarrow> Fingerprint list \<Rightarrow> u8 list \<Rightarrow> nat \<Rightarrow> Fingerprint_Entry \<Rightarrow> bool \<times> Fingerprint_Cache" where
  "insert_outbound_loop c [] data cur new_entry = (False, c)"
| "insert_outbound_loop c (fp # fps) data cur new_entry =
     (case insert_fingerprint c fp (drop cur data) new_entry of
        (ret, c1, entry1) \<Rightarrow>
          if ret \<noteq> 0 then (True, c1)
          else insert_outbound_loop c1 fps data (cur + fp_content_size fp) entry1)"

definition process_insert_outbound_fingerprints ::
  "Dedup_Send_Req \<Rightarrow> World \<Rightarrow> int \<times> Dedup_Send_Req \<times> World" where
  "process_insert_outbound_fingerprints sr w =
     (if to_skip_insert_cache w then (1, sr, w)
      else if fc_cache_lock (global_fingerprint_cache w) then (0, sr, w)
      else let locked = (global_fingerprint_cache w)\<lparr>fc_cache_lock := True\<rparr>;
               fps = take (sr_num_fingerprints sr) (ss_packaged_fingerprints (sr_state sr));
               (full, c1) = insert_outbound_loop locked fps (sr_data sr) 0 zero_entry;
               w1 = w\<lparr>global_fingerprint_cache := c1\<lparr>fc_cache_lock := False\<rparr>\<rparr>
           in (1, sr, if full then w1\<lparr>to_skip_insert_cache := True\<rparr> else w1))"

section \<open>Sending the fingerprints\<close>

text \<open>\<open>&(send_req->fingerprint_header) + prev_sent\<close> advances by 8 bytes per unit.\<close>

definition process_send_fingerprint_header ::
  "Dedup_Send_Req \<Rightarrow> World \<Rightarrow> int \<times> Dedup_Send_Req \<times> World" where
  "process_send_fingerprint_header sr w =
     (let prev_sent = sr_send_fingerprint_header_offset sr;
          remain_size = sizeof_Fingerprint_Header - prev_sent;
          cur_header = bytes_at (fingerprint_header_pos + sizeof_Fingerprint_Header * prev_sent) remain_size
                         (send_req_image sr);
          (sent_bytes, w1) = sock_send (sr_sockfd sr) cur_header w
      in if sent_bytes = - 1 then (case retry_on_error w1 of (r, w2) \<Rightarrow> (r, sr, w2))
         else if sent_bytes < int remain_size
         then (0, sr\<lparr>sr_send_fingerprint_header_offset := prev_sent + nat sent_bytes\<rparr>, w1)
         else (1, sr, w1))"

definition process_send_packaged_fingerprints ::
  "Dedup_Send_Req \<Rightarrow> World \<Rightarrow> int \<times> Dedup_Send_Req \<times> World" where
  "process_send_packaged_fingerprints sr w =
     (let prev_sent = ss_send_fingerprint_offset (sr_state sr);
          remain_size = ss_packaged_fingerprints_size_bytes (sr_state sr) - prev_sent;
          cur = bytes_at prev_sent remain_size
                  (concat (map fingerprint_image (ss_packaged_fingerprints (sr_state sr))));
          (sent_bytes, w1) = sock_send (sr_sockfd sr) cur w
      in if sent_bytes = - 1 then (case retry_on_error w1 of (r, w2) \<Rightarrow> (r, sr, w2))
         else if sent_bytes < int remain_size
         then (0, sr\<lparr>sr_send_fingerprint_state := (sr_state sr)
                       \<lparr>ss_send_fingerprint_offset := prev_sent + nat sent_bytes\<rparr>\<rparr>, w1)
         else (1, sr, w1))"

section \<open>The reply and the missing contents\<close>

definition sr_num_missing :: "Dedup_Send_Req \<Rightarrow> nat" where
  "sr_num_missing sr = le_value (ss_missing_fingerprint_header (sr_state sr))"

definition sr_missing_ind :: "Dedup_Send_Req \<Rightarrow> nat \<Rightarrow> nat" where
  "sr_missing_ind sr i = le_value (bytes_at (8 * i) 8 (ss_missing_fingerprint_inds (sr_state sr)))"

definition process_recv_missing_fingerprint_header ::
  "Dedup_Send_Req \<Rightarrow> World \<Rightarrow> int \<times> Dedup_Send_Req \<times> World" where
  "process_recv_missing_fingerprint_header sr w =
     (let prev_recv = ss_missing_fingerprint_header_offset (sr_state sr);
          remain_size = sizeof_Missing_Fingerprint_Header - prev_recv;
          (recv_bytes, bs, w1) = sock_recv (sr_sockfd sr) remain_size w;
          sr1 = sr\<lparr>sr_send_fingerprint_state := (sr_state sr)
                  \<lparr>ss_missing_fingerprint_header :=
                     bytes_put prev_recv bs (ss_missing_fingerprint_header (sr_state sr))\<rparr>\<rparr>
      in if recv_bytes = - 1 then (case retry_on_error w1 of (r, w2) \<Rightarrow> (r, sr, w2))
         else if recv_bytes < int remain_size
         then (0, sr1\<lparr>sr_send_fingerprint_state := (sr_state sr1)
                       \<lparr>ss_missing_fingerprint_header_offset := prev_recv + nat recv_bytes\<rparr>\<rparr>, w1)
         else (1, sr1, w1))"

definition process_recv_missing_fingerprints ::
  "Dedup_Send_Req \<Rightarrow> World \<Rightarrow> int \<times> Dedup_Send_Req \<times> World" where
  "process_recv_missing_fingerprints sr w =
     (let total_size = (sr_num_missing sr * 8) mod 2 ^ 64;
          prev_recv = ss_recv_missing_fingerprint_inds_offset (sr_state sr);
          remain_size = total_size - prev_recv;
          (recv_bytes, bs, w1) = sock_recv (sr_sockfd sr) remain_size w;
          sr1 = sr\<lparr>sr_send_fingerprint_state := (sr_state sr)
                  \<lparr>ss_missing_fingerprint_inds :=
                     bytes_put prev_recv bs (ss_missing_fingerprint_inds (sr_state sr))\<rparr>\<rparr>
      in if recv_bytes = - 1 then (case retry_on_error w1 of (r, w2) \<Rightarrow> (r, sr, w2))
         else if recv_bytes < int remain_size
         then (0, sr1\<lparr>sr_send_fingerprint_state := (sr_state sr1)
                       \<lparr>ss_recv_missing_fingerprint_inds_offset := prev_recv + nat recv_bytes\<rparr>\<rparr>, w1)
         else (1, sr1, w1))"

text \<open>The loop of \<open>process_send_missing_content\<close> from index \<open>i\<close> with \<open>n\<close> contents left.\<close>

fun send_missing_content_loop ::
  "Dedup_Send_Req \<Rightarrow> World \<Rightarrow> nat \<Rightarrow> nat \<Rightarrow> nat \<Rightarrow> int \<times> Dedup_Send_Req \<times> World" where
  "send_missing_content_loop sr w i cur_offset 0 = (1, sr, w)"
| "send_missing_content_loop sr w i cur_offset (Suc n) =
     (let reply_ind = sr_missing_ind sr i;
          remain_bytes = fp_content_size (ss_packaged_fingerprints (sr_state sr) ! reply_ind) - cur_offset;
          cur = bytes_at (ss_fingerprint_offsets (sr_state sr) ! reply_ind + cur_offset) remain_bytes (sr_data sr);
          (sent_bytes, w1) = sock_send (sr_sockfd sr) cur w
      in if sent_bytes = - 1 then (case retry_on_error w1 of (r, w2) \<Rightarrow> (r, sr, w2))
         else if sent_bytes < int remain_bytes
         then (0, sr\<lparr>sr_send_fingerprint_state := (sr_state sr)
                       \<lparr>ss_cur_reply_content_fingerprint_ind := i,
                        ss_cur_reply_content_fingerprint_offset := cur_offset + nat sent_bytes\<rparr>\<rparr>, w1)
         else send_missing_content_loop
                (sr\<lparr>sr_send_fingerprint_state := (sr_state sr)
                      \<lparr>ss_cur_reply_content_fingerprint_ind := i + 1,
                       ss_cur_reply_content_fingerprint_offset := 0\<rparr>\<rparr>) w1 (i + 1) 0 n)"

definition process_send_missing_content ::
  "Dedup_Send_Req \<Rightarrow> World \<Rightarrow> int \<times> Dedup_Send_Req \<times> World" where
  "process_send_missing_content sr w =
     (let i = ss_cur_reply_content_fingerprint_ind (sr_state sr)
      in send_missing_content_loop sr w i (ss_cur_reply_content_fingerprint_offset (sr_state sr))
           (sr_num_missing sr - i))"

definition process_send_complete :: "Dedup_Send_Req \<Rightarrow> Dedup_Send_Req" where
  "process_send_complete sr = sr"

section \<open>The stage loop\<close>

text \<open>One pass through the \<open>switch\<close>: the handler of the stage, and the next stage if it returned 1.\<close>

definition send_next_stage :: "SendReqStage \<Rightarrow> Dedup_Send_Req \<Rightarrow> SendReqStage" where
  "send_next_stage s sr =
     (case s of
        SEND_HEADER \<Rightarrow> if is_fingerprint (sr_header sr) \<noteq> 0 then COMPUTE_FINGERPRINTS else SEND_REG_DATA
      | SEND_REG_DATA \<Rightarrow> SEND_COMPLETE
      | COMPUTE_FINGERPRINTS \<Rightarrow> INSERT_OUTBOUND_FINGERPRINTS
      | INSERT_OUTBOUND_FINGERPRINTS \<Rightarrow> SEND_FINGERPRINT_HEADER
      | SEND_FINGERPRINT_HEADER \<Rightarrow> SEND_PACKAGED_FINGERPRINTS
      | SEND_PACKAGED_FINGERPRINTS \<Rightarrow> RECV_MISSING_FINGERPRINT_HEADER
      | RECV_MISSING_FINGERPRINT_HEADER \<Rightarrow>
          if sr_num_missing sr = 0 then SEND_COMPLETE else RECV_MISSING_FINGERPRINTS
      | RECV_MISSING_FINGERPRINTS \<Rightarrow> SEND_MISSING_CONTENT
      | SEND_MISSING_CONTENT \<Rightarrow> SEND_COMPLETE
      | SEND_COMPLETE \<Rightarrow> SEND_COMPLETE)"

definition send_handler ::
  "(u8 list \<Rightarrow> u8 list) \<Rightarrow> SendReqStage \<Rightarrow> Dedup_Send_Req \<Rightarrow> World \<Rightarrow> (int \<times> Dedup_Send_Req \<times> World) option" where
  "send_handler sha s sr w =
     (case s of
        SEND_HEADER \<Rightarrow> Some (process_send_header sr w)
      | SEND_REG_DATA \<Rightarrow> Some (process_send_reg_data sr w)
      | COMPUTE_FINGERPRINTS \<Rightarrow> process_compute_fingerprints sha sr w
      | INSERT_OUTBOUND_FINGERPRINTS \<Rightarrow> Some (process_insert_outbound_fingerprints sr w)
      | SEND_FINGERPRINT_HEADER \<Rightarrow> Some (process_send_fingerprint_header sr w)
      | SEND_PACKAGED_FINGERPRINTS \<Rightarrow> Some (process_send_packaged_fingerprints sr w)
      | RECV_MISSING_FINGERPRINT_HEADER \<Rightarrow> Some (process_recv_missing_fingerprint_header sr w)
      | RECV_MISSING_FINGERPRINTS \<Rightarrow> Some (process_recv_missing_fingerprints sr w)
      | SEND_MISSING_CONTENT \<Rightarrow> Some (process_send_missing_content sr w)
      | SEND_COMPLETE \<Rightarrow> Some (1, process_send_complete sr, w))"

definition send_rank :: "SendReqStage \<Rightarrow> nat" where
  "send_rank s =
     (case s of SEND_HEADER \<Rightarrow> 9 | SEND_REG_DATA \<Rightarrow> 8 | COMPUTE_FINGERPRINTS \<Rightarrow> 7
      | INSERT_OUTBOUND_FINGERPRINTS \<Rightarrow> 6 | SEND_FINGERPRINT_HEADER \<Rightarrow> 5 | SEND_PACKAGED_FINGERPRINTS \<Rightarrow> 4
      | RECV_MISSING_FINGERPRINT_HEADER \<Rightarrow> 3 | RECV_MISSING_FINGERPRINTS \<Rightarrow> 2 | SEND_MISSING_CONTENT \<Rightarrow> 1
      | SEND_COMPLETE \<Rightarrow> 0)"

text \<open>The order of the stages: a request only moves up.\<close>

instantiation SendReqStage :: linorder
begin

definition less_eq_SendReqStage :: "SendReqStage \<Rightarrow> SendReqStage \<Rightarrow> bool" where
  "s \<le> t \<longleftrightarrow> send_rank t \<le> send_rank s"

definition less_SendReqStage :: "SendReqStage \<Rightarrow> SendReqStage \<Rightarrow> bool" where
  "s < t \<longleftrightarrow> send_rank t < send_rank s"

instance
  by standard (auto simp: less_eq_SendReqStage_def less_SendReqStage_def send_rank_def split: SendReqStage.splits)

end

lemma send_rank_next: "s \<noteq> SEND_COMPLETE \<Longrightarrow> send_rank (send_next_stage s sr) < send_rank s"
  by (cases s) (auto simp: send_rank_def send_next_stage_def)

function process_send ::
  "(u8 list \<Rightarrow> u8 list) \<Rightarrow> Dedup_Send_Req \<Rightarrow> World \<Rightarrow> (int \<times> Dedup_Send_Req \<times> World) option" where
  "process_send sha sr w =
     (if sr_stage sr = SEND_COMPLETE then Some (1, process_send_complete sr, w)
      else (case send_handler sha (sr_stage sr) sr w of
              None \<Rightarrow> None
            | Some (to_continue, sr1, w1) \<Rightarrow>
                if to_continue = 1
                then process_send sha (sr1\<lparr>sr_stage := send_next_stage (sr_stage sr) sr1\<rparr>) w1
                else if to_continue = - 1 then Some (- 1, sr1, w1)
                else Some (0, sr1, w1)))"
  by pat_completeness auto
termination
  by (relation "measure (\<lambda>(sha, sr, w). send_rank (sr_stage sr))") (simp_all add: send_rank_next)

declare process_send.simps [simp del]

section \<open>What every handler keeps\<close>

text \<open>A handler continues or waits, never fails, and leaves the identity of the message and the
  settings of the cache alone.\<close>

definition same_message :: "Dedup_Send_Req \<Rightarrow> Dedup_Send_Req \<Rightarrow> bool" where
  "same_message sr sr' \<longleftrightarrow> sr_stage sr' = sr_stage sr \<and> sr_sockfd sr' = sr_sockfd sr \<and>
     sr_header sr' = sr_header sr \<and> sr_size sr' = sr_size sr \<and> sr_data sr' = sr_data sr"

abbreviation world_settings :: "World \<Rightarrow> Fingerprinting_Settings" where
  "world_settings w \<equiv> fc_fingerprinting_settings (global_fingerprint_cache w)"

definition handler_ok :: "Dedup_Send_Req \<Rightarrow> World \<Rightarrow> int \<times> Dedup_Send_Req \<times> World \<Rightarrow> bool" where
  "handler_ok sr w res \<longleftrightarrow>
     (case res of (r, sr', w') \<Rightarrow> (r = 0 \<or> r = 1) \<and> same_message sr sr' \<and> world_settings w' = world_settings w)"

named_theorems send_handler_defs
declare process_send_header_def [send_handler_defs] process_send_reg_data_def [send_handler_defs]
  process_send_fingerprint_header_def [send_handler_defs]
  process_send_packaged_fingerprints_def [send_handler_defs]
  process_recv_missing_fingerprint_header_def [send_handler_defs]
  process_recv_missing_fingerprints_def [send_handler_defs]

lemma sock_send_keeps:
  "sock_send fd bs w = (n, w') \<Longrightarrow> global_fingerprint_cache w' = global_fingerprint_cache w"
  by (auto simp: sock_send_def split: list.splits answer.splits)

lemma sock_recv_keeps:
  "sock_recv fd n w = (m, bs, w') \<Longrightarrow> global_fingerprint_cache w' = global_fingerprint_cache w"
  by (auto simp: sock_recv_def Let_def split: list.splits answer.splits)

lemma insert_fingerprint_settings:
  "fc_fingerprinting_settings (fst (snd (insert_fingerprint c fp content r))) = fc_fingerprinting_settings c"
  by (simp add: insert_fingerprint_def insert_fingerprint_cache_def get_free_cache_pages_def Let_def
      split: prod.split)

lemma insert_outbound_settings:
  "fc_fingerprinting_settings (snd (insert_outbound_loop c fps data cur e)) = fc_fingerprinting_settings c"
proof (induction fps arbitrary: c cur e)
  case (Cons fp fps)
  then show ?case
    using insert_fingerprint_settings [of c fp "drop cur data" e] by (auto split: prod.splits)
qed simp

lemma insert_outbound_ok: "handler_ok sr w (process_insert_outbound_fingerprints sr w)"
proof (cases "insert_outbound_loop ((global_fingerprint_cache w)\<lparr>fc_cache_lock := True\<rparr>)
      (take (sr_num_fingerprints sr) (ss_packaged_fingerprints (sr_state sr))) (sr_data sr) 0 zero_entry")
  case (Pair full c1)
  then have "fc_fingerprinting_settings c1 = world_settings w"
    using insert_outbound_settings [of "(global_fingerprint_cache w)\<lparr>fc_cache_lock := True\<rparr>"
        "take (sr_num_fingerprints sr) (ss_packaged_fingerprints (sr_state sr))" "sr_data sr" 0 zero_entry]
    by simp
  then show ?thesis
    by (simp add: process_insert_outbound_fingerprints_def handler_ok_def same_message_def Pair Let_def)
qed

lemma send_content_loop_ok: "handler_ok sr w (send_missing_content_loop sr w i off n)"
proof (induction n arbitrary: sr w i off)
  case 0
  then show ?case by (simp add: handler_ok_def same_message_def)
next
  case (Suc n)
  show ?case
  proof (cases "sock_send (sr_sockfd sr)
      (bytes_at (ss_fingerprint_offsets (sr_state sr) ! sr_missing_ind sr i + off)
        (fp_content_size (ss_packaged_fingerprints (sr_state sr) ! sr_missing_ind sr i) - off) (sr_data sr)) w")
    case (Pair n1 w1)
    let ?sr1 = "sr\<lparr>sr_send_fingerprint_state := (sr_state sr)
                      \<lparr>ss_cur_reply_content_fingerprint_ind := i + 1,
                       ss_cur_reply_content_fingerprint_offset := 0\<rparr>\<rparr>"
    have "handler_ok ?sr1 w1 (send_missing_content_loop ?sr1 w1 (i + 1) 0 n)" by (rule Suc.IH)
    then have "handler_ok sr w (send_missing_content_loop ?sr1 w1 (i + 1) 0 n)"
      using sock_send_keeps [OF Pair] by (auto simp: handler_ok_def same_message_def split: prod.splits)
    then show ?thesis
      using Pair sock_send_keeps [OF Pair]
      by (simp add: Let_def retry_on_error_0) (simp add: handler_ok_def same_message_def)
  qed
qed

lemma send_handlers_ok:
  "handler_ok sr w (process_send_header sr w)"
  "handler_ok sr w (process_send_reg_data sr w)"
  "handler_ok sr w (process_send_fingerprint_header sr w)"
  "handler_ok sr w (process_send_packaged_fingerprints sr w)"
  "handler_ok sr w (process_recv_missing_fingerprint_header sr w)"
  "handler_ok sr w (process_recv_missing_fingerprints sr w)"
  by (simp_all add: send_handler_defs handler_ok_def same_message_def Let_def retry_on_error_0
      sock_send_keeps sock_recv_keeps split: prod.split)

lemma send_missing_content_ok: "handler_ok sr w (process_send_missing_content sr w)"
  unfolding process_send_missing_content_def Let_def by (rule send_content_loop_ok)

lemma compute_ok: "process_compute_fingerprints sha sr w = Some res \<Longrightarrow> handler_ok sr w res"
  by (auto simp: process_compute_fingerprints_def handler_ok_def same_message_def)

lemma send_handler_ok:
  assumes "send_handler sha s sr w = Some res"
  shows "handler_ok sr w res"
proof (cases "s = COMPUTE_FINGERPRINTS")
  case True
  then show ?thesis using assms compute_ok by (simp add: send_handler_def)
next
  case False
  have "handler_ok sr w (1, process_send_complete sr, w)"
    by (simp add: handler_ok_def same_message_def process_send_complete_def)
  then show ?thesis
    using False assms send_handlers_ok [of sr w] insert_outbound_ok [of sr w] send_missing_content_ok [of sr w]
    unfolding send_handler_def by (cases s) simp_all
qed

lemma send_handler_returns:
  assumes "chunk_bounds (world_settings w)"
  obtains res where "send_handler sha s sr w = Some res"
proof -
  have "process_compute_fingerprints sha sr w \<noteq> None"
    unfolding process_compute_fingerprints_def dedup_fingerprinting_def
    by (rule do_fingerprinting_run [OF assms, of sha "bytes_at 0 (sr_size sr) (sr_data sr)"]) simp
  then show ?thesis using that by (cases s) (auto simp: send_handler_def)
qed

lemma process_send_result:
  assumes "chunk_bounds (world_settings w)"
  shows "\<exists>r sr' w'. process_send sha sr w = Some (r, sr', w') \<and> (r = 0 \<or> r = 1) \<and>
    (r = 1 \<longleftrightarrow> sr_stage sr' = SEND_COMPLETE) \<and> send_rank (sr_stage sr') \<le> send_rank (sr_stage sr) \<and>
    sr_sockfd sr' = sr_sockfd sr \<and> sr_header sr' = sr_header sr \<and> sr_size sr' = sr_size sr \<and>
    sr_data sr' = sr_data sr \<and> world_settings w' = world_settings w"
  using assms
proof (induction sha sr w rule: process_send.induct)
  case (1 sha sr w)
  show ?case
  proof (cases "sr_stage sr = SEND_COMPLETE")
    case True
    then show ?thesis by (simp add: process_send.simps [of sha sr w] process_send_complete_def)
  next
    case False
    obtain r sr1 w1 where h: "send_handler sha (sr_stage sr) sr w = Some (r, sr1, w1)"
      using send_handler_returns [OF 1(2)] by (metis prod_cases3)
    then have ok: "r = 0 \<or> r = 1" "same_message sr sr1" "world_settings w1 = world_settings w"
      using send_handler_ok [OF h] by (auto simp: handler_ok_def)
    let ?sr2 = "sr1\<lparr>sr_stage := send_next_stage (sr_stage sr) sr1\<rparr>"
    show ?thesis
    proof (cases "r = 1")
      case True
      have step: "process_send sha sr w = process_send sha ?sr2 w1"
        using False h True by (subst process_send.simps) simp
      have "chunk_bounds (world_settings w1)" using 1(2) ok(3) by simp
      from 1(1) [OF False h refl refl True this] step show ?thesis
        using ok(2,3) send_rank_next [OF False, of sr1] by (auto simp: same_message_def)
    next
      case r: False
      then have "process_send sha sr w = Some (0, sr1, w1)"
        using False h ok(1) by (subst process_send.simps) simp
      then show ?thesis using ok r False by (simp add: same_message_def)
    qed
  qed
qed

end
