(* ===== verification/RecvReq.thy ===== *)
theory RecvReq
  imports Transport
begin

text \<open>
  The receiving half of \<^verbatim>\<open>net_dedup.c\<close>: the stage handlers of a receive request and the stage loop
  \<open>process_recv\<close>, in the style of the sending half. Fields that the socket reads write are read out of
  the bytes \<open>rr_mem\<close>; a write past the end of a list makes the list longer, which is how an overrun of
  the application buffer or of the packaged fingerprints shows.
\<close>

section \<open>The memory of a receive request\<close>

definition mem_u64 :: "u8 list \<Rightarrow> nat \<Rightarrow> nat" where
  "mem_u64 mem pos = le_value (bytes_at pos 8 mem)"

definition mem_int :: "u8 list \<Rightarrow> nat \<Rightarrow> nat" where
  "mem_int mem pos = le_value (bytes_at pos 4 mem)"

definition rr_is_fingerprint :: "Dedup_Recv_Req \<Rightarrow> u8" where
  "rr_is_fingerprint rr = rr_mem rr ! 0"

definition rr_content_size :: "Dedup_Recv_Req \<Rightarrow> nat" where
  "rr_content_size rr = mem_u64 (rr_mem rr) 8"

definition rr_recv_header_offset :: "Dedup_Recv_Req \<Rightarrow> nat" where
  "rr_recv_header_offset rr = mem_int (rr_mem rr) 16"

definition rr_num_fingerprints :: "Dedup_Recv_Req \<Rightarrow> nat" where
  "rr_num_fingerprints rr = mem_u64 (rr_mem rr) 24"

definition rr_recv_fingerprint_header_offset :: "Dedup_Recv_Req \<Rightarrow> nat" where
  "rr_recv_fingerprint_header_offset rr = mem_int (rr_mem rr) 32"

definition packaged_pos :: nat where "packaged_pos = 40"

definition rr_packaged_fingerprint :: "Dedup_Recv_Req \<Rightarrow> nat \<Rightarrow> Fingerprint" where
  "rr_packaged_fingerprint rr i =
     \<lparr>fp_content_size = mem_u64 (rr_mem rr) (packaged_pos + sizeof_Fingerprint * i),
      fp_fingerprint = bytes_at (packaged_pos + sizeof_Fingerprint * i + 8) FINGERPRINT_NUM_BYTES (rr_mem rr)\<rparr>"

definition rr_mem_size :: nat where
  "rr_mem_size = packaged_pos + sizeof_Fingerprint * MAX_FINGERPRINTS_PER_REQ"

abbreviation rr_state :: "Dedup_Recv_Req \<Rightarrow> Fingerprint_Recv_State" where
  "rr_state \<equiv> rr_recv_fingerprint_state"

text \<open>\<open>sizeof (...) - prev_recv\<close> in \<open>size_t\<close>.\<close>

definition u64_sub :: "nat \<Rightarrow> nat \<Rightarrow> nat" where
  "u64_sub a b = (a + 2 ^ 64 - b) mod 2 ^ 64"

text \<open>\<open>x += n\<close> for an \<open>int\<close> at a position of the request.\<close>

definition add_int_at :: "nat \<Rightarrow> nat \<Rightarrow> u8 list \<Rightarrow> u8 list" where
  "add_int_at pos n mem = bytes_put pos (le_bytes 4 (mem_int mem pos + n)) mem"

section \<open>Headers and plain data\<close>

definition process_recv_header :: "Dedup_Recv_Req \<Rightarrow> World \<Rightarrow> int \<times> Dedup_Recv_Req \<times> World" where
  "process_recv_header rr w =
     (let prev_recv = rr_recv_header_offset rr;
          remain_size = u64_sub sizeof_General_Header prev_recv;
          (recv_bytes, bs, w1) = sock_recv (rr_sockfd rr) remain_size w;
          rr1 = rr\<lparr>rr_mem := bytes_put (sizeof_General_Header * prev_recv) bs (rr_mem rr)\<rparr>
      in if recv_bytes = - 1 then (case retry_on_error w1 of (r, w2) \<Rightarrow> (r, rr, w2))
         else if recv_bytes < int remain_size
         then (0, rr1\<lparr>rr_mem := add_int_at 16 (nat recv_bytes) (rr_mem rr1)\<rparr>, w1)
         else (1, rr1, w1))"

definition process_recv_reg_data :: "Dedup_Recv_Req \<Rightarrow> World \<Rightarrow> int \<times> Dedup_Recv_Req \<times> World" where
  "process_recv_reg_data rr w =
     (let content_size = rr_content_size rr;
          offset = rr_app_offset rr;
          remain_bytes = content_size - offset
      in if remain_bytes = 0 then (1, rr, w)
         else let (recv_bytes, bs, w1) = sock_recv (rr_sockfd rr) remain_bytes w
              in if recv_bytes = - 1 then (case retry_on_error w1 of (r, w2) \<Rightarrow> (r, rr, w2))
                 else let rr1 = rr\<lparr>rr_app_buffer := bytes_put offset bs (rr_app_buffer rr),
                                  rr_app_offset := offset + nat recv_bytes\<rparr>
                      in (if rr_app_offset rr1 < content_size then 0 else 1, rr1, w1))"

section \<open>Receiving the fingerprints\<close>

definition process_recv_fingerprint_header ::
  "Dedup_Recv_Req \<Rightarrow> World \<Rightarrow> int \<times> Dedup_Recv_Req \<times> World" where
  "process_recv_fingerprint_header rr w =
     (let prev_recv = rr_recv_fingerprint_header_offset rr;
          remain_size = u64_sub sizeof_Fingerprint_Header prev_recv;
          (recv_bytes, bs, w1) = sock_recv (rr_sockfd rr) remain_size w;
          rr1 = rr\<lparr>rr_mem := bytes_put (24 + sizeof_Fingerprint_Header * prev_recv) bs (rr_mem rr)\<rparr>
      in if recv_bytes = - 1 then (case retry_on_error w1 of (r, w2) \<Rightarrow> (r, rr, w2))
         else if recv_bytes < int remain_size
         then (0, rr1\<lparr>rr_mem := add_int_at 32 (nat recv_bytes) (rr_mem rr1)\<rparr>, w1)
         else (1, rr1\<lparr>rr_recv_fingerprint_state := (rr_state rr1)
                       \<lparr>rs_packaged_fingerprints_size_bytes :=
                          (rr_num_fingerprints rr1 * sizeof_Fingerprint) mod 2 ^ 64,
                        rs_recv_fingerprint_offset := 0,
                        rs_missing_fingerprint_header_offset := 0,
                        rs_send_missing_fingerprint_inds_offset := 0,
                        rs_cur_recv_content_ind := 0,
                        rs_cur_recv_content_offset := 0\<rparr>\<rparr>, w1))"

definition process_recv_packaged_fingerprints ::
  "Dedup_Recv_Req \<Rightarrow> World \<Rightarrow> int \<times> Dedup_Recv_Req \<times> World" where
  "process_recv_packaged_fingerprints rr w =
     (let prev_recv = rs_recv_fingerprint_offset (rr_state rr);
          remain_size = rs_packaged_fingerprints_size_bytes (rr_state rr) - prev_recv;
          (recv_bytes, bs, w1) = sock_recv (rr_sockfd rr) remain_size w;
          rr1 = rr\<lparr>rr_mem := bytes_put (packaged_pos + prev_recv) bs (rr_mem rr)\<rparr>
      in if recv_bytes = - 1 then (case retry_on_error w1 of (r, w2) \<Rightarrow> (r, rr, w2))
         else if recv_bytes < int remain_size
         then (0, rr1\<lparr>rr_recv_fingerprint_state := (rr_state rr1)
                       \<lparr>rs_recv_fingerprint_offset := prev_recv + nat recv_bytes\<rparr>\<rparr>, w1)
         else (1, rr1, w1))"

section \<open>Populating the buffer from the cache\<close>

text \<open>The locals of the loop and what it writes.\<close>

record Populate =
  pop_inds :: "nat list"
  pop_slots :: "nat list"
  pop_num_missing :: nat
  pop_missing_bytes :: nat
  pop_total_bytes :: nat
  pop_buffer :: "u8 list"
  pop_cur :: nat
  pop_filled :: nat
  pop_entry :: Fingerprint_Entry

definition populate_one :: "Fingerprint_Cache \<Rightarrow> Fingerprint \<Rightarrow> nat \<Rightarrow> Populate \<Rightarrow> Populate" where
  "populate_one c fp i p =
     (let p1 = p\<lparr>pop_total_bytes := pop_total_bytes p + fp_content_size fp\<rparr>;
          (found, e) = lookup_fingerprint c (fp_fingerprint fp) (pop_entry p1);
          p2 = p1\<lparr>pop_entry := e\<rparr>;
          p3 = (if \<not> found
                then p2\<lparr>pop_inds := (pop_inds p2)[pop_num_missing p2 := i],
                        pop_slots := (pop_slots p2)[pop_num_missing p2 := pop_cur p2],
                        pop_num_missing := pop_num_missing p2 + 1,
                        pop_missing_bytes := pop_missing_bytes p2 + fp_content_size fp\<rparr>
                else p2\<lparr>pop_buffer := copy_fingerprint_content (pop_buffer p2) (pop_cur p2) c e,
                        pop_filled := pop_filled p2 + fp_content_size fp\<rparr>)
      in p3\<lparr>pop_cur := pop_cur p3 + fp_content_size fp\<rparr>)"

text \<open>\<open>n\<close> fingerprints are left, the next is number \<open>i\<close>.\<close>

fun populate_loop :: "Fingerprint_Cache \<Rightarrow> (nat \<Rightarrow> Fingerprint) \<Rightarrow> nat \<Rightarrow> nat \<Rightarrow> Populate \<Rightarrow> Populate" where
  "populate_loop c packaged i 0 p = p"
| "populate_loop c packaged i (Suc n) p =
     populate_loop c packaged (i + 1) n (populate_one c (packaged i) i p)"

definition populate_start :: "Dedup_Recv_Req \<Rightarrow> Populate" where
  "populate_start rr =
     \<lparr>pop_inds = rs_missing_fingerprint_inds (rr_state rr),
      pop_slots = rs_missing_fingerprint_slots (rr_state rr),
      pop_num_missing = 0, pop_missing_bytes = 0, pop_total_bytes = 0,
      pop_buffer = rr_app_buffer rr, pop_cur = 0, pop_filled = rr_app_filled_size rr,
      pop_entry = zero_entry\<rparr>"

definition process_populate_from_net_cache ::
  "Dedup_Recv_Req \<Rightarrow> World \<Rightarrow> int \<times> Dedup_Recv_Req \<times> World" where
  "process_populate_from_net_cache rr w =
     (let c = global_fingerprint_cache w;
          num = rr_num_fingerprints rr;
          p = populate_loop c (rr_packaged_fingerprint rr) 0 num (populate_start rr);
          st = fc_stats c;
          st1 = st\<lparr>total_recv_bytes := total_recv_bytes st + pop_total_bytes p,
                  populated_from_cache_bytes :=
                    populated_from_cache_bytes st + (pop_total_bytes p - pop_missing_bytes p),
                  total_fingerprints := total_fingerprints st + num,
                  total_found_fingerprints := total_found_fingerprints st + (num - pop_num_missing p)\<rparr>
      in (1, rr\<lparr>rr_app_buffer := pop_buffer p, rr_app_filled_size := pop_filled p,
               rr_recv_fingerprint_state := (rr_state rr)
                 \<lparr>rs_missing_fingerprint_inds := pop_inds p, rs_missing_fingerprint_slots := pop_slots p,
                  rs_num_missing_fingerprints := pop_num_missing p\<rparr>\<rparr>,
          w\<lparr>global_fingerprint_cache := c\<lparr>fc_stats := st1\<rparr>\<rparr>))"

section \<open>Asking for the missing contents\<close>

definition process_send_missing_fingerprint_header ::
  "Dedup_Recv_Req \<Rightarrow> World \<Rightarrow> int \<times> Dedup_Recv_Req \<times> World" where
  "process_send_missing_fingerprint_header rr w =
     (let prev_sent = rs_missing_fingerprint_header_offset (rr_state rr);
          remain_size = sizeof_Missing_Fingerprint_Header - prev_sent;
          cur_header = bytes_at prev_sent remain_size (le_bytes 8 (rs_num_missing_fingerprints (rr_state rr)));
          (sent_bytes, w1) = sock_send (rr_sockfd rr) cur_header w
      in if sent_bytes = - 1 then (case retry_on_error w1 of (r, w2) \<Rightarrow> (r, rr, w2))
         else if sent_bytes < int remain_size
         then (0, rr\<lparr>rr_recv_fingerprint_state := (rr_state rr)
                       \<lparr>rs_missing_fingerprint_header_offset := prev_sent + nat sent_bytes\<rparr>\<rparr>, w1)
         else (1, rr, w1))"

definition process_send_missing_fingerprints ::
  "Dedup_Recv_Req \<Rightarrow> World \<Rightarrow> int \<times> Dedup_Recv_Req \<times> World" where
  "process_send_missing_fingerprints rr w =
     (let total_size = (rs_num_missing_fingerprints (rr_state rr) * 8) mod 2 ^ 64;
          prev_sent = rs_send_missing_fingerprint_inds_offset (rr_state rr);
          remain_size = total_size - prev_sent;
          cur = bytes_at prev_sent remain_size (concat (map (le_bytes 8) (rs_missing_fingerprint_inds (rr_state rr))));
          (sent_bytes, w1) = sock_send (rr_sockfd rr) cur w
      in if sent_bytes = - 1 then (case retry_on_error w1 of (r, w2) \<Rightarrow> (r, rr, w2))
         else if sent_bytes < int remain_size
         then (0, rr\<lparr>rr_recv_fingerprint_state := (rr_state rr)
                       \<lparr>rs_send_missing_fingerprint_inds_offset := prev_sent + nat sent_bytes\<rparr>\<rparr>, w1)
         else (1, rr, w1))"

section \<open>Receiving and caching the missing contents\<close>

text \<open>The loop of \<open>process_recv_missing_content\<close> from index \<open>i\<close> with \<open>n\<close> contents left.\<close>

fun recv_missing_content_loop ::
  "Dedup_Recv_Req \<Rightarrow> World \<Rightarrow> nat \<Rightarrow> nat \<Rightarrow> nat \<Rightarrow> int \<times> Dedup_Recv_Req \<times> World" where
  "recv_missing_content_loop rr w i cur_offset 0 = (1, rr, w)"
| "recv_missing_content_loop rr w i cur_offset (Suc n) =
     (let loc = rs_missing_fingerprint_slots (rr_state rr) ! i + cur_offset;
          remain_size = fp_content_size
              (rr_packaged_fingerprint rr (rs_missing_fingerprint_inds (rr_state rr) ! i)) - cur_offset;
          (recv_bytes, bs, w1) = sock_recv (rr_sockfd rr) remain_size w
      in if recv_bytes = - 1 then (case retry_on_error w1 of (r, w2) \<Rightarrow> (r, rr, w2))
         else let rr1 = rr\<lparr>rr_app_buffer := bytes_put loc bs (rr_app_buffer rr),
                          rr_app_filled_size := rr_app_filled_size rr + nat recv_bytes\<rparr>
              in if recv_bytes < int remain_size
                 then (0, rr1\<lparr>rr_recv_fingerprint_state := (rr_state rr1)
                               \<lparr>rs_cur_recv_content_ind := i,
                                rs_cur_recv_content_offset := cur_offset + nat recv_bytes\<rparr>\<rparr>, w1)
                 else recv_missing_content_loop
                        (rr1\<lparr>rr_recv_fingerprint_state := (rr_state rr1)
                              \<lparr>rs_cur_recv_content_ind := i + 1, rs_cur_recv_content_offset := 0\<rparr>\<rparr>)
                        w1 (i + 1) 0 n)"

definition process_recv_missing_content ::
  "Dedup_Recv_Req \<Rightarrow> World \<Rightarrow> int \<times> Dedup_Recv_Req \<times> World" where
  "process_recv_missing_content rr w =
     (let i = rs_cur_recv_content_ind (rr_state rr)
      in recv_missing_content_loop rr w i (rs_cur_recv_content_offset (rr_state rr))
           (rs_num_missing_fingerprints (rr_state rr) - i))"

text \<open>The insertion loop; \<open>True\<close> when the cache ran out of pages.\<close>

fun insert_inbound_loop ::
  "Fingerprint_Cache \<Rightarrow> Dedup_Recv_Req \<Rightarrow> nat \<Rightarrow> nat \<Rightarrow> Fingerprint_Entry \<Rightarrow> bool \<times> Fingerprint_Cache" where
  "insert_inbound_loop c rr i 0 new_entry = (False, c)"
| "insert_inbound_loop c rr i (Suc n) new_entry =
     (case insert_fingerprint c
             (rr_packaged_fingerprint rr (rs_missing_fingerprint_inds (rr_state rr) ! i))
             (drop (rs_missing_fingerprint_slots (rr_state rr) ! i) (rr_app_buffer rr)) new_entry of
        (ret, c1, entry1) \<Rightarrow>
          if ret \<noteq> 0 then (True, c1) else insert_inbound_loop c1 rr (i + 1) n entry1)"

definition processs_insert_inbound_fingerprints ::
  "Dedup_Recv_Req \<Rightarrow> World \<Rightarrow> int \<times> Dedup_Recv_Req \<times> World" where
  "processs_insert_inbound_fingerprints rr w =
     (if to_skip_insert_cache w then (1, rr, w)
      else if fc_cache_lock (global_fingerprint_cache w) then (0, rr, w)
      else let locked = (global_fingerprint_cache w)\<lparr>fc_cache_lock := True\<rparr>;
               (full, c1) = insert_inbound_loop locked rr 0 (rs_num_missing_fingerprints (rr_state rr)) zero_entry;
               w1 = w\<lparr>global_fingerprint_cache := c1\<lparr>fc_cache_lock := False\<rparr>\<rparr>
           in (1, rr, if full then w1\<lparr>to_skip_insert_cache := True\<rparr> else w1))"

definition process_recv_complete :: "Dedup_Recv_Req \<Rightarrow> Dedup_Recv_Req" where
  "process_recv_complete rr = rr"

section \<open>The stage loop\<close>

definition recv_next_stage :: "RecvReqStage \<Rightarrow> Dedup_Recv_Req \<Rightarrow> RecvReqStage" where
  "recv_next_stage s rr =
     (case s of
        RECV_HEADER \<Rightarrow> if rr_is_fingerprint rr \<noteq> 0 then RECV_FINGERPRINT_HEADER else RECV_REG_DATA
      | RECV_REG_DATA \<Rightarrow> RECV_COMPLETE
      | RECV_FINGERPRINT_HEADER \<Rightarrow> RECV_PACKAGED_FINGERPRINTS
      | RECV_PACKAGED_FINGERPRINTS \<Rightarrow> POPULATE_FROM_NET_CACHE
      | POPULATE_FROM_NET_CACHE \<Rightarrow> SEND_MISSING_FINGERPRINT_HEADER
      | SEND_MISSING_FINGERPRINT_HEADER \<Rightarrow>
          if rs_num_missing_fingerprints (rr_state rr) = 0 then RECV_COMPLETE else SEND_MISSING_FINGERPRINTS
      | SEND_MISSING_FINGERPRINTS \<Rightarrow> RECV_MISSING_CONTENT
      | RECV_MISSING_CONTENT \<Rightarrow> INSERT_INBOUND_FINGERPRINTS
      | INSERT_INBOUND_FINGERPRINTS \<Rightarrow> RECV_COMPLETE
      | RECV_COMPLETE \<Rightarrow> RECV_COMPLETE)"

definition recv_handler ::
  "RecvReqStage \<Rightarrow> Dedup_Recv_Req \<Rightarrow> World \<Rightarrow> int \<times> Dedup_Recv_Req \<times> World" where
  "recv_handler s rr w =
     (case s of
        RECV_HEADER \<Rightarrow> process_recv_header rr w
      | RECV_REG_DATA \<Rightarrow> process_recv_reg_data rr w
      | RECV_FINGERPRINT_HEADER \<Rightarrow> process_recv_fingerprint_header rr w
      | RECV_PACKAGED_FINGERPRINTS \<Rightarrow> process_recv_packaged_fingerprints rr w
      | POPULATE_FROM_NET_CACHE \<Rightarrow> process_populate_from_net_cache rr w
      | SEND_MISSING_FINGERPRINT_HEADER \<Rightarrow> process_send_missing_fingerprint_header rr w
      | SEND_MISSING_FINGERPRINTS \<Rightarrow> process_send_missing_fingerprints rr w
      | RECV_MISSING_CONTENT \<Rightarrow> process_recv_missing_content rr w
      | INSERT_INBOUND_FINGERPRINTS \<Rightarrow> processs_insert_inbound_fingerprints rr w
      | RECV_COMPLETE \<Rightarrow> (1, process_recv_complete rr, w))"

definition recv_rank :: "RecvReqStage \<Rightarrow> nat" where
  "recv_rank s =
     (case s of RECV_HEADER \<Rightarrow> 9 | RECV_REG_DATA \<Rightarrow> 8 | RECV_FINGERPRINT_HEADER \<Rightarrow> 7
      | RECV_PACKAGED_FINGERPRINTS \<Rightarrow> 6 | POPULATE_FROM_NET_CACHE \<Rightarrow> 5 | SEND_MISSING_FINGERPRINT_HEADER \<Rightarrow> 4
      | SEND_MISSING_FINGERPRINTS \<Rightarrow> 3 | RECV_MISSING_CONTENT \<Rightarrow> 2 | INSERT_INBOUND_FINGERPRINTS \<Rightarrow> 1
      | RECV_COMPLETE \<Rightarrow> 0)"

text \<open>The order of the stages: a request only moves up.\<close>

instantiation RecvReqStage :: linorder
begin

definition less_eq_RecvReqStage :: "RecvReqStage \<Rightarrow> RecvReqStage \<Rightarrow> bool" where
  "s \<le> t \<longleftrightarrow> recv_rank t \<le> recv_rank s"

definition less_RecvReqStage :: "RecvReqStage \<Rightarrow> RecvReqStage \<Rightarrow> bool" where
  "s < t \<longleftrightarrow> recv_rank t < recv_rank s"

instance
  by standard (auto simp: less_eq_RecvReqStage_def less_RecvReqStage_def recv_rank_def split: RecvReqStage.splits)

end

lemma recv_rank_next: "s \<noteq> RECV_COMPLETE \<Longrightarrow> recv_rank (recv_next_stage s rr) < recv_rank s"
  by (cases s) (auto simp: recv_rank_def recv_next_stage_def)

function process_recv :: "Dedup_Recv_Req \<Rightarrow> World \<Rightarrow> int \<times> Dedup_Recv_Req \<times> World" where
  "process_recv rr w =
     (if rr_stage rr = RECV_COMPLETE then (1, process_recv_complete rr, w)
      else (case recv_handler (rr_stage rr) rr w of
              (to_continue, rr1, w1) \<Rightarrow>
                if to_continue = 1
                then process_recv (rr1\<lparr>rr_stage := recv_next_stage (rr_stage rr) rr1\<rparr>) w1
                else if to_continue = - 1 then (- 1, rr1, w1)
                else (0, rr1, w1)))"
  by pat_completeness auto
termination
  by (relation "measure (\<lambda>(rr, w). recv_rank (rr_stage rr))") (simp_all add: recv_rank_next)

declare process_recv.simps [simp del]

section \<open>What every handler keeps\<close>

definition same_receive :: "Dedup_Recv_Req \<Rightarrow> Dedup_Recv_Req \<Rightarrow> bool" where
  "same_receive rr rr' \<longleftrightarrow> rr_stage rr' = rr_stage rr \<and> rr_sockfd rr' = rr_sockfd rr \<and> rr_size rr' = rr_size rr"

definition recv_handler_ok :: "Dedup_Recv_Req \<Rightarrow> int \<times> Dedup_Recv_Req \<times> World \<Rightarrow> bool" where
  "recv_handler_ok rr res \<longleftrightarrow> (case res of (r, rr', w') \<Rightarrow> (r = 0 \<or> r = 1) \<and> same_receive rr rr')"

named_theorems recv_handler_defs
declare process_recv_header_def [recv_handler_defs] process_recv_reg_data_def [recv_handler_defs]
  process_recv_fingerprint_header_def [recv_handler_defs]
  process_recv_packaged_fingerprints_def [recv_handler_defs]
  process_populate_from_net_cache_def [recv_handler_defs]
  process_send_missing_fingerprint_header_def [recv_handler_defs]
  process_send_missing_fingerprints_def [recv_handler_defs]
  processs_insert_inbound_fingerprints_def [recv_handler_defs]
  process_recv_complete_def [recv_handler_defs]

lemma recv_content_loop_ok: "recv_handler_ok rr (recv_missing_content_loop rr w i off n)"
proof (induction n arbitrary: rr w i off)
  case 0
  then show ?case by (simp add: recv_handler_ok_def same_receive_def)
next
  case (Suc n)
  let ?rem = "fp_content_size (rr_packaged_fingerprint rr (rs_missing_fingerprint_inds (rr_state rr) ! i)) - off"
  obtain n1 bs w1 where r: "sock_recv (rr_sockfd rr) ?rem w = (n1, bs, w1)" by (metis prod_cases3)
  let ?rr1 = "rr\<lparr>rr_app_buffer := bytes_put (rs_missing_fingerprint_slots (rr_state rr) ! i + off) bs (rr_app_buffer rr),
      rr_app_filled_size := rr_app_filled_size rr + nat n1,
      rr_recv_fingerprint_state := (rr_state rr)\<lparr>rs_cur_recv_content_ind := i + 1, rs_cur_recv_content_offset := 0\<rparr>\<rparr>"
  have "recv_handler_ok rr (recv_missing_content_loop ?rr1 w1 (i + 1) 0 n)"
    using Suc.IH [of ?rr1 w1 "i + 1" 0] by (simp add: recv_handler_ok_def same_receive_def)
  then show ?case
    using r by (simp add: Let_def retry_on_error_0) (simp add: recv_handler_ok_def same_receive_def)
qed

lemma recv_handler_result: "recv_handler_ok rr (recv_handler s rr w)"
proof (cases "s = RECV_MISSING_CONTENT")
  case True
  then show ?thesis
    by (simp add: recv_handler_def process_recv_missing_content_def Let_def recv_content_loop_ok)
next
  case False
  then show ?thesis
    unfolding recv_handler_def
    by (cases s; simp add: recv_handler_defs recv_handler_ok_def same_receive_def Let_def retry_on_error_0
        split: prod.split)
qed

lemma process_recv_result:
  "\<exists>r rr' w'. process_recv rr w = (r, rr', w') \<and> (r = 0 \<or> r = 1) \<and>
    (r = 1 \<longleftrightarrow> rr_stage rr' = RECV_COMPLETE) \<and> recv_rank (rr_stage rr') \<le> recv_rank (rr_stage rr) \<and>
    rr_sockfd rr' = rr_sockfd rr \<and> rr_size rr' = rr_size rr"
proof (induction rr w rule: process_recv.induct)
  case (1 rr w)
  show ?case
  proof (cases "rr_stage rr = RECV_COMPLETE")
    case True
    then show ?thesis by (simp add: process_recv.simps [of rr w] process_recv_complete_def)
  next
    case False
    obtain r rr1 w1 where h: "recv_handler (rr_stage rr) rr w = (r, rr1, w1)" by (metis prod_cases3)
    then have ok: "r = 0 \<or> r = 1" "same_receive rr rr1"
      using recv_handler_result [of rr "rr_stage rr" w] by (auto simp: recv_handler_ok_def)
    show ?thesis
    proof (cases "r = 1")
      case True
      have step: "process_recv rr w = process_recv (rr1\<lparr>rr_stage := recv_next_stage (rr_stage rr) rr1\<rparr>) w1"
        using False h True by (subst process_recv.simps) simp
      from 1 [OF False h [symmetric] refl True] step show ?thesis
        using ok(2) recv_rank_next [OF False, of rr1] by (auto simp: same_receive_def)
    next
      case r: False
      then have "process_recv rr w = (0, rr1, w1)"
        using False h ok(1) by (subst process_recv.simps) simp
      then show ?thesis using ok r False by (simp add: same_receive_def)
    qed
  qed
qed

section \<open>What populating does\<close>

text \<open>The fingerprints of a message and what the cache holds of them: the indices of the missing
  ones, in order, and the claim the loop establishes after \<open>i\<close> of them.\<close>

definition missing_of :: "(u8 list \<rightharpoonup> u8 list) \<Rightarrow> Fingerprint list \<Rightarrow> nat \<Rightarrow> nat list" where
  "missing_of held fps i = [j \<leftarrow> [0..<i]. held (fp_fingerprint (fps ! j)) = None]"

abbreviation fp_sizes :: "Fingerprint list \<Rightarrow> nat list" where "fp_sizes \<equiv> map fp_content_size"

text \<open>What the cache holds for the digests of the message has the announced sizes.\<close>

definition held_sizes_ok :: "(u8 list \<rightharpoonup> u8 list) \<Rightarrow> Fingerprint list \<Rightarrow> bool" where
  "held_sizes_ok held fps \<longleftrightarrow>
     (\<forall>fp\<in>set fps. fp_fingerprint fp \<noteq> zero_key \<and>
        (\<forall>x. held (fp_fingerprint fp) = Some x \<longrightarrow> length x = fp_content_size fp))"

definition populate_inv ::
  "(u8 list \<rightharpoonup> u8 list) \<Rightarrow> Fingerprint list \<Rightarrow> u8 list \<Rightarrow> nat \<Rightarrow> nat \<Rightarrow> Populate \<Rightarrow> bool" where
  "populate_inv held fps buf room i p \<longleftrightarrow>
     pop_num_missing p = length (missing_of held fps i) \<and>
     length (pop_inds p) = room \<and> length (pop_slots p) = room \<and>
     take (pop_num_missing p) (pop_inds p) = missing_of held fps i \<and>
     take (pop_num_missing p) (pop_slots p) = map (offset_of (fp_sizes fps)) (missing_of held fps i) \<and>
     pop_cur p = offset_of (fp_sizes fps) i \<and>
     length (pop_buffer p) = length buf \<and>
     (\<forall>j<i. bytes_at (offset_of (fp_sizes fps) j) (fp_content_size (fps ! j)) (pop_buffer p) =
        (case held (fp_fingerprint (fps ! j)) of
           Some x \<Rightarrow> x
         | None \<Rightarrow> bytes_at (offset_of (fp_sizes fps) j) (fp_content_size (fps ! j)) buf)) \<and>
     (\<forall>q. offset_of (fp_sizes fps) i \<le> q \<longrightarrow> q < length buf \<longrightarrow> pop_buffer p ! q = buf ! q)"

lemma missing_of_Suc:
  "missing_of held fps (Suc i) =
     missing_of held fps i @ (if held (fp_fingerprint (fps ! i)) = None then [i] else [])"
  by (simp add: missing_of_def)

lemma length_missing_of: "length (missing_of held fps i) \<le> i"
  unfolding missing_of_def using length_filter_le [of _ "[0..<i]"] by simp

lemma take_Suc_update: "n < length xs \<Longrightarrow> take (Suc n) (xs[n := x]) = take n xs @ [x]"
  by (simp add: take_Suc_conv_app_nth)

lemma populate_one_inv:
  assumes inv: "populate_inv (cache_contents c) fps buf room i p" and i: "i < length fps"
    and ok: "cache_ok c" and hs: "held_sizes_ok (cache_contents c) fps"
    and room: "length fps \<le> room" and fit: "sum_list (fp_sizes fps) \<le> length buf"
  shows "populate_inv (cache_contents c) fps buf room (Suc i) (populate_one c (fps ! i) i p)"
proof -
  let ?held = "cache_contents c" and ?fp = "fps ! i" and ?off = "offset_of (fp_sizes fps)"
  let ?sz = "fp_content_size ?fp"
  have nz: "fp_fingerprint ?fp \<noteq> zero_key" using hs i by (simp add: held_sizes_ok_def)
  have off: "?off (Suc i) = ?off i + ?sz" using i by (simp add: offset_of_Suc)
  have le: "?off i + ?sz \<le> length buf"
    using offset_of_block_le [of i "fp_sizes fps"] i fit by simp
  have before: "?off j + fp_content_size (fps ! j) \<le> ?off i" if "j < i" for j
    using offset_of_blocks_disjoint [of j i "fp_sizes fps"] that i by simp
  have I: "pop_num_missing p = length (missing_of ?held fps i)" "length (pop_inds p) = room"
    "length (pop_slots p) = room" "take (pop_num_missing p) (pop_inds p) = missing_of ?held fps i"
    "take (pop_num_missing p) (pop_slots p) = map ?off (missing_of ?held fps i)"
    "pop_cur p = ?off i" "length (pop_buffer p) = length buf"
    "\<And>j. j < i \<Longrightarrow> bytes_at (?off j) (fp_content_size (fps ! j)) (pop_buffer p) =
        (case ?held (fp_fingerprint (fps ! j)) of Some x \<Rightarrow> x
         | None \<Rightarrow> bytes_at (?off j) (fp_content_size (fps ! j)) buf)"
    "\<And>q. ?off i \<le> q \<Longrightarrow> q < length buf \<Longrightarrow> pop_buffer p ! q = buf ! q"
    using inv unfolding populate_inv_def by blast+
  have lt: "pop_num_missing p < room" using I(1) length_missing_of [of ?held fps i] i room by simp
  show ?thesis
  proof (cases "?held (fp_fingerprint ?fp)")
    case None
    then have l: "lookup_fingerprint c (fp_fingerprint ?fp) r = (False, r)" for r
      using lookup_copy_spec [OF ok nz, of r] by simp
    have p': "pop_num_missing (populate_one c ?fp i p) = Suc (pop_num_missing p)"
      "pop_inds (populate_one c ?fp i p) = (pop_inds p)[pop_num_missing p := i]"
      "pop_slots (populate_one c ?fp i p) = (pop_slots p)[pop_num_missing p := ?off i]"
      "pop_cur (populate_one c ?fp i p) = ?off (Suc i)"
      "pop_buffer (populate_one c ?fp i p) = pop_buffer p"
      using l I(6) off by (simp_all add: populate_one_def Let_def)
    have same: "bytes_at (?off i) ?sz (pop_buffer p) = bytes_at (?off i) ?sz buf"
      using I(7,9) le by (intro nth_equalityI) (auto simp: nth_bytes_at)
    show ?thesis
      unfolding populate_inv_def p' missing_of_Suc
      using None I lt off same by (auto simp: take_Suc_update less_Suc_eq)
  next
    case (Some x)
    then have x: "length x = ?sz" using hs i by (simp add: held_sizes_ok_def)
    obtain e where e: "lookup_fingerprint c (fp_fingerprint ?fp) (pop_entry p) = (True, e)"
      "\<And>b dest. dest + length x \<le> length b \<Longrightarrow> copy_fingerprint_content b dest c e = bytes_put dest x b"
      using lookup_copy_spec [OF ok nz, of "pop_entry p"] Some by auto
    have p': "pop_num_missing (populate_one c ?fp i p) = pop_num_missing p"
      "pop_inds (populate_one c ?fp i p) = pop_inds p" "pop_slots (populate_one c ?fp i p) = pop_slots p"
      "pop_cur (populate_one c ?fp i p) = ?off (Suc i)"
      "pop_buffer (populate_one c ?fp i p) = bytes_put (?off i) x (pop_buffer p)"
      using e(1) e(2) [of "?off i" "pop_buffer p"] I(6,7) off le x by (simp_all add: populate_one_def Let_def)
    have at: "bytes_at (?off i) ?sz (bytes_put (?off i) x (pop_buffer p)) = x"
      using bytes_at_bytes_put_same [of "?off i" x "pop_buffer p"] le x I(7) by simp
    have prev: "bytes_at (?off j) (fp_content_size (fps ! j)) (bytes_put (?off i) x (pop_buffer p)) =
        bytes_at (?off j) (fp_content_size (fps ! j)) (pop_buffer p)" if "j < i" for j
      using before [OF that] le x I(7) by (intro bytes_at_bytes_put_before) simp_all
    show ?thesis
      unfolding populate_inv_def p' missing_of_Suc
      using Some I off le x at prev by (auto simp: less_Suc_eq nth_bytes_put)
  qed
qed

lemma populate_loop_inv:
  assumes "populate_inv (cache_contents c) fps buf room i p" "i + n = length fps"
    and "cache_ok c" "held_sizes_ok (cache_contents c) fps" "length fps \<le> room"
    and "sum_list (fp_sizes fps) \<le> length buf" and "\<And>j. j < length fps \<Longrightarrow> packaged j = fps ! j"
  shows "populate_inv (cache_contents c) fps buf room (length fps) (populate_loop c packaged i n p)"
  using assms
proof (induction n arbitrary: i p)
  case 0
  then show ?case by simp
next
  case (Suc n)
  have i: "i < length fps" using Suc.prems(2) by simp
  have "populate_inv (cache_contents c) fps buf room (Suc i) (populate_one c (packaged i) i p)"
    using populate_one_inv [OF Suc.prems(1) i Suc.prems(3-6)] Suc.prems(7) [OF i] by simp
  then show ?case using Suc.IH [of "Suc i"] Suc.prems(2-7) by simp
qed

end
