(* ===== verification/NetDedup.thy ===== *)
theory NetDedup
  imports SendReq RecvReq
begin

text \<open>
  The exported functions of \<^verbatim>\<open>net_dedup.c\<close>: initialisation, device queries, connection
  establishment, posting and testing requests, closing. What the kernel and the C library answer to
  the calls a function makes is an argument (a record per function); logging is left out. A result
  of type option is \<open>None\<close> where the C function would never return.
\<close>

section \<open>Communicators and handles\<close>

datatype Dedup_Req = SendReq Dedup_Send_Req | RecvReq Dedup_Recv_Req

fun req_type :: "Dedup_Req \<Rightarrow> ReqType" where
  "req_type (SendReq _) = SEND_REQ"
| "req_type (RecvReq _) = RECV_REQ"

record Dedup_Listen_Comm =
  lc_dev_num :: int
  lc_listenFd :: int
  lc_acceptedFd :: int
  lc_src_addr :: Sockaddr

record Dedup_Send_Comm =
  sc_dev_num :: int
  sc_fd :: int
  sc_dest_addr :: Sockaddr
  sc_requests :: "Dedup_Req list"
  sc_req_lock :: bool
  sc_take_req_ind :: int

record Dedup_Recv_Comm =
  rc_dev_num :: int
  rc_fd :: int
  rc_src_addr :: Sockaddr
  rc_requests :: "Dedup_Req list"
  rc_req_lock :: bool
  rc_take_req_ind :: int

record Dedup_Connect_Handle =
  ch_addr :: Sockaddr
  ch_connectingFd :: int
  ch_in_progress :: bool
  ch_is_connected :: bool

section \<open>Zeroed requests\<close>

text \<open>What \<open>memset (req, 0, sizeof *req)\<close> and fresh anonymous mappings hold.\<close>

definition zero_send_req :: Dedup_Send_Req where
  "zero_send_req =
     \<lparr>sr_sockfd = 0, sr_stage = SEND_HEADER, sr_header = \<lparr>is_fingerprint = 0, header_content_size = 0\<rparr>,
      sr_send_header_offset = 0, sr_num_fingerprints = 0, sr_send_fingerprint_header_offset = 0,
      sr_send_fingerprint_state =
        \<lparr>ss_packaged_fingerprints =
           replicate MAX_FINGERPRINTS_PER_REQ
             \<lparr>fp_content_size = 0, fp_fingerprint = replicate FINGERPRINT_NUM_BYTES 0\<rparr>,
         ss_fingerprint_offsets = replicate MAX_FINGERPRINTS_PER_REQ 0,
         ss_packaged_fingerprints_size_bytes = 0, ss_send_fingerprint_offset = 0,
         ss_missing_fingerprint_header = replicate sizeof_Missing_Fingerprint_Header 0,
         ss_missing_fingerprint_header_offset = 0,
         ss_missing_fingerprint_inds = replicate (8 * MAX_FINGERPRINTS_PER_REQ) 0,
         ss_recv_missing_fingerprint_inds_offset = 0, ss_cur_reply_content_fingerprint_ind = 0,
         ss_cur_reply_content_fingerprint_offset = 0\<rparr>,
      sr_size = 0, sr_data = [], sr_offset = 0\<rparr>"

definition zero_recv_req :: Dedup_Recv_Req where
  "zero_recv_req =
     \<lparr>rr_sockfd = 0, rr_stage = RECV_HEADER, rr_mem = replicate rr_mem_size 0,
      rr_recv_fingerprint_state =
        \<lparr>rs_packaged_fingerprints_size_bytes = 0, rs_recv_fingerprint_offset = 0,
         rs_missing_fingerprint_inds = replicate MAX_FINGERPRINTS_PER_REQ 0,
         rs_missing_fingerprint_slots = replicate MAX_FINGERPRINTS_PER_REQ 0,
         rs_num_missing_fingerprints = 0, rs_missing_fingerprint_header_offset = 0,
         rs_send_missing_fingerprint_inds_offset = 0, rs_cur_recv_content_ind = 0,
         rs_cur_recv_content_offset = 0\<rparr>,
      rr_size = 0, rr_app_buffer = [], rr_app_offset = 0, rr_app_filled_size = 0\<rparr>"

section \<open>Initialisation\<close>

text \<open>\<open>atoi\<close>: optional white space and sign, then the leading digits.\<close>

fun atoi_digits :: "string \<Rightarrow> nat \<Rightarrow> nat" where
  "atoi_digits [] acc = acc"
| "atoi_digits (c # cs) acc =
     (if 48 \<le> (of_char c :: nat) \<and> (of_char c :: nat) \<le> 57
      then atoi_digits cs (acc * 10 + (of_char c - 48)) else acc)"

definition atoi :: "string \<Rightarrow> int" where
  "atoi s =
     (case dropWhile (\<lambda>c. c = CHR '' '' \<or> 9 \<le> (of_char c :: nat) \<and> (of_char c :: nat) \<le> 13) s of
        [] \<Rightarrow> 0
      | c # cs \<Rightarrow> if c = CHR ''-'' then - int (atoi_digits cs 0)
                 else if c = CHR ''+'' then int (atoi_digits cs 0) else int (atoi_digits (c # cs) 0))"

text \<open>\<open>ie_shm_new\<close>: the exclusive creation of the shared file succeeded. \<open>ie_shm_retries\<close>: the results
  of the retries to open an existing one; when they run out the waiting loop goes on forever.
  \<open>ie_shared_cache\<close>: what an existing file holds.\<close>

record Init_Env =
  ie_ifaddrs :: "If_Addr list option"
  ie_uninit :: NetDev_Interface
  ie_shm_new :: bool
  ie_shm_retries :: "bool list"
  ie_mmap_null :: bool
  ie_shared_cache :: Fingerprint_Cache
  ie_skip_insert_cache :: "string option"
  ie_max_requests :: "string option"
  ie_dump_path :: "string option"
  ie_fopen_bytes :: bool
  ie_fopen_sizes :: bool

text \<open>\<open>while (fd == -1) { sleep (1); fd = shm_open (...); }\<close>: does it end?\<close>

fun shm_wait_loop :: "bool list \<Rightarrow> bool" where
  "shm_wait_loop [] = False"
| "shm_wait_loop (ok # oks) = (ok \<or> shm_wait_loop oks)"

definition netDedup_init :: "Init_Env \<Rightarrow> World \<Rightarrow> (ncclResult_t \<times> World) option" where
  "netDedup_init env w =
     (let (n, devs) = init_net_socket_devs (ie_ifaddrs env) (ie_uninit env) (net_devices (net_dedup_state w));
          w1 = w\<lparr>net_dedup_state := (net_dedup_state w)\<lparr>net_devices := devs\<rparr>\<rparr>
      in if n = - 1 then Some (ncclSystemError, w1)
         else let w2 = w1\<lparr>net_dedup_state := (net_dedup_state w1)\<lparr>num_net_devices := n\<rparr>\<rparr>
              in if \<not> ie_shm_new env \<and> \<not> shm_wait_loop (ie_shm_retries env) then None
                 else if ie_mmap_null env then Some (ncclSystemError, w2)
                 else let w3 = w2\<lparr>global_fingerprint_cache :=
                                   (if ie_shm_new env then init_fingerprint_cache zeroed_cache
                                    else ie_shared_cache env),
                                 active_fds := (\<lambda>i. if 0 \<le> i \<and> i < int MAX_FDS then False else active_fds w2 i),
                                 to_skip_insert_cache :=
                                   (case ie_skip_insert_cache env of Some (c # cs) \<Rightarrow> c = CHR ''1'' | _ \<Rightarrow> False)\<rparr>
                      in (case ie_max_requests env of
                            None \<Rightarrow> Some (ncclSystemError, w3)
                          | Some mr \<Rightarrow>
                              if ie_dump_path env = None \<or> \<not> ie_fopen_bytes env
                              then Some (ncclSystemError, w3)
                              else let w4 = w3\<lparr>dump_bytes_file := []\<rparr>
                                   in if \<not> ie_fopen_sizes env then Some (ncclSystemError, w4)
                                      else Some (ncclSuccess,
                                             w4\<lparr>dump_sizes_file := [], dump_lock := False,
                                                max_requests_per_comm := atoi mr\<rparr>)))"

section \<open>Devices\<close>

definition netDedup_devices :: "World \<Rightarrow> ncclResult_t \<times> int" where
  "netDedup_devices w = (ncclSuccess, num_net_devices (net_dedup_state w))"

text \<open>The property structures start with two string pointers and a \<open>uint64_t\<close>, in both versions; the
  rest is 4-byte cells. Version 8 has nine of them (\<open>ptrSupport\<close>, \<open>regIsGlobal\<close>, \<open>speed\<close>, \<open>port\<close>, \<open>latency\<close>,
  \<open>maxComms\<close>, \<open>maxRecvs\<close>, \<open>netDeviceType\<close>, \<open>netDeviceVersion\<close>), version 7 eight: it lacks \<open>regIsGlobal\<close>.
  A string pointer that points into the callee's frame is \<open>Callee_Frame\<close>.\<close>

datatype string_ptr = Null_Ptr | Callee_Frame string

record Net_Properties =
  np_name :: string_ptr
  np_pciPath :: string_ptr
  np_guid :: nat
  np_cells :: "int list"

definition NCCL_PTR_HOST :: int where "NCCL_PTR_HOST = 1"
definition NCCL_NET_DEVICE_HOST :: int where "NCCL_NET_DEVICE_HOST = 0"

definition netDedup_getProperties_v8 :: "World \<Rightarrow> int \<Rightarrow> Net_Properties \<Rightarrow> ncclResult_t \<times> Net_Properties" where
  "netDedup_getProperties_v8 w dev props =
     (if num_net_devices (net_dedup_state w) \<le> dev then (ncclInvalidUsage, props)
      else let q_dev = net_devices (net_dedup_state w) ! nat dev
           in (ncclSuccess,
               props\<lparr>np_name := Callee_Frame (if_name q_dev), np_guid := nat (dev mod 2 ^ 64),
                 np_pciPath := Callee_Frame (pciPath q_dev),
                 np_cells := write_prefix
                   [NCCL_PTR_HOST, 0, sint (word_of_int (if_speed q_dev) :: u32), 0, 0,
                    int MAX_COMMS_NET_DEDUP_SOCKET_DEV, 1, NCCL_NET_DEVICE_HOST, 8] (np_cells props)\<rparr>))"

definition netDedup_getProperties_v7 :: "World \<Rightarrow> int \<Rightarrow> Net_Properties \<Rightarrow> ncclResult_t \<times> Net_Properties" where
  "netDedup_getProperties_v7 w dev props =
     (if num_net_devices (net_dedup_state w) \<le> dev then (ncclInvalidUsage, props)
      else let q_dev = net_devices (net_dedup_state w) ! nat dev
           in (ncclSuccess,
               props\<lparr>np_name := Callee_Frame (if_name q_dev), np_guid := nat (dev mod 2 ^ 64),
                 np_pciPath := Callee_Frame (pciPath q_dev),
                 np_cells := write_prefix
                   [NCCL_PTR_HOST, sint (word_of_int (if_speed q_dev) :: u32), 0, 0,
                    int MAX_COMMS_NET_DEDUP_SOCKET_DEV, 1, NCCL_NET_DEVICE_HOST, 7] (np_cells props)\<rparr>))"

section \<open>Connection establishment\<close>

text \<open>A call answers 0 or an error, as the source tests them; \<open>la_bind\<close> answers for the address it is
  given, \<open>la_getsockname\<close> also gives the bound address, \<open>la_socket\<close> the descriptor. As in the queries, the
  device number is not checked against 0, and a negative one, which reads before the array, is outside
  the model.\<close>

record Listen_Answers =
  la_socket :: int
  la_reuse :: bool
  la_nodelay :: bool
  la_zerocopy :: bool
  la_bind :: "Sockaddr \<Rightarrow> bool"
  la_getsockname :: "Sockaddr option"
  la_listen :: bool
  la_malloc :: bool

definition netDedup_listen ::
  "Listen_Answers \<Rightarrow> int \<Rightarrow> Dedup_Connect_Handle \<Rightarrow> World \<Rightarrow>
   ncclResult_t \<times> Dedup_Connect_Handle \<times> Dedup_Listen_Comm option" where
  "netDedup_listen a dev handle w =
     (if la_socket a < 0 \<or> \<not> la_reuse a \<or> \<not> la_nodelay a \<or> \<not> la_zerocopy a \<or>
         \<not> la_bind a (sa (net_devices (net_dedup_state w) ! nat dev))
      then (ncclSystemError, handle, None)
      else (case la_getsockname a of
              None \<Rightarrow> (ncclSystemError, handle, None)
            | Some bound_addr \<Rightarrow>
                if \<not> la_listen a then (ncclSystemError, handle, None)
                else let handle1 = \<lparr>ch_addr = bound_addr, ch_connectingFd = - 1,
                                    ch_in_progress = False, ch_is_connected = False\<rparr>
                     in if \<not> la_malloc a then (ncclSystemError, handle1, None)
                        else (ncclSuccess, handle1,
                              Some \<lparr>lc_dev_num = dev, lc_listenFd = la_socket a, lc_acceptedFd = - 1,
                                    lc_src_addr = \<lparr>sin_addr = 0, sin_port = 0\<rparr>\<rparr>)))"

text \<open>\<open>ca_mmap_null\<close> and \<open>ca_mmap_requests_null\<close>: \<open>mmap\<close> gave NULL for the communicator and for its
  requests. The result of the third \<open>mmap\<close> is not examined: the source tests \<open>requests\<close> again.
  \<open>ca_connect\<close> is the error number of \<open>connect\<close> to an address, \<open>ca_so_error\<close> the answer to \<open>getsockopt (SO_ERROR)\<close>.\<close>

record Connect_Answers =
  ca_mmap_null :: bool
  ca_mmap_requests_null :: bool
  ca_so_error :: "nat option"
  ca_socket :: int
  ca_nodelay :: bool
  ca_zerocopy :: bool
  ca_connect :: "Sockaddr \<Rightarrow> nat option"

definition EINPROGRESS :: nat where "EINPROGRESS = 115"

definition new_send_comm :: "World \<Rightarrow> int \<Rightarrow> Dedup_Connect_Handle \<Rightarrow> Dedup_Send_Comm" where
  "new_send_comm w dev handle =
     \<lparr>sc_dev_num = dev, sc_fd = ch_connectingFd handle, sc_dest_addr = ch_addr handle,
      sc_requests = replicate (nat (max_requests_per_comm w)) (SendReq zero_send_req),
      sc_req_lock = False, sc_take_req_ind = 0\<rparr>"

definition netDedup_connect_v8 ::
  "Connect_Answers \<Rightarrow> int \<Rightarrow> Dedup_Connect_Handle \<Rightarrow> World \<Rightarrow>
   ncclResult_t \<times> Dedup_Connect_Handle \<times> Dedup_Send_Comm option \<times> World" where
  "netDedup_connect_v8 a dev handle w =
     (if ch_is_connected handle
      then let (sent_bytes, w1) = sock_send (ch_connectingFd handle) [1] w
           in if sent_bytes = - 1
              then (if errno w1 = EAGAIN \<or> errno w1 = EWOULDBLOCK then ncclSuccess else ncclSystemError,
                    handle, None, w1)
              else if ca_mmap_null a \<or> ca_mmap_requests_null a then (ncclSystemError, handle, None, w1)
              else (ncclSuccess, handle, Some (new_send_comm w1 dev handle), w1)
      else if ch_in_progress handle
      then (case ca_so_error a of
              None \<Rightarrow> (ncclSystemError, handle, None, w)
            | Some progress_ret \<Rightarrow>
                if progress_ret = 0 then (ncclSuccess, handle\<lparr>ch_is_connected := True\<rparr>, None, w)
                else if progress_ret = EINPROGRESS then (ncclSuccess, handle, None, w)
                else (ncclSystemError, handle, None, w))
      else if ca_socket a < 0 then (ncclSystemError, handle, None, w)
      else let handle1 = handle\<lparr>ch_connectingFd := ca_socket a\<rparr>
           in if \<not> ca_nodelay a \<or> \<not> ca_zerocopy a then (ncclSystemError, handle1, None, w)
              else (case ca_connect a (ch_addr handle1) of
                      Some e \<Rightarrow>
                        if e \<noteq> EINPROGRESS then (ncclSystemError, handle1, None, w\<lparr>errno := e\<rparr>)
                        else (ncclSuccess, handle1\<lparr>ch_in_progress := True\<rparr>, None, w\<lparr>errno := e\<rparr>)
                    | None \<Rightarrow> (ncclSuccess, handle1\<lparr>ch_is_connected := True\<rparr>, None, w)))"

definition netDedup_connect_v7 ::
  "Connect_Answers \<Rightarrow> int \<Rightarrow> Dedup_Connect_Handle \<Rightarrow> World \<Rightarrow>
   ncclResult_t \<times> Dedup_Connect_Handle \<times> Dedup_Send_Comm option \<times> World" where
  "netDedup_connect_v7 a dev handle w = netDedup_connect_v8 a dev handle w"

text \<open>\<open>aa_accept\<close>: the descriptor and remote address, or the error number.\<close>

record Accept_Answers =
  aa_mmap_null :: bool
  aa_mmap_requests_null :: bool
  aa_accept :: "nat + int \<times> Sockaddr"

definition new_recv_comm :: "World \<Rightarrow> Dedup_Listen_Comm \<Rightarrow> Dedup_Recv_Comm" where
  "new_recv_comm w lc =
     \<lparr>rc_dev_num = lc_dev_num lc, rc_fd = lc_acceptedFd lc, rc_src_addr = lc_src_addr lc,
      rc_requests = replicate (nat (max_requests_per_comm w)) (RecvReq zero_recv_req),
      rc_req_lock = False, rc_take_req_ind = 0\<rparr>"

definition netDedup_accept_v8 ::
  "Accept_Answers \<Rightarrow> Dedup_Listen_Comm \<Rightarrow> World \<Rightarrow>
   ncclResult_t \<times> Dedup_Listen_Comm \<times> Dedup_Recv_Comm option \<times> World" where
  "netDedup_accept_v8 a lc w =
     (if lc_acceptedFd lc \<noteq> - 1
      then let (recv_bytes, bs, w1) = sock_recv (lc_acceptedFd lc) 1 w
           in if recv_bytes = - 1
              then (case retry_on_error w1 of
                      (r, w2) \<Rightarrow> (if r = 0 then ncclSuccess else ncclSystemError, lc, None, w2))
              else if aa_mmap_null a \<or> aa_mmap_requests_null a then (ncclSystemError, lc, None, w1)
              else (ncclSuccess, lc, Some (new_recv_comm w1 lc), w1)
      else (case aa_accept a of
              Inl e \<Rightarrow> (if e = EAGAIN \<or> e = EWOULDBLOCK then ncclSuccess else ncclSystemError,
                        lc, None, w\<lparr>errno := e\<rparr>)
            | Inr (fd, remote) \<Rightarrow>
                (ncclSuccess, lc\<lparr>lc_acceptedFd := fd, lc_src_addr := remote\<rparr>, None, w)))"

definition netDedup_accept_v7 ::
  "Accept_Answers \<Rightarrow> Dedup_Listen_Comm \<Rightarrow> World \<Rightarrow>
   ncclResult_t \<times> Dedup_Listen_Comm \<times> Dedup_Recv_Comm option \<times> World" where
  "netDedup_accept_v7 a lc w = netDedup_accept_v8 a lc w"

text \<open>Closing: the descriptors closed; a NULL argument is \<open>None\<close>.\<close>

definition netDedup_closeListen :: "Dedup_Listen_Comm option \<Rightarrow> ncclResult_t \<times> int list" where
  "netDedup_closeListen lc =
     (case lc of None \<Rightarrow> (ncclSuccess, []) | Some c \<Rightarrow> (ncclSuccess, [lc_listenFd c]))"

definition netDedup_closeSend :: "Dedup_Send_Comm option \<Rightarrow> ncclResult_t \<times> int list" where
  "netDedup_closeSend sc = (case sc of None \<Rightarrow> (ncclSuccess, []) | Some c \<Rightarrow> (ncclSuccess, [sc_fd c]))"

definition netDedup_closeRecv :: "Dedup_Recv_Comm option \<Rightarrow> ncclResult_t \<times> int list" where
  "netDedup_closeRecv rc = (case rc of None \<Rightarrow> (ncclSuccess, []) | Some c \<Rightarrow> (ncclSuccess, [rc_fd c]))"

section \<open>Memory registration and the unsupported calls\<close>

definition netDedup_regMr_v8 :: "nat \<Rightarrow> int \<Rightarrow> ncclResult_t" where
  "netDedup_regMr_v8 sz type = (if type \<noteq> NCCL_PTR_HOST then ncclInternalError else ncclSuccess)"

definition netDedup_regMr_v7 :: "int \<Rightarrow> int \<Rightarrow> ncclResult_t" where
  "netDedup_regMr_v7 sz type = (if type \<noteq> NCCL_PTR_HOST then ncclInternalError else ncclSuccess)"

definition netDedup_regMrDmaBuf :: "nat \<Rightarrow> int \<Rightarrow> nat \<Rightarrow> int \<Rightarrow> ncclResult_t" where
  "netDedup_regMrDmaBuf sz type offset fd =
     (if type \<noteq> NCCL_PTR_HOST then ncclInternalError else ncclSuccess)"

definition netDedup_deregMr :: ncclResult_t where "netDedup_deregMr = ncclSuccess"
definition netDedup_getDeviceMr :: ncclResult_t where "netDedup_getDeviceMr = ncclInternalError"
definition netDedup_iflush :: ncclResult_t where "netDedup_iflush = ncclInternalError"

definition netDedup_irecvConsumed :: "Dedup_Recv_Comm option \<Rightarrow> Dedup_Req option \<Rightarrow> ncclResult_t" where
  "netDedup_irecvConsumed rc request =
     (if rc = None \<or> request = None then ncclInternalError else ncclInternalError)"

section \<open>Posting requests\<close>

text \<open>\<open>pthread_mutex_lock\<close> on a lock that is held and never released does not return. A failing write
  returns without releasing it. The files take as many bytes and records as their room.\<close>

definition dump_send :: "u8 list \<Rightarrow> int \<Rightarrow> World \<Rightarrow> (int \<times> World) option" where
  "dump_send data sz w =
     (if dump_lock w then None
      else let w1 = w\<lparr>dump_lock := True\<rparr>;
               n = (if 0 < sz then min (nat sz) (dump_bytes_room w1) else 0);
               w2 = w1\<lparr>dump_bytes_file := dump_bytes_file w1 @ take n data,
                       dump_bytes_room := dump_bytes_room w1 - n\<rparr>
           in if 0 < sz \<and> n \<noteq> nat sz then Some (- 1, w2)
              else if dump_sizes_room w2 = 0 then Some (- 1, w2)
              else Some (0, w2\<lparr>dump_sizes_file := dump_sizes_file w2 @ [sz],
                              dump_sizes_room := dump_sizes_room w2 - 1, dump_lock := False\<rparr>))"

text \<open>The request an \<open>isend\<close> of \<open>size\<close> bytes starts from; \<open>size\<close> is an \<open>int\<close> that the comparison and the
  assignments convert to 64 unsigned bits.\<close>

definition posted_send_req :: "int \<Rightarrow> u8 list \<Rightarrow> int \<Rightarrow> Dedup_Send_Req" where
  "posted_send_req fd data sz =
     zero_send_req\<lparr>sr_sockfd := fd, sr_size := nat (sz mod 2 ^ 64), sr_data := data, sr_offset := 0,
       sr_send_header_offset := 0, sr_send_fingerprint_header_offset := 0,
       sr_header := \<lparr>is_fingerprint =
           (if FINGERPRINT_MSG_SIZE_THRESHOLD < nat (sz mod 2 ^ 64) then 1 else 0),
         header_content_size = nat (sz mod 2 ^ 64)\<rparr>,
       sr_stage := SEND_HEADER\<rparr>"

text \<open>Returns the index of the posted request in the communicator, \<open>None\<close> for a NULL request.\<close>

definition netDedup_isend ::
  "(u8 list \<Rightarrow> u8 list) \<Rightarrow> Dedup_Send_Comm \<Rightarrow> u8 list \<Rightarrow> int \<Rightarrow> World \<Rightarrow>
   (ncclResult_t \<times> nat option \<times> Dedup_Send_Comm \<times> World) option" where
  "netDedup_isend sha comm data sz w =
     (if active_fds w (sc_fd comm) then Some (ncclSuccess, None, comm, w)
      else if sc_req_lock comm then Some (ncclSuccess, None, comm, w)
      else let ind = nat (sc_take_req_ind comm);
               comm1 = comm\<lparr>sc_take_req_ind := (sc_take_req_ind comm + 1) mod max_requests_per_comm w\<rparr>;
               send_req = posted_send_req (sc_fd comm) data sz;
               comm2 = comm1\<lparr>sc_requests := (sc_requests comm1)[ind := SendReq send_req]\<rparr>
           in (case dump_send data sz w of
                 None \<Rightarrow> None
               | Some (ret, w1) \<Rightarrow>
                   if ret \<noteq> 0 then Some (ncclSystemError, None, comm2, w1)
                   else (case process_send sha send_req w1 of
                           None \<Rightarrow> None
                         | Some (ret2, send_req1, w2) \<Rightarrow>
                             let comm3 = comm2\<lparr>sc_requests := (sc_requests comm2)[ind := SendReq send_req1]\<rparr>
                             in if ret2 = - 1 then Some (ncclSystemError, None, comm3, w2)
                                else Some (ncclSuccess, Some ind, comm3,
                                       w2\<lparr>active_fds := (active_fds w2)(sc_fd comm := True)\<rparr>))))"

definition posted_recv_req :: "int \<Rightarrow> u8 list \<Rightarrow> int \<Rightarrow> Dedup_Recv_Req" where
  "posted_recv_req fd buf sz =
     zero_recv_req\<lparr>rr_sockfd := fd, rr_size := nat (sz mod 2 ^ 64), rr_app_buffer := buf,
       rr_app_offset := 0, rr_app_filled_size := 0, rr_stage := RECV_HEADER\<rparr>"

text \<open>Only the first buffer and size of a receive are used.\<close>

definition netDedup_irecv ::
  "Dedup_Recv_Comm \<Rightarrow> u8 list \<Rightarrow> int \<Rightarrow> World \<Rightarrow> ncclResult_t \<times> nat option \<times> Dedup_Recv_Comm \<times> World" where
  "netDedup_irecv comm buf sz w =
     (if active_fds w (rc_fd comm) then (ncclSuccess, None, comm, w)
      else if rc_req_lock comm then (ncclSuccess, None, comm, w)
      else let ind = nat (rc_take_req_ind comm);
               comm1 = comm\<lparr>rc_take_req_ind := (rc_take_req_ind comm + 1) mod max_requests_per_comm w\<rparr>;
               (ret, recv_req1, w1) = process_recv (posted_recv_req (rc_fd comm) buf sz) w;
               comm2 = comm1\<lparr>rc_requests := (rc_requests comm1)[ind := RecvReq recv_req1]\<rparr>
           in if ret = - 1 then (ncclSystemError, None, comm2, w1)
              else (ncclSuccess, Some ind, comm2,
                    w1\<lparr>active_fds := (active_fds w1)(rc_fd comm := True)\<rparr>))"

section \<open>Testing requests\<close>

text \<open>\<open>done\<close>, the size written through \<open>size\<close> (\<open>None\<close> when nothing is written), the request and the
  world after the call; or the process group was killed.\<close>

datatype test_result = Tested bool "int option" "Dedup_Req option" World | Killed

definition finish_test ::
  "bool \<Rightarrow> int \<Rightarrow> int \<Rightarrow> nat \<Rightarrow> Dedup_Req \<Rightarrow> World \<Rightarrow> test_result" where
  "finish_test want_size is_complete sockfd content_size req w =
     (if is_complete = 1
      then Tested True (if want_size then Some (to_int32 content_size) else None) (Some req)
             (w\<lparr>active_fds := (active_fds w)(sockfd := False)\<rparr>)
      else Tested False None (Some req) w)"

definition netDedup_test ::
  "(u8 list \<Rightarrow> u8 list) \<Rightarrow> Dedup_Req option \<Rightarrow> bool \<Rightarrow> World \<Rightarrow> test_result option" where
  "netDedup_test sha request want_size w =
     (case request of
        None \<Rightarrow> Some (Tested True (if want_size then Some 0 else None) None w)
      | Some (SendReq sr) \<Rightarrow>
          (case process_send sha sr w of
             None \<Rightarrow> None
           | Some (is_complete, sr1, w1) \<Rightarrow>
               if is_complete = - 1 then Some Killed
               else Some (finish_test want_size is_complete (sr_sockfd sr1)
                            (header_content_size (sr_header sr1)) (SendReq sr1) w1))
      | Some (RecvReq rr) \<Rightarrow>
          (case process_recv rr w of
             (is_complete, rr1, w1) \<Rightarrow>
               if is_complete = - 1 then Some Killed
               else Some (finish_test want_size is_complete (rr_sockfd rr1)
                            (rr_content_size rr1) (RecvReq rr1) w1)))"

end
