(* ===== verification/Plugin.thy ===== *)
theory Plugin
  imports NetDedup
begin

text \<open>
  \<^verbatim>\<open>net_dedup_coll.c\<close> and \<^verbatim>\<open>plugin_netdedup.c\<close>: the collective-network stubs and the four
  function tables the plugin exports. A table is a record of its entries; an entry is the name of the
  function it points to, or \<open>None\<close> for NULL.
\<close>

section \<open>Collective stubs\<close>

definition netDedupColl_init :: ncclResult_t where "netDedupColl_init = ncclSuccess"

definition netDedupColl_devices :: "World \<Rightarrow> ncclResult_t \<times> int" where
  "netDedupColl_devices w = (ncclSuccess, num_net_devices (net_dedup_state w))"

definition netDedupColl_getProperties_v8 ::
  "World \<Rightarrow> int \<Rightarrow> Net_Properties \<Rightarrow> ncclResult_t \<times> Net_Properties" where
  "netDedupColl_getProperties_v8 w dev props = netDedup_getProperties_v8 w dev props"

text \<open>The cast of the version 7 structure to version 8: the same memory.\<close>

definition netDedupColl_getProperties_v7 ::
  "World \<Rightarrow> int \<Rightarrow> Net_Properties \<Rightarrow> ncclResult_t \<times> Net_Properties" where
  "netDedupColl_getProperties_v7 w dev props = netDedupColl_getProperties_v8 w dev props"

definition netDedupColl_listen :: "int \<Rightarrow> ncclResult_t" where
  "netDedupColl_listen dev = ncclInvalidUsage"
definition netDedupColl_connect :: "int \<Rightarrow> int \<Rightarrow> ncclResult_t" where
  "netDedupColl_connect nranks rank = ncclInvalidUsage"
definition netDedupColl_reduceSupport :: ncclResult_t where
  "netDedupColl_reduceSupport = ncclInvalidUsage"
definition netDedupColl_regMr_v8 :: "nat \<Rightarrow> int \<Rightarrow> ncclResult_t" where
  "netDedupColl_regMr_v8 sz type = ncclInvalidUsage"
definition netDedupColl_regMr_v7 :: "int \<Rightarrow> int \<Rightarrow> ncclResult_t" where
  "netDedupColl_regMr_v7 sz type = ncclInvalidUsage"
definition netDedupColl_regMrDmaBuf :: "nat \<Rightarrow> int \<Rightarrow> nat \<Rightarrow> int \<Rightarrow> ncclResult_t" where
  "netDedupColl_regMrDmaBuf sz type offset fd = ncclInvalidUsage"
definition netDedupColl_deregMr :: ncclResult_t where
  "netDedupColl_deregMr = ncclInvalidUsage"
definition netDedupColl_iallreduce :: "int \<Rightarrow> ncclResult_t" where
  "netDedupColl_iallreduce count = ncclInvalidUsage"
definition netDedupColl_iallgather :: "int \<Rightarrow> ncclResult_t" where
  "netDedupColl_iallgather nRecvParts = ncclInvalidUsage"
definition netDedupColl_ireducescatter :: "int \<Rightarrow> ncclResult_t" where
  "netDedupColl_ireducescatter nSendParts = ncclInvalidUsage"
definition netDedupColl_iflush :: "int \<Rightarrow> ncclResult_t" where
  "netDedupColl_iflush sz = ncclInvalidUsage"
definition netDedupColl_test :: ncclResult_t where
  "netDedupColl_test = ncclInvalidUsage"
definition netDedupColl_closeColl :: ncclResult_t where
  "netDedupColl_closeColl = ncclInvalidUsage"

text \<open>Nothing is closed.\<close>

definition netDedupColl_closeListen :: "Dedup_Listen_Comm option \<Rightarrow> ncclResult_t \<times> int list" where
  "netDedupColl_closeListen lc = (ncclInvalidUsage, [])"

section \<open>The exported tables\<close>

datatype plugin_fn =
    Fn_netDedup_init
  | Fn_netDedup_devices
  | Fn_netDedup_getProperties_v8
  | Fn_netDedup_getProperties_v7
  | Fn_netDedup_listen
  | Fn_netDedup_connect_v8
  | Fn_netDedup_connect_v7
  | Fn_netDedup_accept_v8
  | Fn_netDedup_accept_v7
  | Fn_netDedup_regMr_v8
  | Fn_netDedup_regMr_v7
  | Fn_netDedup_deregMr
  | Fn_netDedup_isend
  | Fn_netDedup_irecv
  | Fn_netDedup_iflush
  | Fn_netDedup_test
  | Fn_netDedup_closeSend
  | Fn_netDedup_closeRecv
  | Fn_netDedup_closeListen
  | Fn_netDedupColl_getProperties_v8
  | Fn_netDedupColl_getProperties_v7
  | Fn_netDedupColl_connect
  | Fn_netDedupColl_reduceSupport
  | Fn_netDedupColl_regMr_v8
  | Fn_netDedupColl_regMr_v7
  | Fn_netDedupColl_regMrDmaBuf
  | Fn_netDedupColl_deregMr
  | Fn_netDedupColl_iallreduce
  | Fn_netDedupColl_iallgather
  | Fn_netDedupColl_ireducescatter
  | Fn_netDedupColl_iflush
  | Fn_netDedupColl_test
  | Fn_netDedupColl_closeColl
  | Fn_netDedupColl_closeListen

record ncclNet =
  net_name :: string
  net_init :: "plugin_fn option"
  net_devices_fn :: "plugin_fn option"
  net_getProperties :: "plugin_fn option"
  net_listen :: "plugin_fn option"
  net_connect :: "plugin_fn option"
  net_accept :: "plugin_fn option"
  net_regMr :: "plugin_fn option"
  net_regMrDmaBuf :: "plugin_fn option"
  net_deregMr :: "plugin_fn option"
  net_isend :: "plugin_fn option"
  net_irecv :: "plugin_fn option"
  net_iflush :: "plugin_fn option"
  net_test :: "plugin_fn option"
  net_closeSend :: "plugin_fn option"
  net_closeRecv :: "plugin_fn option"
  net_closeListen :: "plugin_fn option"
  net_getDeviceMr :: "plugin_fn option"
  net_irecvConsumed :: "plugin_fn option"

record ncclCollNet =
  coll_name :: string
  coll_init :: "plugin_fn option"
  coll_devices :: "plugin_fn option"
  coll_getProperties :: "plugin_fn option"
  coll_listen :: "plugin_fn option"
  coll_connect :: "plugin_fn option"
  coll_reduceSupport :: "plugin_fn option"
  coll_regMr :: "plugin_fn option"
  coll_regMrDmaBuf :: "plugin_fn option"
  coll_deregMr :: "plugin_fn option"
  coll_iallreduce :: "plugin_fn option"
  coll_iallgather :: "plugin_fn option"
  coll_ireducescatter :: "plugin_fn option"
  coll_iflush :: "plugin_fn option"
  coll_test :: "plugin_fn option"
  coll_closeColl :: "plugin_fn option"
  coll_closeListen :: "plugin_fn option"

definition PLUGIN_NAME :: string where "PLUGIN_NAME = ''Dedup''"
definition COLL_PLUGIN_NAME :: string where "COLL_PLUGIN_NAME = ''CollDedup''"

definition ncclNetPlugin_v8 :: ncclNet where
  "ncclNetPlugin_v8 =
     \<lparr>net_name = PLUGIN_NAME,
      net_init = Some Fn_netDedup_init,
      net_devices_fn = Some Fn_netDedup_devices,
      net_getProperties = Some Fn_netDedup_getProperties_v8,
      net_listen = Some Fn_netDedup_listen,
      net_connect = Some Fn_netDedup_connect_v8,
      net_accept = Some Fn_netDedup_accept_v8,
      net_regMr = Some Fn_netDedup_regMr_v8,
      net_regMrDmaBuf = None,
      net_deregMr = Some Fn_netDedup_deregMr,
      net_isend = Some Fn_netDedup_isend,
      net_irecv = Some Fn_netDedup_irecv,
      net_iflush = Some Fn_netDedup_iflush,
      net_test = Some Fn_netDedup_test,
      net_closeSend = Some Fn_netDedup_closeSend,
      net_closeRecv = Some Fn_netDedup_closeRecv,
      net_closeListen = Some Fn_netDedup_closeListen,
      net_getDeviceMr = None,
      net_irecvConsumed = None\<rparr>"

definition ncclNetPlugin_v7 :: ncclNet where
  "ncclNetPlugin_v7 =
     \<lparr>net_name = PLUGIN_NAME,
      net_init = Some Fn_netDedup_init,
      net_devices_fn = Some Fn_netDedup_devices,
      net_getProperties = Some Fn_netDedup_getProperties_v7,
      net_listen = Some Fn_netDedup_listen,
      net_connect = Some Fn_netDedup_connect_v7,
      net_accept = Some Fn_netDedup_accept_v7,
      net_regMr = Some Fn_netDedup_regMr_v7,
      net_regMrDmaBuf = None,
      net_deregMr = Some Fn_netDedup_deregMr,
      net_isend = Some Fn_netDedup_isend,
      net_irecv = Some Fn_netDedup_irecv,
      net_iflush = Some Fn_netDedup_iflush,
      net_test = Some Fn_netDedup_test,
      net_closeSend = Some Fn_netDedup_closeSend,
      net_closeRecv = Some Fn_netDedup_closeRecv,
      net_closeListen = Some Fn_netDedup_closeListen,
      net_getDeviceMr = None,
      net_irecvConsumed = None\<rparr>"

definition ncclCollNetPlugin_v8 :: ncclCollNet where
  "ncclCollNetPlugin_v8 =
     \<lparr>coll_name = COLL_PLUGIN_NAME,
      coll_init = Some Fn_netDedup_init,
      coll_devices = Some Fn_netDedup_devices,
      coll_getProperties = Some Fn_netDedupColl_getProperties_v8,
      coll_listen = Some Fn_netDedup_listen,
      coll_connect = Some Fn_netDedupColl_connect,
      coll_reduceSupport = Some Fn_netDedupColl_reduceSupport,
      coll_regMr = Some Fn_netDedupColl_regMr_v8,
      coll_regMrDmaBuf = Some Fn_netDedupColl_regMrDmaBuf,
      coll_deregMr = Some Fn_netDedupColl_deregMr,
      coll_iallreduce = Some Fn_netDedupColl_iallreduce,
      coll_iallgather = Some Fn_netDedupColl_iallgather,
      coll_ireducescatter = Some Fn_netDedupColl_ireducescatter,
      coll_iflush = Some Fn_netDedupColl_iflush,
      coll_test = Some Fn_netDedupColl_test,
      coll_closeColl = Some Fn_netDedupColl_closeColl,
      coll_closeListen = Some Fn_netDedupColl_closeListen\<rparr>"

text \<open>Version 7 has no \<open>iallgather\<close> and \<open>ireducescatter\<close> entries.\<close>

definition ncclCollNetPlugin_v7 :: ncclCollNet where
  "ncclCollNetPlugin_v7 =
     \<lparr>coll_name = COLL_PLUGIN_NAME,
      coll_init = Some Fn_netDedup_init,
      coll_devices = Some Fn_netDedup_devices,
      coll_getProperties = Some Fn_netDedupColl_getProperties_v7,
      coll_listen = Some Fn_netDedup_listen,
      coll_connect = Some Fn_netDedupColl_connect,
      coll_reduceSupport = Some Fn_netDedupColl_reduceSupport,
      coll_regMr = Some Fn_netDedupColl_regMr_v7,
      coll_regMrDmaBuf = Some Fn_netDedupColl_regMrDmaBuf,
      coll_deregMr = Some Fn_netDedupColl_deregMr,
      coll_iallreduce = Some Fn_netDedupColl_iallreduce,
      coll_iallgather = None,
      coll_ireducescatter = None,
      coll_iflush = Some Fn_netDedupColl_iflush,
      coll_test = Some Fn_netDedupColl_test,
      coll_closeColl = Some Fn_netDedupColl_closeColl,
      coll_closeListen = Some Fn_netDedupColl_closeListen\<rparr>"

section \<open>Properties\<close>

text \<open>What a caller of either version reads as the speed.\<close>

definition v7_speed :: "Net_Properties \<Rightarrow> int" where "v7_speed p = np_cells p ! 1"
definition v8_speed :: "Net_Properties \<Rightarrow> int" where "v8_speed p = np_cells p ! 2"

definition one_device_world :: World where
  "one_device_world =
     \<lparr>socks = (\<lambda>_. \<lparr>sk_answers = [], sk_out = [], sk_in = []\<rparr>), errno = 0,
      global_fingerprint_cache = example_cache, to_skip_insert_cache = False, active_fds = (\<lambda>_. False),
      max_requests_per_comm = 8,
      net_dedup_state = \<lparr>num_net_devices = 1, net_devices = [blank_dev\<lparr>if_speed := 10000\<rparr>]\<rparr>,
      dump_lock = False, dump_bytes_file = [], dump_sizes_file = [], dump_bytes_room = 0, dump_sizes_room = 0\<rparr>"

definition blank_props :: "nat \<Rightarrow> Net_Properties" where
  "blank_props n = \<lparr>np_name = Null_Ptr, np_pciPath = Null_Ptr, np_guid = 0, np_cells = replicate n 0\<rparr>"

text \<open>The version 7 query of the collective plugin hands its structure to the version 8 query: for
  every device it writes one cell past the structure of its caller, who then reads 0 as the speed and
  the real speed as the port.\<close>

theorem coll_getProperties_v7_overruns:
  assumes "0 \<le> dev" "dev < num_net_devices (net_dedup_state w)" "length (np_cells props) = 8"
  shows "\<exists>q. netDedupColl_getProperties_v7 w dev props = (ncclSuccess, q) \<and>
           length (np_cells q) = 9 \<and> v7_speed q = 0 \<and>
           np_cells q ! 2 = sint (word_of_int (if_speed (net_devices (net_dedup_state w) ! nat dev)) :: u32)"
  using assms
  by (simp add: netDedupColl_getProperties_v7_def netDedupColl_getProperties_v8_def
      netDedup_getProperties_v8_def Let_def write_prefix_def v7_speed_def)

theorem coll_getProperties_v7_overruns_witness:
  "\<exists>q. netDedupColl_getProperties_v7 one_device_world 0 (blank_props 8) = (ncclSuccess, q) \<and>
     length (np_cells q) = 9 \<and> v7_speed q = 0 \<and> np_cells q ! 2 = 10000"
  using coll_getProperties_v7_overruns [of 0 one_device_world "blank_props 8"]
  by (auto simp: one_device_world_def blank_props_def)

end
