(* ===== verification/Wire.thy ===== *)
theory Wire
  imports NetDedup
begin

text \<open>
  What travels for one message, as a function of its data: the header, and then either the data
  itself or the fingerprint header, the packaged fingerprints and the contents of the chunks the
  receiver asks for; and the receiver's reply, the number of missing chunks and their indices. The
  scripts of the two endpoints are stated in these terms.
\<close>

section \<open>A message on the wire\<close>

definition is_big :: "u8 list \<Rightarrow> bool" where
  "is_big data \<longleftrightarrow> FINGERPRINT_MSG_SIZE_THRESHOLD < length data"

definition wire_header :: "u8 list \<Rightarrow> General_Header" where
  "wire_header data = \<lparr>is_fingerprint = (if is_big data then 1 else 0), header_content_size = length data\<rparr>"

definition msg_fps :: "(u8 list \<Rightarrow> u8 list) \<Rightarrow> u8 list \<Rightarrow> Fingerprint list" where
  "msg_fps sha data =
     (case do_fingerprinting sha fingerprint_cache_settings data of
        None \<Rightarrow> []
      | Some (ds, zs) \<Rightarrow> map2 (\<lambda>d z. \<lparr>fp_content_size = z, fp_fingerprint = d\<rparr>) ds zs)"

abbreviation msg_sizes :: "(u8 list \<Rightarrow> u8 list) \<Rightarrow> u8 list \<Rightarrow> nat list" where
  "msg_sizes sha data \<equiv> map fp_content_size (msg_fps sha data)"

text \<open>Chunk \<open>i\<close> of the message.\<close>

definition chunk :: "(u8 list \<Rightarrow> u8 list) \<Rightarrow> u8 list \<Rightarrow> nat \<Rightarrow> u8 list" where
  "chunk sha data i = bytes_at (offset_of (msg_sizes sha data) i) (msg_sizes sha data ! i) data"

definition chunks :: "(u8 list \<Rightarrow> u8 list) \<Rightarrow> u8 list \<Rightarrow> nat list \<Rightarrow> u8 list" where
  "chunks sha data m = concat (map (chunk sha data) m)"

definition packaged_image :: "(u8 list \<Rightarrow> u8 list) \<Rightarrow> u8 list \<Rightarrow> u8 list" where
  "packaged_image sha data = concat (map fingerprint_image (msg_fps sha data))"

definition fp_header_image :: "(u8 list \<Rightarrow> u8 list) \<Rightarrow> u8 list \<Rightarrow> u8 list" where
  "fp_header_image sha data = le_bytes 8 (length (msg_fps sha data))"

definition inds_image :: "nat list \<Rightarrow> u8 list" where
  "inds_image m = concat (map (le_bytes 8) m)"

definition missing_header_image :: "nat list \<Rightarrow> u8 list" where
  "missing_header_image m = le_bytes 8 (length m)"

definition msg_body :: "(u8 list \<Rightarrow> u8 list) \<Rightarrow> u8 list \<Rightarrow> nat list \<Rightarrow> u8 list" where
  "msg_body sha data m =
     (if is_big data then fp_header_image sha data @ packaged_image sha data @ chunks sha data m else data)"

definition msg_reply :: "u8 list \<Rightarrow> nat list \<Rightarrow> u8 list" where
  "msg_reply data m = (if is_big data then missing_header_image m @ inds_image m else [])"

text \<open>The sets of missing chunks a receiver can ask for: some of the chunks, in order.\<close>

definition askable :: "(u8 list \<Rightarrow> u8 list) \<Rightarrow> u8 list \<Rightarrow> nat list set" where
  "askable sha data = {filter P [0..<length (msg_fps sha data)] |P. True}"

text \<open>The messages the theorems are about: SHA-256 yields 32 bytes and not the all-zero digest for a
  chunk; the size is an \<open>int\<close>; the fingerprints fit their arrays.\<close>

definition msg_ok :: "(u8 list \<Rightarrow> u8 list) \<Rightarrow> u8 list \<Rightarrow> bool" where
  "msg_ok sha data \<longleftrightarrow>
     (\<forall>x. length (sha x) = FINGERPRINT_NUM_BYTES) \<and>
     length data < 2 ^ 31 \<and>
     (is_big data \<longrightarrow> length (msg_fps sha data) \<le> MAX_FINGERPRINTS_PER_REQ \<and>
        (\<forall>i<length (msg_fps sha data). sha (chunk sha data i) \<noteq> zero_key))"

section \<open>Facts\<close>

lemma msg_fps_facts:
  assumes "is_big data"
  shows "\<exists>ds zs. do_fingerprinting sha fingerprint_cache_settings data = Some (ds, zs) \<and>
      length ds = length zs \<and> msg_sizes sha data = zs \<and>
      msg_fps sha data = map2 (\<lambda>d z. \<lparr>fp_content_size = z, fp_fingerprint = d\<rparr>) ds zs"
    "sum_list (msg_sizes sha data) = length data"
    "\<And>i. i < length (msg_fps sha data) \<Longrightarrow> fp_fingerprint (msg_fps sha data ! i) = sha (chunk sha data i)"
    "\<And>z. z \<in> set (msg_sizes sha data) \<Longrightarrow> MIN_CHUNK_SIZE_BYTES \<le> z \<and> z < MAX_CHUNK_SIZE_BYTES + MIN_CHUNK_SIZE_BYTES"
proof -
  have "MIN_CHUNK_SIZE_BYTES < length data" using assms by (simp add: is_big_def config_defs)
  from cache_chunking [OF this, of sha] obtain ds zs where r:
    "do_fingerprinting sha fingerprint_cache_settings data = Some (ds, zs)" "sum_list zs = length data"
    "ds = map (\<lambda>i. sha (bytes_at (offset_of zs i) (zs ! i) data)) [0..<length zs]"
    "\<forall>z\<in>set zs. MIN_CHUNK_SIZE_BYTES \<le> z \<and> z < MAX_CHUNK_SIZE_BYTES + MIN_CHUNK_SIZE_BYTES"
    by blast
  have l: "length ds = length zs" using r(3) by simp
  have fps: "msg_fps sha data = map2 (\<lambda>d z. \<lparr>fp_content_size = z, fp_fingerprint = d\<rparr>) ds zs"
    using r(1) by (simp add: msg_fps_def)
  have sz: "msg_sizes sha data = zs" unfolding fps using l by (intro nth_equalityI) auto
  show "\<exists>ds zs. do_fingerprinting sha fingerprint_cache_settings data = Some (ds, zs) \<and>
      length ds = length zs \<and> msg_sizes sha data = zs \<and>
      msg_fps sha data = map2 (\<lambda>d z. \<lparr>fp_content_size = z, fp_fingerprint = d\<rparr>) ds zs"
    using r(1) l sz fps by blast
  show "sum_list (msg_sizes sha data) = length data" unfolding sz by (rule r(2))
  show "fp_fingerprint (msg_fps sha data ! i) = sha (chunk sha data i)" if "i < length (msg_fps sha data)" for i
  proof -
    have "i < length zs" using that l unfolding fps by simp
    then show ?thesis unfolding chunk_def sz by (simp add: fps l r(3))
  qed
  show "z \<in> set (msg_sizes sha data) \<Longrightarrow>
      MIN_CHUNK_SIZE_BYTES \<le> z \<and> z < MAX_CHUNK_SIZE_BYTES + MIN_CHUNK_SIZE_BYTES" for z
    unfolding sz using r(4) by blast
qed

lemma length_chunk:
  assumes "is_big data" "i < length (msg_fps sha data)"
  shows "length (chunk sha data i) = fp_content_size (msg_fps sha data ! i)"
  using length_block [of i "msg_sizes sha data" data] msg_fps_facts(2) [OF assms(1), of sha] assms(2)
  by (simp add: chunk_def)

lemma chunk_size_pos:
  assumes "is_big data" "i < length (msg_fps sha data)"
  shows "0 < fp_content_size (msg_fps sha data ! i)"
proof -
  have "fp_content_size (msg_fps sha data ! i) \<in> set (msg_sizes sha data)" using assms(2) by simp
  then show ?thesis using msg_fps_facts(4) [OF assms(1)] by (fastforce simp: MIN_CHUNK_SIZE_BYTES_def)
qed

lemma digest_length:
  assumes "msg_ok sha data" "is_big data" "fp \<in> set (msg_fps sha data)"
  shows "length (fp_fingerprint fp) = FINGERPRINT_NUM_BYTES"
  using assms msg_fps_facts(3) [OF assms(2), of _ sha] by (auto simp: msg_ok_def in_set_conv_nth)

lemma length_packaged_image:
  assumes "msg_ok sha data" "is_big data"
  shows "length (packaged_image sha data) = sizeof_Fingerprint * length (msg_fps sha data)"
  unfolding packaged_image_def
  using digest_length [OF assms] by (intro length_concat_const length_fingerprint_image)

lemma bytes_at_packaged_image:
  assumes "msg_ok sha data" "is_big data" "i < length (msg_fps sha data)"
  shows "bytes_at (sizeof_Fingerprint * i) sizeof_Fingerprint (packaged_image sha data) =
    fingerprint_image (msg_fps sha data ! i)"
  unfolding packaged_image_def
  using digest_length [OF assms(1,2)] assms(3)
  by (intro bytes_at_concat_const length_fingerprint_image)

lemma length_inds_image [simp]: "length (inds_image m) = 8 * length m"
  unfolding inds_image_def by (rule length_concat_const) simp

lemma length_missing_header_image [simp]: "length (missing_header_image m) = 8"
  by (simp add: missing_header_image_def)

lemma bytes_at_inds_image: "i < length m \<Longrightarrow> bytes_at (8 * i) 8 (inds_image m) = le_bytes 8 (m ! i)"
  unfolding inds_image_def by (rule bytes_at_concat_const) simp_all

lemma askableD:
  assumes "m \<in> askable sha data"
  shows "set m \<subseteq> {..<length (msg_fps sha data)}" "length m \<le> length (msg_fps sha data)" "distinct m"
  using assms length_filter_le [of _ "[0..<length (msg_fps sha data)]"] by (auto simp: askable_def)

lemma asked_chunk_pos:
  assumes "is_big data" "m \<in> askable sha data" "i < length m"
  shows "0 < length (chunk sha data (m ! i))"
proof -
  have "m ! i < length (msg_fps sha data)" using askableD(1) [OF assms(2)] nth_mem [OF assms(3)] by blast
  then show ?thesis using chunk_size_pos [OF assms(1)] length_chunk [OF assms(1)] by simp
qed

lemma chunks_Cons: "chunks sha data (i # m) = chunk sha data i @ chunks sha data m"
  by (simp add: chunks_def)

lemma chunks_nil [simp]: "chunks sha data [] = []"
  by (simp add: chunks_def)

lemma chunks_drop: "i < length m \<Longrightarrow>
   chunks sha data (drop i m) = chunk sha data (m ! i) @ chunks sha data (drop (i + 1) m)"
  by (simp add: chunks_def Cons_nth_drop_Suc [symmetric])

lemma all_chunks:
  assumes "is_big data"
  shows "chunks sha data [0..<length (msg_fps sha data)] = data"
proof -
  have "map (chunk sha data) [0..<length (msg_fps sha data)] = blocks_of (msg_sizes sha data) data"
    by (simp add: blocks_of_def chunk_def)
  then show ?thesis
    using concat_blocks_of [of data "msg_sizes sha data"] msg_fps_facts(2) [OF assms, of sha]
    by (simp add: chunks_def)
qed

text \<open>A buffer that agrees with the data chunk by chunk starts with the data.\<close>

lemma buffer_by_chunks:
  assumes "is_big data" "length data \<le> length buf"
    and "\<And>i. i < length (msg_fps sha data) \<Longrightarrow>
      bytes_at (offset_of (msg_sizes sha data) i) (msg_sizes sha data ! i) buf = chunk sha data i"
  shows "take (length data) buf = data"
proof -
  let ?zs = "msg_sizes sha data"
  have "blocks_of ?zs (take (length data) buf) = blocks_of ?zs data"
  proof (rule nth_equalityI)
    fix i assume "i < length (blocks_of ?zs (take (length data) buf))"
    then have i: "i < length ?zs" by simp
    have "offset_of ?zs i + ?zs ! i \<le> length data"
      using offset_of_block_le [OF i] msg_fps_facts(2) [OF assms(1), of sha] by simp
    then have "bytes_at (offset_of ?zs i) (?zs ! i) (take (length data) buf) = bytes_at (offset_of ?zs i) (?zs ! i) buf"
      by (simp add: bytes_at_def take_drop min_def add.commute)
    then show "blocks_of ?zs (take (length data) buf) ! i = blocks_of ?zs data ! i"
      using assms(3) [of i] i by (simp add: chunk_def)
  qed simp
  then show ?thesis
    using concat_blocks_of [of "take (length data) buf" ?zs] concat_blocks_of [of data ?zs]
      msg_fps_facts(2) [OF assms(1), of sha] by simp
qed

end
