(* ===== verification/SendStream.thy ===== *)
theory SendStream
  imports Wire
begin

text \<open>
  The sending endpoint as a scripted stream endpoint: given the list of missing chunks the receiver
  will ask for, a send request writes exactly the header and body of its message and reads exactly the
  reply, however the kernel splits the transfers, as long as no partial transfer of one of the two
  headers happens (the source resumes those at a wrong address). The interpretation at the end discharges
  the contract \<open>scripted_endpoint\<close> for the model of \<open>process_send\<close>.
\<close>

section \<open>Script and invariant\<close>

text \<open>What a send request still writes, and still reads, for the missing list \<open>m\<close>.\<close>

definition send_left :: "(u8 list \<Rightarrow> u8 list) \<Rightarrow> u8 list \<Rightarrow> nat list \<Rightarrow> Dedup_Send_Req \<Rightarrow> u8 list" where
  "send_left sha data m sr =
     (case sr_stage sr of
        SEND_HEADER \<Rightarrow> header_image (wire_header data) @ msg_body sha data m
      | SEND_REG_DATA \<Rightarrow> drop (sr_offset sr) data
      | COMPUTE_FINGERPRINTS \<Rightarrow> msg_body sha data m
      | INSERT_OUTBOUND_FINGERPRINTS \<Rightarrow> msg_body sha data m
      | SEND_FINGERPRINT_HEADER \<Rightarrow> msg_body sha data m
      | SEND_PACKAGED_FINGERPRINTS \<Rightarrow>
          drop (ss_send_fingerprint_offset (sr_state sr)) (packaged_image sha data) @ chunks sha data m
      | RECV_MISSING_FINGERPRINT_HEADER \<Rightarrow> chunks sha data m
      | RECV_MISSING_FINGERPRINTS \<Rightarrow> chunks sha data m
      | SEND_MISSING_CONTENT \<Rightarrow>
          drop (ss_cur_reply_content_fingerprint_offset (sr_state sr))
            (chunks sha data (drop (ss_cur_reply_content_fingerprint_ind (sr_state sr)) m))
      | SEND_COMPLETE \<Rightarrow> [])"

definition send_awaits :: "u8 list \<Rightarrow> nat list \<Rightarrow> Dedup_Send_Req \<Rightarrow> u8 list" where
  "send_awaits data m sr =
     (case sr_stage sr of
        SEND_REG_DATA \<Rightarrow> []
      | RECV_MISSING_FINGERPRINT_HEADER \<Rightarrow>
          drop (ss_missing_fingerprint_header_offset (sr_state sr)) (missing_header_image m) @ inds_image m
      | RECV_MISSING_FINGERPRINTS \<Rightarrow>
          drop (ss_recv_missing_fingerprint_inds_offset (sr_state sr)) (inds_image m)
      | SEND_MISSING_CONTENT \<Rightarrow> []
      | SEND_COMPLETE \<Rightarrow> []
      | _ \<Rightarrow> msg_reply data m)"

text \<open>The fingerprints are in place.\<close>

definition computed :: "(u8 list \<Rightarrow> u8 list) \<Rightarrow> u8 list \<Rightarrow> Dedup_Send_Req \<Rightarrow> bool" where
  "computed sha data sr \<longleftrightarrow> is_big data \<and>
     sr_num_fingerprints sr = length (msg_fps sha data) \<and>
     take (length (msg_fps sha data)) (ss_packaged_fingerprints (sr_state sr)) = msg_fps sha data \<and>
     take (length (msg_fps sha data)) (ss_fingerprint_offsets (sr_state sr)) =
       map (offset_of (msg_sizes sha data)) [0..<length (msg_fps sha data)] \<and>
     ss_packaged_fingerprints_size_bytes (sr_state sr) = sizeof_Fingerprint * length (msg_fps sha data)"

text \<open>No byte of the reply was read yet.\<close>

definition reply_unread :: "Dedup_Send_Req \<Rightarrow> bool" where
  "reply_unread sr \<longleftrightarrow> length (ss_missing_fingerprint_header (sr_state sr)) = 8 \<and>
     ss_missing_fingerprint_header_offset (sr_state sr) = 0 \<and>
     ss_recv_missing_fingerprint_inds_offset (sr_state sr) = 0 \<and>
     ss_cur_reply_content_fingerprint_ind (sr_state sr) = 0 \<and>
     ss_cur_reply_content_fingerprint_offset (sr_state sr) = 0"

definition send_stage_inv :: "(u8 list \<Rightarrow> u8 list) \<Rightarrow> u8 list \<Rightarrow> nat list \<Rightarrow> Dedup_Send_Req \<Rightarrow> World \<Rightarrow> bool" where
  "send_stage_inv sha data m sr w \<longleftrightarrow>
     (case sr_stage sr of
        SEND_HEADER \<Rightarrow> sr_offset sr = 0 \<and> world_settings w = fingerprint_cache_settings
      | SEND_REG_DATA \<Rightarrow> \<not> is_big data \<and> sr_offset sr \<le> length data
      | COMPUTE_FINGERPRINTS \<Rightarrow> is_big data \<and> world_settings w = fingerprint_cache_settings
      | INSERT_OUTBOUND_FINGERPRINTS \<Rightarrow> computed sha data sr \<and> reply_unread sr \<and>
          ss_send_fingerprint_offset (sr_state sr) = 0
      | SEND_FINGERPRINT_HEADER \<Rightarrow> computed sha data sr \<and> reply_unread sr \<and>
          ss_send_fingerprint_offset (sr_state sr) = 0
      | SEND_PACKAGED_FINGERPRINTS \<Rightarrow> computed sha data sr \<and> reply_unread sr \<and>
          ss_send_fingerprint_offset (sr_state sr) \<le> length (packaged_image sha data)
      | RECV_MISSING_FINGERPRINT_HEADER \<Rightarrow> computed sha data sr \<and>
          length (ss_missing_fingerprint_header (sr_state sr)) = 8 \<and>
          ss_missing_fingerprint_header_offset (sr_state sr) \<le> 8 \<and>
          take (ss_missing_fingerprint_header_offset (sr_state sr)) (ss_missing_fingerprint_header (sr_state sr)) =
            take (ss_missing_fingerprint_header_offset (sr_state sr)) (missing_header_image m) \<and>
          ss_recv_missing_fingerprint_inds_offset (sr_state sr) = 0 \<and>
          ss_cur_reply_content_fingerprint_ind (sr_state sr) = 0 \<and>
          ss_cur_reply_content_fingerprint_offset (sr_state sr) = 0
      | RECV_MISSING_FINGERPRINTS \<Rightarrow> computed sha data sr \<and> sr_num_missing sr = length m \<and>
          ss_recv_missing_fingerprint_inds_offset (sr_state sr) \<le> 8 * length m \<and>
          take (ss_recv_missing_fingerprint_inds_offset (sr_state sr)) (ss_missing_fingerprint_inds (sr_state sr)) =
            take (ss_recv_missing_fingerprint_inds_offset (sr_state sr)) (inds_image m) \<and>
          ss_cur_reply_content_fingerprint_ind (sr_state sr) = 0 \<and>
          ss_cur_reply_content_fingerprint_offset (sr_state sr) = 0
      | SEND_MISSING_CONTENT \<Rightarrow> computed sha data sr \<and> sr_num_missing sr = length m \<and>
          take (8 * length m) (ss_missing_fingerprint_inds (sr_state sr)) = inds_image m \<and>
          ss_cur_reply_content_fingerprint_ind (sr_state sr) \<le> length m \<and>
          (ss_cur_reply_content_fingerprint_ind (sr_state sr) = length m \<longrightarrow>
             ss_cur_reply_content_fingerprint_offset (sr_state sr) = 0) \<and>
          (ss_cur_reply_content_fingerprint_ind (sr_state sr) < length m \<longrightarrow>
             ss_cur_reply_content_fingerprint_offset (sr_state sr)
               < length (chunk sha data (m ! ss_cur_reply_content_fingerprint_ind (sr_state sr))))
      | SEND_COMPLETE \<Rightarrow> True)"

text \<open>A send request and the world it runs in.\<close>

definition send_inv :: "(u8 list \<Rightarrow> u8 list) \<Rightarrow> u8 list \<Rightarrow> nat list \<Rightarrow> Dedup_Send_Req \<times> World \<Rightarrow> bool" where
  "send_inv sha data m s \<longleftrightarrow>
     msg_ok sha data \<and> m \<in> askable sha data \<and>
     sr_header (fst s) = wire_header data \<and> sr_size (fst s) = length data \<and> sr_data (fst s) = data \<and>
     sr_send_header_offset (fst s) = 0 \<and> sr_send_fingerprint_header_offset (fst s) = 0 \<and>
     length (ss_missing_fingerprint_inds (sr_state (fst s))) = 8 * MAX_FINGERPRINTS_PER_REQ \<and>
     send_stage_inv sha data m (fst s) (snd s)"

definition send_inp :: "Dedup_Send_Req \<times> World \<Rightarrow> u8 list" where
  "send_inp s = sk_in (socks (snd s) (sr_sockfd (fst s)))"

definition send_outp :: "Dedup_Send_Req \<times> World \<Rightarrow> u8 list" where
  "send_outp s = sk_out (socks (snd s) (sr_sockfd (fst s)))"

text \<open>The contract of a step, as in \<open>stream_endpoint\<close>.\<close>

definition send_follows ::
  "(u8 list \<Rightarrow> u8 list) \<Rightarrow> u8 list \<Rightarrow> nat list \<Rightarrow> u8 list \<Rightarrow>
   Dedup_Send_Req \<times> World \<Rightarrow> Dedup_Send_Req \<times> World \<Rightarrow> bool" where
  "send_follows sha data m rest s s' \<longleftrightarrow>
     send_inv sha data m s' \<and> send_awaits data m (fst s') = send_inp s' @ rest \<and>
     send_outp s' @ send_left sha data m (fst s') = send_outp s @ send_left sha data m (fst s)"

definition no_split_header :: "Dedup_Send_Req \<Rightarrow> bool" where
  "no_split_header sr \<longleftrightarrow> sr_send_header_offset sr = 0 \<and> sr_send_fingerprint_header_offset sr = 0"

text \<open>What a handler owes: the contract with the next stage when it returns 1, and in the same stage
  when it returns 0 without having split a header.\<close>

definition handler_follows ::
  "(u8 list \<Rightarrow> u8 list) \<Rightarrow> u8 list \<Rightarrow> nat list \<Rightarrow> u8 list \<Rightarrow> Dedup_Send_Req \<Rightarrow> World \<Rightarrow>
   int \<times> Dedup_Send_Req \<times> World \<Rightarrow> bool" where
  "handler_follows sha data m rest sr w res \<longleftrightarrow>
     (case res of (r, sr1, w1) \<Rightarrow>
        (r = 1 \<longrightarrow> send_follows sha data m rest (sr, w)
           (sr1\<lparr>sr_stage := send_next_stage (sr_stage sr) sr1\<rparr>, w1)) \<and>
        (r = 0 \<longrightarrow> no_split_header sr1 \<longrightarrow> send_follows sha data m rest (sr, w) (sr1, w1)))"

lemmas send_follows_defs = handler_follows_def send_follows_def send_inv_def send_stage_inv_def
  send_left_def send_awaits_def send_inp_def send_outp_def send_next_stage_def no_split_header_def

section \<open>The handlers follow the script\<close>

text \<open>A call that failed changes nothing the contract speaks of.\<close>

lemma failed_call_follows:
  assumes "send_inv sha data m (sr, w)" "send_awaits data m sr = send_inp (sr, w) @ rest"
    and "\<And>x. sk_in (socks w' x) = sk_in (socks w x) \<and> sk_out (socks w' x) = sk_out (socks w x)"
    and "global_fingerprint_cache w' = global_fingerprint_cache w"
  shows "send_follows sha data m rest (sr, w) (sr, w')"
proof -
  have "send_stage_inv sha data m sr w' = send_stage_inv sha data m sr w"
    using assms(4) by (simp add: send_stage_inv_def cong: SendReqStage.case_cong)
  then show ?thesis using assms
    by (simp add: send_follows_def send_inv_def send_inp_def send_outp_def)
qed

lemma send_failed:
  assumes "send_inv sha data m (sr, w)" "send_awaits data m sr = send_inp (sr, w) @ rest"
    and "sock_send fd bs w = (- 1, w1)"
  shows "send_follows sha data m rest (sr, w) (sr, w1\<lparr>errno := EAGAIN\<rparr>)"
proof (rule failed_call_follows [OF assms(1,2)])
  fix x
  show "sk_in (socks (w1\<lparr>errno := EAGAIN\<rparr>) x) = sk_in (socks w x) \<and>
      sk_out (socks (w1\<lparr>errno := EAGAIN\<rparr>) x) = sk_out (socks w x)"
    using assms(3) by (auto simp: sock_send_def split: list.splits answer.splits)
qed (use sock_send_keeps [OF assms(3)] in simp)

lemma recv_failed:
  assumes "send_inv sha data m (sr, w)" "send_awaits data m sr = send_inp (sr, w) @ rest"
    and "sock_recv fd n w = (- 1, bs, w1)"
  shows "send_follows sha data m rest (sr, w) (sr, w1\<lparr>errno := EAGAIN\<rparr>)"
proof (rule failed_call_follows [OF assms(1,2)])
  fix x
  show "sk_in (socks (w1\<lparr>errno := EAGAIN\<rparr>) x) = sk_in (socks w x) \<and>
      sk_out (socks (w1\<lparr>errno := EAGAIN\<rparr>) x) = sk_out (socks w x)"
    using assms(3) by (auto simp: sock_recv_def Let_def split: list.splits answer.splits)
qed (use sock_recv_keeps [OF assms(3)] in simp)

lemma send_req_image_header:
  "bytes_at 0 sizeof_General_Header (send_req_image sr) = header_image (sr_header sr)"
  by (simp add: send_req_image_def bytes_at_def)

lemma send_req_image_fp_header:
  "bytes_at fingerprint_header_pos sizeof_Fingerprint_Header (send_req_image sr) =
     le_bytes 8 (sr_num_fingerprints sr)"
  by (simp add: send_req_image_def bytes_at_def fingerprint_header_pos_def sizeof_Fingerprint_Header_def
      sizeof_General_Header_def)

lemma sock_send_wrote:
  assumes "sock_send fd bs w = (n, w1)" "n \<noteq> - 1"
  shows "0 \<le> n" "nat n \<le> length bs" "sk_out (socks w1 fd) = sk_out (socks w fd) @ take (nat n) bs"
    "sk_in (socks w1 fd) = sk_in (socks w fd)" "global_fingerprint_cache w1 = global_fingerprint_cache w"
  using assms by (auto simp: sock_send_def min_def split: list.splits answer.splits)

lemma sock_recv_read:
  assumes "sock_recv fd k w = (n, bs, w1)" "n \<noteq> - 1"
  shows "n = int (length bs)" "length bs \<le> k" "sk_in (socks w fd) = bs @ sk_in (socks w1 fd)"
    "sk_out (socks w1 fd) = sk_out (socks w fd)" "global_fingerprint_cache w1 = global_fingerprint_cache w"
  using assms
  by (cases rule: sock_recv_cases [of fd k w]; auto)+

lemma process_send_header_follows:
  assumes inv: "send_inv sha data m (sr, w)" and aw: "send_awaits data m sr = send_inp (sr, w) @ rest"
    and st: "sr_stage sr = SEND_HEADER"
  shows "handler_follows sha data m rest sr w (process_send_header sr w)"
proof -
  have I: "sr_header sr = wire_header data" "sr_send_header_offset sr = 0"
    using inv by (simp_all add: send_inv_def)
  have img: "bytes_at 0 16 (send_req_image sr) = header_image (wire_header data)"
    using send_req_image_header [of sr] I(1) by (simp add: sizeof_General_Header_def)
  have hl: "length (header_image (wire_header data)) = 16" by (simp add: sizeof_General_Header_def)
  obtain n w1 where s: "sock_send (sr_sockfd sr) (header_image (wire_header data)) w = (n, w1)"
    by (cases "sock_send (sr_sockfd sr) (header_image (wire_header data)) w")
  have run: "process_send_header sr w =
      (if n = - 1 then (0, sr, w1\<lparr>errno := EAGAIN\<rparr>)
       else if n < 16 then (0, sr\<lparr>sr_send_header_offset := nat n\<rparr>, w1) else (1, sr, w1))"
    unfolding process_send_header_def Let_def I(2) using s
    by (simp add: img retry_on_error_0 sizeof_General_Header_def)
  show ?thesis
  proof (cases "n = - 1")
    case True
    then show ?thesis
      using send_failed [OF inv aw] s by (simp add: handler_follows_def run)
  next
    case False
    note W = sock_send_wrote [OF s False]
    show ?thesis
      using False W hl inv aw st
      by (auto simp: run send_follows_defs msg_reply_def msg_body_def wire_header_def)
  qed
qed

lemma process_send_reg_data_follows:
  assumes inv: "send_inv sha data m (sr, w)" and aw: "send_awaits data m sr = send_inp (sr, w) @ rest"
    and st: "sr_stage sr = SEND_REG_DATA"
  shows "handler_follows sha data m rest sr w (process_send_reg_data sr w)"
proof (cases "sr_offset sr = length data")
  case True
  then have "process_send_reg_data sr w = (1, sr, w)"
    using inv by (simp add: process_send_reg_data_def send_inv_def)
  then show ?thesis using True inv aw st by (simp add: send_follows_defs)
next
  case False
  have I: "sr_size sr = length data" "sr_data sr = data" "sr_offset sr \<le> length data"
    using inv st by (simp_all add: send_inv_def send_stage_inv_def)
  then have lt: "sr_offset sr < length data" using False by simp
  let ?d = "drop (sr_offset sr) data"
  have b: "bytes_at (sr_offset sr) (length data - sr_offset sr) data = ?d" by (simp add: bytes_at_def)
  obtain n w1 where s: "sock_send (sr_sockfd sr) ?d w = (n, w1)" by (cases "sock_send (sr_sockfd sr) ?d w")
  have run: "process_send_reg_data sr w =
      (if n = - 1 then (0, sr, w1\<lparr>errno := EAGAIN\<rparr>)
       else (if sr_offset sr + nat n < length data then 0 else 1, sr\<lparr>sr_offset := sr_offset sr + nat n\<rparr>, w1))"
    unfolding process_send_reg_data_def Let_def I b using s lt by (simp add: retry_on_error_0)
  show ?thesis
  proof (cases "n = - 1")
    case True
    then show ?thesis
      using send_failed [OF inv aw] s by (simp add: handler_follows_def run)
  next
    case False
    note W = sock_send_wrote [OF s False]
    have "take (nat n) ?d @ drop (sr_offset sr + nat n) data = ?d"
      by (metis add.commute append_take_drop_id drop_drop)
    then show ?thesis
      using False W inv aw st by (auto simp: run send_follows_defs)
  qed
qed

lemma compute_follows:
  assumes inv: "send_inv sha data m (sr, w)" and aw: "send_awaits data m sr = send_inp (sr, w) @ rest"
    and st: "sr_stage sr = COMPUTE_FINGERPRINTS"
    and run: "process_compute_fingerprints sha sr w = Some res"
  shows "handler_follows sha data m rest sr w res"
proof -
  have I: "sr_size sr = length data" "sr_data sr = data" "is_big data"
    "world_settings w = fingerprint_cache_settings" "msg_ok sha data"
    using inv st by (simp_all add: send_inv_def send_stage_inv_def)
  obtain ds zs where c: "do_fingerprinting sha fingerprint_cache_settings data = Some (ds, zs)"
    "length ds = length zs" "msg_sizes sha data = zs"
    "msg_fps sha data = map2 (\<lambda>d z. \<lparr>fp_content_size = z, fp_fingerprint = d\<rparr>) ds zs"
    using msg_fps_facts(1) [OF I(3), of sha] by blast
  let ?fps = "msg_fps sha data"
  have len: "length zs = length ?fps" using c(2,4) by simp
  have dl: "length d = FINGERPRINT_NUM_BYTES" if d: "d \<in> set ds" for d
  proof -
    obtain i where "i < length ds" "ds ! i = d" using d unfolding in_set_conv_nth by blast
    then have i: "i < length ?fps" "fp_fingerprint (?fps ! i) = d" using c(2,4) by simp_all
    with nth_mem [OF i(1)] show ?thesis using digest_length [OF I(5,3)] by blast
  qed
  have fps: "map2 (\<lambda>d z. \<lparr>fp_content_size = z, fp_fingerprint = bytes_at 0 FINGERPRINT_NUM_BYTES d\<rparr>) ds zs = ?fps"
    unfolding c(4) by (intro map_cong refl) (auto dest!: set_zip_leftD simp: dl)
  have offs: "fingerprint_offsets_loop fps cur = map (\<lambda>i. cur + offset_of (map fp_content_size fps) i) [0..<length fps]"
    for fps cur
  proof (induction fps arbitrary: cur)
    case (Cons fp fps)
    have "offset_of (map fp_content_size (fp # fps)) (Suc i) = fp_content_size fp + offset_of (map fp_content_size fps) i" for i
      by (simp add: offset_of_def)
    then show ?case using Cons.IH
      by (simp add: upt_conv_Cons map_Suc_upt [symmetric] del: upt_Suc) 
  qed simp
  let ?pk = "write_prefix ?fps (ss_packaged_fingerprints (sr_state sr))"
  have tk: "take (length ?fps) ?pk = ?fps" by (simp add: write_prefix_def)
  let ?res = "(1, sr\<lparr>sr_num_fingerprints := length ?fps,
              sr_send_fingerprint_state := (sr_state sr)
                \<lparr>ss_packaged_fingerprints := ?pk,
                 ss_fingerprint_offsets :=
                   write_prefix (map (offset_of (msg_sizes sha data)) [0..<length ?fps]) (ss_fingerprint_offsets (sr_state sr)),
                 ss_send_fingerprint_offset := 0,
                 ss_packaged_fingerprints_size_bytes := length ?fps * sizeof_Fingerprint,
                 ss_missing_fingerprint_header := replicate sizeof_Missing_Fingerprint_Header 0,
                 ss_missing_fingerprint_header_offset := 0,
                 ss_recv_missing_fingerprint_inds_offset := 0,
                 ss_cur_reply_content_fingerprint_ind := 0,
                 ss_cur_reply_content_fingerprint_offset := 0\<rparr>\<rparr>, w)"
  have "process_compute_fingerprints sha sr w = Some ?res"
    unfolding process_compute_fingerprints_def dedup_fingerprinting_def I(1,2,4)
    using c(1) fps tk len offs [of ?fps 0] by (simp del: upt_Suc)
  then have res: "res = ?res" using run by simp
  show ?thesis
    unfolding res using inv aw st I(3)
    by (simp add: send_follows_defs computed_def reply_unread_def tk write_prefix_def
        sizeof_Missing_Fingerprint_Header_def mult.commute del: upt_Suc)
qed

lemma insert_outbound_follows:
  assumes inv: "send_inv sha data m (sr, w)" and aw: "send_awaits data m sr = send_inp (sr, w) @ rest"
    and st: "sr_stage sr = INSERT_OUTBOUND_FINGERPRINTS"
  shows "handler_follows sha data m rest sr w (process_insert_outbound_fingerprints sr w)"
proof -
  let ?x = "process_insert_outbound_fingerprints sr w"
  have run: "?x = (fst ?x, sr, snd (snd ?x))" "fst ?x = 0 \<or> fst ?x = 1" "socks (snd (snd ?x)) = socks w"
    by (simp_all add: process_insert_outbound_fingerprints_def Let_def split: prod.split)
  have "handler_follows sha data m rest sr w (fst ?x, sr, snd (snd ?x))"
    using run(2,3) inv aw st by (auto simp: send_follows_defs computed_def reply_unread_def)
  then show ?thesis by (simp only: run(1) [symmetric])
qed

lemma send_fingerprint_header_follows:
  assumes inv: "send_inv sha data m (sr, w)" and aw: "send_awaits data m sr = send_inp (sr, w) @ rest"
    and st: "sr_stage sr = SEND_FINGERPRINT_HEADER"
  shows "handler_follows sha data m rest sr w (process_send_fingerprint_header sr w)"
proof -
  have I: "sr_num_fingerprints sr = length (msg_fps sha data)" "sr_send_fingerprint_header_offset sr = 0"
    "is_big data"
    using inv st by (simp_all add: send_inv_def send_stage_inv_def computed_def)
  have img: "bytes_at fingerprint_header_pos sizeof_Fingerprint_Header (send_req_image sr) = fp_header_image sha data"
    using send_req_image_fp_header [of sr] I(1) by (simp add: fp_header_image_def)
  have hl: "length (fp_header_image sha data) = 8" by (simp add: fp_header_image_def)
  obtain n w1 where s: "sock_send (sr_sockfd sr) (fp_header_image sha data) w = (n, w1)"
    by (cases "sock_send (sr_sockfd sr) (fp_header_image sha data) w")
  have run: "process_send_fingerprint_header sr w =
      (if n = - 1 then (0, sr, w1\<lparr>errno := EAGAIN\<rparr>)
       else if n < 8 then (0, sr\<lparr>sr_send_fingerprint_header_offset := nat n\<rparr>, w1) else (1, sr, w1))"
    unfolding process_send_fingerprint_header_def Let_def I(2) using s img
    by (simp add: retry_on_error_0 sizeof_Fingerprint_Header_def)
  show ?thesis
  proof (cases "n = - 1")
    case True
    then show ?thesis
      using send_failed [OF inv aw] s by (simp add: handler_follows_def run)
  next
    case False
    note W = sock_send_wrote [OF s False]
    show ?thesis
      using False W hl inv aw st I(3)
      by (auto simp: run send_follows_defs msg_body_def computed_def reply_unread_def)
  qed
qed

lemma send_packaged_fingerprints_follows:
  assumes inv: "send_inv sha data m (sr, w)" and aw: "send_awaits data m sr = send_inp (sr, w) @ rest"
    and st: "sr_stage sr = SEND_PACKAGED_FINGERPRINTS"
  shows "handler_follows sha data m rest sr w (process_send_packaged_fingerprints sr w)"
proof -
  let ?P = "packaged_image sha data" and ?off = "ss_send_fingerprint_offset (sr_state sr)"
  have I: "is_big data" "msg_ok sha data" "?off \<le> length ?P" "computed sha data sr" "reply_unread sr"
    "ss_packaged_fingerprints_size_bytes (sr_state sr) = length ?P"
    using inv st length_packaged_image [of sha data]
    by (simp_all add: send_inv_def send_stage_inv_def computed_def)
  let ?all = "concat (map fingerprint_image (ss_packaged_fingerprints (sr_state sr)))"
  have "?all = concat (map fingerprint_image (take (length (msg_fps sha data)) (ss_packaged_fingerprints (sr_state sr)))) @
      concat (map fingerprint_image (drop (length (msg_fps sha data)) (ss_packaged_fingerprints (sr_state sr))))"
    by (metis append_take_drop_id concat_append map_append)
  then have all: "take (length ?P) ?all = ?P" using I(4) by (simp add: computed_def packaged_image_def)
  have b: "bytes_at ?off (length ?P - ?off) ?all = drop ?off ?P"
    using all I(3) by (metis bytes_at_def drop_take)
  obtain n w1 where s: "sock_send (sr_sockfd sr) (drop ?off ?P) w = (n, w1)"
    by (cases "sock_send (sr_sockfd sr) (drop ?off ?P) w")
  have run: "process_send_packaged_fingerprints sr w =
      (if n = - 1 then (0, sr, w1\<lparr>errno := EAGAIN\<rparr>)
       else if n < int (length ?P - ?off)
       then (0, sr\<lparr>sr_send_fingerprint_state := (sr_state sr)\<lparr>ss_send_fingerprint_offset := ?off + nat n\<rparr>\<rparr>, w1)
       else (1, sr, w1))"
    unfolding process_send_packaged_fingerprints_def Let_def I(6) b using s by (simp add: retry_on_error_0)
  show ?thesis
  proof (cases "n = - 1")
    case True
    then show ?thesis
      using send_failed [OF inv aw] s by (simp add: handler_follows_def run)
  next
    case False
    note W = sock_send_wrote [OF s False]
    have "take (nat n) (drop ?off ?P) @ drop (?off + nat n) ?P = drop ?off ?P"
      by (metis add.commute append_take_drop_id drop_drop)
    then have split: "take (nat n) (drop ?off ?P) @ drop (?off + nat n) ?P @ xs = drop ?off ?P @ xs" for xs
      by (metis append.assoc)
    have msg: "msg_reply data m = missing_header_image m @ inds_image m" using I(1) by (simp add: msg_reply_def)
    show ?thesis
    proof (cases "n < int (length ?P - ?off)")
      case True
      then have r: "process_send_packaged_fingerprints sr w =
          (0, sr\<lparr>sr_send_fingerprint_state := (sr_state sr)\<lparr>ss_send_fingerprint_offset := ?off + nat n\<rparr>\<rparr>, w1)"
        using run False by simp
      have "?off + nat n \<le> length ?P" using W(2) I(3) by simp
      then show ?thesis
        using W inv aw st split I(1,4,5) unfolding r
        by (simp add: send_follows_defs computed_def reply_unread_def)
    next
      case full: False
      then have r: "process_send_packaged_fingerprints sr w = (1, sr, w1)" using run False by simp
      have "take (nat n) (drop ?off ?P) = drop ?off ?P" using full W(2) by simp
      then show ?thesis
        using W inv aw st I(1,4,5) msg unfolding r
        by (simp add: send_follows_defs computed_def reply_unread_def)
    qed
  qed
qed

lemma recv_missing_header_follows:
  assumes inv: "send_inv sha data m (sr, w)" and aw: "send_awaits data m sr = send_inp (sr, w) @ rest"
    and st: "sr_stage sr = RECV_MISSING_FINGERPRINT_HEADER"
  shows "handler_follows sha data m rest sr w (process_recv_missing_fingerprint_header sr w)"
proof -
  let ?mh = "ss_missing_fingerprint_header (sr_state sr)"
    and ?off = "ss_missing_fingerprint_header_offset (sr_state sr)"
  have I: "is_big data" "?off \<le> 8" "length ?mh = 8" "take ?off ?mh = take ?off (missing_header_image m)"
    "computed sha data sr" "m \<in> askable sha data" "msg_ok sha data"
    using inv st by (simp_all add: send_inv_def send_stage_inv_def computed_def)
  have lm: "length m < 2 ^ 64"
    using askableD(2) [OF I(6)] I(1,7) by (simp add: msg_ok_def MAX_FINGERPRINTS_PER_REQ_def)
  obtain n bs w1 where s: "sock_recv (sr_sockfd sr) (8 - ?off) w = (n, bs, w1)" by (metis prod_cases3)
  let ?sr1 = "sr\<lparr>sr_send_fingerprint_state := (sr_state sr)\<lparr>ss_missing_fingerprint_header := bytes_put ?off bs ?mh\<rparr>\<rparr>"
  let ?sr2 = "?sr1\<lparr>sr_send_fingerprint_state := (sr_state ?sr1)\<lparr>ss_missing_fingerprint_header_offset := ?off + nat n\<rparr>\<rparr>"
  have run: "process_recv_missing_fingerprint_header sr w =
      (if n = - 1 then (0, sr, w1\<lparr>errno := EAGAIN\<rparr>) else if n < int (8 - ?off) then (0, ?sr2, w1) else (1, ?sr1, w1))"
    unfolding process_recv_missing_fingerprint_header_def Let_def sizeof_Missing_Fingerprint_Header_def s
    by (simp add: retry_on_error_0)
  show ?thesis
  proof (cases "n = - 1")
    case True
    then show ?thesis using recv_failed [OF inv aw s [unfolded True]] by (simp add: handler_follows_def run)
  next
    case False
    note R = sock_recv_read [OF s False]
    have "drop ?off (missing_header_image m) @ inds_image m = bs @ sk_in (socks w1 (sr_sockfd sr)) @ rest"
      using aw st R(3) by (simp add: send_awaits_def send_inp_def)
    note F = stream_front [OF this]
    have lb: "length bs \<le> length (drop ?off (missing_header_image m))" using R(2) by simp
    have cont: "take (?off + length bs) (bytes_put ?off bs ?mh) = take (?off + length bs) (missing_header_image m)"
      using take_bytes_put_continue [OF I(4) _ _ F(1) [OF lb]] I(2,3) by simp
    have tail: "drop (?off + length bs) (missing_header_image m) @ inds_image m = sk_in (socks w1 (sr_sockfd sr)) @ rest"
      using F(2) [OF lb] by (simp add: add.commute)
    have len: "length (bytes_put ?off bs ?mh) = 8" using I(2,3) R(2) by simp
    show ?thesis
    proof (cases "n < int (8 - ?off)")
      case True
      then have r: "process_recv_missing_fingerprint_header sr w = (0, ?sr2, w1)" using run False by simp
      have "nat n = length bs" "?off + length bs \<le> 8" using R(1,2) I(2) by simp_all
      then show ?thesis
        unfolding r using inv aw st R(4) cont tail len by (simp add: send_follows_defs computed_def)
    next
      case full: False
      then have r: "process_recv_missing_fingerprint_header sr w = (1, ?sr1, w1)" using run False by simp
      have "?off + length bs = 8" using full R(1,2) I(2) by simp
      then have whole: "bytes_put ?off bs ?mh = missing_header_image m"
        and tl: "inds_image m = sk_in (socks w1 (sr_sockfd sr)) @ rest"
        using cont tail len by simp_all
      have num: "sr_num_missing ?sr1 = length m"
        using lm by (simp add: sr_num_missing_def whole missing_header_image_def)
      have "length m = 0 \<Longrightarrow> sk_in (socks w1 (sr_sockfd sr)) @ rest = []"
        using tl by (simp add: inds_image_def)
      then show ?thesis
        unfolding r using inv aw st R(4) tl num
        by (auto simp: send_follows_defs computed_def whole sr_num_missing_def)
    qed
  qed
qed

lemma recv_missing_inds_follows:
  assumes inv: "send_inv sha data m (sr, w)" and aw: "send_awaits data m sr = send_inp (sr, w) @ rest"
    and st: "sr_stage sr = RECV_MISSING_FINGERPRINTS"
  shows "handler_follows sha data m rest sr w (process_recv_missing_fingerprints sr w)"
proof -
  let ?inds = "ss_missing_fingerprint_inds (sr_state sr)"
    and ?off = "ss_recv_missing_fingerprint_inds_offset (sr_state sr)"
  have I: "is_big data" "?off \<le> 8 * length m" "length ?inds = 8 * MAX_FINGERPRINTS_PER_REQ"
    "take ?off ?inds = take ?off (inds_image m)"
    "computed sha data sr" "m \<in> askable sha data" "msg_ok sha data" "sr_num_missing sr = length m"
    using inv st by (simp_all add: send_inv_def send_stage_inv_def computed_def)
  have lm: "length m \<le> MAX_FINGERPRINTS_PER_REQ"
    using askableD(2) [OF I(6)] I(1,7) by (simp add: msg_ok_def)
  then have tot: "(sr_num_missing sr * 8) mod 2 ^ 64 = 8 * length m"
    using I(8) by (simp add: MAX_FINGERPRINTS_PER_REQ_def)
  obtain n bs w1 where s: "sock_recv (sr_sockfd sr) (8 * length m - ?off) w = (n, bs, w1)" by (metis prod_cases3)
  let ?sr1 = "sr\<lparr>sr_send_fingerprint_state := (sr_state sr)\<lparr>ss_missing_fingerprint_inds := bytes_put ?off bs ?inds\<rparr>\<rparr>"
  let ?sr2 = "?sr1\<lparr>sr_send_fingerprint_state := (sr_state ?sr1)\<lparr>ss_recv_missing_fingerprint_inds_offset := ?off + nat n\<rparr>\<rparr>"
  have run: "process_recv_missing_fingerprints sr w =
      (if n = - 1 then (0, sr, w1\<lparr>errno := EAGAIN\<rparr>)
       else if n < int (8 * length m - ?off) then (0, ?sr2, w1) else (1, ?sr1, w1))"
    unfolding process_recv_missing_fingerprints_def tot Let_def s by (simp add: retry_on_error_0)
  show ?thesis
  proof (cases "n = - 1")
    case True
    then show ?thesis using recv_failed [OF inv aw s [unfolded True]] by (simp add: handler_follows_def run)
  next
    case False
    note R = sock_recv_read [OF s False]
    have "drop ?off (inds_image m) @ [] = bs @ sk_in (socks w1 (sr_sockfd sr)) @ rest"
      using aw st R(3) by (simp add: send_awaits_def send_inp_def)
    note F = stream_front [OF this]
    have lb: "length bs \<le> length (drop ?off (inds_image m))" using R(2) by simp
    have fit: "?off + length bs \<le> 8 * length m" using R(2) I(2) by simp
    have cont: "take (?off + length bs) (bytes_put ?off bs ?inds) = take (?off + length bs) (inds_image m)"
      using take_bytes_put_continue [OF I(4) _ _ F(1) [OF lb]] I(2,3) lm by simp
    have tail: "drop (?off + length bs) (inds_image m) = sk_in (socks w1 (sr_sockfd sr)) @ rest"
      using F(2) [OF lb] by (simp add: add.commute)
    have len: "length (bytes_put ?off bs ?inds) = 8 * MAX_FINGERPRINTS_PER_REQ" using I(3) fit lm by simp
    show ?thesis
    proof (cases "n < int (8 * length m - ?off)")
      case True
      then have r: "process_recv_missing_fingerprints sr w = (0, ?sr2, w1)" using run False by simp
      have "nat n = length bs" using R(1) by simp
      then show ?thesis
        unfolding r using inv aw st R(4) cont tail len fit
        by (simp add: send_follows_defs computed_def sr_num_missing_def)
    next
      case full: False
      then have r: "process_recv_missing_fingerprints sr w = (1, ?sr1, w1)" using run False by simp
      have "?off + length bs = 8 * length m" using full R(1,2) I(2) by simp
      then have whole: "take (8 * length m) (bytes_put ?off bs ?inds) = inds_image m"
        and tl: "[] = sk_in (socks w1 (sr_sockfd sr)) @ rest"
        using cont tail by simp_all
      show ?thesis
        unfolding r using inv aw st R(4) tl whole len asked_chunk_pos [of data m sha 0]
        by (simp add: send_follows_defs computed_def sr_num_missing_def)
    qed
  qed
qed

lemma chunk_drop:
  "drop off (chunk sha data i) =
     bytes_at (offset_of (msg_sizes sha data) i + off) (msg_sizes sha data ! i - off) data"
  by (simp add: chunk_def bytes_at_def drop_take add.commute)

text \<open>What the loop reads for content \<open>i\<close> of the reply.\<close>

lemma reply_content:
  assumes "computed sha data sr" "m \<in> askable sha data" "msg_ok sha data" "i < length m"
    and "take (8 * length m) (ss_missing_fingerprint_inds (sr_state sr)) = inds_image m"
  shows "sr_missing_ind sr i = m ! i"
    "fp_content_size (ss_packaged_fingerprints (sr_state sr) ! (m ! i)) = length (chunk sha data (m ! i))"
    "bytes_at (ss_fingerprint_offsets (sr_state sr) ! (m ! i) + off) (length (chunk sha data (m ! i)) - off) data =
       drop off (chunk sha data (m ! i))"
proof -
  let ?fps = "msg_fps sha data"
  have big: "is_big data" and C: "take (length ?fps) (ss_packaged_fingerprints (sr_state sr)) = ?fps"
    "take (length ?fps) (ss_fingerprint_offsets (sr_state sr)) =
       map (offset_of (msg_sizes sha data)) [0..<length ?fps]"
    using assms(1) by (simp_all add: computed_def)
  have mi: "m ! i < length ?fps" using askableD(1) [OF assms(2)] nth_mem [OF assms(4)] by auto
  have "bytes_at (8 * i) 8 (ss_missing_fingerprint_inds (sr_state sr)) =
      bytes_at (8 * i) 8 (take (8 * length m) (ss_missing_fingerprint_inds (sr_state sr)))"
    using assms(4) by (simp add: bytes_at_def take_drop min_def)
  also have "\<dots> = le_bytes 8 (m ! i)" unfolding assms(5) by (rule bytes_at_inds_image [OF assms(4)])
  finally have "bytes_at (8 * i) 8 (ss_missing_fingerprint_inds (sr_state sr)) = le_bytes 8 (m ! i)" .
  moreover have "m ! i < 256 ^ 8"
    using mi assms(3) big by (simp add: msg_ok_def MAX_FINGERPRINTS_PER_REQ_def)
  ultimately show "sr_missing_ind sr i = m ! i" unfolding sr_missing_ind_def by (simp del: power_numeral)
  have "ss_packaged_fingerprints (sr_state sr) ! (m ! i) = ?fps ! (m ! i)"
    using mi C(1) by (metis nth_take)
  then show sz: "fp_content_size (ss_packaged_fingerprints (sr_state sr) ! (m ! i)) = length (chunk sha data (m ! i))"
    using length_chunk [OF big mi] by simp
  have "ss_fingerprint_offsets (sr_state sr) ! (m ! i) = offset_of (msg_sizes sha data) (m ! i)"
    using mi C(2) nth_take [of "m ! i" "length ?fps" "ss_fingerprint_offsets (sr_state sr)"] by simp
  then show "bytes_at (ss_fingerprint_offsets (sr_state sr) ! (m ! i) + off) (length (chunk sha data (m ! i)) - off) data =
       drop off (chunk sha data (m ! i))"
    using mi length_chunk [OF big mi] by (simp add: chunk_drop)
qed

lemma handler_follows_trans:
  assumes "send_outp (sr1, w1) @ send_left sha data m sr1 = send_outp (sr, w) @ send_left sha data m sr"
    and "sr_stage sr1 = sr_stage sr" "handler_follows sha data m rest sr1 w1 res"
  shows "handler_follows sha data m rest sr w res"
  using assms by (auto simp: handler_follows_def send_follows_def split: prod.splits)

lemma send_content_loop_follows:
  assumes "send_inv sha data m (sr, w)" "send_awaits data m sr = send_inp (sr, w) @ rest"
    and "sr_stage sr = SEND_MISSING_CONTENT" "i + n = length m"
    and "ss_cur_reply_content_fingerprint_ind (sr_state sr) = i"
    and "ss_cur_reply_content_fingerprint_offset (sr_state sr) = off"
  shows "handler_follows sha data m rest sr w (send_missing_content_loop sr w i off n)"
  using assms
proof (induction n arbitrary: sr w i off)
  case 0
  then show ?case by (simp add: send_follows_defs)
next
  case (Suc n)
  note inv = Suc.prems(1) and aw = Suc.prems(2) and st = Suc.prems(3)
  have i: "i < length m" using Suc.prems(4) by simp
  have I: "computed sha data sr" "m \<in> askable sha data" "msg_ok sha data" "sr_num_missing sr = length m"
    "take (8 * length m) (ss_missing_fingerprint_inds (sr_state sr)) = inds_image m"
    "off < length (chunk sha data (m ! i))" "sr_data sr = data"
    using inv st i Suc.prems(5,6) by (simp_all add: send_inv_def send_stage_inv_def)
  note rc = reply_content [OF I(1-3) i I(5)]
  let ?d = "drop off (chunk sha data (m ! i))"
  obtain k w1 where s: "sock_send (sr_sockfd sr) ?d w = (k, w1)" by (cases "sock_send (sr_sockfd sr) ?d w")
  let ?srp = "sr\<lparr>sr_send_fingerprint_state := (sr_state sr)
      \<lparr>ss_cur_reply_content_fingerprint_ind := i, ss_cur_reply_content_fingerprint_offset := off + nat k\<rparr>\<rparr>"
  let ?srn = "sr\<lparr>sr_send_fingerprint_state := (sr_state sr)
      \<lparr>ss_cur_reply_content_fingerprint_ind := i + 1, ss_cur_reply_content_fingerprint_offset := 0\<rparr>\<rparr>"
  have run: "send_missing_content_loop sr w i off (Suc n) =
      (if k = - 1 then (0, sr, w1\<lparr>errno := EAGAIN\<rparr>)
       else if k < int (length (chunk sha data (m ! i)) - off) then (0, ?srp, w1)
       else send_missing_content_loop ?srn w1 (i + 1) 0 n)"
    unfolding send_missing_content_loop.simps Let_def rc(1,2) I(7) rc(3) s by (simp add: retry_on_error_0)
  have all: "drop off (chunks sha data (drop i m)) = ?d @ chunks sha data (drop (i + 1) m)"
    using I(6) by (simp add: chunks_drop [OF i])
  show ?case
  proof (cases "k = - 1")
    case True
    then have r: "send_missing_content_loop sr w i off (Suc n) = (0, sr, w1\<lparr>errno := EAGAIN\<rparr>)" using run by simp
    show ?thesis using send_failed [OF inv aw s [unfolded True]] unfolding r by (simp add: handler_follows_def)
  next
    case False
    note W = sock_send_wrote [OF s False]
    show ?thesis
    proof (cases "k < int (length (chunk sha data (m ! i)) - off)")
      case True
      then have r: "send_missing_content_loop sr w i off (Suc n) = (0, ?srp, w1)" using run False by simp
      have le: "off + nat k < length (chunk sha data (m ! i))" using True W(1) I(6) by simp
      have "take (nat k) ?d @ drop (off + nat k) (chunk sha data (m ! i)) = ?d"
        by (metis add.commute append_take_drop_id drop_drop)
      then have left: "take (nat k) ?d @ drop (off + nat k) (chunks sha data (drop i m)) =
          drop off (chunks sha data (drop i m))"
        unfolding all using le by (simp add: chunks_drop [OF i] flip: append.assoc)
      show ?thesis
        unfolding r using inv aw st W le left i Suc.prems(5,6)
        by (simp add: send_follows_defs computed_def sr_num_missing_def)
    next
      case full: False
      then have r: "send_missing_content_loop sr w i off (Suc n) = send_missing_content_loop ?srn w1 (i + 1) 0 n"
        using run False by simp
      have whole: "take (nat k) ?d = ?d" using full W(2) by simp
      have "is_big data" using I(1) by (simp add: computed_def)
      then have inv1: "send_inv sha data m (?srn, w1)"
        using inv st i asked_chunk_pos [OF _ I(2), of "i + 1"] by (simp add: send_inv_def send_stage_inv_def computed_def sr_num_missing_def)
      have aw1: "send_awaits data m ?srn = send_inp (?srn, w1) @ rest"
        using aw st W(4) by (simp add: send_awaits_def send_inp_def)
      have left: "send_outp (?srn, w1) @ send_left sha data m ?srn = send_outp (sr, w) @ send_left sha data m sr"
        using st W(3) whole all Suc.prems(5,6) by (simp add: send_left_def send_outp_def)
      show ?thesis
        unfolding r using st Suc.prems(4)
        by (intro handler_follows_trans [OF left] Suc.IH [OF inv1 aw1]) simp_all
    qed
  qed
qed

lemma send_missing_content_follows:
  assumes inv: "send_inv sha data m (sr, w)" and aw: "send_awaits data m sr = send_inp (sr, w) @ rest"
    and st: "sr_stage sr = SEND_MISSING_CONTENT"
  shows "handler_follows sha data m rest sr w (process_send_missing_content sr w)"
proof -
  have "ss_cur_reply_content_fingerprint_ind (sr_state sr) \<le> length m" "sr_num_missing sr = length m"
    using inv st by (simp_all add: send_inv_def send_stage_inv_def)
  then show ?thesis
    unfolding process_send_missing_content_def Let_def
    by (intro send_content_loop_follows [OF inv aw st]) simp_all
qed

section \<open>The stage loop follows the script\<close>

lemma send_handler_follows:
  assumes "send_inv sha data m (sr, w)" "send_awaits data m sr = send_inp (sr, w) @ rest"
    and "send_handler sha (sr_stage sr) sr w = Some res" "sr_stage sr \<noteq> SEND_COMPLETE"
  shows "handler_follows sha data m rest sr w res"
  using assms(3,4)
  by (cases "sr_stage sr")
    (auto simp: send_handler_def
      intro: process_send_header_follows [OF assms(1,2)] process_send_reg_data_follows [OF assms(1,2)]
        compute_follows [OF assms(1,2)] insert_outbound_follows [OF assms(1,2)]
        send_fingerprint_header_follows [OF assms(1,2)] send_packaged_fingerprints_follows [OF assms(1,2)]
        recv_missing_header_follows [OF assms(1,2)] recv_missing_inds_follows [OF assms(1,2)]
        send_missing_content_follows [OF assms(1,2)])

lemma send_follows_refl:
  "send_inv sha data m s \<Longrightarrow> send_awaits data m (fst s) = send_inp s @ rest \<Longrightarrow> send_follows sha data m rest s s"
  by (simp add: send_follows_def)

lemma send_follows_trans:
  "send_follows sha data m rest s s1 \<Longrightarrow> send_follows sha data m rest s1 s2 \<Longrightarrow> send_follows sha data m rest s s2"
  by (simp add: send_follows_def)

lemma process_send_follows:
  assumes "process_send sha sr w = Some (r, sr', w')" "no_split_header sr'"
    and "send_inv sha data m (sr, w)" "send_awaits data m sr = send_inp (sr, w) @ rest"
  shows "send_follows sha data m rest (sr, w) (sr', w')"
  using assms
proof (induction sha sr w rule: process_send.induct)
  case (1 sha sr w)
  show ?case
  proof (cases "sr_stage sr = SEND_COMPLETE")
    case True
    then have "sr' = sr" "w' = w"
      using 1(2) by (simp_all add: process_send.simps [of sha sr w] process_send_complete_def)
    then show ?thesis using send_follows_refl 1(4,5) by simp
  next
    case False
    then obtain c sr1 w1 where h: "send_handler sha (sr_stage sr) sr w = Some (c, sr1, w1)"
      using 1(2) by (subst (asm) process_send.simps) (auto split: option.splits prod.splits)
    have F: "handler_follows sha data m rest sr w (c, sr1, w1)"
      by (rule send_handler_follows [OF 1(4,5) h False])
    have c: "c = 0 \<or> c = 1" using send_handler_ok [OF h] by (simp add: handler_ok_def)
    let ?sr2 = "sr1\<lparr>sr_stage := send_next_stage (sr_stage sr) sr1\<rparr>"
    show ?thesis
    proof (cases "c = 1")
      case True
      then have step: "send_follows sha data m rest (sr, w) (?sr2, w1)" using F by (simp add: handler_follows_def)
      have "process_send sha ?sr2 w1 = Some (r, sr', w')"
        using 1(2) False h True by (subst (asm) process_send.simps) simp
      moreover have "send_inv sha data m (?sr2, w1)" "send_awaits data m ?sr2 = send_inp (?sr2, w1) @ rest"
        using step by (simp_all add: send_follows_def)
      ultimately have "send_follows sha data m rest (?sr2, w1) (sr', w')"
        using 1(1) [OF False h refl refl True] 1(3) by blast
      then show ?thesis using step send_follows_trans by blast
    next
      case c0: False
      then have "sr' = sr1" "w' = w1" "c = 0"
        using 1(2) False h c by (subst (asm) process_send.simps, simp)+
      then show ?thesis using F 1(3) by (simp add: handler_follows_def)
    qed
  qed
qed

section \<open>The interface\<close>

text \<open>Bytes that arrive on, or leave, the socket of an endpoint; and new answers of the kernel.\<close>

definition sock_feed :: "int \<Rightarrow> u8 list \<Rightarrow> World \<Rightarrow> World" where
  "sock_feed fd bs w = w\<lparr>socks := (socks w)(fd := (socks w fd)\<lparr>sk_in := sk_in (socks w fd) @ bs\<rparr>)\<rparr>"

definition sock_drain :: "int \<Rightarrow> nat \<Rightarrow> World \<Rightarrow> World" where
  "sock_drain fd k w = w\<lparr>socks := (socks w)(fd := (socks w fd)\<lparr>sk_out := drop k (sk_out (socks w fd))\<rparr>)\<rparr>"

definition sock_answer :: "int \<Rightarrow> answer list \<Rightarrow> World \<Rightarrow> World" where
  "sock_answer fd as w = w\<lparr>socks := (socks w)(fd := (socks w fd)\<lparr>sk_answers := as\<rparr>)\<rparr>"

definition send_feed :: "u8 list \<Rightarrow> Dedup_Send_Req \<times> World \<Rightarrow> Dedup_Send_Req \<times> World" where
  "send_feed bs s = (fst s, sock_feed (sr_sockfd (fst s)) bs (snd s))"

definition send_drain :: "nat \<Rightarrow> Dedup_Send_Req \<times> World \<Rightarrow> Dedup_Send_Req \<times> World" where
  "send_drain k s = (fst s, sock_drain (sr_sockfd (fst s)) k (snd s))"

text \<open>A call of \<open>process_send\<close>, whatever the kernel answers, that splits neither header.\<close>

definition send_poll ::
  "(u8 list \<Rightarrow> u8 list) \<Rightarrow> Dedup_Send_Req \<times> World \<Rightarrow> Dedup_Send_Req \<times> World \<Rightarrow> bool" where
  "send_poll sha s s' \<longleftrightarrow>
     (\<exists>as r. process_send sha (fst s) (sock_answer (sr_sockfd (fst s)) as (snd s)) = Some (r, fst s', snd s')) \<and>
     no_split_header (fst s')"

interpretation send_stream: stream_endpoint
  "send_inv sha data" "\<lambda>m s. send_left sha data m (fst s)" "\<lambda>m s. send_awaits data m (fst s)"
  send_inp send_outp send_feed send_drain for sha data
  by unfold_locales (auto simp: send_inv_def send_stage_inv_def send_inp_def send_outp_def send_feed_def send_drain_def
    sock_feed_def sock_drain_def cong: SendReqStage.case_cong)

interpretation send: scripted_endpoint
  "send_inv sha data" "\<lambda>m s. send_left sha data m (fst s)" "\<lambda>m s. send_awaits data m (fst s)"
  send_inp send_outp send_feed send_drain "send_poll sha" for sha data
proof unfold_locales
  fix s s' :: "Dedup_Send_Req \<times> World" and m rest
  assume p: "send_poll sha s s'" and inv: "send_inv sha data m s"
    and aw: "send_awaits data m (fst s) = send_inp s @ rest"
  obtain as r where run:
    "process_send sha (fst s) (sock_answer (sr_sockfd (fst s)) as (snd s)) = Some (r, fst s', snd s')"
    "no_split_header (fst s')"
    using p by (auto simp: send_poll_def)
  have w: "send_inv sha data m (fst s, sock_answer (sr_sockfd (fst s)) as (snd s))"
    "send_inp (fst s, sock_answer (sr_sockfd (fst s)) as (snd s)) = send_inp s"
    "send_outp (fst s, sock_answer (sr_sockfd (fst s)) as (snd s)) = send_outp s"
    using inv by (simp_all add: send_inv_def send_stage_inv_def send_inp_def send_outp_def sock_answer_def
        cong: SendReqStage.case_cong)
  then have "send_follows sha data m rest (fst s, sock_answer (sr_sockfd (fst s)) as (snd s)) (fst s', snd s')"
    using aw by (intro process_send_follows [OF run w(1)]) simp
  then show "send_stream.follows sha data m rest s s'"
    using w by (simp add: send_stream.follows_def send_follows_def)
qed

end
