(* ===== verification/RecvStream.thy ===== *)
theory RecvStream
  imports SendStream
begin

text \<open>
  The receiving endpoint as a choosing stream endpoint: until it has looked the fingerprints up in
  its cache it is consistent with every list of missing chunks; the lookup picks one, and from then on it
  writes exactly the reply for that list and reads exactly those chunks, into their places. The
  interpretation at the end discharges the contract \<open>choosing_endpoint\<close> for the model of \<open>process_recv\<close>.
\<close>

section \<open>Script and invariant\<close>

definition recv_awaits :: "(u8 list \<Rightarrow> u8 list) \<Rightarrow> u8 list \<Rightarrow> nat list \<Rightarrow> Dedup_Recv_Req \<Rightarrow> u8 list" where
  "recv_awaits sha data m rr =
     (case rr_stage rr of
        RECV_HEADER \<Rightarrow> header_image (wire_header data) @ msg_body sha data m
      | RECV_REG_DATA \<Rightarrow> drop (rr_app_offset rr) data
      | RECV_FINGERPRINT_HEADER \<Rightarrow> msg_body sha data m
      | RECV_PACKAGED_FINGERPRINTS \<Rightarrow>
          drop (rs_recv_fingerprint_offset (rr_state rr)) (packaged_image sha data) @ chunks sha data m
      | POPULATE_FROM_NET_CACHE \<Rightarrow> chunks sha data m
      | SEND_MISSING_FINGERPRINT_HEADER \<Rightarrow> chunks sha data m
      | SEND_MISSING_FINGERPRINTS \<Rightarrow> chunks sha data m
      | RECV_MISSING_CONTENT \<Rightarrow>
          drop (rs_cur_recv_content_offset (rr_state rr))
            (chunks sha data (drop (rs_cur_recv_content_ind (rr_state rr)) m))
      | INSERT_INBOUND_FINGERPRINTS \<Rightarrow> []
      | RECV_COMPLETE \<Rightarrow> [])"

definition recv_left :: "u8 list \<Rightarrow> nat list \<Rightarrow> Dedup_Recv_Req \<Rightarrow> u8 list" where
  "recv_left data m rr =
     (case rr_stage rr of
        RECV_HEADER \<Rightarrow> msg_reply data m
      | RECV_FINGERPRINT_HEADER \<Rightarrow> msg_reply data m
      | RECV_PACKAGED_FINGERPRINTS \<Rightarrow> msg_reply data m
      | POPULATE_FROM_NET_CACHE \<Rightarrow> msg_reply data m
      | SEND_MISSING_FINGERPRINT_HEADER \<Rightarrow>
          drop (rs_missing_fingerprint_header_offset (rr_state rr)) (missing_header_image m) @ inds_image m
      | SEND_MISSING_FINGERPRINTS \<Rightarrow>
          drop (rs_send_missing_fingerprint_inds_offset (rr_state rr)) (inds_image m)
      | _ \<Rightarrow> [])"

text \<open>The cache of the receiver is well formed, and what it holds under a digest of the message is
  the chunk with that digest.\<close>

definition cache_agrees :: "(u8 list \<Rightarrow> u8 list) \<Rightarrow> u8 list \<Rightarrow> Fingerprint_Cache \<Rightarrow> bool" where
  "cache_agrees sha data c \<longleftrightarrow> cache_ok c \<and>
     (is_big data \<longrightarrow> (\<forall>i<length (msg_fps sha data). \<forall>x.
        cache_contents c (sha (chunk sha data i)) = Some x \<longrightarrow> x = chunk sha data i))"

definition header_in :: "u8 list \<Rightarrow> Dedup_Recv_Req \<Rightarrow> bool" where
  "header_in data rr \<longleftrightarrow> bytes_at 0 16 (rr_mem rr) = header_image (wire_header data)"

definition packaged_region :: "Dedup_Recv_Req \<Rightarrow> u8 list" where
  "packaged_region rr = drop packaged_pos (rr_mem rr)"

definition fps_in :: "(u8 list \<Rightarrow> u8 list) \<Rightarrow> u8 list \<Rightarrow> Dedup_Recv_Req \<Rightarrow> bool" where
  "fps_in sha data rr \<longleftrightarrow> is_big data \<and> rr_num_fingerprints rr = length (msg_fps sha data) \<and>
     take (length (packaged_image sha data)) (packaged_region rr) = packaged_image sha data"

definition unanswered :: "Dedup_Recv_Req \<Rightarrow> bool" where
  "unanswered rr \<longleftrightarrow> rs_missing_fingerprint_header_offset (rr_state rr) = 0 \<and>
     rs_send_missing_fingerprint_inds_offset (rr_state rr) = 0 \<and>
     rs_cur_recv_content_ind (rr_state rr) = 0 \<and> rs_cur_recv_content_offset (rr_state rr) = 0"

text \<open>Chunk \<open>i\<close> is in its place in the application buffer.\<close>

definition chunk_in :: "(u8 list \<Rightarrow> u8 list) \<Rightarrow> u8 list \<Rightarrow> Dedup_Recv_Req \<Rightarrow> nat \<Rightarrow> bool" where
  "chunk_in sha data rr i \<longleftrightarrow>
     bytes_at (offset_of (msg_sizes sha data) i) (msg_sizes sha data ! i) (rr_app_buffer rr) = chunk sha data i"

definition populated :: "(u8 list \<Rightarrow> u8 list) \<Rightarrow> u8 list \<Rightarrow> nat list \<Rightarrow> Dedup_Recv_Req \<Rightarrow> bool" where
  "populated sha data m rr \<longleftrightarrow> fps_in sha data rr \<and>
     rs_num_missing_fingerprints (rr_state rr) = length m \<and>
     take (length m) (rs_missing_fingerprint_inds (rr_state rr)) = m \<and>
     take (length m) (rs_missing_fingerprint_slots (rr_state rr)) = map (offset_of (msg_sizes sha data)) m \<and>
     (\<forall>i<length (msg_fps sha data). i \<notin> set m \<longrightarrow> chunk_in sha data rr i)"

text \<open>The first \<open>i\<close> missing chunks and \<open>off\<close> bytes of the next are in the buffer.\<close>

definition content_in ::
  "(u8 list \<Rightarrow> u8 list) \<Rightarrow> u8 list \<Rightarrow> nat list \<Rightarrow> Dedup_Recv_Req \<Rightarrow> nat \<Rightarrow> nat \<Rightarrow> bool" where
  "content_in sha data m rr i off \<longleftrightarrow> i \<le> length m \<and> (i = length m \<longrightarrow> off = 0) \<and>
     (\<forall>j<i. chunk_in sha data rr (m ! j)) \<and>
     (i < length m \<longrightarrow> off < length (chunk sha data (m ! i)) \<and>
        bytes_at (offset_of (msg_sizes sha data) (m ! i)) off (rr_app_buffer rr) = take off (chunk sha data (m ! i)))"

definition recv_stage_inv :: "(u8 list \<Rightarrow> u8 list) \<Rightarrow> u8 list \<Rightarrow> nat list \<Rightarrow> Dedup_Recv_Req \<Rightarrow> World \<Rightarrow> bool" where
  "recv_stage_inv sha data m rr w \<longleftrightarrow>
     (case rr_stage rr of
        RECV_HEADER \<Rightarrow> rr_app_offset rr = 0 \<and> cache_agrees sha data (global_fingerprint_cache w)
      | RECV_REG_DATA \<Rightarrow> header_in data rr \<and> \<not> is_big data \<and> rr_app_offset rr \<le> length data \<and>
          take (rr_app_offset rr) (rr_app_buffer rr) = take (rr_app_offset rr) data
      | RECV_FINGERPRINT_HEADER \<Rightarrow> header_in data rr \<and> is_big data \<and>
          cache_agrees sha data (global_fingerprint_cache w)
      | RECV_PACKAGED_FINGERPRINTS \<Rightarrow> header_in data rr \<and> is_big data \<and> unanswered rr \<and>
          cache_agrees sha data (global_fingerprint_cache w) \<and>
          rr_num_fingerprints rr = length (msg_fps sha data) \<and>
          rs_packaged_fingerprints_size_bytes (rr_state rr) = length (packaged_image sha data) \<and>
          rs_recv_fingerprint_offset (rr_state rr) \<le> length (packaged_image sha data) \<and>
          take (rs_recv_fingerprint_offset (rr_state rr)) (packaged_region rr) =
            take (rs_recv_fingerprint_offset (rr_state rr)) (packaged_image sha data)
      | POPULATE_FROM_NET_CACHE \<Rightarrow> header_in data rr \<and> unanswered rr \<and> fps_in sha data rr \<and>
          cache_agrees sha data (global_fingerprint_cache w)
      | SEND_MISSING_FINGERPRINT_HEADER \<Rightarrow> header_in data rr \<and> populated sha data m rr \<and>
          rs_missing_fingerprint_header_offset (rr_state rr) \<le> 8 \<and>
          rs_send_missing_fingerprint_inds_offset (rr_state rr) = 0 \<and>
          rs_cur_recv_content_ind (rr_state rr) = 0 \<and> rs_cur_recv_content_offset (rr_state rr) = 0
      | SEND_MISSING_FINGERPRINTS \<Rightarrow> header_in data rr \<and> populated sha data m rr \<and>
          rs_send_missing_fingerprint_inds_offset (rr_state rr) \<le> 8 * length m \<and>
          rs_cur_recv_content_ind (rr_state rr) = 0 \<and> rs_cur_recv_content_offset (rr_state rr) = 0
      | RECV_MISSING_CONTENT \<Rightarrow> header_in data rr \<and> populated sha data m rr \<and>
          content_in sha data m rr (rs_cur_recv_content_ind (rr_state rr)) (rs_cur_recv_content_offset (rr_state rr))
      | INSERT_INBOUND_FINGERPRINTS \<Rightarrow> header_in data rr \<and> populated sha data m rr \<and> take (length data) (rr_app_buffer rr) = data
      | RECV_COMPLETE \<Rightarrow> header_in data rr \<and> take (length data) (rr_app_buffer rr) = data)"

definition no_split_recv :: "Dedup_Recv_Req \<Rightarrow> bool" where
  "no_split_recv rr \<longleftrightarrow> rr_recv_header_offset rr = 0 \<and> rr_recv_fingerprint_header_offset rr = 0"

definition recv_inv :: "(u8 list \<Rightarrow> u8 list) \<Rightarrow> u8 list \<Rightarrow> nat list \<Rightarrow> Dedup_Recv_Req \<times> World \<Rightarrow> bool" where
  "recv_inv sha data m s \<longleftrightarrow>
     msg_ok sha data \<and> m \<in> askable sha data \<and>
     length data \<le> length (rr_app_buffer (fst s)) \<and> length (rr_mem (fst s)) = rr_mem_size \<and>
     no_split_recv (fst s) \<and>
     length (rs_missing_fingerprint_inds (rr_state (fst s))) = MAX_FINGERPRINTS_PER_REQ \<and>
     length (rs_missing_fingerprint_slots (rr_state (fst s))) = MAX_FINGERPRINTS_PER_REQ \<and>
     recv_stage_inv sha data m (fst s) (snd s)"

definition recv_inp :: "Dedup_Recv_Req \<times> World \<Rightarrow> u8 list" where
  "recv_inp s = sk_in (socks (snd s) (rr_sockfd (fst s)))"

definition recv_outp :: "Dedup_Recv_Req \<times> World \<Rightarrow> u8 list" where
  "recv_outp s = sk_out (socks (snd s) (rr_sockfd (fst s)))"

definition recv_follows ::
  "(u8 list \<Rightarrow> u8 list) \<Rightarrow> u8 list \<Rightarrow> nat list \<Rightarrow> u8 list \<Rightarrow>
   Dedup_Recv_Req \<times> World \<Rightarrow> Dedup_Recv_Req \<times> World \<Rightarrow> bool" where
  "recv_follows sha data m rest s s' \<longleftrightarrow>
     recv_inv sha data m s' \<and> recv_awaits sha data m (fst s') = recv_inp s' @ rest \<and>
     recv_outp s' @ recv_left data m (fst s') = recv_outp s @ recv_left data m (fst s)"

definition rhandler_follows ::
  "(u8 list \<Rightarrow> u8 list) \<Rightarrow> u8 list \<Rightarrow> nat list \<Rightarrow> u8 list \<Rightarrow> Dedup_Recv_Req \<Rightarrow> World \<Rightarrow>
   int \<times> Dedup_Recv_Req \<times> World \<Rightarrow> bool" where
  "rhandler_follows sha data m rest rr w res \<longleftrightarrow>
     (case res of (r, rr1, w1) \<Rightarrow>
        (r = 1 \<longrightarrow> recv_follows sha data m rest (rr, w)
           (rr1\<lparr>rr_stage := recv_next_stage (rr_stage rr) rr1\<rparr>, w1)) \<and>
        (r = 0 \<longrightarrow> no_split_recv rr1 \<longrightarrow> recv_follows sha data m rest (rr, w) (rr1, w1)))"

lemmas recv_follows_defs = rhandler_follows_def recv_follows_def recv_inv_def recv_stage_inv_def
  recv_left_def recv_awaits_def recv_inp_def recv_outp_def recv_next_stage_def

section \<open>The request memory\<close>

lemma mem_int_add_int_at:
  assumes "pos + 4 \<le> length mem"
  shows "mem_int (add_int_at pos n mem) pos = (mem_int mem pos + n) mod 2 ^ 32"
proof -
  have "bytes_at pos 4 (add_int_at pos n mem) = le_bytes 4 (mem_int mem pos + n)"
    using bytes_at_bytes_put_same [of pos "le_bytes 4 (mem_int mem pos + n)" mem] assms
    by (simp add: add_int_at_def)
  then show ?thesis by (simp add: mem_int_def [of "add_int_at pos n mem"] le_value_le_bytes)
qed

lemma add_int_at_0: "pos + 4 \<le> length mem \<Longrightarrow> add_int_at pos 0 mem = mem"
  by (simp add: add_int_at_def mem_int_def le_bytes_le_value bytes_put_def)
    (metis add.commute append_take_drop_id bytes_at_def drop_drop)

lemma header_in_fields:
  assumes "header_in data rr" "length data < 2 ^ 64" "length (rr_mem rr) = rr_mem_size"
  shows "rr_is_fingerprint rr = (if is_big data then 1 else 0)" "rr_content_size rr = length data"
proof -
  have h: "bytes_at 0 16 (rr_mem rr) = header_image (wire_header data)"
    using assms(1) by (simp add: header_in_def)
  have "rr_mem rr ! 0 = bytes_at 0 16 (rr_mem rr) ! 0"
    using assms(3) by (simp add: nth_bytes_at rr_mem_size_def packaged_pos_def)
  then show "rr_is_fingerprint rr = (if is_big data then 1 else 0)"
    unfolding h by (simp add: rr_is_fingerprint_def header_image_def wire_header_def)
  have "bytes_at 8 8 (rr_mem rr) = bytes_at 8 8 (bytes_at 0 16 (rr_mem rr))"
    by (simp add: bytes_at_bytes_at)
  also have "\<dots> = le_bytes 8 (length data)"
    unfolding h by (simp add: header_image_def wire_header_def bytes_at_def)
  finally show "rr_content_size rr = length data"
    using assms(2) by (simp add: rr_content_size_def mem_u64_def)
qed

lemma fps_in_fingerprint:
  assumes "fps_in sha data rr" "msg_ok sha data" "i < length (msg_fps sha data)"
  shows "rr_packaged_fingerprint rr i = msg_fps sha data ! i"
proof -
  let ?fp = "msg_fps sha data ! i" and ?P = "packaged_image sha data"
  have big: "is_big data" and reg: "take (length ?P) (packaged_region rr) = ?P"
    using assms(1) by (simp_all add: fps_in_def)
  have lP: "length ?P = 40 * length (msg_fps sha data)"
    using length_packaged_image [OF assms(2) big] by (simp add: sizeof_Fingerprint_def)
  have img: "bytes_at (packaged_pos + 40 * i) 40 (rr_mem rr) = fingerprint_image ?fp"
  proof -
    have "bytes_at (packaged_pos + 40 * i) 40 (rr_mem rr) = bytes_at (40 * i) 40 (packaged_region rr)"
      by (simp add: bytes_at_def packaged_region_def add.commute)
    also have "\<dots> = bytes_at (40 * i) 40 (take (length ?P) (packaged_region rr))"
      using assms(3) lP by (simp add: bytes_at_def take_drop min_def)
    also have "\<dots> = fingerprint_image ?fp"
      unfolding reg using bytes_at_packaged_image [OF assms(2) big assms(3)] by (simp add: sizeof_Fingerprint_def)
    finally show ?thesis .
  qed
  have dl: "length (fp_fingerprint ?fp) = 32"
    using digest_length [OF assms(2) big, of ?fp] assms(3) by (simp add: FINGERPRINT_NUM_BYTES_def)
  have "length (chunk sha data i) \<le> length data" unfolding chunk_def by (simp del: nth_map)
  then have "fp_content_size ?fp < 256 ^ 8"
    using length_chunk [OF big assms(3)] assms(2) by (simp add: msg_ok_def)
  moreover have "bytes_at (packaged_pos + 40 * i) 8 (rr_mem rr) = le_bytes 8 (fp_content_size ?fp)"
  proof -
    have "bytes_at (packaged_pos + 40 * i) 8 (rr_mem rr) = bytes_at 0 8 (bytes_at (packaged_pos + 40 * i) 40 (rr_mem rr))"
      by (simp add: bytes_at_bytes_at)
    also have "\<dots> = le_bytes 8 (fp_content_size ?fp)" unfolding img by (simp add: fingerprint_image_def bytes_at_def)
    finally show ?thesis .
  qed
  ultimately have sz: "mem_u64 (rr_mem rr) (packaged_pos + 40 * i) = fp_content_size ?fp"
    by (simp add: mem_u64_def del: power_numeral)
  have "bytes_at (packaged_pos + 40 * i + 8) 32 (rr_mem rr) = bytes_at 8 32 (bytes_at (packaged_pos + 40 * i) 40 (rr_mem rr))"
    by (simp add: bytes_at_bytes_at)
  also have "\<dots> = fp_fingerprint ?fp" unfolding img using dl by (simp add: fingerprint_image_def bytes_at_def)
  finally have "bytes_at (packaged_pos + 40 * i + 8) 32 (rr_mem rr) = fp_fingerprint ?fp" .
  with sz show ?thesis
    by (simp add: rr_packaged_fingerprint_def sizeof_Fingerprint_def FINGERPRINT_NUM_BYTES_def)
qed

section \<open>The handlers follow the script\<close>

text \<open>Updates outside the request memory.\<close>

lemma recv_frame [simp]:
  "header_in data (rr\<lparr>rr_stage := s\<rparr>) = header_in data rr"
  "header_in data (rr\<lparr>rr_recv_fingerprint_state := st\<rparr>) = header_in data rr"
  "header_in data (rr\<lparr>rr_app_buffer := buf\<rparr>) = header_in data rr"
  "header_in data (rr\<lparr>rr_app_offset := v\<rparr>) = header_in data rr"
  "header_in data (rr\<lparr>rr_app_filled_size := v\<rparr>) = header_in data rr"
  "no_split_recv (rr\<lparr>rr_stage := s\<rparr>) = no_split_recv rr"
  "no_split_recv (rr\<lparr>rr_recv_fingerprint_state := st\<rparr>) = no_split_recv rr"
  "no_split_recv (rr\<lparr>rr_app_buffer := buf\<rparr>) = no_split_recv rr"
  "no_split_recv (rr\<lparr>rr_app_offset := v\<rparr>) = no_split_recv rr"
  "no_split_recv (rr\<lparr>rr_app_filled_size := v\<rparr>) = no_split_recv rr"
  "fps_in sha data (rr\<lparr>rr_stage := s\<rparr>) = fps_in sha data rr"
  "fps_in sha data (rr\<lparr>rr_recv_fingerprint_state := st\<rparr>) = fps_in sha data rr"
  "fps_in sha data (rr\<lparr>rr_app_buffer := buf\<rparr>) = fps_in sha data rr"
  "fps_in sha data (rr\<lparr>rr_app_offset := v\<rparr>) = fps_in sha data rr"
  "fps_in sha data (rr\<lparr>rr_app_filled_size := v\<rparr>) = fps_in sha data rr"
  "rr_packaged_fingerprint (rr\<lparr>rr_stage := s\<rparr>) i = rr_packaged_fingerprint rr i"
  "rr_packaged_fingerprint (rr\<lparr>rr_recv_fingerprint_state := st\<rparr>) i = rr_packaged_fingerprint rr i"
  "rr_packaged_fingerprint (rr\<lparr>rr_app_buffer := buf\<rparr>) i = rr_packaged_fingerprint rr i"
  "rr_packaged_fingerprint (rr\<lparr>rr_app_offset := v\<rparr>) i = rr_packaged_fingerprint rr i"
  "rr_packaged_fingerprint (rr\<lparr>rr_app_filled_size := v\<rparr>) i = rr_packaged_fingerprint rr i"
  "rr_num_fingerprints (rr\<lparr>rr_stage := s\<rparr>) = rr_num_fingerprints rr"
  "rr_num_fingerprints (rr\<lparr>rr_recv_fingerprint_state := st\<rparr>) = rr_num_fingerprints rr"
  "rr_num_fingerprints (rr\<lparr>rr_app_buffer := buf\<rparr>) = rr_num_fingerprints rr"
  "rr_num_fingerprints (rr\<lparr>rr_app_offset := v\<rparr>) = rr_num_fingerprints rr"
  "rr_num_fingerprints (rr\<lparr>rr_app_filled_size := v\<rparr>) = rr_num_fingerprints rr"
  by (simp_all add: header_in_def no_split_recv_def fps_in_def rr_packaged_fingerprint_def rr_num_fingerprints_def
      packaged_region_def rr_recv_header_offset_def rr_recv_fingerprint_header_offset_def)

lemma rfailed_call_follows:
  assumes "recv_inv sha data m (rr, w)" "recv_awaits sha data m rr = recv_inp (rr, w) @ rest"
    and "\<And>x. sk_in (socks w' x) = sk_in (socks w x) \<and> sk_out (socks w' x) = sk_out (socks w x)"
    and "global_fingerprint_cache w' = global_fingerprint_cache w"
  shows "recv_follows sha data m rest (rr, w) (rr, w')"
proof -
  have "recv_stage_inv sha data m rr w' = recv_stage_inv sha data m rr w"
    using assms(4) by (simp add: recv_stage_inv_def cong: RecvReqStage.case_cong)
  then show ?thesis using assms
    by (simp add: recv_follows_def recv_inv_def recv_inp_def recv_outp_def)
qed

lemma rsend_failed:
  assumes "recv_inv sha data m (rr, w)" "recv_awaits sha data m rr = recv_inp (rr, w) @ rest"
    and "sock_send fd bs w = (- 1, w1)"
  shows "recv_follows sha data m rest (rr, w) (rr, w1\<lparr>errno := EAGAIN\<rparr>)"
proof (rule rfailed_call_follows [OF assms(1,2)])
  fix x
  show "sk_in (socks (w1\<lparr>errno := EAGAIN\<rparr>) x) = sk_in (socks w x) \<and>
      sk_out (socks (w1\<lparr>errno := EAGAIN\<rparr>) x) = sk_out (socks w x)"
    using assms(3) by (auto simp: sock_send_def split: list.splits answer.splits)
qed (use sock_send_keeps [OF assms(3)] in simp)

lemma rrecv_failed:
  assumes "recv_inv sha data m (rr, w)" "recv_awaits sha data m rr = recv_inp (rr, w) @ rest"
    and "sock_recv fd n w = (- 1, bs, w1)"
  shows "recv_follows sha data m rest (rr, w) (rr, w1\<lparr>errno := EAGAIN\<rparr>)"
proof (rule rfailed_call_follows [OF assms(1,2)])
  fix x
  show "sk_in (socks (w1\<lparr>errno := EAGAIN\<rparr>) x) = sk_in (socks w x) \<and>
      sk_out (socks (w1\<lparr>errno := EAGAIN\<rparr>) x) = sk_out (socks w x)"
    using assms(3) by (auto simp: sock_recv_def Let_def split: list.splits answer.splits)
qed (use sock_recv_keeps [OF assms(3)] in simp)

text \<open>A read into the header, the fingerprint header or the packaged fingerprints keeps the two
  counters of the headers; one past the header keeps the header.\<close>

lemma counters_kept:
  assumes "pos + length bs \<le> length (rr_mem rr)"
    and "pos + length bs \<le> 16 \<or> 24 \<le> pos \<and> pos + length bs \<le> 32 \<or> 40 \<le> pos"
  shows "no_split_recv (rr\<lparr>rr_mem := bytes_put pos bs (rr_mem rr)\<rparr>) = no_split_recv rr"
  using assms
  by (auto simp: no_split_recv_def rr_recv_header_offset_def rr_recv_fingerprint_header_offset_def mem_int_def
      bytes_at_bytes_put_before bytes_at_bytes_put_after)

lemma header_kept:
  assumes "16 \<le> pos" "pos + length bs \<le> length (rr_mem rr)"
  shows "header_in data (rr\<lparr>rr_mem := bytes_put pos bs (rr_mem rr)\<rparr>) = header_in data rr"
  using assms by (simp add: header_in_def bytes_at_bytes_put_before)

lemma num_fingerprints_kept:
  assumes "32 \<le> pos" "pos + length bs \<le> length (rr_mem rr)"
  shows "rr_num_fingerprints (rr\<lparr>rr_mem := bytes_put pos bs (rr_mem rr)\<rparr>) = rr_num_fingerprints rr"
  using assms by (simp add: rr_num_fingerprints_def mem_u64_def bytes_at_bytes_put_before)

lemma rr_mem_size_eq: "rr_mem_size = 163880"
  by (simp add: rr_mem_size_def packaged_pos_def sizeof_Fingerprint_def MAX_FINGERPRINTS_PER_REQ_def)

lemma process_recv_header_follows:
  assumes inv: "recv_inv sha data m (rr, w)" and aw: "recv_awaits sha data m rr = recv_inp (rr, w) @ rest"
    and st: "rr_stage rr = RECV_HEADER"
  shows "rhandler_follows sha data m rest rr w (process_recv_header rr w)"
proof -
  let ?H = "header_image (wire_header data)"
  have I: "rr_recv_header_offset rr = 0" "length (rr_mem rr) = rr_mem_size" "msg_ok sha data"
    using inv by (simp_all add: recv_inv_def no_split_recv_def)
  have hl: "length ?H = 16" by (simp add: sizeof_General_Header_def)
  obtain n bs w1 where s: "sock_recv (rr_sockfd rr) 16 w = (n, bs, w1)" by (metis prod_cases3)
  let ?rr1 = "rr\<lparr>rr_mem := bytes_put 0 bs (rr_mem rr)\<rparr>"
  have run: "process_recv_header rr w =
      (if n = - 1 then (0, rr, w1\<lparr>errno := EAGAIN\<rparr>)
       else if n < 16 then (0, ?rr1\<lparr>rr_mem := add_int_at 16 (nat n) (rr_mem ?rr1)\<rparr>, w1) else (1, ?rr1, w1))"
    unfolding process_recv_header_def Let_def I(1) using s
    by (simp add: retry_on_error_0 sizeof_General_Header_def u64_sub_def)
  show ?thesis
  proof (cases "n = - 1")
    case True
    then show ?thesis using rrecv_failed [OF inv aw] s by (simp add: rhandler_follows_def run)
  next
    case False
    note R = sock_recv_read [OF s False]
    have "?H @ msg_body sha data m = bs @ sk_in (socks w1 (rr_sockfd rr)) @ rest"
      using aw st R(3) by (simp add: recv_awaits_def recv_inp_def)
    note F = stream_front [OF this]
    show ?thesis
    proof (cases "n < 16")
      case True
      have mem: "length (rr_mem ?rr1) = rr_mem_size" using R(2) I(2) by (simp add: rr_mem_size_eq)
      have "rr_recv_header_offset ?rr1 = 0"
        using I(1,2) R(2) by (simp add: rr_recv_header_offset_def mem_int_def bytes_at_bytes_put_after rr_mem_size_eq)
      then have "mem_int (add_int_at 16 (nat n) (rr_mem ?rr1)) 16 = nat n"
        using mem_int_add_int_at [of 16 "rr_mem ?rr1" "nat n"] mem True
        by (simp add: rr_recv_header_offset_def rr_mem_size_eq)
      moreover have "add_int_at 16 0 (rr_mem ?rr1) = rr_mem ?rr1"
        using mem by (intro add_int_at_0) (simp add: rr_mem_size_eq)
      ultimately show ?thesis
        using False True R inv aw st
        by (auto simp: run rhandler_follows_def no_split_recv_def rr_recv_header_offset_def recv_follows_def recv_inv_def
            recv_stage_inv_def recv_awaits_def recv_left_def recv_inp_def recv_outp_def)
    next
      case full: False
      then have l: "length bs = 16" using R(1,2) by simp
      then have bs: "bs = ?H" "msg_body sha data m = sk_in (socks w1 (rr_sockfd rr)) @ rest" using F hl by simp_all
      have hd: "header_in data ?rr1"
        using bytes_at_bytes_put_same [of 0 bs "rr_mem rr"] bs(1) I(2) l by (simp add: header_in_def rr_mem_size_eq)
      have mem: "length (rr_mem ?rr1) = rr_mem_size" using l I(2) by (simp add: rr_mem_size_eq)
      have fields: "rr_is_fingerprint ?rr1 = (if is_big data then 1 else 0)"
        using header_in_fields [OF hd _ mem] I(3) by (simp add: msg_ok_def)
      have ns: "no_split_recv ?rr1"
        using counters_kept [of 0 bs rr] l I(2) inv by (simp add: rr_mem_size_eq recv_inv_def)
      show ?thesis
        using False full R(4,5) inv st hd mem fields ns bs(2)
        by (auto simp: run recv_follows_defs msg_reply_def msg_body_def)
    qed
  qed
qed

lemma process_recv_reg_data_follows:
  assumes inv: "recv_inv sha data m (rr, w)" and aw: "recv_awaits sha data m rr = recv_inp (rr, w) @ rest"
    and st: "rr_stage rr = RECV_REG_DATA"
  shows "rhandler_follows sha data m rest rr w (process_recv_reg_data rr w)"
proof -
  let ?off = "rr_app_offset rr"
  have I: "header_in data rr" "\<not> is_big data" "?off \<le> length data" "take ?off (rr_app_buffer rr) = take ?off data"
    "length data \<le> length (rr_app_buffer rr)" "length (rr_mem rr) = rr_mem_size" "msg_ok sha data"
    using inv st by (simp_all add: recv_inv_def recv_stage_inv_def)
  have cs: "rr_content_size rr = length data"
    using header_in_fields [OF I(1) _ I(6)] I(7) by (simp add: msg_ok_def)
  show ?thesis
  proof (cases "?off = length data")
    case True
    then have "process_recv_reg_data rr w = (1, rr, w)" by (simp add: process_recv_reg_data_def cs)
    then show ?thesis using True inv aw st by (simp add: recv_follows_defs)
  next
    case False
    then have lt: "?off < length data" using I(3) by simp
    obtain n bs w1 where s: "sock_recv (rr_sockfd rr) (length data - ?off) w = (n, bs, w1)" by (metis prod_cases3)
    let ?rr1 = "rr\<lparr>rr_app_buffer := bytes_put ?off bs (rr_app_buffer rr), rr_app_offset := ?off + nat n\<rparr>"
    have run: "process_recv_reg_data rr w =
        (if n = - 1 then (0, rr, w1\<lparr>errno := EAGAIN\<rparr>)
         else (if ?off + nat n < length data then 0 else 1, ?rr1, w1))"
      unfolding process_recv_reg_data_def Let_def cs using s lt by (simp add: retry_on_error_0)
    show ?thesis
    proof (cases "n = - 1")
      case True
      then show ?thesis using rrecv_failed [OF inv aw] s by (simp add: rhandler_follows_def run)
    next
      case False
      note R = sock_recv_read [OF s False]
      have "drop ?off data @ [] = bs @ sk_in (socks w1 (rr_sockfd rr)) @ rest"
        using aw st R(3) by (simp add: recv_awaits_def recv_inp_def)
      from stream_front [OF this] R(2)
      have F: "bs = take (length bs) (drop ?off data)"
        "sk_in (socks w1 (rr_sockfd rr)) @ rest = drop (length bs) (drop ?off data)" by simp_all
      have le: "?off + length bs \<le> length data" using R(2) lt by simp
      have buf: "take (?off + length bs) (bytes_put ?off bs (rr_app_buffer rr)) = take (?off + length bs) data"
        using I(3,5) by (intro take_bytes_put_continue [OF I(4) _ I(3) F(1)]) simp
      have lb: "length (bytes_put ?off bs (rr_app_buffer rr)) = length (rr_app_buffer rr)" using le I(5) by simp
      have n: "nat n = length bs" using R(1) by simp
      show ?thesis
      proof (cases "?off + length bs < length data")
        case True
        then have r: "process_recv_reg_data rr w = (0, ?rr1, w1)" using run False n by simp
        show ?thesis unfolding r
          using R(4) inv st F(2) buf lb le n I(1)
          by (simp add: rhandler_follows_def recv_follows_def recv_inv_def recv_stage_inv_def recv_awaits_def
              recv_left_def recv_inp_def recv_outp_def add.commute)
      next
        case full: False
        then have e: "?off + length bs = length data" using le by simp
        then have r: "process_recv_reg_data rr w = (1, ?rr1, w1)" using run False n by simp
        have "sk_in (socks w1 (rr_sockfd rr)) @ rest = []" using F(2) e by simp
        then show ?thesis unfolding r
          using R(4) inv st buf lb e I(1)
          by (simp add: rhandler_follows_def recv_follows_def recv_inv_def recv_stage_inv_def recv_awaits_def
              recv_left_def recv_inp_def recv_outp_def recv_next_stage_def)
      qed
    qed
  qed
qed

lemma process_recv_fingerprint_header_follows:
  assumes inv: "recv_inv sha data m (rr, w)" and aw: "recv_awaits sha data m rr = recv_inp (rr, w) @ rest"
    and st: "rr_stage rr = RECV_FINGERPRINT_HEADER"
  shows "rhandler_follows sha data m rest rr w (process_recv_fingerprint_header rr w)"
proof -
  let ?N = "length (msg_fps sha data)"
  let ?tail = "packaged_image sha data @ chunks sha data m"
  have I: "rr_recv_fingerprint_header_offset rr = 0" "length (rr_mem rr) = rr_mem_size" "msg_ok sha data"
    "is_big data" "header_in data rr" "cache_agrees sha data (global_fingerprint_cache w)"
    using inv st by (simp_all add: recv_inv_def recv_stage_inv_def no_split_recv_def)
  obtain n bs w1 where s: "sock_recv (rr_sockfd rr) 8 w = (n, bs, w1)" by (metis prod_cases3)
  let ?rr1 = "rr\<lparr>rr_mem := bytes_put 24 bs (rr_mem rr)\<rparr>"
  let ?st = "(rr_state ?rr1)\<lparr>rs_packaged_fingerprints_size_bytes := (rr_num_fingerprints ?rr1 * sizeof_Fingerprint) mod 2 ^ 64,
      rs_recv_fingerprint_offset := 0, rs_missing_fingerprint_header_offset := 0,
      rs_send_missing_fingerprint_inds_offset := 0, rs_cur_recv_content_ind := 0, rs_cur_recv_content_offset := 0\<rparr>"
  have run: "process_recv_fingerprint_header rr w =
      (if n = - 1 then (0, rr, w1\<lparr>errno := EAGAIN\<rparr>)
       else if n < 8 then (0, ?rr1\<lparr>rr_mem := add_int_at 32 (nat n) (rr_mem ?rr1)\<rparr>, w1)
       else (1, ?rr1\<lparr>rr_recv_fingerprint_state := ?st\<rparr>, w1))"
    unfolding process_recv_fingerprint_header_def Let_def I(1) using s
    by (simp add: retry_on_error_0 sizeof_Fingerprint_Header_def u64_sub_def)
  show ?thesis
  proof (cases "n = - 1")
    case True
    then show ?thesis using rrecv_failed [OF inv aw] s by (simp add: rhandler_follows_def run)
  next
    case False
    note R = sock_recv_read [OF s False]
    have "fp_header_image sha data @ ?tail = bs @ sk_in (socks w1 (rr_sockfd rr)) @ rest"
      using aw st R(3) I(4) by (simp add: recv_awaits_def recv_inp_def msg_body_def)
    note F = stream_front [OF this]
    show ?thesis
    proof (cases "n < 8")
      case True
      have mem: "length (rr_mem ?rr1) = rr_mem_size" using R(2) I(2) by (simp add: rr_mem_size_eq)
      have "rr_recv_fingerprint_header_offset ?rr1 = 0"
        using I(1,2) R(2)
        by (simp add: rr_recv_fingerprint_header_offset_def mem_int_def bytes_at_bytes_put_after rr_mem_size_eq)
      then have "mem_int (add_int_at 32 (nat n) (rr_mem ?rr1)) 32 = nat n"
        using mem_int_add_int_at [of 32 "rr_mem ?rr1" "nat n"] mem True
        by (simp add: rr_recv_fingerprint_header_offset_def rr_mem_size_eq)
      moreover have "add_int_at 32 0 (rr_mem ?rr1) = rr_mem ?rr1"
        using mem by (intro add_int_at_0) (simp add: rr_mem_size_eq)
      ultimately show ?thesis
        using False True R inv aw st
        by (auto simp: run rhandler_follows_def no_split_recv_def rr_recv_fingerprint_header_offset_def
            recv_follows_def recv_inv_def recv_stage_inv_def recv_awaits_def recv_left_def recv_inp_def recv_outp_def)
    next
      case full: False
      then have l: "length bs = 8" using R(1,2) by simp
      then have bs: "bs = le_bytes 8 ?N" "?tail = sk_in (socks w1 (rr_sockfd rr)) @ rest"
        using F by (simp_all add: fp_header_image_def)
      have "?N \<le> MAX_FINGERPRINTS_PER_REQ" using I(3,4) by (simp add: msg_ok_def)
      then have N: "?N < 256 ^ 8" "?N * 40 < 2 ^ 64" by (simp_all add: MAX_FINGERPRINTS_PER_REQ_def)
      have num: "rr_num_fingerprints ?rr1 = ?N"
        using bytes_at_bytes_put_same [of 24 bs "rr_mem rr"] bs(1) I(2) l N(1)
        by (simp add: rr_num_fingerprints_def mem_u64_def rr_mem_size_eq del: power_numeral)
      have szb: "(?N * sizeof_Fingerprint) mod 2 ^ 64 = length (packaged_image sha data)"
        using N(2) length_packaged_image [OF I(3,4)] by (simp add: sizeof_Fingerprint_def)
      have hd: "header_in data ?rr1" using header_kept [of 24 bs rr data] I(2,5) l by (simp add: rr_mem_size_eq)
      have mem: "length (rr_mem ?rr1) = rr_mem_size" using l I(2) by (simp add: rr_mem_size_eq)
      have ns: "no_split_recv ?rr1"
        using counters_kept [of 24 bs rr] l I(2) inv by (simp add: rr_mem_size_eq recv_inv_def)
      have r: "process_recv_fingerprint_header rr w = (1, ?rr1\<lparr>rr_recv_fingerprint_state := ?st\<rparr>, w1)"
        using run False full by simp
      show ?thesis unfolding r num szb
        using R(4,5) inv st hd mem ns bs(2) num I(4,6)
        by (simp add: recv_follows_defs unanswered_def)
    qed
  qed
qed

lemma process_recv_packaged_fingerprints_follows:
  assumes inv: "recv_inv sha data m (rr, w)" and aw: "recv_awaits sha data m rr = recv_inp (rr, w) @ rest"
    and st: "rr_stage rr = RECV_PACKAGED_FINGERPRINTS"
  shows "rhandler_follows sha data m rest rr w (process_recv_packaged_fingerprints rr w)"
proof -
  let ?P = "packaged_image sha data" and ?off = "rs_recv_fingerprint_offset (rr_state rr)"
  have I: "length (rr_mem rr) = rr_mem_size" "msg_ok sha data" "is_big data" "header_in data rr"
    "rs_packaged_fingerprints_size_bytes (rr_state rr) = length ?P" "?off \<le> length ?P"
    "take ?off (packaged_region rr) = take ?off ?P" "rr_num_fingerprints rr = length (msg_fps sha data)"
    using inv st by (simp_all add: recv_inv_def recv_stage_inv_def)
  have lP: "packaged_pos + length ?P \<le> rr_mem_size"
    using I(2,3) length_packaged_image [OF I(2,3)] by (simp add: msg_ok_def rr_mem_size_def)
  obtain n bs w1 where s: "sock_recv (rr_sockfd rr) (length ?P - ?off) w = (n, bs, w1)" by (metis prod_cases3)
  let ?rr1 = "rr\<lparr>rr_mem := bytes_put (packaged_pos + ?off) bs (rr_mem rr)\<rparr>"
  have run: "process_recv_packaged_fingerprints rr w =
      (if n = - 1 then (0, rr, w1\<lparr>errno := EAGAIN\<rparr>)
       else if n < int (length ?P - ?off)
       then (0, ?rr1\<lparr>rr_recv_fingerprint_state := (rr_state rr)\<lparr>rs_recv_fingerprint_offset := ?off + nat n\<rparr>\<rparr>, w1)
       else (1, ?rr1, w1))"
    unfolding process_recv_packaged_fingerprints_def Let_def I(5) using s by (simp add: retry_on_error_0)
  show ?thesis
  proof (cases "n = - 1")
    case True
    then show ?thesis using rrecv_failed [OF inv aw] s by (simp add: rhandler_follows_def run)
  next
    case False
    note R = sock_recv_read [OF s False]
    have "drop ?off ?P @ chunks sha data m = bs @ sk_in (socks w1 (rr_sockfd rr)) @ rest"
      using aw st R(3) by (simp add: recv_awaits_def recv_inp_def)
    from stream_front [OF this] R(2)
    have F: "bs = take (length bs) (drop ?off ?P)"
      "sk_in (socks w1 (rr_sockfd rr)) @ rest = drop (?off + length bs) ?P @ chunks sha data m"
      by (simp_all add: add.commute)
    have le: "?off + length bs \<le> length ?P" using R(2) I(6) by simp
    have room: "packaged_pos + ?off + length bs \<le> length (rr_mem rr)" using le lP I(1) by simp
    have reg: "packaged_region ?rr1 = bytes_put ?off bs (packaged_region rr)"
    proof -
      have "drop packaged_pos (bytes_put (packaged_pos + ?off) bs (rr_mem rr)) =
          bytes_put ?off bs (drop packaged_pos (rr_mem rr))"
        using room by (simp add: bytes_put_def drop_take add.assoc add.commute [of packaged_pos])
      then show ?thesis by (simp add: packaged_region_def)
    qed
    have tk: "take (?off + length bs) (packaged_region ?rr1) = take (?off + length bs) ?P"
      unfolding reg using room by (intro take_bytes_put_continue [OF I(7) _ I(6) F(1)]) (simp add: packaged_region_def)
    have mem: "length (rr_mem ?rr1) = rr_mem_size" using room I(1) by simp
    have hd: "header_in data ?rr1"
      using header_kept [of "packaged_pos + ?off" bs rr data] room I(4) by (simp add: packaged_pos_def)
    have ns: "no_split_recv ?rr1"
      using counters_kept [of "packaged_pos + ?off" bs rr] room inv by (simp add: recv_inv_def packaged_pos_def)
    have num: "rr_num_fingerprints ?rr1 = length (msg_fps sha data)"
      using num_fingerprints_kept [of "packaged_pos + ?off" bs rr] room I(8) by (simp add: packaged_pos_def)
    have n: "nat n = length bs" using R(1) by simp
    show ?thesis
    proof (cases "n < int (length ?P - ?off)")
      case True
      then have r: "process_recv_packaged_fingerprints rr w =
          (0, ?rr1\<lparr>rr_recv_fingerprint_state := (rr_state rr)\<lparr>rs_recv_fingerprint_offset := ?off + nat n\<rparr>\<rparr>, w1)"
        using run False by simp
      show ?thesis unfolding r n
        using R(4,5) inv st F(2) tk mem hd ns num le
        by (simp add: rhandler_follows_def recv_follows_def recv_inv_def recv_stage_inv_def recv_awaits_def recv_left_def
            recv_inp_def recv_outp_def unanswered_def packaged_region_def)
    next
      case full: False
      then have r: "process_recv_packaged_fingerprints rr w = (1, ?rr1, w1)" using run False by simp
      have e: "?off + length bs = length ?P" using full R(1) le by simp
      have "fps_in sha data ?rr1" using tk num I(3) unfolding e by (simp add: fps_in_def)
      then show ?thesis unfolding r
        using R(4,5) inv st F(2) mem hd ns e
        by (simp add: recv_follows_defs unanswered_def)
    qed
  qed
qed

section \<open>The answer\<close>

text \<open>The chunks the lookup will not find.\<close>

definition missing_now :: "(u8 list \<Rightarrow> u8 list) \<Rightarrow> u8 list \<Rightarrow> World \<Rightarrow> nat list" where
  "missing_now sha data w =
     missing_of (cache_contents (global_fingerprint_cache w)) (msg_fps sha data) (length (msg_fps sha data))"

lemma missing_now_askable: "missing_now sha data w \<in> askable sha data"
  by (auto simp: missing_now_def missing_of_def askable_def)

lemma held_sizes:
  assumes "cache_agrees sha data c" "msg_ok sha data" "is_big data"
  shows "held_sizes_ok (cache_contents c) (msg_fps sha data)"
  unfolding held_sizes_ok_def
proof
  fix fp assume "fp \<in> set (msg_fps sha data)"
  then obtain i where i: "i < length (msg_fps sha data)" "msg_fps sha data ! i = fp" by (auto simp: in_set_conv_nth)
  then show "fp_fingerprint fp \<noteq> zero_key \<and>
      (\<forall>x. cache_contents c (fp_fingerprint fp) = Some x \<longrightarrow> length x = fp_content_size fp)"
    using assms msg_fps_facts(3) [OF assms(3) i(1)] length_chunk [OF assms(3) i(1)]
    by (auto simp: msg_ok_def cache_agrees_def)
qed

lemma populate_follows:
  assumes inv: "recv_inv sha data (missing_now sha data w) (rr, w)"
    and aw: "recv_awaits sha data (missing_now sha data w) rr = recv_inp (rr, w) @ rest"
    and st: "rr_stage rr = POPULATE_FROM_NET_CACHE"
  shows "rhandler_follows sha data (missing_now sha data w) rest rr w (process_populate_from_net_cache rr w)"
proof -
  let ?c = "global_fingerprint_cache w" and ?fps = "msg_fps sha data" and ?m = "missing_now sha data w"
  let ?held = "cache_contents ?c" and ?N = "length (msg_fps sha data)"
  have I: "msg_ok sha data" "fps_in sha data rr" "cache_agrees sha data ?c" "is_big data"
    "length data \<le> length (rr_app_buffer rr)" "unanswered rr"
    "length (rs_missing_fingerprint_inds (rr_state rr)) = MAX_FINGERPRINTS_PER_REQ"
    "length (rs_missing_fingerprint_slots (rr_state rr)) = MAX_FINGERPRINTS_PER_REQ"
    using inv st by (simp_all add: recv_inv_def recv_stage_inv_def fps_in_def)
  have num: "rr_num_fingerprints rr = ?N" using I(2) by (simp add: fps_in_def)
  let ?p = "populate_loop ?c (rr_packaged_fingerprint rr) 0 ?N (populate_start rr)"
  have start: "populate_inv ?held ?fps (rr_app_buffer rr) MAX_FINGERPRINTS_PER_REQ 0 (populate_start rr)"
    using I(7,8) by (simp add: populate_inv_def populate_start_def missing_of_def)
  have "populate_inv ?held ?fps (rr_app_buffer rr) MAX_FINGERPRINTS_PER_REQ ?N ?p"
  proof (rule populate_loop_inv [OF start])
    show "cache_ok ?c" "held_sizes_ok ?held ?fps" "?N \<le> MAX_FINGERPRINTS_PER_REQ"
      using I(1,3,4) held_sizes [OF I(3,1,4)] by (simp_all add: cache_agrees_def msg_ok_def)
    show "sum_list (msg_sizes sha data) \<le> length (rr_app_buffer rr)"
      using msg_fps_facts(2) [OF I(4), of sha] I(5) by simp
    show "rr_packaged_fingerprint rr j = ?fps ! j" if "j < ?N" for j
      using fps_in_fingerprint [OF I(2,1) that] .
  qed simp
  then have P: "pop_num_missing ?p = length ?m" "take (length ?m) (pop_inds ?p) = ?m"
    "length (pop_inds ?p) = MAX_FINGERPRINTS_PER_REQ" "length (pop_slots ?p) = MAX_FINGERPRINTS_PER_REQ"
    "take (length ?m) (pop_slots ?p) = map (offset_of (msg_sizes sha data)) ?m"
    "length (pop_buffer ?p) = length (rr_app_buffer rr)"
    "\<And>j. j < ?N \<Longrightarrow> bytes_at (offset_of (msg_sizes sha data) j) (fp_content_size (?fps ! j)) (pop_buffer ?p) =
        (case ?held (fp_fingerprint (?fps ! j)) of Some x \<Rightarrow> x
         | None \<Rightarrow> bytes_at (offset_of (msg_sizes sha data) j) (fp_content_size (?fps ! j)) (rr_app_buffer rr))"
    unfolding populate_inv_def missing_now_def by auto
  have found: "bytes_at (offset_of (msg_sizes sha data) j) (msg_sizes sha data ! j) (pop_buffer ?p) = chunk sha data j"
    if j: "j < ?N" "j \<notin> set ?m" for j
  proof -
    have "?held (sha (chunk sha data j)) \<noteq> None"
      using j msg_fps_facts(3) [OF I(4) j(1)] by (auto simp: missing_now_def missing_of_def)
    then obtain x where x: "?held (sha (chunk sha data j)) = Some x" by blast
    then have "x = chunk sha data j" using I(3,4) j(1) by (auto simp: cache_agrees_def)
    then show ?thesis using P(7) [OF j(1)] x msg_fps_facts(3) [OF I(4) j(1)] j(1) by simp
  qed
  obtain w1 where run: "process_populate_from_net_cache rr w =
      (1, rr\<lparr>rr_app_buffer := pop_buffer ?p, rr_app_filled_size := pop_filled ?p,
             rr_recv_fingerprint_state := (rr_state rr)
               \<lparr>rs_missing_fingerprint_inds := pop_inds ?p, rs_missing_fingerprint_slots := pop_slots ?p,
                rs_num_missing_fingerprints := pop_num_missing ?p\<rparr>\<rparr>, w1)" "socks w1 = socks w"
    unfolding process_populate_from_net_cache_def Let_def num by simp
  show ?thesis unfolding run(1)
    using run(2) inv aw st P I(2,4,6) found
    by (simp add: recv_follows_defs populated_def chunk_in_def unanswered_def msg_reply_def)
qed

lemma everything_in:
  assumes "is_big data" "length data \<le> length (rr_app_buffer rr)"
    and "\<And>i. i < length (msg_fps sha data) \<Longrightarrow> chunk_in sha data rr i"
  shows "take (length data) (rr_app_buffer rr) = data"
  using buffer_by_chunks [OF assms(1,2), of sha] assms(3) by (simp add: chunk_in_def)

text \<open>Entry \<open>i\<close> of the missing lists.\<close>

lemma populated_entry:
  assumes "populated sha data m rr" "msg_ok sha data" "m \<in> askable sha data" "i < length m"
  shows "m ! i < length (msg_fps sha data)" "rs_missing_fingerprint_inds (rr_state rr) ! i = m ! i"
    "rs_missing_fingerprint_slots (rr_state rr) ! i = offset_of (msg_sizes sha data) (m ! i)"
    "rr_packaged_fingerprint rr (m ! i) = msg_fps sha data ! (m ! i)"
    "fp_content_size (msg_fps sha data ! (m ! i)) = length (chunk sha data (m ! i))"
proof -
  show lt: "m ! i < length (msg_fps sha data)" using askableD(1) [OF assms(3)] nth_mem [OF assms(4)] by blast
  have P: "fps_in sha data rr" "is_big data"
    "take (length m) (rs_missing_fingerprint_inds (rr_state rr)) ! i = m ! i"
    "take (length m) (rs_missing_fingerprint_slots (rr_state rr)) ! i = map (offset_of (msg_sizes sha data)) m ! i"
    using assms(1) by (simp_all add: populated_def fps_in_def)
  then show "rs_missing_fingerprint_inds (rr_state rr) ! i = m ! i"
    "rs_missing_fingerprint_slots (rr_state rr) ! i = offset_of (msg_sizes sha data) (m ! i)"
    using assms(4) by simp_all
  show "rr_packaged_fingerprint rr (m ! i) = msg_fps sha data ! (m ! i)"
    by (rule fps_in_fingerprint [OF P(1) assms(2) lt])
  show "fp_content_size (msg_fps sha data ! (m ! i)) = length (chunk sha data (m ! i))"
    using length_chunk [OF P(2) lt] by simp
qed

lemma send_missing_header_follows:
  assumes inv: "recv_inv sha data m (rr, w)" and aw: "recv_awaits sha data m rr = recv_inp (rr, w) @ rest"
    and st: "rr_stage rr = SEND_MISSING_FINGERPRINT_HEADER"
  shows "rhandler_follows sha data m rest rr w (process_send_missing_fingerprint_header rr w)"
proof -
  let ?off = "rs_missing_fingerprint_header_offset (rr_state rr)" and ?H = "missing_header_image m"
  have I: "populated sha data m rr" "?off \<le> 8" "rs_num_missing_fingerprints (rr_state rr) = length m"
    "is_big data" "length data \<le> length (rr_app_buffer rr)" "header_in data rr"
    "rs_send_missing_fingerprint_inds_offset (rr_state rr) = 0"
    "rs_cur_recv_content_ind (rr_state rr) = 0" "rs_cur_recv_content_offset (rr_state rr) = 0"
    using inv st by (simp_all add: recv_inv_def recv_stage_inv_def populated_def fps_in_def)
  have b: "bytes_at ?off (8 - ?off) ?H = drop ?off ?H" by (simp add: bytes_at_def)
  obtain n w1 where s: "sock_send (rr_sockfd rr) (drop ?off ?H) w = (n, w1)"
    by (cases "sock_send (rr_sockfd rr) (drop ?off ?H) w")
  have run: "process_send_missing_fingerprint_header rr w =
      (if n = - 1 then (0, rr, w1\<lparr>errno := EAGAIN\<rparr>)
       else if n < int (8 - ?off)
       then (0, rr\<lparr>rr_recv_fingerprint_state := (rr_state rr)\<lparr>rs_missing_fingerprint_header_offset := ?off + nat n\<rparr>\<rparr>, w1)
       else (1, rr, w1))"
    unfolding process_send_missing_fingerprint_header_def Let_def I(3) using s b
    by (simp add: retry_on_error_0 sizeof_Missing_Fingerprint_Header_def missing_header_image_def)
  show ?thesis
  proof (cases "n = - 1")
    case True
    then show ?thesis using rsend_failed [OF inv aw] s by (simp add: rhandler_follows_def run)
  next
    case False
    note W = sock_send_wrote [OF s False]
    have "take (nat n) (drop ?off ?H) @ drop (?off + nat n) ?H = drop ?off ?H"
      by (metis add.commute append_take_drop_id drop_drop)
    then have split: "take (nat n) (drop ?off ?H) @ drop (?off + nat n) ?H @ xs = drop ?off ?H @ xs" for xs
      by (metis append.assoc)
    show ?thesis
    proof (cases "n < int (8 - ?off)")
      case True
      then have r: "process_send_missing_fingerprint_header rr w =
          (0, rr\<lparr>rr_recv_fingerprint_state := (rr_state rr)\<lparr>rs_missing_fingerprint_header_offset := ?off + nat n\<rparr>\<rparr>, w1)"
        using run False by simp
      have "?off + nat n \<le> 8" using True I(2) by arith
      then show ?thesis unfolding r
        using W(3-5) inv aw st split I
        by (simp add: rhandler_follows_def recv_follows_def recv_inv_def recv_stage_inv_def recv_awaits_def recv_left_def
            recv_inp_def recv_outp_def populated_def chunk_in_def)
    next
      case full: False
      then have r: "process_send_missing_fingerprint_header rr w = (1, rr, w1)" using run False by simp
      have all: "take (nat n) (drop ?off ?H) = drop ?off ?H" using full by simp
      show ?thesis
      proof (cases "m = []")
        case True
        have "take (length data) (rr_app_buffer rr) = data"
          using I(1) True by (intro everything_in [OF I(4,5), of sha]) (simp add: populated_def)
        then show ?thesis unfolding r
          using W(3-5) inv aw st all I True
          by (simp add: recv_follows_defs inds_image_def)
      next
        case False
        then show ?thesis unfolding r
          using W(3-5) inv aw st all I
          by (simp add: recv_follows_defs populated_def chunk_in_def)
      qed
    qed
  qed
qed

lemma send_missing_inds_follows:
  assumes inv: "recv_inv sha data m (rr, w)" and aw: "recv_awaits sha data m rr = recv_inp (rr, w) @ rest"
    and st: "rr_stage rr = SEND_MISSING_FINGERPRINTS"
  shows "rhandler_follows sha data m rest rr w (process_send_missing_fingerprints rr w)"
proof -
  let ?off = "rs_send_missing_fingerprint_inds_offset (rr_state rr)" and ?S = "inds_image m"
  have I: "populated sha data m rr" "?off \<le> 8 * length m" "rs_num_missing_fingerprints (rr_state rr) = length m"
    "take (length m) (rs_missing_fingerprint_inds (rr_state rr)) = m" "is_big data" "msg_ok sha data"
    "m \<in> askable sha data" "header_in data rr"
    "rs_cur_recv_content_ind (rr_state rr) = 0" "rs_cur_recv_content_offset (rr_state rr) = 0"
    using inv st by (simp_all add: recv_inv_def recv_stage_inv_def populated_def fps_in_def)
  have "length m \<le> MAX_FINGERPRINTS_PER_REQ"
    using askableD(2) [OF I(7)] I(5,6) by (simp add: msg_ok_def)
  then have tot: "(length m * 8) mod 2 ^ 64 = 8 * length m" by (simp add: MAX_FINGERPRINTS_PER_REQ_def)
  let ?all = "concat (map (le_bytes 8) (rs_missing_fingerprint_inds (rr_state rr)))"
  have "?all = concat (map (le_bytes 8) (take (length m) (rs_missing_fingerprint_inds (rr_state rr)))) @
      concat (map (le_bytes 8) (drop (length m) (rs_missing_fingerprint_inds (rr_state rr))))"
    by (metis append_take_drop_id concat_append map_append)
  then have all: "?all = ?S @ concat (map (le_bytes 8) (drop (length m) (rs_missing_fingerprint_inds (rr_state rr))))"
    unfolding I(4) inds_image_def .
  have b: "bytes_at ?off (8 * length m - ?off) ?all = drop ?off ?S"
    unfolding all using I(2) by (simp add: bytes_at_def)
  obtain n w1 where s: "sock_send (rr_sockfd rr) (drop ?off ?S) w = (n, w1)"
    by (cases "sock_send (rr_sockfd rr) (drop ?off ?S) w")
  have run: "process_send_missing_fingerprints rr w =
      (if n = - 1 then (0, rr, w1\<lparr>errno := EAGAIN\<rparr>)
       else if n < int (8 * length m - ?off)
       then (0, rr\<lparr>rr_recv_fingerprint_state := (rr_state rr)\<lparr>rs_send_missing_fingerprint_inds_offset := ?off + nat n\<rparr>\<rparr>, w1)
       else (1, rr, w1))"
    unfolding process_send_missing_fingerprints_def Let_def I(3) tot b using s by (simp add: retry_on_error_0)
  show ?thesis
  proof (cases "n = - 1")
    case True
    then show ?thesis using rsend_failed [OF inv aw] s by (simp add: rhandler_follows_def run)
  next
    case False
    note W = sock_send_wrote [OF s False]
    have split: "take (nat n) (drop ?off ?S) @ drop (?off + nat n) ?S = drop ?off ?S"
      by (metis add.commute append_take_drop_id drop_drop)
    show ?thesis
    proof (cases "n < int (8 * length m - ?off)")
      case True
      then have r: "process_send_missing_fingerprints rr w =
          (0, rr\<lparr>rr_recv_fingerprint_state := (rr_state rr)\<lparr>rs_send_missing_fingerprint_inds_offset := ?off + nat n\<rparr>\<rparr>, w1)"
        using run False by simp
      have "?off + nat n \<le> 8 * length m" using True I(2) by arith
      then show ?thesis unfolding r
        using W(3-5) inv aw st split I
        by (simp add: rhandler_follows_def recv_follows_def recv_inv_def recv_stage_inv_def recv_awaits_def recv_left_def
            recv_inp_def recv_outp_def populated_def chunk_in_def)
    next
      case full: False
      then have r: "process_send_missing_fingerprints rr w = (1, rr, w1)" using run False by simp
      have tk: "take (nat n) (drop ?off ?S) = drop ?off ?S" using full by simp
      show ?thesis unfolding r
        using W(3-5) inv aw st tk I asked_chunk_pos [OF I(5,7), of 0]
        by (simp add: recv_follows_defs populated_def chunk_in_def content_in_def)
    qed
  qed
qed

section \<open>The missing chunks\<close>

lemma bytes_at_put_continue:
  assumes "bytes_at p off buf = take off img" "off \<le> length img" "p + off + length bs \<le> length buf"
    and "bs = take (length bs) (drop off img)"
  shows "bytes_at p (off + length bs) (bytes_put (p + off) bs buf) = take (off + length bs) img"
proof -
  have "bytes_at p (off + length bs) (bytes_put (p + off) bs buf) =
      bytes_at p off (bytes_put (p + off) bs buf) @ bytes_at (p + off) (length bs) (bytes_put (p + off) bs buf)"
    by (rule bytes_at_append [symmetric])
  also have "\<dots> = take off img @ take (length bs) (drop off img)"
    using assms bytes_at_bytes_put_before [of p off "p + off" bs buf] bytes_at_bytes_put_same [of "p + off" bs buf]
    by simp
  also have "\<dots> = take (off + length bs) img" by (simp add: take_add)
  finally show ?thesis .
qed

text \<open>Writing inside the place of one chunk leaves the others alone.\<close>

lemma chunk_in_put:
  assumes "is_big data" "length data \<le> length (rr_app_buffer rr)"
    and "i < length (msg_fps sha data)" "j < length (msg_fps sha data)" "i \<noteq> j"
    and "off + length bs \<le> msg_sizes sha data ! i"
  shows "chunk_in sha data (rr\<lparr>rr_app_buffer := bytes_put (offset_of (msg_sizes sha data) i + off) bs (rr_app_buffer rr)\<rparr>) j
    = chunk_in sha data rr j"
proof -
  let ?zs = "msg_sizes sha data" and ?buf = "rr_app_buffer rr"
  have len: "offset_of ?zs i + off + length bs \<le> length ?buf"
    using offset_of_block_le [of i ?zs] msg_fps_facts(2) [OF assms(1), of sha] assms(2,3,6) by simp
  have "bytes_at (offset_of ?zs j) (?zs ! j) (bytes_put (offset_of ?zs i + off) bs ?buf) =
      bytes_at (offset_of ?zs j) (?zs ! j) ?buf"
  proof (cases "j < i")
    case True
    then show ?thesis
      using offset_of_blocks_disjoint [of j i ?zs] assms(3) len by (intro bytes_at_bytes_put_before) simp_all
  next
    case False
    then show ?thesis
      using offset_of_blocks_disjoint [of i j ?zs] assms(4-6) len by (intro bytes_at_bytes_put_after) simp_all
  qed
  then show ?thesis by (simp add: chunk_in_def)
qed

lemma recv_follows_refl:
  "recv_inv sha data m s \<Longrightarrow> recv_awaits sha data m (fst s) = recv_inp s @ rest \<Longrightarrow> recv_follows sha data m rest s s"
  by (simp add: recv_follows_def)

lemma recv_follows_trans:
  "recv_follows sha data m rest s s1 \<Longrightarrow> recv_follows sha data m rest s1 s2 \<Longrightarrow> recv_follows sha data m rest s s2"
  by (simp add: recv_follows_def)

text \<open>One read of the loop.\<close>

lemma content_step:
  assumes inv: "recv_inv sha data m (rr, w)" and aw: "recv_awaits sha data m rr = recv_inp (rr, w) @ rest"
    and st: "rr_stage rr = RECV_MISSING_CONTENT"
    and cur: "rs_cur_recv_content_ind (rr_state rr) = i" "rs_cur_recv_content_offset (rr_state rr) = off"
    and i: "i < length m"
    and s: "sock_recv (rr_sockfd rr) (length (chunk sha data (m ! i)) - off) w = (n, bs, w1)" "n \<noteq> - 1"
    and off': "off' = off + length bs" "off' < length (chunk sha data (m ! i)) \<and> i' = i \<and> o' = off' \<or>
      off' = length (chunk sha data (m ! i)) \<and> i' = i + 1 \<and> o' = 0"
  shows "recv_follows sha data m rest (rr, w)
    (rr\<lparr>rr_app_buffer := bytes_put (offset_of (msg_sizes sha data) (m ! i) + off) bs (rr_app_buffer rr),
        rr_app_filled_size := filled,
        rr_recv_fingerprint_state := (rr_state rr)\<lparr>rs_cur_recv_content_ind := i', rs_cur_recv_content_offset := o'\<rparr>\<rparr>, w1)"
proof -
  let ?C = "chunk sha data (m ! i)" and ?p = "offset_of (msg_sizes sha data) (m ! i)"
  let ?buf = "bytes_put (?p + off) bs (rr_app_buffer rr)"
  let ?rr = "rr\<lparr>rr_app_buffer := ?buf\<rparr>"
  have I: "populated sha data m rr" "content_in sha data m rr i off" "is_big data" "m \<in> askable sha data"
    "length data \<le> length (rr_app_buffer rr)" "header_in data rr"
    using inv st cur by (simp_all add: recv_inv_def recv_stage_inv_def populated_def fps_in_def)
  have mi: "m ! i < length (msg_fps sha data)" using askableD(1) [OF I(4)] i nth_mem by blast
  have cl: "length ?C = msg_sizes sha data ! (m ! i)" using length_chunk [OF I(3) mi] mi by simp
  have off: "off \<le> length ?C" "bytes_at ?p off (rr_app_buffer rr) = take off ?C"
    using I(2) i by (simp_all add: content_in_def less_imp_le)
  note R = sock_recv_read [OF s]
  have "drop off ?C @ chunks sha data (drop (i + 1) m) = bs @ sk_in (socks w1 (rr_sockfd rr)) @ rest"
    using aw st cur R(3) off(1) chunks_drop [OF i, of sha data] by (simp add: recv_awaits_def recv_inp_def)
  from stream_front [OF this] R(2)
  have F: "bs = take (length bs) (drop off ?C)"
    "sk_in (socks w1 (rr_sockfd rr)) @ rest = drop (off + length bs) ?C @ chunks sha data (drop (i + 1) m)"
    by (simp_all add: add.commute)
  have le: "off + length bs \<le> length ?C" using R(2) off(1) by simp
  have room: "?p + off + length bs \<le> length (rr_app_buffer rr)"
    using offset_of_block_le [of "m ! i" "msg_sizes sha data"] msg_fps_facts(2) [OF I(3), of sha] I(5) le cl mi by simp
  have lb: "length ?buf = length (rr_app_buffer rr)" using room by simp
  have here: "bytes_at ?p off' ?buf = take off' ?C"
    using bytes_at_put_continue [OF off(2,1) room F(1)] off'(1) by simp
  have other: "chunk_in sha data ?rr j = chunk_in sha data rr j" if "j < length (msg_fps sha data)" "j \<noteq> m ! i" for j
    using chunk_in_put [OF I(3,5) mi that(1)] that(2) le cl by simp
  have lt: "m ! j < length (msg_fps sha data)" if "j < length m" for j
    using askableD(1) [OF I(4)] nth_mem [OF that] by blast
  have ne: "m ! j \<noteq> m ! i" if "j < i" for j
    using askableD(3) [OF I(4)] that i by (simp add: nth_eq_iff_index_eq)
  have prev: "chunk_in sha data ?rr (m ! j)" if "j < i" for j
    using other [OF lt ne [OF that]] that i I(2) by (simp add: content_in_def)
  have "j \<noteq> m ! i" if "j \<notin> set m" for j using that i by auto
  then have pop: "populated sha data m ?rr" using I(1) other by (simp add: populated_def)
  have con: "content_in sha data m ?rr i' o'"
  proof (cases "off' = length ?C")
    case True
    then have "chunk_in sha data ?rr (m ! i)" using here cl by (simp add: chunk_in_def)
    then show ?thesis using prev i off' True asked_chunk_pos [OF I(3,4), of "i + 1"]
      by (auto simp: content_in_def less_Suc_eq)
  next
    case False
    then show ?thesis using prev i off' here by (auto simp: content_in_def)
  qed
  have aw': "drop o' (chunks sha data (drop i' m)) = sk_in (socks w1 (rr_sockfd rr)) @ rest"
    using off' F(2) chunks_drop [OF i, of sha data] by auto
  show ?thesis
    using inv st R(4) lb pop con aw' I(6)
    by (simp add: recv_follows_def recv_inv_def recv_stage_inv_def recv_awaits_def recv_left_def recv_inp_def
        recv_outp_def populated_def content_in_def chunk_in_def)
qed

lemma content_complete:
  assumes "populated sha data m rr" "content_in sha data m rr (length m) 0" "length data \<le> length (rr_app_buffer rr)"
  shows "take (length data) (rr_app_buffer rr) = data"
proof (rule everything_in [OF _ assms(3)])
  show "is_big data" using assms(1) by (simp add: populated_def fps_in_def)
  show "chunk_in sha data rr j" if "j < length (msg_fps sha data)" for j
    using assms(1,2) that by (cases "j \<in> set m") (auto simp: populated_def content_in_def in_set_conv_nth)
qed

lemma recv_content_loop_follows:
  assumes "recv_inv sha data m (rr, w)" "recv_awaits sha data m rr = recv_inp (rr, w) @ rest"
    and "rr_stage rr = RECV_MISSING_CONTENT"
    and "rs_cur_recv_content_ind (rr_state rr) = i" "rs_cur_recv_content_offset (rr_state rr) = off"
    and "n = length m - i"
  shows "rhandler_follows sha data m rest rr w (recv_missing_content_loop rr w i off n)"
  using assms
proof (induction n arbitrary: rr w i off)
  case 0
  have I: "populated sha data m rr" "content_in sha data m rr i off" "header_in data rr"
    "length data \<le> length (rr_app_buffer rr)"
    using 0 by (simp_all add: recv_inv_def recv_stage_inv_def)
  then have e: "i = length m" "off = 0" using 0(6) by (auto simp: content_in_def)
  have "take (length data) (rr_app_buffer rr) = data"
    using content_complete [OF I(1) _ I(4)] I(2) e by simp
  then show ?case using 0 e I(1,3) by (simp add: recv_follows_defs populated_def chunk_in_def)
next
  case (Suc n)
  have i: "i < length m" using Suc.prems(6) by simp
  have I: "populated sha data m rr" "is_big data" "m \<in> askable sha data" "fps_in sha data rr" "msg_ok sha data"
    "content_in sha data m rr i off"
    using Suc.prems by (simp_all add: recv_inv_def recv_stage_inv_def populated_def fps_in_def)
  let ?C = "chunk sha data (m ! i)" and ?p = "offset_of (msg_sizes sha data) (m ! i)"
  note E = populated_entry [OF I(1,5,3) i]
  obtain k bs w1 where s: "sock_recv (rr_sockfd rr) (length ?C - off) w = (k, bs, w1)" by (metis prod_cases3)
  let ?rr1 = "rr\<lparr>rr_app_buffer := bytes_put (?p + off) bs (rr_app_buffer rr),
      rr_app_filled_size := rr_app_filled_size rr + nat k\<rparr>"
  let ?to = "\<lambda>a b. ?rr1\<lparr>rr_recv_fingerprint_state := (rr_state rr)\<lparr>rs_cur_recv_content_ind := a, rs_cur_recv_content_offset := b\<rparr>\<rparr>"
  have run: "recv_missing_content_loop rr w i off (Suc n) =
      (if k = - 1 then (0, rr, w1\<lparr>errno := EAGAIN\<rparr>)
       else if k < int (length ?C - off) then (0, ?to i (off + nat k), w1)
       else recv_missing_content_loop (?to (i + 1) 0) w1 (i + 1) 0 n)"
    using s by (simp add: Let_def retry_on_error_0 E)
  show ?case
  proof (cases "k = - 1")
    case True
    then show ?thesis using rrecv_failed [OF Suc.prems(1,2)] s unfolding run by (simp add: rhandler_follows_def)
  next
    case False
    note R = sock_recv_read [OF s False]
    have ole: "off \<le> length ?C" using I(6) i by (simp add: content_in_def less_imp_le)
    note step = content_step [OF Suc.prems(1-5) i s False refl, where filled = "rr_app_filled_size rr + nat k"]
    show ?thesis
    proof (cases "k < int (length ?C - off)")
      case True
      then have "off + length bs < length ?C" using R(1) by simp
      with step [of i "off + length bs"] show ?thesis
        using False True R(1) unfolding run by (simp add: rhandler_follows_def)
    next
      case full: False
      then have "off + length bs = length ?C" using R(1,2) ole by simp
      with step [of "i + 1" 0] have f: "recv_follows sha data m rest (rr, w) (?to (i + 1) 0, w1)" by simp
      then have "rhandler_follows sha data m rest (?to (i + 1) 0) w1
          (recv_missing_content_loop (?to (i + 1) 0) w1 (i + 1) 0 n)"
        using Suc.prems(3,6) by (intro Suc.IH) (simp_all add: recv_follows_def)
      then have "rhandler_follows sha data m rest rr w (recv_missing_content_loop (?to (i + 1) 0) w1 (i + 1) 0 n)"
        using recv_follows_trans [OF f] by (auto simp: rhandler_follows_def)
      then show ?thesis using False full unfolding run by simp
    qed
  qed
qed

lemma recv_missing_content_follows:
  assumes inv: "recv_inv sha data m (rr, w)" and aw: "recv_awaits sha data m rr = recv_inp (rr, w) @ rest"
    and st: "rr_stage rr = RECV_MISSING_CONTENT"
  shows "rhandler_follows sha data m rest rr w (process_recv_missing_content rr w)"
proof -
  have "rs_num_missing_fingerprints (rr_state rr) = length m"
    using inv st by (simp add: recv_inv_def recv_stage_inv_def populated_def)
  then show ?thesis
    unfolding process_recv_missing_content_def Let_def
    by (intro recv_content_loop_follows [OF inv aw st refl refl]) simp
qed

lemma insert_inbound_follows:
  assumes inv: "recv_inv sha data m (rr, w)" and aw: "recv_awaits sha data m rr = recv_inp (rr, w) @ rest"
    and st: "rr_stage rr = INSERT_INBOUND_FINGERPRINTS"
  shows "rhandler_follows sha data m rest rr w (processs_insert_inbound_fingerprints rr w)"
proof -
  let ?x = "processs_insert_inbound_fingerprints rr w"
  have run: "?x = (fst ?x, rr, snd (snd ?x))" "fst ?x = 0 \<or> fst ?x = 1" "socks (snd (snd ?x)) = socks w"
    by (simp_all add: processs_insert_inbound_fingerprints_def Let_def split: prod.split)
  have "rhandler_follows sha data m rest rr w (fst ?x, rr, snd (snd ?x))"
    using run(2,3) inv aw st by (auto simp: recv_follows_defs)
  then show ?thesis by (simp only: run(1) [symmetric])
qed

section \<open>The stage loop\<close>

lemma recv_handler_follows:
  assumes "recv_inv sha data m (rr, w)" "recv_awaits sha data m rr = recv_inp (rr, w) @ rest"
    and "rr_stage rr \<noteq> POPULATE_FROM_NET_CACHE" "rr_stage rr \<noteq> RECV_COMPLETE"
  shows "rhandler_follows sha data m rest rr w (recv_handler (rr_stage rr) rr w)"
  using assms(3,4)
  by (cases "rr_stage rr")
    (simp_all add: recv_handler_def process_recv_header_follows [OF assms(1,2)]
      process_recv_reg_data_follows [OF assms(1,2)] process_recv_fingerprint_header_follows [OF assms(1,2)]
      process_recv_packaged_fingerprints_follows [OF assms(1,2)] send_missing_header_follows [OF assms(1,2)]
      send_missing_inds_follows [OF assms(1,2)] recv_missing_content_follows [OF assms(1,2)]
      insert_inbound_follows [OF assms(1,2)])

text \<open>Before the lookup.\<close>

definition undecided_stage :: "RecvReqStage \<Rightarrow> bool" where
  "undecided_stage s \<longleftrightarrow> s \<in> {RECV_HEADER, RECV_FINGERPRINT_HEADER, RECV_PACKAGED_FINGERPRINTS, POPULATE_FROM_NET_CACHE}"

lemma decided_next: "\<not> undecided_stage s \<Longrightarrow> \<not> undecided_stage (recv_next_stage s rr)"
  by (cases s) (auto simp: undecided_stage_def recv_next_stage_def)

lemma process_recv_step:
  assumes "process_recv rr w = (r, rr', w')" "rr_stage rr \<noteq> RECV_COMPLETE"
  obtains (go) rr1 w1 where "recv_handler (rr_stage rr) rr w = (1, rr1, w1)"
      "process_recv (rr1\<lparr>rr_stage := recv_next_stage (rr_stage rr) rr1\<rparr>) w1 = (r, rr', w')"
  | (wait) "recv_handler (rr_stage rr) rr w = (0, rr', w')" "rr_stage rr' = rr_stage rr"
proof -
  obtain c rr1 w1 where h: "recv_handler (rr_stage rr) rr w = (c, rr1, w1)" by (metis prod_cases3)
  have ok: "c = 0 \<or> c = 1" "same_receive rr rr1"
    using recv_handler_result [of rr "rr_stage rr" w] h by (auto simp: recv_handler_ok_def)
  show thesis
  proof (cases "c = 1")
    case True
    then show thesis using go [of rr1 w1] assms h by (subst (asm) process_recv.simps) simp
  next
    case False
    then show thesis using wait assms h ok by (subst (asm) process_recv.simps) (auto simp: same_receive_def)
  qed
qed

lemma process_recv_decided:
  assumes "process_recv rr w = (r, rr', w')" "no_split_recv rr'" "\<not> undecided_stage (rr_stage rr)"
    and "recv_inv sha data m (rr, w)" "recv_awaits sha data m rr = recv_inp (rr, w) @ rest"
  shows "\<not> undecided_stage (rr_stage rr') \<and> recv_follows sha data m rest (rr, w) (rr', w')"
  using assms
proof (induction "recv_rank (rr_stage rr)" arbitrary: rr w rule: less_induct)
  case less
  note prems = less.prems
  show ?case
  proof (cases "rr_stage rr = RECV_COMPLETE")
    case True
    then have "rr' = rr" "w' = w"
      using prems(1) by (simp_all add: process_recv.simps [of rr w] process_recv_complete_def)
    then show ?thesis using recv_follows_refl prems(3-5) by simp
  next
    case False
    have "rr_stage rr \<noteq> POPULATE_FROM_NET_CACHE" using prems(3) by (auto simp: undecided_stage_def)
    note F = recv_handler_follows [OF prems(4,5) this False]
    from prems(1) False show ?thesis
    proof (cases rule: process_recv_step)
      case (go rr1 w1)
      let ?rr2 = "rr1\<lparr>rr_stage := recv_next_stage (rr_stage rr) rr1\<rparr>"
      have step: "recv_follows sha data m rest (rr, w) (?rr2, w1)" using F go(1) by (simp add: rhandler_follows_def)
      have "\<not> undecided_stage (rr_stage rr') \<and> recv_follows sha data m rest (?rr2, w1) (rr', w')"
        using recv_rank_next [OF False] decided_next [OF prems(3)] step prems(2) go(2)
        by (intro less.hyps) (simp_all add: recv_follows_def)
      then show ?thesis using recv_follows_trans [OF step] by blast
    next
      case wait
      then show ?thesis using F prems(2,3) by (simp add: rhandler_follows_def)
    qed
  qed
qed

lemma nil_askable: "[] \<in> askable sha data"
  unfolding askable_def by (rule CollectI, rule exI [of _ "\<lambda>_. False"]) simp

lemma populate_continues: "fst (recv_handler POPULATE_FROM_NET_CACHE rr w) = 1"
  by (simp add: recv_handler_def process_populate_from_net_cache_def Let_def)

lemma process_recv_undecided:
  assumes "process_recv rr w = (r, rr', w')" "no_split_recv rr'" "undecided_stage (rr_stage rr)"
    and "\<And>m. m \<in> askable sha data \<Longrightarrow>
      recv_inv sha data m (rr, w) \<and> recv_awaits sha data m rr = recv_inp (rr, w) @ rests m"
  shows "if undecided_stage (rr_stage rr')
    then \<forall>m\<in>askable sha data. recv_follows sha data m (rests m) (rr, w) (rr', w')
    else \<exists>m\<in>askable sha data. recv_follows sha data m (rests m) (rr, w) (rr', w')"
  using assms
proof (induction "recv_rank (rr_stage rr)" arbitrary: rr w rule: less_induct)
  case less
  note prems = less.prems
  have nc: "rr_stage rr \<noteq> RECV_COMPLETE" using prems(3) by (auto simp: undecided_stage_def)
  have decided: ?case if p: "process_recv rr2 w1 = (r, rr', w')" "\<not> undecided_stage (rr_stage rr2)"
    and f: "m \<in> askable sha data" "recv_follows sha data m (rests m) (rr, w) (rr2, w1)" for m rr2 w1
  proof -
    have "\<not> undecided_stage (rr_stage rr') \<and> recv_follows sha data m (rests m) (rr2, w1) (rr', w')"
      using f(2) by (intro process_recv_decided [OF p(1) prems(2) p(2)]) (simp_all add: recv_follows_def)
    then show ?thesis using f(1) recv_follows_trans [OF f(2)] by auto
  qed
  from prems(1) nc show ?case
  proof (cases rule: process_recv_step)
    case (go rr1 w1)
    let ?rr2 = "rr1\<lparr>rr_stage := recv_next_stage (rr_stage rr) rr1\<rparr>"
    show ?thesis
    proof (cases "rr_stage rr = POPULATE_FROM_NET_CACHE")
      case True
      let ?m = "missing_now sha data w"
      have "rhandler_follows sha data ?m (rests ?m) rr w (process_populate_from_net_cache rr w)"
        using prems(4) [OF missing_now_askable] True by (intro populate_follows) auto
      then have "recv_follows sha data ?m (rests ?m) (rr, w) (?rr2, w1)"
        using go(1) True by (simp add: rhandler_follows_def recv_handler_def)
      moreover have "\<not> undecided_stage (rr_stage ?rr2)" using True by (simp add: undecided_stage_def recv_next_stage_def)
      ultimately show ?thesis using decided [OF go(2)] missing_now_askable by blast
    next
      case False
      have step: "recv_follows sha data m (rests m) (rr, w) (?rr2, w1)" if "m \<in> askable sha data" for m
        using recv_handler_follows [of sha data m rr w "rests m"] prems(4) [OF that] False nc go(1)
        by (simp add: rhandler_follows_def)
      show ?thesis
      proof (cases "undecided_stage (rr_stage ?rr2)")
        case True
        have "if undecided_stage (rr_stage rr')
          then \<forall>m\<in>askable sha data. recv_follows sha data m (rests m) (?rr2, w1) (rr', w')
          else \<exists>m\<in>askable sha data. recv_follows sha data m (rests m) (?rr2, w1) (rr', w')"
          using recv_rank_next [OF nc] step True prems(2) go(2)
          by (intro less.hyps) (simp_all add: recv_follows_def)
        then show ?thesis using recv_follows_trans [OF step]
          by (cases "undecided_stage (rr_stage rr')"; simp only: if_True if_False; blast)
      next
        case False
        then show ?thesis using decided [OF go(2) _ nil_askable step [OF nil_askable]] by simp
      qed
    qed
  next
    case wait
    have "rr_stage rr \<noteq> POPULATE_FROM_NET_CACHE" using wait(1) populate_continues [of rr w] by auto
    then have "recv_follows sha data m (rests m) (rr, w) (rr', w')" if "m \<in> askable sha data" for m
      using recv_handler_follows [of sha data m rr w "rests m"] prems(4) [OF that] nc wait(1) prems(2)
      by (simp add: rhandler_follows_def)
    then show ?thesis using wait(2) prems(3) by simp
  qed
qed

section \<open>The interface\<close>

definition recv_feed :: "u8 list \<Rightarrow> Dedup_Recv_Req \<times> World \<Rightarrow> Dedup_Recv_Req \<times> World" where
  "recv_feed bs s = (fst s, sock_feed (rr_sockfd (fst s)) bs (snd s))"

definition recv_drain :: "nat \<Rightarrow> Dedup_Recv_Req \<times> World \<Rightarrow> Dedup_Recv_Req \<times> World" where
  "recv_drain k s = (fst s, sock_drain (rr_sockfd (fst s)) k (snd s))"

text \<open>A call of \<open>process_recv\<close>, whatever the kernel answers, that splits neither header.\<close>

definition recv_poll :: "Dedup_Recv_Req \<times> World \<Rightarrow> Dedup_Recv_Req \<times> World \<Rightarrow> bool" where
  "recv_poll s s' \<longleftrightarrow>
     (\<exists>as r. process_recv (fst s) (sock_answer (rr_sockfd (fst s)) as (snd s)) = (r, fst s', snd s')) \<and>
     no_split_recv (fst s')"

definition recv_undecided :: "Dedup_Recv_Req \<times> World \<Rightarrow> bool" where
  "recv_undecided s \<longleftrightarrow> undecided_stage (rr_stage (fst s))"

interpretation recv_stream: stream_endpoint
  "recv_inv sha data" "\<lambda>m s. recv_left data m (fst s)" "\<lambda>m s. recv_awaits sha data m (fst s)"
  recv_inp recv_outp recv_feed recv_drain for sha data
  by unfold_locales (auto simp: recv_inv_def recv_stage_inv_def recv_inp_def recv_outp_def recv_feed_def recv_drain_def
    sock_feed_def sock_drain_def cong: RecvReqStage.case_cong)

lemma sock_answer_keeps:
  "recv_inv sha data m (fst s, sock_answer fd as (snd s)) = recv_inv sha data m s"
  "recv_inp (fst s, sock_answer fd as (snd s)) = recv_inp s"
  "recv_outp (fst s, sock_answer fd as (snd s)) = recv_outp s"
  by (simp_all add: recv_inv_def recv_stage_inv_def recv_inp_def recv_outp_def sock_answer_def
      cong: RecvReqStage.case_cong)

lemma recv_follows_answer:
  "recv_follows sha data m rest (fst s, sock_answer fd as (snd s)) s' = recv_stream.follows sha data m rest s s'"
  by (simp add: recv_follows_def recv_stream.follows_def sock_answer_keeps)

interpretation recv: choosing_endpoint
  "recv_inv sha data" "\<lambda>m s. recv_left data m (fst s)" "\<lambda>m s. recv_awaits sha data m (fst s)"
  recv_inp recv_outp recv_feed recv_drain recv_poll recv_undecided "askable sha data" for sha data
proof unfold_locales
  fix s s' :: "Dedup_Recv_Req \<times> World" and m rest and rests :: "nat list \<Rightarrow> u8 list"
  assume p: "recv_poll s s'"
  then obtain as r where run:
    "process_recv (fst s) (sock_answer (rr_sockfd (fst s)) as (snd s)) = (r, fst s', snd s')"
    "no_split_recv (fst s')"
    by (auto simp: recv_poll_def)
  note K = sock_answer_keeps [where s = s and fd = "rr_sockfd (fst s)" and as = as]
  show "\<not> recv_undecided s' \<and> recv_stream.follows sha data m rest s s'"
    if "\<not> recv_undecided s" "recv_inv sha data m s" "recv_awaits sha data m (fst s) = recv_inp s @ rest"
    using process_recv_decided [OF run, of sha data m rest] that K
    by (simp add: recv_undecided_def recv_follows_answer)
  show "if recv_undecided s' then \<forall>m\<in>askable sha data. recv_stream.follows sha data m (rests m) s s'
      else \<exists>m\<in>askable sha data. recv_stream.follows sha data m (rests m) s s'"
    if "recv_undecided s" "\<And>m. m \<in> askable sha data \<Longrightarrow>
      recv_inv sha data m s \<and> recv_awaits sha data m (fst s) = recv_inp s @ rests m"
    using process_recv_undecided [OF run, of sha data rests] that K
    by (simp add: recv_undecided_def recv_follows_answer cong: if_cong)
qed (simp_all add: recv_undecided_def recv_feed_def recv_drain_def)

end
