(* ===== verification/Progress.thy ===== *)
theory Progress
  imports RecvStream
begin

text \<open>
  When the two endpoints move: a request whose next transfer the kernel carries out gets on, either to
  a later stage or along one of its streams, unless it waits for bytes that have not arrived or for the
  lock of its cache. The two measures of what is left of a transfer decrease with every such call.
\<close>

section \<open>Calls only extend the output and consume the input\<close>

definition unlocked :: "World \<Rightarrow> bool" where
  "unlocked w \<longleftrightarrow> \<not> fc_cache_lock (global_fingerprint_cache w)"

definition moved :: "int \<Rightarrow> World \<Rightarrow> World \<Rightarrow> bool" where
  "moved fd w w' \<longleftrightarrow> (\<exists>x. sk_out (socks w' fd) = sk_out (socks w fd) @ x) \<and>
     (\<exists>y. sk_in (socks w fd) = y @ sk_in (socks w' fd)) \<and> (unlocked w \<longrightarrow> unlocked w')"

lemma moved_refl [simp]: "moved fd w w"
  by (simp add: moved_def)

lemma moved_trans: "moved fd w w1 \<Longrightarrow> moved fd w1 w2 \<Longrightarrow> moved fd w w2"
  unfolding moved_def by (metis append.assoc)

lemma moved_errno [simp]: "moved fd w (w1\<lparr>errno := e\<rparr>) = moved fd w w1"
  by (simp add: moved_def unlocked_def)

lemma moved_same: "socks w' fd = socks w fd \<Longrightarrow> (unlocked w \<Longrightarrow> unlocked w') \<Longrightarrow> moved fd w w'"
  by (simp add: moved_def)

lemma sock_send_moved: "sock_send fd bs w = (n, w1) \<Longrightarrow> moved fd w w1"
  by (auto simp: sock_send_def moved_def unlocked_def split: list.splits answer.splits)

lemma sock_recv_moved:
  assumes "sock_recv fd k w = (n, bs, w1)"
  shows "moved fd w w1"
proof (cases "n = - 1")
  case True
  then show ?thesis
    using assms by (auto simp: sock_recv_def Let_def moved_def unlocked_def split: list.splits answer.splits)
next
  case False
  then show ?thesis using sock_recv_read [OF assms] by (auto simp: moved_def unlocked_def)
qed

lemma insert_fingerprint_lock:
  "fc_cache_lock (fst (snd (insert_fingerprint c fp content r))) = fc_cache_lock c"
  by (simp add: insert_fingerprint_def insert_fingerprint_cache_def get_free_cache_pages_def Let_def split: prod.split)

lemma insert_outbound_moved: "moved fd w (snd (snd (process_insert_outbound_fingerprints sr w)))"
  by (intro moved_same)
    (simp_all add: process_insert_outbound_fingerprints_def Let_def unlocked_def split: prod.split)

lemma insert_inbound_moved: "moved fd w (snd (snd (processs_insert_inbound_fingerprints rr w)))"
  by (intro moved_same)
    (simp_all add: processs_insert_inbound_fingerprints_def Let_def unlocked_def split: prod.split)

section \<open>The sender\<close>

lemma send_content_loop_moved:
  "moved (sr_sockfd sr) w (snd (snd (send_missing_content_loop sr w i off n)))"
proof (induction n arbitrary: sr w i off)
  case (Suc n)
  show ?case
  proof (cases "sock_send (sr_sockfd sr)
      (bytes_at (ss_fingerprint_offsets (sr_state sr) ! sr_missing_ind sr i + off)
        (fp_content_size (ss_packaged_fingerprints (sr_state sr) ! sr_missing_ind sr i) - off) (sr_data sr)) w")
    case (Pair k w1)
    let ?sr1 = "sr\<lparr>sr_send_fingerprint_state := (sr_state sr)
                      \<lparr>ss_cur_reply_content_fingerprint_ind := i + 1,
                       ss_cur_reply_content_fingerprint_offset := 0\<rparr>\<rparr>"
    have "moved (sr_sockfd sr) w (snd (snd (send_missing_content_loop ?sr1 w1 (i + 1) 0 n)))"
      using moved_trans [OF sock_send_moved [OF Pair]] Suc.IH [of ?sr1 w1 "i + 1" 0] by simp
    then show ?thesis using Pair sock_send_moved [OF Pair] by (simp add: Let_def retry_on_error_0)
  qed
qed simp

lemma send_handler_moved:
  assumes "send_handler sha s sr w = Some (c, sr1, w1)"
  shows "moved (sr_sockfd sr) w w1"
proof -
  have "moved (sr_sockfd sr) w (snd (snd (f sr w)))"
    if "f \<in> {process_send_header, process_send_reg_data, process_send_fingerprint_header,
        process_send_packaged_fingerprints, process_recv_missing_fingerprint_header,
        process_recv_missing_fingerprints}" for f
    using that by (auto simp: send_handler_defs Let_def retry_on_error_0
      dest: sock_send_moved sock_recv_moved split: prod.splits)
  note H = this
  show ?thesis
    using assms H [of process_send_header] H [of process_send_reg_data] H [of process_send_fingerprint_header]
      H [of process_send_packaged_fingerprints] H [of process_recv_missing_fingerprint_header]
      H [of process_recv_missing_fingerprints] insert_outbound_moved [of "sr_sockfd sr" w sr]
      send_content_loop_moved [of sr w "ss_cur_reply_content_fingerprint_ind (sr_state sr)"
        "ss_cur_reply_content_fingerprint_offset (sr_state sr)"
        "sr_num_missing sr - ss_cur_reply_content_fingerprint_ind (sr_state sr)"]
    by (cases s) (auto simp: send_handler_def process_compute_fingerprints_def
        process_send_missing_content_def Let_def)
qed

lemma process_send_moved:
  "process_send sha sr w = Some (r, sr', w') \<Longrightarrow> moved (sr_sockfd sr) w w'"
proof (induction sha sr w rule: process_send.induct)
  case (1 sha sr w)
  show ?case
  proof (cases "sr_stage sr = SEND_COMPLETE")
    case True
    then show ?thesis using 1(2) by (simp add: process_send.simps [of sha sr w])
  next
    case False
    then obtain c sr1 w1 where h: "send_handler sha (sr_stage sr) sr w = Some (c, sr1, w1)"
      using 1(2) by (subst (asm) process_send.simps) (auto split: option.splits prod.splits)
    have fd: "sr_sockfd sr1 = sr_sockfd sr" using send_handler_ok [OF h] by (simp add: handler_ok_def same_message_def)
    note M = send_handler_moved [OF h]
    show ?thesis
    proof (cases "c = 1")
      case True
      then have "moved (sr_sockfd sr1) w1 w'"
        using 1(1) [OF False h refl refl True] 1(2) False h by (simp add: process_send.simps [of sha sr w])
      then show ?thesis using moved_trans [OF M] fd by simp
    next
      case c: False
      then show ?thesis using 1(2) False h M by (auto simp: process_send.simps [of sha sr w] split: if_splits)
    qed
  qed
qed

text \<open>Without answers from the kernel, only the computing and inserting stages run.\<close>

lemma sock_send_idle: "sk_answers (socks w fd) = [] \<Longrightarrow> sock_send fd bs w = (- 1, w\<lparr>errno := EAGAIN\<rparr>)"
  by (simp add: sock_send_def)

lemma sock_recv_idle: "sk_answers (socks w fd) = [] \<Longrightarrow> sock_recv fd n w = (- 1, [], w\<lparr>errno := EAGAIN\<rparr>)"
  by (simp add: sock_recv_def)

lemma send_handler_idle:
  assumes "send_handler sha s sr w = Some (c, sr1, w1)" "sk_answers (socks w (sr_sockfd sr)) = []"
  shows "socks w1 = socks w" "no_split_header sr1 = no_split_header sr"
proof -
  have L: "snd (snd (send_missing_content_loop sr w i off n)) = w \<or>
      snd (snd (send_missing_content_loop sr w i off n)) = w\<lparr>errno := EAGAIN\<rparr>"
    "fst (snd (send_missing_content_loop sr w i off n)) = sr" for i off n
    using assms(2) by (cases n; simp add: Let_def sock_send_idle retry_on_error_0)+
  have "socks w1 = socks w \<and> no_split_header sr1 = no_split_header sr"
    using assms L [of "ss_cur_reply_content_fingerprint_ind (sr_state sr)"
        "ss_cur_reply_content_fingerprint_offset (sr_state sr)"
        "sr_num_missing sr - ss_cur_reply_content_fingerprint_ind (sr_state sr)"]
    by (cases s) (auto simp: send_handler_def send_handler_defs Let_def sock_send_idle sock_recv_idle retry_on_error_0
        process_compute_fingerprints_def process_insert_outbound_fingerprints_def process_send_missing_content_def
        process_send_complete_def no_split_header_def split: if_splits prod.splits)
  then show "socks w1 = socks w" "no_split_header sr1 = no_split_header sr" by simp_all
qed

lemma process_send_idle:
  "process_send sha sr w = Some (r, sr', w') \<Longrightarrow> sk_answers (socks w (sr_sockfd sr)) = [] \<Longrightarrow>
   socks w' = socks w \<and> no_split_header sr' = no_split_header sr"
proof (induction sha sr w rule: process_send.induct)
  case (1 sha sr w)
  show ?case
  proof (cases "sr_stage sr = SEND_COMPLETE")
    case True
    then show ?thesis using 1(2) by (simp add: process_send.simps [of sha sr w] process_send_complete_def)
  next
    case False
    then obtain c sr1 w1 where h: "send_handler sha (sr_stage sr) sr w = Some (c, sr1, w1)"
      using 1(2) by (subst (asm) process_send.simps) (auto split: option.splits prod.splits)
    have fd: "sr_sockfd sr1 = sr_sockfd sr" using send_handler_ok [OF h] by (simp add: handler_ok_def same_message_def)
    note I = send_handler_idle [OF h 1(3)]
    show ?thesis
    proof (cases "c = 1")
      case True
      then have "socks w' = socks w1 \<and> no_split_header sr' = no_split_header sr1"
        using 1(1) [OF False h refl refl True] 1(2,3) False h I fd
        by (simp add: process_send.simps [of sha sr w] no_split_header_def)
      then show ?thesis using I by simp
    next
      case c: False
      then show ?thesis using 1(2) False h I by (auto simp: process_send.simps [of sha sr w] split: if_splits)
    qed
  qed
qed

text \<open>One answer that moves as much as the call asks for.\<close>

lemma sock_send_all:
  assumes "sk_answers (socks w fd) = [Moves (length bs)]"
  obtains w1 where "sock_send fd bs w = (int (length bs), w1)" "sk_answers (socks w1 fd) = []"
    "sk_out (socks w1 fd) = sk_out (socks w fd) @ bs"
  using assms by (simp add: sock_send_def)

lemma sock_recv_all:
  assumes "sk_answers (socks w fd) = [Moves n]"
  obtains w1 where "sock_recv fd n w = (int (min n (length (sk_in (socks w fd)))), take n (sk_in (socks w fd)), w1)"
    "sk_answers (socks w1 fd) = []" "sk_in (socks w1 fd) = drop n (sk_in (socks w fd))"
proof -
  have "drop (min n (length (sk_in (socks w fd)))) (sk_in (socks w fd)) = drop n (sk_in (socks w fd))"
    by (cases "n \<le> length (sk_in (socks w fd))") simp_all
  then show thesis using assms that by (simp add: sock_recv_def Let_def min.commute)
qed

lemma answers_sock_answer [simp]: "sk_answers (socks (sock_answer fd as w) fd) = as"
  "sk_in (socks (sock_answer fd as w) x) = sk_in (socks w x)"
  "sk_out (socks (sock_answer fd as w) x) = sk_out (socks w x)"
  "global_fingerprint_cache (sock_answer fd as w) = global_fingerprint_cache w"
  "to_skip_insert_cache (sock_answer fd as w) = to_skip_insert_cache w"
  by (simp_all add: sock_answer_def)

text \<open>What the sender waits for is there.\<close>

definition send_ready :: "u8 list \<Rightarrow> nat list \<Rightarrow> Dedup_Send_Req \<times> World \<Rightarrow> bool" where
  "send_ready data m s \<longleftrightarrow> sr_stage (fst s) \<noteq> SEND_COMPLETE \<and> unlocked (snd s) \<and>
     (sr_stage (fst s) \<in> {RECV_MISSING_FINGERPRINT_HEADER, RECV_MISSING_FINGERPRINTS} \<longrightarrow>
        send_inp s \<noteq> [] \<or> send_awaits data m (fst s) = [])"

text \<open>A handler that gets its answer finishes its stage or moves one of the streams.\<close>

definition goes :: "int \<Rightarrow> World \<Rightarrow> int \<Rightarrow> World \<Rightarrow> bool" where
  "goes fd w c w1 \<longleftrightarrow> sk_answers (socks w1 fd) = [] \<and>
     (c = 1 \<or> sk_out (socks w1 fd) \<noteq> sk_out (socks w fd) \<or> sk_in (socks w1 fd) \<noteq> sk_in (socks w fd))"

lemma goesI: "sk_answers (socks w1 fd) = [] \<Longrightarrow> c = 1 \<Longrightarrow> goes fd w c w1"
  by (simp add: goes_def)

lemma send_header_goes:
  assumes "no_split_header sr"
  shows "\<exists>as sr1 w1. process_send_header sr (sock_answer (sr_sockfd sr) as w) = (1, sr1, w1) \<and>
    goes (sr_sockfd sr) w 1 w1 \<and> no_split_header sr1"
proof -
  let ?bs = "bytes_at 0 16 (send_req_image sr)"
  have l: "length ?bs = 16" by (simp add: send_req_image_def sizeof_General_Header_def)
  let ?w = "sock_answer (sr_sockfd sr) [Moves (length ?bs)] w"
  obtain w1 where "sock_send (sr_sockfd sr) ?bs ?w = (int (length ?bs), w1)" "sk_answers (socks w1 (sr_sockfd sr)) = []"
    using sock_send_all [of ?w "sr_sockfd sr" ?bs] by auto
  then show ?thesis
    using assms l by (intro exI [of _ "[Moves (length ?bs)]"])
      (auto simp: process_send_header_def Let_def no_split_header_def sizeof_General_Header_def goes_def)
qed

lemma send_reg_data_goes:
  assumes "no_split_header sr" "sr_offset sr \<le> sr_size sr" "length (sr_data sr) = sr_size sr"
  shows "\<exists>as sr1 w1. process_send_reg_data sr (sock_answer (sr_sockfd sr) as w) = (1, sr1, w1) \<and>
    goes (sr_sockfd sr) w 1 w1 \<and> no_split_header sr1"
proof (cases "sr_size sr = sr_offset sr")
  case True
  then show ?thesis
    using assms by (intro exI [of _ "[]"]) (auto simp: process_send_reg_data_def goes_def)
next
  case False
  let ?bs = "bytes_at (sr_offset sr) (sr_size sr - sr_offset sr) (sr_data sr)"
  let ?w = "sock_answer (sr_sockfd sr) [Moves (length ?bs)] w"
  have l: "length ?bs = sr_size sr - sr_offset sr" using assms(3) by simp
  obtain w1 where "sock_send (sr_sockfd sr) ?bs ?w = (int (length ?bs), w1)" "sk_answers (socks w1 (sr_sockfd sr)) = []"
    using sock_send_all [of ?w "sr_sockfd sr" ?bs] by auto
  then show ?thesis
    using assms False l by (intro exI [of _ "[Moves (length ?bs)]"])
      (auto simp: process_send_reg_data_def Let_def no_split_header_def goes_def)
qed

lemma send_fingerprint_header_goes:
  assumes "no_split_header sr"
  shows "\<exists>as sr1 w1. process_send_fingerprint_header sr (sock_answer (sr_sockfd sr) as w) = (1, sr1, w1) \<and>
    goes (sr_sockfd sr) w 1 w1 \<and> no_split_header sr1"
proof -
  let ?bs = "bytes_at fingerprint_header_pos 8 (send_req_image sr)"
  have l: "length ?bs = 8" by (simp add: send_req_image_def sizeof_General_Header_def fingerprint_header_pos_def)
  let ?w = "sock_answer (sr_sockfd sr) [Moves (length ?bs)] w"
  obtain w1 where "sock_send (sr_sockfd sr) ?bs ?w = (int (length ?bs), w1)" "sk_answers (socks w1 (sr_sockfd sr)) = []"
    using sock_send_all [of ?w "sr_sockfd sr" ?bs] by auto
  then show ?thesis
    using assms l by (intro exI [of _ "[Moves (length ?bs)]"])
      (auto simp: process_send_fingerprint_header_def Let_def no_split_header_def sizeof_Fingerprint_Header_def goes_def)
qed

lemma send_packaged_goes:
  assumes "no_split_header sr" "ss_packaged_fingerprints_size_bytes (sr_state sr) \<le>
      length (concat (map fingerprint_image (ss_packaged_fingerprints (sr_state sr))))"
  shows "\<exists>as sr1 w1. process_send_packaged_fingerprints sr (sock_answer (sr_sockfd sr) as w) = (1, sr1, w1) \<and>
    goes (sr_sockfd sr) w 1 w1 \<and> no_split_header sr1"
proof -
  let ?off = "ss_send_fingerprint_offset (sr_state sr)"
  let ?n = "ss_packaged_fingerprints_size_bytes (sr_state sr) - ?off"
  let ?bs = "bytes_at ?off ?n (concat (map fingerprint_image (ss_packaged_fingerprints (sr_state sr))))"
  have l: "length ?bs = ?n" using assms(2) by simp
  let ?w = "sock_answer (sr_sockfd sr) [Moves (length ?bs)] w"
  obtain w1 where "sock_send (sr_sockfd sr) ?bs ?w = (int (length ?bs), w1)" "sk_answers (socks w1 (sr_sockfd sr)) = []"
    using sock_send_all [of ?w "sr_sockfd sr" ?bs] by auto
  then show ?thesis
    using assms(1) l by (intro exI [of _ "[Moves (length ?bs)]"])
      (simp add: process_send_packaged_fingerprints_def Let_def goes_def)
qed

lemma recv_missing_header_goes:
  assumes "no_split_header sr" "ss_missing_fingerprint_header_offset (sr_state sr) < 8 \<Longrightarrow> sk_in (socks w (sr_sockfd sr)) \<noteq> []"
  shows "\<exists>as c sr1 w1. process_recv_missing_fingerprint_header sr (sock_answer (sr_sockfd sr) as w) = (c, sr1, w1) \<and>
    goes (sr_sockfd sr) w c w1 \<and> no_split_header sr1"
proof -
  let ?fd = "sr_sockfd sr"
  let ?n = "8 - ss_missing_fingerprint_header_offset (sr_state sr)"
  let ?w = "sock_answer ?fd [Moves ?n] w"
  obtain w1 where s: "sock_recv ?fd ?n ?w = (int (min ?n (length (sk_in (socks w ?fd)))), take ?n (sk_in (socks w ?fd)), w1)"
    "sk_answers (socks w1 ?fd) = []" "sk_in (socks w1 ?fd) = drop ?n (sk_in (socks w ?fd))"
    using sock_recv_all [of ?w ?fd ?n] by auto
  have ch: "sk_in (socks w1 ?fd) \<noteq> sk_in (socks w ?fd)" if "length (sk_in (socks w ?fd)) < ?n"
  proof
    assume "sk_in (socks w1 ?fd) = sk_in (socks w ?fd)"
    then have "length (drop ?n (sk_in (socks w ?fd))) = length (sk_in (socks w ?fd))" using s(3) by simp
    then show False using that assms(2) by simp
  qed
  show ?thesis
    using assms(1) s ch
    by (intro exI [of _ "[Moves ?n]"])
      (auto simp: process_recv_missing_fingerprint_header_def Let_def no_split_header_def goes_def
        sizeof_Missing_Fingerprint_Header_def)
qed

lemma recv_missing_inds_goes:
  assumes "no_split_header sr"
    and "ss_recv_missing_fingerprint_inds_offset (sr_state sr) < (sr_num_missing sr * 8) mod 2 ^ 64 \<Longrightarrow>
      sk_in (socks w (sr_sockfd sr)) \<noteq> []"
  shows "\<exists>as c sr1 w1. process_recv_missing_fingerprints sr (sock_answer (sr_sockfd sr) as w) = (c, sr1, w1) \<and>
    goes (sr_sockfd sr) w c w1 \<and> no_split_header sr1"
proof -
  let ?fd = "sr_sockfd sr"
  let ?n = "(sr_num_missing sr * 8) mod 2 ^ 64 - ss_recv_missing_fingerprint_inds_offset (sr_state sr)"
  let ?w = "sock_answer ?fd [Moves ?n] w"
  obtain w1 where s: "sock_recv ?fd ?n ?w = (int (min ?n (length (sk_in (socks w ?fd)))), take ?n (sk_in (socks w ?fd)), w1)"
    "sk_answers (socks w1 ?fd) = []" "sk_in (socks w1 ?fd) = drop ?n (sk_in (socks w ?fd))"
    using sock_recv_all [of ?w ?fd ?n] by auto
  have ch: "sk_in (socks w1 ?fd) \<noteq> sk_in (socks w ?fd)" if "length (sk_in (socks w ?fd)) < ?n"
  proof
    assume "sk_in (socks w1 ?fd) = sk_in (socks w ?fd)"
    then have "length (drop ?n (sk_in (socks w ?fd))) = length (sk_in (socks w ?fd))" using s(3) by simp
    then show False using that assms(2) by simp
  qed
  show ?thesis
    using assms(1) s ch
    by (intro exI [of _ "[Moves ?n]"])
      (auto simp: process_recv_missing_fingerprints_def Let_def no_split_header_def goes_def)
qed

lemma send_content_goes:
  assumes inv: "send_inv sha data m (sr, w)" and st: "sr_stage sr = SEND_MISSING_CONTENT"
  shows "\<exists>as c sr1 w1. process_send_missing_content sr (sock_answer (sr_sockfd sr) as w) = (c, sr1, w1) \<and>
    goes (sr_sockfd sr) w c w1 \<and> no_split_header sr1"
proof -
  let ?fd = "sr_sockfd sr" and ?i = "ss_cur_reply_content_fingerprint_ind (sr_state sr)"
  let ?off = "ss_cur_reply_content_fingerprint_offset (sr_state sr)"
  have I: "computed sha data sr" "m \<in> askable sha data" "msg_ok sha data" "sr_num_missing sr = length m"
    "take (8 * length m) (ss_missing_fingerprint_inds (sr_state sr)) = inds_image m" "sr_data sr = data"
    "?i \<le> length m" "no_split_header sr" "?i < length m \<Longrightarrow> ?off < length (chunk sha data (m ! ?i))"
    using inv st by (simp_all add: send_inv_def send_stage_inv_def no_split_header_def)
  show ?thesis
  proof (cases "?i = length m")
    case True
    then show ?thesis using I(4,8)
      by (intro exI [of _ "[]"]) (simp add: process_send_missing_content_def Let_def goes_def)
  next
    case False
    then have i: "?i < length m" using I(7) by simp
    note rc = reply_content [OF I(1-3) i I(5)]
    let ?d = "drop ?off (chunk sha data (m ! ?i))"
    let ?w = "sock_answer ?fd [Moves (length ?d)] w"
    obtain w1 where s: "sock_send ?fd ?d ?w = (int (length ?d), w1)" "sk_answers (socks w1 ?fd) = []"
      "sk_out (socks w1 ?fd) = sk_out (socks w ?fd) @ ?d"
      using sock_send_all [of ?w ?fd ?d] by auto
    obtain n where n: "sr_num_missing sr - ?i = Suc n" using i I(4) by (metis Suc_diff_Suc)
    let ?srn = "sr\<lparr>sr_send_fingerprint_state := (sr_state sr)
      \<lparr>ss_cur_reply_content_fingerprint_ind := ?i + 1, ss_cur_reply_content_fingerprint_offset := 0\<rparr>\<rparr>"
    have run: "process_send_missing_content sr ?w = send_missing_content_loop ?srn w1 (?i + 1) 0 n"
      unfolding process_send_missing_content_def Let_def n send_missing_content_loop.simps rc(1,2) I(6) rc(3)
      using s(1) by simp
    obtain c sr1 w2 where res: "send_missing_content_loop ?srn w1 (?i + 1) 0 n = (c, sr1, w2)" by (metis prod_cases3)
    have idle: "socks w2 = socks w1 \<and> no_split_header sr1"
      using res I(8) s(2) by (cases n) (auto simp: Let_def sock_send_idle retry_on_error_0 no_split_header_def)
    have "?d \<noteq> []" using I(9) i by simp
    then show ?thesis
      using run res idle s(2,3) by (intro exI [of _ "[Moves (length ?d)]"]) (auto simp: goes_def)
  qed
qed

lemma computed_room:
  assumes "computed sha data sr" "msg_ok sha data"
  shows "ss_packaged_fingerprints_size_bytes (sr_state sr)
    \<le> length (concat (map fingerprint_image (ss_packaged_fingerprints (sr_state sr))))"
proof -
  let ?fps = "msg_fps sha data" and ?pk = "ss_packaged_fingerprints (sr_state sr)"
  have c: "is_big data" "take (length ?fps) ?pk = ?fps"
    "ss_packaged_fingerprints_size_bytes (sr_state sr) = sizeof_Fingerprint * length ?fps"
    using assms(1) by (simp_all add: computed_def)
  have "?pk = ?fps @ drop (length ?fps) ?pk" using c(2) by (metis append_take_drop_id)
  then have "length (concat (map fingerprint_image ?pk)) =
      length (packaged_image sha data) + length (concat (map fingerprint_image (drop (length ?fps) ?pk)))"
    by (metis concat_append length_append map_append packaged_image_def)
  then show ?thesis using length_packaged_image [OF assms(2) c(1)] c(3) by simp
qed

text \<open>A sender that is ready goes.\<close>

lemma send_handler_goes:
  assumes inv: "send_inv sha data m (sr, w)" and rd: "send_ready data m (sr, w)"
    and set: "chunk_bounds (world_settings w)"
  shows "\<exists>as c sr1 w1. send_handler sha (sr_stage sr) sr (sock_answer (sr_sockfd sr) as w) = Some (c, sr1, w1) \<and>
    goes (sr_sockfd sr) w c w1 \<and> no_split_header sr1"
proof -
  have ns: "no_split_header sr" using inv by (simp add: send_inv_def no_split_header_def)
  show ?thesis
  proof (cases "sr_stage sr")
    case SEND_HEADER
    then show ?thesis using send_header_goes [OF ns, of w] by (auto simp: send_handler_def)
  next
    case SEND_REG_DATA
    then show ?thesis
      using send_reg_data_goes [OF ns, of w] inv by (auto simp: send_handler_def send_inv_def send_stage_inv_def)
  next
    case COMPUTE_FINGERPRINTS
    let ?w = "sock_answer (sr_sockfd sr) [] w"
    have "world_settings ?w = world_settings w" by simp
    then obtain c sr1 w1 where h: "send_handler sha (sr_stage sr) sr ?w = Some (c, sr1, w1)"
      using send_handler_returns [of ?w sha "sr_stage sr" sr] set by (metis prod_cases3)
    moreover have "c = 1" using h COMPUTE_FINGERPRINTS
      by (auto simp: send_handler_def process_compute_fingerprints_def)
    ultimately show ?thesis
      using send_handler_idle [OF h] ns by (intro exI [of _ "[]"]) (auto simp: goes_def)
  next
    case INSERT_OUTBOUND_FINGERPRINTS
    let ?w = "sock_answer (sr_sockfd sr) [] w"
    obtain c sr1 w1 where h: "send_handler sha (sr_stage sr) sr ?w = Some (c, sr1, w1)"
      using INSERT_OUTBOUND_FINGERPRINTS by (simp add: send_handler_def) (metis prod_cases3)
    moreover have "c = 1" using h INSERT_OUTBOUND_FINGERPRINTS rd
      by (auto simp: send_handler_def process_insert_outbound_fingerprints_def send_ready_def unlocked_def Let_def
          split: if_splits prod.splits)
    ultimately show ?thesis
      using send_handler_idle [OF h] ns by (intro exI [of _ "[]"]) (auto simp: goes_def)
  next
    case SEND_FINGERPRINT_HEADER
    then show ?thesis using send_fingerprint_header_goes [OF ns, of w] by (auto simp: send_handler_def)
  next
    case SEND_PACKAGED_FINGERPRINTS
    then have "computed sha data sr" "msg_ok sha data" using inv by (simp_all add: send_inv_def send_stage_inv_def)
    then show ?thesis
      using send_packaged_goes [OF ns computed_room, of sha data w] SEND_PACKAGED_FINGERPRINTS
      by (auto simp: send_handler_def)
  next
    case RECV_MISSING_FINGERPRINT_HEADER
    then have "sk_in (socks w (sr_sockfd sr)) \<noteq> []" if "ss_missing_fingerprint_header_offset (sr_state sr) < 8"
      using rd that by (auto simp: send_ready_def send_awaits_def send_inp_def)
    then show ?thesis
      using recv_missing_header_goes [OF ns, of w] RECV_MISSING_FINGERPRINT_HEADER by (auto simp: send_handler_def)
  next
    case RECV_MISSING_FINGERPRINTS
    then have "sk_in (socks w (sr_sockfd sr)) \<noteq> []"
      if "ss_recv_missing_fingerprint_inds_offset (sr_state sr) < (sr_num_missing sr * 8) mod 2 ^ 64"
    proof -
      have "sr_num_missing sr = length m" using inv RECV_MISSING_FINGERPRINTS
        by (simp add: send_inv_def send_stage_inv_def)
      moreover have "(length m * 8) mod 2 ^ 64 \<le> length m * 8" by simp
      ultimately show ?thesis
        using rd that RECV_MISSING_FINGERPRINTS by (auto simp: send_ready_def send_awaits_def send_inp_def)
    qed
    then show ?thesis
      using recv_missing_inds_goes [OF ns, of w] RECV_MISSING_FINGERPRINTS by (auto simp: send_handler_def)
  next
    case SEND_MISSING_CONTENT
    then show ?thesis using send_content_goes [OF inv] by (auto simp: send_handler_def)
  next
    case SEND_COMPLETE
    then show ?thesis using rd by (simp add: send_ready_def)
  qed
qed

definition send_measure :: "(u8 list \<Rightarrow> u8 list) \<Rightarrow> u8 list \<Rightarrow> nat list \<Rightarrow> Dedup_Send_Req \<times> World \<Rightarrow> nat" where
  "send_measure sha data m s =
     send_rank (sr_stage (fst s)) + length (send_left sha data m (fst s)) + length (send_awaits data m (fst s))"

text \<open>Along a step that follows the script, the streams account for the measure.\<close>

lemma follows_lengths:
  assumes "out' @ left' = out @ left" "aw = inp @ rest" "aw' = inp' @ rest"
    and "out' = out @ x" "inp = y @ (inp' :: 'a list)"
  shows "length left' + length x = length (left :: 'b list)" "length aw' + length y = length aw"
  using assms by auto

lemma send_poll_moves:
  assumes inv: "send_inv sha data m s" and aw: "send_awaits data m (fst s) = send_inp s @ rest"
    and rd: "send_ready data m s" and set: "chunk_bounds (world_settings (snd s))"
  obtains s' where "send_poll sha s s'" "send_measure sha data m s' < send_measure sha data m s"
    "unlocked (snd s')" "world_settings (snd s') = world_settings (snd s)"
proof -
  obtain sr w where s: "s = (sr, w)" by (cases s)
  let ?fd = "sr_sockfd sr"
  obtain as c sr1 w1 where h: "send_handler sha (sr_stage sr) sr (sock_answer ?fd as w) = Some (c, sr1, w1)"
    and g: "goes ?fd w c w1" "no_split_header sr1"
    using send_handler_goes [of sha data m sr w] inv rd set unfolding s by auto
  let ?w = "sock_answer ?fd as w"
  have nc: "sr_stage sr \<noteq> SEND_COMPLETE" using rd by (simp add: s send_ready_def)
  have ok: "c = 0 \<or> c = 1" "sr_stage sr1 = sr_stage sr" "sr_sockfd sr1 = ?fd"
    "world_settings w1 = world_settings w"
    using send_handler_ok [OF h] by (auto simp: handler_ok_def same_message_def)
  have "chunk_bounds (world_settings ?w)" using set by (simp add: s)
  from process_send_result [OF this, of sha sr] obtain r sr' w' where p: "process_send sha sr ?w = Some (r, sr', w')"
    "sr_sockfd sr' = ?fd" "world_settings w' = world_settings w"
    by auto
  have fin: "no_split_header sr' \<and> (send_rank (sr_stage sr') < send_rank (sr_stage sr) \<or>
      sk_out (socks w' ?fd) \<noteq> sk_out (socks w ?fd) \<or> sk_in (socks w' ?fd) \<noteq> sk_in (socks w ?fd)) \<and>
      send_rank (sr_stage sr') \<le> send_rank (sr_stage sr)"
  proof (cases "c = 1")
    case True
    let ?sr2 = "sr1\<lparr>sr_stage := send_next_stage (sr_stage sr) sr1\<rparr>"
    have p2: "process_send sha ?sr2 w1 = Some (r, sr', w')"
      using p(1) h nc True by (simp add: process_send.simps [of sha sr ?w])
    have "chunk_bounds (world_settings w1)" using set ok(4) by (simp add: s)
    from process_send_result [OF this, of sha ?sr2] p2
    have "send_rank (sr_stage sr') \<le> send_rank (sr_stage ?sr2)" by auto
    then have "send_rank (sr_stage sr') < send_rank (sr_stage sr)" using send_rank_next [OF nc, of sr1] by simp
    moreover have "no_split_header sr'"
      using process_send_idle [OF p2] g ok(3) by (simp add: goes_def no_split_header_def)
    ultimately show ?thesis by simp
  next
    case False
    then have "c = 0" using ok(1) by simp
    then have "sr' = sr1" "w' = w1" using p(1) h nc by (simp_all add: process_send.simps [of sha sr ?w])
    then show ?thesis using g ok(2) \<open>c = 0\<close> by (simp add: goes_def)
  qed
  have poll: "send_poll sha s (sr', w')"
    using p(1) fin by (auto simp: send_poll_def s)
  have fol: "send_follows sha data m rest (sr, ?w) (sr', w')"
    using process_send_follows [OF p(1), of data m rest] fin inv aw
    by (simp add: s send_inv_def send_stage_inv_def send_inp_def cong: SendReqStage.case_cong)
  have "moved ?fd ?w w'" using process_send_moved [OF p(1)] .
  moreover have "unlocked ?w" using rd by (simp add: send_ready_def s unlocked_def)
  ultimately obtain x y where xy: "sk_out (socks w' ?fd) = sk_out (socks w ?fd) @ x"
    "sk_in (socks w ?fd) = y @ sk_in (socks w' ?fd)" "unlocked w'"
    unfolding moved_def answers_sock_answer by blast
  have F: "send_outp (sr', w') @ send_left sha data m sr' = send_outp (sr, w) @ send_left sha data m sr"
    "send_awaits data m sr' = send_inp (sr', w') @ rest"
    using fol by (simp_all add: send_follows_def send_outp_def)
  have X: "send_outp (sr', w') = send_outp (sr, w) @ x" "send_inp (sr, w) = y @ send_inp (sr', w')"
    using xy p(2) by (simp_all add: send_outp_def send_inp_def)
  note L = follows_lengths [OF F(1) aw [unfolded s fst_conv] F(2) X]
  have "0 < length x \<or> 0 < length y \<or> send_rank (sr_stage sr') < send_rank (sr_stage sr)"
    using fin xy(1,2) by (cases x; cases y) simp_all
  then have "send_measure sha data m (sr', w') < send_measure sha data m s"
    using L fin unfolding send_measure_def s fst_conv by linarith
  then show thesis using that [OF poll] xy(3) p(3) by (simp add: s)
qed

section \<open>The receiver\<close>

lemma recv_content_loop_moved:
  "moved (rr_sockfd rr) w (snd (snd (recv_missing_content_loop rr w i off n)))"
proof (induction n arbitrary: rr w i off)
  case (Suc n)
  let ?rem = "fp_content_size (rr_packaged_fingerprint rr (rs_missing_fingerprint_inds (rr_state rr) ! i)) - off"
  obtain k bs w1 where r: "sock_recv (rr_sockfd rr) ?rem w = (k, bs, w1)" by (metis prod_cases3)
  let ?rr1 = "rr\<lparr>rr_app_buffer := bytes_put (rs_missing_fingerprint_slots (rr_state rr) ! i + off) bs (rr_app_buffer rr),
      rr_app_filled_size := rr_app_filled_size rr + nat k,
      rr_recv_fingerprint_state := (rr_state rr)\<lparr>rs_cur_recv_content_ind := i + 1, rs_cur_recv_content_offset := 0\<rparr>\<rparr>"
  have "moved (rr_sockfd rr) w (snd (snd (recv_missing_content_loop ?rr1 w1 (i + 1) 0 n)))"
    using moved_trans [OF sock_recv_moved [OF r]] Suc.IH [of ?rr1 w1 "i + 1" 0] by simp
  then show ?case using r sock_recv_moved [OF r] by (simp add: Let_def retry_on_error_0)
qed simp

lemma recv_handler_moved:
  assumes "recv_handler s rr w = (c, rr1, w1)"
  shows "moved (rr_sockfd rr) w w1"
proof -
  have H: "moved (rr_sockfd rr) w (snd (snd (f rr w)))"
    if "f \<in> {process_recv_header, process_recv_reg_data, process_recv_fingerprint_header,
        process_recv_packaged_fingerprints, process_send_missing_fingerprint_header,
        process_send_missing_fingerprints}" for f
    using that by (auto simp: recv_handler_defs Let_def retry_on_error_0
      dest: sock_send_moved sock_recv_moved split: prod.splits)
  have P: "moved (rr_sockfd rr) w (snd (snd (process_populate_from_net_cache rr w)))"
    by (intro moved_same) (simp_all add: process_populate_from_net_cache_def Let_def unlocked_def)
  show ?thesis
    using assms H [of process_recv_header] H [of process_recv_reg_data] H [of process_recv_fingerprint_header]
      H [of process_recv_packaged_fingerprints] H [of process_send_missing_fingerprint_header]
      H [of process_send_missing_fingerprints] insert_inbound_moved [of "rr_sockfd rr" w rr] P
      recv_content_loop_moved [of rr w "rs_cur_recv_content_ind (rr_state rr)"
        "rs_cur_recv_content_offset (rr_state rr)"
        "rs_num_missing_fingerprints (rr_state rr) - rs_cur_recv_content_ind (rr_state rr)"]
    by (cases s) (auto simp: recv_handler_def process_recv_missing_content_def Let_def)
qed

lemma process_recv_moved:
  "process_recv rr w = (r, rr', w') \<Longrightarrow> moved (rr_sockfd rr) w w'"
proof (induction "recv_rank (rr_stage rr)" arbitrary: rr w rule: less_induct)
  case less
  show ?case
  proof (cases "rr_stage rr = RECV_COMPLETE")
    case True
    then show ?thesis using less.prems by (simp add: process_recv.simps [of rr w])
  next
    case False
    from less.prems False show ?thesis
    proof (cases rule: process_recv_step)
      case (go rr1 w1)
      let ?rr2 = "rr1\<lparr>rr_stage := recv_next_stage (rr_stage rr) rr1\<rparr>"
      have "rr_sockfd rr1 = rr_sockfd rr"
        using recv_handler_result [of rr "rr_stage rr" w] go(1) by (simp add: recv_handler_ok_def same_receive_def)
      then have "moved (rr_sockfd rr) w1 w'"
        using less.hyps [of ?rr2 w1] recv_rank_next [OF False, of rr1] go(2) by simp
      then show ?thesis using moved_trans [OF recv_handler_moved [OF go(1)]] by simp
    next
      case wait
      then show ?thesis using recv_handler_moved by blast
    qed
  qed
qed

lemma recv_handler_idle:
  assumes "recv_handler s rr w = (c, rr1, w1)" "sk_answers (socks w (rr_sockfd rr)) = []"
  shows "socks w1 = socks w" "no_split_recv rr1 = no_split_recv rr"
proof -
  have L: "snd (snd (recv_missing_content_loop rr w i off n)) = w \<or>
      snd (snd (recv_missing_content_loop rr w i off n)) = w\<lparr>errno := EAGAIN\<rparr>"
    "fst (snd (recv_missing_content_loop rr w i off n)) = rr" for i off n
    using assms(2) by (cases n; simp add: Let_def sock_recv_idle retry_on_error_0)+
  have "socks w1 = socks w \<and> no_split_recv rr1 = no_split_recv rr"
    using assms L [of "rs_cur_recv_content_ind (rr_state rr)" "rs_cur_recv_content_offset (rr_state rr)"
        "rs_num_missing_fingerprints (rr_state rr) - rs_cur_recv_content_ind (rr_state rr)"]
    by (cases s) (auto simp: recv_handler_def recv_handler_defs Let_def sock_send_idle sock_recv_idle retry_on_error_0
        process_recv_missing_content_def process_recv_complete_def split: if_splits prod.splits)
  then show "socks w1 = socks w" "no_split_recv rr1 = no_split_recv rr" by simp_all
qed

lemma process_recv_idle:
  "process_recv rr w = (r, rr', w') \<Longrightarrow> sk_answers (socks w (rr_sockfd rr)) = [] \<Longrightarrow>
   socks w' = socks w \<and> no_split_recv rr' = no_split_recv rr"
proof (induction "recv_rank (rr_stage rr)" arbitrary: rr w rule: less_induct)
  case less
  show ?case
  proof (cases "rr_stage rr = RECV_COMPLETE")
    case True
    then show ?thesis using less.prems(1) by (simp add: process_recv.simps [of rr w] process_recv_complete_def)
  next
    case False
    from less.prems(1) False show ?thesis
    proof (cases rule: process_recv_step)
      case (go rr1 w1)
      let ?rr2 = "rr1\<lparr>rr_stage := recv_next_stage (rr_stage rr) rr1\<rparr>"
      have "rr_sockfd rr1 = rr_sockfd rr"
        using recv_handler_result [of rr "rr_stage rr" w] go(1) by (simp add: recv_handler_ok_def same_receive_def)
      then have "socks w' = socks w1 \<and> no_split_recv rr' = no_split_recv rr1"
        using less.hyps [of ?rr2 w1] recv_rank_next [OF False, of rr1] go(2)
          recv_handler_idle [OF go(1) less.prems(2)] less.prems(2) by simp
      then show ?thesis using recv_handler_idle [OF go(1) less.prems(2)] by simp
    next
      case wait
      then show ?thesis using recv_handler_idle [OF _ less.prems(2)] by blast
    qed
  qed
qed

text \<open>What the receiver waits for is there; the two headers in one piece.\<close>

definition recv_ready :: "(u8 list \<Rightarrow> u8 list) \<Rightarrow> u8 list \<Rightarrow> nat list \<Rightarrow> Dedup_Recv_Req \<times> World \<Rightarrow> bool" where
  "recv_ready sha data m s \<longleftrightarrow> unlocked (snd s) \<and>
     (case rr_stage (fst s) of
        RECV_HEADER \<Rightarrow> 16 \<le> length (recv_inp s)
      | RECV_FINGERPRINT_HEADER \<Rightarrow> 8 \<le> length (recv_inp s)
      | RECV_PACKAGED_FINGERPRINTS \<Rightarrow>
          recv_inp s \<noteq> [] \<or> rs_recv_fingerprint_offset (rr_state (fst s)) = length (packaged_image sha data)
      | RECV_REG_DATA \<Rightarrow> recv_inp s \<noteq> [] \<or> recv_awaits sha data m (fst s) = []
      | RECV_MISSING_CONTENT \<Rightarrow> recv_inp s \<noteq> [] \<or> recv_awaits sha data m (fst s) = []
      | RECV_COMPLETE \<Rightarrow> False
      | _ \<Rightarrow> True)"

lemma recv_stuck: "xs \<noteq> [] \<Longrightarrow> length xs < n \<Longrightarrow> drop n xs \<noteq> xs"
  by simp

text \<open>A read that gets everything there is up to \<open>n\<close> bytes: all of them, or the input shrinks.\<close>

lemma recv_all_goes:
  assumes "n = 0 \<or> sk_in (socks w fd) \<noteq> []"
  obtains k bs w1 where "sock_recv fd n (sock_answer fd [Moves n] w) = (k, bs, w1)" "k \<noteq> - 1" "k = int (length bs)"
    "length bs \<le> n" "sk_answers (socks w1 fd) = []" "k < int n \<Longrightarrow> sk_in (socks w1 fd) \<noteq> sk_in (socks w fd)"
    "n \<le> length (sk_in (socks w fd)) \<Longrightarrow> k = int n"
proof -
  let ?in = "sk_in (socks w fd)"
  obtain w1 where s: "sock_recv fd n (sock_answer fd [Moves n] w) = (int (min n (length ?in)), take n ?in, w1)"
    "sk_answers (socks w1 fd) = []" "sk_in (socks w1 fd) = drop n ?in"
    using sock_recv_all [of "sock_answer fd [Moves n] w" fd n] by auto
  have "drop n ?in \<noteq> ?in" if "length ?in < n" using assms that recv_stuck by auto
  then show thesis using s by (intro that [OF s(1)]) (simp_all add: min.commute)
qed

lemma recv_header_goes:
  assumes inv: "recv_inv sha data m (rr, w)" and rd: "16 \<le> length (sk_in (socks w (rr_sockfd rr)))"
  shows "\<exists>as c rr1 w1. process_recv_header rr (sock_answer (rr_sockfd rr) as w) = (c, rr1, w1) \<and>
    goes (rr_sockfd rr) w c w1 \<and> no_split_recv rr1"
proof -
  have I: "no_split_recv rr" "length (rr_mem rr) = rr_mem_size" using inv by (simp_all add: recv_inv_def)
  have "16 = (0::nat) \<or> sk_in (socks w (rr_sockfd rr)) \<noteq> []" using rd by auto
  then obtain k bs w1 where s: "sock_recv (rr_sockfd rr) 16 (sock_answer (rr_sockfd rr) [Moves 16] w) = (k, bs, w1)"
    "k = int (length bs)" "sk_answers (socks w1 (rr_sockfd rr)) = []" "k = 16"
    by (rule recv_all_goes) (use rd in auto)
  have "no_split_recv (rr\<lparr>rr_mem := bytes_put 0 bs (rr_mem rr)\<rparr>)"
    using counters_kept [of 0 bs rr] s(2,4) I by (simp add: rr_mem_size_eq)
  then show ?thesis
    using s I(1) by (intro exI [of _ "[Moves 16]"])
      (simp add: process_recv_header_def Let_def no_split_recv_def sizeof_General_Header_def u64_sub_def goes_def)
qed

lemma recv_fingerprint_header_goes:
  assumes inv: "recv_inv sha data m (rr, w)" and rd: "8 \<le> length (sk_in (socks w (rr_sockfd rr)))"
  shows "\<exists>as c rr1 w1. process_recv_fingerprint_header rr (sock_answer (rr_sockfd rr) as w) = (c, rr1, w1) \<and>
    goes (rr_sockfd rr) w c w1 \<and> no_split_recv rr1"
proof -
  have I: "no_split_recv rr" "length (rr_mem rr) = rr_mem_size" using inv by (simp_all add: recv_inv_def)
  have "8 = (0::nat) \<or> sk_in (socks w (rr_sockfd rr)) \<noteq> []" using rd by auto
  then obtain k bs w1 where s: "sock_recv (rr_sockfd rr) 8 (sock_answer (rr_sockfd rr) [Moves 8] w) = (k, bs, w1)"
    "k = int (length bs)" "sk_answers (socks w1 (rr_sockfd rr)) = []" "k = 8"
    by (rule recv_all_goes) (use rd in auto)
  have "no_split_recv (rr\<lparr>rr_mem := bytes_put 24 bs (rr_mem rr)\<rparr>)"
    using counters_kept [of 24 bs rr] s(2,4) I by (simp add: rr_mem_size_eq)
  moreover have "rr_recv_fingerprint_header_offset rr = 0" using I(1) by (simp add: no_split_recv_def)
  ultimately show ?thesis
    using s by (intro exI [of _ "[Moves 8]"])
      (simp add: process_recv_fingerprint_header_def Let_def sizeof_Fingerprint_Header_def u64_sub_def goes_def)
qed

lemma recv_packaged_goes:
  assumes inv: "recv_inv sha data m (rr, w)" and st: "rr_stage rr = RECV_PACKAGED_FINGERPRINTS"
    and rd: "rs_recv_fingerprint_offset (rr_state rr) = length (packaged_image sha data) \<or> sk_in (socks w (rr_sockfd rr)) \<noteq> []"
  shows "\<exists>as c rr1 w1. process_recv_packaged_fingerprints rr (sock_answer (rr_sockfd rr) as w) = (c, rr1, w1) \<and>
    goes (rr_sockfd rr) w c w1 \<and> no_split_recv rr1"
proof -
  let ?P = "packaged_image sha data" and ?off = "rs_recv_fingerprint_offset (rr_state rr)"
  have I: "no_split_recv rr" "length (rr_mem rr) = rr_mem_size" "?off \<le> length ?P" "msg_ok sha data" "is_big data"
    "rs_packaged_fingerprints_size_bytes (rr_state rr) = length ?P"
    using inv st by (simp_all add: recv_inv_def recv_stage_inv_def)
  have lP: "packaged_pos + length ?P \<le> rr_mem_size"
    using I(4,5) length_packaged_image [OF I(4,5)] by (simp add: msg_ok_def rr_mem_size_def)
  let ?n = "length ?P - ?off"
  have "?n = 0 \<or> sk_in (socks w (rr_sockfd rr)) \<noteq> []" using rd by auto
  then obtain k bs w1 where s: "sock_recv (rr_sockfd rr) ?n (sock_answer (rr_sockfd rr) [Moves ?n] w) = (k, bs, w1)"
    "k \<noteq> - 1" "length bs \<le> ?n" "sk_answers (socks w1 (rr_sockfd rr)) = []"
    "k < int ?n \<Longrightarrow> sk_in (socks w1 (rr_sockfd rr)) \<noteq> sk_in (socks w (rr_sockfd rr))"
    by (rule recv_all_goes) auto
  have "no_split_recv (rr\<lparr>rr_mem := bytes_put (packaged_pos + ?off) bs (rr_mem rr)\<rparr>)"
    using counters_kept [of "packaged_pos + ?off" bs rr] s(3) I(1-3) lP by (simp add: packaged_pos_def)
  then show ?thesis
    using s I(1,6) by (intro exI [of _ "[Moves ?n]"]) (simp add: process_recv_packaged_fingerprints_def Let_def goes_def)
qed

lemma recv_reg_data_goes:
  assumes inv: "recv_inv sha data m (rr, w)" and st: "rr_stage rr = RECV_REG_DATA"
    and rd: "recv_awaits sha data m rr = [] \<or> sk_in (socks w (rr_sockfd rr)) \<noteq> []"
  shows "\<exists>as c rr1 w1. process_recv_reg_data rr (sock_answer (rr_sockfd rr) as w) = (c, rr1, w1) \<and>
    goes (rr_sockfd rr) w c w1 \<and> no_split_recv rr1"
proof -
  let ?off = "rr_app_offset rr" and ?n = "length data - rr_app_offset rr"
  have I: "no_split_recv rr" "header_in data rr" "?off \<le> length data" "length (rr_mem rr) = rr_mem_size" "msg_ok sha data"
    using inv st by (simp_all add: recv_inv_def recv_stage_inv_def)
  have cs: "rr_content_size rr = length data"
    using header_in_fields [OF I(2) _ I(4)] I(5) by (simp add: msg_ok_def)
  show ?thesis
  proof (cases "?n = 0")
    case True
    then show ?thesis using I(1) cs by (intro exI [of _ "[]"]) (simp add: process_recv_reg_data_def goes_def)
  next
    case False
    then have "?n = 0 \<or> sk_in (socks w (rr_sockfd rr)) \<noteq> []" using rd st by (auto simp: recv_awaits_def)
    then obtain k bs w1 where s: "sock_recv (rr_sockfd rr) ?n (sock_answer (rr_sockfd rr) [Moves ?n] w) = (k, bs, w1)"
      "k \<noteq> - 1" "k = int (length bs)" "length bs \<le> ?n" "sk_answers (socks w1 (rr_sockfd rr)) = []"
      "k < int ?n \<Longrightarrow> sk_in (socks w1 (rr_sockfd rr)) \<noteq> sk_in (socks w (rr_sockfd rr))"
      by (rule recv_all_goes) auto
    have "sk_in (socks w1 (rr_sockfd rr)) \<noteq> sk_in (socks w (rr_sockfd rr))" if "?off + length bs < length data"
      using that s(3,6) by simp
    then show ?thesis
      using s(1-5) I(1) cs False
      by (intro exI [of _ "[Moves ?n]"]) (auto simp: process_recv_reg_data_def Let_def goes_def)
  qed
qed

lemma send_missing_header_goes:
  assumes ns: "no_split_recv rr"
  shows "\<exists>as c rr1 w1. process_send_missing_fingerprint_header rr (sock_answer (rr_sockfd rr) as w) = (c, rr1, w1) \<and>
    goes (rr_sockfd rr) w c w1 \<and> no_split_recv rr1"
proof -
  let ?off = "rs_missing_fingerprint_header_offset (rr_state rr)"
  let ?bs = "bytes_at ?off (8 - ?off) (le_bytes 8 (rs_num_missing_fingerprints (rr_state rr)))"
  let ?w = "sock_answer (rr_sockfd rr) [Moves (length ?bs)] w"
  have l: "length ?bs = 8 - ?off" by simp
  obtain w1 where "sock_send (rr_sockfd rr) ?bs ?w = (int (length ?bs), w1)" "sk_answers (socks w1 (rr_sockfd rr)) = []"
    using sock_send_all [of ?w "rr_sockfd rr" ?bs] by auto
  then show ?thesis
    using ns l by (intro exI [of _ "[Moves (length ?bs)]"])
      (auto simp: process_send_missing_fingerprint_header_def Let_def sizeof_Missing_Fingerprint_Header_def goes_def)
qed

lemma send_missing_inds_goes:
  assumes inv: "recv_inv sha data m (rr, w)" and st: "rr_stage rr = SEND_MISSING_FINGERPRINTS"
  shows "\<exists>as c rr1 w1. process_send_missing_fingerprints rr (sock_answer (rr_sockfd rr) as w) = (c, rr1, w1) \<and>
    goes (rr_sockfd rr) w c w1 \<and> no_split_recv rr1"
proof -
  let ?off = "rs_send_missing_fingerprint_inds_offset (rr_state rr)"
  let ?inds = "rs_missing_fingerprint_inds (rr_state rr)"
  have I: "no_split_recv rr" "rs_num_missing_fingerprints (rr_state rr) = length m" "length m \<le> length ?inds"
  proof -
    have "populated sha data m rr" "length ?inds = MAX_FINGERPRINTS_PER_REQ" "no_split_recv rr" "msg_ok sha data"
      "m \<in> askable sha data"
      using inv st by (simp_all add: recv_inv_def recv_stage_inv_def)
    then show "no_split_recv rr" "rs_num_missing_fingerprints (rr_state rr) = length m" "length m \<le> length ?inds"
      using askableD(2) [of m sha data] by (auto simp: populated_def fps_in_def msg_ok_def)
  qed
  let ?all = "concat (map (le_bytes 8) ?inds)"
  let ?n = "(length m * 8) mod 2 ^ 64 - ?off"
  let ?bs = "bytes_at ?off ?n ?all"
  let ?w = "sock_answer (rr_sockfd rr) [Moves (length ?bs)] w"
  have "length ?all = 8 * length ?inds" by (rule length_concat_const) simp
  moreover have "(length m * 8) mod 2 ^ 64 \<le> length m * 8" by simp
  ultimately have l: "length ?bs = ?n" using I(3) by simp
  obtain w1 where "sock_send (rr_sockfd rr) ?bs ?w = (int (length ?bs), w1)" "sk_answers (socks w1 (rr_sockfd rr)) = []"
    using sock_send_all [of ?w "rr_sockfd rr" ?bs] by auto
  then show ?thesis
    using I(1,2) l by (intro exI [of _ "[Moves (length ?bs)]"])
      (simp add: process_send_missing_fingerprints_def Let_def goes_def)
qed

lemma recv_content_goes:
  assumes inv: "recv_inv sha data m (rr, w)" and st: "rr_stage rr = RECV_MISSING_CONTENT"
    and rd: "recv_awaits sha data m rr = [] \<or> sk_in (socks w (rr_sockfd rr)) \<noteq> []"
  shows "\<exists>as c rr1 w1. process_recv_missing_content rr (sock_answer (rr_sockfd rr) as w) = (c, rr1, w1) \<and>
    goes (rr_sockfd rr) w c w1 \<and> no_split_recv rr1"
proof -
  let ?fd = "rr_sockfd rr" and ?i = "rs_cur_recv_content_ind (rr_state rr)"
  let ?off = "rs_cur_recv_content_offset (rr_state rr)"
  have I: "populated sha data m rr" "content_in sha data m rr ?i ?off" "no_split_recv rr" "m \<in> askable sha data"
    "is_big data" "rs_num_missing_fingerprints (rr_state rr) = length m" "fps_in sha data rr" "msg_ok sha data"
    using inv st by (simp_all add: recv_inv_def recv_stage_inv_def populated_def fps_in_def)
  show ?thesis
  proof (cases "?i = length m")
    case True
    then show ?thesis using I(3,6)
      by (intro exI [of _ "[]"]) (simp add: process_recv_missing_content_def Let_def goes_def)
  next
    case False
    then have i: "?i < length m" "?off < length (chunk sha data (m ! ?i))" using I(2) by (auto simp: content_in_def)
    let ?n = "length (chunk sha data (m ! ?i)) - ?off"
    have "recv_awaits sha data m rr \<noteq> []"
      using i(2) st chunks_drop [OF i(1), of sha data] by (simp add: recv_awaits_def)
    then have "?n = 0 \<or> sk_in (socks w ?fd) \<noteq> []" using rd by simp
    then obtain k bs w1 where s: "sock_recv ?fd ?n (sock_answer ?fd [Moves ?n] w) = (k, bs, w1)"
      "k \<noteq> - 1" "k = int (length bs)" "sk_answers (socks w1 ?fd) = []"
      "k < int ?n \<Longrightarrow> sk_in (socks w1 ?fd) \<noteq> sk_in (socks w ?fd)"
      by (rule recv_all_goes) auto
    note E = populated_entry [OF I(1,8,4) i(1)]
    obtain n where n: "rs_num_missing_fingerprints (rr_state rr) - ?i = Suc n" using i(1) I(6) by (metis Suc_diff_Suc)
    let ?rr1 = "rr\<lparr>rr_app_buffer := bytes_put (rs_missing_fingerprint_slots (rr_state rr) ! ?i + ?off) bs (rr_app_buffer rr),
      rr_app_filled_size := rr_app_filled_size rr + nat k,
      rr_recv_fingerprint_state := (rr_state rr)\<lparr>rs_cur_recv_content_ind := ?i + 1, rs_cur_recv_content_offset := 0\<rparr>\<rparr>"
    obtain c rr1 w2 where res: "recv_missing_content_loop ?rr1 w1 (?i + 1) 0 n = (c, rr1, w2)" by (metis prod_cases3)
    have idle: "socks w2 = socks w1 \<and> no_split_recv rr1"
      using res I(3) s(4) by (cases n) (auto simp: Let_def sock_recv_idle retry_on_error_0)
    have ch: "sk_in (socks w1 ?fd) \<noteq> sk_in (socks w ?fd)"
    proof (cases "k = int ?n")
      case True
      then have "bs \<noteq> []" using s(3) i(2) by auto
      then show ?thesis using sock_recv_read(3) [OF s(1,2)] by auto
    next
      case False
      then show ?thesis using s(5) sock_recv_read(1,2) [OF s(1,2)] by simp
    qed
    show ?thesis
    proof (cases "k < int ?n")
      case True
      have "\<exists>rr0. process_recv_missing_content rr (sock_answer ?fd [Moves ?n] w) = (0, rr0, w1) \<and> no_split_recv rr0"
        unfolding process_recv_missing_content_def Let_def n recv_missing_content_loop.simps E(2,4,5)
        using s(1,2) True I(3) by simp
      then show ?thesis using s(4) ch by (auto simp: goes_def)
    next
      case False
      have "process_recv_missing_content rr (sock_answer ?fd [Moves ?n] w) = (c, rr1, w2)"
        unfolding process_recv_missing_content_def Let_def n recv_missing_content_loop.simps E(2,4,5)
        using s(1,2) False res by simp
      then show ?thesis using s(4) ch idle by (intro exI [of _ "[Moves ?n]"]) (auto simp: goes_def)
    qed
  qed
qed

text \<open>A receiver that is ready goes.\<close>

lemma recv_handler_goes:
  assumes inv: "recv_inv sha data m (rr, w)" and rd: "recv_ready sha data m (rr, w)"
  shows "\<exists>as c rr1 w1. recv_handler (rr_stage rr) rr (sock_answer (rr_sockfd rr) as w) = (c, rr1, w1) \<and>
    goes (rr_sockfd rr) w c w1 \<and> no_split_recv rr1"
proof -
  have ns: "no_split_recv rr" using inv by (simp add: recv_inv_def)
  show ?thesis
  proof (cases "rr_stage rr")
    case RECV_HEADER
    then show ?thesis using recv_header_goes [OF inv] rd by (simp add: recv_handler_def recv_ready_def recv_inp_def)
  next
    case RECV_REG_DATA
    then show ?thesis using recv_reg_data_goes [OF inv] rd by (auto simp: recv_handler_def recv_ready_def recv_inp_def)
  next
    case RECV_FINGERPRINT_HEADER
    then show ?thesis
      using recv_fingerprint_header_goes [OF inv] rd by (simp add: recv_handler_def recv_ready_def recv_inp_def)
  next
    case RECV_PACKAGED_FINGERPRINTS
    then show ?thesis using recv_packaged_goes [OF inv] rd by (auto simp: recv_handler_def recv_ready_def recv_inp_def)
  next
    case POPULATE_FROM_NET_CACHE
    then show ?thesis using ns
      by (intro exI [of _ "[]"]) (simp add: recv_handler_def process_populate_from_net_cache_def Let_def goes_def)
  next
    case SEND_MISSING_FINGERPRINT_HEADER
    then show ?thesis using send_missing_header_goes [OF ns] by (simp add: recv_handler_def)
  next
    case SEND_MISSING_FINGERPRINTS
    then show ?thesis using send_missing_inds_goes [OF inv] by (simp add: recv_handler_def)
  next
    case RECV_MISSING_CONTENT
    then show ?thesis using recv_content_goes [OF inv] rd by (auto simp: recv_handler_def recv_ready_def recv_inp_def)
  next
    case INSERT_INBOUND_FINGERPRINTS
    let ?w = "sock_answer (rr_sockfd rr) [] w"
    obtain c rr1 w1 where h: "recv_handler (rr_stage rr) rr ?w = (c, rr1, w1)" by (metis prod_cases3)
    moreover have "c = 1" using h INSERT_INBOUND_FINGERPRINTS rd
      by (auto simp: recv_handler_def processs_insert_inbound_fingerprints_def recv_ready_def unlocked_def Let_def
          split: if_splits prod.splits)
    ultimately show ?thesis
      using recv_handler_idle [OF h] ns by (intro exI [of _ "[]"]) (auto simp: goes_def)
  next
    case RECV_COMPLETE
    then show ?thesis using rd by (simp add: recv_ready_def)
  qed
qed

text \<open>The call such a receiver makes.\<close>

lemma recv_goes:
  assumes inv: "recv_inv sha data m s" and rd: "recv_ready sha data m s"
  obtains s' x y where "recv_poll s s'" "recv_rank (rr_stage (fst s')) \<le> recv_rank (rr_stage (fst s))"
    "recv_outp s' = recv_outp s @ x" "recv_inp s = y @ recv_inp s'" "unlocked (snd s')"
    "0 < length x \<or> 0 < length y \<or> recv_rank (rr_stage (fst s')) < recv_rank (rr_stage (fst s))"
proof -
  obtain rr w where s: "s = (rr, w)" by (cases s)
  let ?fd = "rr_sockfd rr"
  obtain as c rr1 w1 where h: "recv_handler (rr_stage rr) rr (sock_answer ?fd as w) = (c, rr1, w1)"
    and g: "goes ?fd w c w1" "no_split_recv rr1"
    using recv_handler_goes [of sha data m rr w] inv rd unfolding s by auto
  let ?w = "sock_answer ?fd as w"
  have nc: "rr_stage rr \<noteq> RECV_COMPLETE" using rd by (auto simp: s recv_ready_def)
  have ok: "c = 0 \<or> c = 1" "rr_stage rr1 = rr_stage rr" "rr_sockfd rr1 = ?fd"
    using recv_handler_result [of rr "rr_stage rr" ?w] h by (auto simp: recv_handler_ok_def same_receive_def)
  obtain r rr' w' where p: "process_recv rr ?w = (r, rr', w')" "rr_sockfd rr' = ?fd"
    using process_recv_result [of rr ?w] by auto
  have fin: "no_split_recv rr' \<and> (recv_rank (rr_stage rr') < recv_rank (rr_stage rr) \<or>
      sk_out (socks w' ?fd) \<noteq> sk_out (socks w ?fd) \<or> sk_in (socks w' ?fd) \<noteq> sk_in (socks w ?fd)) \<and>
      recv_rank (rr_stage rr') \<le> recv_rank (rr_stage rr)"
  proof (cases "c = 1")
    case True
    let ?rr2 = "rr1\<lparr>rr_stage := recv_next_stage (rr_stage rr) rr1\<rparr>"
    have p2: "process_recv ?rr2 w1 = (r, rr', w')"
      using p(1) h nc True by (simp add: process_recv.simps [of rr ?w])
    then have "recv_rank (rr_stage rr') \<le> recv_rank (rr_stage ?rr2)"
      using process_recv_result [of ?rr2 w1] by auto
    then have "recv_rank (rr_stage rr') < recv_rank (rr_stage rr)" using recv_rank_next [OF nc, of rr1] by simp
    moreover have "no_split_recv rr'"
      using process_recv_idle [OF p2] g ok(3) by (simp add: goes_def)
    ultimately show ?thesis by simp
  next
    case False
    then have "c = 0" using ok(1) by simp
    then have "rr' = rr1" "w' = w1" using p(1) h nc by (simp_all add: process_recv.simps [of rr ?w])
    then show ?thesis using g ok(2) \<open>c = 0\<close> by (simp add: goes_def)
  qed
  have poll: "recv_poll s (rr', w')" using p(1) fin by (auto simp: recv_poll_def s)
  have "moved ?fd ?w w'" using process_recv_moved [OF p(1)] .
  moreover have "unlocked ?w" using rd by (simp add: recv_ready_def s unlocked_def)
  ultimately obtain x y where xy: "sk_out (socks w' ?fd) = sk_out (socks w ?fd) @ x"
    "sk_in (socks w ?fd) = y @ sk_in (socks w' ?fd)" "unlocked w'"
    unfolding moved_def answers_sock_answer by blast
  have "0 < length x \<or> 0 < length y \<or> recv_rank (rr_stage rr') < recv_rank (rr_stage rr)"
    using fin xy(1,2) by (cases x; cases y) simp_all
  then show thesis using that [OF poll] xy fin p(2) by (simp add: s recv_outp_def recv_inp_def)
qed

definition recv_measure :: "(u8 list \<Rightarrow> u8 list) \<Rightarrow> u8 list \<Rightarrow> nat list \<Rightarrow> Dedup_Recv_Req \<times> World \<Rightarrow> nat" where
  "recv_measure sha data m s =
     recv_rank (rr_stage (fst s)) + length (recv_left data m (fst s)) + length (recv_awaits sha data m (fst s))"

lemma recv_measure_moves:
  assumes "recv_follows sha data m rest s s'" "recv_awaits sha data m (fst s) = recv_inp s @ rest"
    and "recv_rank (rr_stage (fst s')) \<le> recv_rank (rr_stage (fst s))"
    and "recv_outp s' = recv_outp s @ x" "recv_inp s = y @ recv_inp s'"
    and "0 < length x \<or> 0 < length y \<or> recv_rank (rr_stage (fst s')) < recv_rank (rr_stage (fst s))"
  shows "recv_measure sha data m s' < recv_measure sha data m s"
proof -
  have F: "recv_outp s' @ recv_left data m (fst s') = recv_outp s @ recv_left data m (fst s)"
    "recv_awaits sha data m (fst s') = recv_inp s' @ rest"
    using assms(1) by (simp_all add: recv_follows_def)
  note L = follows_lengths [OF F(1) assms(2) F(2) assms(4,5)]
  show ?thesis using L assms(3,6) unfolding recv_measure_def by linarith
qed

end
