(* ===== verification/Protocol.thy ===== *)
theory Protocol
  imports Progress
begin

text \<open>
  A send request and the receive request it talks to, each in its own process, joined by the two
  directions of a connection. A step is a call of \<open>process_send\<close> or \<open>process_recv\<close> with arbitrary
  answers of the kernel, the arrival of any number of bytes in either direction, or a change of a process
  by its other requests. The safety of a transfer and the absence of dead ends follow from the
  interpretation of \<open>stream_link\<close> on the two models.
\<close>

section \<open>The composed system\<close>

interpretation link: stream_link
  "send_inv sha data" "\<lambda>m s. send_left sha data m (fst s)" "\<lambda>m s. send_awaits data m (fst s)"
  send_inp send_outp send_feed send_drain "send_poll sha"
  "recv_inv sha data" "\<lambda>m s. recv_left data m (fst s)" "\<lambda>m s. recv_awaits sha data m (fst s)"
  recv_inp recv_outp recv_feed recv_drain recv_poll recv_undecided "askable sha data" for sha data
  by unfold_locales

text \<open>What the other requests of a process may do to it: they neither use the socket nor change the
  chunking settings, and they leave in the receiver's cache, under the digests of the message, nothing
  but its chunks.\<close>

definition others_of_sender :: "Dedup_Send_Req \<Rightarrow> World \<Rightarrow> World \<Rightarrow> bool" where
  "others_of_sender sr w w' \<longleftrightarrow> socks w' (sr_sockfd sr) = socks w (sr_sockfd sr) \<and>
     world_settings w' = world_settings w"

definition others_of_receiver ::
  "(u8 list \<Rightarrow> u8 list) \<Rightarrow> u8 list \<Rightarrow> Dedup_Recv_Req \<Rightarrow> World \<Rightarrow> World \<Rightarrow> bool" where
  "others_of_receiver sha data rr w w' \<longleftrightarrow> socks w' (rr_sockfd rr) = socks w (rr_sockfd rr) \<and>
     (cache_agrees sha data (global_fingerprint_cache w) \<longrightarrow> cache_agrees sha data (global_fingerprint_cache w'))"

inductive link_step ::
  "(u8 list \<Rightarrow> u8 list) \<Rightarrow> u8 list \<Rightarrow>
   (Dedup_Send_Req \<times> World) \<times> (Dedup_Recv_Req \<times> World) \<Rightarrow>
   (Dedup_Send_Req \<times> World) \<times> (Dedup_Recv_Req \<times> World) \<Rightarrow> bool"
  for sha data where
  sender_runs: "send_poll sha s s' \<Longrightarrow> link_step sha data (s, r) (s', r)"
| receiver_runs: "recv_poll r r' \<Longrightarrow> link_step sha data (s, r) (s, r')"
| data_arrive: "link_step sha data (s, r) (send_drain k s, recv_feed (take k (send_outp s)) r)"
| reply_arrives: "link_step sha data (s, r) (send_feed (take k (recv_outp r)) s, recv_drain k r)"
| sender_process: "others_of_sender (fst s) (snd s) w' \<Longrightarrow> link_step sha data (s, r) ((fst s, w'), r)"
| receiver_process:
    "others_of_receiver sha data (fst r) (snd r) w' \<Longrightarrow> link_step sha data (s, r) (s, (fst r, w'))"

text \<open>A message posted on both sides of an idle connection. The receiver's buffer is large enough.\<close>

definition link_start ::
  "(u8 list \<Rightarrow> u8 list) \<Rightarrow> u8 list \<Rightarrow> (Dedup_Send_Req \<times> World) \<times> (Dedup_Recv_Req \<times> World) \<Rightarrow> bool" where
  "link_start sha data x \<longleftrightarrow>
     (case x of ((sr, ws), (rr, wr)) \<Rightarrow>
        msg_ok sha data \<and>
        (\<exists>fd. sr = posted_send_req fd data (int (length data))) \<and>
        (\<exists>fd buf sz. rr = posted_recv_req fd buf sz \<and> length data \<le> length buf) \<and>
        sk_in (socks ws (sr_sockfd sr)) = [] \<and> sk_out (socks ws (sr_sockfd sr)) = [] \<and>
        sk_in (socks wr (rr_sockfd rr)) = [] \<and> sk_out (socks wr (rr_sockfd rr)) = [] \<and>
        world_settings ws = fingerprint_cache_settings \<and>
        cache_agrees sha data (global_fingerprint_cache wr))"

section \<open>The invariant of the connection\<close>

lemma bytes_at_replicate: "pos + n \<le> k \<Longrightarrow> bytes_at pos n (replicate k x) = replicate n x"
  by (simp add: bytes_at_def)

lemma le_value_zeros: "le_value (replicate n 0) = 0"
  by (induction n) auto

lemma start_linked:
  assumes "link_start sha data (s, r)"
  shows "link.linked sha data s r"
proof -
  obtain sr ws rr wr fd fd' buf sz where x: "s = (sr, ws)" "r = (rr, wr)"
    "sr = posted_send_req fd data (int (length data))" "rr = posted_recv_req fd' buf sz" "length data \<le> length buf"
    and ok: "msg_ok sha data" "world_settings ws = fingerprint_cache_settings"
    "cache_agrees sha data (global_fingerprint_cache wr)"
    and pipes: "sk_in (socks ws (sr_sockfd sr)) = []" "sk_out (socks ws (sr_sockfd sr)) = []"
    "sk_in (socks wr (rr_sockfd rr)) = []" "sk_out (socks wr (rr_sockfd rr)) = []"
    using assms unfolding link_start_def by (cases s; cases r) auto
  have len: "nat (int (length data) mod 2 ^ 64) = length data"
    using ok(1) by (simp add: msg_ok_def)
  have "no_split_recv rr"
    unfolding x(4) posted_recv_req_def zero_recv_req_def
    by (simp add: no_split_recv_def rr_recv_header_offset_def rr_recv_fingerprint_header_offset_def mem_int_def
        bytes_at_replicate rr_mem_size_eq le_value_zeros)
  then have R: "recv_inv sha data m r" "recv_awaits sha data m rr = header_image (wire_header data) @ msg_body sha data m"
    "recv_left data m rr = msg_reply data m" if "m \<in> askable sha data" for m
    using that ok x(5) unfolding x(2,4) posted_recv_req_def zero_recv_req_def
    by (simp_all add: recv_inv_def recv_stage_inv_def recv_awaits_def recv_left_def)
  have S: "send_inv sha data m s" "send_awaits data m sr = msg_reply data m"
    "send_left sha data m sr = header_image (wire_header data) @ msg_body sha data m" if "m \<in> askable sha data" for m
    using that ok unfolding x(1,3) posted_send_req_def zero_send_req_def len
    by (simp_all add: send_inv_def send_stage_inv_def send_awaits_def send_left_def wire_header_def is_big_def)
  have "recv_undecided r"
    unfolding x(2,4) by (simp add: recv_undecided_def undecided_stage_def posted_recv_req_def)
  then show ?thesis
    using R S pipes unfolding link.linked_def link.agree_def
    by (simp add: x(1,2) send_inp_def send_outp_def recv_inp_def recv_outp_def)
qed

lemma link_step_linked:
  assumes "link_step sha data (s, r) (s', r')" "link.linked sha data s r"
  shows "link.linked sha data s' r'"
  using assms(1)
proof (cases rule: link_step.cases)
  case sender_runs
  then show ?thesis using link.linked_poll_S assms(2) by blast
next
  case receiver_runs
  then show ?thesis using link.linked_poll_R assms(2) by blast
next
  case (data_arrive k)
  then show ?thesis using link.linked_deliver(1) assms(2) by blast
next
  case (reply_arrives k)
  then show ?thesis using link.linked_deliver(2) assms(2) by blast
next
  case (sender_process w')
  have "send_inv sha data m (fst s, w')" if "send_inv sha data m s" for m
    using that sender_process(3) by (simp add: send_inv_def send_stage_inv_def others_of_sender_def cong: SendReqStage.case_cong)
  then show ?thesis
    using sender_process assms(2)
    by (auto intro!: link.linked_env_S [OF assms(2)] simp: send_inp_def send_outp_def others_of_sender_def)
next
  case (receiver_process w')
  have "recv_inv sha data m (fst r, w')" if "recv_inv sha data m r" for m
    using that receiver_process(3)
    by (auto simp: recv_inv_def recv_stage_inv_def others_of_receiver_def split: RecvReqStage.splits)
  then show ?thesis
    using receiver_process assms(2)
    by (auto intro!: link.linked_env_R [OF assms(2)]
        simp: recv_inp_def recv_outp_def recv_undecided_def others_of_receiver_def)
qed

lemma reach_linked:
  assumes "(link_step sha data)\<^sup>*\<^sup>* x y" "link_start sha data x"
  shows "link.linked sha data (fst y) (snd y)"
  using assms
proof (induction rule: rtranclp_induct)
  case base
  then show ?case using start_linked by (metis prod.collapse)
next
  case (step y z)
  then show ?case using link_step_linked [of sha data "fst y" "snd y" "fst z" "snd z"] by simp
qed

lemma linked_agree:
  assumes "link.linked sha data s r"
  obtains m where "m \<in> askable sha data" "link.agree sha data m s r"
  using assms nil_askable unfolding link.linked_def by (auto split: if_splits)

section \<open>Safety\<close>

lemma complete_delivered:
  assumes "link.agree sha data m s r" "rr_stage (fst r) = RECV_COMPLETE"
  shows "take (length data) (rr_app_buffer (fst r)) = data \<and> rr_content_size (fst r) = length data"
proof -
  have "recv_inv sha data m r" using assms(1) by (simp add: link.agree_def)
  then have "header_in data (fst r)" "take (length data) (rr_app_buffer (fst r)) = data" "msg_ok sha data"
    "length (rr_mem (fst r)) = rr_mem_size"
    using assms(2) by (simp_all add: recv_inv_def recv_stage_inv_def)
  then show ?thesis using header_in_fields(2) by (simp add: msg_ok_def)
qed

lemma complete_quiet:
  assumes "link.agree sha data m s r" "rr_stage (fst r) = RECV_COMPLETE" "sr_stage (fst s) = SEND_COMPLETE"
  shows "send_inp s = [] \<and> send_outp s = [] \<and> recv_inp r = [] \<and> recv_outp r = []"
  using assms(1) [unfolded link.agree_def] assms(2,3)
  by (simp add: send_left_def send_awaits_def recv_left_def recv_awaits_def)

section \<open>No dead ends\<close>

lemma stopped_sender:
  assumes inv: "send_inv sha data m s" and u: "unlocked (snd s)" and nr: "\<not> send_ready data m s"
  shows "sr_stage (fst s) = SEND_COMPLETE \<or>
    is_big data \<and> send_left sha data m (fst s) = chunks sha data m \<and> send_inp s = [] \<and> send_awaits data m (fst s) \<noteq> []"
proof -
  have "sr_stage (fst s) = SEND_COMPLETE \<or>
      sr_stage (fst s) \<in> {RECV_MISSING_FINGERPRINT_HEADER, RECV_MISSING_FINGERPRINTS} \<and> send_inp s = [] \<and>
        send_awaits data m (fst s) \<noteq> []"
    using u nr by (auto simp: send_ready_def)
  then show ?thesis
    using inv by (auto simp: send_inv_def send_stage_inv_def computed_def send_left_def)
qed

text \<open>With everything delivered and both caches free, one of the two can move.\<close>

lemma one_ready:
  assumes ag: "link.agree sha data m s r" and empty: "send_outp s = []" "recv_outp r = []"
    and u: "unlocked (snd s)" "unlocked (snd r)"
    and nc: "\<not> (sr_stage (fst s) = SEND_COMPLETE \<and> rr_stage (fst r) = RECV_COMPLETE)"
  shows "send_ready data m s \<or> recv_ready sha data m r"
proof (rule disjCI)
  assume nr: "\<not> recv_ready sha data m r"
  have A: "send_inv sha data m s" "recv_inv sha data m r" "send_awaits data m (fst s) = send_inp s @ recv_left data m (fst r)"
    "recv_awaits sha data m (fst r) = recv_inp r @ send_left sha data m (fst s)"
    using ag [unfolded link.agree_def] empty by simp_all
  show "send_ready data m s"
  proof (rule ccontr)
    assume "\<not> send_ready data m s"
    from stopped_sender [OF A(1) u(1) this]
    consider (done_) "sr_stage (fst s) = SEND_COMPLETE" "send_left sha data m (fst s) = []"
      | (waits) "is_big data" "send_left sha data m (fst s) = chunks sha data m" "send_inp s = []" "recv_left data m (fst r) \<noteq> []"
      using A(3) by (auto simp: send_left_def)
    then show False
    proof cases
      case done_
      then have "recv_awaits sha data m (fst r) = recv_inp r" using A(4) by simp
      then show False
        using nr u(2) nc done_(1) A(2)
        by (auto simp: recv_ready_def recv_awaits_def recv_inv_def recv_stage_inv_def msg_body_def fp_header_image_def
            sizeof_General_Header_def split: RecvReqStage.splits dest: arg_cong [where f = length])
    next
      case waits
      then show False
        using nr u(2) A(2,4)
        by (auto simp: recv_ready_def recv_awaits_def recv_left_def recv_inv_def recv_stage_inv_def msg_body_def
            fp_header_image_def sizeof_General_Header_def split: RecvReqStage.splits dest: arg_cong [where f = length])
    qed
  qed
qed

text \<open>Nothing but the other side is needed: the locks of the two caches are free, the sender chunks with
  the settings of the build.\<close>

definition link_free :: "(Dedup_Send_Req \<times> World) \<times> (Dedup_Recv_Req \<times> World) \<Rightarrow> bool" where
  "link_free x \<longleftrightarrow> unlocked (snd (fst x)) \<and> unlocked (snd (snd x)) \<and>
     world_settings (snd (fst x)) = fingerprint_cache_settings"

definition link_done :: "(Dedup_Send_Req \<times> World) \<times> (Dedup_Recv_Req \<times> World) \<Rightarrow> bool" where
  "link_done x \<longleftrightarrow> sr_stage (fst (fst x)) = SEND_COMPLETE \<and> rr_stage (fst (snd x)) = RECV_COMPLETE"

definition link_measure :: "(u8 list \<Rightarrow> u8 list) \<Rightarrow> u8 list \<Rightarrow> nat list \<Rightarrow>
  (Dedup_Send_Req \<times> World) \<times> (Dedup_Recv_Req \<times> World) \<Rightarrow> nat" where
  "link_measure sha data m x = send_measure sha data m (fst x) + recv_measure sha data m (snd x)"

lemma endpoint_frames:
  "fst (send_feed bs s) = fst s" "fst (send_drain k s) = fst s" "fst (recv_feed bs r) = fst r" "fst (recv_drain k r) = fst r"
  "unlocked (snd (send_feed bs s)) = unlocked (snd s)" "unlocked (snd (send_drain k s)) = unlocked (snd s)"
  "unlocked (snd (recv_feed bs r)) = unlocked (snd r)" "unlocked (snd (recv_drain k r)) = unlocked (snd r)"
  "world_settings (snd (send_feed bs s)) = world_settings (snd s)"
  "world_settings (snd (send_drain k s)) = world_settings (snd s)"
  by (simp_all add: send_feed_def send_drain_def recv_feed_def recv_drain_def sock_feed_def sock_drain_def unlocked_def)

lemma deliver_all:
  assumes "link.agree sha data m s r" "link_free (s, r)"
  obtains s1 r1 where "(link_step sha data)\<^sup>*\<^sup>* (s, r) (s1, r1)" "link.agree sha data m s1 r1" "fst s1 = fst s" "fst r1 = fst r"
    "send_outp s1 = []" "recv_outp r1 = []" "link_free (s1, r1)"
proof -
  let ?s1 = "send_drain (length (send_outp s)) s" and ?r1 = "recv_feed (take (length (send_outp s)) (send_outp s)) r"
  let ?s2 = "send_feed (take (length (recv_outp ?r1)) (recv_outp ?r1)) ?s1" and ?r2 = "recv_drain (length (recv_outp ?r1)) ?r1"
  have steps: "link_step sha data (s, r) (?s1, ?r1)" "link_step sha data (?s1, ?r1) (?s2, ?r2)"
    by (rule link_step.data_arrive, rule link_step.reply_arrives)
  have "link.agree sha data m ?s2 ?r2"
    using link.agree_deliver_RS [OF link.agree_deliver_SR [OF assms(1)]] .
  then show thesis
    using steps assms(2)
    by (intro that [of ?s2 ?r2])
      (auto simp: endpoint_frames link_free_def send_stream.stream_laws recv_stream.stream_laws)
qed

lemma link_move:
  assumes ag: "link.agree sha data m s r" and free: "link_free (s, r)" and nd: "\<not> link_done (s, r)"
  obtains (sender) s1 r1 s2 where "(link_step sha data)\<^sup>*\<^sup>* (s, r) (s1, r1)" "link.agree sha data m s1 r1" "fst r1 = fst r"
      "send_poll sha s1 s2" "link_free (s2, r1)" "link_measure sha data m (s2, r1) < link_measure sha data m (s, r)"
  | (receiver) s1 r1 r2 where "(link_step sha data)\<^sup>*\<^sup>* (s, r) (s1, r1)" "link.agree sha data m s1 r1" "fst r1 = fst r"
      "recv_poll r1 r2" "link_free (s1, r2)"
      "recv_follows sha data m (send_outp s1 @ send_left sha data m (fst s1)) r1 r2 \<Longrightarrow>
        link_measure sha data m (s1, r2) < link_measure sha data m (s, r)"
proof -
  obtain s1 r1 where D: "(link_step sha data)\<^sup>*\<^sup>* (s, r) (s1, r1)" "link.agree sha data m s1 r1" "fst s1 = fst s"
    "fst r1 = fst r" "send_outp s1 = []" "recv_outp r1 = []" "link_free (s1, r1)"
    by (rule deliver_all [OF ag free])
  have A: "send_inv sha data m s1" "recv_inv sha data m r1"
    "send_awaits data m (fst s1) = send_inp s1 @ recv_outp r1 @ recv_left data m (fst r1)"
    "recv_awaits sha data m (fst r1) = recv_inp r1 @ send_outp s1 @ send_left sha data m (fst s1)"
    using D(2) [unfolded link.agree_def] by simp_all
  have same: "send_measure sha data m s1 = send_measure sha data m s" "recv_measure sha data m r1 = recv_measure sha data m r"
    using D(3,4) by (simp_all add: send_measure_def recv_measure_def)
  have u: "unlocked (snd s1)" "unlocked (snd r1)" "world_settings (snd s1) = fingerprint_cache_settings"
    using D(7) by (simp_all add: link_free_def)
  have "send_ready data m s1 \<or> recv_ready sha data m r1"
    using one_ready [OF D(2,5,6) u(1,2)] nd D(3,4) by (auto simp: link_done_def)
  then show thesis
  proof
    assume "send_ready data m s1"
    moreover have "chunk_bounds (world_settings (snd s1))" using u(3) fingerprint_cache_settings_ok(1) by simp
    ultimately obtain s2 where "send_poll sha s1 s2" "send_measure sha data m s2 < send_measure sha data m s1"
      "unlocked (snd s2)" "world_settings (snd s2) = world_settings (snd s1)"
      by (rule send_poll_moves [OF A(1,3)])
    then show thesis using sender [OF D(1,2,4)] u same by (simp add: link_free_def link_measure_def)
  next
    assume "recv_ready sha data m r1"
    then obtain r2 x y where mv: "recv_poll r1 r2" "recv_rank (rr_stage (fst r2)) \<le> recv_rank (rr_stage (fst r1))"
      "recv_outp r2 = recv_outp r1 @ x" "recv_inp r1 = y @ recv_inp r2" "unlocked (snd r2)"
      "0 < length x \<or> 0 < length y \<or> recv_rank (rr_stage (fst r2)) < recv_rank (rr_stage (fst r1))"
      by (rule recv_goes [OF A(2)])
    have "link_measure sha data m (s1, r2) < link_measure sha data m (s, r)"
      if "recv_follows sha data m (send_outp s1 @ send_left sha data m (fst s1)) r1 r2"
      using recv_measure_moves [OF that A(4) mv(2-4,6)] same by (simp add: link_measure_def)
    then show thesis using receiver [OF D(1,2,4) mv(1)] mv(5) u by (simp add: link_free_def)
  qed
qed

lemma recv_follows_stream: "recv_stream.follows sha data m rest s s' = recv_follows sha data m rest s s'"
  by (simp add: recv_follows_def recv_stream.follows_def)

text \<open>After the lookup the measure of the chosen script decreases.\<close>

lemma decided_completes:
  assumes "link.agree sha data m s r" "link_free (s, r)" "\<not> recv_undecided r"
  shows "\<exists>z. (link_step sha data)\<^sup>*\<^sup>* (s, r) z \<and> link_done z"
  using assms
proof (induction "link_measure sha data m (s, r)" arbitrary: s r rule: less_induct)
  case less
  show ?case
  proof (cases "link_done (s, r)")
    case True
    then show ?thesis by blast
  next
    case False
    from less.prems(1,2) False show ?thesis
    proof (cases rule: link_move)
      case (sender s1 r1 s2)
      have "link_step sha data (s1, r1) (s2, r1)" by (rule link_step.sender_runs [OF sender(4)])
      then have steps: "(link_step sha data)\<^sup>*\<^sup>* (s, r) (s2, r1)" using sender(1) by simp
      have "\<exists>z. (link_step sha data)\<^sup>*\<^sup>* (s2, r1) z \<and> link_done z"
        using less.prems(3) sender(3)
        by (intro less.hyps [OF sender(6) link.agree_poll_S [OF sender(2,4)] sender(5)]) (simp add: recv_undecided_def)
      then show ?thesis using rtranclp_trans [OF steps] by blast
    next
      case (receiver s1 r1 r2)
      have nu: "\<not> recv_undecided r1" using less.prems(3) receiver(3) by (simp add: recv_undecided_def)
      have "\<not> recv_undecided r2 \<and> recv_follows sha data m (send_outp s1 @ send_left sha data m (fst s1)) r1 r2"
        using recv.poll_decided [OF receiver(4) nu, of sha data m] receiver(2) [unfolded link.agree_def]
        by (simp add: recv_follows_stream)
      then have f: "\<not> recv_undecided r2" "recv_follows sha data m (send_outp s1 @ send_left sha data m (fst s1)) r1 r2"
        by simp_all
      have ag: "link.agree sha data m s1 r2"
        using link.agree_follows_R [OF receiver(2)] f(2) by (simp add: recv_follows_stream)
      have "link_step sha data (s1, r1) (s1, r2)" by (rule link_step.receiver_runs [OF receiver(4)])
      then have steps: "(link_step sha data)\<^sup>*\<^sup>* (s, r) (s1, r2)" using receiver(1) by simp
      have "\<exists>z. (link_step sha data)\<^sup>*\<^sup>* (s1, r2) z \<and> link_done z"
        by (rule less.hyps [OF receiver(6) [OF f(2)] ag receiver(5) f(1)])
      then show ?thesis using rtranclp_trans [OF steps] by blast
    qed
  qed
qed

lemma steps_linked:
  assumes "(link_step sha data)\<^sup>*\<^sup>* x y" "link.linked sha data (fst x) (snd x)"
  shows "link.linked sha data (fst y) (snd y)"
  using assms
proof (induction rule: rtranclp_induct)
  case (step y z)
  then show ?case using link_step_linked [of sha data "fst y" "snd y" "fst z" "snd z"] by simp
qed simp

text \<open>Before it, every script is still possible; the one that asks for nothing serves as a measure.\<close>

lemma linked_completes:
  assumes "link.linked sha data s r" "link_free (s, r)"
  shows "\<exists>z. (link_step sha data)\<^sup>*\<^sup>* (s, r) z \<and> link_done z"
proof (cases "recv_undecided r")
  case False
  then obtain m where "link.agree sha data m s r" using assms(1) by (auto simp: link.linked_def)
  then show ?thesis using decided_completes assms(2) False by blast
next
  case True
  from assms True show ?thesis
  proof (induction "link_measure sha data [] (s, r)" arbitrary: s r rule: less_induct)
    case less
    have all: "link.agree sha data m s r" if "m \<in> askable sha data" for m
      using less.prems(1,3) that by (simp add: link.linked_def)
    have "\<not> link_done (s, r)"
      using less.prems(3) by (auto simp: link_done_def recv_undecided_def undecided_stage_def)
    from all [OF nil_askable] less.prems(2) this show ?case
    proof (cases rule: link_move)
      case (sender s1 r1 s2)
      have "link_step sha data (s1, r1) (s2, r1)" by (rule link_step.sender_runs [OF sender(4)])
      then have steps: "(link_step sha data)\<^sup>*\<^sup>* (s, r) (s2, r1)" using sender(1) by simp
      have "\<exists>z. (link_step sha data)\<^sup>*\<^sup>* (s2, r1) z \<and> link_done z"
        using less.prems(1,3) steps_linked [OF steps] sender(3)
        by (intro less.hyps [OF sender(6) _ sender(5)]) (simp_all add: recv_undecided_def)
      then show ?thesis using rtranclp_trans [OF steps] by blast
    next
      case (receiver s1 r1 r2)
      have "link_step sha data (s1, r1) (s1, r2)" by (rule link_step.receiver_runs [OF receiver(4)])
      then have steps: "(link_step sha data)\<^sup>*\<^sup>* (s, r) (s1, r2)" using receiver(1) by simp
      have L: "link.linked sha data s1 r1" "link.linked sha data s1 r2"
        using steps_linked [OF receiver(1)] steps_linked [OF steps] less.prems(1) by simp_all
      have un: "recv_undecided r1" using less.prems(3) receiver(3) by (simp add: recv_undecided_def)
      have "\<exists>z. (link_step sha data)\<^sup>*\<^sup>* (s1, r2) z \<and> link_done z"
      proof (cases "recv_undecided r2")
        case True
        have inv: "recv_inv sha data m r1 \<and>
            recv_awaits sha data m (fst r1) = recv_inp r1 @ send_outp s1 @ send_left sha data m (fst s1)"
          if "m \<in> askable sha data" for m
          using L(1) un that by (simp add: link.linked_def link.agree_def)
        have "recv_follows sha data [] (send_outp s1 @ send_left sha data [] (fst s1)) r1 r2"
          using recv.poll_undecided [OF receiver(4) un inv] True nil_askable by (simp add: recv_follows_stream)
        from less.hyps [OF receiver(6) [OF this] L(2) receiver(5) True] show ?thesis .
      next
        case False
        then obtain m where "link.agree sha data m s1 r2" using L(2) by (auto simp: link.linked_def)
        then show ?thesis using decided_completes receiver(5) False by blast
      qed
      then show ?thesis using rtranclp_trans [OF steps] by blast
    qed
  qed
qed

lemma link_step_settings:
  assumes "link_step sha data x y" "world_settings (snd (fst x)) = fingerprint_cache_settings"
  shows "world_settings (snd (fst y)) = fingerprint_cache_settings"
  using assms(1)
proof (cases rule: link_step.cases)
  case (sender_runs s s' r)
  then obtain as rc where p: "process_send sha (fst s) (sock_answer (sr_sockfd (fst s)) as (snd s)) = Some (rc, fst s', snd s')"
    by (auto simp: send_poll_def)
  have "chunk_bounds (world_settings (sock_answer (sr_sockfd (fst s)) as (snd s)))"
    using assms(2) sender_runs(1) fingerprint_cache_settings_ok(1) by simp
  from process_send_result [OF this, of sha "fst s"] p
  show ?thesis using assms(2) sender_runs(1,2) by auto
next
  case sender_process
  then show ?thesis using assms(2) by (simp add: others_of_sender_def)
qed (use assms(2) in \<open>simp_all add: endpoint_frames\<close>)

lemma reach_settings:
  assumes "(link_step sha data)\<^sup>*\<^sup>* x y" "link_start sha data x"
  shows "world_settings (snd (fst y)) = fingerprint_cache_settings"
  using assms
proof (induction rule: rtranclp_induct)
  case base
  then show ?case by (auto simp: link_start_def split: prod.splits)
next
  case (step y z)
  then show ?case using link_step_settings by blast
qed

lemma reach_delivered:
  assumes "link_start sha data x" "(link_step sha data)\<^sup>*\<^sup>* x y" "rr_stage (fst (snd y)) = RECV_COMPLETE"
  shows "take (length data) (rr_app_buffer (fst (snd y))) = data \<and> rr_content_size (fst (snd y)) = length data"
  using linked_agree [OF reach_linked [OF assms(2,1)]] complete_delivered assms(3) by metis

lemma reach_completes:
  assumes "link_start sha data x" "(link_step sha data)\<^sup>*\<^sup>* x y"
    and "unlocked (snd (fst y))" "unlocked (snd (snd y))"
  shows "\<exists>z. (link_step sha data)\<^sup>*\<^sup>* y z \<and> link_done z"
  using linked_completes [OF reach_linked [OF assms(2,1)]] reach_settings [OF assms(2,1)] assms(3,4)
  by (simp add: link_free_def)

section \<open>A transfer to look at\<close>

definition idle_world :: World where
  "idle_world =
     \<lparr>socks = (\<lambda>_. \<lparr>sk_answers = [], sk_out = [], sk_in = []\<rparr>), errno = 0,
      global_fingerprint_cache = example_cache, to_skip_insert_cache = False, active_fds = (\<lambda>_. False),
      max_requests_per_comm = 8, net_dedup_state = \<lparr>num_net_devices = 0, net_devices = []\<rparr>,
      dump_lock = False, dump_bytes_file = [], dump_sizes_file = [], dump_bytes_room = 0, dump_sizes_room = 0\<rparr>"

definition ones_sha :: "u8 list \<Rightarrow> u8 list" where
  "ones_sha x = replicate FINGERPRINT_NUM_BYTES 1"

text \<open>Large enough to be sent as fingerprints.\<close>

definition example_data :: "u8 list" where
  "example_data = replicate 20000 7"

definition example_link :: "(Dedup_Send_Req \<times> World) \<times> (Dedup_Recv_Req \<times> World)" where
  "example_link =
     ((posted_send_req 5 example_data (int (length example_data)), idle_world),
      (posted_recv_req 6 (replicate 20000 0) 20000, idle_world))"

lemma example_cache_fields:
  "fc_cache_lock example_cache = False" "fc_fingerprinting_settings example_cache = fingerprint_cache_settings"
  by (simp_all add: example_cache_def zeroed_cache_def init_fingerprint_cache_def)

lemma sum_list_lower: "(\<And>x. x \<in> set xs \<Longrightarrow> k \<le> x) \<Longrightarrow> k * length xs \<le> sum_list (xs :: nat list)"
  by (induction xs) (auto simp: add_mono)

lemma few_fingerprints:
  assumes "is_big data" "length data \<le> MIN_CHUNK_SIZE_BYTES * MAX_FINGERPRINTS_PER_REQ"
  shows "length (msg_fps sha data) \<le> MAX_FINGERPRINTS_PER_REQ"
proof -
  have "MIN_CHUNK_SIZE_BYTES * length (msg_sizes sha data) \<le> sum_list (msg_sizes sha data)"
    using msg_fps_facts(4) [OF assms(1), of _ sha] by (intro sum_list_lower) blast
  then have "MIN_CHUNK_SIZE_BYTES * length (msg_fps sha data) \<le> MIN_CHUNK_SIZE_BYTES * MAX_FINGERPRINTS_PER_REQ"
    using msg_fps_facts(2) [OF assms(1), of sha] assms(2) by (simp only: length_map)
  then show ?thesis by (simp add: MIN_CHUNK_SIZE_BYTES_def)
qed

lemma example_starts: "link_start ones_sha example_data example_link"
proof -
  have "ones_sha x \<noteq> zero_key" for x
    by (simp add: ones_sha_def zero_key_def FINGERPRINT_NUM_BYTES_def replicate_eq_replicate)
  moreover have "length (msg_fps ones_sha example_data) \<le> MAX_FINGERPRINTS_PER_REQ" if "is_big example_data"
    using few_fingerprints [OF that, of ones_sha]
    by (simp add: example_data_def MIN_CHUNK_SIZE_BYTES_def MAX_FINGERPRINTS_PER_REQ_def)
  ultimately have "msg_ok ones_sha example_data"
    by (simp add: msg_ok_def example_data_def) (simp add: ones_sha_def)
  moreover have "\<exists>fd buf sz. posted_recv_req 6 (replicate 20000 0) 20000 = posted_recv_req fd buf sz \<and>
      length example_data \<le> length buf"
    by (intro exI conjI, rule refl) (simp add: example_data_def)
  ultimately show ?thesis
    unfolding link_start_def example_link_def
    by (auto simp: idle_world_def cache_agrees_def example_cache_ok example_cache_fields)
qed

lemma example_reaches: "\<exists>y. (link_step ones_sha example_data)\<^sup>*\<^sup>* example_link y \<and> link_done y"
proof (rule reach_completes [OF example_starts rtranclp.rtrancl_refl])
  show "unlocked (snd (fst example_link))" "unlocked (snd (snd example_link))"
    by (simp_all add: example_link_def idle_world_def unlocked_def example_cache_fields)
qed

section \<open>Properties\<close>

text \<open>C1. A completed receive holds the message: whenever a message is posted on both sides of an idle
  connection and the receive request reaches its last stage, through any interleaving of calls, partial
  transfers, failing calls and arrivals, the buffer starts with the data sent and the announced size is
  its length. Calls that split one of the two headers are excluded (they are resumed at a wrong address);
  the receiver's cache holds no other content under the digests of the message.\<close>

theorem transfer_correct:
  assumes "link_start sha data x" "(link_step sha data)\<^sup>*\<^sup>* x y" "rr_stage (fst (snd y)) = RECV_COMPLETE"
  shows "take (length data) (rr_app_buffer (fst (snd y))) = data \<and> rr_content_size (fst (snd y)) = length data"
  by (rule reach_delivered [OF assms])

theorem transfer_correct_witness:
  "\<exists>y. (link_step ones_sha example_data)\<^sup>*\<^sup>* example_link y \<and> rr_stage (fst (snd y)) = RECV_COMPLETE \<and>
     take 20000 (rr_app_buffer (fst (snd y))) = replicate 20000 7"
proof -
  obtain y where y: "(link_step ones_sha example_data)\<^sup>*\<^sup>* example_link y" "rr_stage (fst (snd y)) = RECV_COMPLETE"
    using example_reaches by (auto simp: link_done_def)
  have "take 20000 (rr_app_buffer (fst (snd y))) = replicate 20000 7"
    using transfer_correct [OF example_starts y] by (simp add: example_data_def)
  then show ?thesis using y by blast
qed

text \<open>C2. A transfer cannot get stuck: from every state the two requests can reach through calls that split neither
  a header nor a fingerprint header (\<open>no_split_header\<close>, \<open>no_split_recv\<close>; after a split header the code is wrong, see
  \<open>split_header_misplaced\<close>) and in which neither cache lock is held, such calls and arrivals exist that bring both
  requests to their last stage.\<close>

theorem transfer_can_complete:
  assumes "link_start sha data x" "(link_step sha data)\<^sup>*\<^sup>* x y"
    and "unlocked (snd (fst y))" "unlocked (snd (snd y))"
  shows "\<exists>z. (link_step sha data)\<^sup>*\<^sup>* y z \<and>
    sr_stage (fst (fst z)) = SEND_COMPLETE \<and> rr_stage (fst (snd z)) = RECV_COMPLETE"
  using reach_completes [OF assms] by (simp add: link_done_def)

theorem transfer_can_complete_witness:
  "\<exists>z. (link_step ones_sha example_data)\<^sup>*\<^sup>* example_link z \<and>
     sr_stage (fst (fst z)) = SEND_COMPLETE \<and> rr_stage (fst (snd z)) = RECV_COMPLETE"
proof (rule transfer_can_complete [OF example_starts rtranclp.rtrancl_refl])
  show "unlocked (snd (fst example_link))" "unlocked (snd (snd example_link))"
    by (simp_all add: example_link_def idle_world_def unlocked_def example_cache_fields)
qed

text \<open>C9. Nothing of a message is left over: once both requests are complete through calls that split neither a header
  nor a fingerprint header (what a split one leads to, see \<open>split_header_misplaced\<close>), the four pipes
  of the connection are empty, so the next message starts at a clean boundary.\<close>

theorem transfer_leaves_no_bytes:
  assumes "link_start sha data x" "(link_step sha data)\<^sup>*\<^sup>* x y"
    and "sr_stage (fst (fst y)) = SEND_COMPLETE" "rr_stage (fst (snd y)) = RECV_COMPLETE"
  shows "send_inp (fst y) = [] \<and> send_outp (fst y) = [] \<and> recv_inp (snd y) = [] \<and> recv_outp (snd y) = []"
  using linked_agree [OF reach_linked [OF assms(2,1)]] complete_quiet assms(3,4) by metis

theorem transfer_leaves_no_bytes_witness:
  "\<exists>y. (link_step ones_sha example_data)\<^sup>*\<^sup>* example_link y \<and> link_done y \<and>
     send_inp (fst y) = [] \<and> send_outp (fst y) = [] \<and> recv_inp (snd y) = [] \<and> recv_outp (snd y) = []"
proof -
  obtain y where y: "(link_step ones_sha example_data)\<^sup>*\<^sup>* example_link y" "link_done y"
    using example_reaches by blast
  then show ?thesis
    using transfer_leaves_no_bytes [OF example_starts y(1)] unfolding link_done_def by blast
qed

end
