(* ===== verification/CacheUse.thy ===== *)
theory CacheUse
  imports Protocol
begin

text \<open>
  What a transfer leaves in the caches: populating the buffer takes from the cache every chunk it holds
  and lists the others, the two insertion stages add the chunks of the message under their digests and
  nothing else, and a message whose chunks are all held is rebuilt without any content on the wire.
\<close>

section \<open>Inserting chunks\<close>

text \<open>The cache holds chunk \<open>i\<close> of the message.\<close>

definition holds_chunk :: "(u8 list \<Rightarrow> u8 list) \<Rightarrow> u8 list \<Rightarrow> Fingerprint_Cache \<Rightarrow> nat \<Rightarrow> bool" where
  "holds_chunk sha data c i \<longleftrightarrow> cache_contents c (sha (chunk sha data i)) = Some (chunk sha data i)"

text \<open>The digest tells the chunks of the message apart.\<close>

definition digests_separate :: "(u8 list \<Rightarrow> u8 list) \<Rightarrow> u8 list \<Rightarrow> bool" where
  "digests_separate sha data \<longleftrightarrow>
     (\<forall>i<length (msg_fps sha data). \<forall>j<length (msg_fps sha data).
        sha (chunk sha data i) = sha (chunk sha data j) \<longrightarrow> chunk sha data i = chunk sha data j)"

definition chunk_pages :: "(u8 list \<Rightarrow> u8 list) \<Rightarrow> u8 list \<Rightarrow> nat \<Rightarrow> nat" where
  "chunk_pages sha data i = pages_for (length (chunk sha data i))"

text \<open>From \<open>c\<close> to \<open>c'\<close> the cache only gained chunks of the message.\<close>

definition cache_grows :: "(u8 list \<Rightarrow> u8 list) \<Rightarrow> u8 list \<Rightarrow> Fingerprint_Cache \<Rightarrow> Fingerprint_Cache \<Rightarrow> bool" where
  "cache_grows sha data c c' \<longleftrightarrow> cache_agrees sha data c' \<and> cache_contents c \<subseteq>\<^sub>m cache_contents c'"

lemma cache_grows_trans: "cache_grows sha data c c1 \<Longrightarrow> cache_grows sha data c1 c2 \<Longrightarrow> cache_grows sha data c c2"
  by (auto simp: cache_grows_def intro: map_le_trans)

lemma holds_chunk_grows: "holds_chunk sha data c i \<Longrightarrow> cache_grows sha data c c' \<Longrightarrow> holds_chunk sha data c' i"
  by (force simp: holds_chunk_def cache_grows_def map_le_def)

lemma insert_chunk:
  assumes msg: "msg_ok sha data" "is_big data" "digests_separate sha data" and i: "i < length (msg_fps sha data)"
    and agr: "cache_agrees sha data c" and len: "length (content_page_nums e) = max_pages"
    and at: "take (length (chunk sha data i)) content = chunk sha data i"
  obtains (full) e' where "insert_fingerprint c (msg_fps sha data ! i) content e = (- 1, c, e')"
      "fc_num_free_pages c < chunk_pages sha data i"
  | (stored) c' e' where "insert_fingerprint c (msg_fps sha data ! i) content e = (0, c', e')"
      "cache_grows sha data c c'" "holds_chunk sha data c' i" "length (content_page_nums e') = max_pages"
      "fc_num_free_pages c' + chunk_pages sha data i = fc_num_free_pages c"
proof -
  let ?ch = "chunk sha data i" and ?fp = "msg_fps sha data ! i"
  let ?k = "sha ?ch" and ?sz = "length ?ch"
  have fp: "?fp = \<lparr>fp_content_size = ?sz, fp_fingerprint = ?k\<rparr>"
    using msg_fps_facts(3) [OF msg(2) i] length_chunk [OF msg(2) i] by simp
  have nz: "?k \<noteq> zero_key" using msg i by (simp add: msg_ok_def)
  have "fp_content_size ?fp \<in> set (msg_sizes sha data)" using i by simp
  then have sz: "size_ok ?sz"
    using msg_fps_facts(4) [OF msg(2)] chunk_size_pos [OF msg(2) i] unfolding length_chunk [OF msg(2) i]
    by (intro chunk_size_ok) blast+
  have ok: "cache_ok c" using agr by (simp add: cache_agrees_def)
  have ln: "?sz \<le> length content" using arg_cong [OF at, of length] by simp
  show thesis
  proof (cases "chunk_pages sha data i \<le> fc_num_free_pages c")
    case False
    then show thesis using full insert_no_room [OF sz, of c ?k content e] unfolding fp chunk_pages_def by auto
  next
    case True
    then have room: "pages_for ?sz \<le> fc_num_free_pages c" by (simp add: chunk_pages_def)
    obtain c' e' where I: "insert_fingerprint c \<lparr>fp_content_size = ?sz, fp_fingerprint = ?k\<rparr> content e = (0, c', e')"
      "cache_ok c'" "used_pages c' = used_pages c + pages_for ?sz"
      "cache_contents c' = (case cache_contents c ?k of
         None \<Rightarrow> (cache_contents c)(?k \<mapsto> take ?sz content) | Some _ \<Rightarrow> cache_contents c)"
      "length (content_page_nums e') = max_pages"
      by (rule insert_spec_cache [OF ok sz ln room, of e ?k]) (use len nz in simp_all)
    have agr': "cache_agrees sha data c'"
      using agr I(2,4) msg(2,3) i at
      by (auto simp: cache_agrees_def digests_separate_def split: option.splits)
    have "cache_contents c \<subseteq>\<^sub>m cache_contents c'"
      using I(4) by (auto simp: map_le_def split: option.splits)
    moreover have "holds_chunk sha data c' i"
      using I(4) agr msg(2) i at by (auto simp: holds_chunk_def cache_agrees_def split: option.splits)
    moreover have "fc_num_free_pages c' + pages_for ?sz = fc_num_free_pages c"
      using I(2,3) ok room unfolding used_pages_def cache_ok_def by linarith
    ultimately show thesis
      using stored [OF I(1) [folded fp]] agr' I(5) by (simp add: cache_grows_def chunk_pages_def)
  qed
qed

lemma lock_keeps [simp]:
  "used_pages (c\<lparr>fc_cache_lock := b\<rparr>) = used_pages c"
  "cache_contents (c\<lparr>fc_cache_lock := b\<rparr>) = cache_contents c"
  "cache_ok (c\<lparr>fc_cache_lock := b\<rparr>) = cache_ok c"
  "cache_agrees sha data (c\<lparr>fc_cache_lock := b\<rparr>) = cache_agrees sha data c"
  "cache_grows sha data (c\<lparr>fc_cache_lock := b\<rparr>) c' = cache_grows sha data c c'"
  "cache_grows sha data c (c'\<lparr>fc_cache_lock := b\<rparr>) = cache_grows sha data c c'"
  "holds_chunk sha data (c\<lparr>fc_cache_lock := b\<rparr>) i = holds_chunk sha data c i"
proof -
  show *: "used_pages (c\<lparr>fc_cache_lock := b\<rparr>) = used_pages c" "cache_contents (c\<lparr>fc_cache_lock := b\<rparr>) = cache_contents c"
    for c b by (simp_all add: used_pages_def cache_contents_def fun_eq_iff)
  show ok: "cache_ok (c\<lparr>fc_cache_lock := b\<rparr>) = cache_ok c" for c b
    by (simp add: cache_ok_def *)
  show agr: "cache_agrees sha data (c\<lparr>fc_cache_lock := b\<rparr>) = cache_agrees sha data c" for c b
    by (simp add: cache_agrees_def ok *)
  show "cache_grows sha data (c\<lparr>fc_cache_lock := b\<rparr>) c' = cache_grows sha data c c'"
    "cache_grows sha data c (c'\<lparr>fc_cache_lock := b\<rparr>) = cache_grows sha data c c'"
    "holds_chunk sha data (c\<lparr>fc_cache_lock := b\<rparr>) i = holds_chunk sha data c i"
    by (simp_all add: cache_grows_def holds_chunk_def agr *)
qed

text \<open>What both insertion loops owe for the chunks \<open>is\<close>: the cache gains nothing else, without an overflow
  all of them are held, and there is no overflow when the free pages suffice.\<close>

definition inserts :: "(u8 list \<Rightarrow> u8 list) \<Rightarrow> u8 list \<Rightarrow> nat list \<Rightarrow> Fingerprint_Cache \<Rightarrow> bool \<times> Fingerprint_Cache \<Rightarrow> bool" where
  "inserts sha data is c res \<longleftrightarrow> cache_grows sha data c (snd res) \<and>
     (\<not> fst res \<longrightarrow> (\<forall>i\<in>set is. holds_chunk sha data (snd res) i)) \<and>
     ((\<Sum>i\<leftarrow>is. chunk_pages sha data i) \<le> fc_num_free_pages c \<longrightarrow> \<not> fst res)"

lemma inserts_nil: "cache_agrees sha data c \<Longrightarrow> inserts sha data [] c (False, c)"
  by (simp add: inserts_def cache_grows_def)

lemma inserts_full: "cache_agrees sha data c \<Longrightarrow> fc_num_free_pages c < chunk_pages sha data i \<Longrightarrow>
    inserts sha data (i # is) c (True, c)"
  by (simp add: inserts_def cache_grows_def)

lemma inserts_Cons:
  assumes "inserts sha data is c1 res" "cache_grows sha data c c1" "holds_chunk sha data c1 i"
    and "fc_num_free_pages c1 + chunk_pages sha data i = fc_num_free_pages c"
  shows "inserts sha data (i # is) c res"
  using assms holds_chunk_grows [OF assms(3)] cache_grows_trans [OF assms(2)]
  by (auto simp: inserts_def)

lemma outbound_loop_inserts:
  assumes msg: "msg_ok sha data" "is_big data" "digests_separate sha data"
    and "cache_agrees sha data c" "length (content_page_nums e) = max_pages"
    and "i + n = length (msg_fps sha data)"
  shows "inserts sha data [i..<i + n] c
    (insert_outbound_loop c (drop i (msg_fps sha data)) data (offset_of (msg_sizes sha data) i) e)"
  using assms(4-)
proof (induction n arbitrary: c e i)
  case 0
  then show ?case by (simp add: inserts_nil)
next
  case (Suc n)
  have i: "i < length (msg_fps sha data)" using Suc.prems(3) by simp
  let ?off = "offset_of (msg_sizes sha data) i"
  have d: "drop i (msg_fps sha data) = msg_fps sha data ! i # drop (Suc i) (msg_fps sha data)"
    using i by (simp add: Cons_nth_drop_Suc)
  have off: "?off + fp_content_size (msg_fps sha data ! i) = offset_of (msg_sizes sha data) (Suc i)"
    using i by (simp add: offset_of_Suc)
  have at: "take (length (chunk sha data i)) (drop ?off data) = chunk sha data i"
    unfolding length_chunk [OF msg(2) i] using i by (simp add: chunk_def bytes_at_def)
  have r: "[i..<i + Suc n] = i # [Suc i..<Suc i + n]" by (simp add: upt_conv_Cons)
  show ?case
  proof (cases rule: insert_chunk [OF msg i Suc.prems(1,2) at])
    case 1
    then show ?thesis unfolding d r by (simp add: inserts_full [OF Suc.prems(1)])
  next
    case (2 c' e')
    have "cache_agrees sha data c'" using 2(2) by (simp add: cache_grows_def)
    then have "inserts sha data [Suc i..<Suc i + n] c'
        (insert_outbound_loop c' (drop (Suc i) (msg_fps sha data)) data (offset_of (msg_sizes sha data) (Suc i)) e')"
      by (rule Suc.IH [OF _ 2(4)]) (use Suc.prems(3) in simp)
    from inserts_Cons [OF this 2(2,3,5)] show ?thesis unfolding d r by (simp add: 2(1) off)
  qed
qed

lemma inbound_loop_inserts:
  assumes msg: "msg_ok sha data" "is_big data" "digests_separate sha data"
    and m: "m \<in> askable sha data" "populated sha data m rr"
    and buf: "take (length data) (rr_app_buffer rr) = data"
    and "cache_agrees sha data c" "length (content_page_nums e) = max_pages" "i + n = length m"
  shows "inserts sha data (drop i m) c (insert_inbound_loop c rr i n e)"
  using assms(7-)
proof (induction n arbitrary: c e i)
  case 0
  then show ?case by (simp add: inserts_nil)
next
  case (Suc n)
  have i: "i < length m" using Suc.prems(3) by simp
  let ?off = "offset_of (msg_sizes sha data) (m ! i)"
  note E = populated_entry [OF m(2) msg(1) m(1) i]
  have d: "drop i m = m ! i # drop (Suc i) m" using i by (simp add: Cons_nth_drop_Suc)
  let ?sz = "length (chunk sha data (m ! i))"
  have "?off + ?sz \<le> length data"
    using offset_of_block_le [of "m ! i" "msg_sizes sha data"] msg_fps_facts(2) [OF msg(2), of sha] E(1,5) by simp
  then have "take ?sz (drop ?off (rr_app_buffer rr)) = take ?sz (drop ?off (take (length data) (rr_app_buffer rr)))"
    by (simp add: take_drop min_def add.commute)
  also have "\<dots> = chunk sha data (m ! i)"
    unfolding buf E(5) [symmetric] using E(1) by (simp add: chunk_def bytes_at_def)
  finally have at: "take ?sz (drop ?off (rr_app_buffer rr)) = chunk sha data (m ! i)" .
  show ?case
  proof (cases rule: insert_chunk [OF msg E(1) Suc.prems(1,2) at])
    case 1
    then show ?thesis unfolding d by (simp add: E(2-4) inserts_full [OF Suc.prems(1)])
  next
    case (2 c' e')
    have "cache_agrees sha data c'" using 2(2) by (simp add: cache_grows_def)
    from Suc.IH [OF this 2(4), of "Suc i"] Suc.prems(3)
    have "inserts sha data (drop (Suc i) m) c' (insert_inbound_loop c' rr (Suc i) n e')" by simp
    from inserts_Cons [OF this 2(2,3,5)] show ?thesis unfolding d by (simp add: E(2-4) 2(1))
  qed
qed

section \<open>The two insertion stages\<close>

lemma insert_outbound_stores:
  assumes inv: "send_inv sha data m (sr, w)" and st: "sr_stage sr = INSERT_OUTBOUND_FINGERPRINTS"
    and free: "unlocked w" "\<not> to_skip_insert_cache w"
    and agr: "cache_agrees sha data (global_fingerprint_cache w)" and sep: "digests_separate sha data"
  obtains w' where "process_insert_outbound_fingerprints sr w = (1, sr, w')" "unlocked w'"
    "inserts sha data [0..<length (msg_fps sha data)] (global_fingerprint_cache w)
       (to_skip_insert_cache w', global_fingerprint_cache w')"
proof -
  let ?c = "(global_fingerprint_cache w)\<lparr>fc_cache_lock := True\<rparr>" and ?N = "length (msg_fps sha data)"
  have I: "msg_ok sha data" "is_big data" "sr_data sr = data"
    "take (sr_num_fingerprints sr) (ss_packaged_fingerprints (sr_state sr)) = msg_fps sha data"
    using inv st by (simp_all add: send_inv_def send_stage_inv_def computed_def)
  obtain full c1 where run: "insert_outbound_loop ?c (msg_fps sha data) data 0 zero_entry = (full, c1)"
    by (metis surj_pair)
  have "inserts sha data [0..<0 + ?N] ?c
      (insert_outbound_loop ?c (drop 0 (msg_fps sha data)) data (offset_of (msg_sizes sha data) 0) zero_entry)"
    using agr by (intro outbound_loop_inserts [OF I(1,2) sep]) (simp_all add: zero_entry_def)
  then have ins: "inserts sha data [0..<?N] (global_fingerprint_cache w) (full, c1\<lparr>fc_cache_lock := False\<rparr>)"
    using run by (simp add: inserts_def)
  let ?w1 = "w\<lparr>global_fingerprint_cache := c1\<lparr>fc_cache_lock := False\<rparr>\<rparr>"
  show thesis
    using free run ins I(3,4)
    by (cases full; intro that [of "if full then ?w1\<lparr>to_skip_insert_cache := True\<rparr> else ?w1"];
        simp add: process_insert_outbound_fingerprints_def Let_def unlocked_def)
qed

lemma insert_inbound_stores:
  assumes inv: "recv_inv sha data m (rr, w)" and st: "rr_stage rr = INSERT_INBOUND_FINGERPRINTS"
    and free: "unlocked w" "\<not> to_skip_insert_cache w"
    and agr: "cache_agrees sha data (global_fingerprint_cache w)" and sep: "digests_separate sha data"
  obtains w' where "processs_insert_inbound_fingerprints rr w = (1, rr, w')" "unlocked w'"
    "inserts sha data m (global_fingerprint_cache w) (to_skip_insert_cache w', global_fingerprint_cache w')"
proof -
  let ?c = "(global_fingerprint_cache w)\<lparr>fc_cache_lock := True\<rparr>"
  have I: "msg_ok sha data" "is_big data" "populated sha data m rr" "take (length data) (rr_app_buffer rr) = data"
    "rs_num_missing_fingerprints (rr_state rr) = length m" "m \<in> askable sha data"
    using inv st by (simp_all add: recv_inv_def recv_stage_inv_def populated_def fps_in_def)
  obtain full c1 where run: "insert_inbound_loop ?c rr 0 (length m) zero_entry = (full, c1)"
    by (metis surj_pair)
  have "inserts sha data (drop 0 m) ?c (insert_inbound_loop ?c rr 0 (length m) zero_entry)"
    using agr by (intro inbound_loop_inserts [OF I(1,2) sep I(6,3,4)]) (simp_all add: zero_entry_def)
  then have ins: "inserts sha data m (global_fingerprint_cache w) (full, c1\<lparr>fc_cache_lock := False\<rparr>)"
    using run by (simp add: inserts_def)
  let ?w1 = "w\<lparr>global_fingerprint_cache := c1\<lparr>fc_cache_lock := False\<rparr>\<rparr>"
  show thesis
    using free run ins I(5)
    by (cases full; intro that [of "if full then ?w1\<lparr>to_skip_insert_cache := True\<rparr> else ?w1"];
        simp add: processs_insert_inbound_fingerprints_def Let_def unlocked_def)
qed

section \<open>Populating\<close>

text \<open>Populating does not look at the sockets.\<close>

lemma populate_socks:
  "process_populate_from_net_cache rr (w\<lparr>socks := x\<rparr>) =
     (case process_populate_from_net_cache rr w of (r, rr', w') \<Rightarrow> (r, rr', w'\<lparr>socks := x\<rparr>))"
  by (simp add: process_populate_from_net_cache_def Let_def)

lemma populate_fills:
  assumes inv: "recv_inv sha data m (rr, w)" and st: "rr_stage rr = POPULATE_FROM_NET_CACHE"
  obtains rr' w' where "process_populate_from_net_cache rr w = (1, rr', w')" "populated sha data (missing_now sha data w) rr'"
    "length data \<le> length (rr_app_buffer rr')"
proof -
  let ?m = "missing_now sha data w"
  let ?x = "\<lambda>_. \<lparr>sk_answers = [], sk_out = [], sk_in = []\<rparr>"
  let ?w = "w\<lparr>socks := ?x\<rparr>"
  have same: "missing_now sha data ?w = ?m" by (simp add: missing_now_def)
  have "recv_inv sha data ?m (rr, ?w)"
    using inv st missing_now_askable [of sha data w] by (simp add: recv_inv_def recv_stage_inv_def)
  moreover have "recv_awaits sha data ?m rr = recv_inp (rr, ?w) @ chunks sha data ?m"
    using st by (simp add: recv_awaits_def recv_inp_def)
  ultimately have F: "rhandler_follows sha data ?m (chunks sha data ?m) rr ?w (process_populate_from_net_cache rr ?w)"
    using populate_follows [of sha data ?w rr "chunks sha data ?m"] st unfolding same by blast
  obtain r rr' w' where run: "process_populate_from_net_cache rr w = (r, rr', w')" by (metis prod_cases3)
  have r: "r = 1" using run by (simp add: process_populate_from_net_cache_def Let_def)
  have run': "process_populate_from_net_cache rr ?w = (1, rr', w'\<lparr>socks := ?x\<rparr>)" by (simp add: populate_socks run r)
  have "recv_inv sha data ?m (rr'\<lparr>rr_stage := SEND_MISSING_FINGERPRINT_HEADER\<rparr>, w'\<lparr>socks := ?x\<rparr>)"
    using F st unfolding run' by (simp add: rhandler_follows_def recv_follows_def recv_next_stage_def)
  then have "populated sha data ?m rr'" "length data \<le> length (rr_app_buffer rr')"
    by (simp_all add: recv_inv_def recv_stage_inv_def populated_def chunk_in_def)
  then show thesis using that run r by simp
qed

section \<open>States to look at\<close>

text \<open>The header, the fingerprint header and the packaged fingerprints of a message have arrived.\<close>

definition received_req :: "(u8 list \<Rightarrow> u8 list) \<Rightarrow> u8 list \<Rightarrow> u8 list \<Rightarrow> Dedup_Recv_Req" where
  "received_req sha data buf =
     (let img = header_image (wire_header data) @ replicate 8 0 @ fp_header_image sha data @ replicate 8 0 @
                packaged_image sha data
      in (posted_recv_req 6 buf (int (length buf)))
           \<lparr>rr_mem := img @ replicate (rr_mem_size - length img) 0, rr_stage := POPULATE_FROM_NET_CACHE\<rparr>)"

text \<open>The missing contents as well.\<close>

definition refilled_req :: "(u8 list \<Rightarrow> u8 list) \<Rightarrow> u8 list \<Rightarrow> nat list \<Rightarrow> Dedup_Recv_Req" where
  "refilled_req sha data m =
     (received_req sha data data)
       \<lparr>rr_stage := INSERT_INBOUND_FINGERPRINTS,
        rr_recv_fingerprint_state := (rr_state zero_recv_req)
          \<lparr>rs_missing_fingerprint_inds := m @ replicate (MAX_FINGERPRINTS_PER_REQ - length m) 0,
           rs_missing_fingerprint_slots :=
             map (offset_of (msg_sizes sha data)) m @ replicate (MAX_FINGERPRINTS_PER_REQ - length m) 0,
           rs_num_missing_fingerprints := length m\<rparr>\<rparr>"

lemma received_facts:
  assumes "msg_ok sha data" "is_big data"
  shows "header_in data (received_req sha data buf)" "no_split_recv (received_req sha data buf)"
    "fps_in sha data (received_req sha data buf)" "length (rr_mem (received_req sha data buf)) = rr_mem_size"
proof -
  let ?P = "packaged_image sha data" and ?N = "length (msg_fps sha data)"
  let ?H = "header_image (wire_header data)" and ?F = "fp_header_image sha data"
  let ?pad = "replicate (rr_mem_size - (40 + length ?P)) (0 :: u8)"
  have h: "length ?H = 16" "length ?F = 8" by (simp_all add: sizeof_General_Header_def fp_header_image_def)
  have P: "length ?P = 40 * ?N" "?N \<le> 4096"
    using length_packaged_image [OF assms] assms
    by (simp_all add: sizeof_Fingerprint_def msg_ok_def MAX_FINGERPRINTS_PER_REQ_def)
  have mem: "rr_mem (received_req sha data buf) = ?H @ replicate 8 0 @ ?F @ replicate 8 0 @ ?P @ ?pad"
    using h by (simp add: received_req_def Let_def)
  show "header_in data (received_req sha data buf)"
    using h by (simp add: header_in_def mem bytes_at_def)
  show "length (rr_mem (received_req sha data buf)) = rr_mem_size"
    unfolding mem using h P by (simp add: rr_mem_size_eq)
  have "bytes_at 16 4 (?H @ replicate 8 0 @ xs) = replicate 4 0" for xs
    using h by (simp add: bytes_at_def)
  moreover have "bytes_at 32 4 (?H @ replicate 8 0 @ ?F @ replicate 8 0 @ xs) = replicate 4 0" for xs
    using h by (simp add: bytes_at_def)
  ultimately show "no_split_recv (received_req sha data buf)"
    by (simp add: no_split_recv_def rr_recv_header_offset_def rr_recv_fingerprint_header_offset_def mem_int_def mem
        le_value_zeros)
  have "bytes_at 24 8 (?H @ replicate 8 0 @ ?F @ xs) = ?F" for xs
    using h by (simp add: bytes_at_def)
  moreover have "le_value ?F = ?N"
    using P(2) by (simp add: fp_header_image_def)
  ultimately have "rr_num_fingerprints (received_req sha data buf) = ?N"
    by (simp add: rr_num_fingerprints_def mem_u64_def mem)
  moreover have "packaged_region (received_req sha data buf) = ?P @ ?pad"
    using h by (simp add: packaged_region_def mem packaged_pos_def)
  ultimately show "fps_in sha data (received_req sha data buf)" using assms(2) by (simp add: fps_in_def)
qed

lemma received_inv:
  assumes "msg_ok sha data" "is_big data" "length data \<le> length buf" "m \<in> askable sha data"
    and "cache_agrees sha data (global_fingerprint_cache w)"
  shows "recv_inv sha data m (received_req sha data buf, w)"
  using received_facts [OF assms(1,2), of buf] assms
  by (simp add: recv_inv_def recv_stage_inv_def)
    (simp add: received_req_def Let_def posted_recv_req_def zero_recv_req_def unanswered_def)

lemma refilled_inv:
  assumes "msg_ok sha data" "is_big data" "m \<in> askable sha data"
  shows "recv_inv sha data m (refilled_req sha data m, w)"
proof -
  have "length m \<le> MAX_FINGERPRINTS_PER_REQ"
    using askableD(2) [OF assms(3)] assms(1,2) by (simp add: msg_ok_def)
  moreover have "rr_app_buffer (received_req sha data data) = data"
    by (simp add: received_req_def Let_def posted_recv_req_def)
  ultimately show ?thesis
    using received_facts [OF assms(1,2), of data] assms
    by (simp add: recv_inv_def recv_stage_inv_def refilled_req_def populated_def chunk_in_def)
      (simp add: chunk_def)
qed

text \<open>A digest that is injective on the chunks of constant data.\<close>

definition length_sha :: "u8 list \<Rightarrow> u8 list" where
  "length_sha x = le_bytes FINGERPRINT_NUM_BYTES (length x mod 2 ^ 32 + 1)"

lemma le_value_length_sha: "le_value (length_sha x) = length x mod 2 ^ 32 + 1"
proof -
  have "length x mod 2 ^ 32 + 1 < 256 ^ FINGERPRINT_NUM_BYTES"
    by (rule order.strict_trans2 [of _ "2 ^ 32 + 1"]) (simp_all add: FINGERPRINT_NUM_BYTES_def)
  then show ?thesis unfolding length_sha_def by (rule le_value_le_bytes_id)
qed

lemma example_message:
  "is_big example_data" "msg_ok length_sha example_data" "digests_separate length_sha example_data"
proof -
  show big: "is_big example_data" by (simp add: example_data_def is_big_def config_defs)
  have "length_sha x \<noteq> zero_key" for x
    using le_value_length_sha [of x] le_value_zeros [of FINGERPRINT_NUM_BYTES] by (auto simp: zero_key_def)
  then show ok: "msg_ok length_sha example_data"
    using few_fingerprints [OF big, of length_sha]
    by (simp add: msg_ok_def example_data_def MIN_CHUNK_SIZE_BYTES_def MAX_FINGERPRINTS_PER_REQ_def)
      (simp add: length_sha_def)
  have rep: "chunk length_sha example_data i = replicate (length (chunk length_sha example_data i)) 7" for i
    by (simp add: chunk_def example_data_def bytes_at_def)
  have "length (chunk length_sha example_data i) \<le> 20000" for i
    unfolding chunk_def example_data_def by (simp del: nth_map)
  then have "length (chunk length_sha example_data i) mod 2 ^ 32 = length (chunk length_sha example_data i)" for i
    by (intro mod_less) (rule le_less_trans, assumption, simp)
  then show "digests_separate length_sha example_data"
    using le_value_length_sha rep unfolding digests_separate_def by (metis add_right_cancel)
qed

text \<open>All its chunks.\<close>

definition all_of :: "u8 list \<Rightarrow> nat list" where
  "all_of data = [0..<length (msg_fps length_sha data)]"

lemma example_free:
  "unlocked idle_world" "\<not> to_skip_insert_cache idle_world"
  "cache_agrees length_sha example_data (global_fingerprint_cache idle_world)"
  "(\<Sum>i\<leftarrow>all_of example_data. chunk_pages length_sha example_data i) \<le> fc_num_free_pages (global_fingerprint_cache idle_world)"
proof -
  show "unlocked idle_world" "\<not> to_skip_insert_cache idle_world"
    "cache_agrees length_sha example_data (global_fingerprint_cache idle_world)"
    by (simp_all add: idle_world_def unlocked_def cache_agrees_def example_cache_ok example_cache_fields)
  let ?zs = "msg_sizes length_sha example_data"
  have "2048 * (\<Sum>z\<leftarrow>?zs. pages_for z) \<le> sum_list ?zs"
    using msg_fps_facts(4) [OF example_message(1)] by (intro pages_for_chunks) blast
  moreover have "map (chunk_pages length_sha example_data) (all_of example_data) = map pages_for ?zs"
    using length_chunk [OF example_message(1), of _ length_sha]
    by (intro nth_equalityI) (simp_all add: chunk_pages_def all_of_def)
  ultimately show "(\<Sum>i\<leftarrow>all_of example_data. chunk_pages length_sha example_data i)
      \<le> fc_num_free_pages (global_fingerprint_cache idle_world)"
    using msg_fps_facts(2) [OF example_message(1), of length_sha]
    by (simp add: idle_world_def example_cache_ok FINGERPRINT_CACHE_NUM_PAGES_eq example_data_def)
qed

lemma example_refilled:
  "recv_inv length_sha example_data (all_of example_data) (refilled_req length_sha example_data (all_of example_data), w)"
  "rr_stage (refilled_req length_sha example_data (all_of example_data)) = INSERT_INBOUND_FINGERPRINTS"
proof -
  have "all_of example_data \<in> askable length_sha example_data"
    by (auto simp: askable_def all_of_def intro: exI [of _ "\<lambda>_. True"])
  then show "recv_inv length_sha example_data (all_of example_data) (refilled_req length_sha example_data (all_of example_data), w)"
    using refilled_inv example_message by blast
qed (simp add: refilled_req_def)

lemma example_received:
  "cache_agrees length_sha example_data (global_fingerprint_cache w) \<Longrightarrow>
   recv_inv length_sha example_data [] (received_req length_sha example_data (replicate 20000 0), w)"
  "rr_stage (received_req length_sha example_data (replicate 20000 0)) = POPULATE_FROM_NET_CACHE"
proof -
  show "rr_stage (received_req length_sha example_data (replicate 20000 0)) = POPULATE_FROM_NET_CACHE"
    by (simp add: received_req_def Let_def)
  have "length example_data \<le> length (replicate 20000 0)" by (simp add: example_data_def)
  then show "cache_agrees length_sha example_data (global_fingerprint_cache w) \<Longrightarrow>
      recv_inv length_sha example_data [] (received_req length_sha example_data (replicate 20000 0), w)"
    using example_message by (intro received_inv nil_askable) auto
qed

lemma example_computed:
  obtains sr where "send_inv length_sha example_data [] (sr, idle_world)" "sr_stage sr = INSERT_OUTBOUND_FINGERPRINTS"
proof -
  let ?sr = "(posted_send_req 5 example_data (int (length example_data)))\<lparr>sr_stage := COMPUTE_FINGERPRINTS\<rparr>"
  have len: "nat (int (length example_data) mod 2 ^ 64) = length example_data" by (simp add: example_data_def)
  have set: "world_settings idle_world = fingerprint_cache_settings" by (simp add: idle_world_def example_cache_fields)
  have inv: "send_inv length_sha example_data [] (?sr, idle_world)"
    using example_message set nil_askable unfolding posted_send_req_def zero_send_req_def len
    by (simp add: send_inv_def send_stage_inv_def wire_header_def is_big_def)
  obtain res where res: "process_compute_fingerprints length_sha ?sr idle_world = Some res"
    using send_handler_returns [of idle_world length_sha COMPUTE_FINGERPRINTS ?sr] set fingerprint_cache_settings_ok(1)
    by (auto simp: send_handler_def)
  have "send_awaits example_data [] ?sr = send_inp (?sr, idle_world) @ send_awaits example_data [] ?sr"
    by (simp add: send_inp_def idle_world_def)
  from compute_follows [OF inv this _ res]
  have F: "handler_follows length_sha example_data [] (send_awaits example_data [] ?sr) ?sr idle_world res" by simp
  obtain sr1 where "res = (1, sr1, idle_world)"
    using res by (auto simp: process_compute_fingerprints_def)
  with F show thesis
    by (intro that [of "sr1\<lparr>sr_stage := INSERT_OUTBOUND_FINGERPRINTS\<rparr>"])
      (simp_all add: handler_follows_def send_follows_def send_next_stage_def)
qed

section \<open>Properties\<close>

text \<open>C6. Populating splits a message exactly by what the cache holds: afterwards the missing indices are
  those of the chunks the cache does not hold, in order, each with its position in the buffer, and every
  other chunk is in its place.\<close>

theorem populate_takes_what_is_held:
  assumes "recv_inv sha data m (rr, w)" "rr_stage rr = POPULATE_FROM_NET_CACHE"
  shows "\<exists>rr' w'. process_populate_from_net_cache rr w = (1, rr', w') \<and>
    (let miss = filter (\<lambda>i. cache_contents (global_fingerprint_cache w) (fp_fingerprint (msg_fps sha data ! i)) = None)
                  [0..<length (msg_fps sha data)]
     in rs_num_missing_fingerprints (rr_state rr') = length miss \<and>
        take (length miss) (rs_missing_fingerprint_inds (rr_state rr')) = miss \<and>
        take (length miss) (rs_missing_fingerprint_slots (rr_state rr')) = map (offset_of (msg_sizes sha data)) miss \<and>
        (\<forall>i<length (msg_fps sha data). i \<notin> set miss \<longrightarrow>
           bytes_at (offset_of (msg_sizes sha data) i) (msg_sizes sha data ! i) (rr_app_buffer rr') = chunk sha data i))"
proof -
  obtain rr' w' where "process_populate_from_net_cache rr w = (1, rr', w')" "populated sha data (missing_now sha data w) rr'"
    by (rule populate_fills [OF assms])
  then show ?thesis
    by (intro exI [of _ rr'] exI [of _ w'])
      (simp only: Let_def missing_now_def [unfolded missing_of_def, symmetric] populated_def chunk_in_def
        simp_thms, blast)
qed

theorem populate_takes_what_is_held_witness:
  "\<exists>rr' w'. process_populate_from_net_cache (received_req length_sha example_data (replicate 20000 0)) idle_world =
       (1, rr', w') \<and>
     rs_num_missing_fingerprints (rr_state rr') = length (msg_fps length_sha example_data)"
  using populate_takes_what_is_held [OF example_received(1) [OF example_free(3)] example_received(2)]
  by (auto simp: idle_world_def example_cache_ok Let_def)

text \<open>C5. A message the receiver's cache already holds needs no content on the wire: populating finds
  nothing missing and the buffer then holds the whole message.\<close>

theorem known_message_needs_no_content:
  assumes "recv_inv sha data m (rr, w)" "rr_stage rr = POPULATE_FROM_NET_CACHE"
    and "\<forall>i<length (msg_fps sha data). holds_chunk sha data (global_fingerprint_cache w) i"
  shows "\<exists>rr' w'. process_populate_from_net_cache rr w = (1, rr', w') \<and>
    rs_num_missing_fingerprints (rr_state rr') = 0 \<and> take (length data) (rr_app_buffer rr') = data"
proof -
  obtain rr' w' where P: "process_populate_from_net_cache rr w = (1, rr', w')"
    "populated sha data (missing_now sha data w) rr'" "length data \<le> length (rr_app_buffer rr')"
    by (rule populate_fills [OF assms(1,2)])
  have big: "is_big data" using P(2) by (simp add: populated_def fps_in_def)
  have "missing_now sha data w = []"
    using assms(3) msg_fps_facts(3) [OF big, of _ sha]
    by (auto simp: missing_now_def missing_of_def holds_chunk_def filter_empty_conv)
  then show ?thesis
    using P everything_in [OF big P(3), of sha] by (auto simp: populated_def)
qed

theorem known_message_needs_no_content_witness:
  "\<exists>w rr' w'. process_populate_from_net_cache (received_req length_sha example_data (replicate 20000 0)) w = (1, rr', w') \<and>
     rs_num_missing_fingerprints (rr_state rr') = 0 \<and> take 20000 (rr_app_buffer rr') = replicate 20000 7"
proof -
  obtain w where "processs_insert_inbound_fingerprints (refilled_req length_sha example_data (all_of example_data)) idle_world =
      (1, refilled_req length_sha example_data (all_of example_data), w)" "unlocked w"
    and w: "inserts length_sha example_data (all_of example_data) (global_fingerprint_cache idle_world)
      (to_skip_insert_cache w, global_fingerprint_cache w)"
    by (rule insert_inbound_stores [OF example_refilled(1,2) example_free(1,2) example_free(3) example_message(3)])
  have H: "cache_agrees length_sha example_data (global_fingerprint_cache w)"
    "\<forall>i<length (msg_fps length_sha example_data). holds_chunk length_sha example_data (global_fingerprint_cache w) i"
    using w example_free(4) unfolding inserts_def cache_grows_def all_of_def by simp_all
  have "\<exists>rr' w'. process_populate_from_net_cache (received_req length_sha example_data (replicate 20000 0)) w = (1, rr', w') \<and>
      rs_num_missing_fingerprints (rr_state rr') = 0 \<and> take (length example_data) (rr_app_buffer rr') = example_data"
    by (rule known_message_needs_no_content [OF example_received(1) [OF H(1)] example_received(2) H(2)])
  then show ?thesis by (auto simp: example_data_def)
qed

text \<open>C7. Storing what was received: with the cache's lock free, the stage after the missing contents
  returns with the lock free again; the cache has kept everything it held, holds nothing wrong under the
  digests of the message, and holds every chunk that was missing unless it ran out of pages, in which
  case insertion is switched off for the process. It does not run out when the free pages suffice.\<close>

theorem receive_stores_missing_chunks:
  assumes "recv_inv sha data m (rr, w)" "rr_stage rr = INSERT_INBOUND_FINGERPRINTS"
    and "unlocked w" "\<not> to_skip_insert_cache w"
    and "cache_agrees sha data (global_fingerprint_cache w)" "digests_separate sha data"
  shows "\<exists>w'. processs_insert_inbound_fingerprints rr w = (1, rr, w') \<and> unlocked w' \<and>
    cache_agrees sha data (global_fingerprint_cache w') \<and>
    cache_contents (global_fingerprint_cache w) \<subseteq>\<^sub>m cache_contents (global_fingerprint_cache w') \<and>
    (to_skip_insert_cache w' \<or> (\<forall>i\<in>set m. holds_chunk sha data (global_fingerprint_cache w') i)) \<and>
    ((\<Sum>i\<leftarrow>m. chunk_pages sha data i) \<le> fc_num_free_pages (global_fingerprint_cache w) \<longrightarrow> \<not> to_skip_insert_cache w')"
  by (rule insert_inbound_stores [OF assms]) (auto simp: inserts_def cache_grows_def)

theorem receive_stores_missing_chunks_witness:
  "\<exists>w'. processs_insert_inbound_fingerprints (refilled_req length_sha example_data (all_of example_data)) idle_world =
       (1, refilled_req length_sha example_data (all_of example_data), w') \<and>
     list_all (holds_chunk length_sha example_data (global_fingerprint_cache w')) (all_of example_data)"
  using receive_stores_missing_chunks [OF example_refilled(1,2) example_free(1,2) example_free(3) example_message(3)]
    example_free(4)
  by (auto simp: list_all_iff)

text \<open>C8. Storing what is sent: likewise the sender's insertion stage, for all chunks of the message.\<close>

theorem send_stores_its_chunks:
  assumes "send_inv sha data m (sr, w)" "sr_stage sr = INSERT_OUTBOUND_FINGERPRINTS"
    and "unlocked w" "\<not> to_skip_insert_cache w"
    and "cache_agrees sha data (global_fingerprint_cache w)" "digests_separate sha data"
  shows "\<exists>w'. process_insert_outbound_fingerprints sr w = (1, sr, w') \<and> unlocked w' \<and>
    cache_agrees sha data (global_fingerprint_cache w') \<and>
    cache_contents (global_fingerprint_cache w) \<subseteq>\<^sub>m cache_contents (global_fingerprint_cache w') \<and>
    (to_skip_insert_cache w' \<or>
       (\<forall>i<length (msg_fps sha data). holds_chunk sha data (global_fingerprint_cache w') i)) \<and>
    ((\<Sum>i\<leftarrow>[0..<length (msg_fps sha data)]. chunk_pages sha data i) \<le> fc_num_free_pages (global_fingerprint_cache w) \<longrightarrow>
       \<not> to_skip_insert_cache w')"
  by (rule insert_outbound_stores [OF assms]) (auto simp: inserts_def cache_grows_def)

theorem send_stores_its_chunks_witness:
  "\<exists>sr w'. process_insert_outbound_fingerprints sr idle_world = (1, sr, w') \<and> sr_data sr = example_data \<and>
     list_all (holds_chunk length_sha example_data (global_fingerprint_cache w')) (all_of example_data)"
proof -
  obtain sr where sr: "send_inv length_sha example_data [] (sr, idle_world)" "sr_stage sr = INSERT_OUTBOUND_FINGERPRINTS"
    by (rule example_computed)
  have "sr_data sr = example_data" using sr(1) by (simp add: send_inv_def)
  then show ?thesis
    using send_stores_its_chunks [OF sr example_free(1,2) example_free(3) example_message(3)] example_free(4)
    by (intro exI [of _ sr]) (auto simp: list_all_iff all_of_def)
qed

end
