(* ===== verification/Requests.thy ===== *)
theory Requests
  imports Protocol
begin

text \<open>
  The stage loops and the exported functions as their callers see them: what a call can return, what a
  failing socket, a split header, a full dump file or a busy connection leads to, and what initialisation
  and connection establishment leave behind.
\<close>

section \<open>Helper facts\<close>

lemma example_settings: "chunk_bounds (world_settings idle_world)"
  by (simp add: idle_world_def example_cache_fields fingerprint_cache_settings_ok)

lemma sock_send_fails:
  assumes "sk_answers (socks w fd) = Fails e # as"
  obtains w' where "sock_send fd bs w = (- 1, w')" "sk_answers (socks w' fd) = as"
  using assms by (simp add: sock_send_def)

lemma sock_recv_fails:
  assumes "sk_answers (socks w fd) = Fails e # as"
  obtains w' where "sock_recv fd n w = (- 1, [], w')" "sk_answers (socks w' fd) = as"
  using assms by (simp add: sock_recv_def)

text \<open>The next thing the request does is a call on its socket: every stage but the three that compute or
  use the cache, and in the stages that loop over data or contents as long as something is left.\<close>

definition send_at_socket :: "Dedup_Send_Req \<Rightarrow> bool" where
  "send_at_socket sr \<longleftrightarrow>
     (case sr_stage sr of
        SEND_REG_DATA \<Rightarrow> sr_offset sr < sr_size sr
      | SEND_MISSING_CONTENT \<Rightarrow> ss_cur_reply_content_fingerprint_ind (sr_state sr) < sr_num_missing sr
      | s \<Rightarrow> s \<notin> {COMPUTE_FINGERPRINTS, INSERT_OUTBOUND_FINGERPRINTS, SEND_COMPLETE})"

definition recv_at_socket :: "Dedup_Recv_Req \<Rightarrow> bool" where
  "recv_at_socket rr \<longleftrightarrow>
     (case rr_stage rr of
        RECV_REG_DATA \<Rightarrow> rr_app_offset rr < rr_content_size rr
      | RECV_MISSING_CONTENT \<Rightarrow> rs_cur_recv_content_ind (rr_state rr) < rs_num_missing_fingerprints (rr_state rr)
      | s \<Rightarrow> s \<notin> {POPULATE_FROM_NET_CACHE, INSERT_INBOUND_FINGERPRINTS, RECV_COMPLETE})"

lemma send_content_fails:
  assumes "ss_cur_reply_content_fingerprint_ind (sr_state sr) < sr_num_missing sr"
    and "sk_answers (socks w (sr_sockfd sr)) = Fails e # as"
  obtains w' where "process_send_missing_content sr w = (0, sr, w')" "errno w' = EAGAIN" "sk_answers (socks w' (sr_sockfd sr)) = as"
proof -
  obtain n where "sr_num_missing sr - ss_cur_reply_content_fingerprint_ind (sr_state sr) = Suc n"
    using assms(1) by (metis Suc_diff_Suc)
  then show thesis
    using that assms(2) by (simp add: process_send_missing_content_def Let_def retry_on_error_0 sock_send_def)
qed

lemma recv_content_fails:
  assumes "rs_cur_recv_content_ind (rr_state rr) < rs_num_missing_fingerprints (rr_state rr)"
    and "sk_answers (socks w (rr_sockfd rr)) = Fails e # as"
  obtains w' where "process_recv_missing_content rr w = (0, rr, w')" "errno w' = EAGAIN" "sk_answers (socks w' (rr_sockfd rr)) = as"
proof -
  obtain n where "rs_num_missing_fingerprints (rr_state rr) - rs_cur_recv_content_ind (rr_state rr) = Suc n"
    using assms(1) by (metis Suc_diff_Suc)
  then show thesis
    using that assms(2) by (simp add: process_recv_missing_content_def Let_def retry_on_error_0 sock_recv_def)
qed

lemma send_handler_fails:
  assumes "send_at_socket sr" "sk_answers (socks w (sr_sockfd sr)) = Fails e # as"
  obtains w' where "send_handler sha (sr_stage sr) sr w = Some (0, sr, w')" "errno w' = EAGAIN" "sk_answers (socks w' (sr_sockfd sr)) = as"
proof (cases "sr_stage sr = SEND_MISSING_CONTENT")
  case True
  then show thesis
    using that send_content_fails [OF _ assms(2)] assms(1) by (auto simp: send_at_socket_def send_handler_def)
next
  case False
  have "\<exists>w'. send_handler sha (sr_stage sr) sr w = Some (0, sr, w') \<and> errno w' = EAGAIN \<and> sk_answers (socks w' (sr_sockfd sr)) = as"
    using assms False
    by (auto simp: send_at_socket_def send_handler_def send_handler_defs Let_def retry_on_error_0 sock_send_def sock_recv_def
        split: SendReqStage.splits)
  then show thesis using that by blast
qed

lemma recv_handler_fails:
  assumes "recv_at_socket rr" "sk_answers (socks w (rr_sockfd rr)) = Fails e # as"
  obtains w' where "recv_handler (rr_stage rr) rr w = (0, rr, w')" "errno w' = EAGAIN" "sk_answers (socks w' (rr_sockfd rr)) = as"
proof (cases "rr_stage rr = RECV_MISSING_CONTENT")
  case True
  then show thesis
    using that recv_content_fails [OF _ assms(2)] assms(1) by (auto simp: recv_at_socket_def recv_handler_def)
next
  case False
  have "\<exists>w'. recv_handler (rr_stage rr) rr w = (0, rr, w') \<and> errno w' = EAGAIN \<and> sk_answers (socks w' (rr_sockfd rr)) = as"
    using assms False
    by (auto simp: recv_at_socket_def recv_handler_def recv_handler_defs Let_def retry_on_error_0 sock_send_def sock_recv_def
        split: RecvReqStage.splits)
  then show thesis using that by blast
qed

lemma test_never_kills:
  assumes "chunk_bounds (world_settings w)"
  shows "\<exists>fin n req' w'. netDedup_test sha req want w = Some (Tested fin n req' w')"
proof (cases req)
  case (Some r)
  then show ?thesis
  proof (cases r)
    case (SendReq sr)
    then show ?thesis
      using process_send_result [OF assms, of sha sr] Some by (auto simp: netDedup_test_def finish_test_def)
  next
    case (RecvReq rr)
    then show ?thesis
      using process_recv_result [of rr w] Some by (auto simp: netDedup_test_def finish_test_def)
  qed
qed (auto simp: netDedup_test_def)

section \<open>Which calls mark and free a descriptor\<close>

lemma sock_send_marks: "sock_send fd bs w = (n, w') \<Longrightarrow> active_fds w' = active_fds w"
  by (auto simp: sock_send_def split: list.splits answer.splits)

lemma sock_recv_marks: "sock_recv fd n w = (m, bs, w') \<Longrightarrow> active_fds w' = active_fds w"
  by (auto simp: sock_recv_def Let_def split: list.splits answer.splits)

lemma send_content_marks: "active_fds (snd (snd (send_missing_content_loop sr w i off n))) = active_fds w"
  by (induction n arbitrary: sr w i off)
    (auto simp: Let_def retry_on_error_0 dest: sock_send_marks split: prod.split)

lemma recv_content_marks: "active_fds (snd (snd (recv_missing_content_loop rr w i off n))) = active_fds w"
  by (induction n arbitrary: rr w i off)
    (auto simp: Let_def retry_on_error_0 dest: sock_recv_marks split: prod.split)

lemma send_handler_marks:
  assumes "send_handler sha s sr w = Some (r, sr', w')"
  shows "active_fds w' = active_fds w"
proof (cases "s = SEND_MISSING_CONTENT")
  case True
  then show ?thesis
    using assms send_content_marks [of sr w] by (auto simp: send_handler_def process_send_missing_content_def Let_def) (metis snd_conv)
next
  case False
  then show ?thesis
    using assms
    by (cases s) (auto simp: send_handler_def send_handler_defs process_insert_outbound_fingerprints_def
      process_compute_fingerprints_def Let_def retry_on_error_0 dest: sock_send_marks sock_recv_marks split: prod.splits if_splits)
qed

lemma recv_handler_marks:
  assumes "recv_handler s rr w = (r, rr', w')"
  shows "active_fds w' = active_fds w"
proof (cases "s = RECV_MISSING_CONTENT")
  case True
  then show ?thesis
    using assms recv_content_marks [of rr w] by (auto simp: recv_handler_def process_recv_missing_content_def Let_def) (metis snd_conv)
next
  case False
  then show ?thesis
    using assms
    by (cases s) (auto simp: recv_handler_def recv_handler_defs processs_insert_inbound_fingerprints_def
      process_populate_from_net_cache_def Let_def retry_on_error_0 dest: sock_send_marks sock_recv_marks split: prod.splits if_splits)
qed

lemma process_send_marks:
  "process_send sha sr w = Some (r, sr', w') \<Longrightarrow> active_fds w' = active_fds w \<and> sr_sockfd sr' = sr_sockfd sr"
proof (induction sha sr w arbitrary: r sr' w' rule: process_send.induct)
  case (1 sha sr w)
  show ?case
  proof (cases "sr_stage sr = SEND_COMPLETE")
    case True
    then show ?thesis using 1(2) by (simp add: process_send.simps [of sha sr w] process_send_complete_def)
  next
    case False
    then obtain c sr1 w1 where h: "send_handler sha (sr_stage sr) sr w = Some (c, sr1, w1)"
      using 1(2) by (subst (asm) process_send.simps) (auto split: option.splits)
    have k: "active_fds w1 = active_fds w" "sr_sockfd sr1 = sr_sockfd sr"
      using send_handler_marks [OF h] send_handler_ok [OF h] by (auto simp: handler_ok_def same_message_def)
    show ?thesis
    proof (cases "c = 1")
      case True
      then have "process_send sha (sr1\<lparr>sr_stage := send_next_stage (sr_stage sr) sr1\<rparr>) w1 = Some (r, sr', w')"
        using 1(2) False h by (subst (asm) process_send.simps) simp
      from 1(1) [OF False h refl refl True this] show ?thesis using k by simp
    next
      case c: False
      then show ?thesis using 1(2) False h k by (subst (asm) process_send.simps) (auto split: if_splits)
    qed
  qed
qed

lemma process_recv_marks:
  "process_recv rr w = (r, rr', w') \<Longrightarrow> active_fds w' = active_fds w"
proof (induction rr w arbitrary: r rr' w' rule: process_recv.induct)
  case (1 rr w)
  show ?case
  proof (cases "rr_stage rr = RECV_COMPLETE")
    case True
    then show ?thesis using 1(2) by (simp add: process_recv.simps [of rr w])
  next
    case False
    obtain c rr1 w1 where h: "recv_handler (rr_stage rr) rr w = (c, rr1, w1)" by (metis prod_cases3)
    have k: "active_fds w1 = active_fds w" by (rule recv_handler_marks [OF h])
    show ?thesis
    proof (cases "c = 1")
      case True
      then have "process_recv (rr1\<lparr>rr_stage := recv_next_stage (rr_stage rr) rr1\<rparr>) w1 = (r, rr', w')"
        using 1(2) False h by (subst (asm) process_recv.simps) simp
      from 1(1) [OF False h [symmetric] refl True this] show ?thesis using k by simp
    next
      case c: False
      then show ?thesis using 1(2) False h k by (subst (asm) process_recv.simps) (auto split: if_splits)
    qed
  qed
qed

text \<open>The calls a process makes while a request is posted on \<open>fd\<close>: sends and receives on any communicator
  and tests of any request, in any order, except that no test of a request on \<open>fd\<close> reports it done. In
  between everything but the marks may change: bytes and answers arrive, other processes use the cache.\<close>

definition req_fd :: "Dedup_Req \<Rightarrow> int" where
  "req_fd req = (case req of SendReq sr \<Rightarrow> sr_sockfd sr | RecvReq rr \<Rightarrow> rr_sockfd rr)"

inductive posted_run :: "int \<Rightarrow> World \<Rightarrow> World \<Rightarrow> bool" for fd :: int and w :: World where
  start: "posted_run fd w w"
| environment: "posted_run fd w w1 \<Longrightarrow> active_fds w2 = active_fds w1 \<Longrightarrow> posted_run fd w w2"
| isend: "posted_run fd w w1 \<Longrightarrow> netDedup_isend sha comm data sz w1 = Some (res, i, comm1, w2) \<Longrightarrow> posted_run fd w w2"
| irecv: "posted_run fd w w1 \<Longrightarrow> netDedup_irecv rcomm buf sz w1 = (res, i, rcomm1, w2) \<Longrightarrow> posted_run fd w w2"
| test: "posted_run fd w w1 \<Longrightarrow> netDedup_test sha (Some req) want w1 = Some (Tested fin n req1 w2) \<Longrightarrow>
    \<not> fin \<or> req_fd req \<noteq> fd \<Longrightarrow> posted_run fd w w2"

lemma dump_send_marks: "dump_send data sz w = Some (r, w') \<Longrightarrow> active_fds w' = active_fds w"
  by (auto simp: dump_send_def Let_def split: if_splits)

lemma isend_marks:
  assumes "netDedup_isend sha comm data sz w = Some (res, i, comm1, w1)" "active_fds w fd"
  shows "active_fds w1 fd"
  using assms dump_send_marks process_send_marks
  by (fastforce simp: netDedup_isend_def Let_def split: if_splits option.splits prod.splits)

lemma irecv_marks:
  assumes "netDedup_irecv rcomm buf sz w = (res, i, rcomm1, w1)" "active_fds w fd"
  shows "active_fds w1 fd"
  using assms process_recv_marks
  by (fastforce simp: netDedup_irecv_def Let_def split: if_splits prod.splits)

lemma test_marks:
  assumes "netDedup_test sha (Some req) want w = Some (Tested fin n req1 w1)"
  shows "active_fds w1 = (if fin then (active_fds w)(req_fd req := False) else active_fds w)"
proof (cases req)
  case (SendReq sr)
  obtain c sr1 w2 where p: "process_send sha sr w = Some (c, sr1, w2)"
    using assms SendReq by (auto simp: netDedup_test_def split: option.splits)
  then show ?thesis
    using assms SendReq process_send_marks [OF p]
    by (auto simp: netDedup_test_def finish_test_def req_fd_def split: if_splits)
next
  case (RecvReq rr)
  obtain c rr1 w2 where p: "process_recv rr w = (c, rr1, w2)" by (metis prod_cases3)
  then show ?thesis
    using assms RecvReq process_recv_marks [OF p] process_recv_result [of rr w]
    by (auto simp: netDedup_test_def finish_test_def req_fd_def split: if_splits)
qed

lemma posted_run_marked:
  assumes "posted_run fd w w1" "active_fds w fd"
  shows "active_fds w1 fd"
  using assms by (induction rule: posted_run.induct) (auto dest: isend_marks irecv_marks test_marks)

text \<open>A posted request on a silent socket.\<close>

lemma posted_send_waits:
  assumes "sk_answers (socks w fd) = []"
  shows "process_send sha (posted_send_req fd data sz) w = Some (0, posted_send_req fd data sz, w\<lparr>errno := EAGAIN\<rparr>)"
proof -
  let ?sr = "posted_send_req fd data sz"
  have st: "sr_stage ?sr = SEND_HEADER" "sr_sockfd ?sr = fd" by (simp_all add: posted_send_req_def)
  have "send_handler sha SEND_HEADER ?sr w = Some (0, ?sr, w\<lparr>errno := EAGAIN\<rparr>)"
    using assms st(2)
    by (simp add: send_handler_def process_send_header_def Let_def sock_send_idle retry_on_error_0)
  then show ?thesis by (subst process_send.simps) (simp add: st)
qed

lemma posted_recv_waits:
  assumes "sk_answers (socks w fd) = []"
  shows "process_recv (posted_recv_req fd buf sz) w = (0, posted_recv_req fd buf sz, w\<lparr>errno := EAGAIN\<rparr>)"
proof -
  let ?rr = "posted_recv_req fd buf sz"
  have st: "rr_stage ?rr = RECV_HEADER" "rr_sockfd ?rr = fd" by (simp_all add: posted_recv_req_def)
  have "recv_handler RECV_HEADER ?rr w = (0, ?rr, w\<lparr>errno := EAGAIN\<rparr>)"
    using assms st(2)
    by (simp add: recv_handler_def process_recv_header_def Let_def sock_recv_idle retry_on_error_0)
  then show ?thesis by (subst process_recv.simps) (simp add: st)
qed

text \<open>A process whose dump files have room, and a communicator of each kind.\<close>

definition roomy_world :: World where
  "roomy_world = idle_world\<lparr>dump_bytes_room := 1000, dump_sizes_room := 100\<rparr>"

definition example_send_comm :: Dedup_Send_Comm where
  "example_send_comm = new_send_comm idle_world 0 \<lparr>ch_addr = \<lparr>sin_addr = 0, sin_port = 0\<rparr>, ch_connectingFd = 5,
     ch_in_progress = False, ch_is_connected = True\<rparr>"

definition example_recv_comm :: Dedup_Recv_Comm where
  "example_recv_comm = new_recv_comm idle_world \<lparr>lc_dev_num = 0, lc_listenFd = 4, lc_acceptedFd = 6,
     lc_src_addr = \<lparr>sin_addr = 0, sin_port = 0\<rparr>\<rparr>"

lemmas example_comm_defs = example_send_comm_def example_recv_comm_def new_send_comm_def new_recv_comm_def

lemma example_posts:
  obtains comm' w' rcomm' v' where
    "netDedup_isend ones_sha example_send_comm [1, 2] 2 roomy_world = Some (ncclSuccess, Some 0, comm', w')"
    "netDedup_irecv example_recv_comm [0, 0] 2 roomy_world = (ncclSuccess, Some 0, rcomm', v')"
    "sk_answers (socks w' 5) = []" "sc_fd comm' = 5" "chunk_bounds (world_settings w')"
  using example_settings by (simp add: netDedup_isend_def netDedup_irecv_def dump_send_def Let_def posted_send_waits posted_recv_waits
      example_comm_defs roomy_world_def idle_world_def)

section \<open>Properties of the stage loops\<close>

text \<open>A call of \<open>process_send\<close> comes back: with any chunking settings that make the chunking loop
  end it returns 0 or 1, 1 exactly when the request is complete, never -1, and the request has not gone
  back in the order of the stages nor changed its message.\<close>

theorem process_send_returns:
  assumes "chunk_bounds (world_settings w)"
  shows "\<exists>r sr' w'. process_send sha sr w = Some (r, sr', w') \<and> (r = 0 \<or> r = 1) \<and>
    (r = 1 \<longleftrightarrow> sr_stage sr' = SEND_COMPLETE) \<and> sr_stage sr \<le> sr_stage sr' \<and>
    sr_size sr' = sr_size sr \<and> sr_data sr' = sr_data sr"
  using process_send_result [OF assms, of sha sr] unfolding less_eq_SendReqStage_def by blast

theorem process_send_returns_witness:
  "\<exists>r sr' w'. process_send ones_sha (posted_send_req 5 example_data 20000) idle_world = Some (r, sr', w') \<and>
     (r = 0 \<or> r = 1)"
  using process_send_returns [OF example_settings, of ones_sha "posted_send_req 5 example_data 20000"] by blast

text \<open>A call of \<open>process_recv\<close> always comes back, with 0 or 1, 1 exactly when the request is
  complete, and never with -1; the request has not gone back in the order of the stages.\<close>

theorem process_recv_returns:
  "\<exists>r rr' w'. process_recv rr w = (r, rr', w') \<and> (r = 0 \<or> r = 1) \<and>
    (r = 1 \<longleftrightarrow> rr_stage rr' = RECV_COMPLETE) \<and> rr_stage rr \<le> rr_stage rr'"
  using process_recv_result [of rr w] unfolding less_eq_RecvReqStage_def by blast

text \<open>C36. A dead connection is polled for ever: whatever error a socket call reports, in whatever stage
  of a send or a receive, a test answers "not done" and leaves the request as it was; and no test of any
  request, whatever its sockets answer, takes the branch that reports a failure.\<close>

theorem socket_errors_never_reported:
  assumes "send_at_socket sr" "sk_answers (socks w (sr_sockfd sr)) = Fails e # as"
    and "recv_at_socket rr" "sk_answers (socks v (rr_sockfd rr)) = Fails e' # bs"
    and "chunk_bounds (world_settings u)"
  shows "(\<exists>w'. netDedup_test sha (Some (SendReq sr)) want w = Some (Tested False None (Some (SendReq sr)) w') \<and>
           errno w' = EAGAIN \<and> sk_answers (socks w' (sr_sockfd sr)) = as) \<and>
         (\<exists>v'. netDedup_test sha (Some (RecvReq rr)) want v = Some (Tested False None (Some (RecvReq rr)) v') \<and>
           errno v' = EAGAIN \<and> sk_answers (socks v' (rr_sockfd rr)) = bs) \<and>
         netDedup_test sha req want u \<noteq> Some Killed"
proof (intro conjI)
  obtain w' where h: "send_handler sha (sr_stage sr) sr w = Some (0, sr, w')" "errno w' = EAGAIN"
    "sk_answers (socks w' (sr_sockfd sr)) = as"
    by (rule send_handler_fails [OF assms(1,2)])
  moreover have "sr_stage sr \<noteq> SEND_COMPLETE" using assms(1) by (auto simp: send_at_socket_def)
  ultimately show "\<exists>w'. netDedup_test sha (Some (SendReq sr)) want w = Some (Tested False None (Some (SendReq sr)) w') \<and>
      errno w' = EAGAIN \<and> sk_answers (socks w' (sr_sockfd sr)) = as"
    by (simp add: netDedup_test_def process_send.simps [of sha sr w] finish_test_def)
next
  obtain v' where h: "recv_handler (rr_stage rr) rr v = (0, rr, v')" "errno v' = EAGAIN"
    "sk_answers (socks v' (rr_sockfd rr)) = bs"
    by (rule recv_handler_fails [OF assms(3,4)])
  moreover have "rr_stage rr \<noteq> RECV_COMPLETE" using assms(3) by (auto simp: recv_at_socket_def)
  ultimately show "\<exists>v'. netDedup_test sha (Some (RecvReq rr)) want v = Some (Tested False None (Some (RecvReq rr)) v') \<and>
      errno v' = EAGAIN \<and> sk_answers (socks v' (rr_sockfd rr)) = bs"
    by (simp add: netDedup_test_def process_recv.simps [of rr v] finish_test_def)
next
  show "netDedup_test sha req want u \<noteq> Some Killed" using test_never_kills [OF assms(5), of sha req want] by auto
qed

text \<open>Error 104 is ECONNRESET.\<close>

theorem socket_errors_never_reported_witness:
  "\<exists>w'. netDedup_test ones_sha (Some (RecvReq (posted_recv_req 6 [0] 1))) True (sock_answer 6 [Fails 104, Fails 104] idle_world) =
     Some (Tested False None (Some (RecvReq (posted_recv_req 6 [0] 1))) w') \<and> sk_answers (socks w' 6) = [Fails 104]"
proof -
  let ?sr = "posted_send_req 5 [0] 1" and ?rr = "posted_recv_req 6 [0] 1"
  let ?w = "sock_answer 5 [Fails 104] idle_world" and ?v = "sock_answer 6 [Fails 104, Fails 104] idle_world"
  have "sr_sockfd ?sr = 5" "rr_sockfd ?rr = 6" "send_at_socket ?sr" "recv_at_socket ?rr"
    by (simp_all add: posted_send_req_def posted_recv_req_def send_at_socket_def recv_at_socket_def)
  then show ?thesis
    using socket_errors_never_reported [of ?sr ?w 104 "[]" ?rr ?v 104 "[Fails 104]" idle_world ones_sha True None]
      example_settings by auto
qed

text \<open>C37. A header that arrives in two parts is put together wrongly: the second part is written at 16
  times its offset, so the header in the request keeps what was there before, although the read
  counts as complete.\<close>

theorem split_header_misplaced:
  assumes "rr_recv_header_offset rr = 0" "length (rr_mem rr) = rr_mem_size" "rr_sockfd rr = fd"
    and "sk_in (socks w fd) = h" "length h = 16" "sk_answers (socks w fd) = [Moves k, Moves 16]" "0 < k" "k < 16"
  shows "\<exists>rr1 w1 rr2 w2. process_recv_header rr w = (0, rr1, w1) \<and> process_recv_header rr1 w1 = (1, rr2, w2) \<and>
    bytes_at 0 16 (rr_mem rr2) = take k h @ bytes_at k (16 - k) (rr_mem rr) \<and>
    bytes_at (16 * k) (16 - k) (rr_mem rr2) = drop k h"
proof -
  let ?m1 = "add_int_at 16 k (bytes_put 0 (take k h) (rr_mem rr))"
  let ?rr1 = "rr\<lparr>rr_mem := ?m1\<rparr>"
  let ?m2 = "bytes_put (16 * k) (drop k h) ?m1"
  let ?s = "\<lambda>as x. (socks w)(fd := (socks w fd)\<lparr>sk_answers := as, sk_in := x\<rparr>)"
  have l1: "length (bytes_put 0 (take k h) (rr_mem rr)) = rr_mem_size" using assms by (simp add: rr_mem_size_eq)
  have l: "length ?m1 = rr_mem_size" using l1 by (simp add: add_int_at_def rr_mem_size_eq)
  have "mem_int (bytes_put 0 (take k h) (rr_mem rr)) 16 = 0"
    using assms by (simp add: rr_recv_header_offset_def mem_int_def bytes_at_bytes_put_after rr_mem_size_eq)
  then have off: "rr_recv_header_offset ?rr1 = k"
    using mem_int_add_int_at [of 16 "bytes_put 0 (take k h) (rr_mem rr)" k] l1 assms(8)
    by (simp add: rr_recv_header_offset_def rr_mem_size_eq)
  have "process_recv_header rr w = (0, ?rr1, w\<lparr>socks := ?s [Moves 16] (drop k h)\<rparr>)"
    unfolding process_recv_header_def assms(1,3)
    using assms(3-8) by (simp add: sock_recv_def Let_def sizeof_General_Header_def u64_sub_def min_def)
  moreover have "u64_sub 16 k = 16 - k"
    using assms(8) by (simp add: u64_sub_def mod_if)
  then have "process_recv_header ?rr1 (w\<lparr>socks := ?s [Moves 16] (drop k h)\<rparr>) =
      (1, ?rr1\<lparr>rr_mem := ?m2\<rparr>, w\<lparr>socks := ?s [] []\<rparr>)"
    unfolding process_recv_header_def off
    using assms(3-8) by (simp add: sock_recv_def Let_def sizeof_General_Header_def min_def)
  moreover have "bytes_at 0 16 ?m2 = take k h @ bytes_at k (16 - k) (rr_mem rr)"
  proof -
    have "bytes_at 0 16 ?m2 = bytes_at 0 16 ?m1"
      using l assms(5,7,8) by (intro bytes_at_bytes_put_before) (simp_all add: rr_mem_size_eq)
    also have "\<dots> = bytes_at 0 16 (bytes_put 0 (take k h) (rr_mem rr))"
      unfolding add_int_at_def using l1 by (intro bytes_at_bytes_put_before) (simp_all add: rr_mem_size_eq)
    also have "\<dots> = bytes_at 0 k (bytes_put 0 (take k h) (rr_mem rr)) @ bytes_at k (16 - k) (bytes_put 0 (take k h) (rr_mem rr))"
      using bytes_at_append [of 0 k "bytes_put 0 (take k h) (rr_mem rr)" "16 - k"] assms(8) by simp
    also have "\<dots> = take k h @ bytes_at k (16 - k) (rr_mem rr)"
      using bytes_at_bytes_put_same [of 0 "take k h" "rr_mem rr"] assms(2,5,8)
      by (simp add: rr_mem_size_eq bytes_at_bytes_put_after)
    finally show ?thesis .
  qed
  moreover have "bytes_at (16 * k) (16 - k) ?m2 = drop k h"
    using bytes_at_bytes_put_same [of "16 * k" "drop k h" ?m1] l assms(5,8) by (simp add: rr_mem_size_eq)
  ultimately show ?thesis by (intro exI conjI) (assumption | simp)+
qed

theorem split_header_misplaced_witness:
  "\<exists>rr1 w1 rr2 w2.
     process_recv_header (posted_recv_req 6 (replicate 1000 0) 1000)
       (sock_answer 6 [Moves 8, Moves 16] (sock_feed 6 (header_image \<lparr>is_fingerprint = 0, header_content_size = 1000\<rparr>) idle_world)) =
       (0, rr1, w1) \<and>
     process_recv_header rr1 w1 = (1, rr2, w2) \<and> rr_content_size rr2 = 0"
proof -
  let ?rr = "posted_recv_req 6 (replicate 1000 0) 1000"
  let ?h = "header_image \<lparr>is_fingerprint = 0, header_content_size = 1000\<rparr>"
  let ?w = "sock_answer 6 [Moves 8, Moves 16] (sock_feed 6 ?h idle_world)"
  have mem: "rr_mem ?rr = replicate rr_mem_size 0" "rr_sockfd ?rr = 6" by (simp_all add: posted_recv_req_def zero_recv_req_def)
  then have off: "rr_recv_header_offset ?rr = 0"
    by (simp add: rr_recv_header_offset_def mem_int_def bytes_at_replicate rr_mem_size_eq le_value_zeros)
  have io: "sk_in (socks ?w 6) = ?h" by (simp add: sock_feed_def idle_world_def)
  obtain rr1 w1 rr2 w2 where R: "process_recv_header ?rr ?w = (0, rr1, w1)" "process_recv_header rr1 w1 = (1, rr2, w2)"
    "bytes_at 0 16 (rr_mem rr2) = take 8 ?h @ bytes_at 8 (16 - 8) (rr_mem ?rr)"
    using split_header_misplaced [OF off _ mem(2) io, of 8] mem(1) by (auto simp: sizeof_General_Header_def)
  have "bytes_at 8 8 (rr_mem rr2) = bytes_at 8 8 (bytes_at 0 16 (rr_mem rr2))" by (simp add: bytes_at_bytes_at)
  also have "\<dots> = replicate 8 0"
    unfolding R(3) mem(1) by (simp add: header_image_def bytes_at_replicate rr_mem_size_eq) (simp add: bytes_at_def)
  finally have "rr_content_size rr2 = 0" by (simp add: rr_content_size_def mem_u64_def le_value_zeros)
  then show ?thesis using R(1,2) by blast
qed

section \<open>Properties of the exported functions\<close>

text \<open>A test of a send answers the caller, it never kills the process: "done" comes exactly with the
  last stage, reports the size of the message and frees the connection for the next request; otherwise
  nothing is reported and the connection stays taken.\<close>

theorem test_send_outcome:
  assumes "chunk_bounds (world_settings w)"
  shows "\<exists>r sr' w'. process_send sha sr w = Some (r, sr', w') \<and>
    netDedup_test sha (Some (SendReq sr)) want w =
      Some (if sr_stage sr' = SEND_COMPLETE
            then Tested True (if want then Some (to_int32 (header_content_size (sr_header sr))) else None) (Some (SendReq sr'))
                   (w'\<lparr>active_fds := (active_fds w')(sr_sockfd sr := False)\<rparr>)
            else Tested False None (Some (SendReq sr')) w')"
proof -
  obtain r sr' w' where "process_send sha sr w = Some (r, sr', w')" "r = 0 \<or> r = 1" "r = 1 \<longleftrightarrow> sr_stage sr' = SEND_COMPLETE"
    "sr_sockfd sr' = sr_sockfd sr" "sr_header sr' = sr_header sr"
    using process_send_result [OF assms, of sha sr] by blast
  then show ?thesis
    by (intro exI [of _ r] exI [of _ sr'] exI [of _ w']) (auto simp: netDedup_test_def finish_test_def)
qed

theorem test_send_outcome_witness:
  "\<exists>sr' w'. netDedup_test ones_sha (Some (SendReq (posted_send_req 5 example_data 20000))) True idle_world =
     Some (Tested False None (Some (SendReq sr')) w')"
proof -
  let ?sr = "posted_send_req 5 example_data 20000"
  have "process_send ones_sha ?sr idle_world = Some (0, ?sr, idle_world\<lparr>errno := EAGAIN\<rparr>)"
    by (rule posted_send_waits) (simp add: idle_world_def)
  moreover have "sr_stage ?sr = SEND_HEADER" by (simp add: posted_send_req_def)
  ultimately show ?thesis
    using test_send_outcome [OF example_settings, of ones_sha ?sr True] by auto
qed

text \<open>Likewise a test of a receive, in every state; the size reported is the one the header announced.\<close>

theorem test_recv_outcome:
  "\<exists>r rr' w'. process_recv rr w = (r, rr', w') \<and>
    netDedup_test sha (Some (RecvReq rr)) want w =
      Some (if rr_stage rr' = RECV_COMPLETE
            then Tested True (if want then Some (to_int32 (rr_content_size rr')) else None) (Some (RecvReq rr'))
                   (w'\<lparr>active_fds := (active_fds w')(rr_sockfd rr := False)\<rparr>)
            else Tested False None (Some (RecvReq rr')) w')"
proof -
  obtain r rr' w' where "process_recv rr w = (r, rr', w')" "r = 0 \<or> r = 1" "r = 1 \<longleftrightarrow> rr_stage rr' = RECV_COMPLETE"
    "rr_sockfd rr' = rr_sockfd rr"
    using process_recv_result [of rr w] by blast
  then show ?thesis
    by (intro exI [of _ r] exI [of _ rr'] exI [of _ w']) (auto simp: netDedup_test_def finish_test_def)
qed

text \<open>C39. One request at a time on a connection: after a send or receive has been posted, and through
  every run of calls of the process in which no test of a request on that descriptor has reported it
  done, a further send or receive on the descriptor is answered with no request and changes nothing; the
  test that does report it done frees the descriptor.\<close>

theorem one_request_per_connection:
  assumes "netDedup_isend sha comm data sz w = Some (ncclSuccess, Some i, comm', w')"
    and "posted_run (sc_fd comm) w' w1" "sc_fd comm1 = sc_fd comm"
    and "netDedup_irecv rcomm buf rsz v = (ncclSuccess, Some j, rcomm', v')"
    and "posted_run (rc_fd rcomm) v' v1" "rc_fd rcomm1 = rc_fd rcomm"
  shows "netDedup_isend sha1 comm1 data1 sz1 w1 = Some (ncclSuccess, None, comm1, w1) \<and>
    netDedup_irecv rcomm1 buf1 rsz1 v1 = (ncclSuccess, None, rcomm1, v1) \<and>
    (\<forall>req n req' w2. req_fd req = sc_fd comm \<longrightarrow>
       netDedup_test sha1 (Some req) want w1 = Some (Tested True n req' w2) \<longrightarrow> \<not> active_fds w2 (sc_fd comm1))"
proof -
  have "active_fds w' (sc_fd comm)"
    using assms(1) by (auto simp: netDedup_isend_def Let_def split: if_splits option.splits)
  moreover have "active_fds v' (rc_fd rcomm)"
    using assms(4) by (auto simp: netDedup_irecv_def Let_def split: if_splits prod.splits)
  ultimately have "active_fds w1 (sc_fd comm1)" "active_fds v1 (rc_fd rcomm1)"
    using posted_run_marked assms(2,3,5,6) by auto
  then show ?thesis using assms(3) by (auto simp: netDedup_isend_def netDedup_irecv_def dest: test_marks)
qed

text \<open>The request posted on a silent socket is tested once, without success, before the second send.\<close>

theorem one_request_per_connection_witness:
  "\<exists>comm' w' w1. netDedup_isend ones_sha example_send_comm [1, 2] 2 roomy_world = Some (ncclSuccess, Some 0, comm', w') \<and>
     netDedup_test ones_sha (Some (SendReq (posted_send_req 5 [1, 2] 2))) True w' =
       Some (Tested False None (Some (SendReq (posted_send_req 5 [1, 2] 2))) w1) \<and>
     netDedup_isend ones_sha comm' [3] 1 w1 = Some (ncclSuccess, None, comm', w1)"
proof -
  let ?sr = "posted_send_req 5 [1, 2] 2"
  obtain comm' w' rcomm' v' where S: "netDedup_isend ones_sha example_send_comm [1, 2] 2 roomy_world = Some (ncclSuccess, Some 0, comm', w')"
    and R: "netDedup_irecv example_recv_comm [0, 0] 2 roomy_world = (ncclSuccess, Some 0, rcomm', v')"
    and fd: "sk_answers (socks w' 5) = []" "sc_fd comm' = 5"
    by (rule example_posts)
  have c: "sc_fd example_send_comm = 5" by (simp add: example_comm_defs)
  have t: "netDedup_test ones_sha (Some (SendReq ?sr)) True w' = Some (Tested False None (Some (SendReq ?sr)) (w'\<lparr>errno := EAGAIN\<rparr>))"
    using posted_send_waits [OF fd(1)] by (simp add: netDedup_test_def finish_test_def)
  have p: "posted_run (sc_fd example_send_comm) w' (w'\<lparr>errno := EAGAIN\<rparr>)"
    by (rule posted_run.test [OF posted_run.start t]) simp
  have e: "sc_fd comm' = sc_fd example_send_comm" using fd(2) c by simp
  have "netDedup_isend ones_sha comm' [3] 1 (w'\<lparr>errno := EAGAIN\<rparr>) = Some (ncclSuccess, None, comm', w'\<lparr>errno := EAGAIN\<rparr>)"
    by (rule conjunct1 [OF one_request_per_connection [OF S p e R posted_run.start refl]])
  then show ?thesis using S t by blast
qed

text \<open>C38. A failed write to a dump file stops all further sends: the call that hits it reports an
  error and leaves the dump lock taken, and every later send on any free connection of the process then
  waits for it for ever.\<close>

theorem dump_failure_blocks_sends:
  assumes "\<not> active_fds w (sc_fd comm)" "\<not> sc_req_lock comm" "\<not> dump_lock w"
    and "0 < sz" "int (dump_bytes_room w) < sz \<or> dump_sizes_room w = 0"
  shows "\<exists>comm' w'. netDedup_isend sha comm data sz w = Some (ncclSystemError, None, comm', w') \<and> dump_lock w' \<and>
    (\<forall>comm2 data2 sz2. \<not> active_fds w' (sc_fd comm2) \<and> \<not> sc_req_lock comm2 \<longrightarrow>
       netDedup_isend sha comm2 data2 sz2 w' = None)"
  using assms by (auto simp: netDedup_isend_def dump_send_def Let_def split: if_splits)

theorem dump_failure_blocks_sends_witness:
  "\<exists>comm' w'. netDedup_isend ones_sha example_send_comm [1, 2] 2 idle_world =
       Some (ncclSystemError, None, comm', w') \<and> dump_lock w'"
  using dump_failure_blocks_sends [of idle_world example_send_comm 2 ones_sha "[1, 2]"]
  by (auto simp: idle_world_def example_comm_defs)



text \<open>The messages dumped one after the other, by as many sends.\<close>

fun dump_all :: "u8 list list \<Rightarrow> World \<Rightarrow> World option" where
  "dump_all [] w = Some w"
| "dump_all (d # ds) w =
     (case dump_send d (int (length d)) w of
        Some (r, w1) \<Rightarrow> if r = 0 then dump_all ds w1 else None
      | None \<Rightarrow> None)"

lemma dump_send_succeeds:
  assumes "\<not> dump_lock w" "length d \<le> dump_bytes_room w" "0 < dump_sizes_room w"
  obtains w1 where "dump_send d (int (length d)) w = Some (0, w1)" "\<not> dump_lock w1"
    "dump_bytes_file w1 = dump_bytes_file w @ d" "dump_sizes_file w1 = dump_sizes_file w @ [int (length d)]"
    "dump_bytes_room w1 = dump_bytes_room w - length d" "dump_sizes_room w1 = dump_sizes_room w - 1"
  using assms by (cases "d = []") (simp_all add: dump_send_def Let_def min_def)

lemma blocks_of_concat: "blocks_of (map length ds) (concat ds) = ds"
proof (rule nth_equalityI)
  fix i assume "i < length (blocks_of (map length ds) (concat ds))"
  then have i: "i < length ds" by simp
  have "concat ds = concat (take i ds) @ ds ! i @ concat (drop (Suc i) ds)"
    using id_take_nth_drop [OF i] by (metis concat.simps(2) concat_append)
  moreover have "offset_of (map length ds) i = length (concat (take i ds))"
    by (simp add: offset_of_def length_concat take_map)
  ultimately show "blocks_of (map length ds) (concat ds) ! i = ds ! i"
    using i by (simp add: bytes_at_def)
qed simp

lemma dump_all_files:
  assumes "\<not> dump_lock w" "sum_list (map length ds) \<le> dump_bytes_room w" "length ds \<le> dump_sizes_room w"
  shows "\<exists>w'. dump_all ds w = Some w' \<and> \<not> dump_lock w' \<and>
    dump_sizes_file w' = dump_sizes_file w @ map (int \<circ> length) ds \<and> dump_bytes_file w' = dump_bytes_file w @ concat ds"
  using assms
proof (induction ds arbitrary: w)
  case (Cons d ds)
  have "length d \<le> dump_bytes_room w" "0 < dump_sizes_room w" using Cons.prems by simp_all
  then obtain w1 where w1: "dump_send d (int (length d)) w = Some (0, w1)" "\<not> dump_lock w1"
    "dump_bytes_file w1 = dump_bytes_file w @ d" "dump_sizes_file w1 = dump_sizes_file w @ [int (length d)]"
    "dump_bytes_room w1 = dump_bytes_room w - length d" "dump_sizes_room w1 = dump_sizes_room w - 1"
    by (rule dump_send_succeeds [OF Cons.prems(1)])
  have "\<exists>w'. dump_all ds w1 = Some w' \<and> \<not> dump_lock w' \<and>
      dump_sizes_file w' = dump_sizes_file w1 @ map (int \<circ> length) ds \<and>
      dump_bytes_file w' = dump_bytes_file w1 @ concat ds"
    using Cons.prems w1(2,5,6) by (intro Cons.IH) auto
  then show ?case using w1(1,3,4) by auto
qed simp

text \<open>The dump files can be read back: after any number of sends into files with enough room, cutting
  the file of bytes at the sizes in the other file gives the messages in the order they were sent, and
  the dump lock is free.\<close>

theorem dump_files_read_back:
  assumes "\<not> dump_lock w" "dump_bytes_file w = []" "dump_sizes_file w = []"
    and "sum_list (map length ds) \<le> dump_bytes_room w" "length ds \<le> dump_sizes_room w"
  shows "\<exists>w'. dump_all ds w = Some w' \<and> \<not> dump_lock w' \<and>
    blocks_of (map nat (dump_sizes_file w')) (dump_bytes_file w') = ds"
proof -
  have "nat \<circ> (int \<circ> length) = (length :: u8 list \<Rightarrow> nat)" by (simp add: fun_eq_iff)
  then show ?thesis
    using dump_all_files [OF assms(1,4,5)] assms(2,3) blocks_of_concat [of ds] by auto
qed

theorem dump_files_read_back_witness:
  "\<exists>w'. dump_all [[1, 2, 3], [], [4]] roomy_world = Some w' \<and>
     blocks_of (map nat (dump_sizes_file w')) (dump_bytes_file w') = [[1, 2, 3], [], [4]]"
  using dump_files_read_back [of roomy_world "[[1, 2, 3], [], [4]]"] by (auto simp: roomy_world_def idle_world_def)

text \<open>What a successful initialisation establishes: the number of devices is the number discovered and
  fits the array, no descriptor is marked, both dump files are empty and their lock is free, and a cache
  this process created is well formed, empty and unlocked.\<close>

theorem init_establishes:
  assumes "netDedup_init env w = Some (ncclSuccess, w')"
  shows "num_net_devices (net_dedup_state w') = fst (init_net_socket_devs (ie_ifaddrs env) (ie_uninit env) (net_devices (net_dedup_state w))) \<and>
    0 \<le> num_net_devices (net_dedup_state w') \<and> num_net_devices (net_dedup_state w') \<le> int MAX_NET_DEDUP_DEVS \<and>
    (\<forall>fd. 0 \<le> fd \<and> fd < int MAX_FDS \<longrightarrow> \<not> active_fds w' fd) \<and>
    dump_bytes_file w' = [] \<and> dump_sizes_file w' = [] \<and> \<not> dump_lock w' \<and>
    (ie_shm_new env \<longrightarrow> cache_ok (global_fingerprint_cache w') \<and>
       cache_contents (global_fingerprint_cache w') = Map.empty \<and> unlocked w')"
proof -
  obtain n devs where d: "init_net_socket_devs (ie_ifaddrs env) (ie_uninit env) (net_devices (net_dedup_state w)) = (n, devs)"
    by (metis surj_pair)
  have n: "- 1 \<le> n" "n \<le> int MAX_NET_DEDUP_DEVS"
    using init_net_socket_devs_bound [of "ie_ifaddrs env" "ie_uninit env" "net_devices (net_dedup_state w)"] d by simp_all
  note E = example_cache_ok example_cache_fields
  show ?thesis
    using assms n d E unfolding netDedup_init_def example_cache_def
    by (auto simp: Let_def unlocked_def split: if_splits option.splits)
qed

definition example_env :: Init_Env where
  "example_env = \<lparr>ie_ifaddrs = Some [],
     ie_uninit = \<lparr>nif_index = 0, nif_flags = 0, nif_speed = 0, nif_duplex = 0, nif_name = []\<rparr>, ie_shm_new = True, ie_shm_retries = [],
     ie_mmap_null = False, ie_shared_cache = zeroed_cache, ie_skip_insert_cache = None, ie_max_requests = Some ''8'',
     ie_dump_path = Some ''/tmp'', ie_fopen_bytes = True, ie_fopen_sizes = True\<rparr>"

theorem init_establishes_witness:
  "\<exists>w'. netDedup_init example_env idle_world = Some (ncclSuccess, w') \<and> num_net_devices (net_dedup_state w') = 0 \<and>
     cache_ok (global_fingerprint_cache w')"
proof -
  have "init_net_socket_devs (Some []) u devs = (0, devs)" for u devs by (simp add: init_net_socket_devs_def)
  then obtain w' where "netDedup_init example_env idle_world = Some (ncclSuccess, w')" "num_net_devices (net_dedup_state w') = 0"
    by (simp add: netDedup_init_def example_env_def Let_def)
  moreover have "ie_shm_new example_env" by (simp add: example_env_def)
  ultimately show ?thesis using init_establishes by blast
qed

definition example_handle :: Dedup_Connect_Handle where
  "example_handle = \<lparr>ch_addr = \<lparr>sin_addr = 1, sin_port = 2\<rparr>, ch_connectingFd = - 1, ch_in_progress = False,
     ch_is_connected = False\<rparr>"

definition example_connect :: Connect_Answers where
  "example_connect = \<lparr>ca_mmap_null = False, ca_mmap_requests_null = False, ca_so_error = Some 0, ca_socket = 7,
     ca_nodelay = True, ca_zerocopy = True, ca_connect = (\<lambda>_. Some EINPROGRESS)\<rparr>"

text \<open>Opening a connection takes three calls when the peer answers later: the first starts to connect,
  the second sees the connection established, the third sends the ready byte and yields a communicator
  on the socket of the first with as many free requests as configured.\<close>

theorem connect_in_three_calls:
  assumes "\<not> ch_is_connected h" "\<not> ch_in_progress h" "ca_socket a = fd" "0 \<le> fd" "ca_nodelay a" "ca_zerocopy a"
    and "ca_connect a (ch_addr h) = Some EINPROGRESS" "ca_so_error a = Some 0"
    and "\<not> ca_mmap_null a" "\<not> ca_mmap_requests_null a" "sk_answers (socks w fd) = [Moves 1]"
  shows "\<exists>h1 w1 h2 comm w2. netDedup_connect_v8 a dev h w = (ncclSuccess, h1, None, w1) \<and>
    netDedup_connect_v8 a dev h1 w1 = (ncclSuccess, h2, None, w1) \<and>
    netDedup_connect_v8 a dev h2 w1 = (ncclSuccess, h2, Some comm, w2) \<and>
    sk_out (socks w2 fd) = sk_out (socks w fd) @ [1] \<and> sc_fd comm = fd \<and>
    sc_requests comm = replicate (nat (max_requests_per_comm w)) (SendReq zero_send_req)"
  using assms
  by (simp add: netDedup_connect_v8_def Let_def sock_send_def new_send_comm_def EINPROGRESS_def)

theorem connect_in_three_calls_witness:
  "\<exists>h1 w1 h2 comm w2.
     netDedup_connect_v8 example_connect 0 example_handle (sock_answer 7 [Moves 1] idle_world) = (ncclSuccess, h1, None, w1) \<and>
     netDedup_connect_v8 example_connect 0 h1 w1 = (ncclSuccess, h2, None, w1) \<and>
     netDedup_connect_v8 example_connect 0 h2 w1 = (ncclSuccess, h2, Some comm, w2) \<and> sc_fd comm = 7"
proof -
  have "\<not> ch_is_connected example_handle" "\<not> ch_in_progress example_handle" "ca_socket example_connect = 7"
    "ca_nodelay example_connect" "ca_zerocopy example_connect" "\<not> ca_mmap_null example_connect"
    "\<not> ca_mmap_requests_null example_connect" "ca_so_error example_connect = Some 0"
    "ca_connect example_connect (ch_addr example_handle) = Some EINPROGRESS"
    by (simp_all add: example_connect_def example_handle_def)
  then show ?thesis
    using connect_in_three_calls [of example_handle example_connect 7 "sock_answer 7 [Moves 1] idle_world" 0] by auto
qed

text \<open>A peer that closed the connection is taken for one that is ready: a read of no bytes counts as
  the ready byte, so \<open>accept\<close> yields a communicator either way.\<close>

theorem accept_takes_closed_connection:
  assumes "lc_acceptedFd lc \<noteq> - 1" "sk_answers (socks w (lc_acceptedFd lc)) = [Moves 1]"
    and "\<not> aa_mmap_null a" "\<not> aa_mmap_requests_null a"
  shows "\<exists>w'. netDedup_accept_v8 a lc w = (ncclSuccess, lc, Some (new_recv_comm w' lc), w') \<and>
    sk_in (socks w' (lc_acceptedFd lc)) = drop 1 (sk_in (socks w (lc_acceptedFd lc)))"
  using assms
  by (cases "sk_in (socks w (lc_acceptedFd lc))") (simp_all add: netDedup_accept_v8_def Let_def sock_recv_def)

theorem accept_takes_closed_connection_witness:
  "\<exists>w'. netDedup_accept_v8 \<lparr>aa_mmap_null = False, aa_mmap_requests_null = False, aa_accept = Inl EAGAIN\<rparr>
     \<lparr>lc_dev_num = 0, lc_listenFd = 4, lc_acceptedFd = 6, lc_src_addr = \<lparr>sin_addr = 0, sin_port = 0\<rparr>\<rparr>
     (sock_answer 6 [Moves 1] idle_world) =
     (ncclSuccess, \<lparr>lc_dev_num = 0, lc_listenFd = 4, lc_acceptedFd = 6, lc_src_addr = \<lparr>sin_addr = 0, sin_port = 0\<rparr>\<rparr>,
      Some (new_recv_comm w' \<lparr>lc_dev_num = 0, lc_listenFd = 4, lc_acceptedFd = 6,
        lc_src_addr = \<lparr>sin_addr = 0, sin_port = 0\<rparr>\<rparr>), w')"
  using accept_takes_closed_connection [of "\<lparr>lc_dev_num = 0, lc_listenFd = 4, lc_acceptedFd = 6,
      lc_src_addr = \<lparr>sin_addr = 0, sin_port = 0\<rparr>\<rparr>" "sock_answer 6 [Moves 1] idle_world"
      "\<lparr>aa_mmap_null = False, aa_mmap_requests_null = False, aa_accept = Inl EAGAIN\<rparr>"]
  by auto

end
