(* ===== verification/NcclSocket.thy ===== *)
theory NcclSocket
  imports Transport
begin

text \<open>
  \<^verbatim>\<open>nccl_internal_impl/socket.h\<close> and the first half of \<^verbatim>\<open>nccl_internal_impl/socket.cc\<close>: the socket
  structure of NCCL, moving bytes with \<open>ncclSocketProgress\<close> and \<open>ncclSocketWait\<close>, and the wrappers around
  them. The kernel is the record \<open>Net\<close>: for every descriptor the byte streams and answers of
  \<open>Transport\<close>, and the answers to the calls that set connections up. A \<open>recv\<close> that moves no byte is the
  end of the stream. \<open>socketWait\<close> spins for ever when the kernel always answers that it would block, so it
  returns an option. The macros NCCLCHECK and SYSCHECK of NCCL's \<^verbatim>\<open>checks.h\<close> are written out: the former
  hands on a result that is not \<open>ncclSuccess\<close>, the latter turns a failing call into \<open>ncclSystemError\<close>.
  Log output is left out.
\<close>

section \<open>Data\<close>

datatype ncclSocketState =
    ncclSocketStateNone
  | ncclSocketStateInitialized
  | ncclSocketStateAccepting
  | ncclSocketStateAccepted
  | ncclSocketStateConnecting
  | ncclSocketStateConnectPolling
  | ncclSocketStateConnected
  | ncclSocketStateReady
  | ncclSocketStateClosed
  | ncclSocketStateError

datatype ncclSocketType =
    ncclSocketTypeUnknown
  | ncclSocketTypeBootstrap
  | ncclSocketTypeProxy
  | ncclSocketTypeNetSocket
  | ncclSocketTypeNetIb

text \<open>The members of the address union that the code uses; the family says which are meaningful.
  Ports are in host order.\<close>

record ncclSocketAddress =
  sa_family :: nat
  sin_s_addr :: u32
  sin6_s6_addr :: "u8 list"
  sa_port :: nat
  sin6_scope_id :: nat

text \<open>The abort flag is a pointer to a word that another thread may set: \<open>sock_abortFlag\<close> says whether
  there is one, its values at successive reads are answers of the environment (\<open>aborts\<close> below).\<close>

record ncclSocket =
  sock_fd :: int
  sock_acceptFd :: int
  sock_timedOutRetries :: nat
  sock_refusedRetries :: nat
  sock_addr :: ncclSocketAddress
  sock_abortFlag :: bool
  sock_asyncFlag :: bool
  sock_state :: ncclSocketState
  sock_salen :: nat
  sock_magic :: u64
  sock_type :: ncclSocketType

text \<open>Zeroed memory.\<close>

definition zero_addr :: ncclSocketAddress where
  "zero_addr = \<lparr>sa_family = 0, sin_s_addr = 0, sin6_s6_addr = replicate 16 0, sa_port = 0, sin6_scope_id = 0\<rparr>"

definition zero_sock :: ncclSocket where
  "zero_sock = \<lparr>sock_fd = 0, sock_acceptFd = 0, sock_timedOutRetries = 0, sock_refusedRetries = 0,
     sock_addr = zero_addr, sock_abortFlag = False, sock_asyncFlag = False, sock_state = ncclSocketStateNone,
     sock_salen = 0, sock_magic = 0, sock_type = ncclSocketTypeUnknown\<rparr>"

definition RETRY_REFUSED_TIMES :: nat where "RETRY_REFUSED_TIMES = 20000"
definition RETRY_TIMEDOUT_TIMES :: nat where "RETRY_TIMEDOUT_TIMES = 3"
definition NCCL_SOCKET_MAGIC :: u64 where "NCCL_SOCKET_MAGIC = 0x564ab9f2fc4b9d6c"
definition AF_INET6 :: nat where "AF_INET6 = 10"
definition ECONNREFUSED :: nat where "ECONNREFUSED = 111"
definition ETIMEDOUT :: nat where "ETIMEDOUT = 110"
definition EINPROGRESS :: nat where "EINPROGRESS = 115"

lemmas errno_defs = EINTR_def EAGAIN_def EWOULDBLOCK_def ECONNREFUSED_def ETIMEDOUT_def EINPROGRESS_def

datatype sock_op = NCCL_SOCKET_SEND | NCCL_SOCKET_RECV

text \<open>What \<open>accept\<close> and \<open>poll\<close> answer: a failing \<open>accept\<close> gives an error number, a successful one the
  new descriptor and the address of the peer; \<open>poll\<close> gives its return value, the error number, and
  whether \<open>POLLOUT\<close> is among the events.\<close>

datatype accept_answer = AcceptFails nat | Accepts int ncclSocketAddress
datatype poll_answer = Polls int nat bool

record Net =
  ends :: "int \<Rightarrow> Sock"
  aborts :: "bool list"
  sys_errs :: "nat list"
  new_fds :: "int list"
  accept_answers :: "accept_answer list"
  connect_answers :: "nat list"
  poll_answers :: "poll_answer list"
  so_errors :: "nat option list"
  sock_name :: ncclSocketAddress
  closed_fds :: "int list"

section \<open>Kernel calls\<close>

text \<open>\<open>send\<close> and \<open>recv\<close> without blocking (every caller in the file passes 0 for \<open>block\<close>): the value
  returned, the error number, and for \<open>recv\<close> the bytes put into the caller's buffer.\<close>

definition net_send :: "int \<Rightarrow> u8 list \<Rightarrow> Net \<Rightarrow> int \<times> nat \<times> Net" where
  "net_send fd bs k =
     (let s = ends k fd
      in case sk_answers s of
           [] \<Rightarrow> (- 1, EAGAIN, k)
         | Fails e # as \<Rightarrow> (- 1, e, k\<lparr>ends := (ends k)(fd := s\<lparr>sk_answers := as\<rparr>)\<rparr>)
         | Moves n # as \<Rightarrow>
             (int (min n (length bs)), 0,
              k\<lparr>ends := (ends k)(fd := s\<lparr>sk_answers := as, sk_out := sk_out s @ take n bs\<rparr>)\<rparr>))"

definition net_recv :: "int \<Rightarrow> nat \<Rightarrow> Net \<Rightarrow> int \<times> nat \<times> u8 list \<times> Net" where
  "net_recv fd len k =
     (let s = ends k fd
      in case sk_answers s of
           [] \<Rightarrow> (- 1, EAGAIN, [], k)
         | Fails e # as \<Rightarrow> (- 1, e, [], k\<lparr>ends := (ends k)(fd := s\<lparr>sk_answers := as\<rparr>)\<rparr>)
         | Moves n # as \<Rightarrow>
             (let bs = take (min n len) (sk_in s)
              in (int (length bs), 0, bs,
                  k\<lparr>ends := (ends k)(fd := s\<lparr>sk_answers := as, sk_in := drop (length bs) (sk_in s)\<rparr>)\<rparr>)))"

text \<open>\<open>sock->abortFlag && __atomic_load_n (sock->abortFlag)\<close>.\<close>

definition abort_read :: "ncclSocket \<Rightarrow> Net \<Rightarrow> bool \<times> Net" where
  "abort_read sock k =
     (if sock_abortFlag sock
      then (case aborts k of [] \<Rightarrow> (False, k) | b # bs \<Rightarrow> (b, k\<lparr>aborts := bs\<rparr>))
      else (False, k))"

text \<open>A call that only succeeds or fails: 0, or the error number.\<close>

definition sys_call :: "Net \<Rightarrow> nat \<times> Net" where
  "sys_call k = (case sys_errs k of [] \<Rightarrow> (0, k) | e # es \<Rightarrow> (e, k\<lparr>sys_errs := es\<rparr>))"

definition net_close :: "int \<Rightarrow> Net \<Rightarrow> Net" where
  "net_close fd k = k\<lparr>closed_fds := closed_fds k @ [fd]\<rparr>"

section \<open>Moving bytes\<close>

text \<open>One turn of the loop of \<open>socketProgressOpt\<close>: the call, the bytes it moved (-1 for an error), the
  error number and the buffer.\<close>

definition socket_call :: "sock_op \<Rightarrow> ncclSocket \<Rightarrow> u8 list \<Rightarrow> nat \<Rightarrow> nat \<Rightarrow> Net \<Rightarrow> int \<times> nat \<times> u8 list \<times> Net" where
  "socket_call op sock data sz off k =
     (case op of
        NCCL_SOCKET_RECV \<Rightarrow>
          (let (n, e, bs, k1) = net_recv (sock_fd sock) (sz - off) k in (n, e, bytes_put off bs data, k1))
      | NCCL_SOCKET_SEND \<Rightarrow>
          (let (n, e, k1) = net_send (sock_fd sock) (bytes_at off (sz - off) data) k in (n, e, data, k1)))"

text \<open>The result, \<open>*closed\<close>, the buffer and \<open>*offset\<close>.\<close>

function socketProgressOpt ::
  "sock_op \<Rightarrow> ncclSocket \<Rightarrow> u8 list \<Rightarrow> nat \<Rightarrow> nat \<Rightarrow> Net \<Rightarrow> ncclResult_t \<times> bool \<times> u8 list \<times> nat \<times> Net" where
  "socketProgressOpt op sock data sz off k =
     (let (bytes, err, data1, k1) = socket_call op sock data sz off k
      in if op = NCCL_SOCKET_RECV \<and> bytes = 0 then (ncclSuccess, True, data1, off, k1)
         else if bytes = - 1 \<and> err \<noteq> EINTR \<and> err \<noteq> EWOULDBLOCK \<and> err \<noteq> EAGAIN
         then (ncclRemoteError, False, data1, off, k1)
         else
           (let n = (if bytes = - 1 then 0 else nat bytes);
                off1 = off + n;
                (abort, k2) = abort_read sock k1
            in if abort then (ncclInternalError, False, data1, off1, k2)
               else if 0 < n \<and> off1 < sz then socketProgressOpt op sock data1 sz off1 k2
               else (ncclSuccess, False, data1, off1, k2)))"
  by pat_completeness auto
termination
  by (relation "measure (\<lambda>(op, sock, data, sz, off, k). sz - off)") auto

declare socketProgressOpt.simps [simp del]

definition socketProgress ::
  "sock_op \<Rightarrow> ncclSocket \<Rightarrow> u8 list \<Rightarrow> nat \<Rightarrow> nat \<Rightarrow> Net \<Rightarrow> ncclResult_t \<times> u8 list \<times> nat \<times> Net" where
  "socketProgress op sock data sz off k =
     (let (r, closed, data1, off1, k1) = socketProgressOpt op sock data sz off k
      in if r \<noteq> ncclSuccess then (r, data1, off1, k1)
         else if closed then (ncclRemoteError, data1, off1, k1)
         else (ncclSuccess, data1, off1, k1))"

partial_function (option) socketWait ::
  "sock_op \<Rightarrow> ncclSocket \<Rightarrow> u8 list \<Rightarrow> nat \<Rightarrow> nat \<Rightarrow> Net \<Rightarrow> (ncclResult_t \<times> u8 list \<times> nat \<times> Net) option" where
  "socketWait op sock data sz off k =
     (if off < sz
      then (let (r, data1, off1, k1) = socketProgress op sock data sz off k
            in if r \<noteq> ncclSuccess then Some (r, data1, off1, k1)
               else socketWait op sock data1 sz off1 k1)
      else Some (ncclSuccess, data, off, k))"

text \<open>The exported functions; a NULL socket is \<open>None\<close>.\<close>

definition ncclSocketProgress ::
  "sock_op \<Rightarrow> ncclSocket option \<Rightarrow> u8 list \<Rightarrow> nat \<Rightarrow> nat \<Rightarrow> Net \<Rightarrow> ncclResult_t \<times> u8 list \<times> nat \<times> Net" where
  "ncclSocketProgress op sock data sz off k =
     (case sock of
        None \<Rightarrow> (ncclInvalidArgument, data, off, k)
      | Some s \<Rightarrow> socketProgress op s data sz off k)"

definition ncclSocketWait ::
  "sock_op \<Rightarrow> ncclSocket option \<Rightarrow> u8 list \<Rightarrow> nat \<Rightarrow> nat \<Rightarrow> Net \<Rightarrow> (ncclResult_t \<times> u8 list \<times> nat \<times> Net) option" where
  "ncclSocketWait op sock data sz off k =
     (case sock of
        None \<Rightarrow> Some (ncclInvalidArgument, data, off, k)
      | Some s \<Rightarrow> socketWait op s data sz off k)"

definition ncclSocketSend ::
  "ncclSocket option \<Rightarrow> u8 list \<Rightarrow> nat \<Rightarrow> Net \<Rightarrow> (ncclResult_t \<times> u8 list \<times> Net) option" where
  "ncclSocketSend sock data sz k =
     (case sock of
        None \<Rightarrow> Some (ncclInvalidArgument, data, k)
      | Some s \<Rightarrow>
          if sock_state s \<noteq> ncclSocketStateReady then Some (ncclInternalError, data, k)
          else map_option (\<lambda>(r, d, off, k1). (r, d, k1)) (socketWait NCCL_SOCKET_SEND s data sz 0 k))"

definition ncclSocketRecv ::
  "ncclSocket option \<Rightarrow> u8 list \<Rightarrow> nat \<Rightarrow> Net \<Rightarrow> (ncclResult_t \<times> u8 list \<times> Net) option" where
  "ncclSocketRecv sock data sz k =
     (case sock of
        None \<Rightarrow> Some (ncclInvalidArgument, data, k)
      | Some s \<Rightarrow>
          if sock_state s \<noteq> ncclSocketStateReady then Some (ncclInternalError, data, k)
          else map_option (\<lambda>(r, d, off, k1). (r, d, k1)) (socketWait NCCL_SOCKET_RECV s data sz 0 k))"

text \<open>The loop of \<open>ncclSocketSendRecv\<close>: a send step when bytes are left to send, then a receive step
  when bytes are left to receive.\<close>

partial_function (option) sendRecv_loop ::
  "ncclSocket \<Rightarrow> u8 list \<Rightarrow> nat \<Rightarrow> nat \<Rightarrow> ncclSocket \<Rightarrow> u8 list \<Rightarrow> nat \<Rightarrow> nat \<Rightarrow> Net \<Rightarrow>
   (ncclResult_t \<times> u8 list \<times> Net) option" where
  "sendRecv_loop ss sdata ssize soff rs rdata rsize roff k =
     (if soff < ssize \<or> roff < rsize
      then (let (r1, sdata1, soff1, k1) =
                  (if soff < ssize then socketProgress NCCL_SOCKET_SEND ss sdata ssize soff k
                   else (ncclSuccess, sdata, soff, k))
            in if r1 \<noteq> ncclSuccess then Some (r1, rdata, k1)
               else
                 (let (r2, rdata1, roff1, k2) =
                        (if roff < rsize then socketProgress NCCL_SOCKET_RECV rs rdata rsize roff k1
                         else (ncclSuccess, rdata, roff, k1))
                  in if r2 \<noteq> ncclSuccess then Some (r2, rdata1, k2)
                     else sendRecv_loop ss sdata1 ssize soff1 rs rdata1 rsize roff1 k2))
      else Some (ncclSuccess, rdata, k))"

definition ncclSocketSendRecv ::
  "ncclSocket option \<Rightarrow> u8 list \<Rightarrow> nat \<Rightarrow> ncclSocket option \<Rightarrow> u8 list \<Rightarrow> nat \<Rightarrow> Net \<Rightarrow>
   (ncclResult_t \<times> u8 list \<times> Net) option" where
  "ncclSocketSendRecv sendSock sdata ssize recvSock rdata rsize k =
     (case (sendSock, recvSock) of
        (Some ss, Some rs) \<Rightarrow>
          if sock_state ss \<noteq> ncclSocketStateReady \<or> sock_state rs \<noteq> ncclSocketStateReady
          then Some (ncclInternalError, rdata, k)
          else sendRecv_loop ss sdata ssize 0 rs rdata rsize 0 k
      | _ \<Rightarrow> Some (ncclInternalError, rdata, k))"

text \<open>\<open>ncclSocketTryRecv\<close>. \<open>ncclInProgress\<close> is not among the codes of \<^verbatim>\<open>err.h\<close>, so the result is a code
  or that value.\<close>

datatype try_result = TryResult ncclResult_t | TryInProgress

partial_function (option) tryRecv_loop ::
  "ncclSocket \<Rightarrow> u8 list \<Rightarrow> nat \<Rightarrow> nat \<Rightarrow> Net \<Rightarrow> (try_result \<times> bool \<times> u8 list \<times> Net) option" where
  "tryRecv_loop s data sz off k =
     (if off < sz
      then (let (r, closed, data1, off1, k1) = socketProgressOpt NCCL_SOCKET_RECV s data sz off k
            in if r \<noteq> ncclSuccess then Some (TryResult r, closed, data1, k1)
               else if closed then Some (TryResult ncclSuccess, True, data1, k1)
               else tryRecv_loop s data1 sz off1 k1)
      else Some (TryResult ncclSuccess, False, data, k))"

definition ncclSocketTryRecv ::
  "ncclSocket option \<Rightarrow> u8 list \<Rightarrow> nat \<Rightarrow> bool \<Rightarrow> Net \<Rightarrow> (try_result \<times> bool \<times> u8 list \<times> Net) option" where
  "ncclSocketTryRecv sock data sz blocking k =
     (case sock of
        None \<Rightarrow> Some (TryResult ncclInvalidArgument, False, data, k)
      | Some s \<Rightarrow>
          if blocking then tryRecv_loop s data sz 0 k
          else
            (let (r, closed, data1, off1, k1) = socketProgressOpt NCCL_SOCKET_RECV s data sz 0 k
             in if r \<noteq> ncclSuccess then Some (TryResult r, closed, data1, k1)
                else if closed then Some (TryResult ncclSuccess, True, data1, k1)
                else if 0 < off1 then tryRecv_loop s data1 sz off1 k1
                else Some (TryInProgress, False, data1, k1)))"

section \<open>What a progress call moves\<close>

text \<open>\<open>shifted op fd bs k k1\<close>: \<open>k1\<close> is \<open>k\<close> after the bytes \<open>bs\<close> went through descriptor \<open>fd\<close>. Only that
  end and the script of the abort flag have changed.\<close>

definition shifted :: "sock_op \<Rightarrow> int \<Rightarrow> u8 list \<Rightarrow> Net \<Rightarrow> Net \<Rightarrow> bool" where
  "shifted op fd bs k k1 \<longleftrightarrow>
     (\<exists>as ab. k1 = k\<lparr>ends := (ends k)(fd := \<lparr>sk_answers = as,
          sk_out = (case op of NCCL_SOCKET_SEND \<Rightarrow> sk_out (ends k fd) @ bs | NCCL_SOCKET_RECV \<Rightarrow> sk_out (ends k fd)),
          sk_in = (case op of NCCL_SOCKET_SEND \<Rightarrow> sk_in (ends k fd) | NCCL_SOCKET_RECV \<Rightarrow> drop (length bs) (sk_in (ends k fd)))\<rparr>),
        aborts := ab\<rparr>) \<and>
     (op = NCCL_SOCKET_RECV \<longrightarrow> take (length bs) (sk_in (ends k fd)) = bs)"

lemma Sock_eta [simp]: "\<lparr>sk_answers = sk_answers s, sk_out = sk_out s, sk_in = sk_in s\<rparr> = (s :: Sock)"
  by (cases s) simp

lemma Net_aborts_eta [simp]: "k\<lparr>ends := ends k, aborts := aborts k\<rparr> = (k :: Net)" "k\<lparr>ends := ends k\<rparr> = k"
    "k\<lparr>aborts := aborts k\<rparr> = k"
  by (cases k; simp)+

lemma shifted_answers:
  "shifted op fd [] k (k\<lparr>ends := (ends k)(fd := (ends k fd)\<lparr>sk_answers := as\<rparr>)\<rparr>)"
  unfolding shifted_def
  by (intro conjI exI [of _ as] exI [of _ "aborts k"]) (cases op; cases "ends k fd"; simp)+

lemma shifted_Nil: "shifted op fd [] k k"
  using shifted_answers [of op fd k "sk_answers (ends k fd)"] by simp

lemma shifted_sendI:
  "shifted NCCL_SOCKET_SEND fd bs k
     (k\<lparr>ends := (ends k)(fd := (ends k fd)\<lparr>sk_answers := as, sk_out := sk_out (ends k fd) @ bs\<rparr>)\<rparr>)"
  unfolding shifted_def
  by (intro conjI exI [of _ as] exI [of _ "aborts k"]) (cases "ends k fd"; simp)+

lemma shifted_recvI:
  "take (length bs) (sk_in (ends k fd)) = bs \<Longrightarrow> shifted NCCL_SOCKET_RECV fd bs k
     (k\<lparr>ends := (ends k)(fd := (ends k fd)\<lparr>sk_answers := as, sk_in := drop (length bs) (sk_in (ends k fd))\<rparr>)\<rparr>)"
  unfolding shifted_def
  by (intro conjI exI [of _ as] exI [of _ "aborts k"]) (cases "ends k fd"; simp)+

lemma shifted_trans:
  assumes "shifted op fd bs k k1" "shifted op fd cs k1 k2"
  shows "shifted op fd (bs @ cs) k k2"
proof -
  from assms(1) obtain as ab where 1: "k1 = k\<lparr>ends := (ends k)(fd := \<lparr>sk_answers = as,
          sk_out = (case op of NCCL_SOCKET_SEND \<Rightarrow> sk_out (ends k fd) @ bs | NCCL_SOCKET_RECV \<Rightarrow> sk_out (ends k fd)),
          sk_in = (case op of NCCL_SOCKET_SEND \<Rightarrow> sk_in (ends k fd) | NCCL_SOCKET_RECV \<Rightarrow> drop (length bs) (sk_in (ends k fd)))\<rparr>),
        aborts := ab\<rparr>" "op = NCCL_SOCKET_RECV \<Longrightarrow> take (length bs) (sk_in (ends k fd)) = bs"
    by (auto simp: shifted_def)
  show ?thesis using assms(2) 1(2) unfolding 1(1) shifted_def
    by (cases op) (auto simp: take_add add.commute)
qed

lemma shifted_abort_read: "abort_read sock k = (b, k1) \<Longrightarrow> shifted op fd [] k k1"
  unfolding shifted_def
  by (intro conjI exI [of _ "sk_answers (ends k fd)"] exI [of _ "aborts k1"])
    (cases op; auto simp: abort_read_def split: if_splits list.splits)+

lemma shifted_ends:
  assumes "shifted op fd bs k k1"
  shows "x \<noteq> fd \<Longrightarrow> ends k1 x = ends k x" "accept_answers k1 = accept_answers k" "closed_fds k1 = closed_fds k"
  using assms by (auto simp: shifted_def)

lemma shifted_send: "shifted NCCL_SOCKET_SEND fd bs k k1 \<Longrightarrow>
    sk_out (ends k1 fd) = sk_out (ends k fd) @ bs \<and> sk_in (ends k1 fd) = sk_in (ends k fd)"
  by (auto simp: shifted_def)

lemma shifted_recv: "shifted NCCL_SOCKET_RECV fd bs k k1 \<Longrightarrow>
    sk_in (ends k fd) = bs @ sk_in (ends k1 fd) \<and> sk_out (ends k1 fd) = sk_out (ends k fd)"
  by (auto simp: shifted_def) (metis append_take_drop_id)

text \<open>The bytes of a call: where they come from and where they go.\<close>

definition moves_bytes :: "sock_op \<Rightarrow> u8 list \<Rightarrow> nat \<Rightarrow> u8 list \<Rightarrow> u8 list \<Rightarrow> bool" where
  "moves_bytes op data off bs data1 \<longleftrightarrow>
     (case op of
        NCCL_SOCKET_SEND \<Rightarrow> data1 = data \<and> bytes_at off (length bs) data = bs
      | NCCL_SOCKET_RECV \<Rightarrow> data1 = bytes_put off bs data)"

lemma moves_bytes_Nil [simp]: "moves_bytes op data off [] data"
  by (cases op) (simp_all add: moves_bytes_def)

lemma moves_bytes_length:
  "moves_bytes op data off bs data1 \<Longrightarrow> off + length bs \<le> length data \<Longrightarrow> length data1 = length data"
  by (cases op) (auto simp: moves_bytes_def)

lemma moves_bytes_trans:
  assumes "moves_bytes op data off bs data1" "moves_bytes op data1 (off + length bs) cs data2"
    "off + length bs + length cs \<le> length data"
  shows "moves_bytes op data off (bs @ cs) data2"
  using assms bytes_at_append [of off "length bs" data "length cs"]
  by (cases op) (auto simp: moves_bytes_def bytes_put_bytes_put_adjacent)

lemma socket_call_moves:
  assumes "socket_call op sock data sz off k = (n, e, data1, k1)" "off \<le> sz" "sz \<le> length data"
  obtains bs where "n = - 1 \<and> bs = [] \<or> n = int (length bs)" "off + length bs \<le> sz"
    "shifted op (sock_fd sock) bs k k1" "moves_bytes op data off bs data1"
proof (cases op)
  case NCCL_SOCKET_SEND
  let ?d = "bytes_at off (sz - off) data"
  have l: "length ?d = sz - off" using assms(2,3) by simp
  show ?thesis
  proof (cases "sk_answers (ends k (sock_fd sock))")
    case Nil
    then show ?thesis using assms(1,2) NCCL_SOCKET_SEND
      by (intro that [of "[]"]) (auto simp: socket_call_def net_send_def Let_def intro: shifted_Nil)
  next
    case (Cons a as)
    then show ?thesis
    proof (cases a)
      case (Fails e')
      then show ?thesis using Cons assms(1,2) NCCL_SOCKET_SEND
        by (intro that [of "[]"]) (auto simp: socket_call_def net_send_def Let_def intro: shifted_answers)
    next
      case (Moves m)
      have t: "bytes_at off (length (take m ?d)) data = take m ?d"
        by (simp add: bytes_at_def min_def)
      have "n = int (length (take m ?d))" "data1 = data" "shifted op (sock_fd sock) (take m ?d) k k1"
        using Moves Cons assms(1) NCCL_SOCKET_SEND
        by (auto simp: socket_call_def net_send_def Let_def min.commute intro: shifted_sendI)
      then show ?thesis using t l assms(2) NCCL_SOCKET_SEND
        by (intro that [of "take m ?d"]) (auto simp: moves_bytes_def)
    qed
  qed
next
  case NCCL_SOCKET_RECV
  show ?thesis
  proof (cases "sk_answers (ends k (sock_fd sock))")
    case Nil
    then show ?thesis using assms(1,2) NCCL_SOCKET_RECV
      by (intro that [of "[]"]) (auto simp: socket_call_def net_recv_def Let_def intro: shifted_Nil)
  next
    case (Cons a as)
    then show ?thesis
    proof (cases a)
      case (Fails e')
      then show ?thesis using Cons assms(1,2) NCCL_SOCKET_RECV
        by (intro that [of "[]"]) (auto simp: socket_call_def net_recv_def Let_def intro: shifted_answers)
    next
      case (Moves m)
      let ?bs = "take (min m (sz - off)) (sk_in (ends k (sock_fd sock)))"
      have n: "n = int (length ?bs)" "data1 = bytes_put off ?bs data"
        and k1: "k1 = k\<lparr>ends := (ends k)(sock_fd sock := (ends k (sock_fd sock))\<lparr>sk_answers := as,
          sk_in := drop (length ?bs) (sk_in (ends k (sock_fd sock)))\<rparr>)\<rparr>"
        using Moves Cons assms(1) NCCL_SOCKET_RECV by (auto simp: socket_call_def net_recv_def Let_def)
      have "shifted op (sock_fd sock) ?bs k k1"
        unfolding k1 NCCL_SOCKET_RECV by (rule shifted_recvI) (simp add: min_def)
      note n this
      then show ?thesis using assms(2) NCCL_SOCKET_RECV
        by (intro that [of ?bs]) (auto simp: moves_bytes_def)
    qed
  qed
qed

text \<open>Every way through the loop of \<open>socketProgressOpt\<close> moves the next bytes, in order, and counts them.\<close>

lemma socketProgressOpt_moves:
  assumes "socketProgressOpt op sock data sz off k = (r, closed, data1, off1, k1)" "off \<le> sz" "sz \<le> length data"
  shows "\<exists>bs. off1 = off + length bs \<and> off1 \<le> sz \<and> shifted op (sock_fd sock) bs k k1 \<and>
    moves_bytes op data off bs data1"
  using assms
proof (induction op sock data sz off k rule: socketProgressOpt.induct)
  case (1 op sock data sz off k)
  obtain n e d k2 where c: "socket_call op sock data sz off k = (n, e, d, k2)" by (metis prod_cases4)
  obtain bs where bs: "n = - 1 \<and> bs = [] \<or> n = int (length bs)" "off + length bs \<le> sz"
    "shifted op (sock_fd sock) bs k k2" "moves_bytes op data off bs d"
    using socket_call_moves [OF c "1.prems"(2,3)] .
  let ?off = "off + length bs"
  have n: "(if n = - 1 then 0 else nat n) = length bs" using bs(1) by auto
  obtain b k3 where ab: "abort_read sock k2 = (b, k3)" by fastforce
  have k3: "shifted op (sock_fd sock) bs k k3"
    using shifted_trans [OF bs(3) shifted_abort_read [OF ab]] by simp
  have len: "length d = length data" using moves_bytes_length [OF bs(4)] bs(2) "1.prems"(3) by simp
  consider (stop) "off1 = off" "data1 = d" "k1 = k2" "bs = []" | (moved) "off1 = ?off" "data1 = d" "k1 = k3"
    | (loop) "\<not> b" "0 < length bs" "?off < sz"
        "socketProgressOpt op sock d sz ?off k3 = (r, closed, data1, off1, k1)"
        "\<not> (op = NCCL_SOCKET_RECV \<and> n = 0)" "\<not> (n = - 1 \<and> e \<noteq> EINTR \<and> e \<noteq> EWOULDBLOCK \<and> e \<noteq> EAGAIN)"
    using "1.prems"(1) bs(1) unfolding socketProgressOpt.simps [of op sock data sz off k] c
    by (auto simp: Let_def ab split: if_splits)
  then show ?case
  proof cases
    case stop
    then show ?thesis using bs by (intro exI [of _ "[]"]) simp
  next
    case moved
    then show ?thesis using bs k3 by (intro exI [of _ bs]) simp
  next
    case loop
    have "\<exists>cs. off1 = ?off + length cs \<and> off1 \<le> sz \<and> shifted op (sock_fd sock) cs k3 k1 \<and>
      moves_bytes op d ?off cs data1"
      using "1.IH" [OF c [symmetric] refl refl refl loop(5,6) refl refl ab [symmetric] refl] loop bs(2) len "1.prems"(3)
      by (auto simp: n)
    then obtain cs where "off1 = ?off + length cs" "off1 \<le> sz" "shifted op (sock_fd sock) cs k3 k1"
      "moves_bytes op d ?off cs data1" by blast
    then show ?thesis using shifted_trans [OF k3] moves_bytes_trans [OF bs(4)] "1.prems"(3)
      by (intro exI [of _ "bs @ cs"]) simp
  qed
qed

lemma socketProgress_moves:
  assumes "socketProgress op sock data sz off k = (r, data1, off1, k1)" "off \<le> sz" "sz \<le> length data"
  shows "\<exists>bs. off1 = off + length bs \<and> off1 \<le> sz \<and> shifted op (sock_fd sock) bs k k1 \<and>
    moves_bytes op data off bs data1"
proof -
  obtain r' c where "socketProgressOpt op sock data sz off k = (r', c, data1, off1, k1)"
    using assms(1) by (auto simp: socketProgress_def Let_def split: prod.splits if_splits)
  then show ?thesis by (rule socketProgressOpt_moves [OF _ assms(2,3)])
qed

text \<open>What holds of a wait that returns.\<close>

definition waited :: "sock_op \<Rightarrow> int \<Rightarrow> u8 list \<Rightarrow> nat \<Rightarrow> nat \<Rightarrow> Net \<Rightarrow> ncclResult_t \<times> u8 list \<times> nat \<times> Net \<Rightarrow> bool" where
  "waited op fd data sz off k y \<longleftrightarrow>
     (case y of (r, data1, off1, k1) \<Rightarrow>
        (\<exists>bs. off1 = off + length bs \<and> off1 \<le> sz \<and> shifted op fd bs k k1 \<and> moves_bytes op data off bs data1) \<and>
        (r = ncclSuccess \<longrightarrow> off1 = sz))"

lemma waited_step:
  assumes "off1 = off + length bs" "shifted op fd bs k k1" "moves_bytes op data off bs data1"
    "sz \<le> length data" "waited op fd data1 sz off1 k1 y"
  shows "waited op fd data sz off k y"
proof -
  obtain r d o' k' where y: "y = (r, d, o', k')" by (metis prod_cases4)
  obtain cs where cs: "o' = off1 + length cs" "o' \<le> sz" "shifted op fd cs k1 k'" "moves_bytes op data1 off1 cs d"
    "r = ncclSuccess \<longrightarrow> o' = sz"
    using assms(5) y by (auto simp: waited_def)
  have "shifted op fd (bs @ cs) k k'" using shifted_trans assms(2) cs(3) by blast
  moreover have "moves_bytes op data off (bs @ cs) d"
    using moves_bytes_trans [OF assms(3), of cs d] cs assms(1,4) by simp
  ultimately show ?thesis using cs assms(1) y unfolding waited_def
    by (auto intro!: exI [of _ "bs @ cs"])
qed

lemma socketWait_waited:
  assumes "socketWait op sock data sz off k = Some y"
  shows "off \<le> sz \<and> sz \<le> length data \<longrightarrow> waited op (sock_fd sock) data sz off k y"
proof (rule socketWait.raw_induct [where P = "\<lambda>op sock data sz off k y.
    off \<le> sz \<and> sz \<le> length data \<longrightarrow> waited op (sock_fd sock) data sz off k y", OF _ assms], rule impI)
  fix W op sock data sz off k y
  assume IH: "\<And>op sock data sz off k y. W op sock data sz off k = Some y \<Longrightarrow>
      off \<le> sz \<and> sz \<le> length data \<longrightarrow> waited op (sock_fd sock) data sz off k y"
    and eq: "(if off < sz
      then let (r, data1, off1, k1) = socketProgress op sock data sz off k
           in if r \<noteq> ncclSuccess then Some (r, data1, off1, k1) else W op sock data1 sz off1 k1
      else Some (ncclSuccess, data, off, k)) = Some y"
    and le: "off \<le> sz \<and> sz \<le> length data"
  obtain r d o1 k2 where p: "socketProgress op sock data sz off k = (r, d, o1, k2)" by (metis prod_cases4)
  obtain bs where bs: "o1 = off + length bs" "o1 \<le> sz" "shifted op (sock_fd sock) bs k k2"
    "moves_bytes op data off bs d" using socketProgress_moves [OF p] le by blast
  consider (all) "off = sz" "y = (ncclSuccess, data, off, k)" | (err) "r \<noteq> ncclSuccess" "y = (r, d, o1, k2)"
    | (more) "W op sock d sz o1 k2 = Some y"
    using eq le unfolding p Let_def by (cases "off < sz"; cases "r = ncclSuccess") auto
  then show "waited op (sock_fd sock) data sz off k y"
  proof cases
    case all
    then show ?thesis by (auto simp: waited_def intro!: exI [of _ "[]"] shifted_Nil)
  next
    case err
    then show ?thesis using bs by (auto simp: waited_def)
  next
    case more
    have "length d = length data" using moves_bytes_length [OF bs(4)] bs(1,2) le by simp
    then have "waited op (sock_fd sock) d sz o1 k2 y" using IH [OF more] bs(2) le by simp
    then show ?thesis using waited_step [OF bs(1,3,4)] le by blast
  qed
qed

lemma socketWait_moves:
  assumes "socketWait op sock data sz off k = Some (r, data1, off1, k1)" "off \<le> sz" "sz \<le> length data"
  obtains bs where "off1 = off + length bs" "off1 \<le> sz" "shifted op (sock_fd sock) bs k k1"
    "moves_bytes op data off bs data1" "r = ncclSuccess \<Longrightarrow> off1 = sz"
  using socketWait_waited [OF assms(1)] assms(2,3) by (auto simp: waited_def)

section \<open>When a wait returns\<close>

text \<open>Answers that keep a wait going: bytes moved, or an error it retries after. A \<open>recv\<close> of no bytes is
  the end of the stream, so it is not among them.\<close>

fun polite :: "sock_op \<Rightarrow> answer \<Rightarrow> bool" where
  "polite op (Moves n) \<longleftrightarrow> op = NCCL_SOCKET_SEND \<or> 0 < n"
| "polite op (Fails e) \<longleftrightarrow> e = EINTR \<or> e = EWOULDBLOCK \<or> e = EAGAIN"

fun moved :: "answer \<Rightarrow> nat" where
  "moved (Moves n) = n"
| "moved (Fails e) = 0"

definition budget :: "answer list \<Rightarrow> nat" where
  "budget as = sum_list (map moved as)"

text \<open>How many of the answers move bytes at all.\<close>

definition hits :: "answer list \<Rightarrow> nat" where
  "hits as = length (filter (\<lambda>a. 0 < moved a) as)"

lemma hits_simps [simp]: "hits [] = 0" "hits (a # as) = (if 0 < moved a then 1 else 0) + hits as"
  by (simp_all add: hits_def)

definition polite_end :: "sock_op \<Rightarrow> nat \<Rightarrow> Sock \<Rightarrow> bool" where
  "polite_end op need s \<longleftrightarrow> list_all (polite op) (sk_answers s) \<and>
     (op = NCCL_SOCKET_RECV \<longrightarrow> need \<le> length (sk_in s))"

lemma budget_simps [simp]: "budget [] = 0" "budget (a # as) = moved a + budget as"
  by (simp_all add: budget_def)

lemma socket_call_polite:
  assumes c: "socket_call op sock data sz off k = (n, e, d, k1)" and le: "off < sz" "sz \<le> length data"
    and pol: "polite_end op (sz - off) (ends k (sock_fd sock))" and a: "sk_answers (ends k (sock_fd sock)) = a # as"
  shows "n = int (min (moved a) (sz - off)) \<and> (op = NCCL_SOCKET_RECV \<longrightarrow> min (moved a) (sz - off) \<noteq> 0) \<or>
      n = - 1 \<and> min (moved a) (sz - off) = 0 \<and> (e = EINTR \<or> e = EWOULDBLOCK \<or> e = EAGAIN)"
    "sk_answers (ends k1 (sock_fd sock)) = as"
    "polite_end op (sz - (off + min (moved a) (sz - off))) (ends k1 (sock_fd sock))"
proof -
  let ?fd = "sock_fd sock"
  let ?P = "(n = int (min (moved a) (sz - off)) \<and> (op = NCCL_SOCKET_RECV \<longrightarrow> min (moved a) (sz - off) \<noteq> 0) \<or>
      n = - 1 \<and> min (moved a) (sz - off) = 0 \<and> (e = EINTR \<or> e = EWOULDBLOCK \<or> e = EAGAIN)) \<and>
    sk_answers (ends k1 ?fd) = as \<and>
    polite_end op (sz - (off + min (moved a) (sz - off))) (ends k1 ?fd)"
  have pa: "polite op a" "list_all (polite op) as" "op = NCCL_SOCKET_RECV \<Longrightarrow> sz - off \<le> length (sk_in (ends k ?fd))"
    using pol a by (simp_all add: polite_end_def)
  have ?P
  proof (cases a)
    case (Fails e')
    then have "n = - 1" "e = e'" "ends k1 ?fd = (ends k ?fd)\<lparr>sk_answers := as\<rparr>"
      using c a by (cases op; auto simp: socket_call_def net_send_def net_recv_def Let_def)+
    then show ?thesis using Fails pa by (simp add: polite_end_def)
  next
    case (Moves m)
    show ?thesis
    proof (cases op)
      case NCCL_SOCKET_SEND
      then have "n = int (min m (sz - off))" "sk_answers (ends k1 ?fd) = as"
        using c a Moves le by (auto simp: socket_call_def net_send_def Let_def min_def)
      then show ?thesis using NCCL_SOCKET_SEND Moves pa by (simp add: polite_end_def)
    next
      case NCCL_SOCKET_RECV
      then have "n = int (min m (sz - off))" "sk_answers (ends k1 ?fd) = as"
        "length (sk_in (ends k1 ?fd)) = length (sk_in (ends k ?fd)) - min m (sz - off)"
        using c a Moves pa(3) by (auto simp: socket_call_def net_recv_def Let_def min_def)
      then show ?thesis using NCCL_SOCKET_RECV Moves pa le by (auto simp: polite_end_def min_def)
    qed
  qed
  then show "n = int (min (moved a) (sz - off)) \<and> (op = NCCL_SOCKET_RECV \<longrightarrow> min (moved a) (sz - off) \<noteq> 0) \<or>
      n = - 1 \<and> min (moved a) (sz - off) = 0 \<and> (e = EINTR \<or> e = EWOULDBLOCK \<or> e = EAGAIN)"
    "sk_answers (ends k1 ?fd) = as" "polite_end op (sz - (off + min (moved a) (sz - off))) (ends k1 ?fd)"
    by blast+
qed

text \<open>One turn of the loop without an abort flag.\<close>

lemma socketProgressOpt_turn:
  assumes "socket_call op sock data sz off k = (n, e, d, k1)" "\<not> sock_abortFlag sock"
    "n = int m \<and> (op = NCCL_SOCKET_RECV \<longrightarrow> m \<noteq> 0) \<or> n = - 1 \<and> m = 0 \<and> (e = EINTR \<or> e = EWOULDBLOCK \<or> e = EAGAIN)"
  shows "socketProgressOpt op sock data sz off k =
    (if 0 < m \<and> off + m < sz then socketProgressOpt op sock d sz (off + m) k1
     else (ncclSuccess, False, d, off + m, k1))"
proof -
  have n: "(if n = - 1 then 0 else nat n) = m" "\<not> (op = NCCL_SOCKET_RECV \<and> n = 0)"
    "\<not> (n = - 1 \<and> e \<noteq> EINTR \<and> e \<noteq> EWOULDBLOCK \<and> e \<noteq> EAGAIN)"
    using assms(3) by auto
  have ab: "abort_read sock k1 = (False, k1)" using assms(2) by (simp add: abort_read_def)
  show ?thesis
    by (subst socketProgressOpt.simps) (simp only: assms(1) Let_def prod.case n ab if_False)
qed

lemma socketProgressOpt_polite:
  assumes "socketProgressOpt op sock data sz off k = (r, c, d1, off1, k1)" "off < sz" "sz \<le> length data"
    "polite_end op (sz - off) (ends k (sock_fd sock))" "\<not> sock_abortFlag sock"
  shows "r = ncclSuccess \<and> \<not> c \<and> off1 \<le> sz \<and> polite_end op (sz - off1) (ends k1 (sock_fd sock)) \<and>
    (sz - off \<le> budget (sk_answers (ends k (sock_fd sock))) \<longleftrightarrow>
     sz - off1 \<le> budget (sk_answers (ends k1 (sock_fd sock)))) \<and>
    length (sk_answers (ends k1 (sock_fd sock))) \<le> length (sk_answers (ends k (sock_fd sock))) - 1 \<and>
    hits (sk_answers (ends k (sock_fd sock))) + off \<le> hits (sk_answers (ends k1 (sock_fd sock))) + off1"
  using assms(1-4)
proof (induction "sz - off" arbitrary: data off k rule: less_induct)
  case less
  let ?fd = "sock_fd sock"
  obtain n e d k2 where c: "socket_call op sock data sz off k = (n, e, d, k2)" by (metis prod_cases4)
  show ?case
  proof (cases "sk_answers (ends k ?fd)")
    case Nil
    have "(n, e, k2) = (- 1, EAGAIN, k)"
      using c Nil by (cases op) (auto simp: socket_call_def net_send_def net_recv_def Let_def)
    then have "(r, c, d1, off1, k1) = (ncclSuccess, False, d, off, k)"
      using socketProgressOpt_turn [OF c assms(5), of 0] less.prems(1) by simp
    then show ?thesis using less.prems Nil by simp
  next
    case (Cons a as)
    note call = socket_call_polite [OF c less.prems(2,3,4) Cons]
    let ?m = "min (moved a) (sz - off)"
    obtain bs where bs: "off + length bs \<le> sz" "moves_bytes op data off bs d"
      using socket_call_moves [OF c] less.prems(2,3) by (metis less_imp_le_nat)
    have len: "length d = length data" using moves_bytes_length [OF bs(2)] bs(1) less.prems(3) by simp
    have turn: "(r, c, d1, off1, k1) = (if 0 < ?m \<and> off + ?m < sz then socketProgressOpt op sock d sz (off + ?m) k2
        else (ncclSuccess, False, d, off + ?m, k2))"
      using socketProgressOpt_turn [OF c assms(5), of ?m] call(1) less.prems(1) by auto
    have bud: "sz - off \<le> budget (sk_answers (ends k ?fd)) \<longleftrightarrow>
        sz - (off + ?m) \<le> budget (sk_answers (ends k2 ?fd))"
      using Cons call(2) by auto
    show ?thesis
    proof (cases "0 < ?m \<and> off + ?m < sz")
      case True
      have "socketProgressOpt op sock d sz (off + ?m) k2 = (r, c, d1, off1, k1)" using turn True by simp
      moreover have "sz - (off + ?m) < sz - off" "off + ?m < sz" using True by linarith+
      ultimately have "r = ncclSuccess \<and> \<not> c \<and> off1 \<le> sz \<and> polite_end op (sz - off1) (ends k1 ?fd) \<and>
          (sz - (off + ?m) \<le> budget as \<longleftrightarrow> sz - off1 \<le> budget (sk_answers (ends k1 ?fd))) \<and>
          length (sk_answers (ends k1 ?fd)) \<le> length as - 1 \<and>
          hits as + (off + ?m) \<le> hits (sk_answers (ends k1 ?fd)) + off1"
        using less.hyps call(2,3) len less.prems(3) by metis
      moreover have "hits (a # as) \<le> ?m + hits as" using True by auto
      ultimately show ?thesis using bud Cons call(2) by auto
    next
      case False
      then have "(r, c, d1, off1, k1) = (ncclSuccess, False, d, off + ?m, k2)" using turn by (simp only: if_False)
      moreover have "off + ?m \<le> sz" "hits (a # as) \<le> ?m + hits as" using less.prems(2) by auto
      ultimately show ?thesis using call(2,3) bud Cons by simp
    qed
  qed
qed

lemma socketProgress_polite:
  assumes "socketProgress op sock data sz off k = (r, d1, off1, k1)" "off < sz" "sz \<le> length data"
    "polite_end op (sz - off) (ends k (sock_fd sock))" "\<not> sock_abortFlag sock"
  shows "r = ncclSuccess" "polite_end op (sz - off1) (ends k1 (sock_fd sock))"
    "sz - off \<le> budget (sk_answers (ends k (sock_fd sock))) \<longleftrightarrow>
     sz - off1 \<le> budget (sk_answers (ends k1 (sock_fd sock)))"
    "length (sk_answers (ends k1 (sock_fd sock))) \<le> length (sk_answers (ends k (sock_fd sock))) - 1"
    "hits (sk_answers (ends k (sock_fd sock))) + off \<le> hits (sk_answers (ends k1 (sock_fd sock))) + off1"
proof -
  obtain r' c d' o' k' where p: "socketProgressOpt op sock data sz off k = (r', c, d', o', k')" by (metis prod_cases5)
  note q = socketProgressOpt_polite [OF p assms(2-5)]
  have "(r, d1, off1, k1) = (ncclSuccess, d', o', k')"
    using q p assms(1) by (simp add: socketProgress_def)
  then show "r = ncclSuccess" "polite_end op (sz - off1) (ends k1 (sock_fd sock))"
    "sz - off \<le> budget (sk_answers (ends k (sock_fd sock))) \<longleftrightarrow>
     sz - off1 \<le> budget (sk_answers (ends k1 (sock_fd sock)))"
    "length (sk_answers (ends k1 (sock_fd sock))) \<le> length (sk_answers (ends k (sock_fd sock))) - 1"
    "hits (sk_answers (ends k (sock_fd sock))) + off \<le> hits (sk_answers (ends k1 (sock_fd sock))) + off1"
    using q by simp_all
qed

lemma socketProgress_bounds:
  assumes "socketProgress op sock data sz off k = (r, d1, off1, k1)" "off \<le> sz" "sz \<le> length data"
  shows "off1 \<le> sz" "length d1 = length data"
  using socketProgress_moves [OF assms] moves_bytes_length [of op data off _ d1] assms(3) by auto

lemma socketWait_done: "socketWait op sock data sz sz k = Some (ncclSuccess, data, sz, k)"
  by (simp add: socketWait.simps)

lemma socketWait_completes:
  assumes "off \<le> sz" "sz \<le> length data" "polite_end op (sz - off) (ends k (sock_fd sock))" "\<not> sock_abortFlag sock"
    "sz - off \<le> budget (sk_answers (ends k (sock_fd sock)))"
  shows "\<exists>d k1. socketWait op sock data sz off k = Some (ncclSuccess, d, sz, k1)"
  using assms(1-3,5)
proof (induction "length (sk_answers (ends k (sock_fd sock)))" arbitrary: data off k rule: less_induct)
  case less
  show ?case
  proof (cases "off = sz")
    case True
    then show ?thesis by (simp add: socketWait_done)
  next
    case False
    then have lt: "off < sz" using less.prems(1) by simp
    obtain r d o1 k1 where p: "socketProgress op sock data sz off k = (r, d, o1, k1)" by (metis prod_cases4)
    note q = socketProgress_polite [OF p lt less.prems(2,3) assms(4)]
    have "sk_answers (ends k (sock_fd sock)) \<noteq> []" using less.prems(4) lt by auto
    then have "length (sk_answers (ends k1 (sock_fd sock))) < length (sk_answers (ends k (sock_fd sock)))"
      using q(4) by (cases "sk_answers (ends k (sock_fd sock))") simp_all
    moreover have "o1 \<le> sz" "sz \<le> length d"
      using socketProgress_bounds [OF p less.prems(1,2)] less.prems(2) by simp_all
    ultimately have "\<exists>d' k'. socketWait op sock d sz o1 k1 = Some (ncclSuccess, d', sz, k')"
      using less.hyps q(2,3) less.prems(4) by blast
    then show ?thesis using lt p q(1) by (subst socketWait.simps) simp
  qed
qed

text \<open>\<open>fed op need s\<close>: the next \<open>need\<close> bytes of a sequence of calls will pass. A transfer may be cut at the
  end of a call's buffer, so the answers are counted, not their sum.\<close>

definition fed :: "sock_op \<Rightarrow> nat \<Rightarrow> Sock \<Rightarrow> bool" where
  "fed op need s \<longleftrightarrow> list_all (polite op) (sk_answers s) \<and> need \<le> hits (sk_answers s) \<and>
     (op = NCCL_SOCKET_RECV \<longrightarrow> need \<le> length (sk_in s))"

lemma hits_le_budget: "hits as \<le> budget as"
  by (induction as) auto

lemma fed_progress:
  assumes "fed op need (ends k (sock_fd sock))" "sz - off \<le> need" "off < sz" "sz \<le> length data" "\<not> sock_abortFlag sock"
  shows "\<exists>d bs k1. socketProgress op sock data sz off k = (ncclSuccess, d, off + length bs, k1) \<and>
    off + length bs \<le> sz \<and> shifted op (sock_fd sock) bs k k1 \<and> moves_bytes op data off bs d \<and>
    fed op (need - length bs) (ends k1 (sock_fd sock)) \<and>
    length (sk_answers (ends k1 (sock_fd sock))) < length (sk_answers (ends k (sock_fd sock)))"
proof -
  obtain r d o1 k1 where p: "socketProgress op sock data sz off k = (r, d, o1, k1)" by (metis prod_cases4)
  have pe: "polite_end op (sz - off) (ends k (sock_fd sock))" using assms(1,2) by (auto simp: fed_def polite_end_def)
  note q = socketProgress_polite [OF p assms(3,4) pe assms(5)]
  obtain bs where bs: "o1 = off + length bs" "o1 \<le> sz" "shifted op (sock_fd sock) bs k k1" "moves_bytes op data off bs d"
    using socketProgress_moves [OF p] assms(3,4) by auto
  have "op = NCCL_SOCKET_RECV \<Longrightarrow> need - length bs \<le> length (sk_in (ends k1 (sock_fd sock)))"
    using assms(1) shifted_recv [of "sock_fd sock" bs k k1] bs(3) by (auto simp: fed_def)
  moreover have "need - length bs \<le> hits (sk_answers (ends k1 (sock_fd sock)))"
    using q(5) bs(1) assms(1) by (auto simp: fed_def)
  ultimately have "fed op (need - length bs) (ends k1 (sock_fd sock))"
    using q(2) by (auto simp: fed_def polite_end_def)
  moreover have "sk_answers (ends k (sock_fd sock)) \<noteq> []" using assms(1-3) by (auto simp: fed_def)
  ultimately show ?thesis using p q(1,4) bs
    by (cases "sk_answers (ends k (sock_fd sock))") (auto intro!: exI [of _ bs])
qed

lemma fed_wait:
  assumes "fed op need (ends k (sock_fd sock))" "sz - off \<le> need" "off \<le> sz" "sz \<le> length data" "\<not> sock_abortFlag sock"
  shows "\<exists>d bs k1. socketWait op sock data sz off k = Some (ncclSuccess, d, sz, k1) \<and> length bs = sz - off \<and>
    shifted op (sock_fd sock) bs k k1 \<and> moves_bytes op data off bs d \<and>
    fed op (need - (sz - off)) (ends k1 (sock_fd sock))"
  using assms(1-4)
proof (induction "length (sk_answers (ends k (sock_fd sock)))" arbitrary: data off k need rule: less_induct)
  case less
  show ?case
  proof (cases "off = sz")
    case True
    then show ?thesis using less.prems by (auto simp: socketWait_done intro!: exI [of _ "[]"] shifted_Nil)
  next
    case False
    then have lt: "off < sz" using less.prems(3) by simp
    obtain d bs k1 where p: "socketProgress op sock data sz off k = (ncclSuccess, d, off + length bs, k1)"
      "off + length bs \<le> sz" "shifted op (sock_fd sock) bs k k1" "moves_bytes op data off bs d"
      "fed op (need - length bs) (ends k1 (sock_fd sock))"
      "length (sk_answers (ends k1 (sock_fd sock))) < length (sk_answers (ends k (sock_fd sock)))"
      using fed_progress [OF less.prems(1,2) lt less.prems(4) assms(5)] by blast
    have len: "sz \<le> length d" using moves_bytes_length [OF p(4)] p(2) less.prems(4) by simp
    have need: "sz - (off + length bs) \<le> need - length bs" using less.prems(2) by linarith
    obtain d' cs k' where w: "socketWait op sock d sz (off + length bs) k1 = Some (ncclSuccess, d', sz, k')"
      "length cs = sz - (off + length bs)" "shifted op (sock_fd sock) cs k1 k'" "moves_bytes op d (off + length bs) cs d'"
      "fed op (need - length bs - (sz - (off + length bs))) (ends k' (sock_fd sock))"
      using less.hyps [OF p(6,5) need p(2) len] by blast
    have "socketWait op sock data sz off k = Some (ncclSuccess, d', sz, k')"
      using lt p(1) w(1) by (subst socketWait.simps) simp
    moreover have "moves_bytes op data off (bs @ cs) d'"
      using moves_bytes_trans [OF p(4) w(4)] w(2) p(2) less.prems(4) by simp
    moreover have "need - length bs - (sz - (off + length bs)) = need - (sz - off)" using p(2) by simp
    ultimately show ?thesis using shifted_trans [OF p(3) w(3)] w(2,5) p(2) by (auto intro!: exI [of _ "bs @ cs"])
  qed
qed

lemma socketWait_starves:
  assumes "socketWait op sock data sz off k = Some y"
  shows "\<not> (off < sz \<and> sz \<le> length data \<and> polite_end op (sz - off) (ends k (sock_fd sock)) \<and>
    \<not> sock_abortFlag sock \<and> budget (sk_answers (ends k (sock_fd sock))) < sz - off)"
proof (rule socketWait.raw_induct [where P = "\<lambda>op sock data sz off k y.
    \<not> (off < sz \<and> sz \<le> length data \<and> polite_end op (sz - off) (ends k (sock_fd sock)) \<and>
      \<not> sock_abortFlag sock \<and> budget (sk_answers (ends k (sock_fd sock))) < sz - off)", OF _ assms], rule notI)
  fix W op sock data sz off k y
  assume IH: "\<And>op sock data sz off k y. W op sock data sz off k = Some y \<Longrightarrow>
      \<not> (off < sz \<and> sz \<le> length data \<and> polite_end op (sz - off) (ends k (sock_fd sock)) \<and>
        \<not> sock_abortFlag sock \<and> budget (sk_answers (ends k (sock_fd sock))) < sz - off)"
    and eq: "(if off < sz
      then let (r, data1, off1, k1) = socketProgress op sock data sz off k
           in if r \<noteq> ncclSuccess then Some (r, data1, off1, k1) else W op sock data1 sz off1 k1
      else Some (ncclSuccess, data, off, k)) = Some y"
    and h: "off < sz \<and> sz \<le> length data \<and> polite_end op (sz - off) (ends k (sock_fd sock)) \<and>
      \<not> sock_abortFlag sock \<and> budget (sk_answers (ends k (sock_fd sock))) < sz - off"
  obtain r d o1 k1 where p: "socketProgress op sock data sz off k = (r, d, o1, k1)" by (metis prod_cases4)
  have q: "r = ncclSuccess" "polite_end op (sz - o1) (ends k1 (sock_fd sock))"
    "budget (sk_answers (ends k1 (sock_fd sock))) < sz - o1" "sz \<le> length d"
    using socketProgress_polite [OF p] socketProgress_bounds [OF p] h by auto
  have "W op sock d sz o1 k1 = Some y" using eq h p q(1) by simp
  then show False using IH [of op sock d sz o1 k1 y] q h by auto
qed

text \<open>One answer at a time: after a polite answer the wait goes on as if it had been called behind it.\<close>

lemma socketWait_turn:
  assumes "socket_call op sock data sz off k = (n, e, d, k1)" "off < sz" "off + m \<le> sz" "\<not> sock_abortFlag sock"
    "n = int m \<and> (op = NCCL_SOCKET_RECV \<longrightarrow> m \<noteq> 0) \<or> n = - 1 \<and> m = 0 \<and> (e = EINTR \<or> e = EWOULDBLOCK \<or> e = EAGAIN)"
  shows "socketWait op sock data sz off k = socketWait op sock d sz (off + m) k1"
proof -
  note t = socketProgressOpt_turn [OF assms(1,4,5)]
  show ?thesis
  proof (cases "0 < m \<and> off + m < sz")
    case True
    then have "socketProgress op sock data sz off k = socketProgress op sock d sz (off + m) k1"
      using t by (simp add: socketProgress_def)
    then show ?thesis
      using True assms(2) by (simp add: socketWait.simps [of op sock data sz off k] socketWait.simps [of op sock d sz "off + m" k1])
  next
    case False
    then have "socketProgressOpt op sock data sz off k = (ncclSuccess, False, d, off + m, k1)" using t by (simp only: if_False)
    then have "socketProgress op sock data sz off k = (ncclSuccess, d, off + m, k1)" by (simp add: socketProgress_def)
    then show ?thesis using assms(2) by (simp add: socketWait.simps [of op sock data sz off k])
  qed
qed

lemma socketWait_polite_answer:
  assumes a: "sk_answers (ends k (sock_fd sock)) = a # as" and pol: "polite op a" and le: "off < sz" "sz \<le> length data"
    and inp: "op = NCCL_SOCKET_RECV \<Longrightarrow> sz - off \<le> length (sk_in (ends k (sock_fd sock)))" and ab: "\<not> sock_abortFlag sock"
  obtains d k1 where
    "socketWait op sock data sz off k = socketWait op sock d sz (off + min (moved a) (sz - off)) k1"
    "sk_answers (ends k1 (sock_fd sock)) = as" "length d = length data"
    "op = NCCL_SOCKET_RECV \<Longrightarrow> sz - (off + min (moved a) (sz - off)) \<le> length (sk_in (ends k1 (sock_fd sock)))"
proof -
  let ?m = "min (moved a) (sz - off)"
  obtain n e d k1 where c: "socket_call op sock data sz off k = (n, e, d, k1)" by (metis prod_cases4)
  have ev: "(n = int ?m \<and> (op = NCCL_SOCKET_RECV \<longrightarrow> ?m \<noteq> 0) \<or> n = - 1 \<and> ?m = 0 \<and> (e = EINTR \<or> e = EWOULDBLOCK \<or> e = EAGAIN)) \<and>
      sk_answers (ends k1 (sock_fd sock)) = as \<and> length d = length data \<and>
      (op = NCCL_SOCKET_RECV \<longrightarrow> sz - (off + ?m) \<le> length (sk_in (ends k1 (sock_fd sock))))"
  proof (cases op)
    case NCCL_SOCKET_SEND
    then show ?thesis
      using c a pol le by (cases a) (auto simp: socket_call_def net_send_def Let_def min_def)
  next
    case NCCL_SOCKET_RECV
    then have "sz - off \<le> length (sk_in (ends k (sock_fd sock)))" using inp by simp
    then show ?thesis
      using NCCL_SOCKET_RECV c a pol le
      by (cases a) (auto simp: socket_call_def net_recv_def Let_def bytes_put_def min_def)
  qed
  then have "socketWait op sock data sz off k = socketWait op sock d sz (off + ?m) k1"
    using le by (intro socketWait_turn [OF c le(1) _ ab]) auto
  then show thesis using ev that by blast
qed

lemma socketWait_succeeds:
  assumes "sk_answers (ends k (sock_fd sock)) = as @ rest" "list_all (polite op) as" "off \<le> sz" "sz \<le> length data"
    "op = NCCL_SOCKET_RECV \<Longrightarrow> sz - off \<le> length (sk_in (ends k (sock_fd sock)))" "\<not> sock_abortFlag sock" "sz - off \<le> budget as"
  shows "\<exists>d k1. socketWait op sock data sz off k = Some (ncclSuccess, d, sz, k1)"
  using assms(1-5,7)
proof (induction as arbitrary: data off k)
  case Nil
  then show ?case using socketWait_done [of op sock data sz k] by simp
next
  case (Cons a as)
  show ?case
  proof (cases "off = sz")
    case True
    then show ?thesis using socketWait_done [of op sock data sz k] by simp
  next
    case False
    then have lt: "off < sz" using Cons.prems(3) by simp
    have a: "sk_answers (ends k (sock_fd sock)) = a # (as @ rest)" "polite op a" using Cons.prems(1,2) by simp_all
    obtain d k1 where w: "socketWait op sock data sz off k = socketWait op sock d sz (off + min (moved a) (sz - off)) k1"
      "sk_answers (ends k1 (sock_fd sock)) = as @ rest" "length d = length data"
      "op = NCCL_SOCKET_RECV \<Longrightarrow> sz - (off + min (moved a) (sz - off)) \<le> length (sk_in (ends k1 (sock_fd sock)))"
      using socketWait_polite_answer [OF a lt Cons.prems(4,5) assms(6)] by blast
    show ?thesis unfolding w(1) using Cons.prems lt w(3) by (intro Cons.IH w(2,4)) auto
  qed
qed

lemma socketWait_breaks:
  assumes "sk_answers (ends k (sock_fd sock)) = as @ a # rest" "list_all (polite op) as" "\<not> polite op a" "off \<le> sz"
    "sz \<le> length data" "op = NCCL_SOCKET_RECV \<Longrightarrow> sz - off \<le> length (sk_in (ends k (sock_fd sock)))"
    "\<not> sock_abortFlag sock" "budget as < sz - off"
  shows "\<exists>d k1. socketWait op sock data sz off k = Some (ncclRemoteError, d, off + budget as, k1)"
  using assms(1,2,4-6,8)
proof (induction as arbitrary: data off k)
  case Nil
  obtain n e d k1 where c: "socket_call op sock data sz off k = (n, e, d, k1)" by (metis prod_cases4)
  have "op = NCCL_SOCKET_RECV \<and> n = 0 \<or> n = - 1 \<and> e \<noteq> EINTR \<and> e \<noteq> EWOULDBLOCK \<and> e \<noteq> EAGAIN"
    using c Nil.prems(1) assms(3)
    by (cases op; cases a) (auto simp: socket_call_def net_send_def net_recv_def Let_def)
  then have "socketProgress op sock data sz off k = (ncclRemoteError, d, off, k1)"
    using c unfolding socketProgress_def by (subst socketProgressOpt.simps) auto
  then show ?case using Nil.prems(6) by (subst socketWait.simps) simp
next
  case (Cons b as)
  have lt: "off < sz" using Cons.prems(6) by simp
  have b: "sk_answers (ends k (sock_fd sock)) = b # (as @ a # rest)" "polite op b" using Cons.prems(1,2) by simp_all
  obtain d k1 where w: "socketWait op sock data sz off k = socketWait op sock d sz (off + min (moved b) (sz - off)) k1"
    "sk_answers (ends k1 (sock_fd sock)) = as @ a # rest" "length d = length data"
    "op = NCCL_SOCKET_RECV \<Longrightarrow> sz - (off + min (moved b) (sz - off)) \<le> length (sk_in (ends k1 (sock_fd sock)))"
    using socketWait_polite_answer [OF b lt Cons.prems(4,5) assms(7)] by blast
  have m: "min (moved b) (sz - off) = moved b" using Cons.prems(6) by simp
  have "\<exists>d' k2. socketWait op sock d sz (off + moved b) k1 = Some (ncclRemoteError, d', off + moved b + budget as, k2)"
    using Cons.prems lt w(2,3,4) unfolding m by (intro Cons.IH) auto
  then show ?case using w(1) unfolding m by (simp add: add.assoc)
qed

text \<open>C26. What becomes of a wait, on a socket without an abort flag, for any answers of the kernel, with the
  bytes a receive waits for on their way. The answers up to the first fatal one (an error that is not
  retried, or the end of the connection for a receive) decide: if they move the bytes left, the wait
  returns success with the buffer complete; if they move fewer and there is no fatal one, it spins for ever;
  if they move fewer and a fatal one follows, it reports it with the position it has reached.\<close>

theorem socketWait_returns_iff_fed:
  assumes "off \<le> sz" "sz \<le> length data" "\<not> sock_abortFlag sock"
    "op = NCCL_SOCKET_RECV \<Longrightarrow> sz - off \<le> length (sk_in (ends k (sock_fd sock)))"
    "as = takeWhile (polite op) (sk_answers (ends k (sock_fd sock)))"
  shows "if sz - off \<le> budget as
    then \<exists>d k1 bs. socketWait op sock data sz off k = Some (ncclSuccess, d, sz, k1) \<and> length bs = sz - off \<and>
      (case op of
         NCCL_SOCKET_SEND \<Rightarrow> d = data \<and> bs = bytes_at off (sz - off) data \<and>
           sk_out (ends k1 (sock_fd sock)) = sk_out (ends k (sock_fd sock)) @ bs
       | NCCL_SOCKET_RECV \<Rightarrow> d = bytes_put off bs data \<and>
           sk_in (ends k (sock_fd sock)) = bs @ sk_in (ends k1 (sock_fd sock)))
    else if as = sk_answers (ends k (sock_fd sock)) then socketWait op sock data sz off k = None
    else \<exists>d k1. socketWait op sock data sz off k = Some (ncclRemoteError, d, off + budget as, k1)"
proof -
  let ?all = "sk_answers (ends k (sock_fd sock))"
  have pol: "list_all (polite op) as" unfolding assms(5) list_all_iff by (auto dest: set_takeWhileD)
  have split: "?all = as @ dropWhile (polite op) ?all" unfolding assms(5) by simp
  consider (fed) "sz - off \<le> budget as" | (starved) "budget as < sz - off" "as = ?all" | (broken) "budget as < sz - off" "as \<noteq> ?all"
    by linarith
  then show ?thesis
  proof cases
    case fed
    then obtain d k1 where w: "socketWait op sock data sz off k = Some (ncclSuccess, d, sz, k1)"
      using socketWait_succeeds [OF split pol assms(1,2,4,3)] by blast
    obtain bs where "sz = off + length bs" "shifted op (sock_fd sock) bs k k1" "moves_bytes op data off bs d"
      using socketWait_moves [OF w assms(1,2)] by metis
    then show ?thesis using w fed shifted_send [of "sock_fd sock" bs k k1] shifted_recv [of "sock_fd sock" bs k k1]
      by (auto simp: moves_bytes_def split: sock_op.splits intro!: exI [of _ bs])
  next
    case starved
    then have "socketWait op sock data sz off k = None"
      using socketWait_starves [of op sock data sz off k] assms(2-4) pol
      by (cases "socketWait op sock data sz off k") (auto simp: polite_end_def)
    then show ?thesis using starved by simp
  next
    case broken
    then obtain a rest where d: "dropWhile (polite op) ?all = a # rest" using split by (cases "dropWhile (polite op) ?all") auto
    then have "\<not> polite op a" by (metis hd_dropWhile list.distinct(1) list.sel(1))
    then have "\<exists>d k1. socketWait op sock data sz off k = Some (ncclRemoteError, d, off + budget as, k1)"
      using socketWait_breaks [OF _ pol _ assms(1,2,4,3) broken(1)] split d by metis
    then show ?thesis using broken by simp
  qed
qed

section \<open>Examples\<close>

text \<open>A kernel where every descriptor has the same input and the same answers to come.\<close>

definition example_net :: "u8 list \<Rightarrow> answer list \<Rightarrow> Net" where
  "example_net bs as = \<lparr>ends = (\<lambda>_. \<lparr>sk_answers = as, sk_out = [], sk_in = bs\<rparr>), aborts = [], sys_errs = [], new_fds = [],
     accept_answers = [], connect_answers = [], poll_answers = [], so_errors = [], sock_name = zero_addr, closed_fds = []\<rparr>"

theorem socketWait_returns_iff_fed_witness:
  "socketWait NCCL_SOCKET_SEND zero_sock [1, 2] 2 0 (example_net [] [Moves 1]) = None \<and>
   (\<exists>d k1. socketWait NCCL_SOCKET_RECV zero_sock [0, 0] 2 0 (example_net [5, 6, 7] [Moves 1, Moves 0, Moves 1])
      = Some (ncclRemoteError, d, 1, k1)) \<and>
   (\<exists>k1. socketWait NCCL_SOCKET_RECV zero_sock [0, 0] 2 0 (example_net [5, 6, 7] [Moves 1, Fails EINTR, Moves 9])
      = Some (ncclSuccess, [5, 6], 2, k1) \<and> sk_in (ends k1 0) = [7])"
proof -
  have s: "\<not> sock_abortFlag zero_sock" "sock_fd zero_sock = 0" by (simp_all add: zero_sock_def)
  have 1: "socketWait NCCL_SOCKET_SEND zero_sock [1, 2] 2 0 (example_net [] [Moves 1]) = None"
    using socketWait_returns_iff_fed [of 0 2 "[1, 2]" zero_sock NCCL_SOCKET_SEND "example_net [] [Moves 1]"] s
    by (simp add: example_net_def)
  have 2: "\<exists>d k1. socketWait NCCL_SOCKET_RECV zero_sock [0, 0] 2 0 (example_net [5, 6, 7] [Moves 1, Moves 0, Moves 1])
      = Some (ncclRemoteError, d, 1, k1)"
    using socketWait_returns_iff_fed [of 0 2 "[0, 0]" zero_sock NCCL_SOCKET_RECV "example_net [5, 6, 7] [Moves 1, Moves 0, Moves 1]"] s
    by (simp add: example_net_def)
  let ?k = "example_net [5, 6, 7] [Moves 1, Fails EINTR, Moves 9]"
  obtain d k1 bs where "socketWait NCCL_SOCKET_RECV zero_sock [0, 0] 2 0 ?k = Some (ncclSuccess, d, 2, k1)"
    "length bs = 2" "d = bytes_put 0 bs [0, 0]" "[5, 6, 7] = bs @ sk_in (ends k1 0)"
    using socketWait_returns_iff_fed [of 0 2 "[0, 0]" zero_sock NCCL_SOCKET_RECV ?k] s
    by (auto simp: example_net_def)
  then show ?thesis using 1 2 by (auto simp: bytes_put_def length_Suc_conv numeral_2_eq_2)
qed

end
