(* ===== verification/NcclSockState.thy ===== *)
theory NcclSockState
  imports NcclSocket
begin

text \<open>
  The second half of \<^verbatim>\<open>nccl_internal_impl/socket.cc\<close>: creating, listening, connecting, accepting and
  closing, as the state machine of \<open>socketProgressState\<close>. A socket structure is a value that the
  operations return updated; a NULL pointer is \<open>None\<close>. Every function that may wait for bytes returns
  an option, \<open>None\<close> for spinning for ever. The results of the calls that only succeed or fail
  (\<open>setsockopt\<close>, \<open>fcntl\<close>, \<open>bind\<close>, \<open>getsockname\<close>, \<open>listen\<close>) are taken from \<open>sys_errs\<close>; exhausted scripts mean
  success there, no pending connection for \<open>accept\<close>, \<open>EINPROGRESS\<close> for \<open>connect\<close> and a timeout for \<open>poll\<close>.
\<close>

section \<open>Creating and listening\<close>

fun type_code :: "ncclSocketType \<Rightarrow> nat" where
  "type_code ncclSocketTypeUnknown = 0"
| "type_code ncclSocketTypeBootstrap = 1"
| "type_code ncclSocketTypeProxy = 2"
| "type_code ncclSocketTypeNetSocket = 3"
| "type_code ncclSocketTypeNetIb = 4"

definition socketToPort :: "ncclSocketAddress \<Rightarrow> nat" where
  "socketToPort addr = sa_port addr"

definition sock_fail :: "ncclSocket \<Rightarrow> Net \<Rightarrow> ncclResult_t \<Rightarrow> ncclResult_t \<times> ncclSocket \<times> Net" where
  "sock_fail s k ret =
     (if sock_fd s \<noteq> - 1 then (ret, s\<lparr>sock_fd := - 1\<rparr>, net_close (sock_fd s) k) else (ret, s, k))"

text \<open>The end of \<open>ncclSocketInit\<close>: two calls of \<open>fcntl\<close> make the descriptor non-blocking.\<close>

definition init_nonblocking :: "ncclSocket \<Rightarrow> Net \<Rightarrow> ncclResult_t \<times> ncclSocket \<times> Net" where
  "init_nonblocking s k =
     (if (sock_asyncFlag s \<or> sock_abortFlag s) \<and> 0 \<le> sock_fd s
      then (let (e1, k1) = sys_call k
            in if e1 \<noteq> 0 then sock_fail s k1 ncclSystemError
               else (let (e2, k2) = sys_call k1
                     in if e2 \<noteq> 0 then sock_fail s k2 ncclSystemError else (ncclSuccess, s, k2)))
      else (ncclSuccess, s, k))"

definition ncclSocketInit ::
  "ncclSocket option \<Rightarrow> ncclSocketAddress option \<Rightarrow> u64 \<Rightarrow> ncclSocketType \<Rightarrow> bool \<Rightarrow> bool \<Rightarrow> Net \<Rightarrow>
   ncclResult_t \<times> ncclSocket option \<times> Net" where
  "ncclSocketInit sock addr magic ty abortFlag asyncFlag k =
     (case sock of
        None \<Rightarrow> (ncclSuccess, None, k)
      | Some s0 \<Rightarrow>
          (let s = s0\<lparr>sock_timedOutRetries := 0, sock_refusedRetries := 0, sock_abortFlag := abortFlag,
                 sock_asyncFlag := asyncFlag, sock_state := ncclSocketStateInitialized, sock_magic := magic,
                 sock_type := ty, sock_fd := - 1, sock_acceptFd := - 1\<rparr>;
               (r, s', k') =
                 (case addr of
                    Some a \<Rightarrow>
                      (let s1 = s\<lparr>sock_addr := a\<rparr>; family = sa_family a
                       in if family \<noteq> AF_INET \<and> family \<noteq> AF_INET6 then sock_fail s1 k ncclInternalError
                          else
                            (let (fd, k1) = (case new_fds k of [] \<Rightarrow> (- 1, k) | f # fs \<Rightarrow> (f, k\<lparr>new_fds := fs\<rparr>));
                                 s2 = s1\<lparr>sock_salen := (if family = AF_INET then 16 else 28), sock_fd := fd\<rparr>
                             in if fd = - 1 then sock_fail s2 k1 ncclSystemError
                                else init_nonblocking s2 k1))
                  | None \<Rightarrow> init_nonblocking (s\<lparr>sock_addr := zero_addr\<rparr>) k)
           in (r, Some s', k')))"

definition ncclSocketListen :: "ncclSocket option \<Rightarrow> Net \<Rightarrow> ncclResult_t \<times> ncclSocket option \<times> Net" where
  "ncclSocketListen sock k =
     (case sock of
        None \<Rightarrow> (ncclInvalidArgument, None, k)
      | Some s \<Rightarrow>
          if sock_fd s = - 1 then (ncclInvalidArgument, Some s, k)
          else
            (let (e1, k1) = (if socketToPort (sock_addr s) \<noteq> 0 then sys_call k else (0, k))
             in if e1 \<noteq> 0 then (ncclSystemError, Some s, k1)
                else (let (e2, k2) = sys_call k1
                      in if e2 \<noteq> 0 then (ncclSystemError, Some s, k2)
                         else (let (e3, k3) = sys_call k2
                               in if e3 \<noteq> 0 then (ncclSystemError, Some s, k3)
                                  else (let s1 = s\<lparr>sock_addr := sock_name k3\<rparr>; (e4, k4) = sys_call k3
                                        in if e4 \<noteq> 0 then (ncclSystemError, Some s1, k4)
                                           else (ncclSuccess, Some (s1\<lparr>sock_state := ncclSocketStateReady\<rparr>), k4))))))"

definition ncclSocketGetAddr :: "ncclSocket option \<Rightarrow> ncclSocketAddress \<Rightarrow> ncclResult_t \<times> ncclSocketAddress" where
  "ncclSocketGetAddr sock addr =
     (case sock of
        None \<Rightarrow> (ncclInvalidArgument, addr)
      | Some s \<Rightarrow>
          if sock_state s \<noteq> ncclSocketStateReady then (ncclInternalError, addr) else (ncclSuccess, sock_addr s))"

section \<open>The steps of the state machine\<close>

definition socketTryAccept :: "ncclSocket \<Rightarrow> Net \<Rightarrow> ncclResult_t \<times> ncclSocket \<times> Net" where
  "socketTryAccept s k =
     (case accept_answers k of
        [] \<Rightarrow> (ncclSuccess, s\<lparr>sock_fd := - 1\<rparr>, k)
      | AcceptFails e # as \<Rightarrow>
          (if e \<noteq> EAGAIN \<and> e \<noteq> EWOULDBLOCK then ncclSystemError else ncclSuccess,
           s\<lparr>sock_fd := - 1\<rparr>, k\<lparr>accept_answers := as\<rparr>)
      | Accepts fd addr # as \<Rightarrow>
          (ncclSuccess, s\<lparr>sock_fd := fd, sock_addr := addr, sock_state := ncclSocketStateAccepted\<rparr>,
           k\<lparr>accept_answers := as\<rparr>))"

definition socketFinalizeAccept :: "ncclSocket \<Rightarrow> Net \<Rightarrow> (ncclResult_t \<times> ncclSocket \<times> Net) option" where
  "socketFinalizeAccept s k =
     (let (e, k1) = sys_call k
      in if e \<noteq> 0 then Some (ncclSystemError, s, k1)
         else
           (let (r, m, received, k2) = ncclSocketProgress NCCL_SOCKET_RECV (Some s) (replicate 8 0) 8 0 k1
            in if r \<noteq> ncclSuccess then Some (r, s, k2)
               else if received = 0 then Some (ncclSuccess, s, k2)
               else
                 (case socketWait NCCL_SOCKET_RECV s m 8 received k2 of
                    None \<Rightarrow> None
                  | Some (r, m, received, k3) \<Rightarrow>
                      if r \<noteq> ncclSuccess then Some (r, s, k3)
                      else if le_value m \<noteq> unat (sock_magic s)
                      then Some (ncclSuccess, s\<lparr>sock_fd := - 1, sock_state := ncclSocketStateAccepting\<rparr>,
                                 net_close (sock_fd s) k3)
                      else
                        (case socketWait NCCL_SOCKET_RECV s (replicate 4 0) 4 0 k3 of
                           None \<Rightarrow> None
                         | Some (r, t, received, k4) \<Rightarrow>
                             if r \<noteq> ncclSuccess then Some (r, s, k4)
                             else if le_value t \<noteq> type_code (sock_type s)
                             then Some (ncclInternalError, s\<lparr>sock_state := ncclSocketStateError, sock_fd := - 1\<rparr>,
                                        net_close (sock_fd s) k4)
                             else Some (ncclSuccess, s\<lparr>sock_state := ncclSocketStateReady\<rparr>, k4)))))"

definition socketStartConnect :: "ncclSocket \<Rightarrow> Net \<Rightarrow> ncclResult_t \<times> ncclSocket \<times> Net" where
  "socketStartConnect s k =
     (let (e, k1) = (case connect_answers k of [] \<Rightarrow> (EINPROGRESS, k) | e # es \<Rightarrow> (e, k\<lparr>connect_answers := es\<rparr>))
      in if e = 0 then (ncclSuccess, s\<lparr>sock_state := ncclSocketStateConnected\<rparr>, k1)
         else if e = EINPROGRESS then (ncclSuccess, s\<lparr>sock_state := ncclSocketStateConnectPolling\<rparr>, k1)
         else if e = ECONNREFUSED
         then (let s1 = s\<lparr>sock_refusedRetries := sock_refusedRetries s + 1\<rparr>
               in if sock_refusedRetries s1 = RETRY_REFUSED_TIMES
                  then (ncclRemoteError, s1\<lparr>sock_state := ncclSocketStateError\<rparr>, k1)
                  else (ncclSuccess, s1, k1))
         else if e = ETIMEDOUT
         then (let s1 = s\<lparr>sock_timedOutRetries := sock_timedOutRetries s + 1\<rparr>
               in if sock_timedOutRetries s1 = RETRY_TIMEDOUT_TIMES
                  then (ncclRemoteError, s1\<lparr>sock_state := ncclSocketStateError\<rparr>, k1)
                  else (ncclSuccess, s1, k1))
         else (ncclSystemError, s\<lparr>sock_state := ncclSocketStateError\<rparr>, k1))"

definition socketPollConnect :: "ncclSocket \<Rightarrow> Net \<Rightarrow> ncclResult_t \<times> ncclSocket \<times> Net" where
  "socketPollConnect s k =
     (let (ret, err, pollout, k1) =
            (case poll_answers k of [] \<Rightarrow> (0, 0, False, k) | Polls n e out # ps \<Rightarrow> (n, e, out, k\<lparr>poll_answers := ps\<rparr>))
      in if ret = 0 \<or> ret < 0 \<and> err = EINTR then (ncclSuccess, s, k1)
         else if ret < 0 then (ncclRemoteError, s, k1)
         else if ret \<noteq> 1 \<or> \<not> pollout then (ncclSystemError, s, k1)
         else
           (case so_errors k1 of
              None # es \<Rightarrow> (ncclSystemError, s, k1\<lparr>so_errors := es\<rparr>)
            | so \<Rightarrow>
                (let (e, k2) = (case so of Some e # es \<Rightarrow> (e, k1\<lparr>so_errors := es\<rparr>) | _ \<Rightarrow> (0, k1))
                 in if e = 0 then (ncclSuccess, s\<lparr>sock_state := ncclSocketStateConnected\<rparr>, k2)
                    else if e = ECONNREFUSED
                    then (let s1 = s\<lparr>sock_refusedRetries := sock_refusedRetries s + 1\<rparr>
                          in if sock_refusedRetries s1 = RETRY_REFUSED_TIMES
                             then (ncclRemoteError, s1\<lparr>sock_state := ncclSocketStateError\<rparr>, k2)
                             else (ncclSuccess, s1\<lparr>sock_state := ncclSocketStateConnecting\<rparr>, k2))
                    else if e = ETIMEDOUT
                    then (let s1 = s\<lparr>sock_timedOutRetries := sock_timedOutRetries s + 1\<rparr>
                          in if sock_timedOutRetries s1 = RETRY_TIMEDOUT_TIMES
                             then (ncclRemoteError, s1\<lparr>sock_state := ncclSocketStateError\<rparr>, k2)
                             else (ncclSuccess, s1\<lparr>sock_state := ncclSocketStateConnecting\<rparr>, k2))
                    else if e \<noteq> EINPROGRESS
                    then (ncclSystemError, s\<lparr>sock_state := ncclSocketStateError\<rparr>, k2)
                    else (ncclSuccess, s, k2))))"

definition ncclSocketPollConnect :: "ncclSocket option \<Rightarrow> Net \<Rightarrow> ncclResult_t \<times> ncclSocket option \<times> Net" where
  "ncclSocketPollConnect sock k =
     (case sock of
        None \<Rightarrow> (ncclInvalidArgument, None, k)
      | Some s \<Rightarrow> (let (r, s1, k1) = socketPollConnect s k in (r, Some s1, k1)))"

definition socketFinalizeConnect :: "ncclSocket \<Rightarrow> Net \<Rightarrow> (ncclResult_t \<times> ncclSocket \<times> Net) option" where
  "socketFinalizeConnect s k =
     (let m = le_bytes 8 (unat (sock_magic s));
          (r, m1, sent, k1) = socketProgress NCCL_SOCKET_SEND s m 8 0 k
      in if r \<noteq> ncclSuccess then Some (r, s, k1)
         else if sent = 0 then Some (ncclSuccess, s, k1)
         else
           (case socketWait NCCL_SOCKET_SEND s m 8 sent k1 of
              None \<Rightarrow> None
            | Some (r, m2, sent, k2) \<Rightarrow>
                if r \<noteq> ncclSuccess then Some (r, s, k2)
                else
                  (case socketWait NCCL_SOCKET_SEND s (le_bytes 4 (type_code (sock_type s))) 4 0 k2 of
                     None \<Rightarrow> None
                   | Some (r, t, sent, k3) \<Rightarrow>
                       if r \<noteq> ncclSuccess then Some (r, s, k3)
                       else Some (ncclSuccess, s\<lparr>sock_state := ncclSocketStateReady\<rparr>, k3))))"

text \<open>\<open>socketProgressState\<close> is five guarded steps in sequence; a step whose state does not apply is
  skipped, a failing one returns.\<close>

definition guarded_step ::
  "ncclSocketState \<Rightarrow> (ncclSocket \<Rightarrow> Net \<Rightarrow> (ncclResult_t \<times> ncclSocket \<times> Net) option) \<Rightarrow>
   (ncclResult_t \<times> ncclSocket \<times> Net) option \<Rightarrow> (ncclResult_t \<times> ncclSocket \<times> Net) option" where
  "guarded_step st f res =
     (case res of
        None \<Rightarrow> None
      | Some (r, s, k) \<Rightarrow> if r \<noteq> ncclSuccess \<or> sock_state s \<noteq> st then Some (r, s, k) else f s k)"

definition socketProgressState :: "ncclSocket \<Rightarrow> Net \<Rightarrow> (ncclResult_t \<times> ncclSocket \<times> Net) option" where
  "socketProgressState s k =
     guarded_step ncclSocketStateConnected socketFinalizeConnect
      (guarded_step ncclSocketStateConnectPolling (\<lambda>s k. Some (socketPollConnect s k))
       (guarded_step ncclSocketStateConnecting (\<lambda>s k. Some (socketStartConnect s k))
        (guarded_step ncclSocketStateAccepted socketFinalizeAccept
         (guarded_step ncclSocketStateAccepting (\<lambda>s k. Some (socketTryAccept s k))
          (Some (ncclSuccess, s, k))))))"

section \<open>The exported operations\<close>

text \<open>\<open>*running\<close> is \<open>None\<close> when the function returns before writing it.\<close>

definition ncclSocketReady ::
  "ncclSocket option \<Rightarrow> Net \<Rightarrow> (ncclResult_t \<times> bool option \<times> ncclSocket option \<times> Net) option" where
  "ncclSocketReady sock k =
     (case sock of
        None \<Rightarrow> Some (ncclSuccess, Some False, None, k)
      | Some s \<Rightarrow>
          if sock_state s = ncclSocketStateError \<or> sock_state s = ncclSocketStateClosed
          then Some (ncclRemoteError, None, Some s, k)
          else if sock_state s = ncclSocketStateReady then Some (ncclSuccess, Some True, Some s, k)
          else
            (case socketProgressState s k of
               None \<Rightarrow> None
             | Some (r, s1, k1) \<Rightarrow>
                 if r \<noteq> ncclSuccess then Some (r, Some False, Some s1, k1)
                 else Some (ncclSuccess, Some (sock_state s1 = ncclSocketStateReady), Some s1, k1)))"

text \<open>The loops of \<open>ncclSocketConnect\<close> and \<open>ncclSocketAccept\<close>: a blocking socket keeps going while its
  state is one of those under way.\<close>

partial_function (option) progress_while ::
  "(ncclSocketState \<Rightarrow> bool) \<Rightarrow> ncclSocket \<Rightarrow> Net \<Rightarrow> (ncclResult_t \<times> ncclSocket \<times> Net) option" where
  "progress_while under_way s k =
     (case socketProgressState s k of
        None \<Rightarrow> None
      | Some (r, s1, k1) \<Rightarrow>
          if r \<noteq> ncclSuccess then Some (r, s1, k1)
          else if sock_asyncFlag s1 then Some (ncclSuccess, s1, k1)
          else
            (let (abort, k2) = abort_read s1 k1
             in if \<not> abort \<and> under_way (sock_state s1) then progress_while under_way s1 k2
                else Some (ncclSuccess, s1, k2)))"

definition connect_under_way :: "ncclSocketState \<Rightarrow> bool" where
  "connect_under_way st \<longleftrightarrow>
     st = ncclSocketStateConnecting \<or> st = ncclSocketStateConnectPolling \<or> st = ncclSocketStateConnected"

definition accept_under_way :: "ncclSocketState \<Rightarrow> bool" where
  "accept_under_way st \<longleftrightarrow> st = ncclSocketStateAccepting \<or> st = ncclSocketStateAccepted"

definition final_result :: "(ncclSocketState \<Rightarrow> bool) \<Rightarrow> ncclSocketState \<Rightarrow> ncclResult_t" where
  "final_result under_way st =
     (if under_way st \<or> st = ncclSocketStateReady then ncclSuccess
      else if st = ncclSocketStateError then ncclSystemError
      else ncclInternalError)"

definition ncclSocketConnect :: "ncclSocket option \<Rightarrow> Net \<Rightarrow> (ncclResult_t \<times> ncclSocket option \<times> Net) option" where
  "ncclSocketConnect sock k =
     (case sock of
        None \<Rightarrow> Some (ncclInvalidArgument, None, k)
      | Some s \<Rightarrow>
          if sock_fd s = - 1 then Some (ncclInvalidArgument, Some s, k)
          else if sock_state s \<noteq> ncclSocketStateInitialized
          then Some (if sock_state s = ncclSocketStateError then ncclRemoteError else ncclInternalError, Some s, k)
          else
            (let (e, k1) = sys_call k
             in if e \<noteq> 0 then Some (ncclSystemError, Some s, k1)
                else
                  (case progress_while connect_under_way (s\<lparr>sock_state := ncclSocketStateConnecting\<rparr>) k1 of
                     None \<Rightarrow> None
                   | Some (r, s1, k2) \<Rightarrow>
                       if r \<noteq> ncclSuccess then Some (r, Some s1, k2)
                       else
                         (let (abort, k3) = abort_read s1 k2
                          in Some (if abort then ncclInternalError else final_result connect_under_way (sock_state s1),
                                   Some s1, k3)))))"

definition ncclSocketAccept ::
  "ncclSocket option \<Rightarrow> ncclSocket option \<Rightarrow> Net \<Rightarrow> (ncclResult_t \<times> ncclSocket option \<times> Net) option" where
  "ncclSocketAccept sock listenSock k =
     (case (listenSock, sock) of
        (Some l, Some s) \<Rightarrow>
          if sock_state l \<noteq> ncclSocketStateReady
          then Some (if sock_state l = ncclSocketStateError then ncclSystemError else ncclInternalError, Some s, k)
          else
            (let s1 = (if sock_acceptFd s = - 1
                       then l\<lparr>sock_acceptFd := sock_fd l, sock_state := ncclSocketStateAccepting\<rparr> else s)
             in case progress_while accept_under_way s1 k of
                  None \<Rightarrow> None
                | Some (r, s2, k1) \<Rightarrow>
                    if r \<noteq> ncclSuccess then Some (r, Some s2, k1)
                    else
                      (let (abort, k2) = abort_read s2 k1
                       in Some (if abort then ncclInternalError else final_result accept_under_way (sock_state s2),
                                Some s2, k2)))
      | _ \<Rightarrow> Some (ncclInvalidArgument, sock, k))"

definition ncclSocketClose :: "ncclSocket option \<Rightarrow> Net \<Rightarrow> ncclResult_t \<times> ncclSocket option \<times> Net" where
  "ncclSocketClose sock k =
     (case sock of
        None \<Rightarrow> (ncclSuccess, None, k)
      | Some s \<Rightarrow>
          (ncclSuccess, Some (s\<lparr>sock_state := ncclSocketStateClosed, sock_fd := - 1\<rparr>),
           if 0 \<le> sock_fd s then net_close (sock_fd s) k else k))"

text \<open>\<open>*fd\<close> is \<open>None\<close> when the caller passes NULL.\<close>

definition ncclSocketGetFd :: "ncclSocket option \<Rightarrow> int option \<Rightarrow> ncclResult_t \<times> int option" where
  "ncclSocketGetFd sock fd =
     (case sock of None \<Rightarrow> (ncclInvalidArgument, fd) | Some s \<Rightarrow> (ncclSuccess, map_option (\<lambda>_. sock_fd s) fd))"

definition ncclSocketSetFd :: "int \<Rightarrow> ncclSocket option \<Rightarrow> ncclResult_t \<times> ncclSocket option" where
  "ncclSocketSetFd fd sock =
     (case sock of None \<Rightarrow> (ncclInvalidArgument, None) | Some s \<Rightarrow> (ncclSuccess, Some (s\<lparr>sock_fd := fd\<rparr>)))"

section \<open>The handshake\<close>

text \<open>What a connecting socket says first: its magic and its type.\<close>

definition hello :: "ncclSocket \<Rightarrow> u8 list" where
  "hello s = le_bytes 8 (unat (sock_magic s)) @ le_bytes 4 (type_code (sock_type s))"

lemma length_hello [simp, layout]: "length (hello s) = 12"
  by (simp add: hello_def)

lemma le_value_inj: "length bs = n \<Longrightarrow> le_value bs = v \<Longrightarrow> bs = le_bytes n v"
  using le_bytes_le_value by metis

lemma sys_call_frame: "sys_call k = (e, k1) \<Longrightarrow> ends k1 = ends k \<and> accept_answers k1 = accept_answers k \<and>
    closed_fds k1 = closed_fds k \<and> connect_answers k1 = connect_answers k \<and> aborts k1 = aborts k"
  by (auto simp: sys_call_def split: list.splits)

text \<open>\<open>received\<close> keeps what the steps below need of a read into a local buffer.\<close>

lemma recv_progress:
  assumes "socketProgress NCCL_SOCKET_RECV s (replicate n 0) n 0 k = (r, m, got, k1)"
  obtains bs where "got = length bs" "got \<le> n" "take got m = bs" "length m = n" "shifted NCCL_SOCKET_RECV (sock_fd s) bs k k1"
proof -
  obtain bs where bs: "got = 0 + length bs" "got \<le> n" "shifted NCCL_SOCKET_RECV (sock_fd s) bs k k1"
    "moves_bytes NCCL_SOCKET_RECV (replicate n 0) 0 bs m"
    using socketProgress_moves [OF assms] by auto
  then show ?thesis using that [of bs] by (auto simp: moves_bytes_def bytes_put_def)
qed

lemma recv_wait:
  assumes "socketWait NCCL_SOCKET_RECV s m n got k = Some (r, m1, got1, k1)" "got \<le> n" "length m = n"
  obtains bs where "take got1 m1 = take got m @ bs" "length m1 = n" "shifted NCCL_SOCKET_RECV (sock_fd s) bs k k1"
    "got1 = got + length bs" "got1 \<le> n" "r = ncclSuccess \<Longrightarrow> got1 = n"
proof -
  obtain bs where bs: "got1 = got + length bs" "got1 \<le> n" "shifted NCCL_SOCKET_RECV (sock_fd s) bs k k1"
    "moves_bytes NCCL_SOCKET_RECV m got bs m1" "r = ncclSuccess \<Longrightarrow> got1 = n"
    using socketWait_moves [OF assms(1)] assms(2,3) by (metis order_refl)
  then show ?thesis using that [of bs] assms(2,3) by (auto simp: moves_bytes_def bytes_put_def)
qed

lemma le_value_magic [simp]: "le_value (le_bytes 8 (unat (m :: u64))) = unat m"
proof -
  have "unat m < 256 ^ 8" using unsigned_less [of m] by simp
  then show ?thesis by (rule le_value_le_bytes_id)
qed

lemma le_value_type [simp]: "le_value (le_bytes 4 (type_code t)) = type_code t"
  by (cases t) (simp_all add: le_value_le_bytes)

text \<open>Every way \<open>socketFinalizeAccept\<close> can return, with the bytes it has consumed.\<close>

datatype accept_fate = NothingYet | AcceptBroken | BothMatch | WrongMagic | WrongType

fun accept_outcome ::
  "accept_fate \<Rightarrow> ncclSocket \<Rightarrow> u8 list \<Rightarrow> ncclResult_t \<Rightarrow> ncclSocket \<Rightarrow> bool" where
  "accept_outcome NothingYet s bs r s' \<longleftrightarrow> r = ncclSuccess \<and> s' = s \<and> bs = []"
| "accept_outcome AcceptBroken s bs r s' \<longleftrightarrow> r \<noteq> ncclSuccess \<and> s' = s"
| "accept_outcome BothMatch s bs r s' \<longleftrightarrow>
     r = ncclSuccess \<and> s' = s\<lparr>sock_state := ncclSocketStateReady\<rparr> \<and> bs = hello s"
| "accept_outcome WrongMagic s bs r s' \<longleftrightarrow>
     r = ncclSuccess \<and> s' = s\<lparr>sock_fd := - 1, sock_state := ncclSocketStateAccepting\<rparr> \<and>
     length bs = 8 \<and> bs \<noteq> le_bytes 8 (unat (sock_magic s))"
| "accept_outcome WrongType s bs r s' \<longleftrightarrow>
     r = ncclInternalError \<and> s' = s\<lparr>sock_state := ncclSocketStateError, sock_fd := - 1\<rparr> \<and>
     length bs = 12 \<and> take 8 bs = le_bytes 8 (unat (sock_magic s)) \<and> bs \<noteq> hello s"

lemma finalizeAccept_outcome:
  assumes "socketFinalizeAccept s k = Some (r, s', k')"
  shows "\<exists>fate bs. accept_outcome fate s bs r s' \<and> sk_in (ends k (sock_fd s)) = bs @ sk_in (ends k' (sock_fd s)) \<and>
    accept_answers k' = accept_answers k"
proof -
  let ?fd = "sock_fd s"
  obtain e k1 where e: "sys_call k = (e, k1)" by fastforce
  note f = sys_call_frame [OF e]
  obtain r0 m got k2 where p: "socketProgress NCCL_SOCKET_RECV s (replicate 8 0) 8 0 k1 = (r0, m, got, k2)"
    by (metis prod_cases4)
  obtain bs where bs: "got = length bs" "got \<le> 8" "take got m = bs" "length m = 8"
    "shifted NCCL_SOCKET_RECV ?fd bs k1 k2" using recv_progress [OF p] .
  have in2: "sk_in (ends k ?fd) = bs @ sk_in (ends k2 ?fd)" "accept_answers k2 = accept_answers k"
    using shifted_recv [OF bs(5)] shifted_ends(2) [OF bs(5)] f by simp_all
  consider (sys) "e \<noteq> 0" "(r, s', k') = (ncclSystemError, s, k1)"
    | (broken) "r0 \<noteq> ncclSuccess" "(r, s', k') = (r0, s, k2)"
    | (nothing) "got = 0" "(r, s', k') = (ncclSuccess, s, k2)"
    | (some) r1 m1 got1 k3 where "socketWait NCCL_SOCKET_RECV s m 8 got k2 = Some (r1, m1, got1, k3)"
        "r1 \<noteq> ncclSuccess \<and> (r, s', k') = (r1, s, k3) \<or>
         r1 = ncclSuccess \<and> le_value m1 \<noteq> unat (sock_magic s) \<and>
           (r, s', k') = (ncclSuccess, s\<lparr>sock_fd := - 1, sock_state := ncclSocketStateAccepting\<rparr>, net_close ?fd k3) \<or>
         r1 = ncclSuccess \<and> le_value m1 = unat (sock_magic s) \<and>
           (\<exists>r2 t got2 k4. socketWait NCCL_SOCKET_RECV s (replicate 4 0) 4 0 k3 = Some (r2, t, got2, k4) \<and>
              (r, s', k') =
                (if r2 \<noteq> ncclSuccess then (r2, s, k4)
                 else if le_value t \<noteq> type_code (sock_type s)
                 then (ncclInternalError, s\<lparr>sock_state := ncclSocketStateError, sock_fd := - 1\<rparr>, net_close ?fd k4)
                 else (ncclSuccess, s\<lparr>sock_state := ncclSocketStateReady\<rparr>, k4)))"
    using assms p e unfolding socketFinalizeAccept_def ncclSocketProgress_def
    by (auto simp: Let_def split: if_splits option.splits)
  then show ?thesis
  proof cases
    case sys
    then show ?thesis using f by (intro exI [of _ AcceptBroken] exI [of _ "[]"]) simp
  next
    case broken
    then show ?thesis using in2 by (intro exI [of _ AcceptBroken] exI [of _ bs]) simp
  next
    case nothing
    then show ?thesis using in2 bs(1) by (intro exI [of _ NothingYet] exI [of _ "[]"]) simp
  next
    case some
    obtain cs where cs: "take got1 m1 = bs @ cs" "length m1 = 8" "shifted NCCL_SOCKET_RECV ?fd cs k2 k3"
      "got1 = got + length cs" "r1 = ncclSuccess \<Longrightarrow> got1 = 8"
      using recv_wait [OF some(1) bs(2,4)] bs(3) by metis
    have in3: "sk_in (ends k ?fd) = (bs @ cs) @ sk_in (ends k3 ?fd)" "accept_answers k3 = accept_answers k"
      using shifted_recv [OF cs(3)] shifted_ends(2) [OF cs(3)] in2 by simp_all
    have m1: "r1 = ncclSuccess \<Longrightarrow> m1 = bs @ cs \<and> length (bs @ cs) = 8" using cs bs(1) by auto
    from some(2) consider (a) "r1 \<noteq> ncclSuccess" "(r, s', k') = (r1, s, k3)"
      | (b) "r1 = ncclSuccess" "le_value m1 \<noteq> unat (sock_magic s)"
          "(r, s', k') = (ncclSuccess, s\<lparr>sock_fd := - 1, sock_state := ncclSocketStateAccepting\<rparr>, net_close ?fd k3)"
      | (c) r2 t got2 k4 where "r1 = ncclSuccess" "le_value m1 = unat (sock_magic s)"
          "socketWait NCCL_SOCKET_RECV s (replicate 4 0) 4 0 k3 = Some (r2, t, got2, k4)"
          "(r, s', k') = (if r2 \<noteq> ncclSuccess then (r2, s, k4)
             else if le_value t \<noteq> type_code (sock_type s)
             then (ncclInternalError, s\<lparr>sock_state := ncclSocketStateError, sock_fd := - 1\<rparr>, net_close ?fd k4)
             else (ncclSuccess, s\<lparr>sock_state := ncclSocketStateReady\<rparr>, k4))"
      by blast
    then show ?thesis
    proof cases
      case a
      then show ?thesis using in3 by (intro exI [of _ AcceptBroken] exI [of _ "bs @ cs"]) simp
    next
      case b
      then have "bs @ cs \<noteq> le_bytes 8 (unat (sock_magic s))" using m1 by auto
      then show ?thesis using in3 m1 b by (intro exI [of _ WrongMagic] exI [of _ "bs @ cs"]) (simp add: net_close_def)
    next
      case c
      obtain ds where ds: "take got2 t = [] @ ds" "length t = 4" "shifted NCCL_SOCKET_RECV ?fd ds k3 k4"
        "got2 = 0 + length ds" "r2 = ncclSuccess \<Longrightarrow> got2 = 4"
        using recv_wait [OF c(3)] by (metis length_replicate take_0 zero_le)
      have in4: "sk_in (ends k ?fd) = (bs @ cs @ ds) @ sk_in (ends k4 ?fd)" "accept_answers k4 = accept_answers k"
        using shifted_recv [OF ds(3)] shifted_ends(2) [OF ds(3)] in3 by simp_all
      have mm: "bs @ cs = le_bytes 8 (unat (sock_magic s))" using le_value_inj [of m1 8] c(1,2) m1 by simp
      have t: "r2 = ncclSuccess \<Longrightarrow> t = ds \<and> length ds = 4" using ds by auto
      consider (1) "r2 \<noteq> ncclSuccess" | (2) "r2 = ncclSuccess" "le_value t \<noteq> type_code (sock_type s)"
        | (3) "r2 = ncclSuccess" "le_value t = type_code (sock_type s)" by blast
      then show ?thesis
      proof cases
        case 1
        then show ?thesis using c(4) in4 by (intro exI [of _ AcceptBroken] exI [of _ "bs @ cs @ ds"]) simp
      next
        case 2
        then have "ds \<noteq> le_bytes 4 (type_code (sock_type s))" using t by auto
        then have "bs @ cs @ ds \<noteq> hello s" "length (bs @ cs @ ds) = 12"
          "take 8 (bs @ cs @ ds) = le_bytes 8 (unat (sock_magic s))"
          using mm t 2(1) m1 c(1) by (auto simp: hello_def simp flip: append_assoc)
        then show ?thesis using 2 c(4) in4
          by (intro exI [of _ WrongType] exI [of _ "bs @ cs @ ds"]) (simp add: net_close_def)
      next
        case 3
        then have "ds = le_bytes 4 (type_code (sock_type s))" using le_value_inj [of t 4] t by simp
        then have "bs @ cs @ ds = hello s" using mm by (simp add: hello_def flip: append_assoc)
        then show ?thesis using 3 c(4) in4 by (intro exI [of _ BothMatch] exI [of _ "bs @ cs @ ds"]) simp
      qed
    qed
  qed
qed

text \<open>Every way \<open>socketFinalizeConnect\<close> can return: nothing said, everything said, or an error.\<close>

lemma finalizeConnect_outcome:
  assumes "socketFinalizeConnect s k = Some (r, s', k')"
  shows "\<exists>bs. shifted NCCL_SOCKET_SEND (sock_fd s) bs k k' \<and>
    (r = ncclSuccess \<and> s' = s \<and> bs = [] \<or>
     r = ncclSuccess \<and> s' = s\<lparr>sock_state := ncclSocketStateReady\<rparr> \<and> bs = hello s \<or>
     r \<noteq> ncclSuccess \<and> s' = s \<and> take (length bs) (hello s) = bs)"
proof -
  let ?m = "le_bytes 8 (unat (sock_magic s))" and ?t = "le_bytes 4 (type_code (sock_type s))" and ?fd = "sock_fd s"
  obtain r0 m1 sent k1 where p: "socketProgress NCCL_SOCKET_SEND s ?m 8 0 k = (r0, m1, sent, k1)" by (metis prod_cases4)
  obtain bs where bs: "sent = length bs" "sent \<le> 8" "shifted NCCL_SOCKET_SEND ?fd bs k k1" "take (length bs) ?m = bs"
    using socketProgress_moves [OF p] by (auto simp: moves_bytes_def bytes_at_def)
  consider (quit) "(r, s', k') = (if r0 \<noteq> ncclSuccess then r0 else ncclSuccess, s, k1)" "r0 \<noteq> ncclSuccess \<or> sent = 0"
    | (go) r1 m2 sent2 k2 where "socketWait NCCL_SOCKET_SEND s ?m 8 sent k1 = Some (r1, m2, sent2, k2)"
        "r1 \<noteq> ncclSuccess \<and> (r, s', k') = (r1, s, k2) \<or>
         r1 = ncclSuccess \<and> (\<exists>r2 t sent3 k3. socketWait NCCL_SOCKET_SEND s ?t 4 0 k2 = Some (r2, t, sent3, k3) \<and>
           (r, s', k') = (if r2 \<noteq> ncclSuccess then (r2, s, k3)
                          else (ncclSuccess, s\<lparr>sock_state := ncclSocketStateReady\<rparr>, k3)))"
    using assms p unfolding socketFinalizeConnect_def by (auto simp: Let_def split: if_splits option.splits)
  then show ?thesis
  proof cases
    case quit
    have "take (length bs) (hello s) = bs" using bs(1,2,4) by (simp add: hello_def)
    then show ?thesis using quit bs(1,3) by (cases "r0 = ncclSuccess") (auto intro!: exI [of _ bs])
  next
    case go
    obtain cs where cs: "sent2 = sent + length cs" "sent2 \<le> 8" "shifted NCCL_SOCKET_SEND ?fd cs k1 k2"
      "bytes_at sent (length cs) ?m = cs" "r1 = ncclSuccess \<Longrightarrow> sent2 = 8"
      using socketWait_moves [OF go(1)] bs(2) by (auto simp: moves_bytes_def)
    have bc: "take (length (bs @ cs)) ?m = bs @ cs" "shifted NCCL_SOCKET_SEND ?fd (bs @ cs) k k2"
      using bs cs shifted_trans [OF bs(3) cs(3)] by (auto simp: bytes_at_def take_add)
    from go(2) consider (a) "r1 \<noteq> ncclSuccess" "(r, s', k') = (r1, s, k2)"
      | (b) r2 t sent3 k3 where "r1 = ncclSuccess" "socketWait NCCL_SOCKET_SEND s ?t 4 0 k2 = Some (r2, t, sent3, k3)"
          "(r, s', k') = (if r2 \<noteq> ncclSuccess then (r2, s, k3)
                          else (ncclSuccess, s\<lparr>sock_state := ncclSocketStateReady\<rparr>, k3))"
      by blast
    then show ?thesis
    proof cases
      case a
      have "take (length (bs @ cs)) (hello s) = bs @ cs" using bc(1) bs(1) cs(1,2) by (simp add: hello_def)
      then show ?thesis using a bc(2) by (intro exI [of _ "bs @ cs"]) auto
    next
      case b
      obtain ds where ds: "sent3 = length ds" "sent3 \<le> 4" "shifted NCCL_SOCKET_SEND ?fd ds k2 k3"
        "take (length ds) ?t = ds" "r2 = ncclSuccess \<Longrightarrow> sent3 = 4"
        using socketWait_moves [OF b(2)] by (auto simp: moves_bytes_def bytes_at_def)
      have m: "bs @ cs = ?m" using bc(1) cs(1,5) b(1) bs(1) by simp
      have sh: "shifted NCCL_SOCKET_SEND ?fd (?m @ ds) k k3" using shifted_trans [OF bc(2) ds(3)] m by simp
      have pre: "take (length (?m @ ds)) (hello s) = ?m @ ds" using ds(4) by (simp add: hello_def)
      show ?thesis
      proof (cases "r2 = ncclSuccess")
        case True
        then have "?m @ ds = hello s" using ds(1,4,5) by (simp add: hello_def)
        then show ?thesis using True b(3) sh by (intro exI [of _ "?m @ ds"]) auto
      next
        case False
        then show ?thesis using b(3) sh pre by (intro exI [of _ "?m @ ds"]) auto
      qed
    qed
  qed
qed

text \<open>With the kernel's cooperation both sides get through.\<close>

lemma shifted_sys_errs: "shifted op fd bs k k1 \<Longrightarrow> sys_errs k1 = sys_errs k \<and> accept_answers k1 = accept_answers k
    \<and> connect_answers k1 = connect_answers k \<and> closed_fds k1 = closed_fds k"
  by (auto simp: shifted_def)

lemma fed_mono: "fed op n s \<Longrightarrow> m \<le> n \<Longrightarrow> fed op m s"
  by (auto simp: fed_def)

lemma finalizeConnect_fed:
  assumes "fed NCCL_SOCKET_SEND 12 (ends k (sock_fd s))" "\<not> sock_abortFlag s"
  shows "\<exists>s' k'. socketFinalizeConnect s k = Some (ncclSuccess, s', k') \<and>
    connect_answers k' = connect_answers k \<and>
    (s' = s\<lparr>sock_state := ncclSocketStateReady\<rparr> \<or>
     s' = s \<and> fed NCCL_SOCKET_SEND 12 (ends k' (sock_fd s)) \<and>
       length (sk_answers (ends k' (sock_fd s))) < length (sk_answers (ends k (sock_fd s))))"
proof -
  let ?m = "le_bytes 8 (unat (sock_magic s))" and ?t = "le_bytes 4 (type_code (sock_type s))" and ?fd = "sock_fd s"
  obtain m1 bs k1 where p: "socketProgress NCCL_SOCKET_SEND s ?m 8 0 k = (ncclSuccess, m1, 0 + length bs, k1)"
    "0 + length bs \<le> 8" "shifted NCCL_SOCKET_SEND ?fd bs k k1" "moves_bytes NCCL_SOCKET_SEND ?m 0 bs m1"
    "fed NCCL_SOCKET_SEND (12 - length bs) (ends k1 ?fd)"
    "length (sk_answers (ends k1 ?fd)) < length (sk_answers (ends k ?fd))"
    using fed_progress [OF assms(1), of 8 0 ?m] assms(2) by auto
  show ?thesis
  proof (cases "bs = []")
    case True
    then show ?thesis using p shifted_sys_errs [OF p(3)] by (simp add: socketFinalizeConnect_def Let_def)
  next
    case False
    obtain m2 cs k2 where w: "socketWait NCCL_SOCKET_SEND s ?m 8 (length bs) k1 = Some (ncclSuccess, m2, 8, k2)"
      "shifted NCCL_SOCKET_SEND ?fd cs k1 k2" "fed NCCL_SOCKET_SEND 4 (ends k2 ?fd)"
      using fed_wait [OF p(5), of 8 "length bs" ?m] p(2) assms(2) by fastforce
    obtain t ds k3 where v: "socketWait NCCL_SOCKET_SEND s ?t 4 0 k2 = Some (ncclSuccess, t, 4, k3)"
      "shifted NCCL_SOCKET_SEND ?fd ds k2 k3"
      using fed_wait [OF w(3), of 4 0 ?t] assms(2) by fastforce
    have "socketFinalizeConnect s k = Some (ncclSuccess, s\<lparr>sock_state := ncclSocketStateReady\<rparr>, k3)"
      using False p(1) w(1) v(1) by (simp add: socketFinalizeConnect_def Let_def)
    then show ?thesis
      using shifted_sys_errs [OF p(3)] shifted_sys_errs [OF w(2)] shifted_sys_errs [OF v(2)]
      by (auto intro!: exI [of _ k3])
  qed
qed

section \<open>The transitions of the state machine\<close>

inductive sock_edge :: "ncclSocketState \<Rightarrow> ncclSocketState \<Rightarrow> bool" where
  connection_accepted: "sock_edge ncclSocketStateAccepting ncclSocketStateAccepted"
| spurious_connection: "sock_edge ncclSocketStateAccepted ncclSocketStateAccepting"
| wrong_type: "sock_edge ncclSocketStateAccepted ncclSocketStateError"
| accept_done: "sock_edge ncclSocketStateAccepted ncclSocketStateReady"
| connect_pending: "sock_edge ncclSocketStateConnecting ncclSocketStateConnectPolling"
| connect_at_once: "sock_edge ncclSocketStateConnecting ncclSocketStateConnected"
| connect_failed: "sock_edge ncclSocketStateConnecting ncclSocketStateError"
| poll_connected: "sock_edge ncclSocketStateConnectPolling ncclSocketStateConnected"
| poll_retry: "sock_edge ncclSocketStateConnectPolling ncclSocketStateConnecting"
| poll_failed: "sock_edge ncclSocketStateConnectPolling ncclSocketStateError"
| connect_done: "sock_edge ncclSocketStateConnected ncclSocketStateReady"

inductive_cases edge_fromE: "sock_edge st st'"

definition fds_ok :: "Net \<Rightarrow> bool" where
  "fds_ok k \<longleftrightarrow> (\<forall>x \<in> set (accept_answers k). case x of Accepts fd a \<Rightarrow> 0 \<le> fd | AcceptFails e \<Rightarrow> True)"

text \<open>What holds of every socket: the counters stay below their limits while a connection is under way,
  and a socket in a state that uses its descriptor has one.\<close>

definition sock_wf :: "ncclSocket \<Rightarrow> bool" where
  "sock_wf s \<longleftrightarrow> (sock_state s = ncclSocketStateInitialized \<longrightarrow> sock_refusedRetries s = 0 \<and> sock_timedOutRetries s = 0) \<and>
     sock_refusedRetries s \<le> RETRY_REFUSED_TIMES \<and> sock_timedOutRetries s \<le> RETRY_TIMEDOUT_TIMES \<and>
     (connect_under_way (sock_state s) \<longrightarrow>
        sock_refusedRetries s < RETRY_REFUSED_TIMES \<and> sock_timedOutRetries s < RETRY_TIMEDOUT_TIMES) \<and>
     (connect_under_way (sock_state s) \<or> sock_state s = ncclSocketStateAccepted \<or> sock_state s = ncclSocketStateReady \<longrightarrow>
        sock_fd s \<noteq> - 1)"

definition step_ok :: "ncclSocket \<Rightarrow> Net \<Rightarrow> ncclResult_t \<times> ncclSocket \<times> Net \<Rightarrow> bool" where
  "step_ok s0 k0 y \<longleftrightarrow>
     (case y of (r, s, k) \<Rightarrow>
        sock_edge\<^sup>*\<^sup>* (sock_state s0) (sock_state s) \<and>
        (r = ncclSuccess \<and> sock_state s0 \<noteq> ncclSocketStateError \<longrightarrow> sock_state s \<noteq> ncclSocketStateError) \<and>
        (fds_ok k0 \<longrightarrow> fds_ok k \<and> (sock_wf s0 \<longrightarrow> sock_wf s)) \<and>
        sock_magic s = sock_magic s0 \<and> sock_type s = sock_type s0 \<and> sock_asyncFlag s = sock_asyncFlag s0)"

lemma step_ok_refl: "step_ok s k (r, s, k)"
  by (simp add: step_ok_def)

lemma step_ok_trans:
  assumes "step_ok s0 k0 (ncclSuccess, s1, k1)" "step_ok s1 k1 y"
  shows "step_ok s0 k0 y"
proof -
  obtain r s k where y: "y = (r, s, k)" by (metis prod_cases3)
  have "sock_edge\<^sup>*\<^sup>* (sock_state s0) (sock_state s)"
    using assms y by (simp add: step_ok_def) (blast intro: rtranclp_trans)
  then show ?thesis using assms y by (simp add: step_ok_def)
qed

lemma edgeI: "sock_edge a b \<Longrightarrow> sock_edge\<^sup>*\<^sup>* a b"
  by (rule r_into_rtranclp)

lemmas edges [simp] = sock_edge.intros [THEN edgeI]

lemma tryAccept_ok: "sock_state s = ncclSocketStateAccepting \<Longrightarrow> step_ok s k (socketTryAccept s k)"
  by (auto simp: socketTryAccept_def step_ok_def sock_wf_def connect_under_way_def fds_ok_def
      split: list.splits accept_answer.splits)

lemma finalizeAccept_ok:
  assumes "sock_state s = ncclSocketStateAccepted" "socketFinalizeAccept s k = Some y"
  shows "step_ok s k y"
proof -
  obtain r s' k' where y: "y = (r, s', k')" by (metis prod_cases3)
  obtain fate bs where f: "accept_outcome fate s bs r s'" "accept_answers k' = accept_answers k"
    using finalizeAccept_outcome assms(2) y by blast
  show ?thesis using f assms(1) y
    by (cases fate) (auto simp: step_ok_def sock_wf_def connect_under_way_def fds_ok_def)
qed

lemma startConnect_ok: "sock_state s = ncclSocketStateConnecting \<Longrightarrow> step_ok s k (socketStartConnect s k)"
  by (auto simp: socketStartConnect_def step_ok_def sock_wf_def connect_under_way_def fds_ok_def Let_def
      split: list.splits)

lemma pollConnect_ok: "sock_state s = ncclSocketStateConnectPolling \<Longrightarrow> step_ok s k (socketPollConnect s k)"
  by (auto simp: socketPollConnect_def step_ok_def sock_wf_def connect_under_way_def fds_ok_def Let_def
      split: list.splits poll_answer.splits option.splits)

lemma finalizeConnect_ok:
  assumes "sock_state s = ncclSocketStateConnected" "socketFinalizeConnect s k = Some y"
  shows "step_ok s k y"
proof -
  obtain r s' k' where y: "y = (r, s', k')" by (metis prod_cases3)
  obtain bs where "shifted NCCL_SOCKET_SEND (sock_fd s) bs k k'" "s' = s \<or> s' = s\<lparr>sock_state := ncclSocketStateReady\<rparr>"
    using finalizeConnect_outcome assms(2) y by blast
  then show ?thesis using assms(1) y shifted_ends(2) [of NCCL_SOCKET_SEND "sock_fd s" bs k k']
    by (auto simp: step_ok_def sock_wf_def connect_under_way_def fds_ok_def)
qed

lemma guarded_step_ok:
  assumes "\<And>s k y. sock_state s = st \<Longrightarrow> f s k = Some y \<Longrightarrow> step_ok s k y"
    and "\<And>y. res = Some y \<Longrightarrow> step_ok s0 k0 y" and "guarded_step st f res = Some y"
  shows "step_ok s0 k0 y"
proof -
  obtain r s k where res: "res = Some (r, s, k)" using assms(3) by (auto simp: guarded_step_def split: option.splits)
  then have "step_ok s0 k0 (r, s, k)" using assms(2) by blast
  then show ?thesis using assms(1) [of s k y] assms(3) step_ok_trans [of s0 k0 s k y]
    by (auto simp: guarded_step_def res split: if_splits)
qed

lemmas pure_step_ok = tryAccept_ok startConnect_ok pollConnect_ok

lemma socketProgressState_ok:
  assumes "socketProgressState s k = Some y"
  shows "step_ok s k y"
  by (insert assms [unfolded socketProgressState_def],
      (erule guarded_step_ok [rotated 2],
        (erule (1) finalizeAccept_ok finalizeConnect_ok | (drule pure_step_ok, simp)))+,
      simp add: step_ok_refl)

lemma abort_read_ok: "abort_read s k = (b, k1) \<Longrightarrow> step_ok s0 k0 (r, s, k) \<Longrightarrow> step_ok s0 k0 (r, s, k1)"
  by (auto simp: abort_read_def step_ok_def fds_ok_def split: if_splits list.splits)

lemma progress_while_ok:
  assumes "progress_while under_way s k = Some y"
  shows "step_ok s k y"
proof (rule progress_while.raw_induct [where P = "\<lambda>u s k y. step_ok s k y", OF _ assms])
  fix W under_way s k y
  assume IH: "\<And>u s k y. W u s k = Some y \<Longrightarrow> step_ok s k y"
    and eq: "(case socketProgressState s k of None \<Rightarrow> None
      | Some (r, s1, k1) \<Rightarrow>
          if r \<noteq> ncclSuccess then Some (r, s1, k1)
          else if sock_asyncFlag s1 then Some (ncclSuccess, s1, k1)
          else let (abort, k2) = abort_read s1 k1
               in if \<not> abort \<and> under_way (sock_state s1) then W under_way s1 k2 else Some (ncclSuccess, s1, k2)) = Some y"
  obtain r s1 k1 where p: "socketProgressState s k = Some (r, s1, k1)" using eq by (auto split: option.splits)
  note ok = socketProgressState_ok [OF p]
  obtain b k2 where ab: "abort_read s1 k1 = (b, k2)" by fastforce
  show "step_ok s k y"
  proof (cases "r = ncclSuccess \<and> \<not> sock_asyncFlag s1 \<and> \<not> b \<and> under_way (sock_state s1)")
    case True
    then have "W under_way s1 k2 = Some y" using eq p ab by simp
    then show ?thesis using step_ok_trans [of s k s1 k2 y] abort_read_ok [OF ab ok] True IH by blast
  next
    case False
    then have "y = (r, s1, k1) \<or> y = (ncclSuccess, s1, k2) \<and> r = ncclSuccess"
      using eq p ab by (auto split: if_splits)
    then show ?thesis using ok abort_read_ok [OF ab ok] by blast
  qed
qed

text \<open>The sockets a program can have: made by \<open>ncclSocketInit\<close> and put through all the operations that change
  one, in any order, with any answers of the kernel that give non-negative descriptors. Two of the exported
  operations do not look at the state: \<open>ncclSocketPollConnect\<close> is used here on a socket whose connection is
  under way, \<open>ncclSocketSetFd\<close> with a descriptor.\<close>

inductive socket_life :: "ncclSocket \<Rightarrow> bool" where
  life_init: "ncclSocketInit (Some s0) addr magic ty abortFlag asyncFlag k = (r, Some s, k') \<Longrightarrow> socket_life s"
| life_listen: "socket_life s \<Longrightarrow> ncclSocketListen (Some s) k = (r, Some s', k') \<Longrightarrow> socket_life s'"
| life_ready: "socket_life s \<Longrightarrow> fds_ok k \<Longrightarrow> ncclSocketReady (Some s) k = Some (r, run, Some s', k') \<Longrightarrow> socket_life s'"
| life_connect: "socket_life s \<Longrightarrow> fds_ok k \<Longrightarrow> ncclSocketConnect (Some s) k = Some (r, Some s', k') \<Longrightarrow> socket_life s'"
| life_accept: "socket_life s \<Longrightarrow> socket_life l \<Longrightarrow> fds_ok k \<Longrightarrow>
    ncclSocketAccept (Some s) (Some l) k = Some (r, Some s', k') \<Longrightarrow> socket_life s'"
| life_poll: "socket_life s \<Longrightarrow> connect_under_way (sock_state s) \<Longrightarrow> ncclSocketPollConnect (Some s) k = (r, Some s', k') \<Longrightarrow> socket_life s'"
| life_setFd: "socket_life s \<Longrightarrow> fd \<noteq> - 1 \<Longrightarrow> ncclSocketSetFd fd (Some s) = (r, Some s') \<Longrightarrow> socket_life s'"
| life_close: "socket_life s \<Longrightarrow> ncclSocketClose (Some s) k = (r, Some s', k') \<Longrightarrow> socket_life s'"

lemma sock_fail_wf: "sock_fail s k r = (r', s', k') \<Longrightarrow> sock_state s = ncclSocketStateInitialized \<Longrightarrow> sock_wf s \<Longrightarrow>
    sock_wf s' \<and> sock_state s' = ncclSocketStateInitialized"
  by (auto simp: sock_fail_def sock_wf_def connect_under_way_def split: if_splits)

lemma init_nonblocking_wf:
  assumes "init_nonblocking s k = (r, s', k')" "sock_state s = ncclSocketStateInitialized" "sock_wf s"
  shows "sock_wf s'"
  using assms sock_fail_wf by (fastforce simp: init_nonblocking_def Let_def split: if_splits prod.splits)

lemma init_wf: "ncclSocketInit (Some s0) addr magic ty ab as k = (r, Some s, k') \<Longrightarrow> sock_wf s"
proof -
  assume h: "ncclSocketInit (Some s0) addr magic ty ab as k = (r, Some s, k')"
  let ?s = "s0\<lparr>sock_timedOutRetries := 0, sock_refusedRetries := 0, sock_abortFlag := ab, sock_asyncFlag := as,
    sock_state := ncclSocketStateInitialized, sock_magic := magic, sock_type := ty, sock_fd := - 1, sock_acceptFd := - 1\<rparr>"
  note wf = sock_wf_def connect_under_way_def
  show "sock_wf s"
  proof (cases addr)
    case None
    then have "init_nonblocking (?s\<lparr>sock_addr := zero_addr\<rparr>) k = (r, s, k')"
      using h by (auto simp: ncclSocketInit_def Let_def split: prod.splits)
    then show ?thesis by (rule init_nonblocking_wf) (simp_all add: wf)
  next
    case (Some a)
    obtain fd k1 where nf: "(case new_fds k of [] \<Rightarrow> (- 1, k) | f # fs \<Rightarrow> (f, k\<lparr>new_fds := fs\<rparr>)) = (fd, k1)" by fastforce
    let ?s2 = "?s\<lparr>sock_addr := a, sock_salen := (if sa_family a = AF_INET then 16 else 28), sock_fd := fd\<rparr>"
    consider "sock_fail (?s\<lparr>sock_addr := a\<rparr>) k ncclInternalError = (r, s, k')"
      | "sock_fail ?s2 k1 ncclSystemError = (r, s, k')" | "init_nonblocking ?s2 k1 = (r, s, k')"
      using h Some nf by (auto simp: ncclSocketInit_def Let_def split: prod.splits if_splits)
    then show ?thesis
    proof cases
      case 1
      then show ?thesis using sock_fail_wf [OF 1] wf by simp
    next
      case 2
      then show ?thesis using sock_fail_wf [OF 2] wf by simp
    next
      case 3
      then show ?thesis by (rule init_nonblocking_wf) (simp_all add: wf)
    qed
  qed
qed

lemma listen_cases:
  assumes "ncclSocketListen (Some s) k = (r, Some s', k')"
  shows "s' = s \<or> (\<exists>a. s' = s\<lparr>sock_addr := a\<rparr>) \<or>
    sock_fd s \<noteq> - 1 \<and> (\<exists>a. s' = s\<lparr>sock_addr := a, sock_state := ncclSocketStateReady\<rparr>)"
  using assms by (simp add: ncclSocketListen_def Let_def split: if_splits prod.splits) blast+

lemma listen_wf:
  assumes "ncclSocketListen (Some s) k = (r, Some s', k')" "sock_wf s"
  shows "sock_wf s'"
proof -
  have "sock_wf (s\<lparr>sock_addr := a\<rparr>)" for a using assms(2) by (simp add: sock_wf_def)
  moreover have "sock_fd s \<noteq> - 1 \<Longrightarrow> sock_wf (s\<lparr>sock_addr := a, sock_state := ncclSocketStateReady\<rparr>)" for a
    using assms(2) by (simp add: sock_wf_def connect_under_way_def)
  ultimately show ?thesis using listen_cases [OF assms(1)] assms(2) by blast
qed

lemma step_ok_wf: "step_ok s k (r, s', k') \<Longrightarrow> fds_ok k \<Longrightarrow> sock_wf s \<Longrightarrow> sock_wf s'"
  by (simp add: step_ok_def)

lemma ready_wf: "ncclSocketReady (Some s) k = Some (r, run, Some s', k') \<Longrightarrow> fds_ok k \<Longrightarrow> sock_wf s \<Longrightarrow> sock_wf s'"
  by (auto simp: ncclSocketReady_def split: if_splits option.splits dest!: socketProgressState_ok dest: step_ok_wf)

lemma connect_wf:
  assumes "ncclSocketConnect (Some s) k = Some (r, Some s', k')" "fds_ok k" "sock_wf s"
  shows "sock_wf s'"
proof -
  let ?s = "s\<lparr>sock_state := ncclSocketStateConnecting\<rparr>"
  obtain e k1 where e: "sys_call k = (e, k1)" by fastforce
  have k1: "fds_ok k1" using assms(2) sys_call_frame [OF e] by (simp add: fds_ok_def)
  consider "s' = s" | r1 k2 where "sock_fd s \<noteq> - 1" "sock_state s = ncclSocketStateInitialized"
      "progress_while connect_under_way ?s k1 = Some (r1, s', k2)"
    using assms(1) e by (auto simp: ncclSocketConnect_def Let_def split: if_splits option.splits prod.splits)
  then show ?thesis
  proof cases
    case 2
    have "sock_wf ?s" using 2(1,2) assms(3)
      by (simp add: sock_wf_def connect_under_way_def RETRY_REFUSED_TIMES_def RETRY_TIMEDOUT_TIMES_def)
    then show ?thesis using progress_while_ok [OF 2(3)] k1 step_ok_wf by blast
  qed (use assms(3) in simp)
qed

lemma accept_wf:
  assumes "ncclSocketAccept (Some s) (Some l) k = Some (r, Some s', k')" "fds_ok k" "sock_wf s" "sock_wf l"
  shows "sock_wf s'"
proof -
  let ?s = "if sock_acceptFd s = - 1 then l\<lparr>sock_acceptFd := sock_fd l, sock_state := ncclSocketStateAccepting\<rparr> else s"
  consider "s' = s" | r1 k1 where "progress_while accept_under_way ?s k = Some (r1, s', k1)"
    using assms(1) by (auto simp: ncclSocketAccept_def Let_def split: if_splits option.splits prod.splits)
  then show ?thesis
  proof cases
    case 2
    have "sock_wf ?s" using assms(3,4) by (auto simp: sock_wf_def connect_under_way_def)
    then show ?thesis using progress_while_ok [OF 2] assms(2) step_ok_wf by blast
  qed (use assms(3) in simp)
qed

lemma poll_outcome:
  assumes "socketPollConnect s k = (r, s', k')"
  shows "s' = s \<or> s' = s\<lparr>sock_state := ncclSocketStateConnected\<rparr> \<or> s' = s\<lparr>sock_state := ncclSocketStateError\<rparr> \<or>
    s' = s\<lparr>sock_refusedRetries := sock_refusedRetries s + 1,
      sock_state := (if sock_refusedRetries s + 1 = RETRY_REFUSED_TIMES then ncclSocketStateError else ncclSocketStateConnecting)\<rparr> \<or>
    s' = s\<lparr>sock_timedOutRetries := sock_timedOutRetries s + 1,
      sock_state := (if sock_timedOutRetries s + 1 = RETRY_TIMEDOUT_TIMES then ncclSocketStateError else ncclSocketStateConnecting)\<rparr>"
  using assms unfolding socketPollConnect_def Let_def
  by (simp split: prod.splits list.splits option.splits if_splits)

lemma poll_wf:
  assumes "ncclSocketPollConnect (Some s) k = (r, Some s', k')" "connect_under_way (sock_state s)" "sock_wf s"
  shows "sock_wf s'"
proof -
  obtain r k' where p: "socketPollConnect s k = (r, s', k')"
    using assms(1) by (auto simp: ncclSocketPollConnect_def Let_def split: prod.splits)
  have u: "sock_refusedRetries s < RETRY_REFUSED_TIMES" "sock_timedOutRetries s < RETRY_TIMEDOUT_TIMES" "sock_fd s \<noteq> - 1"
    using assms(2,3) by (auto simp: sock_wf_def)
  from poll_outcome [OF p] u assms(3) show ?thesis
    by (elim disjE) (simp_all add: sock_wf_def connect_under_way_def)
qed

text \<open>C27. The invariant of a socket: however a program initialises, listens, connects, accepts, asks for
  readiness, polls a connection under way, puts in a descriptor and closes, and whatever the kernel answers,
  the retry counters stay below their limits while a connection is being established, so the test for
  equality with the limit cannot be jumped over, and a socket that is accepted, connecting, connected or
  ready has a descriptor. \<open>ncclSocketPollConnect\<close> on a socket that has given up and \<open>ncclSocketSetFd\<close> of -1 are
  excluded: they break it.\<close>

theorem socket_life_invariant:
  assumes "socket_life s"
  shows "sock_wf s"
  using assms
proof induction
  case (life_init s0 addr magic ty abortFlag asyncFlag k r s k')
  then show ?case by (rule init_wf)
next
  case (life_close s k r s' k')
  then have "s' = s\<lparr>sock_state := ncclSocketStateClosed, sock_fd := - 1\<rparr>" by (simp add: ncclSocketClose_def)
  then show ?case using life_close.IH by (simp add: sock_wf_def connect_under_way_def)
next
  case (life_listen s k r s' k')
  then show ?case using listen_wf by blast
next
  case (life_ready s k r run s' k')
  then show ?case using ready_wf by blast
next
  case (life_connect s k r s' k')
  then show ?case using connect_wf by blast
next
  case (life_accept s l k r s' k')
  then show ?case using accept_wf by blast
next
  case (life_poll s k r s' k')
  then show ?case using poll_wf by blast
next
  case (life_setFd s fd r s')
  then show ?case by (auto simp: ncclSocketSetFd_def sock_wf_def)
qed

text \<open>The two exclusions are needed: \<open>ncclSocketPollConnect\<close> takes a socket that has given up back to
  connecting, with a counter that has passed the limit the code compares it with, and \<open>ncclSocketSetFd\<close>
  takes the descriptor of a ready socket away.\<close>

theorem poll_after_giving_up:
  assumes "sock_state s = ncclSocketStateError" "sock_refusedRetries s = RETRY_REFUSED_TIMES"
    and "poll_answers k = [Polls 1 0 True]" "so_errors k = [Some ECONNREFUSED]"
  shows "\<exists>s' k'. ncclSocketPollConnect (Some s) k = (ncclSuccess, Some s', k') \<and> sock_state s' = ncclSocketStateConnecting \<and>
    sock_refusedRetries s' = RETRY_REFUSED_TIMES + 1"
  using assms by (simp add: ncclSocketPollConnect_def socketPollConnect_def errno_defs)

lemma no_edge_from: "sock_edge\<^sup>*\<^sup>* st st' \<Longrightarrow> st = ncclSocketStateReady \<or> st = ncclSocketStateClosed \<or>
    st = ncclSocketStateError \<or> st = ncclSocketStateInitialized \<Longrightarrow> st' = st"
  by (induction rule: converse_rtranclp_induct) (auto elim: edge_fromE)

text \<open>The state machine: a call of \<open>socketProgressState\<close> moves the state along the edges of \<open>sock_edge\<close>,
  a call that succeeds never leaves the socket in the error state, a ready or closed socket stays as it is,
  and magic, type and mode never change.\<close>

theorem socketProgressState_transitions:
  assumes "socketProgressState s k = Some (r, s', k')"
  shows "sock_edge\<^sup>*\<^sup>* (sock_state s) (sock_state s') \<and>
    (r = ncclSuccess \<and> sock_state s \<noteq> ncclSocketStateError \<longrightarrow> sock_state s' \<noteq> ncclSocketStateError) \<and>
    (sock_state s \<in> {ncclSocketStateReady, ncclSocketStateClosed} \<longrightarrow> sock_state s' = sock_state s) \<and>
    sock_magic s' = sock_magic s \<and> sock_type s' = sock_type s \<and> sock_asyncFlag s' = sock_asyncFlag s"
  using socketProgressState_ok [OF assms] no_edge_from by (auto simp: step_ok_def)

text \<open>A socket that is initialised, starts to connect, is refused once and so connects again.\<close>

theorem socket_life_invariant_witness:
  "\<exists>s. socket_life s \<and> sock_state s = ncclSocketStateConnecting \<and> sock_refusedRetries s = 1 \<and> sock_fd s = 4 \<and> sock_wf s"
proof -
  let ?k = "(example_net [] [])\<lparr>new_fds := [4], connect_answers := [EINPROGRESS]\<rparr>"
  let ?k1 = "(example_net [] [])\<lparr>poll_answers := [Polls 1 0 True], so_errors := [Some ECONNREFUSED]\<rparr>"
  let ?addr = "zero_addr\<lparr>sa_family := AF_INET\<rparr>"
  obtain s r k where i: "ncclSocketInit (Some zero_sock) (Some ?addr) 7 ncclSocketTypeNetSocket False True ?k = (r, Some s, k)"
    "sock_state s = ncclSocketStateInitialized" "sock_fd s = 4" "sock_asyncFlag s" "sock_refusedRetries s = 0" "sock_timedOutRetries s = 0"
    "connect_answers k = [EINPROGRESS]" "sys_errs k = []" "aborts k = []" "poll_answers k = []" "\<not> sock_abortFlag s" "accept_answers k = []"
    by (auto simp: ncclSocketInit_def init_nonblocking_def sock_fail_def example_net_def Let_def sys_call_def)
  have l0: "socket_life s" by (rule life_init [OF i(1)])
  have "progress_while connect_under_way (s\<lparr>sock_state := ncclSocketStateConnecting\<rparr>) k =
      Some (ncclSuccess, s\<lparr>sock_state := ncclSocketStateConnectPolling\<rparr>, k\<lparr>connect_answers := []\<rparr>)"
    using i by (subst progress_while.simps)
      (simp add: socketProgressState_def guarded_step_def socketStartConnect_def socketPollConnect_def errno_defs Let_def)
  then have c: "ncclSocketConnect (Some s) k =
      Some (ncclSuccess, Some (s\<lparr>sock_state := ncclSocketStateConnectPolling\<rparr>), k\<lparr>connect_answers := []\<rparr>)"
    using i by (simp add: ncclSocketConnect_def sys_call_def abort_read_def final_result_def connect_under_way_def)
  have "fds_ok k" using i(12) by (simp add: fds_ok_def)
  then have l1: "socket_life (s\<lparr>sock_state := ncclSocketStateConnectPolling\<rparr>)" by (rule life_connect [OF l0 _ c])
  have p: "ncclSocketPollConnect (Some (s\<lparr>sock_state := ncclSocketStateConnectPolling\<rparr>)) ?k1 =
      (ncclSuccess, Some (s\<lparr>sock_refusedRetries := 1, sock_state := ncclSocketStateConnecting\<rparr>), example_net [] [])"
    using i(5) by (simp add: ncclSocketPollConnect_def socketPollConnect_def errno_defs example_net_def RETRY_REFUSED_TIMES_def)
  have "socket_life (s\<lparr>sock_refusedRetries := 1, sock_state := ncclSocketStateConnecting\<rparr>)"
    by (rule life_poll [OF l1 _ p]) (simp add: connect_under_way_def)
  then show ?thesis using socket_life_invariant i(3) by fastforce
qed

end
