(* ===== verification/NcclHandshake.thy ===== *)
theory NcclHandshake
  imports NcclSockState
begin

text \<open>
  Establishing a connection with \<^verbatim>\<open>nccl_internal_impl/socket.cc\<close>, end to end: what a blocking
  \<open>ncclSocketConnect\<close> does with a peer that refuses for a while, what a blocking \<open>ncclSocketAccept\<close> does
  with connections of strangers, and how the two sides of the handshake fit together.
\<close>

section \<open>One call of the accepting side\<close>

text \<open>Reading the magic with answers for it: nothing yet, or all eight bytes.\<close>

lemma read_magic_fed:
  assumes "fed NCCL_SOCKET_RECV n (ends k (sock_fd s))" "8 \<le> n" "sk_in (ends k (sock_fd s)) = w @ later" "length w = 8"
    "\<not> sock_abortFlag s"
  obtains (1) m k1 where "socketProgress NCCL_SOCKET_RECV s (replicate 8 0) 8 0 k = (ncclSuccess, m, 0, k1)"
      "shifted NCCL_SOCKET_RECV (sock_fd s) [] k k1" "fed NCCL_SOCKET_RECV n (ends k1 (sock_fd s))"
      "length (sk_answers (ends k1 (sock_fd s))) < length (sk_answers (ends k (sock_fd s)))"
  | (2) m got k1 k2 where
      "socketProgress NCCL_SOCKET_RECV s (replicate 8 0) 8 0 k = (ncclSuccess, m, got, k1)" "got \<noteq> 0"
      "socketWait NCCL_SOCKET_RECV s m 8 got k1 = Some (ncclSuccess, w, 8, k2)"
      "shifted NCCL_SOCKET_RECV (sock_fd s) w k k2" "fed NCCL_SOCKET_RECV (n - 8) (ends k2 (sock_fd s))"
proof -
  let ?fd = "sock_fd s"
  obtain m bs k1 where p: "socketProgress NCCL_SOCKET_RECV s (replicate 8 0) 8 0 k = (ncclSuccess, m, 0 + length bs, k1)"
    "0 + length bs \<le> 8" "shifted NCCL_SOCKET_RECV ?fd bs k k1" "moves_bytes NCCL_SOCKET_RECV (replicate 8 0) 0 bs m"
    "fed NCCL_SOCKET_RECV (n - length bs) (ends k1 ?fd)"
    "length (sk_answers (ends k1 ?fd)) < length (sk_answers (ends k ?fd))"
    using fed_progress [OF assms(1), of 8 0 "replicate 8 0"] assms(2,5) by auto
  show thesis
  proof (cases "bs = []")
    case True
    then show ?thesis using p(1,3,5,6) by (intro 1 [of m k1]) simp_all
  next
    case False
    have m: "take (length bs) m = bs" "length m = 8" using p(2,4) by (auto simp: moves_bytes_def bytes_put_def)
    obtain m2 cs k2 where w: "socketWait NCCL_SOCKET_RECV s m 8 (length bs) k1 = Some (ncclSuccess, m2, 8, k2)"
      "length cs = 8 - length bs" "shifted NCCL_SOCKET_RECV ?fd cs k1 k2" "moves_bytes NCCL_SOCKET_RECV m (length bs) cs m2"
      "fed NCCL_SOCKET_RECV (n - length bs - (8 - length bs)) (ends k2 ?fd)"
      using fed_wait [OF p(5), of 8 "length bs" m] p(2) m(2) assms(2,5) by fastforce
    have m2: "m2 = bs @ cs" using w(2,4) m p(2) by (simp add: moves_bytes_def bytes_put_def)
    have sh: "shifted NCCL_SOCKET_RECV ?fd (bs @ cs) k k2" by (rule shifted_trans [OF p(3) w(3)])
    have "w @ later = (bs @ cs) @ sk_in (ends k2 ?fd)" using shifted_recv [OF sh] assms(3) by simp
    then have "w = bs @ cs" using assms(4) w(2) p(2) append_eq_append_conv [of w "bs @ cs"] by simp
    moreover have "n - length bs - (8 - length bs) = n - 8" using p(2) by simp
    ultimately show ?thesis using 2 [of m "length bs" k1 k2] p(1) w(1,5) sh m2 False by simp
  qed
qed

lemma finalizeAccept_stranger:
  assumes "fed NCCL_SOCKET_RECV 8 (ends k (sock_fd s))" "sk_in (ends k (sock_fd s)) = w @ later" "length w = 8"
    "w \<noteq> le_bytes 8 (unat (sock_magic s))" "\<not> sock_abortFlag s" "sys_errs k = []"
  shows "\<exists>k1. socketFinalizeAccept s k = Some (ncclSuccess, s, k1) \<and> shifted NCCL_SOCKET_RECV (sock_fd s) [] k k1 \<and>
      fed NCCL_SOCKET_RECV 8 (ends k1 (sock_fd s)) \<and>
      length (sk_answers (ends k1 (sock_fd s))) < length (sk_answers (ends k (sock_fd s))) \<or>
    socketFinalizeAccept s k = Some (ncclSuccess, s\<lparr>sock_fd := - 1, sock_state := ncclSocketStateAccepting\<rparr>,
      net_close (sock_fd s) k1) \<and> shifted NCCL_SOCKET_RECV (sock_fd s) w k k1"
proof (cases rule: read_magic_fed [OF assms(1) order_refl assms(2,3,5)])
  case (1 m k1)
  then show ?thesis using assms(6)
    by (intro exI [of _ k1]) (simp add: socketFinalizeAccept_def ncclSocketProgress_def sys_call_def Let_def)
next
  case (2 m got k1 k2)
  have "le_value w \<noteq> unat (sock_magic s)" using assms(3,4) le_value_inj by blast
  then show ?thesis using 2 assms(6)
    by (intro exI [of _ k2]) (simp add: socketFinalizeAccept_def ncclSocketProgress_def sys_call_def Let_def)
qed

lemma finalizeAccept_hello:
  assumes "fed NCCL_SOCKET_RECV 12 (ends k (sock_fd s))" "sk_in (ends k (sock_fd s)) = w @ t @ later"
    "w = le_bytes 8 (unat (sock_magic s))" "length t = 4" "\<not> sock_abortFlag s" "sys_errs k = []"
  shows "\<exists>k1. socketFinalizeAccept s k = Some (ncclSuccess, s, k1) \<and> shifted NCCL_SOCKET_RECV (sock_fd s) [] k k1 \<and>
      fed NCCL_SOCKET_RECV 12 (ends k1 (sock_fd s)) \<and>
      length (sk_answers (ends k1 (sock_fd s))) < length (sk_answers (ends k (sock_fd s))) \<or>
    socketFinalizeAccept s k =
      Some (if t = le_bytes 4 (type_code (sock_type s))
            then (ncclSuccess, s\<lparr>sock_state := ncclSocketStateReady\<rparr>, k1)
            else (ncclInternalError, s\<lparr>sock_state := ncclSocketStateError, sock_fd := - 1\<rparr>, net_close (sock_fd s) k1)) \<and>
      shifted NCCL_SOCKET_RECV (sock_fd s) (w @ t) k k1"
proof -
  have lw: "length w = 8" "8 \<le> (12 :: nat)" using assms(3) by simp_all
  show ?thesis
  proof (cases rule: read_magic_fed [OF assms(1) lw(2) assms(2) lw(1) assms(5)])
    case (1 m k1)
    then show ?thesis using assms(6)
      by (intro exI [of _ k1]) (simp add: socketFinalizeAccept_def ncclSocketProgress_def sys_call_def Let_def)
  next
    case (2 m got k1 k2)
    obtain t1 bs k3 where v: "socketWait NCCL_SOCKET_RECV s (replicate 4 0) 4 0 k2 = Some (ncclSuccess, t1, 4, k3)"
      "length bs = 4" "shifted NCCL_SOCKET_RECV (sock_fd s) bs k2 k3" "moves_bytes NCCL_SOCKET_RECV (replicate 4 0) 0 bs t1"
      using fed_wait [OF 2(5), of 4 0 "replicate 4 0"] assms(5) by fastforce
    have "t1 = bs" using v(2,4) by (simp add: moves_bytes_def bytes_put_def)
    moreover have "bs = t"
    proof -
      have "w @ t @ later = w @ bs @ sk_in (ends k3 (sock_fd s))"
        using shifted_recv [OF v(3)] shifted_recv [OF 2(4)] assms(2) by simp
      then show ?thesis using append_eq_append_conv [of t bs] assms(4) v(2) by simp
    qed
    ultimately have t: "t1 = t" "bs = t" by simp_all
    have "le_value t = type_code (sock_type s) \<longleftrightarrow> t = le_bytes 4 (type_code (sock_type s))"
      using le_value_inj [of t 4] assms(4) by auto
    then show ?thesis using 2 v t assms(3,6) shifted_trans [OF 2(4) v(3)]
      by (intro exI [of _ k3]) (simp add: socketFinalizeAccept_def ncclSocketProgress_def sys_call_def Let_def)
  qed
qed

section \<open>Connecting to a peer that refuses for a while\<close>

lemma progressState_connecting:
  assumes "sock_state s = ncclSocketStateConnecting" "connect_answers k = ECONNREFUSED # es"
    "sock_refusedRetries s + 1 \<noteq> RETRY_REFUSED_TIMES"
  shows "socketProgressState s k =
    Some (ncclSuccess, s\<lparr>sock_refusedRetries := sock_refusedRetries s + 1\<rparr>, k\<lparr>connect_answers := es\<rparr>)"
  using assms
  by (simp add: socketProgressState_def guarded_step_def socketStartConnect_def errno_defs Let_def)

lemma progressState_connected:
  "sock_state s = ncclSocketStateConnected \<Longrightarrow> socketProgressState s k = socketFinalizeConnect s k"
  by (simp add: socketProgressState_def guarded_step_def)

lemma progress_while_step:
  assumes "socketProgressState s k = Some (ncclSuccess, s1, k1)" "\<not> sock_asyncFlag s1" "\<not> sock_abortFlag s1"
  shows "progress_while u s k = (if u (sock_state s1) then progress_while u s1 k1 else Some (ncclSuccess, s1, k1))"
  using assms by (subst progress_while.simps) (simp add: abort_read_def)

text \<open>Once connected, the loop runs until the whole hello is out.\<close>

lemma connected_gets_ready:
  assumes "sock_state s = ncclSocketStateConnected" "fed NCCL_SOCKET_SEND 12 (ends k (sock_fd s))"
    "\<not> sock_asyncFlag s" "\<not> sock_abortFlag s"
  shows "\<exists>k1. progress_while connect_under_way s k = Some (ncclSuccess, s\<lparr>sock_state := ncclSocketStateReady\<rparr>, k1) \<and>
    connect_answers k1 = connect_answers k \<and> sk_out (ends k1 (sock_fd s)) = sk_out (ends k (sock_fd s)) @ hello s"
  using assms(2)
proof (induction "length (sk_answers (ends k (sock_fd s)))" arbitrary: k rule: less_induct)
  case less
  obtain s1 k1 where f: "socketFinalizeConnect s k = Some (ncclSuccess, s1, k1)" "connect_answers k1 = connect_answers k"
    "s1 = s\<lparr>sock_state := ncclSocketStateReady\<rparr> \<or>
     s1 = s \<and> fed NCCL_SOCKET_SEND 12 (ends k1 (sock_fd s)) \<and>
       length (sk_answers (ends k1 (sock_fd s))) < length (sk_answers (ends k (sock_fd s)))"
    using finalizeConnect_fed [OF less.prems assms(4)] by blast
  obtain bs where bs: "shifted NCCL_SOCKET_SEND (sock_fd s) bs k k1"
    "s1 = s \<and> bs = [] \<or> s1 = s\<lparr>sock_state := ncclSocketStateReady\<rparr> \<and> bs = hello s"
    using finalizeConnect_outcome [OF f(1)] by auto
  have ne: "s \<noteq> s\<lparr>sock_state := ncclSocketStateReady\<rparr>"
  proof
    assume "s = s\<lparr>sock_state := ncclSocketStateReady\<rparr>"
    then have "sock_state s = sock_state (s\<lparr>sock_state := ncclSocketStateReady\<rparr>)" by (rule arg_cong)
    then show False using assms(1) by simp
  qed
  note out = shifted_send [OF bs(1)]
  from f(3) show ?case
  proof
    assume r: "s1 = s\<lparr>sock_state := ncclSocketStateReady\<rparr>"
    then have "bs = hello s" using bs(2) ne by auto
    moreover have "progress_while connect_under_way s k = Some (ncclSuccess, s1, k1)"
      using progress_while_step [of s k s1 k1 connect_under_way] f(1) assms r
      by (simp add: progressState_connected connect_under_way_def)
    ultimately show ?thesis using r f(2) out by auto
  next
    assume q: "s1 = s \<and> fed NCCL_SOCKET_SEND 12 (ends k1 (sock_fd s)) \<and>
       length (sk_answers (ends k1 (sock_fd s))) < length (sk_answers (ends k (sock_fd s)))"
    then have "bs = []" using bs(2) ne by auto
    then have out1: "sk_out (ends k1 (sock_fd s)) = sk_out (ends k (sock_fd s))" using out by simp
    obtain k2 where "progress_while connect_under_way s k1 = Some (ncclSuccess, s\<lparr>sock_state := ncclSocketStateReady\<rparr>, k2)"
      "connect_answers k2 = connect_answers k1" "sk_out (ends k2 (sock_fd s)) = sk_out (ends k1 (sock_fd s)) @ hello s"
      using less.hyps q by blast
    moreover have "progress_while connect_under_way s k = progress_while connect_under_way s k1"
      using progress_while_step [of s k s k1 connect_under_way] f(1) assms(1,3,4) q
      by (simp add: progressState_connected connect_under_way_def)
    ultimately show ?thesis using f(2) out1 by (intro exI [of _ k2]) simp
  qed
qed

text \<open>A pass through a state that leads on at once is a pass from the next state.\<close>

lemma progress_while_cong:
  assumes "socketProgressState s k = socketProgressState s1 k1"
  shows "progress_while u s k = progress_while u s1 k1"
  by (simp only: progress_while.simps [of u s k] progress_while.simps [of u s1 k1] assms)

lemma progressState_connect_at_once:
  assumes "sock_state s = ncclSocketStateConnecting" "connect_answers k = 0 # es"
  shows "socketProgressState s k =
    socketProgressState (s\<lparr>sock_state := ncclSocketStateConnected\<rparr>) (k\<lparr>connect_answers := es\<rparr>)"
  using assms by (simp add: socketProgressState_def guarded_step_def socketStartConnect_def Let_def)

lemma progress_while_refused:
  assumes "sock_state s = ncclSocketStateConnecting" "connect_answers k = replicate n ECONNREFUSED @ es"
    "sock_refusedRetries s + n < RETRY_REFUSED_TIMES" "\<not> sock_asyncFlag s" "\<not> sock_abortFlag s"
  shows "progress_while connect_under_way s k =
    progress_while connect_under_way (s\<lparr>sock_refusedRetries := sock_refusedRetries s + n\<rparr>) (k\<lparr>connect_answers := es\<rparr>)"
  using assms
proof (induction n arbitrary: s k)
  case 0
  have "k\<lparr>connect_answers := es\<rparr> = k" using 0(2) by (cases k) simp
  then show ?case by simp
next
  case (Suc n)
  let ?s = "s\<lparr>sock_refusedRetries := sock_refusedRetries s + 1\<rparr>"
    and ?k = "k\<lparr>connect_answers := replicate n ECONNREFUSED @ es\<rparr>"
  have "socketProgressState s k = Some (ncclSuccess, ?s, ?k)"
    using Suc.prems by (intro progressState_connecting) auto
  then have "progress_while connect_under_way s k = progress_while connect_under_way ?s ?k"
    using progress_while_step Suc.prems by (simp add: connect_under_way_def)
  also have "\<dots> = progress_while connect_under_way (?s\<lparr>sock_refusedRetries := sock_refusedRetries ?s + n\<rparr>)
      (?k\<lparr>connect_answers := es\<rparr>)"
    using Suc.prems by (intro Suc.IH) auto
  finally show ?case by simp
qed

lemma progress_while_gives_up:
  assumes "sock_state s = ncclSocketStateConnecting" "connect_answers k = ECONNREFUSED # es"
    "sock_refusedRetries s + 1 = RETRY_REFUSED_TIMES"
  shows "progress_while connect_under_way s k = Some (ncclRemoteError,
    s\<lparr>sock_refusedRetries := RETRY_REFUSED_TIMES, sock_state := ncclSocketStateError\<rparr>, k\<lparr>connect_answers := es\<rparr>)"
proof -
  have "socketProgressState s k = Some (ncclRemoteError,
    s\<lparr>sock_refusedRetries := RETRY_REFUSED_TIMES, sock_state := ncclSocketStateError\<rparr>, k\<lparr>connect_answers := es\<rparr>)"
    using assms by (simp add: socketProgressState_def guarded_step_def socketStartConnect_def errno_defs Let_def)
  then show ?thesis by (subst progress_while.simps) simp
qed

lemma refused_then_connects:
  assumes "sock_state s = ncclSocketStateInitialized" "\<not> sock_asyncFlag s" "\<not> sock_abortFlag s"
    "sock_refusedRetries s = 0" "sys_errs k = []" "connect_answers k = replicate n ECONNREFUSED @ 0 # es"
    "fed NCCL_SOCKET_SEND 12 (ends k (sock_fd s))" "n < 20000"
  shows "\<exists>k1. progress_while connect_under_way (s\<lparr>sock_state := ncclSocketStateConnecting\<rparr>) k =
      Some (ncclSuccess, s\<lparr>sock_refusedRetries := n, sock_state := ncclSocketStateReady\<rparr>, k1) \<and>
    connect_answers k1 = es \<and> sk_out (ends k1 (sock_fd s)) = sk_out (ends k (sock_fd s)) @ hello s"
proof -
  let ?s = "s\<lparr>sock_state := ncclSocketStateConnecting\<rparr>"
  let ?k = "k\<lparr>connect_answers := 0 # es\<rparr>" and ?k' = "k\<lparr>connect_answers := es\<rparr>"
  let ?t = "s\<lparr>sock_refusedRetries := n, sock_state := ncclSocketStateConnected\<rparr>"
  have "progress_while connect_under_way ?s k =
      progress_while connect_under_way (?s\<lparr>sock_refusedRetries := sock_refusedRetries ?s + n\<rparr>) ?k"
    using assms by (intro progress_while_refused) (simp_all add: RETRY_REFUSED_TIMES_def)
  also have "\<dots> = progress_while connect_under_way ?t ?k'"
    using assms(4) by (intro progress_while_cong) (subst progressState_connect_at_once [of _ _ es]; simp)
  finally have eq: "progress_while connect_under_way ?s k = progress_while connect_under_way ?t ?k'" .
  have "\<exists>k1. progress_while connect_under_way ?t ?k' =
      Some (ncclSuccess, ?t\<lparr>sock_state := ncclSocketStateReady\<rparr>, k1) \<and>
    connect_answers k1 = connect_answers ?k' \<and> sk_out (ends k1 (sock_fd ?t)) = sk_out (ends ?k' (sock_fd ?t)) @ hello ?t"
    using assms by (intro connected_gets_ready) simp_all
  then show ?thesis unfolding eq by (simp add: hello_def)
qed

lemma refused_to_the_end:
  assumes "sock_state s = ncclSocketStateInitialized" "\<not> sock_asyncFlag s" "\<not> sock_abortFlag s"
    "sock_refusedRetries s = 0" "sys_errs k = []" "connect_answers k = replicate n ECONNREFUSED @ es" "20000 \<le> n"
  shows "progress_while connect_under_way (s\<lparr>sock_state := ncclSocketStateConnecting\<rparr>) k =
    Some (ncclRemoteError, s\<lparr>sock_refusedRetries := 20000, sock_state := ncclSocketStateError\<rparr>,
      k\<lparr>connect_answers := drop 20000 (connect_answers k)\<rparr>)"
proof -
  let ?s = "s\<lparr>sock_state := ncclSocketStateConnecting\<rparr>" and ?es = "replicate (n - 20000) ECONNREFUSED @ es"
  have "replicate n ECONNREFUSED = replicate (19999 + (1 + (n - 20000))) ECONNREFUSED" using assms(7) by simp
  also have "\<dots> = replicate 19999 ECONNREFUSED @ ECONNREFUSED # replicate (n - 20000) ECONNREFUSED"
    by (simp only: replicate_add) simp
  finally have rep: "connect_answers k = replicate 19999 ECONNREFUSED @ ECONNREFUSED # ?es" using assms(6) by simp
  have "progress_while connect_under_way ?s k =
      progress_while connect_under_way (?s\<lparr>sock_refusedRetries := sock_refusedRetries ?s + 19999\<rparr>)
        (k\<lparr>connect_answers := ECONNREFUSED # ?es\<rparr>)"
    using assms rep by (intro progress_while_refused) (simp_all add: RETRY_REFUSED_TIMES_def)
  also have "\<dots> = Some (ncclRemoteError, s\<lparr>sock_refusedRetries := 20000, sock_state := ncclSocketStateError\<rparr>,
      k\<lparr>connect_answers := ?es\<rparr>)"
    using assms(4) by (subst progress_while_gives_up [of _ _ ?es]) (simp_all add: RETRY_REFUSED_TIMES_def)
  finally show ?thesis using rep by simp
qed

text \<open>C21. Connecting to a peer that is not up yet: a blocking connect is repeated while the peer refuses.
  After fewer than 20000 refusals it succeeds, the socket is ready and exactly the hello is on its way;
  with the 20000th it gives up with an error and leaves the remaining answers alone.\<close>

theorem connect_retries_refused:
  assumes "sock_state s = ncclSocketStateInitialized" "sock_fd s \<noteq> - 1" "\<not> sock_asyncFlag s" "\<not> sock_abortFlag s"
    "sock_refusedRetries s = 0" "sys_errs k = []" "connect_answers k = replicate n ECONNREFUSED @ 0 # es"
    "fed NCCL_SOCKET_SEND 12 (ends k (sock_fd s))"
  shows "if n < 20000
    then \<exists>k1. ncclSocketConnect (Some s) k =
        Some (ncclSuccess, Some (s\<lparr>sock_refusedRetries := n, sock_state := ncclSocketStateReady\<rparr>), k1) \<and>
      connect_answers k1 = es \<and> sk_out (ends k1 (sock_fd s)) = sk_out (ends k (sock_fd s)) @ hello s
    else \<exists>k1. ncclSocketConnect (Some s) k =
        Some (ncclRemoteError, Some (s\<lparr>sock_refusedRetries := 20000, sock_state := ncclSocketStateError\<rparr>), k1) \<and>
      connect_answers k1 = drop 20000 (connect_answers k)"
proof -
  let ?s = "s\<lparr>sock_state := ncclSocketStateConnecting\<rparr>"
  have unf: "ncclSocketConnect (Some s) k =
    (case progress_while connect_under_way ?s k of None \<Rightarrow> None
     | Some (r, s1, k2) \<Rightarrow>
         if r \<noteq> ncclSuccess then Some (r, Some s1, k2)
         else (let (abort, k3) = abort_read s1 k2
               in Some (if abort then ncclInternalError else final_result connect_under_way (sock_state s1), Some s1, k3)))"
    using assms by (simp add: ncclSocketConnect_def sys_call_def)
  show ?thesis
  proof (cases "n < 20000")
    case True
    show ?thesis
      using refused_then_connects [OF assms(1,3-8) True] True assms(4)
      by (auto simp: unf abort_read_def final_result_def)
  next
    case False
    then show ?thesis using refused_to_the_end [OF assms(1,3-7)] by (simp add: unf)
  qed
qed

section \<open>Accepting among strangers\<close>

lemma progressState_accepting:
  assumes "sock_state s = ncclSocketStateAccepting" "accept_answers k = Accepts fd a # as"
  shows "socketProgressState s k =
    socketProgressState (s\<lparr>sock_fd := fd, sock_addr := a, sock_state := ncclSocketStateAccepted\<rparr>) (k\<lparr>accept_answers := as\<rparr>)"
  using assms by (simp add: socketProgressState_def guarded_step_def socketTryAccept_def)

lemma progressState_accepted:
  assumes "sock_state s = ncclSocketStateAccepted" "socketFinalizeAccept s k = Some (r, s1, k1)"
    "\<not> connect_under_way (sock_state s1)"
  shows "socketProgressState s k = Some (r, s1, k1)"
  using assms by (auto simp: socketProgressState_def guarded_step_def connect_under_way_def)

text \<open>The loop stays with a connection until the magic is there; a wrong one closes it.\<close>

lemma stranger_turned_away:
  assumes "sock_state s = ncclSocketStateAccepted" "fed NCCL_SOCKET_RECV 8 (ends k (sock_fd s))"
    "sk_in (ends k (sock_fd s)) = w @ later" "length w = 8" "w \<noteq> le_bytes 8 (unat (sock_magic s))"
    "\<not> sock_asyncFlag s" "\<not> sock_abortFlag s" "sys_errs k = []"
  shows "\<exists>k1. shifted NCCL_SOCKET_RECV (sock_fd s) w k k1 \<and> progress_while accept_under_way s k =
    progress_while accept_under_way (s\<lparr>sock_fd := - 1, sock_state := ncclSocketStateAccepting\<rparr>) (net_close (sock_fd s) k1)"
  using assms(2,3,8)
proof (induction "length (sk_answers (ends k (sock_fd s)))" arbitrary: k rule: less_induct)
  case less
  let ?s = "s\<lparr>sock_fd := - 1, sock_state := ncclSocketStateAccepting\<rparr>"
  from finalizeAccept_stranger [OF less.prems(1,2) assms(4,5,7) less.prems(3)] obtain k1 where
    "socketFinalizeAccept s k = Some (ncclSuccess, s, k1) \<and> shifted NCCL_SOCKET_RECV (sock_fd s) [] k k1 \<and>
      fed NCCL_SOCKET_RECV 8 (ends k1 (sock_fd s)) \<and>
      length (sk_answers (ends k1 (sock_fd s))) < length (sk_answers (ends k (sock_fd s))) \<or>
    socketFinalizeAccept s k = Some (ncclSuccess, ?s, net_close (sock_fd s) k1) \<and>
      shifted NCCL_SOCKET_RECV (sock_fd s) w k k1" by blast
  then show ?case
  proof
    assume a: "socketFinalizeAccept s k = Some (ncclSuccess, s, k1) \<and> shifted NCCL_SOCKET_RECV (sock_fd s) [] k k1 \<and>
      fed NCCL_SOCKET_RECV 8 (ends k1 (sock_fd s)) \<and>
      length (sk_answers (ends k1 (sock_fd s))) < length (sk_answers (ends k (sock_fd s)))"
    then have "sk_in (ends k1 (sock_fd s)) = w @ later" "sys_errs k1 = []"
      using shifted_recv [of "sock_fd s" "[]" k k1] shifted_sys_errs [of _ "sock_fd s" "[]" k k1] less.prems by auto
    then obtain k2 where k2: "shifted NCCL_SOCKET_RECV (sock_fd s) w k1 k2"
      "progress_while accept_under_way s k1 = progress_while accept_under_way ?s (net_close (sock_fd s) k2)"
      using less.hyps a by blast
    have "progress_while accept_under_way s k = progress_while accept_under_way s k1"
      using progress_while_step [of s k s k1 accept_under_way] progressState_accepted [OF assms(1), of k] a assms(1,6,7)
      by (simp add: accept_under_way_def connect_under_way_def)
    moreover have "shifted NCCL_SOCKET_RECV (sock_fd s) w k k2"
      using shifted_trans [of NCCL_SOCKET_RECV "sock_fd s" "[]" k k1 w k2] a k2(1) by simp
    ultimately show ?thesis using k2(2) by auto
  next
    assume b: "socketFinalizeAccept s k = Some (ncclSuccess, ?s, net_close (sock_fd s) k1) \<and>
      shifted NCCL_SOCKET_RECV (sock_fd s) w k k1"
    then have "socketProgressState s k = Some (ncclSuccess, ?s, net_close (sock_fd s) k1)"
      using progressState_accepted [OF assms(1)] by (simp add: connect_under_way_def)
    then show ?thesis using progress_while_step [of s k ?s "net_close (sock_fd s) k1" accept_under_way] b assms(6,7)
      by (auto simp: accept_under_way_def)
  qed
qed

lemma magic_then_type:
  assumes "sock_state s = ncclSocketStateAccepted" "fed NCCL_SOCKET_RECV 12 (ends k (sock_fd s))"
    "sk_in (ends k (sock_fd s)) = le_bytes 8 (unat (sock_magic s)) @ t @ later" "length t = 4"
    "\<not> sock_asyncFlag s" "\<not> sock_abortFlag s" "sys_errs k = []"
  shows "\<exists>k1. shifted NCCL_SOCKET_RECV (sock_fd s) (le_bytes 8 (unat (sock_magic s)) @ t) k k1 \<and>
    progress_while accept_under_way s k =
      Some (if t = le_bytes 4 (type_code (sock_type s))
            then (ncclSuccess, s\<lparr>sock_state := ncclSocketStateReady\<rparr>, k1)
            else (ncclInternalError, s\<lparr>sock_state := ncclSocketStateError, sock_fd := - 1\<rparr>, net_close (sock_fd s) k1))"
  using assms(2,3,7)
proof (induction "length (sk_answers (ends k (sock_fd s)))" arbitrary: k rule: less_induct)
  case less
  let ?w = "le_bytes 8 (unat (sock_magic s))"
  let ?fin = "\<lambda>k1. if t = le_bytes 4 (type_code (sock_type s))
            then (ncclSuccess, s\<lparr>sock_state := ncclSocketStateReady\<rparr>, k1)
            else (ncclInternalError, s\<lparr>sock_state := ncclSocketStateError, sock_fd := - 1\<rparr>, net_close (sock_fd s) k1)"
  from finalizeAccept_hello [OF less.prems(1,2) refl assms(4,6) less.prems(3)] obtain k1 where
    "socketFinalizeAccept s k = Some (ncclSuccess, s, k1) \<and> shifted NCCL_SOCKET_RECV (sock_fd s) [] k k1 \<and>
      fed NCCL_SOCKET_RECV 12 (ends k1 (sock_fd s)) \<and>
      length (sk_answers (ends k1 (sock_fd s))) < length (sk_answers (ends k (sock_fd s))) \<or>
    socketFinalizeAccept s k = Some (?fin k1) \<and> shifted NCCL_SOCKET_RECV (sock_fd s) (?w @ t) k k1"
    by blast
  then show ?case
  proof
    assume a: "socketFinalizeAccept s k = Some (ncclSuccess, s, k1) \<and> shifted NCCL_SOCKET_RECV (sock_fd s) [] k k1 \<and>
      fed NCCL_SOCKET_RECV 12 (ends k1 (sock_fd s)) \<and>
      length (sk_answers (ends k1 (sock_fd s))) < length (sk_answers (ends k (sock_fd s)))"
    then have "sk_in (ends k1 (sock_fd s)) = ?w @ t @ later" "sys_errs k1 = []"
      using shifted_recv [of "sock_fd s" "[]" k k1] shifted_sys_errs [of _ "sock_fd s" "[]" k k1] less.prems by auto
    then obtain k2 where k2: "shifted NCCL_SOCKET_RECV (sock_fd s) (?w @ t) k1 k2"
      "progress_while accept_under_way s k1 = Some (?fin k2)"
      using less.hyps a by blast
    have "progress_while accept_under_way s k = progress_while accept_under_way s k1"
      using progress_while_step [of s k s k1 accept_under_way] progressState_accepted [OF assms(1), of k] a assms(1,5,6)
      by (simp add: accept_under_way_def connect_under_way_def)
    moreover have "shifted NCCL_SOCKET_RECV (sock_fd s) (?w @ t) k k2"
      using shifted_trans [of NCCL_SOCKET_RECV "sock_fd s" "[]" k k1 "?w @ t" k2] a k2(1) by simp
    ultimately show ?thesis using k2(2) by auto
  next
    assume b: "socketFinalizeAccept s k = Some (?fin k1) \<and> shifted NCCL_SOCKET_RECV (sock_fd s) (?w @ t) k k1"
    then have "socketProgressState s k = Some (?fin k1)"
      using progressState_accepted [OF assms(1), of k] by (auto simp: connect_under_way_def)
    then have "progress_while accept_under_way s k = Some (?fin k1)"
      using assms(5,6) by (subst progress_while.simps) (auto simp: abort_read_def accept_under_way_def)
    then show ?thesis using b by blast
  qed
qed

text \<open>A stranger is a descriptor, an address and the eight bytes it says where the magic is expected.\<close>

definition stranger_waiting :: "u64 \<Rightarrow> Net \<Rightarrow> int \<times> ncclSocketAddress \<times> u8 list \<Rightarrow> bool" where
  "stranger_waiting magic k x \<longleftrightarrow>
     (case x of (fd, a, w) \<Rightarrow>
        fed NCCL_SOCKET_RECV 8 (ends k fd) \<and> take 8 (sk_in (ends k fd)) = w \<and> w \<noteq> le_bytes 8 (unat magic))"

lemma accept_loop_skips_strangers:
  assumes "sock_state s = ncclSocketStateAccepting" "\<not> sock_asyncFlag s" "\<not> sock_abortFlag s" "sys_errs k = []"
    "accept_answers k = map (\<lambda>(fd, a, w). Accepts fd a) strangers @ Accepts fd a # as"
    "\<forall>x \<in> set strangers. stranger_waiting (sock_magic s) k x" "distinct (map fst strangers @ [fd])"
    "fed NCCL_SOCKET_RECV 12 (ends k fd)" "sk_in (ends k fd) = hello s @ later"
  shows "\<exists>k1. progress_while accept_under_way s k =
      Some (ncclSuccess, s\<lparr>sock_fd := fd, sock_addr := a, sock_state := ncclSocketStateReady\<rparr>, k1) \<and>
    accept_answers k1 = as \<and> sk_in (ends k1 fd) = later \<and> closed_fds k1 = closed_fds k @ map fst strangers"
  using assms
proof (induction strangers arbitrary: s k)
  case Nil
  let ?s = "s\<lparr>sock_fd := fd, sock_addr := a, sock_state := ncclSocketStateAccepted\<rparr>" and ?k = "k\<lparr>accept_answers := as\<rparr>"
  have h: "hello ?s = hello s" by (simp add: hello_def)
  have "progress_while accept_under_way s k = progress_while accept_under_way ?s ?k"
    using Nil by (intro progress_while_cong progressState_accepting) simp_all
  moreover have "\<exists>k1. shifted NCCL_SOCKET_RECV (sock_fd ?s) (hello ?s) ?k k1 \<and> progress_while accept_under_way ?s ?k =
      Some (ncclSuccess, ?s\<lparr>sock_state := ncclSocketStateReady\<rparr>, k1)"
    using magic_then_type [of ?s ?k "le_bytes 4 (type_code (sock_type s))" later] Nil by (simp add: hello_def)
  ultimately obtain k1 where "shifted NCCL_SOCKET_RECV fd (hello s) ?k k1"
    "progress_while accept_under_way s k = Some (ncclSuccess, s\<lparr>sock_fd := fd, sock_addr := a, sock_state := ncclSocketStateReady\<rparr>, k1)"
    by (auto simp: h)
  then show ?case using shifted_recv [of fd "hello s" ?k k1] shifted_sys_errs [of _ fd "hello s" ?k k1] Nil.prems(9)
    by auto
next
  case (Cons x strangers)
  obtain f b w where x: "x = (f, b, w)" by (metis prod_cases3)
  let ?as = "map (\<lambda>(fd, a, w). Accepts fd a) strangers @ Accepts fd a # as"
  let ?s = "s\<lparr>sock_fd := f, sock_addr := b, sock_state := ncclSocketStateAccepted\<rparr>" and ?k = "k\<lparr>accept_answers := ?as\<rparr>"
  let ?s1 = "?s\<lparr>sock_fd := - 1, sock_state := ncclSocketStateAccepting\<rparr>"
  have w: "fed NCCL_SOCKET_RECV 8 (ends k f)" "take 8 (sk_in (ends k f)) = w" "w \<noteq> le_bytes 8 (unat (sock_magic s))"
    using Cons.prems(6) x by (simp_all add: stranger_waiting_def)
  have lw: "length w = 8" "sk_in (ends k f) = w @ drop 8 (sk_in (ends k f))"
    using w(1,2) by (auto simp: fed_def)
  have "\<exists>k1. shifted NCCL_SOCKET_RECV (sock_fd ?s) w ?k k1 \<and> progress_while accept_under_way ?s ?k =
    progress_while accept_under_way (?s\<lparr>sock_fd := - 1, sock_state := ncclSocketStateAccepting\<rparr>) (net_close (sock_fd ?s) k1)"
    using Cons.prems w lw by (intro stranger_turned_away [where later = "drop 8 (sk_in (ends k f))"]) simp_all
  then obtain k1 where k1: "shifted NCCL_SOCKET_RECV f w ?k k1"
    "progress_while accept_under_way ?s ?k = progress_while accept_under_way ?s1 (net_close f k1)"
    by auto
  have eq: "progress_while accept_under_way s k = progress_while accept_under_way ?s ?k"
    using Cons.prems(1,5) x by (intro progress_while_cong progressState_accepting) simp_all
  let ?k1 = "net_close f k1"
  have same: "ends ?k1 g = ends k g" if "g \<noteq> f" for g using shifted_ends(1) [OF k1(1)] that by (simp add: net_close_def)
  have rest: "sys_errs ?k1 = []" "accept_answers ?k1 = ?as" "closed_fds ?k1 = closed_fds k @ [f]"
    using shifted_sys_errs [OF k1(1)] Cons.prems(4) by (simp_all add: net_close_def)
  have fs: "f \<noteq> fd" "f \<notin> fst ` set strangers" using Cons.prems(7) x by auto
  have "\<forall>y \<in> set strangers. stranger_waiting (sock_magic ?s1) ?k1 y"
  proof
    fix y
    assume y: "y \<in> set strangers"
    then have "fst y \<noteq> f" using fs(2) by force
    then show "stranger_waiting (sock_magic ?s1) ?k1 y"
      using Cons.prems(6) y same by (cases y) (auto simp: stranger_waiting_def)
  qed
  then have "\<exists>k2. progress_while accept_under_way ?s1 ?k1 =
      Some (ncclSuccess, ?s1\<lparr>sock_fd := fd, sock_addr := a, sock_state := ncclSocketStateReady\<rparr>, k2) \<and>
    accept_answers k2 = as \<and> sk_in (ends k2 fd) = later \<and> closed_fds k2 = closed_fds ?k1 @ map fst strangers"
    using Cons.prems rest same fs(1) by (intro Cons.IH) (simp_all add: hello_def)
  then show ?case using eq k1(2) rest(3) x by auto
qed

text \<open>C20. Strangers do not disturb an accept: when connections that say a wrong magic come before the
  peer, a blocking accept closes each of them and returns the peer's connection, ready, with the hello
  consumed and every byte after it left to be read.\<close>

theorem accept_skips_strangers:
  assumes "sock_state l = ncclSocketStateReady" "\<not> sock_asyncFlag l" "\<not> sock_abortFlag l" "sock_acceptFd s = - 1"
    "sys_errs k = []" "accept_answers k = map (\<lambda>(fd, a, w). Accepts fd a) strangers @ Accepts fd a # as"
    "\<forall>x \<in> set strangers. stranger_waiting (sock_magic l) k x" "distinct (map fst strangers @ [fd])"
    "fed NCCL_SOCKET_RECV 12 (ends k fd)" "sk_in (ends k fd) = hello l @ later"
  shows "\<exists>k1. ncclSocketAccept (Some s) (Some l) k = Some (ncclSuccess,
      Some (l\<lparr>sock_acceptFd := sock_fd l, sock_fd := fd, sock_addr := a, sock_state := ncclSocketStateReady\<rparr>), k1) \<and>
    sk_in (ends k1 fd) = later \<and> accept_answers k1 = as \<and> closed_fds k1 = closed_fds k @ map fst strangers"
proof -
  let ?s = "l\<lparr>sock_acceptFd := sock_fd l, sock_state := ncclSocketStateAccepting\<rparr>"
  have "\<exists>k1. progress_while accept_under_way ?s k =
      Some (ncclSuccess, ?s\<lparr>sock_fd := fd, sock_addr := a, sock_state := ncclSocketStateReady\<rparr>, k1) \<and>
    accept_answers k1 = as \<and> sk_in (ends k1 fd) = later \<and> closed_fds k1 = closed_fds k @ map fst strangers"
    using assms by (intro accept_loop_skips_strangers) (simp_all add: hello_def)
  then obtain k1 where "progress_while accept_under_way ?s k =
      Some (ncclSuccess, ?s\<lparr>sock_fd := fd, sock_addr := a, sock_state := ncclSocketStateReady\<rparr>, k1)"
    "accept_answers k1 = as" "sk_in (ends k1 fd) = later" "closed_fds k1 = closed_fds k @ map fst strangers" by blast
  then show ?thesis using assms(1,3,4)
    by (simp add: ncclSocketAccept_def abort_read_def final_result_def)
qed

section \<open>Both sides\<close>

lemma le_bytes_inj: "u < 256 ^ n \<Longrightarrow> v < 256 ^ n \<Longrightarrow> le_bytes n u = le_bytes n v \<longleftrightarrow> u = v"
  by (metis le_value_le_bytes_id)

lemma magic_bytes_inj: "le_bytes 8 (unat (m :: u64)) = le_bytes 8 (unat m') \<longleftrightarrow> m = m'"
  by (metis le_value_magic word_unat_eq_iff)

lemma type_bytes_inj: "le_bytes 4 (type_code t) = le_bytes 4 (type_code t') \<longleftrightarrow> t = t'"
proof
  assume "le_bytes 4 (type_code t) = le_bytes 4 (type_code t')"
  then have "type_code t = type_code t'" by (metis le_value_type)
  then show "t = t'" by (cases t; cases t') simp_all
qed simp

text \<open>Polling: calls of \<open>ncclSocketReady\<close> that answer "not yet" and leave the socket as it is.\<close>

definition waits :: "ncclSocket \<Rightarrow> Net \<Rightarrow> Net \<Rightarrow> bool" where
  "waits s k k1 \<longleftrightarrow> ncclSocketReady (Some s) k = Some (ncclSuccess, Some False, Some s, k1)"

lemma connected_poll_gets_ready:
  assumes "sock_state s = ncclSocketStateConnected" "fed NCCL_SOCKET_SEND 12 (ends k (sock_fd s))" "\<not> sock_abortFlag s"
  shows "\<exists>k0 k1. (waits s)\<^sup>*\<^sup>* k k0 \<and>
    ncclSocketReady (Some s) k0 = Some (ncclSuccess, Some True, Some (s\<lparr>sock_state := ncclSocketStateReady\<rparr>), k1) \<and>
    sk_out (ends k1 (sock_fd s)) = sk_out (ends k (sock_fd s)) @ hello s"
  using assms(2)
proof (induction "length (sk_answers (ends k (sock_fd s)))" arbitrary: k rule: less_induct)
  case less
  let ?r = "s\<lparr>sock_state := ncclSocketStateReady\<rparr>"
  obtain s1 k1 where f: "socketFinalizeConnect s k = Some (ncclSuccess, s1, k1)"
    "s1 = ?r \<or> s1 = s \<and> fed NCCL_SOCKET_SEND 12 (ends k1 (sock_fd s)) \<and>
       length (sk_answers (ends k1 (sock_fd s))) < length (sk_answers (ends k (sock_fd s)))"
    using finalizeConnect_fed [OF less.prems assms(3)] by blast
  obtain bs where bs: "shifted NCCL_SOCKET_SEND (sock_fd s) bs k k1" "s1 = s \<and> bs = [] \<or> s1 = ?r \<and> bs = hello s"
    using finalizeConnect_outcome [OF f(1)] by auto
  have ne: "s \<noteq> ?r"
  proof
    assume "s = ?r"
    then have "sock_state s = sock_state ?r" by (rule arg_cong)
    then show False using assms(1) by simp
  qed
  have rdy: "ncclSocketReady (Some s) k = Some (ncclSuccess, Some (sock_state s1 = ncclSocketStateReady), Some s1, k1)"
    using f(1) assms(1) by (simp add: ncclSocketReady_def progressState_connected)
  from f(2) show ?case
  proof
    assume "s1 = ?r"
    moreover from this have "bs = hello s" using bs(2) ne by auto
    ultimately show ?thesis using rdy shifted_send [OF bs(1)] by (intro exI [of _ k] exI [of _ k1]) simp
  next
    assume q: "s1 = s \<and> fed NCCL_SOCKET_SEND 12 (ends k1 (sock_fd s)) \<and>
       length (sk_answers (ends k1 (sock_fd s))) < length (sk_answers (ends k (sock_fd s)))"
    then have "bs = []" using bs(2) ne by auto
    then have out1: "sk_out (ends k1 (sock_fd s)) = sk_out (ends k (sock_fd s))" using shifted_send [OF bs(1)] by simp
    have "waits s k k1" using rdy q assms(1) by (simp add: waits_def)
    moreover obtain k2 k3 where "(waits s)\<^sup>*\<^sup>* k1 k2"
      "ncclSocketReady (Some s) k2 = Some (ncclSuccess, Some True, Some ?r, k3)"
      "sk_out (ends k3 (sock_fd s)) = sk_out (ends k1 (sock_fd s)) @ hello s"
      using less.hyps q by blast
    ultimately show ?thesis using out1 by (metis converse_rtranclp_into_rtranclp)
  qed
qed

text \<open>What the accepting side makes of a hello, in the call that has read it: \<open>k\<close> is the kernel after the
  reading.\<close>

definition verdict :: "ncclSocket \<Rightarrow> ncclSocket \<Rightarrow> Net \<Rightarrow> ncclResult_t \<times> ncclSocket \<times> Net" where
  "verdict c s k =
     (if sock_magic c \<noteq> sock_magic s
      then (ncclSuccess, s\<lparr>sock_fd := - 1, sock_state := ncclSocketStateAccepting\<rparr>, net_close (sock_fd s) k)
      else if sock_type c \<noteq> sock_type s
      then (ncclInternalError, s\<lparr>sock_state := ncclSocketStateError, sock_fd := - 1\<rparr>, net_close (sock_fd s) k)
      else (ncclSuccess, s\<lparr>sock_state := ncclSocketStateReady\<rparr>, k))"

text \<open>The bytes of the connection still to be read after the verdict: a wrong magic stops the reading
  before the type.\<close>

definition unread :: "ncclSocket \<Rightarrow> ncclSocket \<Rightarrow> u8 list \<Rightarrow> u8 list" where
  "unread c s later = (if sock_magic c = sock_magic s then later else le_bytes 4 (type_code (sock_type c)) @ later)"

definition hello_need :: "ncclSocket \<Rightarrow> ncclSocket \<Rightarrow> nat" where
  "hello_need c s = (if sock_magic c = sock_magic s then 12 else 8)"

lemma finalizeAccept_verdict:
  assumes "fed NCCL_SOCKET_RECV (hello_need c s) (ends k (sock_fd s))" "sk_in (ends k (sock_fd s)) = hello c @ later"
    "\<not> sock_abortFlag s" "sys_errs k = []"
  shows "\<exists>k1. socketFinalizeAccept s k = Some (ncclSuccess, s, k1) \<and> shifted NCCL_SOCKET_RECV (sock_fd s) [] k k1 \<and>
      fed NCCL_SOCKET_RECV (hello_need c s) (ends k1 (sock_fd s)) \<and>
      length (sk_answers (ends k1 (sock_fd s))) < length (sk_answers (ends k (sock_fd s))) \<or>
    socketFinalizeAccept s k = Some (verdict c s k1) \<and> sk_in (ends k1 (sock_fd s)) = unread c s later"
proof (cases "sock_magic c = sock_magic s")
  case True
  then have need: "hello_need c s = 12" by (simp add: hello_need_def)
  let ?w = "le_bytes 8 (unat (sock_magic s))" and ?t = "le_bytes 4 (type_code (sock_type c))"
  have i: "sk_in (ends k (sock_fd s)) = ?w @ ?t @ later" using assms(2) True by (simp add: hello_def)
  obtain k1 where "socketFinalizeAccept s k = Some (ncclSuccess, s, k1) \<and> shifted NCCL_SOCKET_RECV (sock_fd s) [] k k1 \<and>
      fed NCCL_SOCKET_RECV 12 (ends k1 (sock_fd s)) \<and>
      length (sk_answers (ends k1 (sock_fd s))) < length (sk_answers (ends k (sock_fd s))) \<or>
    socketFinalizeAccept s k =
      Some (if ?t = le_bytes 4 (type_code (sock_type s))
            then (ncclSuccess, s\<lparr>sock_state := ncclSocketStateReady\<rparr>, k1)
            else (ncclInternalError, s\<lparr>sock_state := ncclSocketStateError, sock_fd := - 1\<rparr>, net_close (sock_fd s) k1)) \<and>
      shifted NCCL_SOCKET_RECV (sock_fd s) (?w @ ?t) k k1"
    using finalizeAccept_hello [OF assms(1) [unfolded need] i refl length_le_bytes assms(3,4)] by blast
  then show ?thesis
    using True i shifted_recv [of "sock_fd s" "?w @ ?t" k k1]
    by (intro exI [of _ k1]) (auto simp: need verdict_def unread_def type_bytes_inj)
next
  case False
  then have need: "hello_need c s = 8" by (simp add: hello_need_def)
  let ?w = "le_bytes 8 (unat (sock_magic c))" and ?t = "le_bytes 4 (type_code (sock_type c))"
  have i: "sk_in (ends k (sock_fd s)) = ?w @ ?t @ later" using assms(2) by (simp add: hello_def)
  have ne: "?w \<noteq> le_bytes 8 (unat (sock_magic s))" using False by (simp add: magic_bytes_inj)
  obtain k1 where a: "socketFinalizeAccept s k = Some (ncclSuccess, s, k1) \<and> shifted NCCL_SOCKET_RECV (sock_fd s) [] k k1 \<and>
      fed NCCL_SOCKET_RECV 8 (ends k1 (sock_fd s)) \<and>
      length (sk_answers (ends k1 (sock_fd s))) < length (sk_answers (ends k (sock_fd s))) \<or>
    socketFinalizeAccept s k = Some (ncclSuccess, s\<lparr>sock_fd := - 1, sock_state := ncclSocketStateAccepting\<rparr>,
      net_close (sock_fd s) k1) \<and> shifted NCCL_SOCKET_RECV (sock_fd s) ?w k k1"
    using finalizeAccept_stranger [OF assms(1) [unfolded need] i length_le_bytes ne assms(3,4)] by auto
  then show ?thesis
    using a False i shifted_recv [of "sock_fd s" ?w k k1]
    by (intro exI [of _ k1]) (auto simp: need verdict_def unread_def)
qed

lemma accepted_poll_decides:
  assumes "sock_state s = ncclSocketStateAccepted" "fed NCCL_SOCKET_RECV (hello_need c s) (ends k (sock_fd s))"
    "sk_in (ends k (sock_fd s)) = hello c @ later" "\<not> sock_abortFlag s" "sys_errs k = []"
  shows "\<exists>k0 k1. (waits s)\<^sup>*\<^sup>* k k0 \<and> socketFinalizeAccept s k0 = Some (verdict c s k1) \<and>
    sk_in (ends k1 (sock_fd s)) = unread c s later"
  using assms(2,3,5)
proof (induction "length (sk_answers (ends k (sock_fd s)))" arbitrary: k rule: less_induct)
  case less
  from finalizeAccept_verdict [OF less.prems(1,2) assms(4) less.prems(3)] obtain k1 where
    "socketFinalizeAccept s k = Some (ncclSuccess, s, k1) \<and> shifted NCCL_SOCKET_RECV (sock_fd s) [] k k1 \<and>
      fed NCCL_SOCKET_RECV (hello_need c s) (ends k1 (sock_fd s)) \<and>
      length (sk_answers (ends k1 (sock_fd s))) < length (sk_answers (ends k (sock_fd s))) \<or>
    socketFinalizeAccept s k = Some (verdict c s k1) \<and> sk_in (ends k1 (sock_fd s)) = unread c s later" by blast
  then show ?case
  proof
    assume a: "socketFinalizeAccept s k = Some (ncclSuccess, s, k1) \<and> shifted NCCL_SOCKET_RECV (sock_fd s) [] k k1 \<and>
      fed NCCL_SOCKET_RECV (hello_need c s) (ends k1 (sock_fd s)) \<and>
      length (sk_answers (ends k1 (sock_fd s))) < length (sk_answers (ends k (sock_fd s)))"
    then have "sk_in (ends k1 (sock_fd s)) = hello c @ later" "sys_errs k1 = []"
      using shifted_recv [of "sock_fd s" "[]" k k1] shifted_sys_errs [of _ "sock_fd s" "[]" k k1] less.prems by auto
    then obtain k2 k3 where "(waits s)\<^sup>*\<^sup>* k1 k2" "socketFinalizeAccept s k2 = Some (verdict c s k3)"
      "sk_in (ends k3 (sock_fd s)) = unread c s later"
      using less.hyps a by blast
    moreover have "waits s k k1"
      using progressState_accepted [OF assms(1), of k] a assms(1)
      by (simp add: waits_def ncclSocketReady_def connect_under_way_def)
    ultimately show ?thesis by (metis converse_rtranclp_into_rtranclp)
  qed blast
qed

lemma accept_polled:
  assumes "sock_state s = ncclSocketStateAccepted" "fed NCCL_SOCKET_RECV 12 (ends k (sock_fd s))"
    "\<not> sock_abortFlag s" "sys_errs k = []" "sk_in (ends k (sock_fd s)) = hello c @ later"
  shows "\<exists>k0 k1 r s1 k2. (waits s)\<^sup>*\<^sup>* k k0 \<and> verdict c s k1 = (r, s1, k2) \<and>
      ncclSocketReady (Some s) k0 = Some (r, Some (sock_magic c = sock_magic s \<and> sock_type c = sock_type s), Some s1, k2) \<and>
      sk_in (ends k1 (sock_fd s)) = unread c s later"
proof -
  have fd: "fed NCCL_SOCKET_RECV (hello_need c s) (ends k (sock_fd s))"
    using assms(2) fed_mono [OF assms(2)] by (simp add: hello_need_def)
  obtain k0 k1 where a: "(waits s)\<^sup>*\<^sup>* k k0" "socketFinalizeAccept s k0 = Some (verdict c s k1)"
    "sk_in (ends k1 (sock_fd s)) = unread c s later"
    using accepted_poll_decides [OF assms(1) fd assms(5,3,4)] by blast
  obtain r s1 k2 where v: "verdict c s k1 = (r, s1, k2)" by (metis prod_cases3)
  have st: "\<not> connect_under_way (sock_state s1)" "(r = ncclSuccess \<and> sock_state s1 = ncclSocketStateReady) =
      (sock_magic c = sock_magic s \<and> sock_type c = sock_type s)"
    "r \<noteq> ncclSuccess \<longrightarrow> \<not> (sock_magic c = sock_magic s \<and> sock_type c = sock_type s)"
    using v by (auto simp: verdict_def connect_under_way_def split: if_splits)
  have "socketProgressState s k0 = Some (r, s1, k2)"
    using progressState_accepted [OF assms(1)] a(2) v st(1) by simp
  then have "ncclSocketReady (Some s) k0 = Some (r, Some (sock_magic c = sock_magic s \<and> sock_type c = sock_type s), Some s1, k2)"
    using st(2,3) assms(1) by (auto simp: ncclSocketReady_def)
  then show ?thesis using a v by blast
qed

lemma accept_blocking:
  assumes "sock_state s = ncclSocketStateAccepted" "fed NCCL_SOCKET_RECV 12 (ends k (sock_fd s))"
    "\<not> sock_abortFlag s" "sys_errs k = []" "sk_in (ends k (sock_fd s)) = hello c @ later" "\<not> sock_asyncFlag s"
  shows "\<exists>k1. sk_in (ends k1 (sock_fd s)) = unread c s later \<and> progress_while accept_under_way s k =
         (case verdict c s k1 of (r, s1, k2) \<Rightarrow>
            if sock_magic c = sock_magic s then Some (r, s1, k2) else progress_while accept_under_way s1 k2)"
proof (cases "sock_magic c = sock_magic s")
  case True
  let ?t = "le_bytes 4 (type_code (sock_type c))"
  have i: "sk_in (ends k (sock_fd s)) = le_bytes 8 (unat (sock_magic s)) @ ?t @ later" using assms(5) True by (simp add: hello_def)
  obtain k1 where "shifted NCCL_SOCKET_RECV (sock_fd s) (le_bytes 8 (unat (sock_magic s)) @ ?t) k k1"
    "progress_while accept_under_way s k = Some (if ?t = le_bytes 4 (type_code (sock_type s))
          then (ncclSuccess, s\<lparr>sock_state := ncclSocketStateReady\<rparr>, k1)
          else (ncclInternalError, s\<lparr>sock_state := ncclSocketStateError, sock_fd := - 1\<rparr>, net_close (sock_fd s) k1))"
    using magic_then_type [OF assms(1,2) i length_le_bytes assms(6,3,4)] by blast
  then show ?thesis
    using shifted_recv i True by (intro exI [of _ k1]) (fastforce simp: type_bytes_inj verdict_def unread_def)
next
  case False
  let ?w = "le_bytes 8 (unat (sock_magic c))"
  have i: "sk_in (ends k (sock_fd s)) = ?w @ le_bytes 4 (type_code (sock_type c)) @ later" using assms(5) by (simp add: hello_def)
  have ne: "?w \<noteq> le_bytes 8 (unat (sock_magic s))" using False by (simp add: magic_bytes_inj)
  obtain k1 where "shifted NCCL_SOCKET_RECV (sock_fd s) ?w k k1"
    "progress_while accept_under_way s k =
      progress_while accept_under_way (s\<lparr>sock_fd := - 1, sock_state := ncclSocketStateAccepting\<rparr>) (net_close (sock_fd s) k1)"
    using stranger_turned_away [OF assms(1) fed_mono [OF assms(2)] i length_le_bytes ne assms(6,3,4)] by auto
  then show ?thesis
    using shifted_recv [of "sock_fd s" ?w k k1] i False by (intro exI [of _ k1]) (simp add: verdict_def unread_def)
qed

text \<open>C19. The handshake decides by magic and type, between sockets without an abort flag, as the transports
  make them, when the kernel carries the bytes and \<open>close\<close> and the address calls do not fail. Polled with
  \<open>ncclSocketReady\<close>, blocking or not, the connecting side says its hello, once and whole, in the call that
  makes it ready. The accepting side that reads it waits and then, in one call, becomes ready exactly when
  magic and type agree; a wrong magic makes it close the connection and go on accepting, a wrong type is an
  error. A blocking socket inside \<open>ncclSocketConnect\<close> and \<open>ncclSocketAccept\<close> comes to the same end.\<close>

theorem handshake_decides:
  assumes "sock_state c = ncclSocketStateConnected" "fed NCCL_SOCKET_SEND 12 (ends kc (sock_fd c))"
    "\<not> sock_abortFlag c" "sk_out (ends kc (sock_fd c)) = []"
    and "sock_state s = ncclSocketStateAccepted" "fed NCCL_SOCKET_RECV 12 (ends k (sock_fd s))"
    "\<not> sock_abortFlag s" "sys_errs k = []"
  shows "\<exists>kc0 kc1. (waits c)\<^sup>*\<^sup>* kc kc0 \<and>
    ncclSocketReady (Some c) kc0 = Some (ncclSuccess, Some True, Some (c\<lparr>sock_state := ncclSocketStateReady\<rparr>), kc1) \<and>
    sk_out (ends kc1 (sock_fd c)) = hello c \<and>
    (sk_in (ends k (sock_fd s)) = hello c @ later \<longrightarrow>
     (\<exists>k0 k1 r s1 k2. (waits s)\<^sup>*\<^sup>* k k0 \<and> verdict c s k1 = (r, s1, k2) \<and>
        ncclSocketReady (Some s) k0 = Some (r, Some (sock_magic c = sock_magic s \<and> sock_type c = sock_type s), Some s1, k2) \<and>
        sk_in (ends k1 (sock_fd s)) = unread c s later) \<and>
     (\<not> sock_asyncFlag s \<longrightarrow>
      (\<exists>k1. sk_in (ends k1 (sock_fd s)) = unread c s later \<and>
         progress_while accept_under_way s k =
           (case verdict c s k1 of (r, s1, k2) \<Rightarrow>
              if sock_magic c = sock_magic s then Some (r, s1, k2) else progress_while accept_under_way s1 k2)))) \<and>
    (\<not> sock_asyncFlag c \<longrightarrow>
     (\<exists>k1. progress_while connect_under_way c kc = Some (ncclSuccess, c\<lparr>sock_state := ncclSocketStateReady\<rparr>, k1) \<and>
        sk_out (ends k1 (sock_fd c)) = hello c))"
proof -
  obtain kc0 kc1 where kc1: "(waits c)\<^sup>*\<^sup>* kc kc0"
    "ncclSocketReady (Some c) kc0 = Some (ncclSuccess, Some True, Some (c\<lparr>sock_state := ncclSocketStateReady\<rparr>), kc1)"
    "sk_out (ends kc1 (sock_fd c)) = hello c"
    using connected_poll_gets_ready [OF assms(1-3)] assms(4) by auto
  have blocking_c: "\<exists>k1. progress_while connect_under_way c kc = Some (ncclSuccess, c\<lparr>sock_state := ncclSocketStateReady\<rparr>, k1) \<and>
      sk_out (ends k1 (sock_fd c)) = hello c" if "\<not> sock_asyncFlag c"
    using connected_gets_ready [OF assms(1,2) that assms(3)] assms(4) by auto
  show ?thesis
    using kc1 blocking_c accept_polled [OF assms(5-8)] accept_blocking [OF assms(5-8)] by (intro exI [of _ kc0] exI [of _ kc1]) simp
qed

text \<open>A connection that is closed before it has said its magic is not skipped: the call reports an error
  and leaves the accepting socket on the dead connection, so that the next call finds what this one found,
  and the connections that wait to be accepted are not looked at.\<close>

theorem accept_stuck_on_closed_connection:
  assumes "sock_state s = ncclSocketStateAccepted" "sk_in (ends k (sock_fd s)) = []" "sys_errs k = []"
    "sk_answers (ends k (sock_fd s)) = replicate (Suc n) (Moves 1)"
  shows "\<exists>k1. ncclSocketReady (Some s) k = Some (ncclRemoteError, Some False, Some s, k1) \<and>
    sk_in (ends k1 (sock_fd s)) = [] \<and> sys_errs k1 = [] \<and> sk_answers (ends k1 (sock_fd s)) = replicate n (Moves 1) \<and>
    accept_answers k1 = accept_answers k"
proof -
  let ?k = "k\<lparr>ends := (ends k)(sock_fd s := (ends k (sock_fd s))\<lparr>sk_answers := replicate n (Moves 1), sk_in := []\<rparr>)\<rparr>"
  have "socket_call NCCL_SOCKET_RECV s (replicate 8 0) 8 0 k = (0, 0, replicate 8 0, ?k)"
    using assms by (simp add: socket_call_def net_recv_def Let_def)
  then have "socketProgress NCCL_SOCKET_RECV s (replicate 8 0) 8 0 k = (ncclRemoteError, replicate 8 0, 0, ?k)"
    unfolding socketProgress_def by (subst socketProgressOpt.simps) simp
  then have "socketFinalizeAccept s k = Some (ncclRemoteError, s, ?k)"
    using assms(3) by (simp add: socketFinalizeAccept_def sys_call_def ncclSocketProgress_def)
  then have "socketProgressState s k = Some (ncclRemoteError, s, ?k)"
    using assms(1) by (simp add: socketProgressState_def guarded_step_def)
  then show ?thesis using assms(1,3) by (simp add: ncclSocketReady_def)
qed

section \<open>Examples\<close>

definition ready_sock :: ncclSocket where
  "ready_sock = zero_sock\<lparr>sock_fd := 3, sock_acceptFd := - 1, sock_state := ncclSocketStateReady, sock_magic := 7,
     sock_type := ncclSocketTypeNetSocket\<rparr>"

lemma fed_example: "fed op n \<lparr>sk_answers = replicate n (Moves (Suc 0)), sk_out = out, sk_in = bs\<rparr> \<longleftrightarrow>
    op = NCCL_SOCKET_RECV \<longrightarrow> n \<le> length bs"
  by (simp add: fed_def hits_def list_all_iff)

theorem connect_retries_refused_witness:
  "\<exists>k1. ncclSocketConnect (Some (ready_sock\<lparr>sock_state := ncclSocketStateInitialized\<rparr>))
       ((example_net [] (replicate 12 (Moves 1)))\<lparr>connect_answers := [ECONNREFUSED, 0]\<rparr>) =
     Some (ncclSuccess, Some (ready_sock\<lparr>sock_refusedRetries := 1\<rparr>), k1) \<and> connect_answers k1 = []"
  using connect_retries_refused [of "ready_sock\<lparr>sock_state := ncclSocketStateInitialized\<rparr>"
      "(example_net [] (replicate 12 (Moves 1)))\<lparr>connect_answers := [ECONNREFUSED, 0]\<rparr>" 1 "[]"]
  by (auto simp: ready_sock_def zero_sock_def example_net_def fed_example)

theorem accept_skips_strangers_witness:
  "\<exists>k1. ncclSocketAccept (Some (zero_sock\<lparr>sock_acceptFd := - 1\<rparr>)) (Some ready_sock)
       ((example_net [] [])\<lparr>accept_answers := [Accepts 4 zero_addr, Accepts 5 zero_addr],
          ends := (\<lambda>fd. if fd = 4 then \<lparr>sk_answers = replicate 8 (Moves 1), sk_out = [], sk_in = le_bytes 8 6\<rparr>
                        else \<lparr>sk_answers = replicate 12 (Moves 1), sk_out = [], sk_in = hello ready_sock @ [9]\<rparr>)\<rparr>) =
     Some (ncclSuccess, Some (ready_sock\<lparr>sock_acceptFd := 3, sock_fd := 5, sock_addr := zero_addr\<rparr>), k1) \<and>
     sk_in (ends k1 5) = [9] \<and> closed_fds k1 = [4]"
proof -
  let ?k = "(example_net [] [])\<lparr>accept_answers := [Accepts 4 zero_addr, Accepts 5 zero_addr],
          ends := (\<lambda>fd. if fd = 4 then \<lparr>sk_answers = replicate 8 (Moves 1), sk_out = [], sk_in = le_bytes 8 6\<rparr>
                        else \<lparr>sk_answers = replicate 12 (Moves 1), sk_out = [], sk_in = hello ready_sock @ [9]\<rparr>)\<rparr>"
  have l: "sock_state ready_sock = ncclSocketStateReady" "\<not> sock_asyncFlag ready_sock" "\<not> sock_abortFlag ready_sock"
    "sock_fd ready_sock = 3" "sock_magic ready_sock = 7" by (simp_all add: ready_sock_def zero_sock_def)
  have "le_bytes 8 6 \<noteq> (le_bytes 8 7 :: u8 list)" by code_simp
  then have w: "\<forall>x \<in> set [(4, zero_addr, le_bytes 8 6)]. stranger_waiting (sock_magic ready_sock) ?k x"
    by (simp add: stranger_waiting_def fed_example l)
  have "\<exists>k1. ncclSocketAccept (Some (zero_sock\<lparr>sock_acceptFd := - 1\<rparr>)) (Some ready_sock) ?k = Some (ncclSuccess,
      Some (ready_sock\<lparr>sock_acceptFd := sock_fd ready_sock, sock_fd := 5, sock_addr := zero_addr, sock_state := ncclSocketStateReady\<rparr>), k1) \<and>
    sk_in (ends k1 5) = [9] \<and> accept_answers k1 = [] \<and> closed_fds k1 = closed_fds ?k @ map fst [(4, zero_addr, le_bytes 8 6)]"
    by (rule accept_skips_strangers [OF l(1-3) _ _ _ w]) (simp_all add: example_net_def fed_example)
  moreover have "ready_sock\<lparr>sock_acceptFd := 3, sock_fd := 5, sock_addr := zero_addr, sock_state := ncclSocketStateReady\<rparr>
     = ready_sock\<lparr>sock_acceptFd := 3, sock_fd := 5, sock_addr := zero_addr\<rparr>" by (simp add: ready_sock_def)
  ultimately show ?thesis by (auto simp: l example_net_def)
qed

text \<open>Two asynchronous sockets, as the socket transport makes them, and the first byte after the hello.\<close>

theorem handshake_decides_witness:
  "\<exists>kc0 kc1 k0 k1. (waits (ready_sock\<lparr>sock_asyncFlag := True, sock_state := ncclSocketStateConnected\<rparr>))\<^sup>*\<^sup>*
      (example_net [] (replicate 12 (Moves 1))) kc0 \<and>
     ncclSocketReady (Some (ready_sock\<lparr>sock_asyncFlag := True, sock_state := ncclSocketStateConnected\<rparr>)) kc0 =
       Some (ncclSuccess, Some True, Some (ready_sock\<lparr>sock_asyncFlag := True\<rparr>), kc1) \<and>
     ncclSocketReady (Some (ready_sock\<lparr>sock_asyncFlag := True, sock_state := ncclSocketStateAccepted\<rparr>)) k0 =
       Some (ncclSuccess, Some True, Some (ready_sock\<lparr>sock_asyncFlag := True\<rparr>), k1) \<and> sk_in (ends k1 3) = [9]"
proof -
  let ?r = "ready_sock\<lparr>sock_asyncFlag := True\<rparr>"
  let ?kc = "example_net [] (replicate 12 (Moves 1))" and ?k = "example_net (hello ready_sock @ [9]) (replicate 12 (Moves 1))"
  define c s where "c = ?r\<lparr>sock_state := ncclSocketStateConnected\<rparr>" and "s = ?r\<lparr>sock_state := ncclSocketStateAccepted\<rparr>"
  then have f: "sock_state c = ncclSocketStateConnected" "sock_state s = ncclSocketStateAccepted" "\<not> sock_abortFlag c"
    "\<not> sock_abortFlag s" "sock_fd c = 3" "sock_fd s = 3" "sock_magic c = sock_magic s" "sock_type c = sock_type s"
    "hello c = hello ready_sock" "c\<lparr>sock_state := ncclSocketStateReady\<rparr> = ?r" "s\<lparr>sock_state := ncclSocketStateReady\<rparr> = ?r"
    by (simp_all add: ready_sock_def zero_sock_def hello_def)
  have k: "fed NCCL_SOCKET_SEND 12 (ends ?kc (sock_fd c))" "sk_out (ends ?kc (sock_fd c)) = []"
    "fed NCCL_SOCKET_RECV 12 (ends ?k (sock_fd s))" "sys_errs ?k = []" "sk_in (ends ?k (sock_fd s)) = hello c @ [9]"
    by (simp_all add: example_net_def fed_example f(9))
  have "\<exists>kc0 kc1 k0 k1. (waits c)\<^sup>*\<^sup>* ?kc kc0 \<and> ncclSocketReady (Some c) kc0 = Some (ncclSuccess, Some True, Some ?r, kc1) \<and>
      ncclSocketReady (Some s) k0 = Some (ncclSuccess, Some True, Some ?r, k1) \<and> sk_in (ends k1 3) = [9]"
    using handshake_decides [OF f(1) k(1) f(3) k(2) f(2) k(3) f(4) k(4), of "[9]"] k(5)
    unfolding f(5-8,10,11) verdict_def unread_def by auto
  then show ?thesis unfolding c_def s_def .
qed

end
