(* ===== verification/NcclIfs.thy ===== *)
theory NcclIfs
  imports NcclSocket "HOL-Library.Sublist"
begin

text \<open>
  The part of \<^verbatim>\<open>nccl_internal_impl/socket.cc\<close> that chooses network interfaces and reads addresses.
  \<open>getifaddrs\<close> is a list of interfaces; \<open>getenv\<close>, the resolver and the two helpers \<open>parseStringList\<close> and
  \<open>matchIfList\<close>, which are not among the sources, are arguments. A C string is a list of characters without
  the terminator. The arrays \<open>names\<close> and \<open>addrs\<close> are one list of pairs, as long as \<open>found\<close>.
\<close>

section \<open>Interfaces\<close>

record ncclIf =
  nif_ifa_name :: string
  nif_ifa_addr :: "ncclSocketAddress option"
  nif_ifa_netmask :: ncclSocketAddress

definition IN6_IS_ADDR_LOOPBACK :: "u8 list \<Rightarrow> bool" where
  "IN6_IS_ADDR_LOOPBACK a \<longleftrightarrow> a = replicate 15 0 @ [1]"

definition envSocketFamily :: "string option \<Rightarrow> int" where
  "envSocketFamily env =
     (case env of
        None \<Rightarrow> - 1
      | Some e \<Rightarrow> if e = ''AF_INET'' then int AF_INET else if e = ''AF_INET6'' then int AF_INET6 else - 1)"

text \<open>The tests an interface has to pass; the last one is the user's choice.\<close>

definition usable_if :: "(string \<Rightarrow> bool) \<Rightarrow> int \<Rightarrow> ncclIf \<Rightarrow> bool" where
  "usable_if wanted sock_family i \<longleftrightarrow>
     (case nif_ifa_addr i of
        None \<Rightarrow> False
      | Some a \<Rightarrow>
          (sa_family a = AF_INET \<or> sa_family a = AF_INET6) \<and>
          (sock_family \<noteq> - 1 \<longrightarrow> int (sa_family a) = sock_family) \<and>
          \<not> (sa_family a = AF_INET6 \<and> IN6_IS_ADDR_LOOPBACK (sin6_s6_addr a)) \<and>
          wanted (nif_ifa_name i))"

fun find_loop_ifs ::
  "(string \<Rightarrow> bool) \<Rightarrow> int \<Rightarrow> nat \<Rightarrow> nat \<Rightarrow> ncclIf list \<Rightarrow> (string \<times> ncclSocketAddress) list \<Rightarrow>
   (string \<times> ncclSocketAddress) list" where
  "find_loop_ifs wanted sock_family maxIfNameSize maxIfs [] found = found"
| "find_loop_ifs wanted sock_family maxIfNameSize maxIfs (i # is) found =
     (if \<not> length found < maxIfs then found
      else if \<not> usable_if wanted sock_family i then find_loop_ifs wanted sock_family maxIfNameSize maxIfs is found
      else if nif_ifa_name i \<in> fst ` set found then find_loop_ifs wanted sock_family maxIfNameSize maxIfs is found
      else find_loop_ifs wanted sock_family maxIfNameSize maxIfs is
             (found @ [(take maxIfNameSize (nif_ifa_name i), the (nif_ifa_addr i))]))"

text \<open>The user's choice: a list of names, to be excluded after a caret, to be matched exactly after an
  equals sign.\<close>

definition user_choice ::
  "(string \<Rightarrow> 'n list) \<Rightarrow> (string \<Rightarrow> 'n list \<Rightarrow> bool \<Rightarrow> bool) \<Rightarrow> string \<Rightarrow> string \<Rightarrow> bool" where
  "user_choice parseStringList matchIfList prefixList =
     (let searchNot = (prefixList \<noteq> [] \<and> hd prefixList = CHR ''^'');
          p1 = (if searchNot then tl prefixList else prefixList);
          searchExact = (p1 \<noteq> [] \<and> hd p1 = CHR ''='');
          p2 = (if searchExact then tl p1 else p1);
          userIfs = parseStringList p2
      in (\<lambda>name. matchIfList name userIfs searchExact \<noteq> searchNot))"

definition findInterfaces ::
  "(string \<Rightarrow> 'n list) \<Rightarrow> (string \<Rightarrow> 'n list \<Rightarrow> bool \<Rightarrow> bool) \<Rightarrow> string \<Rightarrow> int \<Rightarrow> nat \<Rightarrow> nat \<Rightarrow> ncclIf list \<Rightarrow>
   (string \<times> ncclSocketAddress) list" where
  "findInterfaces parseStringList matchIfList prefixList sock_family maxIfNameSize maxIfs interfaces =
     find_loop_ifs (user_choice parseStringList matchIfList prefixList) sock_family maxIfNameSize maxIfs interfaces []"

section \<open>Subnets\<close>

definition matchSubnet :: "ncclIf \<Rightarrow> ncclSocketAddress \<Rightarrow> bool" where
  "matchSubnet local_if remote =
     (case nif_ifa_addr local_if of
        None \<Rightarrow> False
      | Some local \<Rightarrow>
          let mask = nif_ifa_netmask local_if
          in if sa_family local \<noteq> sa_family remote then False
             else if sa_family local = AF_INET
             then (sin_s_addr local AND sin_s_addr mask) XOR (sin_s_addr remote AND sin_s_addr mask) = 0
             else if sa_family local = AF_INET6
             then list_all (\<lambda>c. (sin6_s6_addr local ! c AND sin6_s6_addr mask ! c) XOR
                                (sin6_s6_addr remote ! c AND sin6_s6_addr mask ! c) = 0) [0..<16] \<and>
                  sin6_scope_id local = sin6_scope_id remote
             else False)"

text \<open>The loop ends with the first interface found.\<close>

definition ncclFindInterfaceMatchSubnet ::
  "ncclSocketAddress \<Rightarrow> nat \<Rightarrow> ncclIf list \<Rightarrow> (string \<times> ncclSocketAddress) list" where
  "ncclFindInterfaceMatchSubnet remoteAddr ifNameMaxSize interfaces =
     (case List.find (\<lambda>i. case nif_ifa_addr i of
               None \<Rightarrow> False
             | Some a \<Rightarrow> (sa_family a = AF_INET \<or> sa_family a = AF_INET6) \<and> matchSubnet i remoteAddr) interfaces of
        None \<Rightarrow> []
      | Some i \<Rightarrow> [(take ifNameMaxSize (nif_ifa_name i), the (nif_ifa_addr i))])"

section \<open>Addresses in text\<close>

fun digits_value :: "int \<Rightarrow> string \<Rightarrow> int" where
  "digits_value v [] = v"
| "digits_value v (c # cs) =
     (if 48 \<le> (of_char c :: int) \<and> (of_char c :: int) \<le> 57 then digits_value (10 * v + of_char c - 48) cs else v)"

definition atoi :: "string \<Rightarrow> int" where
  "atoi s =
     (case dropWhile (\<lambda>c. c = CHR '' '' \<or> c = CHR 0x09 \<or> c = CHR 0x0A) s of
        [] \<Rightarrow> 0
      | c # cs \<Rightarrow> if c = CHR ''-'' then - digits_value 0 cs
                  else if c = CHR ''+'' then digits_value 0 cs else digits_value 0 (c # cs))"

text \<open>\<open>htons (port)\<close> keeps the low 16 bits.\<close>

definition port16 :: "int \<Rightarrow> nat" where
  "port16 p = nat (p mod 65536)"

text \<open>The scan of \<open>[address%interface]:port\<close>: the position of the closing bracket (the length of the string
  when there is none) and that of the last percent sign before it.\<close>

fun bracket_scan :: "string \<Rightarrow> nat \<Rightarrow> nat option \<Rightarrow> nat \<times> nat option" where
  "bracket_scan [] i j = (i, j)"
| "bracket_scan (c # cs) i j =
     (if c = CHR '']'' then (i, j) else bracket_scan cs (i + 1) (if c = CHR ''%'' then Some i else j))"

text \<open>\<open>getaddrinfo\<close> is \<open>None\<close> for an error, otherwise the first address; a failing \<open>inet_pton\<close> leaves the
  address alone. A NULL string is \<open>None\<close>.\<close>

definition ncclSocketGetAddrFromString ::
  "(string \<Rightarrow> (string \<times> int) list) \<Rightarrow> (string \<Rightarrow> ncclSocketAddress option) \<Rightarrow> (string \<Rightarrow> u8 list option) \<Rightarrow>
   (string \<Rightarrow> nat) \<Rightarrow> string option \<Rightarrow> ncclSocketAddress \<Rightarrow> ncclResult_t \<times> ncclSocketAddress" where
  "ncclSocketGetAddrFromString parseStringList getaddrinfo inet_pton if_nametoindex ip_port_pair ua =
     (case ip_port_pair of
        None \<Rightarrow> (ncclInvalidArgument, ua)
      | Some s \<Rightarrow>
          if \<not> 1 < length s then (ncclInvalidArgument, ua)
          else if hd s \<noteq> CHR ''['' then
            (case parseStringList s of
               [(host, port)] \<Rightarrow>
                 (case getaddrinfo host of
                    None \<Rightarrow> (ncclInvalidArgument, ua)
                  | Some p \<Rightarrow>
                      if sa_family p = AF_INET then (ncclSuccess, p\<lparr>sa_port := port16 port\<rparr>)
                      else if sa_family p = AF_INET6
                      then (ncclSuccess, p\<lparr>sa_port := port16 port, sin6_scope_id := 0\<rparr>)
                      else (ncclInvalidArgument, ua))
             | _ \<Rightarrow> (ncclInvalidArgument, ua))
          else
            (let (i, j) = bracket_scan (tl s) 1 None;
                 len = length s
             in if i = len then (ncclInvalidArgument, ua)
                else
                  (let ip_str = bytes_at 1 (case j of None \<Rightarrow> i - 1 | Some j \<Rightarrow> j - 1) s;
                       port_str = bytes_at (i + 2) (len - i - 1) s;
                       if_name = (case j of None \<Rightarrow> [] | Some j \<Rightarrow> bytes_at (j + 1) (i - j - 1) s);
                       addr = (case inet_pton ip_str of None \<Rightarrow> sin6_s6_addr ua | Some a \<Rightarrow> a)
                   in (ncclSuccess,
                       ua\<lparr>sa_family := AF_INET6, sin6_s6_addr := addr, sa_port := port16 (atoi port_str),
                          sin6_scope_id := (case j of None \<Rightarrow> 0 | Some _ \<Rightarrow> if_nametoindex if_name)\<rparr>))))"

section \<open>The choice of interfaces\<close>

definition long_env :: "string option \<Rightarrow> string option" where
  "long_env env = (case env of Some e \<Rightarrow> if 1 < length e then Some e else None | None \<Rightarrow> None)"

definition or_else :: "'a list \<Rightarrow> 'a list \<Rightarrow> 'a list" where
  "or_else xs ys = (if xs = [] then ys else xs)"

definition ncclFindInterfaces ::
  "(string \<Rightarrow> (string \<times> int) list) \<Rightarrow> (string \<Rightarrow> (string \<times> int) list \<Rightarrow> bool \<Rightarrow> bool) \<Rightarrow>
   (string \<Rightarrow> ncclSocketAddress option) \<Rightarrow> (string \<Rightarrow> u8 list option) \<Rightarrow> (string \<Rightarrow> nat) \<Rightarrow>
   (string \<Rightarrow> string option) \<Rightarrow> ncclSocketAddress \<Rightarrow> ncclIf list \<Rightarrow> nat \<Rightarrow> nat \<Rightarrow> (string \<times> ncclSocketAddress) list" where
  "ncclFindInterfaces parseStringList matchIfList getaddrinfo inet_pton if_nametoindex ncclGetEnv uninit interfaces
      ifNameMaxSize maxIfs =
     (let sock_family = envSocketFamily (ncclGetEnv ''NCCL_SOCKET_FAMILY'');
          find = (\<lambda>p. findInterfaces parseStringList matchIfList p sock_family ifNameMaxSize maxIfs interfaces)
      in case long_env (ncclGetEnv ''NCCL_SOCKET_IFNAME'') of
           Some env \<Rightarrow> find env
         | None \<Rightarrow>
             or_else (find ''ib'')
               (or_else
                 (case long_env (ncclGetEnv ''NCCL_COMM_ID'') of
                    None \<Rightarrow> []
                  | Some commId \<Rightarrow>
                      let idAddr = snd (ncclSocketGetAddrFromString parseStringList getaddrinfo inet_pton if_nametoindex
                                     (Some commId) uninit)
                      in ncclFindInterfaceMatchSubnet idAddr ifNameMaxSize interfaces)
                 (or_else (find ''^docker,lo'') (or_else (find ''docker'') (find ''lo'')))))"

section \<open>What is found\<close>

lemma find_loop_ifs_spec:
  assumes "\<forall>i \<in> set is. length (nif_ifa_name i) \<le> maxIfNameSize" "distinct (map fst found)" "length found \<le> maxIfs"
  shows "\<exists>new. find_loop_ifs wanted fam maxIfNameSize maxIfs is found = found @ new \<and>
    distinct (map fst (found @ new)) \<and> length (found @ new) \<le> maxIfs \<and>
    subseq new (map (\<lambda>i. (nif_ifa_name i, the (nif_ifa_addr i))) (filter (usable_if wanted fam) is)) \<and>
    (length (found @ new) < maxIfs \<longrightarrow>
       nif_ifa_name ` set (filter (usable_if wanted fam) is) \<subseteq> fst ` set (found @ new))"
  using assms
proof (induction "is" arbitrary: found)
  case Nil
  then show ?case by simp
next
  case (Cons i "is")
  let ?x = "(nif_ifa_name i, the (nif_ifa_addr i))"
  consider (full) "\<not> length found < maxIfs" | (skip) "length found < maxIfs" "\<not> usable_if wanted fam i"
    | (dup) "length found < maxIfs" "usable_if wanted fam i" "nif_ifa_name i \<in> fst ` set found"
    | (keep) "length found < maxIfs" "usable_if wanted fam i" "nif_ifa_name i \<notin> fst ` set found" by blast
  then show ?case
  proof cases
    case full
    then show ?thesis using Cons.prems by (intro exI [of _ "[]"]) simp
  next
    case skip
    then show ?thesis using Cons.IH [of found] Cons.prems by simp
  next
    case dup
    obtain new where "find_loop_ifs wanted fam maxIfNameSize maxIfs is found = found @ new"
      "distinct (map fst (found @ new))" "length (found @ new) \<le> maxIfs"
      "subseq new (map (\<lambda>i. (nif_ifa_name i, the (nif_ifa_addr i))) (filter (usable_if wanted fam) is))"
      "length (found @ new) < maxIfs \<longrightarrow>
         nif_ifa_name ` set (filter (usable_if wanted fam) is) \<subseteq> fst ` set (found @ new)"
      using Cons.IH [of found] Cons.prems by auto
    then show ?thesis using dup by (intro exI [of _ new]) auto
  next
    case keep
    have ne: "take maxIfNameSize (nif_ifa_name i) = nif_ifa_name i" using Cons.prems(1) by simp
    obtain new where new: "find_loop_ifs wanted fam maxIfNameSize maxIfs is (found @ [?x]) = (found @ [?x]) @ new"
      "distinct (map fst ((found @ [?x]) @ new))" "length ((found @ [?x]) @ new) \<le> maxIfs"
      "subseq new (map (\<lambda>i. (nif_ifa_name i, the (nif_ifa_addr i))) (filter (usable_if wanted fam) is))"
      "length ((found @ [?x]) @ new) < maxIfs \<longrightarrow>
         nif_ifa_name ` set (filter (usable_if wanted fam) is) \<subseteq> fst ` set ((found @ [?x]) @ new)"
      using Cons.IH [of "found @ [?x]"] Cons.prems keep by auto
    then show ?thesis using keep ne by (intro exI [of _ "?x # new"]) auto
  qed
qed

text \<open>The interfaces a call may choose, with the names and addresses it reports.\<close>

definition choosable ::
  "(string \<Rightarrow> 'n list) \<Rightarrow> (string \<Rightarrow> 'n list \<Rightarrow> bool \<Rightarrow> bool) \<Rightarrow> string \<Rightarrow> int \<Rightarrow> ncclIf list \<Rightarrow> (string \<times> ncclSocketAddress) list" where
  "choosable parse match prefixList fam interfaces =
     map (\<lambda>i. (nif_ifa_name i, the (nif_ifa_addr i)))
       (filter (usable_if (user_choice parse match prefixList) fam) interfaces)"

text \<open>Choosing interfaces: with names that fit, \<open>findInterfaces\<close> returns usable interfaces in the order
  of the kernel's list, each name once with the address listed first, at most as many as asked for, and when
  it returns fewer it has found every name there is.\<close>

theorem findInterfaces_finds:
  assumes "\<forall>i \<in> set interfaces. length (nif_ifa_name i) \<le> maxIfNameSize"
    and res: "res = findInterfaces parse match prefixList fam maxIfNameSize maxIfs interfaces"
  shows "distinct (map fst res) \<and> length res \<le> maxIfs \<and> subseq res (choosable parse match prefixList fam interfaces) \<and>
    (length res < maxIfs \<longrightarrow> set (map fst res) = set (map fst (choosable parse match prefixList fam interfaces)))"
proof -
  have new: "distinct (map fst res)" "length res \<le> maxIfs" "subseq res (choosable parse match prefixList fam interfaces)"
    "length res < maxIfs \<longrightarrow> fst ` set (choosable parse match prefixList fam interfaces) \<subseteq> fst ` set res"
    using find_loop_ifs_spec [OF assms(1), of "[]" maxIfs "user_choice parse match prefixList" fam] res
    by (auto simp: choosable_def findInterfaces_def image_image)
  have "set res \<subseteq> set (choosable parse match prefixList fam interfaces)" using list_emb_set [OF new(3)] by auto
  then show ?thesis using new by auto
qed

definition example_ifs :: "ncclIf list" where
  "example_ifs = [\<lparr>nif_ifa_name = ''lo'', nif_ifa_addr = None, nif_ifa_netmask = zero_addr\<rparr>,
     \<lparr>nif_ifa_name = ''eth0'', nif_ifa_addr = Some (zero_addr\<lparr>sa_family := AF_INET\<rparr>), nif_ifa_netmask = zero_addr\<rparr>]"

theorem findInterfaces_finds_witness:
  "findInterfaces (\<lambda>s. [s]) (\<lambda>n ns e. n \<in> set ns) ''eth0'' (- 1) 16 16 example_ifs = [(''eth0'', zero_addr\<lparr>sa_family := AF_INET\<rparr>)] \<and>
   set (map fst (choosable (\<lambda>s. [s]) (\<lambda>n ns e. n \<in> set ns) ''eth0'' (- 1) example_ifs)) = {''eth0''}"
proof -
  have f: "findInterfaces (\<lambda>s. [s]) (\<lambda>n ns e. n \<in> set ns) ''eth0'' (- 1) 16 16 example_ifs = [(''eth0'', zero_addr\<lparr>sa_family := AF_INET\<rparr>)]"
    by (simp add: findInterfaces_def example_ifs_def usable_if_def user_choice_def AF_INET_def AF_INET6_def)
  have "\<forall>i \<in> set example_ifs. length (nif_ifa_name i) \<le> 16" by (simp add: example_ifs_def)
  from findInterfaces_finds [OF this refl, of "\<lambda>s. [s]" "\<lambda>n ns e. n \<in> set ns" "''eth0''" "- 1" 16] show ?thesis
    unfolding f by auto
qed

end
