(* ===== verification/NetSocket.thy ===== *)
theory NetSocket
  imports NcclHandshake NcclIfs
begin

text \<open>
  \<^verbatim>\<open>nccl_internal_impl/net_socket.cc\<close>: NCCL's transport over several sockets. A connection has a control
  socket and \<open>nSocks\<close> data sockets; a request first exchanges its size on the control socket and is then cut
  into tasks, which helper threads move over the data sockets. Application memory is the flat byte memory
  of \<open>Prelude\<close>, a buffer is an address in it. The structures NCCL allocates are records; a pointer to a task
  is the number of its thread and its place in that thread's queue, a pointer to a socket of a connection
  is its index. Allocation and thread creation are taken to succeed. \<open>DIVUP\<close>, a macro of NCCL's headers, is
  an argument.
\<close>

section \<open>Devices\<close>

record ncclNetSocketDev =
  nsd_addr :: ncclSocketAddress
  nsd_devName :: string
  nsd_pciPath :: "string option"

definition MAX_IFS :: nat where "MAX_IFS = 16"
definition MAX_IF_NAME_SIZE :: nat where "MAX_IF_NAME_SIZE = 16"
definition MAX_SOCKETS :: nat where "MAX_SOCKETS = 64"
definition MAX_THREADS :: nat where "MAX_THREADS = 16"
definition NCCL_NET_MAX_REQUESTS :: nat where "NCCL_NET_MAX_REQUESTS = 32"
definition MIN_CHUNKSIZE :: int where "MIN_CHUNKSIZE = 64 * 1024"

text \<open>The state of the file: the number of interfaces (-1 before the first call), the devices, and whether
  \<open>ncclNetSocketLock\<close> is held between calls.\<close>

record NetSocketState =
  ncclNetIfs :: int
  ncclNetSocketDevs :: "ncclNetSocketDev list"
  ncclNetSocketLock :: bool

text \<open>\<open>realpath\<close> of the device directory, \<open>None\<close> when the file does not exist.\<close>

definition ncclNetSocketGetPciPath :: "(string \<Rightarrow> string option) \<Rightarrow> string \<Rightarrow> string option" where
  "ncclNetSocketGetPciPath realpath devName = realpath (''/sys/class/net/'' @ devName @ ''/device'')"

text \<open>\<open>found\<close> is what \<open>ncclFindInterfaces\<close> returns. \<open>None\<close> is a call that waits for ever for the lock.\<close>

definition ncclNetSocketInit ::
  "(string \<Rightarrow> string option) \<Rightarrow> (string \<times> ncclSocketAddress) list \<Rightarrow> NetSocketState \<Rightarrow>
   (ncclResult_t \<times> NetSocketState) option" where
  "ncclNetSocketInit realpath found st =
     (if ncclNetIfs st = - 1
      then if ncclNetSocketLock st then None
           else
             (let st1 = st\<lparr>ncclNetSocketLock := True, ncclNetIfs := int (length found)\<rparr>
              in if ncclNetIfs st1 \<le> 0 then Some (ncclInternalError, st1)
                 else Some (ncclSuccess, st1\<lparr>ncclNetSocketDevs :=
                        map (\<lambda>(name, addr). \<lparr>nsd_addr = addr, nsd_devName = name,
                               nsd_pciPath = ncclNetSocketGetPciPath realpath name\<rparr>) found
                          @ drop (length found) (ncclNetSocketDevs st1),
                        ncclNetSocketLock := False\<rparr>))
      else Some (ncclSuccess, st))"

definition ncclNetSocketDevices :: "NetSocketState \<Rightarrow> ncclResult_t \<times> int" where
  "ncclNetSocketDevices st = (ncclSuccess, ncclNetIfs st)"

text \<open>The speed file: \<open>None\<close> when it cannot be opened, \<open>Some v\<close> with the number it holds (0 when nothing can be
  read); the last argument is the result of closing it.\<close>

definition ncclNetSocketGetSpeed :: "int option \<Rightarrow> bool \<Rightarrow> ncclResult_t \<times> int" where
  "ncclNetSocketGetSpeed file close_ok =
     (let v = (case file of None \<Rightarrow> 0 | Some v \<Rightarrow> v);
          speed = (if v \<le> 0 then 10000 else v)
      in (if file \<noteq> None \<and> \<not> close_ok then ncclSystemError else ncclSuccess, speed))"

definition NCCL_NET_PTR_HOST :: int where "NCCL_NET_PTR_HOST = 1"

record ncclNetProps =
  np_name :: string
  np_pciPath :: "string option"
  np_guid :: int
  np_ptrSupport :: int
  np_regIsGlobal :: int
  np_speed :: int
  np_latency :: int
  np_port :: int
  np_maxComms :: int
  np_maxRecvs :: int

text \<open>The device type and version are constants of NCCL's headers and are left out.\<close>

definition ncclNetSocketGetProperties ::
  "NetSocketState \<Rightarrow> int \<Rightarrow> int option \<Rightarrow> bool \<Rightarrow> ncclNetProps \<Rightarrow> ncclResult_t \<times> ncclNetProps" where
  "ncclNetSocketGetProperties st dev file close_ok props =
     (let d = ncclNetSocketDevs st ! nat dev;
          p1 = props\<lparr>np_name := nsd_devName d, np_pciPath := nsd_pciPath d, np_guid := dev,
                 np_ptrSupport := NCCL_NET_PTR_HOST, np_regIsGlobal := 0\<rparr>;
          (r, speed) = ncclNetSocketGetSpeed file close_ok;
          p2 = p1\<lparr>np_speed := speed\<rparr>
      in if r \<noteq> ncclSuccess then (r, p2)
         else (ncclSuccess, p2\<lparr>np_latency := 0, np_port := 0, np_maxComms := 65536, np_maxRecvs := 1\<rparr>))"

text \<open>How many sockets and threads: the two parameters (-2 for automatic), and the file with the vendor of
  the device: \<open>None\<close> when it cannot be opened, \<open>Some None\<close> when it cannot be read. The division is C's.\<close>

definition auto_threads :: "string option option \<Rightarrow> ncclResult_t \<times> int \<times> int" where
  "auto_threads vendor_file =
     (case vendor_file of
        None \<Rightarrow> (ncclSuccess, 0, 1)
      | Some None \<Rightarrow> (ncclSystemError, 0, 1)
      | Some (Some v) \<Rightarrow>
          let vendor = take 6 v @ drop (length (take 6 v)) ''0x0000''
          in if vendor = ''0x1d0f'' then (ncclSuccess, 2, 8)
             else if vendor = ''0x1ae0'' then (ncclSuccess, 4, 1)
             else (ncclSuccess, 0, 1))"

definition ncclNetSocketGetNsockNthread ::
  "int \<Rightarrow> int \<Rightarrow> string option option \<Rightarrow> ncclResult_t \<times> (int \<times> int) option" where
  "ncclNetSocketGetNsockNthread perThreadParam threadsParam vendor_file =
     (let nSocksPerThread = perThreadParam;
          nThreads = (if threadsParam > int MAX_THREADS then int MAX_THREADS else threadsParam);
          auto = nThreads = - 2 \<or> nSocksPerThread = - 2;
          (r, autoNt, autoNs) = auto_threads vendor_file
      in if auto \<and> r \<noteq> ncclSuccess then (r, None)
         else
           (let nt = (if nThreads = - 2 then autoNt else nThreads);
                spt = (if nSocksPerThread = - 2 then autoNs else nSocksPerThread);
                nSocks = spt * nt
            in if nSocks > int MAX_SOCKETS
               then (let spt1 = (if nt < 0 then - (int MAX_SOCKETS div (- nt)) else int MAX_SOCKETS div nt)
                     in (ncclSuccess, Some (spt1 * nt, nt)))
               else (ncclSuccess, Some (nSocks, nt))))"

section \<open>Connections\<close>

record ncclNetSocketTask =
  tk_op :: sock_op
  tk_data :: nat
  tk_size :: nat
  tk_sock :: nat
  tk_offset :: nat
  tk_used :: nat
  tk_result :: ncclResult_t

record ncclNetSocketRequest =
  rq_op :: sock_op
  rq_data :: nat
  rq_size :: int
  rq_offset :: int
  rq_used :: nat
  rq_tasks :: "(nat \<times> nat) list"
  rq_nSubs :: nat

record ncclNetSocketTaskQueue =
  tq_next :: nat
  tq_tasks :: "ncclNetSocketTask list option"

record ncclNetSocketComm =
  nc_ctrlSock :: ncclSocket
  nc_socks :: "ncclSocket list"
  nc_dev :: int
  nc_cudaDev :: int
  nc_nSocks :: nat
  nc_nThreads :: nat
  nc_nextSock :: nat
  nc_requests :: "ncclNetSocketRequest list"
  nc_queues :: "ncclNetSocketTaskQueue list"
  nc_stop :: "bool list"

definition zero_task :: ncclNetSocketTask where
  "zero_task = \<lparr>tk_op = NCCL_SOCKET_SEND, tk_data = 0, tk_size = 0, tk_sock = 0, tk_offset = 0, tk_used = 0,
     tk_result = ncclSuccess\<rparr>"

definition zero_request :: ncclNetSocketRequest where
  "zero_request = \<lparr>rq_op = NCCL_SOCKET_SEND, rq_data = 0, rq_size = 0, rq_offset = 0, rq_used = 0,
     rq_tasks = [], rq_nSubs = 0\<rparr>"

text \<open>\<open>ncclCalloc\<close> of a connection.\<close>

definition zero_comm :: ncclNetSocketComm where
  "zero_comm = \<lparr>nc_ctrlSock = zero_sock, nc_socks = replicate MAX_SOCKETS zero_sock, nc_dev = 0, nc_cudaDev = 0,
     nc_nSocks = 0, nc_nThreads = 0, nc_nextSock = 0, nc_requests = replicate NCCL_NET_MAX_REQUESTS zero_request,
     nc_queues = replicate MAX_THREADS \<lparr>tq_next = 0, tq_tasks = None\<rparr>, nc_stop = replicate MAX_THREADS False\<rparr>"

datatype ncclNetSocketCommState =
    ncclNetSocketCommStateStart
  | ncclNetSocketCommStateConnect
  | ncclNetSocketCommStateAccept
  | ncclNetSocketCommStateSend
  | ncclNetSocketCommStateRecv

text \<open>While connecting, \<open>stage->sock\<close> is always the socket of \<open>stage->iteration\<close> in \<open>stage->comm\<close>; while
  accepting it is a separate allocation.\<close>

record ncclNetSocketCommStage =
  sg_state :: ncclNetSocketCommState
  sg_iteration :: nat
  sg_sock :: "ncclSocket option"
  sg_comm :: "ncclNetSocketComm option"

definition start_stage :: ncclNetSocketCommStage where
  "start_stage = \<lparr>sg_state = ncclNetSocketCommStateStart, sg_iteration = 0, sg_sock = None, sg_comm = None\<rparr>"

record ncclNetSocketHandle =
  hd_connectAddr :: ncclSocketAddress
  hd_magic :: u64
  hd_nSocks :: nat
  hd_nThreads :: nat
  hd_stage :: ncclNetSocketCommStage

record ncclNetSocketListenComm =
  lc_sock :: ncclSocket
  lc_stage :: ncclNetSocketCommStage
  lc_nSocks :: nat
  lc_nThreads :: nat
  lc_dev :: int

text \<open>\<open>nst\<close> is the answer of \<open>ncclNetSocketGetNsockNthread\<close> for the device. The counts are taken to be at
  least 0, which they are when both parameters are -2 or at least 0.\<close>

definition ncclNetSocketListen ::
  "NetSocketState \<Rightarrow> int \<Rightarrow> ncclResult_t \<times> (int \<times> int) option \<Rightarrow> ncclNetSocketHandle \<Rightarrow> Net \<Rightarrow>
   ncclResult_t \<times> ncclNetSocketHandle \<times> ncclNetSocketListenComm option \<times> Net" where
  "ncclNetSocketListen st dev nst handle k =
     (if dev < 0 \<or> dev \<ge> ncclNetIfs st then (ncclInternalError, handle, None, k)
      else
        (let h0 = \<lparr>hd_connectAddr = zero_addr, hd_magic = NCCL_SOCKET_MAGIC, hd_nSocks = 0, hd_nThreads = 0,
                   hd_stage = start_stage\<rparr>;
             fail = (\<lambda>r h s k. (let (_, _, k') = ncclSocketClose s k in (r, h, None, k')));
             (r1, s1, k1) = ncclSocketInit (Some zero_sock) (Some (nsd_addr (ncclNetSocketDevs st ! nat dev)))
                              (hd_magic h0) ncclSocketTypeNetSocket False True k
         in if r1 \<noteq> ncclSuccess then fail r1 h0 s1 k1
            else
              (let (r2, s2, k2) = ncclSocketListen s1 k1
               in if r2 \<noteq> ncclSuccess then fail r2 h0 s2 k2
                  else
                    (let (r3, a) = ncclSocketGetAddr s2 (hd_connectAddr h0); h1 = h0\<lparr>hd_connectAddr := a\<rparr>
                     in if r3 \<noteq> ncclSuccess then fail r3 h1 s2 k2
                        else
                          (case nst of
                             (r4, None) \<Rightarrow> fail r4 h1 s2 k2
                           | (r4, Some (ns, nt)) \<Rightarrow>
                               (ncclSuccess, h1\<lparr>hd_nSocks := nat ns, hd_nThreads := nat nt\<rparr>,
                                Some \<lparr>lc_sock = the s2, lc_stage = start_stage, lc_nSocks = nat ns,
                                      lc_nThreads = nat nt, lc_dev = dev\<rparr>, k2))))))"

text \<open>The sockets of a connection by index: \<open>nSocks\<close> is the control socket.\<close>

definition get_sock :: "nat \<Rightarrow> ncclNetSocketComm \<Rightarrow> ncclSocket" where
  "get_sock i c = (if i = nc_nSocks c then nc_ctrlSock c else nc_socks c ! i)"

definition put_sock :: "nat \<Rightarrow> ncclSocket \<Rightarrow> ncclNetSocketComm \<Rightarrow> ncclNetSocketComm" where
  "put_sock i s c = (if i = nc_nSocks c then c\<lparr>nc_ctrlSock := s\<rparr> else c\<lparr>nc_socks := (nc_socks c)[i := s]\<rparr>)"

text \<open>One turn of the loop of \<open>ncclNetSocketConnect\<close>, entered at its head or at one of the two labels.
  \<open>Inl\<close> is a return: the result, the connection, the stage and the kernel; \<open>Inr\<close> goes on.\<close>

datatype turn_phase = AtHead | AtCheck | AtByte

definition connect_byte ::
  "nat \<Rightarrow> ncclNetSocketComm \<Rightarrow> ncclNetSocketCommStage \<Rightarrow> Net \<Rightarrow>
   (ncclResult_t \<times> ncclNetSocketComm \<times> ncclNetSocketCommStage \<times> Net) +
   (ncclNetSocketComm \<times> ncclNetSocketCommStage \<times> Net)" where
  "connect_byte i c sg k =
     (let (r, d, sent, k1) = ncclSocketProgress NCCL_SOCKET_SEND (Some (get_sock i c)) [of_nat i] 1 0 k
      in if r \<noteq> ncclSuccess then Inl (r, c, sg, k1)
         else if sent = 0 then Inl (ncclSuccess, c, sg, k1)
         else Inr (c, sg, k1))"

definition connect_check ::
  "nat \<Rightarrow> ncclNetSocketComm \<Rightarrow> ncclNetSocketCommStage \<Rightarrow> Net \<Rightarrow>
   ((ncclResult_t \<times> ncclNetSocketComm \<times> ncclNetSocketCommStage \<times> Net) +
    (ncclNetSocketComm \<times> ncclNetSocketCommStage \<times> Net)) option" where
  "connect_check i c sg k =
     (case ncclSocketReady (Some (get_sock i c)) k of
        None \<Rightarrow> None
      | Some (r, ready, s, k1) \<Rightarrow>
          let c1 = put_sock i (the s) c
          in if r \<noteq> ncclSuccess then Some (Inl (r, c1, sg, k1))
             else if ready \<noteq> Some True then Some (Inl (ncclSuccess, c1, sg, k1))
             else Some (connect_byte i c1 (sg\<lparr>sg_state := ncclNetSocketCommStateSend\<rparr>) k1))"

definition connect_turn ::
  "turn_phase \<Rightarrow> ncclNetSocketHandle \<Rightarrow> nat \<Rightarrow> ncclNetSocketComm \<Rightarrow> ncclNetSocketCommStage \<Rightarrow> Net \<Rightarrow>
   ((ncclResult_t \<times> ncclNetSocketComm \<times> ncclNetSocketCommStage \<times> Net) +
    (ncclNetSocketComm \<times> ncclNetSocketCommStage \<times> Net)) option" where
  "connect_turn phase h i c sg k =
     (case phase of
        AtByte \<Rightarrow> Some (connect_byte i c sg k)
      | AtCheck \<Rightarrow> connect_check i c sg k
      | AtHead \<Rightarrow>
          (let (r, s, k1) = ncclSocketInit (Some (get_sock i c)) (Some (hd_connectAddr h)) (hd_magic h)
                              ncclSocketTypeNetSocket False True k;
               c1 = put_sock i (the s) c
           in if r \<noteq> ncclSuccess then Some (Inl (r, c1, sg, k1))
              else
                (let sg1 = sg\<lparr>sg_state := ncclNetSocketCommStateConnect, sg_iteration := i\<rparr>
                 in case ncclSocketConnect s k1 of
                      None \<Rightarrow> None
                    | Some (r, s2, k2) \<Rightarrow>
                        let c2 = put_sock i (the s2) c1
                        in if r \<noteq> ncclSuccess then Some (Inl (r, c2, sg1, k2))
                           else connect_check i c2 sg1 k2)))"

fun connect_turns ::
  "ncclNetSocketHandle \<Rightarrow> turn_phase \<Rightarrow> nat list \<Rightarrow> ncclNetSocketComm \<Rightarrow> ncclNetSocketCommStage \<Rightarrow> Net \<Rightarrow>
   (ncclResult_t \<times> bool \<times> ncclNetSocketComm \<times> ncclNetSocketCommStage \<times> Net) option" where
  "connect_turns h phase [] c sg k = Some (ncclSuccess, True, c, sg, k)"
| "connect_turns h phase (i # is) c sg k =
     (case connect_turn phase h i c sg k of
        None \<Rightarrow> None
      | Some (Inl (r, c1, sg1, k1)) \<Rightarrow> Some (r, False, c1, sg1, k1)
      | Some (Inr (c1, sg1, k1)) \<Rightarrow> connect_turns h AtHead is c1 sg1 k1)"

text \<open>\<open>cuda\<close> is the answer of \<open>cudaGetDevice\<close>; the connection returned is \<open>*sendComm\<close>.\<close>

definition ncclNetSocketConnect ::
  "NetSocketState \<Rightarrow> int \<Rightarrow> int option \<Rightarrow> ncclNetSocketHandle \<Rightarrow> Net \<Rightarrow>
   (ncclResult_t \<times> ncclNetSocketComm option \<times> ncclNetSocketHandle \<times> Net) option" where
  "ncclNetSocketConnect st dev cuda h k =
     (if dev < 0 \<or> dev \<ge> ncclNetIfs st then Some (ncclInternalError, None, h, k)
      else
        (let sg = hd_stage h; i = sg_iteration sg;
             run = (\<lambda>phase c sg.
               case connect_turns h phase [i..<nc_nSocks c + 1] c sg k of
                 None \<Rightarrow> None
               | Some (r, done, c1, sg1, k1) \<Rightarrow>
                   Some (r, if done then Some c1 else None, h\<lparr>hd_stage := sg1\<lparr>sg_comm := Some c1\<rparr>\<rparr>, k1))
         in if sg_state sg = ncclNetSocketCommStateConnect then run AtCheck (the (sg_comm sg)) sg
            else if sg_state sg = ncclNetSocketCommStateSend then run AtByte (the (sg_comm sg)) sg
            else
              (let c = zero_comm\<lparr>nc_nSocks := hd_nSocks h, nc_nThreads := hd_nThreads h, nc_dev := dev\<rparr>
               in case cuda of
                    None \<Rightarrow> Some (ncclUnhandledCudaError, None, h\<lparr>hd_stage := sg\<lparr>sg_comm := Some c\<rparr>\<rparr>, k)
                  | Some d \<Rightarrow> run AtHead (c\<lparr>nc_cudaDev := d\<rparr>) sg)))"

text \<open>One turn of the loop of \<open>ncclNetSocketAccept\<close>. The index comes from the peer: \<open>Overruns\<close> is the write
  past the array of sockets that an index above its end leads to.\<close>

datatype 'a accept_exit = Gives 'a | Overruns

definition accept_byte ::
  "ncclNetSocketComm \<Rightarrow> ncclNetSocketCommStage \<Rightarrow> Net \<Rightarrow>
   ((ncclResult_t \<times> ncclNetSocketComm \<times> ncclNetSocketCommStage \<times> Net) +
    (ncclNetSocketComm \<times> ncclNetSocketCommStage \<times> Net)) accept_exit" where
  "accept_byte c sg k =
     (let s = the (sg_sock sg);
          (r, d, got, k1) = ncclSocketProgress NCCL_SOCKET_RECV (Some s) [0] 1 0 k
      in if r \<noteq> ncclSuccess then Gives (Inl (r, c, sg, k1))
         else if got = 0 then Gives (Inl (ncclSuccess, c, sg, k1))
         else
           (let sendSockIdx = unat (hd d)
            in if sendSockIdx \<noteq> nc_nSocks c \<and> length (nc_socks c) \<le> sendSockIdx then Overruns
               else Gives (Inr (put_sock sendSockIdx s c, sg, k1))))"

definition accept_check ::
  "ncclNetSocketComm \<Rightarrow> ncclNetSocketCommStage \<Rightarrow> Net \<Rightarrow>
   ((ncclResult_t \<times> ncclNetSocketComm \<times> ncclNetSocketCommStage \<times> Net) +
    (ncclNetSocketComm \<times> ncclNetSocketCommStage \<times> Net)) accept_exit option" where
  "accept_check c sg k =
     (case ncclSocketReady (sg_sock sg) k of
        None \<Rightarrow> None
      | Some (r, ready, s, k1) \<Rightarrow>
          let sg1 = sg\<lparr>sg_sock := s\<rparr>
          in if r \<noteq> ncclSuccess then Some (Gives (Inl (r, c, sg1, k1)))
             else if ready \<noteq> Some True then Some (Gives (Inl (ncclSuccess, c, sg1, k1)))
             else Some (accept_byte c (sg1\<lparr>sg_state := ncclNetSocketCommStateRecv\<rparr>) k1))"

definition accept_turn ::
  "turn_phase \<Rightarrow> ncclSocket \<Rightarrow> nat \<Rightarrow> ncclNetSocketComm \<Rightarrow> ncclNetSocketCommStage \<Rightarrow> Net \<Rightarrow>
   ((ncclResult_t \<times> ncclNetSocketComm \<times> ncclNetSocketCommStage \<times> Net) +
    (ncclNetSocketComm \<times> ncclNetSocketCommStage \<times> Net)) accept_exit option" where
  "accept_turn phase listenSock i c sg k =
     (case phase of
        AtByte \<Rightarrow> Some (accept_byte c sg k)
      | AtCheck \<Rightarrow> accept_check c sg k
      | AtHead \<Rightarrow>
          (let (r, s, k1) = ncclSocketInit (Some zero_sock) None NCCL_SOCKET_MAGIC ncclSocketTypeUnknown False False k
           in if r \<noteq> ncclSuccess then Some (Gives (Inl (r, c, sg, k1)))
              else
                (let sg1 = sg\<lparr>sg_sock := s, sg_state := ncclNetSocketCommStateAccept, sg_iteration := i\<rparr>
                 in case ncclSocketAccept s (Some listenSock) k1 of
                      None \<Rightarrow> None
                    | Some (r, s2, k2) \<Rightarrow>
                        let sg2 = sg1\<lparr>sg_sock := s2\<rparr>
                        in if r \<noteq> ncclSuccess then Some (Gives (Inl (r, c, sg2, k2)))
                           else accept_check c sg2 k2)))"

fun accept_turns ::
  "ncclSocket \<Rightarrow> turn_phase \<Rightarrow> nat list \<Rightarrow> ncclNetSocketComm \<Rightarrow> ncclNetSocketCommStage \<Rightarrow> Net \<Rightarrow>
   (ncclResult_t \<times> bool \<times> ncclNetSocketComm \<times> ncclNetSocketCommStage \<times> Net) accept_exit option" where
  "accept_turns l phase [] c sg k = Some (Gives (ncclSuccess, True, c, sg, k))"
| "accept_turns l phase (i # is) c sg k =
     (case accept_turn phase l i c sg k of
        None \<Rightarrow> None
      | Some Overruns \<Rightarrow> Some Overruns
      | Some (Gives (Inl (r, c1, sg1, k1))) \<Rightarrow> Some (Gives (r, False, c1, sg1, k1))
      | Some (Gives (Inr (c1, sg1, k1))) \<Rightarrow> accept_turns l AtHead is c1 sg1 k1)"

definition ncclNetSocketAccept ::
  "int option \<Rightarrow> ncclNetSocketListenComm \<Rightarrow> Net \<Rightarrow>
   (ncclResult_t \<times> ncclNetSocketComm option \<times> ncclNetSocketListenComm \<times> Net) accept_exit option" where
  "ncclNetSocketAccept cuda l k =
     (let sg = lc_stage l; i = sg_iteration sg;
          run = (\<lambda>phase c sg.
            case accept_turns (lc_sock l) phase [i..<nc_nSocks c + 1] c sg k of
              None \<Rightarrow> None
            | Some Overruns \<Rightarrow> Some Overruns
            | Some (Gives (r, done, c1, sg1, k1)) \<Rightarrow>
                Some (Gives (r, if done then Some c1 else None,
                  l\<lparr>lc_stage := if done then start_stage else sg1\<lparr>sg_comm := Some c1\<rparr>\<rparr>, k1)))
      in if sg_state sg = ncclNetSocketCommStateAccept then run AtCheck (the (sg_comm sg)) sg
         else if sg_state sg = ncclNetSocketCommStateRecv then run AtByte (the (sg_comm sg)) sg
         else
           (let c = zero_comm\<lparr>nc_nSocks := lc_nSocks l, nc_nThreads := lc_nThreads l, nc_dev := lc_dev l\<rparr>
            in case cuda of
                 None \<Rightarrow> Some (Gives (ncclUnhandledCudaError, None, l\<lparr>lc_stage := sg\<lparr>sg_comm := Some c\<rparr>\<rparr>, k))
               | Some d \<Rightarrow> run AtHead (c\<lparr>nc_cudaDev := d\<rparr>) sg))"

section \<open>Closing\<close>

definition ncclNetSocketCloseListen :: "ncclNetSocketListenComm option \<Rightarrow> Net \<Rightarrow> (ncclResult_t \<times> Net) option" where
  "ncclNetSocketCloseListen l k =
     (case l of
        None \<Rightarrow> Some (ncclSuccess, k)
      | Some lc \<Rightarrow>
          (case ncclSocketReady (Some (lc_sock lc)) k of
             None \<Rightarrow> None
           | Some (r, ready, s, k1) \<Rightarrow>
               if r \<noteq> ncclSuccess then Some (r, k1)
               else if ready = Some True then (let (r, _, k2) = ncclSocketClose s k1 in Some (r, k2))
               else Some (ncclSuccess, k1)))"

fun close_socks :: "ncclSocket list \<Rightarrow> Net \<Rightarrow> (ncclResult_t \<times> Net) option" where
  "close_socks [] k = Some (ncclSuccess, k)"
| "close_socks (s # ss) k =
     (case ncclSocketReady (Some s) k of
        None \<Rightarrow> None
      | Some (r, ready, s1, k1) \<Rightarrow>
          if r \<noteq> ncclSuccess then Some (r, k1)
          else if ready = Some True
          then (let (r, _, k2) = ncclSocketClose s1 k1 in if r \<noteq> ncclSuccess then Some (r, k2) else close_socks ss k2)
          else close_socks ss k1)"

text \<open>The threads are stopped and joined first.\<close>

definition ncclNetSocketClose :: "ncclNetSocketComm option \<Rightarrow> Net \<Rightarrow> (ncclResult_t \<times> Net) option" where
  "ncclNetSocketClose comm k =
     (case comm of
        None \<Rightarrow> Some (ncclSuccess, k)
      | Some c \<Rightarrow> close_socks (nc_ctrlSock c # take (nc_nSocks c) (nc_socks c)) k)"

section \<open>Properties\<close>

subsection \<open>Numbers of sockets and threads\<close>

lemma auto_threads_cases:
  "auto_threads v = (r, nt, ns) \<Longrightarrow>
     nt \<in> {0, 2, 4} \<and> ns \<in> {1, 8} \<and> (r = ncclSuccess \<or> r = ncclSystemError \<and> v = Some None)"
  by (auto simp: auto_threads_def Let_def split: option.splits if_splits)

text \<open>With both parameters -2 (automatic) or not negative, the numbers of sockets and threads that are
  computed fit the arrays of a connection: at most 64 sockets and 16 threads, and every thread serves the
  same number of sockets. The only failure is a vendor file that cannot be read.\<close>

theorem GetNsockNthread_fits:
  assumes "ncclNetSocketGetNsockNthread perThread threads vendor = (r, nst)"
    "perThread = - 2 \<or> 0 \<le> perThread" "threads = - 2 \<or> 0 \<le> threads"
  shows "case nst of
      Some (ns, nt) \<Rightarrow> r = ncclSuccess \<and> 0 \<le> ns \<and> ns \<le> int MAX_SOCKETS \<and> 0 \<le> nt \<and> nt \<le> int MAX_THREADS \<and> nt dvd ns
    | None \<Rightarrow> r = ncclSystemError \<and> vendor = Some None \<and> (perThread = - 2 \<or> threads = - 2)"
proof -
  obtain ra an as where a: "auto_threads vendor = (ra, an, as)" by (metis prod_cases3)
  note auto = auto_threads_cases [OF a]
  define th where "th = (if threads > int MAX_THREADS then int MAX_THREADS else threads)"
  have th: "th = - 2 \<longleftrightarrow> threads = - 2" "th = - 2 \<or> 0 \<le> th" "th \<le> 16"
    using assms(3) by (auto simp: th_def MAX_THREADS_def)
  define nt where "nt = (if th = - 2 then an else th)"
  define spt where "spt = (if perThread = - 2 then as else perThread)"
  have nt: "0 \<le> nt" "nt \<le> 16" and spt: "0 \<le> spt"
    using auto th assms(2) by (auto simp: nt_def spt_def)
  define ns where "ns = (if spt * nt > int MAX_SOCKETS then int MAX_SOCKETS div nt * nt else spt * nt)"
  have "int MAX_SOCKETS div nt * nt \<le> int MAX_SOCKETS"
    using nt by (cases "nt = 0") (simp_all add: MAX_SOCKETS_def minus_mod_eq_div_mult [symmetric])
  moreover have "0 \<le> int MAX_SOCKETS div nt"
    using nt by (cases "nt = 0") (simp_all add: MAX_SOCKETS_def pos_imp_zdiv_nonneg_iff)
  ultimately have ns: "0 \<le> ns" "ns \<le> int MAX_SOCKETS" "nt dvd ns" using nt spt by (auto simp: ns_def)
  have "(r, nst) = (if (th = - 2 \<or> perThread = - 2) \<and> ra \<noteq> ncclSuccess then (ra, None) else (ncclSuccess, Some (ns, nt)))"
    unfolding assms(1) [symmetric] ncclNetSocketGetNsockNthread_def a Let_def prod.case th_def [symmetric]
      nt_def [symmetric] spt_def [symmetric] ns_def using nt(1) by simp
  then show ?thesis using auto th ns nt by (cases "ra = ncclSuccess") (auto simp: MAX_THREADS_def split: if_splits)
qed

theorem GetNsockNthread_fits_witness:
  "ncclNetSocketGetNsockNthread (- 2) 100 (Some (Some ''0x1d0f'')) = (ncclSuccess, Some (64, 16)) \<and>
   (64::int) \<le> int MAX_SOCKETS"
  using GetNsockNthread_fits [of "- 2" 100 "Some (Some ''0x1d0f'')" ncclSuccess "Some (64, 16)"]
  by (simp add: ncclNetSocketGetNsockNthread_def auto_threads_def MAX_THREADS_def MAX_SOCKETS_def)

subsection \<open>Initialisation\<close>

text \<open>When no interface is found, the first call of \<open>ncclNetSocketInit\<close> fails but leaves the number of
  interfaces at 0 and the lock held, so every later call takes the fast path and reports success.\<close>

theorem failed_init_then_succeeds:
  assumes "ncclNetIfs st = - 1" "\<not> ncclNetSocketLock st"
  shows "\<exists>st1. ncclNetSocketInit realpath [] st = Some (ncclInternalError, st1) \<and> ncclNetSocketLock st1 \<and>
     (\<forall>found. ncclNetSocketInit realpath found st1 = Some (ncclSuccess, st1)) \<and>
     ncclNetSocketDevices st1 = (ncclSuccess, 0)"
  using assms by (simp add: ncclNetSocketInit_def ncclNetSocketDevices_def Let_def)

theorem failed_init_then_succeeds_witness:
  "\<exists>st1. ncclNetSocketInit (\<lambda>_. None) [] \<lparr>ncclNetIfs = - 1, ncclNetSocketDevs = [], ncclNetSocketLock = False\<rparr>
     = Some (ncclInternalError, st1) \<and> ncclNetSocketLock st1 \<and>
     (\<forall>found. ncclNetSocketInit (\<lambda>_. None) found st1 = Some (ncclSuccess, st1)) \<and>
     ncclNetSocketDevices st1 = (ncclSuccess, 0)"
  using failed_init_then_succeeds [of "\<lparr>ncclNetIfs = - 1, ncclNetSocketDevs = [], ncclNetSocketLock = False\<rparr>" "\<lambda>_. None"]
  by simp

subsection \<open>Accepting\<close>

lemma recv_byte:
  assumes "sk_answers (ends k (sock_fd s)) = Moves (Suc n) # as" "sk_in (ends k (sock_fd s)) = b # rest"
    "\<not> sock_abortFlag s"
  shows "ncclSocketProgress NCCL_SOCKET_RECV (Some s) [0] 1 0 k =
     (ncclSuccess, [b], 1, k\<lparr>ends := (ends k)(sock_fd s := (ends k (sock_fd s))\<lparr>sk_answers := as, sk_in := rest\<rparr>)\<rparr>)"
  using assms
  by (simp add: ncclSocketProgress_def socketProgress_def socketProgressOpt.simps socket_call_def net_recv_def
      Let_def abort_read_def bytes_put_def)

text \<open>C30. The index that the peer sends on a new connection is not checked. The receiver of an index of 64 or
  more, other than its own number of sockets, writes a socket past the end of its array, whatever is stored
  there; an index up to the number of sockets files the connection under it.\<close>

theorem accept_trusts_the_index:
  assumes "sk_answers (ends k (sock_fd s)) = Moves (Suc n) # as" "sk_in (ends k (sock_fd s)) = b # rest"
    "\<not> sock_abortFlag s"
    "sg_state (lc_stage l) = ncclNetSocketCommStateRecv" "sg_sock (lc_stage l) = Some s" "sg_comm (lc_stage l) = Some c"
    "length (nc_socks c) = MAX_SOCKETS" "sg_iteration (lc_stage l) \<le> nc_nSocks c"
  shows "(MAX_SOCKETS \<le> unat b \<and> unat b \<noteq> nc_nSocks c \<longrightarrow> ncclNetSocketAccept cuda l k = Some Overruns) \<and>
    (unat b \<le> nc_nSocks c \<and> nc_nSocks c \<le> MAX_SOCKETS \<longrightarrow> (\<exists>c1 k1.
       accept_byte c (lc_stage l) k = Gives (Inr (c1, lc_stage l, k1)) \<and> get_sock (unat b) c1 = s \<and>
       (\<forall>j \<le> nc_nSocks c. j \<noteq> unat b \<longrightarrow> get_sock j c1 = get_sock j c)))"
proof -
  note b = recv_byte [OF assms(1-3)] recv_byte [OF assms(1-3), unfolded One_nat_def]
  have i: "[sg_iteration (lc_stage l)..<Suc (nc_nSocks c)] = sg_iteration (lc_stage l) # [Suc (sg_iteration (lc_stage l))..<Suc (nc_nSocks c)]"
    using assms(8) by (intro upt_conv_Cons) simp
  have "ncclNetSocketAccept cuda l k = Some Overruns" if "MAX_SOCKETS \<le> unat b" "unat b \<noteq> nc_nSocks c"
    using that assms(4-7)
    by (simp add: ncclNetSocketAccept_def Let_def i accept_turn_def accept_byte_def b del: upt_Suc)
  moreover have "\<exists>c1 k1. accept_byte c (lc_stage l) k = Gives (Inr (c1, lc_stage l, k1)) \<and> get_sock (unat b) c1 = s \<and>
           (\<forall>j \<le> nc_nSocks c. j \<noteq> unat b \<longrightarrow> get_sock j c1 = get_sock j c)"
    if "unat b \<le> nc_nSocks c" "nc_nSocks c \<le> MAX_SOCKETS"
    using that assms(5,7) by (auto simp: accept_byte_def b Let_def put_sock_def get_sock_def)
  ultimately show ?thesis by blast
qed

definition example_stage :: ncclNetSocketCommStage where
  "example_stage = \<lparr>sg_state = ncclNetSocketCommStateRecv, sg_iteration = 0, sg_sock = Some (zero_sock\<lparr>sock_fd := 7\<rparr>),
     sg_comm = Some zero_comm\<rparr>"

theorem accept_trusts_the_index_witness:
  "ncclNetSocketAccept (Some 0) \<lparr>lc_sock = zero_sock, lc_stage = example_stage, lc_nSocks = 0, lc_nThreads = 0, lc_dev = 0\<rparr>
     (example_net [200] [Moves 1]) = Some Overruns \<and>
   (\<exists>c1 k1. accept_byte zero_comm example_stage (example_net [0] [Moves 1]) = Gives (Inr (c1, example_stage, k1)) \<and>
     get_sock 0 c1 = zero_sock\<lparr>sock_fd := 7\<rparr>)"
proof -
  let ?l = "\<lparr>lc_sock = zero_sock, lc_stage = example_stage, lc_nSocks = 0, lc_nThreads = 0, lc_dev = 0\<rparr>"
  note t = accept_trusts_the_index [where s = "zero_sock\<lparr>sock_fd := 7\<rparr>" and n = 0 and as = "[]" and rest = "[]"
      and l = ?l and c = zero_comm and cuda = "Some 0"]
  show ?thesis
    using t [where b = 200 and k = "example_net [200] [Moves 1]"] t [where b = 0 and k = "example_net [0] [Moves 1]"]
    by (simp add: example_stage_def example_net_def zero_sock_def zero_comm_def MAX_SOCKETS_def)
qed

end
