(* ===== verification/NetTasks.thy ===== *)
theory NetTasks
  imports NetSocket
begin

text \<open>
  The data path of \<^verbatim>\<open>nccl_internal_impl/net_socket.cc\<close>: requests, the tasks a request is cut into,
  \<open>ncclNetSocketTest\<close>, and the rounds of the helper threads \<open>persistentSocketThread\<close>.
\<close>

section \<open>Requests and tasks\<close>

text \<open>\<open>DIVUP\<close> is the argument \<open>divup\<close>.\<close>

fun first_free :: "ncclNetSocketRequest list \<Rightarrow> nat \<Rightarrow> nat option" where
  "first_free [] i = None"
| "first_free (r # rs) i = (if rq_used r = 0 then Some i else first_free rs (i + 1))"

definition ncclNetSocketGetRequest ::
  "ncclNetSocketComm \<Rightarrow> sock_op \<Rightarrow> nat \<Rightarrow> int \<Rightarrow> ncclResult_t \<times> nat option \<times> ncclNetSocketComm" where
  "ncclNetSocketGetRequest c op data sz =
     (case first_free (nc_requests c) 0 of
        None \<Rightarrow> (ncclInternalError, None, c)
      | Some i \<Rightarrow>
          (ncclSuccess, Some i, c\<lparr>nc_requests := (nc_requests c)[i := (nc_requests c ! i)
             \<lparr>rq_op := op, rq_data := data, rq_size := sz, rq_used := 1, rq_nSubs := 0\<rparr>]\<rparr>))"

definition queue_tasks :: "ncclNetSocketComm \<Rightarrow> nat \<Rightarrow> ncclNetSocketTask list" where
  "queue_tasks c tid = (case tq_tasks (nc_queues c ! tid) of None \<Rightarrow> [] | Some ts \<Rightarrow> ts)"

definition get_task :: "ncclNetSocketComm \<Rightarrow> nat \<times> nat \<Rightarrow> ncclNetSocketTask" where
  "get_task c p = queue_tasks c (fst p) ! snd p"

definition put_task :: "nat \<times> nat \<Rightarrow> ncclNetSocketTask \<Rightarrow> ncclNetSocketComm \<Rightarrow> ncclNetSocketComm" where
  "put_task p t c = c\<lparr>nc_queues := (nc_queues c)[fst p := (nc_queues c ! fst p)
     \<lparr>tq_tasks := Some ((queue_tasks c (fst p))[snd p := t])\<rparr>]\<rparr>"

text \<open>The queue of a thread is made, and the thread started, by the first task it gets.\<close>

definition ensure_queue :: "(int \<Rightarrow> int \<Rightarrow> int) \<Rightarrow> nat \<Rightarrow> ncclNetSocketComm \<Rightarrow> ncclNetSocketComm" where
  "ensure_queue divup tid c =
     (case tq_tasks (nc_queues c ! tid) of
        Some ts \<Rightarrow> c
      | None \<Rightarrow> c\<lparr>nc_queues := (nc_queues c)[tid := \<lparr>tq_next = 0,
          tq_tasks = Some (replicate (NCCL_NET_MAX_REQUESTS * nat (divup (int (nc_nSocks c)) (int (nc_nThreads c)))) zero_task)\<rparr>]\<rparr>)"

definition ncclNetSocketGetTask ::
  "(int \<Rightarrow> int \<Rightarrow> int) \<Rightarrow> ncclNetSocketComm \<Rightarrow> sock_op \<Rightarrow> nat \<Rightarrow> nat \<Rightarrow>
   ncclResult_t \<times> (nat \<times> nat) option \<times> ncclNetSocketComm" where
  "ncclNetSocketGetTask divup c0 op data sz =
     (let tid = nc_nextSock c0 mod nc_nThreads c0;
          c = ensure_queue divup tid c0;
          q = nc_queues c ! tid;
          p = (tid, tq_next q);
          t = get_task c p
      in if tk_used t = 0
         then (let c1 = put_task p (t\<lparr>tk_op := op, tk_data := data, tk_size := sz, tk_sock := nc_nextSock c,
                          tk_offset := 0, tk_result := ncclSuccess, tk_used := 1\<rparr>) c;
                   c2 = c1\<lparr>nc_nextSock := (nc_nextSock c + 1) mod nc_nSocks c\<rparr>;
                   c3 = c2\<lparr>nc_queues := (nc_queues c2)[tid := (nc_queues c2 ! tid)
                          \<lparr>tq_next := (tq_next q + 1) mod length (queue_tasks c2 tid)\<rparr>]\<rparr>
               in (ncclSuccess, Some p, c3))
         else (ncclInternalError, None, c))"

text \<open>Cutting a request of \<open>sz\<close> bytes into tasks of \<open>max (MIN_CHUNKSIZE, d)\<close> bytes; the tasks made so far
  are returned in order, with the result.\<close>

function split_loop ::
  "(int \<Rightarrow> int \<Rightarrow> int) \<Rightarrow> sock_op \<Rightarrow> nat \<Rightarrow> int \<Rightarrow> int \<Rightarrow> int \<Rightarrow> (nat \<times> nat) list \<Rightarrow> ncclNetSocketComm \<Rightarrow>
   ncclResult_t \<times> (nat \<times> nat) list \<times> ncclNetSocketComm" where
  "split_loop divup op data d sz chunkOffset tasks c =
     (let taskSize = max MIN_CHUNKSIZE d
      in if chunkOffset < sz
         then (let chunkSize = min taskSize (sz - chunkOffset);
                   (r, p, c1) = ncclNetSocketGetTask divup c op (data + nat chunkOffset) (nat chunkSize)
               in if r \<noteq> ncclSuccess then (r, tasks, c1)
                  else split_loop divup op data d sz (chunkOffset + chunkSize) (tasks @ [the p]) c1)
         else (ncclSuccess, tasks, c))"
  by pat_completeness auto
termination
  by (relation "measure (\<lambda>(divup, op, data, d, sz, chunkOffset, tasks, c). nat (sz - chunkOffset))")
    (auto simp: MIN_CHUNKSIZE_def)

declare split_loop.simps [simp del]

definition put_request :: "nat \<Rightarrow> ncclNetSocketRequest \<Rightarrow> ncclNetSocketComm \<Rightarrow> ncclNetSocketComm" where
  "put_request i r c = c\<lparr>nc_requests := (nc_requests c)[i := r]\<rparr>"

definition c_int :: "u8 list \<Rightarrow> int" where
  "c_int bs = sint (of_nat (le_value bs) :: 32 word)"

definition int_bytes :: "int \<Rightarrow> u8 list" where
  "int_bytes n = le_bytes 4 (nat (n mod 2 ^ 32))"

text \<open>The first half of \<open>ncclNetSocketTest\<close>: the exchange of the size and the split. \<open>Inl\<close> is a return, \<open>Inr\<close>
  goes on with the second half.\<close>

definition start_request ::
  "(int \<Rightarrow> int \<Rightarrow> int) \<Rightarrow> nat \<Rightarrow> int \<Rightarrow> ncclNetSocketComm \<Rightarrow> ncclResult_t \<times> ncclNetSocketComm" where
  "start_request divup i sz c =
     (let r1 = (nc_requests c ! i)\<lparr>rq_size := sz, rq_offset := 0, rq_used := 2\<rparr>;
          c1 = put_request i r1 c
      in if 0 < nc_nSocks c1
         then (let (res, tasks, c2) =
                     split_loop divup (rq_op r1) (rq_data r1) (divup sz (int (nc_nSocks c1))) sz 0 [] c1
               in if res \<noteq> ncclSuccess then (res, put_request i (r1\<lparr>rq_tasks := tasks\<rparr>) c2)
                  else (ncclSuccess, put_request i (r1\<lparr>rq_tasks := tasks, rq_nSubs := length tasks\<rparr>) c2))
         else (ncclSuccess, put_request i (r1\<lparr>rq_nSubs := 0\<rparr>) c1))"

definition exchange_size ::
  "(int \<Rightarrow> int \<Rightarrow> int) \<Rightarrow> nat \<Rightarrow> ncclNetSocketComm \<Rightarrow> Net \<Rightarrow>
   ((ncclResult_t \<times> ncclNetSocketComm \<times> Net) + (ncclNetSocketComm \<times> Net)) option" where
  "exchange_size divup i c k =
     (let r = nc_requests c ! i;
          ctrl = nc_ctrlSock c;
          (res, d, off, k1) = ncclSocketProgress (rq_op r) (Some ctrl) (int_bytes (rq_size r)) 4 0 k
      in if res \<noteq> ncclSuccess then Some (Inl (res, c, k1))
         else if off = 0 then Some (Inl (ncclSuccess, c, k1))
         else
           (case (if off < 4 then ncclSocketWait (rq_op r) (Some ctrl) d 4 off k1 else Some (ncclSuccess, d, off, k1)) of
              None \<Rightarrow> None
            | Some (res, d, off, k2) \<Rightarrow>
                if res \<noteq> ncclSuccess then Some (Inl (res, c, k2))
                else if rq_op r = NCCL_SOCKET_RECV \<and> c_int d > rq_size r
                then (let (res, a) = ncclSocketGetAddr (Some ctrl) zero_addr
                      in Some (Inl (if res \<noteq> ncclSuccess then res else ncclInvalidUsage, c, k2)))
                else
                  (let (res, c1) = start_request divup i (c_int d) c
                   in Some (if res \<noteq> ncclSuccess then Inl (res, c1, k2) else Inr (c1, k2)))))"

text \<open>The second half: the tasks are looked at in order, or the main thread moves the bytes itself.\<close>

definition test_subs ::
  "nat \<Rightarrow> ncclNetSocketComm \<Rightarrow> ncclResult_t \<times> bool \<times> int option \<times> ncclNetSocketComm" where
  "test_subs i c =
     (let r = nc_requests c ! i;
          subs = take (rq_nSubs r) (rq_tasks r)
      in case List.find (\<lambda>p. tk_result (get_task c p) \<noteq> ncclSuccess) subs of
           Some p \<Rightarrow> (tk_result (get_task c p), False, None, c)
         | None \<Rightarrow>
             if list_all (\<lambda>p. tk_offset (get_task c p) = tk_size (get_task c p)) subs
             then (ncclSuccess, True, Some (rq_size r),
                   fold (\<lambda>p c. put_task p ((get_task c p)\<lparr>tk_used := 0\<rparr>) c) subs (put_request i (r\<lparr>rq_used := 0\<rparr>) c))
             else (ncclSuccess, False, None, c))"

definition test_main_thread ::
  "nat \<Rightarrow> ncclNetSocketComm \<Rightarrow> (nat \<Rightarrow> u8) \<Rightarrow> Net \<Rightarrow>
   ncclResult_t \<times> bool \<times> int option \<times> ncclNetSocketComm \<times> (nat \<Rightarrow> u8) \<times> Net" where
  "test_main_thread i c m k =
     (let r = nc_requests c ! i;
          (res, d, off, k1) =
            (if rq_offset r < rq_size r
             then ncclSocketProgress (rq_op r) (Some (nc_ctrlSock c)) (mem_read m (rq_data r) (nat (rq_size r)))
                    (nat (rq_size r)) (nat (rq_offset r)) k
             else (ncclSuccess, mem_read m (rq_data r) (nat (rq_size r)), nat (rq_offset r), k));
          m1 = mem_write (rq_data r) d m;
          r1 = r\<lparr>rq_offset := int off\<rparr>
      in if res \<noteq> ncclSuccess then (res, False, None, put_request i r1 c, m1, k1)
         else if rq_offset r1 = rq_size r1
         then (ncclSuccess, True, Some (rq_size r1), put_request i (r1\<lparr>rq_used := 0\<rparr>) c, m1, k1)
         else (ncclSuccess, False, None, put_request i r1 c, m1, k1))"

text \<open>The result, \<open>*done\<close> and \<open>*size\<close> when it is written.\<close>

definition ncclNetSocketTest ::
  "(int \<Rightarrow> int \<Rightarrow> int) \<Rightarrow> nat option \<Rightarrow> ncclNetSocketComm \<Rightarrow> (nat \<Rightarrow> u8) \<Rightarrow> Net \<Rightarrow>
   (ncclResult_t \<times> bool \<times> int option \<times> ncclNetSocketComm \<times> (nat \<Rightarrow> u8) \<times> Net) option" where
  "ncclNetSocketTest divup request c m k =
     (case request of
        None \<Rightarrow> Some (ncclInternalError, False, None, c, m, k)
      | Some i \<Rightarrow>
          (let second = (\<lambda>c k.
                 if rq_used (nc_requests c ! i) = 2
                 then if 0 < rq_nSubs (nc_requests c ! i)
                      then (let (r, d, sz, c1) = test_subs i c in (r, d, sz, c1, m, k))
                      else test_main_thread i c m k
                 else (ncclSuccess, False, None, c, m, k))
           in if rq_used (nc_requests c ! i) = 1
              then (case exchange_size divup i c k of
                      None \<Rightarrow> None
                    | Some (Inl (r, c1, k1)) \<Rightarrow> Some (r, False, None, c1, m, k1)
                    | Some (Inr (c1, k1)) \<Rightarrow> Some (second c1 k1))
              else Some (second c k)))"

definition ncclNetSocketRegMr :: "int \<Rightarrow> ncclResult_t" where
  "ncclNetSocketRegMr ty = (if ty \<noteq> NCCL_NET_PTR_HOST then ncclInternalError else ncclSuccess)"

definition ncclNetSocketDeregMr :: "ncclResult_t" where
  "ncclNetSocketDeregMr = ncclSuccess"

definition ncclNetSocketIsend ::
  "ncclNetSocketComm \<Rightarrow> nat \<Rightarrow> int \<Rightarrow> ncclResult_t \<times> nat option \<times> ncclNetSocketComm" where
  "ncclNetSocketIsend c data sz = ncclNetSocketGetRequest c NCCL_SOCKET_SEND data sz"

definition ncclNetSocketIrecv ::
  "ncclNetSocketComm \<Rightarrow> int \<Rightarrow> nat list \<Rightarrow> int list \<Rightarrow> ncclResult_t \<times> nat option \<times> ncclNetSocketComm" where
  "ncclNetSocketIrecv c n data sizes =
     (if n \<noteq> 1 then (ncclInternalError, None, c)
      else ncclNetSocketGetRequest c NCCL_SOCKET_RECV (hd data) (hd sizes))"

definition ncclNetSocketIflush :: "ncclResult_t" where
  "ncclNetSocketIflush = ncclInternalError"

section \<open>Helper threads\<close>

definition task_active :: "ncclNetSocketTask \<Rightarrow> bool" where
  "task_active t \<longleftrightarrow> tk_used t = 1 \<and> tk_offset t < tk_size t"

text \<open>One call of \<open>ncclSocketProgress\<close> on a task.\<close>

definition work_task ::
  "nat \<times> nat \<Rightarrow> ncclNetSocketComm \<Rightarrow> (nat \<Rightarrow> u8) \<Rightarrow> Net \<Rightarrow> ncclNetSocketComm \<times> (nat \<Rightarrow> u8) \<times> Net" where
  "work_task p c m k =
     (let t = get_task c p;
          (r, d, off, k1) = ncclSocketProgress (tk_op t) (Some (nc_socks c ! tk_sock t))
                              (mem_read m (tk_data t) (tk_size t)) (tk_size t) (tk_offset t) k
      in (put_task p (t\<lparr>tk_result := r, tk_offset := off\<rparr>) c, mem_write (tk_data t) d m, k1))"

text \<open>The inner \<open>for\<close> loop of \<open>persistentSocketThread\<close> over the places of one group: whether the thread
  lives on, \<open>idle\<close>, \<open>repeat\<close> and the state.\<close>

fun group_pass ::
  "nat \<Rightarrow> nat list \<Rightarrow> bool \<Rightarrow> bool \<Rightarrow> ncclNetSocketComm \<Rightarrow> (nat \<Rightarrow> u8) \<Rightarrow> Net \<Rightarrow>
   bool \<times> bool \<times> bool \<times> ncclNetSocketComm \<times> (nat \<Rightarrow> u8) \<times> Net" where
  "group_pass tid [] idle rep c m k = (True, idle, rep, c, m, k)"
| "group_pass tid (j # js) idle rep c m k =
     (if task_active (get_task c (tid, j))
      then (let (c1, m1, k1) = work_task (tid, j) c m k;
                t = get_task c1 (tid, j)
            in if tk_result t \<noteq> ncclSuccess then (False, idle, rep, c1, m1, k1)
               else group_pass tid js False (rep \<or> tk_offset t < tk_size t) c1 m1 k1)
      else group_pass tid js idle rep c m k)"

text \<open>The \<open>do\<close> loop repeats the group until no task of it is left unfinished.\<close>

partial_function (option) group_loop ::
  "nat \<Rightarrow> nat list \<Rightarrow> bool \<Rightarrow> ncclNetSocketComm \<Rightarrow> (nat \<Rightarrow> u8) \<Rightarrow> Net \<Rightarrow>
   (bool \<times> bool \<times> ncclNetSocketComm \<times> (nat \<Rightarrow> u8) \<times> Net) option" where
  "group_loop tid js idle c m k =
     (let (alive, idle1, rep, c1, m1, k1) = group_pass tid js idle False c m k
      in if alive \<and> rep then group_loop tid js idle1 c1 m1 k1 else Some (alive, idle1, c1, m1, k1))"

partial_function (option) queue_loop ::
  "nat \<Rightarrow> nat \<Rightarrow> nat \<Rightarrow> bool \<Rightarrow> ncclNetSocketComm \<Rightarrow> (nat \<Rightarrow> u8) \<Rightarrow> Net \<Rightarrow>
   (bool \<times> bool \<times> ncclNetSocketComm \<times> (nat \<Rightarrow> u8) \<times> Net) option" where
  "queue_loop tid nSocksPerThread i idle c m k =
     (if i < length (queue_tasks c tid)
      then (case group_loop tid [i..<i + nSocksPerThread] idle c m k of
              None \<Rightarrow> None
            | Some (alive, idle1, c1, m1, k1) \<Rightarrow>
                if \<not> alive then Some (False, idle1, c1, m1, k1)
                else queue_loop tid nSocksPerThread (i + nSocksPerThread) idle1 c1 m1 k1)
      else Some (True, idle, c, m, k))"

text \<open>One round of the thread's endless loop. An idle thread then waits for a new task; \<open>stop\<close> ends it.\<close>

definition thread_round ::
  "nat \<Rightarrow> ncclNetSocketComm \<Rightarrow> (nat \<Rightarrow> u8) \<Rightarrow> Net \<Rightarrow>
   (bool \<times> bool \<times> ncclNetSocketComm \<times> (nat \<Rightarrow> u8) \<times> Net) option" where
  "thread_round tid c m k =
     (case queue_loop tid (nc_nSocks c div nc_nThreads c) 0 True c m k of
        None \<Rightarrow> None
      | Some (alive, idle, c1, m1, k1) \<Rightarrow> Some (alive \<and> \<not> nc_stop c1 ! tid, idle, c1, m1, k1))"

section \<open>Requests\<close>

lemma first_free_spec:
  "case first_free rs i of
     None \<Rightarrow> \<forall>r \<in> set rs. rq_used r \<noteq> 0
   | Some j \<Rightarrow> i \<le> j \<and> j < i + length rs \<and> rq_used (rs ! (j - i)) = 0 \<and> (\<forall>l < j - i. rq_used (rs ! l) \<noteq> 0)"
proof (induction rs arbitrary: i)
  case (Cons r rs)
  show ?case
  proof (cases "rq_used r = 0 \<or> first_free rs (i + 1) = None")
    case True
    then show ?thesis using Cons.IH [of "i + 1"] by auto
  next
    case False
    then obtain j where j: "first_free rs (i + 1) = Some j" "rq_used r \<noteq> 0" by auto
    with Cons.IH [of "i + 1"] have c: "i + 1 \<le> j" "j < i + 1 + length rs" "rq_used (rs ! (j - (i + 1))) = 0"
      "\<forall>l < j - (i + 1). rq_used (rs ! l) \<noteq> 0" by auto
    then obtain d where d: "j = i + 1 + d" by (metis le_Suc_ex)
    show ?thesis using j c by (auto simp: d nth_Cons split: nat.splits)
  qed
qed simp

text \<open>Posting a request takes the first free slot of the connection's 32, and leaves every other slot as it
  is; it fails, with \<open>ncclInternalError\<close> and nothing changed, exactly when all slots are in use.\<close>

theorem GetRequest_takes_a_free_slot:
  "case ncclNetSocketGetRequest c op data sz of
     (r, None, c1) \<Rightarrow> r = ncclInternalError \<and> c1 = c \<and> (\<forall>q \<in> set (nc_requests c). rq_used q \<noteq> 0)
   | (r, Some i, c1) \<Rightarrow> r = ncclSuccess \<and> i < length (nc_requests c) \<and> rq_used (nc_requests c ! i) = 0 \<and>
       rq_used (nc_requests c1 ! i) = 1 \<and> rq_op (nc_requests c1 ! i) = op \<and> rq_data (nc_requests c1 ! i) = data \<and>
       rq_size (nc_requests c1 ! i) = sz \<and> rq_nSubs (nc_requests c1 ! i) = 0 \<and>
       (\<forall>l. l \<noteq> i \<longrightarrow> nc_requests c1 ! l = nc_requests c ! l) \<and> (\<forall>l < i. rq_used (nc_requests c ! l) \<noteq> 0) \<and>
       c1 = c\<lparr>nc_requests := nc_requests c1\<rparr>"
  using first_free_spec [of "nc_requests c" 0]
  by (auto simp: ncclNetSocketGetRequest_def split: option.splits)

section \<open>Tasks\<close>

text \<open>The places of the task queues, and what the code keeps of a connection that uses data sockets.\<close>

definition place :: "ncclNetSocketComm \<Rightarrow> nat \<times> nat \<Rightarrow> bool" where
  "place c p \<longleftrightarrow> fst p < length (nc_queues c) \<and> snd p < length (queue_tasks c (fst p))"

definition queue_ok :: "ncclNetSocketTaskQueue \<Rightarrow> bool" where
  "queue_ok q \<longleftrightarrow> (case tq_tasks q of None \<Rightarrow> True | Some ts \<Rightarrow> tq_next q < length ts)"

definition comm_wf :: "ncclNetSocketComm \<Rightarrow> bool" where
  "comm_wf c \<longleftrightarrow> 0 < nc_nThreads c \<and> nc_nThreads c \<le> length (nc_queues c) \<and> nc_nextSock c < nc_nSocks c \<and>
     list_all queue_ok (nc_queues c)"

definition divup_covers :: "(int \<Rightarrow> int \<Rightarrow> int) \<Rightarrow> bool" where
  "divup_covers divup \<longleftrightarrow> (\<forall>x y. 0 < x \<longrightarrow> 0 < y \<longrightarrow> x \<le> divup x y * y)"

lemma divup_pos: "divup_covers divup \<Longrightarrow> 0 < x \<Longrightarrow> 0 < y \<Longrightarrow> 0 < divup x y"
  unfolding divup_covers_def by (metis leD linorder_le_less_linear mult_nonneg_nonneg mult_nonpos_nonneg nless_le order_less_le_trans)

lemma queue_tasks_update [simp]:
  "queue_tasks (c\<lparr>nc_nextSock := x\<rparr>) t = queue_tasks c t" "queue_tasks (c\<lparr>nc_requests := y\<rparr>) t = queue_tasks c t"
  by (simp_all add: queue_tasks_def)

lemma get_task_update [simp]:
  "get_task (c\<lparr>nc_nextSock := x\<rparr>) p = get_task c p" "get_task (c\<lparr>nc_requests := y\<rparr>) p = get_task c p"
  "get_task (put_request i r c) p = get_task c p" "place (put_request i r c) p = place c p"
  by (simp_all add: get_task_def place_def put_request_def)

lemma queue_tasks_put:
  assumes "place c p"
  shows "queue_tasks (put_task p t c) x =
     (if x = fst p then (queue_tasks c (fst p))[snd p := t] else queue_tasks c x)"
  using assms by (simp add: queue_tasks_def put_task_def place_def)

lemma get_task_put:
  "place c p \<Longrightarrow> get_task (put_task p t c) q = (if q = p then t else get_task c q)"
  by (cases p; cases q) (auto simp: get_task_def queue_tasks_put place_def)

lemma place_put [simp]: "place c p \<Longrightarrow> place (put_task p t c) q = place c q"
  by (cases p; cases q) (auto simp: place_def queue_tasks_put, (simp add: put_task_def)+)

lemma put_task_fields [simp]:
  "nc_socks (put_task p t c) = nc_socks c" "nc_nSocks (put_task p t c) = nc_nSocks c"
  "nc_nThreads (put_task p t c) = nc_nThreads c" "nc_nextSock (put_task p t c) = nc_nextSock c"
  "nc_requests (put_task p t c) = nc_requests c" "nc_ctrlSock (put_task p t c) = nc_ctrlSock c"
  "nc_stop (put_task p t c) = nc_stop c" "length (nc_queues (put_task p t c)) = length (nc_queues c)"
  by (simp_all add: put_task_def)

lemma list_all_update: "list_all P xs \<Longrightarrow> P x \<Longrightarrow> list_all P (xs[i := x])"
  using set_update_subset_insert [of xs i x] by (auto simp: list_all_iff)

lemma comm_wf_put [simp]:
  assumes "place c p" "comm_wf c"
  shows "comm_wf (put_task p t c)"
proof -
  have "queue_ok (nc_queues c ! fst p)" using assms by (simp add: comm_wf_def place_def list_all_length)
  then have "queue_ok ((nc_queues c ! fst p)\<lparr>tq_tasks := Some ((queue_tasks c (fst p))[snd p := t])\<rparr>)"
    using assms(1) by (auto simp: queue_ok_def queue_tasks_def place_def split: option.splits)
  then show ?thesis using assms(2) by (simp add: comm_wf_def put_task_def list_all_update)
qed

lemma queue_tasks_next:
  "queue_tasks (c\<lparr>nc_queues := (nc_queues c)[tid := (nc_queues c ! tid)\<lparr>tq_next := n\<rparr>]\<rparr>) x = queue_tasks c x"
  by (cases "x = tid"; cases "tid < length (nc_queues c)") (simp_all add: queue_tasks_def not_less list_update_beyond)

lemma comm_wf_next:
  assumes "comm_wf c" "n < length (queue_tasks c tid)"
  shows "comm_wf (c\<lparr>nc_queues := (nc_queues c)[tid := (nc_queues c ! tid)\<lparr>tq_next := n\<rparr>]\<rparr>)"
proof -
  have "queue_ok ((nc_queues c ! tid)\<lparr>tq_next := n\<rparr>)"
    using assms(2) by (auto simp: queue_ok_def queue_tasks_def split: option.splits)
  then show ?thesis using assms(1) by (simp add: comm_wf_def list_all_update)
qed

lemma put_request_fields [simp]:
  "nc_socks (put_request i r c) = nc_socks c" "nc_nSocks (put_request i r c) = nc_nSocks c"
  "nc_nThreads (put_request i r c) = nc_nThreads c" "nc_nextSock (put_request i r c) = nc_nextSock c"
  "nc_queues (put_request i r c) = nc_queues c" "nc_ctrlSock (put_request i r c) = nc_ctrlSock c"
  "comm_wf (put_request i r c) = comm_wf c"
  by (simp_all add: put_request_def comm_wf_def)

text \<open>Two connections that agree on everything but the queues, the requests and \<open>nextSock\<close>.\<close>

definition same_links :: "ncclNetSocketComm \<Rightarrow> ncclNetSocketComm \<Rightarrow> bool" where
  "same_links c c1 \<longleftrightarrow> nc_socks c1 = nc_socks c \<and> nc_nSocks c1 = nc_nSocks c \<and> nc_nThreads c1 = nc_nThreads c \<and>
     nc_ctrlSock c1 = nc_ctrlSock c \<and> length (nc_queues c1) = length (nc_queues c)"

lemma same_links_trans: "same_links c c1 \<Longrightarrow> same_links c1 c2 \<Longrightarrow> same_links c c2"
  by (simp add: same_links_def)

lemma ensure_queue_spec:
  assumes "comm_wf c" "divup_covers divup" "tid < nc_nThreads c"
  defines "c1 \<equiv> ensure_queue divup tid c"
  shows "comm_wf c1" "same_links c c1" "nc_nextSock c1 = nc_nextSock c" "nc_requests c1 = nc_requests c"
    "place c1 (tid, tq_next (nc_queues c1 ! tid))"
    "place c q \<Longrightarrow> place c1 q \<and> get_task c1 q = get_task c q"
    "place c1 q \<Longrightarrow> place c q \<or> get_task c1 q = zero_task"
proof -
  let ?n = "NCCL_NET_MAX_REQUESTS * nat (divup (int (nc_nSocks c)) (int (nc_nThreads c)))"
  have n: "0 < ?n" using divup_pos [OF assms(2), of "int (nc_nSocks c)" "int (nc_nThreads c)"] assms(1,3)
    by (auto simp: comm_wf_def NCCL_NET_MAX_REQUESTS_def)
  have t: "tid < length (nc_queues c)" using assms(1,3) by (simp add: comm_wf_def)
  have ok: "queue_ok (nc_queues c ! tid)" using assms(1) t by (simp add: comm_wf_def list_all_length)
  have new: "queue_ok \<lparr>tq_next = 0, tq_tasks = Some (replicate ?n zero_task)\<rparr>" using n by (simp add: queue_ok_def)
  have cases: "c1 = c \<and> (\<exists>ts. tq_tasks (nc_queues c ! tid) = Some ts) \<or> tq_tasks (nc_queues c ! tid) = None \<and>
     c1 = c\<lparr>nc_queues := (nc_queues c)[tid := \<lparr>tq_next = 0, tq_tasks = Some (replicate ?n zero_task)\<rparr>]\<rparr>"
    by (auto simp: c1_def ensure_queue_def split: option.splits)
  show "comm_wf c1" "same_links c c1" "nc_nextSock c1 = nc_nextSock c" "nc_requests c1 = nc_requests c"
    using cases assms(1) t new by (auto simp: comm_wf_def same_links_def list_all_length nth_list_update)
  show "place c1 (tid, tq_next (nc_queues c1 ! tid))"
    using cases ok n t by (auto simp: place_def queue_tasks_def queue_ok_def)
  show "place c q \<Longrightarrow> place c1 q \<and> get_task c1 q = get_task c q" using cases t
    by (cases q) (auto simp: place_def queue_tasks_def get_task_def nth_list_update split: if_splits)
  show "place c1 q \<Longrightarrow> place c q \<or> get_task c1 q = zero_task" using cases t
    by (cases q) (auto simp: place_def queue_tasks_def get_task_def nth_list_update split: if_splits)
qed

text \<open>\<open>posts c ps c1\<close>: \<open>c1\<close> is \<open>c\<close> with new tasks at the places \<open>ps\<close>, which were free; every other place is as
  it was, or belongs to a new queue and is zero.\<close>

definition posts :: "ncclNetSocketComm \<Rightarrow> (nat \<times> nat) list \<Rightarrow> ncclNetSocketComm \<Rightarrow> bool" where
  "posts c ps c1 \<longleftrightarrow> comm_wf c1 \<and> same_links c c1 \<and> nc_requests c1 = nc_requests c \<and> distinct ps \<and>
     nc_nextSock c1 = (nc_nextSock c + length ps) mod nc_nSocks c \<and>
     (\<forall>p \<in> set ps. place c1 p \<and> tk_used (get_task c1 p) = 1 \<and> (place c p \<longrightarrow> tk_used (get_task c p) = 0)) \<and>
     (\<forall>q. q \<notin> set ps \<longrightarrow> (place c q \<longrightarrow> place c1 q \<and> get_task c1 q = get_task c q) \<and>
        (place c1 q \<longrightarrow> place c q \<or> get_task c1 q = zero_task))"

lemma posts_Nil: "comm_wf c \<Longrightarrow> posts c [] c"
  by (simp add: posts_def same_links_def comm_wf_def)

lemma posts_trans:
  assumes "posts c ps c1" "posts c1 qs c2"
  shows "posts c (ps @ qs) c2" "p \<in> set ps \<Longrightarrow> get_task c2 p = get_task c1 p"
proof -
  have new: "p \<notin> set qs" if "p \<in> set ps" for p using that assms by (auto simp: posts_def)
  show same: "get_task c2 p = get_task c1 p" if "p \<in> set ps" for p
    using that new [OF that] assms unfolding posts_def by blast
  have "comm_wf c2" "same_links c c2" "nc_requests c2 = nc_requests c" "distinct (ps @ qs)"
    using assms new by (auto simp: posts_def same_links_def)
  moreover have "nc_nextSock c2 = (nc_nextSock c + length (ps @ qs)) mod nc_nSocks c"
    using assms by (simp add: posts_def same_links_def mod_add_left_eq add.assoc)
  moreover have "place c2 p \<and> tk_used (get_task c2 p) = 1 \<and> (place c p \<longrightarrow> tk_used (get_task c p) = 0)"
    if "p \<in> set (ps @ qs)" for p
  proof (cases "p \<in> set ps")
    case True
    then have "place c1 p" "tk_used (get_task c1 p) = 1" "place c p \<longrightarrow> tk_used (get_task c p) = 0"
      using assms(1) unfolding posts_def by blast+
    moreover have "place c2 p" using \<open>place c1 p\<close> new [OF True] assms(2) unfolding posts_def by blast
    ultimately show ?thesis using same [OF True] by simp
  next
    case False
    then have "p \<in> set qs" using that by simp
    then have "place c2 p" "tk_used (get_task c2 p) = 1" "place c1 p \<longrightarrow> tk_used (get_task c1 p) = 0"
      using assms(2) unfolding posts_def by blast+
    moreover have "place c p \<longrightarrow> place c1 p \<and> get_task c1 p = get_task c p"
      using False assms(1) unfolding posts_def by blast
    ultimately show ?thesis by metis
  qed
  moreover have "(place c q \<longrightarrow> place c2 q \<and> get_task c2 q = get_task c q) \<and>
      (place c2 q \<longrightarrow> place c q \<or> get_task c2 q = zero_task)" if "q \<notin> set (ps @ qs)" for q
  proof -
    have 1: "(place c q \<longrightarrow> place c1 q \<and> get_task c1 q = get_task c q) \<and> (place c1 q \<longrightarrow> place c q \<or> get_task c1 q = zero_task)"
      using that assms(1) unfolding posts_def by fastforce
    have 2: "(place c1 q \<longrightarrow> place c2 q \<and> get_task c2 q = get_task c1 q) \<and> (place c2 q \<longrightarrow> place c1 q \<or> get_task c2 q = zero_task)"
      using that assms(2) unfolding posts_def by fastforce
    show ?thesis using 1 2 by metis
  qed
  ultimately show "posts c (ps @ qs) c2" unfolding posts_def by blast
qed

definition new_task :: "sock_op \<Rightarrow> nat \<Rightarrow> nat \<Rightarrow> nat \<Rightarrow> ncclNetSocketTask" where
  "new_task op data sz sock = \<lparr>tk_op = op, tk_data = data, tk_size = sz, tk_sock = sock, tk_offset = 0, tk_used = 1,
     tk_result = ncclSuccess\<rparr>"

lemma GetTask_posts:
  assumes "ncclNetSocketGetTask divup c op data sz = (r, pp, c1)" "comm_wf c" "divup_covers divup"
  shows "r = ncclInternalError \<and> pp = None \<or>
    (\<exists>p. r = ncclSuccess \<and> pp = Some p \<and> posts c [p] c1 \<and> get_task c1 p = new_task op data sz (nc_nextSock c))"
proof -
  define tid where "tid = nc_nextSock c mod nc_nThreads c"
  have tid: "tid < nc_nThreads c" using assms(2) by (simp add: tid_def comm_wf_def)
  define e where "e = ensure_queue divup tid c"
  note e = ensure_queue_spec [OF assms(2,3) tid, folded e_def]
  define p where "p = (tid, tq_next (nc_queues e ! tid))"
  have p: "place e p" using e(5) by (simp add: p_def)
  show ?thesis
  proof (cases "tk_used (get_task e p) = 0")
    case False
    then show ?thesis using assms(1)
      by (simp add: ncclNetSocketGetTask_def Let_def tid_def [symmetric] e_def [symmetric] p_def [symmetric])
  next
    case True
    define t where "t = new_task op data sz (nc_nextSock c)"
    have t: "(get_task e p)\<lparr>tk_op := op, tk_data := data, tk_size := sz, tk_sock := nc_nextSock e, tk_offset := 0,
        tk_result := ncclSuccess, tk_used := 1\<rparr> = t" using e(3) by (simp add: t_def new_task_def)
    define c2 where "c2 = (put_task p t e)\<lparr>nc_nextSock := (nc_nextSock e + 1) mod nc_nSocks e\<rparr>"
    have c1: "r = ncclSuccess" "pp = Some p" "c1 = c2\<lparr>nc_queues := (nc_queues c2)[tid := (nc_queues c2 ! tid)
        \<lparr>tq_next := (tq_next (nc_queues e ! tid) + 1) mod length (queue_tasks c2 tid)\<rparr>]\<rparr>"
      using True assms(1) t
      by (simp_all add: ncclNetSocketGetTask_def Let_def tid_def [symmetric] e_def [symmetric] p_def [symmetric] c2_def)
    have q: "queue_tasks c1 x = queue_tasks (put_task p t e) x" for x
      using queue_tasks_next [of c2] by (simp add: c1(3)) (simp add: c2_def)
    have len: "length (nc_queues c1) = length (nc_queues e)" by (simp add: c1(3) c2_def)
    have g: "get_task c1 x = (if x = p then t else get_task e x)" and pl: "place c1 x = place e x" for x
      using p get_task_put [OF p, of t x] place_put [OF p, of t x]
      by (simp_all add: get_task_def q place_def len)
    have ne: "0 < length (queue_tasks c2 tid)" using p by (auto simp: c2_def queue_tasks_put place_def p_def)
    have "comm_wf (put_task p t e)" using e(1) p by simp
    then have "comm_wf c2" by (simp add: c2_def comm_wf_def)
    then have wf: "comm_wf c1" unfolding c1(3) using ne by (intro comm_wf_next) simp_all
    have "posts c [p] c1" unfolding posts_def
    proof (intro conjI ballI allI impI)
      show "same_links c c1" using e(2) by (simp add: c1(3) c2_def same_links_def)
      show "nc_nextSock c1 = (nc_nextSock c + length [p]) mod nc_nSocks c"
        using e(2,3) by (simp add: c1(3) c2_def same_links_def)
      fix x assume "x \<in> set [p]"
      then show "place c1 x" "tk_used (get_task c1 x) = 1" "place c x \<Longrightarrow> tk_used (get_task c x) = 0"
        using p e(6) [of p] True by (auto simp: g pl t_def new_task_def)
    next
      fix x assume "x \<notin> set [p]"
      then show "place c x \<Longrightarrow> place c1 x" "place c x \<Longrightarrow> get_task c1 x = get_task c x"
        "place c1 x \<Longrightarrow> place c x \<or> get_task c1 x = zero_task"
        using e(6,7) [of x] by (auto simp: g pl)
    qed (use wf e(4) in \<open>simp_all add: c1(3) c2_def\<close>)
    then show ?thesis using c1(1,2) g [of p] by (simp add: t_def)
  qed
qed

lemma split_loop_posts:
  assumes "split_loop divup op data d sz off tasks c = (ncclSuccess, tasks1, c1)" "comm_wf c" "divup_covers divup"
    "ts = nat (max MIN_CHUNKSIZE d)" "off = int (k * ts) \<or> sz \<le> off \<and> sz \<le> int (k * ts)"
  shows "\<exists>ps. tasks1 = tasks @ ps \<and> posts c ps c1 \<and> sz \<le> int ((k + length ps) * ts) \<and>
    (\<forall>j < length ps. int ((k + j) * ts) < sz \<and> get_task c1 (ps ! j) =
       new_task op (data + (k + j) * ts) (min ts (nat sz - (k + j) * ts)) ((nc_nextSock c + j) mod nc_nSocks c))"
  using assms
proof (induction divup op data d sz off tasks c arbitrary: k rule: split_loop.induct)
  case (1 divup op data d sz off tasks c)
  have ts: "max MIN_CHUNKSIZE d = int ts" "0 < ts" using "1.prems"(4) by (auto simp: MIN_CHUNKSIZE_def)
  show ?case
  proof (cases "off < sz")
    case False
    then have "tasks1 = tasks" "c1 = c" "sz \<le> int (k * ts)"
      using "1.prems"(1,5) by (auto simp: split_loop.simps)
    then show ?thesis using "1.prems"(2) by (intro exI [of _ "[]"]) (simp add: posts_Nil)
  next
    case True
    then have off: "off = int (k * ts)" using "1.prems"(5) by auto
    let ?n = "min ts (nat sz - k * ts)"
    have "sz - int m = int (nat sz - m)" if "int m < sz" for m using that by simp
    then have e: "sz - off = int (nat sz - k * ts)" using True off by metis
    from e have n: "nat (min (int ts) (sz - off)) = ?n" and nn: "min (int ts) (sz - off) = int ?n"
      by (simp_all only: of_nat_min [symmetric] nat_int)
    obtain r p c2 where g: "ncclNetSocketGetTask divup c op (data + nat off) (nat (min (max MIN_CHUNKSIZE d) (sz - off))) = (r, p, c2)"
      by (metis prod_cases3)
    have "split_loop divup op data d sz off tasks c = (if r \<noteq> ncclSuccess then (r, tasks, c2)
        else split_loop divup op data d sz (off + min (max MIN_CHUNKSIZE d) (sz - off)) (tasks @ [the p]) c2)"
      by (subst split_loop.simps) (simp only: g True Let_def prod.case if_True)
    then have rec: "r = ncclSuccess" "split_loop divup op data d sz (off + min (max MIN_CHUNKSIZE d) (sz - off)) (tasks @ [the p]) c2 = (ncclSuccess, tasks1, c1)"
      using "1.prems"(1) by (auto split: if_splits)
    note g' = g [unfolded ts(1) n, unfolded off nat_int]
    from GetTask_posts [OF g' "1.prems"(2,3)] rec(1) obtain x where x: "p = Some x" "posts c [x] c2"
      "get_task c2 x = new_task op (data + k * ts) ?n (nc_nextSock c)" by auto
    have wf: "comm_wf c2" and sk: "nc_nSocks c2 = nc_nSocks c" "nc_nextSock c2 = (nc_nextSock c + 1) mod nc_nSocks c"
      using x(2) by (auto simp: posts_def same_links_def)
    have off2: "off + int ?n = int (Suc k * ts) \<or> sz \<le> off + int ?n \<and> sz \<le> int (Suc k * ts)"
      using e off unfolding nn [symmetric] by (auto simp: min_def)
    note IH = "1.IH" [OF refl True refl g [symmetric] refl]
    obtain ps where ps: "tasks1 = (tasks @ [x]) @ ps" "posts c2 ps c1" "sz \<le> int ((Suc k + length ps) * ts)"
      "\<forall>j < length ps. int ((Suc k + j) * ts) < sz \<and> get_task c1 (ps ! j) =
         new_task op (data + (Suc k + j) * ts) (min ts (nat sz - (Suc k + j) * ts)) ((nc_nextSock c2 + j) mod nc_nSocks c2)"
      using IH [OF refl _ rec(2) wf "1.prems"(3,4), of "Suc k"] rec(1) off2 x(1) unfolding ts(1) nn by auto
    note t = posts_trans [OF x(2) ps(2)]
    show ?thesis
    proof (intro exI [of _ "x # ps"] conjI allI impI)
      show "tasks1 = tasks @ x # ps" using ps(1) by simp
      show "posts c (x # ps) c1" using t(1) by simp
      show "sz \<le> int ((k + length (x # ps)) * ts)" using ps(3) by simp
      fix j assume j: "j < length (x # ps)"
      show "int ((k + j) * ts) < sz" using j ps(4) True off by (cases j) auto
      have "nc_nextSock c mod nc_nSocks c = nc_nextSock c" using "1.prems"(2) by (simp add: comm_wf_def)
      then show "get_task c1 ((x # ps) ! j) =
         new_task op (data + (k + j) * ts) (min ts (nat sz - (k + j) * ts)) ((nc_nextSock c + j) mod nc_nSocks c)"
        using j ps(4) t(2) [of x] x(3) sk by (cases j) (auto simp: mod_add_left_eq)
    qed
  qed
qed

lemma ring_inj: "(a + j) mod n = (a + l) mod n \<Longrightarrow> j < n \<Longrightarrow> l < n \<Longrightarrow> j = (l :: nat)"
proof (induction j l rule: linorder_wlog)
  case (le j l)
  then have "n dvd (a + l) - (a + j)" by (metis add_le_cancel_left mod_eq_dvd_iff_nat)
  then show ?case using le nat_dvd_not_less [of "l - j" n] by (cases "j = l") auto
qed simp

text \<open>The bytes a request is cut into: task \<open>j\<close> covers \<open>ts\<close> bytes from \<open>j * ts\<close>, the last one what is left.\<close>

definition slices :: "ncclNetSocketComm \<Rightarrow> (nat \<times> nat) list \<Rightarrow> sock_op \<Rightarrow> nat \<Rightarrow> nat \<Rightarrow> nat \<Rightarrow> nat \<Rightarrow> nat \<Rightarrow> bool" where
  "slices c ps op data sz ts s0 n \<longleftrightarrow> 0 < ts \<and> sz \<le> length ps * ts \<and> length ps \<le> n \<and> distinct ps \<and>
     (\<forall>j < length ps. place c (ps ! j) \<and> j * ts < sz \<and>
        get_task c (ps ! j) = new_task op (data + j * ts) (min ts (sz - j * ts)) ((s0 + j) mod n))"

lemma start_request_posts:
  assumes "start_request divup i sz c = (ncclSuccess, c1)" "comm_wf c" "divup_covers divup" "i < length (nc_requests c)"
    "0 \<le> sz"
  obtains ps c2 where "c1 = put_request i ((nc_requests c ! i)\<lparr>rq_size := sz, rq_offset := 0, rq_used := 2,
      rq_tasks := ps, rq_nSubs := length ps\<rparr>) c2" "posts (put_request i ((nc_requests c ! i)\<lparr>rq_size := sz, rq_offset := 0,
      rq_used := 2\<rparr>) c) ps c2"
    "slices c2 ps (rq_op (nc_requests c ! i)) (rq_data (nc_requests c ! i)) (nat sz)
       (nat (max MIN_CHUNKSIZE (divup sz (int (nc_nSocks c))))) (nc_nextSock c) (nc_nSocks c)"
proof -
  let ?r = "(nc_requests c ! i)\<lparr>rq_size := sz, rq_offset := 0, rq_used := 2\<rparr>"
  let ?c = "put_request i ?r c"
  let ?ts = "nat (max MIN_CHUNKSIZE (divup sz (int (nc_nSocks c))))"
  have n: "0 < nc_nSocks c" using assms(2) by (simp add: comm_wf_def)
  obtain res ps c2 where sp: "split_loop divup (rq_op ?r) (rq_data ?r) (divup sz (int (nc_nSocks c))) sz 0 [] ?c = (res, ps, c2)"
    by (metis prod_cases3)
  have res: "res = ncclSuccess" "c1 = put_request i (?r\<lparr>rq_tasks := ps, rq_nSubs := length ps\<rparr>) c2"
    using assms(1) n sp by (auto simp: start_request_def Let_def split: if_splits)
  have wf: "comm_wf ?c" using assms(2) by simp
  obtain qs where qs: "ps = [] @ qs" "posts ?c qs c2" "sz \<le> int ((0 + length qs) * ?ts)"
    "\<forall>j < length qs. int ((0 + j) * ?ts) < sz \<and> get_task c2 (qs ! j) = new_task (rq_op ?r) (rq_data ?r + (0 + j) * ?ts)
       (min ?ts (nat sz - (0 + j) * ?ts)) ((nc_nextSock ?c + j) mod nc_nSocks ?c)"
    using split_loop_posts [OF sp [unfolded res(1)] wf assms(3) refl, of 0] by auto
  have ts: "0 < ?ts" by (auto simp: MIN_CHUNKSIZE_def)
  have len: "length qs \<le> nc_nSocks c"
  proof (rule ccontr)
    assume "\<not> length qs \<le> nc_nSocks c"
    then have "int (nc_nSocks c * ?ts) < sz" using qs(4) by simp
    moreover have "0 < sz" using calculation by (metis le_less_trans of_nat_0_le_iff)
    then have "sz \<le> divup sz (int (nc_nSocks c)) * int (nc_nSocks c)" using assms(3) n by (simp add: divup_covers_def)
    then have "sz \<le> int ?ts * int (nc_nSocks c)" using n
      by (smt (verit, best) mult_right_mono nat_0_le of_nat_0_le_iff int_nat_eq)
    ultimately show False by (simp add: mult.commute)
  qed
  show thesis
  proof (rule that [of ps c2])
    show "slices c2 ps (rq_op (nc_requests c ! i)) (rq_data (nc_requests c ! i)) (nat sz) ?ts (nc_nextSock c) (nc_nSocks c)"
      unfolding slices_def
    proof (intro conjI allI impI)
      show "nat sz \<le> length ps * ?ts" using qs(1,3) by (simp add: nat_le_iff)
      show "distinct ps" using qs(1,2) by (simp add: posts_def)
      fix j assume "j < length ps"
      then show "j * ?ts < nat sz" "place c2 (ps ! j)"
        "get_task c2 (ps ! j) = new_task (rq_op (nc_requests c ! i)) (rq_data (nc_requests c ! i) + j * ?ts)
           (min ?ts (nat sz - j * ?ts)) ((nc_nextSock c + j) mod nc_nSocks c)"
        using qs by (auto simp: zless_nat_eq_int_zless posts_def)
    qed (use ts len qs(1) in auto)
  qed (use res qs in simp_all)
qed

text \<open>C14. Cutting a request of \<open>sz\<close> bytes into tasks loses no byte and covers none twice. There are at most as many
  tasks as sockets; task \<open>j\<close> is active, at bytes \<open>j * ts\<close> to \<open>min sz ((j + 1) * ts)\<close> of the request's buffer, with
  nothing of it empty, and on the \<open>j\<close>th socket after \<open>nextSock\<close> round the ring, so no two tasks share a socket.
  The places taken were free, and no other task is touched.\<close>

theorem request_is_tiled:
  assumes "start_request divup i sz c = (ncclSuccess, c1)" "comm_wf c" "divup_covers divup" "i < length (nc_requests c)"
    "0 \<le> sz"
  shows "let r = nc_requests c1 ! i; ps = rq_tasks r; ts = nat (max MIN_CHUNKSIZE (divup sz (int (nc_nSocks c))))
    in rq_size r = sz \<and> rq_used r = 2 \<and> rq_nSubs r = length ps \<and>
       slices c1 ps (rq_op (nc_requests c ! i)) (rq_data (nc_requests c ! i)) (nat sz) ts (nc_nextSock c) (nc_nSocks c) \<and>
       distinct (map (\<lambda>p. tk_sock (get_task c1 p)) ps) \<and>
       (\<forall>p \<in> set ps. place c p \<longrightarrow> tk_used (get_task c p) = 0) \<and>
       (\<forall>q. place c q \<and> q \<notin> set ps \<longrightarrow> get_task c1 q = get_task c q) \<and> comm_wf c1"
proof -
  obtain ps c2 where c1: "c1 = put_request i ((nc_requests c ! i)\<lparr>rq_size := sz, rq_offset := 0, rq_used := 2,
      rq_tasks := ps, rq_nSubs := length ps\<rparr>) c2"
    and p: "posts (put_request i ((nc_requests c ! i)\<lparr>rq_size := sz, rq_offset := 0, rq_used := 2\<rparr>) c) ps c2"
    and sl: "slices c2 ps (rq_op (nc_requests c ! i)) (rq_data (nc_requests c ! i)) (nat sz)
       (nat (max MIN_CHUNKSIZE (divup sz (int (nc_nSocks c))))) (nc_nextSock c) (nc_nSocks c)"
    using start_request_posts [OF assms] .
  have r: "nc_requests c1 ! i = (nc_requests c ! i)\<lparr>rq_size := sz, rq_offset := 0, rq_used := 2,
      rq_tasks := ps, rq_nSubs := length ps\<rparr>" using assms(4) p by (simp add: c1 put_request_def posts_def)
  have s: "tk_sock (get_task c1 (ps ! j)) = (nc_nextSock c + j) mod nc_nSocks c" if "j < length ps" for j
    using sl that by (simp add: slices_def c1 new_task_def)
  have "distinct (map (\<lambda>p. tk_sock (get_task c1 p)) ps)"
    unfolding distinct_conv_nth
  proof (intro allI impI)
    fix j l assume a: "j < length (map (\<lambda>p. tk_sock (get_task c1 p)) ps)" "l < length (map (\<lambda>p. tk_sock (get_task c1 p)) ps)" "j \<noteq> l"
    then have "j < nc_nSocks c" "l < nc_nSocks c" using sl by (auto simp: slices_def)
    then have "(nc_nextSock c + j) mod nc_nSocks c \<noteq> (nc_nextSock c + l) mod nc_nSocks c"
      using a(3) ring_inj by blast
    then show "map (\<lambda>p. tk_sock (get_task c1 p)) ps ! j \<noteq> map (\<lambda>p. tk_sock (get_task c1 p)) ps ! l"
      using a s by simp
  qed
  then show ?thesis using p sl r by (simp add: Let_def posts_def c1) (simp add: slices_def)
qed

section \<open>Testing a request\<close>

lemma free_tasks:
  assumes "\<forall>p \<in> set ps. place c p"
  defines "c1 \<equiv> fold (\<lambda>p c. put_task p ((get_task c p)\<lparr>tk_used := 0\<rparr>) c) ps c"
  shows "get_task c1 q = (if q \<in> set ps then (get_task c q)\<lparr>tk_used := 0\<rparr> else get_task c q)"
    and "place c1 q = place c q" and "nc_requests c1 = nc_requests c" and "comm_wf c \<Longrightarrow> comm_wf c1"
  unfolding c1_def using assms(1)
proof (induction ps arbitrary: c)
  case (Cons p ps)
  { case 1 then show ?case using Cons.IH(1) by (auto simp: get_task_put)
  next case 2 then show ?case using Cons.IH(2) by simp
  next case 3 then show ?case using Cons.IH(3) by simp
  next case 4 then show ?case using Cons.IH(4) by simp }
qed simp_all

definition task_done :: "ncclNetSocketTask \<Rightarrow> bool" where
  "task_done t \<longleftrightarrow> tk_result t = ncclSuccess \<and> tk_offset t = tk_size t"

text \<open>C28. \<open>ncclNetSocketTest\<close> on a request that was cut into tasks reports completion exactly when every one of its
  tasks has moved all its bytes without an error. It then gives the size of the message back and frees the
  request and all its tasks, and no others. Otherwise nothing changes, and the result is that of the first
  task that failed, or success when none has.\<close>

theorem test_reports_completion:
  assumes "rq_used (nc_requests c ! i) = 2" "0 < rq_nSubs (nc_requests c ! i)" "i < length (nc_requests c)"
    "ps = take (rq_nSubs (nc_requests c ! i)) (rq_tasks (nc_requests c ! i))" "\<forall>p \<in> set ps. place c p"
  shows "\<exists>r done sz c1. ncclNetSocketTest divup (Some i) c m k = Some (r, done, sz, c1, m, k) \<and>
     (done \<longleftrightarrow> (\<forall>p \<in> set ps. task_done (get_task c p))) \<and>
     (if done then r = ncclSuccess \<and> sz = Some (rq_size (nc_requests c ! i)) \<and>
        nc_requests c1 = (nc_requests c)[i := (nc_requests c ! i)\<lparr>rq_used := 0\<rparr>] \<and>
        (\<forall>q. get_task c1 q = (if q \<in> set ps then (get_task c q)\<lparr>tk_used := 0\<rparr> else get_task c q))
      else c1 = c \<and> sz = None \<and> (r = ncclSuccess \<longleftrightarrow> (\<forall>p \<in> set ps. tk_result (get_task c p) = ncclSuccess)) \<and>
        (r \<noteq> ncclSuccess \<longrightarrow> (\<exists>j < length ps. r = tk_result (get_task c (ps ! j)) \<and>
           (\<forall>l < j. tk_result (get_task c (ps ! l)) = ncclSuccess))))"
proof -
  let ?c = "put_request i ((nc_requests c ! i)\<lparr>rq_used := 0\<rparr>) c"
  have pl: "\<forall>p \<in> set ps. place ?c p" using assms(5) by simp
  have t: "ncclNetSocketTest divup (Some i) c m k = (let (r, d, sz, c1) = test_subs i c in Some (r, d, sz, c1, m, k))"
    using assms(1,2) by (simp add: ncclNetSocketTest_def Let_def split_beta)
  show ?thesis
  proof (cases "List.find (\<lambda>p. tk_result (get_task c p) \<noteq> ncclSuccess) ps")
    case None
    then have ok: "\<forall>p \<in> set ps. tk_result (get_task c p) = ncclSuccess"
      using find_None_iff [THEN iffD1, OF None] by blast
    show ?thesis
    proof (cases "\<forall>p \<in> set ps. tk_offset (get_task c p) = tk_size (get_task c p)")
      case True
      then show ?thesis using None ok free_tasks [OF pl] t assms(3)
        by (auto simp: test_subs_def Let_def assms(4) [symmetric] list_all_iff task_done_def put_request_def)
    next
      case False
      then show ?thesis using None ok t
        by (auto simp: test_subs_def Let_def assms(4) [symmetric] list_all_iff task_done_def)
    qed
  next
    case (Some p)
    then obtain j where j: "j < length ps" "tk_result (get_task c (ps ! j)) \<noteq> ncclSuccess" "p = ps ! j"
      "\<forall>l < j. \<not> tk_result (get_task c (ps ! l)) \<noteq> ncclSuccess" by (auto simp: find_Some_iff)
    then have nd: "\<not> (\<forall>p \<in> set ps. task_done (get_task c p))" "\<not> (\<forall>p \<in> set ps. tk_result (get_task c p) = ncclSuccess)"
      by (auto simp: task_done_def dest!: bspec [of _ _ "ps ! j"])
    show ?thesis using Some j nd t
      by (intro exI [of _ "tk_result (get_task c p)"] exI [of _ False] exI [of _ None] exI [of _ c])
        (auto simp: test_subs_def Let_def assms(4) [symmetric])
  qed
qed

lemma mem_write_read_back: "mem_write a (mem_read m a n) m = m"
  by (rule ext) (auto simp: mem_write_def)

lemma request_same_offset: "rq_offset r = x \<Longrightarrow> r\<lparr>rq_offset := x\<rparr> = r"
  by (cases r) simp

lemma comm_same_requests: "xs = nc_requests c \<Longrightarrow> c\<lparr>nc_requests := xs\<rparr> = c"
  by (cases c) simp

text \<open>Four bytes that are there to be read.\<close>

lemma recv_int:
  assumes "sk_answers (ends k (sock_fd s)) = Moves n # as" "4 \<le> n" "sk_in (ends k (sock_fd s)) = bs @ rest"
    "length bs = 4" "\<not> sock_abortFlag s" "length d = 4"
  shows "ncclSocketProgress NCCL_SOCKET_RECV (Some s) d 4 0 k =
     (ncclSuccess, bs, 4, k\<lparr>ends := (ends k)(sock_fd s := (ends k (sock_fd s))\<lparr>sk_answers := as, sk_in := rest\<rparr>)\<rparr>)"
  using assms
  by (simp add: ncclSocketProgress_def socketProgress_def socketProgressOpt.simps socket_call_def net_recv_def
      Let_def abort_read_def bytes_put_def min_def)

text \<open>A size of at most 0 makes no tasks; a negative one leaves the request waiting for ever.\<close>

lemma start_nothing:
  assumes "sz \<le> 0" "i < length (nc_requests c)"
  obtains c1 where "start_request divup i sz c = (ncclSuccess, c1)" "i < length (nc_requests c1)"
    "rq_used (nc_requests c1 ! i) = 2" "rq_nSubs (nc_requests c1 ! i) = 0" "rq_offset (nc_requests c1 ! i) = 0"
    "rq_size (nc_requests c1 ! i) = sz"
proof -
  have "split_loop divup op data d sz 0 [] c' = (ncclSuccess, [], c')" for op data d c'
    using assms(1) by (subst split_loop.simps) (simp add: Let_def)
  then have "\<exists>c1. start_request divup i sz c = (ncclSuccess, c1) \<and> i < length (nc_requests c1) \<and>
      rq_used (nc_requests c1 ! i) = 2 \<and> rq_nSubs (nc_requests c1 ! i) = 0 \<and> rq_offset (nc_requests c1 ! i) = 0 \<and>
      rq_size (nc_requests c1 ! i) = sz"
    using assms(2) by (simp add: start_request_def Let_def) (simp add: put_request_def)
  then show thesis using that by blast
qed

lemma negative_never_completes:
  assumes "i < length (nc_requests c)" "rq_used (nc_requests c ! i) = 2" "rq_nSubs (nc_requests c ! i) = 0"
    "rq_offset (nc_requests c ! i) = 0" "rq_size (nc_requests c ! i) < 0"
  shows "ncclNetSocketTest divup (Some i) c m k = Some (ncclSuccess, False, None, c, m, k)"
  using assms by (simp add: ncclNetSocketTest_def test_main_thread_def Let_def put_request_def mem_write_read_back
      request_same_offset comm_same_requests)

text \<open>What a receiver does with the size its peer announces. A size above the posted one is refused with
  \<open>ncclInvalidUsage\<close>, and the request is left as it was, with the size already taken off the stream.
  A size of 0 completes the request at once. A negative size passes the check: the request
  then never completes, every later test answers success and not done.\<close>

theorem announced_size:
  assumes "sk_answers (ends k fd) = Moves n # as" "4 \<le> n" "sk_in (ends k fd) = bs @ rest" "length bs = 4"
    "fd = sock_fd (nc_ctrlSock c)" "\<not> sock_abortFlag (nc_ctrlSock c)"
    "sock_state (nc_ctrlSock c) = ncclSocketStateReady"
    "i < length (nc_requests c)" "rq_used (nc_requests c ! i) = 1" "rq_op (nc_requests c ! i) = NCCL_SOCKET_RECV"
    "k1 = k\<lparr>ends := (ends k)(fd := (ends k fd)\<lparr>sk_answers := as, sk_in := rest\<rparr>)\<rparr>"
  shows "(rq_size (nc_requests c ! i) < c_int bs \<longrightarrow>
        ncclNetSocketTest divup (Some i) c m k = Some (ncclInvalidUsage, False, None, c, m, k1)) \<and>
     (c_int bs = 0 \<and> 0 \<le> rq_size (nc_requests c ! i) \<longrightarrow>
        (\<exists>c1. ncclNetSocketTest divup (Some i) c m k = Some (ncclSuccess, True, Some 0, c1, m, k1) \<and>
           rq_used (nc_requests c1 ! i) = 0)) \<and>
     (c_int bs < 0 \<and> c_int bs \<le> rq_size (nc_requests c ! i) \<longrightarrow>
        (\<exists>c1. ncclNetSocketTest divup (Some i) c m k = Some (ncclSuccess, False, None, c1, m, k1) \<and>
           (\<forall>m k. ncclNetSocketTest divup (Some i) c1 m k = Some (ncclSuccess, False, None, c1, m, k))))"
proof -
  let ?r = "nc_requests c ! i"
  have l: "length (int_bytes (rq_size ?r)) = 4" by (simp add: int_bytes_def)
  note rv = recv_int [OF assms(1) [unfolded assms(5)] assms(2) assms(3) [unfolded assms(5)] assms(4,6) l,
      folded assms(5)]
  note k1 = assms(11) [symmetric]
  have ex: "exchange_size divup i c k = Some (let (res, c1) = start_request divup i (c_int bs) c in
       if res \<noteq> ncclSuccess then Inl (res, c1, k1) else Inr (c1, k1))" if "c_int bs \<le> rq_size ?r"
    using that by (simp add: exchange_size_def Let_def assms(10) rv k1 split_beta)
  show ?thesis
  proof (intro conjI impI)
    assume "rq_size ?r < c_int bs"
    then show "ncclNetSocketTest divup (Some i) c m k = Some (ncclInvalidUsage, False, None, c, m, k1)"
      using assms(7,9,10) rv k1 by (simp add: ncclNetSocketTest_def Let_def exchange_size_def ncclSocketGetAddr_def split: option.splits)
  next
    assume a: "c_int bs = 0 \<and> 0 \<le> rq_size ?r"
    then have "c_int bs \<le> 0" by simp
    from start_nothing [OF this assms(8)] obtain c1 where "start_request divup i (c_int bs) c = (ncclSuccess, c1)" "i < length (nc_requests c1)"
      "rq_used (nc_requests c1 ! i) = 2" "rq_nSubs (nc_requests c1 ! i) = 0" "rq_offset (nc_requests c1 ! i) = 0"
      "rq_size (nc_requests c1 ! i) = c_int bs" .
    then show "\<exists>c1. ncclNetSocketTest divup (Some i) c m k = Some (ncclSuccess, True, Some 0, c1, m, k1) \<and>
        rq_used (nc_requests c1 ! i) = 0"
      using a ex assms(9) by (simp add: ncclNetSocketTest_def Let_def test_main_thread_def mem_write_read_back) (simp add: put_request_def)
  next
    assume a: "c_int bs < 0 \<and> c_int bs \<le> rq_size ?r"
    then have "c_int bs \<le> 0" by simp
    from start_nothing [OF this assms(8)] obtain c1 where c1: "start_request divup i (c_int bs) c = (ncclSuccess, c1)" "i < length (nc_requests c1)"
      "rq_used (nc_requests c1 ! i) = 2" "rq_nSubs (nc_requests c1 ! i) = 0" "rq_offset (nc_requests c1 ! i) = 0"
      "rq_size (nc_requests c1 ! i) = c_int bs" .
    have "ncclNetSocketTest divup (Some i) c m k = ncclNetSocketTest divup (Some i) c1 m k1"
      using a ex assms(9) c1 by (simp add: ncclNetSocketTest_def Let_def)
    then show "\<exists>c1. ncclNetSocketTest divup (Some i) c m k = Some (ncclSuccess, False, None, c1, m, k1) \<and>
        (\<forall>m k. ncclNetSocketTest divup (Some i) c1 m k = Some (ncclSuccess, False, None, c1, m, k))"
      using negative_never_completes [OF c1(2-5)] c1(6) a by auto
  qed
qed

section \<open>Examples\<close>

text \<open>\<open>DIVUP\<close> as it is usually written, and a connection with one data socket and one posted request.\<close>

definition c_divup :: "int \<Rightarrow> int \<Rightarrow> int" where
  "c_divup x y = (x + y - 1) div y"

lemma c_divup_covers: "divup_covers c_divup"
  unfolding divup_covers_def c_divup_def
proof (intro allI impI)
  fix x y :: int
  assume y: "0 < y"
  have "(x + y - 1) mod y < y" using y by simp
  then show "x \<le> (x + y - 1) div y * y"
    using div_mult_mod_eq [of "x + y - 1" y] by linarith
qed

definition example_request :: "sock_op \<Rightarrow> ncclNetSocketRequest" where
  "example_request op = zero_request\<lparr>rq_op := op, rq_data := 10, rq_size := 1, rq_used := 1\<rparr>"

definition example_comm :: "sock_op \<Rightarrow> ncclNetSocketComm" where
  "example_comm op = \<lparr>nc_ctrlSock = zero_sock\<lparr>sock_fd := 3, sock_state := ncclSocketStateReady\<rparr>, nc_socks = [zero_sock\<lparr>sock_fd := 4\<rparr>], nc_dev = 0, nc_cudaDev = 0,
     nc_nSocks = 1, nc_nThreads = 1, nc_nextSock = 0, nc_requests = [example_request op],
     nc_queues = [\<lparr>tq_next = 0, tq_tasks = Some [zero_task]\<rparr>], nc_stop = [False]\<rparr>"

definition example_started :: "sock_op \<Rightarrow> ncclNetSocketTask \<Rightarrow> ncclNetSocketComm" where
  "example_started op t = (example_comm op)\<lparr>nc_requests := [(example_request op)\<lparr>rq_used := 2, rq_tasks := [(0, 0)], rq_nSubs := 1\<rparr>],
     nc_queues := [\<lparr>tq_next = 0, tq_tasks = Some [t]\<rparr>]\<rparr>"

lemmas example_task_defs = example_started_def example_comm_def new_task_def get_task_def queue_tasks_def put_task_def zero_sock_def

lemma example_comm_wf: "comm_wf (example_comm op)"
  by (simp add: comm_wf_def example_comm_def queue_ok_def)

lemma example_start:
  "start_request c_divup 0 1 (example_comm op) = (ncclSuccess, example_started op (new_task op 10 1 0))"
  by (simp add: start_request_def put_request_def example_comm_def example_request_def Let_def c_divup_def split_loop.simps
      MIN_CHUNKSIZE_def ncclNetSocketGetTask_def ensure_queue_def get_task_def queue_tasks_def put_task_def zero_task_def
      example_started_def new_task_def zero_request_def)
 
lemma example_requests: "nc_requests (example_comm op) = [example_request op]"
  by (simp add: example_comm_def)

theorem request_is_tiled_witness:
  "\<exists>c1. start_request c_divup 0 1 (example_comm NCCL_SOCKET_SEND) = (ncclSuccess, c1) \<and>
     slices c1 [(0, 0)] NCCL_SOCKET_SEND 10 1 65536 0 1"
  using request_is_tiled [OF example_start example_comm_wf c_divup_covers, of NCCL_SOCKET_SEND]
  by (intro exI [of _ "example_started NCCL_SOCKET_SEND (new_task NCCL_SOCKET_SEND 10 1 0)"])
    (simp add: example_start Let_def example_requests example_request_def, simp add: example_started_def example_comm_def c_divup_def MIN_CHUNKSIZE_def)

lemma example_places: "place (example_started op t) (0, 0)" "get_task (example_started op t) (0, 0) = t"
  by (simp_all add: place_def example_task_defs)

theorem test_reports_completion_witness:
  "\<exists>c1. ncclNetSocketTest c_divup (Some 0) (example_started NCCL_SOCKET_SEND ((new_task NCCL_SOCKET_SEND 10 1 0)\<lparr>tk_offset := 1\<rparr>))
      (\<lambda>_. 0) (example_net [] []) = Some (ncclSuccess, True, Some 1, c1, (\<lambda>_. 0), example_net [] []) \<and>
     tk_used (get_task c1 (0, 0)) = 0"
proof -
  define c where "c = example_started NCCL_SOCKET_SEND ((new_task NCCL_SOCKET_SEND 10 1 0)\<lparr>tk_offset := 1\<rparr>)"
  have c: "rq_used (nc_requests c ! 0) = 2" "0 < rq_nSubs (nc_requests c ! 0)" "0 < length (nc_requests c)"
    "[(0, 0)] = take (rq_nSubs (nc_requests c ! 0)) (rq_tasks (nc_requests c ! 0))" "rq_size (nc_requests c ! 0) = 1"
    by (simp_all add: c_def example_started_def example_comm_def example_request_def zero_request_def)
  have p: "\<forall>p \<in> set [(0, 0)]. place c p" by (simp add: c_def example_places)
  have d: "task_done (get_task c (0, 0))" by (simp add: c_def example_places task_done_def new_task_def)
  show ?thesis
    using test_reports_completion [OF c(1-4) p, of c_divup "\<lambda>_. 0" "example_net [] []"] d unfolding c_def [symmetric]
    by (auto simp: c(5))
qed

theorem announced_size_witness:
  "(\<exists>c1 k1. ncclNetSocketTest c_divup (Some 0) (example_comm NCCL_SOCKET_RECV) (\<lambda>_. 0) (example_net [2, 0, 0, 0] [Moves 4])
      = Some (ncclInvalidUsage, False, None, c1, (\<lambda>_. 0), k1)) \<and>
   (\<exists>c1 k1. ncclNetSocketTest c_divup (Some 0) (example_comm NCCL_SOCKET_RECV) (\<lambda>_. 0) (example_net [255, 255, 255, 255] [Moves 4])
      = Some (ncclSuccess, False, None, c1, (\<lambda>_. 0), k1))"
proof -
  have c: "sk_answers (ends (example_net bs [Moves 4]) 3) = Moves 4 # []" "(4::nat) \<le> 4"
    "sk_in (ends (example_net bs [Moves 4]) 3) = bs @ []" "3 = sock_fd (nc_ctrlSock (example_comm NCCL_SOCKET_RECV))"
    "\<not> sock_abortFlag (nc_ctrlSock (example_comm NCCL_SOCKET_RECV))"
    "sock_state (nc_ctrlSock (example_comm NCCL_SOCKET_RECV)) = ncclSocketStateReady" for bs
    by (simp_all add: example_net_def example_comm_def zero_sock_def)
  have r: "0 < length (nc_requests (example_comm NCCL_SOCKET_RECV))" "rq_used (nc_requests (example_comm NCCL_SOCKET_RECV) ! 0) = 1"
    "rq_op (nc_requests (example_comm NCCL_SOCKET_RECV) ! 0) = NCCL_SOCKET_RECV" "rq_size (nc_requests (example_comm NCCL_SOCKET_RECV) ! 0) = 1"
    by (simp_all add: example_comm_def example_request_def)
  have v: "c_int [2, 0, 0, 0] = 2" "c_int [255, 255, 255, 255] = - 1" by (simp_all add: c_int_def)
  show ?thesis
    using announced_size [OF c(1-3) _ c(4-6) r(1-3) refl, of "[2, 0, 0, 0]" c_divup "\<lambda>_. 0"]
      announced_size [OF c(1-3) _ c(4-6) r(1-3) refl, of "[255, 255, 255, 255]" c_divup "\<lambda>_. 0"]
    by (auto simp: r(4) v)
qed

end
