(* ===== verification/Striping.thy ===== *)
theory Striping
  imports NetTasks "HOL-Library.Sublist"
begin

text \<open>
  A request striped over the data sockets of \<^verbatim>\<open>nccl_internal_impl/net_socket.cc\<close>, end to end. The helper
  threads of the two sides work on the tasks in any order, the network delivers what was sent on each
  socket in order and when it likes, and the kernels answer as they like. When the receiver's test
  reports the request complete, its memory holds the sender's bytes. Last, the order in which a thread
  serves its queue.
\<close>

section \<open>One side\<close>

text \<open>One call of \<open>ncclSocketProgress\<close> on an active task, and any number of them.\<close>

type_synonym side = "ncclNetSocketComm \<times> (nat \<Rightarrow> u8) \<times> Net"

inductive work :: "side \<Rightarrow> side \<Rightarrow> bool" where
  "place c p \<Longrightarrow> task_active (get_task c p) \<Longrightarrow> work (c, m, k) (work_task p c m k)"

inductive_cases workE: "work (c, m, k) y"

definition slice_size :: "nat \<Rightarrow> nat \<Rightarrow> nat \<Rightarrow> nat" where
  "slice_size ts sz t = min ts (sz - t * ts)"

text \<open>The tasks of a request while they are worked on: \<open>off t\<close> bytes of task \<open>t\<close> have been moved, and no other
  task of the connection is active.\<close>

definition underway ::
  "ncclNetSocketComm \<Rightarrow> (nat \<times> nat) list \<Rightarrow> sock_op \<Rightarrow> nat \<Rightarrow> nat \<Rightarrow> nat \<Rightarrow> nat \<Rightarrow> (nat \<Rightarrow> nat) \<Rightarrow> bool" where
  "underway c ps op data ts sz s0 off \<longleftrightarrow> distinct ps \<and>
     (\<forall>t < length ps. place c (ps ! t) \<and> off t \<le> slice_size ts sz t \<and>
        (\<exists>r. get_task c (ps ! t) = (new_task op (data + t * ts) (slice_size ts sz t) ((s0 + t) mod nc_nSocks c))
               \<lparr>tk_offset := off t, tk_result := r\<rparr>)) \<and>
     (\<forall>q. place c q \<longrightarrow> q \<notin> set ps \<longrightarrow> \<not> task_active (get_task c q))"

lemma mem_write_bytes_put:
  assumes "off + length bs \<le> n"
  shows "mem_write a (bytes_put off bs (mem_read m a n)) m = mem_write (a + off) bs m"
  using assms by (intro ext) (auto simp: mem_write_def nth_bytes_put intro!: arg_cong [where f = "(!) bs"])

lemma bytes_at_mem_read: "off + l \<le> n \<Longrightarrow> bytes_at off l (mem_read m a n) = mem_read m (a + off) l"
  by (rule nth_equalityI) (auto simp: nth_bytes_at ac_simps)

lemma work_underway:
  assumes "work (c, m, k) (c1, m1, k1)" "underway c ps op data ts sz s0 off"
  obtains t bs where "t < length ps" "off t + length bs \<le> slice_size ts sz t"
    "underway c1 ps op data ts sz s0 (off(t := off t + length bs))" "same_links c c1" "nc_requests c1 = nc_requests c"
    "shifted op (sock_fd (nc_socks c ! ((s0 + t) mod nc_nSocks c))) bs k k1"
    "op = NCCL_SOCKET_SEND \<Longrightarrow> m1 = m \<and> mem_read m (data + t * ts + off t) (length bs) = bs"
    "op = NCCL_SOCKET_RECV \<Longrightarrow> m1 = mem_write (data + t * ts + off t) bs m"
proof -
  obtain p where p: "place c p" "task_active (get_task c p)" "work_task p c m k = (c1, m1, k1)"
    using assms(1) by (auto elim!: workE)
  then have "p \<in> set ps" using assms(2) unfolding underway_def by blast
  then obtain t where t: "t < length ps" "p = ps ! t" by (auto simp: in_set_conv_nth)
  let ?n = "slice_size ts sz t" and ?s = "nc_socks c ! ((s0 + t) mod nc_nSocks c)"
  let ?t0 = "new_task op (data + t * ts) ?n ((s0 + t) mod nc_nSocks c)"
  obtain r0 where r0: "off t \<le> ?n" "get_task c p = ?t0\<lparr>tk_offset := off t, tk_result := r0\<rparr>"
    using assms(2) t unfolding underway_def by blast
  obtain r d o1 k2 where pr: "socketProgress op ?s (mem_read m (data + t * ts) ?n) ?n (off t) k = (r, d, o1, k2)"
    by (metis prod_cases4)
  obtain bs where bs: "o1 = off t + length bs" "o1 \<le> ?n" "shifted op (sock_fd ?s) bs k k2"
    "moves_bytes op (mem_read m (data + t * ts) ?n) (off t) bs d"
    using socketProgress_moves [OF pr r0(1)] by auto
  have res: "c1 = put_task p (?t0\<lparr>tk_offset := o1, tk_result := r\<rparr>) c" "m1 = mem_write (data + t * ts) d m" "k1 = k2"
    using p(3) pr r0(2) by (auto simp: work_task_def ncclSocketProgress_def new_task_def)
  show thesis
  proof (rule that [OF t(1), of bs])
    show "underway c1 ps op data ts sz s0 (off(t := off t + length bs))"
      unfolding underway_def
    proof (intro conjI allI impI)
      show "distinct ps" using assms(2) by (simp add: underway_def)
      fix u assume u: "u < length ps"
      have "ps ! u = p \<longleftrightarrow> u = t" using assms(2) u t by (auto simp: underway_def nth_eq_iff_index_eq)
      then show "place c1 (ps ! u)" "(off(t := off t + length bs)) u \<le> slice_size ts sz u"
        "\<exists>r. get_task c1 (ps ! u) = (new_task op (data + u * ts) (slice_size ts sz u) ((s0 + u) mod nc_nSocks c1))
            \<lparr>tk_offset := (off(t := off t + length bs)) u, tk_result := r\<rparr>"
        using assms(2) u p(1) bs by (auto simp: underway_def res get_task_put)
    next
      fix q assume "place c1 q" "q \<notin> set ps"
      then show "\<not> task_active (get_task c1 q)"
        using assms(2) p(1) t by (auto simp: underway_def res get_task_put simp del: split_paired_All)
    qed
  qed (use bs res p(1) in \<open>auto simp: same_links_def moves_bytes_def mem_write_bytes_put mem_write_read_back
         bytes_at_mem_read\<close>)
qed

section \<open>Two sides and the network\<close>

text \<open>The two ends of a connection, and for each data socket what the network has delivered on it since the
  request was cut.\<close>

record Pair =
  p_sender :: side
  p_receiver :: side
  p_arrived :: "nat \<Rightarrow> u8 list"

definition data_fd :: "ncclNetSocketComm \<Rightarrow> nat \<Rightarrow> int" where
  "data_fd c j = sock_fd (nc_socks c ! j)"

text \<open>A step is the work of a helper thread of either side on a task, the delivery of further bytes that were
  sent on a socket (\<open>pre j\<close> is what had been sent on it before), or anything else the kernels and the other
  threads do that leaves the streams of the data sockets alone.\<close>

inductive stripe_step :: "(nat \<Rightarrow> u8 list) \<Rightarrow> Pair \<Rightarrow> Pair \<Rightarrow> bool" for pre where
  sender: "work (p_sender x) y \<Longrightarrow> stripe_step pre x (x\<lparr>p_sender := y\<rparr>)"
| receiver: "work (p_receiver x) y \<Longrightarrow> stripe_step pre x (x\<lparr>p_receiver := y\<rparr>)"
| deliver: "p_sender x = (cs, ms, ks) \<Longrightarrow> p_receiver x = (cr, mr, kr) \<Longrightarrow> j < nc_nSocks cr \<Longrightarrow>
    prefix (pre j @ p_arrived x j @ bs) (sk_out (ends ks (data_fd cs j))) \<Longrightarrow>
    stripe_step pre x (x\<lparr>p_receiver := (cr, mr, kr\<lparr>ends := (ends kr)(data_fd cr j := (ends kr (data_fd cr j))
        \<lparr>sk_in := sk_in (ends kr (data_fd cr j)) @ bs\<rparr>)\<rparr>),
      p_arrived := (p_arrived x)(j := p_arrived x j @ bs)\<rparr>)"
| sender_else: "p_sender x = (cs, ms, ks) \<Longrightarrow>
    \<forall>j < nc_nSocks cs. sk_out (ends k (data_fd cs j)) = sk_out (ends ks (data_fd cs j)) \<Longrightarrow>
    stripe_step pre x (x\<lparr>p_sender := (cs, ms, k)\<rparr>)"
| receiver_else: "p_receiver x = (cr, mr, kr) \<Longrightarrow>
    \<forall>j < nc_nSocks cr. sk_in (ends k (data_fd cr j)) = sk_in (ends kr (data_fd cr j)) \<Longrightarrow>
    stripe_step pre x (x\<lparr>p_receiver := (cr, mr, k)\<rparr>)"

definition fds_apart :: "ncclNetSocketComm \<Rightarrow> bool" where
  "fds_apart c \<longleftrightarrow> inj_on (data_fd c) {..<nc_nSocks c}"

text \<open>What holds while the request is on its way. On the socket of task \<open>t\<close> the sender has put the first
  \<open>so t\<close> bytes of slice \<open>t\<close>; of what arrived the receiver has stored \<open>ro t\<close> bytes at their place, the rest is
  still to be read.\<close>

definition striping ::
  "(nat \<Rightarrow> u8 list) \<Rightarrow> (nat \<times> nat) list \<Rightarrow> (nat \<times> nat) list \<Rightarrow> nat \<Rightarrow> nat \<Rightarrow> nat \<Rightarrow> nat \<Rightarrow> nat \<Rightarrow> nat \<Rightarrow>
   (nat \<Rightarrow> u8) \<Rightarrow> Pair \<Rightarrow> bool" where
  "striping pre ps qs src dst ts sz s0 n ms0 x \<longleftrightarrow>
     (\<exists>cs ks cr mr kr so ro. p_sender x = (cs, ms0, ks) \<and> p_receiver x = (cr, mr, kr) \<and>
        underway cs ps NCCL_SOCKET_SEND src ts sz s0 so \<and> underway cr qs NCCL_SOCKET_RECV dst ts sz s0 ro \<and>
        nc_nSocks cs = n \<and> nc_nSocks cr = n \<and> fds_apart cs \<and> fds_apart cr \<and>
        (\<forall>t < length ps. sk_out (ends ks (data_fd cs ((s0 + t) mod n))) =
           pre ((s0 + t) mod n) @ mem_read ms0 (src + t * ts) (so t)) \<and>
        (\<forall>t < length ps. p_arrived x ((s0 + t) mod n) =
           mem_read mr (dst + t * ts) (ro t) @ sk_in (ends kr (data_fd cr ((s0 + t) mod n)))) \<and>
        (\<forall>t < length ps. prefix (pre ((s0 + t) mod n) @ p_arrived x ((s0 + t) mod n))
           (sk_out (ends ks (data_fd cs ((s0 + t) mod n))))))"

lemma stripingE:
  assumes "striping pre ps qs src dst ts sz s0 n ms0 x"
  obtains cs ks cr mr kr so ro where "p_sender x = (cs, ms0, ks)" "p_receiver x = (cr, mr, kr)"
    "underway cs ps NCCL_SOCKET_SEND src ts sz s0 so" "underway cr qs NCCL_SOCKET_RECV dst ts sz s0 ro"
    "nc_nSocks cs = n" "nc_nSocks cr = n" "fds_apart cs" "fds_apart cr"
    "\<forall>t < length ps. sk_out (ends ks (data_fd cs ((s0 + t) mod n))) = pre ((s0 + t) mod n) @ mem_read ms0 (src + t * ts) (so t)"
    "\<forall>t < length ps. p_arrived x ((s0 + t) mod n) =
       mem_read mr (dst + t * ts) (ro t) @ sk_in (ends kr (data_fd cr ((s0 + t) mod n)))"
    "\<forall>t < length ps. prefix (pre ((s0 + t) mod n) @ p_arrived x ((s0 + t) mod n)) (sk_out (ends ks (data_fd cs ((s0 + t) mod n))))"
  using assms unfolding striping_def by blast

lemma data_fd_same: "same_links c c1 \<Longrightarrow> data_fd c1 j = data_fd c j"
  by (simp add: data_fd_def same_links_def)

lemma fds_apart_same: "same_links c c1 \<Longrightarrow> fds_apart c1 = fds_apart c"
  by (simp add: fds_apart_def data_fd_def inj_on_def same_links_def)

lemma ring_fd:
  assumes "fds_apart c" "length ps \<le> nc_nSocks c" "t < length ps" "u < length ps" "n = nc_nSocks c"
  shows "data_fd c ((s0 + t) mod n) = data_fd c ((s0 + u) mod n) \<longleftrightarrow> t = u"
    "(s0 + t) mod n = (s0 + u) mod n \<longleftrightarrow> t = u"
proof -
  have "t < n" "u < n" using assms(2-5) by auto
  then show eq: "(s0 + t) mod n = (s0 + u) mod n \<longleftrightarrow> t = u" using ring_inj [of s0 t n u] by blast
  have "(s0 + t) mod n \<in> {..<nc_nSocks c}" "(s0 + u) mod n \<in> {..<nc_nSocks c}" using \<open>t < n\<close> assms(5) by simp_all
  then show "data_fd c ((s0 + t) mod n) = data_fd c ((s0 + u) mod n) \<longleftrightarrow> t = u"
    using inj_on_eq_iff [OF assms(1) [unfolded fds_apart_def]] eq by blast
qed

lemma mem_read_append: "mem_read m a (x + y) = mem_read m a x @ mem_read m (a + x) y"
  using upt_add_eq_append [of a "a + x" y] by (simp add: mem_read_def add.assoc)

lemma slices_apart:
  assumes "t \<noteq> u" "x \<le> slice_size ts sz t" "y \<le> slice_size ts sz u"
  shows "t * ts + x \<le> u * ts \<or> u * ts + y \<le> t * ts"
proof -
  have "t * ts + ts \<le> u * ts \<or> u * ts + ts \<le> t * ts"
    using assms(1) mult_le_mono1 [of "Suc t" u ts] mult_le_mono1 [of "Suc u" t ts] by (cases "t < u") auto
  moreover have "x \<le> ts" "y \<le> ts" using assms(2,3) by (simp_all add: slice_size_def)
  ultimately show ?thesis by linarith
qed

lemma underway_bound: "underway c ps op data ts sz s0 off \<Longrightarrow> t < length ps \<Longrightarrow> off t \<le> slice_size ts sz t"
  by (simp add: underway_def)

text \<open>Each kind of step keeps the invariant.\<close>

lemma striping_sender:
  assumes "striping pre ps qs src dst ts sz s0 n ms0 x" "work (p_sender x) y" "length qs = length ps" "length ps \<le> n"
  shows "striping pre ps qs src dst ts sz s0 n ms0 (x\<lparr>p_sender := y\<rparr>)"
proof -
  obtain cs ks cr mr kr so ro where i: "p_sender x = (cs, ms0, ks)" "p_receiver x = (cr, mr, kr)"
    "underway cs ps NCCL_SOCKET_SEND src ts sz s0 so" "underway cr qs NCCL_SOCKET_RECV dst ts sz s0 ro"
    "nc_nSocks cs = n" "nc_nSocks cr = n" "fds_apart cs" "fds_apart cr"
    "\<forall>t < length ps. sk_out (ends ks (data_fd cs ((s0 + t) mod n))) = pre ((s0 + t) mod n) @ mem_read ms0 (src + t * ts) (so t)"
    "\<forall>t < length ps. p_arrived x ((s0 + t) mod n) =
       mem_read mr (dst + t * ts) (ro t) @ sk_in (ends kr (data_fd cr ((s0 + t) mod n)))"
    "\<forall>t < length ps. prefix (pre ((s0 + t) mod n) @ p_arrived x ((s0 + t) mod n)) (sk_out (ends ks (data_fd cs ((s0 + t) mod n))))"
    using stripingE [OF assms(1)] .
  obtain c1 m1 k1 where y: "y = (c1, m1, k1)" by (metis prod_cases3)
  obtain t bs where t: "t < length ps" "so t + length bs \<le> slice_size ts sz t"
    "underway c1 ps NCCL_SOCKET_SEND src ts sz s0 (so(t := so t + length bs))" "same_links cs c1"
    "shifted NCCL_SOCKET_SEND (data_fd cs ((s0 + t) mod n)) bs ks k1" "m1 = ms0"
    "mem_read ms0 (src + t * ts + so t) (length bs) = bs"
    using work_underway [OF assms(2) [unfolded i(1) y] i(3)] i(5) by (metis data_fd_def)
  have sk: "nc_nSocks c1 = n" "data_fd c1 j = data_fd cs j" for j
    using t(4) i(5) data_fd_same by (auto simp: same_links_def)
  have out: "sk_out (ends k1 (data_fd cs ((s0 + u) mod n))) = sk_out (ends ks (data_fd cs ((s0 + u) mod n))) @ (if u = t then bs else [])"
    if "u < length ps" for u
  proof (cases "u = t")
    case True
    then show ?thesis using shifted_send [OF t(5)] by simp
  next
    case False
    then show ?thesis using shifted_ends(1) [OF t(5)] ring_fd(1) [OF i(7) _ that t(1)] assms(4) i(5) by simp
  qed
  show ?thesis unfolding striping_def
  proof (intro exI conjI allI impI)
    show "p_sender (x\<lparr>p_sender := y\<rparr>) = (c1, ms0, k1)" "p_receiver (x\<lparr>p_sender := y\<rparr>) = (cr, mr, kr)"
      using i(2) y t(6) by simp_all
    show "underway c1 ps NCCL_SOCKET_SEND src ts sz s0 (so(t := so t + length bs))"
      "underway cr qs NCCL_SOCKET_RECV dst ts sz s0 ro" "nc_nSocks c1 = n" "nc_nSocks cr = n" "fds_apart cr" "fds_apart c1"
      using t(3,4) i fds_apart_same sk by blast+
    fix u assume u: "u < length ps"
    show "sk_out (ends k1 (data_fd c1 ((s0 + u) mod n))) = pre ((s0 + u) mod n) @ mem_read ms0 (src + u * ts) ((so(t := so t + length bs)) u)"
      using out [OF u] i(9) u t(7) by (auto simp: sk mem_read_append)
    show "p_arrived (x\<lparr>p_sender := y\<rparr>) ((s0 + u) mod n) =
       mem_read mr (dst + u * ts) (ro u) @ sk_in (ends kr (data_fd cr ((s0 + u) mod n)))"
      using i(10) u by simp
    show "prefix (pre ((s0 + u) mod n) @ p_arrived (x\<lparr>p_sender := y\<rparr>) ((s0 + u) mod n)) (sk_out (ends k1 (data_fd c1 ((s0 + u) mod n))))"
      using i(11) u out [OF u] by (simp add: sk)
  qed
qed

lemma striping_receiver:
  assumes "striping pre ps qs src dst ts sz s0 n ms0 x" "work (p_receiver x) y" "length qs = length ps" "length ps \<le> n"
  shows "striping pre ps qs src dst ts sz s0 n ms0 (x\<lparr>p_receiver := y\<rparr>)"
proof -
  obtain cs ks cr mr kr so ro where i: "p_sender x = (cs, ms0, ks)" "p_receiver x = (cr, mr, kr)"
    "underway cs ps NCCL_SOCKET_SEND src ts sz s0 so" "underway cr qs NCCL_SOCKET_RECV dst ts sz s0 ro"
    "nc_nSocks cs = n" "nc_nSocks cr = n" "fds_apart cs" "fds_apart cr"
    "\<forall>t < length ps. sk_out (ends ks (data_fd cs ((s0 + t) mod n))) = pre ((s0 + t) mod n) @ mem_read ms0 (src + t * ts) (so t)"
    "\<forall>t < length ps. p_arrived x ((s0 + t) mod n) =
       mem_read mr (dst + t * ts) (ro t) @ sk_in (ends kr (data_fd cr ((s0 + t) mod n)))"
    "\<forall>t < length ps. prefix (pre ((s0 + t) mod n) @ p_arrived x ((s0 + t) mod n)) (sk_out (ends ks (data_fd cs ((s0 + t) mod n))))"
    using stripingE [OF assms(1)] .
  obtain c1 m1 k1 where y: "y = (c1, m1, k1)" by (metis prod_cases3)
  obtain t bs where t: "t < length ps" "ro t + length bs \<le> slice_size ts sz t"
    "underway c1 qs NCCL_SOCKET_RECV dst ts sz s0 (ro(t := ro t + length bs))" "same_links cr c1"
    "shifted NCCL_SOCKET_RECV (data_fd cr ((s0 + t) mod n)) bs kr k1"
    "m1 = mem_write (dst + t * ts + ro t) bs mr"
    using work_underway [OF assms(2) [unfolded i(2) y] i(4)] i(6) assms(3) by (metis data_fd_def)
  have sk: "nc_nSocks c1 = n" "data_fd c1 j = data_fd cr j" for j
    using t(4) i(6) data_fd_same by (auto simp: same_links_def)
  have inn: "sk_in (ends kr (data_fd cr ((s0 + u) mod n))) = (if u = t then bs else []) @ sk_in (ends k1 (data_fd cr ((s0 + u) mod n)))"
    if "u < length ps" for u
  proof (cases "u = t")
    case True
    then show ?thesis using shifted_recv [OF t(5)] by simp
  next
    case False
    then show ?thesis using shifted_ends(1) [OF t(5)] ring_fd(1) [OF i(8) _ that t(1)] assms(4) i(6) by simp
  qed
  have mem: "mem_read m1 (dst + u * ts) ((ro(t := ro t + length bs)) u) = mem_read mr (dst + u * ts) (ro u) @ (if u = t then bs else [])"
    if u: "u < length ps" for u
  proof (cases "u = t")
    case True
    then show ?thesis by (simp add: t(6) mem_read_append mem_read_write_same mem_read_write_disjoint)
  next
    case False
    have "u * ts + ro u \<le> t * ts \<or> t * ts + (ro t + length bs) \<le> u * ts"
      using slices_apart [OF False underway_bound [OF i(4)] t(2)] u assms(3) by simp
    then show ?thesis using False by (simp add: t(6), intro mem_read_write_disjoint) linarith
  qed
  show ?thesis unfolding striping_def
  proof (intro exI conjI allI impI)
    show "p_sender (x\<lparr>p_receiver := y\<rparr>) = (cs, ms0, ks)" "p_receiver (x\<lparr>p_receiver := y\<rparr>) = (c1, m1, k1)"
      using i(1) y by simp_all
    show "underway cs ps NCCL_SOCKET_SEND src ts sz s0 so" "nc_nSocks cs = n" "nc_nSocks c1 = n" "fds_apart cs" "fds_apart c1"
      "underway c1 qs NCCL_SOCKET_RECV dst ts sz s0 (ro(t := ro t + length bs))"
      using t(3,4) i fds_apart_same sk by blast+
    fix u assume u: "u < length ps"
    show "sk_out (ends ks (data_fd cs ((s0 + u) mod n))) = pre ((s0 + u) mod n) @ mem_read ms0 (src + u * ts) (so u)"
      using i(9) u by blast
    show "p_arrived (x\<lparr>p_receiver := y\<rparr>) ((s0 + u) mod n) =
       mem_read m1 (dst + u * ts) ((ro(t := ro t + length bs)) u) @ sk_in (ends k1 (data_fd c1 ((s0 + u) mod n)))"
      using i(10) u inn [OF u] mem [OF u] by (simp add: sk)
    show "prefix (pre ((s0 + u) mod n) @ p_arrived (x\<lparr>p_receiver := y\<rparr>) ((s0 + u) mod n)) (sk_out (ends ks (data_fd cs ((s0 + u) mod n))))"
      using i(11) u by simp
  qed
qed

lemma striping_deliver:
  assumes "striping pre ps qs src dst ts sz s0 n ms0 x" "length qs = length ps" "length ps \<le> n"
    "p_sender x = (cs, ms, ks)" "p_receiver x = (cr, mr, kr)" "j < nc_nSocks cr"
    "prefix (pre j @ p_arrived x j @ bs) (sk_out (ends ks (data_fd cs j)))"
  shows "striping pre ps qs src dst ts sz s0 n ms0
    (x\<lparr>p_receiver := (cr, mr, kr\<lparr>ends := (ends kr)(data_fd cr j := (ends kr (data_fd cr j))
        \<lparr>sk_in := sk_in (ends kr (data_fd cr j)) @ bs\<rparr>)\<rparr>),
      p_arrived := (p_arrived x)(j := p_arrived x j @ bs)\<rparr>)"
proof -
  let ?k = "kr\<lparr>ends := (ends kr)(data_fd cr j := (ends kr (data_fd cr j))\<lparr>sk_in := sk_in (ends kr (data_fd cr j)) @ bs\<rparr>)\<rparr>"
  obtain so ro where i: "ms = ms0"
    "underway cs ps NCCL_SOCKET_SEND src ts sz s0 so" "underway cr qs NCCL_SOCKET_RECV dst ts sz s0 ro"
    "nc_nSocks cs = n" "nc_nSocks cr = n" "fds_apart cs" "fds_apart cr"
    "\<forall>t < length ps. sk_out (ends ks (data_fd cs ((s0 + t) mod n))) = pre ((s0 + t) mod n) @ mem_read ms0 (src + t * ts) (so t)"
    "\<forall>t < length ps. p_arrived x ((s0 + t) mod n) =
       mem_read mr (dst + t * ts) (ro t) @ sk_in (ends kr (data_fd cr ((s0 + t) mod n)))"
    "\<forall>t < length ps. prefix (pre ((s0 + t) mod n) @ p_arrived x ((s0 + t) mod n)) (sk_out (ends ks (data_fd cs ((s0 + t) mod n))))"
    using assms(1,4,5) unfolding striping_def by auto
  have fd: "data_fd cr l = data_fd cr j \<longleftrightarrow> l = j" if "l < n" for l
    using inj_on_eq_iff [OF i(7) [unfolded fds_apart_def]] that assms(6) i(5) by simp
  have inn: "sk_in (ends ?k (data_fd cr l)) = sk_in (ends kr (data_fd cr l)) @ (if l = j then bs else [])" if "l < n" for l
    using fd [OF that] by auto
  let ?a = "(p_arrived x)(j := p_arrived x j @ bs)"
  let ?y = "x\<lparr>p_receiver := (cr, mr, ?k), p_arrived := ?a\<rparr>"
  show ?thesis unfolding striping_def
  proof (intro exI conjI allI impI)
    fix u assume u: "u < length ps"
    then have "(s0 + u) mod n < n" using assms(3) by simp
    note inn = inn [OF this]
    show "p_arrived ?y ((s0 + u) mod n) =
       mem_read mr (dst + u * ts) (ro u) @ sk_in (ends ?k (data_fd cr ((s0 + u) mod n)))"
      unfolding inn using i(9) u by auto
    show "prefix (pre ((s0 + u) mod n) @ p_arrived ?y ((s0 + u) mod n))
       (sk_out (ends ks (data_fd cs ((s0 + u) mod n))))"
      using i(10) u assms(7) by auto
    show "sk_out (ends ks (data_fd cs ((s0 + u) mod n))) = pre ((s0 + u) mod n) @ mem_read ms0 (src + u * ts) (so u)"
      using i(8) u by blast
  qed (use assms(4) i in simp_all)
qed

lemma striping_step:
  assumes "stripe_step pre x y" "striping pre ps qs src dst ts sz s0 n ms0 x" "length qs = length ps" "length ps \<le> n"
  shows "striping pre ps qs src dst ts sz s0 n ms0 y"
  using assms(1)
proof cases
  case (sender y)
  then show ?thesis using striping_sender assms by blast
next
  case (receiver y)
  then show ?thesis using striping_receiver assms by blast
next
  case (deliver cs ms ks cr mr kr j bs)
  then show ?thesis using striping_deliver [OF assms(2-4)] by blast
next
  case (sender_else cs ms ks k)
  then show ?thesis using assms(2,4) unfolding striping_def by fastforce
next
  case (receiver_else cr mr kr k)
  then show ?thesis using assms(2,4) unfolding striping_def by fastforce
qed

lemma striping_steps:
  assumes "(stripe_step pre)\<^sup>*\<^sup>* x y" "striping pre ps qs src dst ts sz s0 n ms0 x" "length qs = length ps" "length ps \<le> n"
  shows "striping pre ps qs src dst ts sz s0 n ms0 y"
  using assms(1,2) by (induction rule: rtranclp_induct) (blast intro: striping_step [OF _ _ assms(3,4)])+

lemma stripe_step_requests:
  assumes "stripe_step pre x y"
  shows "nc_requests (fst (p_receiver y)) = nc_requests (fst (p_receiver x))"
  using assms
proof cases
  case (receiver y)
  then show ?thesis by (auto simp: work_task_def Let_def split_beta elim!: work.cases)
qed auto

lemma stripe_steps_requests:
  "(stripe_step pre)\<^sup>*\<^sup>* x y \<Longrightarrow> nc_requests (fst (p_receiver y)) = nc_requests (fst (p_receiver x))"
  by (induction rule: rtranclp_induct) (auto dest: stripe_step_requests)

section \<open>A request arrives\<close>

definition idle :: "ncclNetSocketComm \<Rightarrow> bool" where
  "idle c \<longleftrightarrow> (\<forall>q. place c q \<longrightarrow> \<not> task_active (get_task c q))"

definition chunk_size :: "(int \<Rightarrow> int \<Rightarrow> int) \<Rightarrow> int \<Rightarrow> ncclNetSocketComm \<Rightarrow> nat" where
  "chunk_size divup sz c = nat (max MIN_CHUNKSIZE (divup sz (int (nc_nSocks c))))"

lemma started:
  assumes "start_request divup i sz c = (ncclSuccess, c1)" "comm_wf c" "divup_covers divup" "i < length (nc_requests c)"
    "0 \<le> sz" "idle c"
  obtains ps where "underway c1 ps (rq_op (nc_requests c ! i)) (rq_data (nc_requests c ! i)) (chunk_size divup sz c) (nat sz)
      (nc_nextSock c) (\<lambda>_. 0)" "same_links c c1" "length (nc_requests c1) = length (nc_requests c)"
    "nc_requests c1 ! i = (nc_requests c ! i)\<lparr>rq_size := sz, rq_offset := 0, rq_used := 2, rq_tasks := ps, rq_nSubs := length ps\<rparr>"
    "length ps \<le> nc_nSocks c" "nat sz \<le> length ps * chunk_size divup sz c"
    "\<forall>t < length ps. t * chunk_size divup sz c < nat sz" "0 < chunk_size divup sz c"
proof -
  let ?ts = "chunk_size divup sz c" and ?r = "nc_requests c ! i"
  let ?r2 = "?r\<lparr>rq_size := sz, rq_offset := 0, rq_used := 2\<rparr>"
  obtain ps c2 where c1: "c1 = put_request i (?r2\<lparr>rq_tasks := ps, rq_nSubs := length ps\<rparr>) c2"
    and p: "posts (put_request i ?r2 c) ps c2"
    and sl: "slices c2 ps (rq_op ?r) (rq_data ?r) (nat sz) ?ts (nc_nextSock c) (nc_nSocks c)"
    using start_request_posts [OF assms(1-5)] unfolding chunk_size_def .
  have links: "same_links c c2" using p by (simp add: posts_def same_links_def)
  have all: "(place c2 q \<longrightarrow> place c q \<and> get_task c2 q = get_task c q \<or> get_task c2 q = zero_task)" if "q \<notin> set ps" for q
    using p that unfolding posts_def get_task_update by blast
  have req: "nc_requests c2 = (nc_requests c)[i := ?r2]" using p by (simp add: posts_def) (simp add: put_request_def)
  show thesis
  proof (rule that [of ps])
    show "underway c1 ps (rq_op ?r) (rq_data ?r) ?ts (nat sz) (nc_nextSock c) (\<lambda>_. 0)"
      unfolding underway_def
    proof (intro conjI allI impI)
      show "distinct ps" using sl by (simp add: slices_def)
      fix t assume t: "t < length ps"
      show "place c1 (ps ! t)" "0 \<le> slice_size ?ts (nat sz) t" using sl t by (simp_all add: c1 slices_def)
      show "\<exists>r. get_task c1 (ps ! t) = (new_task (rq_op ?r) (rq_data ?r + t * ?ts) (slice_size ?ts (nat sz) t)
          ((nc_nextSock c + t) mod nc_nSocks c1))\<lparr>tk_offset := 0, tk_result := r\<rparr>"
        using sl t links by (intro exI [of _ ncclSuccess]) (simp add: c1 slices_def slice_size_def new_task_def same_links_def)
    next
      fix q assume "place c1 q" "q \<notin> set ps"
      then have "place c q \<and> get_task c1 q = get_task c q \<or> get_task c1 q = zero_task"
        using all by (simp add: c1)
      then show "\<not> task_active (get_task c1 q)"
        using assms(6) by (auto simp: idle_def task_active_def zero_task_def simp del: split_paired_All)
    qed
    show "same_links c c1" using links by (simp add: c1 same_links_def)
    show "length (nc_requests c1) = length (nc_requests c)"
      "nc_requests c1 ! i = ?r2\<lparr>rq_tasks := ps, rq_nSubs := length ps\<rparr>"
      using req assms(4) by (simp_all add: c1 put_request_def)
  qed (use sl in \<open>simp_all add: slices_def\<close>)
qed

lemma same_number:
  assumes "sz \<le> a * ts" "\<forall>t < a. t * ts < sz" "sz \<le> b * ts" "\<forall>t < b. t * ts < sz"
  shows "a = (b :: nat)"
  using assms by (metis leD le_less_trans linorder_neqE_nat)

text \<open>The slices put together.\<close>

lemma slices_cover:
  assumes "0 < ts" "sz \<le> n * ts"
    "\<And>t. t < n \<Longrightarrow> mem_read m (dst + t * ts) (slice_size ts sz t) = mem_read m' (src + t * ts) (slice_size ts sz t)"
  shows "mem_read m dst sz = mem_read m' src sz"
proof (rule nth_equalityI)
  fix x assume "x < length (mem_read m dst sz)"
  then have x: "x < sz" by simp
  let ?t = "x div ts" and ?o = "x mod ts"
  have eq: "x = ?t * ts + ?o" by simp
  have t: "?t < n" using x assms(1,2) by (simp add: div_less_iff_less_mult)
  have o: "?o < slice_size ts sz ?t" using x assms(1) eq by (simp add: slice_size_def less_diff_conv add.commute)
  have "mem_read m (dst + ?t * ts) (slice_size ts sz ?t) ! ?o = mem_read m' (src + ?t * ts) (slice_size ts sz ?t) ! ?o"
    using assms(3) [OF t] by simp
  then have "m (dst + x) = m' (src + x)" using o eq by (simp add: add.assoc)
  then show "mem_read m dst sz ! x = mem_read m' src sz ! x" using x by simp
qed simp

lemma striping_done:
  assumes "striping pre ps qs src dst ts sz s0 n ms0 x" "p_receiver x = (cr, mr, kr)" "length qs = length ps"
    "\<forall>q \<in> set qs. tk_offset (get_task cr q) = tk_size (get_task cr q)" "0 < ts" "sz \<le> length ps * ts"
  shows "mem_read mr dst sz = mem_read ms0 src sz"
proof (rule slices_cover [OF assms(5,6)])
  fix t assume t: "t < length ps"
  obtain cs ks cr1 mr1 kr1 so ro where i: "p_sender x = (cs, ms0, ks)" "p_receiver x = (cr1, mr1, kr1)"
    "underway cs ps NCCL_SOCKET_SEND src ts sz s0 so" "underway cr1 qs NCCL_SOCKET_RECV dst ts sz s0 ro"
    "nc_nSocks cs = n" "nc_nSocks cr1 = n" "fds_apart cs" "fds_apart cr1"
    "\<forall>t < length ps. sk_out (ends ks (data_fd cs ((s0 + t) mod n))) = pre ((s0 + t) mod n) @ mem_read ms0 (src + t * ts) (so t)"
    "\<forall>t < length ps. p_arrived x ((s0 + t) mod n) =
       mem_read mr1 (dst + t * ts) (ro t) @ sk_in (ends kr1 (data_fd cr1 ((s0 + t) mod n)))"
    "\<forall>t < length ps. prefix (pre ((s0 + t) mod n) @ p_arrived x ((s0 + t) mod n)) (sk_out (ends ks (data_fd cs ((s0 + t) mod n))))"
    using stripingE [OF assms(1)] .
  have same: "cr1 = cr" "mr1 = mr" "kr1 = kr" using i(2) assms(2) by simp_all
  note i = i(3,4,9-11) [unfolded same]
  obtain r where g: "get_task cr (qs ! t) = (new_task NCCL_SOCKET_RECV (dst + t * ts) (slice_size ts sz t) ((s0 + t) mod nc_nSocks cr))
      \<lparr>tk_offset := ro t, tk_result := r\<rparr>" using i(2) t assms(3) unfolding underway_def by metis
  have ro: "ro t = slice_size ts sz t" using assms(3,4) t g by (auto simp: new_task_def dest!: bspec [of _ _ "qs ! t"])
  have "prefix (mem_read mr (dst + t * ts) (ro t)) (mem_read ms0 (src + t * ts) (so t))"
    using i(3-5) t by (auto simp: prefix_def)
  then obtain zs where zs: "mem_read ms0 (src + t * ts) (so t) = mem_read mr (dst + t * ts) (ro t) @ zs"
    by (auto simp: prefix_def)
  then have "so t = ro t + length zs" by (metis length_append length_mem_read)
  then have "zs = []" "so t = ro t" using underway_bound [OF i(1) t] ro by simp_all
  then show "mem_read mr (dst + t * ts) (slice_size ts sz t) = mem_read ms0 (src + t * ts) (slice_size ts sz t)"
    using ro zs by simp
qed

text \<open>C13. A request of \<open>n\<close> bytes that is alone on its connection, every task of both sides being free when it is
  posted (\<open>idle\<close>; with several requests in flight the threads can swap the bytes of two of them, see
  \<open>newer_task_is_sent_first\<close>), and that both sides have cut over the same number of data sockets, beginning at the same
  one: whatever the order in which the helper threads of the two sides work and the network delivers,
  when \<open>ncclNetSocketTest\<close> tells the receiver that its request is complete, it gives the size \<open>n\<close> and the
  receiver's buffer holds the \<open>n\<close> bytes of the sender's buffer.\<close>

theorem striped_request_arrives:
  assumes send: "start_request divup i n cs = (ncclSuccess, cs1)" "comm_wf cs" "idle cs" "fds_apart cs"
      "i < length (nc_requests cs)" "rq_op (nc_requests cs ! i) = NCCL_SOCKET_SEND"
    and recv: "start_request divup j n cr = (ncclSuccess, cr1)" "comm_wf cr" "idle cr" "fds_apart cr"
      "j < length (nc_requests cr)" "rq_op (nc_requests cr ! j) = NCCL_SOCKET_RECV"
    and both: "divup_covers divup" "0 < n" "nc_nSocks cr = nc_nSocks cs" "nc_nextSock cr = nc_nextSock cs"
      "\<forall>l < nc_nSocks cs. sk_out (ends ks (data_fd cs l)) = pre l \<and> sk_in (ends kr (data_fd cr l)) = []"
    and run: "(stripe_step pre)\<^sup>*\<^sup>* \<lparr>p_sender = (cs1, ms, ks), p_receiver = (cr1, mr, kr), p_arrived = (\<lambda>_. [])\<rparr> x"
      "p_receiver x = (c2, m2, k2)"
      "ncclNetSocketTest divup (Some j) c2 m2 k2 = Some (r, True, sz, c3, m3, k3)"
  shows "r = ncclSuccess \<and> sz = Some n \<and>
    mem_read m3 (rq_data (nc_requests cr ! j)) (nat n) = mem_read ms (rq_data (nc_requests cs ! i)) (nat n)"
proof -
  let ?src = "rq_data (nc_requests cs ! i)" and ?dst = "rq_data (nc_requests cr ! j)"
  let ?ts = "chunk_size divup n cs" and ?s0 = "nc_nextSock cs" and ?n = "nc_nSocks cs"
  let ?x = "\<lparr>p_sender = (cs1, ms, ks), p_receiver = (cr1, mr, kr), p_arrived = (\<lambda>_. [])\<rparr>"
  have ts: "chunk_size divup n cr = ?ts" using both(3) by (simp add: chunk_size_def)
  obtain ps where s: "underway cs1 ps NCCL_SOCKET_SEND ?src ?ts (nat n) ?s0 (\<lambda>_. 0)" "same_links cs cs1"
    "length ps \<le> ?n" "nat n \<le> length ps * ?ts" "\<forall>t < length ps. t * ?ts < nat n" "0 < ?ts"
    using started [OF send(1,2) both(1) send(5) _ send(3)] both(2) send(6) by auto
  obtain qs where q: "underway cr1 qs NCCL_SOCKET_RECV ?dst ?ts (nat n) ?s0 (\<lambda>_. 0)" "same_links cr cr1"
    "length (nc_requests cr1) = length (nc_requests cr)"
    "nc_requests cr1 ! j = (nc_requests cr ! j)\<lparr>rq_size := n, rq_offset := 0, rq_used := 2, rq_tasks := qs, rq_nSubs := length qs\<rparr>"
    "nat n \<le> length qs * ?ts" "\<forall>t < length qs. t * ?ts < nat n"
    using started [OF recv(1,2) both(1) recv(5) _ recv(3)] both(2,4) recv(6) ts by auto
  have len: "length qs = length ps" using same_number [OF q(5,6) s(4,5)] .
  have start: "striping pre ps qs ?src ?dst ?ts (nat n) ?s0 ?n ms ?x"
    unfolding striping_def
  proof (intro exI conjI allI impI)
    fix t assume "t < length ps"
    then have "(?s0 + t) mod ?n < ?n" using s(3) by simp
    then show "sk_out (ends ks (data_fd cs1 ((?s0 + t) mod ?n))) = pre ((?s0 + t) mod ?n) @ mem_read ms (?src + t * ?ts) 0"
      "p_arrived ?x ((?s0 + t) mod ?n) = mem_read mr (?dst + t * ?ts) 0 @ sk_in (ends kr (data_fd cr1 ((?s0 + t) mod ?n)))"
      "prefix (pre ((?s0 + t) mod ?n) @ p_arrived ?x ((?s0 + t) mod ?n)) (sk_out (ends ks (data_fd cs1 ((?s0 + t) mod ?n))))"
      using both(5) data_fd_same [OF s(2)] data_fd_same [OF q(2)] by (simp_all add: mem_read_def)
  qed (use s(1,2) q(1,2) both(3) send(4) recv(4) fds_apart_same [OF s(2)] fds_apart_same [OF q(2)] in
        \<open>simp_all add: same_links_def\<close>)
  note inv = striping_steps [OF run(1) start len s(3)]
  have req: "nc_requests c2 = nc_requests cr1" using stripe_steps_requests [OF run(1)] run(2) by simp
  have "underway c2 qs NCCL_SOCKET_RECV ?dst ?ts (nat n) ?s0 ro \<Longrightarrow> \<forall>q \<in> set qs. place c2 q" for ro
    unfolding underway_def by (metis in_set_conv_nth)
  then have places: "\<forall>q \<in> set qs. place c2 q" using stripingE [OF inv] run(2) by (metis prod.inject)
  have "0 < length qs" using q(5) both(2) by (cases qs) auto
  then have pre: "rq_used (nc_requests c2 ! j) = 2" "0 < rq_nSubs (nc_requests c2 ! j)" "j < length (nc_requests c2)"
    "qs = take (rq_nSubs (nc_requests c2 ! j)) (rq_tasks (nc_requests c2 ! j))" "rq_size (nc_requests c2 ! j) = n"
    using recv(5) by (simp_all only: req q(3,4)) simp_all
  have t: "(\<forall>p \<in> set qs. task_done (get_task c2 p)) \<and> r = ncclSuccess \<and> sz = Some n \<and> m3 = m2"
    using test_reports_completion [OF pre(1-4) places, of divup m2 k2] unfolding run(3) pre(5) by auto
  then have "mem_read m2 ?dst (nat n) = mem_read ms ?src (nat n)"
    using striping_done [OF inv run(2) len _ s(6,4)] by (simp add: task_done_def)
  then show ?thesis using t by simp
qed

section \<open>The rounds of a helper thread\<close>

text \<open>Work on tasks leaves the queues their shape.\<close>

definition same_shape :: "ncclNetSocketComm \<Rightarrow> ncclNetSocketComm \<Rightarrow> bool" where
  "same_shape c c1 \<longleftrightarrow> length (nc_queues c1) = length (nc_queues c) \<and>
     (\<forall>i. length (queue_tasks c1 i) = length (queue_tasks c i))"

lemma same_shape_place: "same_shape c c1 \<Longrightarrow> place c1 q = place c q"
  by (simp add: same_shape_def place_def)

lemma work_task_shape: "place c p \<Longrightarrow> work_task p c m k = (c1, m1, k1) \<Longrightarrow> same_shape c c1"
  by (auto simp: same_shape_def work_task_def Let_def queue_tasks_put split: prod.splits)

lemma group_pass_works:
  assumes "group_pass tid js idl rep c m k = (alive, idl1, rep1, c1, m1, k1)" "\<forall>j \<in> set js. place c (tid, j)"
  shows "work\<^sup>*\<^sup>* (c, m, k) (c1, m1, k1) \<and> same_shape c c1"
  using assms
proof (induction tid js idl rep c m k rule: group_pass.induct)
  case (1 tid idl rep c m k)
  then show ?case by (simp add: same_shape_def)
next
  case (2 tid j js idl rep c m k)
  show ?case
  proof (cases "task_active (get_task c (tid, j))")
    case False
    then show ?thesis using "2.IH"(2) "2.prems" by simp
  next
    case True
    obtain c2 m2 k2 where w: "work_task (tid, j) c m k = (c2, m2, k2)" by (metis prod_cases3)
    have pl: "place c (tid, j)" using "2.prems"(2) by simp
    have "work (c, m, k) (c2, m2, k2)" using work.intros [OF pl True, of m k] w by simp
    moreover note p = work_task_shape [OF pl w]
    ultimately have one: "work\<^sup>*\<^sup>* (c, m, k) (c2, m2, k2)" by blast
    show ?thesis
    proof (cases "tk_result (get_task c2 (tid, j)) = ncclSuccess")
      case False
      then show ?thesis using "2.prems"(1) True w p one by (auto simp: Let_def)
    next
      case ok: True
      have "work\<^sup>*\<^sup>* (c2, m2, k2) (c1, m1, k1) \<and> same_shape c2 c1"
        using "2.IH"(1) [OF True w [symmetric] refl refl] ok "2.prems" True w same_shape_place [OF p] by (simp add: Let_def)
      then show ?thesis using one p by (auto simp: same_shape_def intro: rtranclp_trans)
    qed
  qed
qed

definition rounds :: "side \<Rightarrow> bool \<times> bool \<times> side \<Rightarrow> bool" where
  "rounds x y \<longleftrightarrow> work\<^sup>*\<^sup>* x (snd (snd y)) \<and> same_shape (fst x) (fst (snd (snd y)))"

lemma rounds_trans: "rounds x (a, b, y) \<Longrightarrow> rounds y z \<Longrightarrow> rounds x z"
  unfolding rounds_def by (auto simp: same_shape_def intro: rtranclp_trans)

lemma group_loop_works:
  assumes "group_loop tid js idl c m k = Some y"
  shows "(\<forall>j \<in> set js. place c (tid, j)) \<longrightarrow> rounds (c, m, k) y"
proof (rule group_loop.raw_induct [where P = "\<lambda>tid js idl c m k y. (\<forall>j \<in> set js. place c (tid, j)) \<longrightarrow> rounds (c, m, k) y",
      OF _ assms], rule impI)
  fix L tid js idl c m k y
  assume IH: "\<And>tid js idl c m k y. L tid js idl c m k = Some y \<Longrightarrow> (\<forall>j \<in> set js. place c (tid, j)) \<longrightarrow> rounds (c, m, k) y"
    and step: "(let (alive, idle1, rep, c1, m1, k1) = group_pass tid js idl False c m k
      in if alive \<and> rep then L tid js idle1 c1 m1 k1 else Some (alive, idle1, c1, m1, k1)) = Some y"
    and pl: "\<forall>j \<in> set js. place c (tid, j)"
  obtain alive idl1 rep c1 m1 k1 where g: "group_pass tid js idl False c m k = (alive, idl1, rep, c1, m1, k1)"
    by (metis prod_cases6)
  have one: "rounds (c, m, k) (alive, idl1, c1, m1, k1)" using group_pass_works [OF g pl] by (simp add: rounds_def)
  then have pl1: "\<forall>j \<in> set js. place c1 (tid, j)" using pl same_shape_place [of c c1] by (simp add: rounds_def)
  show "rounds (c, m, k) y"
  proof (cases "alive \<and> rep")
    case True
    then have "L tid js idl1 c1 m1 k1 = Some y" using step g by simp
    from IH [OF this] pl1 show ?thesis using rounds_trans [OF one] by blast
  next
    case False
    then show ?thesis using step g one by auto
  qed
qed

lemma queue_loop_works:
  assumes "queue_loop tid s i idl c m k = Some y"
  shows "tid < length (nc_queues c) \<and> s dvd length (queue_tasks c tid) \<and> s dvd i \<longrightarrow> rounds (c, m, k) y"
proof (rule queue_loop.raw_induct [where P = "\<lambda>tid s i idl c m k y. tid < length (nc_queues c) \<and>
      s dvd length (queue_tasks c tid) \<and> s dvd i \<longrightarrow> rounds (c, m, k) y", OF _ assms], rule impI, elim conjE)
  fix L tid s i idl c m k y
  assume IH: "\<And>tid s i idl c m k y. L tid s i idl c m k = Some y \<Longrightarrow> tid < length (nc_queues c) \<and>
      s dvd length (queue_tasks c tid) \<and> s dvd i \<longrightarrow> rounds (c, m, k) y"
    and step: "(if i < length (queue_tasks c tid)
      then (case group_loop tid [i..<i + s] idl c m k of
              None \<Rightarrow> None
            | Some (alive, idle1, c1, m1, k1) \<Rightarrow>
                if \<not> alive then Some (False, idle1, c1, m1, k1)
                else L tid s (i + s) idle1 c1 m1 k1)
      else Some (True, idl, c, m, k)) = Some y"
    and h: "tid < length (nc_queues c)" "s dvd length (queue_tasks c tid)" "s dvd i"
  show "rounds (c, m, k) y"
  proof (cases "i < length (queue_tasks c tid)")
    case False
    then show ?thesis using step by (auto simp: rounds_def same_shape_def)
  next
    case True
    then obtain alive idl1 c1 m1 k1 where g: "group_loop tid [i..<i + s] idl c m k = Some (alive, idl1, c1, m1, k1)"
      using step by (cases "group_loop tid [i..<i + s] idl c m k") auto
    have "i + s \<le> length (queue_tasks c tid)"
    proof -
      obtain a b where ab: "length (queue_tasks c tid) = s * a" "i = s * b" using h(2,3) by (elim dvdE)
      then have "b < a" using True by simp
      then have "s * Suc b \<le> s * a" by (intro mult_le_mono2) simp
      then show ?thesis using ab by simp
    qed
    then have "\<forall>j \<in> set [i..<i + s]. place c (tid, j)" using h(1) by (auto simp: place_def)
    then have one: "rounds (c, m, k) (alive, idl1, c1, m1, k1)" using group_loop_works [OF g] by blast
    have len: "length (nc_queues c1) = length (nc_queues c)" "length (queue_tasks c1 tid) = length (queue_tasks c tid)"
      using one by (simp_all add: rounds_def same_shape_def)
    show ?thesis
    proof (cases alive)
      case True
      then have "L tid s (i + s) idl1 c1 m1 k1 = Some y" using step g \<open>i < length (queue_tasks c tid)\<close> by simp
      from IH [OF this] h len have "rounds (c1, m1, k1) y" by simp
      then show ?thesis using rounds_trans [OF one] by blast
    next
      case False
      then show ?thesis using step g one \<open>i < length (queue_tasks c tid)\<close> by auto
    qed
  qed
qed

text \<open>A round of a helper thread does nothing else than such work, on the queue of a thread whose length is a
  multiple of the number of sockets the thread serves.\<close>

lemma thread_round_works:
  assumes "thread_round tid c m k = Some (alive, idl, c1, m1, k1)" "tid < length (nc_queues c)"
    "(nc_nSocks c div nc_nThreads c) dvd length (queue_tasks c tid)"
  shows "work\<^sup>*\<^sup>* (c, m, k) (c1, m1, k1)"
proof -
  obtain al where "queue_loop tid (nc_nSocks c div nc_nThreads c) 0 True c m k = Some (al, idl, c1, m1, k1)"
    using assms(1) by (auto simp: thread_round_def split: option.splits)
  from queue_loop_works [OF this] show ?thesis using assms(2,3) by (simp add: rounds_def)
qed

lemma sender_works: "work\<^sup>*\<^sup>* (p_sender x) y \<Longrightarrow> (stripe_step pre)\<^sup>*\<^sup>* x (x\<lparr>p_sender := y\<rparr>)"
  by (induction rule: rtranclp_induct) (simp, metis (no_types, lifting) Pair.select_convs(1) Pair.surjective
      Pair.update_convs(1) rtranclp.rtrancl_into_rtrancl stripe_step.sender)

lemma receiver_works: "work\<^sup>*\<^sup>* (p_receiver x) y \<Longrightarrow> (stripe_step pre)\<^sup>*\<^sup>* x (x\<lparr>p_receiver := y\<rparr>)"
  by (induction rule: rtranclp_induct) (simp, metis (no_types, lifting) Pair.select_convs(2) Pair.surjective
      Pair.update_convs(2) rtranclp.rtrancl_into_rtrancl stripe_step.receiver)

section \<open>The order of a queue\<close>

lemma task_all_fields:
  "t\<lparr>tk_op := op, tk_data := data, tk_size := sz, tk_sock := j, tk_offset := 0, tk_result := ncclSuccess, tk_used := 1\<rparr>
     = new_task op data sz j"
  by (cases t) (simp add: new_task_def)

lemma GetTask_place:
  assumes "tid = nc_nextSock c mod nc_nThreads c" "tid < length (nc_queues c)" "tq_tasks (nc_queues c ! tid) = Some ts"
    "tq_next (nc_queues c ! tid) < length ts" "tk_used (ts ! tq_next (nc_queues c ! tid)) = 0"
  shows "\<exists>c1. ncclNetSocketGetTask divup c op data sz = (ncclSuccess, Some (tid, tq_next (nc_queues c ! tid)), c1) \<and>
     tq_tasks (nc_queues c1 ! tid) = Some (ts[tq_next (nc_queues c ! tid) := new_task op data sz (nc_nextSock c)]) \<and>
     tq_next (nc_queues c1 ! tid) = (tq_next (nc_queues c ! tid) + 1) mod length ts \<and>
     nc_nextSock c1 = (nc_nextSock c + 1) mod nc_nSocks c \<and> same_links c c1"
  using assms
  by (simp add: ncclNetSocketGetTask_def ensure_queue_def Let_def get_task_def queue_tasks_def put_task_def
      same_links_def task_all_fields [unfolded One_nat_def])

lemma send_all:
  assumes "sk_answers (ends k (sock_fd s)) = Moves x # as" "length d = n" "0 < n" "n \<le> x" "\<not> sock_abortFlag s"
  shows "ncclSocketProgress NCCL_SOCKET_SEND (Some s) d n 0 k = (ncclSuccess, d, n,
     k\<lparr>ends := (ends k)(sock_fd s := (ends k (sock_fd s))\<lparr>sk_answers := as, sk_out := sk_out (ends k (sock_fd s)) @ d\<rparr>)\<rparr>)"
  using assms
  by (simp add: ncclSocketProgress_def socketProgress_def socketProgressOpt.simps socket_call_def net_send_def
      Let_def abort_read_def bytes_at_def min_def)

lemma queue_loop_inactive:
  assumes "i \<le> e" "e \<le> length (queue_tasks c tid)" "\<forall>j. i \<le> j \<and> j < e \<longrightarrow> \<not> task_active (get_task c (tid, j))"
  shows "queue_loop tid 1 i idl c m k = queue_loop tid 1 e idl c m k"
  using assms
proof (induction i rule: inc_induct)
  case (step i)
  have "\<not> task_active (get_task c (tid, i))" "i < length (queue_tasks c tid)" using step.prems step.hyps by auto
  then have "queue_loop tid 1 i idl c m k = queue_loop tid 1 (Suc i) idl c m k"
    by (subst queue_loop.simps) (simp add: group_loop.simps)
  then show ?case using step by simp
qed simp

lemma queue_loop_sends:
  assumes "get_task c (tid, i) = new_task NCCL_SOCKET_SEND a n j" "0 < n" "place c (tid, i)"
    "sk_answers (ends k (data_fd c j)) = Moves x # as" "n \<le> x" "\<not> sock_abortFlag (nc_socks c ! j)"
  shows "\<exists>c1 k1. queue_loop tid 1 i idl c m k = queue_loop tid 1 (i + 1) False c1 m k1 \<and> same_links c c1 \<and> same_shape c c1 \<and>
     (\<forall>q. q \<noteq> (tid, i) \<longrightarrow> get_task c1 q = get_task c q) \<and>
     sk_answers (ends k1 (data_fd c j)) = as \<and> sk_out (ends k1 (data_fd c j)) = sk_out (ends k (data_fd c j)) @ mem_read m a n"
proof -
  let ?t = "(new_task NCCL_SOCKET_SEND a n j)\<lparr>tk_result := ncclSuccess, tk_offset := n\<rparr>"
  let ?c = "put_task (tid, i) ?t c"
  let ?f = "data_fd c j"
  let ?k = "k\<lparr>ends := (ends k)(?f := (ends k ?f)\<lparr>sk_answers := as, sk_out := sk_out (ends k ?f) @ mem_read m a n\<rparr>)\<rparr>"
  have w: "work_task (tid, i) c m k = (?c, m, ?k)"
    using send_all [of k "nc_socks c ! j" x as "mem_read m a n" n] assms
    by (simp add: work_task_def Let_def data_fd_def new_task_def mem_write_read_back)
  have i: "i < length (queue_tasks c tid)" "task_active (get_task c (tid, i))"
    using assms(1-3) by (simp_all add: place_def task_active_def new_task_def)
  have "queue_loop tid 1 i idl c m k = queue_loop tid 1 (i + 1) False ?c m ?k"
    using i by (subst queue_loop.simps) (simp add: group_loop.simps w get_task_put [OF assms(3)] new_task_def)
  moreover have "same_shape c ?c" using work_task_shape [OF assms(3) w] .
  moreover have "same_links c ?c" by (simp add: same_links_def)
  ultimately show ?thesis
    by (intro exI [of _ ?c] exI [of _ ?k]) (simp add: get_task_put [OF assms(3)])
qed

text \<open>C29. A helper thread looks through its queue from the beginning, not from its oldest task. On a connection
  with one data socket, when the last place of the queue and then, after the wrap, the first one have been filled
  before the thread looks, the bytes of the newer request go out before those of the older.\<close>

theorem newer_task_is_sent_first:
  assumes "nc_nSocks c = 1" "nc_nThreads c = 1" "nc_nextSock c = 0" "0 < length (nc_queues c)"
    "nc_queues c ! 0 = \<lparr>tq_next = L, tq_tasks = Some ts\<rparr>" "length ts = L + 1" "0 < L" "\<forall>t \<in> set ts. tk_used t = 0"
    "ncclNetSocketGetTask divup c NCCL_SOCKET_SEND a n = (r1, p1, c1)"
    "ncclNetSocketGetTask divup c1 NCCL_SOCKET_SEND b l = (r2, p2, c2)"
    "0 < n" "0 < l" "\<not> sock_abortFlag (nc_socks c ! 0)" "fd = data_fd c 0"
    "sk_answers (ends k fd) = Moves x # Moves y # as" "l \<le> x" "n \<le> y"
  shows "r1 = ncclSuccess \<and> r2 = ncclSuccess \<and> (\<exists>c3 k1 alive. thread_round 0 c2 m k = Some (alive, False, c3, m, k1) \<and>
    sk_out (ends k1 fd) = sk_out (ends k fd) @ mem_read m b l @ mem_read m a n)"
proof -
  have ts: "tk_used (ts ! L) = 0" "tk_used (ts ! 0) = 0" using assms(6,8) by simp_all
  have g1: "r1 = ncclSuccess" "tq_tasks (nc_queues c1 ! 0) = Some (ts[L := new_task NCCL_SOCKET_SEND a n 0])"
    "tq_next (nc_queues c1 ! 0) = 0" "nc_nextSock c1 = 0" "same_links c c1"
    using GetTask_place [of 0 c ts divup NCCL_SOCKET_SEND a n] assms(1-6,9) ts by auto
  let ?ts = "(ts[L := new_task NCCL_SOCKET_SEND a n 0])[0 := new_task NCCL_SOCKET_SEND b l 0]"
  have links1: "nc_nSocks c1 = 1" "nc_nThreads c1 = 1" "length (nc_queues c1) = length (nc_queues c)"
    using g1(5) assms(1,2) by (simp_all add: same_links_def)
  have g2: "r2 = ncclSuccess" "tq_tasks (nc_queues c2 ! 0) = Some ?ts" "same_links c1 c2"
    using GetTask_place [of 0 c1 "ts[L := new_task NCCL_SOCKET_SEND a n 0]" divup NCCL_SOCKET_SEND b l] links1 g1(2-4)
      assms(4,6,7,10) ts by auto
  have links: "nc_nSocks c2 = 1" "nc_nThreads c2 = 1" "length (nc_queues c2) = length (nc_queues c)" "data_fd c2 0 = fd"
    "\<not> sock_abortFlag (nc_socks c2 ! 0)"
    using g1(5) g2(3) assms(1,2,13,14) by (simp_all add: same_links_def data_fd_def)
  have tasks: "get_task c2 (0, 0) = new_task NCCL_SOCKET_SEND b l 0" "get_task c2 (0, L) = new_task NCCL_SOCKET_SEND a n 0"
    "\<forall>j. 0 < j \<and> j < L \<longrightarrow> tk_used (get_task c2 (0, j)) = 0" "length (queue_tasks c2 0) = L + 1"
    using g2(2) assms(6-8) by (auto simp: get_task_def queue_tasks_def nth_list_update)
  have pl: "place c2 (0, 0)" "place c2 (0, L)" using tasks(4) links(3) assms(4) by (simp_all add: place_def)
  obtain c3 k3 where q3: "queue_loop 0 1 0 True c2 m k = queue_loop 0 1 1 False c3 m k3" "same_links c2 c3" "same_shape c2 c3"
    "\<forall>q. q \<noteq> (0, 0) \<longrightarrow> get_task c3 q = get_task c2 q" "sk_answers (ends k3 fd) = Moves y # as"
    "sk_out (ends k3 fd) = sk_out (ends k fd) @ mem_read m b l"
    using queue_loop_sends [OF tasks(1) assms(12) pl(1), of k x "Moves y # as" True m] links assms(15,16) by auto
  have "queue_loop 0 1 1 False c3 m k3 = queue_loop 0 1 L False c3 m k3"
    using q3(3,4) tasks(3,4) assms(7) by (intro queue_loop_inactive) (auto simp: same_shape_def task_active_def)
  moreover obtain c4 k4 where q4: "queue_loop 0 1 L False c3 m k3 = queue_loop 0 1 (L + 1) False c4 m k4" "same_shape c3 c4"
    "sk_out (ends k4 fd) = sk_out (ends k3 fd) @ mem_read m a n"
    using queue_loop_sends [of c3 0 L a n 0 k3 y as False m] q3 tasks(2) pl(2) links assms(7,11,17)
      same_shape_place [OF q3(3)] by (auto simp: data_fd_same same_links_def data_fd_def)
  moreover have "queue_loop 0 1 (L + 1) False c4 m k4 = Some (True, False, c4, m, k4)"
    using q3(3) q4(2) tasks(4) by (subst queue_loop.simps) (simp add: same_shape_def)
  ultimately have "queue_loop 0 1 0 True c2 m k = Some (True, False, c4, m, k4)" using q3(1) by simp
  then show ?thesis using g1(1) g2(1) q4(3) q3(6) links(1,2) by (simp add: thread_round_def)
qed

section \<open>Examples\<close>

lemma example_idle: "idle (example_comm op)"
  by (auto simp: idle_def place_def example_comm_def queue_tasks_def get_task_def task_active_def zero_task_def)

lemma example_apart: "fds_apart (example_comm op)"
  by (simp add: fds_apart_def example_comm_def inj_on_def)


definition sent_net :: "u8 \<Rightarrow> Net" where
  "sent_net b = (example_net [] [Moves 1])\<lparr>ends := (ends (example_net [] [Moves 1]))(4 := \<lparr>sk_answers = [], sk_out = [b], sk_in = []\<rparr>)\<rparr>"

definition delivered_net :: "u8 \<Rightarrow> Net" where
  "delivered_net b = (example_net [] [Moves 1])\<lparr>ends := (ends (example_net [] [Moves 1]))(4 := \<lparr>sk_answers = [Moves 1], sk_out = [], sk_in = [b]\<rparr>)\<rparr>"

lemma example_sends:
  "work_task (0, 0) (example_started NCCL_SOCKET_SEND (new_task NCCL_SOCKET_SEND 10 1 0)) m (example_net [] [Moves 1]) =
     (example_started NCCL_SOCKET_SEND ((new_task NCCL_SOCKET_SEND 10 1 0)\<lparr>tk_offset := 1\<rparr>), m, sent_net (m 10))"
  using send_all [of "example_net [] [Moves 1]" "zero_sock\<lparr>sock_fd := 4\<rparr>" 1 "[]" "mem_read m 10 1" 1]
  by (simp add: work_task_def Let_def example_task_defs mem_write_read_back) (simp add: example_net_def sent_net_def mem_read_def,
      auto simp: mem_write_def fun_eq_iff intro!: arg_cong [where f = m])

lemma example_receives:
  "work_task (0, 0) (example_started NCCL_SOCKET_RECV (new_task NCCL_SOCKET_RECV 10 1 0)) m (delivered_net b) =
     (example_started NCCL_SOCKET_RECV ((new_task NCCL_SOCKET_RECV 10 1 0)\<lparr>tk_offset := 1\<rparr>), m(10 := b),
      (example_net [] [Moves 1])\<lparr>ends := (ends (example_net [] [Moves 1]))(4 := \<lparr>sk_answers = [], sk_out = [], sk_in = []\<rparr>)\<rparr>)"
  by (simp add: work_task_def Let_def example_task_defs ncclSocketProgress_def socketProgress_def socketProgressOpt.simps
      socket_call_def net_recv_def delivered_net_def abort_read_def bytes_put_def mem_write_def mem_read_def fun_eq_iff)

lemma example_run:
  "(stripe_step (\<lambda>_. []))\<^sup>*\<^sup>*
     \<lparr>p_sender = (example_started NCCL_SOCKET_SEND (new_task NCCL_SOCKET_SEND 10 1 0), ms, example_net [] [Moves 1]),
      p_receiver = (example_started NCCL_SOCKET_RECV (new_task NCCL_SOCKET_RECV 10 1 0), mr, example_net [] [Moves 1]),
      p_arrived = (\<lambda>_. [])\<rparr>
     \<lparr>p_sender = (example_started NCCL_SOCKET_SEND ((new_task NCCL_SOCKET_SEND 10 1 0)\<lparr>tk_offset := 1\<rparr>), ms, sent_net (ms 10)),
      p_receiver = (example_started NCCL_SOCKET_RECV ((new_task NCCL_SOCKET_RECV 10 1 0)\<lparr>tk_offset := 1\<rparr>), mr(10 := ms 10),
        (example_net [] [Moves 1])\<lparr>ends := (ends (example_net [] [Moves 1]))(4 := \<lparr>sk_answers = [], sk_out = [], sk_in = []\<rparr>)\<rparr>),
      p_arrived = (\<lambda>_. [])(0 := [ms 10])\<rparr>"
proof -
  let ?S = "example_started NCCL_SOCKET_SEND" and ?R = "example_started NCCL_SOCKET_RECV"
  let ?s = "new_task NCCL_SOCKET_SEND 10 1 0" and ?r = "new_task NCCL_SOCKET_RECV 10 1 0"
  let ?x0 = "\<lparr>p_sender = (?S ?s, ms, example_net [] [Moves 1]), p_receiver = (?R ?r, mr, example_net [] [Moves 1]), p_arrived = (\<lambda>_. [])\<rparr>"
  let ?x1 = "?x0\<lparr>p_sender := (?S (?s\<lparr>tk_offset := 1\<rparr>), ms, sent_net (ms 10))\<rparr>"
  let ?x2 = "?x1\<lparr>p_receiver := (?R ?r, mr, delivered_net (ms 10)), p_arrived := (\<lambda>_. [])(0 := [ms 10])\<rparr>"
  have "work (p_sender ?x0) (work_task (0, 0) (?S ?s) ms (example_net [] [Moves 1]))"
    using work.intros [OF example_places(1), of NCCL_SOCKET_SEND ?s ms "example_net [] [Moves 1]"]
    by (simp add: example_places task_active_def new_task_def)
  then have "stripe_step (\<lambda>_. []) ?x0 ?x1" unfolding example_sends by (rule stripe_step.sender)
  moreover have "stripe_step (\<lambda>_. []) ?x1 ?x2"
    using stripe_step.deliver [of ?x1 "?S (?s\<lparr>tk_offset := 1\<rparr>)" ms "sent_net (ms 10)" "?R ?r" mr "example_net [] [Moves 1]" 0 "\<lambda>_. []" "[ms 10]"]
    by (simp add: sent_net_def data_fd_def example_task_defs) (simp add: delivered_net_def example_net_def)
  moreover have "work (p_receiver ?x2) (work_task (0, 0) (?R ?r) mr (delivered_net (ms 10)))"
    using work.intros [OF example_places(1), of NCCL_SOCKET_RECV ?r mr "delivered_net (ms 10)"]
    by (simp add: example_places task_active_def new_task_def)
  then have "stripe_step (\<lambda>_. []) ?x2 (?x2\<lparr>p_receiver := work_task (0, 0) (?R ?r) mr (delivered_net (ms 10))\<rparr>)"
    by (rule stripe_step.receiver)
  ultimately show ?thesis unfolding example_receives by (auto intro: rtranclp_trans simp: rtranclp.rtrancl_into_rtrancl)
qed


theorem striped_request_arrives_witness:
  "\<exists>m3 k3 c3. (\<exists>x c2 m2 k2. (stripe_step (\<lambda>_. []))\<^sup>*\<^sup>*
        \<lparr>p_sender = (example_started NCCL_SOCKET_SEND (new_task NCCL_SOCKET_SEND 10 1 0), (\<lambda>_. 7), example_net [] [Moves 1]),
         p_receiver = (example_started NCCL_SOCKET_RECV (new_task NCCL_SOCKET_RECV 10 1 0), (\<lambda>_. 0), example_net [] [Moves 1]),
         p_arrived = (\<lambda>_. [])\<rparr> x \<and> p_receiver x = (c2, m2, k2) \<and>
        ncclNetSocketTest c_divup (Some 0) c2 m2 k2 = Some (ncclSuccess, True, Some 1, c3, m3, k3)) \<and>
     mem_read m3 10 1 = [7 :: u8]"
proof -
  let ?c = "example_started NCCL_SOCKET_RECV ((new_task NCCL_SOCKET_RECV 10 1 0)\<lparr>tk_offset := 1\<rparr>)"
  let ?m = "(\<lambda>_. 0 :: u8)(10 := 7)"
  let ?k = "(example_net [] [Moves 1])\<lparr>ends := (ends (example_net [] [Moves 1]))(4 := \<lparr>sk_answers = [], sk_out = [], sk_in = []\<rparr>)\<rparr>"
  obtain c3 where t: "ncclNetSocketTest c_divup (Some 0) ?c ?m ?k = Some (ncclSuccess, True, Some 1, c3, ?m, ?k)"
    by (simp add: ncclNetSocketTest_def test_subs_def Let_def example_task_defs example_request_def zero_request_def)
  note run = example_run [of "\<lambda>_. 7" "\<lambda>_. 0"]
  have "ncclSuccess = ncclSuccess \<and> Some 1 = Some (1 :: int) \<and>
     mem_read ?m (rq_data (nc_requests (example_comm NCCL_SOCKET_RECV) ! 0)) (nat 1) =
       mem_read (\<lambda>_. 7) (rq_data (nc_requests (example_comm NCCL_SOCKET_SEND) ! 0)) (nat 1)"
    by (rule striped_request_arrives [OF example_start example_comm_wf example_idle example_apart _ _
          example_start example_comm_wf example_idle example_apart _ _ c_divup_covers _ _ _ _ run _ t])
      (simp_all add: example_requests example_request_def example_net_def example_comm_def)
  then show ?thesis using run t by (force simp: example_requests example_request_def mem_read_def)
qed

theorem newer_task_is_sent_first_witness:
  "\<exists>c2 c3 k1 alive. thread_round 0 c2 (\<lambda>a. of_nat a) (example_net [] [Moves 5, Moves 5]) = Some (alive, False, c3, (\<lambda>a. of_nat a), k1) \<and>
     sk_out (ends k1 4) = [20, 21, 10 :: u8]"
proof -
  let ?c = "(example_comm NCCL_SOCKET_SEND)\<lparr>nc_queues := [\<lparr>tq_next = 1, tq_tasks = Some [zero_task, zero_task]\<rparr>]\<rparr>"
  let ?k = "example_net [] [Moves 5, Moves 5]"
  obtain r1 p1 c1 where g1: "ncclNetSocketGetTask c_divup ?c NCCL_SOCKET_SEND 10 1 = (r1, p1, c1)" by (metis prod_cases3)
  obtain r2 p2 c2 where g2: "ncclNetSocketGetTask c_divup c1 NCCL_SOCKET_SEND 20 2 = (r2, p2, c2)" by (metis prod_cases3)
  let ?m = "\<lambda>a. of_nat a :: u8"
  have "r1 = ncclSuccess \<and> r2 = ncclSuccess \<and> (\<exists>c3 k1 alive. thread_round 0 c2 ?m ?k = Some (alive, False, c3, ?m, k1) \<and>
      sk_out (ends k1 4) = sk_out (ends ?k 4) @ mem_read ?m 20 2 @ mem_read ?m 10 1)"
    by (rule newer_task_is_sent_first [OF _ _ _ _ _ _ _ _ g1 g2, of 1 "[zero_task, zero_task]" 4 ?k 5 5 "[]" ?m])
      (simp_all add: example_comm_def zero_task_def zero_sock_def data_fd_def example_net_def)
  moreover have "sk_out (ends ?k 4) @ mem_read ?m 20 2 @ mem_read ?m 10 1 = [20, 21, 10]"
    by (simp add: mem_read_def example_net_def upt_rec)
  ultimately show ?thesis by metis
qed

end
