(* ===== verification/NetAdapters.thy ===== *)
theory NetAdapters
  imports Plugin
begin

text \<open>
  The first half of \<^verbatim>\<open>nccl_internal_impl/net.cc\<close>: the tables that let a plugin of an older interface be used
  through the current one. A table holds function pointers; those of the plugin have an abstract type, the
  functions of this file are the constructors of \<open>adapter_fn\<close>, and a pointer in a table of this file is
  one or the other. The functions of the plugin are arguments. What is written through an output pointer is
  returned beside the result.
\<close>

section \<open>Properties of a device\<close>

text \<open>Version 6, which lacks the offload type (and is also what version 5 uses), version 7 and version 8.
  The latency is a 4-byte float that is only copied. An enumeration is an \<open>int\<close>.\<close>

record Props_v6 =
  p6_name :: string
  p6_pciPath :: string
  p6_guid :: u64
  p6_ptrSupport :: int
  p6_speed :: int
  p6_port :: int
  p6_latency :: u32
  p6_maxComms :: int
  p6_maxRecvs :: int

record Props_v7 =
  p7_name :: string
  p7_pciPath :: string
  p7_guid :: u64
  p7_ptrSupport :: int
  p7_speed :: int
  p7_port :: int
  p7_latency :: u32
  p7_maxComms :: int
  p7_maxRecvs :: int
  p7_netDeviceType :: int
  p7_netDeviceVersion :: int

record Props_v8 =
  p8_name :: string
  p8_pciPath :: string
  p8_guid :: u64
  p8_ptrSupport :: int
  p8_regIsGlobal :: int
  p8_speed :: int
  p8_port :: int
  p8_latency :: u32
  p8_maxComms :: int
  p8_maxRecvs :: int
  p8_netDeviceType :: int
  p8_netDeviceVersion :: int

definition NCCL_PTR_CUDA :: int where "NCCL_PTR_CUDA = 2"
definition NCCL_NET_DEVICE_UNPACK :: int where "NCCL_NET_DEVICE_UNPACK = 1"
definition NCCL_NET_DEVICE_INVALID_VERSION :: int where "NCCL_NET_DEVICE_INVALID_VERSION = 0"
definition NCCL_NET_DEVICE_UNPACK_VERSION :: int where "NCCL_NET_DEVICE_UNPACK_VERSION = 7"

definition ncclNet_v7_as_v8_getProperties ::
  "(int \<Rightarrow> ncclResult_t \<times> Props_v7) \<Rightarrow> int \<Rightarrow> Props_v8 \<Rightarrow> ncclResult_t \<times> Props_v8" where
  "ncclNet_v7_as_v8_getProperties getProperties dev props =
     (let (ans, p7) = getProperties dev
      in if ans \<noteq> ncclSuccess then (ans, props)
         else (ncclSuccess,
               \<lparr>p8_name = p7_name p7, p8_pciPath = p7_pciPath p7, p8_guid = p7_guid p7,
                p8_ptrSupport = p7_ptrSupport p7, p8_regIsGlobal = 0, p8_speed = p7_speed p7,
                p8_port = p7_port p7, p8_latency = p7_latency p7, p8_maxComms = p7_maxComms p7,
                p8_maxRecvs = p7_maxRecvs p7, p8_netDeviceType = p7_netDeviceType p7,
                p8_netDeviceVersion = p7_netDeviceVersion p7\<rparr>))"

definition ncclNet_v6_as_v8_getProperties ::
  "(int \<Rightarrow> ncclResult_t \<times> Props_v6) \<Rightarrow> int \<Rightarrow> Props_v8 \<Rightarrow> ncclResult_t \<times> Props_v8" where
  "ncclNet_v6_as_v8_getProperties getProperties dev props =
     (let (ans, p6) = getProperties dev
      in if ans \<noteq> ncclSuccess then (ans, props)
         else (ncclSuccess,
               \<lparr>p8_name = p6_name p6, p8_pciPath = p6_pciPath p6, p8_guid = p6_guid p6,
                p8_ptrSupport = p6_ptrSupport p6, p8_regIsGlobal = 0, p8_speed = p6_speed p6,
                p8_port = p6_port p6, p8_latency = p6_latency p6, p8_maxComms = p6_maxComms p6,
                p8_maxRecvs = p6_maxRecvs p6, p8_netDeviceType = NCCL_NET_DEVICE_HOST,
                p8_netDeviceVersion = NCCL_NET_DEVICE_INVALID_VERSION\<rparr>))"

definition ncclNet_v5_as_v8_getProperties ::
  "(int \<Rightarrow> ncclResult_t \<times> Props_v6) \<Rightarrow> int \<Rightarrow> Props_v8 \<Rightarrow> ncclResult_t \<times> Props_v8" where
  "ncclNet_v5_as_v8_getProperties getProperties dev props =
     (let (ans, p6) = getProperties dev
      in if ans \<noteq> ncclSuccess then (ans, props)
         else (ncclSuccess,
               \<lparr>p8_name = p6_name p6, p8_pciPath = p6_pciPath p6, p8_guid = p6_guid p6,
                p8_ptrSupport = p6_ptrSupport p6, p8_regIsGlobal = 0, p8_speed = p6_speed p6,
                p8_port = p6_port p6, p8_latency = p6_latency p6, p8_maxComms = p6_maxComms p6,
                p8_maxRecvs = p6_maxRecvs p6, p8_netDeviceType = NCCL_NET_DEVICE_HOST,
                p8_netDeviceVersion = NCCL_NET_DEVICE_INVALID_VERSION\<rparr>))"

text \<open>The three adapters of collective plugins; the one of version 7 does not hand the offload type on.\<close>

definition ncclCollNet_v5_as_v8_getProperties ::
  "(int \<Rightarrow> ncclResult_t \<times> Props_v6) \<Rightarrow> int \<Rightarrow> Props_v8 \<Rightarrow> ncclResult_t \<times> Props_v8" where
  "ncclCollNet_v5_as_v8_getProperties getProperties dev props =
     (let (ans, p6) = getProperties dev
      in if ans \<noteq> ncclSuccess then (ans, props)
         else (ncclSuccess,
               \<lparr>p8_name = p6_name p6, p8_pciPath = p6_pciPath p6, p8_guid = p6_guid p6,
                p8_ptrSupport = p6_ptrSupport p6, p8_regIsGlobal = 0, p8_speed = p6_speed p6,
                p8_port = p6_port p6, p8_latency = p6_latency p6, p8_maxComms = p6_maxComms p6,
                p8_maxRecvs = p6_maxRecvs p6, p8_netDeviceType = NCCL_NET_DEVICE_HOST,
                p8_netDeviceVersion = NCCL_NET_DEVICE_INVALID_VERSION\<rparr>))"

definition ncclCollNet_v6_as_v8_getProperties ::
  "(int \<Rightarrow> ncclResult_t \<times> Props_v6) \<Rightarrow> int \<Rightarrow> Props_v8 \<Rightarrow> ncclResult_t \<times> Props_v8" where
  "ncclCollNet_v6_as_v8_getProperties getProperties dev props =
     (let (ans, p6) = getProperties dev
      in if ans \<noteq> ncclSuccess then (ans, props)
         else (ncclSuccess,
               \<lparr>p8_name = p6_name p6, p8_pciPath = p6_pciPath p6, p8_guid = p6_guid p6,
                p8_ptrSupport = p6_ptrSupport p6, p8_regIsGlobal = 0, p8_speed = p6_speed p6,
                p8_port = p6_port p6, p8_latency = p6_latency p6, p8_maxComms = p6_maxComms p6,
                p8_maxRecvs = p6_maxRecvs p6, p8_netDeviceType = NCCL_NET_DEVICE_HOST,
                p8_netDeviceVersion = NCCL_NET_DEVICE_INVALID_VERSION\<rparr>))"

definition ncclCollNet_v7_as_v8_getProperties ::
  "(int \<Rightarrow> ncclResult_t \<times> Props_v7) \<Rightarrow> int \<Rightarrow> Props_v8 \<Rightarrow> ncclResult_t \<times> Props_v8" where
  "ncclCollNet_v7_as_v8_getProperties getProperties dev props =
     (let (ans, p7) = getProperties dev
      in if ans \<noteq> ncclSuccess then (ans, props)
         else (ncclSuccess,
               \<lparr>p8_name = p7_name p7, p8_pciPath = p7_pciPath p7, p8_guid = p7_guid p7,
                p8_ptrSupport = p7_ptrSupport p7, p8_regIsGlobal = 0, p8_speed = p7_speed p7,
                p8_port = p7_port p7, p8_latency = p7_latency p7, p8_maxComms = p7_maxComms p7,
                p8_maxRecvs = p7_maxRecvs p7, p8_netDeviceType = NCCL_NET_DEVICE_HOST,
                p8_netDeviceVersion = NCCL_NET_DEVICE_INVALID_VERSION\<rparr>))"

section \<open>Registration\<close>

text \<open>The older interface takes the size as an \<open>int\<close>; \<open>rm\<close> is the plugin's \<open>regMr\<close>, \<open>mhandle\<close> what the
  caller's variable holds before.\<close>

type_synonym ('c, 'd, 'h) reg_fn = "'c \<Rightarrow> 'd \<Rightarrow> int \<Rightarrow> int \<Rightarrow> ncclResult_t \<times> 'h"

definition ncclNet_v7_as_v8_regMr ::
  "('c, 'd, 'h) reg_fn \<Rightarrow> 'c \<Rightarrow> 'd \<Rightarrow> u64 \<Rightarrow> int \<Rightarrow> 'h \<Rightarrow> ncclResult_t \<times> 'h" where
  "ncclNet_v7_as_v8_regMr rm comm data sz type mhandle =
     (if push_bit 31 1 \<le> sz then (ncclInternalError, mhandle) else rm comm data (sint (ucast sz :: u32)) type)"

definition ncclNet_v6_as_v8_regMr ::
  "('c, 'd, 'h) reg_fn \<Rightarrow> 'c \<Rightarrow> 'd \<Rightarrow> u64 \<Rightarrow> int \<Rightarrow> 'h \<Rightarrow> ncclResult_t \<times> 'h" where
  "ncclNet_v6_as_v8_regMr rm comm data sz type mhandle =
     (if push_bit 31 1 \<le> sz then (ncclInternalError, mhandle) else rm comm data (sint (ucast sz :: u32)) type)"

definition ncclNet_v5_as_v8_regMr ::
  "('c, 'd, 'h) reg_fn \<Rightarrow> 'c \<Rightarrow> 'd \<Rightarrow> u64 \<Rightarrow> int \<Rightarrow> 'h \<Rightarrow> ncclResult_t \<times> 'h" where
  "ncclNet_v5_as_v8_regMr rm comm data sz type mhandle =
     (if push_bit 31 1 \<le> sz then (ncclInternalError, mhandle) else rm comm data (sint (ucast sz :: u32)) type)"

definition ncclCollNet_v5_as_v8_regMr ::
  "('c, 'd, 'h) reg_fn \<Rightarrow> 'c \<Rightarrow> 'd \<Rightarrow> u64 \<Rightarrow> int \<Rightarrow> 'h \<Rightarrow> ncclResult_t \<times> 'h" where
  "ncclCollNet_v5_as_v8_regMr rm comm data sz type mhandle =
     (if push_bit 31 1 \<le> sz then (ncclInternalError, mhandle) else rm comm data (sint (ucast sz :: u32)) type)"

definition ncclCollNet_v6_as_v8_regMr ::
  "('c, 'd, 'h) reg_fn \<Rightarrow> 'c \<Rightarrow> 'd \<Rightarrow> u64 \<Rightarrow> int \<Rightarrow> 'h \<Rightarrow> ncclResult_t \<times> 'h" where
  "ncclCollNet_v6_as_v8_regMr rm comm data sz type mhandle =
     (if push_bit 31 1 \<le> sz then (ncclInternalError, mhandle) else rm comm data (sint (ucast sz :: u32)) type)"

definition ncclCollNet_v7_as_v8_regMr ::
  "('c, 'd, 'h) reg_fn \<Rightarrow> 'c \<Rightarrow> 'd \<Rightarrow> u64 \<Rightarrow> int \<Rightarrow> 'h \<Rightarrow> ncclResult_t \<times> 'h" where
  "ncclCollNet_v7_as_v8_regMr rm comm data sz type mhandle =
     (if push_bit 31 1 \<le> sz then (ncclInternalError, mhandle) else rm comm data (sint (ucast sz :: u32)) type)"

lemmas regMr_defs = ncclNet_v7_as_v8_regMr_def ncclNet_v6_as_v8_regMr_def ncclNet_v5_as_v8_regMr_def
  ncclCollNet_v5_as_v8_regMr_def ncclCollNet_v6_as_v8_regMr_def ncclCollNet_v7_as_v8_regMr_def

section \<open>Connecting\<close>

text \<open>Before version 7 there is no device handle; what the caller passes for it is ignored.\<close>

definition ncclNet_v6_as_v8_connect ::
  "(int \<Rightarrow> 'h \<Rightarrow> ncclResult_t \<times> 'c option) \<Rightarrow> int \<Rightarrow> 'h \<Rightarrow> 'v \<Rightarrow> ncclResult_t \<times> 'c option" where
  "ncclNet_v6_as_v8_connect co dev handle sendDevComm = co dev handle"

definition ncclNet_v6_as_v8_accept ::
  "('l \<Rightarrow> ncclResult_t \<times> 'c option) \<Rightarrow> 'l \<Rightarrow> 'v \<Rightarrow> ncclResult_t \<times> 'c option" where
  "ncclNet_v6_as_v8_accept ac listenComm recvDevComm = ac listenComm"

definition ncclNet_v5_as_v8_connect ::
  "(int \<Rightarrow> 'h \<Rightarrow> ncclResult_t \<times> 'c option) \<Rightarrow> int \<Rightarrow> 'h \<Rightarrow> 'v \<Rightarrow> ncclResult_t \<times> 'c option" where
  "ncclNet_v5_as_v8_connect co dev handle sendDevComm = co dev handle"

definition ncclNet_v5_as_v8_accept ::
  "('l \<Rightarrow> ncclResult_t \<times> 'c option) \<Rightarrow> 'l \<Rightarrow> 'v \<Rightarrow> ncclResult_t \<times> 'c option" where
  "ncclNet_v5_as_v8_accept ac listenComm recvDevComm = ac listenComm"

section \<open>The tables\<close>

datatype adapter_fn =
    Fn_v7_as_v8_init | Fn_v7_as_v8_getProperties | Fn_v7_as_v8_regMr
  | Fn_v6_as_v8_init | Fn_v6_as_v8_getProperties | Fn_v6_as_v8_regMr | Fn_v6_as_v8_connect | Fn_v6_as_v8_accept
  | Fn_v5_as_v8_init | Fn_v5_as_v8_getProperties | Fn_v5_as_v8_regMr | Fn_v5_as_v8_connect | Fn_v5_as_v8_accept
  | Fn_Coll_v7_as_v8_init | Fn_Coll_v7_as_v8_getProperties | Fn_Coll_v7_as_v8_regMr
  | Fn_Coll_v6_as_v8_init | Fn_Coll_v6_as_v8_getProperties | Fn_Coll_v6_as_v8_regMr
  | Fn_Coll_v5_as_v8_init | Fn_Coll_v5_as_v8_getProperties | Fn_Coll_v5_as_v8_regMr

datatype 'f fn_ptr = Theirs 'f | Ours adapter_fn

text \<open>A table of pointers; \<open>None\<close> is the null pointer. The entries a version lacks are null in it.\<close>

record 'f Net_Table =
  nt_name :: string
  nt_init :: "'f option"
  nt_devices :: "'f option"
  nt_getProperties :: "'f option"
  nt_listen :: "'f option"
  nt_connect :: "'f option"
  nt_accept :: "'f option"
  nt_regMr :: "'f option"
  nt_regMrDmaBuf :: "'f option"
  nt_deregMr :: "'f option"
  nt_isend :: "'f option"
  nt_irecv :: "'f option"
  nt_iflush :: "'f option"
  nt_test :: "'f option"
  nt_closeSend :: "'f option"
  nt_closeRecv :: "'f option"
  nt_closeListen :: "'f option"
  nt_getDeviceMr :: "'f option"
  nt_irecvConsumed :: "'f option"

record 'f Coll_Table =
  ct_name :: string
  ct_init :: "'f option"
  ct_devices :: "'f option"
  ct_getProperties :: "'f option"
  ct_listen :: "'f option"
  ct_connect :: "'f option"
  ct_reduceSupport :: "'f option"
  ct_regMr :: "'f option"
  ct_regMrDmaBuf :: "'f option"
  ct_deregMr :: "'f option"
  ct_iallreduce :: "'f option"
  ct_iallgather :: "'f option"
  ct_ireducescatter :: "'f option"
  ct_iflush :: "'f option"
  ct_test :: "'f option"
  ct_closeColl :: "'f option"
  ct_closeListen :: "'f option"

abbreviation theirs :: "'f option \<Rightarrow> 'f fn_ptr option" where "theirs \<equiv> map_option Theirs"

text \<open>The initialisation of an adapter: \<open>ans\<close> is what the plugin's \<open>init\<close> returns, \<open>p\<close> the plugin's table
  after it (a plugin may fill the table only then), \<open>t\<close> the adapter's table before.\<close>

definition ncclNet_v7_as_v8_init ::
  "ncclResult_t \<Rightarrow> 'f Net_Table \<Rightarrow> 'f fn_ptr Net_Table \<Rightarrow> ncclResult_t \<times> 'f fn_ptr Net_Table" where
  "ncclNet_v7_as_v8_init ans p t =
     (if ans \<noteq> ncclSuccess then (ans, t)
      else (ncclSuccess,
            t\<lparr>nt_name := nt_name p,
              nt_devices := theirs (nt_devices p),
              nt_getProperties := Some (Ours Fn_v7_as_v8_getProperties),
              nt_listen := theirs (nt_listen p),
              nt_connect := theirs (nt_connect p),
              nt_accept := theirs (nt_accept p),
              nt_regMr := Some (Ours Fn_v7_as_v8_regMr),
              nt_regMrDmaBuf := theirs (nt_regMrDmaBuf p),
              nt_deregMr := theirs (nt_deregMr p),
              nt_isend := theirs (nt_isend p),
              nt_irecv := theirs (nt_irecv p),
              nt_iflush := theirs (nt_iflush p),
              nt_test := theirs (nt_test p),
              nt_closeSend := theirs (nt_closeSend p),
              nt_closeRecv := theirs (nt_closeRecv p),
              nt_closeListen := theirs (nt_closeListen p),
              nt_getDeviceMr := theirs (nt_getDeviceMr p),
              nt_irecvConsumed := theirs (nt_irecvConsumed p)\<rparr>))"

definition ncclNet_v6_as_v8_init ::
  "ncclResult_t \<Rightarrow> 'f Net_Table \<Rightarrow> 'f fn_ptr Net_Table \<Rightarrow> ncclResult_t \<times> 'f fn_ptr Net_Table" where
  "ncclNet_v6_as_v8_init ans p t =
     (if ans \<noteq> ncclSuccess then (ans, t)
      else (ncclSuccess,
            t\<lparr>nt_name := nt_name p,
              nt_devices := theirs (nt_devices p),
              nt_getProperties := Some (Ours Fn_v6_as_v8_getProperties),
              nt_listen := theirs (nt_listen p),
              nt_connect := Some (Ours Fn_v6_as_v8_connect),
              nt_accept := Some (Ours Fn_v6_as_v8_accept),
              nt_regMr := Some (Ours Fn_v6_as_v8_regMr),
              nt_regMrDmaBuf := theirs (nt_regMrDmaBuf p),
              nt_deregMr := theirs (nt_deregMr p),
              nt_isend := theirs (nt_isend p),
              nt_irecv := theirs (nt_irecv p),
              nt_iflush := theirs (nt_iflush p),
              nt_test := theirs (nt_test p),
              nt_closeSend := theirs (nt_closeSend p),
              nt_closeRecv := theirs (nt_closeRecv p),
              nt_closeListen := theirs (nt_closeListen p),
              nt_getDeviceMr := None,
              nt_irecvConsumed := None\<rparr>))"

definition ncclNet_v5_as_v8_init ::
  "ncclResult_t \<Rightarrow> 'f Net_Table \<Rightarrow> 'f fn_ptr Net_Table \<Rightarrow> ncclResult_t \<times> 'f fn_ptr Net_Table" where
  "ncclNet_v5_as_v8_init ans p t =
     (if ans \<noteq> ncclSuccess then (ans, t)
      else (ncclSuccess,
            t\<lparr>nt_name := nt_name p,
              nt_devices := theirs (nt_devices p),
              nt_getProperties := Some (Ours Fn_v5_as_v8_getProperties),
              nt_listen := theirs (nt_listen p),
              nt_connect := Some (Ours Fn_v5_as_v8_connect),
              nt_accept := Some (Ours Fn_v5_as_v8_accept),
              nt_regMr := Some (Ours Fn_v5_as_v8_regMr),
              nt_regMrDmaBuf := None,
              nt_deregMr := theirs (nt_deregMr p),
              nt_isend := theirs (nt_isend p),
              nt_irecv := theirs (nt_irecv p),
              nt_iflush := theirs (nt_iflush p),
              nt_test := theirs (nt_test p),
              nt_closeSend := theirs (nt_closeSend p),
              nt_closeRecv := theirs (nt_closeRecv p),
              nt_closeListen := theirs (nt_closeListen p),
              nt_getDeviceMr := None,
              nt_irecvConsumed := None\<rparr>))"

definition ncclCollNet_v5_as_v8_init ::
  "ncclResult_t \<Rightarrow> 'f Coll_Table \<Rightarrow> 'f fn_ptr Coll_Table \<Rightarrow> ncclResult_t \<times> 'f fn_ptr Coll_Table" where
  "ncclCollNet_v5_as_v8_init ans p t =
     (if ans \<noteq> ncclSuccess then (ans, t)
      else (ncclSuccess,
            t\<lparr>ct_name := ct_name p,
              ct_devices := theirs (ct_devices p),
              ct_getProperties := Some (Ours Fn_Coll_v5_as_v8_getProperties),
              ct_listen := theirs (ct_listen p),
              ct_connect := theirs (ct_connect p),
              ct_reduceSupport := theirs (ct_reduceSupport p),
              ct_regMr := Some (Ours Fn_Coll_v5_as_v8_regMr),
              ct_regMrDmaBuf := None,
              ct_deregMr := theirs (ct_deregMr p),
              ct_iallreduce := theirs (ct_iallreduce p),
              ct_iallgather := None,
              ct_ireducescatter := None,
              ct_iflush := theirs (ct_iflush p),
              ct_test := theirs (ct_test p),
              ct_closeColl := theirs (ct_closeColl p),
              ct_closeListen := theirs (ct_closeListen p)\<rparr>))"

definition ncclCollNet_v6_as_v8_init ::
  "ncclResult_t \<Rightarrow> 'f Coll_Table \<Rightarrow> 'f fn_ptr Coll_Table \<Rightarrow> ncclResult_t \<times> 'f fn_ptr Coll_Table" where
  "ncclCollNet_v6_as_v8_init ans p t =
     (if ans \<noteq> ncclSuccess then (ans, t)
      else (ncclSuccess,
            t\<lparr>ct_name := ct_name p,
              ct_devices := theirs (ct_devices p),
              ct_getProperties := Some (Ours Fn_Coll_v6_as_v8_getProperties),
              ct_listen := theirs (ct_listen p),
              ct_connect := theirs (ct_connect p),
              ct_reduceSupport := theirs (ct_reduceSupport p),
              ct_regMr := Some (Ours Fn_Coll_v6_as_v8_regMr),
              ct_regMrDmaBuf := theirs (ct_regMrDmaBuf p),
              ct_deregMr := theirs (ct_deregMr p),
              ct_iallreduce := theirs (ct_iallreduce p),
              ct_iallgather := None,
              ct_ireducescatter := None,
              ct_iflush := theirs (ct_iflush p),
              ct_test := theirs (ct_test p),
              ct_closeColl := theirs (ct_closeColl p),
              ct_closeListen := theirs (ct_closeListen p)\<rparr>))"

definition ncclCollNet_v7_as_v8_init ::
  "ncclResult_t \<Rightarrow> 'f Coll_Table \<Rightarrow> 'f fn_ptr Coll_Table \<Rightarrow> ncclResult_t \<times> 'f fn_ptr Coll_Table" where
  "ncclCollNet_v7_as_v8_init ans p t =
     (if ans \<noteq> ncclSuccess then (ans, t)
      else (ncclSuccess,
            t\<lparr>ct_name := ct_name p,
              ct_devices := theirs (ct_devices p),
              ct_getProperties := Some (Ours Fn_Coll_v7_as_v8_getProperties),
              ct_listen := theirs (ct_listen p),
              ct_connect := theirs (ct_connect p),
              ct_reduceSupport := theirs (ct_reduceSupport p),
              ct_regMr := Some (Ours Fn_Coll_v7_as_v8_regMr),
              ct_regMrDmaBuf := theirs (ct_regMrDmaBuf p),
              ct_deregMr := theirs (ct_deregMr p),
              ct_iallreduce := theirs (ct_iallreduce p),
              ct_iallgather := None,
              ct_ireducescatter := None,
              ct_iflush := theirs (ct_iflush p),
              ct_test := theirs (ct_test p),
              ct_closeColl := theirs (ct_closeColl p),
              ct_closeListen := theirs (ct_closeListen p)\<rparr>))"

section \<open>Lemmas\<close>

text \<open>A registration reaches the plugin with the very size the caller gave, or is refused.\<close>

lemma small_size_kept:
  assumes "\<not> push_bit 31 1 \<le> (sz :: u64)"
  shows "sint (ucast sz :: u32) = int (unat sz)" "unat sz < 2 ^ 31"
proof -
  from assms have "sz < 2 ^ 31" by (simp add: push_bit_eq_mult not_le)
  then show lt: "unat sz < 2 ^ 31" by (simp add: word_less_nat_alt)
  have u: "unat (ucast sz :: u32) = unat sz"
    using lt by (simp add: unsigned_ucast_eq take_bit_eq_mod)
  have "sint (ucast sz :: u32) = signed_take_bit 31 (int (unat (ucast sz :: u32)))"
    by (simp add: sint_uint)
  also have "\<dots> = int (unat sz)"
    unfolding u using lt by (intro signed_take_bit_int_eq_self) (simp_all del: of_nat_unat add: order_trans [of _ 0])
  finally show "sint (ucast sz :: u32) = int (unat sz)" .
qed

theorem regMr_sizes:
  "r \<in> {ncclNet_v7_as_v8_regMr, ncclNet_v6_as_v8_regMr, ncclNet_v5_as_v8_regMr,
        ncclCollNet_v5_as_v8_regMr, ncclCollNet_v6_as_v8_regMr, ncclCollNet_v7_as_v8_regMr} \<Longrightarrow>
   r rm comm data sz type mh =
     (if unat sz < 2 ^ 31 then rm comm data (int (unat sz)) type else (ncclInternalError, mh))"
proof -
  have "push_bit 31 (1 :: u64) \<le> sz \<longleftrightarrow> \<not> unat sz < 2 ^ 31"
    by (simp add: push_bit_eq_mult word_le_nat_alt not_less)
  then show "r \<in> {ncclNet_v7_as_v8_regMr, ncclNet_v6_as_v8_regMr, ncclNet_v5_as_v8_regMr,
        ncclCollNet_v5_as_v8_regMr, ncclCollNet_v6_as_v8_regMr, ncclCollNet_v7_as_v8_regMr} \<Longrightarrow> ?thesis"
    by (auto simp: regMr_defs small_size_kept)
qed

end
