(* ===== verification/NetPlugin.thy ===== *)
theory NetPlugin
  imports NetAdapters
begin

text \<open>
  The second half of \<^verbatim>\<open>nccl_internal_impl/net.cc\<close>: loading a plugin library and dropping it again,
  the choice of the network a communicator uses, and the test whether GPUs and network adapters work together. The
  dynamic linker, the environment and the functions of the networks are the record \<open>Net_Env\<close>; the
  variables of the file are the record \<open>Nccl\<close>, with two logs: the libraries closed and the
  initialisations called. \<open>netPluginLock\<close> is held for the whole of a load and
  of an unload; \<open>netLock\<close> only while the state of one network is queried, and \<open>ncclNetInit\<close> takes no lock of
  its own. Each of the calls is modelled as one step: what other threads do between two queries of one
  \<open>ncclNetInit\<close> is not modelled. Log output is left out.
\<close>

section \<open>C strings\<close>

definition to_lower :: "char \<Rightarrow> char" where
  "to_lower c = (if 65 \<le> (of_char c :: nat) \<and> (of_char c :: nat) \<le> 90
                 then char_of (of_char c + 32 :: nat) else c)"

definition strcasecmp_eq :: "string \<Rightarrow> string \<Rightarrow> bool" where
  "strcasecmp_eq a b \<longleftrightarrow> map to_lower a = map to_lower b"

definition strstr_found :: "string \<Rightarrow> string \<Rightarrow> bool" where
  "strstr_found hay needle \<longleftrightarrow>
     list_ex (\<lambda>i. take (length needle) (drop i hay) = needle) [0..<Suc (length hay)]"

text \<open>\<open>snprintf (buf + pos, n, ...)\<close> of the text \<open>s\<close>, with the terminator.\<close>

definition snprintf_at :: "char list \<Rightarrow> nat \<Rightarrow> nat \<Rightarrow> string \<Rightarrow> char list" where
  "snprintf_at buf pos n s =
     (if n = 0 then buf
      else let t = take (n - 1) s @ [CHR 0x00] in take pos buf @ t @ drop (pos + length t) buf)"

section \<open>Data\<close>

datatype ncclNetState = ncclNetStateInit | ncclNetStateEnabled | ncclNetStateDisabled

datatype load_status = netPluginLoadFailed | netPluginLoadReady | netPluginLoadSuccess

text \<open>What a pointer in \<open>ncclNets\<close> and \<open>ncclCollNets\<close> points at: a table of a library, one of the
  tables of this file, or one of the two internal networks.\<close>

datatype net_ref = Plugin_Net_v8 nat | Net_v7_as_v8 | Net_v6_as_v8 | Net_v5_as_v8 | ncclNetIb | ncclNetSocket

datatype coll_ref = Plugin_Coll_v8 nat | Coll_v7_as_v8 | Coll_v6_as_v8 | Coll_v5_as_v8

text \<open>\<open>dlopen\<close> gives a handle or the text of \<open>dlerror\<close>; a symbol is a name in a library.\<close>

type_synonym symbol = "nat \<times> string"

record 'f Net_Env =
  env_NCCL_NET_PLUGIN :: "string option"
  dlopen_answer :: "string option \<Rightarrow> nat + string"
  dlsym_found :: "symbol \<Rightarrow> bool"
  net_tab :: "symbol \<Rightarrow> 'f Net_Table"
  coll_tab :: "symbol \<Rightarrow> 'f Coll_Table"
  init_answer :: "net_ref \<Rightarrow> ncclResult_t"
  devices_answer :: "net_ref \<Rightarrow> ncclResult_t \<times> int"
  props_answer :: "net_ref \<Rightarrow> int \<Rightarrow> ncclResult_t \<times> Props_v8"
  coll_init_answer :: "coll_ref \<Rightarrow> ncclResult_t"
  coll_devices_answer :: "coll_ref \<Rightarrow> ncclResult_t \<times> int"

record 'f Nccl =
  ncclNets :: "net_ref option list"
  ncclCollNets :: "coll_ref option list"
  ncclNetStates :: "ncclNetState list"
  ncclCollNetStates :: "ncclNetState list"
  netPluginRefCount :: int
  netPluginLib :: "nat option"
  netPluginStatus :: load_status
  ncclNet_v7 :: "symbol option"
  ncclNet_v6 :: "symbol option"
  ncclNet_v5 :: "symbol option"
  ncclCollNet_v7 :: "symbol option"
  ncclCollNet_v6 :: "symbol option"
  ncclCollNet_v5 :: "symbol option"
  net_v7_as_v8 :: "'f fn_ptr Net_Table"
  net_v6_as_v8 :: "'f fn_ptr Net_Table"
  net_v5_as_v8 :: "'f fn_ptr Net_Table"
  coll_v7_as_v8 :: "'f fn_ptr Coll_Table"
  coll_v6_as_v8 :: "'f fn_ptr Coll_Table"
  coll_v5_as_v8 :: "'f fn_ptr Coll_Table"
  lib_closed :: "nat list"
  inits_called :: "net_ref list"

record Comm =
  comm_netName :: "string option"
  netPluginLoaded :: bool
  comm_ncclNet :: "net_ref option"
  comm_ncclCollNet :: "coll_ref option"

definition null_net_table :: "'f Net_Table" where
  "null_net_table = \<lparr>nt_name = [], nt_init = None, nt_devices = None, nt_getProperties = None, nt_listen = None,
     nt_connect = None, nt_accept = None, nt_regMr = None, nt_regMrDmaBuf = None, nt_deregMr = None,
     nt_isend = None, nt_irecv = None, nt_iflush = None, nt_test = None, nt_closeSend = None,
     nt_closeRecv = None, nt_closeListen = None, nt_getDeviceMr = None, nt_irecvConsumed = None\<rparr>"

definition null_coll_table :: "'f Coll_Table" where
  "null_coll_table = \<lparr>ct_name = [], ct_init = None, ct_devices = None, ct_getProperties = None, ct_listen = None,
     ct_connect = None, ct_reduceSupport = None, ct_regMr = None, ct_regMrDmaBuf = None, ct_deregMr = None,
     ct_iallreduce = None, ct_iallgather = None, ct_ireducescatter = None, ct_iflush = None,
     ct_test = None, ct_closeColl = None, ct_closeListen = None\<rparr>"

text \<open>The static initial values.\<close>

definition nccl_start :: "'f Nccl" where
  "nccl_start =
     \<lparr>ncclNets = [None, Some ncclNetIb, Some ncclNetSocket], ncclCollNets = [None, None, None],
      ncclNetStates = [ncclNetStateInit, ncclNetStateInit, ncclNetStateInit],
      ncclCollNetStates = [ncclNetStateInit, ncclNetStateInit, ncclNetStateInit],
      netPluginRefCount = 0, netPluginLib = None, netPluginStatus = netPluginLoadReady,
      ncclNet_v7 = None, ncclNet_v6 = None, ncclNet_v5 = None,
      ncclCollNet_v7 = None, ncclCollNet_v6 = None, ncclCollNet_v5 = None,
      net_v7_as_v8 = null_net_table, net_v6_as_v8 = null_net_table, net_v5_as_v8 = null_net_table,
      coll_v7_as_v8 = null_coll_table, coll_v6_as_v8 = null_coll_table, coll_v5_as_v8 = null_coll_table,
      lib_closed = [], inits_called = []\<rparr>"

section \<open>Opening the library\<close>

definition ENOENT :: nat where "ENOENT = 2"
definition MAX_STR_LEN :: nat where "MAX_STR_LEN = 255"
definition PATH_MAX :: nat where "PATH_MAX = 4096"
definition MAX_PLUGIN_LOAD :: nat where "MAX_PLUGIN_LOAD = 2"

text \<open>The handle, the error number and the error text. A failing \<open>dlopen (nullptr)\<close>, whose error handling
  would search for the null pointer, does not happen: the program itself is always open.\<close>

definition tryOpenLib :: "'f Net_Env \<Rightarrow> string \<Rightarrow> string \<Rightarrow> nat option \<times> nat \<times> string" where
  "tryOpenLib env name errStr =
     (if name = [] then (None, 0, errStr)
      else let static = strcasecmp_eq name (take (length name) ''STATIC_PLUGIN'')
           in case dlopen_answer env (if static then None else Some name) of
                Inl handle \<Rightarrow> (Some handle, 0, errStr)
              | Inr msg \<Rightarrow>
                  let errStr1 = take MAX_STR_LEN msg
                  in (None,
                      if strstr_found errStr1 name \<and> strstr_found errStr1 ''No such file or directory''
                      then ENOENT else 0,
                      errStr1))"

text \<open>The list of names: the buffer, the place in it and the room left, as the callers thread them.\<close>

type_synonym name_list = "char list \<times> nat \<times> nat"

definition couldNotFindNames :: name_list where
  "couldNotFindNames = (replicate (MAX_PLUGIN_LOAD * PATH_MAX) (CHR 0x00), 0, MAX_PLUGIN_LOAD * PATH_MAX)"

definition tryOpenLibCheck :: "nat \<Rightarrow> name_list \<Rightarrow> string \<Rightarrow> name_list" where
  "tryOpenLibCheck openErr nl name =
     (case nl of (buf, pos, len) \<Rightarrow>
        if openErr = ENOENT
        then (snprintf_at buf pos len (CHR '' '' # name), pos + (length name + 1), len - (length name + 1))
        else nl)"

definition openNetPluginLib :: "'f Net_Env \<Rightarrow> name_list \<Rightarrow> nat option \<times> name_list" where
  "openNetPluginLib env nl =
     (case env_NCCL_NET_PLUGIN env of
        Some (c # cs) \<Rightarrow>
          let name = take (PATH_MAX - 1) (c # cs);
              (lib, err, str) = tryOpenLib env name []
          in if lib \<noteq> None then (lib, nl)
             else let nl1 = tryOpenLibCheck err nl name;
                      name1 = take (PATH_MAX - 1) (''libnccl-net-'' @ (c # cs) @ ''.so'');
                      (lib1, err1, str1) = tryOpenLib env name1 str
                  in if lib1 \<noteq> None then (lib1, nl1)
                     else (None, tryOpenLibCheck err1 nl1 name1)
      | _ \<Rightarrow>
          let name = ''libnccl-net.so'';
              (lib, err, str) = tryOpenLib env name []
          in if lib \<noteq> None then (lib, nl) else (None, tryOpenLibCheck err nl name))"

section \<open>Loading\<close>

text \<open>Each search tells whether there is a table; the one for the collective network may find none.\<close>

definition find_net_table :: "'f Net_Env \<Rightarrow> nat \<Rightarrow> 'f Nccl \<Rightarrow> bool \<times> 'f Nccl" where
  "find_net_table env lib st =
     (if dlsym_found env (lib, ''ncclNetPlugin_v8'')
      then (True, st\<lparr>ncclNets := (ncclNets st)[0 := Some (Plugin_Net_v8 lib)]\<rparr>)
      else let st0 = st\<lparr>ncclNets := (ncclNets st)[0 := None]\<rparr>;
               s7 = (lib, ''ncclNetPlugin_v7''); s6 = (lib, ''ncclNetPlugin_v6''); s5 = (lib, ''ncclNetPlugin_v5'')
           in if dlsym_found env s7
              then (True, st0\<lparr>ncclNet_v7 := Some s7, ncclNets := (ncclNets st0)[0 := Some Net_v7_as_v8],
                      net_v7_as_v8 := (net_v7_as_v8 st0)
                        \<lparr>nt_init := Some (Ours Fn_v7_as_v8_init), nt_name := nt_name (net_tab env s7)\<rparr>\<rparr>)
              else if dlsym_found env s6
              then (True, st0\<lparr>ncclNet_v7 := None, ncclNet_v6 := Some s6,
                      ncclNets := (ncclNets st0)[0 := Some Net_v6_as_v8],
                      net_v6_as_v8 := (net_v6_as_v8 st0)
                        \<lparr>nt_init := Some (Ours Fn_v6_as_v8_init), nt_name := nt_name (net_tab env s6)\<rparr>\<rparr>)
              else if dlsym_found env s5
              then (True, st0\<lparr>ncclNet_v7 := None, ncclNet_v6 := None, ncclNet_v5 := Some s5,
                      ncclNets := (ncclNets st0)[0 := Some Net_v5_as_v8],
                      net_v5_as_v8 := (net_v5_as_v8 st0)
                        \<lparr>nt_init := Some (Ours Fn_v5_as_v8_init), nt_name := nt_name (net_tab env s5)\<rparr>\<rparr>)
              else (False, st0\<lparr>ncclNet_v7 := None, ncclNet_v6 := None, ncclNet_v5 := None\<rparr>))"

definition find_coll_table :: "'f Net_Env \<Rightarrow> nat \<Rightarrow> 'f Nccl \<Rightarrow> 'f Nccl" where
  "find_coll_table env lib st =
     (if dlsym_found env (lib, ''ncclCollNetPlugin_v8'')
      then st\<lparr>ncclCollNets := (ncclCollNets st)[0 := Some (Plugin_Coll_v8 lib)]\<rparr>
      else let st0 = st\<lparr>ncclCollNets := (ncclCollNets st)[0 := None]\<rparr>;
               s7 = (lib, ''ncclCollNetPlugin_v7''); s6 = (lib, ''ncclCollNetPlugin_v6'');
               s5 = (lib, ''ncclCollNetPlugin_v5'')
           in if dlsym_found env s7
              then st0\<lparr>ncclCollNet_v7 := Some s7, ncclCollNets := (ncclCollNets st0)[0 := Some Coll_v7_as_v8],
                      coll_v7_as_v8 := (coll_v7_as_v8 st0)
                        \<lparr>ct_init := Some (Ours Fn_Coll_v7_as_v8_init), ct_name := ct_name (coll_tab env s7)\<rparr>\<rparr>
              else if dlsym_found env s6
              then st0\<lparr>ncclCollNet_v7 := None, ncclCollNet_v6 := Some s6,
                      ncclCollNets := (ncclCollNets st0)[0 := Some Coll_v6_as_v8],
                      coll_v6_as_v8 := (coll_v6_as_v8 st0)
                        \<lparr>ct_init := Some (Ours Fn_Coll_v6_as_v8_init), ct_name := ct_name (coll_tab env s6)\<rparr>\<rparr>
              else if dlsym_found env s5
              then st0\<lparr>ncclCollNet_v7 := None, ncclCollNet_v6 := None, ncclCollNet_v5 := Some s5,
                      ncclCollNets := (ncclCollNets st0)[0 := Some Coll_v5_as_v8],
                      coll_v5_as_v8 := (coll_v5_as_v8 st0)
                        \<lparr>ct_init := Some (Ours Fn_Coll_v5_as_v8_init), ct_name := ct_name (coll_tab env s5)\<rparr>\<rparr>
              else st0\<lparr>ncclCollNet_v7 := None, ncclCollNet_v6 := None, ncclCollNet_v5 := None\<rparr>)"

text \<open>The label \<open>fail\<close>: the library is closed if it was opened, but the variable keeps its handle.\<close>

definition load_fail :: "'f Nccl \<Rightarrow> 'f Nccl" where
  "load_fail st =
     st\<lparr>lib_closed := (case netPluginLib st of None \<Rightarrow> lib_closed st | Some l \<Rightarrow> lib_closed st @ [l]),
        netPluginStatus := netPluginLoadFailed\<rparr>"

definition ncclNetPluginLoad :: "'f Net_Env \<Rightarrow> Comm \<Rightarrow> 'f Nccl \<Rightarrow> ncclResult_t \<times> Comm \<times> 'f Nccl" where
  "ncclNetPluginLoad env comm st =
     (if netPluginStatus st = netPluginLoadFailed then (ncclSuccess, comm, st)
      else if netPluginStatus st = netPluginLoadSuccess
      then (ncclSuccess, comm, st\<lparr>netPluginRefCount := netPluginRefCount st + 1\<rparr>)
      else let (lib, names) = openNetPluginLib env couldNotFindNames;
               st1 = st\<lparr>netPluginLib := lib\<rparr>
           in case lib of
                None \<Rightarrow> (ncclSuccess, comm, load_fail st1)
              | Some l \<Rightarrow>
                  let (found, st2) = find_net_table env l st1
                  in if \<not> found then (ncclSuccess, comm, load_fail st2)
                     else let st3 = find_coll_table env l st2
                          in (ncclSuccess, comm\<lparr>netPluginLoaded := True\<rparr>,
                              st3\<lparr>netPluginRefCount := netPluginRefCount st3 + 1,
                                  netPluginStatus := netPluginLoadSuccess\<rparr>))"

text \<open>The decrement is evaluated only for a communicator whose flag is set. Closing the null pointer
  would crash; a set flag means that a library is open (\<open>loader_invariant\<close> below).\<close>

definition ncclNetPluginUnload :: "Comm \<Rightarrow> 'f Nccl \<Rightarrow> ncclResult_t \<times> Comm \<times> 'f Nccl" where
  "ncclNetPluginUnload comm st =
     (if \<not> netPluginLoaded comm then (ncclSuccess, comm, st)
      else let st1 = st\<lparr>netPluginRefCount := netPluginRefCount st - 1\<rparr>
           in if netPluginRefCount st1 \<noteq> 0 then (ncclSuccess, comm, st1)
              else (ncclSuccess, comm\<lparr>netPluginLoaded := False\<rparr>,
                    st1\<lparr>lib_closed := lib_closed st1 @ [the (netPluginLib st1)],
                        netPluginLib := None, ncclNets := (ncclNets st1)[0 := None],
                        ncclCollNets := (ncclCollNets st1)[0 := None],
                        netPluginStatus := netPluginLoadReady\<rparr>))"

section \<open>Choosing a network\<close>

definition ncclNetCheckDeviceVersion :: "'f Net_Env \<Rightarrow> net_ref \<Rightarrow> int \<Rightarrow> ncclResult_t" where
  "ncclNetCheckDeviceVersion env net dev =
     (let (ans, props) = props_answer env net dev
      in if ans \<noteq> ncclSuccess then ans
         else if p8_netDeviceType props = 0 then ncclSuccess
         else if p8_netDeviceType props = NCCL_NET_DEVICE_UNPACK
         then (if p8_netDeviceVersion props = NCCL_NET_DEVICE_UNPACK_VERSION then ncclSuccess else ncclInternalError)
         else ncclInternalError)"

text \<open>Calling \<open>init\<close> through a table: for an adapter it is the adapter's.\<close>

definition call_init :: "'f Net_Env \<Rightarrow> net_ref \<Rightarrow> 'f Nccl \<Rightarrow> ncclResult_t \<times> 'f Nccl" where
  "call_init env r st =
     (let st1 = st\<lparr>inits_called := inits_called st @ [r]\<rparr>; ans = init_answer env r
      in case r of
           Net_v7_as_v8 \<Rightarrow>
             (let (res, t) = ncclNet_v7_as_v8_init ans (net_tab env (the (ncclNet_v7 st1))) (net_v7_as_v8 st1)
              in (res, st1\<lparr>net_v7_as_v8 := t\<rparr>))
         | Net_v6_as_v8 \<Rightarrow>
             (let (res, t) = ncclNet_v6_as_v8_init ans (net_tab env (the (ncclNet_v6 st1))) (net_v6_as_v8 st1)
              in (res, st1\<lparr>net_v6_as_v8 := t\<rparr>))
         | Net_v5_as_v8 \<Rightarrow>
             (let (res, t) = ncclNet_v5_as_v8_init ans (net_tab env (the (ncclNet_v5 st1))) (net_v5_as_v8 st1)
              in (res, st1\<lparr>net_v5_as_v8 := t\<rparr>))
         | _ \<Rightarrow> (ans, st1))"

definition call_coll_init :: "'f Net_Env \<Rightarrow> coll_ref \<Rightarrow> 'f Nccl \<Rightarrow> ncclResult_t \<times> 'f Nccl" where
  "call_coll_init env r st =
     (let ans = coll_init_answer env r
      in case r of
           Coll_v7_as_v8 \<Rightarrow>
             (let (res, t) = ncclCollNet_v7_as_v8_init ans (coll_tab env (the (ncclCollNet_v7 st))) (coll_v7_as_v8 st)
              in (res, st\<lparr>coll_v7_as_v8 := t\<rparr>))
         | Coll_v6_as_v8 \<Rightarrow>
             (let (res, t) = ncclCollNet_v6_as_v8_init ans (coll_tab env (the (ncclCollNet_v6 st))) (coll_v6_as_v8 st)
              in (res, st\<lparr>coll_v6_as_v8 := t\<rparr>))
         | Coll_v5_as_v8 \<Rightarrow>
             (let (res, t) = ncclCollNet_v5_as_v8_init ans (coll_tab env (the (ncclCollNet_v5 st))) (coll_v5_as_v8 st)
              in (res, st\<lparr>coll_v5_as_v8 := t\<rparr>))
         | Plugin_Coll_v8 _ \<Rightarrow> (ans, st))"

text \<open>The state of network \<open>i\<close>, found out at the first query. The callers have checked the pointer. The
  result code is always \<open>ncclSuccess\<close> and left out.\<close>

definition netGetState :: "'f Net_Env \<Rightarrow> nat \<Rightarrow> 'f Nccl \<Rightarrow> ncclNetState \<times> 'f Nccl" where
  "netGetState env i st =
     (if ncclNetStates st ! i = ncclNetStateInit
      then let r = the (ncclNets st ! i);
               (res, st1) = call_init env r st;
               s = (if res \<noteq> ncclSuccess then ncclNetStateDisabled
                    else let (dres, ndev) = devices_answer env r
                         in if dres \<noteq> ncclSuccess \<or> ndev \<le> 0 then ncclNetStateDisabled else ncclNetStateEnabled)
           in (s, st1\<lparr>ncclNetStates := (ncclNetStates st1)[i := s]\<rparr>)
      else (ncclNetStates st ! i, st))"

definition collNetGetState :: "'f Net_Env \<Rightarrow> nat \<Rightarrow> 'f Nccl \<Rightarrow> ncclNetState \<times> 'f Nccl" where
  "collNetGetState env i st =
     (if ncclCollNetStates st ! i = ncclNetStateInit
      then let r = the (ncclCollNets st ! i);
               (res, st1) = call_coll_init env r st;
               s = (if res \<noteq> ncclSuccess then ncclNetStateDisabled
                    else let (dres, ndev) = coll_devices_answer env r
                         in if dres \<noteq> ncclSuccess \<or> ndev \<le> 0 then ncclNetStateDisabled else ncclNetStateEnabled)
           in (s, st1\<lparr>ncclCollNetStates := (ncclCollNetStates st1)[i := s]\<rparr>)
      else (ncclCollNetStates st ! i, st))"

definition table_name :: "'f Net_Env \<Rightarrow> net_ref \<Rightarrow> 'f Nccl \<Rightarrow> string" where
  "table_name env r st =
     (case r of
        Plugin_Net_v8 l \<Rightarrow> nt_name (net_tab env (l, ''ncclNetPlugin_v8''))
      | Net_v7_as_v8 \<Rightarrow> nt_name (net_v7_as_v8 st)
      | Net_v6_as_v8 \<Rightarrow> nt_name (net_v6_as_v8 st)
      | Net_v5_as_v8 \<Rightarrow> nt_name (net_v5_as_v8 st)
      | ncclNetIb \<Rightarrow> ''IB''
      | ncclNetSocket \<Rightarrow> ''Socket'')"

text \<open>Whether network \<open>i\<close> passes the tests of one turn of the loop, and what the tests leave behind.\<close>

definition net_suits :: "'f Net_Env \<Rightarrow> string option \<Rightarrow> nat \<Rightarrow> 'f Nccl \<Rightarrow> bool \<times> 'f Nccl" where
  "net_suits env netName i st =
     (case ncclNets st ! i of
        None \<Rightarrow> (False, st)
      | Some r \<Rightarrow>
          let (s, st1) = netGetState env i st
          in (s = ncclNetStateEnabled \<and>
              (case netName of None \<Rightarrow> True | Some n \<Rightarrow> strcasecmp_eq n (table_name env r st1)) \<and>
              ncclNetCheckDeviceVersion env r 0 = ncclSuccess, st1))"

fun net_init_loop :: "'f Net_Env \<Rightarrow> nat list \<Rightarrow> Comm \<Rightarrow> 'f Nccl \<Rightarrow> bool \<times> Comm \<times> 'f Nccl" where
  "net_init_loop env [] comm st = (False, comm, st)"
| "net_init_loop env (i # is) comm st =
     (let (good, st1) = net_suits env (comm_netName comm) i st
      in if \<not> good then net_init_loop env is comm st1
         else let comm1 = comm\<lparr>comm_ncclNet := ncclNets st1 ! i\<rparr>
              in case ncclCollNets st1 ! i of
                   None \<Rightarrow> (True, comm1, st1)
                 | Some r \<Rightarrow>
                     let (s, st2) = collNetGetState env i st1
                     in (True, if s = ncclNetStateEnabled then comm1\<lparr>comm_ncclCollNet := Some r\<rparr> else comm1, st2))"

definition ncclNetInit :: "'f Net_Env \<Rightarrow> Comm \<Rightarrow> 'f Nccl \<Rightarrow> ncclResult_t \<times> Comm \<times> 'f Nccl" where
  "ncclNetInit env comm st =
     (let (good, comm1, st1) = net_init_loop env [0, 1, 2] comm st
      in (if good then ncclSuccess else ncclInvalidUsage, comm1, st1))"

definition ncclNetFinalize :: "Comm \<Rightarrow> ncclResult_t \<times> Comm" where
  "ncclNetFinalize comm = (ncclSuccess, comm\<lparr>comm_ncclNet := None, comm_ncclCollNet := None\<rparr>)"

definition ncclNetVersion :: "Comm \<Rightarrow> int" where
  "ncclNetVersion comm =
     (if comm_ncclNet comm = Some Net_v5_as_v8 then 5
      else if comm_ncclNet comm = Some Net_v6_as_v8 then 6
      else if comm_ncclNet comm = Some Net_v7_as_v8 then 7
      else 8)"

section \<open>The list of names stays in its buffer\<close>

lemma snprintf_at_length:
  "pos + n \<le> length buf \<Longrightarrow> length (snprintf_at buf pos n s) = length buf"
  by (auto simp: snprintf_at_def Let_def min_def)

definition names_ok :: "nat \<Rightarrow> name_list \<Rightarrow> bool" where
  "names_ok used nl \<longleftrightarrow>
     (case nl of (buf, pos, len) \<Rightarrow>
        length buf = MAX_PLUGIN_LOAD * PATH_MAX \<and> pos + len = MAX_PLUGIN_LOAD * PATH_MAX \<and> pos \<le> used * PATH_MAX)"

lemma tryOpenLibCheck_names_ok:
  assumes "names_ok k nl" "length name < PATH_MAX" "k < MAX_PLUGIN_LOAD"
  shows "names_ok (Suc k) (tryOpenLibCheck err nl name)"
  using assms
  by (cases nl) (auto simp: names_ok_def tryOpenLibCheck_def snprintf_at_length MAX_PLUGIN_LOAD_def PATH_MAX_def)

lemma names_ok_mono: "names_ok j nl \<Longrightarrow> j \<le> k \<Longrightarrow> names_ok k nl"
  by (cases nl) (auto simp: names_ok_def elim: order_trans)

lemma names_ok_end: "names_ok 0 nl \<Longrightarrow> names_ok MAX_PLUGIN_LOAD nl" "names_ok (Suc 0) nl \<Longrightarrow> names_ok MAX_PLUGIN_LOAD nl"
  by (erule names_ok_mono, simp add: MAX_PLUGIN_LOAD_def)+

lemma one_name_fits:
  assumes "names_ok 0 nl" "env_NCCL_NET_PLUGIN env = None \<or> env_NCCL_NET_PLUGIN env = Some []"
    "openNetPluginLib env nl = (lib, nl1)"
  shows "names_ok MAX_PLUGIN_LOAD nl1"
proof -
  obtain l1 e1 s1 where t1: "tryOpenLib env ''libnccl-net.so'' [] = (l1, e1, s1)" by (metis prod_cases3)
  have "names_ok (Suc 0) (tryOpenLibCheck e1 nl ''libnccl-net.so'')"
    by (rule tryOpenLibCheck_names_ok [OF assms(1)]) (simp_all add: PATH_MAX_def MAX_PLUGIN_LOAD_def)
  moreover have "nl1 \<in> {nl, tryOpenLibCheck e1 nl ''libnccl-net.so''}"
    using assms(2,3) t1 unfolding openNetPluginLib_def
    by (elim disjE; simp only: option.case list.case Let_def prod.case; auto split: if_splits)
  ultimately show ?thesis using assms(1) by (auto intro: names_ok_end)
qed

text \<open>Whatever the environment variable holds, the names of the libraries that were not found are written
  inside the buffer \<open>ncclNetPluginLoad\<close> has for them, and the room left is never negative.\<close>

theorem plugin_names_fit:
  assumes "names_ok 0 nl" "openNetPluginLib env nl = (lib, nl1)"
  shows "names_ok MAX_PLUGIN_LOAD nl1"
proof (cases "env_NCCL_NET_PLUGIN env")
  case None
  then show ?thesis using one_name_fits assms by blast
next
  case (Some v)
  show ?thesis
  proof (cases v)
    case Nil
    then show ?thesis using one_name_fits assms Some by blast
  next
    case (Cons c cs)
    let ?n = "take (PATH_MAX - 1) v"
    let ?m = "take (PATH_MAX - 1) (''libnccl-net-'' @ v @ ''.so'')"
    obtain l1 e1 s1 where t1: "tryOpenLib env ?n [] = (l1, e1, s1)" by (metis prod_cases3)
    obtain l2 e2 s2 where t2: "tryOpenLib env ?m s1 = (l2, e2, s2)" by (metis prod_cases3)
    have "length ?n < PATH_MAX" "length ?m < PATH_MAX" by (simp_all add: PATH_MAX_def)
    then have n1: "names_ok 1 (tryOpenLibCheck e1 nl ?n)"
      and n2: "names_ok MAX_PLUGIN_LOAD (tryOpenLibCheck e2 (tryOpenLibCheck e1 nl ?n) ?m)"
      using tryOpenLibCheck_names_ok [OF assms(1)] tryOpenLibCheck_names_ok [of 1]
      by (simp_all add: MAX_PLUGIN_LOAD_def numeral_2_eq_2)
    have "nl1 \<in> {nl, tryOpenLibCheck e1 nl ?n, tryOpenLibCheck e2 (tryOpenLibCheck e1 nl ?n) ?m}"
      using assms(2) Some Cons t1 t2 unfolding openNetPluginLib_def
      by (simp only: option.case list.case Let_def prod.case) (auto split: if_splits)
    then show ?thesis
      using assms(1) n1 n2 by (auto intro: names_ok_end)
  qed
qed

section \<open>Loading and dropping\<close>

lemma find_net_table_keeps:
  assumes "find_net_table env l st = (b, st1)"
  shows "netPluginRefCount st1 = netPluginRefCount st" "netPluginLib st1 = netPluginLib st"
    "netPluginStatus st1 = netPluginStatus st" "lib_closed st1 = lib_closed st"
    "ncclNetStates st1 = ncclNetStates st" "inits_called st1 = inits_called st"
    "length (ncclNets st1) = length (ncclNets st)"
    "i \<noteq> 0 \<Longrightarrow> ncclNets st1 ! i = ncclNets st ! i"
    "ncclNets st \<noteq> [] \<Longrightarrow> b \<longleftrightarrow> ncclNets st1 ! 0 \<noteq> None"
  using assms by (auto simp: find_net_table_def Let_def split: if_splits)

lemma find_coll_table_keeps [simp]:
  "netPluginRefCount (find_coll_table env l st) = netPluginRefCount st"
  "netPluginLib (find_coll_table env l st) = netPluginLib st"
  "netPluginStatus (find_coll_table env l st) = netPluginStatus st"
  "lib_closed (find_coll_table env l st) = lib_closed st"
  "ncclNetStates (find_coll_table env l st) = ncclNetStates st"
  "inits_called (find_coll_table env l st) = inits_called st"
  "ncclNets (find_coll_table env l st) = ncclNets st"
  by (simp_all add: find_coll_table_def Let_def)

text \<open>What a call of \<open>ncclNetPluginLoad\<close> can do.\<close>

lemma ncclNetPluginLoad_cases:
  assumes "ncclNetPluginLoad env comm st = (res, comm1, st1)"
  obtains (failed) "netPluginStatus st = netPluginLoadFailed" "comm1 = comm" "st1 = st"
  | (again) "netPluginStatus st = netPluginLoadSuccess" "comm1 = comm"
      "st1 = st\<lparr>netPluginRefCount := netPluginRefCount st + 1\<rparr>"
  | (none) "netPluginStatus st = netPluginLoadReady" "comm1 = comm"
      "st1 = load_fail (st\<lparr>netPluginLib := None\<rparr>)"
  | (no_table) l st2 where "netPluginStatus st = netPluginLoadReady" "comm1 = comm"
      "find_net_table env l (st\<lparr>netPluginLib := Some l\<rparr>) = (False, st2)" "st1 = load_fail st2"
  | (loaded) l st2 st3 where "netPluginStatus st = netPluginLoadReady" "comm1 = comm\<lparr>netPluginLoaded := True\<rparr>"
      "find_net_table env l (st\<lparr>netPluginLib := Some l\<rparr>) = (True, st2)" "st3 = find_coll_table env l st2"
      "st1 = st3\<lparr>netPluginRefCount := netPluginRefCount st3 + 1, netPluginStatus := netPluginLoadSuccess\<rparr>"
proof -
  obtain lib nl where op: "openNetPluginLib env couldNotFindNames = (lib, nl)" by (metis surj_pair)
  note a = assms [unfolded ncclNetPluginLoad_def Let_def op prod.case]
  show thesis
  proof (cases "netPluginStatus st")
    case netPluginLoadFailed
    with a have "comm1 = comm" "st1 = st" by simp_all
    with netPluginLoadFailed show thesis by (rule failed)
  next
    case netPluginLoadSuccess
    with a have "comm1 = comm" "st1 = st\<lparr>netPluginRefCount := netPluginRefCount st + 1\<rparr>" by simp_all
    with netPluginLoadSuccess show thesis by (rule again)
  next
    case ready: netPluginLoadReady
    show thesis
    proof (cases lib)
      case None
      with a ready have "comm1 = comm" "st1 = load_fail (st\<lparr>netPluginLib := None\<rparr>)" by simp_all
      with ready show thesis by (rule none)
    next
      case (Some l)
      obtain b st2 where f: "find_net_table env l (st\<lparr>netPluginLib := Some l\<rparr>) = (b, st2)" by force
      show thesis
      proof (cases b)
        case True
        with f have "find_net_table env l (st\<lparr>netPluginLib := Some l\<rparr>) = (True, st2)" by simp
        from loaded [OF ready _ this refl] show thesis using a ready Some f True by simp
      next
        case False
        with f have "find_net_table env l (st\<lparr>netPluginLib := Some l\<rparr>) = (False, st2)" by simp
        from no_table [OF ready _ this] show thesis using a ready Some f False by simp
      qed
    qed
  qed
qed

text \<open>Queries of the state of a network do not concern the loader.\<close>

definition loader_part where
  "loader_part st = (netPluginRefCount st, netPluginLib st, netPluginStatus st, lib_closed st, ncclNets st)"

lemma call_init_keeps:
  assumes "call_init env r st = (res, st1)"
  shows "loader_part st1 = loader_part st" "ncclNetStates st1 = ncclNetStates st"
    "inits_called st1 = inits_called st @ [r]"
  using assms by (auto simp: call_init_def loader_part_def Let_def split: net_ref.splits prod.splits)

lemma call_coll_init_keeps:
  assumes "call_coll_init env r st = (res, st1)"
  shows "loader_part st1 = loader_part st" "ncclNetStates st1 = ncclNetStates st" "inits_called st1 = inits_called st"
  using assms by (auto simp: call_coll_init_def loader_part_def Let_def split: coll_ref.splits prod.splits)

lemma netGetState_keeps:
  assumes "netGetState env i st = (s, st1)"
  shows "loader_part st1 = loader_part st" "j \<noteq> i \<Longrightarrow> ncclNetStates st1 ! j = ncclNetStates st ! j"
    "ncclNetStates st ! i \<noteq> ncclNetStateInit \<Longrightarrow> st1 = st \<and> s = ncclNetStates st ! i"
proof -
  obtain res st0 where c: "call_init env (the (ncclNets st ! i)) st = (res, st0)" by force
  have k: "loader_part (st0\<lparr>ncclNetStates := x\<rparr>) = loader_part st" for x
    using call_init_keeps(1) [OF c] by (simp add: loader_part_def)
  from assms show "loader_part st1 = loader_part st" "j \<noteq> i \<Longrightarrow> ncclNetStates st1 ! j = ncclNetStates st ! j"
    "ncclNetStates st ! i \<noteq> ncclNetStateInit \<Longrightarrow> st1 = st \<and> s = ncclNetStates st ! i"
    using k call_init_keeps(2) [OF c] by (auto simp: netGetState_def Let_def c split: if_splits)
qed

lemma collNetGetState_keeps:
  assumes "collNetGetState env i st = (s, st1)"
  shows "loader_part st1 = loader_part st" "inits_called st1 = inits_called st"
proof -
  obtain res st0 where c: "call_coll_init env (the (ncclCollNets st ! i)) st = (res, st0)" by force
  have k: "loader_part (st0\<lparr>ncclCollNetStates := x\<rparr>) = loader_part st" for x
    using call_coll_init_keeps(1) [OF c] by (simp add: loader_part_def)
  from assms show "loader_part st1 = loader_part st" "inits_called st1 = inits_called st"
    using k call_coll_init_keeps(3) [OF c] by (auto simp: collNetGetState_def Let_def c split: if_splits)
qed

lemma net_suits_keeps:
  assumes "net_suits env name i st = (b, st1)"
  shows "loader_part st1 = loader_part st" "j \<noteq> i \<Longrightarrow> ncclNetStates st1 ! j = ncclNetStates st ! j"
proof -
  obtain s st2 where g: "netGetState env i st = (s, st2)" by force
  from assms show "loader_part st1 = loader_part st" "j \<noteq> i \<Longrightarrow> ncclNetStates st1 ! j = ncclNetStates st ! j"
    using netGetState_keeps [OF g] by (auto simp: net_suits_def g split: option.splits)
qed

lemma net_init_loop_keeps:
  assumes "net_init_loop env is comm st = (b, comm1, st1)"
  shows "loader_part st1 = loader_part st \<and> netPluginLoaded comm1 = netPluginLoaded comm"
  using assms
proof (induction "is" arbitrary: st)
  case (Cons i "is")
  obtain good st2 where s: "net_suits env (comm_netName comm) i st = (good, st2)" by force
  obtain t st3 where c: "collNetGetState env i st2 = (t, st3)" by force
  show ?case
  proof (cases good)
    case False
    then show ?thesis using Cons s net_suits_keeps(1) [OF s] by simp
  next
    case True
    then show ?thesis
      using Cons.prems s c net_suits_keeps(1) [OF s] collNetGetState_keeps(1) [OF c]
      by (auto simp: Let_def split: option.splits if_splits)
  qed
qed simp

lemma ncclNetInit_keeps:
  assumes "ncclNetInit env comm st = (res, comm1, st1)"
  shows "loader_part st1 = loader_part st \<and> netPluginLoaded comm1 = netPluginLoaded comm"
proof -
  obtain b c s where l: "net_init_loop env [0, 1, 2] comm st = (b, c, s)" by (metis prod_cases3)
  with assms have "c = comm1" "s = st1" unfolding ncclNetInit_def l Let_def prod.case by simp_all
  with net_init_loop_keeps [OF l] show ?thesis by simp
qed

section \<open>The life of the loader\<close>

text \<open>Any number of communicators load the plugin, look for a network, let it go and unload the plugin,
  while the environment changes.\<close>

inductive loader_step :: "(nat \<Rightarrow> Comm) \<times> 'f Nccl \<Rightarrow> (nat \<Rightarrow> Comm) \<times> 'f Nccl \<Rightarrow> bool" where
  load: "ncclNetPluginLoad env (cs c) st = (res, cm, st1) \<Longrightarrow> loader_step (cs, st) (cs(c := cm), st1)"
| unload: "ncclNetPluginUnload (cs c) st = (res, cm, st1) \<Longrightarrow> loader_step (cs, st) (cs(c := cm), st1)"
| choose: "ncclNetInit env (cs c) st = (res, cm, st1) \<Longrightarrow> loader_step (cs, st) (cs(c := cm), st1)"
| finalize: "ncclNetFinalize (cs c) = (res, cm) \<Longrightarrow> loader_step (cs, st) (cs(c := cm), st)"

inductive loader_reach :: "(nat \<Rightarrow> Comm) \<times> 'f Nccl \<Rightarrow> bool" where
  start: "(\<forall>c. \<not> netPluginLoaded (cs c)) \<Longrightarrow> loader_reach (cs, nccl_start)"
| step: "loader_reach x \<Longrightarrow> loader_step x y \<Longrightarrow> loader_reach y"

text \<open>While a plugin is in use its library is open, its table is in place, the count is positive and one
  communicator has the flag; otherwise there is neither table nor count nor flag.\<close>

definition loader_inv :: "(nat \<Rightarrow> Comm) \<times> 'f Nccl \<Rightarrow> bool" where
  "loader_inv x \<longleftrightarrow>
     (case x of (cs, st) \<Rightarrow>
        length (ncclNets st) = 3 \<and> ncclNets st ! 1 = Some ncclNetIb \<and> ncclNets st ! 2 = Some ncclNetSocket \<and>
        (if netPluginStatus st = netPluginLoadSuccess
         then 0 < netPluginRefCount st \<and> netPluginLib st \<noteq> None \<and> ncclNets st ! 0 \<noteq> None \<and>
              (\<exists>!c. netPluginLoaded (cs c))
         else netPluginRefCount st = 0 \<and> ncclNets st ! 0 = None \<and> (\<forall>c. \<not> netPluginLoaded (cs c))))"

lemma flag_unchanged:
  assumes "netPluginLoaded cm = netPluginLoaded (cs c)"
  shows "netPluginLoaded ((cs(c := cm)) d) = netPluginLoaded (cs d)"
  using assms by simp

lemma loader_inv_load:
  assumes "loader_inv (cs, st)" "ncclNetPluginLoad env (cs c) st = (res, cm, st1)"
  shows "loader_inv (cs(c := cm), st1)"
  using assms(2)
proof (cases rule: ncclNetPluginLoad_cases)
  case failed
  with assms(1) show ?thesis by simp
next
  case again
  with assms(1) show ?thesis by (simp add: loader_inv_def)
next
  case none
  with assms(1) show ?thesis by (simp add: loader_inv_def load_fail_def)
next
  case (no_table l st2)
  note k = find_net_table_keeps [OF no_table(3)]
  have "ncclNets st \<noteq> []" using assms(1) by (auto simp: loader_inv_def)
  then have "ncclNets st1 ! 0 = None" using k(9) no_table(4) by (simp add: load_fail_def)
  with assms(1) no_table k(1,7) k(8) [of 1] k(8) [of 2] show ?thesis
    by (simp add: loader_inv_def load_fail_def)
next
  case (loaded l st2 st3)
  note k = find_net_table_keeps [OF loaded(3)]
  have "ncclNets st \<noteq> []" using assms(1) by (auto simp: loader_inv_def)
  then have "ncclNets st2 ! 0 \<noteq> None" using k(9) by simp
  moreover have "\<exists>!d. netPluginLoaded ((cs(c := cm)) d)"
    using assms(1) loaded(1,2) by (auto simp: loader_inv_def)
  ultimately show ?thesis
    using assms(1) loaded k(1,2,7) k(8) [of 1] k(8) [of 2] by (simp add: loader_inv_def)
qed

lemma loader_inv_unload:
  assumes "loader_inv (cs, st)" "ncclNetPluginUnload (cs c) st = (res, cm, st1)"
  shows "loader_inv (cs(c := cm), st1)"
proof (cases "netPluginLoaded (cs c)")
  case False
  with assms show ?thesis by (auto simp: ncclNetPluginUnload_def fun_upd_idem)
next
  case True
  with assms(1) have s: "netPluginStatus st = netPluginLoadSuccess" "0 < netPluginRefCount st"
    "\<exists>!d. netPluginLoaded (cs d)" by (auto simp: loader_inv_def split: if_splits)
  then have only: "d = c" if "netPluginLoaded (cs d)" for d using that True by blast
  show ?thesis
  proof (cases "netPluginRefCount st = 1")
    case False
    with assms True s have "cm = cs c" "st1 = st\<lparr>netPluginRefCount := netPluginRefCount st - 1\<rparr>"
      by (simp_all add: ncclNetPluginUnload_def Let_def)
    with assms(1) s False show ?thesis by (simp add: loader_inv_def)
  next
    case one: True
    with assms(2) True have "\<not> netPluginLoaded cm" "netPluginRefCount st1 = 0"
      "ncclNets st1 = (ncclNets st)[0 := None]" "netPluginStatus st1 = netPluginLoadReady"
      by (auto simp: ncclNetPluginUnload_def Let_def)
    with assms(1) only show ?thesis by (auto simp: loader_inv_def)
  qed
qed

lemma loader_inv_same:
  assumes "loader_inv (cs, st)" "loader_part st1 = loader_part st" "netPluginLoaded cm = netPluginLoaded (cs c)"
  shows "loader_inv (cs(c := cm), st1)"
  using assms flag_unchanged [of cm cs c] unfolding loader_inv_def loader_part_def by (simp cong: if_cong)

lemma loader_inv_step:
  assumes "loader_step x y" "loader_inv x"
  shows "loader_inv y"
  using assms
proof (cases rule: loader_step.cases)
  case (load env cs c st res cm st1)
  with assms(2) show ?thesis using loader_inv_load by blast
next
  case (unload cs c st res cm st1)
  with assms(2) show ?thesis using loader_inv_unload by blast
next
  case (choose env cs c st res cm st1)
  with assms(2) ncclNetInit_keeps [OF choose(3)] show ?thesis using loader_inv_same by blast
next
  case (finalize cs c res cm st)
  then have "netPluginLoaded cm = netPluginLoaded (cs c)" by (auto simp: ncclNetFinalize_def)
  with assms(2) finalize show ?thesis using loader_inv_same by blast
qed

text \<open>C25. Whatever communicators do in whatever order, the loader stays consistent: as long as a plugin counts as
  loaded its library is open, the count is positive and exactly one communicator will give it up; otherwise the
  first place of the networks is empty and no communicator has a claim, so nothing is closed twice.\<close>

theorem loader_invariant:
  assumes "loader_reach x"
  shows "loader_inv x"
  using assms
proof (induction rule: loader_reach.induct)
  case (start cs)
  then show ?case by (simp add: loader_inv_def nccl_start_def)
next
  case (step x y)
  then show ?case using loader_inv_step by blast
qed

text \<open>An example: a library with the handle 7 that has the tables of this plugin.\<close>

definition dedup_table :: "plugin_fn Net_Table" where
  "dedup_table =
     \<lparr>nt_name = net_name ncclNetPlugin_v8, nt_init = net_init ncclNetPlugin_v8,
      nt_devices = net_devices_fn ncclNetPlugin_v8, nt_getProperties = net_getProperties ncclNetPlugin_v8,
      nt_listen = net_listen ncclNetPlugin_v8, nt_connect = net_connect ncclNetPlugin_v8,
      nt_accept = net_accept ncclNetPlugin_v8, nt_regMr = net_regMr ncclNetPlugin_v8,
      nt_regMrDmaBuf = net_regMrDmaBuf ncclNetPlugin_v8, nt_deregMr = net_deregMr ncclNetPlugin_v8,
      nt_isend = net_isend ncclNetPlugin_v8, nt_irecv = net_irecv ncclNetPlugin_v8,
      nt_iflush = net_iflush ncclNetPlugin_v8, nt_test = net_test ncclNetPlugin_v8,
      nt_closeSend = net_closeSend ncclNetPlugin_v8, nt_closeRecv = net_closeRecv ncclNetPlugin_v8,
      nt_closeListen = net_closeListen ncclNetPlugin_v8, nt_getDeviceMr = net_getDeviceMr ncclNetPlugin_v8,
      nt_irecvConsumed = net_irecvConsumed ncclNetPlugin_v8\<rparr>"

definition dedup_symbols :: "string set" where
  "dedup_symbols = {''ncclNetPlugin_v8'', ''ncclNetPlugin_v7'', ''ncclCollNetPlugin_v8'', ''ncclCollNetPlugin_v7''}"

text \<open>The structure \<open>netDedup_getProperties_v8\<close> fills, read by NCCL.\<close>

definition read_props :: "Net_Properties \<Rightarrow> Props_v8" where
  "read_props p =
     \<lparr>p8_name = [], p8_pciPath = [], p8_guid = of_nat (np_guid p), p8_ptrSupport = np_cells p ! 0,
      p8_regIsGlobal = np_cells p ! 1, p8_speed = np_cells p ! 2, p8_port = np_cells p ! 3,
      p8_latency = word_of_int (np_cells p ! 4), p8_maxComms = np_cells p ! 5, p8_maxRecvs = np_cells p ! 6,
      p8_netDeviceType = np_cells p ! 7, p8_netDeviceVersion = np_cells p ! 8\<rparr>"

definition example_net_env :: "plugin_fn Net_Env" where
  "example_net_env =
     \<lparr>env_NCCL_NET_PLUGIN = Some ''dedup'',
      dlopen_answer = (\<lambda>n. if n = Some ''libnccl-net-dedup.so'' then Inl 7 else Inr ''dedup: No such file or directory''),
      dlsym_found = (\<lambda>(l, s). s \<in> dedup_symbols), net_tab = (\<lambda>_. dedup_table), coll_tab = (\<lambda>_. null_coll_table),
      init_answer = (\<lambda>_. ncclSuccess), devices_answer = (\<lambda>_. (ncclSuccess, 1)),
      props_answer = (\<lambda>_ d. let (r, p) = netDedup_getProperties_v8 one_device_world d (blank_props 9) in (r, read_props p)),
      coll_init_answer = (\<lambda>_. ncclSuccess), coll_devices_answer = (\<lambda>_. (ncclSuccess, 0))\<rparr>"

definition example_comm :: Comm where
  "example_comm = \<lparr>comm_netName = Some ''dedup'', netPluginLoaded = False, comm_ncclNet = None, comm_ncclCollNet = None\<rparr>"

lemma example_opens: "fst (openNetPluginLib example_net_env nl) = Some 7"
  by (simp add: openNetPluginLib_def tryOpenLib_def strcasecmp_eq_def to_lower_def example_net_env_def PATH_MAX_def
      Let_def split: prod.splits)

definition loaded_state :: "plugin_fn Nccl" where
  "loaded_state = nccl_start\<lparr>netPluginLib := Some 7,
     ncclNets := [Some (Plugin_Net_v8 7), Some ncclNetIb, Some ncclNetSocket],
     ncclCollNets := [Some (Plugin_Coll_v8 7), None, None], netPluginRefCount := 1,
     netPluginStatus := netPluginLoadSuccess\<rparr>"

lemma example_loads:
  "ncclNetPluginLoad example_net_env c nccl_start = (ncclSuccess, c\<lparr>netPluginLoaded := True\<rparr>, loaded_state)"
proof -
  obtain nl where op: "openNetPluginLib example_net_env couldNotFindNames = (Some 7, nl)"
    using example_opens [of couldNotFindNames] by (metis prod.collapse)
  have f: "dlsym_found example_net_env (7, x) \<longleftrightarrow> x \<in> dedup_symbols" for x by (simp add: example_net_env_def)
  show ?thesis
    by (simp add: ncclNetPluginLoad_def op find_net_table_def find_coll_table_def nccl_start_def f
        dedup_symbols_def loaded_state_def)
qed

theorem loader_invariant_witness:
  "loader_inv ((\<lambda>_. example_comm)(0 := fst (snd (ncclNetPluginLoad example_net_env example_comm nccl_start))),
     snd (snd (ncclNetPluginLoad example_net_env example_comm nccl_start)))"
proof -
  have "loader_reach (\<lambda>_. example_comm, nccl_start)"
    by (rule loader_reach.start) (simp add: example_comm_def)
  moreover have "loader_step (\<lambda>_. example_comm, nccl_start)
    ((\<lambda>_. example_comm)(0 := fst (snd (ncclNetPluginLoad example_net_env example_comm nccl_start))),
     snd (snd (ncclNetPluginLoad example_net_env example_comm nccl_start)))"
    by (rule loader_step.load [where env = example_net_env and res = ncclSuccess]) (simp add: example_loads)
  ultimately show ?thesis by (rule loader_invariant [OF loader_reach.step])
qed

theorem plugin_names_fit_witness:
  "names_ok MAX_PLUGIN_LOAD (snd (openNetPluginLib example_net_env couldNotFindNames))"
  by (rule plugin_names_fit [OF _ prod.collapse [symmetric]])
    (simp add: names_ok_def couldNotFindNames_def)

section \<open>A second communicator\<close>

lemma load_again:
  assumes "netPluginStatus st = netPluginLoadSuccess"
  shows "ncclNetPluginLoad env b st = (ncclSuccess, b, st\<lparr>netPluginRefCount := netPluginRefCount st + 1\<rparr>)"
  using assms by (simp add: ncclNetPluginLoad_def)

text \<open>C34. A communicator that finds the plugin loaded raises the count, but gets no flag, so its unloading does not
  lower it: once two communicators have loaded the plugin and both have unloaded it, in either order, the library
  is still open and counted.\<close>

theorem second_communicator_keeps_plugin:
  assumes "netPluginStatus st = netPluginLoadReady" "netPluginRefCount st = 0" "\<not> netPluginLoaded b"
    "ncclNetPluginLoad env a st = (res, a1, st1)" "netPluginStatus st1 = netPluginLoadSuccess"
    "ncclNetPluginLoad env1 b st1 = (res1, b1, st2)"
    "ncclNetPluginUnload x st2 = (res2, x1, st3)" "ncclNetPluginUnload y st3 = (res3, y1, st4)"
    "(x, y) = (a1, b1) \<or> (x, y) = (b1, a1)"
  shows "netPluginStatus st4 = netPluginLoadSuccess \<and> netPluginRefCount st4 = 1 \<and>
    lib_closed st4 = lib_closed st1 \<and> netPluginLib st4 = netPluginLib st1"
proof -
  from assms(4) have "netPluginRefCount st1 = 1 \<and> netPluginLoaded a1"
    by (cases rule: ncclNetPluginLoad_cases)
      (use assms(1,2,5) in \<open>auto simp: load_fail_def dest: find_net_table_keeps(1)\<close>)
  then have one: "netPluginRefCount st1 = 1" "netPluginLoaded a1" by simp_all
  from assms(6) have two: "b1 = b" "st2 = st1\<lparr>netPluginRefCount := 2\<rparr>"
    using load_again [OF assms(5), of env1 b] one by simp_all
  have a: "ncclNetPluginUnload a1 st2 = (ncclSuccess, a1, st1)"
    using one by (simp add: ncclNetPluginUnload_def two Let_def)
  have b: "ncclNetPluginUnload b1 s = (ncclSuccess, b1, s)" for s :: "'a Nccl"
    using assms(3) by (simp add: ncclNetPluginUnload_def two)
  from assms(7,8,9) a b have "st4 = st1" by auto
  with one assms(5) show ?thesis by simp
qed

theorem second_communicator_keeps_plugin_witness:
  "let (r, a1, st1) = ncclNetPluginLoad example_net_env example_comm nccl_start;
       (r1, b1, st2) = ncclNetPluginLoad example_net_env example_comm st1;
       (r2, a2, st3) = ncclNetPluginUnload a1 st2;
       (r3, b2, st4) = ncclNetPluginUnload b1 st3
   in netPluginStatus st4 = netPluginLoadSuccess \<and> netPluginRefCount st4 = 1 \<and>
      lib_closed st4 = lib_closed st1 \<and> netPluginLib st4 = netPluginLib st1"
proof -
  obtain r a1 st1 where l1: "ncclNetPluginLoad example_net_env example_comm nccl_start = (r, a1, st1)" by (metis prod_cases3)
  obtain r1 b1 st2 where l2: "ncclNetPluginLoad example_net_env example_comm st1 = (r1, b1, st2)" by (metis prod_cases3)
  obtain r2 a2 st3 where u1: "ncclNetPluginUnload a1 st2 = (r2, a2, st3)" by (metis prod_cases3)
  obtain r3 b2 st4 where u2: "ncclNetPluginUnload b1 st3 = (r3, b2, st4)" by (metis prod_cases3)
  have s: "netPluginStatus (nccl_start :: plugin_fn Nccl) = netPluginLoadReady"
    "netPluginRefCount (nccl_start :: plugin_fn Nccl) = 0" "\<not> netPluginLoaded example_comm"
    by (simp_all add: nccl_start_def example_comm_def)
  have "netPluginStatus st1 = netPluginLoadSuccess" using l1 by (auto simp: example_loads loaded_state_def)
  then have "netPluginStatus st4 = netPluginLoadSuccess \<and> netPluginRefCount st4 = 1 \<and>
      lib_closed st4 = lib_closed st1 \<and> netPluginLib st4 = netPluginLib st1"
    using second_communicator_keeps_plugin [OF s l1 _ l2 u1 u2] by blast
  then show ?thesis by (simp only: l1 l2 u1 u2 Let_def prod.case)
qed

section \<open>The network that is chosen\<close>

text \<open>The internal networks keep their places, and querying one network does not change what is found out
  about another.\<close>

definition nets_in_place :: "'f Nccl \<Rightarrow> bool" where
  "nets_in_place st \<longleftrightarrow> length (ncclNets st) = 3 \<and> ncclNets st ! 1 = Some ncclNetIb \<and> ncclNets st ! 2 = Some ncclNetSocket"

abbreviation suits :: "'f Net_Env \<Rightarrow> string option \<Rightarrow> 'f Nccl \<Rightarrow> nat \<Rightarrow> bool" where
  "suits env name st i \<equiv> fst (net_suits env name i st)"

lemma internal_name [simp]: "table_name env ncclNetIb st = ''IB''" "table_name env ncclNetSocket st = ''Socket''"
  by (simp_all add: table_name_def)

lemma netGetState_internal:
  assumes "ncclNets st ! i = ncclNets st1 ! i" "ncclNets st ! i \<in> {Some ncclNetIb, Some ncclNetSocket}"
    "ncclNetStates st1 ! i = ncclNetStates st ! i"
  shows "fst (netGetState env i st1) = fst (netGetState env i st)"
  using assms by (auto simp: netGetState_def call_init_def Let_def split: prod.splits)

lemma internal_suits:
  assumes "nets_in_place st" "nets_in_place st1" "ncclNetStates st1 ! i = ncclNetStates st ! i" "i \<in> {1, 2}"
  shows "suits env name st1 i \<longleftrightarrow> suits env name st i"
proof -
  obtain r where r: "ncclNets st ! i = Some r" "ncclNets st1 ! i = Some r" "r \<in> {ncclNetIb, ncclNetSocket}"
    using assms by (auto simp: nets_in_place_def)
  have "fst (netGetState env i st1) = fst (netGetState env i st)"
    using assms(3) r by (intro netGetState_internal) auto
  with r show ?thesis by (cases name) (auto simp: net_suits_def split: prod.splits)
qed

lemma netInit_first_suits:
  assumes "nets_in_place st" "ncclNetInit env comm st = (res, comm1, st1)"
  shows "(res = ncclSuccess \<and>
          (\<exists>i<3. suits env (comm_netName comm) st i \<and> (\<forall>j<i. \<not> suits env (comm_netName comm) st j) \<and>
                 comm_ncclNet comm1 = ncclNets st ! i)) \<or>
         (res = ncclInvalidUsage \<and> comm1 = comm \<and> (\<forall>i<3. \<not> suits env (comm_netName comm) st i))"
proof -
  let ?n = "comm_netName comm"
  obtain b0 s0 where n0: "net_suits env ?n 0 st = (b0, s0)" by force
  obtain b1 s1 where n1: "net_suits env ?n 1 s0 = (b1, s1)" by force
  obtain b2 s2 where n2: "net_suits env ?n 2 s1 = (b2, s2)" by force
  have nets: "ncclNets s0 = ncclNets st" "ncclNets s1 = ncclNets st" "ncclNets s2 = ncclNets st"
    using net_suits_keeps(1) [OF n0] net_suits_keeps(1) [OF n1] net_suits_keeps(1) [OF n2]
    by (simp_all add: loader_part_def)
  then have place: "nets_in_place s0" "nets_in_place s1" using assms(1) by (simp_all add: nets_in_place_def)
  have e1: "b1 \<longleftrightarrow> suits env ?n st 1"
    using internal_suits [OF assms(1) place(1) net_suits_keeps(2) [OF n0, of 1], of env ?n] n1 by simp
  have e2: "b2 \<longleftrightarrow> suits env ?n st 2"
    using internal_suits [OF assms(1) place(2), of 2 env ?n] net_suits_keeps(2) [OF n0, of 2]
      net_suits_keeps(2) [OF n1, of 2] n2 by simp
  have e0: "b0 \<longleftrightarrow> suits env ?n st 0" using n0 by simp
  have taken: "comm_ncclNet c = ncclNets st ! i"
    if "(case ncclCollNets s ! i of None \<Rightarrow> (True, comm\<lparr>comm_ncclNet := ncclNets s ! i\<rparr>, s)
         | Some r \<Rightarrow> let (x, y) = collNetGetState env i s
                     in (True, if x = ncclNetStateEnabled then comm\<lparr>comm_ncclNet := ncclNets s ! i, comm_ncclCollNet := Some r\<rparr>
                               else comm\<lparr>comm_ncclNet := ncclNets s ! i\<rparr>, y)) = (g, c, t)"
       "ncclNets s = ncclNets st" for g c t s i
    using that by (auto split: option.splits prod.splits if_splits)
  note a = assms(2) [unfolded ncclNetInit_def net_init_loop.simps n0 n1 n2 Let_def prod.case]
  consider "b0" | "\<not> b0" "b1" | "\<not> b0" "\<not> b1" "b2" | "\<not> b0" "\<not> b1" "\<not> b2" by blast
  then show ?thesis
  proof cases
    case 1
    have "res = ncclSuccess \<and> comm_ncclNet comm1 = ncclNets st ! 0"
      using a 1 nets taken [of s0 0] by (auto split: option.splits prod.splits if_splits)
    moreover have "suits env ?n st 0" using 1 e0 by simp
    ultimately show ?thesis by (intro disjI1) (auto intro: exI [of _ 0])
  next
    case 2
    have "res = ncclSuccess \<and> comm_ncclNet comm1 = ncclNets st ! 1"
      using a 2 nets taken [of s1 1] by (auto split: option.splits prod.splits if_splits)
    moreover have "suits env ?n st 1" "\<not> suits env ?n st 0" using 2 e0 e1 by simp_all
    ultimately show ?thesis by (intro disjI1) (auto intro!: exI [of _ 1])
  next
    case 3
    have "res = ncclSuccess \<and> comm_ncclNet comm1 = ncclNets st ! 2"
      using a 3 nets taken [of s2 2] by (auto split: option.splits prod.splits if_splits)
    moreover have "suits env ?n st 2" "\<not> suits env ?n st 0" "\<not> suits env ?n st 1" using 3 e0 e1 e2 by simp_all
    ultimately show ?thesis by (intro disjI1) (auto intro!: exI [of _ 2] simp: less_Suc_eq numeral_2_eq_2)
  next
    case 4
    then have "res = ncclInvalidUsage \<and> comm1 = comm" using a by simp
    moreover have "\<not> suits env ?n st i" if "i < 3" for i
      using that 4 e0 e1 e2 by (auto simp: less_Suc_eq numeral_3_eq_3 numeral_2_eq_2)
    ultimately show ?thesis by blast
  qed
qed

text \<open>What makes a network usable, said by what the network and the user answer: it is there; it has been
  found to work, or it has not been asked and its initialisation succeeds and it has a device; the name the user
  asks for, if any, is the one it advertises (an adapter shows the name of the table it wraps); and the properties
  of its first device name no device offload or the one version of it this build knows.\<close>

definition advertised_name :: "'f Net_Env \<Rightarrow> 'f Nccl \<Rightarrow> nat \<Rightarrow> net_ref \<Rightarrow> string" where
  "advertised_name env st i r =
     (if ncclNetStates st ! i = ncclNetStateInit
      then (case r of
              Net_v7_as_v8 \<Rightarrow> nt_name (net_tab env (the (ncclNet_v7 st)))
            | Net_v6_as_v8 \<Rightarrow> nt_name (net_tab env (the (ncclNet_v6 st)))
            | Net_v5_as_v8 \<Rightarrow> nt_name (net_tab env (the (ncclNet_v5 st)))
            | _ \<Rightarrow> table_name env r st)
      else table_name env r st)"

definition net_usable :: "'f Net_Env \<Rightarrow> string option \<Rightarrow> 'f Nccl \<Rightarrow> nat \<Rightarrow> bool" where
  "net_usable env name st i \<longleftrightarrow>
     (\<exists>r props. ncclNets st ! i = Some r \<and>
        (ncclNetStates st ! i = ncclNetStateEnabled \<or>
         ncclNetStates st ! i = ncclNetStateInit \<and> init_answer env r = ncclSuccess \<and>
           fst (devices_answer env r) = ncclSuccess \<and> 0 < snd (devices_answer env r)) \<and>
        (\<forall>n. name = Some n \<longrightarrow> strcasecmp_eq n (advertised_name env st i r)) \<and>
        props_answer env r 0 = (ncclSuccess, props) \<and>
        (p8_netDeviceType props = 0 \<or>
         p8_netDeviceType props = NCCL_NET_DEVICE_UNPACK \<and> p8_netDeviceVersion props = NCCL_NET_DEVICE_UNPACK_VERSION))"

lemma call_init_result:
  assumes "call_init env r st = (res, st1)"
  shows "res = init_answer env r" "ncclNetStates st ! i = ncclNetStateInit \<Longrightarrow> res = ncclSuccess \<Longrightarrow>
    table_name env r (st1\<lparr>ncclNetStates := x\<rparr>) = advertised_name env st i r"
  using assms
  by (cases r; auto simp: call_init_def Let_def ncclNet_v7_as_v8_init_def ncclNet_v6_as_v8_init_def ncclNet_v5_as_v8_init_def
      table_name_def advertised_name_def split: prod.splits if_splits)+

lemma check_device_version:
  "ncclNetCheckDeviceVersion env r 0 = ncclSuccess \<longleftrightarrow>
     (\<exists>props. props_answer env r 0 = (ncclSuccess, props) \<and>
        (p8_netDeviceType props = 0 \<or>
         p8_netDeviceType props = NCCL_NET_DEVICE_UNPACK \<and> p8_netDeviceVersion props = NCCL_NET_DEVICE_UNPACK_VERSION))"
  by (cases "props_answer env r 0") (auto simp: ncclNetCheckDeviceVersion_def)

lemma suits_usable: "suits env name st i \<longleftrightarrow> net_usable env name st i"
proof (cases "ncclNets st ! i")
  case None
  then show ?thesis by (simp add: net_suits_def net_usable_def)
next
  case (Some r)
  obtain s st1 where g: "netGetState env i st = (s, st1)" by force
  have state: "s = ncclNetStateEnabled \<longleftrightarrow> ncclNetStates st ! i = ncclNetStateEnabled \<or>
      ncclNetStates st ! i = ncclNetStateInit \<and> init_answer env r = ncclSuccess \<and>
        fst (devices_answer env r) = ncclSuccess \<and> 0 < snd (devices_answer env r)"
    and name: "s = ncclNetStateEnabled \<Longrightarrow> table_name env r st1 = advertised_name env st i r"
  proof -
    obtain res st2 where c: "call_init env r st = (res, st2)" by force
    note res = call_init_result(1) [OF c] and nm = call_init_result(2) [OF c, of i]
    show "s = ncclNetStateEnabled \<longleftrightarrow> ncclNetStates st ! i = ncclNetStateEnabled \<or>
      ncclNetStates st ! i = ncclNetStateInit \<and> init_answer env r = ncclSuccess \<and>
        fst (devices_answer env r) = ncclSuccess \<and> 0 < snd (devices_answer env r)"
      using g res by (cases "devices_answer env r") (auto simp: netGetState_def Some c Let_def split: if_splits)
    show "s = ncclNetStateEnabled \<Longrightarrow> table_name env r st1 = advertised_name env st i r"
      using g nm by (cases "ncclNetStates st ! i = ncclNetStateInit")
        (auto simp: netGetState_def Some c Let_def advertised_name_def split: if_splits)
  qed
  have "suits env name st i \<longleftrightarrow> s = ncclNetStateEnabled \<and>
      (\<forall>n. name = Some n \<longrightarrow> strcasecmp_eq n (table_name env r st1)) \<and> ncclNetCheckDeviceVersion env r 0 = ncclSuccess"
    by (cases name) (simp_all add: net_suits_def Some g)
  then show ?thesis
    unfolding check_device_version net_usable_def Some using state name by auto
qed

text \<open>C17. \<open>ncclNetInit\<close> takes the first usable network in the order plugin, InfiniBand, sockets, where usable is said by
  what networks and user answer (\<open>net_usable\<close>): it initialises, has a device, has the name asked for, in upper or
  lower case, and a device offload this build knows, or none. It fails exactly when there is no usable network.\<close>

theorem netInit_takes_first_suitable:
  assumes "nets_in_place st" "ncclNetInit env comm st = (res, comm1, st1)"
  shows "(res = ncclSuccess \<and>
          (\<exists>i<3. net_usable env (comm_netName comm) st i \<and> (\<forall>j<i. \<not> net_usable env (comm_netName comm) st j) \<and>
                 comm_ncclNet comm1 = ncclNets st ! i)) \<or>
         (res = ncclInvalidUsage \<and> comm1 = comm \<and> (\<forall>i<3. \<not> net_usable env (comm_netName comm) st i))"
  using netInit_first_suits [OF assms] unfolding suits_usable .

lemma socket_named: "strcasecmp_eq ''socket'' ''Socket''"
  by code_simp

theorem netInit_takes_first_suitable_witness:
  "comm_ncclNet (fst (snd (ncclNetInit (example_net_env\<lparr>init_answer := \<lambda>r. if r = ncclNetIb then ncclInternalError else ncclSuccess\<rparr>)
      (example_comm\<lparr>comm_netName := Some ''socket''\<rparr>) nccl_start))) = Some ncclNetSocket"
  (is "comm_ncclNet (fst (snd ?r)) = _")
proof -
  let ?e = "example_net_env\<lparr>init_answer := \<lambda>r. if r = ncclNetIb then ncclInternalError else ncclSuccess\<rparr>"
  obtain res c s where r: "?r = (res, c, s)" by (metis prod_cases3)
  have p: "nets_in_place (nccl_start :: plugin_fn Nccl)" by (simp add: nets_in_place_def nccl_start_def)
  have no: "\<not> net_usable ?e (Some ''socket'') nccl_start 0" "\<not> net_usable ?e (Some ''socket'') nccl_start 1"
    by (simp_all add: net_usable_def nccl_start_def)
  have yes: "net_usable ?e (Some ''socket'') nccl_start 2"
    by (simp add: net_usable_def nccl_start_def advertised_name_def example_net_env_def socket_named netDedup_getProperties_v8_def one_device_world_def
        read_props_def blank_props_def write_prefix_def NCCL_NET_DEVICE_HOST_def)
  have "comm_ncclNet c = ncclNets (nccl_start :: plugin_fn Nccl) ! 2"
    using netInit_takes_first_suitable [OF p r] no yes
    by (auto simp: less_Suc_eq numeral_3_eq_3 numeral_2_eq_2)
  also have "\<dots> = Some ncclNetSocket" by (simp add: nccl_start_def)
  finally show ?thesis by (simp add: r)
qed

section \<open>The state outlives the library\<close>

text \<open>C35. What was found out about the first network is kept when its library is closed: after another library
  has been loaded, \<open>ncclNetInit\<close> hands its table to the communicator without having called its \<open>init\<close>.\<close>

theorem reloaded_plugin_not_initialised:
  assumes "loader_reach (cs, st)" "netPluginStatus st = netPluginLoadReady"
    "ncclNetStates st ! 0 = ncclNetStateEnabled"
    "ncclNetPluginLoad env comm st = (res, comm1, st1)" "netPluginStatus st1 = netPluginLoadSuccess"
    "ncclNets st1 ! 0 = Some r" "comm_netName comm = None" "ncclNetCheckDeviceVersion env r 0 = ncclSuccess"
    "ncclNetInit env comm1 st1 = (res1, comm2, st2)"
  shows "res1 = ncclSuccess \<and> comm_ncclNet comm2 = Some r \<and> inits_called st2 = inits_called st"
proof -
  have k: "ncclNetStates st1 ! 0 = ncclNetStateEnabled \<and> inits_called st1 = inits_called st \<and> comm_netName comm1 = None"
    using assms(4)
    by (cases rule: ncclNetPluginLoad_cases)
      (use assms(2,3,5,7) in \<open>auto simp: load_fail_def dest: find_net_table_keeps(5,6)\<close>)
  then have "net_suits env None 0 st1 = (True, st1)"
    using assms(6,8) by (simp add: net_suits_def netGetState_def)
  moreover obtain s st3 where c: "collNetGetState env 0 st1 = (s, st3)" by force
  ultimately show ?thesis
    using assms(9) k assms(6) collNetGetState_keeps(2) [OF c]
    by (auto simp: ncclNetInit_def c Let_def split: option.splits if_splits)
qed

text \<open>One communicator loads the library with the handle 7, chooses its network, unloads it; then a library with the
  handle 8 is loaded.\<close>

definition second_env :: "plugin_fn Net_Env" where
  "second_env = example_net_env\<lparr>env_NCCL_NET_PLUGIN := None, dlopen_answer := \<lambda>_. Inl 8\<rparr>"

definition any_comm :: Comm where
  "any_comm = example_comm\<lparr>comm_netName := None\<rparr>"

lemma example_props_ok: "ncclNetCheckDeviceVersion example_net_env r 0 = ncclSuccess"
  by (simp add: ncclNetCheckDeviceVersion_def example_net_env_def netDedup_getProperties_v8_def one_device_world_def
      read_props_def blank_props_def write_prefix_def NCCL_NET_DEVICE_HOST_def)

definition after_first :: "plugin_fn Nccl" where
  "after_first = nccl_start\<lparr>lib_closed := [7], inits_called := [Plugin_Net_v8 7],
     ncclNetStates := [ncclNetStateEnabled, ncclNetStateInit, ncclNetStateInit],
     ncclCollNetStates := [ncclNetStateDisabled, ncclNetStateInit, ncclNetStateInit]\<rparr>"

definition chosen_state :: "plugin_fn Nccl" where
  "chosen_state = loaded_state\<lparr>inits_called := [Plugin_Net_v8 7],
     ncclNetStates := [ncclNetStateEnabled, ncclNetStateInit, ncclNetStateInit],
     ncclCollNetStates := [ncclNetStateDisabled, ncclNetStateInit, ncclNetStateInit]\<rparr>"

lemma first_round:
  "ncclNetInit example_net_env (any_comm\<lparr>netPluginLoaded := True\<rparr>) loaded_state =
   (ncclSuccess, any_comm\<lparr>netPluginLoaded := True, comm_ncclNet := Some (Plugin_Net_v8 7)\<rparr>,
    chosen_state)"
proof -
  have a: "init_answer example_net_env r = ncclSuccess" "devices_answer example_net_env r = (ncclSuccess, 1)"
    "coll_init_answer example_net_env q = ncclSuccess" "coll_devices_answer example_net_env q = (ncclSuccess, 0)" for r q
    by (simp_all add: example_net_env_def)
  show ?thesis
    by (simp add: chosen_state_def loaded_state_def ncclNetInit_def net_suits_def netGetState_def call_init_def collNetGetState_def
        call_coll_init_def nccl_start_def any_comm_def example_comm_def a example_props_ok Let_def)
qed

lemma after_first_reached: "\<exists>cs. loader_reach (cs, after_first)"
proof -
  let ?c0 = "\<lambda>_ :: nat. any_comm"
  let ?a = "any_comm\<lparr>netPluginLoaded := True\<rparr>" and ?b = "any_comm\<lparr>netPluginLoaded := True, comm_ncclNet := Some (Plugin_Net_v8 7)\<rparr>"
  have "loader_reach (?c0, nccl_start :: plugin_fn Nccl)"
    by (rule loader_reach.start) (simp add: any_comm_def example_comm_def)
  moreover have "loader_step (?c0, nccl_start) (?c0(0 := ?a), loaded_state)"
    by (rule loader_step.load [where env = example_net_env and res = ncclSuccess]) (rule example_loads)
  moreover have "loader_step (?c0(0 := ?a), loaded_state) (?c0(0 := ?a, 0 := ?b), chosen_state)"
    by (rule loader_step.choose [where env = example_net_env and res = ncclSuccess]) (simp only: fun_upd_same first_round)
  moreover have "loader_step (?c0(0 := ?a, 0 := ?b), chosen_state)
      (?c0(0 := ?a, 0 := ?b, 0 := ?b\<lparr>netPluginLoaded := False\<rparr>), after_first)"
    by (rule loader_step.unload [where res = ncclSuccess])
      (simp add: ncclNetPluginUnload_def chosen_state_def loaded_state_def after_first_def nccl_start_def)
  ultimately show ?thesis by (blast intro: loader_reach.step)
qed

lemma second_load:
  "ncclNetPluginLoad second_env c after_first =
     (ncclSuccess, c\<lparr>netPluginLoaded := True\<rparr>,
      after_first\<lparr>netPluginLib := Some 8, ncclNets := [Some (Plugin_Net_v8 8), Some ncclNetIb, Some ncclNetSocket],
        ncclCollNets := [Some (Plugin_Coll_v8 8), None, None], netPluginRefCount := 1,
        netPluginStatus := netPluginLoadSuccess\<rparr>)"
proof -
  have "tryOpenLib second_env x [] = (Some 8, 0, [])" if "x \<noteq> []" for x
    using that by (simp add: tryOpenLib_def second_env_def)
  then have op: "openNetPluginLib second_env couldNotFindNames = (Some 8, couldNotFindNames)"
    by (simp add: openNetPluginLib_def second_env_def)
  have f: "dlsym_found second_env (8, x) \<longleftrightarrow> x \<in> dedup_symbols" for x by (simp add: example_net_env_def second_env_def)
  show ?thesis
    by (simp add: ncclNetPluginLoad_def op find_net_table_def find_coll_table_def nccl_start_def f
        dedup_symbols_def after_first_def)
qed

theorem reloaded_plugin_not_initialised_witness:
  "let (res, c1, st1) = ncclNetPluginLoad second_env any_comm after_first;
       (res1, c2, st2) = ncclNetInit second_env c1 st1
   in comm_ncclNet c2 = Some (Plugin_Net_v8 8) \<and> inits_called st2 = [Plugin_Net_v8 7]"
proof -
  obtain cs where r: "loader_reach (cs, after_first)" using after_first_reached by blast
  obtain res1 c2 st2 where i: "ncclNetInit second_env (fst (snd (ncclNetPluginLoad second_env any_comm after_first)))
      (snd (snd (ncclNetPluginLoad second_env any_comm after_first))) = (res1, c2, st2)" by (metis prod_cases3)
  have "ncclNetCheckDeviceVersion second_env (Plugin_Net_v8 8) 0 = ncclSuccess"
    using example_props_ok [of "Plugin_Net_v8 8"] by (simp add: ncclNetCheckDeviceVersion_def second_env_def)
  then have "res1 = ncclSuccess \<and> comm_ncclNet c2 = Some (Plugin_Net_v8 8) \<and> inits_called st2 = inits_called after_first"
    using reloaded_plugin_not_initialised [OF r _ _ second_load _ _ _ _ i [unfolded second_load fst_conv snd_conv],
        of "Plugin_Net_v8 8"]
    by (simp add: after_first_def nccl_start_def any_comm_def)
  moreover have "inits_called after_first = [Plugin_Net_v8 7]" by (simp add: after_first_def)
  ultimately show ?thesis using i [unfolded second_load fst_conv snd_conv] by (simp only: second_load prod.case Let_def)
qed

section \<open>This plugin\<close>

text \<open>C18. NCCL given the library of this repository takes its version 8 table, unless another network is asked for by name:
  the table is found first, its device query answers with a device without offload, and the name is compared
  without regard to case.\<close>

theorem dedup_plugin_is_chosen:
  assumes "nets_in_place st" "netPluginStatus st = netPluginLoadReady" "ncclNetStates st ! 0 = ncclNetStateInit"
    "fst (openNetPluginLib env couldNotFindNames) = Some l" "\<And>x. dlsym_found env (l, x) \<longleftrightarrow> x \<in> dedup_symbols"
    "net_tab env (l, ''ncclNetPlugin_v8'') = dedup_table" "init_answer env (Plugin_Net_v8 l) = ncclSuccess"
    "devices_answer env (Plugin_Net_v8 l) = netDedup_devices w" "0 < num_net_devices (net_dedup_state w)"
    "\<And>d. props_answer env (Plugin_Net_v8 l) d =
           map_prod id read_props (netDedup_getProperties_v8 w d (blank_props 9))"
    "comm_netName comm = None \<or> (\<exists>n. comm_netName comm = Some n \<and> strcasecmp_eq n PLUGIN_NAME)"
    "ncclNetPluginLoad env comm st = (res, comm1, st1)" "ncclNetInit env comm1 st1 = (res1, comm2, st2)"
  shows "res1 = ncclSuccess \<and> comm_ncclNet comm2 = Some (Plugin_Net_v8 l) \<and> ncclNetVersion comm2 = 8"
proof -
  obtain nl where op: "openNetPluginLib env couldNotFindNames = (Some l, nl)" using assms(4) by (metis prod.collapse)
  have st1: "ncclNets st1 = (ncclNets st)[0 := Some (Plugin_Net_v8 l)]" "ncclNetStates st1 = ncclNetStates st"
    "comm_netName comm1 = comm_netName comm"
    using assms(2,12) by (auto simp: ncclNetPluginLoad_def op find_net_table_def assms(5) dedup_symbols_def Let_def)
  have place: "nets_in_place st1" using assms(1) st1 by (simp add: nets_in_place_def)
  have nets0: "ncclNets st1 ! 0 = Some (Plugin_Net_v8 l)" using assms(1) st1 by (auto simp: nets_in_place_def)
  have version: "ncclNetCheckDeviceVersion env (Plugin_Net_v8 l) 0 = ncclSuccess"
    using assms(9) by (simp add: ncclNetCheckDeviceVersion_def assms(10) netDedup_getProperties_v8_def Let_def
        write_prefix_def blank_props_def read_props_def NCCL_NET_DEVICE_HOST_def)
  have state: "fst (netGetState env 0 st1) = ncclNetStateEnabled"
    using assms(3,7,8,9) st1 nets0 by (simp add: netGetState_def call_init_def netDedup_devices_def Let_def)
  have named: "table_name env (Plugin_Net_v8 l) s = PLUGIN_NAME" for s
    by (simp add: table_name_def assms(6) dedup_table_def ncclNetPlugin_v8_def)
  have "suits env (comm_netName comm1) st1 0"
    using state version assms(11) st1(3)
    by (auto simp: net_suits_def nets0 named split: prod.splits option.splits)
  then have "res1 = ncclSuccess \<and> comm_ncclNet comm2 = ncclNets st1 ! 0"
    using netInit_first_suits [OF place assms(13)] by (metis gr0I zero_less_numeral)
  then show ?thesis using nets0 by (simp add: ncclNetVersion_def)
qed

lemma dedup_named: "strcasecmp_eq ''dedup'' PLUGIN_NAME"
  by code_simp

theorem dedup_plugin_is_chosen_witness:
  "ncclNetVersion (fst (snd (ncclNetInit example_net_env (example_comm\<lparr>netPluginLoaded := True\<rparr>) loaded_state))) = 8"
proof -
  obtain r c s where i: "ncclNetInit example_net_env (example_comm\<lparr>netPluginLoaded := True\<rparr>) loaded_state = (r, c, s)"
    by (metis prod_cases3)
  have "ncclNetVersion c = 8"
    using dedup_plugin_is_chosen [OF _ _ _ example_opens _ _ _ _ _ _ _ example_loads i, where w = one_device_world]
    by (simp add: nets_in_place_def nccl_start_def example_net_env_def netDedup_devices_def one_device_world_def
        example_comm_def dedup_named split: prod.splits)
  then show ?thesis by (simp add: i)
qed

end
