(* ===== verification/NetGdr.thy ===== *)
theory NetGdr
  imports NetPlugin
begin

text \<open>
  \<^verbatim>\<open>ncclGpuGdrSupport\<close> of \<^verbatim>\<open>nccl_internal_impl/net.cc\<close>: whether the GPUs work directly with the network
  adapters, found out by registering memory of the GPU on a connection of the process with itself. The
  network and CUDA are the record \<open>Gdr_Env\<close>, the answers to the calls that are repeated are in the state. The loop that
  waits for the connection is left only when it is made, a call fails or the abort flag is set, so it returns an option. A
  log in the state says what has been opened and closed.
\<close>

section \<open>Data\<close>

unbundle bit_operations_syntax

text \<open>\<open>ge_cudart\<close> is \<open>CUDART_VERSION\<close>, a constant of the build. CUDA's calls succeed or fail.\<close>

record Gdr_Env =
  ge_cudart :: nat
  ge_driver :: "bool \<times> int"
  ge_getDevice :: "bool \<times> int"
  ge_attribute :: "int \<Rightarrow> bool \<times> int"
  ge_devices :: "ncclResult_t \<times> int"
  ge_props :: "int \<Rightarrow> ncclResult_t \<times> Props_v8"
  ge_listen :: "int \<Rightarrow> ncclResult_t \<times> nat"
  ge_malloc :: ncclResult_t
  ge_regMr_send :: ncclResult_t
  ge_deregMr_send :: ncclResult_t
  ge_regMr_recv :: ncclResult_t
  ge_deregMr_recv :: ncclResult_t
  ge_cudaFree :: ncclResult_t
  ge_closeRecv :: ncclResult_t
  ge_closeSend :: ncclResult_t
  ge_closeListen :: ncclResult_t

datatype gdr_event =
    Opened_Listen nat | Closed_Listen nat
  | Opened_Send nat | Closed_Send nat
  | Opened_Recv nat | Closed_Recv nat
  | Allocated | Freed
  | Registered_Send | Deregistered_Send
  | Registered_Recv | Deregistered_Recv

text \<open>\<open>no_warn\<close> says whether \<open>ncclDebugNoWarn\<close> mutes the warnings of the network code. A missing answer is
  that the flag is not set, and that a connection is not there yet.\<close>

record Gdr =
  gdrSupportMatrix :: "int list"
  no_warn :: bool
  gdr_aborts :: "bool list"
  gdr_connects :: "(ncclResult_t \<times> nat option) list"
  gdr_accepts :: "(ncclResult_t \<times> nat option) list"
  gdr_log :: "gdr_event list"

definition log_event :: "gdr_event \<Rightarrow> Gdr \<Rightarrow> Gdr" where
  "log_event e g = g\<lparr>gdr_log := gdr_log g @ [e]\<rparr>"

section \<open>Waiting for the connection\<close>

definition read_abort :: "Gdr \<Rightarrow> bool \<times> Gdr" where
  "read_abort g = (case gdr_aborts g of [] \<Rightarrow> (False, g) | b # bs \<Rightarrow> (b, g\<lparr>gdr_aborts := bs\<rparr>))"

definition gdr_connect :: "nat option \<Rightarrow> Gdr \<Rightarrow> ncclResult_t \<times> nat option \<times> Gdr" where
  "gdr_connect sComm g =
     (if sComm \<noteq> None then (ncclSuccess, sComm, g)
      else case gdr_connects g of
             [] \<Rightarrow> (ncclSuccess, None, g)
           | (res, s) # as \<Rightarrow>
               let g1 = g\<lparr>gdr_connects := as\<rparr>
               in (res, s, case s of None \<Rightarrow> g1 | Some c \<Rightarrow> log_event (Opened_Send c) g1))"

definition gdr_accept :: "nat option \<Rightarrow> Gdr \<Rightarrow> ncclResult_t \<times> nat option \<times> Gdr" where
  "gdr_accept rComm g =
     (if rComm \<noteq> None then (ncclSuccess, rComm, g)
      else case gdr_accepts g of
             [] \<Rightarrow> (ncclSuccess, None, g)
           | (res, r) # as \<Rightarrow>
               let g1 = g\<lparr>gdr_accepts := as\<rparr>
               in (res, r, case r of None \<Rightarrow> g1 | Some c \<Rightarrow> log_event (Opened_Recv c) g1))"

text \<open>One turn: whether the loop is left, and with both ends connected or for \<open>cleanup2\<close>.\<close>

definition connected_turn :: "nat option \<Rightarrow> nat option \<Rightarrow> Gdr \<Rightarrow> bool option \<times> nat option \<times> nat option \<times> Gdr" where
  "connected_turn sComm rComm g =
     (let (aborted, g1) = read_abort g
      in if aborted then (Some False, sComm, rComm, g1)
         else let (res, s, g2) = gdr_connect sComm g1
              in if res \<noteq> ncclSuccess then (Some False, s, rComm, g2)
                 else let (res1, r, g3) = gdr_accept rComm g2
                      in if res1 \<noteq> ncclSuccess then (Some False, s, r, g3)
                         else if r \<noteq> None \<and> s \<noteq> None then (Some True, s, r, g3)
                         else (None, s, r, g3))"

text \<open>Whether the two ends are connected, and the two ends.\<close>

partial_function (option) connected_loop ::
  "nat option \<Rightarrow> nat option \<Rightarrow> Gdr \<Rightarrow> (bool \<times> nat option \<times> nat option \<times> Gdr) option" where
  "connected_loop sComm rComm g =
     (case connected_turn sComm rComm g of
        (Some b, s, r, g1) \<Rightarrow> Some (b, s, r, g1)
      | (None, s, r, g1) \<Rightarrow> connected_loop s r g1)"

section \<open>The test\<close>

text \<open>The label \<open>cleanup2\<close>.\<close>

definition gdr_cleanup2 :: "Gdr_Env \<Rightarrow> nat \<Rightarrow> nat option \<Rightarrow> nat option \<Rightarrow> Gdr \<Rightarrow> ncclResult_t \<times> Gdr" where
  "gdr_cleanup2 ge lComm sComm rComm g =
     (let (res, g1) = (case rComm of None \<Rightarrow> (ncclSuccess, g)
                         | Some r \<Rightarrow> (ge_closeRecv ge, log_event (Closed_Recv r) g))
      in if res \<noteq> ncclSuccess then (res, g1)
         else let (res1, g2) = (case sComm of None \<Rightarrow> (ncclSuccess, g1)
                                  | Some s \<Rightarrow> (ge_closeSend ge, log_event (Closed_Send s) g1))
              in if res1 \<noteq> ncclSuccess then (res1, g2)
                 else (ge_closeListen ge, log_event (Closed_Listen lComm) g2))"

text \<open>Registering and deregistering on both ends: \<open>NCCLCHECK\<close> returns at the first failure.\<close>

definition gdr_register :: "Gdr_Env \<Rightarrow> nat \<Rightarrow> Gdr \<Rightarrow> ncclResult_t \<times> Gdr" where
  "gdr_register ge cudaDev g =
     (if ge_regMr_send ge \<noteq> ncclSuccess then (ncclSuccess, g)
      else let g1 = log_event Registered_Send g
           in if ge_deregMr_send ge \<noteq> ncclSuccess then (ge_deregMr_send ge, g1)
              else let g2 = log_event Deregistered_Send g1
                   in if ge_regMr_recv ge \<noteq> ncclSuccess then (ge_regMr_recv ge, g2)
                      else let g3 = log_event Registered_Recv g2
                           in if ge_deregMr_recv ge \<noteq> ncclSuccess then (ge_deregMr_recv ge, g3)
                              else (ncclSuccess, (log_event Deregistered_Recv g3)
                                      \<lparr>gdrSupportMatrix := (gdrSupportMatrix g3)[cudaDev := 1]\<rparr>))"

text \<open>The body of the loop over the devices from \<open>listen\<close> on.\<close>

definition gdr_try_device :: "Gdr_Env \<Rightarrow> nat \<Rightarrow> int \<Rightarrow> Gdr \<Rightarrow> (ncclResult_t \<times> Gdr) option" where
  "gdr_try_device ge cudaDev dev g =
     (let g0 = g\<lparr>no_warn := True\<rparr>; (res, lComm) = ge_listen ge dev
      in if res \<noteq> ncclSuccess then Some (ncclSuccess, g0)
         else case connected_loop None None (log_event (Opened_Listen lComm) g0) of
                None \<Rightarrow> None
              | Some (connected, s, r, g1) \<Rightarrow>
                  if \<not> connected then Some (gdr_cleanup2 ge lComm s r g1)
                  else if ge_malloc ge \<noteq> ncclSuccess then Some (gdr_cleanup2 ge lComm s r g1)
                  else let (res1, g2) = gdr_register ge cudaDev (log_event Allocated g1)
                       in if res1 \<noteq> ncclSuccess then Some (res1, g2)
                          else let g3 = g2\<lparr>no_warn := False\<rparr>
                               in if ge_cudaFree ge \<noteq> ncclSuccess then Some (ge_cudaFree ge, g3)
                                  else Some (gdr_cleanup2 ge lComm s r (log_event Freed g3)))"

text \<open>Devices without the capability are skipped; the first one with it is the only one tried. \<open>n\<close> devices are left.\<close>

fun gdr_devices_loop :: "Gdr_Env \<Rightarrow> nat \<Rightarrow> int \<Rightarrow> nat \<Rightarrow> Gdr \<Rightarrow> (ncclResult_t \<times> Gdr) option" where
  "gdr_devices_loop ge cudaDev dev 0 g = Some (ncclSuccess, g)"
| "gdr_devices_loop ge cudaDev dev (Suc n) g =
     (let (res, props) = ge_props ge dev
      in if res \<noteq> ncclSuccess then Some (res, g)
         else if p8_ptrSupport props AND NCCL_PTR_CUDA = 0 then gdr_devices_loop ge cudaDev (dev + 1) n g
         else gdr_try_device ge cudaDev dev g)"

text \<open>What CUDA itself says about the attribute; \<open>None\<close> when the build or the driver is too old to be asked.\<close>

definition cuda_says :: "Gdr_Env \<Rightarrow> (ncclResult_t \<times> int option) option" where
  "cuda_says ge =
     (if ge_cudart ge < 11030 then None
      else if \<not> fst (ge_driver ge) then Some (ncclUnhandledCudaError, None)
      else if snd (ge_driver ge) < 11030 then None
      else if \<not> fst (ge_getDevice ge) then Some (ncclUnhandledCudaError, None)
      else let (good, attr) = ge_attribute ge (snd (ge_getDevice ge))
           in if \<not> good then Some (ncclUnhandledCudaError, None) else Some (ncclSuccess, Some attr))"

text \<open>The result code and what is written to \<open>*gdrSupport\<close>, if anything.\<close>

definition ncclGpuGdrSupport :: "Gdr_Env \<Rightarrow> nat \<Rightarrow> Gdr \<Rightarrow> (ncclResult_t \<times> int option \<times> Gdr) option" where
  "ncclGpuGdrSupport ge cudaDev g =
     (case cuda_says ge of
        Some (res, v) \<Rightarrow> Some (res, v, g)
      | None \<Rightarrow>
          if gdrSupportMatrix g ! cudaDev \<noteq> - 1 then Some (ncclSuccess, Some (gdrSupportMatrix g ! cudaDev), g)
          else let (res, netDevs) = ge_devices ge
               in if res \<noteq> ncclSuccess then Some (res, None, g)
                  else case gdr_devices_loop ge cudaDev 0 (nat netDevs)
                              (g\<lparr>gdrSupportMatrix := (gdrSupportMatrix g)[cudaDev := 0]\<rparr>) of
                         None \<Rightarrow> None
                       | Some (res1, g1) \<Rightarrow>
                           if res1 \<noteq> ncclSuccess then Some (res1, None, g1)
                           else Some (ncclSuccess, Some (gdrSupportMatrix g1 ! cudaDev), g1))"

section \<open>What is opened is closed\<close>

text \<open>The objects open according to a log.\<close>

fun still_open :: "gdr_event list \<Rightarrow> gdr_event list \<Rightarrow> gdr_event list" where
  "still_open [] acc = acc"
| "still_open (Closed_Listen l # es) acc = still_open es (removeAll (Opened_Listen l) acc)"
| "still_open (Closed_Send l # es) acc = still_open es (removeAll (Opened_Send l) acc)"
| "still_open (Closed_Recv l # es) acc = still_open es (removeAll (Opened_Recv l) acc)"
| "still_open (Freed # es) acc = still_open es (removeAll Allocated acc)"
| "still_open (Deregistered_Send # es) acc = still_open es (removeAll Registered_Send acc)"
| "still_open (Deregistered_Recv # es) acc = still_open es (removeAll Registered_Recv acc)"
| "still_open (e # es) acc = still_open es (acc @ [e])"

lemma still_open_append: "still_open (xs @ ys) acc = still_open ys (still_open xs acc)"
  by (induction xs acc rule: still_open.induct) simp_all

abbreviation gdr_open :: "Gdr \<Rightarrow> gdr_event set" where
  "gdr_open g \<equiv> set (still_open (gdr_log g) [])"

lemma open_after [simp]:
  "gdr_open (log_event (Opened_Listen l) g) = insert (Opened_Listen l) (gdr_open g)"
  "gdr_open (log_event (Opened_Send l) g) = insert (Opened_Send l) (gdr_open g)"
  "gdr_open (log_event (Opened_Recv l) g) = insert (Opened_Recv l) (gdr_open g)"
  "gdr_open (log_event Allocated g) = insert Allocated (gdr_open g)"
  "gdr_open (log_event Registered_Send g) = insert Registered_Send (gdr_open g)"
  "gdr_open (log_event Registered_Recv g) = insert Registered_Recv (gdr_open g)"
  "gdr_open (log_event (Closed_Listen l) g) = gdr_open g - {Opened_Listen l}"
  "gdr_open (log_event (Closed_Send l) g) = gdr_open g - {Opened_Send l}"
  "gdr_open (log_event (Closed_Recv l) g) = gdr_open g - {Opened_Recv l}"
  "gdr_open (log_event Freed g) = gdr_open g - {Allocated}"
  "gdr_open (log_event Deregistered_Send g) = gdr_open g - {Registered_Send}"
  "gdr_open (log_event Deregistered_Recv g) = gdr_open g - {Registered_Recv}"
  by (simp_all add: log_event_def still_open_append)

lemma log_event_rest [simp]:
  "gdrSupportMatrix (log_event e g) = gdrSupportMatrix g"
  "no_warn (log_event e g) = no_warn g"
  "gdr_aborts (log_event e g) = gdr_aborts g"
  by (simp_all add: log_event_def)

definition ends_open :: "nat option \<Rightarrow> nat option \<Rightarrow> gdr_event set" where
  "ends_open s r = Opened_Send ` set_option s \<union> Opened_Recv ` set_option r"

lemma read_abort_keeps:
  assumes "read_abort g = (b, g1)"
  shows "gdr_log g1 = gdr_log g" "gdrSupportMatrix g1 = gdrSupportMatrix g" "no_warn g1 = no_warn g"
  using assms by (auto simp: read_abort_def split: list.splits)

lemma gdr_connect_opens:
  assumes "gdr_connect sc g = (res, s, g1)"
  shows "gdr_open g1 = gdr_open g \<union> (if sc = None then Opened_Send ` set_option s else {})"
    "sc \<noteq> None \<Longrightarrow> s = sc" "gdrSupportMatrix g1 = gdrSupportMatrix g" "no_warn g1 = no_warn g"
    "gdr_aborts g1 = gdr_aborts g"
  using assms by (auto simp: gdr_connect_def Let_def split: list.splits prod.splits option.splits if_splits)

lemma gdr_accept_opens:
  assumes "gdr_accept rc g = (res, r, g1)"
  shows "gdr_open g1 = gdr_open g \<union> (if rc = None then Opened_Recv ` set_option r else {})"
    "rc \<noteq> None \<Longrightarrow> r = rc" "gdrSupportMatrix g1 = gdrSupportMatrix g" "no_warn g1 = no_warn g"
    "gdr_aborts g1 = gdr_aborts g"
  using assms by (auto simp: gdr_accept_def Let_def split: list.splits prod.splits option.splits if_splits)

lemma connected_turn_opens:
  assumes "connected_turn sc rc g = (b, s, r, g1)" "gdr_open g = X \<union> ends_open sc rc"
  shows "gdr_open g1 = X \<union> ends_open s r" "gdrSupportMatrix g1 = gdrSupportMatrix g" "no_warn g1 = no_warn g"
proof -
  obtain ab g0 where ra: "read_abort g = (ab, g0)" by force
  obtain res s' g2 where co: "gdr_connect sc g0 = (res, s', g2)" by (metis prod_cases3)
  obtain res1 r' g3 where ac: "gdr_accept rc g2 = (res1, r', g3)" by (metis prod_cases3)
  note k = read_abort_keeps [OF ra] gdr_connect_opens [OF co] gdr_accept_opens [OF ac]
  have o2: "gdr_open g2 = X \<union> ends_open s' rc"
    using k(1,4,5) assms(2) by (cases sc) (auto simp: ends_open_def)
  have o3: "gdr_open g3 = X \<union> ends_open s' r'"
    using k(9,10) o2 by (cases rc) (auto simp: ends_open_def)
  note t = assms(1) [unfolded connected_turn_def ra co ac Let_def prod.case]
  have o1: "gdr_open g0 = X \<union> ends_open sc rc" using k(1) assms(2) by simp
  from t have "(s, r, g1) = (sc, rc, g0) \<or> (s, r, g1) = (s', rc, g2) \<or> (s, r, g1) = (s', r', g3)"
    by (auto split: if_splits)
  then show "gdr_open g1 = X \<union> ends_open s r" "gdrSupportMatrix g1 = gdrSupportMatrix g" "no_warn g1 = no_warn g"
    using o1 o2 o3 k by (elim disjE; simp)+
qed

lemma connected_loop_opens:
  assumes "connected_loop sc rc g = Some (b, s, r, g1)" "gdr_open g = X \<union> ends_open sc rc"
  shows "gdr_open g1 = X \<union> ends_open s r \<and> gdrSupportMatrix g1 = gdrSupportMatrix g \<and> no_warn g1 = no_warn g"
proof -
  let ?P = "\<lambda>sc rc g x. gdr_open g = X \<union> ends_open sc rc \<longrightarrow>
          gdr_open (snd (snd (snd x))) = X \<union> ends_open (fst (snd x)) (fst (snd (snd x))) \<and>
          gdrSupportMatrix (snd (snd (snd x))) = gdrSupportMatrix g \<and> no_warn (snd (snd (snd x))) = no_warn g"
  have "?P sc rc g (b, s, r, g1)"
  proof (rule connected_loop.raw_induct [where P = ?P, OF _ assms(1)], goal_cases)
    case (1 rec sc rc g x)
    obtain b' s' r' g' where t: "connected_turn sc rc g = (b', s', r', g')" by (metis prod_cases4)
    note o = connected_turn_opens [OF t]
    show ?case
    proof (cases b')
      case None
      then have "rec s' r' g' = Some x" using 1(2) t by simp
      then show ?thesis using 1(1) o by metis
    next
      case (Some a)
      then have "x = (a, s', r', g')" using 1(2) t by simp
      then show ?thesis using o by simp
    qed
  qed
  with assms(2) show ?thesis by simp
qed

lemma gdr_cleanup2_closes:
  assumes "gdr_cleanup2 ge l s r g = (ncclSuccess, g1)" "gdr_open g = {Opened_Listen l} \<union> ends_open s r"
  shows "gdr_open g1 = {}"
proof -
  let ?h = "case r of None \<Rightarrow> g | Some c \<Rightarrow> log_event (Closed_Recv c) g"
  let ?k = "case s of None \<Rightarrow> ?h | Some c \<Rightarrow> log_event (Closed_Send c) ?h"
  have "g1 = log_event (Closed_Listen l) ?k"
    using assms(1) by (cases s; cases r; simp add: gdr_cleanup2_def split: if_splits)
  then have "gdr_open g1 = gdr_open ?k - {Opened_Listen l}" by simp
  also have "gdr_open ?k = gdr_open g - ends_open s r"
    by (cases s; cases r; simp add: ends_open_def; blast)
  finally show ?thesis using assms(2) by auto
qed

lemma gdr_register_balanced:
  assumes "gdr_register ge d g = (ncclSuccess, g1)"
    "Registered_Send \<notin> gdr_open g" "Registered_Recv \<notin> gdr_open g"
  shows "gdr_open g1 = gdr_open g"
proof (cases "ge_regMr_send ge = ncclSuccess")
  case True
  let ?h = "log_event Deregistered_Recv (log_event Registered_Recv
              (log_event Deregistered_Send (log_event Registered_Send g)))"
  have "g1 = ?h\<lparr>gdrSupportMatrix := (gdrSupportMatrix g)[d := 1]\<rparr>"
    using assms(1) True by (auto simp: gdr_register_def Let_def split: if_splits)
  then have "gdr_open g1 = gdr_open ?h" by simp
  with assms(2,3) show ?thesis by (simp only: open_after) auto
next
  case False
  with assms(1) show ?thesis by (simp add: gdr_register_def)
qed

lemma gdr_try_device_balanced:
  assumes "gdr_try_device ge d dev g = Some (ncclSuccess, g1)" "gdr_open g = {}"
  shows "gdr_open g1 = {}"
proof -
  obtain res l where li: "ge_listen ge dev = (res, l)" by force
  note a = assms(1) [unfolded gdr_try_device_def li Let_def prod.case]
  show ?thesis
  proof (cases "res = ncclSuccess")
    case False
    with a assms(2) show ?thesis by auto
  next
    case True
    from True a obtain b s r g2 where lo: "connected_loop None None (log_event (Opened_Listen l) (g\<lparr>no_warn := True\<rparr>)) = Some (b, s, r, g2)"
      by (auto split: option.splits)
    have o2: "gdr_open g2 = {Opened_Listen l} \<union> ends_open s r"
      using connected_loop_opens [OF lo, of "{Opened_Listen l}"] assms(2) by (simp add: ends_open_def)
    obtain res1 g3 where re: "gdr_register ge d (log_event Allocated g2) = (res1, g3)" by force
    note b = a [simplified True lo re, simplified]
    show ?thesis
    proof (cases "b \<and> ge_malloc ge = ncclSuccess")
      case False
      then have "gdr_cleanup2 ge l s r g2 = (ncclSuccess, g1)" using b by (auto split: if_splits)
      then show ?thesis using o2 by (rule gdr_cleanup2_closes)
    next
      case c: True
      then have r1: "res1 = ncclSuccess"
        and cl: "gdr_cleanup2 ge l s r (log_event Freed (g3\<lparr>no_warn := False\<rparr>)) = (ncclSuccess, g1)"
        using b c re by (auto split: if_splits)
      have "gdr_open g3 = insert Allocated (gdr_open g2)"
        using gdr_register_balanced [OF re [unfolded r1]] o2 by (auto simp: ends_open_def)
      then have "gdr_open (log_event Freed (g3\<lparr>no_warn := False\<rparr>)) = {Opened_Listen l} \<union> ends_open s r"
        using o2 by (auto simp: ends_open_def)
      then show ?thesis by (rule gdr_cleanup2_closes [OF cl])
    qed
  qed
qed

lemma gdr_devices_balanced:
  assumes "gdr_devices_loop ge d dev n g = Some (ncclSuccess, g1)" "gdr_open g = {}"
  shows "gdr_open g1 = {}"
  using assms
proof (induction n arbitrary: dev)
  case (Suc n)
  then show ?case using gdr_try_device_balanced
    by (auto simp: Let_def split: prod.splits if_splits)
qed simp

text \<open>C24. A successful test leaves nothing behind: every listening, sending and receiving communicator it has
  opened is closed again, the memory of the GPU is freed and nothing stays registered, whether the
  connection came about or was given up.\<close>

theorem gdr_test_leaves_nothing_open:
  assumes "ncclGpuGdrSupport ge cudaDev g = Some (ncclSuccess, v, g1)" "gdr_open g = {}"
  shows "gdr_open g1 = {}"
proof (cases "cuda_says ge")
  case None
  let ?g = "g\<lparr>gdrSupportMatrix := (gdrSupportMatrix g)[cudaDev := 0]\<rparr>"
  have "g1 = g \<or> gdr_devices_loop ge cudaDev 0 (nat (snd (ge_devices ge))) ?g = Some (ncclSuccess, g1)"
    using assms(1) None
    by (auto simp: ncclGpuGdrSupport_def Let_def split: if_splits prod.splits option.splits)
  then show ?thesis using gdr_devices_balanced [of ge cudaDev 0 _ ?g g1] assms(2) by auto
next
  case (Some a)
  then show ?thesis using assms by (auto simp: ncclGpuGdrSupport_def split: prod.splits)
qed

definition example_gdr_props :: Props_v8 where
  "example_gdr_props =
     \<lparr>p8_name = ''mlx5_0'', p8_pciPath = [], p8_guid = 0, p8_ptrSupport = 3, p8_regIsGlobal = 0, p8_speed = 100000,
      p8_port = 1, p8_latency = 0, p8_maxComms = 1, p8_maxRecvs = 1, p8_netDeviceType = 0, p8_netDeviceVersion = 0\<rparr>"

definition example_gdr_env :: Gdr_Env where
  "example_gdr_env =
     \<lparr>ge_cudart = 11000, ge_driver = (True, 11000), ge_getDevice = (True, 0), ge_attribute = (\<lambda>_. (True, 1)),
      ge_devices = (ncclSuccess, 1), ge_props = (\<lambda>_. (ncclSuccess, example_gdr_props)),
      ge_listen = (\<lambda>_. (ncclSuccess, 5)), ge_malloc = ncclSuccess, ge_regMr_send = ncclSuccess,
      ge_deregMr_send = ncclSuccess, ge_regMr_recv = ncclSuccess, ge_deregMr_recv = ncclSuccess,
      ge_cudaFree = ncclSuccess, ge_closeRecv = ncclSuccess, ge_closeSend = ncclSuccess, ge_closeListen = ncclSuccess\<rparr>"

text \<open>The sender is there at the second attempt, the receiver at the first.\<close>

definition example_gdr :: Gdr where
  "example_gdr = \<lparr>gdrSupportMatrix = replicate 32 (- 1), no_warn = False, gdr_aborts = [],
     gdr_connects = [(ncclSuccess, None), (ncclSuccess, Some 6)], gdr_accepts = [(ncclSuccess, Some 7)], gdr_log = []\<rparr>"

lemmas gdr_run_defs = ncclGpuGdrSupport_def cuda_says_def gdr_try_device_def connected_turn_def gdr_connect_def
  gdr_accept_def read_abort_def gdr_cleanup2_def gdr_register_def log_event_def NCCL_PTR_CUDA_def

lemma example_gdr_runs:
  "\<exists>g1. ncclGpuGdrSupport example_gdr_env 3 example_gdr = Some (ncclSuccess, Some 1, g1)"
  by (simp add: gdr_run_defs example_gdr_env_def example_gdr_def example_gdr_props_def
      connected_loop.simps [of None None] connected_loop.simps [of None "Some _"])

theorem gdr_test_leaves_nothing_open_witness:
  "\<exists>g1. ncclGpuGdrSupport example_gdr_env 3 example_gdr = Some (ncclSuccess, Some 1, g1) \<and> gdr_open g1 = {}"
proof -
  obtain g1 where r: "ncclGpuGdrSupport example_gdr_env 3 example_gdr = Some (ncclSuccess, Some 1, g1)"
    using example_gdr_runs by blast
  have "gdr_open example_gdr = {}" by (simp add: example_gdr_def)
  from gdr_test_leaves_nothing_open [OF r this] r show ?thesis by blast
qed

section \<open>Ending\<close>

lemma connected_turn_aborts:
  assumes "connected_turn sc rc g = (None, s, r, g1)"
  shows "\<exists>bs. gdr_aborts g = bs @ gdr_aborts g1 \<and> length bs \<le> 1 \<and> True \<notin> set bs \<and> (gdr_aborts g \<noteq> [] \<longrightarrow> bs \<noteq> [])"
proof -
  obtain ab g0 where ra: "read_abort g = (ab, g0)" by force
  obtain res s' g2 where co: "gdr_connect sc g0 = (res, s', g2)" by (metis prod_cases3)
  obtain res1 r' g3 where ac: "gdr_accept rc g2 = (res1, r', g3)" by (metis prod_cases3)
  note t = assms [unfolded connected_turn_def ra co ac Let_def prod.case]
  then have "\<not> ab" "g1 = g3" by (auto split: if_splits)
  moreover have "gdr_aborts g3 = gdr_aborts g0"
    using gdr_connect_opens(5) [OF co] gdr_accept_opens(5) [OF ac] by simp
  ultimately show ?thesis using ra by (cases "gdr_aborts g") (auto simp: read_abort_def)
qed

lemma connected_loop_aborted:
  assumes "True \<in> set (gdr_aborts g)"
  shows "connected_loop sc rc g \<noteq> None"
  using assms
proof (induction "length (gdr_aborts g)" arbitrary: g sc rc rule: less_induct)
  case less
  obtain b s r g1 where t: "connected_turn sc rc g = (b, s, r, g1)" by (metis prod_cases4)
  show ?case
  proof (cases b)
    case None
    obtain bs where bs: "gdr_aborts g = bs @ gdr_aborts g1" "True \<notin> set bs" "gdr_aborts g \<noteq> [] \<longrightarrow> bs \<noteq> []"
      using connected_turn_aborts [OF t [unfolded None]] by auto
    have "connected_loop s r g1 \<noteq> None"
      using less bs by (intro less(1)) (cases bs; auto)+
    then show ?thesis by (subst connected_loop.simps) (simp add: t None)
  qed (subst connected_loop.simps, simp add: t)
qed

lemma gdr_try_device_aborted:
  assumes "True \<in> set (gdr_aborts g)"
  shows "gdr_try_device ge d dev g \<noteq> None"
  using connected_loop_aborted [of "log_event (Opened_Listen (snd (ge_listen ge dev))) (g\<lparr>no_warn := True\<rparr>)" None None] assms
  by (auto simp: gdr_try_device_def Let_def split: prod.splits option.splits)

lemma gdr_devices_aborted:
  assumes "True \<in> set (gdr_aborts g)"
  shows "gdr_devices_loop ge d dev n g \<noteq> None"
proof (induction n arbitrary: dev)
  case (Suc n)
  with gdr_try_device_aborted [OF assms] show ?case by (cases "ge_props ge dev") (simp add: Let_def)
qed simp

text \<open>Setting the abort flag ends the test, however the network answers.\<close>

theorem gdr_test_ends_on_abort:
  assumes "True \<in> set (gdr_aborts g)"
  shows "ncclGpuGdrSupport ge cudaDev g \<noteq> None"
proof -
  let ?g = "g\<lparr>gdrSupportMatrix := (gdrSupportMatrix g)[cudaDev := 0]\<rparr>"
  obtain res g1 where "gdr_devices_loop ge cudaDev 0 (nat (snd (ge_devices ge))) ?g = Some (res, g1)"
    using gdr_devices_aborted [of ?g ge cudaDev 0] assms by fastforce
  then show ?thesis by (auto simp: ncclGpuGdrSupport_def Let_def split: prod.splits option.splits)
qed

theorem gdr_test_ends_on_abort_witness:
  "ncclGpuGdrSupport example_gdr_env 3 (example_gdr\<lparr>gdr_connects := [], gdr_aborts := [False, True]\<rparr>) \<noteq> None"
  by (rule gdr_test_ends_on_abort) simp

text \<open>The warnings are switched off for the test and switched on again only where the memory has been
  registered: a test that is given up before that succeeds, and leaves them off for the rest of the thread's life.\<close>

lemma gdr_cleanup2_no_warn: "gdr_cleanup2 ge l s r g = (res, g1) \<Longrightarrow> no_warn g1 = no_warn g"
  by (cases s; cases r) (auto simp: gdr_cleanup2_def Let_def split: if_splits prod.splits)

theorem gdr_test_mutes_warnings:
  assumes "cuda_says ge = None" "gdrSupportMatrix g ! cudaDev = - 1" "cudaDev < length (gdrSupportMatrix g)"
    "ge_devices ge = (ncclSuccess, n)" "0 < n" "ge_props ge 0 = (ncclSuccess, p)"
    "p8_ptrSupport p AND NCCL_PTR_CUDA \<noteq> 0" "fst (ge_listen ge 0) \<noteq> ncclSuccess"
  shows "ncclGpuGdrSupport ge cudaDev g =
           Some (ncclSuccess, Some 0, g\<lparr>gdrSupportMatrix := (gdrSupportMatrix g)[cudaDev := 0], no_warn := True\<rparr>)"
proof -
  obtain k where "nat n = Suc k" using assms(5) by (cases "nat n") auto
  moreover obtain e l where "ge_listen ge 0 = (e, l)" "e \<noteq> ncclSuccess" using assms(8) by (cases "ge_listen ge 0") auto
  ultimately show ?thesis using assms(1-7)
    by (simp add: ncclGpuGdrSupport_def gdr_try_device_def)
qed

theorem gdr_test_mutes_warnings_witness:
  "ncclGpuGdrSupport (example_gdr_env\<lparr>ge_listen := \<lambda>_. (ncclSystemError, 0)\<rparr>) 0 example_gdr =
     Some (ncclSuccess, Some 0, example_gdr\<lparr>gdrSupportMatrix := 0 # replicate 31 (- 1), no_warn := True\<rparr>)"
  by (subst gdr_test_mutes_warnings [where n = 1 and p = example_gdr_props])
    (simp_all add: example_gdr_env_def example_gdr_def example_gdr_props_def cuda_says_def NCCL_PTR_CUDA_def numeral_eq_Suc)

end
