(* ===== verification/IbMrCache.thy ===== *)
theory IbMrCache
  imports NcclHandshake "HOL-Library.Multiset"
begin

text \<open>
  Memory registration in \<^verbatim>\<open>nccl_internal_impl/net_ib.cc\<close>: the cache of registrations each InfiniBand device has,
  with a count of users per entry, and \<open>ncclIbRegMr\<close>, \<open>ncclIbRegMrDmaBuf\<close> and \<open>ncclIbDeregMr\<close> on the devices of a
  communicator. Addresses and sizes are 64-bit words. The array of slots is the list of the first \<open>population\<close>
  entries; \<open>mc_room\<close> is the number of entries memory has been allocated for, which \<open>capacity\<close> is meant to be. A
  memory region of the verbs library is named by a number; registering, deregistering and allocating succeed or
  fail as the arguments say. The lock of the device is held for a whole call.
\<close>

unbundle bit_operations_syntax

section \<open>Data\<close>

record ncclIbMr =
  mr_addr :: u64
  mr_pages :: u64
  mr_refs :: int
  mr_mr :: nat

record ncclIbMrCache =
  mc_slots :: "ncclIbMr list"
  mc_capacity :: nat
  mc_room :: nat

abbreviation mc_population :: "ncclIbMrCache \<Rightarrow> nat" where
  "mc_population c \<equiv> length (mc_slots c)"

text \<open>What a registration meets: whether memory for more slots can be had, and what the verbs library answers.\<close>

record Reg_Answer =
  ra_realloc :: bool
  ra_reg :: "ncclResult_t \<times> nat"

section \<open>Registration on one device\<close>

definition page_addr :: "u64 \<Rightarrow> u64 \<Rightarrow> u64" where
  "page_addr pageSize data = data AND (- pageSize)"

definition page_count :: "u64 \<Rightarrow> u64 \<Rightarrow> u64 \<Rightarrow> u64" where
  "page_count pageSize data sz = (data + sz - page_addr pageSize data + pageSize - 1) div pageSize"

definition slot_covers :: "u64 \<Rightarrow> u64 \<Rightarrow> u64 \<Rightarrow> ncclIbMr \<Rightarrow> bool" where
  "slot_covers pageSize addr pages s \<longleftrightarrow>
     mr_addr s \<le> addr \<and> (addr - mr_addr s) div pageSize + pages \<le> mr_pages s"

text \<open>The scan from \<open>slot\<close> over the slots that are left: \<open>Inl\<close> the place for a new entry, \<open>Inr\<close> a slot that will do.\<close>

fun reg_scan :: "u64 \<Rightarrow> u64 \<Rightarrow> u64 \<Rightarrow> nat \<Rightarrow> ncclIbMr list \<Rightarrow> nat + nat" where
  "reg_scan pageSize addr pages slot [] = Inl slot"
| "reg_scan pageSize addr pages slot (s # ss) =
     (if addr < mr_addr s then Inl slot
      else if slot_covers pageSize addr pages s then Inr slot
      else reg_scan pageSize addr pages (slot + 1) ss)"

text \<open>Growing: the capacity is set before the memory is there.\<close>

definition grow_cache :: "bool \<Rightarrow> ncclIbMrCache \<Rightarrow> bool \<times> ncclIbMrCache" where
  "grow_cache realloc_ok c =
     (if mc_population c = mc_capacity c
      then let c1 = c\<lparr>mc_capacity := if mc_capacity c < 32 then 32 else 2 * mc_capacity c\<rparr>
           in if realloc_ok then (True, c1\<lparr>mc_room := mc_capacity c1\<rparr>) else (False, c1)
      else (True, c))"

text \<open>The result code, what is written to \<open>*mhandle\<close> if anything, and the cache.\<close>

definition ncclIbRegMrDmaBufInternal ::
  "u64 \<Rightarrow> Reg_Answer \<Rightarrow> u64 \<Rightarrow> u64 \<Rightarrow> ncclIbMrCache \<Rightarrow> ncclResult_t \<times> nat option \<times> ncclIbMrCache" where
  "ncclIbRegMrDmaBufInternal pageSize ans data sz c =
     (let addr = page_addr pageSize data; pages = page_count pageSize data sz
      in case reg_scan pageSize addr pages 0 (mc_slots c) of
           Inl slot \<Rightarrow>
             let (grown, c1) = grow_cache (ra_realloc ans) c
             in if \<not> grown then (ncclSystemError, None, c1)
                else let (res, mr) = ra_reg ans
                     in if res \<noteq> ncclSuccess then (res, None, c1)
                        else (ncclSuccess, Some mr,
                              c1\<lparr>mc_slots := take slot (mc_slots c1) @
                                   \<lparr>mr_addr = addr, mr_pages = pages, mr_refs = 1, mr_mr = mr\<rparr> # drop slot (mc_slots c1)\<rparr>)
         | Inr slot \<Rightarrow>
             let s = mc_slots c ! slot
             in (ncclSuccess, Some (mr_mr s), c\<lparr>mc_slots := (mc_slots c)[slot := s\<lparr>mr_refs := mr_refs s + 1\<rparr>]\<rparr>))"

section \<open>Deregistration on one device\<close>

fun find_mr :: "nat \<Rightarrow> nat \<Rightarrow> ncclIbMr list \<Rightarrow> nat option" where
  "find_mr mr i [] = None"
| "find_mr mr i (s # ss) = (if mr_mr s = mr then Some i else find_mr mr (i + 1) ss)"

text \<open>The last slot is moved to the place of the one that is dropped. \<open>dereg\<close> is the answer of the verbs library, and
  the flag returned says whether it has been called.\<close>

definition ncclIbDeregMrInternal ::
  "ncclResult_t \<Rightarrow> nat \<Rightarrow> ncclIbMrCache \<Rightarrow> ncclResult_t \<times> bool \<times> ncclIbMrCache" where
  "ncclIbDeregMrInternal dereg mhandle c =
     (case find_mr mhandle 0 (mc_slots c) of
        None \<Rightarrow> (ncclInternalError, False, c)
      | Some i \<Rightarrow>
          let s = mc_slots c ! i; slots = (mc_slots c)[i := s\<lparr>mr_refs := mr_refs s - 1\<rparr>]
          in if mr_refs s - 1 \<noteq> 0 then (ncclSuccess, False, c\<lparr>mc_slots := slots\<rparr>)
             else let c1 = c\<lparr>mc_slots := butlast (slots[i := last slots])\<rparr>;
                      c2 = (if mc_population c1 = 0 then c1\<lparr>mc_capacity := 0, mc_room := 0\<rparr> else c1)
                  in (dereg, True, c2))"

section \<open>The devices of a communicator\<close>

text \<open>\<open>devs\<close> are the numbers of the devices; the caches of all devices are a function. The loop fills the wrapper of
  the regions; on a failure the wrapper is freed, and the devices before the failing one keep what they have registered.\<close>

fun reg_devices ::
  "u64 \<Rightarrow> Reg_Answer list \<Rightarrow> u64 \<Rightarrow> u64 \<Rightarrow> nat list \<Rightarrow> (nat \<Rightarrow> ncclIbMrCache) \<Rightarrow>
   ncclResult_t \<times> nat list \<times> (nat \<Rightarrow> ncclIbMrCache)" where
  "reg_devices pageSize (a # as) data sz (d # ds) caches =
     (case ncclIbRegMrDmaBufInternal pageSize a data sz (caches d) of
        (res, mr, c1) \<Rightarrow>
          if res \<noteq> ncclSuccess then (res, [], caches(d := c1))
          else case reg_devices pageSize as data sz ds (caches(d := c1)) of
                 (res1, mrs, caches1) \<Rightarrow> (res1, the mr # mrs, caches1))"
| "reg_devices pageSize as data sz ds caches = (ncclSuccess, [], caches)"

definition ncclIbRegMrDmaBuf ::
  "u64 \<Rightarrow> Reg_Answer list \<Rightarrow> u64 \<Rightarrow> u64 \<Rightarrow> nat list \<Rightarrow> (nat \<Rightarrow> ncclIbMrCache) \<Rightarrow>
   ncclResult_t \<times> nat list option \<times> (nat \<Rightarrow> ncclIbMrCache)" where
  "ncclIbRegMrDmaBuf pageSize as data sz devs caches =
     (case reg_devices pageSize as data sz devs caches of
        (res, mrs, caches1) \<Rightarrow> (res, if res = ncclSuccess then Some mrs else None, caches1))"

definition ncclIbRegMr ::
  "u64 \<Rightarrow> Reg_Answer list \<Rightarrow> u64 \<Rightarrow> u64 \<Rightarrow> nat list \<Rightarrow> (nat \<Rightarrow> ncclIbMrCache) \<Rightarrow>
   ncclResult_t \<times> nat list option \<times> (nat \<Rightarrow> ncclIbMrCache)" where
  "ncclIbRegMr pageSize as data sz devs caches = ncclIbRegMrDmaBuf pageSize as data sz devs caches"

fun ncclIbDeregMr ::
  "ncclResult_t list \<Rightarrow> nat list \<Rightarrow> nat list \<Rightarrow> (nat \<Rightarrow> ncclIbMrCache) \<Rightarrow> ncclResult_t \<times> (nat \<Rightarrow> ncclIbMrCache)" where
  "ncclIbDeregMr (a # as) (m # ms) (d # ds) caches =
     (case ncclIbDeregMrInternal a m (caches d) of
        (res, _, c1) \<Rightarrow>
          if res \<noteq> ncclSuccess then (res, caches(d := c1)) else ncclIbDeregMr as ms ds (caches(d := c1)))"
| "ncclIbDeregMr as ms ds caches = (ncclSuccess, caches)"

section \<open>Pages\<close>

lemma and_minus_exp: "(w :: u64) AND - (2 ^ k) = push_bit k (drop_bit k w)"
  by (rule bit_word_eqI) (auto simp: minus_exp_eq_not_mask bit_simps)

lemma unat_exp: "k < 64 \<Longrightarrow> unat ((2 :: u64) ^ k) = 2 ^ k"
proof -
  assume k: "k < 64"
  have "unat (push_bit k (1 :: u64)) = take_bit 64 (push_bit k (unat (1 :: u64)))"
    by (subst unsigned_push_bit_eq) simp
  also have "\<dots> = 2 ^ k mod 2 ^ 64" by (simp add: take_bit_eq_mod push_bit_eq_mult)
  also have "\<dots> = 2 ^ k" using k power_strict_increasing [of k 64 "2 :: nat"] by simp
  finally show "unat ((2 :: u64) ^ k) = 2 ^ k" by (simp add: push_bit_eq_mult)
qed

lemma page_addr_nat:
  assumes "ps = (2 :: u64) ^ k" "k < 64"
  shows "unat (page_addr ps data) = unat data div 2 ^ k * 2 ^ k"
proof -
  have "unat data < 2 ^ LENGTH(64)" by (rule unsigned_less)
  then have lt: "unat data < 2 ^ 64" by simp
  have le: "unat data div 2 ^ k * 2 ^ k < 2 ^ 64"
    by (rule le_less_trans [OF div_times_less_eq_dividend lt])
  have "unat (page_addr ps data) = unat (push_bit k (drop_bit k data))"
    by (simp add: page_addr_def assms(1) and_minus_exp)
  also have "\<dots> = take_bit 64 (push_bit k (drop_bit k (unat data)))"
    using lt by (subst unsigned_push_bit_eq) (simp add: unsigned_drop_bit_eq take_bit_nat_eq_self)
  also have "\<dots> = (unat data div 2 ^ k * 2 ^ k) mod 2 ^ 64"
    by (simp add: push_bit_eq_mult drop_bit_eq_div take_bit_eq_mod)
  finally show ?thesis using le by simp
qed

text \<open>The pages of a buffer contain it.\<close>

lemma pages_contain:
  assumes ps: "ps = (2 :: u64) ^ k" "k < 64" and fits: "unat data + unat sz + 2 ^ k \<le> 2 ^ 64"
  shows "unat (page_addr ps data) \<le> unat data"
    "unat data + unat sz \<le> unat (page_addr ps data) + unat (page_count ps data sz) * 2 ^ k"
proof -
  let ?a = "unat (page_addr ps data)"
  have a: "?a = unat data div 2 ^ k * 2 ^ k" by (rule page_addr_nat [OF ps])
  then show le: "?a \<le> unat data" by (simp add: div_times_less_eq_dividend)
  have ups: "unat ps = 2 ^ k" using ps by (simp add: unat_exp)
  have sum: "unat (data + sz) = unat data + unat sz"
  proof -
    have "0 < (2 :: nat) ^ k" by simp
    with fits have "unat data + unat sz < 2 ^ 64" by linarith
    then show ?thesis by (intro unat_add_lem [THEN iffD1]) simp
  qed
  have "unat (data + sz - page_addr ps data) = unat data + unat sz - ?a"
    using le sum by (subst unat_sub) (simp_all add: word_le_nat_alt)
  moreover have "data + sz - page_addr ps data + ps - 1 = data + sz - page_addr ps data + (ps - 1)" by simp
  moreover have "unat (ps - 1) = 2 ^ k - 1"
    using ups by (subst unat_sub) (simp_all add: word_le_nat_alt)
  ultimately have tot: "unat (data + sz - page_addr ps data + ps - 1) = unat data + unat sz - ?a + (2 ^ k - 1)"
    using fits by (simp only:) (subst unat_add_lem [THEN iffD1], simp_all)
  have "unat (page_count ps data sz) = (unat data + unat sz - ?a + (2 ^ k - 1)) div 2 ^ k"
    by (simp add: page_count_def unat_div tot ups)
  moreover have "x \<le> (x + (2 ^ k - 1)) div 2 ^ k * 2 ^ k" for x :: nat
  proof -
    have "(x + (2 ^ k - 1)) mod 2 ^ k \<le> 2 ^ k - 1" by (simp add: Suc_leI less_Suc_eq_le [symmetric])
    moreover have "(x + (2 ^ k - 1)) div 2 ^ k * 2 ^ k + (x + (2 ^ k - 1)) mod 2 ^ k = x + (2 ^ k - 1)"
      by (rule div_mult_mod_eq)
    ultimately show ?thesis by linarith
  qed
  ultimately have "unat data + unat sz - ?a \<le> unat (page_count ps data sz) * 2 ^ k" by simp
  then show "unat data + unat sz \<le> ?a + unat (page_count ps data sz) * 2 ^ k" by linarith
qed

section \<open>Scanning\<close>

lemma reg_scan_Inr:
  "reg_scan ps addr pages n ss = Inr i \<Longrightarrow> n \<le> i \<and> i - n < length ss \<and> slot_covers ps addr pages (ss ! (i - n))"
proof (induction ss arbitrary: n)
  case (Cons s ss)
  show ?case
  proof (cases "addr < mr_addr s \<or> slot_covers ps addr pages s")
    case True
    then show ?thesis using Cons.prems by (auto split: if_splits)
  next
    case False
    then have "n + 1 \<le> i \<and> i - (n + 1) < length ss \<and> slot_covers ps addr pages (ss ! (i - (n + 1)))"
      using Cons by simp
    moreover then have "i - n = Suc (i - (n + 1))" by arith
    ultimately show ?thesis by simp
  qed
qed simp

lemma reg_scan_Inl:
  "reg_scan ps addr pages n ss = Inl i \<Longrightarrow>
     n \<le> i \<and> i - n \<le> length ss \<and> (\<forall>s\<in>set (take (i - n) ss). mr_addr s \<le> addr \<and> \<not> slot_covers ps addr pages s) \<and>
     (i - n < length ss \<longrightarrow> addr < mr_addr (ss ! (i - n)))"
proof (induction ss arbitrary: n)
  case (Cons s ss)
  show ?case
  proof (cases "addr < mr_addr s \<or> slot_covers ps addr pages s")
    case True
    then show ?thesis using Cons.prems by (auto split: if_splits)
  next
    case False
    then have "n + 1 \<le> i \<and> i - (n + 1) \<le> length ss \<and>
        (\<forall>s\<in>set (take (i - (n + 1)) ss). mr_addr s \<le> addr \<and> \<not> slot_covers ps addr pages s) \<and>
        (i - (n + 1) < length ss \<longrightarrow> addr < mr_addr (ss ! (i - (n + 1))))"
      using Cons by simp
    moreover then have "i - n = Suc (i - (n + 1))" by arith
    ultimately show ?thesis using False by auto
  qed
qed simp

definition cache_sorted :: "ncclIbMrCache \<Rightarrow> bool" where
  "cache_sorted c \<longleftrightarrow> sorted_wrt (\<le>) (map mr_addr (mc_slots c))"

text \<open>C22. In a cache whose slots are in the order of their addresses, the scan that stops at the first larger address
  finds a registration that covers the pages whenever there is one.\<close>

theorem sorted_cache_is_searched_completely:
  assumes "cache_sorted c"
  shows "(\<exists>i. reg_scan ps addr pages 0 (mc_slots c) = Inr i) \<longleftrightarrow> (\<exists>s\<in>set (mc_slots c). slot_covers ps addr pages s)"
proof
  assume "\<exists>i. reg_scan ps addr pages 0 (mc_slots c) = Inr i"
  then show "\<exists>s\<in>set (mc_slots c). slot_covers ps addr pages s"
    using reg_scan_Inr by (metis diff_zero nth_mem)
next
  assume "\<exists>s\<in>set (mc_slots c). slot_covers ps addr pages s"
  then obtain s where s: "s \<in> set (mc_slots c)" "slot_covers ps addr pages s" by blast
  show "\<exists>i. reg_scan ps addr pages 0 (mc_slots c) = Inr i"
  proof (cases "reg_scan ps addr pages 0 (mc_slots c)")
    case (Inl i)
    note l = reg_scan_Inl [OF Inl, simplified]
    have "s \<in> set (drop i (mc_slots c))"
      using s l by (metis Un_iff append_take_drop_id set_append)
    then obtain j where j: "i + j < length (mc_slots c)" "s = mc_slots c ! (i + j)"
      by (metis in_set_conv_nth length_drop less_diff_conv add.commute nth_drop less_imp_le_nat l)
    then have "mr_addr (mc_slots c ! i) \<le> mr_addr s"
      using assms unfolding cache_sorted_def sorted_wrt_map by (cases "j = 0") (auto simp: sorted_wrt_iff_nth_less)
    moreover have "addr < mr_addr (mc_slots c ! i)" using l j by simp
    moreover have "mr_addr s \<le> addr" using s(2) by (simp add: slot_covers_def)
    ultimately have False by order
    then show ?thesis ..
  qed simp
qed

text \<open>An example with pages of 4096 bytes: three buffers at pages 16, 32 and 64.\<close>

definition example_mrs :: ncclIbMrCache where
  "example_mrs =
     \<lparr>mc_slots = [\<lparr>mr_addr = 0x10000, mr_pages = 1, mr_refs = 1, mr_mr = 1\<rparr>,
                  \<lparr>mr_addr = 0x20000, mr_pages = 4, mr_refs = 2, mr_mr = 2\<rparr>,
                  \<lparr>mr_addr = 0x40000, mr_pages = 1, mr_refs = 1, mr_mr = 3\<rparr>], mc_capacity = 32, mc_room = 32\<rparr>"

theorem sorted_cache_is_searched_completely_witness:
  "\<exists>i. reg_scan 4096 0x21000 2 0 (mc_slots example_mrs) = Inr i"
  by (subst sorted_cache_is_searched_completely)
    (simp_all add: cache_sorted_def example_mrs_def slot_covers_def)

lemma sorted_after_insertion:
  assumes "cache_sorted c" "reg_scan ps addr pages 0 (mc_slots c) = Inl i" "mr_addr e = addr"
  shows "sorted_wrt (\<le>) (map mr_addr (take i (mc_slots c) @ e # drop i (mc_slots c)))"
proof -
  note l = reg_scan_Inl [OF assms(2), simplified]
  have s: "sorted_wrt (\<le>) (map mr_addr (take i (mc_slots c) @ drop i (mc_slots c)))"
    using assms(1) by (simp add: cache_sorted_def)
  have "addr \<le> mr_addr d" if "d \<in> set (drop i (mc_slots c))" for d
  proof (cases "drop i (mc_slots c)")
    case Nil
    with that show ?thesis by simp
  next
    case (Cons f ds)
    then have "i < length (mc_slots c)" "f = mc_slots c ! i"
      by (metis drop_eq_Nil leI list.discI, metis Cons hd_drop_conv_nth list.sel(1) drop_eq_Nil leI list.discI)
    then have "addr < mr_addr f" using l by simp
    moreover have "mr_addr f \<le> mr_addr d"
      using s that unfolding Cons by (auto simp: sorted_wrt_append)
    ultimately show ?thesis by simp
  qed
  with s [unfolded map_append sorted_wrt_append] l assms(3) show ?thesis
    unfolding map_append list.map sorted_wrt_append sorted_wrt.simps by auto
qed

section \<open>Where the cache goes wrong\<close>

lemma find_mr_append:
  "mr_mr s = m \<Longrightarrow> m \<notin> mr_mr ` set xs \<Longrightarrow> find_mr m n (xs @ s # ys) = Some (n + length xs)"
  by (induction xs arbitrary: n) auto

lemma reg_scan_stops:
  "\<forall>x\<in>set xs. mr_addr x \<le> addr \<and> \<not> slot_covers ps addr pages x \<Longrightarrow> addr < mr_addr t \<Longrightarrow>
   reg_scan ps addr pages n (xs @ t # ys) = Inl (n + length xs)"
  by (induction xs arbitrary: n) (auto simp: not_less)

text \<open>C33. Dropping a registration moves the one with the largest address to its place, so the slots are no longer in order:
  a registration in between, though it covers the pages asked for, is not found, and the pages are registered again.\<close>

theorem deregistration_hides_registrations:
  assumes "mc_slots c = xs @ s # ys @ [t]" "mr_mr s = m" "mr_refs s = 1" "m \<notin> mr_mr ` set xs"
    "ncclIbDeregMrInternal a m c = (res, called, c1)"
    "y \<in> set ys" "slot_covers ps addr pages y" "addr < mr_addr t"
    "\<forall>x\<in>set xs. mr_addr x \<le> addr \<and> \<not> slot_covers ps addr pages x"
  shows "y \<in> set (mc_slots c1) \<and> (\<exists>i. reg_scan ps addr pages 0 (mc_slots c1) = Inl i)"
proof -
  have f: "find_mr m 0 (mc_slots c) = Some (length xs)"
    using find_mr_append [OF assms(2,4), of 0] assms(1) by simp
  have "butlast ((xs @ s' # ys @ [t])[length xs := t]) = xs @ t # ys" for s' :: ncclIbMr
    by (simp add: list_update_append butlast_append)
  then have "mc_slots c1 = xs @ t # ys"
    using assms(5) by (auto simp: ncclIbDeregMrInternal_def f [unfolded assms(1)] Let_def assms(1,3) list_update_append nth_append)
  then show ?thesis using reg_scan_stops [OF assms(9,8), of 0 ys] assms(6) by auto
qed

theorem deregistration_hides_registrations_witness:
  "\<exists>i. reg_scan 4096 0x20000 1 0 (mc_slots (snd (snd (ncclIbDeregMrInternal ncclSuccess 1 example_mrs)))) = Inl i"
proof -
  obtain res called c1 where d: "ncclIbDeregMrInternal ncclSuccess 1 example_mrs = (res, called, c1)"
    by (metis prod_cases3)
  have "\<exists>i. reg_scan 4096 0x20000 1 0 (mc_slots c1) = Inl i"
    using deregistration_hides_registrations [OF _ _ _ _ d, where xs = "[]"
        and s = "\<lparr>mr_addr = 0x10000, mr_pages = 1, mr_refs = 1, mr_mr = 1\<rparr>"
        and ys = "[\<lparr>mr_addr = 0x20000, mr_pages = 4, mr_refs = 2, mr_mr = 2\<rparr>]"
        and t = "\<lparr>mr_addr = 0x40000, mr_pages = 1, mr_refs = 1, mr_mr = 3\<rparr>"
        and y = "\<lparr>mr_addr = 0x20000, mr_pages = 4, mr_refs = 2, mr_mr = 2\<rparr>"
        and addr = "0x20000" and pages = 1 and ps = 4096]
    by (simp add: example_mrs_def slot_covers_def)
  then show ?thesis by (simp only: d snd_conv)
qed

text \<open>When a full cache cannot grow, the registration fails, but its capacity has been raised all the same; the next
  registration writes a slot past the memory of the array.\<close>

theorem failed_growth_overruns:
  assumes "mc_population c = mc_capacity c" "mc_capacity c = mc_room c" "\<not> ra_realloc a"
    "reg_scan ps (page_addr ps d) (page_count ps d n) 0 (mc_slots c) = Inl i"
    "ncclIbRegMrDmaBufInternal ps a d n c = (res, h, c1)"
    "ra_reg b = (ncclSuccess, mr)" "ncclIbRegMrDmaBufInternal ps b d n c1 = (res1, h1, c2)"
  shows "res = ncclSystemError \<and> res1 = ncclSuccess \<and> mc_room c2 < mc_population c2"
proof -
  let ?c = "c\<lparr>mc_capacity := if mc_capacity c < 32 then 32 else 2 * mc_capacity c\<rparr>"
  have one: "res = ncclSystemError" "c1 = ?c"
    using assms(1,3,4,5) by (auto simp: ncclIbRegMrDmaBufInternal_def grow_cache_def Let_def)
  have "mc_population ?c \<noteq> mc_capacity ?c" using assms(1) by auto
  then have "grow_cache (ra_realloc b) c1 = (True, c1)" by (simp add: grow_cache_def one(2))
  moreover have "reg_scan ps (page_addr ps d) (page_count ps d n) 0 (mc_slots c1) = Inl i" using assms(4) one by simp
  ultimately have "res1 = ncclSuccess" "mc_room c2 = mc_room c" "mc_population c2 = Suc (mc_population c)"
    using assms(6,7) reg_scan_Inl [OF assms(4)]
    by (auto simp: ncclIbRegMrDmaBufInternal_def Let_def one(2) min_def)
  then show ?thesis using one assms(1,2) by simp
qed

definition empty_mrs :: ncclIbMrCache where
  "empty_mrs = \<lparr>mc_slots = [], mc_capacity = 0, mc_room = 0\<rparr>"

theorem failed_growth_overruns_witness:
  "let (res, h, c1) = ncclIbRegMrDmaBufInternal 4096 \<lparr>ra_realloc = False, ra_reg = (ncclSuccess, 0)\<rparr> 0x5000 100 empty_mrs;
       (res1, h1, c2) = ncclIbRegMrDmaBufInternal 4096 \<lparr>ra_realloc = True, ra_reg = (ncclSuccess, 7)\<rparr> 0x5000 100 c1
   in res = ncclSystemError \<and> res1 = ncclSuccess \<and> mc_room c2 < mc_population c2"
proof -
  obtain res h c1 where a: "ncclIbRegMrDmaBufInternal 4096 \<lparr>ra_realloc = False, ra_reg = (ncclSuccess, 0)\<rparr> 0x5000 100 empty_mrs = (res, h, c1)"
    by (metis prod_cases3)
  obtain res1 h1 c2 where b: "ncclIbRegMrDmaBufInternal 4096 \<lparr>ra_realloc = True, ra_reg = (ncclSuccess, 7)\<rparr> 0x5000 100 c1 = (res1, h1, c2)"
    by (metis prod_cases3)
  have "res = ncclSystemError \<and> res1 = ncclSuccess \<and> mc_room c2 < mc_population c2"
    by (rule failed_growth_overruns [OF _ _ _ _ a _ b]) (simp_all add: empty_mrs_def)
  then show ?thesis by (simp only: a b Let_def prod.case)
qed

section \<open>Users of one device\<close>

text \<open>Any number of users register buffers and give their registrations back. \<open>rg_live\<close> are the memory regions the verbs
  library holds, each with its pages; \<open>rg_held\<close> the registrations held, each with its buffer. The verbs
  library names a new region by a number that no live region has; memory for the slots can be had.\<close>

record Reg_State =
  rg_cache :: ncclIbMrCache
  rg_live :: "nat \<rightharpoonup> u64 \<times> u64"
  rg_held :: "(nat \<times> u64 \<times> u64) multiset"

inductive reg_step :: "u64 \<Rightarrow> Reg_State \<Rightarrow> Reg_State \<Rightarrow> bool" for ps where
  hit: "ra_realloc ans \<Longrightarrow> reg_scan ps (page_addr ps data) (page_count ps data sz) 0 (mc_slots (rg_cache s)) = Inr i \<Longrightarrow>
    ncclIbRegMrDmaBufInternal ps ans data sz (rg_cache s) = (ncclSuccess, Some mr, c1) \<Longrightarrow>
    reg_step ps s (s\<lparr>rg_cache := c1, rg_held := rg_held s + {#(mr, data, sz)#}\<rparr>)"
| fresh: "ra_realloc ans \<Longrightarrow> reg_scan ps (page_addr ps data) (page_count ps data sz) 0 (mc_slots (rg_cache s)) = Inl i \<Longrightarrow>
    ncclIbRegMrDmaBufInternal ps ans data sz (rg_cache s) = (ncclSuccess, Some mr, c1) \<Longrightarrow> rg_live s mr = None \<Longrightarrow>
    reg_step ps s (s\<lparr>rg_cache := c1, rg_live := (rg_live s)(mr \<mapsto> (page_addr ps data, page_count ps data sz)),
                     rg_held := rg_held s + {#(mr, data, sz)#}\<rparr>)"
| refused: "ra_realloc ans \<Longrightarrow> ncclIbRegMrDmaBufInternal ps ans data sz (rg_cache s) = (res, h, c1) \<Longrightarrow>
    res \<noteq> ncclSuccess \<Longrightarrow> reg_step ps s (s\<lparr>rg_cache := c1\<rparr>)"
| give_back: "(mr, data, sz) \<in># rg_held s \<Longrightarrow>
    ncclIbDeregMrInternal a mr (rg_cache s) = (res, called, c1) \<Longrightarrow>
    reg_step ps s (s\<lparr>rg_cache := c1, rg_held := rg_held s - {#(mr, data, sz)#},
                     rg_live := if called \<and> a = ncclSuccess then (rg_live s)(mr := None) else rg_live s\<rparr>)"

definition reg_start :: Reg_State where
  "reg_start = \<lparr>rg_cache = empty_mrs, rg_live = (\<lambda>_. None), rg_held = {#}\<rparr>"

inductive reg_reach :: "u64 \<Rightarrow> Reg_State \<Rightarrow> bool" for ps where
  start: "reg_reach ps reg_start"
| step: "reg_reach ps s \<Longrightarrow> reg_step ps s t \<Longrightarrow> reg_reach ps t"

abbreviation users :: "(nat \<times> u64 \<times> u64) multiset \<Rightarrow> nat \<Rightarrow> nat" where
  "users H m \<equiv> count (image_mset fst H) m"

definition slot_ok :: "u64 \<Rightarrow> (nat \<rightharpoonup> u64 \<times> u64) \<Rightarrow> (nat \<times> u64 \<times> u64) multiset \<Rightarrow> ncclIbMr \<Rightarrow> bool" where
  "slot_ok ps live H s \<longleftrightarrow>
     live (mr_mr s) = Some (mr_addr s, mr_pages s) \<and> 0 < mr_refs s \<and> mr_refs s = int (users H (mr_mr s)) \<and>
     page_addr ps (mr_addr s) = mr_addr s"

definition held_ok :: "u64 \<Rightarrow> ncclIbMr list \<Rightarrow> nat \<times> u64 \<times> u64 \<Rightarrow> bool" where
  "held_ok ps slots h \<longleftrightarrow>
     (case h of (mr, data, sz) \<Rightarrow>
        \<exists>s\<in>set slots. mr_mr s = mr \<and> slot_covers ps (page_addr ps data) (page_count ps data sz) s)"

definition reg_inv :: "u64 \<Rightarrow> Reg_State \<Rightarrow> bool" where
  "reg_inv ps s \<longleftrightarrow>
     distinct (map mr_mr (mc_slots (rg_cache s))) \<and>
     (\<forall>x\<in>set (mc_slots (rg_cache s)). slot_ok ps (rg_live s) (rg_held s) x) \<and>
     (\<forall>h\<in>#rg_held s. held_ok ps (mc_slots (rg_cache s)) h) \<and>
     mc_population (rg_cache s) \<le> mc_capacity (rg_cache s) \<and> mc_capacity (rg_cache s) = mc_room (rg_cache s)"

lemma grow_cache_ok:
  assumes "grow_cache True c = (b, c1)" "mc_population c \<le> mc_capacity c" "mc_capacity c = mc_room c"
  shows "b" "mc_slots c1 = mc_slots c" "mc_population c < mc_capacity c1" "mc_capacity c1 = mc_room c1"
  using assms by (auto simp: grow_cache_def Let_def split: if_splits)

lemma page_addr_idem: "ps = 2 ^ k \<Longrightarrow> page_addr ps (page_addr ps d) = page_addr ps d"
  by (simp add: page_addr_def and.assoc)

lemma no_users:
  assumes "\<forall>h\<in>#H. held_ok ps slots h" "m \<notin> mr_mr ` set slots"
  shows "users H m = 0"
proof -
  have "fst h \<noteq> m" if "h \<in># H" for h
  proof -
    obtain mr d n where h: "h = (mr, d, n)" by (metis prod_cases3)
    from assms(1) that have "held_ok ps slots h" by blast
    with assms(2) show ?thesis by (auto simp: held_ok_def h)
  qed
  then show ?thesis by (auto simp: count_eq_zero_iff)
qed

lemma reg_inv_fresh:
  assumes inv: "reg_inv ps s" and ps: "ps = 2 ^ k" and ra: "ra_realloc ans"
    and sc: "reg_scan ps (page_addr ps data) (page_count ps data sz) 0 (mc_slots (rg_cache s)) = Inl i"
    and r: "ncclIbRegMrDmaBufInternal ps ans data sz (rg_cache s) = (ncclSuccess, Some mr, c1)"
    and f: "rg_live s mr = None"
  shows "reg_inv ps (s\<lparr>rg_cache := c1, rg_live := (rg_live s)(mr \<mapsto> (page_addr ps data, page_count ps data sz)),
           rg_held := rg_held s + {#(mr, data, sz)#}\<rparr>)"
proof -
  let ?c = "rg_cache s" and ?a = "page_addr ps data" and ?p = "page_count ps data sz"
  let ?e = "\<lparr>mr_addr = ?a, mr_pages = ?p, mr_refs = 1, mr_mr = mr\<rparr>"
  obtain b c0 where g: "grow_cache True ?c = (b, c0)" by force
  note g1 = grow_cache_ok [OF g] inv [unfolded reg_inv_def]
  have slots: "mc_slots c1 = take i (mc_slots ?c) @ ?e # drop i (mc_slots ?c)"
    and cap: "mc_capacity c1 = mc_capacity c0" "mc_room c1 = mc_room c0"
    using r ra g g1 by (auto simp: ncclIbRegMrDmaBufInternal_def Let_def sc split: prod.splits if_splits)
  have notin: "mr \<notin> mr_mr ` set (mc_slots ?c)" using inv f by (auto simp: reg_inv_def slot_ok_def)
  have none: "users (rg_held s) mr = 0"
    using inv notin no_users unfolding reg_inv_def by blast
  have set1: "set (mc_slots c1) = insert ?e (set (mc_slots ?c))"
    unfolding slots by (metis Un_insert_right append_take_drop_id list.simps(15) set_append)
  have "mset (mc_slots c1) = add_mset ?e (mset (mc_slots ?c))"
    unfolding slots by (metis append_take_drop_id mset.simps(2) mset_append union_mset_add_mset_right)
  then have "mset (map mr_mr (mc_slots c1)) = mset (mr # map mr_mr (mc_slots ?c))" by simp
  moreover have "distinct (mr # map mr_mr (mc_slots ?c))" using inv notin by (simp add: reg_inv_def)
  ultimately have dist: "distinct (map mr_mr (mc_slots c1))" using mset_eq_imp_distinct_iff by blast
  have "slot_ok ps ((rg_live s)(mr \<mapsto> (?a, ?p))) (rg_held s + {#(mr, data, sz)#}) x" if "x \<in> set (mc_slots c1)" for x
    using that inv notin none ps page_addr_idem by (auto simp: set1 reg_inv_def slot_ok_def)
  moreover have "held_ok ps (mc_slots c1) h" if "h \<in># rg_held s + {#(mr, data, sz)#}" for h
  proof (cases "h \<in># rg_held s")
    case True
    then have "held_ok ps (mc_slots ?c) h" using inv by (simp add: reg_inv_def)
    then show ?thesis by (cases h) (auto simp: set1 held_ok_def)
  next
    case False
    then have "h = (mr, data, sz)" using that by simp
    then show ?thesis by (simp add: set1 held_ok_def slot_covers_def)
  qed
  moreover have "mc_population c1 \<le> mc_capacity c1" "mc_capacity c1 = mc_room c1"
    using g1 cap slots by (auto simp: min_def)
  ultimately show ?thesis using dist by (simp add: reg_inv_def)
qed

lemma set_update_distinct:
  assumes "distinct (map f xs)" "i < length xs"
  shows "set (xs[i := t]) = insert t {x \<in> set xs. f x \<noteq> f (xs ! i)}"
  using assms
proof (induction xs arbitrary: i)
  case (Cons a xs)
  show ?case
  proof (cases i)
    case 0
    then show ?thesis using Cons.prems by (auto simp: image_iff)
  next
    case (Suc j)
    then have "f a \<noteq> f (xs ! j)" using Cons.prems by (auto simp: image_iff)
    then show ?thesis using Cons Suc by auto
  qed
qed simp

lemma mset_remove_slot:
  assumes "i < length xs"
  shows "add_mset (xs ! i) (mset (butlast ((xs[i := t])[i := last (xs[i := t])]))) = mset xs"
proof -
  obtain us s vs where xs: "xs = us @ s # vs" "length us = i" using id_take_nth_drop [OF assms] assms by force
  show ?thesis
  proof (cases vs rule: rev_cases)
    case Nil
    then show ?thesis using xs by (simp add: list_update_append nth_append)
  next
    case (snoc ws z)
    then show ?thesis using xs by (simp add: list_update_append nth_append butlast_append)
  qed
qed

lemma slot_users: "slot_ok ps live H s \<Longrightarrow> mr_refs s = int (users H (mr_mr s))"
  by (simp add: slot_ok_def)

lemma reg_inv_hit:
  assumes inv: "reg_inv ps s"
    and sc: "reg_scan ps (page_addr ps data) (page_count ps data sz) 0 (mc_slots (rg_cache s)) = Inr i"
    and r: "ncclIbRegMrDmaBufInternal ps ans data sz (rg_cache s) = (ncclSuccess, Some mr, c1)"
  shows "reg_inv ps (s\<lparr>rg_cache := c1, rg_held := rg_held s + {#(mr, data, sz)#}\<rparr>)"
proof -
  let ?xs = "mc_slots (rg_cache s)"
  let ?t = "(?xs ! i)\<lparr>mr_refs := mr_refs (?xs ! i) + 1\<rparr>"
  note i = reg_scan_Inr [OF sc, simplified]
  have r1: "mr = mr_mr (?xs ! i)" "c1 = (rg_cache s)\<lparr>mc_slots := ?xs[i := ?t]\<rparr>"
    using r by (simp_all add: ncclIbRegMrDmaBufInternal_def Let_def sc)
  have set1: "set (mc_slots c1) = insert ?t {x \<in> set ?xs. mr_mr x \<noteq> mr}"
    using set_update_distinct [of mr_mr ?xs i] inv i r1 by (simp add: reg_inv_def)
  have "map mr_mr (?xs[i := ?t]) = map mr_mr ?xs"
    by (simp add: map_update list_update_same_conv i)
  then have dist: "distinct (map mr_mr (mc_slots c1))" using inv r1 by (simp add: reg_inv_def)
  have old: "slot_ok ps (rg_live s) (rg_held s) (?xs ! i)" using inv i by (simp add: reg_inv_def)
  have "slot_ok ps (rg_live s) (rg_held s + {#(mr, data, sz)#}) x" if "x \<in> set (mc_slots c1)" for x
    using that inv old by (auto simp: set1 reg_inv_def slot_ok_def r1(1))
  moreover have "held_ok ps (mc_slots c1) h" if h: "h \<in># rg_held s + {#(mr, data, sz)#}" for h
  proof -
    obtain m d n where e: "h = (m, d, n)" by (metis prod_cases3)
    have "\<exists>x\<in>set ?xs. mr_mr x = m \<and> slot_covers ps (page_addr ps d) (page_count ps d n) x"
      using h e inv i r1(1) nth_mem by (fastforce simp: reg_inv_def held_ok_def)
    then obtain x where x: "x \<in> set ?xs" "mr_mr x = m" "slot_covers ps (page_addr ps d) (page_count ps d n) x" by blast
    have "x = ?xs ! i" if "m = mr"
      using that x r1(1) inv i by (metis (no_types, lifting) distinct_map inj_onD nth_mem reg_inv_def)
    then show ?thesis using x by (cases "m = mr") (auto simp: held_ok_def e set1 slot_covers_def r1(1))
  qed
  moreover have "mc_population c1 \<le> mc_capacity c1" "mc_capacity c1 = mc_room c1"
    using inv r1(2) by (auto simp: reg_inv_def)
  ultimately show ?thesis using dist by (simp add: reg_inv_def)
qed

lemma reg_inv_refused:
  assumes inv: "reg_inv ps s" and ra: "ra_realloc ans"
    and r: "ncclIbRegMrDmaBufInternal ps ans data sz (rg_cache s) = (res, h, c1)" "res \<noteq> ncclSuccess"
  shows "reg_inv ps (s\<lparr>rg_cache := c1\<rparr>)"
proof -
  obtain b c0 where g: "grow_cache True (rg_cache s) = (b, c0)" by force
  note g1 = grow_cache_ok [OF g] inv [unfolded reg_inv_def]
  have "c1 = c0"
    using r ra g g1 by (auto simp: ncclIbRegMrDmaBufInternal_def Let_def split: sum.splits prod.splits if_splits)
  with g1 show ?thesis by (simp add: reg_inv_def)
qed

lemma find_mr_Some:
  "find_mr m n xs = Some i \<Longrightarrow> n \<le> i \<and> i - n < length xs \<and> mr_mr (xs ! (i - n)) = m"
proof (induction xs arbitrary: n)
  case (Cons x xs)
  show ?case
  proof (cases "mr_mr x = m")
    case True
    with Cons.prems show ?thesis by auto
  next
    case False
    then have "n + 1 \<le> i \<and> i - (n + 1) < length xs \<and> mr_mr (xs ! (i - (n + 1))) = m" using Cons by simp
    moreover then have "i - n = Suc (i - (n + 1))" by arith
    ultimately show ?thesis by simp
  qed
qed simp

lemma find_mr_None: "find_mr m n xs = None \<longleftrightarrow> m \<notin> mr_mr ` set xs"
  by (induction xs arbitrary: n) auto

lemma reg_inv_give_back:
  assumes inv: "reg_inv ps s" and h: "(mr, data, sz) \<in># rg_held s"
    and d: "ncclIbDeregMrInternal a mr (rg_cache s) = (res, called, c1)"
  shows "reg_inv ps (s\<lparr>rg_cache := c1, rg_held := rg_held s - {#(mr, data, sz)#},
           rg_live := if called \<and> a = ncclSuccess then (rg_live s)(mr := None) else rg_live s\<rparr>)"
proof -
  let ?xs = "mc_slots (rg_cache s)" and ?H = "rg_held s - {#(mr, data, sz)#}"
  let ?live = "if called \<and> a = ncclSuccess then (rg_live s)(mr := None) else rg_live s"
  have "held_ok ps ?xs (mr, data, sz)" using inv h by (simp add: reg_inv_def)
  then obtain i where f: "find_mr mr 0 ?xs = Some i"
    using find_mr_None [of mr 0 ?xs] by (auto simp: held_ok_def)
  note i = find_mr_Some [OF f, simplified]
  let ?t = "(?xs ! i)\<lparr>mr_refs := mr_refs (?xs ! i) - 1\<rparr>"
  have old: "slot_ok ps (rg_live s) (rg_held s) (?xs ! i)" using inv i by (simp add: reg_inv_def)
  have usersH: "users ?H m = (if m = mr then users (rg_held s) m - 1 else users (rg_held s) m)" for m
    using h by (simp add: image_mset_Diff)
  have pos: "0 < users (rg_held s) mr"
    using h by (metis count_greater_zero_iff fst_conv image_eqI set_image_mset)
  have heldH: "h' \<in># rg_held s" if "h' \<in># ?H" for h' using that by (rule in_diffD)
  have refs: "mr_refs (?xs ! i) = int (users (rg_held s) mr)" using slot_users [OF old] i by simp
  have set2: "slot_ok ps ?live ?H x" if "x \<in> set ?xs" "mr_mr x \<noteq> mr" for x
    using that inv by (auto simp: reg_inv_def slot_ok_def usersH)
  show ?thesis
  proof (cases "mr_refs (?xs ! i) = 1")
    case False
    then have c1: "\<not> called" "c1 = (rg_cache s)\<lparr>mc_slots := ?xs[i := ?t]\<rparr>"
      using d by (simp_all add: ncclIbDeregMrInternal_def f Let_def)
    have set1: "set (mc_slots c1) = insert ?t {x \<in> set ?xs. mr_mr x \<noteq> mr}"
      using set_update_distinct [of mr_mr ?xs i] inv i c1 by (simp add: reg_inv_def)
    have "map mr_mr (?xs[i := ?t]) = map mr_mr ?xs" by (simp add: map_update list_update_same_conv i)
    then have dist: "distinct (map mr_mr (mc_slots c1))" using inv c1 by (simp add: reg_inv_def)
    have "1 < users (rg_held s) mr" using pos False refs by linarith
    then have "slot_ok ps ?live ?H ?t"
      using old refs i c1(1) by (simp add: slot_ok_def usersH of_nat_diff)
    moreover have "held_ok ps (mc_slots c1) h'" if "h' \<in># ?H" for h'
    proof -
      obtain m d' n where e: "h' = (m, d', n)" by (metis prod_cases3)
      from inv heldH [OF that] obtain x where x: "x \<in> set ?xs" "mr_mr x = m"
          "slot_covers ps (page_addr ps d') (page_count ps d' n) x"
        by (auto simp: reg_inv_def held_ok_def e)
      have "x = ?xs ! i" if "m = mr"
        using that x inv i by (metis (no_types, lifting) distinct_map inj_onD nth_mem reg_inv_def)
      then show ?thesis using x i by (cases "m = mr") (auto simp: held_ok_def e set1 slot_covers_def)
    qed
    moreover have "mc_population c1 \<le> mc_capacity c1" "mc_capacity c1 = mc_room c1"
      using inv c1(2) by (auto simp: reg_inv_def)
    ultimately show ?thesis using dist set2 set1 by (auto simp: reg_inv_def)
  next
    case True
    let ?ys = "butlast ((?xs[i := ?t])[i := last (?xs[i := ?t])])"
    have c1: "mc_slots c1 = ?ys" "mc_population c1 \<le> mc_capacity c1" "mc_capacity c1 = mc_room c1"
      using d True inv by (auto simp: ncclIbDeregMrInternal_def f Let_def reg_inv_def)
    have m: "add_mset (?xs ! i) (mset (mc_slots c1)) = mset ?xs"
      unfolding c1 by (rule mset_remove_slot) (use i in simp)
    then have "image_mset mr_mr (mset ?xs) = add_mset mr (image_mset mr_mr (mset (mc_slots c1)))"
      using i by (metis image_mset_add_mset)
    then have "mset (map mr_mr ?xs) = mset (mr # map mr_mr (mc_slots c1))" by simp
    then have dist: "distinct (mr # map mr_mr (mc_slots c1))"
      using inv by (metis mset_eq_imp_distinct_iff reg_inv_def)
    have set1: "x \<in> set (mc_slots c1) \<longleftrightarrow> x \<in> set ?xs \<and> mr_mr x \<noteq> mr" for x
    proof -
      have "set ?xs = insert (?xs ! i) (set (mc_slots c1))" using m by (metis set_mset_add_mset_insert set_mset_mset)
      then show ?thesis using dist i by (auto simp: image_iff)
    qed
    have one: "users (rg_held s) mr = 1" using refs True by simp
    have "held_ok ps (mc_slots c1) h'" if "h' \<in># ?H" for h'
    proof -
      obtain m d' n where e: "h' = (m, d', n)" by (metis prod_cases3)
      have "0 < users ?H m" using that e by (metis count_greater_zero_iff fst_conv image_eqI set_image_mset)
      moreover have "users ?H mr = 0" using usersH [of mr] one by simp
      ultimately have "m \<noteq> mr" by (metis less_numeral_extra(3))
      moreover have "held_ok ps ?xs h'" using inv heldH [OF that] by (simp add: reg_inv_def)
      ultimately show ?thesis using set1 by (auto simp: held_ok_def e)
    qed
    then show ?thesis using dist set1 set2 c1(2,3) by (auto simp: reg_inv_def)
  qed
qed

lemma reg_inv_reach:
  assumes "reg_reach ps s" "ps = 2 ^ k"
  shows "reg_inv ps s"
  using assms(1)
proof (induction rule: reg_reach.induct)
  case start
  then show ?case by (simp add: reg_inv_def reg_start_def empty_mrs_def)
next
  case (step s t)
  from step.hyps(2) step.IH show ?case
    by (cases rule: reg_step.cases)
      (use assms(2) in \<open>blast intro: reg_inv_hit reg_inv_fresh reg_inv_refused reg_inv_give_back\<close>)+
qed

text \<open>C16. A registration a user holds stays valid until it is given back, whatever the other users of the device
  register and deregister: its memory region is alive, and its pages contain the buffer.\<close>

theorem held_registration_is_valid:
  assumes "reg_reach ps s" "ps = 2 ^ k" "1 < k" "k < 64" "(mr, data, sz) \<in># rg_held s" "unat data + unat sz + 2 ^ k \<le> 2 ^ 64"
  shows "\<exists>a p. rg_live s mr = Some (a, p) \<and> unat a \<le> unat data \<and> unat data + unat sz \<le> unat a + unat p * 2 ^ k"
proof -
  let ?d = "page_addr ps data" and ?n = "page_count ps data sz"
  have inv: "reg_inv ps s" by (rule reg_inv_reach [OF assms(1,2)])
  then have "held_ok ps (mc_slots (rg_cache s)) (mr, data, sz)" using assms(5) by (auto simp: reg_inv_def)
  then obtain x where x: "x \<in> set (mc_slots (rg_cache s))" "mr_mr x = mr" "slot_covers ps ?d ?n x"
    by (auto simp: held_ok_def)
  let ?a = "mr_addr x" and ?p = "mr_pages x"
  have ok: "rg_live s mr = Some (?a, ?p)" "page_addr ps ?a = ?a"
    using inv x by (auto simp: reg_inv_def slot_ok_def)
  have ups: "unat ps = 2 ^ k" using assms(2,4) by (simp add: unat_exp)
  note c = pages_contain [OF assms(2,4,6)]
  have le: "unat ?a \<le> unat ?d" using x(3) by (simp add: slot_covers_def word_le_nat_alt)
  define q where "q = (unat ?d - unat ?a) div 2 ^ k"
  have "unat ?a = unat ?a div 2 ^ k * 2 ^ k" "unat ?d = unat data div 2 ^ k * 2 ^ k"
    using page_addr_nat [OF assms(2,4)] ok(2) by metis+
  then have q: "unat ?d = unat ?a + q * 2 ^ k"
    using le by (metis dvd_diff_nat dvd_triv_right dvd_div_mult_self le_add_diff_inverse q_def)
  have small: "u div 2 ^ k < 2 ^ 62" if "u < 2 ^ 64" for u :: nat
  proof -
    have "(2 :: nat) ^ 2 \<le> 2 ^ k" using assms(3) by (intro power_increasing) simp_all
    then have "u div 2 ^ k \<le> u div 4" by (intro div_le_mono2) simp_all
    also have "\<dots> < 2 ^ 62" using that by simp
    finally show ?thesis .
  qed
  have qw: "unat ((?d - ?a) div ps) = q"
    using le by (simp add: unat_div ups q_def unat_sub word_le_nat_alt)
  have lt: "unat w < 2 ^ 64" for w :: u64
  proof -
    have "unat w < 2 ^ LENGTH(64)" by (rule unsigned_less)
    then show ?thesis by simp
  qed
  have q62: "unat (w div ps) < 2 ^ 62" for w using small [OF lt] by (simp add: unat_div ups)
  have "unat ((?d - ?a) div ps) + unat ?n < 2 ^ 62 + 2 ^ 62"
    unfolding page_count_def by (intro add_strict_mono q62)
  then have "unat ((?d - ?a) div ps) + unat ?n < 2 ^ 64" by simp
  then have "unat ((?d - ?a) div ps + ?n) = q + unat ?n" by (subst unat_add_lem [THEN iffD1]) (simp_all add: qw)
  then have "q + unat ?n \<le> unat ?p" using x(3) by (simp add: slot_covers_def word_le_nat_alt)
  then have "q * 2 ^ k + unat ?n * 2 ^ k \<le> unat ?p * 2 ^ k" by (metis add_mult_distrib mult_le_mono1)
  then have "unat data + unat sz \<le> unat ?a + unat ?p * 2 ^ k" using c(2) q by linarith
  then show ?thesis using ok(1) le c(1) by (auto intro: order_trans)
qed

definition one_user :: Reg_State where
  "one_user = \<lparr>rg_cache = \<lparr>mc_slots = [\<lparr>mr_addr = 0x5000, mr_pages = 1, mr_refs = 1, mr_mr = 7\<rparr>], mc_capacity = 32, mc_room = 32\<rparr>,
     rg_live = [7 \<mapsto> (0x5000, 1)], rg_held = {#(7, 0x5010, 100)#}\<rparr>"

lemma one_user_reached: "reg_reach 4096 one_user"
proof -
  let ?ans = "\<lparr>ra_realloc = True, ra_reg = (ncclSuccess, 7)\<rparr>"
  have p: "page_addr 4096 0x5010 = 0x5000" "page_count 4096 0x5010 100 = 1"
    by (simp_all add: page_addr_def page_count_def)
  have r: "ncclIbRegMrDmaBufInternal 4096 ?ans 0x5010 100 (rg_cache reg_start) = (ncclSuccess, Some 7, rg_cache one_user)"
    by (simp add: ncclIbRegMrDmaBufInternal_def p reg_start_def empty_mrs_def grow_cache_def one_user_def)
  have "reg_step 4096 reg_start (reg_start\<lparr>rg_cache := rg_cache one_user,
          rg_live := (rg_live reg_start)(7 \<mapsto> (page_addr 4096 0x5010, page_count 4096 0x5010 100)),
          rg_held := rg_held reg_start + {#(7, 0x5010, 100)#}\<rparr>)"
    by (rule reg_step.fresh [OF _ _ r, of 0]) (simp_all add: reg_start_def empty_mrs_def)
  then have "reg_step 4096 reg_start one_user" by (simp add: p reg_start_def one_user_def)
  then show ?thesis by (rule reg_reach.step [OF reg_reach.start])
qed

theorem held_registration_is_valid_witness:
  "\<exists>a p. rg_live one_user 7 = Some (a, p) \<and> unat a \<le> 0x5010 \<and> 0x5010 + 100 \<le> unat a + unat p * 4096"
  using held_registration_is_valid [OF one_user_reached, of 12 7 "0x5010" 100] by (simp add: one_user_def)

section \<open>Several devices\<close>

definition total_refs :: "ncclIbMrCache \<Rightarrow> int" where
  "total_refs c = sum_list (map mr_refs (mc_slots c))"

lemma registration_counts:
  assumes "ncclIbRegMrDmaBufInternal ps a d n c = (ncclSuccess, h, c1)"
  shows "total_refs c1 = total_refs c + 1"
proof (cases "reg_scan ps (page_addr ps d) (page_count ps d n) 0 (mc_slots c)")
  case (Inr i)
  note i = reg_scan_Inr [OF Inr, simplified]
  let ?xs = "mc_slots c"
  have "c1 = c\<lparr>mc_slots := ?xs[i := (?xs ! i)\<lparr>mr_refs := mr_refs (?xs ! i) + 1\<rparr>]\<rparr>"
    using assms by (simp add: ncclIbRegMrDmaBufInternal_def Let_def Inr)
  moreover have "sum_list (map mr_refs (?xs[i := t])) + mr_refs (?xs ! i) = sum_list (map mr_refs ?xs) + mr_refs t" for t
    using i by (subst (3) id_take_nth_drop [of i ?xs]) (simp_all add: upd_conv_take_nth_drop)
  from this [of "(?xs ! i)\<lparr>mr_refs := mr_refs (?xs ! i) + 1\<rparr>"]
  have "sum_list (map mr_refs (?xs[i := (?xs ! i)\<lparr>mr_refs := mr_refs (?xs ! i) + 1\<rparr>])) = sum_list (map mr_refs ?xs) + 1"
    by simp
  ultimately show ?thesis by (simp add: total_refs_def)
next
  case (Inl i)
  obtain g c0 where gr: "grow_cache (ra_realloc a) c = (g, c0)" by force
  then have "mc_slots c0 = mc_slots c" by (auto simp: grow_cache_def Let_def split: if_splits)
  then have "\<exists>e. mc_slots c1 = take i (mc_slots c) @ e # drop i (mc_slots c) \<and> mr_refs e = 1"
    using assms gr by (auto simp: ncclIbRegMrDmaBufInternal_def Let_def Inl split: prod.splits if_splits)
  then obtain e where e: "mc_slots c1 = take i (mc_slots c) @ e # drop i (mc_slots c)" "mr_refs e = 1" by blast
  have "sum_list (map mr_refs (mc_slots c)) = sum_list (map mr_refs (take i (mc_slots c) @ drop i (mc_slots c)))" by simp
  also have "\<dots> = sum_list (map mr_refs (take i (mc_slots c))) + sum_list (map mr_refs (drop i (mc_slots c)))"
    by (simp only: map_append sum_list_append)
  finally show ?thesis using e by (simp add: total_refs_def)
qed

text \<open>A communicator with two devices whose second device refuses: the caller gets no handle, but the first device
  counts one user more, whom nothing will ever remove.\<close>

theorem failed_registration_leaks:
  assumes "ncclIbRegMrDmaBufInternal ps a data sz (caches d) = (ncclSuccess, h, c1)" "d \<noteq> e"
    "ncclIbRegMrDmaBufInternal ps b data sz (caches e) = (res, h1, c2)" "res \<noteq> ncclSuccess"
  shows "\<exists>caches1. ncclIbRegMr ps [a, b] data sz [d, e] caches = (res, None, caches1) \<and>
           total_refs (caches1 d) = total_refs (caches d) + 1"
  using assms registration_counts [OF assms(1)]
  by (simp add: ncclIbRegMr_def ncclIbRegMrDmaBuf_def)

theorem failed_registration_leaks_witness:
  "\<exists>caches1. ncclIbRegMr 4096 [\<lparr>ra_realloc = True, ra_reg = (ncclSuccess, 7)\<rparr>, \<lparr>ra_realloc = True, ra_reg = (ncclSystemError, 0)\<rparr>]
     0x5000 100 [0, 1] (\<lambda>_. empty_mrs) = (ncclSystemError, None, caches1) \<and> total_refs (caches1 0) = total_refs empty_mrs + 1"
  by (rule failed_registration_leaks)
    (simp_all add: ncclIbRegMrDmaBufInternal_def empty_mrs_def grow_cache_def)

end
