(* ===== verification/IbTransfer.thy ===== *)
theory IbTransfer
  imports IbMrCache
begin

text \<open>
  Sending and receiving in \<^verbatim>\<open>nccl_internal_impl/net_ib.cc\<close>: the requests of a communicator, the ring in which a
  receiver announces its buffers to the sender, the work requests by which a message is written into them, and
  the polling that completes requests. The verbs library is the record \<open>Ibv\<close>: what has been posted to it and what it will answer.
  A queue pair and a completion queue are numbers. What the network card writes into memory (the ring of the sender, the sizes of a
  receiver) is part of the communicator's record. The macro DIVUP, which is not in the repository, is the argument
  \<open>divup\<close>. Sizes are C \<open>int\<close>s, taken not to overflow.
\<close>

section \<open>Data\<close>

definition NCCL_NET_IB_MAX_RECVS :: nat where "NCCL_NET_IB_MAX_RECVS = 8"
definition IB_MAX_REQUESTS :: nat where "IB_MAX_REQUESTS = 32 * NCCL_NET_IB_MAX_RECVS"
definition NCCL_IB_MAX_DEVS_PER_NIC :: nat where "NCCL_IB_MAX_DEVS_PER_NIC = 2"

lemma IB_MAX_REQUESTS_256: "IB_MAX_REQUESTS = 256"
  by (simp add: IB_MAX_REQUESTS_def NCCL_NET_IB_MAX_RECVS_def)

datatype ib_req_type = NCCL_NET_IB_REQ_UNUSED | NCCL_NET_IB_REQ_SEND | NCCL_NET_IB_REQ_RECV | NCCL_NET_IB_REQ_FLUSH

text \<open>The members of the union are kept side by side; \<open>ir_row\<close> says which row of the sizes \<open>recv.sizes\<close> points to,
  \<open>ir_devBases\<close> the devices by their index. The socket, which serves error messages only, is left out.\<close>

record ncclIbRequest =
  ir_type :: ib_req_type
  ir_events :: "int list"
  ir_devBases :: "nat option list"
  ir_nreqs :: int
  ir_size :: int
  ir_data :: u64
  ir_lkeys :: "u32 list"
  ir_offset :: int
  ir_row :: nat

record ncclIbSendFifo =
  sf_addr :: u64
  sf_size :: int
  sf_rkeys :: "u32 list"
  sf_nreqs :: int
  sf_tag :: u32
  sf_idx :: u64

record ncclIbQp =
  qp_qp :: nat
  qp_devIndex :: nat
  qp_remDevIdx :: nat

text \<open>A registered region as the transfer uses it, one per device of the communicator.\<close>

record ib_keys =
  k_lkey :: u32
  k_rkey :: u32

text \<open>What send and receive communicators share. \<open>nb_fatal\<close> is the count of fatal errors, \<open>nb_sizes\<close> the ring of
  sizes (of a receiver; it is here so that \<open>ncclIbTest\<close> is one function).\<close>

record ncclIbNetCommBase =
  nb_ndevs :: nat
  nb_reqs :: "ncclIbRequest list"
  nb_qps :: "ncclIbQp list"
  nb_nqps :: nat
  nb_qpIndex :: nat
  nb_devIndex :: nat
  nb_ready :: bool
  nb_remFifoRkeys :: "u32 list"
  nb_fatal :: int
  nb_devs :: "nat list"
  nb_sizes :: "int list list"

record ncclIbRemSizesFifo =
  rz_elems :: "int list list"
  rz_addr :: u64
  rz_rkeys :: "u32 list"
  rz_lkeys :: "u32 list"
  rz_local :: u64

record ncclIbSendComm = ncclIbNetCommBase +
  sc_fifo :: "ncclIbSendFifo list list"
  sc_fifoReqs :: "nat option list list"
  sc_remSizesFifo :: ncclIbRemSizesFifo
  sc_fifoHead :: u64
  sc_ar :: bool

record ncclIbRecvComm = ncclIbNetCommBase +
  rc_elems :: "ncclIbSendFifo list list"
  rc_fifoTail :: u64
  rc_fifoAddr :: u64
  rc_local :: u64
  rc_inline :: bool
  rc_fifoLkeys :: "u32 list"
  rc_flushEnabled :: bool
  rc_flushQps :: "nat list"
  rc_flushSges :: "(u64 \<times> u32) list"

text \<open>Work requests, completions, and the answers of the library: a missing answer is success for a post, and no
  completion for a poll.\<close>

datatype wr_opcode = IBV_WR_RDMA_WRITE | IBV_WR_RDMA_WRITE_WITH_IMM | IBV_WR_RDMA_READ

record ibv_sge =
  sge_addr :: u64
  sge_length :: int
  sge_lkey :: u32

record ibv_send_wr =
  wr_id :: u64
  wr_opcode :: wr_opcode
  wr_signaled :: bool
  wr_inline :: bool
  wr_imm_data :: u32
  wr_remote_addr :: u64
  wr_rkey :: u32
  wr_sge :: "ibv_sge option"

record ibv_wc =
  wc_success :: bool
  wc_recv_imm :: bool
  wc_imm_data :: u32
  wc_wr_id :: u64

record Ibv =
  ib_posted :: "(nat \<times> ibv_send_wr list) list"
  ib_recvs :: "(nat \<times> u64) list"
  ib_post_answers :: "ncclResult_t list"
  ib_polls :: "nat \<Rightarrow> (ncclResult_t \<times> ibv_wc list) list"
  ib_dev_fatal :: "nat \<Rightarrow> int"

record Ib_Params =
  IbSplitDataOnQps :: bool
  IbArThreshold :: int
  IbAsyncEvents :: bool

definition zero_ib_request :: ncclIbRequest where
  "zero_ib_request = \<lparr>ir_type = NCCL_NET_IB_REQ_UNUSED, ir_events = [0, 0], ir_devBases = [None, None], ir_nreqs = 0,
     ir_size = 0, ir_data = 0, ir_lkeys = [0, 0], ir_offset = 0, ir_row = 0\<rparr>"

definition zero_fifo :: ncclIbSendFifo where
  "zero_fifo = \<lparr>sf_addr = 0, sf_size = 0, sf_rkeys = [0, 0], sf_nreqs = 0, sf_tag = 0, sf_idx = 0\<rparr>"

definition zero_wr :: ibv_send_wr where
  "zero_wr = \<lparr>wr_id = 0, wr_opcode = IBV_WR_RDMA_WRITE, wr_signaled = False, wr_inline = False, wr_imm_data = 0,
     wr_remote_addr = 0, wr_rkey = 0, wr_sge = None\<rparr>"

section \<open>Statistics\<close>

definition ncclIbStatsCheckFatalCount :: "Ib_Params \<Rightarrow> int \<Rightarrow> ncclResult_t" where
  "ncclIbStatsCheckFatalCount pa n = (if IbAsyncEvents pa \<and> n \<noteq> 0 then ncclSystemError else ncclSuccess)"

section \<open>The library\<close>

definition next_post_answer :: "Ibv \<Rightarrow> ncclResult_t \<times> Ibv" where
  "next_post_answer ib =
     (case ib_post_answers ib of [] \<Rightarrow> (ncclSuccess, ib) | a # as \<Rightarrow> (a, ib\<lparr>ib_post_answers := as\<rparr>))"

definition wrap_ibv_post_send :: "nat \<Rightarrow> ibv_send_wr list \<Rightarrow> Ibv \<Rightarrow> ncclResult_t \<times> Ibv" where
  "wrap_ibv_post_send qp wrs ib =
     (let (res, ib1) = next_post_answer ib
      in (res, if res = ncclSuccess then ib1\<lparr>ib_posted := ib_posted ib1 @ [(qp, wrs)]\<rparr> else ib1))"

definition wrap_ibv_post_recv :: "nat \<Rightarrow> u64 \<Rightarrow> Ibv \<Rightarrow> ncclResult_t \<times> Ibv" where
  "wrap_ibv_post_recv qp w ib =
     (let (res, ib1) = next_post_answer ib
      in (res, if res = ncclSuccess then ib1\<lparr>ib_recvs := ib_recvs ib1 @ [(qp, w)]\<rparr> else ib1))"

definition wrap_ibv_poll_cq :: "nat \<Rightarrow> Ibv \<Rightarrow> ncclResult_t \<times> ibv_wc list \<times> Ibv" where
  "wrap_ibv_poll_cq dev ib =
     (case ib_polls ib dev of
        [] \<Rightarrow> (ncclSuccess, [], ib)
      | (res, wcs) # ps \<Rightarrow> (res, take 4 wcs, ib\<lparr>ib_polls := (ib_polls ib)(dev := ps)\<rparr>))"

section \<open>Requests\<close>

fun first_unused :: "nat \<Rightarrow> ncclIbRequest list \<Rightarrow> nat option" where
  "first_unused i [] = None"
| "first_unused i (r # rs) = (if ir_type r = NCCL_NET_IB_REQ_UNUSED then Some i else first_unused (i + 1) rs)"

definition ncclIbGetRequest ::
  "'a ncclIbNetCommBase_scheme \<Rightarrow> ncclResult_t \<times> nat option \<times> 'a ncclIbNetCommBase_scheme" where
  "ncclIbGetRequest comm =
     (case first_unused 0 (nb_reqs comm) of
        None \<Rightarrow> (ncclInternalError, None, comm)
      | Some i \<Rightarrow>
          (ncclSuccess, Some i,
           comm\<lparr>nb_reqs := (nb_reqs comm)[i := (nb_reqs comm ! i)\<lparr>ir_devBases := [None, None], ir_events := [0, 0]\<rparr>]\<rparr>))"

definition ncclIbFreeRequest :: "nat \<Rightarrow> 'a ncclIbNetCommBase_scheme \<Rightarrow> 'a ncclIbNetCommBase_scheme" where
  "ncclIbFreeRequest i comm =
     comm\<lparr>nb_reqs := (nb_reqs comm)[i := (nb_reqs comm ! i)\<lparr>ir_type := NCCL_NET_IB_REQ_UNUSED\<rparr>]\<rparr>"

definition ncclIbAddEvent :: "nat \<Rightarrow> ncclIbRequest \<Rightarrow> ncclIbRequest" where
  "ncclIbAddEvent devIndex r =
     r\<lparr>ir_events := (ir_events r)[devIndex := ir_events r ! devIndex + 1],
       ir_devBases := (ir_devBases r)[devIndex := Some devIndex]\<rparr>"

definition set_req :: "nat \<Rightarrow> ncclIbRequest \<Rightarrow> 'a ncclIbNetCommBase_scheme \<Rightarrow> 'a ncclIbNetCommBase_scheme" where
  "set_req i r comm = comm\<lparr>nb_reqs := (nb_reqs comm)[i := r]\<rparr>"

text \<open>How many queue pairs a message is spread over.\<close>

definition data_qps :: "Ib_Params \<Rightarrow> 'a ncclIbNetCommBase_scheme \<Rightarrow> nat" where
  "data_qps pa comm = (if IbSplitDataOnQps pa then nb_nqps comm else nb_ndevs comm)"

section \<open>Sending\<close>

text \<open>The identifiers of up to eight requests in one word.\<close>

definition encode_wr_id :: "nat list \<Rightarrow> u64" where
  "encode_wr_id is = (\<Sum>r<length is. push_bit (8 * r) (of_nat (is ! r)))"

definition send_chunk :: "(int \<Rightarrow> int \<Rightarrow> int) \<Rightarrow> int \<Rightarrow> nat \<Rightarrow> int" where
  "send_chunk divup sz nqps = divup (divup sz (int nqps)) 128 * 128"

text \<open>The part of a request that goes out on one queue pair: \<open>raddr\<close> and \<open>saddr\<close> are the remote and the local
  address reached.\<close>

definition data_wr ::
  "(int \<Rightarrow> int \<Rightarrow> int) \<Rightarrow> nat \<Rightarrow> ncclIbQp \<Rightarrow> ncclIbSendFifo \<Rightarrow> ncclIbRequest \<Rightarrow> u64 \<times> u64 \<Rightarrow> ibv_send_wr" where
  "data_wr divup nqps qp slot req addrs =
     (let chunkSize = send_chunk divup (ir_size req) nqps;
          len = min (ir_size req - ir_offset req) chunkSize
      in zero_wr\<lparr>wr_remote_addr := fst addrs, wr_rkey := sf_rkeys slot ! qp_remDevIdx qp,
           wr_sge := if len \<le> 0 then None
                     else Some \<lparr>sge_addr = snd addrs, sge_length = len, sge_lkey = ir_lkeys req ! qp_devIndex qp\<rparr>\<rparr>)"

text \<open>The last work request of the chain carries the identifiers and the immediate data: it is the only data request,
  or an extra one, which for several requests also writes their sizes.\<close>

definition make_last :: "u64 \<Rightarrow> u32 \<Rightarrow> ibv_send_wr \<Rightarrow> ibv_send_wr" where
  "make_last wid imm w =
     w\<lparr>wr_id := wid, wr_opcode := IBV_WR_RDMA_WRITE_WITH_IMM, wr_imm_data := imm, wr_signaled := True\<rparr>"

definition sizes_wr :: "ncclIbRemSizesFifo \<Rightarrow> nat \<Rightarrow> nat \<Rightarrow> ncclIbQp \<Rightarrow> ibv_send_wr" where
  "sizes_wr rz slot nreqs qp =
     zero_wr\<lparr>wr_remote_addr := rz_addr rz + of_nat (slot * NCCL_NET_IB_MAX_RECVS * 4),
       wr_rkey := rz_rkeys rz ! qp_devIndex qp,
       wr_sge := Some \<lparr>sge_addr = rz_local rz + of_nat (slot * NCCL_NET_IB_MAX_RECVS * 4),
                       sge_length = int nreqs * 4, sge_lkey = rz_lkeys rz ! qp_devIndex qp\<rparr>\<rparr>"

definition wr_chain ::
  "(int \<Rightarrow> int \<Rightarrow> int) \<Rightarrow> Ib_Params \<Rightarrow> ncclIbSendComm \<Rightarrow> nat \<Rightarrow> nat list \<Rightarrow> nat \<Rightarrow> ncclIbQp \<Rightarrow> (u64 \<times> u64) list \<Rightarrow> ibv_send_wr list" where
  "wr_chain divup pa comm slot reqs nqps qp addrs =
     (let n = length reqs; slots = sc_fifo comm ! slot;
          wid = encode_wr_id reqs;
          imm = (if n = 1 then word_of_int (ir_size (nb_reqs comm ! (reqs ! 0))) else 0);
          wrs = map (\<lambda>r. data_wr divup nqps qp (slots ! r) (nb_reqs comm ! (reqs ! r)) (addrs ! r)) [0..<n]
      in if 1 < n then wrs @ [make_last wid imm (sizes_wr (sc_remSizesFifo comm) slot n qp)]
         else if sc_ar comm \<and> IbArThreshold pa < ir_size (nb_reqs comm ! (reqs ! 0)) then wrs @ [make_last wid imm zero_wr]
         else butlast wrs @ [make_last wid imm (last wrs)])"

text \<open>The loop over the queue pairs; \<open>k\<close> are left.\<close>

fun send_loop ::
  "(int \<Rightarrow> int \<Rightarrow> int) \<Rightarrow> Ib_Params \<Rightarrow> nat \<Rightarrow> nat list \<Rightarrow> nat \<Rightarrow> nat \<Rightarrow> (u64 \<times> u64) list \<Rightarrow> ncclIbSendComm \<Rightarrow> Ibv \<Rightarrow>
   ncclResult_t \<times> ncclIbSendComm \<times> Ibv" where
  "send_loop divup pa slot reqs nqps 0 addrs comm ib = (ncclSuccess, comm, ib)"
| "send_loop divup pa slot reqs nqps (Suc k) addrs comm ib =
     (let qp = nb_qps comm ! nb_qpIndex comm;
          (res, ib1) = wrap_ibv_post_send (qp_qp qp) (wr_chain divup pa comm slot reqs nqps qp addrs) ib
      in if res \<noteq> ncclSuccess then (res, comm, ib1)
         else let chunk = (\<lambda>i. send_chunk divup (ir_size (nb_reqs comm ! i)) nqps);
                  comm1 = fold (\<lambda>i c. set_req i ((nb_reqs c ! i)\<lparr>ir_offset := ir_offset (nb_reqs c ! i) + chunk i\<rparr>) c) reqs comm;
                  addrs1 = map2 (\<lambda>i a. (fst a + of_int (chunk i), snd a + of_int (chunk i))) reqs addrs
              in send_loop divup pa slot reqs nqps k addrs1
                   (comm1\<lparr>nb_qpIndex := (nb_qpIndex comm1 + 1) mod nb_nqps comm1\<rparr>) ib1)"

text \<open>\<open>reqs\<close> are the matched requests of the slot, one for each of its \<open>nreqs\<close> receives (the caller has seen to
  that; at least one).\<close>

definition ncclIbMultiSend ::
  "(int \<Rightarrow> int \<Rightarrow> int) \<Rightarrow> Ib_Params \<Rightarrow> ncclIbSendComm \<Rightarrow> nat \<Rightarrow> Ibv \<Rightarrow> ncclResult_t \<times> ncclIbSendComm \<times> Ibv" where
  "ncclIbMultiSend divup pa comm slot ib =
     (let slots = sc_fifo comm ! slot; nreqs = sf_nreqs (slots ! 0)
      in if int NCCL_NET_IB_MAX_RECVS < nreqs then (ncclInternalError, comm, ib)
         else let reqs = map the (take (nat nreqs) (sc_fifoReqs comm ! slot));
                  addrs = map (\<lambda>r. (sf_addr (slots ! r), ir_data (nb_reqs comm ! (reqs ! r)))) [0..<length reqs];
                  rz = sc_remSizesFifo comm;
                  rz1 = (if nreqs = 1 then rz
                         else rz\<lparr>rz_elems := (rz_elems rz)[slot :=
                                 map (\<lambda>i. ir_size (nb_reqs comm ! i)) reqs @ drop (length reqs) (rz_elems rz ! slot)]\<rparr>);
                  nqps = data_qps pa comm
              in send_loop divup pa slot reqs nqps nqps addrs (comm\<lparr>sc_remSizesFifo := rz1\<rparr>) ib)"

text \<open>The events a send waits for: one for each queue pair it will be spread over.\<close>

fun count_events :: "'a ncclIbNetCommBase_scheme \<Rightarrow> nat \<Rightarrow> nat \<Rightarrow> ncclIbRequest \<Rightarrow> ncclIbRequest" where
  "count_events comm 0 qpIndex r = r"
| "count_events comm (Suc n) qpIndex r =
     count_events comm n ((qpIndex + 1) mod nb_nqps comm) (ncclIbAddEvent (qp_devIndex (nb_qps comm ! qpIndex)) r)"

text \<open>The first receive of the slot with the tag that no send has been matched with.\<close>

definition matching :: "ncclIbSendComm \<Rightarrow> nat \<Rightarrow> u32 \<Rightarrow> nat option" where
  "matching comm slot tag =
     List.find (\<lambda>r. sc_fifoReqs comm ! slot ! r = None \<and> sf_tag (sc_fifo comm ! slot ! r) = tag)
       [0..<nat (sf_nreqs (sc_fifo comm ! slot ! 0))]"

definition send_slot :: "ncclIbSendComm \<Rightarrow> nat" where
  "send_slot comm = unat (sc_fifoHead comm mod of_nat IB_MAX_REQUESTS)"

text \<open>The request of a send matched with receive \<open>r\<close> of the slot; \<open>i\<close> is its number.\<close>

definition store_send ::
  "Ib_Params \<Rightarrow> ncclIbSendComm \<Rightarrow> nat \<Rightarrow> nat \<Rightarrow> nat \<Rightarrow> u64 \<Rightarrow> int \<Rightarrow> ib_keys list \<Rightarrow> ncclIbSendComm" where
  "store_send pa comm slot r i data sz mhandle =
     (let rq = count_events comm (data_qps pa comm) (nb_qpIndex comm)
                 ((nb_reqs comm ! i)\<lparr>ir_type := NCCL_NET_IB_REQ_SEND, ir_nreqs := sf_nreqs (sc_fifo comm ! slot ! 0),
                    ir_size := sz, ir_data := data, ir_offset := 0\<rparr>);
          rq1 = rq\<lparr>ir_lkeys := map k_lkey (take (nb_ndevs comm) mhandle) @ drop (nb_ndevs comm) (ir_lkeys rq)\<rparr>
      in (set_req i rq1 comm)\<lparr>sc_fifoReqs := (sc_fifoReqs comm)[slot := (sc_fifoReqs comm ! slot)[r := Some i]]\<rparr>)"

text \<open>The slot after the group has been sent.\<close>

definition group_sent :: "nat \<Rightarrow> ncclIbSendComm \<Rightarrow> ncclIbSendComm" where
  "group_sent slot comm =
     comm\<lparr>sc_fifo := (sc_fifo comm)[slot := (sc_fifo comm ! slot)[0 := zero_fifo]],
          sc_fifoReqs := (sc_fifoReqs comm)[slot := replicate NCCL_NET_IB_MAX_RECVS None],
          sc_fifoHead := sc_fifoHead comm + 1\<rparr>"

text \<open>\<open>None\<close> is the wait for the rest of a group of receives that has arrived in part: the code spins until the card has written
  it. Otherwise the result, the request (\<open>None\<close> the null pointer) if one is written, the communicator and the library.\<close>

definition ncclIbIsend ::
  "(int \<Rightarrow> int \<Rightarrow> int) \<Rightarrow> Ib_Params \<Rightarrow> ncclIbSendComm \<Rightarrow> u64 \<Rightarrow> int \<Rightarrow> u32 \<Rightarrow> ib_keys list \<Rightarrow> Ibv \<Rightarrow>
   (ncclResult_t \<times> nat option \<times> ncclIbSendComm \<times> Ibv) option" where
  "ncclIbIsend divup pa comm data sz tag mhandle ib =
     (if \<not> nb_ready comm then Some (ncclInternalError, None, comm, ib)
      else if ncclIbStatsCheckFatalCount pa (nb_fatal comm) \<noteq> ncclSuccess
      then Some (ncclIbStatsCheckFatalCount pa (nb_fatal comm), None, comm, ib)
      else let slot = send_slot comm; slots = sc_fifo comm ! slot; idx = sc_fifoHead comm + 1
           in if sf_idx (slots ! 0) \<noteq> idx then Some (ncclSuccess, None, comm, ib)
              else let nreqs = sf_nreqs (slots ! 0)
                   in if \<exists>r\<in>{1..<nat nreqs}. sf_idx (slots ! r) \<noteq> idx then None
                      else case matching comm slot tag of
                             None \<Rightarrow> Some (ncclSuccess, None, comm, ib)
                           | Some r \<Rightarrow>
                               let s = slots ! r; sz1 = min sz (sf_size s)
                               in if sf_size s < 0 \<or> sf_addr s = 0 \<or> sf_rkeys s ! 0 = 0
                                  then Some (ncclInternalError, None, comm, ib)
                                  else case ncclIbGetRequest comm of
                                         (res, None, comm1) \<Rightarrow> Some (res, None, comm1, ib)
                                       | (_, Some i, comm1) \<Rightarrow>
                                           let comm2 = store_send pa comm1 slot r i data sz1 mhandle
                                           in if \<exists>r\<in>{0..<nat nreqs}. sc_fifoReqs comm2 ! slot ! r = None
                                              then Some (ncclSuccess, Some i, comm2, ib)
                                              else case ncclIbMultiSend divup pa comm2 slot ib of
                                                     (res, comm3, ib1) \<Rightarrow>
                                                       if res \<noteq> ncclSuccess then Some (res, Some i, comm3, ib1)
                                                       else Some (ncclSuccess, Some i, group_sent slot comm3, ib1))"

section \<open>Receiving\<close>

text \<open>One announced receive: buffer, size, tag and keys.\<close>

record ib_recv =
  rv_data :: u64
  rv_size :: int
  rv_tag :: u32
  rv_keys :: "ib_keys list"

definition fifo_elem :: "'a ncclIbNetCommBase_scheme \<Rightarrow> u64 \<Rightarrow> nat \<Rightarrow> ncclIbSendFifo \<Rightarrow> ib_recv \<Rightarrow> ncclIbSendFifo" where
  "fifo_elem comm tail n old v =
     \<lparr>sf_addr = rv_data v, sf_size = rv_size v,
      sf_rkeys = map k_rkey (take (nb_ndevs comm) (rv_keys v)) @ drop (nb_ndevs comm) (sf_rkeys old),
      sf_nreqs = int n, sf_tag = rv_tag v, sf_idx = tail + 1\<rparr>"

definition recv_slot :: "ncclIbRecvComm \<Rightarrow> nat" where
  "recv_slot comm = unat (rc_fifoTail comm mod of_nat IB_MAX_REQUESTS)"

definition fifo_row_bytes :: nat where "fifo_row_bytes = NCCL_NET_IB_MAX_RECVS * 64"

text \<open>The announcement: \<open>i\<close> is the request. The elements written are the first ones of the row of \<open>rc_elems\<close>; the work
  request writes them to the same row at the sender.\<close>

definition ncclIbPostFifo ::
  "ncclIbRecvComm \<Rightarrow> ib_recv list \<Rightarrow> nat \<Rightarrow> Ibv \<Rightarrow> ncclResult_t \<times> ncclIbRecvComm \<times> Ibv" where
  "ncclIbPostFifo comm vs i ib =
     (let slot = recv_slot comm; n = length vs;
          sizes = replicate n 0 @ drop n (nb_sizes comm ! slot);
          row = rc_elems comm ! slot;
          row1 = map2 (fifo_elem comm (rc_fifoTail comm) n) row vs @ drop n row;
          ctsQp = nb_qps comm ! nb_devIndex comm;
          comm1 = (set_req i ((nb_reqs comm ! i)\<lparr>ir_row := slot\<rparr>) comm)
                    \<lparr>nb_sizes := (nb_sizes comm)[slot := sizes], rc_elems := (rc_elems comm)[slot := row1],
                     nb_devIndex := (nb_devIndex comm + 1) mod nb_ndevs comm\<rparr>;
          wr = zero_wr\<lparr>wr_remote_addr := rc_fifoAddr comm + of_nat (slot * fifo_row_bytes),
                 wr_rkey := nb_remFifoRkeys comm ! qp_remDevIdx ctsQp, wr_inline := rc_inline comm,
                 wr_sge := Some \<lparr>sge_addr = rc_local comm + of_nat (slot * fifo_row_bytes), sge_length = int n * 64,
                                 sge_lkey = rc_fifoLkeys comm ! qp_devIndex ctsQp\<rparr>\<rparr>;
          signal = (slot = qp_devIndex ctsQp);
          wr1 = (if signal then wr\<lparr>wr_signaled := True, wr_id := of_nat i\<rparr> else wr);
          comm2 = (if signal then set_req i (ncclIbAddEvent (qp_devIndex ctsQp) (nb_reqs comm1 ! i)) comm1 else comm1);
          (res, ib1) = wrap_ibv_post_send (qp_qp ctsQp) [wr1] ib
      in if res \<noteq> ncclSuccess then (res, comm2, ib1)
         else (ncclSuccess, comm2\<lparr>rc_fifoTail := rc_fifoTail comm2 + 1\<rparr>, ib1))"

fun post_recvs :: "nat \<Rightarrow> nat \<Rightarrow> ncclIbRecvComm \<Rightarrow> Ibv \<Rightarrow> ncclResult_t \<times> ncclIbRecvComm \<times> Ibv" where
  "post_recvs i 0 comm ib = (ncclSuccess, comm, ib)"
| "post_recvs i (Suc n) comm ib =
     (let qp = nb_qps comm ! nb_qpIndex comm;
          comm1 = set_req i (ncclIbAddEvent (qp_devIndex qp) (nb_reqs comm ! i)) comm;
          (res, ib1) = wrap_ibv_post_recv (qp_qp qp) (of_nat i) ib
      in if res \<noteq> ncclSuccess then (res, comm1, ib1)
         else post_recvs i n (comm1\<lparr>nb_qpIndex := (nb_qpIndex comm1 + 1) mod nb_nqps comm1\<rparr>) ib1)"

definition ncclIbIrecv ::
  "Ib_Params \<Rightarrow> ncclIbRecvComm \<Rightarrow> ib_recv list \<Rightarrow> Ibv \<Rightarrow> ncclResult_t \<times> nat option \<times> ncclIbRecvComm \<times> Ibv" where
  "ncclIbIrecv pa comm vs ib =
     (if \<not> nb_ready comm then (ncclInternalError, None, comm, ib)
      else if NCCL_NET_IB_MAX_RECVS < length vs then (ncclInternalError, None, comm, ib)
      else if ncclIbStatsCheckFatalCount pa (nb_fatal comm) \<noteq> ncclSuccess
      then (ncclIbStatsCheckFatalCount pa (nb_fatal comm), None, comm, ib)
      else case ncclIbGetRequest comm of
             (res, None, comm1) \<Rightarrow> (res, None, comm1, ib)
           | (_, Some i, comm1) \<Rightarrow>
               let r = (nb_reqs comm1 ! i)\<lparr>ir_type := NCCL_NET_IB_REQ_RECV, ir_nreqs := int (length vs),
                         ir_devBases := map Some [0..<nb_ndevs comm1] @ drop (nb_ndevs comm1) (ir_devBases (nb_reqs comm1 ! i))\<rparr>;
                   (res, comm2, ib1) = post_recvs i (data_qps pa comm1) (set_req i r comm1) ib
               in if res \<noteq> ncclSuccess then (res, None, comm2, ib1)
                  else let (res1, comm3, ib2) = ncclIbPostFifo comm2 vs i ib1
                       in if res1 \<noteq> ncclSuccess then (res1, None, comm3, ib2) else (ncclSuccess, Some i, comm3, ib2))"

section \<open>Flushing\<close>

fun flush_devices ::
  "nat \<Rightarrow> u64 \<Rightarrow> ib_keys list \<Rightarrow> nat \<Rightarrow> nat \<Rightarrow> ncclIbRecvComm \<Rightarrow> Ibv \<Rightarrow> ncclResult_t \<times> ncclIbRecvComm \<times> Ibv" where
  "flush_devices i data keys d 0 comm ib = (ncclSuccess, comm, ib)"
| "flush_devices i data keys d (Suc n) comm ib =
     (let wr = zero_wr\<lparr>wr_id := of_nat i, wr_opcode := IBV_WR_RDMA_READ, wr_signaled := True, wr_remote_addr := data,
                 wr_rkey := k_rkey (keys ! d),
                 wr_sge := Some \<lparr>sge_addr = fst (rc_flushSges comm ! d), sge_length = 1, sge_lkey = snd (rc_flushSges comm ! d)\<rparr>\<rparr>;
          (res, ib1) = wrap_ibv_post_send (rc_flushQps comm ! d) [wr] ib
      in if res \<noteq> ncclSuccess then (res, comm, ib1)
         else flush_devices i data keys (d + 1) n (set_req i (ncclIbAddEvent d (nb_reqs comm ! i)) comm) ib1)"

text \<open>Only the last receive that is not empty is flushed; without one nothing is written to \<open>*request\<close>. The sizes and
  the buffers and keys of the receives are one list.\<close>

definition ncclIbIflush ::
  "ncclIbRecvComm \<Rightarrow> (u64 \<times> int \<times> ib_keys list) list \<Rightarrow> Ibv \<Rightarrow> ncclResult_t \<times> nat option \<times> ncclIbRecvComm \<times> Ibv" where
  "ncclIbIflush comm vs ib =
     (case filter (\<lambda>(d, sz, k). sz \<noteq> 0) vs of
        [] \<Rightarrow> (ncclSuccess, None, comm, ib)
      | ws \<Rightarrow>
          if \<not> rc_flushEnabled comm then (ncclSuccess, None, comm, ib)
          else case ncclIbGetRequest comm of
                 (res, None, comm1) \<Rightarrow> (res, None, comm1, ib)
               | (_, Some i, comm1) \<Rightarrow>
                   let (data, sz, keys) = last ws;
                       (res, comm2, ib1) = flush_devices i data keys 0 (nb_ndevs comm1)
                          (set_req i ((nb_reqs comm1 ! i)\<lparr>ir_type := NCCL_NET_IB_REQ_FLUSH\<rparr>) comm1) ib
                   in if res \<noteq> ncclSuccess then (res, None, comm2, ib1) else (ncclSuccess, Some i, comm2, ib1))"

section \<open>Testing\<close>

text \<open>A completion of a send counts for all the requests of its identifier.\<close>

fun complete_sends ::
  "nat \<Rightarrow> u64 \<Rightarrow> nat \<Rightarrow> nat \<Rightarrow> 'a ncclIbNetCommBase_scheme \<Rightarrow> ncclResult_t \<times> 'a ncclIbNetCommBase_scheme" where
  "complete_sends dev wid j 0 comm = (ncclSuccess, comm)"
| "complete_sends dev wid j (Suc n) comm =
     (let i = unat (drop_bit (8 * j) wid AND 0xff); r = nb_reqs comm ! i
      in if ir_events r ! dev \<le> 0 then (ncclInternalError, comm)
         else complete_sends dev wid (j + 1) n
                (set_req i (r\<lparr>ir_events := (ir_events r)[dev := ir_events r ! dev - 1]\<rparr>) comm))"

definition handle_wc ::
  "nat \<Rightarrow> ibv_wc \<Rightarrow> 'a ncclIbNetCommBase_scheme \<Rightarrow> ncclResult_t \<times> 'a ncclIbNetCommBase_scheme" where
  "handle_wc dev wc comm =
     (if \<not> wc_success wc then (ncclRemoteError, comm)
      else let i = unat (wc_wr_id wc AND 0xff); r = nb_reqs comm ! i
           in if ir_type r = NCCL_NET_IB_REQ_SEND then complete_sends dev (wc_wr_id wc) 0 (nat (ir_nreqs r)) comm
              else if wc_recv_imm wc \<and> ir_type r \<noteq> NCCL_NET_IB_REQ_RECV then (ncclInternalError, comm)
              else let comm1 = (if wc_recv_imm wc \<and> ir_nreqs r = 1
                                then comm\<lparr>nb_sizes := (nb_sizes comm)[ir_row r :=
                                       (nb_sizes comm ! ir_row r)[0 := sint (wc_imm_data wc)]]\<rparr>
                                else comm)
                   in (ncclSuccess, set_req i (r\<lparr>ir_events := (ir_events r)[dev := ir_events r ! dev - 1]\<rparr>) comm1))"

fun handle_wcs ::
  "nat \<Rightarrow> ibv_wc list \<Rightarrow> 'a ncclIbNetCommBase_scheme \<Rightarrow> ncclResult_t \<times> 'a ncclIbNetCommBase_scheme" where
  "handle_wcs dev [] comm = (ncclSuccess, comm)"
| "handle_wcs dev (wc # wcs) comm =
     (let (res, comm1) = handle_wc dev wc comm in if res \<noteq> ncclSuccess then (res, comm1) else handle_wcs dev wcs comm1)"

text \<open>Polling the completion queue of one device, if the request waits for events there; the number of completions
  is returned too.\<close>

definition test_dev ::
  "Ib_Params \<Rightarrow> nat \<Rightarrow> nat \<Rightarrow> 'a ncclIbNetCommBase_scheme \<Rightarrow> Ibv \<Rightarrow> ncclResult_t \<times> nat \<times> 'a ncclIbNetCommBase_scheme \<times> Ibv" where
  "test_dev pa i dev comm ib =
     (if ir_events (nb_reqs comm ! i) ! dev = 0 then (ncclSuccess, 0, comm, ib)
      else let (res, wcs, ib1) = wrap_ibv_poll_cq dev ib
           in if res \<noteq> ncclSuccess then (res, 0, comm, ib1)
              else if wcs = [] then (ncclSuccess, 0, comm, ib1)
              else let (res1, comm1) = handle_wcs dev wcs comm
                   in if res1 \<noteq> ncclSuccess then (res1, length wcs, comm1, ib1)
                      else (ncclIbStatsCheckFatalCount pa (ib_dev_fatal ib1 (nb_devs comm1 ! dev)), length wcs, comm1, ib1))"

definition test_pass ::
  "Ib_Params \<Rightarrow> nat \<Rightarrow> 'a ncclIbNetCommBase_scheme \<Rightarrow> Ibv \<Rightarrow> ncclResult_t \<times> nat \<times> 'a ncclIbNetCommBase_scheme \<times> Ibv" where
  "test_pass pa i comm ib =
     (let (res, n, comm1, ib1) = test_dev pa i 0 comm ib
      in if res \<noteq> ncclSuccess then (res, n, comm1, ib1)
         else let (res1, m, comm2, ib2) = test_dev pa i 1 comm1 ib1 in (res1, n + m, comm2, ib2))"

definition polls_left :: "Ibv \<Rightarrow> nat" where
  "polls_left ib = length (ib_polls ib 0) + length (ib_polls ib 1)"

lemma poll_left:
  assumes "wrap_ibv_poll_cq d ib = (res, wcs, ib1)" "d \<in> {0, 1}"
  shows "polls_left ib1 \<le> polls_left ib" "wcs \<noteq> [] \<Longrightarrow> polls_left ib1 < polls_left ib"
  using assms by (auto simp: wrap_ibv_poll_cq_def polls_left_def split: list.splits)

lemma test_dev_left:
  assumes "test_dev pa i d comm ib = (res, n, comm1, ib1)" "d \<in> {0, 1}"
  shows "polls_left ib1 \<le> polls_left ib \<and> (0 < n \<longrightarrow> polls_left ib1 < polls_left ib)"
proof -
  obtain r w ib0 where p: "wrap_ibv_poll_cq d ib = (r, w, ib0)" by (metis prod_cases3)
  show ?thesis
    using assms(1) poll_left [OF p assms(2)]
    by (auto simp: test_dev_def p Let_def split: if_splits prod.splits)
qed

lemma test_pass_left:
  assumes "test_pass pa i comm ib = (res, n, comm1, ib1)" "res = ncclSuccess" "n \<noteq> 0"
  shows "polls_left ib1 < polls_left ib"
proof -
  obtain r n0 c0 ib0 where t0: "test_dev pa i 0 comm ib = (r, n0, c0, ib0)" by (metis prod_cases4)
  obtain r2 n2 c2 ib2 where t2: "test_dev pa i 1 c0 ib0 = (r2, n2, c2, ib2)" by (metis prod_cases4)
  from assms have "n = n0 + n2" "ib1 = ib2" by (auto simp: test_pass_def t0 t2 [unfolded One_nat_def] split: if_splits)
  then show ?thesis using assms(3) test_dev_left [OF t0] test_dev_left [OF t2] by auto
qed

definition request_sizes :: "ncclIbRequest \<Rightarrow> 'a ncclIbNetCommBase_scheme \<Rightarrow> int list" where
  "request_sizes r comm =
     (case ir_type r of
        NCCL_NET_IB_REQ_RECV \<Rightarrow> take (nat (ir_nreqs r)) (nb_sizes comm ! ir_row r)
      | NCCL_NET_IB_REQ_SEND \<Rightarrow> [ir_size r]
      | _ \<Rightarrow> [])"

text \<open>The result, whether the request is complete and the sizes written.\<close>

function ncclIbTest ::
  "Ib_Params \<Rightarrow> nat \<Rightarrow> 'a ncclIbNetCommBase_scheme \<Rightarrow> Ibv \<Rightarrow>
   ncclResult_t \<times> bool \<times> int list \<times> 'a ncclIbNetCommBase_scheme \<times> Ibv" where
  "ncclIbTest pa i comm ib =
     (if ncclIbStatsCheckFatalCount pa (nb_fatal comm) \<noteq> ncclSuccess
      then (ncclIbStatsCheckFatalCount pa (nb_fatal comm), False, [], comm, ib)
      else let r = nb_reqs comm ! i
           in if ir_events r ! 0 = 0 \<and> ir_events r ! 1 = 0
              then (ncclSuccess, True, request_sizes r comm, ncclIbFreeRequest i comm, ib)
              else case test_pass pa i comm ib of
                     (res, n, comm1, ib1) \<Rightarrow>
                       if res \<noteq> ncclSuccess then (res, False, [], comm1, ib1)
                       else if n = 0 then (ncclSuccess, False, [], comm1, ib1)
                       else ncclIbTest pa i comm1 ib1)"
  by pat_completeness auto
termination
  by (relation "measure (\<lambda>(pa, i, comm, ib). polls_left ib)") (auto dest: test_pass_left [OF sym])

declare ncclIbTest.simps [simp del]

end
