(* ===== verification/IbSend.thy ===== *)
theory IbSend
  imports IbTransfer NetTasks
begin

text \<open>
  What the functions of \<open>IbTransfer\<close> achieve: identifiers of work requests name the requests they stand for, a
  message is cut over the queue pairs without gap or overlap and stays inside the buffer announced for it, and a test reports a
  request complete exactly when it waits for nothing.
\<close>

section \<open>Identifiers\<close>

primrec digits256 :: "nat list \<Rightarrow> nat" where
  "digits256 [] = 0"
| "digits256 (i # is) = i + 256 * digits256 is"

lemma digits256_bound: "\<forall>i\<in>set is. i < 256 \<Longrightarrow> digits256 is < 256 ^ length is"
  by (induction "is") auto

lemma digits256_nth:
  "\<forall>i\<in>set is. i < 256 \<Longrightarrow> j < length is \<Longrightarrow> digits256 is div 256 ^ j mod 256 = is ! j"
proof (induction "is" arbitrary: j)
  case (Cons i "is")
  show ?case
  proof (cases j)
    case 0
    then show ?thesis using Cons.prems by simp
  next
    case (Suc k)
    have "digits256 (i # is) div 256 ^ j = (i + 256 * digits256 is) div 256 div 256 ^ k"
      using Suc by (simp add: div_mult2_eq)
    also have "(i + 256 * digits256 is) div 256 = digits256 is" using Cons.prems by simp
    finally show ?thesis using Cons Suc by simp
  qed
qed simp

lemma encode_digits: "encode_wr_id is = of_nat (digits256 is)"
proof (induction "is")
  case Nil
  then show ?case by (simp add: encode_wr_id_def)
next
  case (Cons i "is")
  have "encode_wr_id (i # is) = of_nat i + (\<Sum>r<length is. push_bit (8 * Suc r) (of_nat (is ! r)))"
    unfolding encode_wr_id_def by (simp only: list.size add_0_right add_Suc_right sum.lessThan_Suc_shift) simp
  also have "(\<Sum>r<length is. push_bit (8 * Suc r) (of_nat (is ! r) :: u64)) = 256 * encode_wr_id is"
    unfolding encode_wr_id_def sum_distrib_left
    by (intro sum.cong refl) (simp add: push_bit_eq_mult power_add mult.commute)
  finally show ?case using Cons by simp
qed

text \<open>C23. The identifier of a work request for up to eight sends names each of them: byte \<open>j\<close> of the completion is the number of
  the \<open>j\<close>-th request.\<close>

theorem wr_id_names_requests:
  assumes "length is \<le> NCCL_NET_IB_MAX_RECVS" "\<forall>i\<in>set is. i < IB_MAX_REQUESTS" "j < length is"
  shows "unat (drop_bit (8 * j) (encode_wr_id is) AND 0xff) = is ! j"
proof -
  have small: "\<forall>i\<in>set is. i < 256" using assms(2) by (simp add: IB_MAX_REQUESTS_256)
  have "digits256 is < 256 ^ length is" by (rule digits256_bound [OF small])
  also have "\<dots> \<le> 256 ^ 8" using assms(1) by (intro power_increasing) (simp_all add: NCCL_NET_IB_MAX_RECVS_def)
  finally have lt: "digits256 is < 2 ^ 64" by simp
  have ff: "(0xff :: u64) = mask 8" by (simp add: mask_numeral)
  have d: "unat (of_nat (digits256 is) :: u64) = digits256 is" using lt by (simp add: unat_of_nat)
  have "drop_bit (8 * j) (encode_wr_id is) AND 0xff = take_bit 8 (drop_bit (8 * j) (of_nat (digits256 is) :: u64))"
    by (simp only: encode_digits ff take_bit_eq_mask)
  also have "unat \<dots> = take_bit 8 (drop_bit (8 * j) (digits256 is))"
    using lt by (simp only: unsigned_take_bit_eq unsigned_drop_bit_eq d) (simp add: take_bit_nat_eq_self)
  finally have "unat (drop_bit (8 * j) (encode_wr_id is) AND 0xff) = take_bit 8 (drop_bit (8 * j) (digits256 is))" .
  also have "\<dots> = digits256 is div 256 ^ j mod 256"
    by (simp add: take_bit_eq_mod drop_bit_eq_div power_mult)
  also have "\<dots> = is ! j" by (rule digits256_nth [OF small assms(3)])
  finally show ?thesis .
qed

theorem wr_id_names_requests_witness:
  "unat (drop_bit (8 * 2) (encode_wr_id [3, 255, 17]) AND 0xff) = [3, 255, 17] ! 2"
  by (rule wr_id_names_requests) (simp_all add: IB_MAX_REQUESTS_256 NCCL_NET_IB_MAX_RECVS_def)

section \<open>Pieces\<close>

text \<open>What the \<open>r\<close>-th work requests of the posted chains write: remote address, local address and length.\<close>

definition piece :: "ibv_send_wr \<Rightarrow> (u64 \<times> u64 \<times> int) option" where
  "piece w = (case wr_sge w of None \<Rightarrow> None | Some g \<Rightarrow> Some (wr_remote_addr w, sge_addr g, sge_length g))"

definition pieces_of :: "nat \<Rightarrow> (nat \<times> ibv_send_wr list) list \<Rightarrow> (u64 \<times> u64 \<times> int) list" where
  "pieces_of r out = List.map_filter (\<lambda>(qp, ws). piece (ws ! r)) out"

text \<open>Consecutive pieces from a remote and a local address on, \<open>left\<close> bytes in all, cut at multiples of 128.\<close>

fun tiles :: "u64 \<Rightarrow> u64 \<Rightarrow> int \<Rightarrow> (u64 \<times> u64 \<times> int) list \<Rightarrow> bool" where
  "tiles ra la left [] \<longleftrightarrow> left = 0"
| "tiles ra la left ((a, b, n) # ps) \<longleftrightarrow>
     a = ra \<and> b = la \<and> 0 < n \<and> n \<le> left \<and> (128 dvd n \<or> n = left) \<and> tiles (ra + of_int n) (la + of_int n) (left - n) ps"

fun ib_chunks :: "nat \<Rightarrow> u64 \<Rightarrow> u64 \<Rightarrow> int \<Rightarrow> int \<Rightarrow> (u64 \<times> u64 \<times> int) list" where
  "ib_chunks 0 ra la left c = []"
| "ib_chunks (Suc k) ra la left c =
     (if min left c \<le> 0 then [] else [(ra, la, min left c)]) @ ib_chunks k (ra + of_int c) (la + of_int c) (left - c) c"

lemma ib_chunks_none: "left \<le> 0 \<or> c \<le> 0 \<Longrightarrow> ib_chunks k ra la left c = []"
proof (induction k arbitrary: ra la left)
  case (Suc k)
  have "left - c \<le> 0 \<or> c \<le> 0" using Suc.prems by linarith
  then show ?case using Suc by auto
qed simp

lemma ib_chunks_tile:
  "0 < c \<Longrightarrow> 128 dvd c \<Longrightarrow> 0 \<le> left \<Longrightarrow> left \<le> int k * c \<Longrightarrow> tiles ra la left (ib_chunks k ra la left c)"
proof (induction k arbitrary: ra la left)
  case (Suc k)
  show ?case
  proof (cases "left \<le> c")
    case True
    then show ?thesis using Suc.prems by (auto simp: ib_chunks_none)
  next
    case False
    then have "tiles (ra + of_int c) (la + of_int c) (left - c) (ib_chunks k (ra + of_int c) (la + of_int c) (left - c) c)"
      using Suc.prems by (intro Suc.IH) (simp_all add: algebra_simps)
    then show ?thesis using False Suc.prems by simp
  qed
qed simp

lemma wr_chain_piece:
  assumes "r < length reqs"
  shows "piece (wr_chain divup pa comm slot reqs nqps qp addrs ! r) =
           piece (data_wr divup nqps qp (sc_fifo comm ! slot ! r) (nb_reqs comm ! (reqs ! r)) (addrs ! r))"
proof -
  let ?ws = "map (\<lambda>r. data_wr divup nqps qp (sc_fifo comm ! slot ! r) (nb_reqs comm ! (reqs ! r)) (addrs ! r)) [0..<length reqs]"
  consider "1 < length reqs" | "length reqs = 1" using assms by linarith
  then show ?thesis
  proof cases
    case 1
    then show ?thesis using assms by (simp add: wr_chain_def Let_def nth_append)
  next
    case 2
    then have "?ws = [data_wr divup nqps qp (sc_fifo comm ! slot ! 0) (nb_reqs comm ! (reqs ! 0)) (addrs ! 0)]" by simp
    then show ?thesis using assms 2 by (auto simp: wr_chain_def Let_def make_last_def piece_def split: option.split)
  qed
qed

lemma data_wr_piece:
  "piece (data_wr divup nqps qp s r (ra, la)) =
     (let n = min (ir_size r - ir_offset r) (send_chunk divup (ir_size r) nqps) in if n \<le> 0 then None else Some (ra, la, n))"
  by (simp add: piece_def data_wr_def zero_wr_def Let_def)

text \<open>Advancing the offsets.\<close>

definition advance :: "(nat \<Rightarrow> int) \<Rightarrow> nat list \<Rightarrow> 'a ncclIbNetCommBase_scheme \<Rightarrow> 'a ncclIbNetCommBase_scheme" where
  "advance f is c = fold (\<lambda>i c. set_req i ((nb_reqs c ! i)\<lparr>ir_offset := ir_offset (nb_reqs c ! i) + f i\<rparr>) c) is c"

lemma advance_simps:
  "advance f [] c = c"
  "advance f (i # is) c = advance f is (set_req i ((nb_reqs c ! i)\<lparr>ir_offset := ir_offset (nb_reqs c ! i) + f i\<rparr>) c)"
  by (simp_all add: advance_def)

lemma advance_req:
  "distinct is \<Longrightarrow> j < length (nb_reqs c) \<Longrightarrow>
   nb_reqs (advance f is c) ! j =
     (if j \<in> set is then (nb_reqs c ! j)\<lparr>ir_offset := ir_offset (nb_reqs c ! j) + f j\<rparr> else nb_reqs c ! j)"
proof (induction "is" arbitrary: c)
  case (Cons i "is")
  let ?c = "set_req i ((nb_reqs c ! i)\<lparr>ir_offset := ir_offset (nb_reqs c ! i) + f i\<rparr>) c"
  have "nb_reqs (advance f is ?c) ! j =
      (if j \<in> set is then (nb_reqs ?c ! j)\<lparr>ir_offset := ir_offset (nb_reqs ?c ! j) + f j\<rparr> else nb_reqs ?c ! j)"
    using Cons.prems by (intro Cons.IH) (simp_all add: set_req_def)
  then show ?case using Cons.prems by (cases "j = i") (auto simp: advance_simps set_req_def)
qed (simp add: advance_simps)

lemma advance_rest [simp]:
  "length (nb_reqs (advance f is c)) = length (nb_reqs c)"
  "nb_qps (advance f is c) = nb_qps c" "nb_nqps (advance f is c) = nb_nqps c"
  "nb_qpIndex (advance f is c) = nb_qpIndex c" "nb_ndevs (advance f is c) = nb_ndevs c"
  by (induction "is" arbitrary: c; simp add: advance_simps set_req_def)+

lemma advance_send [simp]:
  "sc_fifo (advance f is (c :: ncclIbSendComm)) = sc_fifo c" "sc_fifoReqs (advance f is c) = sc_fifoReqs c"
  "sc_fifoHead (advance f is c) = sc_fifoHead c"
  by (induction "is" arbitrary: c; simp add: advance_simps set_req_def)+

lemma post_send_posted:
  "wrap_ibv_post_send qp ws ib = (ncclSuccess, ib1) \<Longrightarrow> ib_posted ib1 = ib_posted ib @ [(qp, ws)]"
  by (auto simp: wrap_ibv_post_send_def next_post_answer_def split: list.splits)

lemma send_loop_pieces:
  assumes "send_loop divup pa slot reqs nqps k addrs comm ib = (ncclSuccess, comm1, ib1)" "distinct reqs"
    "length addrs = length reqs" "r < length reqs" "\<forall>i\<in>set reqs. i < length (nb_reqs comm)"
  shows "\<exists>out. ib_posted ib1 = ib_posted ib @ out \<and> length out = k \<and>
           pieces_of r out = ib_chunks k (fst (addrs ! r)) (snd (addrs ! r))
             (ir_size (nb_reqs comm ! (reqs ! r)) - ir_offset (nb_reqs comm ! (reqs ! r)))
             (send_chunk divup (ir_size (nb_reqs comm ! (reqs ! r))) nqps)"
  using assms
proof (induction k arbitrary: addrs comm ib)
  case 0
  then show ?case by (simp add: pieces_of_def map_filter_simps)
next
  case (Suc k)
  let ?qp = "nb_qps comm ! nb_qpIndex comm"
  let ?ws = "wr_chain divup pa comm slot reqs nqps ?qp addrs"
  let ?f = "\<lambda>i. send_chunk divup (ir_size (nb_reqs comm ! i)) nqps"
  let ?c = "advance ?f reqs comm"
  let ?c1 = "?c\<lparr>nb_qpIndex := (nb_qpIndex ?c + 1) mod nb_nqps ?c\<rparr>"
  let ?as = "map2 (\<lambda>i a. (fst a + of_int (?f i), snd a + of_int (?f i))) reqs addrs"
  obtain res ib0 where po: "wrap_ibv_post_send (qp_qp ?qp) ?ws ib = (res, ib0)" by force
  from Suc.prems(1) po have ok: "res = ncclSuccess"
    and rest: "send_loop divup pa slot reqs nqps k ?as ?c1 ib0 = (ncclSuccess, comm1, ib1)"
    by (auto simp: Let_def advance_def split: if_splits)
  obtain out where p: "ib_posted ib1 = ib_posted ib0 @ out" "length out = k"
    "pieces_of r out = ib_chunks k (fst (?as ! r)) (snd (?as ! r))
       (ir_size (nb_reqs ?c1 ! (reqs ! r)) - ir_offset (nb_reqs ?c1 ! (reqs ! r)))
       (send_chunk divup (ir_size (nb_reqs ?c1 ! (reqs ! r))) nqps)"
    using Suc.IH [OF rest Suc.prems(2)] Suc.prems(3-5) by auto
  have req: "nb_reqs ?c ! (reqs ! r) = (nb_reqs comm ! (reqs ! r))\<lparr>ir_offset := ir_offset (nb_reqs comm ! (reqs ! r)) + ?f (reqs ! r)\<rparr>"
    using Suc.prems(2,4,5) by (simp add: advance_req)
  have as: "?as ! r = (fst (addrs ! r) + of_int (?f (reqs ! r)), snd (addrs ! r) + of_int (?f (reqs ! r)))"
    using Suc.prems(3,4) by simp
  have "ib_posted ib1 = ib_posted ib @ ((qp_qp ?qp, ?ws) # out)"
    using p(1) post_send_posted [OF po [unfolded ok]] by simp
  moreover have "pieces_of r ((qp_qp ?qp, ?ws) # out) =
      (case piece (?ws ! r) of None \<Rightarrow> [] | Some x \<Rightarrow> [x]) @ pieces_of r out"
    by (simp add: pieces_of_def map_filter_simps split: option.splits)
  moreover have "piece (?ws ! r) = (let n = min (ir_size (nb_reqs comm ! (reqs ! r)) - ir_offset (nb_reqs comm ! (reqs ! r))) (?f (reqs ! r))
      in if n \<le> 0 then None else Some (fst (addrs ! r), snd (addrs ! r), n))"
    using Suc.prems(4) by (simp only: wr_chain_piece) (cases "addrs ! r", simp add: data_wr_piece Let_def)
  ultimately show ?case
    using p(2,3) by (intro exI [of _ "(qp_qp ?qp, ?ws) # out"])
      (simp add: req as Let_def algebra_simps)
qed

lemma make_last_id [simp]: "wr_id (make_last w imm x) = w" "wr_signaled (make_last w imm x)"
  by (simp_all add: make_last_def)

lemma wr_chain_last:
  "wr_id (last (wr_chain divup pa comm slot reqs nqps qp addrs)) = encode_wr_id reqs"
  "wr_signaled (last (wr_chain divup pa comm slot reqs nqps qp addrs))"
  by (simp_all add: wr_chain_def Let_def)

lemma send_loop_ids:
  assumes "send_loop divup pa slot reqs nqps k addrs comm ib = (res, comm1, ib1)"
  shows "\<exists>out. ib_posted ib1 = ib_posted ib @ out \<and>
           (\<forall>p\<in>set out. wr_id (last (snd p)) = encode_wr_id reqs \<and> wr_signaled (last (snd p)))"
  using assms
proof (induction k arbitrary: addrs comm ib)
  case (Suc k)
  let ?qp = "nb_qps comm ! nb_qpIndex comm"
  let ?ws = "wr_chain divup pa comm slot reqs nqps ?qp addrs"
  obtain res0 ib0 where po: "wrap_ibv_post_send (qp_qp ?qp) ?ws ib = (res0, ib0)" by force
  show ?case
  proof (cases "res0 = ncclSuccess")
    case False
    then have "ib_posted ib1 = ib_posted ib"
      using Suc.prems po by (auto simp: wrap_ibv_post_send_def next_post_answer_def split: list.splits if_splits)
    then show ?thesis by simp
  next
    case True
    then obtain out where p: "ib_posted ib1 = ib_posted ib0 @ out"
        "\<forall>p\<in>set out. wr_id (last (snd p)) = encode_wr_id reqs \<and> wr_signaled (last (snd p))"
      using Suc.prems po by (auto simp: Let_def dest!: Suc.IH)
    have "ib_posted ib1 = ib_posted ib @ ((qp_qp ?qp, ?ws) # out)"
      using p(1) post_send_posted [OF po [unfolded True]] by simp
    then show ?thesis using p(2) wr_chain_last by (intro exI [of _ "(qp_qp ?qp, ?ws) # out"]) simp
  qed
qed simp

text \<open>The queue pairs are taken in turn, from the current index on. A chain goes to its queue pair with the
  remote keys of the device at the other end of that queue pair.\<close>

definition qp_in_turn :: "'a ncclIbNetCommBase_scheme \<Rightarrow> nat \<Rightarrow> ncclIbQp" where
  "qp_in_turn comm j = nb_qps comm ! ((nb_qpIndex comm + j) mod nb_nqps comm)"

lemma wr_chain_rkey:
  assumes "r < length reqs"
  shows "wr_rkey (wr_chain divup pa comm slot reqs nqps qp addrs ! r) = sf_rkeys (sc_fifo comm ! slot ! r) ! qp_remDevIdx qp"
proof -
  let ?ws = "map (\<lambda>r. data_wr divup nqps qp (sc_fifo comm ! slot ! r) (nb_reqs comm ! (reqs ! r)) (addrs ! r)) [0..<length reqs]"
  consider "1 < length reqs" | "length reqs = 1" using assms by linarith
  then show ?thesis
  proof cases
    case 1
    then show ?thesis using assms by (simp add: wr_chain_def Let_def nth_append data_wr_def)
  next
    case 2
    then have "?ws = [data_wr divup nqps qp (sc_fifo comm ! slot ! 0) (nb_reqs comm ! (reqs ! 0)) (addrs ! 0)]" by simp
    then show ?thesis using assms 2 by (auto simp: wr_chain_def Let_def make_last_def data_wr_def)
  qed
qed

lemma send_loop_in_turn:
  assumes "send_loop divup pa slot reqs nqps k addrs comm ib = (ncclSuccess, comm1, ib1)" "nb_qpIndex comm < nb_nqps comm"
  shows "\<exists>out. ib_posted ib1 = ib_posted ib @ out \<and> length out = k \<and>
           (\<forall>j<k. fst (out ! j) = qp_qp (qp_in_turn comm j) \<and>
              (\<forall>r<length reqs. wr_rkey (snd (out ! j) ! r) = sf_rkeys (sc_fifo comm ! slot ! r) ! qp_remDevIdx (qp_in_turn comm j)))"
  using assms
proof (induction k arbitrary: addrs comm ib)
  case (Suc k)
  let ?qp = "nb_qps comm ! nb_qpIndex comm"
  let ?ws = "wr_chain divup pa comm slot reqs nqps ?qp addrs"
  let ?c = "advance (\<lambda>i. send_chunk divup (ir_size (nb_reqs comm ! i)) nqps) reqs comm"
  let ?c1 = "?c\<lparr>nb_qpIndex := (nb_qpIndex ?c + 1) mod nb_nqps ?c\<rparr>"
  obtain res ib0 where po: "wrap_ibv_post_send (qp_qp ?qp) ?ws ib = (res, ib0)" by force
  obtain as where ok: "res = ncclSuccess" and rest: "send_loop divup pa slot reqs nqps k as ?c1 ib0 = (ncclSuccess, comm1, ib1)"
    using Suc.prems(1) po by (auto simp: Let_def advance_def split: if_splits)
  have "nb_qpIndex ?c1 < nb_nqps ?c1" using Suc.prems(2) by simp
  from Suc.IH [OF rest this] obtain out where p: "ib_posted ib1 = ib_posted ib0 @ out" "length out = k"
    "\<forall>j<k. fst (out ! j) = qp_qp (qp_in_turn ?c1 j) \<and>
       (\<forall>r<length reqs. wr_rkey (snd (out ! j) ! r) = sf_rkeys (sc_fifo ?c1 ! slot ! r) ! qp_remDevIdx (qp_in_turn ?c1 j))" by blast
  have turn: "qp_in_turn ?c1 j = qp_in_turn comm (Suc j)" for j by (simp add: qp_in_turn_def mod_simps)
  have "qp_in_turn comm 0 = ?qp" using Suc.prems(2) by (simp add: qp_in_turn_def)
  then have "\<forall>j<Suc k. fst (((qp_qp ?qp, ?ws) # out) ! j) = qp_qp (qp_in_turn comm j) \<and>
      (\<forall>r<length reqs. wr_rkey (snd (((qp_qp ?qp, ?ws) # out) ! j) ! r) =
         sf_rkeys (sc_fifo comm ! slot ! r) ! qp_remDevIdx (qp_in_turn comm j))"
    using p(3) [unfolded turn] by (auto simp: less_Suc_eq_0_disj wr_chain_rkey)
  moreover have "ib_posted ib1 = ib_posted ib @ ((qp_qp ?qp, ?ws) # out)"
    using p(1) post_send_posted [OF po [unfolded ok]] by simp
  ultimately show ?case using p(2) by (intro exI [of _ "(qp_qp ?qp, ?ws) # out"]) simp
qed simp

text \<open>What the loop keeps of every request and of the communicator.\<close>

definition same_send :: "ncclIbRequest \<Rightarrow> ncclIbRequest \<Rightarrow> bool" where
  "same_send r s \<longleftrightarrow> ir_type r = ir_type s \<and> ir_size r = ir_size s \<and> ir_data r = ir_data s \<and> ir_nreqs r = ir_nreqs s"

lemma advance_same: "same_send (nb_reqs (advance f is c) ! j) (nb_reqs c ! j)"
proof (induction "is" arbitrary: c)
  case Nil
  then show ?case by (simp add: advance_simps same_send_def)
next
  case (Cons i "is")
  let ?c = "set_req i ((nb_reqs c ! i)\<lparr>ir_offset := ir_offset (nb_reqs c ! i) + f i\<rparr>) c"
  have "same_send (nb_reqs ?c ! j) (nb_reqs c ! j)"
    by (cases "i < length (nb_reqs c)"; cases "j = i") (simp_all add: set_req_def same_send_def list_update_beyond)
  with Cons [of ?c] show ?case by (simp add: advance_simps same_send_def)
qed

lemma send_loop_keeps:
  "send_loop divup pa slot reqs nqps k addrs comm ib = (res, comm1, ib1) \<Longrightarrow>
     same_send (nb_reqs comm1 ! j) (nb_reqs comm ! j) \<and> sc_fifoHead comm1 = sc_fifoHead comm"
proof (induction k arbitrary: addrs comm ib)
  case (Suc k)
  obtain res0 ib0 where po: "wrap_ibv_post_send (qp_qp (nb_qps comm ! nb_qpIndex comm))
      (wr_chain divup pa comm slot reqs nqps (nb_qps comm ! nb_qpIndex comm) addrs) ib = (res0, ib0)" by force
  show ?case
  proof (cases "res0 = ncclSuccess")
    case False
    then show ?thesis using Suc.prems po by (auto simp: same_send_def)
  next
    case True
    let ?c = "advance (\<lambda>i. send_chunk divup (ir_size (nb_reqs comm ! i)) nqps) reqs comm"
    have "same_send (nb_reqs comm1 ! j) (nb_reqs ?c ! j) \<and> sc_fifoHead comm1 = sc_fifoHead ?c"
      using Suc.prems po True Suc.IH by (fastforce simp: Let_def advance_def)
    moreover have "same_send (nb_reqs ?c ! j) (nb_reqs comm ! j)" by (rule advance_same)
    ultimately show ?thesis by (simp add: same_send_def)
  qed
qed (simp add: same_send_def)

section \<open>A group of receives\<close>

text \<open>The sends matched so far with the receives of a slot.\<close>

definition group_inv :: "ncclIbSendComm \<Rightarrow> nat \<Rightarrow> bool" where
  "group_inv comm slot \<longleftrightarrow>
     slot < length (sc_fifoReqs comm) \<and> length (sc_fifoReqs comm ! slot) = NCCL_NET_IB_MAX_RECVS \<and>
     sf_nreqs (sc_fifo comm ! slot ! 0) \<le> int NCCL_NET_IB_MAX_RECVS \<and>
     (\<forall>r j. r < NCCL_NET_IB_MAX_RECVS \<longrightarrow> sc_fifoReqs comm ! slot ! r = Some j \<longrightarrow>
        j < length (nb_reqs comm) \<and> ir_type (nb_reqs comm ! j) = NCCL_NET_IB_REQ_SEND \<and> ir_offset (nb_reqs comm ! j) = 0 \<and>
        0 \<le> ir_size (nb_reqs comm ! j) \<and> ir_size (nb_reqs comm ! j) \<le> sf_size (sc_fifo comm ! slot ! r) \<and>
        (\<forall>r'<NCCL_NET_IB_MAX_RECVS. sc_fifoReqs comm ! slot ! r' = Some j \<longrightarrow> r' = r))"

lemma send_chunk_ok:
  assumes "divup_covers divup" "0 < sz" "0 < n"
  shows "0 < send_chunk divup sz n" "128 dvd send_chunk divup sz n" "sz \<le> int n * send_chunk divup sz n"
proof -
  let ?d = "divup sz (int n)"
  have d: "0 < ?d" "sz \<le> ?d * int n" using assms divup_pos [of divup sz "int n"] by (auto simp: divup_covers_def)
  then have "?d \<le> send_chunk divup sz n" using assms(1) by (simp add: send_chunk_def divup_covers_def)
  then show "0 < send_chunk divup sz n" "sz \<le> int n * send_chunk divup sz n"
    using d assms(3) by (auto intro: order_trans [OF d(2)] simp: mult.commute mult_left_mono)
  show "128 dvd send_chunk divup sz n" by (simp add: send_chunk_def)
qed

lemma multisend_tiles:
  assumes "ncclIbMultiSend divup pa comm slot ib = (ncclSuccess, comm1, ib1)" "divup_covers divup" "group_inv comm slot"
    "\<forall>r<nat (sf_nreqs (sc_fifo comm ! slot ! 0)). sc_fifoReqs comm ! slot ! r \<noteq> None" "0 < data_qps pa comm"
    "0 < sf_nreqs (sc_fifo comm ! slot ! 0)" "nb_qpIndex comm < nb_nqps comm"
  defines "n \<equiv> nat (sf_nreqs (sc_fifo comm ! slot ! 0))"
  defines "js \<equiv> map the (take n (sc_fifoReqs comm ! slot))"
  shows "\<exists>out. ib_posted ib1 = ib_posted ib @ out \<and> length out = data_qps pa comm \<and>
           (\<forall>p\<in>set out. wr_id (last (snd p)) = encode_wr_id js \<and> wr_signaled (last (snd p))) \<and>
           (\<forall>j<data_qps pa comm. fst (out ! j) = qp_qp (qp_in_turn comm j) \<and>
              (\<forall>r<n. wr_rkey (snd (out ! j) ! r) = sf_rkeys (sc_fifo comm ! slot ! r) ! qp_remDevIdx (qp_in_turn comm j))) \<and>
           (\<forall>r<n. tiles (sf_addr (sc_fifo comm ! slot ! r)) (ir_data (nb_reqs comm ! (js ! r))) (ir_size (nb_reqs comm ! (js ! r)))
                    (pieces_of r out))"
proof -
  let ?row = "sc_fifoReqs comm ! slot"
  have n8: "n \<le> NCCL_NET_IB_MAX_RECVS" and len: "length ?row = NCCL_NET_IB_MAX_RECVS"
    using assms(3) by (auto simp: group_inv_def n_def)
  then have ljs: "length js = n" by (simp add: js_def)
  have js: "?row ! r = Some (js ! r)" if "r < n" for r
    using assms(4) that len n8 by (auto simp: js_def n_def)
  have ok: "js ! r < length (nb_reqs comm) \<and> ir_offset (nb_reqs comm ! (js ! r)) = 0 \<and> 0 \<le> ir_size (nb_reqs comm ! (js ! r)) \<and>
      (\<forall>r'<n. js ! r' = js ! r \<longrightarrow> r' = r)" if "r < n" for r
    using assms(3) js [OF that] that n8 js unfolding group_inv_def by (metis less_le_trans)
  then have dist: "distinct js" by (metis distinct_conv_nth ljs)
  have inb: "\<forall>i\<in>set js. i < length (nb_reqs comm)" using ok ljs by (metis in_set_conv_nth)
  let ?addrs = "map (\<lambda>r. (sf_addr (sc_fifo comm ! slot ! r), ir_data (nb_reqs comm ! (js ! r)))) [0..<n]"
  obtain rz where loop: "send_loop divup pa slot js (data_qps pa comm) (data_qps pa comm) ?addrs
      (comm\<lparr>sc_remSizesFifo := rz\<rparr>) ib = (ncclSuccess, comm1, ib1)"
    using assms(1) n8 ljs by (auto simp: ncclIbMultiSend_def Let_def n_def [symmetric] js_def [symmetric] split: if_splits)
  obtain out where ids: "ib_posted ib1 = ib_posted ib @ out"
      "\<forall>p\<in>set out. wr_id (last (snd p)) = encode_wr_id js \<and> wr_signaled (last (snd p))"
    using send_loop_ids [OF loop] by blast
  have turn: "\<forall>j<data_qps pa comm. fst (out ! j) = qp_qp (qp_in_turn comm j) \<and>
      (\<forall>r<n. wr_rkey (snd (out ! j) ! r) = sf_rkeys (sc_fifo comm ! slot ! r) ! qp_remDevIdx (qp_in_turn comm j))"
    using send_loop_in_turn [OF loop] assms(7) ids(1) by (simp add: ljs qp_in_turn_def)
  have pc: "length out = data_qps pa comm \<and> pieces_of r out = ib_chunks (data_qps pa comm) (sf_addr (sc_fifo comm ! slot ! r))
      (ir_data (nb_reqs comm ! (js ! r))) (ir_size (nb_reqs comm ! (js ! r)))
      (send_chunk divup (ir_size (nb_reqs comm ! (js ! r))) (data_qps pa comm))" if "r < n" for r
    using send_loop_pieces [OF loop dist, of r] inb ljs that ids(1) ok [OF that] by simp
  have "tiles (sf_addr (sc_fifo comm ! slot ! r)) (ir_data (nb_reqs comm ! (js ! r))) (ir_size (nb_reqs comm ! (js ! r)))
          (pieces_of r out)" if "r < n" for r
  proof (cases "ir_size (nb_reqs comm ! (js ! r)) = 0")
    case True
    then show ?thesis using pc [OF that] ib_chunks_none [of 0] by simp
  next
    case False
    then have "0 < ir_size (nb_reqs comm ! (js ! r))" using ok [OF that] by simp
    note send_chunk_ok [OF assms(2) this assms(5)]
    then show ?thesis using pc [OF that] ok [OF that] by (simp add: ib_chunks_tile)
  qed
  moreover have "length out = data_qps pa comm" using pc [of 0] assms(6) by (simp add: n_def)
  ultimately show ?thesis using ids turn by blast
qed

lemma first_unused_type: "first_unused k rs = Some i \<Longrightarrow> k \<le> i \<and> i - k < length rs \<and> ir_type (rs ! (i - k)) = NCCL_NET_IB_REQ_UNUSED"
proof (induction rs arbitrary: k)
  case (Cons x rs)
  show ?case
  proof (cases "ir_type x = NCCL_NET_IB_REQ_UNUSED")
    case True
    then show ?thesis using Cons.prems by simp
  next
    case False
    then show ?thesis using Cons.prems Cons.IH [of "Suc k"] by (auto simp: nth_Cons split: nat.splits) (metis Suc_diff_Suc less_eq_Suc_le old.nat.inject)
  qed
qed simp

lemma ib_get_request:
  assumes "ncclIbGetRequest comm = (res, Some i, comm1)"
  shows "i < length (nb_reqs comm)" "ir_type (nb_reqs comm ! i) = NCCL_NET_IB_REQ_UNUSED"
    "comm1 = set_req i ((nb_reqs comm ! i)\<lparr>ir_devBases := [None, None], ir_events := [0, 0]\<rparr>) comm"
  using assms first_unused_type [of 0 "nb_reqs comm" i] by (auto simp: ncclIbGetRequest_def set_req_def split: option.splits)

lemma count_events_keeps [simp]:
  "ir_type (count_events c k q r) = ir_type r" "ir_size (count_events c k q r) = ir_size r"
  "ir_data (count_events c k q r) = ir_data r" "ir_offset (count_events c k q r) = ir_offset r"
  "ir_nreqs (count_events c k q r) = ir_nreqs r"
  by (induction k arbitrary: q r; simp add: ncclIbAddEvent_def)+

text \<open>What a send leaves when it is matched with receive \<open>r\<close> and stored as request \<open>i\<close>, before the group is sent.\<close>

definition matched_with ::
  "ncclIbSendComm \<Rightarrow> nat \<Rightarrow> nat \<Rightarrow> u64 \<Rightarrow> int \<Rightarrow> ncclIbSendComm \<Rightarrow> bool" where
  "matched_with comm r i data sz comm2 \<longleftrightarrow>
     (let slot = send_slot comm
      in i < length (nb_reqs comm) \<and> ir_type (nb_reqs comm ! i) = NCCL_NET_IB_REQ_UNUSED \<and>
         (\<exists>q. ir_type q = NCCL_NET_IB_REQ_SEND \<and> ir_size q = min sz (sf_size (sc_fifo comm ! slot ! r)) \<and>
              ir_data q = data \<and> ir_offset q = 0 \<and> nb_reqs comm2 = (nb_reqs comm)[i := q]) \<and>
         sc_fifoReqs comm2 = (sc_fifoReqs comm)[slot := (sc_fifoReqs comm ! slot)[r := Some i]] \<and>
         sc_fifo comm2 = sc_fifo comm \<and> sc_fifoHead comm2 = sc_fifoHead comm \<and> nb_nqps comm2 = nb_nqps comm \<and>
         nb_qps comm2 = nb_qps comm \<and> nb_qpIndex comm2 = nb_qpIndex comm \<and>
         nb_ndevs comm2 = nb_ndevs comm)"

lemma matching_found:
  assumes "matching comm slot tag = Some r"
  shows "r < nat (sf_nreqs (sc_fifo comm ! slot ! 0))" "sc_fifoReqs comm ! slot ! r = None" "sf_tag (sc_fifo comm ! slot ! r) = tag"
  using assms by (auto simp: matching_def find_Some_iff)

lemma store_send_matched:
  assumes "ncclIbGetRequest comm = (res, Some i, comm1)"
  shows "matched_with comm r i data sz
           (store_send pa comm1 (send_slot comm) r i data (min sz (sf_size (sc_fifo comm ! send_slot comm ! r))) mhandle)"
proof -
  note g = ib_get_request [OF assms]
  show ?thesis
    unfolding matched_with_def store_send_def Let_def g(3)
    using g(1,2)
    apply (simp add: set_req_def)
    apply (intro exI conjI)
        prefer 5
        apply (rule refl)
       apply simp_all
    done
qed

lemma isend_matched:
  assumes "ncclIbIsend divup pa comm data sz tag mhandle ib = Some (ncclSuccess, Some i, comm1, ib1)"
  defines "slot \<equiv> send_slot comm"
  defines "n \<equiv> nat (sf_nreqs (sc_fifo comm ! slot ! 0))"
  shows "\<exists>r comm2. matching comm slot tag = Some r \<and> 0 \<le> sf_size (sc_fifo comm ! slot ! r) \<and>
           matched_with comm r i data sz comm2 \<and>
           ((\<exists>r'\<in>{0..<n}. sc_fifoReqs comm2 ! slot ! r' = None) \<and> comm1 = comm2 \<and> ib1 = ib \<or>
            (\<forall>r'\<in>{0..<n}. sc_fifoReqs comm2 ! slot ! r' \<noteq> None) \<and>
            (\<exists>comm3. ncclIbMultiSend divup pa comm2 slot ib = (ncclSuccess, comm3, ib1) \<and> comm1 = group_sent slot comm3))"
  using assms(1) unfolding ncclIbIsend_def slot_def [symmetric] n_def [symmetric] Let_def
  apply (simp split: if_splits option.splits prod.splits)
  subgoal for r res p o1 comm0
    by (rule exI [of _ comm1]) (use store_send_matched [of comm res i comm0 r] in \<open>auto simp: slot_def\<close>)
  subgoal for r res p o1 comm0 res1 q comm3
    by (rule exI [of _ "store_send pa comm0 slot r i data (min sz (sf_size (sc_fifo comm ! slot ! r))) mhandle"])
      (use store_send_matched [of comm res i comm0 r] in \<open>auto simp: slot_def\<close>)
  done

lemma matched_group:
  assumes "group_inv comm (send_slot comm)" "matching comm (send_slot comm) tag = Some r"
    "matched_with comm r i data sz comm2" "0 \<le> sz" "0 \<le> sf_size (sc_fifo comm ! send_slot comm ! r)"
  shows "group_inv comm2 (send_slot comm)"
proof -
  define slot where "slot = send_slot comm"
  have r: "r < NCCL_NET_IB_MAX_RECVS" "sc_fifoReqs comm ! slot ! r = None"
    using matching_found [OF assms(2)] assms(1) by (auto simp: group_inv_def slot_def)
  obtain q where q: "ir_type q = NCCL_NET_IB_REQ_SEND" "ir_size q = min sz (sf_size (sc_fifo comm ! slot ! r))" "ir_offset q = 0"
      "nb_reqs comm2 = (nb_reqs comm)[i := q]" "i < length (nb_reqs comm)" "ir_type (nb_reqs comm ! i) = NCCL_NET_IB_REQ_UNUSED"
      "sc_fifoReqs comm2 = (sc_fifoReqs comm)[slot := (sc_fifoReqs comm ! slot)[r := Some i]]" "sc_fifo comm2 = sc_fifo comm"
    using assms(3) by (auto simp: matched_with_def Let_def slot_def)
  have old: "j \<noteq> i" if "sc_fifoReqs comm ! slot ! s = Some j" "s < NCCL_NET_IB_MAX_RECVS" for s j
    using assms(1) that q(6) unfolding group_inv_def slot_def [symmetric] by (metis ib_req_type.distinct(1))
  have g: "slot < length (sc_fifoReqs comm)" "length (sc_fifoReqs comm ! slot) = NCCL_NET_IB_MAX_RECVS"
    using assms(1) by (auto simp: group_inv_def slot_def)
  have row: "sc_fifoReqs comm2 ! slot ! s = (if s = r then Some i else sc_fifoReqs comm ! slot ! s)" for s
    using g r(1) q(7) by simp
  have mem: "j < length (nb_reqs comm) \<and> ir_type (nb_reqs comm ! j) = NCCL_NET_IB_REQ_SEND \<and> ir_offset (nb_reqs comm ! j) = 0 \<and>
      0 \<le> ir_size (nb_reqs comm ! j) \<and> ir_size (nb_reqs comm ! j) \<le> sf_size (sc_fifo comm ! slot ! s) \<and>
      (\<forall>s'<NCCL_NET_IB_MAX_RECVS. sc_fifoReqs comm ! slot ! s' = Some j \<longrightarrow> s' = s)"
    if "sc_fifoReqs comm ! slot ! s = Some j" "s < NCCL_NET_IB_MAX_RECVS" for s j
    using assms(1) that unfolding group_inv_def slot_def [symmetric] by blast
  show ?thesis
    unfolding slot_def [symmetric] group_inv_def q(8)
  proof (intro conjI allI impI)
    show "slot < length (sc_fifoReqs comm2)" "length (sc_fifoReqs comm2 ! slot) = NCCL_NET_IB_MAX_RECVS" using g q(7) by simp_all
    show "sf_nreqs (sc_fifo comm ! slot ! 0) \<le> int NCCL_NET_IB_MAX_RECVS" using assms(1) by (simp add: group_inv_def slot_def)
  next
    fix s j
    assume s: "s < NCCL_NET_IB_MAX_RECVS" "sc_fifoReqs comm2 ! slot ! s = Some j"
    show "j < length (nb_reqs comm2)" "ir_type (nb_reqs comm2 ! j) = NCCL_NET_IB_REQ_SEND" "ir_offset (nb_reqs comm2 ! j) = 0"
      "0 \<le> ir_size (nb_reqs comm2 ! j)" "ir_size (nb_reqs comm2 ! j) \<le> sf_size (sc_fifo comm ! slot ! s)"
      using s q mem old assms(4,5) row by (auto simp: slot_def nth_list_update split: if_splits)
    fix s' assume "s' < NCCL_NET_IB_MAX_RECVS" "sc_fifoReqs comm2 ! slot ! s' = Some j"
    then show "s' = s" using s row old mem by (metis option.inject)
  qed
qed

lemma multisend_keeps:
  assumes "ncclIbMultiSend divup pa comm slot ib = (res, comm1, ib1)"
  shows "same_send (nb_reqs comm1 ! j) (nb_reqs comm ! j)" "sc_fifoHead comm1 = sc_fifoHead comm"
  using assms
  by (auto simp: ncclIbMultiSend_def Let_def same_send_def split: if_splits
           dest!: send_loop_keeps [where j = j, unfolded same_send_def])

text \<open>C15. A send that completes a group of receives posts one chain of work requests on each of the queue pairs in use: the next ones
  in turn from the communicator's current index, all of them or as many as there are devices, each with the remote keys of the
  device at its other end. The last request of every chain asks for a completion and names the sends of the group, each of which was
  matched with its own receive. The pieces the chains write for a send follow one another without gap or overlap from the address
  announced for its receive and from the start of its data, and their lengths add up to the size of the send, which is at most the
  size announced.\<close>

theorem isend_writes_whole_messages:
  assumes "ncclIbIsend divup pa comm data sz tag mhandle ib = Some (ncclSuccess, Some i, comm1, ib1)"
    "group_inv comm (send_slot comm)" "divup_covers divup" "0 \<le> sz" "0 < data_qps pa comm"
    "sc_fifoHead comm1 \<noteq> sc_fifoHead comm" "nb_qpIndex comm < nb_nqps comm"
  shows "\<exists>js out. length js = nat (sf_nreqs (sc_fifo comm ! send_slot comm ! 0)) \<and>
    ib_posted ib1 = ib_posted ib @ out \<and> length out = data_qps pa comm \<and>
    (\<forall>j<length out. fst (out ! j) = qp_qp (qp_in_turn comm j) \<and>
       (\<forall>r<length js. wr_rkey (snd (out ! j) ! r) =
          sf_rkeys (sc_fifo comm ! send_slot comm ! r) ! qp_remDevIdx (qp_in_turn comm j))) \<and>
    (\<forall>p\<in>set out. wr_id (last (snd p)) = encode_wr_id js \<and> wr_signaled (last (snd p))) \<and>
    (\<exists>r<length js. js ! r = i \<and> sf_tag (sc_fifo comm ! send_slot comm ! r) = tag \<and> ir_data (nb_reqs comm1 ! i) = data \<and>
       ir_size (nb_reqs comm1 ! i) = min sz (sf_size (sc_fifo comm ! send_slot comm ! r)) \<and>
       (\<forall>s<length js. s \<noteq> r \<longrightarrow> sc_fifoReqs comm ! send_slot comm ! s = Some (js ! s))) \<and>
    (\<forall>r<length js. ir_size (nb_reqs comm1 ! (js ! r)) \<le> sf_size (sc_fifo comm ! send_slot comm ! r) \<and>
       tiles (sf_addr (sc_fifo comm ! send_slot comm ! r)) (ir_data (nb_reqs comm1 ! (js ! r)))
         (ir_size (nb_reqs comm1 ! (js ! r))) (pieces_of r out))"
proof -
  define slot where "slot = send_slot comm"
  define n where "n = nat (sf_nreqs (sc_fifo comm ! slot ! 0))"
  obtain r comm2 comm3 where m: "matching comm slot tag = Some r" "0 \<le> sf_size (sc_fifo comm ! slot ! r)"
      "matched_with comm r i data sz comm2" "\<forall>r'\<in>{0..<n}. sc_fifoReqs comm2 ! slot ! r' \<noteq> None"
      "ncclIbMultiSend divup pa comm2 slot ib = (ncclSuccess, comm3, ib1)" "comm1 = group_sent slot comm3"
    using isend_matched [OF assms(1)] assms(6) unfolding slot_def n_def matched_with_def Let_def by metis
  have g2: "group_inv comm2 slot" using matched_group [OF assms(2) _ m(3) assms(4)] m(1,2) by (simp add: slot_def)
  note f = matching_found [OF m(1), folded n_def]
  obtain q where c2: "sc_fifo comm2 = sc_fifo comm" "data_qps pa comm2 = data_qps pa comm" "nb_reqs comm2 = (nb_reqs comm)[i := q]"
      "sc_fifoReqs comm2 = (sc_fifoReqs comm)[slot := (sc_fifoReqs comm ! slot)[r := Some i]]"
      "ir_size q = min sz (sf_size (sc_fifo comm ! slot ! r))" "ir_data q = data" "i < length (nb_reqs comm)"
      "nb_qpIndex comm2 < nb_nqps comm2" "\<And>j. qp_in_turn comm2 j = qp_in_turn comm j"
    using m(3) assms(7) by (auto simp: matched_with_def Let_def data_qps_def slot_def qp_in_turn_def)
  define js where "js = map the (take n (sc_fifoReqs comm2 ! slot))"
  have len: "n \<le> NCCL_NET_IB_MAX_RECVS" "length (sc_fifoReqs comm2 ! slot) = NCCL_NET_IB_MAX_RECVS" "slot < length (sc_fifoReqs comm)"
      "length (sc_fifoReqs comm ! slot) = NCCL_NET_IB_MAX_RECVS"
    using g2 assms(2) c2(1) by (auto simp: group_inv_def n_def slot_def)
  then have js: "length js = n" "\<And>s. s < n \<Longrightarrow> sc_fifoReqs comm2 ! slot ! s = Some (js ! s)"
    using m(4) by (auto simp: js_def)
  obtain out where out: "ib_posted ib1 = ib_posted ib @ out" "length out = data_qps pa comm"
      "\<forall>p\<in>set out. wr_id (last (snd p)) = encode_wr_id js \<and> wr_signaled (last (snd p))"
      "\<forall>s<n. tiles (sf_addr (sc_fifo comm ! slot ! s)) (ir_data (nb_reqs comm2 ! (js ! s))) (ir_size (nb_reqs comm2 ! (js ! s)))
               (pieces_of s out)"
      "\<forall>j<data_qps pa comm. fst (out ! j) = qp_qp (qp_in_turn comm j) \<and>
         (\<forall>s<n. wr_rkey (snd (out ! j) ! s) = sf_rkeys (sc_fifo comm ! slot ! s) ! qp_remDevIdx (qp_in_turn comm j))"
    using multisend_tiles [OF m(5) assms(3) g2] m(4) assms(5) f(1) c2(8) unfolding c2(1,2,9) n_def [symmetric] js_def [symmetric]
    by (fastforce simp: n_def)
  have keep: "ir_data (nb_reqs comm1 ! j) = ir_data (nb_reqs comm2 ! j)" "ir_size (nb_reqs comm1 ! j) = ir_size (nb_reqs comm2 ! j)" for j
    using multisend_keeps(1) [OF m(5), of j] by (simp_all add: m(6) group_sent_def same_send_def)
  have row: "js ! s = (if s = r then i else the (sc_fifoReqs comm ! slot ! s))" if "s < n" for s
    using js(2) [OF that] that c2(4) len f(1) by (auto split: if_splits)
  have old: "sc_fifoReqs comm ! slot ! s = Some (js ! s)" if "s < n" "s \<noteq> r" for s
    using js(2) [OF that(1)] that c2(4) len by simp
  have sz: "ir_size (nb_reqs comm2 ! (js ! s)) \<le> sf_size (sc_fifo comm ! slot ! s)" if "s < n" for s
    using g2 js(2) [OF that] that len(1) c2(1) unfolding group_inv_def by (metis less_le_trans)
  show ?thesis
    unfolding slot_def [symmetric] n_def [symmetric]
    apply (rule exI [of _ js])
    apply (rule exI [of _ out])
    using out sz old f(1,3) row [OF f(1)] c2 js(1) by (auto simp: keep)
qed

lemma isend_keeps_group:
  assumes "ncclIbIsend divup pa comm data sz tag mhandle ib = Some (ncclSuccess, Some i, comm1, ib1)"
    "group_inv comm (send_slot comm)" "0 \<le> sz" "sc_fifoHead comm1 = sc_fifoHead comm"
  shows "group_inv comm1 (send_slot comm1)" "ib1 = ib"
proof -
  obtain r comm2 where m: "matching comm (send_slot comm) tag = Some r" "0 \<le> sf_size (sc_fifo comm ! send_slot comm ! r)"
      "matched_with comm r i data sz comm2"
      "comm1 = comm2 \<and> ib1 = ib \<or>
       (\<exists>comm3. ncclIbMultiSend divup pa comm2 (send_slot comm) ib = (ncclSuccess, comm3, ib1) \<and> comm1 = group_sent (send_slot comm) comm3)"
    using isend_matched [OF assms(1)] by blast
  have "sc_fifoHead comm2 = sc_fifoHead comm" using m(3) by (simp add: matched_with_def Let_def)
  then have "comm1 = comm2 \<and> ib1 = ib" using m(4) assms(4) multisend_keeps(2) by (auto simp: group_sent_def)
  then show "group_inv comm1 (send_slot comm1)" "ib1 = ib"
    using matched_group [OF assms(2) m(1,3) assms(3) m(2)] assms(4) by (simp_all add: send_slot_def)
qed

section \<open>Testing\<close>

text \<open>A request is reported complete only when it waits for no event on either device, and then it is free again.\<close>

lemma test_done:
  "ncclIbTest pa i comm ib = (ncclSuccess, True, szs, comm1, ib1) \<Longrightarrow>
     \<exists>comm0. ir_events (nb_reqs comm0 ! i) ! 0 = 0 \<and> ir_events (nb_reqs comm0 ! i) ! 1 = 0 \<and>
       comm1 = ncclIbFreeRequest i comm0 \<and> szs = request_sizes (nb_reqs comm0 ! i) comm0"
proof (induction pa i comm ib rule: ncclIbTest.induct)
  case (1 pa i comm ib)
  show ?case
    using "1.prems" "1.IH" by (subst (asm) ncclIbTest.simps) (force simp: Let_def split: if_splits prod.splits)
qed

text \<open>A failed completion is an error of the test, whatever request it belongs to.\<close>

lemma test_remote_error:
  assumes "ncclIbStatsCheckFatalCount pa (nb_fatal comm) = ncclSuccess" "ir_events (nb_reqs comm ! i) ! 0 \<noteq> 0"
    "ib_polls ib 0 = (ncclSuccess, wc # wcs) # ps" "\<not> wc_success wc"
  shows "fst (ncclIbTest pa i comm ib) = ncclRemoteError"
  using assms
  by (subst ncclIbTest.simps)
    (simp add: Let_def test_pass_def test_dev_def wrap_ibv_poll_cq_def handle_wc_def split: prod.splits)

section \<open>A run\<close>

text \<open>A sender with two receives announced, of 100 and 200 bytes, on two queue pairs; the first has been matched.\<close>

definition demo_slots :: "ncclIbSendFifo list" where
  "demo_slots = [\<lparr>sf_addr = 4096, sf_size = 100, sf_rkeys = [7, 8], sf_nreqs = 2, sf_tag = 5, sf_idx = 1\<rparr>,
                 \<lparr>sf_addr = 8192, sf_size = 200, sf_rkeys = [7, 8], sf_nreqs = 2, sf_tag = 6, sf_idx = 1\<rparr>]"

definition demo_ib_comm :: ncclIbSendComm where
  "demo_ib_comm =
     \<lparr>nb_ndevs = 2, nb_reqs = [zero_ib_request\<lparr>ir_type := NCCL_NET_IB_REQ_SEND, ir_nreqs := 2, ir_size := 100, ir_data := 64\<rparr>,
                              zero_ib_request],
      nb_qps = [\<lparr>qp_qp = 10, qp_devIndex = 0, qp_remDevIdx = 0\<rparr>, \<lparr>qp_qp = 11, qp_devIndex = 1, qp_remDevIdx = 1\<rparr>],
      nb_nqps = 2, nb_qpIndex = 0, nb_devIndex = 0, nb_ready = True, nb_remFifoRkeys = [], nb_fatal = 0, nb_devs = [0, 1],
      nb_sizes = [], sc_fifo = [demo_slots], sc_fifoReqs = [[Some 0, None, None, None, None, None, None, None]],
      sc_remSizesFifo = \<lparr>rz_elems = [[0, 0, 0, 0, 0, 0, 0, 0]], rz_addr = 0, rz_rkeys = [1, 2], rz_lkeys = [3, 4], rz_local = 0\<rparr>,
      sc_fifoHead = 0, sc_ar = False\<rparr>"

definition quiet_ib :: Ibv where
  "quiet_ib = \<lparr>ib_posted = [], ib_recvs = [], ib_post_answers = [], ib_polls = (\<lambda>_. []), ib_dev_fatal = (\<lambda>_. 0)\<rparr>"

definition demo_ib_params :: Ib_Params where
  "demo_ib_params = \<lparr>IbSplitDataOnQps = True, IbArThreshold = 8192, IbAsyncEvents = True\<rparr>"

definition demo_isend :: "(ncclResult_t \<times> nat option \<times> ncclIbSendComm \<times> Ibv) option" where
  "demo_isend = ncclIbIsend c_divup demo_ib_params demo_ib_comm 1024 200 6 [\<lparr>k_lkey = 1, k_rkey = 2\<rparr>, \<lparr>k_lkey = 3, k_rkey = 4\<rparr>] quiet_ib"

lemma demo_slot: "send_slot demo_ib_comm = 0"
  by (simp add: send_slot_def demo_ib_comm_def)

lemma demo_isend_runs:
  "map_option (\<lambda>(res, i, c, ib). (res, i, sc_fifoHead c)) demo_isend = Some (ncclSuccess, Some 1, 1)"
  by code_simp

lemma demo_group: "group_inv demo_ib_comm 0"
  unfolding group_inv_def demo_ib_comm_def demo_slots_def NCCL_NET_IB_MAX_RECVS_def
  by (auto simp: less_Suc_eq numeral_eq_Suc zero_ib_request_def)

theorem isend_writes_whole_messages_witness:
  "\<exists>comm1 ib1 js out. demo_isend = Some (ncclSuccess, Some 1, comm1, ib1) \<and> length js = 2 \<and> ib_posted ib1 = out \<and>
     map fst out = [10, 11] \<and>
     (\<forall>r<2. tiles (sf_addr (demo_slots ! r)) (ir_data (nb_reqs comm1 ! (js ! r))) (ir_size (nb_reqs comm1 ! (js ! r))) (pieces_of r out))"
proof -
  obtain comm1 ib1 where d: "demo_isend = Some (ncclSuccess, Some 1, comm1, ib1)" "sc_fifoHead comm1 = 1"
    using demo_isend_runs by (auto simp: map_option_case split: option.splits)
  have c: "sc_fifoHead demo_ib_comm = 0" "data_qps demo_ib_params demo_ib_comm = 2" "sc_fifo demo_ib_comm = [demo_slots]"
      "sf_nreqs (demo_slots ! 0) = 2" "ib_posted quiet_ib = []"
      "nb_qpIndex demo_ib_comm < nb_nqps demo_ib_comm" "qp_qp (qp_in_turn demo_ib_comm 0) = 10" "qp_qp (qp_in_turn demo_ib_comm 1) = 11"
    by (simp_all add: demo_ib_comm_def demo_slots_def data_qps_def demo_ib_params_def quiet_ib_def qp_in_turn_def)
  have h: "sc_fifoHead comm1 \<noteq> sc_fifoHead demo_ib_comm" "(0::int) \<le> 200" "0 < data_qps demo_ib_params demo_ib_comm"
    by (simp_all add: d(2) c)
  obtain js out where o: "length js = nat (sf_nreqs (demo_slots ! 0))" "ib_posted ib1 = ib_posted quiet_ib @ out"
      "length out = data_qps demo_ib_params demo_ib_comm"
      "\<forall>j<length out. fst (out ! j) = qp_qp (qp_in_turn demo_ib_comm j) \<and>
         (\<forall>r<length js. wr_rkey (snd (out ! j) ! r) = sf_rkeys (demo_slots ! r) ! qp_remDevIdx (qp_in_turn demo_ib_comm j))"
      "\<forall>r<length js. ir_size (nb_reqs comm1 ! (js ! r)) \<le> sf_size (demo_slots ! r) \<and>
         tiles (sf_addr (demo_slots ! r)) (ir_data (nb_reqs comm1 ! (js ! r))) (ir_size (nb_reqs comm1 ! (js ! r))) (pieces_of r out)"
    using isend_writes_whole_messages [OF d(1) [unfolded demo_isend_def] demo_group [folded demo_slot] c_divup_covers h(2,3,1) c(6)]
    unfolding demo_slot c(3) nth_Cons_0 by (elim exE conjE) (rule that)
  have two: "length js = 2" "length out = 2" using o(1,3) c(2,4) by simp_all
  have "fst (out ! j) = qp_qp (qp_in_turn demo_ib_comm j)" if "j < 2" for j using o(4) that unfolding two(2) by blast
  from this [of 0] this [of 1] have "fst (out ! 0) = 10" "fst (out ! 1) = 11" using c(7,8) by simp_all
  then have "map fst out = [10, 11]" using two(2) by (auto simp: numeral_2_eq_2 length_Suc_conv)
  moreover have "ib_posted ib1 = out" using o(2) c(5) by simp
  moreover note conjunct2 [OF o(5) [unfolded two(1), rule_format]]
  ultimately show ?thesis using d(1) two(1) by (intro exI conjI) (assumption | rule allI impI)+
qed

end


