(* ===== verification/IbGid.thy ===== *)
theory IbGid
  imports NcclIfs
begin

text \<open>
  The choice of an address of a network port in \<^verbatim>\<open>nccl_internal_impl/net_ib.cc\<close>. A port has a table of
  addresses (GIDs); on Ethernet the code takes the one that has the address family and lies in the
  range the user has asked for. A GID is the list of its four 32-bit words, the most significant first, each as the number the
  code sees after \<open>ntohl\<close>; a range is given by such words too, one of them for \<open>AF_INET\<close>.
\<close>

unbundle bit_operations_syntax

section \<open>The user's range\<close>

definition envIbAddrFamily :: "(string \<Rightarrow> string option) \<Rightarrow> nat" where
  "envIbAddrFamily ncclGetEnv =
     (case ncclGetEnv ''NCCL_IB_ADDR_FAMILY'' of
        None \<Rightarrow> AF_INET
      | Some env \<Rightarrow> if env = [] then AF_INET else if env = ''AF_INET'' then AF_INET
                    else if env = ''AF_INET6'' then AF_INET6 else AF_INET)"

text \<open>\<open>strtol (s, NULL, 10)\<close>, which saturates, and its conversion to \<open>int\<close>.\<close>

definition strtol10 :: "string \<Rightarrow> int" where
  "strtol10 s =
     (let v = (case dropWhile (\<lambda>c. of_char c \<in> {9, 10, 11, 12, 13, 32 :: int}) s of
                 [] \<Rightarrow> 0
               | c # cs \<Rightarrow> if c = CHR ''-'' then - digits_value 0 cs
                           else if c = CHR ''+'' then digits_value 0 cs else digits_value 0 (c # cs))
      in max (- (2 ^ 63)) (min (2 ^ 63 - 1) v))"

definition long_to_int :: "int \<Rightarrow> int" where
  "long_to_int v = sint (word_of_int v :: u32)"

text \<open>\<open>inet_pton\<close> answers the words of the address, \<open>None\<close> for a string that is not one of the family. The address
  (\<open>None\<close> the null pointer) and the length of the prefix.\<close>

definition envIbAddrRange ::
  "(nat \<Rightarrow> string \<Rightarrow> u32 list option) \<Rightarrow> (string \<Rightarrow> string option) \<Rightarrow> nat \<Rightarrow> u32 list option \<times> int" where
  "envIbAddrRange inet_pton ncclGetEnv af =
     (case ncclGetEnv ''NCCL_IB_ADDR_RANGE'' of
        None \<Rightarrow> (None, 0)
      | Some env \<Rightarrow>
          if env = [] then (None, 0)
          else let addrString = take 127 env
               in if CHR ''/'' \<notin> set addrString then (None, 0)
                  else case inet_pton af (takeWhile (\<lambda>c. c \<noteq> CHR ''/'') addrString) of
                         None \<Rightarrow> (None, 0)
                       | Some ret \<Rightarrow>
                           let mask = long_to_int (strtol10 (tl (dropWhile (\<lambda>c. c \<noteq> CHR ''/'') addrString)))
                           in if af = AF_INET \<and> 32 < mask then (None, 0)
                              else if af = AF_INET6 \<and> 128 < mask then (None, 0)
                              else (Some ret, mask))"

section \<open>Classes of addresses\<close>

definition getGidAddrFamily :: "u32 list \<Rightarrow> nat" where
  "getGidAddrFamily a =
     (let isIpV4Mapped = ((a ! 0 OR a ! 1) OR (a ! 2 XOR 0x0000ffff) = 0);
          isIpV4MappedMulticast = (a ! 0 = 0xff0e0000 \<and> (a ! 1 OR (a ! 2 XOR 0x0000ffff)) = 0)
      in if isIpV4Mapped \<or> isIpV4MappedMulticast then AF_INET else AF_INET6)"

definition NETMASK :: "int \<Rightarrow> u32" where
  "NETMASK bits = 0xffffffff XOR (push_bit (nat (32 - bits)) 1 - 1)"

text \<open>The loop for \<open>AF_INET6\<close> over the words: what is left of the prefix at its end.\<close>

fun prefix_left :: "u32 list \<Rightarrow> u32 list \<Rightarrow> int \<Rightarrow> int" where
  "prefix_left (b # bs) (w # ws) prefixlen =
     (if \<not> 0 < prefixlen then prefixlen
      else if 32 \<le> prefixlen then if b XOR w \<noteq> 0 then prefixlen else prefix_left bs ws (prefixlen - 32)
      else if (b AND NETMASK prefixlen) XOR (w AND NETMASK prefixlen) \<noteq> 0 then prefixlen else 0)"
| "prefix_left bs ws prefixlen = prefixlen"

text \<open>The null pointer as prefix is the empty list; it comes with the length 0 and is not read.\<close>

definition matchGidAddrPrefix :: "nat \<Rightarrow> u32 list \<Rightarrow> int \<Rightarrow> u32 list \<Rightarrow> bool" where
  "matchGidAddrPrefix af pfx prefixlen gid =
     (if af = AF_INET
      then (if \<not> 0 < prefixlen then prefixlen
            else if (pfx ! 0 AND NETMASK prefixlen) XOR (gid ! 3 AND NETMASK prefixlen) \<noteq> 0 then prefixlen else 0) = 0
      else prefix_left pfx gid prefixlen = 0)"

definition configuredGid :: "u32 list \<Rightarrow> bool" where
  "configuredGid a =
     (let trailer = (a ! 1 OR a ! 2 OR a ! 3)
      in \<not> ((a ! 0 OR trailer) = 0 \<or> (a ! 0 = 0xfe800000 \<and> trailer = 0)))"

definition linkLocalGid :: "u32 list \<Rightarrow> bool" where
  "linkLocalGid a \<longleftrightarrow> a ! 0 = 0xfe800000 \<and> a ! 1 = 0"

definition validGid :: "u32 list \<Rightarrow> bool" where
  "validGid a \<longleftrightarrow> configuredGid a \<and> \<not> linkLocalGid a"

text \<open>Bits 16 to 31 and 0 to 15 of the second word.\<close>

definition ncclIbExtractLocalSubnetPrefix :: "u32 list \<Rightarrow> u32" where
  "ncclIbExtractLocalSubnetPrefix gid = gid ! 1 AND 0xffff"

definition ncclIbExtractFlid :: "u32 list \<Rightarrow> u32" where
  "ncclIbExtractFlid gid = drop_bit 16 (gid ! 1)"

section \<open>The choice\<close>

text \<open>The file with the type of an entry; \<open>Reads\<close> gives its content.\<close>

datatype roce_file = Open_Fails | Read_Fails | Reads string

definition ncclIbRoceGetVersionNum :: "roce_file \<Rightarrow> int \<Rightarrow> ncclResult_t \<times> int" where
  "ncclIbRoceGetVersionNum file version =
     (case file of
        Open_Fails \<Rightarrow> (ncclSystemError, version)
      | Read_Fails \<Rightarrow> (ncclSystemError, version)
      | Reads s \<Rightarrow>
          let str = takeWhile (\<lambda>c. c \<noteq> CHR 0x00) (take 15 s)
          in if take 10 str = ''IB/RoCE v1'' \<or> take 7 str = ''RoCE v1'' then (ncclSuccess, 1)
             else if take 7 str = ''RoCE v2'' then (ncclSuccess, 2)
             else (ncclSuccess, version))"

text \<open>The port: its table, the files of the types, and for each candidate what the two variables for the versions hold
  before they are written, since the source does not initialise them.\<close>

record Gid_Port =
  gp_query :: "int \<Rightarrow> ncclResult_t \<times> u32 list"
  gp_type :: "int \<Rightarrow> roce_file"
  gp_junk :: "int \<Rightarrow> int \<times> int"

definition ncclUpdateGidIndex ::
  "Gid_Port \<Rightarrow> nat \<Rightarrow> u32 list \<Rightarrow> int \<Rightarrow> int \<Rightarrow> int \<Rightarrow> int \<Rightarrow> ncclResult_t \<times> int" where
  "ncclUpdateGidIndex port af pfx prefixlen roceVer gidIndexCandidate gidIndex =
     (let (r0, gid) = gp_query port gidIndex; (r1, gidCandidate) = gp_query port gidIndexCandidate
      in if r0 \<noteq> ncclSuccess then (r0, gidIndex)
         else if r1 \<noteq> ncclSuccess then (r1, gidIndex)
         else
           let gidFam = getGidAddrFamily gid; gidCandidateFam = getGidAddrFamily gidCandidate;
               gidCandidateMatchSubnet = matchGidAddrPrefix af pfx prefixlen gidCandidate
           in if gidCandidateFam \<noteq> gidFam \<and> gidCandidateFam = af \<and> gidCandidateMatchSubnet
              then (ncclSuccess, gidIndexCandidate)
              else if gidCandidateFam \<noteq> af \<or> \<not> validGid gidCandidate \<or> \<not> gidCandidateMatchSubnet
              then (ncclSuccess, gidIndex)
              else
                let (r2, ver) = ncclIbRoceGetVersionNum (gp_type port gidIndex) (fst (gp_junk port gidIndexCandidate));
                    (r3, verCandidate) = ncclIbRoceGetVersionNum (gp_type port gidIndexCandidate) (snd (gp_junk port gidIndexCandidate))
                in if r2 \<noteq> ncclSuccess then (r2, gidIndex)
                   else if r3 \<noteq> ncclSuccess then (r3, gidIndex)
                   else if (ver \<noteq> verCandidate \<or> \<not> validGid gid) \<and> verCandidate = roceVer
                   then (ncclSuccess, gidIndexCandidate)
                   else (ncclSuccess, gidIndex))"

fun gid_loop ::
  "Gid_Port \<Rightarrow> nat \<Rightarrow> u32 list \<Rightarrow> int \<Rightarrow> int \<Rightarrow> int list \<Rightarrow> int \<Rightarrow> ncclResult_t \<times> int" where
  "gid_loop port af pfx prefixlen roceVer [] gidIndex = (ncclSuccess, gidIndex)"
| "gid_loop port af pfx prefixlen roceVer (c # cs) gidIndex =
     (let (res, g) = ncclUpdateGidIndex port af pfx prefixlen roceVer c gidIndex
      in if res \<noteq> ncclSuccess then (res, g) else gid_loop port af pfx prefixlen roceVer cs g)"

record Gid_Params =
  IbGidIndex :: int
  IbRoutableFlidIbGidIndex :: int
  IbRoceVersionNum :: int

definition ncclIbGetGidIndex ::
  "(nat \<Rightarrow> string \<Rightarrow> u32 list option) \<Rightarrow> (string \<Rightarrow> string option) \<Rightarrow> Gid_Params \<Rightarrow> Gid_Port \<Rightarrow> bool \<Rightarrow> int \<Rightarrow> int \<Rightarrow>
   ncclResult_t \<times> int" where
  "ncclIbGetGidIndex inet_pton ncclGetEnv gp port infiniband gidTblLen gidIndex =
     (if infiniband
      then (if IbRoutableFlidIbGidIndex gp < gidTblLen
            then (case gp_query port (IbRoutableFlidIbGidIndex gp) of
                    (res, gid) \<Rightarrow>
                      if res \<noteq> ncclSuccess then (res, gidIndex)
                      else if ncclIbExtractFlid gid \<noteq> 0 then (ncclSuccess, IbRoutableFlidIbGidIndex gp)
                      else (ncclSuccess, 0))
            else (ncclSuccess, 0))
      else if 0 \<le> IbGidIndex gp then (ncclSuccess, IbGidIndex gp)
      else let af = envIbAddrFamily ncclGetEnv; (pfx, prefixlen) = envIbAddrRange inet_pton ncclGetEnv af
           in gid_loop port af (case pfx of None \<Rightarrow> [] | Some p \<Rightarrow> p) prefixlen (IbRoceVersionNum gp) [1..gidTblLen - 1] 0)"

section \<open>Prefixes\<close>

lemma NETMASK_bit: "0 < n \<Longrightarrow> n \<le> 32 \<Longrightarrow> bit (NETMASK n) k \<longleftrightarrow> k < 32 \<and> 32 - nat n \<le> k"
proof -
  assume n: "0 < n" "n \<le> 32"
  have "(0xffffffff :: u32) = mask 32" by (simp add: mask_numeral)
  moreover have "push_bit (nat (32 - n)) 1 - 1 = (mask (nat (32 - n)) :: u32)" by (simp add: mask_eq_decr_exp push_bit_eq_mult)
  ultimately have "NETMASK n = mask 32 XOR mask (nat (32 - n))" by (simp only: NETMASK_def)
  then show ?thesis using n by (auto simp: bit_xor_iff bit_mask_iff)
qed

lemma masked_equal:
  assumes "0 < n" "n \<le> 32"
  shows "(b AND NETMASK n) XOR (w AND NETMASK n) = 0 \<longleftrightarrow> (\<forall>k<nat n. bit b (31 - k) = bit w (31 - k))"
proof -
  let ?same = "\<forall>k<32. 32 - nat n \<le> k \<longrightarrow> bit b k = bit w k"
  have "(b AND NETMASK n) XOR (w AND NETMASK n) = 0 \<longleftrightarrow> ?same"
    using assms by (auto simp: bit_eq_iff bit_simps NETMASK_bit)
  also have "?same \<longleftrightarrow> (\<forall>k<nat n. bit b (31 - k) = bit w (31 - k))"
  proof (rule iffI; intro allI impI)
    fix k assume a: "\<forall>k<32. 32 - nat n \<le> k \<longrightarrow> bit b k = bit w k" "k < nat n"
    then show "bit b (31 - k) = bit w (31 - k)" using assms by auto
  next
    fix k assume a: "\<forall>k<nat n. bit b (31 - k) = bit w (31 - k)" "k < 32" "32 - nat n \<le> k"
    then have "31 - k < nat n" using assms by auto
    with a(1) have "bit b (31 - (31 - k)) = bit w (31 - (31 - k))" by blast
    then show "bit b k = bit w k" using a(2) by simp
  qed
  finally show ?thesis .
qed

definition same_bit :: "u32 list \<Rightarrow> u32 list \<Rightarrow> nat \<Rightarrow> bool" where
  "same_bit bs ws k \<longleftrightarrow> bit (bs ! (k div 32)) (31 - k mod 32) = bit (ws ! (k div 32)) (31 - k mod 32)"

lemma same_bit_Cons: "same_bit (b # bs) (w # ws) (k + 32) = same_bit bs ws k"
proof -
  have "(k + 32) div 32 = Suc (k div 32)" "(k + 32) mod 32 = k mod 32" by simp_all
  then show ?thesis by (simp only: same_bit_def nth_Cons_Suc)
qed

lemma word_equal_bits: "b XOR w = 0 \<longleftrightarrow> (\<forall>k<32. bit b (31 - k) = bit (w :: u32) (31 - k))"
proof -
  have "NETMASK 32 = mask 32" by (simp add: NETMASK_def mask_numeral)
  moreover have "x AND mask 32 = x" for x :: u32
    by (auto simp: bit_eq_iff bit_simps dest: bit_imp_le_length)
  ultimately show ?thesis using masked_equal [of 32 b w] by simp
qed

lemma prefix_left_zero:
  "length bs = length ws \<Longrightarrow> 0 \<le> n \<Longrightarrow> n \<le> 32 * int (length bs) \<Longrightarrow>
     prefix_left bs ws n = 0 \<longleftrightarrow> (\<forall>k<nat n. same_bit bs ws k)"
proof (induction bs ws n rule: prefix_left.induct)
  case (1 b bs w ws n)
  consider "n = 0" | "0 < n" "n < 32" | "32 \<le> n" using "1.prems" by linarith
  then show ?case
  proof cases
    case 2
    then show ?thesis using masked_equal [of n b w] by (auto simp: same_bit_def)
  next
    case 3
    have IH: "b XOR w = 0 \<Longrightarrow> prefix_left bs ws (n - 32) = 0 \<longleftrightarrow> (\<forall>k<nat (n - 32). same_bit bs ws k)"
      using "1.IH" "1.prems" 3 by simp
    have "(\<forall>k<nat n. same_bit (b # bs) (w # ws) k) \<longleftrightarrow>
        (\<forall>k<32. same_bit (b # bs) (w # ws) k) \<and> (\<forall>k<nat (n - 32). same_bit (b # bs) (w # ws) (k + 32))"
    proof (intro iffI conjI allI impI; (elim conjE)?)
      fix k assume "\<forall>k<32. same_bit (b # bs) (w # ws) k" "\<forall>k<nat (n - 32). same_bit (b # bs) (w # ws) (k + 32)" "k < nat n"
      then show "same_bit (b # bs) (w # ws) k" using spec [of "\<lambda>k. k < nat (n - 32) \<longrightarrow> same_bit (b # bs) (w # ws) (k + 32)" "k - 32"]
        by (cases "k < 32") (auto simp: nat_diff_distrib)
    qed (use 3 in auto)
    also have "(\<forall>k<32. same_bit (b # bs) (w # ws) k) \<longleftrightarrow> b XOR w = 0" by (simp add: word_equal_bits same_bit_def)
    finally show ?thesis using 3 IH by (simp add: same_bit_Cons)
  qed simp
qed simp_all

text \<open>An address lies in the user's range exactly when its first \<open>prefixlen\<close> bits are those of the range: of the whole
  address for \<open>AF_INET6\<close>, of its last word for \<open>AF_INET\<close>.\<close>

theorem prefix_match_compares_bits:
  assumes "length gid = 4" "0 \<le> n"
  shows "(length pfx = 4 \<and> n \<le> 128 \<longrightarrow> matchGidAddrPrefix AF_INET6 pfx n gid = (\<forall>k<nat n. same_bit pfx gid k)) \<and>
    (length pfx = 1 \<and> n \<le> 32 \<longrightarrow> matchGidAddrPrefix AF_INET pfx n gid = (\<forall>k<nat n. same_bit pfx (drop 3 gid) k))"
proof (rule conjI)
  show "length pfx = 4 \<and> n \<le> 128 \<longrightarrow> matchGidAddrPrefix AF_INET6 pfx n gid = (\<forall>k<nat n. same_bit pfx gid k)"
    using prefix_left_zero [of pfx gid n] assms by (auto simp: matchGidAddrPrefix_def AF_INET6_def AF_INET_def)
  show "length pfx = 1 \<and> n \<le> 32 \<longrightarrow> matchGidAddrPrefix AF_INET pfx n gid = (\<forall>k<nat n. same_bit pfx (drop 3 gid) k)"
    using masked_equal [of n "pfx ! 0" "gid ! 3"] assms by (auto simp: matchGidAddrPrefix_def same_bit_def)
qed

theorem prefix_match_compares_bits_witness:
  "matchGidAddrPrefix AF_INET [0x0a010000] 16 [0, 0, 0xffff, 0x0a01fe07] =
     (\<forall>k<nat 16. same_bit [0x0a010000] (drop 3 [0, 0, 0xffff, 0x0a01fe07]) k)"
  by (rule prefix_match_compares_bits [THEN conjunct2, THEN mp]) simp_all

lemma negative_range_matches_nothing: "n < 0 \<Longrightarrow> \<not> matchGidAddrPrefix af pfx n gid"
  by (cases "(pfx, gid, n)" rule: prefix_left.cases) (auto simp: matchGidAddrPrefix_def)

lemma no_range_no_prefix: "envIbAddrRange inet_pton env af = (None, n) \<Longrightarrow> n = 0"
  by (auto simp: envIbAddrRange_def Let_def split: option.splits if_splits)

section \<open>The index\<close>

definition gid_wanted :: "Gid_Port \<Rightarrow> nat \<Rightarrow> u32 list \<Rightarrow> int \<Rightarrow> int \<Rightarrow> bool" where
  "gid_wanted port af pfx n g \<longleftrightarrow>
     getGidAddrFamily (snd (gp_query port g)) = af \<and> matchGidAddrPrefix af pfx n (snd (gp_query port g))"

lemma update_gid:
  assumes "ncclUpdateGidIndex port af pfx n ver c g = (res, g1)"
  shows "g1 = g \<or> g1 = c \<and> gid_wanted port af pfx n c"
  using assms by (auto simp: ncclUpdateGidIndex_def gid_wanted_def Let_def split: prod.splits if_splits)

lemma gid_loop_wanted:
  "gid_loop port af pfx n ver cs g = (res, g1) \<Longrightarrow> g1 = g \<or> g1 \<in> set cs \<and> gid_wanted port af pfx n g1"
proof (induction cs arbitrary: g)
  case (Cons c cs)
  obtain r g0 where u: "ncclUpdateGidIndex port af pfx n ver c g = (r, g0)" by force
  show ?case using Cons update_gid [OF u] by (auto simp: u split: if_splits)
qed simp

text \<open>On Ethernet, when the user names no index, the index chosen is 0 or that of an entry of the table which has the
  user's address family and lies in the user's range.\<close>

theorem roce_gid_is_wanted:
  assumes "ncclIbGetGidIndex inet_pton env gp port False len g0 = (ncclSuccess, g)" "IbGidIndex gp < 0"
  shows "g = 0 \<or> 1 \<le> g \<and> g < len \<and> getGidAddrFamily (snd (gp_query port g)) = envIbAddrFamily env \<and>
    (case envIbAddrRange inet_pton env (envIbAddrFamily env) of
       (pfx, n) \<Rightarrow> matchGidAddrPrefix (envIbAddrFamily env) (case pfx of None \<Rightarrow> [] | Some p \<Rightarrow> p) n (snd (gp_query port g)))"
proof -
  obtain pfx n where e: "envIbAddrRange inet_pton env (envIbAddrFamily env) = (pfx, n)" by force
  have "gid_loop port (envIbAddrFamily env) (case pfx of None \<Rightarrow> [] | Some p \<Rightarrow> p) n (IbRoceVersionNum gp) [1..len - 1] 0 = (ncclSuccess, g)"
    using assms e by (simp add: ncclIbGetGidIndex_def Let_def)
  then show ?thesis using gid_loop_wanted by (fastforce simp: e gid_wanted_def)
qed

definition example_gids :: Gid_Port where
  "example_gids = \<lparr>gp_query = (\<lambda>g. (ncclSuccess, if g = 0 then [0xfe800000, 0, 1, 2] else if g = 1 then [0, 0, 0xffff, 0x0a010203]
     else [0, 0, 0xffff, 0xc0a80001])), gp_type = (\<lambda>g. Reads ''RoCE v2''), gp_junk = (\<lambda>g. (0, 0))\<rparr>"

definition example_env :: "string \<Rightarrow> string option" where
  "example_env v = (if v = ''NCCL_IB_ADDR_RANGE'' then Some ''192.168.0.0/16'' else None)"

definition example_pton :: "nat \<Rightarrow> string \<Rightarrow> u32 list option" where
  "example_pton af s = Some [0xc0a80000]"

definition example_gid_params :: Gid_Params where
  "example_gid_params = \<lparr>IbGidIndex = - 1, IbRoutableFlidIbGidIndex = 1, IbRoceVersionNum = 2\<rparr>"

theorem roce_gid_is_wanted_witness:
  "ncclIbGetGidIndex example_pton example_env example_gid_params example_gids False 3 0 = (ncclSuccess, 2) \<and>
   getGidAddrFamily (snd (gp_query example_gids 2)) = envIbAddrFamily example_env"
proof -
  have r: "ncclIbGetGidIndex example_pton example_env example_gid_params example_gids False 3 0 = (ncclSuccess, 2)" by code_simp
  show ?thesis using roce_gid_is_wanted [OF r] r by (simp add: example_gid_params_def)
qed

text \<open>An entry of the user's family that is not configured is taken when the entry before has another family: only the
  second branch of the source looks at \<open>validGid\<close>.\<close>

definition unconfigured_gids :: Gid_Port where
  "unconfigured_gids = \<lparr>gp_query = (\<lambda>g. (ncclSuccess, if g = 0 then [0, 0, 0xffff, 0x0a010203] else [0, 0, 0, 0])),
     gp_type = (\<lambda>g. Reads ''RoCE v2''), gp_junk = (\<lambda>g. (0, 0))\<rparr>"

theorem unconfigured_gid_chosen:
  "ncclIbGetGidIndex example_pton (\<lambda>v. if v = ''NCCL_IB_ADDR_FAMILY'' then Some ''AF_INET6'' else None)
     example_gid_params unconfigured_gids False 2 0 = (ncclSuccess, 1) \<and>
   \<not> validGid (snd (gp_query unconfigured_gids 1))"
  by code_simp

end
