(* ===== verification/IbDevices.thy ===== *)
theory IbDevices
  imports IbGid IbTransfer NetAdapters
begin

text \<open>
  The devices of \<^verbatim>\<open>nccl_internal_impl/net_ib.cc\<close>: finding the network cards and their ports, merging the ports of a
  card into one device, the properties of a device, and the thread that counts fatal events. The verbs library, the file system
  and the environment are the record \<open>Ib_Env\<close> of their answers. The arrays \<open>ncclIbDevs\<close> and \<open>ncclIbMergedDevs\<close> are lists of
  32 elements: writing past them is seen in the counter, which then exceeds 32. A function that hands a null path to
  \<open>strcmp\<close> kills the process and returns \<open>None\<close>. Starting threads is taken to succeed.
\<close>

section \<open>Data\<close>

definition MAX_IB_DEVS :: nat where "MAX_IB_DEVS = 32"
definition MAXNAMESIZE :: nat where "MAXNAMESIZE = 64"
definition MAX_MERGED_DEV_NAME :: nat where "MAX_MERGED_DEV_NAME = MAXNAMESIZE * NCCL_IB_MAX_DEVS_PER_NIC + NCCL_IB_MAX_DEVS_PER_NIC"
definition NCCL_PTR_DMABUF :: int where "NCCL_PTR_DMABUF = 4"

datatype ib_link = IBV_LINK_LAYER_UNSPECIFIED | IBV_LINK_LAYER_INFINIBAND | IBV_LINK_LAYER_ETHERNET

record ib_port_attr =
  pa_active :: bool
  pa_link :: ib_link
  pa_speed :: int
  pa_width :: int
  pa_lid :: u32
  pa_gid_tbl_len :: int
  pa_mtu :: nat

text \<open>The context is that of the card \<open>id_device\<close>; a protection domain is a number.\<close>

record ncclIbDev =
  id_device :: nat
  id_guid :: u64
  id_portNum :: nat
  id_link :: ib_link
  id_speed :: int
  id_pdRefs :: int
  id_pd :: "nat option"
  id_devName :: string
  id_pciPath :: "string option"
  id_realPort :: int
  id_maxQp :: int
  id_mrCache :: ncclIbMrCache
  id_ar :: int
  id_portAttr :: ib_port_attr
  id_fatal :: int

record ncclIbMergedDev =
  md_ndevs :: nat
  md_devs :: "nat list"
  md_speed :: int
  md_devName :: string
  md_dmaBufSupported :: int

record Ib_File =
  ncclNIbDevs :: int
  ncclNMergedIbDevs :: int
  ncclIbDevs :: "ncclIbDev list"
  ncclIbMergedDevs :: "ncclIbMergedDev list"
  ncclIbIf :: "(string \<times> ncclSocketAddress) option"
  ncclIbRelaxedOrderingEnabled :: bool
  ncclIbGdrModuleLoaded :: "bool option"
  ib_dma_onces :: "bool list"

text \<open>A card: its name, whether it can be opened and closed, its attributes (system image, number of ports, queue pairs), and its
  ports from 1 on.\<close>

record Ib_Card =
  card_name :: string
  card_opens :: bool
  card_closes :: bool
  card_attr :: "(u64 \<times> nat \<times> int) option"
  card_port :: "nat \<Rightarrow> ib_port_attr option"

text \<open>\<open>ie_wanted\<close> is \<open>parseStringList\<close> and \<open>matchIfList\<close> of NCCL's utilities on the list of the user;
  \<open>ie_dma\<close> gives, for a device, the results of \<open>alloc_pd\<close> and \<open>dealloc_pd\<close> and whether the dummy registration sets one of the
  two error numbers for not supported.\<close>

record Ib_Env =
  ie_disable :: bool
  ie_symbols :: ncclResult_t
  ie_found :: "(string \<times> ncclSocketAddress) list"
  ie_hca :: "string option"
  ie_wanted :: "string option \<Rightarrow> bool \<Rightarrow> string \<Rightarrow> nat \<Rightarrow> bool"
  ie_cards :: "ncclResult_t \<times> Ib_Card list"
  ie_free_list :: ncclResult_t
  ie_merge_nics :: bool
  ie_merge_vfs :: bool
  ie_adaptive_routing :: int
  ie_realpath :: "string \<Rightarrow> string option"
  ie_relaxed_ordering :: int
  ie_reg_mr_iova2 :: ncclResult_t
  ie_modules :: "bool \<times> bool \<times> bool"
  ie_dma :: "nat \<Rightarrow> ncclResult_t \<times> bool \<times> ncclResult_t"

section \<open>Events\<close>

definition ncclIbStatsInit :: "ncclResult_t \<times> int" where
  "ncclIbStatsInit = (ncclSuccess, 0)"

definition ncclIbStatsFatalError :: "int \<Rightarrow> int" where
  "ncclIbStatsFatalError n = n + 1"

datatype stats_of = Stats_Dev nat | Stats_Comm nat

datatype ib_event =
    IBV_EVENT_DEVICE_FATAL | IBV_EVENT_CQ_ERR
  | IBV_EVENT_QP_FATAL | IBV_EVENT_QP_REQ_ERR | IBV_EVENT_QP_ACCESS_ERR
  | IBV_EVENT_OTHER nat

text \<open>What one turn of the thread of a device gets: whether the event, its description and the acknowledgement
  succeed, and the communicators of the completion queue and the queue pair it names. The thread ends with the first failure.\<close>

record Async_Answer =
  aa_get :: bool
  aa_event :: ib_event
  aa_cq :: nat
  aa_qp :: nat
  aa_str :: bool
  aa_ack :: bool

definition count_fatal :: "stats_of \<Rightarrow> (stats_of \<Rightarrow> int) \<Rightarrow> stats_of \<Rightarrow> int" where
  "count_fatal s stats = stats(s := ncclIbStatsFatalError (stats s))"

definition handle_event :: "nat \<Rightarrow> Async_Answer \<Rightarrow> (stats_of \<Rightarrow> int) \<Rightarrow> stats_of \<Rightarrow> int" where
  "handle_event dev a stats =
     (case aa_event a of
        IBV_EVENT_DEVICE_FATAL \<Rightarrow> count_fatal (Stats_Dev dev) stats
      | IBV_EVENT_CQ_ERR \<Rightarrow> count_fatal (Stats_Comm (aa_cq a)) stats
      | IBV_EVENT_QP_FATAL \<Rightarrow> count_fatal (Stats_Comm (aa_qp a)) stats
      | IBV_EVENT_QP_REQ_ERR \<Rightarrow> count_fatal (Stats_Comm (aa_qp a)) stats
      | IBV_EVENT_QP_ACCESS_ERR \<Rightarrow> count_fatal (Stats_Comm (aa_qp a)) stats
      | IBV_EVENT_OTHER _ \<Rightarrow> stats)"

fun ncclIbAsyncThreadMain :: "nat \<Rightarrow> Async_Answer list \<Rightarrow> (stats_of \<Rightarrow> int) \<Rightarrow> stats_of \<Rightarrow> int" where
  "ncclIbAsyncThreadMain dev [] stats = stats"
| "ncclIbAsyncThreadMain dev (a # as) stats =
     (if \<not> aa_get a \<or> \<not> aa_str a then stats
      else let stats1 = handle_event dev a stats
           in if \<not> aa_ack a then stats1 else ncclIbAsyncThreadMain dev as stats1)"

section \<open>Ports\<close>

definition ibvWidths :: "int list" where "ibvWidths = [1, 4, 8, 12, 2]"
definition ibvSpeeds :: "int list" where "ibvSpeeds = [2500, 5000, 10000, 10000, 14000, 25000, 50000, 100000]"

text \<open>The tests of the bits from \<open>i\<close> on, \<open>n\<close> of them.\<close>

fun first_bit_from :: "int \<Rightarrow> nat \<Rightarrow> nat \<Rightarrow> nat" where
  "first_bit_from val i 0 = i"
| "first_bit_from val i (Suc n) = (if \<not> bit val i then first_bit_from val (i + 1) n else i)"

definition firstBitSet :: "int \<Rightarrow> nat \<Rightarrow> nat" where
  "firstBitSet val limit = first_bit_from val 0 limit"

definition ncclIbWidth :: "int \<Rightarrow> int" where
  "ncclIbWidth width = ibvWidths ! firstBitSet width (length ibvWidths - 1)"

definition ncclIbSpeed :: "int \<Rightarrow> int" where
  "ncclIbSpeed speed = ibvSpeeds ! firstBitSet speed (length ibvSpeeds - 1)"

definition strcmp_eq :: "string option \<Rightarrow> string option \<Rightarrow> bool option" where
  "strcmp_eq p q = (case (p, q) of (Some s, Some t) \<Rightarrow> Some (s = t) | _ \<Rightarrow> None)"

fun count_paths :: "string \<Rightarrow> string option list \<Rightarrow> int option" where
  "count_paths p [] = Some 0"
| "count_paths p (q # qs) =
     (case strcmp_eq (Some p) q of
        None \<Rightarrow> None
      | Some eq \<Rightarrow> map_option (\<lambda>n. n + (if eq then 1 else 0)) (count_paths p qs))"

text \<open>The path and the real port; the port is left alone when there is no path.\<close>

definition ncclIbGetPciPath :: "Ib_Env \<Rightarrow> Ib_File \<Rightarrow> string \<Rightarrow> int \<Rightarrow> (string option \<times> int) option" where
  "ncclIbGetPciPath env st devName realPort =
     (case ie_realpath env (''/sys/class/infiniband/'' @ devName @ ''/device'') of
        None \<Rightarrow> Some (None, realPort)
      | Some p \<Rightarrow>
          let p1 = p[length p - 1 := CHR ''0''];
              p2 = (if ie_merge_vfs env then p1[length p - 3 := CHR ''0'', length p - 4 := CHR ''0''] else p1)
          in map_option (\<lambda>n. (Some p2, n))
               (count_paths p2 (map id_pciPath (take (nat (ncclNIbDevs st)) (ncclIbDevs st)))))"

definition ncclIbRelaxedOrderingCapable :: "Ib_Env \<Rightarrow> bool" where
  "ncclIbRelaxedOrderingCapable env =
     (let r = (if ie_relaxed_ordering env = 1 \<or> ie_relaxed_ordering env = 2 then ie_reg_mr_iova2 env else ncclInternalError)
      in r \<noteq> ncclInternalError)"

fun matching_from :: "Ib_File \<Rightarrow> nat \<Rightarrow> nat list \<Rightarrow> nat option" where
  "matching_from st dev [] = Some (nat (ncclNMergedIbDevs st))"
| "matching_from st dev (i # is) =
     (if md_ndevs (ncclIbMergedDevs st ! i) < NCCL_IB_MAX_DEVS_PER_NIC
      then let d = ncclIbDevs st ! dev; c = ncclIbDevs st ! (md_devs (ncclIbMergedDevs st ! i) ! 0)
           in case strcmp_eq (id_pciPath d) (id_pciPath c) of
                None \<Rightarrow> None
              | Some eq \<Rightarrow> if eq \<and> id_guid d = id_guid c \<and> id_link d = id_link c then Some i else matching_from st dev is
      else matching_from st dev is)"

definition ncclIbFindMatchingDev :: "Ib_File \<Rightarrow> nat \<Rightarrow> nat option" where
  "ncclIbFindMatchingDev st dev = matching_from st dev [0..<nat (ncclNMergedIbDevs st)]"

section \<open>Initialisation\<close>

definition zero_ib_dev :: ncclIbDev where
  "zero_ib_dev = \<lparr>id_device = 0, id_guid = 0, id_portNum = 0, id_link = IBV_LINK_LAYER_UNSPECIFIED, id_speed = 0, id_pdRefs = 0, id_pd = None,
     id_devName = [], id_pciPath = None, id_realPort = 0, id_maxQp = 0,
     id_mrCache = \<lparr>mc_slots = [], mc_capacity = 0, mc_room = 0\<rparr>, id_ar = 0,
     id_portAttr = \<lparr>pa_active = False, pa_link = IBV_LINK_LAYER_UNSPECIFIED, pa_speed = 0, pa_width = 0, pa_lid = 0,
       pa_gid_tbl_len = 0, pa_mtu = 0\<rparr>, id_fatal = 0\<rparr>"

definition zero_merged :: ncclIbMergedDev where
  "zero_merged = \<lparr>md_ndevs = 0, md_devs = [0, 0], md_speed = 0, md_devName = [], md_dmaBufSupported = 0\<rparr>"

definition fresh_ib_file :: Ib_File where
  "fresh_ib_file = \<lparr>ncclNIbDevs = - 1, ncclNMergedIbDevs = - 1, ncclIbDevs = replicate MAX_IB_DEVS zero_ib_dev,
     ncclIbMergedDevs = replicate MAX_IB_DEVS zero_merged, ncclIbIf = None, ncclIbRelaxedOrderingEnabled = False,
     ncclIbGdrModuleLoaded = None, ib_dma_onces = replicate MAX_IB_DEVS False\<rparr>"

text \<open>A new merged device, and one more port for an old one.\<close>

definition new_merged :: "nat \<Rightarrow> ncclIbDev \<Rightarrow> ncclIbMergedDev \<Rightarrow> ncclIbMergedDev" where
  "new_merged n d m = m\<lparr>md_ndevs := 1, md_devs := (md_devs m)[0 := n], md_devName := take MAXNAMESIZE (id_devName d)\<rparr>"

definition join_merged :: "nat \<Rightarrow> ncclIbDev \<Rightarrow> ncclIbMergedDev \<Rightarrow> ncclIbMergedDev" where
  "join_merged n d m =
     m\<lparr>md_devs := (md_devs m)[md_ndevs m := n], md_ndevs := md_ndevs m + 1,
       md_devName := md_devName m @ take MAXNAMESIZE (CHR ''+'' # id_devName d)\<rparr>"

definition add_speed :: "ncclIbDev \<Rightarrow> ncclIbMergedDev \<Rightarrow> ncclIbMergedDev" where
  "add_speed d m = m\<lparr>md_speed := md_speed m + id_speed d\<rparr>"

definition merge_dev :: "nat \<Rightarrow> nat \<Rightarrow> Ib_File \<Rightarrow> Ib_File" where
  "merge_dev n mergedDev st =
     (let d = ncclIbDevs st ! n; m = ncclIbMergedDevs st ! mergedDev;
          st1 = (if int mergedDev = ncclNMergedIbDevs st
                 then st\<lparr>ncclIbMergedDevs := (ncclIbMergedDevs st)[mergedDev := add_speed d (new_merged n d m)],
                         ncclNMergedIbDevs := ncclNMergedIbDevs st + 1\<rparr>
                 else st\<lparr>ncclIbMergedDevs := (ncclIbMergedDevs st)[mergedDev := add_speed d (join_merged n d m)]\<rparr>)
      in st1\<lparr>ncclNIbDevs := ncclNIbDevs st1 + 1\<rparr>)"

text \<open>The device of an accepted port, written over what its place in the array held.\<close>

definition fill_dev ::
  "Ib_Env \<Rightarrow> nat \<Rightarrow> Ib_Card \<Rightarrow> u64 \<times> nat \<times> int \<Rightarrow> nat \<Rightarrow> ib_port_attr \<Rightarrow> string option \<times> int \<Rightarrow> ncclIbDev \<Rightarrow> ncclIbDev" where
  "fill_dev env d hca attr port_num pa path old =
     old\<lparr>id_device := d, id_guid := fst attr, id_portAttr := pa, id_portNum := port_num, id_link := pa_link pa,
         id_speed := ncclIbSpeed (pa_speed pa) * ncclIbWidth (pa_width pa), id_pdRefs := 0, id_pd := None,
         id_devName := take MAXNAMESIZE (card_name hca), id_pciPath := fst path, id_realPort := snd path,
         id_maxQp := snd (snd attr), id_mrCache := \<lparr>mc_slots = [], mc_capacity = 0, mc_room = 0\<rparr>, id_fatal := snd ncclIbStatsInit,
         id_ar := if ie_adaptive_routing env \<noteq> - 2 then ie_adaptive_routing env
                  else if pa_link pa = IBV_LINK_LAYER_INFINIBAND then 1 else 0\<rparr>"

definition add_port ::
  "Ib_Env \<Rightarrow> bool \<Rightarrow> nat \<Rightarrow> Ib_Card \<Rightarrow> u64 \<times> nat \<times> int \<Rightarrow> nat \<Rightarrow> ib_port_attr \<Rightarrow> Ib_File \<Rightarrow> Ib_File option" where
  "add_port env mergeNics d hca attr port_num pa st =
     (let n = nat (ncclNIbDevs st); old = ncclIbDevs st ! n
      in case ncclIbGetPciPath env st (take MAXNAMESIZE (card_name hca)) (id_realPort old) of
           None \<Rightarrow> None
         | Some path \<Rightarrow>
             let st1 = st\<lparr>ncclIbDevs := (ncclIbDevs st)[n := fill_dev env d hca attr port_num pa path old]\<rparr>
             in case (if mergeNics then ncclIbFindMatchingDev st1 n else Some (nat (ncclNMergedIbDevs st1))) of
                  None \<Rightarrow> None
                | Some m \<Rightarrow> Some (merge_dev n m st1))"

text \<open>The user's choice of cards and ports.\<close>

definition hca_wanted :: "Ib_Env \<Rightarrow> string \<Rightarrow> nat \<Rightarrow> bool" where
  "hca_wanted env name port_num =
     (let searchNot = (case ie_hca env of Some (c # _) \<Rightarrow> c = CHR ''^'' | _ \<Rightarrow> False);
          e1 = (if searchNot then map_option tl (ie_hca env) else ie_hca env);
          searchExact = (case e1 of Some (c # _) \<Rightarrow> c = CHR ''='' | _ \<Rightarrow> False);
          e2 = (if searchExact then map_option tl e1 else e1)
      in ie_wanted env e2 searchExact name port_num \<noteq> searchNot)"

fun port_loop ::
  "Ib_Env \<Rightarrow> bool \<Rightarrow> nat \<Rightarrow> Ib_Card \<Rightarrow> u64 \<times> nat \<times> int \<Rightarrow> nat list \<Rightarrow> nat \<Rightarrow> Ib_File \<Rightarrow> (nat \<times> Ib_File) option" where
  "port_loop env mergeNics d hca attr [] nPorts st = Some (nPorts, st)"
| "port_loop env mergeNics d hca attr (p # ps) nPorts st =
     (case card_port hca p of
        None \<Rightarrow> port_loop env mergeNics d hca attr ps nPorts st
      | Some pa \<Rightarrow>
          if \<not> pa_active pa then port_loop env mergeNics d hca attr ps nPorts st
          else if pa_link pa \<noteq> IBV_LINK_LAYER_INFINIBAND \<and> pa_link pa \<noteq> IBV_LINK_LAYER_ETHERNET
          then port_loop env mergeNics d hca attr ps nPorts st
          else if \<not> hca_wanted env (card_name hca) p then port_loop env mergeNics d hca attr ps nPorts st
          else case add_port env mergeNics d hca attr p pa st of
                 None \<Rightarrow> None
               | Some st1 \<Rightarrow> port_loop env mergeNics d hca attr ps (nPorts + 1) st1)"

fun card_loop :: "Ib_Env \<Rightarrow> bool \<Rightarrow> nat \<Rightarrow> Ib_Card list \<Rightarrow> Ib_File \<Rightarrow> (ncclResult_t \<times> Ib_File) option" where
  "card_loop env mergeNics d [] st = Some (ncclSuccess, st)"
| "card_loop env mergeNics d (hca # cards) st =
     (if \<not> ncclNIbDevs st < int MAX_IB_DEVS then Some (ncclSuccess, st)
      else if \<not> card_opens hca then card_loop env mergeNics (d + 1) cards st
      else case card_attr hca of
             None \<Rightarrow> if \<not> card_closes hca then Some (ncclInternalError, st) else card_loop env mergeNics (d + 1) cards st
           | Some attr \<Rightarrow>
               (case port_loop env mergeNics d hca attr [1..<fst (snd attr) + 1] 0 st of
                  None \<Rightarrow> None
                | Some (nPorts, st1) \<Rightarrow>
                    if nPorts = 0 \<and> \<not> card_closes hca then Some (ncclInternalError, st1)
                    else card_loop env mergeNics (d + 1) cards st1))"

definition mixed_ports :: "Ib_File \<Rightarrow> bool" where
  "mixed_ports st \<longleftrightarrow>
     (\<exists>m\<in>set (take (nat (ncclNMergedIbDevs st)) (ncclIbMergedDevs st)). md_ndevs m \<noteq> md_ndevs (ncclIbMergedDevs st ! 0))"

definition build_ib_list :: "Ib_Env \<Rightarrow> Ib_File \<Rightarrow> (ncclResult_t \<times> Ib_File) option" where
  "build_ib_list env st =
     (case card_loop env (ie_merge_nics env) 0 (snd (ie_cards env)) st of
        None \<Rightarrow> None
      | Some (res, st1) \<Rightarrow>
          if res = ncclSuccess \<and> ie_merge_nics env \<and> mixed_ports st1
          then card_loop env False 0 (snd (ie_cards env))
                 (st1\<lparr>ncclNIbDevs := 0, ncclNMergedIbDevs := 0, ncclIbMergedDevs := replicate MAX_IB_DEVS zero_merged\<rparr>)
          else Some (res, st1))"

definition ncclIbInit :: "Ib_Env \<Rightarrow> Ib_File \<Rightarrow> (ncclResult_t \<times> Ib_File) option" where
  "ncclIbInit env st =
     (if ie_disable env then Some (ncclInternalError, st)
      else if ie_symbols env \<noteq> ncclSuccess then Some (ncclInternalError, st)
      else if ncclNIbDevs st \<noteq> - 1 then Some (ncclSuccess, st)
      else let st1 = st\<lparr>ncclNIbDevs := 0, ncclNMergedIbDevs := 0\<rparr>
           in if length (ie_found env) \<noteq> 1 then Some (ncclInternalError, st1)
              else let st2 = st1\<lparr>ncclIbIf := Some (hd (ie_found env))\<rparr>
                   in if fst (ie_cards env) \<noteq> ncclSuccess then Some (ncclInternalError, st2)
                      else case build_ib_list env st2 of
                             None \<Rightarrow> None
                           | Some (res, st3) \<Rightarrow>
                               if res \<noteq> ncclSuccess then Some (res, st3)
                               else if snd (ie_cards env) \<noteq> [] \<and> ie_free_list env \<noteq> ncclSuccess then Some (ncclInternalError, st3)
                               else if ncclNIbDevs st3 = 0 then Some (ncclSuccess, st3)
                               else Some (ncclSuccess, st3\<lparr>ncclIbRelaxedOrderingEnabled := ncclIbRelaxedOrderingCapable env\<rparr>))"

definition ncclIbNumDevices :: "Ib_File \<Rightarrow> ncclResult_t \<times> int" where
  "ncclIbNumDevices st = (ncclSuccess, ncclNMergedIbDevs st)"

section \<open>Properties of a device\<close>

definition ncclIbGdrSupport :: "Ib_Env \<Rightarrow> Ib_File \<Rightarrow> ncclResult_t \<times> Ib_File" where
  "ncclIbGdrSupport env st =
     (let loaded = (case ncclIbGdrModuleLoaded st of
                      None \<Rightarrow> (case ie_modules env of (a, b, c) \<Rightarrow> a \<or> b \<or> c)
                    | Some l \<Rightarrow> l)
      in (if \<not> loaded then ncclSystemError else ncclSuccess, st\<lparr>ncclIbGdrModuleLoaded := Some loaded\<rparr>))"

text \<open>Whether all of the devices pass.\<close>

fun dma_devices :: "Ib_Env \<Rightarrow> nat list \<Rightarrow> bool" where
  "dma_devices env [] = True"
| "dma_devices env (i # is) =
     (case ie_dma env i of
        (alloc, unsupported, dealloc) \<Rightarrow>
          if alloc \<noteq> ncclSuccess then False
          else if dealloc \<noteq> ncclSuccess then False
          else if unsupported then False
          else dma_devices env is)"

definition ibDmaBufSupportInitOnce :: "Ib_Env \<Rightarrow> nat \<Rightarrow> Ib_File \<Rightarrow> Ib_File" where
  "ibDmaBufSupportInitOnce env dev st =
     (let m = ncclIbMergedDevs st ! dev
      in st\<lparr>ncclIbMergedDevs := (ncclIbMergedDevs st)[dev :=
              m\<lparr>md_dmaBufSupported := if dma_devices env (take (md_ndevs m) (md_devs m)) then 1 else - 1\<rparr>]\<rparr>)"

definition ncclIbDmaBufSupport :: "Ib_Env \<Rightarrow> nat \<Rightarrow> Ib_File \<Rightarrow> ncclResult_t \<times> Ib_File" where
  "ncclIbDmaBufSupport env dev st =
     (let st1 = (if ib_dma_onces st ! dev then st
                 else (ibDmaBufSupportInitOnce env dev st)\<lparr>ib_dma_onces := (ib_dma_onces st)[dev := True]\<rparr>)
      in (if md_dmaBufSupported (ncclIbMergedDevs st1 ! dev) = 1 then ncclSuccess else ncclSystemError, st1))"

text \<open>A null path is the empty string. The latency 0 is all zero bits.\<close>

definition ncclIbGetProperties :: "Ib_Env \<Rightarrow> nat \<Rightarrow> Ib_File \<Rightarrow> ncclResult_t \<times> Props_v8 \<times> Ib_File" where
  "ncclIbGetProperties env dev st =
     (let m = ncclIbMergedDevs st ! dev; d = ncclIbDevs st ! (md_devs m ! 0);
          (gdr, st1) = ncclIbGdrSupport env st;
          (dma, st2) = ncclIbDmaBufSupport env dev st1;
          ptr1 = (if gdr = ncclSuccess then NCCL_PTR_HOST OR NCCL_PTR_CUDA else NCCL_PTR_HOST);
          ptr2 = (if dma = ncclSuccess then ptr1 OR NCCL_PTR_DMABUF else ptr1)
      in (ncclSuccess,
          \<lparr>p8_name = md_devName m, p8_pciPath = (case id_pciPath d of None \<Rightarrow> [] | Some p \<Rightarrow> p), p8_guid = id_guid d,
           p8_ptrSupport = ptr2, p8_regIsGlobal = 1, p8_speed = md_speed m, p8_port = int (id_portNum d) + id_realPort d,
           p8_latency = 0, p8_maxComms = id_maxQp d, p8_maxRecvs = int NCCL_NET_IB_MAX_RECVS,
           p8_netDeviceType = NCCL_NET_DEVICE_HOST, p8_netDeviceVersion = NCCL_NET_DEVICE_INVALID_VERSION\<rparr>, st2))"

section \<open>What initialisation finds\<close>

lemma firstBitSet_le: "firstBitSet val n \<le> n"
proof -
  have "first_bit_from val i n \<le> i + n" for i
    by (induction n arbitrary: i) (simp, metis add_Suc_shift first_bit_from.simps(2) le_add1 Suc_eq_plus1)
  from this [of 0] show ?thesis by (simp add: firstBitSet_def)
qed

definition ports_of :: "ncclIbMergedDev \<Rightarrow> nat list" where
  "ports_of m = take (md_ndevs m) (md_devs m)"

definition merged_devs :: "Ib_File \<Rightarrow> ncclIbMergedDev list" where
  "merged_devs st = take (nat (ncclNMergedIbDevs st)) (ncclIbMergedDevs st)"

definition same_card :: "ncclIbDev \<Rightarrow> ncclIbDev \<Rightarrow> bool" where
  "same_card d c \<longleftrightarrow> id_pciPath d = id_pciPath c \<and> id_guid d = id_guid c \<and> id_link d = id_link c"

definition nic_ok :: "bool \<Rightarrow> ncclIbDev list \<Rightarrow> ncclIbMergedDev \<Rightarrow> bool" where
  "nic_ok mg ds m \<longleftrightarrow>
     length (md_devs m) = 2 \<and> 1 \<le> md_ndevs m \<and> md_ndevs m \<le> 2 \<and> (\<not> mg \<longrightarrow> md_ndevs m = 1) \<and>
     md_speed m = sum_list (map (\<lambda>i. id_speed (ds ! i)) (ports_of m)) \<and>
     (\<forall>i\<in>set (ports_of m). same_card (ds ! i) (ds ! hd (ports_of m)))"

definition merge_inv :: "bool \<Rightarrow> Ib_File \<Rightarrow> bool" where
  "merge_inv mg st \<longleftrightarrow>
     length (ncclIbDevs st) = MAX_IB_DEVS \<and> length (ncclIbMergedDevs st) = MAX_IB_DEVS \<and>
     0 \<le> ncclNMergedIbDevs st \<and> ncclNMergedIbDevs st \<le> ncclNIbDevs st \<and> ncclNIbDevs st \<le> int MAX_IB_DEVS \<and>
     mset (concat (map ports_of (merged_devs st))) = mset [0..<nat (ncclNIbDevs st)] \<and>
     (\<forall>m\<in>set (merged_devs st). nic_ok mg (ncclIbDevs st) m) \<and>
     (\<forall>m\<in>set (drop (nat (ncclNMergedIbDevs st)) (ncclIbMergedDevs st)). md_speed m = 0 \<and> length (md_devs m) = 2)"

lemma merged_ports_lt:
  assumes "merge_inv mg st" "m \<in> set (merged_devs st)" "i \<in> set (ports_of m)"
  shows "i < nat (ncclNIbDevs st)"
proof -
  have "set (concat (map ports_of (merged_devs st))) = {0..<nat (ncclNIbDevs st)}"
    using assms(1) unfolding merge_inv_def by (metis set_mset_mset set_upt)
  then show ?thesis using assms(2,3) by fastforce
qed

lemma nic_ok_cong:
  assumes "\<forall>i\<in>set (ports_of m). ds ! i = ds1 ! i"
  shows "nic_ok mg ds m = nic_ok mg ds1 m"
proof (cases "ports_of m = []")
  case True
  then show ?thesis by (auto simp: nic_ok_def)
next
  case False
  then have "ds ! hd (ports_of m) = ds1 ! hd (ports_of m)" using assms by (simp add: hd_in_set)
  moreover have "sum_list (map (\<lambda>i. id_speed (ds ! i)) (ports_of m)) = sum_list (map (\<lambda>i. id_speed (ds1 ! i)) (ports_of m))"
    using assms by (intro arg_cong [where f = sum_list] map_cong) simp_all
  ultimately show ?thesis using assms by (simp add: nic_ok_def)
qed

lemma fill_keeps:
  assumes "merge_inv mg st"
  shows "merge_inv mg (st\<lparr>ncclIbDevs := (ncclIbDevs st)[nat (ncclNIbDevs st) := d]\<rparr>)"
proof -
  let ?st = "st\<lparr>ncclIbDevs := (ncclIbDevs st)[nat (ncclNIbDevs st) := d]\<rparr>"
  have "merged_devs ?st = merged_devs st" by (simp add: merged_devs_def)
  moreover have "nic_ok mg (ncclIbDevs ?st) m" if "m \<in> set (merged_devs st)" for m
  proof -
    have "\<forall>i\<in>set (ports_of m). ncclIbDevs ?st ! i = ncclIbDevs st ! i"
    proof
      fix i assume "i \<in> set (ports_of m)"
      then have "i < nat (ncclNIbDevs st)" by (rule merged_ports_lt [OF assms that])
      then show "ncclIbDevs ?st ! i = ncclIbDevs st ! i" by simp
    qed
    then have "nic_ok mg (ncclIbDevs ?st) m = nic_ok mg (ncclIbDevs st) m" by (rule nic_ok_cong)
    then show ?thesis using assms that by (simp add: merge_inv_def)
  qed
  ultimately show ?thesis using assms by (simp add: merge_inv_def)
qed

lemma new_keeps:
  assumes "merge_inv mg st" "ncclNIbDevs st < int MAX_IB_DEVS"
  shows "merge_inv mg (merge_dev (nat (ncclNIbDevs st)) (nat (ncclNMergedIbDevs st)) st)"
proof -
  let ?n = "nat (ncclNIbDevs st)" and ?k = "nat (ncclNMergedIbDevs st)"
  define m where "m = ncclIbMergedDevs st ! ?k"
  define m1 where "m1 = add_speed (ncclIbDevs st ! ?n) (new_merged ?n (ncclIbDevs st ! ?n) m)"
  let ?st = "merge_dev ?n ?k st"
  have k: "?k < length (ncclIbMergedDevs st)" "0 \<le> ncclNMergedIbDevs st" "0 \<le> ncclNIbDevs st" using assms by (auto simp: merge_inv_def)
  have st: "ncclIbMergedDevs ?st = (ncclIbMergedDevs st)[?k := m1]" "ncclNMergedIbDevs ?st = ncclNMergedIbDevs st + 1"
    "ncclNIbDevs ?st = ncclNIbDevs st + 1" "ncclIbDevs ?st = ncclIbDevs st"
    using k by (simp_all add: merge_dev_def m1_def m_def Let_def)
  have "m \<in> set (drop ?k (ncclIbMergedDevs st))" using k by (auto simp: m_def in_set_conv_nth intro!: exI [of _ 0])
  then have m: "md_speed m = 0" "length (md_devs m) = 2" using assms(1) by (auto simp: merge_inv_def)
  have p: "ports_of m1 = [?n]" using m(2) by (cases "md_devs m") (auto simp: m1_def ports_of_def add_speed_def new_merged_def)
  have ok: "nic_ok mg (ncclIbDevs st) m1" using m p by (simp add: nic_ok_def p) (simp add: m1_def add_speed_def new_merged_def same_card_def)
  have md: "merged_devs ?st = merged_devs st @ [m1]"
    using k by (simp add: merged_devs_def st nat_add_distrib take_Suc_conv_app_nth)
  have dr: "drop (nat (ncclNMergedIbDevs ?st)) (ncclIbMergedDevs ?st) = drop (Suc ?k) (ncclIbMergedDevs st)"
    using k by (simp add: st nat_add_distrib)
  have sub: "set (drop (Suc ?k) (ncclIbMergedDevs st)) \<subseteq> set (drop ?k (ncclIbMergedDevs st))" by (simp add: set_drop_subset_set_drop)
  show ?thesis
    using assms ok k unfolding merge_inv_def md dr
    using sub by (auto simp: st p nat_add_distrib)
qed

lemma join_keeps:
  assumes "merge_inv True st" "ncclNIbDevs st < int MAX_IB_DEVS" "k < nat (ncclNMergedIbDevs st)"
    "md_ndevs (ncclIbMergedDevs st ! k) < NCCL_IB_MAX_DEVS_PER_NIC"
    "same_card (ncclIbDevs st ! nat (ncclNIbDevs st)) (ncclIbDevs st ! (md_devs (ncclIbMergedDevs st ! k) ! 0))"
  shows "merge_inv True (merge_dev (nat (ncclNIbDevs st)) k st)"
proof -
  let ?n = "nat (ncclNIbDevs st)" and ?M = "merged_devs st"
  define m where "m = ncclIbMergedDevs st ! k"
  define m1 where "m1 = add_speed (ncclIbDevs st ! ?n) (join_merged ?n (ncclIbDevs st ! ?n) m)"
  let ?st = "merge_dev ?n k st"
  have st: "ncclIbMergedDevs ?st = (ncclIbMergedDevs st)[k := m1]" "ncclNMergedIbDevs ?st = ncclNMergedIbDevs st"
    "ncclNIbDevs ?st = ncclNIbDevs st + 1" "ncclIbDevs ?st = ncclIbDevs st"
    using assms(3) by (auto simp: merge_dev_def m1_def m_def Let_def)
  have k: "k < length ?M" "?M ! k = m" "0 \<le> ncclNIbDevs st" using assms(1,3) by (auto simp: merge_inv_def merged_devs_def m_def)
  then have okm: "nic_ok True (ncclIbDevs st) m" using assms(1) by (auto simp: merge_inv_def)
  then have m: "length (md_devs m) = 2" "md_ndevs m = 1" using assms(4) by (auto simp: nic_ok_def m_def NCCL_IB_MAX_DEVS_PER_NIC_def)
  then obtain a b where ab: "md_devs m = [a, b]" by (metis length_0_conv length_Suc_conv numeral_2_eq_2)
  have p: "ports_of m = [a]" "ports_of m1 = [a, ?n]"
    using m(2) by (simp_all add: ab ports_of_def m1_def add_speed_def join_merged_def)
  have ok: "nic_ok True (ncclIbDevs st) m1"
    using okm assms(5) m ab unfolding nic_ok_def p
    by (simp add: m1_def add_speed_def join_merged_def m_def [symmetric])
  have md: "merged_devs ?st = ?M[k := m1]" using assms(3) by (simp add: merged_devs_def st take_update_swap)
  have split: "?M = take k ?M @ m # drop (Suc k) ?M" using k by (metis id_take_nth_drop)
  have "mset (concat (map ports_of (?M[k := m1]))) = mset (concat (map ports_of ?M)) + {#?n#}"
    unfolding upd_conv_take_nth_drop [OF k(1)] by (subst (3) split) (simp add: p)
  then have ms: "mset (concat (map ports_of (merged_devs ?st))) = mset [0..<nat (ncclNIbDevs ?st)]"
    using assms(1) k(3) unfolding md by (simp add: merge_inv_def st nat_add_distrib)
  have dr: "drop (nat (ncclNMergedIbDevs ?st)) (ncclIbMergedDevs ?st) = drop (nat (ncclNMergedIbDevs st)) (ncclIbMergedDevs st)"
    using assms(3) by (simp add: st)
  show ?thesis
    using assms(1,2) ok ms unfolding merge_inv_def dr
    by (auto simp: st md dest!: set_update_subset_insert [THEN subsetD])
qed

lemma matching_from_found:
  "matching_from st dev is = Some k \<Longrightarrow>
     k = nat (ncclNMergedIbDevs st) \<or>
     k \<in> set is \<and> md_ndevs (ncclIbMergedDevs st ! k) < NCCL_IB_MAX_DEVS_PER_NIC \<and>
     same_card (ncclIbDevs st ! dev) (ncclIbDevs st ! (md_devs (ncclIbMergedDevs st ! k) ! 0))"
  by (induction "is")
    (auto simp: Let_def same_card_def strcmp_eq_def split: if_splits option.splits)

lemma add_port_keeps:
  assumes "add_port env mg d hca attr p pa st = Some st1" "merge_inv mg st" "ncclNIbDevs st < int MAX_IB_DEVS"
  shows "merge_inv mg st1 \<and> ncclNIbDevs st1 = ncclNIbDevs st + 1"
proof -
  let ?n = "nat (ncclNIbDevs st)"
  obtain path where path: "ncclIbGetPciPath env st (take MAXNAMESIZE (card_name hca)) (id_realPort (ncclIbDevs st ! ?n)) = Some path"
    using assms(1) by (auto simp: add_port_def Let_def split: option.splits)
  define st0 where "st0 = st\<lparr>ncclIbDevs := (ncclIbDevs st)[?n := fill_dev env d hca attr p pa path (ncclIbDevs st ! ?n)]\<rparr>"
  obtain k where a: "(if mg then ncclIbFindMatchingDev st0 ?n else Some (nat (ncclNMergedIbDevs st))) = Some k" "st1 = merge_dev ?n k st0"
    using assms(1) unfolding add_port_def Let_def path st0_def by (auto split: option.splits if_splits)
  have inv: "merge_inv mg st0" using fill_keeps [OF assms(2)] by (simp add: st0_def)
  have c: "ncclNIbDevs st0 = ncclNIbDevs st" "ncclNMergedIbDevs st0 = ncclNMergedIbDevs st" by (simp_all add: st0_def)
  have "ncclNIbDevs st1 = ncclNIbDevs st + 1" by (simp add: a(2) merge_dev_def Let_def c)
  moreover have "merge_inv mg st1"
  proof (cases "k = nat (ncclNMergedIbDevs st)")
    case True
    then show ?thesis using new_keeps [OF inv] assms(3) a(2) c by simp
  next
    case False
    then have mg: mg using a(1) by (auto split: if_splits)
    then have "matching_from st0 ?n [0..<nat (ncclNMergedIbDevs st0)] = Some k" using a(1) by (simp add: ncclIbFindMatchingDev_def)
    from matching_from_found [OF this] False
    have "k < nat (ncclNMergedIbDevs st0)" "md_ndevs (ncclIbMergedDevs st0 ! k) < NCCL_IB_MAX_DEVS_PER_NIC"
      "same_card (ncclIbDevs st0 ! ?n) (ncclIbDevs st0 ! (md_devs (ncclIbMergedDevs st0 ! k) ! 0))" by (auto simp: c)
    then show ?thesis using join_keeps [of st0 k] inv mg assms(3) a(2) c by simp
  qed
  ultimately show ?thesis by blast
qed

lemma port_loop_keeps:
  "port_loop env mg d hca attr ps n st = Some (n1, st1) \<Longrightarrow> merge_inv mg st \<Longrightarrow>
     ncclNIbDevs st + int (length ps) \<le> int MAX_IB_DEVS \<Longrightarrow>
     merge_inv mg st1 \<and> ncclNIbDevs st1 \<le> ncclNIbDevs st + int (length ps)"
proof (induction ps arbitrary: n st)
  case (Cons p ps)
  show ?case
  proof (cases "\<exists>pa st0. card_port hca p = Some pa \<and> add_port env mg d hca attr p pa st = Some st0 \<and>
      port_loop env mg d hca attr ps (n + 1) st0 = Some (n1, st1)")
    case True
    then obtain pa st0 where a: "add_port env mg d hca attr p pa st = Some st0" "port_loop env mg d hca attr ps (n + 1) st0 = Some (n1, st1)"
      by blast
    then show ?thesis using Cons.IH [OF a(2)] add_port_keeps [OF a(1)] Cons.prems by fastforce
  next
    case False
    then have "port_loop env mg d hca attr ps n st = Some (n1, st1)" using Cons.prems(1) by (auto split: option.splits if_splits)
    then show ?thesis using Cons.IH [of n st] Cons.prems by simp
  qed
qed simp

definition card_ports :: "Ib_Card list \<Rightarrow> nat" where
  "card_ports cards = sum_list (map (\<lambda>c. case card_attr c of None \<Rightarrow> 0 | Some a \<Rightarrow> fst (snd a)) cards)"

lemma card_loop_keeps:
  "card_loop env mg d cards st = Some (res, st1) \<Longrightarrow> merge_inv mg st \<Longrightarrow>
     ncclNIbDevs st + int (card_ports cards) \<le> int MAX_IB_DEVS \<Longrightarrow> merge_inv mg st1"
proof (induction cards arbitrary: d st)
  case (Cons c cs)
  have sum: "card_ports (c # cs) = (case card_attr c of None \<Rightarrow> 0 | Some a \<Rightarrow> fst (snd a)) + card_ports cs" by (simp add: card_ports_def)
  show ?case
  proof (cases "\<exists>attr n st0. card_attr c = Some attr \<and> port_loop env mg d c attr [1..<fst (snd attr) + 1] 0 st = Some (n, st0) \<and>
      (st1 = st0 \<or> card_loop env mg (d + 1) cs st0 = Some (res, st1))")
    case True
    then obtain attr n st0 where a: "card_attr c = Some attr" "port_loop env mg d c attr [1..<fst (snd attr) + 1] 0 st = Some (n, st0)"
        "st1 = st0 \<or> card_loop env mg (d + 1) cs st0 = Some (res, st1)" by blast
    have "length [1..<fst (snd attr) + 1] = fst (snd attr)" by simp
    then show ?thesis
      using a port_loop_keeps [OF a(2) Cons.prems(2)] Cons.IH [of "d + 1" st0] Cons.prems(3) by (auto simp: sum simp del: upt_Suc)
  next
    case False
    then have "st1 = st \<or> card_loop env mg (d + 1) cs st = Some (res, st1)"
      using Cons.prems(1) by (auto split: option.splits if_splits)
    then show ?thesis using Cons.IH [of "d + 1" st] Cons.prems by (auto simp: sum)
  qed
qed simp

lemma merge_inv_start:
  assumes "length (ncclIbDevs st) = MAX_IB_DEVS"
  shows "merge_inv mg (st\<lparr>ncclNIbDevs := 0, ncclNMergedIbDevs := 0, ncclIbMergedDevs := replicate MAX_IB_DEVS zero_merged\<rparr>)"
  using assms by (simp add: merge_inv_def merged_devs_def zero_merged_def)

definition uniform_ports :: "Ib_File \<Rightarrow> bool" where
  "uniform_ports st \<longleftrightarrow> (\<forall>m\<in>set (merged_devs st). \<forall>m1\<in>set (merged_devs st). md_ndevs m = md_ndevs m1)"

lemma unmerged_uniform: "merge_inv False st \<Longrightarrow> uniform_ports st"
  by (auto simp: merge_inv_def uniform_ports_def nic_ok_def)

lemma unmerged_merge: "merge_inv False st \<Longrightarrow> merge_inv mg st"
  by (auto simp: merge_inv_def nic_ok_def)

lemma build_ib_list_keeps:
  assumes "build_ib_list env st = Some (ncclSuccess, st1)" "card_ports (snd (ie_cards env)) \<le> MAX_IB_DEVS"
    "merge_inv (ie_merge_nics env) st" "ncclNIbDevs st = 0"
  shows "merge_inv (ie_merge_nics env) st1 \<and> uniform_ports st1"
proof -
  obtain res st2 where c: "card_loop env (ie_merge_nics env) 0 (snd (ie_cards env)) st = Some (res, st2)"
    using assms(1) by (auto simp: build_ib_list_def split: option.splits)
  have i2: "merge_inv (ie_merge_nics env) st2" using card_loop_keeps [OF c assms(3)] assms(2,4) by simp
  show ?thesis
  proof (cases "res = ncclSuccess \<and> ie_merge_nics env \<and> mixed_ports st2")
    case True
    let ?z = "st2\<lparr>ncclNIbDevs := 0, ncclNMergedIbDevs := 0, ncclIbMergedDevs := replicate MAX_IB_DEVS zero_merged\<rparr>"
    have "card_loop env False 0 (snd (ie_cards env)) ?z = Some (ncclSuccess, st1)" using assms(1) c True by (simp add: build_ib_list_def)
    moreover have "merge_inv False ?z" using i2 by (intro merge_inv_start) (simp add: merge_inv_def)
    ultimately have "merge_inv False st1" using card_loop_keeps [of env False 0 _ ?z] assms(2) by simp
    then show ?thesis using unmerged_merge unmerged_uniform by blast
  next
    case False
    have "Some (res, st2) = Some (ncclSuccess, st1)"
      using assms(1) by (simp only: build_ib_list_def c option.case prod.case if_not_P [OF False])
    then have s: "st1 = st2" "res = ncclSuccess" by simp_all
    have "uniform_ports st2"
    proof (cases "ie_merge_nics env")
      case True
      then have "\<not> mixed_ports st2" using False s by blast
      then show ?thesis by (auto simp: mixed_ports_def uniform_ports_def merged_devs_def)
    qed (use i2 unmerged_uniform in auto)
    then show ?thesis using i2 s by simp
  qed
qed

lemma ib_init_built:
  assumes "ncclIbInit env st = Some (ncclSuccess, st1)" "ncclNIbDevs st = - 1"
  shows "\<exists>st0. build_ib_list env (st\<lparr>ncclNIbDevs := 0, ncclNMergedIbDevs := 0, ncclIbIf := Some (hd (ie_found env))\<rparr>) =
      Some (ncclSuccess, st0) \<and> (\<exists>b. st1 = st0\<lparr>ncclIbRelaxedOrderingEnabled := b\<rparr>)"
proof -
  let ?st = "st\<lparr>ncclNIbDevs := 0, ncclNMergedIbDevs := 0, ncclIbIf := Some (hd (ie_found env))\<rparr>"
  obtain res st0 where b: "build_ib_list env ?st = Some (res, st0)"
    using assms by (auto simp: ncclIbInit_def Let_def split: if_splits option.splits)
  then have "res = ncclSuccess" "st1 = st0 \<or> st1 = st0\<lparr>ncclIbRelaxedOrderingEnabled := ncclIbRelaxedOrderingCapable env\<rparr>"
    using assms by (auto simp: ncclIbInit_def Let_def split: if_splits)
  moreover have "st0 = st0\<lparr>ncclIbRelaxedOrderingEnabled := ncclIbRelaxedOrderingEnabled st0\<rparr>" by simp
  ultimately show ?thesis using b by metis
qed

lemma ib_init_inv:
  assumes "ncclIbInit env st = Some (ncclSuccess, st1)"
    "ncclNIbDevs st = - 1 \<and> length (ncclIbDevs st) = MAX_IB_DEVS \<and> ncclIbMergedDevs st = replicate MAX_IB_DEVS zero_merged"
    "card_ports (snd (ie_cards env)) \<le> MAX_IB_DEVS"
  shows "merge_inv (ie_merge_nics env) st1 \<and> uniform_ports st1"
proof -
  define st2 where "st2 = st\<lparr>ncclNIbDevs := 0, ncclNMergedIbDevs := 0, ncclIbIf := Some (hd (ie_found env))\<rparr>"
  obtain st0 c where b: "build_ib_list env st2 = Some (ncclSuccess, st0)" "st1 = st0\<lparr>ncclIbRelaxedOrderingEnabled := c\<rparr>"
    using ib_init_built [OF assms(1)] assms(2) unfolding st2_def by blast
  have "merge_inv (ie_merge_nics env) st2" "ncclNIbDevs st2 = 0"
    using assms(2) by (simp_all add: merge_inv_def merged_devs_def st2_def zero_merged_def)
  note r = build_ib_list_keeps [OF b(1) assms(3) this]
  have "merge_inv mg st1 = merge_inv mg st0" "uniform_ports st1 = uniform_ports st0" for mg
    by (simp_all add: b(2) merge_inv_def uniform_ports_def merged_devs_def)
  then show ?thesis using r by blast
qed

lemma fresh_file:
  "ncclNIbDevs fresh_ib_file = - 1 \<and> length (ncclIbDevs fresh_ib_file) = MAX_IB_DEVS \<and>
   ncclIbMergedDevs fresh_ib_file = replicate MAX_IB_DEVS zero_merged"
  by (simp add: fresh_ib_file_def)

text \<open>When the cards have at most 32 ports in all, a successful initialisation puts every port it accepts into exactly one
  device. The ports of a device belong to the same card (path, system image and link layer agree), there are one or
  two of them, the same number in all devices and one where merging is turned off, and the speed of the device is the sum of theirs.\<close>

theorem ib_init_partitions_ports:
  assumes "ncclIbInit env fresh_ib_file = Some (ncclSuccess, st)" "card_ports (snd (ie_cards env)) \<le> MAX_IB_DEVS"
  shows "mset (concat (map ports_of (merged_devs st))) = mset [0..<nat (ncclNIbDevs st)] \<and> ncclNIbDevs st \<le> int MAX_IB_DEVS \<and>
    (\<forall>m\<in>set (merged_devs st).
       1 \<le> md_ndevs m \<and> md_ndevs m \<le> (if ie_merge_nics env then 2 else 1) \<and>
       md_speed m = sum_list (map (\<lambda>i. id_speed (ncclIbDevs st ! i)) (ports_of m)) \<and>
       (\<forall>i\<in>set (ports_of m). same_card (ncclIbDevs st ! i) (ncclIbDevs st ! hd (ports_of m))) \<and>
       (\<forall>m1\<in>set (merged_devs st). md_ndevs m = md_ndevs m1))"
proof -
  have i: "merge_inv (ie_merge_nics env) st" and u: "uniform_ports st"
    using ib_init_inv [OF assms(1) fresh_file assms(2)] by blast+
  have "nic_ok (ie_merge_nics env) (ncclIbDevs st) m" if "m \<in> set (merged_devs st)" for m
    using i that by (simp add: merge_inv_def)
  then have "\<forall>m\<in>set (merged_devs st). 1 \<le> md_ndevs m \<and> md_ndevs m \<le> (if ie_merge_nics env then 2 else 1) \<and>
      md_speed m = sum_list (map (\<lambda>i. id_speed (ncclIbDevs st ! i)) (ports_of m)) \<and>
      (\<forall>i\<in>set (ports_of m). same_card (ncclIbDevs st ! i) (ncclIbDevs st ! hd (ports_of m)))"
    by (simp add: nic_ok_def)
  then show ?thesis using i u unfolding merge_inv_def uniform_ports_def by blast
qed

text \<open>Two cards with two ports each.\<close>

definition example_port :: ib_port_attr where
  "example_port = \<lparr>pa_active = True, pa_link = IBV_LINK_LAYER_ETHERNET, pa_speed = 32, pa_width = 2, pa_lid = 0,
     pa_gid_tbl_len = 4, pa_mtu = 5\<rparr>"

definition example_card :: "string \<Rightarrow> u64 \<Rightarrow> nat \<Rightarrow> Ib_Card" where
  "example_card name guid ports =
     \<lparr>card_name = name, card_opens = True, card_closes = True, card_attr = Some (guid, ports, 1000), card_port = (\<lambda>p. Some example_port)\<rparr>"

definition example_ib_env :: "bool \<Rightarrow> (string \<Rightarrow> string option) \<Rightarrow> Ib_Card list \<Rightarrow> Ib_Env" where
  "example_ib_env mg path cards =
     \<lparr>ie_disable = False, ie_symbols = ncclSuccess, ie_found = [(''eth0'', zero_addr)], ie_hca = None,
      ie_wanted = (\<lambda>e x n p. True), ie_cards = (ncclSuccess, cards), ie_free_list = ncclSuccess, ie_merge_nics = mg,
      ie_merge_vfs = True, ie_adaptive_routing = - 2, ie_realpath = path, ie_relaxed_ordering = 2,
      ie_reg_mr_iova2 = ncclSuccess, ie_modules = (False, False, True), ie_dma = (\<lambda>i. (ncclSuccess, False, ncclSuccess))\<rparr>"

definition two_cards :: Ib_Env where
  "two_cards = example_ib_env True Some [example_card ''mlx5_0'' 7 2, example_card ''mlx5_1'' 8 2]"

lemma two_cards_found:
  "map_option (\<lambda>(res, st). (res, ncclNIbDevs st, map ports_of (merged_devs st))) (ncclIbInit two_cards fresh_ib_file) =
     Some (ncclSuccess, 4, [[0, 1], [2, 3]])"
  by code_simp

theorem ib_init_partitions_ports_witness:
  "\<exists>st. ncclIbInit two_cards fresh_ib_file = Some (ncclSuccess, st) \<and> length (merged_devs st) = 2 \<and>
     (\<forall>m\<in>set (merged_devs st). md_speed m = sum_list (map (\<lambda>i. id_speed (ncclIbDevs st ! i)) (ports_of m)))"
proof -
  obtain st where st: "ncclIbInit two_cards fresh_ib_file = Some (ncclSuccess, st)" "map ports_of (merged_devs st) = [[0, 1], [2, 3]]"
    using two_cards_found by auto
  have "card_ports (snd (ie_cards two_cards)) \<le> MAX_IB_DEVS" by code_simp
  with ib_init_partitions_ports [OF st(1)] have
    "\<forall>m\<in>set (merged_devs st). md_speed m = sum_list (map (\<lambda>i. id_speed (ncclIbDevs st ! i)) (ports_of m))" by blast
  moreover have "length (merged_devs st) = 2" using arg_cong [OF st(2), of length] by simp
  ultimately show ?thesis using st(1) by blast
qed

text \<open>The number of devices is compared with the size of the array before each card, not before each port: a card with
  33 ports writes past the array.\<close>

theorem ports_overrun_devices:
  "map_option (\<lambda>(res, st). (res, ncclNIbDevs st)) (ncclIbInit (example_ib_env False Some [example_card ''mlx5_0'' 7 33]) fresh_ib_file) =
     Some (ncclSuccess, 33)"
  by code_simp

text \<open>A card whose directory cannot be resolved leaves a null path, which the search for a matching device hands to \<open>strcmp\<close>.\<close>

theorem null_path_kills:
  "ncclIbInit (example_ib_env True (\<lambda>p. None) [example_card ''mlx5_0'' 7 2]) fresh_ib_file = None"
  by code_simp

text \<open>A failing initialisation sets the counter, so that a second call reports success with no device.\<close>

theorem failed_ib_init_then_succeeds:
  assumes "\<not> ie_disable env" "ie_symbols env = ncclSuccess" "ncclNIbDevs st = - 1" "ie_found env = []"
  shows "\<exists>st1. ncclIbInit env st = Some (ncclInternalError, st1) \<and> ncclIbInit env st1 = Some (ncclSuccess, st1)"
  using assms by (simp add: ncclIbInit_def)

section \<open>Fatal events\<close>

lemma async_counts_up: "stats s \<le> ncclIbAsyncThreadMain dev as stats s"
proof (induction as arbitrary: stats)
  case (Cons a as)
  have "stats s \<le> handle_event dev a stats s"
    by (simp add: handle_event_def count_fatal_def ncclIbStatsFatalError_def split: ib_event.split)
  then show ?case using Cons [of "handle_event dev a stats"] by (auto simp: Let_def)
qed simp

text \<open>Once the event thread has seen a fatal event on a queue pair of a communicator, every later send, receive and test on
  it is refused, whatever other events follow.\<close>

theorem fatal_event_stops_communicator:
  assumes "aa_get a" "aa_str a" "aa_event a \<in> {IBV_EVENT_QP_FATAL, IBV_EVENT_QP_REQ_ERR, IBV_EVENT_QP_ACCESS_ERR}"
    "0 \<le> stats (Stats_Comm (aa_qp a))" "IbAsyncEvents pa"
    "nb_fatal sc = ncclIbAsyncThreadMain dev (a # as) stats (Stats_Comm (aa_qp a))" "nb_ready sc"
    "nb_fatal rc = nb_fatal sc" "nb_ready rc" "length vs \<le> NCCL_NET_IB_MAX_RECVS"
  shows "ncclIbIsend divup pa sc data sz tag mhandle ib = Some (ncclSystemError, None, sc, ib) \<and>
    ncclIbIrecv pa rc vs ib = (ncclSystemError, None, rc, ib) \<and>
    ncclIbTest pa i sc ib = (ncclSystemError, False, [], sc, ib) \<and> ncclIbTest pa i rc ib = (ncclSystemError, False, [], rc, ib)"
proof -
  have "1 \<le> handle_event dev a stats (Stats_Comm (aa_qp a))"
    using assms(3,4) by (auto simp: handle_event_def count_fatal_def ncclIbStatsFatalError_def)
  then have "1 \<le> nb_fatal sc"
    using assms(1,2,6) async_counts_up [of "handle_event dev a stats" "Stats_Comm (aa_qp a)" dev as] by (auto simp: Let_def)
  then have "ncclIbStatsCheckFatalCount pa (nb_fatal sc) = ncclSystemError" "ncclSystemError \<noteq> ncclSuccess"
    using assms(5) by (simp_all add: ncclIbStatsCheckFatalCount_def)
  then show ?thesis
    using assms(7-10) by (simp add: ncclIbIsend_def ncclIbIrecv_def ncclIbTest.simps)
qed

end
