(* ===== verification/IbQps.thy ===== *)
theory IbQps
  imports IbDevices "HOL-Library.Multiset"
begin

text \<open>
  What a connection of \<^verbatim>\<open>nccl_internal_impl/net_ib.cc\<close> is made of: protection domains shared by the users of a device, completion
  queues, queue pairs and their way through the states, and the data two sides tell each other. The verbs library is the record
  \<open>Verbs\<close>: what is alive in it, the changes of state it has been asked for, and its answers (a missing one is success). Its objects are
  numbers that are never used twice.
\<close>

section \<open>The library\<close>

datatype ib_access = IBV_ACCESS_LOCAL_WRITE | IBV_ACCESS_REMOTE_WRITE | IBV_ACCESS_REMOTE_READ

text \<open>The attributes of the change to ready-to-receive; the address handle's members start with \<open>ra_is_global\<close>.\<close>

record rtr_attr =
  ra_path_mtu :: nat
  ra_dest_qp_num :: u32
  ra_rq_psn :: nat
  ra_max_dest_rd_atomic :: nat
  ra_min_rnr_timer :: nat
  ra_is_global :: bool
  ra_dgid :: "u32 list"
  ra_flow_label :: nat
  ra_sgid_index :: int
  ra_hop_limit :: nat
  ra_traffic_class :: u8
  ra_dlid :: "16 word"
  ra_sl :: u8
  ra_src_path_bits :: nat
  ra_port_num :: nat

text \<open>To initialised: key index, port and access. To ready-to-send: timeout, retry count, and the constants for the retries when the
  receiver is not ready, the first sequence number and the outstanding reads.\<close>

datatype qp_mod =
    To_Init int nat "ib_access list"
  | To_Rtr rtr_attr
  | To_Rts int int nat nat nat

record Verbs =
  vb_answers :: "ncclResult_t list"
  vb_fresh :: nat
  vb_pds :: "nat list"
  vb_cqs :: "nat list"
  vb_qps :: "nat list"
  vb_mrs :: "nat list"
  vb_mods :: "(nat \<times> qp_mod) list"

definition vb_call :: "Verbs \<Rightarrow> ncclResult_t \<times> Verbs" where
  "vb_call vb = (case vb_answers vb of [] \<Rightarrow> (ncclSuccess, vb) | a # as \<Rightarrow> (a, vb\<lparr>vb_answers := as\<rparr>))"

definition wrap_ibv_alloc_pd :: "Verbs \<Rightarrow> ncclResult_t \<times> nat option \<times> Verbs" where
  "wrap_ibv_alloc_pd vb =
     (let (res, vb1) = vb_call vb; n = vb_fresh vb1
      in if res \<noteq> ncclSuccess then (res, None, vb1)
         else (ncclSuccess, Some n, vb1\<lparr>vb_fresh := n + 1, vb_pds := n # vb_pds vb1\<rparr>))"

definition wrap_ibv_create_cq :: "Verbs \<Rightarrow> ncclResult_t \<times> nat option \<times> Verbs" where
  "wrap_ibv_create_cq vb =
     (let (res, vb1) = vb_call vb; n = vb_fresh vb1
      in if res \<noteq> ncclSuccess then (res, None, vb1)
         else (ncclSuccess, Some n, vb1\<lparr>vb_fresh := n + 1, vb_cqs := n # vb_cqs vb1\<rparr>))"

definition wrap_ibv_create_qp :: "Verbs \<Rightarrow> ncclResult_t \<times> nat option \<times> Verbs" where
  "wrap_ibv_create_qp vb =
     (let (res, vb1) = vb_call vb; n = vb_fresh vb1
      in if res \<noteq> ncclSuccess then (res, None, vb1)
         else (ncclSuccess, Some n, vb1\<lparr>vb_fresh := n + 1, vb_qps := n # vb_qps vb1\<rparr>))"

definition vb_reg_mr :: "Verbs \<Rightarrow> ncclResult_t \<times> nat option \<times> Verbs" where
  "vb_reg_mr vb =
     (let (res, vb1) = vb_call vb; n = vb_fresh vb1
      in if res \<noteq> ncclSuccess then (res, None, vb1)
         else (ncclSuccess, Some n, vb1\<lparr>vb_fresh := n + 1, vb_mrs := n # vb_mrs vb1\<rparr>))"

definition wrap_ibv_modify_qp :: "nat \<Rightarrow> qp_mod \<Rightarrow> Verbs \<Rightarrow> ncclResult_t \<times> Verbs" where
  "wrap_ibv_modify_qp qp m vb =
     (let (res, vb1) = vb_call vb
      in (res, if res = ncclSuccess then vb1\<lparr>vb_mods := vb_mods vb1 @ [(qp, m)]\<rparr> else vb1))"

text \<open>Destroying: an object that cannot be destroyed stays alive.\<close>

definition wrap_ibv_dealloc_pd :: "nat option \<Rightarrow> Verbs \<Rightarrow> ncclResult_t \<times> Verbs" where
  "wrap_ibv_dealloc_pd pd vb =
     (let (res, vb1) = vb_call vb
      in (res, if res = ncclSuccess then vb1\<lparr>vb_pds := filter (\<lambda>p. Some p \<noteq> pd) (vb_pds vb1)\<rparr> else vb1))"

definition wrap_ibv_destroy_cq :: "nat option \<Rightarrow> Verbs \<Rightarrow> ncclResult_t \<times> Verbs" where
  "wrap_ibv_destroy_cq cq vb =
     (let (res, vb1) = vb_call vb
      in (res, if res = ncclSuccess then vb1\<lparr>vb_cqs := filter (\<lambda>c. Some c \<noteq> cq) (vb_cqs vb1)\<rparr> else vb1))"

definition wrap_ibv_destroy_qp :: "nat \<Rightarrow> Verbs \<Rightarrow> ncclResult_t \<times> Verbs" where
  "wrap_ibv_destroy_qp qp vb =
     (let (res, vb1) = vb_call vb
      in (res, if res = ncclSuccess then vb1\<lparr>vb_qps := filter (\<lambda>q. q \<noteq> qp) (vb_qps vb1)\<rparr> else vb1))"

definition vb_dereg_mr :: "nat \<Rightarrow> Verbs \<Rightarrow> ncclResult_t \<times> Verbs" where
  "vb_dereg_mr mr vb =
     (let (res, vb1) = vb_call vb
      in (res, if res = ncclSuccess then vb1\<lparr>vb_mrs := filter (\<lambda>m. m \<noteq> mr) (vb_mrs vb1)\<rparr> else vb1))"

section \<open>The base of a device\<close>

record ncclIbGidInfo =
  gi_link :: ib_link
  gi_localGid :: "u32 list"
  gi_localGidIndex :: int

record ncclIbNetCommDevBase =
  db_ibDevN :: nat
  db_pd :: "nat option"
  db_cq :: "nat option"
  db_gidInfo :: ncclIbGidInfo

definition zero_base :: ncclIbNetCommDevBase where
  "zero_base = \<lparr>db_ibDevN = 0, db_pd = None, db_cq = None,
     db_gidInfo = \<lparr>gi_link = IBV_LINK_LAYER_UNSPECIFIED, gi_localGid = [0, 0, 0, 0], gi_localGidIndex = 0\<rparr>\<rparr>"

definition set_dev :: "nat \<Rightarrow> ncclIbDev \<Rightarrow> Ib_File \<Rightarrow> Ib_File" where
  "set_dev i d fl = fl\<lparr>ncclIbDevs := (ncclIbDevs fl)[i := d]\<rparr>"

definition ncclIbInitCommDevBase ::
  "nat \<Rightarrow> ncclIbNetCommDevBase \<Rightarrow> Ib_File \<Rightarrow> Verbs \<Rightarrow> ncclResult_t \<times> ncclIbNetCommDevBase \<times> Ib_File \<times> Verbs" where
  "ncclIbInitCommDevBase ibDevN base fl vb =
     (let b0 = base\<lparr>db_ibDevN := ibDevN\<rparr>; d = ncclIbDevs fl ! ibDevN;
          d1 = d\<lparr>id_pdRefs := id_pdRefs d + 1\<rparr>;
          (res, d2, vb1) = (if id_pdRefs d = 0
                            then case wrap_ibv_alloc_pd vb of (r, pd, v) \<Rightarrow> (r, d1\<lparr>id_pd := pd\<rparr>, v)
                            else (ncclSuccess, d1, vb));
          fl1 = set_dev ibDevN d2 fl
      in if res \<noteq> ncclSuccess then (res, b0, fl1, vb1)
         else let b1 = b0\<lparr>db_pd := id_pd d2\<rparr>; (res1, cq, vb2) = wrap_ibv_create_cq vb1
              in if res1 \<noteq> ncclSuccess then (res1, b1, fl1, vb2) else (ncclSuccess, b1\<lparr>db_cq := cq\<rparr>, fl1, vb2))"

definition ncclIbDestroyBase :: "ncclIbNetCommDevBase \<Rightarrow> Ib_File \<Rightarrow> Verbs \<Rightarrow> ncclResult_t \<times> Ib_File \<times> Verbs" where
  "ncclIbDestroyBase base fl vb =
     (let (res, vb1) = wrap_ibv_destroy_cq (db_cq base) vb
      in if res \<noteq> ncclSuccess then (res, fl, vb1)
         else let d = ncclIbDevs fl ! db_ibDevN base; d1 = d\<lparr>id_pdRefs := id_pdRefs d - 1\<rparr>; fl1 = set_dev (db_ibDevN base) d1 fl
              in if id_pdRefs d1 = 0 then case wrap_ibv_dealloc_pd (id_pd d1) vb1 of (res1, vb2) \<Rightarrow> (res1, fl1, vb2)
                 else (ncclSuccess, fl1, vb1))"

section \<open>Queue pairs\<close>

record ibv_ece =
  ece_vendor_id :: u32
  ece_options :: u32
  ece_comp_mask :: u32

record ncclIbQpInfo =
  qi_qpn :: u32
  qi_ece :: ibv_ece
  qi_ece_supported :: int
  qi_devIndex :: nat

record ncclIbDevInfo =
  di_lid :: u32
  di_ib_port :: nat
  di_mtu :: nat
  di_link_layer :: ib_link
  di_gid :: "u32 list"
  di_fifoRkey :: u32
  di_remoteGid :: "u32 list"

record ncclIbConnectionMetadata =
  mt_qpInfo :: "ncclIbQpInfo list"
  mt_devs :: "ncclIbDevInfo list"
  mt_devName :: string
  mt_fifoAddr :: u64
  mt_ndevs :: int

text \<open>The parameters, what the library says of an object (the number of a queue pair, the keys of a region, the ECE of a queue
  pair when asked, the flag left by setting one), the ports, and the addresses of the rings of a communicator.\<close>

record Conn_Env =
  ce_ib :: Ib_Env
  ce_inet_pton :: "nat \<Rightarrow> string \<Rightarrow> u32 list option"
  ce_getenv :: "string \<Rightarrow> string option"
  ce_gid_params :: Gid_Params
  ce_port :: "nat \<Rightarrow> Gid_Port"
  ce_QpsPerConn :: int
  ce_EceEnable :: bool
  ce_UseInline :: bool
  ce_Pkey :: int
  ce_Tc :: int
  ce_FifoTc :: int
  ce_Sl :: int
  ce_Timeout :: int
  ce_RetryCnt :: int
  ce_GdrFlushDisable :: bool
  ce_qp_num :: "nat \<Rightarrow> u32"
  ce_lkey :: "nat \<Rightarrow> u32"
  ce_rkey :: "nat \<Rightarrow> u32"
  ce_query_ece :: "nat \<Rightarrow> ibv_ece \<times> int"
  ce_set_ece :: "nat \<Rightarrow> ibv_ece \<Rightarrow> int"
  ce_junk_ece :: "nat \<Rightarrow> ibv_ece \<times> int"
  ce_fifo :: u64
  ce_sizes :: u64
  ce_flushMem :: u64
  ce_pack :: "ncclIbConnectionMetadata \<Rightarrow> u8 list"
  ce_unpack :: "u8 list \<Rightarrow> ncclIbConnectionMetadata"
  ce_metaSize :: nat

definition ncclIbCreateQp ::
  "Conn_Env \<Rightarrow> nat \<Rightarrow> ncclIbNetCommDevBase \<Rightarrow> ib_access list \<Rightarrow> Verbs \<Rightarrow> ncclResult_t \<times> nat \<times> Verbs" where
  "ncclIbCreateQp ce ib_port base access_flags vb =
     (case wrap_ibv_create_qp vb of
        (res, None, vb1) \<Rightarrow> (res, 0, vb1)
      | (_, Some qp, vb1) \<Rightarrow>
          case wrap_ibv_modify_qp qp (To_Init (ce_Pkey ce) ib_port access_flags) vb1 of (res, vb2) \<Rightarrow> (res, qp, vb2))"

text \<open>The attributes start as zero; the two branches fill the address handle.\<close>

definition zero_rtr :: rtr_attr where
  "zero_rtr = \<lparr>ra_path_mtu = 0, ra_dest_qp_num = 0, ra_rq_psn = 0, ra_max_dest_rd_atomic = 0, ra_min_rnr_timer = 0,
     ra_is_global = False, ra_dgid = [0, 0, 0, 0], ra_flow_label = 0, ra_sgid_index = 0, ra_hop_limit = 0, ra_traffic_class = 0,
     ra_dlid = 0, ra_sl = 0, ra_src_path_bits = 0, ra_port_num = 0\<rparr>"

definition rtr_attributes :: "Conn_Env \<Rightarrow> ncclIbGidInfo \<Rightarrow> u32 \<Rightarrow> ncclIbDevInfo \<Rightarrow> bool \<Rightarrow> rtr_attr" where
  "rtr_attributes ce sGidInfo dest_qp_num info override_tc =
     (let a = zero_rtr\<lparr>ra_path_mtu := di_mtu info, ra_dest_qp_num := dest_qp_num, ra_rq_psn := 0, ra_max_dest_rd_atomic := 1,
                       ra_min_rnr_timer := 12\<rparr>;
          global = (\<lambda>a. a\<lparr>ra_is_global := True, ra_dgid := di_gid info, ra_sgid_index := gi_localGidIndex sGidInfo, ra_hop_limit := 255\<rparr>);
          b = (if di_link_layer info = IBV_LINK_LAYER_ETHERNET
               then (global a)\<lparr>ra_flow_label := 0,
                      ra_traffic_class := word_of_int (if ce_FifoTc ce \<noteq> 0 \<and> override_tc then ce_FifoTc ce else ce_Tc ce)\<rparr>
               else if ncclIbExtractLocalSubnetPrefix (gi_localGid sGidInfo) = ncclIbExtractLocalSubnetPrefix (di_gid info)
               then a\<lparr>ra_is_global := False, ra_dlid := ucast (di_lid info)\<rparr>
               else let flid = ncclIbExtractFlid (di_gid info)
                    in (global a)\<lparr>ra_dlid := if flid = 0 then ucast (di_lid info) else ucast flid\<rparr>)
      in b\<lparr>ra_sl := word_of_int (ce_Sl ce), ra_src_path_bits := 0, ra_port_num := di_ib_port info\<rparr>)"

definition ncclIbRtrQp ::
  "Conn_Env \<Rightarrow> nat \<Rightarrow> ncclIbGidInfo \<Rightarrow> u32 \<Rightarrow> ncclIbDevInfo \<Rightarrow> bool \<Rightarrow> Verbs \<Rightarrow> ncclResult_t \<times> Verbs" where
  "ncclIbRtrQp ce qp sGidInfo dest_qp_num info override_tc vb =
     wrap_ibv_modify_qp qp (To_Rtr (rtr_attributes ce sGidInfo dest_qp_num info override_tc)) vb"

definition ncclIbRtsQp :: "Conn_Env \<Rightarrow> nat \<Rightarrow> Verbs \<Rightarrow> ncclResult_t \<times> Verbs" where
  "ncclIbRtsQp ce qp vb = wrap_ibv_modify_qp qp (To_Rts (ce_Timeout ce) (ce_RetryCnt ce) 7 0 1) vb"

definition rtr_rts ::
  "Conn_Env \<Rightarrow> nat \<Rightarrow> ncclIbGidInfo \<Rightarrow> u32 \<Rightarrow> ncclIbDevInfo \<Rightarrow> bool \<Rightarrow> Verbs \<Rightarrow> ncclResult_t \<times> Verbs" where
  "rtr_rts ce qp sGidInfo dest_qp_num info override_tc vb =
     (let (res, vb1) = ncclIbRtrQp ce qp sGidInfo dest_qp_num info override_tc vb
      in if res \<noteq> ncclSuccess then (res, vb1) else ncclIbRtsQp ce qp vb1)"

section \<open>Protection domains\<close>

text \<open>The users of the devices: a base is held from its initialisation until its completion queue has been destroyed.
  Steps in which a protection domain cannot be allocated are left out; the last theorem says what they do.\<close>

record Pd_State =
  ps_file :: Ib_File
  ps_verbs :: Verbs
  ps_bases :: "ncclIbNetCommDevBase multiset"

inductive pd_step :: "Pd_State \<Rightarrow> Pd_State \<Rightarrow> bool" where
  init_base:
  "pd_step s \<lparr>ps_file = fl1, ps_verbs = vb1, ps_bases = (if res = ncclSuccess then add_mset b (ps_bases s) else ps_bases s)\<rparr>"
  if "ncclIbInitCommDevBase i b0 (ps_file s) (ps_verbs s) = (res, b, fl1, vb1)" "i < length (ncclIbDevs (ps_file s))"
    "id_pdRefs (ncclIbDevs (ps_file s) ! i) = 0 \<Longrightarrow> fst (wrap_ibv_alloc_pd (ps_verbs s)) = ncclSuccess"
| destroy_base:
  "pd_step s \<lparr>ps_file = fl1, ps_verbs = vb1,
     ps_bases = (if fst (wrap_ibv_destroy_cq (db_cq b) (ps_verbs s)) = ncclSuccess then ps_bases s - {#b#} else ps_bases s)\<rparr>"
  if "b \<in># ps_bases s" "ncclIbDestroyBase b (ps_file s) (ps_verbs s) = (res, fl1, vb1)"

inductive pd_reach :: "Pd_State \<Rightarrow> bool" where
  pd_start: "pd_reach s" if "ps_bases s = {#}" "\<forall>d\<in>set (ncclIbDevs (ps_file s)). id_pdRefs d = 0" "vb_pds (ps_verbs s) = []"
| pd_next: "pd_reach s1" if "pd_reach s" "pd_step s s1"

definition users_of :: "nat \<Rightarrow> ncclIbNetCommDevBase multiset \<Rightarrow> nat" where
  "users_of i bs = size (filter_mset (\<lambda>b. db_ibDevN b = i) bs)"

definition dev_ok :: "Verbs \<Rightarrow> ncclIbNetCommDevBase multiset \<Rightarrow> nat \<Rightarrow> ncclIbDev \<Rightarrow> bool" where
  "dev_ok vb bs i d \<longleftrightarrow>
     int (users_of i bs) \<le> id_pdRefs d \<and>
     (0 < id_pdRefs d \<longrightarrow> (\<exists>p. id_pd d = Some p \<and> p \<in> set (vb_pds vb) \<and> (\<forall>b\<in>#bs. db_ibDevN b = i \<longrightarrow> db_pd b = Some p)))"

definition pd_inv :: "Pd_State \<Rightarrow> bool" where
  "pd_inv s \<longleftrightarrow>
     (let ds = ncclIbDevs (ps_file s)
      in (\<forall>i<length ds. dev_ok (ps_verbs s) (ps_bases s) i (ds ! i)) \<and>
         (\<forall>b\<in>#ps_bases s. db_ibDevN b < length ds) \<and> (\<forall>p\<in>set (vb_pds (ps_verbs s)). p < vb_fresh (ps_verbs s)) \<and>
         (\<forall>i<length ds. \<forall>j<length ds. i \<noteq> j \<longrightarrow> 0 < id_pdRefs (ds ! i) \<longrightarrow> 0 < id_pdRefs (ds ! j) \<longrightarrow> id_pd (ds ! i) \<noteq> id_pd (ds ! j)))"

lemma vb_call_keeps:
  assumes "vb_call vb = (res, vb1)"
  shows "vb_pds vb1 = vb_pds vb" "vb_fresh vb1 = vb_fresh vb" "vb_mods vb1 = vb_mods vb" "vb_qps vb1 = vb_qps vb"
    "vb_cqs vb1 = vb_cqs vb" "vb_mrs vb1 = vb_mrs vb"
  using assms by (auto simp: vb_call_def split: list.splits)

lemma alloc_pd_made:
  assumes "wrap_ibv_alloc_pd vb = (ncclSuccess, pd, vb1)"
  shows "pd = Some (vb_fresh vb) \<and> vb_pds vb1 = vb_fresh vb # vb_pds vb \<and> vb_fresh vb1 = vb_fresh vb + 1"
  using assms by (auto simp: wrap_ibv_alloc_pd_def Let_def vb_call_keeps split: prod.splits if_splits)

lemma create_cq_pds:
  assumes "wrap_ibv_create_cq vb = (res, cq, vb1)"
  shows "vb_pds vb1 = vb_pds vb \<and> vb_fresh vb \<le> vb_fresh vb1"
  using assms by (auto simp: wrap_ibv_create_cq_def Let_def vb_call_keeps split: prod.splits if_splits)

lemma destroy_cq_pds:
  assumes "wrap_ibv_destroy_cq cq vb = (res, vb1)"
  shows "vb_pds vb1 = vb_pds vb \<and> vb_fresh vb1 = vb_fresh vb"
  using assms by (auto simp: wrap_ibv_destroy_cq_def Let_def vb_call_keeps split: prod.splits if_splits)

lemma dealloc_pd_pds:
  assumes "wrap_ibv_dealloc_pd pd vb = (res, vb1)"
  shows "set (vb_pds vb) - set_option pd \<subseteq> set (vb_pds vb1) \<and> set (vb_pds vb1) \<subseteq> set (vb_pds vb) \<and> vb_fresh vb1 = vb_fresh vb"
  using assms by (cases pd) (auto simp: wrap_ibv_dealloc_pd_def Let_def vb_call_keeps split: prod.splits if_splits)

lemma dev_ok_mono:
  assumes "dev_ok vb bs i d" "set_option (id_pd d) \<inter> set (vb_pds vb) \<subseteq> set (vb_pds vb1)" "filter_mset (\<lambda>b. db_ibDevN b = i) bs1 \<subseteq># filter_mset (\<lambda>b. db_ibDevN b = i) bs"
  shows "dev_ok vb1 bs1 i d"
proof -
  have "users_of i bs1 \<le> users_of i bs" unfolding users_of_def by (rule size_mset_mono [OF assms(3)])
  moreover have "b \<in># bs" if "b \<in># bs1" "db_ibDevN b = i" for b
    using mset_subset_eqD [OF assms(3), of b] that by simp
  ultimately show ?thesis using assms(1,2) by (fastforce simp: dev_ok_def)
qed

text \<open>What initialising a base does when it gets its protection domain.\<close>

lemma init_base_does:
  assumes "ncclIbInitCommDevBase i b0 fl vb = (res, b, fl1, vb1)"
    "id_pdRefs (ncclIbDevs fl ! i) = 0 \<Longrightarrow> fst (wrap_ibv_alloc_pd vb) = ncclSuccess"
  shows "\<exists>d. fl1 = set_dev i d fl \<and> id_pdRefs d = id_pdRefs (ncclIbDevs fl ! i) + 1 \<and>
    (res = ncclSuccess \<longrightarrow> db_ibDevN b = i \<and> db_pd b = id_pd d) \<and> vb_fresh vb \<le> vb_fresh vb1 \<and>
    (if id_pdRefs (ncclIbDevs fl ! i) = 0
     then id_pd d = Some (vb_fresh vb) \<and> vb_pds vb1 = vb_fresh vb # vb_pds vb \<and> vb_fresh vb < vb_fresh vb1
     else id_pd d = id_pd (ncclIbDevs fl ! i) \<and> vb_pds vb1 = vb_pds vb)"
proof (cases "id_pdRefs (ncclIbDevs fl ! i) = 0")
  case True
  then obtain pd v where a: "wrap_ibv_alloc_pd vb = (ncclSuccess, pd, v)" using assms(2) by (metis prod.collapse)
  obtain r cq w where c: "wrap_ibv_create_cq v = (r, cq, w)" by (metis prod_cases3)
  show ?thesis
    using assms(1) True alloc_pd_made [OF a] create_cq_pds [OF c]
    by (auto simp: ncclIbInitCommDevBase_def Let_def a c split: if_splits)
next
  case False
  obtain r cq w where c: "wrap_ibv_create_cq vb = (r, cq, w)" by (metis prod_cases3)
  show ?thesis
    using assms(1) False create_cq_pds [OF c] by (auto simp: ncclIbInitCommDevBase_def Let_def c split: if_splits)
qed

lemma set_dev_nth: "i < length (ncclIbDevs fl) \<Longrightarrow> ncclIbDevs (set_dev i d fl) ! j = (if j = i then d else ncclIbDevs fl ! j)"
  "length (ncclIbDevs (set_dev i d fl)) = length (ncclIbDevs fl)"
  by (auto simp: set_dev_def nth_list_update)

lemma init_step_keeps:
  assumes "pd_inv s" "ncclIbInitCommDevBase i b0 (ps_file s) (ps_verbs s) = (res, b, fl1, vb1)" "i < length (ncclIbDevs (ps_file s))"
    "id_pdRefs (ncclIbDevs (ps_file s) ! i) = 0 \<Longrightarrow> fst (wrap_ibv_alloc_pd (ps_verbs s)) = ncclSuccess"
  shows "pd_inv \<lparr>ps_file = fl1, ps_verbs = vb1, ps_bases = (if res = ncclSuccess then add_mset b (ps_bases s) else ps_bases s)\<rparr>"
proof -
  define ds where "ds = ncclIbDevs (ps_file s)"
  define bs where "bs = ps_bases s"
  define vb where "vb = ps_verbs s"
  define bs1 where "bs1 = (if res = ncclSuccess then add_mset b bs else bs)"
  obtain d where d: "fl1 = set_dev i d (ps_file s)" "id_pdRefs d = id_pdRefs (ds ! i) + 1"
      "res = ncclSuccess \<longrightarrow> db_ibDevN b = i \<and> db_pd b = id_pd d" "vb_fresh vb \<le> vb_fresh vb1"
      "if id_pdRefs (ds ! i) = 0 then id_pd d = Some (vb_fresh vb) \<and> vb_pds vb1 = vb_fresh vb # vb_pds vb \<and> vb_fresh vb < vb_fresh vb1
       else id_pd d = id_pd (ds ! i) \<and> vb_pds vb1 = vb_pds vb"
    using init_base_does [OF assms(2,4)] by (auto simp: ds_def vb_def)
  have ok: "dev_ok vb bs j (ds ! j)" if "j < length ds" for j using assms(1) that by (simp add: pd_inv_def ds_def bs_def vb_def Let_def)
  have fr: "p < vb_fresh vb" if "p \<in> set (vb_pds vb)" for p using assms(1) that by (simp add: pd_inv_def vb_def Let_def)
  have i: "i < length ds" using assms(3) by (simp add: ds_def)
  have nth: "ncclIbDevs fl1 ! j = (if j = i then d else ds ! j)" "length (ncclIbDevs fl1) = length ds" for j
    using assms(3) by (simp_all add: d(1) ds_def set_dev_nth)
  have sub: "set (vb_pds vb) \<subseteq> set (vb_pds vb1)" using d(5) by (auto split: if_splits)
  have pos: "0 < id_pdRefs d" using ok [OF i] d(2) by (simp add: dev_ok_def)
  have none: "db_ibDevN c \<noteq> i" if "id_pdRefs (ds ! i) = 0" "c \<in># bs" for c
    using ok [OF i] that by (auto simp: dev_ok_def users_of_def filter_mset_eq_mempty_iff)
  have i_ok: "dev_ok vb1 bs1 i d"
  proof (cases "id_pdRefs (ds ! i) = 0")
    case True
    then have "users_of i bs = 0" using none by (simp add: users_of_def)
    moreover have "users_of i bs1 \<le> users_of i bs + 1" by (simp add: bs1_def users_of_def)
    ultimately have "users_of i bs1 \<le> 1" by simp
    then show ?thesis using True d none by (auto simp: dev_ok_def bs1_def)
  next
    case False
    then show ?thesis using ok [OF i] d by (auto simp: dev_ok_def bs1_def users_of_def)
  qed
  have j_ok: "dev_ok vb1 bs1 j (ds ! j)" if "j < length ds" "j \<noteq> i" for j
    by (rule dev_ok_mono [OF ok [OF that(1)]]) (use sub d(3) that in \<open>auto simp: bs1_def\<close>)
  have new: "id_pd (ds ! j) \<noteq> id_pd d" if "j < length ds" "j \<noteq> i" "0 < id_pdRefs (ds ! j)" for j
  proof (cases "id_pdRefs (ds ! i) = 0")
    case True
    then show ?thesis using ok [OF that(1)] that(3) fr d(5) by (fastforce simp: dev_ok_def)
  next
    case False
    then show ?thesis using assms(1) that i d(2,5) pos by (auto simp: pd_inv_def Let_def ds_def [symmetric])
  qed
  show ?thesis
    unfolding pd_inv_def Let_def Pd_State.simps bs_def [symmetric] bs1_def [symmetric] nth(2)
  proof (intro conjI allI impI ballI)
    fix j assume "j < length ds"
    then show "dev_ok vb1 bs1 j (ncclIbDevs fl1 ! j)" using i_ok j_ok by (simp add: nth)
  next
    fix c assume "c \<in># bs1"
    then show "db_ibDevN c < length ds" using assms(1) d(3) i
      by (auto simp: bs1_def pd_inv_def Let_def ds_def [symmetric] bs_def [symmetric] split: if_splits)
  next
    fix p assume "p \<in> set (vb_pds vb1)"
    then show "p < vb_fresh vb1" using fr d(4,5) by (fastforce split: if_splits)
  next
    fix j k assume "j < length ds" "k < length ds" "j \<noteq> k" "0 < id_pdRefs (ncclIbDevs fl1 ! j)" "0 < id_pdRefs (ncclIbDevs fl1 ! k)"
    then show "id_pd (ncclIbDevs fl1 ! j) \<noteq> id_pd (ncclIbDevs fl1 ! k)"
      using new [of j] new [of k] assms(1) by (auto simp: nth pd_inv_def Let_def ds_def [symmetric])
  qed
qed

lemma destroy_step_keeps:
  assumes "pd_inv s" "ncclIbDestroyBase b (ps_file s) (ps_verbs s) = (res, fl1, vb1)" "b \<in># ps_bases s"
  shows "pd_inv \<lparr>ps_file = fl1, ps_verbs = vb1,
     ps_bases = (if fst (wrap_ibv_destroy_cq (db_cq b) (ps_verbs s)) = ncclSuccess then ps_bases s - {#b#} else ps_bases s)\<rparr>"
proof -
  define ds where "ds = ncclIbDevs (ps_file s)"
  define i where "i = db_ibDevN b"
  obtain r v where q: "wrap_ibv_destroy_cq (db_cq b) (ps_verbs s) = (r, v)" by force
  note v = destroy_cq_pds [OF q]
  have ok: "dev_ok v (ps_bases s) j (ds ! j)" if "j < length ds" for j
    using assms(1) that v by (simp add: pd_inv_def ds_def Let_def dev_ok_def)
  have fr: "p < vb_fresh v" if "p \<in> set (vb_pds v)" for p using assms(1) that v by (simp add: pd_inv_def Let_def)
  have i: "i < length ds" using assms(1,3) by (auto simp: pd_inv_def Let_def ds_def i_def)
  show ?thesis
  proof (cases "r = ncclSuccess")
    case False
    then show ?thesis using assms(1,2) v by (simp add: ncclIbDestroyBase_def q pd_inv_def dev_ok_def Let_def)
  next
    case True
    define d where "d = (ds ! i)\<lparr>id_pdRefs := id_pdRefs (ds ! i) - 1\<rparr>"
    define bs1 where "bs1 = ps_bases s - {#b#}"
    have bs: "ps_bases s = add_mset b bs1" using assms(3) by (simp add: bs1_def)
    obtain r1 v1 where dd: "wrap_ibv_dealloc_pd (id_pd d) v = (r1, v1)" by force
    have f: "fl1 = set_dev i d (ps_file s)" and vb1: "vb1 = (if id_pdRefs d = 0 then v1 else v)"
      using assms(2) True unfolding ncclIbDestroyBase_def q Let_def ds_def [symmetric] i_def [symmetric] d_def [symmetric]
      by (auto simp: dd split: if_splits)
    have nth: "ncclIbDevs fl1 ! j = (if j = i then d else ds ! j)" "length (ncclIbDevs fl1) = length ds" for j
      using i by (simp_all add: f ds_def set_dev_nth)
    have pd: "set (vb_pds v) - set_option (id_pd d) \<subseteq> set (vb_pds vb1)" "set (vb_pds vb1) \<subseteq> set (vb_pds v)" "vb_fresh vb1 = vb_fresh v"
        "id_pdRefs d \<noteq> 0 \<Longrightarrow> vb_pds vb1 = vb_pds v"
      using dealloc_pd_pds [OF dd] by (auto simp: vb1)
    have oi: "int (users_of i bs1) \<le> id_pdRefs d" "0 < id_pdRefs (ds ! i)" "id_pd d = id_pd (ds ! i)"
      using ok [OF i] by (simp_all add: d_def dev_ok_def bs users_of_def i_def)
    have i_ok: "dev_ok vb1 bs1 i d"
      using ok [OF i] oi pd(4) by (auto simp: dev_ok_def bs)
    have j_ok: "dev_ok vb1 bs1 j (ds ! j)" if j: "j < length ds" "j \<noteq> i" for j
    proof (cases "0 < id_pdRefs (ds ! j)")
      case True
      then have "id_pd (ds ! j) \<noteq> id_pd d" using assms(1) j i oi by (simp add: pd_inv_def Let_def ds_def [symmetric])
      then show ?thesis using pd(1) by (intro dev_ok_mono [OF ok [OF j(1)]]) (auto simp: bs)
    next
      case False
      then show ?thesis using ok [OF j(1)] j(2) by (auto simp: dev_ok_def bs users_of_def split: if_splits)
    qed
    show ?thesis
      unfolding pd_inv_def Let_def Pd_State.simps q fst_conv True if_P [OF refl] bs1_def [symmetric] nth(2)
    proof (intro conjI allI impI ballI)
      fix j assume "j < length ds"
      then show "dev_ok vb1 bs1 j (ncclIbDevs fl1 ! j)" using i_ok j_ok by (simp add: nth)
    next
      fix c assume "c \<in># bs1"
      then show "db_ibDevN c < length ds" using assms(1) by (simp add: pd_inv_def Let_def ds_def [symmetric] bs)
    next
      fix p assume "p \<in> set (vb_pds vb1)"
      then show "p < vb_fresh vb1" using fr pd by auto
    next
      fix j k assume "j < length ds" "k < length ds" "j \<noteq> k" "0 < id_pdRefs (ncclIbDevs fl1 ! j)" "0 < id_pdRefs (ncclIbDevs fl1 ! k)"
      then show "id_pd (ncclIbDevs fl1 ! j) \<noteq> id_pd (ncclIbDevs fl1 ! k)"
        using assms(1) oi by (auto simp: nth pd_inv_def Let_def ds_def [symmetric] split: if_splits)
    qed
  qed
qed

lemma pd_reach_inv: "pd_reach s \<Longrightarrow> pd_inv s"
proof (induction rule: pd_reach.induct)
  case (pd_start s)
  then show ?case by (simp add: pd_inv_def Let_def dev_ok_def users_of_def)
next
  case (pd_next s s1)
  from pd_next(2) show ?case
    using init_step_keeps [OF pd_next(3)] destroy_step_keeps [OF pd_next(3)] by cases auto
qed

text \<open>In whatever order connections initialise and destroy their bases, and whichever other calls fail on the way, the
  protection domain of every base in use is alive, as long as allocating one does not fail.\<close>

theorem pd_lives_while_used:
  assumes "pd_reach s" "b \<in># ps_bases s"
  shows "\<exists>p. db_pd b = Some p \<and> p \<in> set (vb_pds (ps_verbs s))"
proof -
  have inv: "pd_inv s" by (rule pd_reach_inv [OF assms(1)])
  let ?i = "db_ibDevN b" and ?ds = "ncclIbDevs (ps_file s)"
  have ok: "dev_ok (ps_verbs s) (ps_bases s) ?i (?ds ! ?i)" using inv assms(2) by (simp add: pd_inv_def Let_def)
  have "users_of ?i (ps_bases s) \<noteq> 0" using assms(2) by (auto simp: users_of_def)
  then have "0 < id_pdRefs (?ds ! ?i)" using ok by (simp add: dev_ok_def)
  then show ?thesis using ok assms(2) by (auto simp: dev_ok_def)
qed

definition quiet_verbs :: Verbs where
  "quiet_verbs = \<lparr>vb_answers = [], vb_fresh = 1, vb_pds = [], vb_cqs = [], vb_qps = [], vb_mrs = [], vb_mods = []\<rparr>"

definition one_dev_file :: Ib_File where
  "one_dev_file = fresh_ib_file\<lparr>ncclIbDevs := [zero_ib_dev]\<rparr>"

definition one_base :: ncclIbNetCommDevBase where
  "one_base = zero_base\<lparr>db_pd := Some 1, db_cq := Some 2\<rparr>"

theorem pd_lives_while_used_witness:
  "\<exists>s. pd_reach s \<and> ps_bases s = {#one_base#} \<and> 1 \<in> set (vb_pds (ps_verbs s))"
proof -
  let ?s = "\<lparr>ps_file = one_dev_file, ps_verbs = quiet_verbs, ps_bases = {#}\<rparr>"
  obtain res b fl1 vb1 where i: "ncclIbInitCommDevBase 0 zero_base one_dev_file quiet_verbs = (res, b, fl1, vb1)" by (metis prod_cases4)
  have r: "res = ncclSuccess" "b = one_base"
    using i by (auto simp: ncclIbInitCommDevBase_def one_dev_file_def zero_ib_dev_def quiet_verbs_def zero_base_def one_base_def
      wrap_ibv_alloc_pd_def wrap_ibv_create_cq_def vb_call_def Let_def)
  have "pd_reach ?s" by (rule pd_start) (simp_all add: one_dev_file_def zero_ib_dev_def quiet_verbs_def)
  moreover have "pd_step ?s \<lparr>ps_file = fl1, ps_verbs = vb1, ps_bases = {#one_base#}\<rparr>"
    using init_base [of 0 zero_base ?s res b fl1 vb1] i r
    by (simp add: one_dev_file_def wrap_ibv_alloc_pd_def vb_call_def quiet_verbs_def)
  ultimately have s: "pd_reach \<lparr>ps_file = fl1, ps_verbs = vb1, ps_bases = {#one_base#}\<rparr>" by (rule pd_next)
  show ?thesis using pd_lives_while_used [OF s, of one_base] s by (auto simp: one_base_def)
qed

text \<open>The count goes up before the protection domain is allocated and is not taken back when that fails: the next user
  of the device is told that all is well and gets the null pointer.\<close>

theorem failed_alloc_pd_is_forgotten:
  assumes "i < length (ncclIbDevs fl)" "id_pdRefs (ncclIbDevs fl ! i) = 0" "vb_answers vb = [e]" "e \<noteq> ncclSuccess"
  shows "\<exists>b fl1 vb1 b1 fl2 vb2. ncclIbInitCommDevBase i b0 fl vb = (e, b, fl1, vb1) \<and>
    ncclIbInitCommDevBase i b0 fl1 vb1 = (ncclSuccess, b1, fl2, vb2) \<and> db_pd b1 = None"
  using assms
  by (simp add: ncclIbInitCommDevBase_def wrap_ibv_alloc_pd_def wrap_ibv_create_cq_def vb_call_def set_dev_nth Let_def)

end
