(* ===== verification/IbConnect.thy ===== *)
theory IbConnect
  imports IbQps NcclIfs
begin

text \<open>
  Listening, connecting, accepting and closing in \<^verbatim>\<open>nccl_internal_impl/net_ib.cc\<close>. The two sides exchange a
  structure over a socket; its bytes in memory are the functions \<open>ce_pack\<close> and \<open>ce_unpack\<close> of the environment. Each call goes on where the last one
  had to wait, as the stage in the handle or in the listening communicator says. \<open>None\<close> is a call that does not return because a
  call on the socket does not. The arrays of a communicator that are filled here are lists of what has been filled in.
  Pointers to freed memory in a stage are dropped: the next call that reads the stage starts anew. Allocation is taken to succeed.
\<close>

section \<open>Data\<close>

datatype ncclIbCommState =
    ncclIbCommStateStart
  | ncclIbCommStateConnect
  | ncclIbCommStateAccept
  | ncclIbCommStateSend
  | ncclIbCommStateRecv
  | ncclIbCommStateConnecting
  | ncclIbCommStateConnected
  | ncclIbCommStatePendingReady

record 'c ncclIbCommStage =
  cs_state :: ncclIbCommState
  cs_offset :: nat
  cs_buffer :: "u8 list option"
  cs_comm :: "'c option"

text \<open>What both kinds of communicators have besides what transfers use. \<open>cx_ready\<close> is the memory of the member \<open>ready\<close>; the
  regions are by device.\<close>

record Conn_Part =
  cx_sock :: ncclSocket
  cx_devs :: "ncclIbNetCommDevBase list"
  cx_fifoMrs :: "nat option list"
  cx_sizesMrs :: "nat option list"
  cx_flushMrs :: "nat option list"
  cx_nRemDevs :: int
  cx_remDevs :: "ncclIbDevInfo list"
  cx_ready :: "u8 list"

record Send_Conn = ncclIbSendComm + sn_cx :: Conn_Part
record Recv_Conn = ncclIbRecvComm + rn_cx :: Conn_Part

record ncclIbHandle =
  ih_connectAddr :: ncclSocketAddress
  ih_magic :: u64
  ih_stage :: "Send_Conn ncclIbCommStage"

record ncclIbListenComm =
  il_dev :: nat
  il_sock :: ncclSocket
  il_stage :: "Recv_Conn ncclIbCommStage"

record Ib_World =
  iw_file :: Ib_File
  iw_verbs :: Verbs
  iw_net :: Net

definition zero_part :: Conn_Part where
  "zero_part = \<lparr>cx_sock = zero_sock, cx_devs = [], cx_fifoMrs = [], cx_sizesMrs = [], cx_flushMrs = [], cx_nRemDevs = 0,
     cx_remDevs = [], cx_ready = [0, 0, 0, 0]\<rparr>"

definition zero_send_conn :: Send_Conn where
  "zero_send_conn =
     \<lparr>nb_ndevs = 0, nb_reqs = replicate IB_MAX_REQUESTS zero_ib_request, nb_qps = [], nb_nqps = 0, nb_qpIndex = 0, nb_devIndex = 0,
      nb_ready = False, nb_remFifoRkeys = [], nb_fatal = 0, nb_devs = [], nb_sizes = [],
      sc_fifo = replicate IB_MAX_REQUESTS (replicate NCCL_NET_IB_MAX_RECVS zero_fifo),
      sc_fifoReqs = replicate IB_MAX_REQUESTS (replicate NCCL_NET_IB_MAX_RECVS None),
      sc_remSizesFifo = \<lparr>rz_elems = replicate IB_MAX_REQUESTS (replicate NCCL_NET_IB_MAX_RECVS 0), rz_addr = 0, rz_rkeys = [],
        rz_lkeys = [], rz_local = 0\<rparr>,
      sc_fifoHead = 0, sc_ar = False, sn_cx = zero_part\<rparr>"

definition zero_recv_conn :: Recv_Conn where
  "zero_recv_conn =
     \<lparr>nb_ndevs = 0, nb_reqs = replicate IB_MAX_REQUESTS zero_ib_request, nb_qps = [], nb_nqps = 0, nb_qpIndex = 0, nb_devIndex = 0,
      nb_ready = False, nb_remFifoRkeys = [], nb_fatal = 0, nb_devs = [],
      nb_sizes = replicate IB_MAX_REQUESTS (replicate NCCL_NET_IB_MAX_RECVS 0),
      rc_elems = replicate IB_MAX_REQUESTS (replicate NCCL_NET_IB_MAX_RECVS zero_fifo), rc_fifoTail = 0, rc_fifoAddr = 0, rc_local = 0,
      rc_inline = False, rc_fifoLkeys = [], rc_flushEnabled = False, rc_flushQps = [], rc_flushSges = [], rn_cx = zero_part\<rparr>"

definition start_ib_stage :: "'c ncclIbCommStage" where
  "start_ib_stage = \<lparr>cs_state = ncclIbCommStateStart, cs_offset = 0, cs_buffer = None, cs_comm = None\<rparr>"

section \<open>Listening\<close>

definition ncclIbListen ::
  "nat \<Rightarrow> ncclIbHandle \<Rightarrow> Ib_World \<Rightarrow> ncclResult_t \<times> ncclIbHandle \<times> ncclIbListenComm option \<times> Ib_World" where
  "ncclIbListen dev handle w =
     (let h0 = \<lparr>ih_connectAddr = zero_addr, ih_magic = NCCL_SOCKET_MAGIC, ih_stage = start_ib_stage\<rparr>;
          fail = (\<lambda>r h s k. case ncclSocketClose s k of (_, _, k') \<Rightarrow> (r, h, None, w\<lparr>iw_net := k'\<rparr>));
          addr = (case ncclIbIf (iw_file w) of None \<Rightarrow> zero_addr | Some (_, a) \<Rightarrow> a);
          (r1, s1, k1) = ncclSocketInit (Some zero_sock) (Some addr) (ih_magic h0) ncclSocketTypeNetIb False True (iw_net w)
      in if r1 \<noteq> ncclSuccess then fail r1 h0 s1 k1
         else let (r2, s2, k2) = ncclSocketListen s1 k1
              in if r2 \<noteq> ncclSuccess then fail r2 h0 s2 k2
                 else let (r3, a) = ncclSocketGetAddr s2 (ih_connectAddr h0); h1 = h0\<lparr>ih_connectAddr := a\<rparr>
                      in if r3 \<noteq> ncclSuccess then fail r3 h1 s2 k2
                         else (ncclSuccess, h1, Some \<lparr>il_dev = dev, il_sock = the s2, il_stage = start_ib_stage\<rparr>,
                               w\<lparr>iw_net := k2\<rparr>))"

section \<open>What both sides build\<close>

fun init_bases ::
  "nat list \<Rightarrow> Ib_File \<Rightarrow> Verbs \<Rightarrow> ncclResult_t \<times> ncclIbNetCommDevBase list \<times> Ib_File \<times> Verbs" where
  "init_bases [] fl vb = (ncclSuccess, [], fl, vb)"
| "init_bases (i # is) fl vb =
     (let (res, b, fl1, vb1) = ncclIbInitCommDevBase i zero_base fl vb
      in if res \<noteq> ncclSuccess then (res, [b], fl1, vb1)
         else let (res1, bs, fl2, vb2) = init_bases is fl1 vb1 in (res1, b # bs, fl2, vb2))"

text \<open>The index and value of the GID of a base.\<close>

definition query_base_gid ::
  "Conn_Env \<Rightarrow> Ib_File \<Rightarrow> ncclIbNetCommDevBase \<Rightarrow> ncclResult_t \<times> ncclIbNetCommDevBase" where
  "query_base_gid ce fl b =
     (let pa = id_portAttr (ncclIbDevs fl ! db_ibDevN b); port = ce_port ce (db_ibDevN b);
          (res, g) = ncclIbGetGidIndex (ce_inet_pton ce) (ce_getenv ce) (ce_gid_params ce) port
                       (pa_link pa = IBV_LINK_LAYER_INFINIBAND) (pa_gid_tbl_len pa) (gi_localGidIndex (db_gidInfo b));
          b1 = b\<lparr>db_gidInfo := (db_gidInfo b)\<lparr>gi_localGidIndex := g\<rparr>\<rparr>
      in if res \<noteq> ncclSuccess then (res, b1)
         else let (res1, gid) = gp_query port g
              in if res1 \<noteq> ncclSuccess then (res1, b1)
                 else (ncclSuccess, b\<lparr>db_gidInfo := (db_gidInfo b)\<lparr>gi_localGidIndex := g, gi_localGid := gid\<rparr>\<rparr>))"

definition set_link :: "Ib_File \<Rightarrow> ncclIbNetCommDevBase \<Rightarrow> ncclIbNetCommDevBase" where
  "set_link fl b = b\<lparr>db_gidInfo := (db_gidInfo b)\<lparr>gi_link := pa_link (id_portAttr (ncclIbDevs fl ! db_ibDevN b))\<rparr>\<rparr>"

text \<open>What a side tells of one of its devices.\<close>

definition dev_info :: "Ib_File \<Rightarrow> ncclIbNetCommDevBase \<Rightarrow> nat \<Rightarrow> u32 \<Rightarrow> ncclIbDevInfo" where
  "dev_info fl b mtu rkey =
     (let d = ncclIbDevs fl ! db_ibDevN b
      in \<lparr>di_lid = pa_lid (id_portAttr d), di_ib_port = id_portNum d, di_mtu = mtu, di_link_layer = pa_link (id_portAttr d),
          di_gid = gi_localGid (db_gidInfo b), di_fifoRkey = rkey, di_remoteGid = [0, 0, 0, 0]\<rparr>)"

text \<open>The peer's devices are copied with their GID as the remote one; the number is the peer's.\<close>

definition copy_rem_devs :: "ncclIbConnectionMetadata \<Rightarrow> Conn_Part \<Rightarrow> Conn_Part" where
  "copy_rem_devs m c =
     c\<lparr>cx_nRemDevs := mt_ndevs m,
       cx_remDevs := map (\<lambda>i. (mt_devs m ! i)\<lparr>di_remoteGid := di_gid (mt_devs m ! i)\<rparr>) [0..<nat (mt_ndevs m)]
                     @ drop (nat (mt_ndevs m)) (cx_remDevs c)\<rparr>"

definition nqps_of :: "Conn_Env \<Rightarrow> nat \<Rightarrow> nat" where
  "nqps_of ce ndevs = nat (ce_QpsPerConn ce * int ndevs)"

section \<open>Connecting\<close>

text \<open>The loop that creates the queue pairs, \<open>n\<close> more of them on the devices in turn.\<close>

fun create_qps ::
  "Conn_Env \<Rightarrow> Ib_File \<Rightarrow> ncclIbNetCommDevBase list \<Rightarrow> nat \<Rightarrow> nat \<Rightarrow> Verbs \<Rightarrow>
   ncclResult_t \<times> ncclIbQp list \<times> ncclIbQpInfo list \<times> Verbs" where
  "create_qps ce fl bases 0 devIndex vb = (ncclSuccess, [], [], vb)"
| "create_qps ce fl bases (Suc n) devIndex vb =
     (let b = bases ! devIndex;
          (res, qp, vb1) = ncclIbCreateQp ce (id_portNum (ncclIbDevs fl ! db_ibDevN b)) b [IBV_ACCESS_REMOTE_WRITE] vb
      in if res \<noteq> ncclSuccess then (res, [], [], vb1)
         else let (res1, vb2) = (if ce_EceEnable ce then vb_call vb1 else (ncclSuccess, vb1))
              in if res1 \<noteq> ncclSuccess then (res1, [], [], vb2)
                 else let ece = (if ce_EceEnable ce then ce_query_ece ce qp else (fst (ce_junk_ece ce qp), 0));
                          info = \<lparr>qi_qpn = ce_qp_num ce qp, qi_ece = fst ece, qi_ece_supported = snd ece, qi_devIndex = devIndex\<rparr>;
                          (res2, qps, infos, vb3) = create_qps ce fl bases n ((devIndex + 1) mod length bases) vb2
                      in (res2, \<lparr>qp_qp = qp, qp_devIndex = devIndex, qp_remDevIdx = 0\<rparr> # qps, info # infos, vb3))"

text \<open>The loop over the devices: the ring is registered and the GID is found.\<close>

fun connect_devs ::
  "Conn_Env \<Rightarrow> Ib_File \<Rightarrow> ncclIbNetCommDevBase list \<Rightarrow> Verbs \<Rightarrow>
   ncclResult_t \<times> ncclIbNetCommDevBase list \<times> nat option list \<times> ncclIbDevInfo list \<times> Verbs" where
  "connect_devs ce fl [] vb = (ncclSuccess, [], [], [], vb)"
| "connect_devs ce fl (b # bs) vb =
     (case vb_reg_mr vb of
        (res, None, vb1) \<Rightarrow> (res, b # bs, [None], [], vb1)
      | (_, Some mr, vb1) \<Rightarrow>
          let (res1, b1) = query_base_gid ce fl (set_link fl b)
          in if res1 \<noteq> ncclSuccess then (res1, b1 # bs, [Some mr], [], vb1)
             else let info = dev_info fl b1 (pa_mtu (id_portAttr (ncclIbDevs fl ! db_ibDevN b1))) (ce_rkey ce mr);
                      (res2, bs1, mrs, infos, vb2) = connect_devs ce fl bs vb1
                  in (res2, b1 # bs1, Some mr # mrs, info # infos, vb2))"

definition connect_setup ::
  "Conn_Env \<Rightarrow> nat \<Rightarrow> Send_Conn \<Rightarrow> Ib_World \<Rightarrow> ncclResult_t \<times> Send_Conn \<times> ncclIbConnectionMetadata \<times> Ib_World" where
  "connect_setup ce dev comm w =
     (let m = ncclIbMergedDevs (iw_file w) ! dev; ndevs = md_ndevs m; nqps = nqps_of ce ndevs;
          meta0 = \<lparr>mt_qpInfo = [], mt_devs = [], mt_devName = take MAX_MERGED_DEV_NAME (md_devName m), mt_fifoAddr = ce_fifo ce,
                   mt_ndevs = int ndevs\<rparr>;
          (res, bases, fl1, vb1) = init_bases (take ndevs (md_devs m)) (iw_file w) (iw_verbs w);
          w1 = w\<lparr>iw_file := fl1, iw_verbs := vb1\<rparr>;
          comm1 = comm\<lparr>nb_ndevs := ndevs, nb_nqps := nqps, sc_ar := (ndevs = 0 \<or> id_ar (ncclIbDevs fl1 ! dev) \<noteq> 0),
                       nb_devs := map db_ibDevN bases, sn_cx := (sn_cx comm)\<lparr>cx_devs := bases\<rparr>\<rparr>
      in if res \<noteq> ncclSuccess then (res, comm1, meta0, w1)
         else let (res1, qps, qinfos, vb2) = create_qps ce fl1 bases nqps 0 vb1;
                  w2 = w1\<lparr>iw_verbs := vb2\<rparr>; comm2 = comm1\<lparr>nb_qps := qps\<rparr>
              in if res1 \<noteq> ncclSuccess then (res1, comm2, meta0, w2)
                 else let (res2, bases1, mrs, dinfos, vb3) = connect_devs ce fl1 bases vb2;
                          w3 = w2\<lparr>iw_verbs := vb3\<rparr>;
                          comm3 = comm2\<lparr>sn_cx := (sn_cx comm2)\<lparr>cx_devs := bases1, cx_fifoMrs := mrs\<rparr>\<rparr>
                      in (res2, comm3, meta0\<lparr>mt_qpInfo := qinfos, mt_devs := dinfos\<rparr>, w3))"

text \<open>The peer's answer.\<close>

definition link_layers_differ :: "ncclIbConnectionMetadata \<Rightarrow> bool" where
  "link_layers_differ m \<longleftrightarrow> (\<exists>i\<in>{1..<nat (mt_ndevs m)}. di_link_layer (mt_devs m ! i) \<noteq> di_link_layer (mt_devs m ! 0))"

fun reg_sizes :: "nat \<Rightarrow> Verbs \<Rightarrow> ncclResult_t \<times> nat option list \<times> Verbs" where
  "reg_sizes 0 vb = (ncclSuccess, [], vb)"
| "reg_sizes (Suc n) vb =
     (case vb_reg_mr vb of
        (res, None, vb1) \<Rightarrow> (res, [None], vb1)
      | (_, Some mr, vb1) \<Rightarrow> (case reg_sizes n vb1 of (res1, mrs, vb2) \<Rightarrow> (res1, Some mr # mrs, vb2)))"

fun connect_qps ::
  "Conn_Env \<Rightarrow> ncclIbNetCommDevBase list \<Rightarrow> ncclIbConnectionMetadata \<Rightarrow> nat \<Rightarrow> ncclIbQp list \<Rightarrow> Verbs \<Rightarrow>
   ncclResult_t \<times> ncclIbQp list \<times> Verbs" where
  "connect_qps ce bases m q [] vb = (ncclSuccess, [], vb)"
| "connect_qps ce bases m q (p # ps) vb =
     (let remQpInfo = mt_qpInfo m ! q; remDevInfo = mt_devs m ! qi_devIndex remQpInfo;
          p1 = p\<lparr>qp_remDevIdx := qi_devIndex remQpInfo\<rparr>;
          (res, vb1) = (if qi_ece_supported remQpInfo \<noteq> 0 then vb_call vb else (ncclSuccess, vb))
      in if res \<noteq> ncclSuccess then (res, p1 # ps, vb1)
         else let (res1, vb2) = rtr_rts ce (qp_qp p) (db_gidInfo (bases ! qp_devIndex p)) (qi_qpn remQpInfo) remDevInfo False vb1
              in if res1 \<noteq> ncclSuccess then (res1, p1 # ps, vb2)
                 else let (res2, ps1, vb3) = connect_qps ce bases m (q + 1) ps vb2 in (res2, p1 # ps1, vb3))"

definition key_of :: "(nat \<Rightarrow> u32) \<Rightarrow> nat option \<Rightarrow> u32" where
  "key_of key mr = (case mr of None \<Rightarrow> 0 | Some m \<Rightarrow> key m)"

definition connect_finish ::
  "Conn_Env \<Rightarrow> ncclIbConnectionMetadata \<Rightarrow> Send_Conn \<Rightarrow> Ib_World \<Rightarrow> ncclResult_t \<times> Send_Conn \<times> Ib_World" where
  "connect_finish ce m comm w =
     (let rz = sc_remSizesFifo comm;
          rz1 = rz\<lparr>rz_rkeys := map (\<lambda>i. di_fifoRkey (mt_devs m ! i)) [0..<nat (mt_ndevs m)] @ drop (nat (mt_ndevs m)) (rz_rkeys rz),
                   rz_addr := if mt_ndevs m \<le> 0 then rz_addr rz else mt_fifoAddr m\<rparr>;
          (res, mrs, vb1) = reg_sizes (nb_ndevs comm) (iw_verbs w);
          comm1 = comm\<lparr>sn_cx := (copy_rem_devs m (sn_cx comm))\<lparr>cx_sizesMrs := mrs\<rparr>,
                       sc_remSizesFifo := rz1\<lparr>rz_lkeys := map (key_of (ce_lkey ce)) mrs, rz_local := ce_sizes ce\<rparr>\<rparr>
      in if res \<noteq> ncclSuccess then (res, comm1, w\<lparr>iw_verbs := vb1\<rparr>)
         else let (res1, qps, vb2) = connect_qps ce (cx_devs (sn_cx comm1)) m 0 (nb_qps comm1) vb1;
                  comm2 = comm1\<lparr>nb_qps := qps\<rparr>; w2 = w\<lparr>iw_verbs := vb2\<rparr>
              in if res1 \<noteq> ncclSuccess then (res1, comm2, w2)
                 else (ncclSuccess, comm2\<lparr>nb_ready := True, sn_cx := (sn_cx comm2)\<lparr>cx_ready := [1, 0, 0, 0]\<rparr>\<rparr>, w2))"

text \<open>The state machine. A handle whose stage goes on, and one whose connection is finished or given up.\<close>

type_synonym connect_result = "ncclResult_t \<times> Send_Conn option \<times> ncclIbHandle \<times> Ib_World"

definition connect_again :: "ncclResult_t \<Rightarrow> Send_Conn ncclIbCommStage \<Rightarrow> Send_Conn \<Rightarrow> ncclIbHandle \<Rightarrow> Ib_World \<Rightarrow> connect_result" where
  "connect_again r sg comm h w = (r, None, h\<lparr>ih_stage := sg\<lparr>cs_comm := Some comm\<rparr>\<rparr>, w)"

definition connect_end :: "ncclResult_t \<Rightarrow> Send_Conn option \<Rightarrow> Send_Conn ncclIbCommStage \<Rightarrow> ncclIbHandle \<Rightarrow> Ib_World \<Rightarrow> connect_result" where
  "connect_end r comm sg h w =
     (r, comm, h\<lparr>ih_stage := sg\<lparr>cs_state := ncclIbCommStateStart, cs_buffer := None, cs_comm := None\<rparr>\<rparr>, w)"

definition connect_ready ::
  "Send_Conn ncclIbCommStage \<Rightarrow> Send_Conn \<Rightarrow> ncclIbHandle \<Rightarrow> Ib_World \<Rightarrow> connect_result" where
  "connect_ready sg comm h w =
     (let (r, d, off, k) = ncclSocketProgress NCCL_SOCKET_SEND (Some (cx_sock (sn_cx comm))) (cx_ready (sn_cx comm)) 4 (cs_offset sg) (iw_net w);
          w1 = w\<lparr>iw_net := k\<rparr>; sg1 = sg\<lparr>cs_offset := off\<rparr>
      in if r \<noteq> ncclSuccess then connect_end r None sg1 h w1
         else if off \<noteq> 4 then connect_again ncclSuccess sg1 comm h w1
         else connect_end ncclSuccess (Some comm) sg1 h w1)"

definition connect_recv ::
  "Conn_Env \<Rightarrow> Send_Conn ncclIbCommStage \<Rightarrow> Send_Conn \<Rightarrow> ncclIbHandle \<Rightarrow> Ib_World \<Rightarrow> connect_result" where
  "connect_recv ce sg comm h w =
     (let (r, d, off, k) = ncclSocketProgress NCCL_SOCKET_RECV (Some (cx_sock (sn_cx comm))) (the (cs_buffer sg)) (ce_metaSize ce)
                             (cs_offset sg) (iw_net w);
          w1 = w\<lparr>iw_net := k\<rparr>; sg1 = sg\<lparr>cs_offset := off, cs_buffer := Some d\<rparr>
      in if r \<noteq> ncclSuccess then connect_end r None sg1 h w1
         else if off \<noteq> ce_metaSize ce then connect_again ncclSuccess sg1 comm h w1
         else let m = ce_unpack ce d; comm1 = comm\<lparr>sn_cx := (sn_cx comm)\<lparr>cx_nRemDevs := mt_ndevs m\<rparr>\<rparr>
              in if link_layers_differ m then connect_again ncclInternalError sg1 comm1 h w1
                 else let (r1, comm2, w2) = connect_finish ce m comm1 w1
                      in if r1 \<noteq> ncclSuccess then connect_end r1 None sg1 h w2
                         else connect_ready (sg1\<lparr>cs_state := ncclIbCommStateConnected, cs_offset := 0\<rparr>) comm2 h w2)"

definition connect_send ::
  "Conn_Env \<Rightarrow> Send_Conn ncclIbCommStage \<Rightarrow> Send_Conn \<Rightarrow> ncclIbHandle \<Rightarrow> Ib_World \<Rightarrow> connect_result" where
  "connect_send ce sg comm h w =
     (let (r, d, off, k) = ncclSocketProgress NCCL_SOCKET_SEND (Some (cx_sock (sn_cx comm))) (the (cs_buffer sg)) (ce_metaSize ce)
                             (cs_offset sg) (iw_net w);
          w1 = w\<lparr>iw_net := k\<rparr>; sg1 = sg\<lparr>cs_offset := off\<rparr>
      in if r \<noteq> ncclSuccess then connect_end r None sg1 h w1
         else if off \<noteq> ce_metaSize ce then connect_again ncclSuccess sg1 comm h w1
         else connect_recv ce (sg1\<lparr>cs_state := ncclIbCommStateConnecting, cs_offset := 0,
                                   cs_buffer := Some (replicate (ce_metaSize ce) 0)\<rparr>) comm h w1)"

definition ib_connect_check ::
  "Conn_Env \<Rightarrow> nat \<Rightarrow> Send_Conn ncclIbCommStage \<Rightarrow> Send_Conn \<Rightarrow> ncclIbHandle \<Rightarrow> Ib_World \<Rightarrow> connect_result option" where
  "ib_connect_check ce dev sg comm h w =
     (case ncclSocketReady (Some (cx_sock (sn_cx comm))) (iw_net w) of
        None \<Rightarrow> None
      | Some (r, ready, s, k) \<Rightarrow>
          let comm1 = comm\<lparr>sn_cx := (sn_cx comm)\<lparr>cx_sock := the s\<rparr>\<rparr>; w1 = w\<lparr>iw_net := k\<rparr>
          in if r \<noteq> ncclSuccess then Some (connect_end r None sg h w1)
             else if ready \<noteq> Some True then Some (connect_again ncclSuccess sg comm1 h w1)
             else let (r1, comm2, m, w2) = connect_setup ce dev comm1 w1
                  in if r1 \<noteq> ncclSuccess then Some (connect_end r1 None sg h w2)
                     else Some (connect_send ce (sg\<lparr>cs_state := ncclIbCommStateSend, cs_offset := 0, cs_buffer := Some (ce_pack ce m)\<rparr>)
                                  comm2 h w2))"

definition ib_connect_start :: "Conn_Env \<Rightarrow> nat \<Rightarrow> ncclIbHandle \<Rightarrow> Ib_World \<Rightarrow> connect_result option" where
  "ib_connect_start ce dev h w =
     (let sg = (ih_stage h)\<lparr>cs_buffer := None\<rparr>;
          (r, s, k) = ncclSocketInit (Some zero_sock) (Some (ih_connectAddr h)) (ih_magic h) ncclSocketTypeNetIb False True (iw_net w);
          comm = zero_send_conn\<lparr>sn_cx := zero_part\<lparr>cx_sock := the s\<rparr>\<rparr>; w1 = w\<lparr>iw_net := k\<rparr>
      in if r \<noteq> ncclSuccess then Some (connect_end r None sg h w1)
         else let sg1 = sg\<lparr>cs_comm := Some comm, cs_state := ncclIbCommStateConnect\<rparr>
              in case ncclSocketConnect s k of
                   None \<Rightarrow> None
                 | Some (r1, s1, k1) \<Rightarrow>
                     let comm1 = comm\<lparr>sn_cx := (sn_cx comm)\<lparr>cx_sock := the s1\<rparr>\<rparr>; w2 = w\<lparr>iw_net := k1\<rparr>
                     in if r1 \<noteq> ncclSuccess then Some (connect_end r1 None sg1 h w2)
                        else ib_connect_check ce dev sg1 comm1 h w2)"

definition ncclIbConnect :: "Conn_Env \<Rightarrow> nat \<Rightarrow> ncclIbHandle \<Rightarrow> Ib_World \<Rightarrow> connect_result option" where
  "ncclIbConnect ce dev h w =
     (let sg = ih_stage h; comm = the (cs_comm sg)
      in case cs_state sg of
           ncclIbCommStateConnect \<Rightarrow> ib_connect_check ce dev sg comm h w
         | ncclIbCommStateSend \<Rightarrow> Some (connect_send ce sg comm h w)
         | ncclIbCommStateConnecting \<Rightarrow> Some (connect_recv ce sg comm h w)
         | ncclIbCommStateConnected \<Rightarrow> Some (connect_ready sg comm h w)
         | ncclIbCommStateStart \<Rightarrow> ib_connect_start ce dev h w
         | _ \<Rightarrow> Some (ncclInternalError, None, h, w))"

section \<open>Accepting\<close>

fun accept_bases ::
  "Conn_Env \<Rightarrow> nat list \<Rightarrow> Ib_File \<Rightarrow> Verbs \<Rightarrow> ncclResult_t \<times> ncclIbNetCommDevBase list \<times> Ib_File \<times> Verbs" where
  "accept_bases ce [] fl vb = (ncclSuccess, [], fl, vb)"
| "accept_bases ce (i # is) fl vb =
     (let (res, b, fl1, vb1) = ncclIbInitCommDevBase i zero_base fl vb
      in if res \<noteq> ncclSuccess then (res, [b], fl1, vb1)
         else let (res1, b1) = query_base_gid ce fl1 b
              in if res1 \<noteq> ncclSuccess then (res1, [b1], fl1, vb1)
                 else let (res2, bs, fl2, vb2) = accept_bases ce is fl1 vb1 in (res2, b1 # bs, fl2, vb2))"

text \<open>The ECE of a queue pair that is told back: what the stack holds unless the peer supports it.\<close>

definition accept_ece ::
  "Conn_Env \<Rightarrow> nat \<Rightarrow> ncclIbQpInfo \<Rightarrow> Verbs \<Rightarrow> ncclResult_t \<times> (ibv_ece \<times> int) \<times> Verbs" where
  "accept_ece ce qp rem vb =
     (if qi_ece_supported rem = 0 then (ncclSuccess, ce_junk_ece ce qp, vb)
      else let (res, vb1) = vb_call vb; supported = ce_set_ece ce qp (qi_ece rem)
           in if res \<noteq> ncclSuccess then (res, ce_junk_ece ce qp, vb1)
              else if supported = 0 then (ncclSuccess, (fst (ce_junk_ece ce qp), supported), vb1)
              else case vb_call vb1 of (res1, vb2) \<Rightarrow> (res1, ce_query_ece ce qp, vb2))"

fun accept_qps ::
  "Conn_Env \<Rightarrow> Ib_File \<Rightarrow> ncclIbNetCommDevBase list \<Rightarrow> ncclIbConnectionMetadata \<Rightarrow> nat \<Rightarrow> nat \<Rightarrow> nat \<Rightarrow> Verbs \<Rightarrow>
   ncclResult_t \<times> ncclIbQp list \<times> ncclIbQpInfo list \<times> Verbs" where
  "accept_qps ce fl bases m q 0 devIndex vb = (ncclSuccess, [], [], vb)"
| "accept_qps ce fl bases m q (Suc n) devIndex vb =
     (let rem = mt_qpInfo m ! q; remDevInfo = mt_devs m ! qi_devIndex rem; b = bases ! devIndex;
          (res, qp, vb1) = ncclIbCreateQp ce (id_portNum (ncclIbDevs fl ! db_ibDevN b)) b [IBV_ACCESS_REMOTE_WRITE] vb
      in if res \<noteq> ncclSuccess then (res, [], [], vb1)
         else let (res1, ece, vb2) = accept_ece ce qp rem vb1
              in if res1 \<noteq> ncclSuccess then (res1, [], [], vb2)
                 else let (res2, vb3) = rtr_rts ce qp (db_gidInfo b) (qi_qpn rem) remDevInfo (q = 0) vb2
                      in if res2 \<noteq> ncclSuccess then (res2, [], [], vb3)
                         else let info = \<lparr>qi_qpn = ce_qp_num ce qp, qi_ece = fst ece, qi_ece_supported = snd ece, qi_devIndex = devIndex\<rparr>;
                                  (res3, qps, infos, vb4) = accept_qps ce fl bases m (q + 1) n ((devIndex + 1) mod length bases) vb3
                              in (res3, \<lparr>qp_qp = qp, qp_devIndex = devIndex, qp_remDevIdx = qi_devIndex rem\<rparr> # qps, info # infos, vb4))"

text \<open>The queue pair for flushing is connected to itself.\<close>

definition flush_qp ::
  "Conn_Env \<Rightarrow> Ib_File \<Rightarrow> ncclIbNetCommDevBase \<Rightarrow> Verbs \<Rightarrow> ncclResult_t \<times> (nat \<times> nat) option \<times> Verbs" where
  "flush_qp ce fl b vb =
     (case vb_reg_mr vb of
        (res, None, vb1) \<Rightarrow> (res, None, vb1)
      | (_, Some mr, vb1) \<Rightarrow>
          let d = ncclIbDevs fl ! db_ibDevN b;
              (res1, qp, vb2) = ncclIbCreateQp ce (id_portNum d) b [IBV_ACCESS_LOCAL_WRITE, IBV_ACCESS_REMOTE_READ] vb1
          in if res1 \<noteq> ncclSuccess then (res1, None, vb2)
             else case rtr_rts ce qp (db_gidInfo b) (ce_qp_num ce qp) (dev_info fl b (pa_mtu (id_portAttr d)) 0) False vb2 of
                    (res2, vb3) \<Rightarrow> (res2, Some (mr, qp), vb3))"

text \<open>The loop over the devices: the regions, the flush queue pairs and what is told of the device, with the smaller
  of the two units. Its four lists are the regions of the ring, of the flush memory with its queue pair, of the sizes, and the infos.\<close>

fun accept_devs ::
  "Conn_Env \<Rightarrow> Ib_File \<Rightarrow> ncclIbConnectionMetadata \<Rightarrow> bool \<Rightarrow> nat \<Rightarrow> ncclIbNetCommDevBase list \<Rightarrow> Verbs \<Rightarrow>
   ncclResult_t \<times> nat list \<times> (nat \<times> nat) list \<times> nat list \<times> ncclIbDevInfo list \<times> Verbs" where
  "accept_devs ce fl m flush i [] vb = (ncclSuccess, [], [], [], [], vb)"
| "accept_devs ce fl m flush i (b # bs) vb =
     (case vb_reg_mr vb of
        (res, None, vb1) \<Rightarrow> (res, [], [], [], [], vb1)
      | (_, Some fifoMr, vb1) \<Rightarrow>
          let (res1, fq, vb2) = (if flush then flush_qp ce fl b vb1 else (ncclSuccess, None, vb1))
          in if res1 \<noteq> ncclSuccess then (res1, [], [], [], [], vb2)
             else case vb_reg_mr vb2 of
                    (res2, None, vb3) \<Rightarrow> (res2, [], [], [], [], vb3)
                  | (_, Some sizesMr, vb3) \<Rightarrow>
                      let mtu = min (di_mtu (mt_devs m ! i)) (pa_mtu (id_portAttr (ncclIbDevs fl ! db_ibDevN b)));
                          info = dev_info fl b mtu (ce_rkey ce sizesMr);
                          (res3, fs, qs, ss, infos, vb4) = accept_devs ce fl m flush (i + 1) bs vb3
                      in (res3, fifoMr # fs, (case fq of None \<Rightarrow> qs | Some x \<Rightarrow> x # qs), sizesMr # ss, info # infos, vb4))"

definition flush_enabled :: "Conn_Env \<Rightarrow> nat \<Rightarrow> Ib_File \<Rightarrow> bool \<times> Ib_File" where
  "flush_enabled ce dev fl =
     (let (gdr, fl1) = ncclIbGdrSupport (ce_ib ce) fl;
          (ok, fl2) = (if gdr = ncclSuccess then (True, fl1)
                       else case ncclIbDmaBufSupport (ce_ib ce) dev fl1 of (dma, fl2) \<Rightarrow> (dma = ncclSuccess, fl2))
      in (ok \<and> \<not> ce_GdrFlushDisable ce, fl2))"

definition accept_setup ::
  "Conn_Env \<Rightarrow> nat \<Rightarrow> ncclIbConnectionMetadata \<Rightarrow> Recv_Conn \<Rightarrow> Ib_World \<Rightarrow>
   ncclResult_t \<times> Recv_Conn \<times> ncclIbConnectionMetadata \<times> Ib_World" where
  "accept_setup ce dev m comm w =
     (let md = ncclIbMergedDevs (iw_file w) ! dev; ndevs = md_ndevs md; nqps = nqps_of ce ndevs;
          meta0 = \<lparr>mt_qpInfo = [], mt_devs = [], mt_devName = take MAX_MERGED_DEV_NAME (md_devName md), mt_fifoAddr = ce_sizes ce,
                   mt_ndevs = int ndevs\<rparr>;
          (res, bases, fl1, vb1) = accept_bases ce (take ndevs (md_devs md)) (iw_file w) (iw_verbs w);
          w1 = w\<lparr>iw_file := fl1, iw_verbs := vb1\<rparr>;
          comm1 = comm\<lparr>nb_ndevs := ndevs, nb_nqps := nqps, nb_devs := map db_ibDevN bases,
                       rn_cx := (rn_cx comm)\<lparr>cx_devs := bases, cx_nRemDevs := mt_ndevs m\<rparr>\<rparr>
      in if res \<noteq> ncclSuccess then (res, comm1, meta0, w1)
         else let cx2 = copy_rem_devs m (rn_cx comm1);
                  (res1, qps, qinfos, vb2) = accept_qps ce fl1 bases m 0 nqps 0 vb1;
                  comm2 = comm1\<lparr>nb_qps := qps, nb_remFifoRkeys := map di_fifoRkey (cx_remDevs cx2), rn_cx := cx2\<rparr>
              in if res1 \<noteq> ncclSuccess then (res1, comm2, meta0, w1\<lparr>iw_verbs := vb2\<rparr>)
                 else let (flush, fl3) = flush_enabled ce dev fl1;
                          (res2, fs, qs, ss, dinfos, vb3) = accept_devs ce fl3 m flush 0 bases vb2;
                          w3 = w1\<lparr>iw_file := fl3, iw_verbs := vb3\<rparr>;
                          comm3 = comm2\<lparr>rc_flushEnabled := flush, rc_fifoAddr := mt_fifoAddr m, rc_local := ce_fifo ce,
                                        rc_inline := ce_UseInline ce, rc_fifoLkeys := map (ce_lkey ce) fs, rc_flushQps := map snd qs,
                                        rc_flushSges := map (\<lambda>(mr, _). (ce_flushMem ce, ce_lkey ce mr)) qs,
                                        rn_cx := (rn_cx comm2)\<lparr>cx_devs := map (set_link fl3) bases, cx_fifoMrs := map Some fs,
                                          cx_flushMrs := map (\<lambda>(mr, _). Some mr) qs, cx_sizesMrs := map Some ss\<rparr>\<rparr>
                      in (res2, comm3, meta0\<lparr>mt_qpInfo := qinfos, mt_devs := dinfos\<rparr>, w3))"

type_synonym accept_result = "ncclResult_t \<times> Recv_Conn option \<times> ncclIbListenComm \<times> Ib_World"

definition accept_again ::
  "Recv_Conn ncclIbCommStage \<Rightarrow> Recv_Conn \<Rightarrow> ncclIbListenComm \<Rightarrow> Ib_World \<Rightarrow> accept_result" where
  "accept_again sg comm l w = (ncclSuccess, None, l\<lparr>il_stage := sg\<lparr>cs_comm := Some comm\<rparr>\<rparr>, w)"

definition accept_end :: "ncclResult_t \<Rightarrow> Recv_Conn option \<Rightarrow> ncclIbListenComm \<Rightarrow> Ib_World \<Rightarrow> accept_result" where
  "accept_end r comm l w = (r, comm, l\<lparr>il_stage := start_ib_stage\<rparr>, w)"

definition accept_ready ::
  "Recv_Conn ncclIbCommStage \<Rightarrow> Recv_Conn \<Rightarrow> ncclIbListenComm \<Rightarrow> Ib_World \<Rightarrow> accept_result" where
  "accept_ready sg comm l w =
     (let (r, d, off, k) = ncclSocketProgress NCCL_SOCKET_RECV (Some (cx_sock (rn_cx comm))) (cx_ready (rn_cx comm)) 4 (cs_offset sg) (iw_net w);
          w1 = w\<lparr>iw_net := k\<rparr>; sg1 = sg\<lparr>cs_offset := off\<rparr>;
          comm1 = comm\<lparr>nb_ready := list_ex (\<lambda>b. b \<noteq> 0) d, rn_cx := (rn_cx comm)\<lparr>cx_ready := d\<rparr>\<rparr>
      in if r \<noteq> ncclSuccess then accept_end r None l w1
         else if off \<noteq> 4 then accept_again sg1 comm1 l w1
         else accept_end ncclSuccess (Some comm1) l w1)"

definition accept_send ::
  "Conn_Env \<Rightarrow> Recv_Conn ncclIbCommStage \<Rightarrow> Recv_Conn \<Rightarrow> ncclIbListenComm \<Rightarrow> Ib_World \<Rightarrow> accept_result" where
  "accept_send ce sg comm l w =
     (let (r, d, off, k) = ncclSocketProgress NCCL_SOCKET_SEND (Some (cx_sock (rn_cx comm))) (the (cs_buffer sg)) (ce_metaSize ce)
                             (cs_offset sg) (iw_net w);
          w1 = w\<lparr>iw_net := k\<rparr>; sg1 = sg\<lparr>cs_offset := off\<rparr>
      in if r \<noteq> ncclSuccess then accept_end r None l w1
         else if off < ce_metaSize ce then accept_again sg1 comm l w1
         else accept_ready (sg1\<lparr>cs_offset := 0, cs_state := ncclIbCommStatePendingReady\<rparr>) comm l w1)"

definition accept_recv ::
  "Conn_Env \<Rightarrow> Recv_Conn ncclIbCommStage \<Rightarrow> Recv_Conn \<Rightarrow> ncclIbListenComm \<Rightarrow> Ib_World \<Rightarrow> accept_result" where
  "accept_recv ce sg comm l w =
     (let (r, d, off, k) = ncclSocketProgress NCCL_SOCKET_RECV (Some (cx_sock (rn_cx comm))) (the (cs_buffer sg)) (ce_metaSize ce)
                             (cs_offset sg) (iw_net w);
          w1 = w\<lparr>iw_net := k\<rparr>; sg1 = sg\<lparr>cs_offset := off, cs_buffer := Some d\<rparr>
      in if r \<noteq> ncclSuccess then accept_end r None l w1
         else if off \<noteq> ce_metaSize ce then accept_again sg1 comm l w1
         else let (r1, comm1, m1, w2) = accept_setup ce (il_dev l) (ce_unpack ce d) comm w1
              in if r1 \<noteq> ncclSuccess then accept_end r1 None l w2
                 else accept_send ce (sg1\<lparr>cs_state := ncclIbCommStateSend, cs_offset := 0, cs_buffer := Some (ce_pack ce m1)\<rparr>) comm1 l w2)"

text \<open>The buffer holds what the allocator gives; it is written before it is read.\<close>

definition ib_accept_check ::
  "Conn_Env \<Rightarrow> Recv_Conn ncclIbCommStage \<Rightarrow> Recv_Conn \<Rightarrow> ncclIbListenComm \<Rightarrow> Ib_World \<Rightarrow> accept_result option" where
  "ib_accept_check ce sg comm l w =
     (case ncclSocketReady (Some (cx_sock (rn_cx comm))) (iw_net w) of
        None \<Rightarrow> None
      | Some (r, ready, s, k) \<Rightarrow>
          let comm1 = comm\<lparr>rn_cx := (rn_cx comm)\<lparr>cx_sock := the s\<rparr>\<rparr>; w1 = w\<lparr>iw_net := k\<rparr>
          in if r \<noteq> ncclSuccess then Some (accept_end r None l w1)
             else if ready \<noteq> Some True then Some (accept_again sg comm1 l w1)
             else Some (accept_recv ce (sg\<lparr>cs_state := ncclIbCommStateRecv, cs_offset := 0,
                          cs_buffer := Some (replicate (ce_metaSize ce) 0)\<rparr>) comm1 l w1))"

definition ib_accept_start :: "Conn_Env \<Rightarrow> ncclIbListenComm \<Rightarrow> Ib_World \<Rightarrow> accept_result option" where
  "ib_accept_start ce l w =
     (let (r, s, k) = ncclSocketInit (Some zero_sock) None NCCL_SOCKET_MAGIC ncclSocketTypeUnknown False False (iw_net w);
          sg = (il_stage l)\<lparr>cs_state := ncclIbCommStateAccept\<rparr>
      in if r \<noteq> ncclSuccess then Some (accept_end r None l (w\<lparr>iw_net := k\<rparr>))
         else case ncclSocketAccept s (Some (il_sock l)) k of
                None \<Rightarrow> None
              | Some (r1, s1, k1) \<Rightarrow>
                  let comm = zero_recv_conn\<lparr>rn_cx := zero_part\<lparr>cx_sock := the s1\<rparr>\<rparr>; w1 = w\<lparr>iw_net := k1\<rparr>
                  in if r1 \<noteq> ncclSuccess then Some (accept_end r1 None l w1)
                     else ib_accept_check ce (sg\<lparr>cs_comm := Some comm\<rparr>) comm l w1)"

definition ncclIbAccept :: "Conn_Env \<Rightarrow> ncclIbListenComm \<Rightarrow> Ib_World \<Rightarrow> accept_result option" where
  "ncclIbAccept ce l w =
     (let sg = il_stage l; comm = the (cs_comm sg)
      in case cs_state sg of
           ncclIbCommStateAccept \<Rightarrow> ib_accept_check ce sg comm l w
         | ncclIbCommStateRecv \<Rightarrow> Some (accept_recv ce sg comm l w)
         | ncclIbCommStateSend \<Rightarrow> Some (accept_send ce sg comm l w)
         | ncclIbCommStatePendingReady \<Rightarrow> Some (accept_ready sg comm l w)
         | ncclIbCommStateStart \<Rightarrow> ib_accept_start ce l w
         | _ \<Rightarrow> Some (ncclInternalError, None, l, w))"

section \<open>Closing\<close>

fun destroy_qps :: "nat list \<Rightarrow> Verbs \<Rightarrow> ncclResult_t \<times> Verbs" where
  "destroy_qps [] vb = (ncclSuccess, vb)"
| "destroy_qps (q # qs) vb =
     (let (res, vb1) = wrap_ibv_destroy_qp q vb in if res \<noteq> ncclSuccess then (res, vb1) else destroy_qps qs vb1)"

fun dereg_mrs :: "nat option list \<Rightarrow> Verbs \<Rightarrow> ncclResult_t \<times> Verbs" where
  "dereg_mrs [] vb = (ncclSuccess, vb)"
| "dereg_mrs (None # ms) vb = dereg_mrs ms vb"
| "dereg_mrs (Some m # ms) vb =
     (let (res, vb1) = vb_dereg_mr m vb in if res \<noteq> ncclSuccess then (res, vb1) else dereg_mrs ms vb1)"

text \<open>The regions and flush queue pairs of one device, in the order in which they go, and then its base.\<close>

fun close_devs ::
  "(nat list \<times> nat option list \<times> ncclIbNetCommDevBase) list \<Rightarrow> Ib_File \<Rightarrow> Verbs \<Rightarrow> ncclResult_t \<times> Ib_File \<times> Verbs" where
  "close_devs [] fl vb = (ncclSuccess, fl, vb)"
| "close_devs ((qs, mrs, b) # ds) fl vb =
     (let (res, vb1) = destroy_qps qs vb
      in if res \<noteq> ncclSuccess then (res, fl, vb1)
         else let (res1, vb2) = dereg_mrs mrs vb1
              in if res1 \<noteq> ncclSuccess then (res1, fl, vb2)
                 else let (res2, fl1, vb3) = ncclIbDestroyBase b fl vb2
                      in if res2 \<noteq> ncclSuccess then (res2, fl1, vb3) else close_devs ds fl1 vb3)"

definition close_conn ::
  "Conn_Part \<Rightarrow> nat list \<Rightarrow> (nat list \<times> nat option list \<times> ncclIbNetCommDevBase) list \<Rightarrow> Ib_World \<Rightarrow> ncclResult_t \<times> Ib_World" where
  "close_conn cx qps devs w =
     (let (r, s, k) = ncclSocketClose (Some (cx_sock cx)) (iw_net w); w1 = w\<lparr>iw_net := k\<rparr>
      in if r \<noteq> ncclSuccess then (r, w1)
         else let (r1, vb1) = destroy_qps qps (iw_verbs w1)
              in if r1 \<noteq> ncclSuccess then (r1, w1\<lparr>iw_verbs := vb1\<rparr>)
                 else let (r2, fl2, vb2) = close_devs devs (iw_file w1) vb1 in (r2, w1\<lparr>iw_file := fl2, iw_verbs := vb2\<rparr>))"

definition ncclIbCloseSend :: "Send_Conn option \<Rightarrow> Ib_World \<Rightarrow> ncclResult_t \<times> Ib_World" where
  "ncclIbCloseSend sendComm w =
     (case sendComm of
        None \<Rightarrow> (ncclSuccess, w)
      | Some comm \<Rightarrow>
          let cx = sn_cx comm
          in close_conn cx (map qp_qp (nb_qps comm))
               (map (\<lambda>i. ([], [cx_fifoMrs cx ! i, cx_sizesMrs cx ! i], cx_devs cx ! i)) [0..<nb_ndevs comm]) w)"

definition ncclIbCloseRecv :: "Recv_Conn option \<Rightarrow> Ib_World \<Rightarrow> ncclResult_t \<times> Ib_World" where
  "ncclIbCloseRecv recvComm w =
     (case recvComm of
        None \<Rightarrow> (ncclSuccess, w)
      | Some comm \<Rightarrow>
          let cx = rn_cx comm; flush = rc_flushEnabled comm
          in close_conn cx (map qp_qp (nb_qps comm))
               (map (\<lambda>i. (if flush then [rc_flushQps comm ! i] else [],
                          (if flush then [cx_flushMrs cx ! i] else []) @ [cx_fifoMrs cx ! i, cx_sizesMrs cx ! i], cx_devs cx ! i))
                  [0..<nb_ndevs comm]) w)"

definition ncclIbCloseListen :: "ncclIbListenComm option \<Rightarrow> Ib_World \<Rightarrow> ncclResult_t \<times> Ib_World" where
  "ncclIbCloseListen listenComm w =
     (case listenComm of
        None \<Rightarrow> (ncclSuccess, w)
      | Some l \<Rightarrow> (case ncclSocketClose (Some (il_sock l)) (iw_net w) of (r, _, k) \<Rightarrow> (r, w\<lparr>iw_net := k\<rparr>)))"

section \<open>Queue pairs of a connection\<close>

text \<open>What has been asked of the queue pairs only grows.\<close>

definition grows :: "Verbs \<Rightarrow> Verbs \<Rightarrow> (nat \<times> qp_mod) list \<Rightarrow> bool" where
  "grows vb vb1 ms \<longleftrightarrow> vb_mods vb1 = vb_mods vb @ ms"

lemma grows_trans: "grows vb vb1 ms \<Longrightarrow> grows vb1 vb2 ns \<Longrightarrow> grows vb vb2 (ms @ ns)"
  by (simp add: grows_def)

lemma vb_call_grows: "vb_call vb = (res, vb1) \<Longrightarrow> grows vb vb1 []"
  by (simp add: grows_def vb_call_keeps)

lemma reg_mr_grows: "vb_reg_mr vb = (res, mr, vb1) \<Longrightarrow> grows vb vb1 [] \<and> (mr = None \<longleftrightarrow> res \<noteq> ncclSuccess)"
  by (auto simp: grows_def vb_reg_mr_def Let_def vb_call_keeps split: prod.splits if_splits)

lemma modify_qp_grows:
  assumes "wrap_ibv_modify_qp qp m vb = (ncclSuccess, vb1)"
  shows "grows vb vb1 [(qp, m)]"
  using assms by (auto simp: grows_def wrap_ibv_modify_qp_def Let_def vb_call_keeps split: prod.splits if_splits)

lemma rtr_rts_grows:
  assumes "rtr_rts ce qp g n info tc vb = (ncclSuccess, vb1)"
  shows "\<exists>rts. grows vb vb1 [(qp, To_Rtr (rtr_attributes ce g n info tc)), (qp, rts)]"
proof -
  obtain r v where a: "ncclIbRtrQp ce qp g n info tc vb = (r, v)" by force
  then have "grows vb v [(qp, To_Rtr (rtr_attributes ce g n info tc))]" "ncclIbRtsQp ce qp v = (ncclSuccess, vb1)"
    using assms modify_qp_grows by (auto simp: rtr_rts_def ncclIbRtrQp_def split: if_splits)
  moreover from this(2) have "grows v vb1 [(qp, To_Rts (ce_Timeout ce) (ce_RetryCnt ce) 7 0 1)]"
    unfolding ncclIbRtsQp_def by (rule modify_qp_grows)
  ultimately show ?thesis using grows_trans by fastforce
qed

lemma create_qp_grows:
  assumes "ncclIbCreateQp ce p b flags vb = (ncclSuccess, qp, vb1)"
  shows "grows vb vb1 [(qp, To_Init (ce_Pkey ce) p flags)]"
proof -
  obtain r o1 v where c: "wrap_ibv_create_qp vb = (r, o1, v)" by (metis prod_cases3)
  then have "grows vb v []" "o1 = None \<longleftrightarrow> r \<noteq> ncclSuccess"
    by (auto simp: grows_def wrap_ibv_create_qp_def Let_def vb_call_keeps split: prod.splits if_splits)
  then show ?thesis
    using assms c modify_qp_grows grows_trans [of vb v "[]"] by (auto simp: ncclIbCreateQp_def split: option.splits prod.splits)
qed

lemma create_qps_infos:
  "create_qps ce fl bases n d vb = (ncclSuccess, qps, infos, vb1) \<Longrightarrow>
     length qps = n \<and> length infos = n \<and>
     (\<forall>j<n. qi_qpn (infos ! j) = ce_qp_num ce (qp_qp (qps ! j)) \<and> qi_devIndex (infos ! j) = qp_devIndex (qps ! j))"
proof (induction n arbitrary: d vb qps infos)
  case (Suc n)
  obtain qp qps1 infos1 v where
    "create_qps ce fl bases n ((d + 1) mod length bases) v = (ncclSuccess, qps1, infos1, vb1)"
    "qps = \<lparr>qp_qp = qp, qp_devIndex = d, qp_remDevIdx = 0\<rparr> # qps1"
    "\<exists>i. infos = i # infos1 \<and> qi_qpn i = ce_qp_num ce qp \<and> qi_devIndex i = d"
    using Suc.prems by (auto simp: Let_def split: prod.splits if_splits)
  then show ?case using Suc.IH by (auto simp: nth_Cons split: nat.split)
qed simp

text \<open>Queue pair \<open>p\<close> has been told to talk to the one its peer's entry names.\<close>

definition paired :: "Conn_Env \<Rightarrow> ncclIbConnectionMetadata \<Rightarrow> nat \<Rightarrow> ncclIbQp \<Rightarrow> (nat \<times> qp_mod) list \<Rightarrow> bool" where
  "paired ce m q p ms \<longleftrightarrow>
     qp_remDevIdx p = qi_devIndex (mt_qpInfo m ! q) \<and>
     (\<exists>g tc. (qp_qp p, To_Rtr (rtr_attributes ce g (qi_qpn (mt_qpInfo m ! q)) (mt_devs m ! qi_devIndex (mt_qpInfo m ! q)) tc)) \<in> set ms)"

lemma paired_mono: "paired ce m q p ms \<Longrightarrow> set ms \<subseteq> set ns \<Longrightarrow> paired ce m q p ns"
  by (auto simp: paired_def)

lemma accept_ece_grows:
  assumes "accept_ece ce qp r vb = (ncclSuccess, ece, vb1)"
  shows "grows vb vb1 []"
  using assms vb_call_grows grows_trans [where ms = "[]" and ns = "[]"]
  by (fastforce simp: accept_ece_def Let_def grows_def split: if_splits prod.splits)

lemma accept_qps_paired:
  "accept_qps ce fl bases m q n d vb = (ncclSuccess, qps, infos, vb1) \<Longrightarrow>
     length qps = n \<and> length infos = n \<and>
     (\<exists>ms. grows vb vb1 ms \<and>
       (\<forall>j<n. qi_qpn (infos ! j) = ce_qp_num ce (qp_qp (qps ! j)) \<and> qi_devIndex (infos ! j) = qp_devIndex (qps ! j) \<and>
              paired ce m (q + j) (qps ! j) ms))"
proof (induction n arbitrary: q d vb vb1 qps infos)
  case 0
  then show ?case by (auto simp: grows_def)
next
  case (Suc n)
  let ?r = "mt_qpInfo m ! q" and ?b = "bases ! d"
  obtain res qp v where c: "ncclIbCreateQp ce (id_portNum (ncclIbDevs fl ! db_ibDevN ?b)) ?b [IBV_ACCESS_REMOTE_WRITE] vb = (res, qp, v)"
    by (metis prod_cases3)
  obtain res1 ece v1 where e: "accept_ece ce qp ?r v = (res1, ece, v1)" by (metis prod_cases3)
  obtain res2 v2 where t: "rtr_rts ce qp (db_gidInfo ?b) (qi_qpn ?r) (mt_devs m ! qi_devIndex ?r) (q = 0) v1 = (res2, v2)" by force
  obtain res3 qps1 infos1 v3 where rest: "accept_qps ce fl bases m (q + 1) n ((d + 1) mod length bases) v2 = (res3, qps1, infos1, v3)"
    by (metis prod_cases4)
  let ?p = "\<lparr>qp_qp = qp, qp_devIndex = d, qp_remDevIdx = qi_devIndex ?r\<rparr>"
  let ?i = "\<lparr>qi_qpn = ce_qp_num ce qp, qi_ece = fst ece, qi_ece_supported = snd ece, qi_devIndex = d\<rparr>"
  have ok: "res = ncclSuccess" "res1 = ncclSuccess" "res2 = ncclSuccess" "res3 = ncclSuccess" "qps = ?p # qps1" "infos = ?i # infos1" "vb1 = v3"
    using Suc.prems c e t rest by (auto simp: Let_def split: if_splits)
  obtain rts where g: "grows v1 v2 [(qp, To_Rtr (rtr_attributes ce (db_gidInfo ?b) (qi_qpn ?r) (mt_devs m ! qi_devIndex ?r) (q = 0))), (qp, rts)]"
    using rtr_rts_grows [OF t [unfolded ok(3)]] by blast
  obtain ms where ms: "length qps1 = n" "length infos1 = n" "grows v2 v3 ms"
      "\<forall>j<n. qi_qpn (infos1 ! j) = ce_qp_num ce (qp_qp (qps1 ! j)) \<and> qi_devIndex (infos1 ! j) = qp_devIndex (qps1 ! j) \<and>
             paired ce m (q + 1 + j) (qps1 ! j) ms"
    using Suc.IH [OF rest [unfolded ok(4)]] by blast
  let ?ms = "(qp, To_Init (ce_Pkey ce) (id_portNum (ncclIbDevs fl ! db_ibDevN ?b)) [IBV_ACCESS_REMOTE_WRITE]) #
    [(qp, To_Rtr (rtr_attributes ce (db_gidInfo ?b) (qi_qpn ?r) (mt_devs m ! qi_devIndex ?r) (q = 0))), (qp, rts)] @ ms"
  have "grows vb vb1 ?ms"
    using create_qp_grows [OF c [unfolded ok(1)]] accept_ece_grows [OF e [unfolded ok(2)]] g ms(3) by (simp add: grows_def ok(7))
  moreover have "paired ce m q ?p ?ms" unfolding paired_def by (rule conjI, simp, rule exI [of _ "db_gidInfo ?b"], rule exI [of _ "q = 0"], simp)
  moreover have "paired ce m (q + 1 + j) (qps1 ! j) ?ms" if "j < n" for j
    using ms(4) that paired_mono [of ce m "q + 1 + j" "qps1 ! j" ms ?ms] by auto
  ultimately show ?case
    using ms(1,2,4) by (auto simp: ok(5,6) nth_Cons split: nat.split intro!: exI [of _ ?ms])
qed

lemma connect_qps_paired:
  "connect_qps ce bases m q ps vb = (ncclSuccess, ps1, vb1) \<Longrightarrow>
     length ps1 = length ps \<and>
     (\<exists>ms. grows vb vb1 ms \<and>
       (\<forall>j<length ps. qp_qp (ps1 ! j) = qp_qp (ps ! j) \<and> qp_devIndex (ps1 ! j) = qp_devIndex (ps ! j) \<and> paired ce m (q + j) (ps1 ! j) ms))"
proof (induction ps arbitrary: q vb vb1 ps1)
  case Nil
  then show ?case by (auto simp: grows_def)
next
  case (Cons p ps)
  let ?r = "mt_qpInfo m ! q"
  obtain res v where c: "(if qi_ece_supported ?r \<noteq> 0 then vb_call vb else (ncclSuccess, vb)) = (res, v)" by force
  obtain res1 v1 where t: "rtr_rts ce (qp_qp p) (db_gidInfo (bases ! qp_devIndex p)) (qi_qpn ?r) (mt_devs m ! qi_devIndex ?r) False v = (res1, v1)"
    by force
  obtain res2 ps2 v2 where rest: "connect_qps ce bases m (q + 1) ps v1 = (res2, ps2, v2)" by (metis prod_cases3)
  let ?p = "p\<lparr>qp_remDevIdx := qi_devIndex ?r\<rparr>"
  have ok: "res = ncclSuccess" "res1 = ncclSuccess" "res2 = ncclSuccess" "ps1 = ?p # ps2" "vb1 = v2"
    using Cons.prems c t rest by (auto simp: Let_def split: if_splits)
  have "grows vb v []" using c vb_call_grows by (auto simp: grows_def split: if_splits)
  moreover obtain rts where g: "grows v v1 [(qp_qp p, To_Rtr (rtr_attributes ce (db_gidInfo (bases ! qp_devIndex p)) (qi_qpn ?r)
      (mt_devs m ! qi_devIndex ?r) False)), (qp_qp p, rts)]"
    using rtr_rts_grows [OF t [unfolded ok(2)]] by blast
  moreover obtain ms where ms: "length ps2 = length ps" "grows v1 v2 ms"
      "\<forall>j<length ps. qp_qp (ps2 ! j) = qp_qp (ps ! j) \<and> qp_devIndex (ps2 ! j) = qp_devIndex (ps ! j) \<and> paired ce m (q + 1 + j) (ps2 ! j) ms"
    using Cons.IH [OF rest [unfolded ok(3)]] by blast
  let ?ms = "[(qp_qp p, To_Rtr (rtr_attributes ce (db_gidInfo (bases ! qp_devIndex p)) (qi_qpn ?r) (mt_devs m ! qi_devIndex ?r) False)),
    (qp_qp p, rts)] @ ms"
  have "grows vb vb1 ?ms" using \<open>grows vb v []\<close> g ms(2) by (simp add: grows_def ok(5))
  moreover have "paired ce m q ?p ?ms" unfolding paired_def
    by (rule conjI, simp, rule exI [of _ "db_gidInfo (bases ! qp_devIndex p)"], rule exI [of _ False], simp)
  moreover have "paired ce m (q + 1 + j) (ps2 ! j) ?ms" if "j < length ps" for j
    using ms(3) that paired_mono [of ce m "q + 1 + j" "ps2 ! j" ms ?ms] by auto
  ultimately show ?case
    using ms(1,3) by (auto simp: ok(4) nth_Cons split: nat.split intro!: exI [of _ ?ms])
qed

lemma flush_qp_grows:
  assumes "flush_qp ce fl b vb = (ncclSuccess, q, vb1)"
  shows "\<exists>ms. grows vb vb1 ms"
proof -
  obtain r mr v where c: "vb_reg_mr vb = (r, mr, v)" by (metis prod_cases3)
  then obtain m where m: "mr = Some m" using assms reg_mr_grows [OF c] by (cases mr) (auto simp: flush_qp_def)
  obtain r1 qp v1 where q: "ncclIbCreateQp ce (id_portNum (ncclIbDevs fl ! db_ibDevN b)) b [IBV_ACCESS_LOCAL_WRITE, IBV_ACCESS_REMOTE_READ] v = (r1, qp, v1)"
    by (metis prod_cases3)
  have ok: "r1 = ncclSuccess" "rtr_rts ce qp (db_gidInfo b) (ce_qp_num ce qp)
      (dev_info fl b (pa_mtu (id_portAttr (ncclIbDevs fl ! db_ibDevN b))) 0) False v1 = (ncclSuccess, vb1)"
    using assms c m q by (auto simp: flush_qp_def Let_def split: if_splits prod.splits)
  show ?thesis
    using reg_mr_grows [OF c] create_qp_grows [OF q [unfolded ok(1)]] rtr_rts_grows [OF ok(2)] grows_trans by blast
qed

lemma accept_devs_grows:
  "accept_devs ce fl m flush i bs vb = (ncclSuccess, fs, qs, ss, infos, vb1) \<Longrightarrow> \<exists>ms. grows vb vb1 ms"
proof (induction bs arbitrary: i vb fs qs ss infos)
  case Nil
  then show ?case by (auto simp: grows_def)
next
  case (Cons b bs)
  obtain r mr v where c: "vb_reg_mr vb = (r, mr, v)" by (metis prod_cases3)
  then obtain m1 where m1: "mr = Some m1" using Cons.prems reg_mr_grows [OF c] by (cases mr) auto
  obtain r1 fq v1 where f: "(if flush then flush_qp ce fl b v else (ncclSuccess, None, v)) = (r1, fq, v1)" by (metis prod_cases3)
  obtain r2 mr2 v2 where c2: "vb_reg_mr v1 = (r2, mr2, v2)" by (metis prod_cases3)
  have r1: "r1 = ncclSuccess" using Cons.prems c m1 f by (auto split: if_splits)
  then obtain m2 where m2: "mr2 = Some m2" using Cons.prems c m1 f c2 reg_mr_grows [OF c2] by (cases mr2) auto
  obtain fs1 qs1 ss1 is1 where rest: "accept_devs ce fl m flush (i + 1) bs v2 = (ncclSuccess, fs1, qs1, ss1, is1, vb1)"
    using Cons.prems c m1 f r1 c2 m2 by (auto simp: Let_def split: prod.splits)
  have "\<exists>ms. grows v v1 ms" using f r1 flush_qp_grows by (auto simp: grows_def split: if_splits)
  then show ?case using reg_mr_grows [OF c] reg_mr_grows [OF c2] Cons.IH [OF rest] grows_trans by blast
qed

lemma reg_sizes_grows: "reg_sizes n vb = (ncclSuccess, mrs, vb1) \<Longrightarrow> grows vb vb1 []"
proof (induction n arbitrary: vb mrs)
  case (Suc n)
  obtain r mr v where c: "vb_reg_mr vb = (r, mr, v)" by (metis prod_cases3)
  then obtain m where m: "mr = Some m" using Suc.prems reg_mr_grows [OF c] by (cases mr) auto
  then obtain mrs1 where "reg_sizes n v = (ncclSuccess, mrs1, vb1)" using Suc.prems c by (auto split: prod.splits)
  then show ?case using Suc.IH reg_mr_grows [OF c] grows_trans [of vb v "[]" vb1 "[]"] by auto
qed (auto simp: grows_def)

text \<open>The queue pairs of a connection match. When the connecting side has prepared its queue pairs, the accepting side
  has answered and the connecting side has finished, with as many queue pairs on both sides and the metadata carried
  unchanged, then number \<open>q\<close> on either side has been told to receive from number \<open>q\<close> of the other side and to use
  the remote keys of the device that one is on.\<close>

theorem connected_queue_pairs_match:
  assumes "connect_setup ceS devS c0 wS = (ncclSuccess, c1, ms, wS1)"
    and "accept_setup ceR devR ms r0 wR = (ncclSuccess, r1, mr, wR1)"
    and "connect_finish ceS mr c2 wS2 = (ncclSuccess, c3, wS3)" "nb_qps c2 = nb_qps c1"
    and "length (nb_qps r1) = length (nb_qps c1)" "q < length (nb_qps c1)"
  shows "qp_remDevIdx (nb_qps c3 ! q) = qp_devIndex (nb_qps r1 ! q) \<and> qp_remDevIdx (nb_qps r1 ! q) = qp_devIndex (nb_qps c3 ! q) \<and>
    (\<exists>g tc d. (qp_qp (nb_qps c3 ! q), To_Rtr (rtr_attributes ceS g (ce_qp_num ceR (qp_qp (nb_qps r1 ! q))) d tc)) \<in> set (vb_mods (iw_verbs wS3))) \<and>
    (\<exists>g tc d. (qp_qp (nb_qps r1 ! q), To_Rtr (rtr_attributes ceR g (ce_qp_num ceS (qp_qp (nb_qps c3 ! q))) d tc)) \<in> set (vb_mods (iw_verbs wR1)))"
proof -
  obtain fl bases vb vb1 n where s: "create_qps ceS fl bases n 0 vb = (ncclSuccess, nb_qps c1, mt_qpInfo ms, vb1)"
    using assms(1) by (auto simp: connect_setup_def Let_def split: prod.splits if_splits)
  note S = create_qps_infos [OF s]
  obtain flr basesr vr vr1 nr flush flr3 fs qs ss dinfos where
    r: "accept_qps ceR flr basesr ms 0 nr 0 vr = (ncclSuccess, nb_qps r1, mt_qpInfo mr, vr1)"
    and d: "accept_devs ceR flr3 ms flush 0 basesr vr1 = (ncclSuccess, fs, qs, ss, dinfos, iw_verbs wR1)"
    using assms(2) by (auto simp: accept_setup_def Let_def split: prod.splits if_splits)
  obtain rs where R: "length (nb_qps r1) = nr" "grows vr vr1 rs"
    "\<And>j. j < nr \<Longrightarrow> qi_qpn (mt_qpInfo mr ! j) = ce_qp_num ceR (qp_qp (nb_qps r1 ! j)) \<and>
       qi_devIndex (mt_qpInfo mr ! j) = qp_devIndex (nb_qps r1 ! j) \<and> paired ceR ms j (nb_qps r1 ! j) rs"
    using accept_qps_paired [OF r] by auto
  obtain ds where D: "grows vr1 (iw_verbs wR1) ds" using accept_devs_grows [OF d] by blast
  obtain mrs bases2 vf vf1 where f: "reg_sizes (nb_ndevs c2) (iw_verbs wS2) = (ncclSuccess, mrs, vf)"
    and c: "connect_qps ceS bases2 mr 0 (nb_qps c2) vf = (ncclSuccess, nb_qps c3, iw_verbs wS3)"
    using assms(3) by (auto simp: connect_finish_def Let_def split: prod.splits if_splits)
  obtain cs where C: "grows vf (iw_verbs wS3) cs" "\<And>j. j < length (nb_qps c2) \<Longrightarrow> qp_qp (nb_qps c3 ! j) = qp_qp (nb_qps c2 ! j) \<and>
      qp_devIndex (nb_qps c3 ! j) = qp_devIndex (nb_qps c2 ! j) \<and> paired ceS mr j (nb_qps c3 ! j) cs"
    using connect_qps_paired [OF c] by auto
  have q: "q < n" "q < nr" "q < length (nb_qps c2)" using assms(4-6) S R(1) by simp_all
  have "set cs \<subseteq> set (vb_mods (iw_verbs wS3))" "set rs \<subseteq> set (vb_mods (iw_verbs wR1))"
    using C(1) R(2) D by (auto simp: grows_def)
  then have p: "paired ceS mr q (nb_qps c3 ! q) (vb_mods (iw_verbs wS3))" "paired ceR ms q (nb_qps r1 ! q) (vb_mods (iw_verbs wR1))"
    using C(2) [OF q(3)] R(3) [OF q(2)] paired_mono by blast+
  have i: "qi_qpn (mt_qpInfo mr ! q) = ce_qp_num ceR (qp_qp (nb_qps r1 ! q))" "qi_devIndex (mt_qpInfo mr ! q) = qp_devIndex (nb_qps r1 ! q)"
    "qi_qpn (mt_qpInfo ms ! q) = ce_qp_num ceS (qp_qp (nb_qps c3 ! q))" "qi_devIndex (mt_qpInfo ms ! q) = qp_devIndex (nb_qps c3 ! q)"
    using R(3) [OF q(2)] S C(2) [OF q(3)] q(1) assms(4) by auto
  show ?thesis using p unfolding paired_def i by blast
qed

end
