(* ===== verification/Spec2Isabelle.thy ===== *)
theory Spec2Isabelle
  imports Prelude Config Interfaces Fingerprint FingerprintTable FingerprintCache NetDevice
    Transport SendReq RecvReq NetDedup Plugin Wire SendStream RecvStream Progress Protocol CacheUse Requests
    NcclSocket NcclSockState NcclHandshake NcclIfs NetSocket NetTasks Striping
    NetAdapters NetPlugin NetGdr IbMrCache IbTransfer IbSend IbGid IbDevices IbQps IbConnect
begin

text \<open>
  \<^bold>\<open>libnccl_netdedup: a verification library.\<close>

  The repository is a network plugin for NCCL that sends a large message as the list of the
  fingerprints of its chunks and transmits only the chunks the receiver does not hold in a cache shared
  by the processes of a machine. The program is C; a model of each of its parts and the theorems about it
  are in the theories listed here, in the order in which the parts depend on each other.

  \<^bold>\<open>The parts and where they are.\<close>

  \<^item> \<open>Prelude\<close>: bytes, buffers written in place (\<open>bytes_at\<close>, \<open>bytes_put\<close>), little-endian integers,
    offsets of consecutive blocks, the lemma collections \<open>layout\<close> and \<open>cyclic\<close>. \<open>Config\<close>: \<^verbatim>\<open>config.h\<close>,
    \<^verbatim>\<open>common.h\<close>, \<^verbatim>\<open>err.h\<close>.
  \<^item> \<open>Fingerprint\<close>: \<^verbatim>\<open>fingerprint.c\<close>. The Rabin table, the initial and rolling value of the window and the
    loop of \<^verbatim>\<open>do_fingerprinting\<close> that cuts a buffer into chunks (\<open>do_fingerprinting\<close> over the loop state
    \<open>Chunk_State\<close>). OpenSSL's digests are parameters.
  \<^item> \<open>FingerprintTable\<close>: \<^verbatim>\<open>fingerprint_table.c\<close>. The open-addressing table, a bit vector for the empty slots
    beside an array of items; insert, find and remove with back-shifting.
  \<^item> \<open>FingerprintCache\<close>: \<^verbatim>\<open>fingerprint_cache.c\<close>. The pages, the ring of free page numbers, insertion,
    lookup and copy.
  \<^item> \<open>NetDevice\<close>: \<^verbatim>\<open>net_device.c\<close>, the discovery of the interfaces.
  \<^item> \<open>Transport\<close>, \<open>SendReq\<close>, \<open>RecvReq\<close>: \<^verbatim>\<open>net_dedup.h\<close> and the request handlers of \<^verbatim>\<open>net_dedup.c\<close>. A request
    is a record with a stage; \<open>send_handler\<close> and \<open>recv_handler\<close> are one call of the handler of a stage,
    \<open>send_next_stage\<close> and \<open>recv_next_stage\<close> the stage it leads to, and \<open>process_send\<close> and \<open>process_recv\<close> the
    loops that run handlers until one has to wait. The \<open>World\<close> is what they share: sockets, cache, flags,
    dump files, \<open>errno\<close>.
  \<^item> \<open>NetDedup\<close>: the exported functions of \<^verbatim>\<open>net_dedup.c\<close>; \<open>Plugin\<close>: \<^verbatim>\<open>net_dedup_coll.c\<close> and
    \<^verbatim>\<open>plugin_netdedup.c\<close>, the stubs and the tables NCCL loads.
  \<^item> \<open>Interfaces\<close>: the contracts between the parts as locales. \<open>key_store\<close> is what the cache needs of its
    table (interpreted as \<open>tab\<close> in \<open>FingerprintTable\<close>), \<open>content_store\<close> what the transport needs of the cache
    (\<open>cache\<close> in \<open>FingerprintCache\<close>), \<open>stream_endpoint\<close>, \<open>scripted_endpoint\<close> and \<open>choosing_endpoint\<close> what the
    protocol needs of the two requests (\<open>send\<close> in \<open>SendStream\<close>, \<open>recv\<close> in \<open>RecvStream\<close>), \<open>stream_link\<close> the two
    connected (\<open>link\<close> in \<open>Protocol\<close>).
  \<^item> \<open>Wire\<close>: the abstract specification of a message, the bytes that travel in both directions as a
    function of the data and of the list of chunks the receiver asks for.
  \<^item> \<open>SendStream\<close>, \<open>RecvStream\<close>: every handler refines that specification; \<open>Progress\<close>: every handler that
    gets an answer makes progress; \<open>Protocol\<close>: the two requests joined by a connection as a step relation
    \<open>link_step\<close>; \<open>CacheUse\<close>: what transfers leave in the caches; \<open>Requests\<close>: the loops and the exported
    functions as their callers see them.
  \<^item> \<^verbatim>\<open>nccl_internal_impl\<close> holds the socket code of NCCL the plugin is modelled on. \<open>NcclSocket\<close>,
    \<open>NcclSockState\<close>, \<open>NcclIfs\<close>: \<^verbatim>\<open>socket.h\<close> and \<^verbatim>\<open>socket.cc\<close>, moving bytes, the state machine of a socket from
    \<open>ncclSocketInit\<close> to \<open>ncclSocketClose\<close>, and the choice of interfaces, over the kernel record \<open>Net\<close> (the streams
    and answers of every descriptor and the answers of the other calls); \<open>NcclHandshake\<close>: connecting and accepting as
    a whole. \<open>NetSocket\<close>, \<open>NetTasks\<close>: \<^verbatim>\<open>net_socket.cc\<close>, devices and connections, then requests, the tasks they are cut
    into and the rounds of the helper threads; \<open>Striping\<close>: two such sides and the network as the step
    relation \<open>stripe_step\<close>.
  \<^item> \<open>NetAdapters\<close>, \<open>NetPlugin\<close>, \<open>NetGdr\<close>: \<^verbatim>\<open>net.cc\<close>, the program on the other side of this plugin's tables. The
    functions that make an older table look like one of version 8; finding, loading and unloading a plugin and
    choosing the network of a communicator (the record \<open>Nccl\<close> is the file's static state); the test whether a network
    can reach GPU memory.
  \<^item> \<open>IbMrCache\<close>, \<open>IbTransfer\<close>, \<open>IbSend\<close>: \<^verbatim>\<open>net_ib.cc\<close>. The sorted cache of memory registrations with the
    step relation \<open>reg_step\<close> of its users; requests, announced receives, work requests and the polling of completions
    over the record \<open>Ibv\<close> of what the verbs library has been given and will answer; what a send writes.
  \<^item> \<open>IbGid\<close>, \<open>IbDevices\<close>, \<open>IbQps\<close>, \<open>IbConnect\<close>: the rest of \<^verbatim>\<open>net_ib.cc\<close>. The choice of an address of a port;
    finding the cards, merging their ports into devices and the thread that counts fatal events (\<open>Ib_File\<close> is the file's static
    state, \<open>Ib_Env\<close> what library, file system and environment answer); protection domains and queue pairs over the record
    \<open>Verbs\<close>; listening, connecting, accepting and closing, where a call goes on at the stage the last one has reached.

  \<^bold>\<open>What the theorems show.\<close>

  \<^item> Chunking ends for every buffer, its chunks partition the buffer, their sizes and their number are
    bounded, every index the loop uses is in range, and in the first chunk the rolling value is the value
    computed directly. The table implements a finite map (lookup, update, deletion), the cache a map from
    digests to contents.
  \<^item> End to end (\<open>Protocol\<close>): a completed receive holds the data that was sent, in every interleaving of
    calls, partial transfers, failing calls, arrivals and changes by other requests; nothing is left in
    the pipes; and no reachable state is a dead end as long as the locks of the caches are released.
  \<^item> Caches (\<open>CacheUse\<close>): populating takes exactly what is held, both insertion stages store the chunks
    of the message and nothing else, and a message that is held needs no content on the wire.
  \<^item> Calls (\<open>Requests\<close>): the loops return and never go back; a test never kills the process; through every run of calls
    there is one request at a time on a connection; the dump files can be read back; what initialisation establishes.
  \<^item> NCCL's sockets (without an abort flag): a wait succeeds when it is fed before a fatal answer, reports a fatal one and otherwise
    waits for ever; in every life of a socket the retry counters stay under their limits, as long as a socket that has given up
    is not polled and no descriptor -1 is put in; connecting survives refusals, accepting survives strangers, and the
    handshake decides by magic and type, whether a socket is polled or blocking. A striped request is cut without gap or overlap,
    and when it is the only one on its connection and the receiver sees it complete it holds the sender's bytes, whatever the
    helper threads and the network do in between.
  \<^item> Loading of plugins: the counters and tables stay consistent in every history; the first usable network (\<open>net_usable\<close>) in the
    order plugin, InfiniBand, sockets is taken; given this library, NCCL takes its version 8 table. The GDR test leaves nothing open.
  \<^item> InfiniBand: a registration that is held stays valid whatever others register and drop, and in a sorted cache
    the search that stops early finds what a full search finds; an identifier of a work request names its
    sends; the work requests of a group of sends go to the queue pairs in turn and tile every message in the buffer announced
    for it. A range matches by its leading bits; initialisation puts every port into exactly one device; a
    protection domain lives while a connection uses it; the queue pairs of the two sides of a connection name each other; a fatal
    event stops the communicator.
  \<^item> Where the code does not do what it means to, the theorem says what it does: a full table misses keys,
    duplicate insertions leak pages, large constant messages overflow the fingerprint arrays, a split
    header is put together wrongly, socket errors are never reported, a failed dump write blocks all
    sends, a closed connection is accepted, the collective query writes past its structure; in NCCL's
    code an index from the peer is trusted, tasks overtake each other when the queue wraps, a negative size
    is accepted, an accept is stuck on a connection closed too early, a failed initialisation succeeds when repeated,
    a plugin used by two communicators is never unloaded, a reloaded one is not initialised, the cache of registrations
    loses its order and, when it cannot grow, is written past its end, a socket that has given up goes back to connecting when it
    is polled, a negative length of a range matches nothing, an address that is not configured can be chosen, too many
    ports overrun the devices, a card without a path kills the process, and a protection domain that could not be allocated is
    counted as one.

  \<^bold>\<open>How the code is rendered.\<close> Bytes are \<open>8 word\<close>; sizes and offsets are natural numbers, with \<open>mod 2 ^ 64\<close>
  or a conversion to \<open>32 word\<close> written out where the source computes with values read from the network or
  converts to \<open>int\<close>. A result code is an \<open>int\<close> as in C. A function that may never return (the chunking
  loop with bad settings, the wait for the shared file, a lock nobody releases) returns an option, with
  \<open>None\<close> for not returning; the theorems prove \<open>Some\<close>. The kernel is a list of answers per socket: a call fails
  with an error number, moves some number of bytes, or would block when no answer is left. The answers of
  the other system calls are arguments. The part of a receive request that the socket writes into is the
  list of its bytes (\<open>rr_mem\<close>), because the source computes addresses inside it.

  \<^bold>\<open>Bounds.\<close> Loops are structural or have a measure (the bytes left to chunk, the slots left to search, the
  rank of the stage); there is no fuel. The transfer theorems assume a message of less than 2 GB (its
  size is an \<open>int\<close>), at most \<open>MAX_FINGERPRINTS_PER_REQ\<close> chunks (which every message up to 8 MB has, since
  chunks have at least 2048 bytes), a digest of 32 bytes that is zero for no chunk, a receiver's buffer at
  least as long as the message, and a receiver's cache that holds nothing else under the digests of the
  message. They exclude calls in which the kernel splits one of the two headers, because the code
  handles that wrongly (\<open>split_header_misplaced\<close>).

  \<^bold>\<open>Not modelled.\<close> What the headers of \<^verbatim>\<open>nccl_internal_impl\<close> do not define is written out (\<^verbatim>\<open>NCCLCHECK\<close>,
  \<^verbatim>\<open>SYSCHECK\<close>) or an argument: \<^verbatim>\<open>DIVUP\<close>, with the hypothesis \<open>divup_covers\<close> that a rounded-up quotient times the
  divisor reaches the dividend; \<^verbatim>\<open>parseStringList\<close> and \<^verbatim>\<open>matchIfList\<close>; the image in bytes of the structure that two InfiniBand
  communicators exchange (\<open>ce_pack\<close>, \<open>ce_unpack\<close>). Allocating memory and starting threads is taken to succeed there. Numbers of sockets and threads are taken to be at least 0.
  The hexadecimal printers of \<^verbatim>\<open>fingerprint.c\<close>, logging and the demo
  applications are input and output only. \<^verbatim>\<open>nccl_types.h\<close> and \<^verbatim>\<open>nccl_net_device.h\<close> declare enumerations the
  plugin never inspects. A null \<open>ret_entry\<close> of \<^verbatim>\<open>insert_fingerprint\<close>, which the C code leaves undefined and no caller passes, is
  outside the model. Threads are interleavings of whole calls; the mutex of the cache is a flag that
  is taken and released inside one call, so contention shows as a state in which it is held. In \<^verbatim>\<open>net.cc\<close> loading and unloading
  hold \<open>netPluginLock\<close> throughout, while \<open>ncclNetInit\<close> holds \<open>netLock\<close> only for each query of a network's state;
  it is one step here as well, so what other threads do between two of its queries is not modelled.
\<close>

end
